(* ===== verification/Prelude.thy ===== *)
theory Prelude
  imports Main "HOL-Library.AList" "HOL-Library.Char_ord" "HOL-Library.List_Lexorder"
begin

text \<open>
  The vocabulary every component of the development shares.

  \<^item> Python's \<open>str\<close> is \<^typ>\<open>string\<close>: a list of characters standing for code points below 256,
    ordered lexicographically by code point as Python orders them.  The case folding, the
    white-space test and the digit test below are Python's on that range.
  \<^item> A raised exception is the left summand of a result \<open>'e + 'a\<close> (\<open>Err\<close>), a returned value the
    right one (\<open>Ok\<close>); \<open>rbind\<close> sequences two fallible steps and \<open>rmap\<close> is a comprehension whose
    body may raise.
  \<^item> A \<open>dict\<close> is an association list in insertion order: reading is \<^const>\<open>map_of\<close>, assignment
    is \<^const>\<open>AList.update\<close> (in place for a present key, at the end for a new one), \<open>del\<close> is
    \<^const>\<open>AList.delete\<close>.
  \<^item> A parsed JSON or YAML document is a \<open>pyval\<close>.
\<close>

section \<open>Results\<close>

type_synonym ('e, 'a) result = "'e + 'a"

abbreviation Err :: "'e \<Rightarrow> ('e, 'a) result" where "Err \<equiv> Inl"
abbreviation Ok :: "'a \<Rightarrow> ('e, 'a) result" where "Ok \<equiv> Inr"

definition rbind :: "('e, 'a) result \<Rightarrow> ('a \<Rightarrow> ('e, 'b) result) \<Rightarrow> ('e, 'b) result" where
  "rbind r f = (case r of Inl e \<Rightarrow> Inl e | Inr a \<Rightarrow> f a)"

definition rmap_err :: "('e \<Rightarrow> 'f) \<Rightarrow> ('e, 'a) result \<Rightarrow> ('f, 'a) result" where
  "rmap_err f r = (case r of Inl e \<Rightarrow> Inl (f e) | Inr a \<Rightarrow> Inr a)"

definition guard_r :: "bool \<Rightarrow> 'e \<Rightarrow> ('e, unit) result" where
  "guard_r b e = (if b then Ok () else Err e)"

fun rmap :: "('a \<Rightarrow> ('e, 'b) result) \<Rightarrow> 'a list \<Rightarrow> ('e, 'b list) result" where
  "rmap f [] = Ok []"
| "rmap f (x # xs) = (case f x of Inl e \<Rightarrow> Err e
     | Inr y \<Rightarrow> (case rmap f xs of Inl e \<Rightarrow> Err e | Inr ys \<Rightarrow> Ok (y # ys)))"

named_theorems result_simps \<open>rewriting through the result monad\<close>

lemma rbind_Ok [simp]: "rbind (Ok a) f = f a"
  by (simp add: rbind_def)

lemma rbind_Err [simp]: "rbind (Err e) f = Err e"
  by (simp add: rbind_def)

lemma rbind_eq_Ok [result_simps]: "rbind r f = Ok b \<longleftrightarrow> (\<exists>a. r = Ok a \<and> f a = Ok b)"
  by (cases r) auto

lemma rbind_eq_Err [result_simps]:
  "rbind r f = Err e \<longleftrightarrow> r = Err e \<or> (\<exists>a. r = Ok a \<and> f a = Err e)"
  by (cases r) auto

lemma rmap_err_Ok [simp]: "rmap_err f r = Ok a \<longleftrightarrow> r = Ok a"
  by (cases r) (auto simp: rmap_err_def)

lemma guard_r_eq_Ok [result_simps]: "guard_r b e = Ok u \<longleftrightarrow> b"
  by (cases b) (auto simp: guard_r_def)

lemma guard_r_eq_Err [result_simps]: "guard_r b e = Err e' \<longleftrightarrow> \<not> b \<and> e' = e"
  by (auto simp: guard_r_def)

lemma rmap_Ok_iff: "rmap f xs = Ok ys \<longleftrightarrow> list_all2 (\<lambda>x y. f x = Ok y) xs ys"
proof (induction xs arbitrary: ys)
  case Nil
  then show ?case by (cases ys) auto
next
  case (Cons x xs)
  show ?case
  proof (cases ys)
    case Nil
    then show ?thesis by (auto split: sum.splits)
  next
    case (Cons z zs)
    show ?thesis
      using Cons.IH[of zs] by (cases "rmap f xs") (auto simp: Cons split: sum.splits)
  qed
qed

lemma rmap_Ok_length: "rmap f xs = Ok ys \<Longrightarrow> length ys = length xs"
  by (auto simp: rmap_Ok_iff dest: list_all2_lengthD)

lemma rmap_Ok_setD: "rmap f xs = Ok ys \<Longrightarrow> y \<in> set ys \<Longrightarrow> \<exists>x\<in>set xs. f x = Ok y"
proof (induction xs arbitrary: ys)
  case (Cons x xs)
  then show ?case by (auto split: sum.splits)
qed simp

section \<open>Strings\<close>

definition py_lower_char :: "char \<Rightarrow> char" where
  "py_lower_char c = (let n = (of_char c :: nat) in
     if (65 \<le> n \<and> n \<le> 90) \<or> (192 \<le> n \<and> n \<le> 222 \<and> n \<noteq> 215) then char_of (n + 32) else c)"

definition py_lower :: "string \<Rightarrow> string" where
  "py_lower s = map py_lower_char s"

definition py_is_space :: "char \<Rightarrow> bool" where
  "py_is_space c = (let n = (of_char c :: nat) in
     (9 \<le> n \<and> n \<le> 13) \<or> (28 \<le> n \<and> n \<le> 32) \<or> n = 133 \<or> n = 160)"

definition is_ascii_digit :: "char \<Rightarrow> bool" where
  "is_ascii_digit c = (let n = (of_char c :: nat) in 48 \<le> n \<and> n \<le> 57)"

definition is_ascii_alpha :: "char \<Rightarrow> bool" where
  "is_ascii_alpha c = (let n = (of_char c :: nat) in (65 \<le> n \<and> n \<le> 90) \<or> (97 \<le> n \<and> n \<le> 122))"

definition py_strip :: "string \<Rightarrow> string" where
  "py_strip s = rev (dropWhile py_is_space (rev (dropWhile py_is_space s)))"

definition starts_with :: "string \<Rightarrow> string \<Rightarrow> bool" where
  "starts_with s p = (take (length p) s = p)"

definition ends_with :: "string \<Rightarrow> string \<Rightarrow> bool" where
  "ends_with s p = (length p \<le> length s \<and> drop (length s - length p) s = p)"

text \<open>\<open>s.partition(c)\<close> and \<open>s.rpartition(c)\<close> for a one-character separator: the part before the
  first (after the last) separator, whether one was found, and the rest.\<close>

definition py_partition :: "char \<Rightarrow> string \<Rightarrow> string \<times> bool \<times> string" where
  "py_partition c s = (if c \<in> set s
     then (takeWhile (\<lambda>x. x \<noteq> c) s, True, tl (dropWhile (\<lambda>x. x \<noteq> c) s)) else (s, False, []))"

definition py_rpartition :: "char \<Rightarrow> string \<Rightarrow> string \<times> bool \<times> string" where
  "py_rpartition c s = (if c \<in> set s
     then (rev (tl (dropWhile (\<lambda>x. x \<noteq> c) (rev s))), True, rev (takeWhile (\<lambda>x. x \<noteq> c) (rev s)))
     else ([], False, s))"

lemma py_lower_char_code:
  "(of_char (py_lower_char c) :: nat) = (let n = of_char c in
     if (65 \<le> n \<and> n \<le> 90) \<or> (192 \<le> n \<and> n \<le> 222 \<and> n \<noteq> 215) then n + 32 else n)"
  by (simp add: py_lower_char_def Let_def)

lemma py_lower_char_idem [simp]: "py_lower_char (py_lower_char c) = py_lower_char c"
proof -
  have "(of_char (py_lower_char (py_lower_char c)) :: nat) = of_char (py_lower_char c)"
    by (simp add: py_lower_char_code[of "py_lower_char c"]) (simp add: py_lower_char_code Let_def)
  then show ?thesis by simp
qed

lemma py_lower_idem [simp]: "py_lower (py_lower s) = py_lower s"
  by (simp add: py_lower_def)

lemma py_lower_append [simp]: "py_lower (s @ t) = py_lower s @ py_lower t"
  by (simp add: py_lower_def)

lemma py_lower_Nil [simp]: "py_lower [] = []"
  by (simp add: py_lower_def)

lemma py_lower_Cons [simp]: "py_lower (c # s) = py_lower_char c # py_lower s"
  by (simp add: py_lower_def)

lemma length_py_lower [simp]: "length (py_lower s) = length s"
  by (simp add: py_lower_def)

lemma py_lower_eq_Nil [simp]: "py_lower s = [] \<longleftrightarrow> s = []"
  by (simp add: py_lower_def)

lemma starts_with_iff: "starts_with s p \<longleftrightarrow> (\<exists>r. s = p @ r)"
  by (auto simp: starts_with_def) (metis append_take_drop_id)

lemma ends_with_iff: "ends_with s p \<longleftrightarrow> (\<exists>r. s = r @ p)"
  by (auto simp: ends_with_def) (metis append_take_drop_id)

lemma py_rpartition_split:
  assumes "py_rpartition c s = (l, True, r)"
  shows "s = l @ c # r \<and> c \<notin> set r"
proof -
  have mem: "c \<in> set s" and l: "l = rev (tl (dropWhile (\<lambda>x. x \<noteq> c) (rev s)))"
    and r: "r = rev (takeWhile (\<lambda>x. x \<noteq> c) (rev s))"
    using assms by (auto simp: py_rpartition_def split: if_splits)
  have ne: "dropWhile (\<lambda>x. x \<noteq> c) (rev s) \<noteq> []"
    using mem by (metis (full_types) dropWhile_eq_Nil_conv set_rev)
  have hd: "hd (dropWhile (\<lambda>x. x \<noteq> c) (rev s)) = c"
    using hd_dropWhile[OF ne] by simp
  have "rev s = takeWhile (\<lambda>x. x \<noteq> c) (rev s) @ dropWhile (\<lambda>x. x \<noteq> c) (rev s)" by simp
  also have "dropWhile (\<lambda>x. x \<noteq> c) (rev s) = c # rev l"
    using list.collapse[OF ne] hd by (simp add: l)
  also have "takeWhile (\<lambda>x. x \<noteq> c) (rev s) = rev r"
    by (simp add: r)
  finally have "rev (rev s) = rev (rev r @ c # rev l)" by simp
  then have "s = l @ c # r" by simp
  moreover have "c \<notin> set r" by (auto simp: r dest: set_takeWhileD)
  ultimately show ?thesis by simp
qed

lemma py_rpartition_append [simp]:
  "c \<notin> set r \<Longrightarrow> py_rpartition c (l @ c # r) = (l, True, r)"
  by (simp add: py_rpartition_def takeWhile_append dropWhile_append)

lemma py_partition_split:
  assumes "py_partition c s = (l, True, r)"
  shows "s = l @ c # r \<and> c \<notin> set l"
proof -
  have mem: "c \<in> set s" and l: "l = takeWhile (\<lambda>x. x \<noteq> c) s"
    and r: "r = tl (dropWhile (\<lambda>x. x \<noteq> c) s)"
    using assms by (auto simp: py_partition_def split: if_splits)
  have ne: "dropWhile (\<lambda>x. x \<noteq> c) s \<noteq> []"
    using mem by (metis (full_types) dropWhile_eq_Nil_conv)
  then have "dropWhile (\<lambda>x. x \<noteq> c) s = c # r"
    using hd_dropWhile[OF ne] list.collapse[OF ne] by (simp add: r)
  moreover have "takeWhile (\<lambda>x. x \<noteq> c) s @ dropWhile (\<lambda>x. x \<noteq> c) s = s" by simp
  ultimately show ?thesis by (auto simp: l dest: set_takeWhileD)
qed

section \<open>Decimal numbers\<close>

text \<open>\<open>str(n)\<close> for a natural number.\<close>

definition digit_char :: "nat \<Rightarrow> char" where
  "digit_char d = char_of (48 + d)"

fun show_nat :: "nat \<Rightarrow> string" where
  "show_nat n = (if n < 10 then [digit_char n] else show_nat (n div 10) @ [digit_char (n mod 10)])"

declare show_nat.simps [simp del]

lemma digit_char_code: "d < 10 \<Longrightarrow> (of_char (digit_char d) :: nat) = 48 + d"
  by (simp add: digit_char_def)

lemma digit_char_digit: "d < 10 \<Longrightarrow> is_ascii_digit (digit_char d)"
  by (simp add: is_ascii_digit_def digit_char_code)

lemma show_nat_shape: "show_nat n \<noteq> [] \<and> (\<forall>c\<in>set (show_nat n). is_ascii_digit c)"
proof (induction n rule: show_nat.induct)
  case (1 n)
  show ?case
  proof (cases "n < 10")
    case True
    then show ?thesis by (subst (1 2) show_nat.simps) (simp add: digit_char_digit)
  next
    case False
    with "1.IH" show ?thesis by (subst (1 2) show_nat.simps) (auto simp: digit_char_digit)
  qed
qed

lemmas show_nat_ne = show_nat_shape[THEN conjunct1]
lemmas show_nat_digits = show_nat_shape[THEN conjunct2]

lemma length_show_nat: "n < 10 ^ k \<Longrightarrow> 0 < k \<Longrightarrow> length (show_nat n) \<le> k"
proof (induction n arbitrary: k rule: show_nat.induct)
  case (1 n)
  show ?case
  proof (cases "n < 10")
    case True
    then show ?thesis using "1.prems" by (subst show_nat.simps) simp
  next
    case False
    then obtain j where j: "k = Suc j" "0 < j" using "1.prems" by (cases k; cases "k - 1") auto
    then have "n div 10 < 10 ^ j" using "1.prems" by (simp add: less_mult_imp_div_less mult.commute)
    then show ?thesis using "1.IH"[OF False, of j] False j by (subst show_nat.simps) simp
  qed
qed

lemma digit_char_inj: "a < 10 \<Longrightarrow> b < 10 \<Longrightarrow> digit_char a = digit_char b \<Longrightarrow> a = b"
  by (metis add_left_cancel digit_char_code)

lemma show_nat_inj: "show_nat n = show_nat m \<Longrightarrow> n = m"
proof (induction n arbitrary: m rule: show_nat.induct)
  case (1 n)
  have sn: "show_nat k = (if k < 10 then [] else show_nat (k div 10)) @ [digit_char (k mod 10)]" for k
    by (subst show_nat.simps) simp
  have eq: "(if n < 10 then [] else show_nat (n div 10)) = (if m < 10 then [] else show_nat (m div 10))"
    "n mod 10 = m mod 10"
    using "1.prems" sn[of n] sn[of m] digit_char_inj[of "n mod 10" "m mod 10"] by auto
  show ?case
  proof (cases "n < 10")
    case True
    then have "m < 10" using eq(1) show_nat_ne[of "m div 10"] by (auto split: if_splits)
    then show ?thesis using True eq(2) by simp
  next
    case False
    then have "\<not> m < 10" using eq(1) show_nat_ne[of "n div 10"] by (auto split: if_splits)
    then have "n div 10 = m div 10" using False eq(1) "1.IH" by simp
    then show ?thesis using eq(2) by (metis div_mult_mod_eq)
  qed
qed

section \<open>Documents\<close>

text \<open>What \<open>json.loads\<close> and \<open>yaml.safe_load\<close> build.  A number with a fraction or an exponent is
  kept as the exact rational \<open>m / 10 ^ k\<close> its text denotes, as the pair \<open>PFloat m k\<close>.\<close>

datatype pyval =
    PNone
  | PBool bool
  | PInt int
  | PFloat int nat
  | PStr string
  | PList "pyval list"
  | PDict "(string \<times> pyval) list"

type_synonym dict = "(string \<times> pyval) list"

definition dict_get :: "dict \<Rightarrow> string \<Rightarrow> pyval" where
  "dict_get d k = (case map_of d k of None \<Rightarrow> PNone | Some v \<Rightarrow> v)"

fun is_str :: "pyval \<Rightarrow> bool" where
  "is_str (PStr _) = True"
| "is_str _ = False"

fun is_list :: "pyval \<Rightarrow> bool" where
  "is_list (PList _) = True"
| "is_list _ = False"

fun is_dict :: "pyval \<Rightarrow> bool" where
  "is_dict (PDict _) = True"
| "is_dict _ = False"

text \<open>\<open>isinstance(v, int)\<close> holds of a Boolean too, Python's \<open>bool\<close> being a subclass of \<open>int\<close>.\<close>

fun is_int :: "pyval \<Rightarrow> bool" where
  "is_int (PInt _) = True"
| "is_int (PBool _) = True"
| "is_int _ = False"

fun py_truthy :: "pyval \<Rightarrow> bool" where
  "py_truthy PNone = False"
| "py_truthy (PBool b) = b"
| "py_truthy (PInt i) = (i \<noteq> 0)"
| "py_truthy (PFloat m k) = (m \<noteq> 0)"
| "py_truthy (PStr s) = (s \<noteq> [])"
| "py_truthy (PList l) = (l \<noteq> [])"
| "py_truthy (PDict d) = (d \<noteq> [])"

section \<open>Sorted collections\<close>

lemma sorted_distinct_unique:
  "sorted xs \<Longrightarrow> distinct xs \<Longrightarrow> sorted ys \<Longrightarrow> distinct ys \<Longrightarrow> set xs = set ys \<Longrightarrow>
     xs = (ys :: 'a::linorder list)"
  by (rule sorted_distinct_set_unique)

text \<open>\<open>sorted({... for x in xs})\<close>: the elements once each, in order.\<close>

definition sorted_set :: "'a::linorder list \<Rightarrow> 'a list" where
  "sorted_set xs = sort (remdups xs)"

lemma set_sorted_set [simp]: "set (sorted_set xs) = set xs"
  by (simp add: sorted_set_def)

lemma sorted_sorted_set [simp]: "sorted (sorted_set xs)"
  by (simp add: sorted_set_def)

lemma distinct_sorted_set [simp]: "distinct (sorted_set xs)"
  by (simp add: sorted_set_def)

lemma sorted_set_cong: "set xs = set ys \<Longrightarrow> sorted_set xs = sorted_set ys"
  by (rule sorted_distinct_unique) simp_all

lemma filter_length_less:
  "(\<And>x. Q x \<Longrightarrow> P x) \<Longrightarrow> y \<in> set xs \<Longrightarrow> P y \<Longrightarrow> \<not> Q y \<Longrightarrow> length (filter Q xs) < length (filter P xs)"
proof (induction xs)
  case (Cons x xs)
  have "length (filter Q xs) \<le> length (filter P xs)" using Cons.prems(1) by (induction xs) auto
  then show ?case using Cons by (auto simp: less_Suc_eq_le)
qed simp

end
