(* ===== verification/Authz.thy ===== *)
theory Authz
  imports Prelude "HOL-Library.Multiset"
begin

text \<open>
  The authorization decision of \<open>campusid/authz/engine.py\<close>: rules, the matching condition, the
  deny-overrides combination and the step-up challenge.  A frozen set of strings is a
  \<^typ>\<open>string set\<close>, a time of day the number of microseconds since midnight.  Writing the
  decision to the log has no effect on the returned value and is left out.
\<close>

section \<open>Data\<close>

definition AAL1 :: string where "AAL1 = ''urn:campusid:aal1''"
definition AAL2 :: string where "AAL2 = ''urn:campusid:aal2''"

definition DEFAULT_RULE :: string where "DEFAULT_RULE = ''default-deny''"

text \<open>\<open>ASSURANCE_ORDER.get(level, 0)\<close>: an unknown level ranks with the empty one.\<close>

definition assurance_rank :: "string \<Rightarrow> nat" where
  "assurance_rank a = (if a = '''' then 0 else if a = AAL1 then 1 else if a = AAL2 then 2 else 0)"

datatype effect = PERMIT | DENY | CHALLENGE

record subject =
  s_entitlements :: "string set"
  s_affiliations :: "string set"
  s_roles :: "string set"
  s_assurance :: string
  s_person_uuid :: "string option"

record resource =
  res_id :: string
  res_classification :: string
  res_requires_aal2 :: bool

record environment =
  env_network :: string
  env_at :: "nat option"

record request =
  req_subject :: subject
  req_resource :: resource
  req_action :: string
  req_environment :: environment

record decision =
  d_effect :: effect
  d_rule_id :: string
  d_reason :: string
  d_required_assurance :: "string option"

record rule =
  r_id :: string
  r_effect :: effect
  r_description :: string
  r_entitlements :: "string set"
  r_affiliations :: "string set"
  r_roles :: "string set"
  r_actions :: "string set"
  r_resources :: "string set"
  r_resource_prefix :: string
  r_classifications :: "string set"
  r_networks :: "string set"
  r_between :: "(nat \<times> nat) option"
  r_assurance :: string

section \<open>Operations\<close>

definition d_allowed :: "decision \<Rightarrow> bool" where
  "d_allowed d = (d_effect d = PERMIT)"

definition stronger :: "string \<Rightarrow> string \<Rightarrow> string" where
  "stronger left right = (if assurance_rank left \<ge> assurance_rank right then left else right)"

definition falls_short :: "string \<Rightarrow> string \<Rightarrow> bool" where
  "falls_short held demanded =
     (if demanded = '''' then False else assurance_rank held < assurance_rank demanded)"

definition within :: "nat option \<Rightarrow> nat \<times> nat \<Rightarrow> bool" where
  "within moment window = (case moment of
       None \<Rightarrow> False
     | Some m \<Rightarrow> (let (start, end) = window in
         if start \<le> end then start \<le> m \<and> m \<le> end else m \<ge> start \<or> m \<le> end))"

definition rule_matches :: "rule \<Rightarrow> request \<Rightarrow> bool" where
  "rule_matches r req = (let subj = req_subject req; res = req_resource req in
     if r_entitlements r \<noteq> {} \<and> r_entitlements r \<inter> s_entitlements subj = {} then False
     else if r_affiliations r \<noteq> {} \<and> r_affiliations r \<inter> s_affiliations subj = {} then False
     else if r_roles r \<noteq> {} \<and> r_roles r \<inter> s_roles subj = {} then False
     else if r_actions r \<noteq> {} \<and> req_action req \<notin> r_actions r then False
     else if r_resources r \<noteq> {} \<and> res_id res \<notin> r_resources r then False
     else if r_resource_prefix r \<noteq> '''' \<and> \<not> starts_with (res_id res) (r_resource_prefix r) then False
     else if r_classifications r \<noteq> {} \<and> res_classification res \<notin> r_classifications r then False
     else if r_networks r \<noteq> {} \<and> env_network (req_environment req) \<notin> r_networks r then False
     else (case r_between r of None \<Rightarrow> True
           | Some w \<Rightarrow> within (env_at (req_environment req)) w))"

definition required_assurance :: "rule \<Rightarrow> resource \<Rightarrow> string" where
  "required_assurance r res = (let demanded = r_assurance r in
     if res_requires_aal2 res then stronger demanded AAL2 else demanded)"

definition decided :: "effect \<Rightarrow> rule \<Rightarrow> string \<Rightarrow> decision" where
  "decided eff r why =
     \<lparr>d_effect = eff, d_rule_id = r_id r, d_reason = why, d_required_assurance = None\<rparr>"

text \<open>\<open>description or fallback\<close>.\<close>

definition described :: "rule \<Rightarrow> string \<Rightarrow> string" where
  "described r fallback = (if r_description r = '''' then fallback else r_description r)"

definition permit_or_challenge :: "rule \<Rightarrow> request \<Rightarrow> decision" where
  "permit_or_challenge r req = (let demanded = required_assurance r (req_resource req) in
     if falls_short (s_assurance (req_subject req)) demanded
     then \<lparr>d_effect = CHALLENGE, d_rule_id = r_id r,
           d_reason = demanded @ '' required, session is '' @ s_assurance (req_subject req),
           d_required_assurance = Some demanded\<rparr>
     else decided PERMIT r (described r ''permitted''))"

definition decide :: "rule list \<Rightarrow> request \<Rightarrow> decision" where
  "decide rules req = (let matched = filter (\<lambda>r. rule_matches r req) rules in
     case find (\<lambda>r. r_effect r = DENY) matched of
       Some r \<Rightarrow> decided DENY r (described r ''denied by policy'')
     | None \<Rightarrow> (case find (\<lambda>r. r_effect r = PERMIT) matched of
         Some r \<Rightarrow> permit_or_challenge r req
       | None \<Rightarrow> \<lparr>d_effect = DENY, d_rule_id = DEFAULT_RULE,
                  d_reason = ''no rule permitted this request'', d_required_assurance = None\<rparr>))"

text \<open>\<open>subject_from\<close>: a session's released attributes, read as a subject.  The attribute names are
  those of \<open>campusid/policy/attributes.py\<close>.\<close>

definition ENTITLEMENT :: string where "ENTITLEMENT = ''urn:oid:1.3.6.1.4.1.5923.1.1.1.7''"
definition SCOPED_AFFILIATION :: string where
  "SCOPED_AFFILIATION = ''urn:oid:1.3.6.1.4.1.5923.1.1.1.9''"

definition attr_values :: "(string \<times> string list) list \<Rightarrow> string \<Rightarrow> string list" where
  "attr_values attrs name = (case map_of attrs name of None \<Rightarrow> [] | Some vs \<Rightarrow> vs)"

definition subject_from :: "(string \<times> string list) list \<Rightarrow> string \<Rightarrow> subject" where
  "subject_from attrs assurance =
     \<lparr>s_entitlements = set (attr_values attrs ENTITLEMENT),
      s_affiliations = (\<lambda>v. fst (py_partition (CHR ''@'') v)) ` set (attr_values attrs SCOPED_AFFILIATION),
      s_roles = {}, s_assurance = assurance, s_person_uuid = None\<rparr>"

section \<open>The combining algorithm\<close>

lemma d_effect_permit_or_challenge:
  "d_effect (permit_or_challenge r req) =
     (if falls_short (s_assurance (req_subject req)) (required_assurance r (req_resource req))
      then CHALLENGE else PERMIT)"
  by (simp add: permit_or_challenge_def decided_def Let_def)

lemma find_filter_None:
  "find P (filter Q xs) = None \<longleftrightarrow> (\<forall>x\<in>set xs. Q x \<longrightarrow> \<not> P x)"
  by (auto simp: find_None_iff)

lemma find_filter_Some: "find P (filter Q xs) = Some x \<Longrightarrow> x \<in> set xs \<and> Q x \<and> P x"
  by (induction xs) (auto split: if_splits)

text \<open>The three ways a request is decided; every property below is a case analysis over them.\<close>

lemma decide_cases:
  obtains (deny) r where "r \<in> set rules" "rule_matches r req" "r_effect r = DENY"
      "decide rules req = decided DENY r (described r ''denied by policy'')"
  | (permit) r where "r \<in> set rules" "rule_matches r req" "r_effect r = PERMIT"
      "\<forall>r\<in>set rules. rule_matches r req \<longrightarrow> r_effect r \<noteq> DENY"
      "decide rules req = permit_or_challenge r req"
  | (default) "\<forall>r\<in>set rules. rule_matches r req \<longrightarrow> r_effect r \<noteq> DENY \<and> r_effect r \<noteq> PERMIT"
      "decide rules req = \<lparr>d_effect = DENY, d_rule_id = DEFAULT_RULE,
         d_reason = ''no rule permitted this request'', d_required_assurance = None\<rparr>"
proof (cases "find (\<lambda>r. r_effect r = DENY) (filter (\<lambda>r. rule_matches r req) rules)")
  case None
  note no_deny = None
  show thesis
  proof (cases "find (\<lambda>r. r_effect r = PERMIT) (filter (\<lambda>r. rule_matches r req) rules)")
    case None
    then show thesis using no_deny find_filter_None[THEN iffD1, OF no_deny]
        find_filter_None[THEN iffD1, OF None]
      by (intro default) (auto simp: decide_def Let_def)
  next
    case (Some r)
    then show thesis using no_deny find_filter_Some[OF Some] find_filter_None[THEN iffD1, OF no_deny]
      by (intro permit[of r]) (auto simp: decide_def Let_def)
  qed
next
  case (Some r)
  then show thesis using find_filter_Some[OF Some]
    by (intro deny[of r]) (auto simp: decide_def Let_def)
qed

lemma falls_short_aal2: "falls_short held AAL2 \<longleftrightarrow> held \<noteq> AAL2"
  by (auto simp: falls_short_def assurance_rank_def AAL1_def AAL2_def)

lemma required_assurance_aal2:
  "res_requires_aal2 res \<Longrightarrow> required_assurance r res = AAL2"
  by (simp add: required_assurance_def stronger_def Let_def)
    (auto simp: assurance_rank_def AAL1_def AAL2_def split: if_splits)

section \<open>Properties\<close>

text \<open>C7. Deny overrides, and the default is to deny: a request is denied exactly when some
  matching rule denies it, whatever its place in the file, or no matching rule permits it.  The
  denial therefore does not depend on the order, nor on repetitions, of the rules.\<close>

theorem decide_deny_overrides:
  "(d_effect (decide rules req) \<noteq> DENY) =
     ((\<nexists>r. r \<in> set rules \<and> rule_matches r req \<and> r_effect r = DENY) \<and>
      (\<exists>r\<in>set rules. rule_matches r req \<and> r_effect r = PERMIT))"
  by (cases rule: decide_cases[of rules req])
    (auto simp: decided_def d_effect_permit_or_challenge)

text \<open> No policy, however written, lets a session that is not at AAL2 reach a resource that
  requires it: a permitted request on such a resource comes from an AAL2 session.\<close>

theorem permit_respects_resource_assurance:
  assumes "d_effect (decide rules req) = PERMIT"
    and "res_requires_aal2 (req_resource req)"
  shows "s_assurance (req_subject req) = AAL2"
proof -
  obtain r where "decide rules req = permit_or_challenge r req"
    using assms(1) by (cases rule: decide_cases[of rules req]) (auto simp: decided_def)
  with assms(1) have "\<not> falls_short (s_assurance (req_subject req)) (required_assurance r (req_resource req))"
    by (simp add: d_effect_permit_or_challenge split: if_splits)
  then show ?thesis
    using assms(2) by (simp add: required_assurance_aal2 falls_short_aal2)
qed

definition open_rule :: rule where
  "open_rule = \<lparr>r_id = ''open'', r_effect = PERMIT, r_description = '''', r_entitlements = {},
     r_affiliations = {}, r_roles = {}, r_actions = {}, r_resources = {}, r_resource_prefix = '''',
     r_classifications = {}, r_networks = {}, r_between = None, r_assurance = ''''\<rparr>"

definition grades_request :: "string \<Rightarrow> request" where
  "grades_request level = \<lparr>req_subject = \<lparr>s_entitlements = {}, s_affiliations = {}, s_roles = {},
       s_assurance = level, s_person_uuid = None\<rparr>,
     req_resource = \<lparr>res_id = ''grades'', res_classification = ''internal'', res_requires_aal2 = True\<rparr>,
     req_action = ''read'', req_environment = \<lparr>env_network = '''', env_at = None\<rparr>\<rparr>"

theorem permit_respects_resource_assurance_witness:
  "d_effect (decide [open_rule] (grades_request AAL2)) = PERMIT \<and>
   s_assurance (req_subject (grades_request AAL2)) = AAL2"
proof -
  have p: "d_effect (decide [open_rule] (grades_request AAL2)) = PERMIT"
    by (simp add: decide_def open_rule_def grades_request_def rule_matches_def Let_def
        permit_or_challenge_def decided_def required_assurance_def stronger_def falls_short_def
        assurance_rank_def AAL1_def AAL2_def)
  have a: "res_requires_aal2 (req_resource (grades_request AAL2))"
    by (simp add: grades_request_def)
  show ?thesis using p permit_respects_resource_assurance[OF p a] by blast
qed

text \<open> Every decision names what decided it: the default rule for an unmatched request, or
  else a rule of the policy that matches the request, and then the rule denies exactly when the
  decision does.  A challenge always says which assurance to ask for, and never one the session
  already has.\<close>

theorem decide_names_its_rule:
  "(d_rule_id (decide rules req) = DEFAULT_RULE \<and> d_effect (decide rules req) = DENY \<and>
      (\<nexists>r. r \<in> set rules \<and> rule_matches r req \<and> r_effect r \<in> {DENY, PERMIT})) \<or>
   (\<exists>r\<in>set rules. rule_matches r req \<and> d_rule_id (decide rules req) = r_id r \<and>
      (r_effect r = DENY) = (d_effect (decide rules req) = DENY) \<and>
      (d_effect (decide rules req) = CHALLENGE) =
        (\<exists>a. d_required_assurance (decide rules req) = Some a \<and>
             assurance_rank (s_assurance (req_subject req)) < assurance_rank a))"
proof (cases rule: decide_cases[of rules req])
  case (permit r)
  then show ?thesis
    by (intro disjI2 bexI[of _ r])
      (auto simp: permit_or_challenge_def decided_def Let_def falls_short_def split: if_splits)
qed (auto simp: decided_def)

text \<open> The order of the permitting rules is part of a policy's meaning: two policies with the
  same rules, one permitting a request that the other answers with a challenge.\<close>

theorem permit_order_matters:
  "\<exists>rules rules' req. mset rules = mset rules' \<and>
     d_effect (decide rules req) = PERMIT \<and> d_effect (decide rules' req) = CHALLENGE"
proof -
  define strict where "strict = open_rule\<lparr>r_id := ''strict'', r_assurance := AAL2\<rparr>"
  define req where "req = (grades_request AAL1)
     \<lparr>req_resource := \<lparr>res_id = ''x'', res_classification = ''internal'', res_requires_aal2 = False\<rparr>\<rparr>"
  have 1: "d_effect (decide [open_rule, strict] req) = PERMIT"
    and 2: "d_effect (decide [strict, open_rule] req) = CHALLENGE"
    by (simp_all add: decide_def open_rule_def strict_def req_def grades_request_def
        rule_matches_def Let_def permit_or_challenge_def decided_def required_assurance_def
        falls_short_def assurance_rank_def AAL1_def AAL2_def)
  show ?thesis
    by (intro exI[of _ "[open_rule, strict]"] exI[of _ "[strict, open_rule]"] exI[of _ req])
      (simp add: 1 2)
qed

end
