(* ===== verification/Assurance.thy ===== *)
theory Assurance
  imports Authz
begin

text \<open>
  What a session may claim about how somebody authenticated: \<open>campusid/mfa/assurance.py\<close>.
  Instants and spans are integers (microseconds).  A tuple of methods is a list; the sets the code
  builds and sorts are \<^const>\<open>sorted_set\<close>.
\<close>

section \<open>Data and operations\<close>

definition PWD :: string where "PWD = ''pwd''"
definition OTP :: string where "OTP = ''otp''"
definition HWK :: string where "HWK = ''hwk''"
definition PUSH :: string where "PUSH = ''push''"
definition RECOVERY :: string where "RECOVERY = ''recovery''"
definition MFA :: string where "MFA = ''mfa''"

definition FACTOR_CATEGORIES :: "string set" where
  "FACTOR_CATEGORIES = {PWD, OTP, HWK, PUSH, RECOVERY}"

definition MAX_SPAN :: int where "MAX_SPAN = 12 * 3600 * 1000000"

record assurance =
  as_acr :: string
  as_amr :: "string list"
  as_auth_time :: int

definition normalise_methods :: "string list \<Rightarrow> string list" where
  "normalise_methods methods = sorted_set (filter (\<lambda>m. m \<noteq> '''' \<and> m \<noteq> MFA) methods)"

definition primary :: "string list \<Rightarrow> int \<Rightarrow> assurance" where
  "primary methods at = \<lparr>as_acr = AAL1, as_amr = normalise_methods methods, as_auth_time = at\<rparr>"

definition elevated :: "string list \<Rightarrow> string \<Rightarrow> int \<Rightarrow> int \<Rightarrow> int \<Rightarrow> assurance" where
  "elevated methods category since now max_span =
     (let combined = normalise_methods (methods @ [category]);
          categories = set (filter (\<lambda>m. m \<in> FACTOR_CATEGORIES) combined)
      in if card categories < 2 \<or> now - since > max_span
         then \<lparr>as_acr = AAL1, as_amr = combined, as_auth_time = now\<rparr>
         else \<lparr>as_acr = AAL2, as_amr = sorted_set (combined @ [MFA]), as_auth_time = now\<rparr>)"

definition satisfies_aal2 :: "string list \<Rightarrow> bool" where
  "satisfies_aal2 amr = (card (set (filter (\<lambda>m. m \<in> FACTOR_CATEGORIES) amr)) \<ge> 2)"

lemmas method_defs = PWD_def OTP_def HWK_def PUSH_def RECOVERY_def MFA_def FACTOR_CATEGORIES_def

section \<open>Lemmas\<close>

lemma set_normalise_methods [simp]:
  "set (normalise_methods ms) = {m \<in> set ms. m \<noteq> '''' \<and> m \<noteq> MFA}"
  by (auto simp: normalise_methods_def)

lemma normalise_methods_shape [simp]:
  "sorted (normalise_methods ms)" "distinct (normalise_methods ms)"
  by (simp_all add: normalise_methods_def)

lemma category_not_marker: "m \<in> FACTOR_CATEGORIES \<Longrightarrow> m \<noteq> MFA \<and> m \<noteq> ''''"
  by (auto simp: method_defs)

lemma categories_of_normalised:
  "{m \<in> set (normalise_methods ms). m \<in> FACTOR_CATEGORIES} = set ms \<inter> FACTOR_CATEGORIES"
  using category_not_marker by auto

lemma satisfies_aal2_alt: "satisfies_aal2 amr \<longleftrightarrow> card (set amr \<inter> FACTOR_CATEGORIES) \<ge> 2"
  by (simp add: satisfies_aal2_def Int_def)

lemma AAL1_neq_AAL2 [simp]: "AAL1 \<noteq> AAL2" "AAL2 \<noteq> AAL1"
  by (simp_all add: AAL1_def AAL2_def)

lemma elevated_cases:
  "elevated ms c since now span =
     (if card (set (ms @ [c]) \<inter> FACTOR_CATEGORIES) < 2 \<or> now - since > span
      then \<lparr>as_acr = AAL1, as_amr = normalise_methods (ms @ [c]), as_auth_time = now\<rparr>
      else \<lparr>as_acr = AAL2, as_amr = sorted_set (normalise_methods (ms @ [c]) @ [MFA]),
            as_auth_time = now\<rparr>)"
  using categories_of_normalised[of "ms @ [c]"]
  by (simp add: elevated_def Let_def del: set_normalise_methods)

section \<open>Properties\<close>

text \<open>The claimed level is honest: after a second factor the session is at AAL2 exactly when
  the methods used so far and the new one cover two distinct factor categories presented within
  the span, and it is at AAL1 otherwise.\<close>

theorem elevated_aal2_iff:
  "as_acr (elevated ms c since now span) =
     (if 2 \<le> card ((set ms \<union> {c}) \<inter> FACTOR_CATEGORIES) \<and> now - since \<le> span then AAL2 else AAL1)"
  by (auto simp: elevated_cases not_less not_le)

text \<open>The recorded methods support the claim and carry no stale marker: they are the methods
  really used (sorted, without repetitions or empty names), the \<open>mfa\<close> marker is among them exactly
  at AAL2, an AAL2 result passes the independent check on the evidence, and the authentication
  time moves to the step-up.\<close>

theorem elevated_amr_honest:
  "let a = elevated ms c since now span in
     set (as_amr a) - {MFA} = (set ms \<union> {c}) - {'''', MFA} \<and>
     (MFA \<in> set (as_amr a)) = (as_acr a = AAL2) \<and>
     (if as_acr a = AAL2 then satisfies_aal2 (as_amr a) else True) \<and>
     sorted (as_amr a) \<and> distinct (as_amr a) \<and> as_auth_time a = now"
proof -
  have marker: "'''' \<noteq> MFA" by (simp add: MFA_def)
  have cats: "insert MFA {m \<in> set (ms @ [c]). m \<noteq> '''' \<and> m \<noteq> MFA} \<inter> FACTOR_CATEGORIES
      = set (ms @ [c]) \<inter> FACTOR_CATEGORIES"
    using category_not_marker by auto
  show ?thesis
    unfolding Let_def by (auto simp: elevated_cases satisfies_aal2_alt cats[simplified] not_less)
qed

text \<open> Primary login alone never reaches AAL2, whatever methods the identity provider claims,
  and never reports multiple factors.\<close>

theorem primary_is_aal1:
  "as_acr (primary ms at) = AAL1 \<and> MFA \<notin> set (as_amr (primary ms at)) \<and>
   set (as_amr (primary ms at)) = set ms - {'''', MFA}"
  by (auto simp: primary_def)

end
