(* ===== verification/Bytes.thy ===== *)
theory Bytes
  imports Prelude "HOL-Library.Word"
begin

text \<open>
  Byte strings as the standard library treats them: Python's \<open>bytes\<close> is a list of \<^typ>\<open>8 word\<close>.
  Big-endian integers (\<open>struct.unpack\<close>, \<open>int.from_bytes\<close>) and strict UTF-8 decoding
  (\<open>bytes.decode("utf-8")\<close>), with the encoders they invert.
\<close>

type_synonym byte = "8 word"
type_synonym bytes = "byte list"

section \<open>Big-endian integers\<close>

definition be_nat :: "bytes \<Rightarrow> nat" where
  "be_nat bs = foldl (\<lambda>a b. a * 256 + unat b) 0 bs"

fun be_bytes :: "nat \<Rightarrow> nat \<Rightarrow> bytes" where
  "be_bytes 0 n = []"
| "be_bytes (Suc k) n = be_bytes k (n div 256) @ [of_nat (n mod 256)]"

lemma unat_byte_lt [simp]: "unat (b :: byte) < 256"
  using unsigned_less[of b, where ?'a=nat] by simp

lemma unat_of_nat_byte [simp]: "n < 256 \<Longrightarrow> unat (of_nat n :: byte) = n"
  by (simp add: unat_of_nat)

lemma of_nat_unat_byte: "unat b = n \<Longrightarrow> (of_nat n :: byte) = b"
  by auto

lemma be_nat_snoc [simp]: "be_nat (bs @ [b]) = be_nat bs * 256 + unat b"
  by (simp add: be_nat_def)

lemma be_nat_Nil [simp]: "be_nat [] = 0"
  by (simp add: be_nat_def)

lemma length_be_bytes [simp]: "length (be_bytes k n) = k"
  by (induction k arbitrary: n) auto

lemma be_bytes_be_nat: "be_bytes (length bs) (be_nat bs) = bs"
proof (induction bs rule: rev_induct)
  case (snoc b bs)
  have "(be_nat bs * 256 + unat b) div 256 = be_nat bs"
    "(be_nat bs * 256 + unat b) mod 256 = unat b"
    using unat_byte_lt[of b] by (simp_all add: mod_less del: unat_byte_lt)
  with snoc show ?case by simp
qed simp

lemma be_nat_be_bytes: "n < 256 ^ k \<Longrightarrow> be_nat (be_bytes k n) = n"
proof (induction k arbitrary: n)
  case (Suc k)
  then have "n div 256 < 256 ^ k" by (simp add: less_mult_imp_div_less mult.commute)
  with Suc.IH show ?case by simp
qed simp

lemma be_nat_bound: "be_nat bs < 256 ^ length bs"
proof (induction bs rule: rev_induct)
  case (snoc b bs)
  have "be_nat bs * 256 + unat b < (be_nat bs + 1) * 256"
    using unat_byte_lt[of b] by (simp del: unat_byte_lt)
  also have "\<dots> \<le> 256 ^ length bs * 256" using snoc by (intro mult_right_mono) simp_all
  finally show ?case by simp
qed simp

section \<open>UTF-8\<close>

text \<open>Decoding refuses overlong forms, surrogates and values past U+10FFFF, as the strict codec
  does.  A decoded text is its list of code points.\<close>

definition is_cont :: "byte \<Rightarrow> bool" where
  "is_cont b = (128 \<le> unat b \<and> unat b < 192)"

definition cont_bits :: "byte \<Rightarrow> nat" where
  "cont_bits b = unat b - 128"

fun utf8_decode :: "bytes \<Rightarrow> nat list option" where
  "utf8_decode [] = Some []"
| "utf8_decode (a # bs) =
    (if unat a < 128 then map_option (Cons (unat a)) (utf8_decode bs)
     else if 192 \<le> unat a \<and> unat a < 224 then
       (case bs of b # cs \<Rightarrow>
          (let cp = (unat a - 192) * 64 + cont_bits b in
           if is_cont b \<and> 128 \<le> cp then map_option (Cons cp) (utf8_decode cs) else None)
        | [] \<Rightarrow> None)
     else if 224 \<le> unat a \<and> unat a < 240 then
       (case bs of b # c # ds \<Rightarrow>
          (let cp = (unat a - 224) * 4096 + cont_bits b * 64 + cont_bits c in
           if is_cont b \<and> is_cont c \<and> 2048 \<le> cp \<and> \<not> (55296 \<le> cp \<and> cp \<le> 57343)
           then map_option (Cons cp) (utf8_decode ds) else None)
        | _ \<Rightarrow> None)
     else if 240 \<le> unat a \<and> unat a < 248 then
       (case bs of b # c # d # es \<Rightarrow>
          (let cp = (unat a - 240) * 262144 + cont_bits b * 4096 + cont_bits c * 64 + cont_bits d in
           if is_cont b \<and> is_cont c \<and> is_cont d \<and> 65536 \<le> cp \<and> cp \<le> 1114111
           then map_option (Cons cp) (utf8_decode es) else None)
        | _ \<Rightarrow> None)
     else None)"

definition valid_cp :: "nat \<Rightarrow> bool" where
  "valid_cp cp = (cp \<le> 1114111 \<and> \<not> (55296 \<le> cp \<and> cp \<le> 57343))"

definition utf8_char :: "nat \<Rightarrow> bytes" where
  "utf8_char cp =
    (if cp < 128 then [of_nat cp]
     else if cp < 2048 then [of_nat (192 + cp div 64), of_nat (128 + cp mod 64)]
     else if cp < 65536 then
       [of_nat (224 + cp div 4096), of_nat (128 + cp div 64 mod 64), of_nat (128 + cp mod 64)]
     else [of_nat (240 + cp div 262144), of_nat (128 + cp div 4096 mod 64),
           of_nat (128 + cp div 64 mod 64), of_nat (128 + cp mod 64)])"

definition utf8_encode :: "nat list \<Rightarrow> bytes" where
  "utf8_encode cps = concat (map utf8_char cps)"

lemma utf8_encode_simps [simp]:
  "utf8_encode [] = []" "utf8_encode (cp # cps) = utf8_char cp @ utf8_encode cps"
  by (simp_all add: utf8_encode_def)

lemma is_contD:
  assumes "is_cont b"
  shows "cont_bits b < 64 \<and> unat b = 128 + cont_bits b \<and> 128 + of_nat (cont_bits b) = b"
proof -
  have u: "unat b = 128 + cont_bits b" "cont_bits b < 64"
    using assms by (auto simp: is_cont_def cont_bits_def)
  then have "(of_nat (128 + cont_bits b) :: byte) = b" by (intro of_nat_unat_byte) simp
  with u show ?thesis by simp
qed

lemma base64_digit: "n = x * 64 + y \<Longrightarrow> y < 64 \<Longrightarrow> n div 64 = x \<and> n mod 64 = (y::nat)"
  by auto

lemma utf8_char2:
  assumes "192 \<le> unat a" "unat a < 224" "is_cont b" "128 \<le> cp"
    and cp: "cp = (unat a - 192) * 64 + cont_bits b"
  shows "utf8_char cp = [a, b] \<and> valid_cp cp"
proof -
  note b = is_contD[OF assms(3)]
  have "cp div 64 = unat a - 192 \<and> cp mod 64 = cont_bits b"
    using b by (intro base64_digit) (simp_all add: cp)
  moreover have "cp < 2048" using b assms(1,2) unfolding cp by linarith
  ultimately show ?thesis
    using assms(1,4) b by (auto simp: utf8_char_def valid_cp_def intro!: of_nat_unat_byte)
qed

lemma utf8_char3:
  assumes "224 \<le> unat a" "unat a < 240" "is_cont b" "is_cont c" "2048 \<le> cp"
    "\<not> (55296 \<le> cp \<and> cp \<le> 57343)"
    and cp: "cp = (unat a - 224) * 4096 + cont_bits b * 64 + cont_bits c"
  shows "utf8_char cp = [a, b, c] \<and> valid_cp cp"
proof -
  note b = is_contD[OF assms(3)] and c = is_contD[OF assms(4)]
  have d: "cp div 64 = (unat a - 224) * 64 + cont_bits b \<and> cp mod 64 = cont_bits c"
    using c by (intro base64_digit) (simp_all add: cp)
  have "cp div 64 div 64 = unat a - 224 \<and> cp div 64 mod 64 = cont_bits b"
    using d b by (intro base64_digit) simp_all
  moreover have "cp div 4096 = cp div 64 div 64" by (simp add: div_mult2_eq[symmetric])
  moreover have "cp < 65536" using assms(1,2) b c unfolding cp by linarith
  ultimately show ?thesis
    using assms(1,5,6) b c d
    by (auto simp: utf8_char_def valid_cp_def intro!: of_nat_unat_byte)
qed

lemma utf8_char4:
  assumes "240 \<le> unat a" "unat a < 248" "is_cont b" "is_cont c" "is_cont d" "65536 \<le> cp" "cp \<le> 1114111"
    and cp: "cp = (unat a - 240) * 262144 + cont_bits b * 4096 + cont_bits c * 64 + cont_bits d"
  shows "utf8_char cp = [a, b, c, d] \<and> valid_cp cp"
proof -
  note b = is_contD[OF assms(3)] and c = is_contD[OF assms(4)] and d = is_contD[OF assms(5)]
  have e: "cp div 64 = ((unat a - 240) * 64 + cont_bits b) * 64 + cont_bits c \<and> cp mod 64 = cont_bits d"
    using d by (intro base64_digit) (simp_all add: cp)
  have f: "cp div 64 div 64 = (unat a - 240) * 64 + cont_bits b \<and> cp div 64 mod 64 = cont_bits c"
    using e c by (intro base64_digit) simp_all
  have g: "cp div 64 div 64 div 64 = unat a - 240 \<and> cp div 64 div 64 mod 64 = cont_bits b"
    using f b by (intro base64_digit) simp_all
  have "cp div 4096 = cp div 64 div 64" "cp div 262144 = cp div 64 div 64 div 64"
    by (simp_all add: div_mult2_eq[symmetric])
  then show ?thesis
    using assms(1,6,7) b c d e f g
    by (auto simp: utf8_char_def valid_cp_def intro!: of_nat_unat_byte)
qed

lemma utf8_decode_sound:
  "utf8_decode bs = Some cps \<Longrightarrow> utf8_encode cps = bs \<and> (\<forall>cp\<in>set cps. valid_cp cp)"
proof (induction bs arbitrary: cps rule: utf8_decode.induct)
  case (2 a bs)
  from "2.prems" show ?case
    apply (simp only: utf8_decode.simps split: if_splits)
    subgoal using "2.IH"(1) by (auto simp: utf8_char_def valid_cp_def)
    subgoal using "2.IH"(2) utf8_char2[of a] by (auto simp: Let_def split: list.splits if_splits)
    subgoal using "2.IH"(3) utf8_char3[of a] by (auto simp: Let_def split: list.splits if_splits)
    subgoal using "2.IH"(4) utf8_char4[of a] by (auto simp: Let_def split: list.splits if_splits)
    subgoal by simp
    done
qed simp

lemma base64_assemble:
  "n = q1 * 64 + r0 \<Longrightarrow> q1 = q2 * 64 + r1 \<Longrightarrow> q2 = q3 * 64 + r2 \<Longrightarrow>
     n = q3 * 262144 + r2 * 4096 + r1 * 64 + (r0 :: nat)"
  by simp

lemma cont_byte:
  "y < 64 \<Longrightarrow> is_cont (of_nat (128 + y)) \<and> cont_bits (of_nat (128 + y)) = y"
  by (simp add: is_cont_def cont_bits_def del: of_nat_add)

lemma utf8_decode_four:
  assumes "x < 8" "y < 64" "z < 64" "w < 64"
    and "cp = x * 262144 + y * 4096 + z * 64 + w" "65536 \<le> cp" "cp \<le> 1114111"
  shows "utf8_decode (of_nat (240 + x) # of_nat (128 + y) # of_nat (128 + z) # of_nat (128 + w) # bs)
     = map_option (Cons cp) (utf8_decode bs)"
proof -
  have a: "unat (of_nat (240 + x) :: byte) = 240 + x"
    using assms(1) by (intro unat_of_nat_byte) simp
  show ?thesis
    using assms(5-7) cont_byte[OF assms(2)] cont_byte[OF assms(3)] cont_byte[OF assms(4)]
    by (simp add: a assms(1) Let_def del: of_nat_add)
qed

lemma utf8_decode_char:
  assumes "valid_cp cp"
  shows "utf8_decode (utf8_char cp @ bs) = map_option (Cons cp) (utf8_decode bs)"
proof -
  consider "cp < 128" | "128 \<le> cp" "cp < 2048" | "2048 \<le> cp" "cp < 65536" | "65536 \<le> cp" by linarith
  then show ?thesis
  proof cases
    case 2
    then have "cp div 64 < 32" by simp
    with 2 show ?thesis by (simp add: utf8_char_def is_cont_def cont_bits_def Let_def del: of_nat_add)
  next
    case 3
    then have "cp div 4096 < 16" by simp
    moreover have "cp div 4096 = cp div 64 div 64" by (simp add: div_mult2_eq[symmetric])
    then have "cp div 4096 * 4096 + cp div 64 mod 64 * 64 + cp mod 64 = cp"
      using div_mult_mod_eq[of cp 64] div_mult_mod_eq[of "cp div 64" 64] by linarith
    ultimately show ?thesis
      using 3 assms by (simp add: utf8_char_def is_cont_def cont_bits_def Let_def valid_cp_def
          del: of_nat_add)
  next
    case 4
    have "cp div 4096 = cp div 64 div 64" "cp div 262144 = cp div 64 div 64 div 64"
      by (simp_all add: div_mult2_eq[symmetric])
    then have digits: "cp = cp div 262144 * 262144 + cp div 4096 mod 64 * 4096 + cp div 64 mod 64 * 64 + cp mod 64"
      using base64_assemble[of cp "cp div 64" "cp mod 64" "cp div 64 div 64" "cp div 64 mod 64"
          "cp div 64 div 64 div 64" "cp div 64 div 64 mod 64"] by simp
    have lt: "cp div 262144 < 8" "cp \<le> 1114111"
      using assms by (simp_all add: valid_cp_def div_less_iff_less_mult)
    have "utf8_char cp = [of_nat (240 + cp div 262144), of_nat (128 + cp div 4096 mod 64),
        of_nat (128 + cp div 64 mod 64), of_nat (128 + cp mod 64)]"
      using 4 by (simp add: utf8_char_def)
    then show ?thesis
      by (simp only: append.simps) (rule utf8_decode_four[OF lt(1) _ _ _ digits 4 lt(2)]; simp)
  qed (simp add: utf8_char_def)
qed

lemma utf8_decode_encode: "\<forall>cp\<in>set cps. valid_cp cp \<Longrightarrow> utf8_decode (utf8_encode cps) = Some cps"
  by (induction cps) (simp_all add: utf8_decode_char)

lemma utf8_decode_iff:
  "utf8_decode bs = Some cps \<longleftrightarrow> bs = utf8_encode cps \<and> (\<forall>cp\<in>set cps. valid_cp cp)"
  using utf8_decode_sound utf8_decode_encode by blast

end
