(* ===== verification/Cbor.thy ===== *)
theory Cbor
  imports Bytes
begin

unbundle bit_operations_syntax

text \<open>
  The partial CBOR decoder of \<open>campusid/mfa/cbor.py\<close>, which reads the attestation object and the
  COSE key of a WebAuthn credential.

  The source threads the nesting depth upwards and refuses past \<open>MAX_DEPTH\<close>; the model threads the
  levels still allowed downwards, \<open>MAX_DEPTH + 1 - depth\<close>, so that running out of levels is the
  refusal and the recursion is structural.  The loops over \<open>range(count)\<close> are recursions on the
  count.  A \<open>dict\<close> is kept as its list of entries in the order read.

  The main result is that the decoder accepts exactly the canonical encodings: \<open>cbor_encode\<close> is
  the reference encoder, \<open>cbor_wf\<close> the well-formed items and \<open>cbor_depth\<close> their nesting.
\<close>

section \<open>Data\<close>

definition MAX_DEPTH :: nat where "MAX_DEPTH = 16"

datatype cbor =
    CInt int
  | CBytes bytes
  | CText "nat list"
  | CArray "cbor list"
  | CMap "(cbor \<times> cbor) list"
  | CBool bool
  | CNull

datatype cbor_error =
    TooDeep
  | RanOutOfInput
  | NotUtf8
  | BadMapKey
  | DuplicateKey
  | UnsupportedSimple nat
  | UnsupportedMajor nat
  | IndefiniteLength
  | ReservedInformation nat
  | NotShortest nat
  | Claimed nat
  | TrailingBytes nat

section \<open>Operations\<close>

text \<open>\<open>_take\<close>: the check precedes the read.\<close>

definition take_bytes :: "bytes \<Rightarrow> nat \<Rightarrow> nat \<Rightarrow> (cbor_error, bytes) result" where
  "take_bytes data off len =
     (if off + len > length data then Err (Claimed len) else Ok (take len (drop off data)))"

text \<open>\<open>MINIMUM\<close> and \<open>_shortest\<close>.\<close>

definition MINIMUM :: "nat \<Rightarrow> nat" where
  "MINIMUM minor = (if minor = 24 then 24 else if minor = 25 then 2 ^ 8
     else if minor = 26 then 2 ^ 16 else 2 ^ 32)"

definition shortest :: "nat \<Rightarrow> nat \<Rightarrow> (cbor_error, unit) result" where
  "shortest value minor = (if value < MINIMUM minor then Err (NotShortest value) else Ok ())"

definition wide_argument :: "bytes \<Rightarrow> nat \<Rightarrow> nat \<Rightarrow> nat \<Rightarrow> (cbor_error, nat \<times> nat) result" where
  "wide_argument data off minor width =
     (case take_bytes data (off + 1) width of Inl e \<Rightarrow> Err e
      | Inr bs \<Rightarrow> (case shortest (be_nat bs) minor of Inl e \<Rightarrow> Err e
         | Inr _ \<Rightarrow> Ok (be_nat bs, off + 1 + width)))"

definition argument :: "bytes \<Rightarrow> nat \<Rightarrow> nat \<Rightarrow> (cbor_error, nat \<times> nat) result" where
  "argument data off minor =
     (if minor < 24 then Ok (minor, off + 1)
      else if minor = 24 then wide_argument data off 24 1
      else if minor = 25 then wide_argument data off 25 2
      else if minor = 26 then wide_argument data off 26 4
      else if minor = 27 then wide_argument data off 27 8
      else if minor = 31 then Err IndefiniteLength
      else Err (ReservedInformation minor))"

text \<open>\<open>isinstance(key, int | str | bytes)\<close>, where a Boolean is an \<open>int\<close>, and \<open>key in mapping\<close>,
  where Python identifies \<open>True\<close> with \<open>1\<close> and \<open>False\<close> with \<open>0\<close>.\<close>

fun is_map_key :: "cbor \<Rightarrow> bool" where
  "is_map_key (CInt _) = True"
| "is_map_key (CText _) = True"
| "is_map_key (CBytes _) = True"
| "is_map_key (CBool _) = True"
| "is_map_key _ = False"

fun key_value :: "cbor \<Rightarrow> cbor" where
  "key_value (CBool b) = CInt (if b then 1 else 0)"
| "key_value k = k"

definition key_in :: "cbor \<Rightarrow> (cbor \<times> cbor) list \<Rightarrow> bool" where
  "key_in k m = (key_value k \<in> key_value ` fst ` set m)"

type_synonym item_reader = "bytes \<Rightarrow> nat \<Rightarrow> (cbor_error, cbor \<times> nat) result"

fun array_loop :: "item_reader \<Rightarrow> nat \<Rightarrow> bytes \<Rightarrow> nat \<Rightarrow> cbor list \<Rightarrow>
    (cbor_error, cbor list \<times> nat) result" where
  "array_loop rd 0 data off items = Ok (items, off)"
| "array_loop rd (Suc n) data off items =
     (case rd data off of Inl e \<Rightarrow> Err e
      | Inr (item, off') \<Rightarrow> array_loop rd n data off' (items @ [item]))"

fun map_loop :: "item_reader \<Rightarrow> nat \<Rightarrow> bytes \<Rightarrow> nat \<Rightarrow> (cbor \<times> cbor) list \<Rightarrow>
    (cbor_error, (cbor \<times> cbor) list \<times> nat) result" where
  "map_loop rd 0 data off m = Ok (m, off)"
| "map_loop rd (Suc n) data off m =
     (case rd data off of Inl e \<Rightarrow> Err e
      | Inr (key, off1) \<Rightarrow>
          if \<not> is_map_key key then Err BadMapKey
          else if key_in key m then Err DuplicateKey
          else (case rd data off1 of Inl e \<Rightarrow> Err e
            | Inr (v, off2) \<Rightarrow> map_loop rd n data off2 (m @ [(key, v)])))"

fun cbor_item :: "nat \<Rightarrow> bytes \<Rightarrow> nat \<Rightarrow> (cbor_error, cbor \<times> nat) result" where
  "cbor_item 0 data off = Err TooDeep"
| "cbor_item (Suc levels) data off =
     (if off \<ge> length data then Err RanOutOfInput
      else let initial = data ! off;
               major = unat (drop_bit 5 initial);
               minor = unat (initial AND 0x1F)
      in if major = 0 \<or> major = 1 then
           (case argument data off minor of Inl e \<Rightarrow> Err e
            | Inr (v, off') \<Rightarrow> Ok (CInt (if major = 0 then int v else -1 - int v), off'))
         else if major = 2 \<or> major = 3 then
           (case argument data off minor of Inl e \<Rightarrow> Err e
            | Inr (len, off') \<Rightarrow> (case take_bytes data off' len of Inl e \<Rightarrow> Err e
               | Inr chunk \<Rightarrow> if major = 2 then Ok (CBytes chunk, off' + len)
                   else (case utf8_decode chunk of
                       Some cps \<Rightarrow> Ok (CText cps, off' + len)
                     | None \<Rightarrow> Err NotUtf8)))
         else if major = 4 then
           (case argument data off minor of Inl e \<Rightarrow> Err e
            | Inr (n, off') \<Rightarrow> (case array_loop (cbor_item levels) n data off' [] of Inl e \<Rightarrow> Err e
               | Inr (items, off'') \<Rightarrow> Ok (CArray items, off'')))
         else if major = 5 then
           (case argument data off minor of Inl e \<Rightarrow> Err e
            | Inr (n, off') \<Rightarrow> (case map_loop (cbor_item levels) n data off' [] of Inl e \<Rightarrow> Err e
               | Inr (m, off'') \<Rightarrow> Ok (CMap m, off'')))
         else if major = 7 then
           (if minor = 20 then Ok (CBool False, off + 1)
            else if minor = 21 then Ok (CBool True, off + 1)
            else if minor = 22 then Ok (CNull, off + 1)
            else Err (UnsupportedSimple minor))
         else Err (UnsupportedMajor major))"

definition decode_prefix :: "bytes \<Rightarrow> (cbor_error, cbor \<times> nat) result" where
  "decode_prefix data = cbor_item (MAX_DEPTH + 1) data 0"

definition cbor_decode :: "bytes \<Rightarrow> (cbor_error, cbor) result" where
  "cbor_decode data = (case decode_prefix data of Inl e \<Rightarrow> Err e
     | Inr (v, off) \<Rightarrow> if off \<noteq> length data then Err (TrailingBytes (length data - off)) else Ok v)"

section \<open>The canonical encoding\<close>

definition head_byte :: "nat \<Rightarrow> nat \<Rightarrow> byte" where
  "head_byte major minor = of_nat (major * 32 + minor)"

definition cbor_head :: "nat \<Rightarrow> nat \<Rightarrow> bytes" where
  "cbor_head major n =
     (if n < 24 then [head_byte major n]
      else if n < 2 ^ 8 then head_byte major 24 # be_bytes 1 n
      else if n < 2 ^ 16 then head_byte major 25 # be_bytes 2 n
      else if n < 2 ^ 32 then head_byte major 26 # be_bytes 4 n
      else head_byte major 27 # be_bytes 8 n)"

fun cbor_encode :: "cbor \<Rightarrow> bytes" where
  "cbor_encode (CInt i) = (if i \<ge> 0 then cbor_head 0 (nat i) else cbor_head 1 (nat (-1 - i)))"
| "cbor_encode (CBytes b) = cbor_head 2 (length b) @ b"
| "cbor_encode (CText cps) = cbor_head 3 (length (utf8_encode cps)) @ utf8_encode cps"
| "cbor_encode (CArray xs) = cbor_head 4 (length xs) @ concat (map cbor_encode xs)"
| "cbor_encode (CMap kvs) =
     cbor_head 5 (length kvs) @ concat (map (\<lambda>(k, v). cbor_encode k @ cbor_encode v) kvs)"
| "cbor_encode (CBool b) = [head_byte 7 (if b then 21 else 20)]"
| "cbor_encode CNull = [head_byte 7 22]"

fun cbor_wf :: "cbor \<Rightarrow> bool" where
  "cbor_wf (CInt i) = (- (2 ^ 64) \<le> i \<and> i < 2 ^ 64)"
| "cbor_wf (CBytes b) = (length b < 2 ^ 64)"
| "cbor_wf (CText cps) = (list_all valid_cp cps \<and> length (utf8_encode cps) < 2 ^ 64)"
| "cbor_wf (CArray xs) = (length xs < 2 ^ 64 \<and> list_all cbor_wf xs)"
| "cbor_wf (CMap kvs) = (length kvs < 2 ^ 64 \<and> list_all (\<lambda>(k, v). cbor_wf k \<and> cbor_wf v) kvs \<and>
     list_all (\<lambda>(k, v). is_map_key k) kvs \<and> distinct (map (\<lambda>(k, v). key_value k) kvs))"
| "cbor_wf (CBool b) = True"
| "cbor_wf CNull = True"

fun cbor_depth :: "cbor \<Rightarrow> nat" where
  "cbor_depth (CArray xs) = Suc (foldr max (map cbor_depth xs) 0)"
| "cbor_depth (CMap kvs) = Suc (foldr max (map (\<lambda>(k, v). max (cbor_depth k) (cbor_depth v)) kvs) 0)"
| "cbor_depth _ = 1"


section \<open>Segments of the input\<close>

text \<open>\<open>segment data off bs off'\<close>: the input holds \<open>bs\<close> from \<open>off\<close> up to \<open>off'\<close>.  Everything the
  decoder reads is described by a segment, and segments compose by concatenation.\<close>

definition segment :: "bytes \<Rightarrow> nat \<Rightarrow> bytes \<Rightarrow> nat \<Rightarrow> bool" where
  "segment data off bs off' =
     (off' = off + length bs \<and> off' \<le> length data \<and> take (length bs) (drop off data) = bs)"

lemma segment_Nil [simp]: "segment data off [] off' \<longleftrightarrow> off' = off \<and> off \<le> length data"
  by (auto simp: segment_def)

lemma segment_append:
  "segment data off (as @ bs) off' \<longleftrightarrow> (\<exists>mid. segment data off as mid \<and> segment data mid bs off')"
  by (auto simp: segment_def take_add add.assoc add.commute append_eq_append_conv)

lemma segment_end: "segment data off bs off' \<Longrightarrow> off' = off + length bs"
  by (simp add: segment_def)

lemma segment_Cons:
  "segment data off (b # bs) off' \<longleftrightarrow>
     off < length data \<and> data ! off = b \<and> segment data (off + 1) bs off'"
  by (cases "off < length data") (auto simp: segment_def Cons_nth_drop_Suc[symmetric])

lemma take_bytes_iff:
  "take_bytes data off len = Ok bs \<longleftrightarrow> length bs = len \<and> segment data off bs (off + len)"
  by (auto simp: take_bytes_def segment_def)

section \<open>Heads\<close>

lemma unat_major: "unat (drop_bit 5 (b :: byte)) = unat b div 32"
  by (simp only: unat_drop_bit_eq) (simp add: drop_bit_eq_div)

lemma unat_minor: "unat ((b :: byte) AND 0x1F) = unat b mod 32"
proof -
  have "b AND 0x1F = take_bit 5 b" by (simp add: take_bit_eq_mask mask_eq_exp_minus_1)
  then show ?thesis by (simp only: unsigned_take_bit_eq) (simp add: take_bit_eq_mod)
qed

lemma head_byte_parts:
  assumes "major < 8" "minor < 32"
  shows "unat (head_byte major minor) div 32 = major" "unat (head_byte major minor) mod 32 = minor"
proof -
  have "unat (head_byte major minor) = major * 32 + minor"
    using assms unfolding head_byte_def by (intro unat_of_nat_byte) simp
  then show "unat (head_byte major minor) div 32 = major" "unat (head_byte major minor) mod 32 = minor"
    using assms by simp_all
qed

lemma head_byte_of_parts: "head_byte (unat b div 32) (unat b mod 32) = b"
  unfolding head_byte_def by (simp only: div_mult_mod_eq) simp

lemma head_byte_eq_iff:
  "major < 8 \<Longrightarrow> minor < 32 \<Longrightarrow> b = head_byte major minor \<longleftrightarrow> unat b div 32 = major \<and> unat b mod 32 = minor"
  using head_byte_parts head_byte_of_parts by metis

lemma wide_argument_iff:
  assumes "off < length data"
  shows "wide_argument data off minor width = Ok (n, off') \<longleftrightarrow>
     MINIMUM minor \<le> n \<and> n < 256 ^ width \<and> segment data (off + 1) (be_bytes width n) off'"
proof
  assume "wide_argument data off minor width = Ok (n, off')"
  then obtain bs where bs: "take_bytes data (off + 1) width = Ok bs" "n = be_nat bs"
      "off' = off + 1 + width" "MINIMUM minor \<le> n"
    by (auto simp: wide_argument_def shortest_def split: sum.splits if_splits)
  then have "length bs = width" "segment data (off + 1) bs (off + 1 + width)"
    by (auto simp: take_bytes_iff)
  with bs show "MINIMUM minor \<le> n \<and> n < 256 ^ width \<and> segment data (off + 1) (be_bytes width n) off'"
    using be_nat_bound[of bs] be_bytes_be_nat[of bs] by auto
next
  assume a: "MINIMUM minor \<le> n \<and> n < 256 ^ width \<and> segment data (off + 1) (be_bytes width n) off'"
  then have "off' = off + 1 + width" by (simp add: segment_def)
  then have "take_bytes data (off + 1) width = Ok (be_bytes width n)"
    using a by (simp add: take_bytes_iff)
  with a \<open>off' = _\<close> show "wide_argument data off minor width = Ok (n, off')"
    by (simp add: wide_argument_def shortest_def be_nat_be_bytes)
qed

lemma argument_iff:
  assumes off: "off < length data"
    and minor: "minor = unat (data ! off) mod 32" and major: "major = unat (data ! off) div 32"
  shows "argument data off minor = Ok (n, off') \<longleftrightarrow>
     n < 2 ^ 64 \<and> segment data off (cbor_head major n) off'"
proof -
  have lt: "major < 8" "minor < 32"
    using major minor by (simp_all add: div_less_iff_less_mult)
  have b: "data ! off = head_byte major m \<longleftrightarrow> minor = m" if "m < 32" for m
    using head_byte_eq_iff[OF lt(1) that, of "data ! off"] major minor by auto
  note wide = wide_argument_iff[OF off]
  consider "minor < 24" | "minor = 24" | "minor = 25" | "minor = 26" | "minor = 27" | "27 < minor"
    by linarith
  then show ?thesis
    by cases (auto simp: argument_def cbor_head_def segment_Cons off b wide MINIMUM_def Suc_le_eq
        simp del: be_bytes.simps)
qed

lemma segment_headD:
  assumes "major < 8" "segment data off (cbor_head major n @ bs) off'"
  shows "off < length data \<and> unat (data ! off) div 32 = major"
  using assms head_byte_parts(1)[of major]
  by (auto simp: cbor_head_def segment_append segment_Cons split: if_splits)

section \<open>The contract of an item reader\<close>

text \<open>What the array and map loops rely on: at a given number of levels the reader accepts exactly
  the canonical encodings of the well-formed items nested no deeper.\<close>

locale cbor_reader =
  fixes rd :: item_reader and levels :: nat
  assumes reads: "rd data off = Ok (v, off') \<longleftrightarrow>
    segment data off (cbor_encode v) off' \<and> cbor_wf v \<and> cbor_depth v \<le> levels"
begin

lemma array_loop_reads:
  "array_loop rd k data off acc = Ok (items, off') \<longleftrightarrow>
     (\<exists>xs. items = acc @ xs \<and> length xs = k \<and>
       segment data off (concat (map cbor_encode xs)) off' \<and>
       list_all (\<lambda>x. cbor_wf x \<and> cbor_depth x \<le> levels) xs) \<and> off \<le> length data"
  if "off \<le> length data"
  using that
proof (induction k arbitrary: off acc)
  case 0
  then show ?case by auto
next
  case (Suc k)
  show ?case (is "?L \<longleftrightarrow> ?R")
  proof
    assume ?L
    then obtain x mid where x: "rd data off = Ok (x, mid)"
        and rest: "array_loop rd k data mid (acc @ [x]) = Ok (items, off')"
      by (auto split: sum.splits)
    from x have sx: "segment data off (cbor_encode x) mid" "cbor_wf x" "cbor_depth x \<le> levels"
      by (auto simp: reads)
    then have "mid \<le> length data" by (simp add: segment_def)
    with rest obtain xs where "items = (acc @ [x]) @ xs" "length xs = k"
        "segment data mid (concat (map cbor_encode xs)) off'"
        "list_all (\<lambda>x. cbor_wf x \<and> cbor_depth x \<le> levels) xs"
      using Suc.IH[of mid "acc @ [x]"] by auto
    with sx show ?R
      using Suc.prems by (intro conjI exI[of _ "x # xs"]) (auto simp: segment_append)
  next
    assume ?R
    then obtain x xs where xs: "items = acc @ x # xs" "length xs = k"
        "segment data off (cbor_encode x @ concat (map cbor_encode xs)) off'"
        "cbor_wf x" "cbor_depth x \<le> levels" "list_all (\<lambda>x. cbor_wf x \<and> cbor_depth x \<le> levels) xs"
      by (auto simp: length_Suc_conv)
    then obtain mid where mid: "segment data off (cbor_encode x) mid"
        "segment data mid (concat (map cbor_encode xs)) off'"
      by (auto simp: segment_append)
    then have "rd data off = Ok (x, mid)" "mid \<le> length data"
      using xs by (auto simp: reads segment_def)
    with xs mid show ?L using Suc.IH[of mid "acc @ [x]"] by auto
  qed
qed

lemma map_loop_reads:
  "map_loop rd k data off acc = Ok (m, off') \<longleftrightarrow>
     (\<exists>kvs. m = acc @ kvs \<and> length kvs = k \<and>
       segment data off (concat (map (\<lambda>(k, v). cbor_encode k @ cbor_encode v) kvs)) off' \<and>
       list_all (\<lambda>(k, v). cbor_wf k \<and> cbor_wf v \<and> cbor_depth k \<le> levels \<and> cbor_depth v \<le> levels) kvs \<and>
       list_all (\<lambda>(k, v). is_map_key k) kvs \<and>
       distinct (map (\<lambda>(k, v). key_value k) kvs) \<and>
       (\<forall>(k, v)\<in>set kvs. \<not> key_in k acc))"
  if "off \<le> length data"
  using that
proof (induction k arbitrary: off acc)
  case 0
  then show ?case by auto
next
  case (Suc n)
  have key_snoc: "key_in k (acc @ [(x, y)]) \<longleftrightarrow> key_in k acc \<or> key_value k = key_value x" for k x y
    by (auto simp: key_in_def)
  show ?case (is "?L \<longleftrightarrow> ?R")
  proof
    assume ?L
    then obtain x mid y mid' where x: "rd data off = Ok (x, mid)" "is_map_key x" "\<not> key_in x acc"
        "rd data mid = Ok (y, mid')"
        and rest: "map_loop rd n data mid' (acc @ [(x, y)]) = Ok (m, off')"
      by (auto split: sum.splits if_splits)
    then have sx: "segment data off (cbor_encode x @ cbor_encode y) mid'"
        and ok: "cbor_wf x" "cbor_depth x \<le> levels" "cbor_wf y" "cbor_depth y \<le> levels"
      by (auto simp: reads segment_append)
    then have "mid' \<le> length data" by (simp add: segment_def)
    from Suc.IH[OF this, of "acc @ [(x, y)]"] rest obtain kvs where kvs:
        "m = acc @ (x, y) # kvs" "length kvs = n"
        "segment data mid' (concat (map (\<lambda>(k, v). cbor_encode k @ cbor_encode v) kvs)) off'"
        "list_all (\<lambda>(k, v). cbor_wf k \<and> cbor_wf v \<and> cbor_depth k \<le> levels \<and> cbor_depth v \<le> levels) kvs"
        "list_all (\<lambda>(k, v). is_map_key k) kvs" "distinct (map (\<lambda>(k, v). key_value k) kvs)"
        "\<forall>(k, v)\<in>set kvs. \<not> key_in k acc \<and> key_value k \<noteq> key_value x"
      by (auto simp: key_snoc)
    with sx ok x show ?R
      by (intro exI[of _ "(x, y) # kvs"]) (auto simp: segment_append)
  next
    assume ?R
    then obtain x y kvs where kvs: "m = acc @ (x, y) # kvs" "length kvs = n"
        "segment data off (cbor_encode x @ cbor_encode y @
            concat (map (\<lambda>(k, v). cbor_encode k @ cbor_encode v) kvs)) off'"
        "cbor_wf x" "cbor_depth x \<le> levels" "cbor_wf y" "cbor_depth y \<le> levels"
        "is_map_key x" "\<not> key_in x acc"
        "list_all (\<lambda>(k, v). cbor_wf k \<and> cbor_wf v \<and> cbor_depth k \<le> levels \<and> cbor_depth v \<le> levels) kvs"
        "list_all (\<lambda>(k, v). is_map_key k) kvs" "distinct (map (\<lambda>(k, v). key_value k) kvs)"
        "\<forall>(k, v)\<in>set kvs. \<not> key_in k acc \<and> key_value k \<noteq> key_value x"
      by (force simp: length_Suc_conv)
    then obtain mid mid' where mid: "segment data off (cbor_encode x) mid"
        "segment data mid (cbor_encode y) mid'"
        "segment data mid' (concat (map (\<lambda>(k, v). cbor_encode k @ cbor_encode v) kvs)) off'"
      by (auto simp: segment_append)
    then have rd: "rd data off = Ok (x, mid)" "rd data mid = Ok (y, mid')" and le: "mid' \<le> length data"
      using kvs by (auto simp: reads segment_def)
    from Suc.IH[OF le, of "acc @ [(x, y)]"] kvs mid
    have "map_loop rd n data mid' (acc @ [(x, y)]) = Ok (m, off')"
      by (auto simp: key_snoc)
    with rd kvs show ?L by simp
  qed
qed

end


section \<open>The decoder accepts exactly the canonical encodings\<close>

lemma cbor_depth_pos [simp]: "0 < cbor_depth v"
  by (cases v) simp_all

lemma foldr_max_le: "foldr max (map f xs) 0 \<le> (n::nat) \<longleftrightarrow> list_all (\<lambda>x. f x \<le> n) xs"
  by (induction xs) auto

lemma list_all_conj: "list_all (\<lambda>x. P x \<and> Q x) xs \<longleftrightarrow> list_all P xs \<and> list_all Q xs"
  by (induction xs) auto

context cbor_reader begin

lemma item_array:
  assumes "off < length data" "unat (data ! off) div 32 = 4"
  shows "(case argument data off (unat (data ! off) mod 32) of Inl e \<Rightarrow> Err e
      | Inr (n, off1) \<Rightarrow> (case array_loop rd n data off1 [] of Inl e \<Rightarrow> Err e
          | Inr (items, off2) \<Rightarrow> Ok (CArray items, off2))) = Ok (v, off') \<longleftrightarrow>
    (\<exists>xs. v = CArray xs \<and> segment data off (cbor_encode v) off' \<and> cbor_wf v \<and>
       cbor_depth v \<le> Suc levels)" (is "?L \<longleftrightarrow> ?R")
proof
  note arg = argument_iff[OF assms(1) refl refl, unfolded assms(2)]
  assume ?L
  then obtain n off1 xs where a: "argument data off (unat (data ! off) mod 32) = Ok (n, off1)"
      and l: "array_loop rd n data off1 [] = Ok (xs, off')" and v: "v = CArray xs"
    by (auto split: sum.splits)
  from a have h: "n < 2 ^ 64" "segment data off (cbor_head 4 n) off1" by (simp_all add: arg)
  then have "off1 \<le> length data" by (simp add: segment_def)
  with l h v show ?R
    by (auto simp: array_loop_reads segment_append foldr_max_le list_all_conj)
next
  note arg = argument_iff[OF assms(1) refl refl, unfolded assms(2)]
  assume ?R
  then obtain xs off1 where v: "v = CArray xs" "cbor_wf v" "cbor_depth v \<le> Suc levels"
      and h: "segment data off (cbor_head 4 (length xs)) off1"
        "segment data off1 (concat (map cbor_encode xs)) off'"
    by (auto simp: segment_append)
  then have a: "argument data off (unat (data ! off) mod 32) = Ok (length xs, off1)"
    and le: "off1 \<le> length data" by (auto simp: arg segment_def)
  have "array_loop rd (length xs) data off1 [] = Ok (xs, off')"
    using v h le by (auto simp: array_loop_reads foldr_max_le list_all_conj)
  with a v show ?L by simp
qed

lemma item_map:
  assumes "off < length data" "unat (data ! off) div 32 = 5"
  shows "(case argument data off (unat (data ! off) mod 32) of Inl e \<Rightarrow> Err e
      | Inr (n, off1) \<Rightarrow> (case map_loop rd n data off1 [] of Inl e \<Rightarrow> Err e
          | Inr (m, off2) \<Rightarrow> Ok (CMap m, off2))) = Ok (v, off') \<longleftrightarrow>
    (\<exists>m. v = CMap m \<and> segment data off (cbor_encode v) off' \<and> cbor_wf v \<and>
       cbor_depth v \<le> Suc levels)" (is "?L \<longleftrightarrow> ?R")
proof
  note arg = argument_iff[OF assms(1) refl refl, unfolded assms(2)]
  assume ?L
  then obtain n off1 m where a: "argument data off (unat (data ! off) mod 32) = Ok (n, off1)"
      and l: "map_loop rd n data off1 [] = Ok (m, off')" and v: "v = CMap m"
    by (auto split: sum.splits)
  from a have h: "n < 2 ^ 64" "segment data off (cbor_head 5 n) off1" by (simp_all add: arg)
  then have "off1 \<le> length data" by (simp add: segment_def)
  with l h v show ?R
    by (auto simp: map_loop_reads segment_append foldr_max_le list_all_iff split_beta)
next
  note arg = argument_iff[OF assms(1) refl refl, unfolded assms(2)]
  assume ?R
  then obtain m off1 where v: "v = CMap m" "cbor_wf v" "cbor_depth v \<le> Suc levels"
      and h: "segment data off (cbor_head 5 (length m)) off1"
        "segment data off1 (concat (map (\<lambda>(k, v). cbor_encode k @ cbor_encode v) m)) off'"
    by (auto simp: segment_append)
  then have a: "argument data off (unat (data ! off) mod 32) = Ok (length m, off1)"
    and le: "off1 \<le> length data" by (auto simp: arg segment_def)
  have "map_loop rd (length m) data off1 [] = Ok (m, off')"
    using v h le by (auto simp: map_loop_reads foldr_max_le list_all_iff split_beta key_in_def)
  with a v show ?L by simp
qed

end

lemma item_int:
  assumes "off < length data" "major = unat (data ! off) div 32" "major = 0 \<or> major = 1"
  shows "(case argument data off (unat (data ! off) mod 32) of Inl e \<Rightarrow> Err e
      | Inr (n, off1) \<Rightarrow> Ok (CInt (if major = 0 then int n else -1 - int n), off1)) = Ok (v, off') \<longleftrightarrow>
    (\<exists>i. v = CInt i \<and> (major = 0) = (0 \<le> i) \<and> segment data off (cbor_encode v) off' \<and> cbor_wf v)"
  (is "?L \<longleftrightarrow> ?R")
proof -
  note arg = argument_iff[OF assms(1) refl assms(2)]
  have "?L \<longleftrightarrow> (\<exists>n. argument data off (unat (data ! off) mod 32) = Ok (n, off') \<and>
      v = CInt (if major = 0 then int n else -1 - int n))"
    by (auto split: sum.splits)
  also have "\<dots> \<longleftrightarrow> (\<exists>n < 2 ^ 64. segment data off (cbor_head major n) off' \<and>
      v = CInt (if major = 0 then int n else -1 - int n))"
    by (simp only: arg conj_assoc)
  also have "\<dots> \<longleftrightarrow> ?R"
  proof
    assume ?R
    then obtain i where "v = CInt i" "(major = 0) = (0 \<le> i)" "segment data off (cbor_encode v) off'"
        "cbor_wf v" by blast
    with assms(3) show "\<exists>n < 2 ^ 64. segment data off (cbor_head major n) off' \<and>
        v = CInt (if major = 0 then int n else -1 - int n)"
      by (intro exI[of _ "if major = 0 then nat i else nat (-1 - i)"]) auto
  qed (use assms(3) in auto)
  finally show ?thesis .
qed

lemma segment_choice:
  "(\<exists>len off1 chunk. (len < N \<and> P len off1) \<and> (length chunk = len \<and> segment data off1 chunk (off1 + len)) \<and>
      off' = off1 + len \<and> Q chunk) \<longleftrightarrow>
   (\<exists>chunk off1. length chunk < N \<and> P (length chunk) off1 \<and> segment data off1 chunk off' \<and> Q chunk)"
  using segment_end by blast

lemma item_string:
  assumes "off < length data" "major = unat (data ! off) div 32" "major = 2 \<or> major = 3"
  shows "(case argument data off (unat (data ! off) mod 32) of Inl e \<Rightarrow> Err e
      | Inr (len, off1) \<Rightarrow> (case take_bytes data off1 len of Inl e \<Rightarrow> Err e
          | Inr chunk \<Rightarrow> if major = 2 then Ok (CBytes chunk, off1 + len)
              else (case utf8_decode chunk of Some cps \<Rightarrow> Ok (CText cps, off1 + len)
                    | None \<Rightarrow> Err NotUtf8))) = Ok (v, off') \<longleftrightarrow>
    (if major = 2 then (\<exists>b. v = CBytes b) else (\<exists>cps. v = CText cps)) \<and>
    segment data off (cbor_encode v) off' \<and> cbor_wf v"
  (is "?L \<longleftrightarrow> ?R")
proof -
  note arg = argument_iff[OF assms(1) refl assms(2)]
  have "?L \<longleftrightarrow> (\<exists>len off1 chunk. argument data off (unat (data ! off) mod 32) = Ok (len, off1) \<and>
      take_bytes data off1 len = Ok chunk \<and> off' = off1 + len \<and>
      (if major = 2 then v = CBytes chunk
       else \<exists>cps. v = CText cps \<and> utf8_decode chunk = Some cps))"
    by (auto split: sum.splits option.splits)
  also have "\<dots> \<longleftrightarrow> (\<exists>chunk off1. length chunk < 2 ^ 64 \<and>
      segment data off (cbor_head major (length chunk)) off1 \<and> segment data off1 chunk off' \<and>
      (if major = 2 then v = CBytes chunk
       else \<exists>cps. v = CText cps \<and> utf8_decode chunk = Some cps))"
    unfolding arg take_bytes_iff by (rule segment_choice)
  also have "\<dots> \<longleftrightarrow> ?R"
    using assms(3) by (auto simp: segment_append utf8_decode_iff list_all_iff)
  finally show ?thesis .
qed


text \<open>The major type an item is encoded under.\<close>

fun cbor_major :: "cbor \<Rightarrow> nat" where
  "cbor_major (CInt i) = (if 0 \<le> i then 0 else 1)"
| "cbor_major (CBytes _) = 2"
| "cbor_major (CText _) = 3"
| "cbor_major (CArray _) = 4"
| "cbor_major (CMap _) = 5"
| "cbor_major (CBool _) = 7"
| "cbor_major CNull = 7"

lemma cbor_encode_not_Nil [simp]: "cbor_encode v \<noteq> []"
  by (cases v) (simp_all add: cbor_head_def)

lemma segment_major:
  assumes "segment data off (cbor_encode v) off'"
  shows "off < length data \<and> unat (data ! off) div 32 = cbor_major v"
proof (cases v)
  case (CInt i)
  then show ?thesis
    using assms segment_headD[of 0 data off "nat i" "[]"] segment_headD[of 1 data off "nat (- 1 - i)" "[]"]
    by (auto split: if_splits)
qed (use assms in \<open>auto simp: segment_Cons head_byte_parts dest: segment_headD[rotated]\<close>)

lemma item_simple:
  assumes "off < length data" "unat (data ! off) div 32 = 7"
  shows "(let minor = unat (data ! off) mod 32 in
       if minor = 20 then Ok (CBool False, off + 1)
       else if minor = 21 then Ok (CBool True, off + 1)
       else if minor = 22 then Ok (CNull, off + 1)
       else Err (UnsupportedSimple minor)) = Ok (v, off') \<longleftrightarrow>
    (v = CNull \<or> (\<exists>b. v = CBool b)) \<and> segment data off (cbor_encode v) off' \<and> cbor_wf v"
proof -
  have hb: "data ! off = head_byte 7 m \<longleftrightarrow> unat (data ! off) mod 32 = m" if "m < 32" for m
    using head_byte_eq_iff[of 7 m "data ! off"] that assms(2) by simp
  show ?thesis
    using assms(1) by (cases v) (auto simp: Let_def segment_Cons hb Suc_le_eq split: if_splits)
qed

lemma cbor_item_contract: "cbor_reader (cbor_item n) n"
proof (induction n)
  case 0
  show ?case by unfold_locales simp
next
  case (Suc n)
  show ?case
  proof
    fix data off v off'
    show "cbor_item (Suc n) data off = Ok (v, off') \<longleftrightarrow>
        segment data off (cbor_encode v) off' \<and> cbor_wf v \<and> cbor_depth v \<le> Suc n" (is "?L \<longleftrightarrow> ?R")
    proof (cases "off < length data")
      case False
      then show ?thesis using segment_major by auto
    next
      case True
      define major where "major = unat (data ! off) div 32"
      have "major < 8" by (simp add: major_def div_less_iff_less_mult)
      then consider "major = 0 \<or> major = 1" | "major = 2 \<or> major = 3" | "major = 4" | "major = 5"
        | "major = 6" | "major = 7" by linarith
      then show ?thesis
      proof cases
        case 1
        have "?L \<longleftrightarrow> (\<exists>i. v = CInt i \<and> (major = 0) = (0 \<le> i) \<and> segment data off (cbor_encode v) off' \<and> cbor_wf v)"
          unfolding item_int[OF True major_def 1, symmetric] cbor_item.simps Let_def unat_major unat_minor major_def[symmetric]
          using 1 True by auto
        then show ?thesis using 1 segment_major[of data off v off'] major_def by (cases v) auto
      next
        case 2
        have "?L \<longleftrightarrow> (if major = 2 then (\<exists>b. v = CBytes b) else (\<exists>cps. v = CText cps)) \<and>
            segment data off (cbor_encode v) off' \<and> cbor_wf v"
          unfolding item_string[OF True major_def 2, symmetric] cbor_item.simps Let_def unat_major unat_minor major_def[symmetric]
          using 2 True by auto
        then show ?thesis using 2 segment_major[of data off v off'] major_def by (cases v) auto
      next
        case 3
        then have m: "unat (data ! off) div 32 = 4" by (simp add: major_def)
        have "?L \<longleftrightarrow> (\<exists>xs. v = CArray xs \<and> segment data off (cbor_encode v) off' \<and> cbor_wf v \<and> cbor_depth v \<le> Suc n)"
          unfolding cbor_reader.item_array[OF Suc.IH True m, symmetric]
            cbor_item.simps Let_def unat_major unat_minor m
          using True by simp
        then show ?thesis using m segment_major[of data off v off'] by (cases v) auto
      next
        case 4
        then have m: "unat (data ! off) div 32 = 5" by (simp add: major_def)
        have "?L \<longleftrightarrow> (\<exists>m. v = CMap m \<and> segment data off (cbor_encode v) off' \<and> cbor_wf v \<and> cbor_depth v \<le> Suc n)"
          unfolding cbor_reader.item_map[OF Suc.IH True m, symmetric]
            cbor_item.simps Let_def unat_major unat_minor m
          using True by simp
        then show ?thesis using m segment_major[of data off v off'] by (cases v) auto
      next
        case 5
        then show ?thesis using True segment_major[of data off v off'] major_def
          by (cases v) (auto simp: Let_def unat_major unat_minor)
      next
        case 6
        then have m: "unat (data ! off) div 32 = 7" by (simp add: major_def)
        have "?L \<longleftrightarrow> (v = CNull \<or> (\<exists>b. v = CBool b)) \<and> segment data off (cbor_encode v) off' \<and> cbor_wf v"
          unfolding item_simple[OF True m, symmetric]
            cbor_item.simps Let_def unat_major unat_minor m
          using True by simp
        then show ?thesis using m segment_major[of data off v off'] by (cases v) auto
      qed
    qed
  qed
qed

interpretation item: cbor_reader "cbor_item n" n for n
  by (rule cbor_item_contract)

lemma cbor_decode_iff:
  "cbor_decode data = Ok v \<longleftrightarrow> data = cbor_encode v \<and> cbor_wf v \<and> cbor_depth v \<le> MAX_DEPTH + 1"
proof -
  have "cbor_decode data = Ok v \<longleftrightarrow> cbor_item (MAX_DEPTH + 1) data 0 = Ok (v, length data)"
    by (auto simp: cbor_decode_def decode_prefix_def split: sum.splits)
  also have "\<dots> \<longleftrightarrow> data = cbor_encode v \<and> cbor_wf v \<and> cbor_depth v \<le> MAX_DEPTH + 1"
    unfolding item.reads by (auto simp: segment_def)
  finally show ?thesis .
qed

section \<open>Properties\<close>

text \<open>C5. The decoder accepts exactly the canonical encodings: an input decodes to an item if and
  only if it is that item's canonical encoding (definite lengths, shortest-form integers, valid
  UTF-8), the item's integers and lengths fit 64 bits, its maps have distinct keys of the allowed
  types, and it is nested at most \<open>MAX_DEPTH\<close> levels below the top.  In particular nothing is left
  over, and encoding then decoding is the identity.\<close>

theorem cbor_decode_exact:
  "(cbor_decode data = Ok v) =
     (data = cbor_encode v \<and> cbor_wf v \<and> cbor_depth v \<le> MAX_DEPTH + 1)"
  by (rule cbor_decode_iff)

text \<open> One credential is one byte string: two inputs that decode to the same item are equal.\<close>

theorem cbor_no_second_encoding:
  assumes "cbor_decode data = Ok v" and "cbor_decode data' = Ok v"
  shows "data = data'"
  using assms by (simp add: cbor_decode_iff)

definition cose_key :: bytes where
  "cose_key = [0xA2, 0x01, 0x02, 0x20, 0x18, 0x64]"

theorem cbor_no_second_encoding_witness:
  "cbor_decode cose_key = Ok (CMap [(CInt 1, CInt 2), (CInt (-1), CInt 100)]) \<and>
   cose_key = cbor_encode (CMap [(CInt 1, CInt 2), (CInt (-1), CInt 100)])"
proof -
  let ?m = "CMap [(CInt 1, CInt 2), (CInt (-1), CInt 100)]"
  have d: "cbor_decode cose_key = Ok ?m"
    by (simp add: cbor_decode_iff cose_key_def cbor_head_def head_byte_def MAX_DEPTH_def)
  have e: "cbor_decode (cbor_encode ?m) = Ok ?m"
    by (simp add: cbor_decode_iff MAX_DEPTH_def del: cbor_encode.simps)
  show ?thesis using d cbor_no_second_encoding[OF d e] by blast
qed

text \<open>Reading one item always moves forward and never past the end of the input, whatever
  lengths the sender claims.\<close>

theorem decode_prefix_bounds:
  assumes "decode_prefix data = Ok (v, off)"
  shows "0 < off \<and> off \<le> length data \<and> take off data = cbor_encode v"
proof -
  have "segment data 0 (cbor_encode v) off"
    using assms unfolding decode_prefix_def item.reads by blast
  then show ?thesis
    using cbor_encode_not_Nil by (auto simp: segment_def)
qed

theorem decode_prefix_bounds_witness:
  "decode_prefix [0x18, 0x64, 0xFF] = Ok (CInt 100, 2) \<and>
   take 2 [0x18, 0x64, 0xFF] = cbor_encode (CInt 100)"
proof -
  have "decode_prefix [0x18, 0x64, 0xFF] = Ok (CInt 100, 2)"
    unfolding decode_prefix_def item.reads
    by (simp add: segment_def cbor_head_def head_byte_def MAX_DEPTH_def)
  then show ?thesis using decode_prefix_bounds by blast
qed

end
