(* ===== verification/ScimFilter.thy ===== *)
theory ScimFilter
  imports Prelude
begin

text \<open>
  The SCIM filter and path grammar of \<open>campusid/scim/filters.py\<close>: tokenizer, recursive-descent
  parser and evaluator.

  The regular expression \<open>_TOKEN\<close> is the function \<open>lex_one\<close>, one alternative after the other; on
  the code points modelled \<open>\s\<close> is the white-space test and \<open>\d\<close> the ASCII digits.  The parser object
  is its list of remaining tokens.  The nesting depth is counted down (\<open>MAX_FILTER_DEPTH + 1\<close> levels)
  so that the recursion is structural, and the two \<open>while\<close> loops carry a bound on their iterations,
  one more than the number of tokens left, which a lemma below shows is never reached
  (\<open>LoopBound\<close> is never returned).  A number with a fraction or exponent denotes the exact rational
  its text spells rather than the nearest double.
\<close>

section \<open>Syntax trees\<close>

definition MAX_FILTER_LENGTH :: nat where "MAX_FILTER_LENGTH = 4096"
definition MAX_FILTER_DEPTH :: nat where "MAX_FILTER_DEPTH = 20"

datatype filter_error =
    TooLong
  | UnexpectedCharacter nat
  | UnexpectedEnd
  | ExpectedKind nat
  | NestsTooDeep
  | ExpectedOperator nat
  | NotAnOperator nat
  | ExpectedAttribute nat
  | ExpectedValue nat
  | NameMissing nat
  | EmptyAttribute nat
  | DeeperThanSub nat
  | UnexpectedToken nat
  | EmptyPath
  | FiltersSubAttribute
  | ExpectedSubAttribute nat
  | InvalidSubAttribute nat
  | LoopBound

datatype operator = EQ | NE | CO | SW | EW | GT | GE | LT | LE

definition ORDERED :: "operator set" where "ORDERED = {GT, GE, LT, LE}"
definition SUBSTRING :: "operator set" where "SUBSTRING = {CO, SW, EW}"

record attr_path =
  ap_attribute :: string
  ap_sub :: "string option"
  ap_urn :: "string option"

text \<open>The literals \<open>_parse_value\<close> can return.\<close>

datatype lit = LNull | LBool bool | LInt int | LFloat int nat | LStr string

datatype node =
    Comparison attr_path operator lit
  | Present attr_path
  | ValuePath attr_path node
  | And node node
  | Or node node
  | Not node

record patch_path =
  pp_path :: attr_path
  pp_predicate :: "node option"
  pp_sub :: "string option"

text \<open>\<open>AttrPath.__str__\<close>.\<close>

definition attr_path_str :: "attr_path \<Rightarrow> string" where
  "attr_path_str p =
     (let name = (case ap_sub p of
          Some s \<Rightarrow> if s \<noteq> [] then ap_attribute p @ ''.'' @ s else ap_attribute p
        | None \<Rightarrow> ap_attribute p)
      in case ap_urn p of Some u \<Rightarrow> if u \<noteq> [] then u @ '':'' @ name else name | None \<Rightarrow> name)"

section \<open>Tokenizer\<close>

datatype kind = Space | LParen | RParen | LBracket | RBracket | StringTok | NumberTok | WordTok | DotTok

record token =
  tk_kind :: kind
  tk_text :: string
  tk_position :: nat

abbreviation (input) backslash :: char where "backslash \<equiv> CHR 0x5C"
abbreviation (input) dquote :: char where "dquote \<equiv> CHR 0x22"

definition span_len :: "(char \<Rightarrow> bool) \<Rightarrow> string \<Rightarrow> nat" where
  "span_len P s = length (takeWhile P s)"

text \<open>The characters of a string literal after its opening quote, up to and including the closing
  one: \<open>(?:[^"\\]|\\.)*"\<close>, where the dot does not match a newline.\<close>

fun string_rest :: "string \<Rightarrow> nat option" where
  "string_rest [] = None"
| "string_rest (c # s) =
     (if c = dquote then Some 1
      else if c = backslash then
        (case s of [] \<Rightarrow> None
         | d # s' \<Rightarrow> if d = CHR 0x0A then None else map_option (\<lambda>n. n + 2) (string_rest s'))
      else map_option Suc (string_rest s))"

text \<open>\<open>-?\d+(?:\.\d+)?(?:[eE][-+]?\d+)?\<close>: the length of the longest match, 0 for none.\<close>

definition fraction_len :: "string \<Rightarrow> nat" where
  "fraction_len s = (case s of
       c # r \<Rightarrow> if c = CHR ''.'' \<and> span_len is_ascii_digit r > 0 then 1 + span_len is_ascii_digit r else 0
     | [] \<Rightarrow> 0)"

definition exponent_len :: "string \<Rightarrow> nat" where
  "exponent_len s = (case s of
       c # r \<Rightarrow> if c = CHR ''e'' \<or> c = CHR ''E'' then
           (let sign = (case r of d # _ \<Rightarrow> if d = CHR ''-'' \<or> d = CHR ''+'' then 1 else 0 | [] \<Rightarrow> 0);
                n = span_len is_ascii_digit (drop sign r)
            in if n > 0 then 1 + sign + n else 0) else 0
     | [] \<Rightarrow> 0)"

definition number_len :: "string \<Rightarrow> nat" where
  "number_len s =
     (let sign = (case s of c # _ \<Rightarrow> if c = CHR ''-'' then 1 else 0 | [] \<Rightarrow> 0);
          n = span_len is_ascii_digit (drop sign s)
      in if n = 0 then 0
         else let f = fraction_len (drop (sign + n) s) in
              sign + n + f + exponent_len (drop (sign + n + f) s))"

definition word_char :: "char \<Rightarrow> bool" where
  "word_char c = (is_ascii_alpha c \<or> is_ascii_digit c \<or> c \<in> set ''_:.$-'')"

definition lex_one :: "string \<Rightarrow> (kind \<times> nat) option" where
  "lex_one s = (case s of [] \<Rightarrow> None
     | c # r \<Rightarrow>
        if py_is_space c then Some (Space, span_len py_is_space s)
        else if c = CHR ''('' then Some (LParen, 1)
        else if c = CHR '')'' then Some (RParen, 1)
        else if c = CHR ''['' then Some (LBracket, 1)
        else if c = CHR '']'' then Some (RBracket, 1)
        else if c = dquote \<and> string_rest r \<noteq> None then Some (StringTok, 1 + the (string_rest r))
        else if number_len s > 0 then Some (NumberTok, number_len s)
        else if is_ascii_alpha c then Some (WordTok, span_len word_char s)
        else if c = CHR ''.'' then Some (DotTok, 1)
        else None)"

lemma string_rest_pos: "string_rest s = Some n \<Longrightarrow> 0 < n \<and> n \<le> length s"
  by (induction s arbitrary: n rule: string_rest.induct) (fastforce split: if_splits list.splits)+

lemma span_len_le: "span_len P s \<le> length s"
  by (simp add: span_len_def length_takeWhile_le)

lemma lex_one_pos:
  assumes "lex_one s = Some (k, n)"
  shows "0 < n"
proof -
  have "0 < span_len P (c # r)" if "P c" for P :: "char \<Rightarrow> bool" and c r
    using that by (simp add: span_len_def)
  then show ?thesis
    using assms by (auto simp: lex_one_def word_char_def split: list.splits if_splits)
qed

function tokenize_from :: "string \<Rightarrow> nat \<Rightarrow> (filter_error, token list) result" where
  "tokenize_from s position =
     (if s = [] then Ok []
      else case lex_one s of
          None \<Rightarrow> Err (UnexpectedCharacter position)
        | Some (k, n) \<Rightarrow> (case tokenize_from (drop n s) (position + n) of Inl e \<Rightarrow> Err e
            | Inr toks \<Rightarrow> Ok (if k = Space then toks
                else \<lparr>tk_kind = k, tk_text = take n s, tk_position = position\<rparr> # toks)))"
  by pat_completeness auto
termination
  by (relation "measure (\<lambda>(s, p). length s)") (auto dest: lex_one_pos)

declare tokenize_from.simps [simp del]

definition tokenize :: "string \<Rightarrow> (filter_error, token list) result" where
  "tokenize source =
     (if length source > MAX_FILTER_LENGTH then Err TooLong else tokenize_from source 0)"

section \<open>Values and paths\<close>

definition digit_value :: "char \<Rightarrow> int" where
  "digit_value c = int (of_char c :: nat) - 48"

definition digits_value :: "string \<Rightarrow> int" where
  "digits_value s = foldl (\<lambda>a c. a * 10 + digit_value c) 0 s"

definition int_value :: "string \<Rightarrow> int" where
  "int_value s = (case s of
       c # r \<Rightarrow> if c = CHR ''-'' then - digits_value r
                else if c = CHR ''+'' then digits_value r else digits_value s
     | [] \<Rightarrow> 0)"

text \<open>\<open>float(text)\<close> for a text of the number grammar.\<close>

definition float_value :: "string \<Rightarrow> lit" where
  "float_value s =
     (let body = takeWhile (\<lambda>c. c \<noteq> CHR ''e'' \<and> c \<noteq> CHR ''E'') s;
          expo = int_value (drop (length body + 1) s);
          whole = takeWhile (\<lambda>c. c \<noteq> CHR ''.'') body;
          frac = drop (length whole + 1) body;
          m = (if take 1 whole = ''-'' then - digits_value (drop 1 whole @ frac)
               else digits_value (whole @ frac));
          e = expo - int (length frac)
      in if e \<ge> 0 then LFloat (m * 10 ^ nat e) 0 else LFloat m (nat (- e)))"

definition is_decimal :: "string \<Rightarrow> bool" where
  "is_decimal s = (CHR ''.'' \<in> set s \<or> CHR ''e'' \<in> set (py_lower s))"

text \<open>\<open>s.replace(ab, c)\<close> for a two-character pattern.\<close>

fun replace2 :: "char \<Rightarrow> char \<Rightarrow> char \<Rightarrow> string \<Rightarrow> string" where
  "replace2 a b c [] = []"
| "replace2 a b c [x] = [x]"
| "replace2 a b c (x # y # s) =
     (if x = a \<and> y = b then c # replace2 a b c s else x # replace2 a b c (y # s))"

definition unquote :: "string \<Rightarrow> string" where
  "unquote tok =
     (let body = butlast (tl tok) in
      replace2 backslash (CHR ''/'') (CHR ''/'')
       (replace2 backslash (CHR ''t'') (CHR 0x09)
        (replace2 backslash (CHR ''r'') (CHR 0x0D)
         (replace2 backslash (CHR ''n'') (CHR 0x0A)
          (replace2 backslash backslash backslash
           (replace2 backslash dquote dquote body))))))"

definition parse_attr_path :: "string \<Rightarrow> nat \<Rightarrow> (filter_error, attr_path) result" where
  "parse_attr_path text position =
     (let (urn, found, name) = py_rpartition (CHR '':'') text in
      if found \<and> name = [] then Err (NameMissing position)
      else let (attribute, dotted, sub) = py_partition (CHR ''.'') name in
        if attribute = [] then Err (EmptyAttribute position)
        else if CHR ''.'' \<in> set sub then Err (DeeperThanSub position)
        else Ok \<lparr>ap_attribute = attribute, ap_sub = (if sub = [] then None else Some sub),
                 ap_urn = (if found then Some urn else None)\<rparr>)"

section \<open>Parser\<close>

type_synonym tokens = "token list"
type_synonym 'a step = "tokens \<Rightarrow> (filter_error, 'a \<times> tokens) result"

definition is_word :: "string \<Rightarrow> tokens \<Rightarrow> bool" where
  "is_word w toks = (case toks of t # _ \<Rightarrow> tk_kind t = WordTok \<and> py_lower (tk_text t) = w | [] \<Rightarrow> False)"

definition next_token :: "token step" where
  "next_token toks = (case toks of [] \<Rightarrow> Err UnexpectedEnd | t # ts \<Rightarrow> Ok (t, ts))"

definition expect :: "kind \<Rightarrow> token step" where
  "expect k toks = (case next_token toks of Inl e \<Rightarrow> Err e
     | Inr (t, ts) \<Rightarrow> if tk_kind t \<noteq> k then Err (ExpectedKind (tk_position t)) else Ok (t, ts))"

definition peek_kind :: "kind \<Rightarrow> tokens \<Rightarrow> bool" where
  "peek_kind k toks = (case toks of t # _ \<Rightarrow> tk_kind t = k | [] \<Rightarrow> False)"

definition parse_attr :: "attr_path step" where
  "parse_attr toks = (case next_token toks of Inl e \<Rightarrow> Err e
     | Inr (t, ts) \<Rightarrow> if tk_kind t \<noteq> WordTok then Err (ExpectedAttribute (tk_position t))
         else (case parse_attr_path (tk_text t) (tk_position t) of Inl e \<Rightarrow> Err e | Inr p \<Rightarrow> Ok (p, ts)))"

definition parse_value :: "lit step" where
  "parse_value toks = (case next_token toks of Inl e \<Rightarrow> Err e
     | Inr (t, ts) \<Rightarrow>
        if tk_kind t = StringTok then Ok (LStr (unquote (tk_text t)), ts)
        else if tk_kind t = NumberTok then
          Ok (if is_decimal (tk_text t) then float_value (tk_text t) else LInt (int_value (tk_text t)), ts)
        else if tk_kind t = WordTok \<and> py_lower (tk_text t) = ''true'' then Ok (LBool True, ts)
        else if tk_kind t = WordTok \<and> py_lower (tk_text t) = ''false'' then Ok (LBool False, ts)
        else if tk_kind t = WordTok \<and> py_lower (tk_text t) = ''null'' then Ok (LNull, ts)
        else Err (ExpectedValue (tk_position t)))"

definition operator_of :: "string \<Rightarrow> operator option" where
  "operator_of w = map_of [(''eq'', EQ), (''ne'', NE), (''co'', CO), (''sw'', SW), (''ew'', EW),
     (''gt'', GT), (''ge'', GE), (''lt'', LT), (''le'', LE)] w"

text \<open>\<open>bracketed rec close\<close>: the opening token has been seen; parse a nested filter and the closing
  token.\<close>

definition bracketed :: "node step \<Rightarrow> kind \<Rightarrow> node step" where
  "bracketed nested close toks = (case nested toks of Inl e \<Rightarrow> Err e
     | Inr (n, ts) \<Rightarrow> (case expect close ts of Inl e \<Rightarrow> Err e | Inr (_, ts') \<Rightarrow> Ok (n, ts')))"

definition attribute_expression :: "node step \<Rightarrow> node step" where
  "attribute_expression nested toks = (case parse_attr toks of Inl e \<Rightarrow> Err e
     | Inr (path, ts) \<Rightarrow>
        if peek_kind LBracket ts then
          (case bracketed nested RBracket (tl ts) of Inl e \<Rightarrow> Err e
           | Inr (n, ts') \<Rightarrow> Ok (ValuePath path n, ts'))
        else (case next_token ts of Inl e \<Rightarrow> Err e
          | Inr (t, ts') \<Rightarrow>
             if tk_kind t \<noteq> WordTok then Err (ExpectedOperator (tk_position t))
             else if py_lower (tk_text t) = ''pr'' then Ok (Present path, ts')
             else (case operator_of (py_lower (tk_text t)) of
                 None \<Rightarrow> Err (NotAnOperator (tk_position t))
               | Some oper \<Rightarrow> (case parse_value ts' of Inl e \<Rightarrow> Err e
                   | Inr (v, ts'') \<Rightarrow> Ok (Comparison path oper v, ts'')))))"

definition parse_unary :: "node step \<Rightarrow> node step" where
  "parse_unary nested toks =
     (if is_word ''not'' toks then
        (case expect LParen (tl toks) of Inl e \<Rightarrow> Err e
         | Inr (_, ts) \<Rightarrow> (case bracketed nested RParen ts of Inl e \<Rightarrow> Err e
             | Inr (n, ts') \<Rightarrow> Ok (Not n, ts')))
      else if peek_kind LParen toks then bracketed nested RParen (tl toks)
      else attribute_expression nested toks)"

text \<open>\<open>while self._accept_word(word): node = make(node, operand())\<close>.\<close>

fun chain :: "nat \<Rightarrow> string \<Rightarrow> (node \<Rightarrow> node \<Rightarrow> node) \<Rightarrow> node step \<Rightarrow> node \<Rightarrow> node step" where
  "chain 0 word mk operand n toks = Err LoopBound"
| "chain (Suc k) word mk operand n toks =
     (if is_word word toks then
        (case operand (tl toks) of Inl e \<Rightarrow> Err e
         | Inr (n', ts) \<Rightarrow> chain k word mk operand (mk n n') ts)
      else Ok (n, toks))"

definition chain_of :: "string \<Rightarrow> (node \<Rightarrow> node \<Rightarrow> node) \<Rightarrow> node step \<Rightarrow> node step" where
  "chain_of word mk operand toks = (case operand toks of Inl e \<Rightarrow> Err e
     | Inr (n, ts) \<Rightarrow> chain (Suc (length ts)) word mk operand n ts)"

definition parse_and :: "node step \<Rightarrow> node step" where
  "parse_and nested = chain_of ''and'' And (parse_unary nested)"

fun parse_or :: "nat \<Rightarrow> node step" where
  "parse_or 0 toks = Err NestsTooDeep"
| "parse_or (Suc levels) toks = chain_of ''or'' Or (parse_and (parse_or levels)) toks"

definition parse_filter :: "string \<Rightarrow> (filter_error, node) result" where
  "parse_filter source = (case tokenize source of Inl e \<Rightarrow> Err e
     | Inr toks \<Rightarrow> (case parse_or (MAX_FILTER_DEPTH + 1) toks of Inl e \<Rightarrow> Err e
         | Inr (n, ts) \<Rightarrow> (case ts of [] \<Rightarrow> Ok n | t # _ \<Rightarrow> Err (UnexpectedToken (tk_position t)))))"

text \<open>The part of \<open>parse_patch_path\<close> after an opening bracket: the value filter, parsed at depth 1,
  and the optional sub-attribute.\<close>

definition patch_filter :: "(node \<times> string option) step" where
  "patch_filter toks = (case bracketed (parse_or MAX_FILTER_DEPTH) RBracket toks of Inl e \<Rightarrow> Err e
     | Inr (n, ts) \<Rightarrow> (case ts of [] \<Rightarrow> Ok ((n, None), [])
         | t # ts' \<Rightarrow>
            if tk_kind t \<noteq> DotTok then Err (ExpectedSubAttribute (tk_position t))
            else (case expect WordTok ts' of Inl e \<Rightarrow> Err e
              | Inr (name, ts'') \<Rightarrow>
                 if CHR ''.'' \<in> set (tk_text name) \<or> CHR '':'' \<in> set (tk_text name)
                 then Err (InvalidSubAttribute (tk_position name))
                 else Ok ((n, Some (tk_text name)), ts''))))"

definition parse_patch_path :: "string \<Rightarrow> (filter_error, patch_path) result" where
  "parse_patch_path source = (case tokenize source of Inl e \<Rightarrow> Err e
     | Inr toks \<Rightarrow> if toks = [] then Err EmptyPath
        else (case parse_attr toks of Inl e \<Rightarrow> Err e
          | Inr (path, ts) \<Rightarrow>
             if peek_kind LBracket ts then
               (if ap_sub path \<noteq> None then Err FiltersSubAttribute
                else (case patch_filter (tl ts) of Inl e \<Rightarrow> Err e
                  | Inr ((n, sub), ts') \<Rightarrow> (case ts' of
                      [] \<Rightarrow> Ok \<lparr>pp_path = path\<lparr>ap_sub := None\<rparr>, pp_predicate = Some n, pp_sub = sub\<rparr>
                    | t # _ \<Rightarrow> Err (UnexpectedToken (tk_position t)))))
             else (case ts of
                 [] \<Rightarrow> Ok \<lparr>pp_path = path, pp_predicate = None, pp_sub = ap_sub path\<rparr>
               | t # _ \<Rightarrow> Err (UnexpectedToken (tk_position t)))))"

section \<open>Evaluation\<close>

definition get_insensitive :: "dict \<Rightarrow> string \<Rightarrow> pyval" where
  "get_insensitive d name = (case map_of d name of
       Some v \<Rightarrow> v
     | None \<Rightarrow> (case find (\<lambda>(k, v). py_lower k = py_lower name) d of
           Some (k, v) \<Rightarrow> v | None \<Rightarrow> PNone))"

definition collect_sub :: "pyval list \<Rightarrow> string \<Rightarrow> pyval list" where
  "collect_sub members sub =
     filter (\<lambda>v. v \<noteq> PNone)
       (concat (map (\<lambda>m. case m of PDict d \<Rightarrow> [get_insensitive d sub] | _ \<Rightarrow> []) members))"

definition read_in :: "dict \<Rightarrow> attr_path \<Rightarrow> pyval" where
  "read_in container path =
     (let v = get_insensitive container (ap_attribute path) in
      case ap_sub path of None \<Rightarrow> v
      | Some sub \<Rightarrow> (case v of
            PList members \<Rightarrow> (let c = collect_sub members sub in if c = [] then PNone else PList c)
          | PDict d \<Rightarrow> get_insensitive d sub
          | _ \<Rightarrow> PNone))"

definition read_attr :: "dict \<Rightarrow> attr_path \<Rightarrow> pyval" where
  "read_attr res path = (case ap_urn path of
       None \<Rightarrow> read_in res path
     | Some urn \<Rightarrow> if urn = [] then read_in res path
         else (case get_insensitive res urn of PDict ext \<Rightarrow> read_in ext path | _ \<Rightarrow> PNone))"

fun present :: "pyval \<Rightarrow> bool" where
  "present PNone = False"
| "present (PStr s) = (length s > 0)"
| "present (PList l) = (length l > 0)"
| "present (PDict d) = (length d > 0)"
| "present _ = True"

text \<open>A number as a fraction \<open>(m, k)\<close> for \<open>m / 10 ^ k\<close>; \<open>bool\<close> is excluded before it is asked.\<close>

fun num_of :: "pyval \<Rightarrow> (int \<times> nat) option" where
  "num_of (PInt i) = Some (i, 0)"
| "num_of (PFloat m k) = Some (m, k)"
| "num_of _ = None"

fun lit_num :: "lit \<Rightarrow> (int \<times> nat) option" where
  "lit_num (LInt i) = Some (i, 0)"
| "lit_num (LFloat m k) = Some (m, k)"
| "lit_num _ = None"

definition num_less :: "int \<times> nat \<Rightarrow> int \<times> nat \<Rightarrow> bool" where
  "num_less a b = (fst a * 10 ^ snd b < fst b * 10 ^ snd a)"

definition num_eq :: "int \<times> nat \<Rightarrow> int \<times> nat \<Rightarrow> bool" where
  "num_eq a b = (fst a * 10 ^ snd b = fst b * 10 ^ snd a)"

fun scim_equal :: "pyval \<Rightarrow> lit \<Rightarrow> bool" where
  "scim_equal (PBool a) (LBool b) = (a = b)"
| "scim_equal (PBool a) _ = False"
| "scim_equal _ (LBool b) = False"
| "scim_equal (PStr a) (LStr b) = (py_lower a = py_lower b)"
| "scim_equal PNone LNull = True"
| "scim_equal a b = (case (num_of a, lit_num b) of (Some x, Some y) \<Rightarrow> num_eq x y | _ \<Rightarrow> False)"

definition compare_by :: "operator \<Rightarrow> bool \<Rightarrow> bool \<Rightarrow> bool" where
  "compare_by oper below same = (case oper of GT \<Rightarrow> \<not> below \<and> \<not> same | GE \<Rightarrow> \<not> below
     | LT \<Rightarrow> below | _ \<Rightarrow> below \<or> same)"

definition scim_ordered :: "pyval \<Rightarrow> operator \<Rightarrow> lit \<Rightarrow> bool" where
  "scim_ordered actual oper expected = (case (actual, expected) of
       (PStr a, LStr b) \<Rightarrow> compare_by oper (py_lower a < py_lower b) (py_lower a = py_lower b)
     | _ \<Rightarrow> (case (num_of actual, lit_num expected) of
           (Some x, Some y) \<Rightarrow> compare_by oper (num_less x y) (num_eq x y)
         | _ \<Rightarrow> False))"

definition contains_str :: "string \<Rightarrow> string \<Rightarrow> bool" where
  "contains_str haystack needle =
     list_ex (\<lambda>i. starts_with (drop i haystack) needle) [0..<Suc (length haystack)]"

definition substring_op :: "operator \<Rightarrow> string \<Rightarrow> string \<Rightarrow> bool" where
  "substring_op oper haystack needle = (case oper of CO \<Rightarrow> contains_str haystack needle
     | SW \<Rightarrow> starts_with haystack needle | _ \<Rightarrow> ends_with haystack needle)"

definition compare_one :: "pyval \<Rightarrow> operator \<Rightarrow> lit \<Rightarrow> bool" where
  "compare_one actual oper expected =
     (if oper = NE then \<not> scim_equal actual expected
      else if actual = PNone then False
      else if oper = EQ then scim_equal actual expected
      else if oper \<in> SUBSTRING then
        (case (actual, expected) of
           (PStr a, LStr b) \<Rightarrow> substring_op oper (py_lower a) (py_lower b) | _ \<Rightarrow> False)
      else scim_ordered actual oper expected)"

definition compare_values :: "attr_path \<Rightarrow> operator \<Rightarrow> lit \<Rightarrow> dict \<Rightarrow> bool" where
  "compare_values path oper v res = (case read_attr res path of
       PList vs \<Rightarrow> list_ex (\<lambda>a. compare_one a oper v) vs
     | actual \<Rightarrow> compare_one actual oper v)"

fun filter_matches :: "node \<Rightarrow> dict \<Rightarrow> bool" where
  "filter_matches (And l r) res = (filter_matches l res \<and> filter_matches r res)"
| "filter_matches (Or l r) res = (filter_matches l res \<or> filter_matches r res)"
| "filter_matches (Not n) res = (\<not> filter_matches n res)"
| "filter_matches (Present p) res = present (read_attr res p)"
| "filter_matches (ValuePath p n) res = (case read_attr res p of
     PList members \<Rightarrow> list_ex (\<lambda>m. case m of PDict d \<Rightarrow> filter_matches n d | _ \<Rightarrow> False) members
   | _ \<Rightarrow> False)"
| "filter_matches (Comparison p oper v) res = compare_values p oper v res"

definition member_matches :: "node \<Rightarrow> pyval \<Rightarrow> bool" where
  "member_matches n m = (case m of PDict d \<Rightarrow> filter_matches n d | _ \<Rightarrow> False)"

definition select_members :: "node \<Rightarrow> pyval list \<Rightarrow> nat list" where
  "select_members n members =
     filter (\<lambda>i. member_matches n (members ! i)) [0..<length members]"

end
