(* ===== verification/ScimFilterRoundtrip.thy ===== *)
theory ScimFilterRoundtrip
  imports ScimFilter
begin

text \<open>
  The parser of \<open>campusid/scim/filters.py\<close> inverts a printer: every filter tree, written out with
  the parentheses its structure needs, parses back to itself.  The theory also shows that the
  parser's loops never reach their bound and that every parse step consumes input.
\<close>

section \<open>Consuming steps\<close>

text \<open>What the loops of the parser rely on: an operand that succeeds has used up at least one token,
  and it never reports the loop bound.\<close>

locale consuming =
  fixes p :: "node step"
  assumes consumes: "p ts = Ok (n, ts') \<Longrightarrow> length ts' < length ts"
    and no_bound: "p ts \<noteq> Err LoopBound"
begin

lemma chain_fuel:
  "length ts < k \<Longrightarrow> length ts < k' \<Longrightarrow> chain k w mk p n ts = chain k' w mk p n ts"
proof (induction k arbitrary: k' n ts)
  case (Suc k)
  then obtain j where k': "k' = Suc j" by (cases k') auto
  show ?case
  proof (cases "is_word w ts")
    case True
    then obtain t ts0 where ts: "ts = t # ts0" by (auto simp: is_word_def split: list.splits)
    show ?thesis
    proof (cases "p ts0")
      case (Inr r)
      obtain n' ts' where r: "r = (n', ts')" by (cases r)
      have "length ts' < length ts0" using consumes Inr r by blast
      with Suc.prems k' ts have "chain k w mk p (mk n n') ts' = chain j w mk p (mk n n') ts'"
        by (intro Suc.IH) auto
      with True Inr r ts k' show ?thesis by simp
    qed (use True ts k' in simp)
  qed (use k' in simp)
qed simp

lemma chain_no_bound: "length ts < k \<Longrightarrow> chain k w mk p n ts \<noteq> Err LoopBound"
proof (induction k arbitrary: n ts)
  case (Suc k)
  show ?case
  proof (cases "is_word w ts")
    case True
    then obtain t ts0 where ts: "ts = t # ts0" by (auto simp: is_word_def split: list.splits)
    then show ?thesis
      using True Suc no_bound consumes[of ts0]
      by (fastforce split: sum.splits)
  qed simp
qed simp

lemma chain_shrinks: "chain k w mk p n ts = Ok (n', ts') \<Longrightarrow> length ts' \<le> length ts"
proof (induction k arbitrary: n ts)
  case (Suc k)
  show ?case
  proof (cases "is_word w ts")
    case True
    then obtain m ts0 where "p (tl ts) = Ok (m, ts0)" "chain k w mk p (mk n m) ts0 = Ok (n', ts')"
      using Suc.prems by (auto split: sum.splits)
    then show ?thesis using Suc.IH consumes[of "tl ts"] by fastforce
  qed (use Suc.prems in auto)
qed simp

lemma chain_of_consuming: "consuming (chain_of w mk p)"
proof
  fix ts n ts'
  assume "chain_of w mk p ts = Ok (n, ts')"
  then obtain m ts0 where "p ts = Ok (m, ts0)" "chain (Suc (length ts0)) w mk p m ts0 = Ok (n, ts')"
    by (auto simp: chain_of_def split: sum.splits)
  then show "length ts' < length ts" using chain_shrinks consumes by fastforce
next
  fix ts
  show "chain_of w mk p ts \<noteq> Err LoopBound"
    using no_bound chain_no_bound by (auto simp: chain_of_def simp del: chain.simps split: sum.splits)
qed

definition chain_full :: "string \<Rightarrow> (node \<Rightarrow> node \<Rightarrow> node) \<Rightarrow> node \<Rightarrow> node step" where
  "chain_full w mk n ts = chain (Suc (length ts)) w mk p n ts"

lemma chain_full_stop: "\<not> is_word w ts \<Longrightarrow> chain_full w mk n ts = Ok (n, ts)"
  by (simp add: chain_full_def)

lemma chain_full_go:
  assumes "is_word w (t # ts)" and "p ts = Ok (n', ts')"
  shows "chain_full w mk n (t # ts) = chain_full w mk (mk n n') ts'"
proof -
  have "length ts' < length ts" using consumes assms(2) .
  then have "chain (Suc (length ts)) w mk p (mk n n') ts' = chain (Suc (length ts')) w mk p (mk n n') ts'"
    by (intro chain_fuel) auto
  with assms show ?thesis by (simp add: chain_full_def)
qed

lemma chain_of_start: "p ts = Ok (n, ts') \<Longrightarrow> chain_of w mk p ts = chain_full w mk n ts'"
  by (simp add: chain_of_def chain_full_def)

lemma bracketed_consuming: "consuming (bracketed p close)"
  by unfold_locales
    (use no_bound consumes in \<open>fastforce simp: bracketed_def expect_def next_token_def
      split: sum.splits list.splits if_splits\<close>)+

lemma bracketed_close:
  "p ts = Ok (n, t # ts') \<Longrightarrow> tk_kind t = close \<Longrightarrow> bracketed p close ts = Ok (n, ts')"
  by (simp add: bracketed_def expect_def next_token_def)

end

lemma parse_attr_path_no_bound [simp]: "parse_attr_path s pos \<noteq> Err LoopBound"
  by (auto simp: parse_attr_path_def Let_def split: prod.splits)

lemma parse_attr_shrinks: "parse_attr ts = Ok (a, ts') \<Longrightarrow> length ts' < length ts"
  by (auto simp: parse_attr_def next_token_def split: list.splits if_splits sum.splits)

lemma parse_value_shrinks: "parse_value ts = Ok (v, ts') \<Longrightarrow> length ts' < length ts"
  by (auto simp: parse_value_def next_token_def split: list.splits if_splits)

lemma leaf_no_bound [simp]:
  "parse_attr ts \<noteq> Err LoopBound" "parse_value ts \<noteq> Err LoopBound" "next_token ts \<noteq> Err LoopBound"
  "expect k ts \<noteq> Err LoopBound"
  by (auto simp: parse_attr_def parse_value_def next_token_def expect_def
      split: list.splits if_splits sum.splits)

lemma next_token_Ok [simp]: "next_token ts = Ok (t, ts') \<longleftrightarrow> ts = t # ts'"
  by (auto simp: next_token_def split: list.splits)

context consuming begin

lemma attribute_expression_consuming: "consuming (attribute_expression p)"
proof -
  note br = consuming.consumes[OF bracketed_consuming] consuming.no_bound[OF bracketed_consuming]
  show ?thesis
  proof
    fix ts n ts'
    assume a: "attribute_expression p ts = Ok (n, ts')"
    then obtain path ts0 where path: "parse_attr ts = Ok (path, ts0)"
      by (auto simp: attribute_expression_def split: sum.splits)
    have "length ts' \<le> length ts0"
    proof (cases "peek_kind LBracket ts0")
      case True
      with a path obtain m where "bracketed p RBracket (tl ts0) = Ok (m, ts')"
        by (auto simp: attribute_expression_def split: sum.splits)
      from br(1)[OF this] show ?thesis by simp
    next
      case False
      with a path show ?thesis
        by (auto simp: attribute_expression_def dest!: parse_value_shrinks
            split: sum.splits if_splits option.splits)
    qed
    then show "length ts' < length ts" using parse_attr_shrinks[OF path] by simp
  next
    fix ts
    show "attribute_expression p ts \<noteq> Err LoopBound"
      using br(2) by (auto simp: attribute_expression_def split: sum.splits if_splits option.splits)
  qed
qed

lemma parse_unary_consuming: "consuming (parse_unary p)"
proof -
  note br = consuming.consumes[OF bracketed_consuming] consuming.no_bound[OF bracketed_consuming]
  note ae = consuming.consumes[OF attribute_expression_consuming]
    consuming.no_bound[OF attribute_expression_consuming]
  show ?thesis
  proof
    fix ts n ts'
    assume a: "parse_unary p ts = Ok (n, ts')"
    consider "is_word ''not'' ts" | "\<not> is_word ''not'' ts" "peek_kind LParen ts"
      | "\<not> is_word ''not'' ts" "\<not> peek_kind LParen ts" by blast
    then show "length ts' < length ts"
    proof cases
      case 1
      with a obtain t ts0 m where "expect LParen (tl ts) = Ok (t, ts0)"
          "bracketed p RParen ts0 = Ok (m, ts')"
        by (auto simp: parse_unary_def split: sum.splits)
      then show ?thesis using br(1)[of RParen ts0]
        by (cases ts) (auto simp: expect_def split: sum.splits if_splits)
    next
      case 2
      with a have "bracketed p RParen (tl ts) = Ok (n, ts')" by (simp add: parse_unary_def)
      from br(1)[OF this] show ?thesis by simp
    next
      case 3
      with a show ?thesis using ae(1) by (simp add: parse_unary_def)
    qed
  next
    fix ts
    show "parse_unary p ts \<noteq> Err LoopBound"
      using br(2) ae(2) by (auto simp: parse_unary_def split: sum.splits)
  qed
qed

lemma parse_and_consuming: "consuming (parse_and p)"
  unfolding parse_and_def by (rule consuming.chain_of_consuming[OF parse_unary_consuming])

end

lemma parse_or_consuming: "consuming (parse_or levels)"
proof (induction levels)
  case 0
  show ?case by unfold_locales simp_all
next
  case (Suc levels)
  have "parse_or (Suc levels) = chain_of ''or'' Or (parse_and (parse_or levels))"
    by (rule ext) simp
  then show ?case
    using consuming.chain_of_consuming[OF consuming.parse_and_consuming[OF Suc.IH]] by simp
qed

interpretation nested: consuming "parse_or levels" for levels
  by (rule parse_or_consuming)

interpretation unary: consuming "parse_unary (parse_or levels)" for levels
  by (rule nested.parse_unary_consuming)

interpretation conj: consuming "parse_and (parse_or levels)" for levels
  by (rule nested.parse_and_consuming)

section \<open>The printer\<close>

type_synonym word_list = "(kind \<times> string) list"

definition show_int :: "int \<Rightarrow> string" where
  "show_int i = (if i < 0 then ''-'' @ show_nat (nat (- i)) else show_nat (nat i))"

fun show_lit :: "lit \<Rightarrow> kind \<times> string" where
  "show_lit LNull = (WordTok, ''null'')"
| "show_lit (LBool b) = (WordTok, if b then ''true'' else ''false'')"
| "show_lit (LInt i) = (NumberTok, show_int i)"
| "show_lit (LFloat m k) = (NumberTok, show_int m @ ''e-'' @ show_nat k)"
| "show_lit (LStr s) = (StringTok, dquote # s @ [dquote])"

fun show_op :: "operator \<Rightarrow> string" where
  "show_op EQ = ''eq''" | "show_op NE = ''ne''" | "show_op CO = ''co''" | "show_op SW = ''sw''"
| "show_op EW = ''ew''" | "show_op GT = ''gt''" | "show_op GE = ''ge''" | "show_op LT = ''lt''"
| "show_op LE = ''le''"

definition paren :: "bool \<Rightarrow> word_list \<Rightarrow> word_list" where
  "paren b ws = (if b then (LParen, ''('') # ws @ [(RParen, '')'')] else ws)"

text \<open>\<open>show_node p n\<close>: the tokens of \<open>n\<close> where binding at least as tight as level \<open>p\<close> is needed
  (0 for \<open>or\<close>, 1 for \<open>and\<close>, 2 for an operand).\<close>

primrec show_node :: "node \<Rightarrow> nat \<Rightarrow> word_list" where
  "show_node (Comparison path oper v) p = [(WordTok, attr_path_str path), (WordTok, show_op oper), show_lit v]"
| "show_node (Present path) p = [(WordTok, attr_path_str path), (WordTok, ''pr'')]"
| "show_node (ValuePath path n) p =
     (WordTok, attr_path_str path) # (LBracket, ''['') # show_node n 0 @ [(RBracket, '']'')]"
| "show_node (And l r) p = paren (p > 1) (show_node l 1 @ (WordTok, ''and'') # show_node r 2)"
| "show_node (Or l r) p = paren (p > 0) (show_node l 0 @ (WordTok, ''or'') # show_node r 1)"
| "show_node (Not n) p = (WordTok, ''not'') # (LParen, ''('') # show_node n 0 @ [(RParen, '')'')]"

text \<open>The nesting depth the parser will see.\<close>

primrec node_levels :: "node \<Rightarrow> nat \<Rightarrow> nat" where
  "node_levels (Comparison path oper v) p = 0"
| "node_levels (Present path) p = 0"
| "node_levels (ValuePath path n) p = Suc (node_levels n 0)"
| "node_levels (And l r) p = (if p > 1 then 1 else 0) + max (node_levels l 1) (node_levels r 2)"
| "node_levels (Or l r) p = (if p > 0 then 1 else 0) + max (node_levels l 0) (node_levels r 1)"
| "node_levels (Not n) p = Suc (node_levels n 0)"

text \<open>Trees the grammar can express: attribute names made of the word characters other than the
  separators, not starting a \<open>not\<close>, and string literals without quotes and backslashes.\<close>

definition name_ok :: "string \<Rightarrow> bool" where
  "name_ok s = (s \<noteq> [] \<and> (\<forall>c\<in>set s. word_char c \<and> c \<noteq> CHR ''.'' \<and> c \<noteq> CHR '':''))"

definition path_ok :: "attr_path \<Rightarrow> bool" where
  "path_ok path = (name_ok (ap_attribute path) \<and>
     (case ap_sub path of None \<Rightarrow> True | Some s \<Rightarrow> name_ok s) \<and>
     (case ap_urn path of None \<Rightarrow> True | Some u \<Rightarrow> u \<noteq> [] \<and> (\<forall>c\<in>set u. word_char c)) \<and>
     is_ascii_alpha (hd (attr_path_str path)) \<and> py_lower (attr_path_str path) \<noteq> ''not'')"

fun lit_ok :: "lit \<Rightarrow> bool" where
  "lit_ok (LStr s) = (\<forall>c\<in>set s. c \<noteq> dquote \<and> c \<noteq> backslash)"
| "lit_ok _ = True"

primrec node_ok :: "node \<Rightarrow> bool" where
  "node_ok (Comparison path oper v) = (path_ok path \<and> lit_ok v)"
| "node_ok (Present path) = path_ok path"
| "node_ok (ValuePath path n) = (path_ok path \<and> node_ok n)"
| "node_ok (And l r) = (node_ok l \<and> node_ok r)"
| "node_ok (Or l r) = (node_ok l \<and> node_ok r)"
| "node_ok (Not n) = node_ok n"

definition show_words :: "word_list \<Rightarrow> string" where
  "show_words ws = concat (map (\<lambda>(k, t). t @ '' '') ws)"

definition show_filter :: "node \<Rightarrow> string" where
  "show_filter n = show_words (show_node n 0)"


section \<open>Numbers and names read back\<close>

lemma digit_char_value: "d < 10 \<Longrightarrow> digit_value (digit_char d) = int d"
  by (simp add: digit_value_def digit_char_code)

lemma digits_value_snoc [simp]: "digits_value (s @ [c]) = digits_value s * 10 + digit_value c"
  by (simp add: digits_value_def)

lemma digits_value_show_nat: "digits_value (show_nat n) = int n"
proof (induction n rule: show_nat.induct)
  case (1 n)
  show ?case
  proof (cases "n < 10")
    case True
    then show ?thesis by (subst show_nat.simps) (simp add: digit_char_value digits_value_def)
  next
    case False
    have "int (n div 10) * 10 + int (n mod 10) = int n"
      by (metis div_mult_mod_eq of_nat_add of_nat_mult of_nat_numeral)
    with False "1.IH" show ?thesis by (subst show_nat.simps) (simp add: digit_char_value)
  qed
qed

lemma digit_not: 
  "is_ascii_digit c \<Longrightarrow> c \<noteq> CHR ''-'' \<and> c \<noteq> CHR ''+'' \<and> c \<noteq> CHR ''.'' \<and> c \<noteq> CHR ''e'' \<and> c \<noteq> CHR ''E'' \<and>
     c \<noteq> dquote \<and> \<not> py_is_space c \<and> \<not> is_ascii_alpha c \<and> c \<noteq> CHR ''('' \<and> c \<noteq> CHR '')'' \<and>
     c \<noteq> CHR ''['' \<and> c \<noteq> CHR '']''"
  by (auto simp: is_ascii_digit_def is_ascii_alpha_def py_is_space_def Let_def)

lemma show_nat_Cons: obtains c r where "show_nat n = c # r" "is_ascii_digit c"
  using show_nat_ne[of n] show_nat_digits[of n] by (cases "show_nat n") auto

lemma int_value_show_int: "int_value (show_int i) = i"
proof -
  obtain c r where "show_nat (nat i) = c # r" "is_ascii_digit c" by (rule show_nat_Cons)
  moreover have "int (nat i) = i" if "\<not> i < 0" using that by simp
  ultimately show ?thesis
    using digit_not[of c] digits_value_show_nat[of "nat i"] digits_value_show_nat[of "nat (- i)"]
    by (auto simp: int_value_def show_int_def)
qed

lemma int_value_neg: "int_value (''-'' @ show_nat k) = - int k"
  by (simp add: int_value_def digits_value_show_nat)

lemma span_len_digits:
  "\<forall>c\<in>set ds. is_ascii_digit c \<Longrightarrow> \<not> is_ascii_digit d \<Longrightarrow> span_len is_ascii_digit (ds @ d # r) = length ds"
  by (simp add: span_len_def takeWhile_append)

lemma space_not: "\<not> is_ascii_digit (CHR '' '')" "\<not> word_char (CHR '' '')"
  by (auto simp: is_ascii_digit_def is_ascii_alpha_def word_char_def)

lemma number_len_int: "number_len (show_int i @ CHR '' '' # r) = length (show_int i)"
proof -
  obtain c s where c: "show_nat (nat i) = c # s" "is_ascii_digit c" by (rule show_nat_Cons)
  have sp: "span_len is_ascii_digit (show_nat n @ CHR '' '' # r) = length (show_nat n)" for n
    by (intro span_len_digits show_nat_digits space_not)
  have f: "fraction_len (CHR '' '' # r) = 0" "exponent_len (CHR '' '' # r) = 0"
    by (simp_all add: fraction_len_def exponent_len_def)
  show ?thesis
  proof (cases "i < 0")
    case True
    then show ?thesis
      using sp[of "nat (- i)"] show_nat_ne[of "nat (- i)"]
      by (simp add: number_len_def show_int_def Let_def f)
  next
    case False
    then have "number_len (show_int i @ CHR '' '' # r) = number_len (c # s @ CHR '' '' # r)"
      by (simp add: show_int_def c)
    then show ?thesis
      using sp[of "nat i"] False digit_not[OF c(2)] c(1)
      by (simp add: number_len_def show_int_def Let_def f)
  qed
qed

lemma number_len_float:
  "number_len (show_int m @ ''e-'' @ show_nat k @ CHR '' '' # r) = length (show_int m) + 2 + length (show_nat k)"
proof -
  obtain c s where c: "show_nat (nat m) = c # s" "is_ascii_digit c" by (rule show_nat_Cons)
  have sp: "span_len is_ascii_digit (show_nat n @ CHR ''e'' # x) = length (show_nat n)" for n x
    by (intro span_len_digits show_nat_digits) (simp add: is_ascii_digit_def)
  have sk: "span_len is_ascii_digit (show_nat k @ CHR '' '' # r) = length (show_nat k)"
    by (intro span_len_digits show_nat_digits space_not)
  have f: "fraction_len (''e-'' @ x) = 0" for x by (simp add: fraction_len_def)
  have e: "exponent_len (''e-'' @ show_nat k @ CHR '' '' # r) = 2 + length (show_nat k)"
    using sk show_nat_ne[of k] by (simp add: exponent_len_def Let_def)
  show ?thesis
  proof (cases "m < 0")
    case True
    then show ?thesis
      using sp[of "nat (- m)"] show_nat_ne[of "nat (- m)"] f e
      by (simp add: number_len_def show_int_def Let_def)
  next
    case False
    then have "number_len (show_int m @ ''e-'' @ show_nat k @ CHR '' '' # r) =
        number_len (c # s @ ''e-'' @ show_nat k @ CHR '' '' # r)"
      by (simp add: show_int_def c)
    then show ?thesis
      using sp[of "nat m"] False digit_not[OF c(2)] c(1) f e
      by (simp add: number_len_def show_int_def Let_def)
  qed
qed

lemma float_value_show: "float_value (show_int m @ ''e-'' @ show_nat k) = LFloat m k"
proof -
  have no_e: "\<forall>c\<in>set (show_int m). c \<noteq> CHR ''e'' \<and> c \<noteq> CHR ''E'' \<and> c \<noteq> CHR ''.''"
    using show_nat_digits digit_not by (auto simp: show_int_def)
  have body: "takeWhile (\<lambda>c. c \<noteq> CHR ''e'' \<and> c \<noteq> CHR ''E'') (show_int m @ ''e-'' @ show_nat k) = show_int m"
    using no_e by (simp add: takeWhile_append)
  have whole: "takeWhile (\<lambda>c. c \<noteq> CHR ''.'') (show_int m) = show_int m"
    using no_e by (simp add: takeWhile_eq_all_conv)
  have expo: "int_value (CHR ''-'' # show_nat k) = - int k" for k using int_value_neg by simp
  have expo0: "int_value (CHR ''-'' # show_nat 0) = 0" using expo[of 0] by simp
  obtain c s where c: "show_nat (nat m) = c # s" "is_ascii_digit c" by (rule show_nat_Cons)
  have "(if take 1 (show_int m) = ''-'' then - digits_value (drop 1 (show_int m))
      else digits_value (show_int m)) = m"
    using c digit_not[OF c(2)] digits_value_show_nat[of "nat m"] digits_value_show_nat[of "nat (- m)"]
    by (simp add: show_int_def)
  then show ?thesis
    unfolding float_value_def Let_def body whole using expo0 by (cases "k = 0") (simp_all add: expo split: if_splits)
qed

lemma is_decimal_int: "\<not> is_decimal (show_int i)"
proof -
  have d: "c \<noteq> CHR ''.'' \<and> py_lower_char c \<noteq> CHR ''e''" if "is_ascii_digit c" for c
    using that digit_not[OF that] by (simp add: is_ascii_digit_def py_lower_char_def Let_def)
  have m: "py_lower_char (CHR ''-'') = CHR ''-''" by (simp add: py_lower_char_def)
  have "\<forall>c\<in>set (show_int i). c \<noteq> CHR ''.'' \<and> py_lower_char c \<noteq> CHR ''e''"
    using show_nat_digits d m by (simp add: show_int_def)
  then show ?thesis
    unfolding is_decimal_def py_lower_def set_map image_iff by metis
qed

lemma is_decimal_float: "is_decimal (show_int m @ ''e-'' @ show_nat k)"
  by (simp add: is_decimal_def py_lower_char_def)

lemma replace2_id: "a \<notin> set s \<Longrightarrow> replace2 a b c s = s"
  by (induction a b c s rule: replace2.induct) auto

lemma unquote_plain: "backslash \<notin> set s \<Longrightarrow> unquote (dquote # s @ [dquote]) = s"
  by (simp add: unquote_def replace2_id)

lemma parse_attr_path_show:
  assumes "path_ok path"
  shows "parse_attr_path (attr_path_str path) pos = Ok path"
proof -
  obtain a s u where path: "path = \<lparr>ap_attribute = a, ap_sub = s, ap_urn = u\<rparr>" by (cases path)
  define name where "name = (case s of None \<Rightarrow> a | Some x \<Rightarrow> a @ ''.'' @ x)"
  have a: "a \<noteq> []" "CHR ''.'' \<notin> set a" "CHR '':'' \<notin> set a"
    using assms path by (auto simp: path_ok_def name_ok_def)
  have s: "x \<noteq> [] \<and> CHR ''.'' \<notin> set x \<and> CHR '':'' \<notin> set x" if "s = Some x" for x
    using assms path that by (auto simp: path_ok_def name_ok_def)
  have name: "name \<noteq> []" "CHR '':'' \<notin> set name"
    using a s by (auto simp: name_def split: option.splits)
  have str: "attr_path_str path = (case u of None \<Rightarrow> name | Some y \<Rightarrow> y @ '':'' @ name)"
    using assms path s by (auto simp: attr_path_str_def path_ok_def name_def Let_def split: option.splits)
  have part: "py_partition (CHR ''.'') name = (a, s \<noteq> None, case s of None \<Rightarrow> [] | Some x \<Rightarrow> x)"
    using a s by (auto simp: name_def py_partition_def takeWhile_append dropWhile_append split: option.splits)
  have rpart: "py_rpartition (CHR '':'') (attr_path_str path) =
      (case u of None \<Rightarrow> ([], False, name) | Some y \<Rightarrow> (y, True, name))"
    using name by (auto simp: str py_rpartition_def takeWhile_append dropWhile_append split: option.splits)
  show ?thesis
    unfolding parse_attr_path_def rpart
    using a s name by (cases u; cases s) (simp_all add: part path)
qed

section \<open>Lexing a printed filter\<close>

definition token_words :: "tokens \<Rightarrow> word_list" where
  "token_words ts = map (\<lambda>t. (tk_kind t, tk_text t)) ts"

lemma token_words_simps [simp]:
  "token_words [] = []"
  "token_words (t # ts) = (tk_kind t, tk_text t) # token_words ts"
  "token_words (ts @ us) = token_words ts @ token_words us"
  by (simp_all add: token_words_def)

lemma token_words_Cons:
  assumes "token_words us = (k, x) # ws"
  obtains t ts where "us = t # ts" "tk_kind t = k" "tk_text t = x" "token_words ts = ws"
  using assms by (cases us) auto

lemma token_words_append:
  assumes "token_words us = vs @ ws"
  obtains us1 us2 where "us = us1 @ us2" "token_words us1 = vs" "token_words us2 = ws"
  using assms unfolding token_words_def map_eq_append_conv by blast

definition lexable :: "kind \<times> string \<Rightarrow> bool" where
  "lexable w = (fst w \<noteq> Space \<and> snd w \<noteq> [] \<and>
     (\<forall>rest. lex_one (snd w @ CHR '' '' # rest) = Some (fst w, length (snd w))))"

lemma lexable_hd: "lexable (k, c # t) \<Longrightarrow> \<not> py_is_space c"
  by (auto simp: lexable_def lex_one_def dest!: spec[of _ "[]"] split: if_splits)

lemma tokenize_show_words:
  "\<forall>w\<in>set ws. lexable w \<Longrightarrow> \<exists>ts. tokenize_from (show_words ws) pos = Ok ts \<and> token_words ts = ws"
proof (induction ws arbitrary: pos)
  case Nil
  show ?case by (simp add: show_words_def tokenize_from.simps)
next
  case (Cons w ws)
  obtain k t where w: "w = (k, t)" by (cases w)
  have lw: "lexable (k, t)" using Cons.prems w by simp
  have "span_len py_is_space (CHR '' '' # show_words ws) = 1"
  proof (cases ws)
    case (Cons v vs)
    then obtain k' c t' where v: "v = (k', c # t')" "\<not> py_is_space c"
      using Cons.prems lexable_hd by (cases v; cases "snd v") (auto simp: lexable_def)
    then show ?thesis using Cons by (simp add: show_words_def span_len_def py_is_space_def)
  qed (simp add: show_words_def span_len_def py_is_space_def)
  then have sp: "lex_one (CHR '' '' # show_words ws) = Some (Space, 1)"
    by (simp add: lex_one_def py_is_space_def)
  have sw: "show_words ((k, t) # ws) = t @ CHR '' '' # show_words ws" by (simp add: show_words_def)
  obtain ts where ts: "tokenize_from (show_words ws) (Suc (pos + length t)) = Ok ts" "token_words ts = ws"
    using Cons by (metis list.set_intros(2))
  have "tokenize_from (CHR '' '' # show_words ws) (pos + length t) = Ok ts"
    using sp ts(1) by (simp add: tokenize_from.simps[of "CHR '' '' # show_words ws"])
  then show ?case
    using lw ts(2)
    by (simp add: w sw lexable_def tokenize_from.simps[of "t @ CHR '' '' # show_words ws"])
qed

lemma lexable_brackets:
  "lexable (LParen, ''('')" "lexable (RParen, '')'')" "lexable (LBracket, ''['')" "lexable (RBracket, '']'')"
  by (simp_all add: lexable_def lex_one_def py_is_space_def)

lemma alpha_not: "is_ascii_alpha c \<Longrightarrow> \<not> py_is_space c \<and> c \<noteq> CHR ''('' \<and> c \<noteq> CHR '')'' \<and>
    c \<noteq> CHR ''['' \<and> c \<noteq> CHR '']'' \<and> c \<noteq> dquote \<and> c \<noteq> CHR ''-'' \<and> \<not> is_ascii_digit c"
  by (auto simp: is_ascii_digit_def is_ascii_alpha_def py_is_space_def Let_def)

lemma lexable_word:
  assumes "is_ascii_alpha c" and "\<forall>x\<in>set (c # t). word_char x"
  shows "lexable (WordTok, c # t)"
proof -
  have "span_len word_char (c # t @ CHR '' '' # rest) = Suc (length t)" for rest
    using assms(2) space_not(2) by (simp add: span_len_def takeWhile_append)
  moreover have "number_len (c # t @ CHR '' '' # rest) = 0" for rest
    using alpha_not[OF assms(1)] by (simp add: number_len_def span_len_def)
  ultimately show ?thesis
    using alpha_not[OF assms(1)] assms(1) by (simp add: lexable_def lex_one_def)
qed

lemma lexable_keyword:
  "lexable (WordTok, ''and'')" "lexable (WordTok, ''or'')" "lexable (WordTok, ''not'')"
  "lexable (WordTok, ''pr'')" "lexable (WordTok, ''true'')" "lexable (WordTok, ''false'')"
  "lexable (WordTok, ''null'')"
  by (rule lexable_word; simp add: is_ascii_alpha_def word_char_def)+

lemma lexable_op: "lexable (WordTok, show_op oper)"
  by (cases oper; simp; rule lexable_word; simp add: is_ascii_alpha_def word_char_def)

lemma attr_path_str_parts:
  assumes "path_ok path"
  shows "attr_path_str path \<noteq> [] \<and> (\<forall>x\<in>set (attr_path_str path). word_char x)"
proof -
  obtain a s u where path: "path = \<lparr>ap_attribute = a, ap_sub = s, ap_urn = u\<rparr>" by (cases path)
  have w: "word_char (CHR ''.'')" "word_char (CHR '':'')" by (simp_all add: word_char_def)
  have a: "a \<noteq> []" "\<forall>x\<in>set a. word_char x" using assms path by (auto simp: path_ok_def name_ok_def)
  have s: "\<forall>x\<in>set y. word_char x" if "s = Some y" for y
    using assms path that by (auto simp: path_ok_def name_ok_def)
  have u: "\<forall>x\<in>set y. word_char x" if "u = Some y" for y
    using assms path that by (auto simp: path_ok_def)
  show ?thesis
    using a s u w by (cases s; cases u) (auto simp: path attr_path_str_def)
qed

lemma lexable_path: "path_ok path \<Longrightarrow> lexable (WordTok, attr_path_str path)"
  using attr_path_str_parts[of path] lexable_word
  by (cases "attr_path_str path") (auto simp: path_ok_def)

lemma minus_not: "\<not> py_is_space (CHR ''-'')" "\<not> py_is_space dquote"
  by (simp_all add: py_is_space_def)

lemma lexable_number:
  assumes "c = CHR ''-'' \<or> is_ascii_digit c" and "\<And>rest. number_len (c # t @ CHR '' '' # rest) = Suc (length t)"
  shows "lexable (NumberTok, c # t)"
proof -
  have "\<not> py_is_space c \<and> c \<noteq> CHR ''('' \<and> c \<noteq> CHR '')'' \<and> c \<noteq> CHR ''['' \<and> c \<noteq> CHR '']'' \<and> c \<noteq> dquote"
    using assms(1)
  proof
    assume "c = CHR ''-''"
    then show ?thesis using minus_not by simp
  qed (use digit_not[of c] in simp)
  then show ?thesis using assms(2) by (simp add: lexable_def lex_one_def)
qed

lemma show_int_Cons: obtains c r where "show_int i = c # r" "c = CHR ''-'' \<or> is_ascii_digit c"
proof (cases "i < 0")
  case True
  then show ?thesis using that by (simp add: show_int_def)
next
  case False
  obtain c r where "show_nat (nat i) = c # r" "is_ascii_digit c" by (rule show_nat_Cons)
  with False show ?thesis using that by (simp add: show_int_def)
qed

lemma string_rest_plain:
  "\<forall>c\<in>set s. c \<noteq> dquote \<and> c \<noteq> backslash \<Longrightarrow> string_rest (s @ dquote # r) = Some (Suc (length s))"
  by (induction s) auto

lemma lexable_lit: "lit_ok v \<Longrightarrow> lexable (show_lit v)"
proof (cases v)
  case (LInt i)
  obtain c r where "show_int i = c # r" "c = CHR ''-'' \<or> is_ascii_digit c" by (rule show_int_Cons)
  then show ?thesis
    using LInt number_len_int[of i] by (auto intro!: lexable_number)
next
  case (LFloat m k)
  obtain c r where "show_int m = c # r" "c = CHR ''-'' \<or> is_ascii_digit c" by (rule show_int_Cons)
  then show ?thesis
    using LFloat number_len_float[of m k] by (auto intro!: lexable_number)
next
  case (LStr s)
  assume "lit_ok v"
  then have "string_rest (s @ dquote # r) = Some (Suc (length s))" for r
    using LStr by (intro string_rest_plain) simp
  then show ?thesis
    using LStr by (simp add: lexable_def lex_one_def py_is_space_def)
qed (auto simp: lexable_keyword)

lemma lexable_node: "node_ok n \<Longrightarrow> \<forall>w\<in>set (show_node n p). lexable w"
  by (induction n arbitrary: p)
    (auto simp: paren_def lexable_path lexable_op lexable_lit lexable_keyword lexable_brackets split: if_splits)

section \<open>Parsing a printed filter\<close>

lemma is_word_rest [simp]: "is_word w (t # ts) \<longleftrightarrow> tk_kind t = WordTok \<and> py_lower (tk_text t) = w"
  by (simp add: is_word_def)

lemma peek_kind_rest [simp]: "peek_kind k (t # ts) \<longleftrightarrow> tk_kind t = k"
  by (simp add: peek_kind_def)

lemma lower_op: "py_lower (show_op oper) = show_op oper" "show_op oper \<noteq> ''pr''"
    "operator_of (show_op oper) = Some oper"
  by (cases oper; simp add: py_lower_char_def operator_of_def)+

lemma parse_value_show:
  assumes "lit_ok v" and "tk_kind t = fst (show_lit v)" and "tk_text t = snd (show_lit v)"
  shows "parse_value (t # ts) = Ok (v, ts)"
proof (cases v)
  case (LBool b)
  then show ?thesis using assms by (simp add: parse_value_def next_token_def py_lower_char_def)
next
  case (LStr s)
  then have "backslash \<notin> set s" using assms(1) by auto
  with LStr show ?thesis using assms by (simp add: parse_value_def next_token_def unquote_plain)
qed (use assms is_decimal_int is_decimal_float float_value_show int_value_show_int in
    \<open>simp_all add: parse_value_def next_token_def py_lower_char_def\<close>)

lemma parse_attr_show:
  "path_ok path \<Longrightarrow> tk_kind t = WordTok \<Longrightarrow> tk_text t = attr_path_str path \<Longrightarrow>
     parse_attr (t # ts) = Ok (path, ts)"
  by (simp add: parse_attr_def next_token_def parse_attr_path_show)

lemma path_not_not: "path_ok path \<Longrightarrow> py_lower (attr_path_str path) \<noteq> ''not''"
  by (simp add: path_ok_def)

text \<open>What each of the three parsers does in front of a printed tree, at \<open>lv\<close> further levels.\<close>

definition reads_unary :: "nat \<Rightarrow> node \<Rightarrow> tokens \<Rightarrow> bool" where
  "reads_unary lv n us = (\<forall>rest. parse_unary (parse_or lv) (us @ rest) = Ok (n, rest))"

definition reads_and :: "nat \<Rightarrow> node \<Rightarrow> tokens \<Rightarrow> bool" where
  "reads_and lv n us = (\<forall>rest. parse_and (parse_or lv) (us @ rest) = unary.chain_full lv ''and'' And n rest)"

definition reads_or :: "nat \<Rightarrow> node \<Rightarrow> tokens \<Rightarrow> bool" where
  "reads_or lv n us = (\<forall>rest. \<not> is_word ''and'' rest \<longrightarrow>
     parse_or (Suc lv) (us @ rest) = conj.chain_full lv ''or'' Or n rest)"

lemma reads_and_of_unary: "reads_unary lv n us \<Longrightarrow> reads_and lv n us"
  by (simp add: reads_unary_def reads_and_def parse_and_def unary.chain_of_start)

lemma reads_and_done: "reads_and lv n us \<Longrightarrow> \<not> is_word ''and'' rest \<Longrightarrow>
    parse_and (parse_or lv) (us @ rest) = Ok (n, rest)"
  by (simp add: reads_and_def unary.chain_full_stop)

lemma reads_or_of_and: "reads_and lv n us \<Longrightarrow> reads_or lv n us"
  unfolding reads_or_def parse_or.simps by (blast intro: conj.chain_of_start reads_and_done)

lemma reads_or_done: "reads_or lv n us \<Longrightarrow> \<not> is_word ''and'' rest \<Longrightarrow> \<not> is_word ''or'' rest \<Longrightarrow>
    parse_or (Suc lv) (us @ rest) = Ok (n, rest)"
  by (simp add: reads_or_def conj.chain_full_stop del: parse_or.simps)

lemma reads_bracketed:
  "reads_or lv n us \<Longrightarrow> tk_kind t = close \<Longrightarrow> close \<noteq> WordTok \<Longrightarrow>
     bracketed (parse_or (Suc lv)) close (us @ t # rest) = Ok (n, rest)"
  by (rule nested.bracketed_close[OF reads_or_done]) simp_all

lemma reads_unary_paren:
  "reads_or lv n us \<Longrightarrow> tk_kind t = LParen \<Longrightarrow> tk_kind t' = RParen \<Longrightarrow>
     reads_unary (Suc lv) n (t # us @ [t'])"
  by (simp add: reads_unary_def parse_unary_def reads_bracketed del: parse_or.simps)

lemma reads_and_step:
  assumes "reads_and lv l us" "reads_unary lv r vs" "tk_kind t = WordTok" "tk_text t = ''and''"
  shows "reads_and lv (And l r) (us @ t # vs)"
proof -
  have "unary.chain_full lv ''and'' And l (t # vs @ rest) = unary.chain_full lv ''and'' And (And l r) rest" for rest
    using assms by (intro unary.chain_full_go) (simp_all add: reads_unary_def py_lower_char_def)
  with assms(1) show ?thesis by (simp add: reads_and_def)
qed

lemma reads_or_step:
  assumes "reads_or lv l us" "reads_and lv r vs" "tk_kind t = WordTok" "tk_text t = ''or''"
  shows "reads_or lv (Or l r) (us @ t # vs)"
proof -
  have "conj.chain_full lv ''or'' Or l (t # vs @ rest) = conj.chain_full lv ''or'' Or (Or l r) rest"
    if "\<not> is_word ''and'' rest" for rest
    using assms that by (intro conj.chain_full_go reads_and_done) (simp_all add: py_lower_char_def)
  with assms show ?thesis by (simp add: reads_or_def py_lower_char_def del: parse_or.simps)
qed

text \<open>All three at once, for a tree printed at the level each needs.\<close>

definition reads :: "node \<Rightarrow> bool" where
  "reads n = (\<forall>lv us.
     (node_levels n 2 \<le> lv \<longrightarrow> token_words us = show_node n 2 \<longrightarrow> reads_unary lv n us) \<and>
     (node_levels n 1 \<le> lv \<longrightarrow> token_words us = show_node n 1 \<longrightarrow> reads_and lv n us) \<and>
     (node_levels n 0 \<le> lv \<longrightarrow> token_words us = show_node n 0 \<longrightarrow> reads_or lv n us))"

lemma reads_atom:
  assumes "\<And>p q. show_node n p = show_node n q" and "\<And>p q. node_levels n p = node_levels n q"
    and "\<And>lv us. node_levels n 2 \<le> lv \<Longrightarrow> token_words us = show_node n 2 \<Longrightarrow> reads_unary lv n us"
  shows "reads n"
  unfolding reads_def
  by (metis assms reads_and_of_unary reads_or_of_and)

lemma readsD:
  assumes "reads n"
  shows "node_levels n 2 \<le> lv \<Longrightarrow> token_words us = show_node n 2 \<Longrightarrow> reads_unary lv n us"
    and "node_levels n (Suc 0) \<le> lv \<Longrightarrow> token_words us = show_node n (Suc 0) \<Longrightarrow> reads_and lv n us"
    and "node_levels n 0 \<le> lv \<Longrightarrow> token_words us = show_node n 0 \<Longrightarrow> reads_or lv n us"
  using assms by (simp_all add: reads_def)

lemma paren_words:
  assumes "token_words us = paren True ws"
  obtains t vs t' where "us = t # vs @ [t']" "tk_kind t = LParen" "tk_kind t' = RParen" "token_words vs = ws"
proof -
  from assms obtain t us' where 1: "us = t # us'" "tk_kind t = LParen" "token_words us' = ws @ [(RParen, '')'')]"
    by (auto simp: paren_def elim: token_words_Cons)
  from 1(3) obtain vs us2 where 2: "us' = vs @ us2" "token_words vs = ws" "token_words us2 = [(RParen, '')'')]"
    by (rule token_words_append)
  from 2(3) obtain t' where "us2 = [t']" "tk_kind t' = RParen"
    by (cases us2) (auto simp: token_words_def)
  with 1 2 that show ?thesis by blast
qed

lemma reads_Comparison:
  assumes "path_ok path" and "lit_ok v"
  shows "reads (Comparison path oper v)"
proof (rule reads_atom)
  fix lv us
  assume "token_words us = show_node (Comparison path oper v) 2"
  then obtain t1 t2 t3 where us: "us = [t1, t2, t3]" "tk_kind t1 = WordTok" "tk_text t1 = attr_path_str path"
      "tk_kind t2 = WordTok" "tk_text t2 = show_op oper"
      "tk_kind t3 = fst (show_lit v)" "tk_text t3 = snd (show_lit v)"
    by (cases "show_lit v") (auto elim!: token_words_Cons simp: token_words_def)
  then show "reads_unary lv (Comparison path oper v) us"
    using assms path_not_not parse_attr_show parse_value_show lower_op
    by (simp add: reads_unary_def parse_unary_def attribute_expression_def next_token_def)
qed simp_all

lemma reads_Present:
  assumes "path_ok path"
  shows "reads (Present path)"
proof (rule reads_atom)
  fix lv us
  assume "token_words us = show_node (Present path) 2"
  then obtain t1 t2 where us: "us = [t1, t2]" "tk_kind t1 = WordTok" "tk_text t1 = attr_path_str path"
      "tk_kind t2 = WordTok" "tk_text t2 = ''pr''"
    by (auto elim!: token_words_Cons simp: token_words_def)
  then show "reads_unary lv (Present path) us"
    using assms path_not_not parse_attr_show
    by (simp add: reads_unary_def parse_unary_def attribute_expression_def next_token_def py_lower_char_def)
qed simp_all

lemma closing_words:
  assumes "token_words us = ws @ [(k, x)]"
  obtains vs t where "us = vs @ [t]" "tk_kind t = k" "token_words vs = ws"
proof -
  from assms obtain vs us2 where 1: "us = vs @ us2" "token_words vs = ws" "token_words us2 = [(k, x)]"
    by (rule token_words_append)
  from 1(3) obtain t where "us2 = [t]" "tk_kind t = k" by (cases us2) (auto simp: token_words_def)
  with 1 that show ?thesis by blast
qed

lemma reads_ValuePath:
  assumes "path_ok path" and n: "reads n"
  shows "reads (ValuePath path n)"
proof (rule reads_atom)
  fix lv us
  assume lv: "node_levels (ValuePath path n) 2 \<le> lv"
    and "token_words us = show_node (ValuePath path n) 2"
  then obtain t1 t2 us' where us: "us = t1 # t2 # us'" "tk_kind t1 = WordTok" "tk_text t1 = attr_path_str path"
      "tk_kind t2 = LBracket" "token_words us' = show_node n 0 @ [(RBracket, '']'')]"
    by (auto elim!: token_words_Cons)
  from us(5) obtain vs t3 where vs: "us' = vs @ [t3]" "tk_kind t3 = RBracket" "token_words vs = show_node n 0"
    by (rule closing_words)
  obtain lv' where lv': "lv = Suc lv'" "node_levels n 0 \<le> lv'" using lv by (cases lv) auto
  show "reads_unary lv (ValuePath path n) us"
    using assms(1) us vs lv'(1) path_not_not parse_attr_show
      reads_bracketed[OF readsD(3)[OF n lv'(2) vs(3)] vs(2)]
    by (simp add: reads_unary_def parse_unary_def attribute_expression_def del: parse_or.simps)
qed simp_all

lemma reads_Not:
  assumes n: "reads n"
  shows "reads (Not n)"
proof (rule reads_atom)
  fix lv us
  assume lv: "node_levels (Not n) 2 \<le> lv" and "token_words us = show_node (Not n) 2"
  then obtain t1 t2 us' where us: "us = t1 # t2 # us'" "tk_kind t1 = WordTok" "tk_text t1 = ''not''"
      "tk_kind t2 = LParen" "token_words us' = show_node n 0 @ [(RParen, '')'')]"
    by (auto elim!: token_words_Cons)
  from us(5) obtain vs t3 where vs: "us' = vs @ [t3]" "tk_kind t3 = RParen" "token_words vs = show_node n 0"
    by (rule closing_words)
  obtain lv' where lv': "lv = Suc lv'" "node_levels n 0 \<le> lv'" using lv by (cases lv) auto
  show "reads_unary lv (Not n) us"
    using us vs lv'(1) reads_bracketed[OF readsD(3)[OF n lv'(2) vs(3)] vs(2)]
    by (simp add: reads_unary_def parse_unary_def expect_def next_token_def py_lower_char_def del: parse_or.simps)
qed simp_all

lemma reads_unary_group:
  assumes C: "\<And>lv us. node_levels n 0 \<le> lv \<Longrightarrow> token_words us = show_node n 0 \<Longrightarrow> reads_or lv n us"
    and "Suc (node_levels n 0) \<le> lv" and "token_words us = paren True (show_node n 0)"
  shows "reads_unary lv n us"
proof -
  obtain lv' where lv': "lv = Suc lv'" "node_levels n 0 \<le> lv'" using assms(2) by (cases lv) auto
  from assms(3) obtain t vs t' where "us = t # vs @ [t']" "tk_kind t = LParen" "tk_kind t' = RParen"
      "token_words vs = show_node n 0" by (rule paren_words)
  then show ?thesis using lv' by (auto intro: reads_unary_paren C)
qed

lemma reads_And:
  assumes l: "reads l" and r: "reads r"
  shows "reads (And l r)"
proof -
  have B: "reads_and lv (And l r) us"
    if lv: "node_levels (And l r) 0 \<le> lv" and us: "token_words us = show_node (And l r) 0" for lv us
  proof -
    from us obtain vs t ws where "us = vs @ t # ws" "token_words vs = show_node l 1"
        "tk_kind t = WordTok" "tk_text t = ''and''" "token_words ws = show_node r 2"
      by (auto simp: paren_def elim!: token_words_append token_words_Cons)
    with lv show ?thesis by (auto intro!: reads_and_step readsD[OF l] readsD[OF r])
  qed
  then have C: "reads_or lv (And l r) us"
    if "node_levels (And l r) 0 \<le> lv" and "token_words us = show_node (And l r) 0" for lv us
    using that by (blast intro: reads_or_of_and)
  have "node_levels (And l r) 2 = Suc (node_levels (And l r) 0)"
    "show_node (And l r) 2 = paren True (show_node (And l r) 0)"
    "node_levels (And l r) 1 = node_levels (And l r) 0" "show_node (And l r) 1 = show_node (And l r) 0"
    by (simp_all add: paren_def)
  with B C show ?thesis unfolding reads_def by (metis reads_unary_group)
qed

lemma reads_Or:
  assumes l: "reads l" and r: "reads r"
  shows "reads (Or l r)"
proof -
  have C: "reads_or lv (Or l r) us"
    if lv: "node_levels (Or l r) 0 \<le> lv" and us: "token_words us = show_node (Or l r) 0" for lv us
  proof -
    from us obtain vs t ws where "us = vs @ t # ws" "token_words vs = show_node l 0"
        "tk_kind t = WordTok" "tk_text t = ''or''" "token_words ws = show_node r 1"
      by (auto simp: paren_def elim!: token_words_append token_words_Cons)
    with lv show ?thesis by (auto intro!: reads_or_step readsD[OF l] readsD[OF r])
  qed
  have A: "reads_unary lv (Or l r) us"
    if "p > 0" "node_levels (Or l r) p \<le> lv" "token_words us = show_node (Or l r) p" for p lv us
    using that by (intro reads_unary_group[OF C]) (simp_all add: paren_def)
  show ?thesis
    unfolding reads_def using C A[OF zero_less_one] A[OF zero_less_numeral, of Num.One]
      A[OF zero_less_numeral, of "Num.Bit0 Num.One"] reads_and_of_unary by blast
qed

lemma node_ok_reads: "node_ok n \<Longrightarrow> reads n"
  by (induction n) (simp_all add: reads_Comparison reads_Present reads_ValuePath reads_And reads_Or reads_Not)

section \<open>Properties of the filter language\<close>

text \<open>C13. Printing then parsing is the identity: every expressible filter tree, however its
  operators nest, that fits the length and depth limits is read back as that tree.\<close>

theorem parse_filter_roundtrip:
  assumes "node_ok n" and "node_levels n 0 \<le> MAX_FILTER_DEPTH"
    and "length (show_filter n) \<le> MAX_FILTER_LENGTH"
  shows "parse_filter (show_filter n) = Ok n"
proof -
  obtain ts where ts: "tokenize (show_filter n) = Ok ts" "token_words ts = show_node n 0"
    using tokenize_show_words[OF lexable_node[OF assms(1)]] assms(3)
    by (fastforce simp: tokenize_def show_filter_def)
  have "reads_or MAX_FILTER_DEPTH n ts"
    using readsD(3)[OF node_ok_reads[OF assms(1)] assms(2) ts(2)] .
  from reads_or_done[OF this, of "[]"] show ?thesis
    by (simp add: parse_filter_def ts(1) is_word_def del: parse_or.simps)
qed

theorem parse_filter_roundtrip_witness:
  "parse_filter (show_filter
      (Or (Comparison \<lparr>ap_attribute = ''userName'', ap_sub = None, ap_urn = None\<rparr> EQ (LStr ''ada''))
        (And (Not (Present \<lparr>ap_attribute = ''name'', ap_sub = Some ''family'', ap_urn = Some ''urn:x''\<rparr>))
          (Or (ValuePath \<lparr>ap_attribute = ''emails'', ap_sub = None, ap_urn = None\<rparr>
                (Comparison \<lparr>ap_attribute = ''rank'', ap_sub = None, ap_urn = None\<rparr> GE (LFloat (-15) 1)))
              (Present \<lparr>ap_attribute = ''id'', ap_sub = None, ap_urn = None\<rparr>))))) =
    Ok (Or (Comparison \<lparr>ap_attribute = ''userName'', ap_sub = None, ap_urn = None\<rparr> EQ (LStr ''ada''))
        (And (Not (Present \<lparr>ap_attribute = ''name'', ap_sub = Some ''family'', ap_urn = Some ''urn:x''\<rparr>))
          (Or (ValuePath \<lparr>ap_attribute = ''emails'', ap_sub = None, ap_urn = None\<rparr>
                (Comparison \<lparr>ap_attribute = ''rank'', ap_sub = None, ap_urn = None\<rparr> GE (LFloat (-15) 1)))
              (Present \<lparr>ap_attribute = ''id'', ap_sub = None, ap_urn = None\<rparr>))))"
proof (rule parse_filter_roundtrip)
  have "length (show_nat 15) = 2" "length (show_nat 1) = 1"
    using show_nat.simps[of 15] show_nat.simps[of 1] by simp_all
  then show "length (show_filter
      (Or (Comparison \<lparr>ap_attribute = ''userName'', ap_sub = None, ap_urn = None\<rparr> EQ (LStr ''ada''))
        (And (Not (Present \<lparr>ap_attribute = ''name'', ap_sub = Some ''family'', ap_urn = Some ''urn:x''\<rparr>))
          (Or (ValuePath \<lparr>ap_attribute = ''emails'', ap_sub = None, ap_urn = None\<rparr>
                (Comparison \<lparr>ap_attribute = ''rank'', ap_sub = None, ap_urn = None\<rparr> GE (LFloat (-15) 1)))
              (Present \<lparr>ap_attribute = ''id'', ap_sub = None, ap_urn = None\<rparr>))))) \<le> MAX_FILTER_LENGTH"
    by (simp add: show_filter_def show_words_def attr_path_str_def show_int_def paren_def MAX_FILTER_LENGTH_def)
qed (simp_all add: path_ok_def name_ok_def attr_path_str_def word_char_def is_ascii_alpha_def
      is_ascii_digit_def py_lower_char_def MAX_FILTER_DEPTH_def)

lemma tokenize_no_bound: "tokenize s \<noteq> Err LoopBound"
proof -
  have "tokenize_from s pos \<noteq> Err LoopBound" for s pos
  proof (induction s pos rule: tokenize_from.induct)
    case (1 s pos)
    then show ?case
      by (subst tokenize_from.simps) (auto split: option.splits sum.splits)
  qed
  then show ?thesis by (simp add: tokenize_def)
qed

lemma bracketed_no_bound: "bracketed (parse_or lv) close ts \<noteq> Err LoopBound"
  using consuming.no_bound[OF nested.bracketed_consuming] .

lemma patch_filter_no_bound: "patch_filter ts \<noteq> Err LoopBound"
  using bracketed_no_bound by (auto simp: patch_filter_def split: sum.splits list.splits)

text \<open>The parser is total: no filter and no patch path, however malformed, runs a loop of the
  parser to its bound; it returns a tree or one of the errors the source raises.\<close>

theorem parse_total:
  "parse_filter s \<noteq> Err LoopBound \<and> parse_patch_path s \<noteq> Err LoopBound"
proof
  show "parse_filter s \<noteq> Err LoopBound"
    using tokenize_no_bound nested.no_bound
    by (auto simp: parse_filter_def simp del: parse_or.simps split: sum.splits list.splits)
  show "parse_patch_path s \<noteq> Err LoopBound"
    using tokenize_no_bound patch_filter_no_bound
    by (auto simp: parse_patch_path_def split: sum.splits list.splits)
qed

section \<open>The depth of what is parsed\<close>

lemma node_levels_mono: "p \<le> q \<Longrightarrow> node_levels n p \<le> node_levels n q"
  by (cases n) auto

lemma node_levels_close: "node_levels n q \<le> Suc (node_levels n 0)"
  by (cases n) (auto intro: le_trans[OF node_levels_mono] simp: node_levels_mono)

definition yields :: "nat \<Rightarrow> nat \<Rightarrow> node step \<Rightarrow> bool" where
  "yields p lv f = (\<forall>ts n ts'. f ts = Ok (n, ts') \<longrightarrow> node_levels n p \<le> lv)"

lemma yieldsD: "yields p lv f \<Longrightarrow> f ts = Ok (n, ts') \<Longrightarrow> node_levels n p \<le> lv"
  unfolding yields_def by blast

lemma chain_yields:
  assumes "\<And>l r. node_levels (mk l r) p = max (node_levels l p) (node_levels r (Suc p))"
    and "yields (Suc p) lv f"
  shows "node_levels n p \<le> lv \<Longrightarrow> chain k w mk f n ts = Ok (n', ts') \<Longrightarrow> node_levels n' p \<le> lv"
proof (induction k arbitrary: n ts)
  case (Suc k)
  show ?case
  proof (cases "is_word w ts")
    case True
    then obtain m us where "f (tl ts) = Ok (m, us)" "chain k w mk f (mk n m) us = Ok (n', ts')"
      using Suc.prems(2) by (auto split: sum.splits)
    moreover from this(1) have "node_levels m (Suc p) \<le> lv" using assms(2) by (auto simp: yields_def)
    ultimately show ?thesis using Suc.IH[of "mk n m" us] Suc.prems(1) assms(1) by simp
  qed (use Suc.prems in simp)
qed simp

lemma chain_of_yields:
  assumes "\<And>l r. node_levels (mk l r) p = max (node_levels l p) (node_levels r (Suc p))"
    and "yields (Suc p) lv f"
  shows "yields p lv (chain_of w mk f)"
  unfolding yields_def
proof (intro allI impI)
  fix ts n ts'
  assume "chain_of w mk f ts = Ok (n, ts')"
  then obtain m us where m: "f ts = Ok (m, us)" "chain (Suc (length us)) w mk f m us = Ok (n, ts')"
    by (auto simp: chain_of_def simp del: chain.simps split: sum.splits)
  then have "node_levels m p \<le> lv"
    using assms(2) node_levels_mono[of p "Suc p" m] by (fastforce simp: yields_def)
  from chain_yields[OF assms this m(2)] show "node_levels n p \<le> lv" .
qed

lemma bracketed_yields:
  "yields 0 lv f \<Longrightarrow> bracketed f close ts = Ok (n, ts') \<Longrightarrow> Suc (node_levels n 0) \<le> Suc lv"
  by (auto simp: bracketed_def dest: yieldsD split: sum.splits)

lemma attribute_expression_yields:
  "yields 0 lv f \<Longrightarrow> yields 2 (Suc lv) (attribute_expression f)"
  unfolding yields_def[of 2] attribute_expression_def
  using bracketed_yields by (fastforce split: sum.splits if_splits option.splits)

lemma parse_unary_yields:
  assumes "yields 0 lv f"
  shows "yields 2 (Suc lv) (parse_unary f)"
  unfolding yields_def
proof (intro allI impI)
  fix ts n ts'
  assume a: "parse_unary f ts = Ok (n, ts')"
  note br = bracketed_yields[OF assms]
  consider (no) "is_word ''not'' ts" | (grp) "\<not> is_word ''not'' ts" "peek_kind LParen ts"
    | (at) "\<not> is_word ''not'' ts" "\<not> peek_kind LParen ts" by blast
  then show "node_levels n 2 \<le> Suc lv"
  proof cases
    case no
    then show ?thesis using a br by (fastforce simp: parse_unary_def split: sum.splits)
  next
    case grp
    then have "Suc (node_levels n 0) \<le> Suc lv" using a br by (simp add: parse_unary_def)
    then show ?thesis using node_levels_close[of n 2] by simp
  next
    case at
    then show ?thesis
      using a yieldsD[OF attribute_expression_yields[OF assms]] by (simp add: parse_unary_def)
  qed
qed

lemma parse_unary_yields_0: "yields 2 0 (parse_unary (parse_or 0))"
proof -
  have "bracketed (parse_or 0) close ts = Err NestsTooDeep" for close ts by (simp add: bracketed_def)
  then show ?thesis
    by (fastforce simp: yields_def parse_unary_def attribute_expression_def
        split: sum.splits if_splits option.splits)
qed

lemma parse_or_yields: "yields 0 lv (parse_or (Suc lv))"
proof (induction lv)
  case 0
  have "yields 1 0 (parse_and (parse_or 0))"
    unfolding parse_and_def by (rule chain_of_yields) (use parse_unary_yields_0 in \<open>simp_all add: numeral_2_eq_2\<close>)
  then have "yields 0 0 (chain_of ''or'' Or (parse_and (parse_or 0)))"
    by (intro chain_of_yields) simp_all
  then show ?case by (simp add: yields_def)
next
  case (Suc lv)
  have "yields 1 (Suc lv) (parse_and (parse_or (Suc lv)))"
    unfolding parse_and_def
    by (rule chain_of_yields)
      (use parse_unary_yields[OF Suc.IH] in \<open>simp_all add: numeral_2_eq_2 del: parse_or.simps\<close>)
  then have "yields 0 (Suc lv) (chain_of ''or'' Or (parse_and (parse_or (Suc lv))))"
    by (intro chain_of_yields) simp_all
  then show ?case by (simp add: yields_def)
qed

text \<open>No accepted filter needs more nesting than \<open>MAX_FILTER_DEPTH\<close>, so the recursion that
  evaluates it is bounded whatever a client sends.\<close>

theorem parse_filter_depth:
  assumes "parse_filter s = Ok n"
  shows "node_levels n 0 \<le> MAX_FILTER_DEPTH"
  using assms yieldsD[OF parse_or_yields[of MAX_FILTER_DEPTH]]
  by (auto simp: parse_filter_def simp del: parse_or.simps split: sum.splits list.splits)

theorem parse_filter_depth_witness:
  "parse_filter ''not (a pr)'' = Ok (Not (Present \<lparr>ap_attribute = ''a'', ap_sub = None, ap_urn = None\<rparr>)) \<and>
   node_levels (Not (Present \<lparr>ap_attribute = ''a'', ap_sub = None, ap_urn = None\<rparr>)) 0 \<le> MAX_FILTER_DEPTH"
proof -
  have "parse_filter ''not (a pr)'' = Ok (Not (Present \<lparr>ap_attribute = ''a'', ap_sub = None, ap_urn = None\<rparr>))"
    by code_simp
  with parse_filter_depth[OF this] show ?thesis by blast
qed

section \<open>Comparisons and literals\<close>

text \<open>An attribute the resource does not carry satisfies no comparison but \<open>ne\<close>, and not even
  that one when the literal is \<open>null\<close>.\<close>

theorem missing_attribute_comparison:
  assumes "read_attr res path = PNone"
  shows "filter_matches (Comparison path oper v) res = (oper = NE \<and> v \<noteq> LNull)"
  using assms by (cases v) (auto simp: compare_values_def compare_one_def)

theorem missing_attribute_comparison_witness:
  "filter_matches (Comparison \<lparr>ap_attribute = ''x'', ap_sub = None, ap_urn = None\<rparr> NE (LStr ''a''))
     [(''y'', PInt 1)] = True"
proof -
  have "read_attr [(''y'', PInt 1)] \<lparr>ap_attribute = ''x'', ap_sub = None, ap_urn = None\<rparr> = PNone"
    by code_simp
  from missing_attribute_comparison[OF this] show ?thesis by simp
qed

text \<open>The JSON escaping a client applies to a string literal.\<close>

definition json_quote :: "string \<Rightarrow> string" where
  "json_quote s = dquote # concat (map (\<lambda>c. if c = dquote \<or> c = backslash then [backslash, c] else [c]) s) @ [dquote]"

lemma replace2_quotes:
  "backslash \<notin> set s \<Longrightarrow>
     replace2 backslash dquote dquote (concat (map (\<lambda>c. if c = dquote \<or> c = backslash then [backslash, c] else [c]) s)) = s"
proof (induction s)
  case (Cons c s)
  have skip: "replace2 backslash dquote dquote (x # t) = x # replace2 backslash dquote dquote t"
    if "x \<noteq> backslash" for x t
    using that by (cases t) auto
  show ?case using Cons skip by auto
qed simp

text \<open>A string literal without a backslash is read back as written, whatever quotes it holds;
  a literal that spells a backslash followed by \<open>n\<close> is read as a line feed.\<close>

theorem unquote_literal:
  "(backslash \<notin> set s \<longrightarrow> unquote (json_quote s) = s) \<and>
   unquote (json_quote [backslash, CHR ''n'']) = [CHR 0x0A]"
proof (intro conjI)
  show "backslash \<notin> set s \<longrightarrow> unquote (json_quote s) = s"
    using replace2_quotes by (simp add: unquote_def json_quote_def Let_def replace2_id)
  show "unquote (json_quote [backslash, CHR ''n'']) = [CHR 0x0A]" by code_simp
qed

theorem unquote_literal_witness:
  "unquote (json_quote [CHR ''a'', dquote, CHR ''n'']) = [CHR ''a'', dquote, CHR ''n'']"
  using unquote_literal[of "[CHR ''a'', dquote, CHR ''n'']"] by simp

end
