(* ===== verification/ScimPatch.thy ===== *)
theory ScimPatch
  imports ScimFilter
begin

text \<open>
  SCIM PATCH (\<open>campusid/scim/patch.py\<close>): reading a \<open>PatchOp\<close> body and applying its operations to a
  copy of a resource.

  A resource is a \<open>dict\<close> whose nested objects are values, so the deep copy is implicit and an update
  inside a nested object is written back along the path that reached it: \<open>with_target\<close> is \<open>_target\<close>
  together with that write.  The only objects the source shares are the values of operations stored
  in the working copy, and no path of the grammar reaches inside a value stored twice.  An error is
  the \<open>scimType\<close> of the \<open>PatchError\<close>; its text is left out.
\<close>

section \<open>Operations\<close>

definition PATCH_OP_SCHEMA :: string where
  "PATCH_OP_SCHEMA = ''urn:ietf:params:scim:api:messages:2.0:PatchOp''"

definition IMMUTABLE :: "string set" where
  "IMMUTABLE = {''id'', ''schemas'', ''meta''}"

definition MAX_OPERATIONS :: nat where "MAX_OPERATIONS = 100"

datatype patch_error = InvalidValue | InvalidPath | Mutability | NoTarget

datatype op = ADD | REMOVE | REPLACE

record operation =
  o_op :: op
  o_path :: "patch_path option"
  o_value :: pyval

definition op_of :: "string \<Rightarrow> op option" where
  "op_of w = map_of [(''add'', ADD), (''remove'', REMOVE), (''replace'', REPLACE)] w"

definition parse_op_path :: "pyval \<Rightarrow> (patch_error, patch_path option) result" where
  "parse_op_path raw = (case raw of
       PNone \<Rightarrow> Ok None
     | PStr s \<Rightarrow> (case parse_patch_path s of
           Inl _ \<Rightarrow> Err InvalidPath
         | Inr p \<Rightarrow> if py_lower (ap_attribute (pp_path p)) \<in> IMMUTABLE then Err Mutability else Ok (Some p))
     | _ \<Rightarrow> Err InvalidPath)"

definition parse_one :: "pyval \<Rightarrow> (patch_error, operation) result" where
  "parse_one entry = (case entry of
       PDict d \<Rightarrow> (case dict_get d ''op'' of
           PStr raw_op \<Rightarrow> (case op_of (py_lower raw_op) of
               None \<Rightarrow> Err InvalidValue
             | Some oper \<Rightarrow> (case parse_op_path (dict_get d ''path'') of
                   Inl e \<Rightarrow> Err e
                 | Inr path \<Rightarrow>
                     if oper = REMOVE \<and> path = None then Err NoTarget
                     else if oper \<noteq> REMOVE \<and> map_of d ''value'' = None then Err InvalidValue
                     else Ok \<lparr>o_op = oper, o_path = path, o_value = dict_get d ''value''\<rparr>))
         | _ \<Rightarrow> Err InvalidValue)
     | _ \<Rightarrow> Err InvalidValue)"

definition parse_operations :: "pyval \<Rightarrow> (patch_error, operation list) result" where
  "parse_operations document = (case document of
       PDict d \<Rightarrow> (case dict_get d ''schemas'' of
           PList schemas \<Rightarrow>
             if PStr PATCH_OP_SCHEMA \<notin> set schemas then Err InvalidValue
             else (case dict_get d ''Operations'' of
                 PList raw \<Rightarrow>
                   if raw = [] then Err InvalidValue
                   else if length raw > MAX_OPERATIONS then Err InvalidValue
                   else rmap parse_one raw
               | _ \<Rightarrow> Err InvalidValue)
         | _ \<Rightarrow> Err InvalidValue)
     | _ \<Rightarrow> Err InvalidValue)"

section \<open>Attribute access\<close>

definition ci_key :: "dict \<Rightarrow> string \<Rightarrow> string option" where
  "ci_key d name = (if name \<in> fst ` set d then Some name
     else find (\<lambda>k. py_lower k = py_lower name) (map fst d))"

text \<open>\<open>_get\<close>, \<open>_set\<close> and \<open>_delete\<close>; an empty key counts as no key.\<close>

definition ci_get :: "dict \<Rightarrow> string \<Rightarrow> pyval" where
  "ci_get d name = (case ci_key d name of
       Some k \<Rightarrow> if k \<noteq> [] then dict_get d k else PNone | None \<Rightarrow> PNone)"

definition ci_spelling :: "dict \<Rightarrow> string \<Rightarrow> string" where
  "ci_spelling d name = (case ci_key d name of Some k \<Rightarrow> if k \<noteq> [] then k else name | None \<Rightarrow> name)"

definition ci_set :: "dict \<Rightarrow> string \<Rightarrow> pyval \<Rightarrow> dict" where
  "ci_set d name v = AList.update (ci_spelling d name) v d"

definition ci_delete :: "dict \<Rightarrow> string \<Rightarrow> dict" where
  "ci_delete d name = (case ci_key d name of
       Some k \<Rightarrow> if k \<noteq> [] then AList.delete k d else d | None \<Rightarrow> d)"

definition as_dict :: "pyval \<Rightarrow> dict" where
  "as_dict v = (case v of PDict d \<Rightarrow> d | _ \<Rightarrow> [])"

type_synonym edit = "dict \<Rightarrow> string \<Rightarrow> (patch_error, dict) result"

text \<open>The second half of \<open>_target\<close>: descend to the parent of a sub-attribute, creating it when it is
  not an object.\<close>

definition in_attribute :: "patch_path \<Rightarrow> edit \<Rightarrow> dict \<Rightarrow> (patch_error, dict) result" where
  "in_attribute p f c = (case pp_sub p of
       Some sub \<Rightarrow>
         if sub \<noteq> [] \<and> pp_predicate p = None then
           (let attr = ap_attribute (pp_path p);
                c1 = (if is_dict (ci_get c attr) then c else ci_set c attr (PDict []))
            in case f (as_dict (ci_get c attr)) sub of Inl e \<Rightarrow> Err e
               | Inr parent \<Rightarrow> Ok (ci_set c1 attr (PDict parent)))
         else f c (ap_attribute (pp_path p))
     | None \<Rightarrow> f c (ap_attribute (pp_path p)))"

definition with_target :: "dict \<Rightarrow> patch_path \<Rightarrow> edit \<Rightarrow> (patch_error, dict) result" where
  "with_target r p f = (case ap_urn (pp_path p) of
       Some u \<Rightarrow>
         if u \<noteq> [] then
           (case in_attribute p f (as_dict (ci_get r u)) of Inl e \<Rightarrow> Err e
            | Inr ext \<Rightarrow> Ok (if is_dict (ci_get r u) then ci_set r u (PDict ext)
                             else AList.update u (PDict ext) r))
         else in_attribute p f r
     | None \<Rightarrow> in_attribute p f r)"

section \<open>Applying an operation\<close>

definition direct_edit :: "op \<Rightarrow> pyval \<Rightarrow> edit" where
  "direct_edit oper v c name =
     (if oper = REMOVE then Ok (ci_delete c name)
      else Ok (case ci_get c name of
          PList existing \<Rightarrow>
            if oper = ADD
            then ci_set c name (PList (existing @ (case v of PList vs \<Rightarrow> vs | _ \<Rightarrow> [v])))
            else ci_set c name v
        | _ \<Rightarrow> ci_set c name v))"

definition apply_direct :: "dict \<Rightarrow> op \<Rightarrow> pyval \<Rightarrow> patch_path \<Rightarrow> (patch_error, dict) result" where
  "apply_direct r oper v p = with_target r p (direct_edit oper v)"

definition bare_path :: "string \<Rightarrow> patch_path" where
  "bare_path name = \<lparr>pp_path = \<lparr>ap_attribute = name, ap_sub = None, ap_urn = None\<rparr>,
     pp_predicate = None, pp_sub = None\<rparr>"

fun apply_members :: "dict \<Rightarrow> op \<Rightarrow> dict \<Rightarrow> (patch_error, dict) result" where
  "apply_members r oper [] = Ok r"
| "apply_members r oper ((name, v) # rest) =
     (if py_lower name \<in> IMMUTABLE then Err Mutability
      else (case apply_direct r oper v (bare_path name) of Inl e \<Rightarrow> Err e
        | Inr r' \<Rightarrow> apply_members r' oper rest))"

definition apply_pathless :: "dict \<Rightarrow> op \<Rightarrow> pyval \<Rightarrow> (patch_error, dict) result" where
  "apply_pathless r oper v = (case v of PDict d \<Rightarrow> apply_members r oper d | _ \<Rightarrow> Err InvalidValue)"

definition delete_in :: "pyval \<Rightarrow> string \<Rightarrow> pyval" where
  "delete_in m sub = (case m of PDict d \<Rightarrow> PDict (ci_delete d sub) | _ \<Rightarrow> m)"

definition set_in :: "pyval \<Rightarrow> string \<Rightarrow> pyval \<Rightarrow> pyval" where
  "set_in m sub v = (case m of PDict d \<Rightarrow> PDict (ci_set d sub v) | _ \<Rightarrow> m)"

text \<open>\<open>del members[i]\<close>.\<close>

definition del_at :: "nat \<Rightarrow> 'a list \<Rightarrow> 'a list" where
  "del_at i xs = take i xs @ drop (Suc i) xs"

text \<open>The loop over the selected indices, last one first.\<close>

definition remove_selected :: "string option \<Rightarrow> nat list \<Rightarrow> pyval list \<Rightarrow> pyval list" where
  "remove_selected sub selected members =
     foldl (\<lambda>ms i. case sub of
         Some s \<Rightarrow> if s \<noteq> [] then ms[i := delete_in (ms ! i) s] else del_at i ms
       | None \<Rightarrow> del_at i ms) members (rev selected)"

definition change_member :: "string option \<Rightarrow> pyval \<Rightarrow> pyval \<Rightarrow> pyval" where
  "change_member sub v m =
     (if sub \<noteq> None \<and> sub \<noteq> Some [] then set_in m (the sub) v
      else (case v of
          PDict upd \<Rightarrow> (case m of
              PDict d \<Rightarrow> PDict (foldl (\<lambda>d (k, w). AList.update k w d) d upd) | _ \<Rightarrow> m)
        | _ \<Rightarrow> v))"

definition change_selected :: "string option \<Rightarrow> pyval \<Rightarrow> nat list \<Rightarrow> pyval list \<Rightarrow> pyval list" where
  "change_selected sub v selected members =
     foldl (\<lambda>ms i. ms[i := change_member sub v (ms ! i)]) members selected"

definition filtered_edit :: "op \<Rightarrow> pyval \<Rightarrow> node \<Rightarrow> string option \<Rightarrow> edit" where
  "filtered_edit oper v predicate sub c name = (case ci_get c name of
       PList members \<Rightarrow>
         (let selected = select_members predicate members in
          if selected = [] then Ok c
          else if oper = REMOVE then Ok (ci_set c name (PList (remove_selected sub selected members)))
          else Ok (ci_set c name (PList (change_selected sub v selected members))))
     | _ \<Rightarrow> if oper = REMOVE then Ok c else Err NoTarget)"

definition apply_filtered :: "dict \<Rightarrow> op \<Rightarrow> pyval \<Rightarrow> patch_path \<Rightarrow> node \<Rightarrow> (patch_error, dict) result" where
  "apply_filtered r oper v p predicate =
     with_target r \<lparr>pp_path = pp_path p, pp_predicate = None, pp_sub = None\<rparr>
       (filtered_edit oper v predicate (pp_sub p))"

definition apply_one :: "dict \<Rightarrow> operation \<Rightarrow> (patch_error, dict) result" where
  "apply_one r o' = (case o_path o' of
       None \<Rightarrow> apply_pathless r (o_op o') (o_value o')
     | Some p \<Rightarrow> (case pp_predicate p of
           Some predicate \<Rightarrow> apply_filtered r (o_op o') (o_value o') p predicate
         | None \<Rightarrow> apply_direct r (o_op o') (o_value o') p))"

fun apply_patch :: "dict \<Rightarrow> operation list \<Rightarrow> (patch_error, dict) result" where
  "apply_patch r [] = Ok r"
| "apply_patch r (o' # ops) = (case apply_one r o' of Inl e \<Rightarrow> Err e | Inr r' \<Rightarrow> apply_patch r' ops)"

section \<open>Case-insensitive access\<close>

lemma ci_key_lower: "ci_key d name = Some k \<Longrightarrow> py_lower k = py_lower name \<and> k \<in> fst ` set d"
  by (auto simp: ci_key_def find_Some_iff split: if_splits)

lemma ci_spelling_lower: "py_lower (ci_spelling d name) = py_lower name"
  by (auto simp: ci_spelling_def dest: ci_key_lower split: option.splits)

lemma map_of_ci_set: "map_of (ci_set d name v) = (map_of d)(ci_spelling d name \<mapsto> v)"
  by (simp add: ci_set_def update_conv')

lemma ci_set_other: "py_lower k \<noteq> py_lower name \<Longrightarrow> map_of (ci_set d name v) k = map_of d k"
  using ci_spelling_lower[of d name] by (auto simp: map_of_ci_set)

lemma ci_delete_other: "py_lower k \<noteq> py_lower name \<Longrightarrow> map_of (ci_delete d name) k = map_of d k"
  by (auto simp: ci_delete_def delete_conv' dest: ci_key_lower split: option.splits)

lemma keys_ci_set: "fst ` set (ci_set d name v) = insert (ci_spelling d name) (fst ` set d)"
proof -
  have "dom (map_of (ci_set d name v)) = insert (ci_spelling d name) (dom (map_of d))"
    by (simp add: map_of_ci_set)
  then show ?thesis by (simp add: dom_map_of_conv_image_fst)
qed

lemma ci_key_in: "name \<in> fst ` set d \<Longrightarrow> ci_key d name = Some name"
  by (simp add: ci_key_def)

text \<open>\<open>_key\<close> depends on the key order alone.\<close>

lemma ci_key_cong:
  assumes "map fst d = map fst d'"
  shows "ci_key d name = ci_key d' name"
proof -
  have "fst ` set d = fst ` set d'" using assms by (metis list.set_map)
  then show ?thesis by (simp add: ci_key_def assms)
qed

lemma ci_key_set:
  assumes "name \<noteq> []"
  shows "ci_key (ci_set d name v) name = Some (ci_spelling d name)"
proof (cases "ci_key d name")
  case None
  then have "ci_spelling d name = name" by (simp add: ci_spelling_def)
  then show ?thesis using keys_ci_set[of d name v] by (simp add: ci_key_in)
next
  case (Some k)
  have "k \<noteq> []" using ci_key_lower[OF Some] assms by (metis py_lower_eq_Nil)
  then have k: "ci_spelling d name = k" "k \<in> fst ` set d"
    using ci_key_lower[OF Some] Some by (simp_all add: ci_spelling_def)
  have "k \<in> set (map fst d)" using k(2) by simp
  then have "map fst (ci_set d name v) = map fst d"
    unfolding ci_set_def k(1) update_keys by simp
  then show ?thesis using ci_key_cong[of "ci_set d name v" d name] Some k(1) by simp
qed

lemma ci_get_set: "name \<noteq> [] \<Longrightarrow> ci_get (ci_set d name v) name = v"
proof -
  assume n: "name \<noteq> []"
  then have "ci_spelling d name \<noteq> []" by (metis ci_spelling_lower py_lower_eq_Nil)
  then show ?thesis
    by (simp add: ci_get_def ci_key_set[OF n] dict_get_def map_of_ci_set)
qed

section \<open>What an edit may touch\<close>

text \<open>The contract between \<open>with_target\<close> and the edits it runs: an edit of a container changes
  nothing but the attribute it is given.\<close>

locale local_edit =
  fixes f :: edit
  assumes frame: "f c name = Ok c' \<Longrightarrow> py_lower k \<noteq> py_lower name \<Longrightarrow> map_of c' k = map_of c k"
begin

lemma in_attribute_frame:
  assumes "in_attribute p f c = Ok c'" and "py_lower k \<noteq> py_lower (ap_attribute (pp_path p))"
  shows "map_of c' k = map_of c k"
  using assms frame
  by (auto simp: in_attribute_def Let_def ci_set_other split: option.splits if_splits sum.splits)

lemma with_target_frame:
  assumes "with_target r p f = Ok r'"
    and "py_lower k \<noteq> py_lower (ap_attribute (pp_path p))"
    and "\<And>u. ap_urn (pp_path p) = Some u \<Longrightarrow> py_lower k \<noteq> py_lower u"
  shows "map_of r' k = map_of r k"
proof (cases "ap_urn (pp_path p)")
  case None
  then show ?thesis using assms in_attribute_frame by (simp add: with_target_def)
next
  case (Some u)
  then have "k \<noteq> u" using assms(3) by blast
  then show ?thesis
    using Some assms in_attribute_frame[of p r r' k]
    by (auto simp: with_target_def ci_set_other update_conv' split: if_splits sum.splits)
qed

end

interpretation direct: local_edit "direct_edit oper v" for oper v
  by unfold_locales
    (auto simp: direct_edit_def ci_set_other ci_delete_other split: if_splits pyval.splits)

interpretation filtered: local_edit "filtered_edit oper v predicate sub" for oper v predicate sub
  by unfold_locales
    (auto simp: filtered_edit_def Let_def ci_set_other split: if_splits pyval.splits)

lemma apply_members_frame:
  "apply_members r oper d = Ok r' \<Longrightarrow> py_lower k \<in> IMMUTABLE \<Longrightarrow> map_of r' k = map_of r k"
proof (induction d arbitrary: r)
  case (Cons m d)
  obtain name v where m: "m = (name, v)" by (cases m)
  with Cons.prems obtain r1 where r1: "py_lower name \<notin> IMMUTABLE"
      "apply_direct r oper v (bare_path name) = Ok r1" "apply_members r1 oper d = Ok r'"
    by (auto split: if_splits sum.splits)
  have "map_of r1 k = map_of r k"
    using r1(2) unfolding apply_direct_def
    by (rule direct.with_target_frame) (use r1(1) Cons.prems(2) in \<open>auto simp: bare_path_def\<close>)
  with Cons.IH[OF r1(3) Cons.prems(2)] show ?case by simp
qed simp

text \<open>An operation the parser accepts, addressed to no schema that is spelled like an immutable
  attribute.\<close>

definition path_allowed :: "operation \<Rightarrow> bool" where
  "path_allowed o' = (case o_path o' of None \<Rightarrow> o_op o' \<noteq> REMOVE
     | Some p \<Rightarrow> py_lower (ap_attribute (pp_path p)) \<notin> IMMUTABLE)"

definition urn_allowed :: "operation \<Rightarrow> bool" where
  "urn_allowed o' = (case o_path o' of None \<Rightarrow> True
     | Some p \<Rightarrow> (case ap_urn (pp_path p) of None \<Rightarrow> True | Some u \<Rightarrow> py_lower u \<notin> IMMUTABLE))"

lemma parse_one_allowed: "parse_one entry = Ok o' \<Longrightarrow> path_allowed o'"
  by (auto simp: parse_one_def parse_op_path_def path_allowed_def
      split: pyval.splits option.splits sum.splits if_splits)

lemma parse_operations_Ok:
  assumes "parse_operations document = Ok ops"
  shows "0 < length ops \<and> length ops \<le> MAX_OPERATIONS \<and> (\<forall>o'\<in>set ops. path_allowed o')"
proof -
  obtain raw where raw: "raw \<noteq> []" "length raw \<le> MAX_OPERATIONS" "rmap parse_one raw = Ok ops"
    using assms by (auto simp: parse_operations_def split: pyval.splits if_splits)
  with rmap_Ok_length[OF raw(3)] show ?thesis
    using rmap_Ok_setD[OF raw(3)] parse_one_allowed by fastforce
qed

lemma apply_one_frame:
  assumes "apply_one r o' = Ok r'" and "path_allowed o'" and "urn_allowed o'"
    and k: "py_lower k \<in> IMMUTABLE"
  shows "map_of r' k = map_of r k"
proof (cases "o_path o'")
  case None
  then show ?thesis
    using assms by (auto simp: apply_one_def apply_pathless_def dest: apply_members_frame split: pyval.splits)
next
  case (Some p)
  have ne: "py_lower k \<noteq> py_lower (ap_attribute (pp_path p))"
    using Some assms(2) k by (auto simp: path_allowed_def)
  have urn: "py_lower k \<noteq> py_lower u" if "ap_urn (pp_path p) = Some u" for u
    using Some assms(3) k that by (auto simp: urn_allowed_def)
  show ?thesis
  proof (cases "pp_predicate p")
    case None
    then show ?thesis
      using Some assms(1) ne urn
      by (auto simp: apply_one_def apply_direct_def dest: direct.with_target_frame)
  next
    case (Some n)
    then have w: "with_target r \<lparr>pp_path = pp_path p, pp_predicate = None, pp_sub = None\<rparr>
        (filtered_edit (o_op o') (o_value o') n (pp_sub p)) = Ok r'"
      using \<open>o_path o' = Some p\<close> assms(1) by (simp add: apply_one_def apply_filtered_def)
    show ?thesis by (rule filtered.with_target_frame[OF w]) (use ne urn in auto)
  qed
qed

lemma apply_patch_frame:
  "apply_patch r ops = Ok r' \<Longrightarrow> \<forall>o'\<in>set ops. path_allowed o' \<and> urn_allowed o' \<Longrightarrow>
     py_lower k \<in> IMMUTABLE \<Longrightarrow> map_of r' k = map_of r k"
proof (induction ops arbitrary: r)
  case (Cons o' ops)
  then obtain r1 where "apply_one r o' = Ok r1" "apply_patch r1 ops = Ok r'"
    by (auto split: sum.splits)
  with Cons apply_one_frame show ?case by (metis list.set_intros)
qed simp

section \<open>Properties\<close>

text \<open>C27. A patch the parser accepts leaves \<open>id\<close>, \<open>schemas\<close> and \<open>meta\<close> alone, in every spelling,
  provided no path is qualified by a schema name spelled like one of them.\<close>

theorem patch_preserves_immutable:
  assumes "parse_operations document = Ok ops" and "apply_patch r ops = Ok r'"
    and "\<forall>o'\<in>set ops. urn_allowed o'" and "py_lower k \<in> IMMUTABLE"
  shows "map_of r' k = map_of r k"
  using apply_patch_frame[OF assms(2) _ assms(4)] parse_operations_Ok[OF assms(1)] assms(3) by blast

definition patch_doc :: "string \<Rightarrow> string \<Rightarrow> pyval \<Rightarrow> pyval" where
  "patch_doc oper path v = PDict [(''schemas'', PList [PStr PATCH_OP_SCHEMA]),
     (''Operations'', PList [PDict [(''op'', PStr oper), (''path'', PStr path), (''value'', v)]])]"

definition sample_resource :: dict where
  "sample_resource = [(''id'', PStr ''u1''), (''userName'', PStr ''ada''),
     (''emails'', PList [PDict [(''type'', PStr ''work''), (''value'', PStr ''a'')],
                         PDict [(''type'', PStr ''home''), (''value'', PStr ''b'')]])]"

theorem patch_preserves_immutable_witness:
  "\<exists>ops r'. parse_operations (patch_doc ''Add'' ''name.givenName'' (PStr ''Ada'')) = Ok ops \<and>
     apply_patch sample_resource ops = Ok r' \<and> map_of r' ''id'' = map_of sample_resource ''id''"
proof -
  let ?ops = "[\<lparr>o_op = ADD, o_path = Some \<lparr>pp_path = \<lparr>ap_attribute = ''name'', ap_sub = Some ''givenName'',
      ap_urn = None\<rparr>, pp_predicate = None, pp_sub = Some ''givenName''\<rparr>, o_value = PStr ''Ada''\<rparr>]"
  let ?r = "sample_resource @ [(''name'', PDict [(''givenName'', PStr ''Ada'')])]"
  have 1: "parse_operations (patch_doc ''Add'' ''name.givenName'' (PStr ''Ada'')) = Ok ?ops" by code_simp
  have 2: "apply_patch sample_resource ?ops = Ok ?r" by code_simp
  have 3: "\<forall>o'\<in>set ?ops. urn_allowed o'" "py_lower ''id'' \<in> IMMUTABLE" by code_simp+
  show ?thesis using 1 2 patch_preserves_immutable[OF 1 2 3] by blast
qed

text \<open>Without that proviso the guard is incomplete: a path qualified by \<open>id\<close> as if it were a
  schema passes the check of the attribute name and overwrites the resource's identifier.\<close>

theorem patch_rewrites_id:
  "\<exists>ops r'. parse_operations (patch_doc ''replace'' ''id:x'' (PStr ''u2'')) = Ok ops \<and>
     apply_patch sample_resource ops = Ok r' \<and>
     map_of sample_resource ''id'' = Some (PStr ''u1'') \<and>
     map_of r' ''id'' = Some (PDict [(''x'', PStr ''u2'')])"
proof -
  let ?ops = "[\<lparr>o_op = REPLACE, o_path = Some \<lparr>pp_path = \<lparr>ap_attribute = ''x'', ap_sub = None,
      ap_urn = Some ''id''\<rparr>, pp_predicate = None, pp_sub = None\<rparr>, o_value = PStr ''u2''\<rparr>]"
  have "parse_operations (patch_doc ''replace'' ''id:x'' (PStr ''u2'')) = Ok ?ops" by code_simp
  moreover have "apply_patch sample_resource ?ops =
      Ok (AList.update ''id'' (PDict [(''x'', PStr ''u2'')]) sample_resource)" by code_simp
  ultimately show ?thesis
    by (intro exI conjI) (auto simp: update_conv' sample_resource_def)
qed

section \<open>Deleting by index\<close>

lemma del_at_length: "i < length xs \<Longrightarrow> length (del_at i xs) = length xs - 1"
  by (simp add: del_at_def)

lemma del_at_append: "i = length xs \<Longrightarrow> del_at i (xs @ y # ys) = xs @ ys"
  by (simp add: del_at_def)

text \<open>Deleting the selected indices from the last to the first keeps exactly the others.\<close>

lemma del_selected:
  "foldl (\<lambda>ms i. del_at i ms) (xs @ ys) (rev (filter (\<lambda>i. P ((xs @ ys) ! i)) [0..<length xs])) =
     filter (\<lambda>x. \<not> P x) xs @ ys"
proof (induction xs arbitrary: ys rule: rev_induct)
  case (snoc x xs)
  let ?sel = "\<lambda>zs. filter (\<lambda>i. P ((xs @ zs) ! i)) [0..<length xs]"
  have same: "?sel (x # ys) = ?sel ys"
    by (intro filter_cong) (auto simp: nth_append)
  have x: "(xs @ x # ys) ! length xs = x" by simp
  show ?case
  proof (cases "P x")
    case True
    then have "rev (filter (\<lambda>i. P (((xs @ [x]) @ ys) ! i)) [0..<length (xs @ [x])]) =
        length xs # rev (?sel ys)" using same x by simp
    then show ?thesis using snoc.IH[of ys] True by (simp add: del_at_append)
  next
    case False
    then have "filter (\<lambda>i. P (((xs @ [x]) @ ys) ! i)) [0..<length (xs @ [x])] = ?sel (x # ys)"
      using x by simp
    then show ?thesis using snoc.IH[of "x # ys"] False by simp
  qed
qed simp

lemma remove_selected_filter:
  "remove_selected None (select_members n members) members = filter (\<lambda>m. \<not> member_matches n m) members"
  using del_selected[of members "[]" "member_matches n"]
  by (simp add: remove_selected_def select_members_def)

lemma change_selected_nth:
  assumes "distinct selected" and "set selected \<subseteq> {..<length members}"
  shows "length (change_selected sub v selected members) = length members \<and>
     (\<forall>i < length members. change_selected sub v selected members ! i =
        (if i \<in> set selected then change_member sub v (members ! i) else members ! i))"
  using assms
proof (induction selected arbitrary: members)
  case (Cons j sel)
  let ?ms = "members[j := change_member sub v (members ! j)]"
  have "change_selected sub v (j # sel) members = change_selected sub v sel ?ms"
    by (simp add: change_selected_def)
  moreover have "distinct sel" "set sel \<subseteq> {..<length ?ms}" "j < length members" "j \<notin> set sel"
    using Cons.prems by auto
  ultimately show ?case using Cons.IH[of ?ms] by (auto simp: nth_list_update)
qed (simp add: change_selected_def)

lemma change_selected_map:
  "change_selected sub v (select_members n members) members =
     map (\<lambda>m. if member_matches n m then change_member sub v m else m) members"
proof -
  have "distinct (select_members n members)" "set (select_members n members) \<subseteq> {..<length members}"
    by (auto simp: select_members_def)
  from change_selected_nth[OF this, of sub v] show ?thesis
    by (intro nth_equalityI) (auto simp: select_members_def)
qed

lemma select_members_empty: "select_members n members = [] \<longleftrightarrow> (\<forall>m\<in>set members. \<not> member_matches n m)"
  by (auto simp: select_members_def filter_empty_conv all_set_conv_all_nth)

text \<open>A filtered operation on a multi-valued attribute: a \<open>remove\<close> deletes exactly the members
  the filter selects, an \<open>add\<close> or \<open>replace\<close> changes exactly those and keeps the others and the
  order, and no other attribute of the resource changes.\<close>

theorem filtered_operation_exact:
  assumes "ci_get r name = PList members" and "name \<noteq> []"
    and "apply_one r \<lparr>o_op = oper, o_path = Some \<lparr>pp_path = \<lparr>ap_attribute = name, ap_sub = None,
      ap_urn = None\<rparr>, pp_predicate = Some n, pp_sub = None\<rparr>, o_value = v\<rparr> = Ok r'"
  shows "ci_get r' name = PList (if oper = REMOVE then filter (\<lambda>m. \<not> member_matches n m) members
       else map (\<lambda>m. if member_matches n m then change_member None v m else m) members) \<and>
     (\<forall>k. py_lower k \<noteq> py_lower name \<longrightarrow> map_of r' k = map_of r k)"
proof -
  let ?pp = "\<lparr>pp_path = \<lparr>ap_attribute = name, ap_sub = None, ap_urn = None\<rparr>,
    pp_predicate = None, pp_sub = None\<rparr>"
  have w: "with_target r ?pp (filtered_edit oper v n None) = Ok r'"
    using assms(3) by (simp add: apply_one_def apply_filtered_def)
  then have e: "filtered_edit oper v n None r name = Ok r'"
    by (simp add: with_target_def in_attribute_def)
  have "ci_get r' name = PList (if oper = REMOVE then filter (\<lambda>m. \<not> member_matches n m) members
       else map (\<lambda>m. if member_matches n m then change_member None v m else m) members)"
  proof (cases "select_members n members = []")
    case True
    then have "r' = r" using e assms(1) by (simp add: filtered_edit_def)
    moreover have "\<forall>m\<in>set members. \<not> member_matches n m" using True select_members_empty by simp
    ultimately show ?thesis using assms(1) by (simp add: filter_id_conv map_idI)
  next
    case False
    then show ?thesis
      using e assms(1,2)
      by (auto simp: filtered_edit_def Let_def ci_get_set remove_selected_filter change_selected_map
          split: if_splits)
  qed
  moreover have "\<forall>k. py_lower k \<noteq> py_lower name \<longrightarrow> map_of r' k = map_of r k"
    using filtered.frame[OF e] by blast
  ultimately show ?thesis by blast
qed

theorem filtered_operation_exact_witness:
  "\<exists>r'. apply_one sample_resource \<lparr>o_op = REMOVE, o_path = Some \<lparr>pp_path = \<lparr>ap_attribute = ''Emails'',
      ap_sub = None, ap_urn = None\<rparr>, pp_predicate = Some (Comparison \<lparr>ap_attribute = ''type'',
      ap_sub = None, ap_urn = None\<rparr> EQ (LStr ''work'')), pp_sub = None\<rparr>, o_value = PNone\<rparr> = Ok r' \<and>
    ci_get r' ''Emails'' = PList [PDict [(''type'', PStr ''home''), (''value'', PStr ''b'')]] \<and>
    map_of r' ''id'' = Some (PStr ''u1'')"
proof -
  let ?n = "Comparison \<lparr>ap_attribute = ''type'', ap_sub = None, ap_urn = None\<rparr> EQ (LStr ''work'')"
  let ?ms = "[PDict [(''type'', PStr ''work''), (''value'', PStr ''a'')],
              PDict [(''type'', PStr ''home''), (''value'', PStr ''b'')]]"
  have 1: "ci_get sample_resource ''Emails'' = PList ?ms" by code_simp
  have 2: "\<exists>r'. apply_one sample_resource \<lparr>o_op = REMOVE, o_path = Some \<lparr>pp_path = \<lparr>ap_attribute = ''Emails'',
      ap_sub = None, ap_urn = None\<rparr>, pp_predicate = Some ?n, pp_sub = None\<rparr>, o_value = PNone\<rparr> = Ok r'"
    by (simp add: apply_one_def apply_filtered_def with_target_def in_attribute_def filtered_edit_def 1 Let_def)
  have 3: "filter (\<lambda>m. \<not> member_matches ?n m) ?ms = [PDict [(''type'', PStr ''home''), (''value'', PStr ''b'')]]"
    by code_simp
  have 4: "py_lower ''id'' \<noteq> py_lower ''Emails''" by simp
  from 2 filtered_operation_exact[OF 1] 3 4 show ?thesis
    by (auto simp: sample_resource_def)
qed

section \<open>Unfiltered operations\<close>

definition ci_distinct :: "dict \<Rightarrow> bool" where
  "ci_distinct d = distinct (map (\<lambda>kv. py_lower (fst kv)) d)"

lemma find_unique:
  "distinct (map f xs) \<Longrightarrow> x \<in> set xs \<Longrightarrow> find (\<lambda>y. f y = f x) xs = Some x"
  by (induction xs) auto

lemma ci_key_unique:
  assumes "ci_distinct d" and "k \<in> fst ` set d" and "py_lower k = py_lower name"
  shows "ci_key d name = Some k"
proof -
  have d: "distinct (map py_lower (map fst d))" using assms(1) by (simp add: ci_distinct_def comp_def)
  have k: "k \<in> set (map fst d)" using assms(2) by simp
  have f: "find (\<lambda>y. py_lower y = py_lower name) (map fst d) = Some k"
    using find_unique[OF d k] assms(3) by simp
  moreover have "name = k" if "name \<in> fst ` set d"
    using find_unique[OF d, of name] that f by auto
  ultimately show ?thesis by (auto simp: ci_key_def)
qed

lemma ci_key_delete:
  assumes "ci_distinct d" and "name \<noteq> []"
  shows "ci_key (ci_delete d name) name = None"
proof (rule ccontr)
  assume "ci_key (ci_delete d name) name \<noteq> None"
  then obtain k where k: "py_lower k = py_lower name" "k \<in> fst ` set (ci_delete d name)"
    using ci_key_lower by blast
  have "k \<in> fst ` set d"
    using k(2) AList.dom_delete_subset[of _ d] unfolding ci_delete_def
    by (auto split: option.splits if_splits)
  then have "ci_key d name = Some k" using ci_key_unique assms(1) k(1) by blast
  moreover have "k \<noteq> []" using k(1) assms(2) by (metis py_lower_eq_Nil)
  ultimately show False using k(2) AList.delete_notin_dom[of k d] by (simp add: ci_delete_def)
qed

text \<open>An unfiltered operation on an attribute always succeeds: \<open>add\<close> to a multi-valued attribute
  appends and keeps what was there, \<open>add\<close> to another and \<open>replace\<close> set the value, \<open>remove\<close> leaves
  nothing under any spelling of the name; other attributes keep their values.\<close>

theorem direct_operation_exact:
  assumes "ci_distinct r" and "name \<noteq> []"
  shows "\<exists>r'. apply_one r \<lparr>o_op = oper, o_path = Some (bare_path name), o_value = v\<rparr> = Ok r' \<and>
     ci_get r' name = (case oper of REMOVE \<Rightarrow> PNone | REPLACE \<Rightarrow> v
       | ADD \<Rightarrow> (case ci_get r name of
           PList xs \<Rightarrow> PList (xs @ (case v of PList vs \<Rightarrow> vs | _ \<Rightarrow> [v])) | _ \<Rightarrow> v)) \<and>
     (\<forall>k. py_lower k \<noteq> py_lower name \<longrightarrow> map_of r' k = map_of r k)"
proof -
  obtain r' where e: "direct_edit oper v r name = Ok r'" by (cases "oper = REMOVE") (auto simp: direct_edit_def)
  then have "apply_one r \<lparr>o_op = oper, o_path = Some (bare_path name), o_value = v\<rparr> = Ok r'"
    by (simp add: apply_one_def apply_direct_def bare_path_def with_target_def in_attribute_def)
  moreover have "ci_get r' name = (case oper of REMOVE \<Rightarrow> PNone | REPLACE \<Rightarrow> v
       | ADD \<Rightarrow> (case ci_get r name of
           PList xs \<Rightarrow> PList (xs @ (case v of PList vs \<Rightarrow> vs | _ \<Rightarrow> [v])) | _ \<Rightarrow> v))"
  proof (cases oper)
    case REMOVE
    then have "r' = ci_delete r name" using e by (simp add: direct_edit_def)
    then show ?thesis using REMOVE ci_key_delete[OF assms] by (simp add: ci_get_def)
  qed (use e assms(2) ci_get_set in \<open>auto simp: direct_edit_def split: pyval.splits\<close>)
  ultimately show ?thesis using direct.frame[OF e] by blast
qed

theorem direct_operation_exact_witness:
  "\<exists>r'. apply_one sample_resource \<lparr>o_op = ADD, o_path = Some (bare_path ''Emails''), o_value = PStr ''c''\<rparr> = Ok r' \<and>
     ci_get r' ''Emails'' = PList [PDict [(''type'', PStr ''work''), (''value'', PStr ''a'')],
       PDict [(''type'', PStr ''home''), (''value'', PStr ''b'')], PStr ''c'']"
proof -
  have 1: "ci_distinct sample_resource" by code_simp
  have 2: "ci_get sample_resource ''Emails'' = PList [PDict [(''type'', PStr ''work''), (''value'', PStr ''a'')],
       PDict [(''type'', PStr ''home''), (''value'', PStr ''b'')]]" by code_simp
  from direct_operation_exact[OF 1, of "''Emails''" ADD "PStr ''c''"] show ?thesis by (auto simp: 2)
qed

text \<open>An unfiltered path to a sub-attribute of a multi-valued attribute destroys the collection:
  removing \<open>emails.display\<close>, which no member carries, leaves an empty object in place of the
  e-mail addresses.\<close>

theorem sub_attribute_path_wipes_collection:
  "\<exists>ops r'. parse_operations (patch_doc ''remove'' ''emails.display'' PNone) = Ok ops \<and>
     apply_patch sample_resource ops = Ok r' \<and>
     ci_get sample_resource ''emails'' \<noteq> PDict [] \<and> ci_get r' ''emails'' = PDict []"
proof -
  let ?ops = "[\<lparr>o_op = REMOVE, o_path = Some \<lparr>pp_path = \<lparr>ap_attribute = ''emails'', ap_sub = Some ''display'',
      ap_urn = None\<rparr>, pp_predicate = None, pp_sub = Some ''display''\<rparr>, o_value = PNone\<rparr>]"
  let ?r = "ci_set sample_resource ''emails'' (PDict [])"
  have "parse_operations (patch_doc ''remove'' ''emails.display'' PNone) = Ok ?ops" by code_simp
  moreover have "apply_patch sample_resource ?ops = Ok ?r" by code_simp
  moreover have "ci_get sample_resource ''emails'' \<noteq> PDict []" by code_simp
  moreover have "ci_get ?r ''emails'' = PDict []" by (simp add: ci_get_set)
  ultimately show ?thesis by blast
qed

end
