(* ===== verification/ScimBulk.thy ===== *)
theory ScimBulk
  imports Prelude "HOL-Library.Multiset"
begin

text \<open>
  SCIM Bulk requests (\<open>campusid/scim/bulk.py\<close>): validation of a \<open>BulkRequest\<close>, the dependency sort of
  its operations and the substitution of \<open>bulkId:\<close> references.

  A \<open>ScimError\<close> is its HTTP status and its \<open>scimType\<close>; the text of the message is left out.  The set of
  references of an operation is a HOL set, and the sort's \<open>while\<close> loop is a terminating function on
  the list of remaining indices.
\<close>

section \<open>Errors and requests\<close>

datatype scim_type = INVALID_FILTER | TOO_MANY | UNIQUENESS | MUTABILITY | INVALID_SYNTAX
  | INVALID_PATH | NO_TARGET | INVALID_VALUE | INVALID_VERS | SENSITIVE

datatype scim_error = ScimError nat "scim_type option"

definition BULK_REQUEST :: string where
  "BULK_REQUEST = ''urn:ietf:params:scim:api:messages:2.0:BulkRequest''"

definition BULK_ID_PREFIX :: string where "BULK_ID_PREFIX = ''bulkId:''"

definition METHODS :: "string set" where "METHODS = {''POST'', ''PUT'', ''PATCH'', ''DELETE''}"

definition RESOURCES :: "string set" where "RESOURCES = {''Users'', ''Groups''}"

definition MAX_BULK_OPERATIONS :: nat where "MAX_BULK_OPERATIONS = 100"

record bulk_operation =
  b_method :: string
  b_resource :: string
  b_resource_id :: "string option"
  b_bulk_id :: "string option"
  b_data :: pyval
  b_version :: "string option"
  b_depends_on :: "string set"

record bulk_request =
  br_operations :: "bulk_operation list"
  br_fail_on_errors :: "int option"

abbreviation bad :: "nat \<Rightarrow> scim_type \<Rightarrow> (scim_error, 'a) result" where
  "bad status kind \<equiv> Err (ScimError status (Some kind))"

section \<open>References\<close>

definition removeprefix :: "string \<Rightarrow> string" where
  "removeprefix s = (if starts_with s BULK_ID_PREFIX then drop (length BULK_ID_PREFIX) s else s)"

fun referenced_bulk_ids :: "pyval \<Rightarrow> string set"
  and refs_list :: "pyval list \<Rightarrow> string set"
  and refs_items :: "dict \<Rightarrow> string set" where
  "referenced_bulk_ids (PStr s) = (if starts_with s BULK_ID_PREFIX then {removeprefix s} else {})"
| "referenced_bulk_ids (PDict d) = refs_items d"
| "referenced_bulk_ids (PList l) = refs_list l"
| "referenced_bulk_ids _ = {}"
| "refs_list [] = {}"
| "refs_list (v # vs) = referenced_bulk_ids v \<union> refs_list vs"
| "refs_items [] = {}"
| "refs_items ((k, v) # d) = referenced_bulk_ids v \<union> refs_items d"

fun resolve_references :: "pyval \<Rightarrow> (string \<rightharpoonup> string) \<Rightarrow> (scim_error, pyval) result"
  and resolve_list :: "pyval list \<Rightarrow> (string \<rightharpoonup> string) \<Rightarrow> (scim_error, pyval list) result"
  and resolve_items :: "dict \<Rightarrow> (string \<rightharpoonup> string) \<Rightarrow> (scim_error, dict) result" where
  "resolve_references (PStr s) resolved =
     (if starts_with s BULK_ID_PREFIX then
        (case resolved (removeprefix s) of None \<Rightarrow> bad 404 INVALID_VALUE | Some i \<Rightarrow> Ok (PStr i))
      else Ok (PStr s))"
| "resolve_references (PDict d) resolved =
     (case resolve_items d resolved of Inl e \<Rightarrow> Err e | Inr d' \<Rightarrow> Ok (PDict d'))"
| "resolve_references (PList l) resolved =
     (case resolve_list l resolved of Inl e \<Rightarrow> Err e | Inr l' \<Rightarrow> Ok (PList l'))"
| "resolve_references v resolved = Ok v"
| "resolve_list [] resolved = Ok []"
| "resolve_list (v # vs) resolved = (case resolve_references v resolved of Inl e \<Rightarrow> Err e
     | Inr v' \<Rightarrow> (case resolve_list vs resolved of Inl e \<Rightarrow> Err e | Inr vs' \<Rightarrow> Ok (v' # vs')))"
| "resolve_items [] resolved = Ok []"
| "resolve_items ((k, v) # d) resolved = (case resolve_references v resolved of Inl e \<Rightarrow> Err e
     | Inr v' \<Rightarrow> (case resolve_items d resolved of Inl e \<Rightarrow> Err e | Inr d' \<Rightarrow> Ok ((k, v') # d')))"

section \<open>Validation\<close>

definition fail_on_errors :: "pyval \<Rightarrow> (scim_error, int option) result" where
  "fail_on_errors v = (case v of
       PNone \<Rightarrow> Ok None
     | PInt i \<Rightarrow> if i < 1 then bad 400 INVALID_VALUE else Ok (Some i)
     | _ \<Rightarrow> bad 400 INVALID_VALUE)"

text \<open>\<open>str.upper\<close> as far as membership in \<open>METHODS\<close> depends on it: only the ASCII letters have an
  ASCII upper case that is a letter of a method.\<close>

definition method_upper :: "string \<Rightarrow> string" where
  "method_upper s = map (\<lambda>c. let n = (of_char c :: nat) in
     if 97 \<le> n \<and> n \<le> 122 then char_of (n - 32) else c) s"

text \<open>The non-empty parts of \<open>path.split("/")\<close>.\<close>

fun path_parts :: "string \<Rightarrow> string \<Rightarrow> string list" where
  "path_parts part [] = (if part = [] then [] else [rev part])"
| "path_parts part (c # s) =
     (if c = CHR ''/'' then (if part = [] then path_parts [] s else rev part # path_parts [] s)
      else path_parts (c # part) s)"

definition parse_bulk_path :: "pyval \<Rightarrow> (scim_error, string \<times> string option) result" where
  "parse_bulk_path path = (case path of
       PStr s \<Rightarrow>
         if \<not> starts_with s ''/'' then bad 400 INVALID_PATH
         else (case path_parts [] s of
             [] \<Rightarrow> bad 400 INVALID_PATH
           | r # rest \<Rightarrow>
               if r \<notin> RESOURCES \<or> length rest > 1 then bad 400 INVALID_PATH
               else Ok (r, case rest of [] \<Rightarrow> None | i # _ \<Rightarrow> Some i))
     | _ \<Rightarrow> bad 400 INVALID_PATH)"

definition optional_string :: "pyval \<Rightarrow> (scim_error, string option) result" where
  "optional_string v = (case v of PNone \<Rightarrow> Ok None | PStr s \<Rightarrow> Ok (Some s) | _ \<Rightarrow> bad 400 INVALID_VALUE)"

definition id_references :: "string option \<Rightarrow> string set" where
  "id_references resource_id = (case resource_id of
       Some i \<Rightarrow> if starts_with i BULK_ID_PREFIX then {removeprefix i} else {} | None \<Rightarrow> {})"

definition check_addressing :: "string \<Rightarrow> string option \<Rightarrow> string option \<Rightarrow> (scim_error, unit) result" where
  "check_addressing method resource_id bulk_id =
     (if method = ''POST'' \<and> (bulk_id = None \<or> bulk_id = Some []) then bad 400 INVALID_VALUE
      else if method \<noteq> ''POST'' \<and> resource_id = None then bad 400 INVALID_PATH
      else if method = ''POST'' \<and> resource_id \<noteq> None then bad 400 INVALID_PATH
      else Ok ())"

definition parse_bulk_one :: "pyval \<Rightarrow> (scim_error, bulk_operation) result" where
  "parse_bulk_one entry = (case entry of
       PDict d \<Rightarrow> (case dict_get d ''method'' of
           PStr m \<Rightarrow>
             if method_upper m \<notin> METHODS then bad 400 INVALID_VALUE
             else rbind (parse_bulk_path (dict_get d ''path'')) (\<lambda>(resource, resource_id).
               rbind (optional_string (dict_get d ''bulkId'')) (\<lambda>bulk_id.
               rbind (check_addressing (method_upper m) resource_id bulk_id) (\<lambda>_.
               rbind (optional_string (dict_get d ''version'')) (\<lambda>version.
                 let data = dict_get d ''data'';
                     refs = referenced_bulk_ids data \<union> id_references resource_id in
                 if method_upper m \<in> {''POST'', ''PUT'', ''PATCH''} \<and> \<not> is_dict data then bad 400 INVALID_VALUE
                 else if bulk_id \<noteq> None \<and> the bulk_id \<in> refs then bad 409 INVALID_VALUE
                 else Ok \<lparr>b_method = method_upper m, b_resource = resource, b_resource_id = resource_id,
                   b_bulk_id = bulk_id, b_data = data, b_version = version, b_depends_on = refs\<rparr>))))
         | _ \<Rightarrow> bad 400 INVALID_VALUE)
     | _ \<Rightarrow> bad 400 INVALID_SYNTAX)"

fun assert_bulk_ids_unique :: "string set \<Rightarrow> bulk_operation list \<Rightarrow> (scim_error, unit) result" where
  "assert_bulk_ids_unique seen [] = Ok ()"
| "assert_bulk_ids_unique seen (o' # ops) = (case b_bulk_id o' of
       None \<Rightarrow> assert_bulk_ids_unique seen ops
     | Some i \<Rightarrow> if i \<in> seen then bad 409 UNIQUENESS else assert_bulk_ids_unique (insert i seen) ops)"

section \<open>The dependency sort\<close>

text \<open>The identifier an operation declares; an empty one does not count.\<close>

definition declared :: "bulk_operation \<Rightarrow> string set" where
  "declared o' = (case b_bulk_id o' of Some i \<Rightarrow> if i \<noteq> [] then {i} else {} | None \<Rightarrow> {})"

definition ready_indices :: "bulk_operation list \<Rightarrow> nat list \<Rightarrow> string set \<Rightarrow> nat list" where
  "ready_indices ops remaining done' = filter (\<lambda>i. b_depends_on (ops ! i) \<subseteq> done') remaining"

lemma fold_remove1_length: "length (fold remove1 xs ys) \<le> length ys"
proof (induction xs arbitrary: ys)
  case (Cons x xs)
  have "length (fold remove1 xs (remove1 x ys)) \<le> length (remove1 x ys)" by (rule Cons.IH)
  also have "\<dots> \<le> length ys" by (simp add: length_remove1)
  finally show ?case by simp
qed simp

lemma ready_shrinks:
  assumes "ready_indices ops remaining done' \<noteq> []"
  shows "length (fold remove1 (ready_indices ops remaining done') remaining) < length remaining"
proof -
  obtain i js where i: "ready_indices ops remaining done' = i # js"
    using assms by (cases "ready_indices ops remaining done'") auto
  then have "i \<in> set remaining"
    unfolding ready_indices_def by (metis filter_is_subset list.set_intros(1) subsetD)
  moreover from this have "0 < length remaining" by (cases remaining) auto
  ultimately show ?thesis
    using fold_remove1_length[of js "remove1 i remaining"]
    by (simp add: i length_remove1 del: length_greater_0_conv)
qed

function order_loop ::
  "bulk_operation list \<Rightarrow> nat list \<Rightarrow> string set \<Rightarrow> (scim_error, bulk_operation list) result" where
  "order_loop ops remaining done' =
     (if remaining = [] then Ok []
      else let ready = ready_indices ops remaining done' in
        if ready = [] then bad 409 INVALID_VALUE
        else (case order_loop ops (fold remove1 ready remaining)
                (done' \<union> \<Union> (set (map (\<lambda>i. declared (ops ! i)) ready))) of
            Inl e \<Rightarrow> Err e
          | Inr rest \<Rightarrow> Ok (map (\<lambda>i. ops ! i) ready @ rest)))"
  by pat_completeness auto
termination
  by (relation "measure (\<lambda>(ops, remaining, d). length remaining)") (auto intro: ready_shrinks)

declare order_loop.simps [simp del]

definition bulk_ordered :: "bulk_operation list \<Rightarrow> (scim_error, bulk_operation list) result" where
  "bulk_ordered ops =
     (let produced = \<Union> (set (map declared ops)) in
      if \<not> (\<Union> (set (map b_depends_on ops)) \<subseteq> produced) then bad 400 INVALID_VALUE
      else order_loop ops [0..<length ops] {})"

definition parse_bulk :: "pyval \<Rightarrow> (scim_error, bulk_request) result" where
  "parse_bulk document = (case document of
       PDict d \<Rightarrow> (case dict_get d ''schemas'' of
           PList schemas \<Rightarrow>
             if PStr BULK_REQUEST \<notin> set schemas then bad 400 INVALID_SYNTAX
             else (case dict_get d ''Operations'' of
                 PList raw \<Rightarrow>
                   if raw = [] then bad 400 INVALID_VALUE
                   else if length raw > MAX_BULK_OPERATIONS then bad 413 TOO_MANY
                   else rbind (fail_on_errors (dict_get d ''failOnErrors'')) (\<lambda>fail.
                        rbind (rmap parse_bulk_one raw) (\<lambda>ops.
                        rbind (assert_bulk_ids_unique {} ops) (\<lambda>_.
                        rbind (bulk_ordered ops) (\<lambda>ordered.
                          Ok \<lparr>br_operations = ordered, br_fail_on_errors = fail\<rparr>))))
               | _ \<Rightarrow> bad 400 INVALID_VALUE)
         | _ \<Rightarrow> bad 400 INVALID_SYNTAX)
     | _ \<Rightarrow> bad 400 INVALID_SYNTAX)"

section \<open>The sort, round by round\<close>

text \<open>The same loop on the remaining operations themselves.\<close>

definition ready :: "string set \<Rightarrow> bulk_operation \<Rightarrow> bool" where
  "ready done' o' = (b_depends_on o' \<subseteq> done')"

function rounds :: "bulk_operation list \<Rightarrow> string set \<Rightarrow> (scim_error, bulk_operation list) result" where
  "rounds rem done' =
     (if rem = [] then Ok []
      else if filter (ready done') rem = [] then bad 409 INVALID_VALUE
      else (case rounds (filter (\<lambda>x. \<not> ready done' x) rem)
              (done' \<union> \<Union> (declared ` set (filter (ready done') rem))) of
          Inl e \<Rightarrow> Err e | Inr rest \<Rightarrow> Ok (filter (ready done') rem @ rest)))"
  by pat_completeness auto
termination
proof (relation "measure (\<lambda>(rem, d). length rem)", goal_cases)
  case (2 rem done')
  then obtain x where "x \<in> set rem" "ready done' x" by (auto simp: filter_empty_conv)
  then show ?case by (auto intro: length_filter_less)
qed simp

declare rounds.simps [simp del]

lemma fold_remove1_filter:
  "distinct xs \<Longrightarrow> fold remove1 (filter P xs) xs = filter (\<lambda>x. \<not> P x) xs"
proof -
  have "distinct xs \<Longrightarrow> distinct ys \<Longrightarrow> fold remove1 ys xs = filter (\<lambda>x. x \<notin> set ys) xs" for xs ys :: "'a list"
  proof (induction ys arbitrary: xs)
    case (Cons y ys)
    then show ?case by (simp add: distinct_remove1_removeAll removeAll_filter_not_eq) (rule filter_cong, auto)
  qed simp
  moreover assume "distinct xs"
  ultimately have "fold remove1 (filter P xs) xs = filter (\<lambda>x. x \<notin> set (filter P xs)) xs" by simp
  also have "\<dots> = filter (\<lambda>x. \<not> P x) xs" by (rule filter_cong) auto
  finally show ?thesis .
qed

lemma order_loop_rounds:
  "distinct remaining \<Longrightarrow> order_loop ops remaining done' = rounds (map ((!) ops) remaining) done'"
proof (induction ops remaining done' rule: order_loop.induct)
  case (1 ops remaining done')
  let ?P = "\<lambda>i. ready done' (ops ! i)"
  have r: "ready_indices ops remaining done' = filter ?P remaining"
    by (simp add: ready_indices_def ready_def)
  have fm: "filter (ready done') (map ((!) ops) remaining) = map ((!) ops) (filter ?P remaining)"
    "filter (\<lambda>x. \<not> ready done' x) (map ((!) ops) remaining) = map ((!) ops) (filter (\<lambda>i. \<not> ?P i) remaining)"
    by (simp_all add: filter_map comp_def)
  have rest: "fold remove1 (ready_indices ops remaining done') remaining = filter (\<lambda>i. \<not> ?P i) remaining"
    using fold_remove1_filter[OF 1(2)] r by simp
  show ?case
  proof (cases "remaining = [] \<or> filter ?P remaining = []")
    case True
    then show ?thesis
      by (subst order_loop.simps, subst rounds.simps) (auto simp: r fm)
  next
    case False
    then have "order_loop ops (filter (\<lambda>i. \<not> ?P i) remaining)
        (done' \<union> \<Union> (set (map (\<lambda>i. declared (ops ! i)) (filter ?P remaining)))) =
      rounds (map ((!) ops) (filter (\<lambda>i. \<not> ?P i) remaining))
        (done' \<union> \<Union> (set (map (\<lambda>i. declared (ops ! i)) (filter ?P remaining))))"
      using 1(1)[OF _ refl] 1(2) r rest by simp
    then show ?thesis
      using False unfolding order_loop.simps[of ops remaining] rounds.simps[of "map ((!) ops) remaining"] fm r
        rest[unfolded r] Let_def
      by (simp add: image_image)
  qed
qed

lemma bulk_ordered_rounds:
  "bulk_ordered ops =
     (if \<Union> (b_depends_on ` set ops) \<subseteq> \<Union> (declared ` set ops) then rounds ops {} else bad 400 INVALID_VALUE)"
  by (simp add: bulk_ordered_def order_loop_rounds map_nth)

text \<open>A list of operations runs when each one's references are declared by the ones before it.\<close>

fun runnable :: "string set \<Rightarrow> bulk_operation list \<Rightarrow> bool" where
  "runnable done' [] = True"
| "runnable done' (o' # ops) = (ready done' o' \<and> runnable (done' \<union> declared o') ops)"

lemma runnable_mono: "runnable d ops \<Longrightarrow> d \<subseteq> d' \<Longrightarrow> runnable d' ops"
  by (induction ops arbitrary: d d') (auto simp: ready_def, meson Un_mono subset_refl)

lemma runnable_ready: "\<forall>x\<in>set xs. ready d x \<Longrightarrow> runnable d xs"
proof (induction xs)
  case (Cons x xs)
  then show ?case using runnable_mono[of d xs "d \<union> declared x"] by simp
qed simp

lemma runnable_append:
  "runnable d (xs @ ys) \<longleftrightarrow> runnable d xs \<and> runnable (d \<union> \<Union> (declared ` set xs)) ys"
  by (induction xs arbitrary: d) (auto simp: Un_assoc)

lemma rounds_sound:
  "rounds rem d = Ok out \<Longrightarrow> mset out = mset rem \<and> runnable d out"
proof (induction rem d arbitrary: out rule: rounds.induct)
  case (1 rem d)
  show ?case
  proof (cases "rem = [] \<or> filter (ready d) rem = []")
    case True
    then show ?thesis using 1(2) by (subst (asm) rounds.simps) (auto split: if_splits)
  next
    case False
    then obtain rest where rest: "out = filter (ready d) rem @ rest"
        "rounds (filter (\<lambda>x. \<not> ready d x) rem) (d \<union> \<Union> (declared ` set (filter (ready d) rem))) = Ok rest"
      using 1(2) by (subst (asm) (2) rounds.simps) (auto split: sum.splits)
    have "mset rest = mset (filter (\<lambda>x. \<not> ready d x) rem) \<and>
        runnable (d \<union> \<Union> (declared ` set (filter (ready d) rem))) rest"
      using 1(1) False rest(2) by blast
    moreover have "runnable d (filter (ready d) rem)" by (rule runnable_ready) simp
    ultimately show ?thesis by (simp add: rest(1) runnable_append multiset_partition[symmetric])
  qed
qed

text \<open>When some order runs, every round finds an operation that is ready: the first one of that order
  still remaining.\<close>

lemma runnable_progress:
  assumes "runnable d zs" and "set rem \<subseteq> set zs" and "rem \<noteq> []"
    and "\<Union> (declared ` (set zs - set rem)) \<subseteq> d"
  shows "\<exists>x\<in>set rem. ready d x"
  using assms
proof (induction zs arbitrary: d)
  case (Cons z zs)
  show ?case
  proof (cases "z \<in> set rem")
    case True
    then show ?thesis using Cons.prems(1) by auto
  next
    case False
    then have "d \<union> declared z = d" using Cons.prems(4) by auto
    then show ?thesis using False Cons.prems by (intro Cons.IH) auto
  qed
qed simp

lemma rounds_complete:
  "runnable {} zs \<Longrightarrow> set rem \<subseteq> set zs \<Longrightarrow> \<Union> (declared ` (set zs - set rem)) \<subseteq> d \<Longrightarrow>
     \<exists>out. rounds rem d = Ok out"
proof (induction rem d rule: rounds.induct)
  case (1 rem d)
  show ?case
  proof (cases "rem = []")
    case False
    obtain x where "x \<in> set rem" "ready d x"
      using runnable_progress[of d zs rem] runnable_mono[OF 1(2)] 1(3,4) False by blast
    then have ne: "filter (ready d) rem \<noteq> []" by (auto simp: filter_empty_conv)
    have "\<Union> (declared ` (set zs - set (filter (\<lambda>x. \<not> ready d x) rem)))
        \<subseteq> d \<union> \<Union> (declared ` set (filter (ready d) rem))"
      using 1(4) by fastforce
    then obtain rest where "rounds (filter (\<lambda>x. \<not> ready d x) rem)
        (d \<union> \<Union> (declared ` set (filter (ready d) rem))) = Ok rest"
      using 1(1)[OF False ne 1(2)] 1(3) by auto
    then show ?thesis using False ne by (subst rounds.simps) simp
  qed (simp add: rounds.simps)
qed

lemma runnable_known:
  "runnable d zs \<Longrightarrow> \<Union> (b_depends_on ` set zs) \<subseteq> d \<union> \<Union> (declared ` set zs)"
proof (induction zs arbitrary: d)
  case (Cons z zs)
  then have "b_depends_on z \<subseteq> d" "\<Union> (b_depends_on ` set zs) \<subseteq> (d \<union> declared z) \<union> \<Union> (declared ` set zs)"
    by (auto simp: ready_def)
  then show ?case by auto
qed simp

section \<open>Properties\<close>

text \<open>The dependency sort returns exactly the operations it was given, in an order in which
  every referenced operation precedes the one that refers to it.\<close>

theorem bulk_ordered_sound:
  assumes "bulk_ordered ops = Ok out"
  shows "mset out = mset ops \<and> runnable {} out"
  using assms rounds_sound by (auto simp: bulk_ordered_rounds split: if_splits)

definition sample_op :: "string \<Rightarrow> string set \<Rightarrow> bulk_operation" where
  "sample_op i refs = \<lparr>b_method = ''POST'', b_resource = ''Users'', b_resource_id = None,
     b_bulk_id = Some i, b_data = PDict [], b_version = None, b_depends_on = refs\<rparr>"

theorem bulk_ordered_sound_witness:
  "bulk_ordered [sample_op ''g'' {''u''}, sample_op ''u'' {}] =
     Ok [sample_op ''u'' {}, sample_op ''g'' {''u''}] \<and>
   runnable {} [sample_op ''u'' {}, sample_op ''g'' {''u''}]"
proof -
  have "bulk_ordered [sample_op ''g'' {''u''}, sample_op ''u'' {}] =
      Ok [sample_op ''u'' {}, sample_op ''g'' {''u''}]"
    by (simp add: bulk_ordered_rounds rounds.simps ready_def declared_def sample_op_def)
  with bulk_ordered_sound[OF this] show ?thesis by blast
qed

text \<open>C26. The sort refuses a request only when it must: it succeeds exactly when the operations can
  be arranged at all so that every reference is declared earlier.\<close>

theorem bulk_ordered_complete:
  "(\<exists>out. bulk_ordered ops = Ok out) = (\<exists>zs. mset zs = mset ops \<and> runnable {} zs)"
proof
  assume "\<exists>out. bulk_ordered ops = Ok out"
  then show "\<exists>zs. mset zs = mset ops \<and> runnable {} zs"
    using rounds_sound by (auto simp: bulk_ordered_rounds split: if_splits)
next
  assume "\<exists>zs. mset zs = mset ops \<and> runnable {} zs"
  then obtain zs where zs: "mset zs = mset ops" "runnable {} zs" by blast
  have "set zs = set ops" using zs(1) by (metis set_mset_mset)
  then show "\<exists>out. bulk_ordered ops = Ok out"
    using runnable_known[OF zs(2)] rounds_complete[OF zs(2), of ops "{}"]
    by (auto simp: bulk_ordered_rounds)
qed

lemma rounds_in_order: "\<forall>x\<in>set rem. b_depends_on x = {} \<Longrightarrow> rounds rem d = Ok rem"
proof -
  assume "\<forall>x\<in>set rem. b_depends_on x = {}"
  then have "filter (ready d) rem = rem" "filter (\<lambda>x. \<not> ready d x) rem = []"
    by (auto simp: ready_def filter_id_conv filter_empty_conv)
  then show ?thesis by (cases "rem = []") (simp_all add: rounds.simps[of rem] rounds.simps[of "[]"])
qed

text \<open>Operations that refer to nothing run in the order sent; but the sort is not stable among
  ready operations: of three operations of which only the second refers, to the first, the third
  overtakes the second although the second is ready as soon as the first has run.\<close>

theorem bulk_order_stability:
  "(if \<Union> (b_depends_on ` set ops) = {} then bulk_ordered ops = Ok ops else True) \<and>
   bulk_ordered [sample_op ''a'' {}, sample_op ''b'' {''a''}, sample_op ''c'' {}] =
     Ok [sample_op ''a'' {}, sample_op ''c'' {}, sample_op ''b'' {''a''}]"
proof
  show "if \<Union> (b_depends_on ` set ops) = {} then bulk_ordered ops = Ok ops else True"
    using rounds_in_order[of ops "{}"] by (auto simp: bulk_ordered_rounds)
  show "bulk_ordered [sample_op ''a'' {}, sample_op ''b'' {''a''}, sample_op ''c'' {}] =
     Ok [sample_op ''a'' {}, sample_op ''c'' {}, sample_op ''b'' {''a''}]"
    by (simp add: bulk_ordered_rounds rounds.simps ready_def declared_def sample_op_def)
qed

section \<open>Resolving references\<close>

lemma resolve_Ok_iff:
  "(\<exists>v'. resolve_references v m = Ok v') \<longleftrightarrow> referenced_bulk_ids v \<subseteq> dom m"
  "(\<exists>vs'. resolve_list vs m = Ok vs') \<longleftrightarrow> refs_list vs \<subseteq> dom m"
  "(\<exists>d'. resolve_items d m = Ok d') \<longleftrightarrow> refs_items d \<subseteq> dom m"
  by (induction v m and vs m and d m rule: resolve_references_resolve_list_resolve_items.induct)
    (auto simp: domIff split: option.splits sum.splits)

lemma resolve_clean:
  assumes ids: "\<forall>i \<in> ran m. \<not> starts_with i BULK_ID_PREFIX"
  shows "resolve_references v m = Ok v' \<Longrightarrow> referenced_bulk_ids v' = {}"
    "resolve_list vs m = Ok vs' \<Longrightarrow> refs_list vs' = {}"
    "resolve_items d m = Ok d' \<Longrightarrow> refs_items d' = {}"
  using ids
  by (induction v m and vs m and d m arbitrary: v' and vs' and d'
      rule: resolve_references_resolve_list_resolve_items.induct)
    (fastforce intro: ranI split: option.splits sum.splits if_splits)+

lemma resolve_id:
  "referenced_bulk_ids v = {} \<Longrightarrow> resolve_references v m = Ok v"
  "refs_list vs = {} \<Longrightarrow> resolve_list vs m = Ok vs"
  "refs_items d = {} \<Longrightarrow> resolve_items d m = Ok d"
  by (induction v m and vs m and d m rule: resolve_references_resolve_list_resolve_items.induct) auto

text \<open>Substituting references in a document of an operation fails exactly when one of them has
  produced no resource; the document that comes back holds no reference any more, and resolving it
  again changes nothing.\<close>

theorem resolve_references_exact:
  assumes "\<forall>i \<in> ran m. \<not> starts_with i BULK_ID_PREFIX"
  shows "(if referenced_bulk_ids v \<subseteq> dom m
     then \<exists>v'. resolve_references v m = Ok v' \<and> referenced_bulk_ids v' = {} \<and>
       resolve_references v' m = Ok v'
     else \<exists>e. resolve_references v m = Err e)"
proof (cases "referenced_bulk_ids v \<subseteq> dom m")
  case True
  then obtain v' where "resolve_references v m = Ok v'" using resolve_Ok_iff(1) by blast
  then show ?thesis using True resolve_clean(1)[OF assms] resolve_id(1) by auto
next
  case False
  then show ?thesis using resolve_Ok_iff(1)[of v m] by (cases "resolve_references v m") auto
qed

theorem resolve_references_exact_witness:
  "\<exists>v'. resolve_references (PDict [(''members'', PList [PStr ''bulkId:u''])]) [''u'' \<mapsto> ''id-1''] = Ok v' \<and>
     referenced_bulk_ids v' = {}"
proof -
  have "\<forall>i \<in> ran [''u'' \<mapsto> ''id-1'']. \<not> starts_with i BULK_ID_PREFIX"
    by (simp add: starts_with_def BULK_ID_PREFIX_def)
  from resolve_references_exact[OF this, of "PDict [(''members'', PList [PStr ''bulkId:u''])]"]
  show ?thesis by (auto simp: starts_with_def removeprefix_def BULK_ID_PREFIX_def split: if_splits)
qed

end
