(* ===== verification/ScimBulkRunner.thy ===== *)
theory ScimBulkRunner
  imports ScimPatch ScimBulk
begin

text \<open>
  Executing a bulk request (\<open>campusid/scim/bulk_runner.py\<close>).

  The user and group stores are protocols in the source and parameters here: the record \<open>bulk_env\<close>
  holds one function per method of \<open>UserOperations\<close> and \<open>GroupOperations\<close>, on an arbitrary state \<open>'s\<close>,
  together with \<open>from_scim\<close> of \<open>scim/resources.py\<close>.  A step returns its outcome and the state it leaves
  behind, also when it raises: nothing is rolled back.  What a step may raise is a \<open>ScimError\<close>, the
  \<open>PatchError\<close> of \<open>apply_patch\<close>, or a \<open>KeyError\<close> on a resource that carries no textual \<open>id\<close> or no
  \<open>meta.location\<close>.
\<close>

section \<open>Environment\<close>

datatype raised = RScim scim_error | RPatch patch_error | RKeyError

type_synonym ('s, 'e, 'a) action = "'s \<Rightarrow> ('e, 'a) result \<times> 's"

record ('s, 'p) bulk_env =
  from_scim :: "pyval \<Rightarrow> (scim_error, 'p) result"
  user_create :: "'p \<Rightarrow> pyval \<Rightarrow> ('s, scim_error, dict \<times> bool) action"
  user_get :: "string \<Rightarrow> ('s, scim_error, dict) action"
  user_replace :: "string \<Rightarrow> 'p \<Rightarrow> pyval \<Rightarrow> string option \<Rightarrow> ('s, scim_error, dict) action"
  user_apply_patched :: "string \<Rightarrow> 'p \<Rightarrow> pyval \<Rightarrow> string option \<Rightarrow> ('s, scim_error, dict) action"
  user_soft_delete :: "string \<Rightarrow> string option \<Rightarrow> ('s, scim_error, unit) action"
  group_create :: "pyval \<Rightarrow> ('s, scim_error, dict \<times> bool) action"
  group_replace :: "string \<Rightarrow> pyval \<Rightarrow> string option \<Rightarrow> ('s, scim_error, dict) action"
  group_patch :: "string \<Rightarrow> operation list \<Rightarrow> string option \<Rightarrow> ('s, scim_error, dict) action"
  group_delete :: "string \<Rightarrow> string option \<Rightarrow> ('s, scim_error, unit) action"

definition abind :: "('s, 'e, 'a) action \<Rightarrow> ('a \<Rightarrow> ('s, 'e, 'b) action) \<Rightarrow> ('s, 'e, 'b) action" where
  "abind m f s = (case m s of (Inl e, s') \<Rightarrow> (Err e, s') | (Inr a, s') \<Rightarrow> f a s')"

definition pure_a :: "('e, 'a) result \<Rightarrow> ('s, 'e, 'a) action" where
  "pure_a r s = (r, s)"

text \<open>A store call seen from the runner: its \<open>ScimError\<close> propagates.\<close>

definition scim_a :: "('s, scim_error, 'a) action \<Rightarrow> ('s, raised, 'a) action" where
  "scim_a m s = (case m s of (r, s') \<Rightarrow> (rmap_err RScim r, s'))"

record bulk_entry =
  e_method :: string
  e_status :: nat
  e_bulk_id :: "string option"
  e_location :: "string option"
  e_response :: "scim_error option"

definition entry_of :: "bulk_operation \<Rightarrow> nat \<Rightarrow> string option \<Rightarrow> scim_error option \<Rightarrow> bulk_entry" where
  "entry_of o' status location response =
     \<lparr>e_method = b_method o', e_status = status,
      e_bulk_id = (if b_bulk_id o' = Some [] then None else b_bulk_id o'),
      e_location = (if location = Some [] then None else location), e_response = response\<rparr>"

definition patch_scim_type :: "patch_error \<Rightarrow> scim_type" where
  "patch_scim_type e = (case e of InvalidValue \<Rightarrow> INVALID_VALUE | InvalidPath \<Rightarrow> INVALID_PATH
     | Mutability \<Rightarrow> MUTABILITY | NoTarget \<Rightarrow> NO_TARGET)"

definition patch_operations :: "pyval \<Rightarrow> (scim_error, operation list) result" where
  "patch_operations data =
     rmap_err (\<lambda>e. ScimError 400 (Some (patch_scim_type e))) (parse_operations data)"

definition created_status :: "dict \<times> bool \<Rightarrow> dict option \<times> nat" where
  "created_status rc = (Some (fst rc), if snd rc then 201 else 200)"

definition lift_scim :: "(scim_error, 'a) result \<Rightarrow> ('s, raised, 'a) action" where
  "lift_scim r = pure_a (rmap_err RScim r)"

section \<open>Dispatch\<close>

definition run_user ::
  "('s, 'p) bulk_env \<Rightarrow> bulk_operation \<Rightarrow> string option \<Rightarrow> pyval \<Rightarrow> ('s, raised, dict option \<times> nat) action" where
  "run_user E o' resource_id data =
     (let i = the resource_id; v = b_version o' in
      if b_method o' = ''POST'' then
        abind (lift_scim (from_scim E data)) (\<lambda>parsed.
        abind (scim_a (user_create E parsed data)) (\<lambda>rc. pure_a (Ok (created_status rc))))
      else if b_method o' = ''PUT'' then
        abind (lift_scim (from_scim E data)) (\<lambda>parsed.
        abind (scim_a (user_replace E i parsed data v)) (\<lambda>r. pure_a (Ok (Some r, 200))))
      else if b_method o' = ''PATCH'' then
        abind (scim_a (user_get E i)) (\<lambda>current.
        abind (lift_scim (patch_operations data)) (\<lambda>ops.
        abind (pure_a (rmap_err RPatch (apply_patch current ops))) (\<lambda>patched.
        abind (lift_scim (from_scim E (PDict patched))) (\<lambda>parsed.
        abind (scim_a (user_apply_patched E i parsed (PDict patched) v)) (\<lambda>r. pure_a (Ok (Some r, 200)))))))
      else abind (scim_a (user_soft_delete E i v)) (\<lambda>_. pure_a (Ok (None, 204))))"

definition run_group ::
  "('s, 'p) bulk_env \<Rightarrow> bulk_operation \<Rightarrow> string option \<Rightarrow> pyval \<Rightarrow> ('s, raised, dict option \<times> nat) action" where
  "run_group E o' resource_id data =
     (let i = the resource_id; v = b_version o' in
      if b_method o' = ''POST'' then
        abind (scim_a (group_create E data)) (\<lambda>rc. pure_a (Ok (created_status rc)))
      else if b_method o' = ''PUT'' then
        abind (scim_a (group_replace E i data v)) (\<lambda>r. pure_a (Ok (Some r, 200)))
      else if b_method o' = ''PATCH'' then
        abind (lift_scim (patch_operations data)) (\<lambda>ops.
        abind (scim_a (group_patch E i ops v)) (\<lambda>r. pure_a (Ok (Some r, 200))))
      else abind (scim_a (group_delete E i v)) (\<lambda>_. pure_a (Ok (None, 204))))"

definition resource_field :: "pyval option \<Rightarrow> (raised, string) result" where
  "resource_field v = (case v of Some (PStr s) \<Rightarrow> Ok s | _ \<Rightarrow> Err RKeyError)"

definition resource_location :: "dict \<Rightarrow> (raised, string) result" where
  "resource_location r = (case map_of r ''meta'' of
       Some (PDict m) \<Rightarrow> resource_field (map_of m ''location'') | _ \<Rightarrow> Err RKeyError)"

type_synonym resolved = "string \<rightharpoonup> string"

definition remember :: "bulk_operation \<Rightarrow> dict option \<Rightarrow> resolved \<Rightarrow> (raised, resolved) result" where
  "remember o' resource resolved = (case (declared o' = {}, resource) of
       (False, Some r) \<Rightarrow> rbind (resource_field (map_of r ''id'')) (\<lambda>i.
         Ok (resolved(the (b_bulk_id o') \<mapsto> i)))
     | _ \<Rightarrow> Ok resolved)"

definition location_of ::
  "string \<Rightarrow> bulk_operation \<Rightarrow> dict option \<Rightarrow> string option \<Rightarrow> (raised, string option) result" where
  "location_of issuer o' resource resource_id =
     (let fallback = (case resource_id of None \<Rightarrow> None
        | Some i \<Rightarrow> Some (issuer @ ''/scim/v2/'' @ b_resource o' @ ''/'' @ i)) in
      case resource of None \<Rightarrow> Ok fallback
      | Some r \<Rightarrow> if r = [] then Ok fallback else rbind (resource_location r) (\<lambda>l. Ok (Some l)))"

definition resolve_resource_id :: "string option \<Rightarrow> resolved \<Rightarrow> (scim_error, string option) result" where
  "resolve_resource_id resource_id resolved = (case resource_id of
       None \<Rightarrow> Ok None
     | Some i \<Rightarrow> if i = [] then Ok None
         else rbind (resolve_references (PStr i) resolved) (\<lambda>v.
           Ok (case v of PStr s \<Rightarrow> Some s | _ \<Rightarrow> None)))"

definition run_one ::
  "('s, 'p) bulk_env \<Rightarrow> string \<Rightarrow> bulk_operation \<Rightarrow> resolved \<Rightarrow> ('s, raised, bulk_entry \<times> resolved) action" where
  "run_one E issuer o' resolved =
     abind (lift_scim (resolve_references (b_data o') resolved)) (\<lambda>data.
     abind (lift_scim (resolve_resource_id (b_resource_id o') resolved)) (\<lambda>resource_id.
     abind (if b_resource o' = ''Users'' then run_user E o' resource_id data
            else run_group E o' resource_id data) (\<lambda>(resource, status).
     abind (pure_a (remember o' resource resolved)) (\<lambda>resolved'.
     abind (pure_a (location_of issuer o' resource resource_id)) (\<lambda>location.
       pure_a (Ok (entry_of o' status location None, resolved')))))))"

definition stop_now :: "int option \<Rightarrow> nat \<Rightarrow> bool" where
  "stop_now fail errors = (case fail of None \<Rightarrow> False | Some n \<Rightarrow> int errors \<ge> n)"

text \<open>The loop of \<open>run\<close>: only a \<open>ScimError\<close> becomes an entry.  The resolved identifiers survive a
  failure, since the step that fails has not recorded anything (a failure after \<open>remember\<close> is not a
  \<open>ScimError\<close>).\<close>

fun run_loop ::
  "('s, 'p) bulk_env \<Rightarrow> string \<Rightarrow> int option \<Rightarrow> bulk_operation list \<Rightarrow> resolved \<Rightarrow> nat \<Rightarrow>
     ('s, raised, bulk_entry list) action" where
  "run_loop E issuer fail [] resolved errors s = (Ok [], s)"
| "run_loop E issuer fail (o' # ops) resolved errors s =
     (case run_one E issuer o' resolved s of
        (Inr (entry, resolved'), s') \<Rightarrow>
          if stop_now fail errors then (Ok [entry], s')
          else (case run_loop E issuer fail ops resolved' errors s' of
              (Inl e, s'') \<Rightarrow> (Err e, s'') | (Inr rest, s'') \<Rightarrow> (Ok (entry # rest), s''))
      | (Inl (RScim (ScimError status kind)), s') \<Rightarrow>
          (let entry = entry_of o' status None (Some (ScimError status kind)) in
           if stop_now fail (Suc errors) then (Ok [entry], s')
           else (case run_loop E issuer fail ops resolved (Suc errors) s' of
              (Inl e, s'') \<Rightarrow> (Err e, s'') | (Inr rest, s'') \<Rightarrow> (Ok (entry # rest), s'')))
      | (Inl e, s') \<Rightarrow> (Err e, s'))"

definition bulk_run :: "('s, 'p) bulk_env \<Rightarrow> string \<Rightarrow> bulk_request \<Rightarrow> ('s, raised, bulk_entry list) action" where
  "bulk_run E issuer request = run_loop E issuer (br_fail_on_errors request) (br_operations request) Map.empty 0"

section \<open>Properties\<close>

definition failures :: "bulk_entry list \<Rightarrow> nat" where
  "failures es = length (filter (\<lambda>e. e_response e \<noteq> None) es)"

text \<open>What the runner reports about the operations it attempted: the \<open>i\<close>-th entry answers the
  \<open>i\<close>-th operation.\<close>

definition answers :: "bulk_entry \<Rightarrow> bulk_operation \<Rightarrow> bool" where
  "answers e o' = (e_method e = b_method o' \<and> e_bulk_id e = (if b_bulk_id o' = Some [] then None else b_bulk_id o'))"

lemma run_one_entry:
  "run_one E issuer o' resolved s = (Inr (entry, resolved'), s') \<Longrightarrow> answers entry o' \<and> e_response entry = None"
  by (auto simp: run_one_def abind_def pure_a_def lift_scim_def answers_def entry_of_def
      split: prod.splits sum.splits if_splits)

lemma failures_Cons [simp]: "failures (e # es) = (if e_response e = None then failures es else Suc (failures es))"
  by (simp add: failures_def)

lemma failures_Nil [simp]: "failures [] = 0"
  by (simp add: failures_def)

definition reports :: "int option \<Rightarrow> nat \<Rightarrow> bulk_operation list \<Rightarrow> bulk_entry list \<Rightarrow> bool" where
  "reports fail errors ops es =
     (list_all2 answers es (take (length es) ops) \<and>
      (length es = length ops \<or> (length es < length ops \<and> stop_now fail (errors + failures es))) \<and>
      (es = [] \<or> stop_now fail (errors + failures (butlast es)) = False))"

lemma reports_step:
  assumes "reports fail (errors + (if e_response e = None then 0 else 1)) ops es"
    and "answers e o'" and "\<not> stop_now fail errors"
  shows "reports fail errors (o' # ops) (e # es)"
  using assms by (cases es) (auto simp: reports_def)

lemma reports_last: "answers e o' \<Longrightarrow> \<not> stop_now fail errors \<Longrightarrow>
    stop_now fail (errors + failures [e]) \<Longrightarrow> reports fail errors (o' # ops) [e]"
  by (cases ops) (auto simp: reports_def)

lemma run_loop_report:
  "run_loop E issuer fail ops resolved errors s = (Ok es, s') \<Longrightarrow> \<not> stop_now fail errors \<Longrightarrow>
     reports fail errors ops es"
proof (induction ops arbitrary: resolved errors s es)
  case Nil
  then show ?case by (simp add: reports_def)
next
  case (Cons o' ops)
  obtain r s1 where one: "run_one E issuer o' resolved s = (r, s1)" by fastforce
  consider (ok) entry resolved' where "r = Ok (entry, resolved')"
    | (scim) status kind where "r = Err (RScim (ScimError status kind))"
    | (other) e where "r = Err e" "\<nexists>x. e = RScim x"
    by (metis obj_sumE raised.exhaust scim_error.exhaust surj_pair)
  then show ?case
  proof cases
    case ok
    then have en: "answers entry o' \<and> e_response entry = None"
      using run_one_entry[of E issuer o' resolved s entry resolved' s1] one by simp
    obtain rest where "run_loop E issuer fail ops resolved' errors s1 = (Ok rest, s')" "es = entry # rest"
      using Cons.prems one ok by (auto split: prod.splits sum.splits)
    then show ?thesis using Cons.IH[of resolved' errors] Cons.prems(2) en by (auto intro: reports_step)
  next
    case scim
    let ?entry = "entry_of o' status None (Some (ScimError status kind))"
    have en: "answers ?entry o'" "e_response ?entry \<noteq> None" by (simp_all add: answers_def entry_of_def)
    show ?thesis
    proof (cases "stop_now fail (Suc errors)")
      case True
      then have "es = [?entry]" using Cons.prems one scim by (simp add: Let_def)
      then show ?thesis using en True Cons.prems(2) by (auto intro: reports_last)
    next
      case False
      then obtain rest where "run_loop E issuer fail ops resolved (Suc errors) s1 = (Ok rest, s')"
          "es = ?entry # rest"
        using Cons.prems one scim by (auto simp: Let_def split: prod.splits sum.splits)
      then show ?thesis using Cons.IH[of resolved "Suc errors"] False Cons.prems(2) en
        by (auto intro: reports_step)
    qed
  next
    case other
    then have "(Err e, s1) = (Ok es, s')" using Cons.prems(1) one by (cases e) auto
    then show ?thesis by simp
  qed
qed

text \<open>When the runner answers, its entries are, one by one and in order, the outcomes of an
  initial part of the request: all of it, or the part up to the failure that exhausts
  \<open>failOnErrors\<close>.  In particular a limit of \<open>n\<close> is never exceeded.\<close>

theorem bulk_run_report:
  assumes "bulk_run E issuer request s = (Ok es, s')" and "br_fail_on_errors request = Some n" and "0 < n"
  shows "list_all2 answers es (take (length es) (br_operations request)) \<and>
     (if length es = length (br_operations request) then int (failures es) \<le> n
      else length es < length (br_operations request) \<and> int (failures es) = n \<and> e_response (last es) \<noteq> None)"
proof -
  have r: "reports (Some n) 0 (br_operations request) es"
    using assms run_loop_report[of E issuer "Some n" "br_operations request" Map.empty 0 s es s']
    by (simp add: bulk_run_def stop_now_def)
  show ?thesis
  proof (cases es rule: rev_cases)
    case Nil
    then show ?thesis using r assms(3) by (auto simp: reports_def stop_now_def)
  next
    case (snoc init e)
    have "failures (init @ [e]) = failures init + (if e_response e = None then 0 else 1)"
      by (simp add: failures_def)
    then show ?thesis using r snoc by (auto simp: reports_def stop_now_def split: if_splits)
  qed
qed

text \<open>A store that knows the sample person and refuses everything else, and a request that patches a
  value path the person does not have, between two deletions.\<close>

definition refused :: "('s, scim_error, 'a) action" where
  "refused s = (Err (ScimError 404 None), s)"

definition sample_env :: "('s, pyval) bulk_env" where
  "sample_env =
     \<lparr>from_scim = Ok, user_create = \<lambda>p d. refused, user_get = \<lambda>i s. (Ok sample_resource, s),
      user_replace = \<lambda>i p d v. refused, user_apply_patched = \<lambda>i p d v. refused,
      user_soft_delete = \<lambda>i v. refused, group_create = \<lambda>d. refused, group_replace = \<lambda>i d v. refused,
      group_patch = \<lambda>i ops v. refused, group_delete = \<lambda>i v. refused\<rparr>"

definition sample_bulk_op :: "string \<Rightarrow> pyval \<Rightarrow> bulk_operation" where
  "sample_bulk_op method data = \<lparr>b_method = method, b_resource = ''Users'', b_resource_id = Some ''u1'',
     b_bulk_id = None, b_data = data, b_version = None, b_depends_on = {}\<rparr>"

theorem bulk_run_report_witness:
  "\<exists>es. bulk_run sample_env ''https://idp'' \<lparr>br_operations = [sample_bulk_op ''DELETE'' PNone,
      sample_bulk_op ''DELETE'' PNone, sample_bulk_op ''DELETE'' PNone], br_fail_on_errors = Some 2\<rparr> () = (Ok es, ()) \<and>
     length es < 3 \<and> failures es = 2"
proof -
  let ?del = "sample_bulk_op ''DELETE'' PNone"
  let ?req = "\<lparr>br_operations = [?del, ?del, ?del], br_fail_on_errors = Some 2\<rparr>"
  let ?e = "entry_of ?del 404 None (Some (ScimError 404 None))"
  have 1: "bulk_run sample_env ''https://idp'' ?req () = (Ok [?e, ?e], ())"
    by (simp add: bulk_run_def run_one_def abind_def lift_scim_def pure_a_def resolve_resource_id_def
        sample_bulk_op_def run_user_def scim_a_def sample_env_def refused_def Let_def rmap_err_def stop_now_def
        starts_with_def BULK_ID_PREFIX_def)
  from bulk_run_report[OF 1, of 2] show ?thesis using 1 by (auto simp: failures_def entry_of_def)
qed

text \<open>A \<open>PATCH\<close> that parses but cannot be applied fails the whole bulk request: the \<open>PatchError\<close>
  of \<open>apply_patch\<close> is not caught, so no entry is produced, not even for the operations that had
  already run.\<close>

theorem bulk_patch_error_escapes:
  "\<exists>request. bulk_run sample_env ''https://idp'' request s = (Err (RPatch NoTarget), s) \<and>
     length (br_operations request) = 2"
proof -
  let ?doc = "patch_doc ''replace'' ''phones[type eq 1]'' (PStr ''x'')"
  let ?ops = "[\<lparr>o_op = REPLACE, o_path = Some \<lparr>pp_path = \<lparr>ap_attribute = ''phones'', ap_sub = None,
      ap_urn = None\<rparr>, pp_predicate = Some (Comparison \<lparr>ap_attribute = ''type'', ap_sub = None, ap_urn = None\<rparr>
      EQ (LInt 1)), pp_sub = None\<rparr>, o_value = PStr ''x''\<rparr>]"
  let ?del = "sample_bulk_op ''DELETE'' PNone"
  let ?req = "\<lparr>br_operations = [?del, sample_bulk_op ''PATCH'' ?doc], br_fail_on_errors = None\<rparr>"
  have 1: "parse_operations ?doc = Ok ?ops" by code_simp
  have 2: "apply_patch sample_resource ?ops = Err NoTarget" by code_simp
  have 3: "resolve_references ?doc m = Ok ?doc" for m
    by (simp add: patch_doc_def starts_with_def BULK_ID_PREFIX_def PATCH_OP_SCHEMA_def)
  have "bulk_run sample_env ''https://idp'' ?req s = (Err (RPatch NoTarget), s)"
    using 1 2 3 by (simp add: bulk_run_def run_one_def abind_def lift_scim_def pure_a_def
        resolve_resource_id_def sample_bulk_op_def run_user_def scim_a_def sample_env_def refused_def Let_def rmap_err_def stop_now_def
        starts_with_def BULK_ID_PREFIX_def patch_operations_def del: apply_patch.simps)
  then show ?thesis by (intro exI[of _ ?req]) simp
qed

end
