(* ===== verification/Base32.thy ===== *)
theory Base32
  imports Bytes
begin

text \<open>
  Base32 as the second-factor code uses it: five bytes become eight groups of five bits
  (\<open>_expand\<close> of \<open>campusid/mfa/recovery.py\<close>, and the standard library's \<open>b32encode\<close> and \<open>b32decode\<close>
  behind \<open>campusid/mfa/totp.py\<close>).
\<close>

section \<open>Upper case\<close>

text \<open>\<open>str.upper\<close> on code points below 256.  The two letters whose upper case lies above that range
  (the micro sign and y with diaeresis) stay; no test below distinguishes them.\<close>

definition py_upper_char :: "char \<Rightarrow> string" where
  "py_upper_char c = (let n = (of_char c :: nat) in
     if (97 \<le> n \<and> n \<le> 122) \<or> (224 \<le> n \<and> n \<le> 254 \<and> n \<noteq> 247) then [char_of (n - 32)]
     else if n = 223 then ''SS'' else [c])"

definition py_upper :: "string \<Rightarrow> string" where
  "py_upper s = concat (map py_upper_char s)"

lemma py_upper_simps [simp]:
  "py_upper [] = []" "py_upper (c # s) = py_upper_char c @ py_upper s"
  "py_upper (s @ t) = py_upper s @ py_upper t"
  by (simp_all add: py_upper_def)

section \<open>Five bytes, eight digits\<close>

text \<open>\<open>[(value >> shift) & 0x1F for shift in range(35, -1, -5)]\<close>\<close>

definition quintets :: "nat \<Rightarrow> nat list" where
  "quintets value = map (\<lambda>shift. value div 2 ^ shift mod 32) [35, 30, 25, 20, 15, 10, 5, 0]"

definition unquint :: "nat list \<Rightarrow> nat" where
  "unquint qs = foldl (\<lambda>a q. a * 32 + q) 0 qs"

definition ljust5 :: "bytes \<Rightarrow> bytes" where
  "ljust5 bs = bs @ replicate (5 - length bs) 0"

function expand :: "bytes \<Rightarrow> nat list" where
  "expand raw = (if raw = [] then [] else quintets (be_nat (ljust5 (take 5 raw))) @ expand (drop 5 raw))"
  by pat_completeness auto
termination by (relation "measure length") auto

declare expand.simps [simp del]

fun digits32 :: "nat \<Rightarrow> nat \<Rightarrow> nat list" where
  "digits32 0 v = []"
| "digits32 (Suc k) v = digits32 k (v div 32) @ [v mod 32]"

lemma digits32_map: "digits32 k v = map (\<lambda>j. v div 32 ^ j mod 32) (rev [0..<k])"
proof (induction k arbitrary: v)
  case (Suc k)
  have "map (\<lambda>j. v div 32 div 32 ^ j mod 32) (rev [0..<k]) = map (\<lambda>j. v div 32 ^ j mod 32) (rev [1..<Suc k])"
    by (simp add: map_Suc_upt[symmetric] rev_map div_mult2_eq comp_def del: upt_Suc)
  moreover have "rev [0..<Suc k] = rev [1..<Suc k] @ [0]" by (simp add: upt_rec[of 0] del: upt_Suc)
  ultimately show ?case using Suc.IH[of "v div 32"] by simp
qed simp

lemma quintets_digits: "quintets v = digits32 8 v"
proof -
  have "rev [0..<8] = [7, 6, 5, 4, 3, 2, 1, 0 :: nat]" by (simp add: upt_rec)
  then show ?thesis by (simp add: quintets_def digits32_map)
qed

lemma unquint_snoc [simp]: "unquint (qs @ [q]) = unquint qs * 32 + q"
  by (simp add: unquint_def)

lemma unquint_digits: "v < 32 ^ k \<Longrightarrow> unquint (digits32 k v) = v"
proof (induction k arbitrary: v)
  case 0
  then show ?case by (simp add: unquint_def)
next
  case (Suc k)
  then have "v div 32 < 32 ^ k" by (simp add: less_mult_imp_div_less mult.commute)
  with Suc.IH show ?case by simp
qed

lemma digits32_bound: "set (digits32 k v) \<subseteq> {..<32}"
  by (induction k arbitrary: v) auto

lemma length_digits32 [simp]: "length (digits32 k v) = k"
  by (induction k arbitrary: v) auto

lemma length_quintets [simp]: "length (quintets v) = 8"
  by (simp add: quintets_def)

lemma unquint_quintets: "v < 256 ^ 5 \<Longrightarrow> unquint (quintets v) = v"
  unfolding quintets_digits by (rule unquint_digits) simp

lemma quintets_bound: "q \<in> set (quintets v) \<Longrightarrow> q < 32"
  using digits32_bound[of 8 v] by (auto simp: quintets_digits)

lemma length_ljust5: "length bs \<le> 5 \<Longrightarrow> length (ljust5 bs) = 5"
  by (simp add: ljust5_def)

lemma ljust5_full: "length bs = 5 \<Longrightarrow> ljust5 bs = bs"
  by (simp add: ljust5_def)

lemma expand_bound: "q \<in> set (expand raw) \<Longrightarrow> q < 32"
proof (induction raw rule: expand.induct)
  case (1 raw)
  then show ?case by (subst (asm) (2) expand.simps) (auto dest: quintets_bound split: if_splits)
qed

lemma expand_chunk:
  assumes "length c = 5"
  shows "expand (c @ raw) = quintets (be_nat c) @ expand raw"
proof -
  have "c @ raw \<noteq> []" using assms by auto
  then have "expand (c @ raw) = quintets (be_nat (ljust5 (take 5 (c @ raw)))) @ expand (drop 5 (c @ raw))"
    by (subst expand.simps) (simp only: if_False)
  then show ?thesis using assms by (simp add: ljust5_full)
qed

lemma expand_Nil [simp]: "expand [] = []"
  by (simp add: expand.simps)

lemma chunk5:
  assumes "5 dvd length raw" and "raw \<noteq> []"
  obtains c rest where "raw = c @ rest" "length c = 5" "5 dvd length rest"
proof
  have "5 \<le> length raw" using assms by (auto intro: dvd_imp_le)
  then show "length (take 5 raw) = 5" "5 dvd length (drop 5 raw)" using assms by (auto intro: dvd_diff_nat)
  show "raw = take 5 raw @ drop 5 raw" by simp
qed

lemma length_expand: "5 dvd length raw \<Longrightarrow> 5 * length (expand raw) = 8 * length raw"
proof (induction "length raw" arbitrary: raw rule: less_induct)
  case less
  show ?case
  proof (cases "raw = []")
    case False
    with less.prems obtain c rest where c: "raw = c @ rest" "length c = 5" "5 dvd length rest"
      by (rule chunk5)
    then show ?thesis using less.hyps[of rest] by (simp add: expand_chunk)
  qed simp
qed

section \<open>Decoding\<close>

function contract :: "nat list \<Rightarrow> bytes" where
  "contract qs = (if qs = [] then [] else be_bytes 5 (unquint (take 8 qs)) @ contract (drop 8 qs))"
  by pat_completeness auto
termination by (relation "measure length") auto

declare contract.simps [simp del]

text \<open>Whole five-byte groups survive the round trip.\<close>

lemma contract_expand: "5 dvd length raw \<Longrightarrow> contract (expand raw) = raw"
proof (induction "length raw" arbitrary: raw rule: less_induct)
  case less
  show ?case
  proof (cases "raw = []")
    case True
    then show ?thesis by (simp add: contract.simps)
  next
    case False
    with less.prems obtain c rest where c: "raw = c @ rest" "length c = 5" "5 dvd length rest"
      by (rule chunk5)
    have "be_nat c < 256 ^ 5" using be_nat_bound[of c] c(2) by simp
    then have "be_bytes 5 (unquint (quintets (be_nat c))) = c"
      using be_bytes_be_nat[of c] c(2) by (simp add: unquint_quintets)
    moreover have ne: "quintets (be_nat c) @ expand rest \<noteq> []"
      using length_quintets[of "be_nat c"] by (metis append_is_Nil_conv list.size(3) zero_neq_numeral)
    moreover from ne have "contract (quintets (be_nat c) @ expand rest) =
        be_bytes 5 (unquint (quintets (be_nat c))) @ contract (expand rest)"
      by (subst contract.simps) (simp only: if_False take_append drop_append length_quintets, simp)
    ultimately show ?thesis
      using less.hyps[of rest] c by (simp add: expand_chunk)
  qed
qed

lemma expand_inj: "5 dvd length a \<Longrightarrow> 5 dvd length b \<Longrightarrow> expand a = expand b \<Longrightarrow> a = b"
  by (metis contract_expand)

text \<open>Spelling the digits in an alphabet of 32 distinct characters, and looking them up again.\<close>

definition spell :: "string \<Rightarrow> nat list \<Rightarrow> string" where
  "spell alphabet qs = map (\<lambda>q. alphabet ! q) qs"

definition digit_of :: "string \<Rightarrow> char \<Rightarrow> nat option" where
  "digit_of alphabet c = find (\<lambda>q. alphabet ! q = c) [0..<length alphabet]"

fun digits_of :: "string \<Rightarrow> string \<Rightarrow> nat list option" where
  "digits_of alphabet [] = Some []"
| "digits_of alphabet (c # s) = (case digit_of alphabet c of None \<Rightarrow> None
     | Some q \<Rightarrow> map_option (Cons q) (digits_of alphabet s))"

lemma digit_of_nth:
  "distinct alphabet \<Longrightarrow> q < length alphabet \<Longrightarrow> digit_of alphabet (alphabet ! q) = Some q"
proof -
  assume a: "distinct alphabet" "q < length alphabet"
  have "\<not> alphabet ! j = alphabet ! q" if "j < q" for j
    using a that by (simp add: nth_eq_iff_index_eq)
  then show ?thesis
    unfolding digit_of_def find_Some_iff using a(2) by (intro exI[of _ q] conjI allI impI) simp_all
qed

lemma digits_of_spell:
  "distinct alphabet \<Longrightarrow> \<forall>q\<in>set qs. q < length alphabet \<Longrightarrow> digits_of alphabet (spell alphabet qs) = Some qs"
  by (induction qs) (auto simp: spell_def digit_of_nth)

lemma spell_inj:
  assumes "distinct alphabet" "\<forall>q\<in>set qs. q < length alphabet" "\<forall>q\<in>set rs. q < length alphabet"
    and "spell alphabet qs = spell alphabet rs"
  shows "qs = rs"
proof -
  have "Some qs = Some rs"
    unfolding digits_of_spell[OF assms(1,2), symmetric] digits_of_spell[OF assms(1,3), symmetric] assms(4) ..
  then show ?thesis by simp
qed

section \<open>The standard library's codec\<close>

definition RFC4648 :: string where "RFC4648 = ''ABCDEFGHIJKLMNOPQRSTUVWXYZ234567''"

text \<open>\<open>base64.b32encode(raw)\<close> with the padding stripped, for whole groups of five bytes.\<close>

definition b32encode :: "bytes \<Rightarrow> string" where
  "b32encode raw = spell RFC4648 (expand raw)"

definition strip_pad :: "string \<Rightarrow> string" where
  "strip_pad s = rev (dropWhile (\<lambda>c. c = CHR ''='') (rev s))"

text \<open>The last group's accumulator: \<open>contract\<close> on the digits filled up with zeros, cut to the bytes the
  padding leaves.\<close>

definition b32decode :: "string \<Rightarrow> bytes option" where
  "b32decode s =
     (let u = py_upper s; t = strip_pad u; pad = length u - length t in
      if \<exists>c\<in>set s. 128 \<le> (of_char c :: nat) then None
      else if length s mod 8 \<noteq> 0 then None
      else (case digits_of RFC4648 t of None \<Rightarrow> None
        | Some qs \<Rightarrow>
            if pad \<notin> {0, 1, 3, 4, 6} then None
            else let full = contract (qs @ replicate pad 0) in
              if pad = 0 \<or> full = [] then Some full
              else Some (take (length full - 5 + (43 - 5 * pad) div 8) full)))"

lemma RFC4648_ok: "distinct RFC4648" "length RFC4648 = 32"
  by (simp_all add: RFC4648_def)

lemma RFC4648_upper: "c \<in> set RFC4648 \<Longrightarrow> py_upper_char c = [c] \<and> c \<noteq> CHR ''='' \<and> (of_char c :: nat) < 128"
  by (auto simp: RFC4648_def py_upper_char_def)

lemma spell_in: "\<forall>q\<in>set qs. q < length alphabet \<Longrightarrow> set (spell alphabet qs) \<subseteq> set alphabet"
  by (auto simp: spell_def)

lemma b32_upper: "set s \<subseteq> set RFC4648 \<Longrightarrow> py_upper s = s"
  by (induction s) (auto simp: RFC4648_upper)

lemma strip_pad_id: "set s \<subseteq> set RFC4648 \<Longrightarrow> strip_pad s = s"
proof (cases s rule: rev_cases)
  case (snoc t c)
  moreover assume "set s \<subseteq> set RFC4648"
  ultimately have "c \<noteq> CHR ''=''" using RFC4648_upper by auto
  then show ?thesis using snoc by (simp add: strip_pad_def)
qed (simp add: strip_pad_def)

lemma b32_roundtrip:
  assumes "5 dvd length raw"
  shows "b32decode (b32encode raw) = Some raw" "length (b32encode raw) mod 8 = 0"
    "py_upper (b32encode raw) = b32encode raw"
proof -
  have d: "\<forall>q\<in>set (expand raw). q < length RFC4648" using expand_bound RFC4648_ok(2) by auto
  have sub: "set (b32encode raw) \<subseteq> set RFC4648" unfolding b32encode_def by (rule spell_in[OF d])
  have u: "py_upper (b32encode raw) = b32encode raw" by (rule b32_upper[OF sub])
  obtain k where k: "length raw = 5 * k" using assms by (auto elim: dvdE)
  have l: "length (b32encode raw) mod 8 = 0"
    using length_expand[OF assms] k by (simp add: b32encode_def spell_def)
  have "\<not> (\<exists>c\<in>set (b32encode raw). 128 \<le> (of_char c :: nat))" using sub RFC4648_upper by fastforce
  moreover have "digits_of RFC4648 (b32encode raw) = Some (expand raw)"
    unfolding b32encode_def by (rule digits_of_spell[OF RFC4648_ok(1) d])
  ultimately show "b32decode (b32encode raw) = Some raw"
    using u l strip_pad_id[OF sub] contract_expand[OF assms] by (simp add: b32decode_def Let_def)
  show "length (b32encode raw) mod 8 = 0" by (rule l)
  show "py_upper (b32encode raw) = b32encode raw" by (rule u)
qed

end
