(* ===== verification/Totp.thy ===== *)
theory Totp
  imports Base32
begin

text \<open>
  Time-based one-time passwords (\<open>campusid/mfa/totp.py\<close>).

  HMAC-SHA-1 is the standard library's and a parameter \<open>mac\<close> of the model (key, message, digest);
  a lemma that needs it states that a digest has twenty bytes.  A moment is its number of
  microseconds since the epoch.  Besides \<open>TotpRejected\<close> a verification can end in the \<open>struct.error\<close>
  of a counter out of range and in the \<open>TypeError\<close> that \<open>compare_digest\<close> raises on a text that is not
  ASCII.  The time the comparison takes is not modelled.
\<close>

section \<open>Codes\<close>

definition DIGITS :: nat where "DIGITS = 6"
definition PERIOD :: int where "PERIOD = 30"
definition SECRET_BYTES :: nat where "SECRET_BYTES = 20"
definition DRIFT :: nat where "DRIFT = 1"

datatype totp_reason = MALFORMED | MISMATCH | REPLAY
datatype totp_error = TotpRejected totp_reason | StructError | TypeError

type_synonym mac_fun = "bytes \<Rightarrow> bytes \<Rightarrow> bytes"

text \<open>\<open>new_secret\<close>, given the random bytes.\<close>

definition new_secret :: "bytes \<Rightarrow> string" where
  "new_secret raw = b32encode raw"

definition step_at :: "int \<Rightarrow> int" where
  "step_at us = (if us \<ge> 0 then us div 10 ^ 6 else - (- us div 10 ^ 6)) div PERIOD"

definition decode_secret :: "string \<Rightarrow> (totp_error, bytes) result" where
  "decode_secret secret =
     (let padded = py_upper secret @ replicate (nat ((- int (length secret)) mod 8)) (CHR ''='') in
      case b32decode padded of None \<Rightarrow> Err (TotpRejected MALFORMED) | Some k \<Rightarrow> Ok k)"

definition zfill :: "nat \<Rightarrow> string \<Rightarrow> string" where
  "zfill w s = replicate (w - length s) (CHR ''0'') @ s"

definition truncate_mac :: "bytes \<Rightarrow> nat" where
  "truncate_mac m =
     (let offset = unat (last m) mod 16 in be_nat (take 4 (drop offset m)) mod 2 ^ 31)"

definition code_at :: "mac_fun \<Rightarrow> string \<Rightarrow> int \<Rightarrow> (totp_error, string) result" where
  "code_at mac secret step = (case decode_secret secret of Inl e \<Rightarrow> Err e
     | Inr key \<Rightarrow>
         if step < 0 \<or> 2 ^ 64 \<le> step then Err StructError
         else Ok (zfill DIGITS (show_nat (truncate_mac (mac key (be_bytes 8 (nat step))) mod 10 ^ DIGITS))))"

section \<open>Verification\<close>

text \<open>\<open>str.isdigit\<close> also holds of the superscripts one, two and three.\<close>

definition py_isdigit :: "char \<Rightarrow> bool" where
  "py_isdigit c = (is_ascii_digit c \<or> (of_char c :: nat) \<in> {178, 179, 185})"

definition compare_digest :: "string \<Rightarrow> string \<Rightarrow> (totp_error, bool) result" where
  "compare_digest a b =
     (if \<exists>c\<in>set (a @ b). 128 \<le> (of_char c :: nat) then Err TypeError else Ok (a = b))"

definition window :: "nat \<Rightarrow> int list" where
  "window drift = 0 # concat (map (\<lambda>k. [- int k, int k]) [1..<Suc drift])"

fun try_window ::
  "mac_fun \<Rightarrow> string \<Rightarrow> string \<Rightarrow> int list \<Rightarrow> int option \<Rightarrow> (totp_error, int option) result" where
  "try_window mac secret digits [] matched = Ok matched"
| "try_window mac secret digits (candidate # rest) matched =
     (case code_at mac secret candidate of Inl e \<Rightarrow> Err e
      | Inr expected \<Rightarrow> (case compare_digest expected digits of Inl e \<Rightarrow> Err e
          | Inr same \<Rightarrow> try_window mac secret digits rest
              (if same \<and> matched = None then Some candidate else matched)))"

definition code_digits :: "string \<Rightarrow> string" where
  "code_digits code = filter (\<lambda>c. \<not> py_is_space c) code"

definition totp_verify ::
  "mac_fun \<Rightarrow> string \<Rightarrow> string \<Rightarrow> int \<Rightarrow> int option \<Rightarrow> nat \<Rightarrow> (totp_error, int) result" where
  "totp_verify mac secret code at last_step drift =
     (let digits = code_digits code in
      if length digits \<noteq> DIGITS \<or> \<not> list_all py_isdigit digits then Err (TotpRejected MALFORMED)
      else (case try_window mac secret digits (map (\<lambda>d. step_at at + d) (window drift)) None of
          Inl e \<Rightarrow> Err e
        | Inr None \<Rightarrow> Err (TotpRejected MISMATCH)
        | Inr (Some matched) \<Rightarrow>
            if last_step \<noteq> None \<and> matched \<le> the last_step then Err (TotpRejected REPLAY)
            else Ok matched))"

section \<open>Lemmas\<close>

lemma window_set: "set (window drift) = {d. \<bar>d\<bar> \<le> int drift}"
proof -
  have w: "set (window drift) = insert 0 (\<Union>k\<in>{1..<Suc drift}. {- int k, int k})"
    by (simp add: window_def del: upt_Suc)
  show ?thesis
  proof (intro set_eqI iffI)
    fix d
    assume "d \<in> {d. \<bar>d\<bar> \<le> int drift}"
    then have "d = 0 \<or> nat \<bar>d\<bar> \<in> {1..<Suc drift} \<and> d \<in> {- int (nat \<bar>d\<bar>), int (nat \<bar>d\<bar>)}" by auto
    then show "d \<in> set (window drift)" unfolding w by blast
  next
    fix d
    assume "d \<in> set (window drift)"
    then show "d \<in> {d. \<bar>d\<bar> \<le> int drift}" unfolding w by auto
  qed
qed

lemma try_window_Ok:
  "try_window mac secret digits cs matched = Ok r \<Longrightarrow>
     (\<forall>c\<in>set cs. \<exists>x. code_at mac secret c = Ok x) \<and>
     r = (case matched of Some m \<Rightarrow> Some m | None \<Rightarrow> find (\<lambda>c. code_at mac secret c = Ok digits) cs)"
proof (induction cs arbitrary: matched)
  case (Cons c cs)
  then obtain x same where "code_at mac secret c = Ok x" "compare_digest x digits = Ok same"
      "try_window mac secret digits cs (if same \<and> matched = None then Some c else matched) = Ok r"
    by (auto split: sum.splits)
  moreover from this(2) have "same = (x = digits)" by (auto simp: compare_digest_def split: if_splits)
  ultimately show ?case using Cons.IH by (cases matched) (fastforce split: if_splits)+
qed (simp split: option.splits)

lemma totp_verify_Ok:
  assumes "totp_verify mac secret code at last_step drift = Ok v"
  shows "\<bar>v - step_at at\<bar> \<le> int drift \<and> code_at mac secret v = Ok (code_digits code) \<and>
     (last_step = None \<or> the last_step < v)"
proof -
  have f: "find (\<lambda>c. code_at mac secret c = Ok (code_digits code)) (map (\<lambda>d. step_at at + d) (window drift)) = Some v"
    and l: "last_step = None \<or> the last_step < v"
    using assms by (auto simp: totp_verify_def Let_def dest!: try_window_Ok split: if_splits sum.splits option.splits)
  from f have "v \<in> set (map (\<lambda>d. step_at at + d) (window drift))" "code_at mac secret v = Ok (code_digits code)"
    by (metis (mono_tags, lifting) find_Some_iff nth_mem)+
  then show ?thesis using l by (auto simp: window_set)
qed

lemma code_at_shape:
  assumes "code_at mac secret step = Ok c"
  shows "length c = DIGITS \<and> list_all is_ascii_digit c"
proof -
  obtain n where n: "c = zfill DIGITS (show_nat (n mod 10 ^ DIGITS))"
    using assms by (auto simp: code_at_def split: sum.splits if_splits)
  have "length (show_nat (n mod 10 ^ DIGITS)) \<le> DIGITS"
    by (rule length_show_nat) (simp_all add: DIGITS_def)
  moreover have "is_ascii_digit (CHR ''0'')" by (simp add: is_ascii_digit_def)
  ultimately show ?thesis
    using show_nat_digits[of "n mod 10 ^ DIGITS"] by (auto simp: n zfill_def list_all_iff)
qed

lemma decode_new_secret:
  assumes "5 dvd length raw"
  shows "decode_secret (new_secret raw) = Ok raw"
proof -
  obtain k where "int (length (b32encode raw)) = 8 * int k"
    using b32_roundtrip(2)[OF assms] by (metis mod_0_imp_dvd dvdE of_nat_mult of_nat_numeral)
  then have "nat ((- int (length (b32encode raw))) mod 8) = 0" by simp
  then show ?thesis
    using b32_roundtrip[OF assms] by (simp add: decode_secret_def new_secret_def Let_def)
qed

section \<open>Properties\<close>

text \<open>An accepted code is the code of a step no further than the drift from the clock, later
  than every step accepted before, and made of six ASCII digits.\<close>

theorem totp_verify_sound:
  assumes "totp_verify mac secret code at last_step drift = Ok v"
  shows "\<bar>v - step_at at\<bar> \<le> int drift \<and> code_at mac secret v = Ok (code_digits code) \<and>
     (case last_step of None \<Rightarrow> True | Some l \<Rightarrow> l < v) \<and>
     length (code_digits code) = DIGITS \<and> list_all is_ascii_digit (code_digits code)"
  using totp_verify_Ok[OF assms] code_at_shape by (auto split: option.splits)

lemma code_at_total:
  assumes "length raw = SECRET_BYTES" and "0 \<le> step" and "step < 2 ^ 64"
  obtains c where "code_at mac (new_secret raw) step = Ok c"
  using assms decode_new_secret[of raw] by (fastforce simp: code_at_def SECRET_BYTES_def)

lemma try_window_matched:
  assumes "\<forall>c\<in>set cs. \<exists>x. code_at mac secret c = Ok x" and "list_all is_ascii_digit digits"
  shows "\<exists>r. try_window mac secret digits cs (Some m) = Ok r \<and> r = Some m"
  using assms
proof (induction cs)
  case (Cons c cs)
  then obtain x where x: "code_at mac secret c = Ok x" by auto
  have "list_all is_ascii_digit x" using code_at_shape[OF x] by simp
  then have "\<not> (\<exists>c\<in>set (x @ digits). 128 \<le> (of_char c :: nat))"
    using Cons.prems(2) by (auto simp: list_all_iff is_ascii_digit_def Let_def)
  then show ?case using Cons x by (simp add: compare_digest_def)
qed simp

text \<open>The current code works: for a freshly issued secret and a clock in range, whoever types the
  code of the present step, however spaced, is accepted for exactly that step unless it was used.\<close>

theorem totp_current_code_accepted:
  assumes "length raw = SECRET_BYTES" and "int drift \<le> step_at at" and "step_at at + int drift < 2 ^ 64"
    and "code_at mac (new_secret raw) (step_at at) = Ok (code_digits code)"
    and "last_step = None \<or> the last_step < step_at at"
  shows "totp_verify mac (new_secret raw) code at last_step drift = Ok (step_at at)"
proof -
  have ok: "\<exists>x. code_at mac (new_secret raw) c = Ok x" if "\<bar>c - step_at at\<bar> \<le> int drift" for c
    using code_at_total[OF assms(1), of c mac] assms(2,3) that by fastforce
  have sh: "length (code_digits code) = DIGITS" "list_all is_ascii_digit (code_digits code)"
    using code_at_shape[OF assms(4)] by auto
  then have pd: "list_all py_isdigit (code_digits code)" by (auto simp: list_all_iff py_isdigit_def)
  have "\<forall>c\<in>set (map (\<lambda>d. step_at at + d) (tl (window drift))). \<exists>x. code_at mac (new_secret raw) c = Ok x"
    using ok window_set[of drift] by (auto simp: window_def)
  from try_window_matched[OF this sh(2)]
  have rest: "try_window mac (new_secret raw) (code_digits code)
      (map (\<lambda>d. step_at at + d) (tl (window drift))) (Some (step_at at)) = Ok (Some (step_at at))"
    by blast
  have "compare_digest (code_digits code) (code_digits code) = Ok True"
    using sh(2) by (auto simp: compare_digest_def list_all_iff is_ascii_digit_def Let_def)
  then have "try_window mac (new_secret raw) (code_digits code)
      (map (\<lambda>d. step_at at + d) (window drift)) None = Ok (Some (step_at at))"
    using rest assms(4) by (simp add: window_def)
  then show ?thesis using sh(1) pd assms(5) by (auto simp: totp_verify_def Let_def)
qed

definition zero_mac :: mac_fun where "zero_mac key msg = replicate 20 0"

lemma zero_mac_code:
  "0 \<le> step \<Longrightarrow> step < 2 ^ 64 \<Longrightarrow> code_at zero_mac (new_secret (replicate 20 7)) step = Ok ''000000''"
proof -
  assume "0 \<le> step" "step < 2 ^ 64"
  moreover have "be_nat (replicate 4 0) = 0" by (simp add: be_nat_def numeral_eq_Suc)
  moreover have "zfill DIGITS (show_nat 0) = ''000000''"
    by code_simp
  ultimately show ?thesis
    using decode_new_secret[of "replicate 20 7"]
    by (simp add: code_at_def zero_mac_def truncate_mac_def min_def)
qed

theorem totp_current_code_accepted_witness:
  "totp_verify zero_mac (new_secret (replicate 20 7)) ''000 000'' 90000000 (Some 2) DRIFT = Ok 3"
proof -
  have d: "code_digits ''000 000'' = ''000000''" by (simp add: code_digits_def py_is_space_def)
  have s: "step_at 90000000 = 3" by (simp add: step_at_def PERIOD_def)
  show ?thesis
    using totp_current_code_accepted[of "replicate 20 7" DRIFT 90000000 zero_mac "''000 000''" "Some 2"]
    by (simp add: d s zero_mac_code DRIFT_def SECRET_BYTES_def)
qed

theorem totp_verify_sound_witness:
  "\<bar>3 - step_at 90000000\<bar> \<le> int DRIFT \<and> code_at zero_mac (new_secret (replicate 20 7)) 3 = Ok ''000000''"
proof -
  have d: "code_digits ''000000'' = ''000000''" by (simp add: code_digits_def py_is_space_def)
  have s: "step_at 90000000 = 3" by (simp add: step_at_def PERIOD_def)
  let ?v = "totp_verify zero_mac (new_secret (replicate 20 7)) ''000000'' 90000000 (Some 2) DRIFT"
  have win: "window DRIFT = [0, -1, 1]" by (simp add: window_def DRIFT_def)
  have "?v = Ok 3"
    by (simp add: totp_verify_def Let_def d s win zero_mac_code compare_digest_def DIGITS_def
        py_isdigit_def is_ascii_digit_def)
  from totp_verify_sound[OF this] show ?thesis by (simp add: d)
qed

text \<open>A code of six superscript digits passes the digit test and is then not refused: comparing
  it raises a \<open>TypeError\<close> instead of a rejection, for every freshly issued secret.\<close>

theorem totp_superscript_raises:
  assumes "length raw = SECRET_BYTES" and "0 \<le> step_at at" and "step_at at < 2 ^ 64"
  shows "totp_verify mac (new_secret raw) (replicate 6 (CHR 0xB2)) at last_step drift = Err TypeError"
proof -
  have d: "code_digits (replicate 6 (CHR 0xB2)) = replicate 6 (CHR 0xB2)"
    by (simp add: code_digits_def py_is_space_def)
  obtain c where "code_at mac (new_secret raw) (step_at at) = Ok c"
    using code_at_total[OF assms] by blast
  moreover have "compare_digest c (replicate 6 (CHR 0xB2)) = Err TypeError"
    by (simp add: compare_digest_def)
  ultimately show ?thesis
    by (simp add: totp_verify_def Let_def d DIGITS_def py_isdigit_def window_def list_all_iff)
qed

theorem totp_superscript_raises_witness:
  "totp_verify zero_mac (new_secret (replicate 20 7)) (replicate 6 (CHR 0xB2)) 90000000 None DRIFT = Err TypeError"
  by (rule totp_superscript_raises) (simp_all add: SECRET_BYTES_def step_at_def PERIOD_def)

end
