(* ===== verification/Recovery.thy ===== *)
theory Recovery
  imports Base32
begin

text \<open>
  Recovery codes (\<open>campusid/mfa/recovery.py\<close>): rendering random bytes as grouped Crockford base32 and
  normalising what a person types back.  Argon2 is third-party code: a verifier, already reduced to
  whether it accepts, is a parameter \<open>accepts\<close> of \<open>recovery_matches\<close>, and a hash is the parameter of
  \<open>hash_code\<close>.
\<close>

section \<open>Codes\<close>

definition COUNT :: nat where "COUNT = 10"
definition CODE_BYTES :: nat where "CODE_BYTES = 10"
definition GROUP :: nat where "GROUP = 4"

definition ALPHABET :: string where "ALPHABET = ''0123456789ABCDEFGHJKMNPQRSTVWXYZ''"

definition CONFUSABLE :: "(char \<times> char) list" where
  "CONFUSABLE = [(CHR ''O'', CHR ''0''), (CHR ''I'', CHR ''1''), (CHR ''L'', CHR ''1'')]"

definition confusable_get :: "char \<Rightarrow> char" where
  "confusable_get c = (case map_of CONFUSABLE c of Some d \<Rightarrow> d | None \<Rightarrow> c)"

definition normalise :: "string \<Rightarrow> string" where
  "normalise code = filter (\<lambda>c. c \<in> set ALPHABET) (map confusable_get (py_upper code))"

text \<open>\<open>"-".join(digits[i : i + GROUP] for i in range(0, len(digits), GROUP))\<close>\<close>

function grouped :: "string \<Rightarrow> string" where
  "grouped ds = (if length ds \<le> GROUP then ds else take GROUP ds @ ''-'' @ grouped (drop GROUP ds))"
  by pat_completeness auto
termination by (relation "measure length") (auto simp: GROUP_def)

declare grouped.simps [simp del]

definition format_code :: "bytes \<Rightarrow> string" where
  "format_code raw = grouped (spell ALPHABET (expand raw))"

text \<open>\<open>generate\<close>, given the random bytes of each code.\<close>

definition generate :: "bytes list \<Rightarrow> string list" where
  "generate raws = map format_code raws"

definition hash_code :: "(string \<Rightarrow> string) \<Rightarrow> string \<Rightarrow> string" where
  "hash_code hasher code = hasher (normalise code)"

definition recovery_matches :: "(string \<Rightarrow> string \<Rightarrow> bool) \<Rightarrow> string \<Rightarrow> string \<Rightarrow> bool" where
  "recovery_matches accepts stored code = accepts stored (normalise code)"

section \<open>What a person may type\<close>

text \<open>A character of a code as it may be typed: either case, and the letters that look like zero and
  one.\<close>

definition variants :: "char \<Rightarrow> char set" where
  "variants d = {c. map confusable_get (py_upper_char c) = [d]}"

definition separators :: "char set" where
  "separators = {CHR ''-'', CHR '' '', CHR ''.'', CHR ''_'', CHR ''/''}"

inductive typed :: "string \<Rightarrow> string \<Rightarrow> bool" where
  typed_nil: "typed [] []"
| typed_sep: "typed ds t \<Longrightarrow> c \<in> separators \<Longrightarrow> typed ds (c # t)"
| typed_digit: "typed ds t \<Longrightarrow> c \<in> variants d \<Longrightarrow> typed (d # ds) (c # t)"

inductive_cases typed_consE: "typed ds (c # t)"

lemma variants_zero: "c \<in> set ''0Oo'' \<Longrightarrow> c \<in> variants (CHR ''0'')"
proof -
  have "\<forall>c\<in>set ''0Oo''. map confusable_get (py_upper_char c) = [CHR ''0'']" by code_simp
  then show "c \<in> set ''0Oo'' \<Longrightarrow> ?thesis" unfolding variants_def by blast
qed

lemma variants_one: "c \<in> set ''1IiLl'' \<Longrightarrow> c \<in> variants (CHR ''1'')"
proof -
  have "\<forall>c\<in>set ''1IiLl''. map confusable_get (py_upper_char c) = [CHR ''1'']" by code_simp
  then show "c \<in> set ''1IiLl'' \<Longrightarrow> ?thesis" unfolding variants_def by blast
qed

lemma normalise_simps:
  "normalise [] = []" "normalise (s @ t) = normalise s @ normalise t"
  "normalise (c # s) = normalise [c] @ normalise s"
  by (simp_all add: normalise_def)

lemma normalise_separator: "c \<in> separators \<Longrightarrow> normalise [c] = []"
  by (auto simp: separators_def normalise_def py_upper_char_def confusable_get_def CONFUSABLE_def ALPHABET_def)

lemma alphabet_ok: "distinct ALPHABET" "length ALPHABET = 32"
  by (simp_all add: ALPHABET_def)

lemma alphabet_self: "c \<in> set ALPHABET \<Longrightarrow> c \<in> variants c"
  by (auto simp: ALPHABET_def variants_def py_upper_char_def confusable_get_def CONFUSABLE_def)

lemma typed_normalise: "typed ds t \<Longrightarrow> set ds \<subseteq> set ALPHABET \<Longrightarrow> normalise t = ds"
proof (induction rule: typed.induct)
  case (typed_sep ds t c)
  then show ?case using normalise_separator by (metis append_Nil normalise_simps(3))
next
  case (typed_digit ds t c d)
  have "normalise [c] = [d]" using typed_digit by (simp add: normalise_def variants_def)
  then show ?case using typed_digit by (metis append_Cons append_Nil list.set_intros(2) normalise_simps(3) subset_iff)
qed (simp add: normalise_simps)

lemma typed_append: "typed ds t \<Longrightarrow> typed es u \<Longrightarrow> typed (ds @ es) (t @ u)"
  by (induction rule: typed.induct) (auto intro: typed.intros)

lemma typed_refl: "set ds \<subseteq> set ALPHABET \<Longrightarrow> typed ds ds"
  by (induction ds) (auto intro: typed.intros alphabet_self)

lemma typed_grouped: "set ds \<subseteq> set ALPHABET \<Longrightarrow> typed ds (grouped ds)"
proof (induction ds rule: grouped.induct)
  case (1 ds)
  show ?case
  proof (cases "length ds \<le> GROUP")
    case True
    then show ?thesis using 1(2) by (subst grouped.simps) (simp add: typed_refl)
  next
    case False
    have "typed (take GROUP ds) (take GROUP ds)" using 1(2) by (intro typed_refl) (auto dest: in_set_takeD)
    moreover have "typed (drop GROUP ds) (''-'' @ grouped (drop GROUP ds))"
      using 1(1)[OF False] 1(2)
      by (auto intro!: typed_sep simp: separators_def dest: in_set_dropD)
    ultimately have "typed (take GROUP ds @ drop GROUP ds) (take GROUP ds @ ''-'' @ grouped (drop GROUP ds))"
      by (rule typed_append)
    then show ?thesis using False by (simp add: grouped.simps[of ds])
  qed
qed

lemma code_digits_ok: "\<forall>q\<in>set (expand raw). q < length ALPHABET" "set (spell ALPHABET (expand raw)) \<subseteq> set ALPHABET"
proof -
  show "\<forall>q\<in>set (expand raw). q < length ALPHABET" using expand_bound alphabet_ok(2) by auto
  then show "set (spell ALPHABET (expand raw)) \<subseteq> set ALPHABET" by (rule spell_in)
qed

lemma normalise_format: "normalise (format_code raw) = spell ALPHABET (expand raw)"
  unfolding format_code_def by (rule typed_normalise[OF typed_grouped]) (rule code_digits_ok)+

section \<open>Properties\<close>

text \<open>No two codes share a comparable form: for the ten bytes of a code, the normalised texts are
  equal only when the random bytes are, so the eighty bits of entropy reach the stored hash; each is
  sixteen characters of the alphabet.\<close>

theorem recovery_code_injective:
  assumes "length raw = CODE_BYTES" and "length raw' = CODE_BYTES"
  shows "(normalise (format_code raw) = normalise (format_code raw')) = (raw = raw') \<and>
     length (normalise (format_code raw)) = 16 \<and> set (normalise (format_code raw)) \<subseteq> set ALPHABET"
proof -
  have d: "5 dvd length raw" "5 dvd length raw'" using assms by (simp_all add: CODE_BYTES_def)
  have "raw = raw'" if "spell ALPHABET (expand raw) = spell ALPHABET (expand raw')"
    using spell_inj[OF alphabet_ok(1) code_digits_ok(1) code_digits_ok(1) that] expand_inj[OF d] by blast
  moreover have "length (expand raw) = 16" using length_expand[OF d(1)] assms(1) by (simp add: CODE_BYTES_def)
  ultimately show ?thesis
    using code_digits_ok(2)[of raw] by (auto simp: normalise_format) (simp add: spell_def)
qed

theorem recovery_code_injective_witness:
  "(normalise (format_code (replicate 10 0)) = normalise (format_code (replicate 9 0 @ [1]))) = False"
  using recovery_code_injective[of "replicate 10 0" "replicate 9 0 @ [1]"]
  by (simp add: CODE_BYTES_def numeral_eq_Suc)

text \<open>Whatever presentation a person chooses (either case, other separators or none, the letters
  taken for zero and one) is checked as the code that was shown.\<close>

theorem recovery_typed_matches:
  assumes "typed (spell ALPHABET (expand raw)) t"
  shows "recovery_matches accepts stored t = recovery_matches accepts stored (format_code raw) \<and>
     hash_code hasher t = hash_code hasher (format_code raw)"
  using typed_normalise[OF assms code_digits_ok(2)]
  by (simp add: recovery_matches_def hash_code_def normalise_format)

theorem recovery_typed_matches_witness:
  "format_code (replicate 5 0) = ''0000-0000'' \<and>
   recovery_matches (=) ''00000000'' ''oO 00.0O0o'' = recovery_matches (=) ''00000000'' (format_code (replicate 5 0))"
proof -
  have "expand (replicate 5 0) = [0, 0, 0, 0, 0, 0, 0, 0]"
  proof -
    have "be_nat (replicate 5 0) = 0" by (simp add: be_nat_def numeral_eq_Suc)
    moreover have "quintets 0 = [0, 0, 0, 0, 0, 0, 0, 0]" by (simp add: quintets_def)
    ultimately show ?thesis using expand_chunk[of "replicate 5 0" "[]"] by simp
  qed
  then have e: "spell ALPHABET (expand (replicate 5 0)) = ''00000000''"
    by (simp add: spell_def ALPHABET_def)
  have f: "format_code (replicate 5 0) = ''0000-0000''"
    by (simp add: format_code_def e grouped.simps[of "''00000000''"] grouped.simps[of "''0000''"] GROUP_def)
  have "typed ''00000000'' ''oO 00.0O0o''"
    by (intro typed_nil typed_digit[OF _ variants_zero] typed_sep) (simp_all add: separators_def)
  then have "typed (spell ALPHABET (expand (replicate 5 0))) ''oO 00.0O0o''" by (simp only: e)
  from recovery_typed_matches[OF this] f show ?thesis by blast
qed

end
