(* ===== verification/MfaStore.thy ===== *)
theory MfaStore
  imports Totp Recovery "HOL-Library.Multiset"
begin

text \<open>
  The factor store (\<open>campusid/mfa/store.py\<close> over the tables of \<open>campusid/mfa/models.py\<close>): enrolment,
  verification and retirement of second factors, and recovery codes.

  The database is the list of rows of each table in order of creation.  A statement is atomic; a
  method that reads and later writes is two functions, \<open>..._read\<close> and the write, so that other
  requests may run in between, and the method itself is their composition.  Row identifiers, the
  random bytes and the clock are arguments; the outcome of \<open>webauthn.register\<close> and
  \<open>webauthn.verify\<close> is an argument of the methods that store it.  Log lines are left out.
\<close>

section \<open>Tables\<close>

datatype factor_kind = TOTP_KIND | WEBAUTHN_KIND | PUSH_KIND

definition CATEGORY :: "factor_kind \<Rightarrow> string" where
  "CATEGORY k = (case k of TOTP_KIND \<Rightarrow> ''otp'' | WEBAUTHN_KIND \<Rightarrow> ''hwk'' | PUSH_KIND \<Rightarrow> ''push'')"

record factor =
  fa_id :: nat
  fa_person :: string
  fa_kind :: factor_kind
  fa_label :: string
  fa_secret :: "string option"
  fa_last_step :: "int option"
  fa_credential_id :: "bytes option"
  fa_public_key :: "bytes option"
  fa_sign_count :: "int option"
  fa_algorithm :: "int option"
  fa_confirmed_at :: "int option"
  fa_last_used_at :: "int option"
  fa_disabled_at :: "int option"

record recovery_row =
  rc_id :: nat
  rc_person :: string
  rc_hash :: string
  rc_used_at :: "int option"
  rc_superseded_at :: "int option"

datatype mfa_error = NO_FACTOR | DUPLICATE_LABEL | DUPLICATE_CREDENTIAL | NO_SUCH_CODE | CODE_SPENT
  | Rejected totp_error

type_synonym factors = "factor list"
type_synonym sheets = "recovery_row list"

text \<open>\<open>update ... where id = i\<close> (and a further condition), and whether a row was updated.\<close>

definition update_where :: "('a \<Rightarrow> bool) \<Rightarrow> ('a \<Rightarrow> 'a) \<Rightarrow> 'a list \<Rightarrow> 'a list \<times> bool" where
  "update_where c f rows = (map (\<lambda>r. if c r then f r else r) rows, list_ex c rows)"

section \<open>Queries\<close>

definition live_factor :: "factors \<Rightarrow> string \<Rightarrow> nat \<Rightarrow> factor option" where
  "live_factor db person i =
     find (\<lambda>f. fa_id f = i \<and> fa_person f = person \<and> fa_disabled_at f = None) db"

definition confirmed_factors :: "factors \<Rightarrow> string \<Rightarrow> factor_kind option \<Rightarrow> factor list" where
  "confirmed_factors db person kind =
     filter (\<lambda>f. fa_person f = person \<and> fa_disabled_at f = None \<and> fa_confirmed_at f \<noteq> None \<and>
       (case kind of None \<Rightarrow> True | Some k \<Rightarrow> fa_kind f = k)) db"

definition credential_ids :: "factors \<Rightarrow> string \<Rightarrow> bytes list" where
  "credential_ids db person =
     List.map_filter fa_credential_id (confirmed_factors db person (Some WEBAUTHN_KIND))"

definition categories_for :: "factors \<Rightarrow> string \<Rightarrow> string set" where
  "categories_for db person = (\<lambda>f. CATEGORY (fa_kind f)) ` set (confirmed_factors db person None)"

definition has_factor :: "factors \<Rightarrow> string \<Rightarrow> bool" where
  "has_factor db person = (categories_for db person \<noteq> {})"

definition factors_for :: "factors \<Rightarrow> string \<Rightarrow> factor list" where
  "factors_for db person = filter (\<lambda>f. fa_person f = person) db"

section \<open>Enrolment\<close>

definition label_taken :: "factors \<Rightarrow> string \<Rightarrow> string \<Rightarrow> bool" where
  "label_taken db person label = list_ex (\<lambda>f. fa_person f = person \<and> fa_label f = label) db"

definition new_factor :: "nat \<Rightarrow> string \<Rightarrow> factor_kind \<Rightarrow> string \<Rightarrow> factor" where
  "new_factor i person kind label = \<lparr>fa_id = i, fa_person = person, fa_kind = kind, fa_label = label,
     fa_secret = None, fa_last_step = None, fa_credential_id = None, fa_public_key = None,
     fa_sign_count = None, fa_algorithm = None, fa_confirmed_at = None, fa_last_used_at = None,
     fa_disabled_at = None\<rparr>"

definition begin_totp :: "factors \<Rightarrow> string \<Rightarrow> string \<Rightarrow> bytes \<Rightarrow> nat \<Rightarrow> (mfa_error, factors) result" where
  "begin_totp db person label raw i =
     (if label_taken db person label then Err DUPLICATE_LABEL
      else Ok (db @ [(new_factor i person TOTP_KIND label)\<lparr>fa_secret := Some (new_secret raw)\<rparr>]))"

text \<open>The write of \<open>confirm_totp\<close> is the flush of the row's changed columns, addressed by its key.\<close>

definition confirm_write :: "factors \<Rightarrow> nat \<Rightarrow> int \<Rightarrow> int \<Rightarrow> factors" where
  "confirm_write db i step now = fst (update_where (\<lambda>f. fa_id f = i)
     (\<lambda>f. f\<lparr>fa_confirmed_at := Some now, fa_last_used_at := Some now, fa_last_step := Some step\<rparr>) db)"

definition confirm_read ::
  "mac_fun \<Rightarrow> factors \<Rightarrow> string \<Rightarrow> nat \<Rightarrow> string \<Rightarrow> int \<Rightarrow> (mfa_error, int) result" where
  "confirm_read mac db person i code now = (case live_factor db person i of
       None \<Rightarrow> Err NO_FACTOR
     | Some f \<Rightarrow> (case fa_secret f of None \<Rightarrow> Err NO_FACTOR
         | Some secret \<Rightarrow> rmap_err Rejected (totp_verify mac secret code now (fa_last_step f) DRIFT)))"

definition confirm_totp ::
  "mac_fun \<Rightarrow> factors \<Rightarrow> string \<Rightarrow> nat \<Rightarrow> string \<Rightarrow> int \<Rightarrow> (mfa_error, factors) result" where
  "confirm_totp mac db person i code now = (case confirm_read mac db person i code now of
       Inl e \<Rightarrow> Err e | Inr step \<Rightarrow> Ok (confirm_write db i step now))"

section \<open>Verification\<close>

fun first_verified ::
  "mac_fun \<Rightarrow> string \<Rightarrow> int \<Rightarrow> factor list \<Rightarrow> totp_reason \<Rightarrow> (totp_error, factor \<times> int) result" where
  "first_verified mac code now [] r0 = Err (TotpRejected r0)"
| "first_verified mac code now (f # fs) r0 = (case fa_secret f of
       None \<Rightarrow> first_verified mac code now fs r0
     | Some secret \<Rightarrow> (case totp_verify mac secret code now (fa_last_step f) DRIFT of
           Inr step \<Rightarrow> Ok (f, step)
         | Inl (TotpRejected r) \<Rightarrow> first_verified mac code now fs r
         | Inl e \<Rightarrow> Err e))"

definition verify_read ::
  "mac_fun \<Rightarrow> factors \<Rightarrow> string \<Rightarrow> string \<Rightarrow> int \<Rightarrow> (totp_error, factor \<times> int) result" where
  "verify_read mac db person code now =
     first_verified mac code now (confirmed_factors db person (Some TOTP_KIND)) MISMATCH"

definition advance :: "factors \<Rightarrow> factor \<Rightarrow> int \<Rightarrow> int \<Rightarrow> factors \<times> bool" where
  "advance db f step now = update_where (\<lambda>g. fa_id g = fa_id f \<and> fa_last_step g = fa_last_step f)
     (\<lambda>g. g\<lparr>fa_last_step := Some step, fa_last_used_at := Some now\<rparr>) db"

definition verify_totp ::
  "mac_fun \<Rightarrow> factors \<Rightarrow> string \<Rightarrow> string \<Rightarrow> int \<Rightarrow> (totp_error, nat) result \<times> factors" where
  "verify_totp mac db person code now = (case verify_read mac db person code now of
       Inl e \<Rightarrow> (Err e, db)
     | Inr (f, step) \<Rightarrow> (case advance db f step now of
           (db', True) \<Rightarrow> (Ok (fa_id f), db')
         | (_, False) \<Rightarrow> (Err (TotpRejected REPLAY), db)))"

definition disable :: "factors \<Rightarrow> string \<Rightarrow> nat \<Rightarrow> int \<Rightarrow> (mfa_error, factors) result" where
  "disable db person i now = (case live_factor db person i of
       None \<Rightarrow> Err NO_FACTOR
     | Some f \<Rightarrow> Ok (fst (update_where (\<lambda>g. fa_id g = i) (\<lambda>g. g\<lparr>fa_disabled_at := Some now\<rparr>) db)))"

record registration =
  rg_credential_id :: bytes
  rg_public_key :: bytes
  rg_sign_count :: int
  rg_algorithm :: int

text \<open>The label index is the older of the two unique indices, so it is the one that reports when both are
  violated.\<close>

definition register_webauthn ::
  "factors \<Rightarrow> string \<Rightarrow> string \<Rightarrow> registration \<Rightarrow> int \<Rightarrow> nat \<Rightarrow> (mfa_error, factors) result" where
  "register_webauthn db person label r now i =
     (if label_taken db person label then Err DUPLICATE_LABEL
      else if list_ex (\<lambda>f. fa_credential_id f = Some (rg_credential_id r)) db then Err DUPLICATE_CREDENTIAL
      else Ok (db @ [(new_factor i person WEBAUTHN_KIND label)\<lparr>fa_credential_id := Some (rg_credential_id r),
        fa_public_key := Some (rg_public_key r), fa_sign_count := Some (rg_sign_count r),
        fa_algorithm := Some (rg_algorithm r), fa_confirmed_at := Some now\<rparr>]))"

text \<open>\<open>verify_webauthn\<close>, given what \<open>webauthn.verify\<close> answers for the stored key and counter.\<close>

definition verify_webauthn ::
  "factors \<Rightarrow> string \<Rightarrow> bytes \<Rightarrow> (bytes \<Rightarrow> int \<Rightarrow> ('e, int) result) \<Rightarrow> int \<Rightarrow> (mfa_error + 'e, factors) result" where
  "verify_webauthn db person credential_id check now =
     (case find (\<lambda>f. fa_credential_id f = Some credential_id \<and> fa_person f = person \<and>
         fa_kind f = WEBAUTHN_KIND \<and> fa_disabled_at f = None \<and> fa_confirmed_at f \<noteq> None) db of
        None \<Rightarrow> Err (Inl NO_FACTOR)
      | Some f \<Rightarrow> (case fa_public_key f of None \<Rightarrow> Err (Inl NO_FACTOR)
          | Some key \<Rightarrow> (case check key (case fa_sign_count f of None \<Rightarrow> 0 | Some n \<Rightarrow> n) of
                Inl e \<Rightarrow> Err (Inr e)
              | Inr n \<Rightarrow> Ok (fst (update_where (\<lambda>g. fa_id g = fa_id f)
                  (\<lambda>g. g\<lparr>fa_sign_count := Some n, fa_last_used_at := Some now\<rparr>) db)))))"

section \<open>Recovery codes\<close>

definition live_codes :: "sheets \<Rightarrow> string \<Rightarrow> recovery_row list" where
  "live_codes rows person =
     filter (\<lambda>r. rc_person r = person \<and> rc_used_at r = None \<and> rc_superseded_at r = None) rows"

definition issue_recovery_codes ::
  "(string \<Rightarrow> string) \<Rightarrow> sheets \<Rightarrow> string \<Rightarrow> (nat \<times> bytes) list \<Rightarrow> int \<Rightarrow> string list \<times> sheets" where
  "issue_recovery_codes hasher rows person raws now =
     (let codes = generate (map snd raws) in
      (codes, fst (update_where (\<lambda>r. rc_person r = person \<and> rc_used_at r = None \<and> rc_superseded_at r = None)
          (\<lambda>r. r\<lparr>rc_superseded_at := Some now\<rparr>) rows) @
        map (\<lambda>(i, c). \<lparr>rc_id = i, rc_person = person, rc_hash = hash_code hasher c,
          rc_used_at = None, rc_superseded_at = None\<rparr>) (zip (map fst raws) codes)))"

definition redeem_read ::
  "(string \<Rightarrow> string \<Rightarrow> bool) \<Rightarrow> sheets \<Rightarrow> string \<Rightarrow> string \<Rightarrow> (mfa_error, nat \<times> nat) result" where
  "redeem_read accepts rows person code =
     (let live = live_codes rows person in
      case find (\<lambda>r. recovery_matches accepts (rc_hash r) code) live of
        None \<Rightarrow> Err NO_SUCH_CODE | Some r \<Rightarrow> Ok (rc_id r, length live - 1))"

definition spend_code :: "sheets \<Rightarrow> nat \<Rightarrow> int \<Rightarrow> sheets \<times> bool" where
  "spend_code rows i now = update_where (\<lambda>r. rc_id r = i \<and> rc_used_at r = None)
     (\<lambda>r. r\<lparr>rc_used_at := Some now\<rparr>) rows"

definition redeem_recovery_code ::
  "(string \<Rightarrow> string \<Rightarrow> bool) \<Rightarrow> sheets \<Rightarrow> string \<Rightarrow> string \<Rightarrow> int \<Rightarrow> (mfa_error, nat) result \<times> sheets" where
  "redeem_recovery_code accepts rows person code now = (case redeem_read accepts rows person code of
       Inl e \<Rightarrow> (Err e, rows)
     | Inr (i, remaining) \<Rightarrow> (case spend_code rows i now of
           (rows', True) \<Rightarrow> (Ok remaining, rows')
         | (_, False) \<Rightarrow> (Err CODE_SPENT, rows)))"

definition recovery_codes_remaining :: "sheets \<Rightarrow> string \<Rightarrow> nat" where
  "recovery_codes_remaining rows person = length (live_codes rows person)"

section \<open>Single use of one-time passwords\<close>

lemma first_verified_Ok:
  "first_verified mac code now fs r0 = Ok (f, step) \<Longrightarrow>
     f \<in> set fs \<and> (\<exists>secret. fa_secret f = Some secret \<and>
       totp_verify mac secret code now (fa_last_step f) DRIFT = Ok step)"
  by (induction fs arbitrary: r0) (auto split: option.splits sum.splits totp_error.splits)

text \<open>What a value read from a row and a step verified against it satisfy.\<close>

definition above :: "int option \<Rightarrow> int \<Rightarrow> bool" where
  "above mark step = (case mark of None \<Rightarrow> True | Some m \<Rightarrow> m < step)"

lemma totp_verify_above: "totp_verify mac secret code now mark drift = Ok step \<Longrightarrow> above mark step"
  using totp_verify_Ok[of mac secret code now mark drift step] by (auto simp: above_def split: option.splits)

lemma verify_read_above: "verify_read mac db person code now = Ok (f, step) \<Longrightarrow> above (fa_last_step f) step"
  unfolding verify_read_def by (auto dest!: first_verified_Ok totp_verify_above)

text \<open>The store under concurrent requests: the rows, the verifications that have read and not yet
  written, and the steps accepted so far, newest first.  A request that has read may write at any
  later time, whatever ran in between; enrolment, confirmation, retirement run as units.\<close>

record mfa_state =
  ms_factors :: factors
  ms_pending :: "(factor \<times> int \<times> int) multiset"
  ms_accepted :: "(nat \<times> int) list"

definition ids :: "factors \<Rightarrow> nat list" where
  "ids db = map fa_id db"

inductive mfa_step :: "mac_fun \<Rightarrow> mfa_state \<Rightarrow> mfa_state \<Rightarrow> bool" for mac where
  verify_begin:
    "verify_read mac (ms_factors s) person code now = Ok (f, step) \<Longrightarrow>
     mfa_step mac s (s\<lparr>ms_pending := add_mset (f, step, now) (ms_pending s)\<rparr>)"
| verify_end:
    "(f, step, now) \<in># ms_pending s \<Longrightarrow> advance (ms_factors s) f step now = (db', ok) \<Longrightarrow>
     mfa_step mac s (s\<lparr>ms_factors := (if ok then db' else ms_factors s),
       ms_pending := ms_pending s - {#(f, step, now)#},
       ms_accepted := (if ok then (fa_id f, step) # ms_accepted s else ms_accepted s)\<rparr>)"
| enrol:
    "begin_totp (ms_factors s) person label raw i = Ok db' \<Longrightarrow> i \<notin> set (ids (ms_factors s)) \<Longrightarrow>
     i \<notin> fst ` set (ms_accepted s) \<Longrightarrow> mfa_step mac s (s\<lparr>ms_factors := db'\<rparr>)"
| confirm:
    "confirm_read mac (ms_factors s) person i code now = Ok step \<Longrightarrow>
     mfa_step mac s (s\<lparr>ms_factors := confirm_write (ms_factors s) i step now,
       ms_accepted := (i, step) # ms_accepted s\<rparr>)"
| retire:
    "disable (ms_factors s) person i now = Ok db' \<Longrightarrow> mfa_step mac s (s\<lparr>ms_factors := db'\<rparr>)"

inductive mfa_reachable :: "mac_fun \<Rightarrow> mfa_state \<Rightarrow> bool" for mac where
  start: "mfa_reachable mac \<lparr>ms_factors = [], ms_pending = {#}, ms_accepted = []\<rparr>"
| step: "mfa_reachable mac s \<Longrightarrow> mfa_step mac s s' \<Longrightarrow> mfa_reachable mac s'"

text \<open>The invariant: the mark of a row is the highest step its factor has accepted, and the steps a
  factor accepted strictly increase.\<close>

definition marks_ok :: "factors \<Rightarrow> (nat \<times> int) list \<Rightarrow> bool" where
  "marks_ok db acc = (\<forall>f\<in>set db. \<forall>st. (fa_id f, st) \<in> set acc \<longrightarrow>
     (\<exists>m. fa_last_step f = Some m \<and> st \<le> m))"

fun increasing :: "(nat \<times> int) list \<Rightarrow> bool" where
  "increasing [] = True"
| "increasing ((i, st) # acc) = ((\<forall>st'. (i, st') \<in> set acc \<longrightarrow> st' < st) \<and> increasing acc)"

definition mfa_inv :: "mfa_state \<Rightarrow> bool" where
  "mfa_inv s = (distinct (ids (ms_factors s)) \<and> marks_ok (ms_factors s) (ms_accepted s) \<and>
     increasing (ms_accepted s) \<and> (\<forall>(f, step, now) \<in># ms_pending s. above (fa_last_step f) step))"

lemma increasing_distinct: "increasing acc \<Longrightarrow> distinct acc"
  by (induction acc rule: increasing.induct) auto

text \<open>Raising the mark of a row to a step above it keeps the invariant.\<close>

lemma marks_raise:
  assumes "marks_ok db acc" and "increasing acc" and "distinct (ids db)"
    and "g \<in> set db" and "fa_id g = i" and "above (fa_last_step g) st"
    and upd: "\<And>f. fa_id (u f) = fa_id f" "\<And>f. fa_last_step (u f) = Some st"
    and c: "\<And>f. f \<in> set db \<Longrightarrow> c f = (f = g)"
  shows "marks_ok (fst (update_where c u db)) ((i, st) # acc) \<and> increasing ((i, st) # acc) \<and>
     ids (fst (update_where c u db)) = ids db"
proof -
  have lt: "st' < st" if a: "(i, st') \<in> set acc" for st'
  proof -
    obtain m where "fa_last_step g = Some m" "st' \<le> m"
      using assms(1,4,5) a unfolding marks_ok_def by blast
    then show ?thesis using assms(6) by (simp add: above_def)
  qed
  have uniq: "f = g" if "f \<in> set db" "fa_id f = i" for f
    using assms(3,4,5) that by (metis distinct_map ids_def inj_on_def)
  have "\<exists>m. fa_last_step f' = Some m \<and> st' \<le> m"
    if f': "f' \<in> set (fst (update_where c u db))" and a: "(fa_id f', st') \<in> set ((i, st) # acc)" for f' st'
  proof -
    obtain f where f: "f \<in> set db" "f' = (if c f then u f else f)" using f' by (auto simp: update_where_def)
    show ?thesis
    proof (cases "f = g")
      case True
      then have "fa_last_step f' = Some st" "fa_id f' = i" using f c upd assms(5) by auto
      then show ?thesis using a lt by (auto intro: less_imp_le)
    next
      case False
      then have ff: "f' = f" "fa_id f \<noteq> i" using f c uniq by auto
      then have "(fa_id f, st') \<in> set acc" using a by simp
      then show ?thesis using assms(1) f(1) ff(1) unfolding marks_ok_def by blast
    qed
  qed
  moreover have "increasing ((i, st) # acc)" using lt assms(2) by simp
  moreover have "ids (fst (update_where c u db)) = ids db"
    using upd(1) by (simp add: ids_def update_where_def comp_def if_distrib cong: if_cong)
  ultimately show ?thesis unfolding marks_ok_def by blast
qed

lemma live_factor_in: "live_factor db person i = Some f \<Longrightarrow> f \<in> set db \<and> fa_id f = i"
  unfolding live_factor_def by (auto simp: find_Some_iff)

lemma mfa_step_inv: "mfa_step mac s s' \<Longrightarrow> mfa_inv s \<Longrightarrow> mfa_inv s'"
proof (induction rule: mfa_step.induct)
  case (verify_begin s person code now f step)
  then show ?case using verify_read_above by (auto simp: mfa_inv_def)
next
  case (verify_end f step now s db' ok)
  have pend: "\<forall>(f, step, now) \<in># ms_pending s - {#(f, step, now)#}. above (fa_last_step f) step"
    using verify_end(3) by (auto simp: mfa_inv_def dest: in_diffD)
  show ?case
  proof (cases ok)
    case False
    then show ?thesis using verify_end(3) pend by (simp add: mfa_inv_def)
  next
    case True
    then obtain g where g: "g \<in> set (ms_factors s)" "fa_id g = fa_id f" "fa_last_step g = fa_last_step f"
      using verify_end(2) by (auto simp: advance_def update_where_def list_ex_iff)
    have ab: "above (fa_last_step g) step" using verify_end(1,3) g(3) by (auto simp: mfa_inv_def)
    have u: "fa_id f' = fa_id f \<and> fa_last_step f' = fa_last_step f \<longleftrightarrow> f' = g"
      if "f' \<in> set (ms_factors s)" for f'
      using g that verify_end(3) by (auto simp: mfa_inv_def ids_def distinct_map inj_on_def)
    have "marks_ok db' ((fa_id f, step) # ms_accepted s) \<and> increasing ((fa_id f, step) # ms_accepted s) \<and>
        ids db' = ids (ms_factors s)"
      using marks_raise[of "ms_factors s" "ms_accepted s" g "fa_id f" step
          "\<lambda>g. g\<lparr>fa_last_step := Some step, fa_last_used_at := Some now\<rparr>"
          "\<lambda>g. fa_id g = fa_id f \<and> fa_last_step g = fa_last_step f"] verify_end(2,3) g ab u
      by (simp add: advance_def mfa_inv_def)
    then show ?thesis using True verify_end(3) pend by (simp add: mfa_inv_def)
  qed
next
  case (enrol s person label raw i db')
  then show ?case
    by (auto simp: mfa_inv_def begin_totp_def ids_def marks_ok_def new_factor_def split: if_splits)
       (force simp: image_iff)+
next
  case (confirm s person i code now step)
  then obtain f secret where f: "live_factor (ms_factors s) person i = Some f"
      "totp_verify mac secret code now (fa_last_step f) DRIFT = Ok step"
    by (auto simp: confirm_read_def split: option.splits)
  have fin: "f \<in> set (ms_factors s)" "fa_id f = i" using live_factor_in[OF f(1)] by auto
  have u: "fa_id f' = i \<longleftrightarrow> f' = f" if "f' \<in> set (ms_factors s)" for f'
    using fin that confirm(2) by (auto simp: mfa_inv_def ids_def distinct_map inj_on_def)
  show ?case
    using marks_raise[of "ms_factors s" "ms_accepted s" f i step
        "\<lambda>f. f\<lparr>fa_confirmed_at := Some now, fa_last_used_at := Some now, fa_last_step := Some step\<rparr>"
        "\<lambda>f. fa_id f = i"] fin totp_verify_above[OF f(2)] u confirm(2)
    by (simp add: mfa_inv_def confirm_write_def)
next
  case (retire s person i now db')
  then show ?case
    by (auto simp: mfa_inv_def disable_def update_where_def ids_def marks_ok_def comp_def if_distrib
        cong: if_cong split: option.splits)
qed

lemma mfa_reachable_inv: "mfa_reachable mac s \<Longrightarrow> mfa_inv s"
proof (induction rule: mfa_reachable.induct)
  case start
  show ?case by (simp add: mfa_inv_def ids_def marks_ok_def)
next
  case (step s s')
  then show ?case using mfa_step_inv by blast
qed

text \<open>C21. A one-time password is one-time, whatever the interleaving of the requests: over every
  history in which verifications read and write at arbitrary times, with enrolments, confirmations and
  retirements in between as units, no step of a factor is accepted twice, and each acceptance is for a
  later step than all acceptances of that factor before it.\<close>

theorem totp_step_single_use:
  assumes "mfa_reachable mac s"
  shows "distinct (ms_accepted s) \<and> increasing (ms_accepted s)"
  using mfa_reachable_inv[OF assms] increasing_distinct by (simp add: mfa_inv_def)

definition sample_factor :: "int option \<Rightarrow> factor" where
  "sample_factor mark = (new_factor 1 ''p'' TOTP_KIND ''phone'')\<lparr>fa_secret := Some (new_secret (replicate 20 7)),
     fa_confirmed_at := Some 0, fa_last_step := mark\<rparr>"

lemma zero_code_digits: "code_digits ''000000'' = ''000000''"
  by (simp add: code_digits_def py_is_space_def)

lemma zero_mac_verify:
  assumes "1 \<le> step_at at" and "step_at at < 2 ^ 64 - 1" and "above mark (step_at at)"
  shows "totp_verify zero_mac (new_secret (replicate 20 7)) ''000000'' at mark DRIFT = Ok (step_at at)"
proof -
  have win: "window DRIFT = [0, -1, 1]" by (simp add: window_def DRIFT_def)
  have c: "code_at zero_mac (new_secret (replicate 20 7)) (step_at at + d) = Ok ''000000''" if "d \<in> {0, -1, 1}" for d
    using assms(1,2) that by (intro zero_mac_code) auto
  have "try_window zero_mac (new_secret (replicate 20 7)) ''000000'' (map (\<lambda>d. step_at at + d) (window DRIFT)) None
      = Ok (Some (step_at at))"
    using c[of 0] c[of "-1"] c[of 1] by (simp add: win compare_digest_def)
  then show ?thesis
    using assms(3) by (auto simp: totp_verify_def Let_def zero_code_digits DIGITS_def py_isdigit_def
        is_ascii_digit_def above_def split: option.splits)
qed

lemma steps_at: "step_at 90000000 = 3" "step_at 120000000 = 4"
  by (simp_all add: step_at_def PERIOD_def)

lemma sample_verify_read:
  "above mark 4 \<Longrightarrow> verify_read zero_mac [sample_factor mark] ''p'' ''000000'' 120000000 = Ok (sample_factor mark, 4)"
  using zero_mac_verify[of 120000000 mark]
  by (simp add: verify_read_def confirmed_factors_def sample_factor_def new_factor_def steps_at)

lemma sample_confirm_read:
  "above mark 3 \<Longrightarrow> confirm_read zero_mac [sample_factor mark] ''p'' 1 ''000000'' 90000000 = Ok 3"
  using zero_mac_verify[of 90000000 mark]
  by (simp add: confirm_read_def live_factor_def sample_factor_def new_factor_def steps_at)

theorem totp_step_single_use_witness:
  "\<exists>s. mfa_reachable zero_mac s \<and> ms_accepted s = [(1, 3)] \<and> increasing (ms_accepted s)"
proof -
  let ?f = "(new_factor 1 ''p'' TOTP_KIND ''phone'')\<lparr>fa_secret := Some (new_secret (replicate 20 7))\<rparr>"
  let ?s0 = "\<lparr>ms_factors = [], ms_pending = {#}, ms_accepted = []\<rparr>"
  let ?s1 = "?s0\<lparr>ms_factors := [?f]\<rparr>"
  let ?s2 = "?s1\<lparr>ms_factors := confirm_write [?f] 1 3 90000000, ms_accepted := [(1, 3)]\<rparr>"
  have 1: "mfa_step zero_mac ?s0 ?s1"
    using mfa_step.enrol[of ?s0 "''p''" "''phone''" "replicate 20 7" 1 "[?f]" zero_mac]
    by (simp add: begin_totp_def label_taken_def ids_def)
  have "confirm_read zero_mac [?f] ''p'' 1 ''000000'' 90000000 = Ok 3"
    using zero_mac_verify[of 90000000 None]
    by (simp add: confirm_read_def live_factor_def new_factor_def steps_at above_def)
  then have 2: "mfa_step zero_mac ?s1 ?s2"
    using mfa_step.confirm[of zero_mac ?s1 "''p''" 1 "''000000''" 90000000 3] by simp
  have r: "mfa_reachable zero_mac ?s2"
    using mfa_reachable.start[of zero_mac] 1 2 by (blast intro: mfa_reachable.step)
  from totp_step_single_use[OF r] r show ?thesis by (intro exI[of _ ?s2]) simp
qed

text \<open>The same does not hold of a confirmation that races a verification: its write is not
  conditional on what it read, so it can lower the mark and the code just accepted is accepted once
  more.\<close>

theorem confirm_race_reopens_step:
  "\<exists>db1 db2. confirm_read zero_mac [sample_factor (Some 2)] ''p'' 1 ''000000'' 90000000 = Ok 3 \<and>
     verify_totp zero_mac [sample_factor (Some 2)] ''p'' ''000000'' 120000000 = (Ok 1, db1) \<and>
     verify_totp zero_mac (confirm_write db1 1 3 90000000) ''p'' ''000000'' 120000000 = (Ok 1, db2)"
proof -
  let ?f = "sample_factor (Some 2)"
  let ?db1 = "[?f\<lparr>fa_last_step := Some 4, fa_last_used_at := Some 120000000\<rparr>]"
  have 1: "verify_totp zero_mac [?f] ''p'' ''000000'' 120000000 = (Ok 1, ?db1)"
    using sample_verify_read[of "Some 2"]
    by (simp add: verify_totp_def above_def advance_def update_where_def)
       (simp add: sample_factor_def new_factor_def)
  let ?g = "?f\<lparr>fa_confirmed_at := Some 90000000, fa_last_used_at := Some 90000000, fa_last_step := Some 3\<rparr>"
  have w: "confirm_write ?db1 1 3 90000000 = [?g]"
    by (simp add: confirm_write_def update_where_def sample_factor_def new_factor_def)
  have "verify_read zero_mac [?g] ''p'' ''000000'' 120000000 = Ok (?g, 4)"
    using zero_mac_verify[of 120000000 "Some 3"]
    by (simp add: verify_read_def confirmed_factors_def sample_factor_def new_factor_def steps_at above_def)
  then have 2: "\<exists>db2. verify_totp zero_mac [?g] ''p'' ''000000'' 120000000 = (Ok 1, db2)"
    by (simp add: verify_totp_def advance_def update_where_def) (simp add: sample_factor_def new_factor_def)
  show ?thesis using sample_confirm_read[of "Some 2"] 1 2 w by (auto simp: above_def)
qed

section \<open>Single use of recovery codes\<close>

record sheet_state =
  ss_rows :: sheets
  ss_pending :: "nat multiset"
  ss_spent :: "nat list"

inductive sheet_step :: "(string \<Rightarrow> string \<Rightarrow> bool) \<Rightarrow> (string \<Rightarrow> string) \<Rightarrow> sheet_state \<Rightarrow> sheet_state \<Rightarrow> bool"
  for accepts hasher where
  redeem_begin:
    "redeem_read accepts (ss_rows s) person code = Ok (i, remaining) \<Longrightarrow>
     sheet_step accepts hasher s (s\<lparr>ss_pending := add_mset i (ss_pending s)\<rparr>)"
| redeem_end:
    "i \<in># ss_pending s \<Longrightarrow> spend_code (ss_rows s) i now = (rows', ok) \<Longrightarrow>
     sheet_step accepts hasher s (s\<lparr>ss_rows := (if ok then rows' else ss_rows s),
       ss_pending := ss_pending s - {#i#},
       ss_spent := (if ok then i # ss_spent s else ss_spent s)\<rparr>)"
| issue:
    "issue_recovery_codes hasher (ss_rows s) person raws now = (codes, rows') \<Longrightarrow>
     distinct (map fst raws) \<Longrightarrow> fst ` set raws \<inter> (rc_id ` set (ss_rows s) \<union> set (ss_spent s)) = {} \<Longrightarrow>
     sheet_step accepts hasher s (s\<lparr>ss_rows := rows'\<rparr>)"

inductive sheet_reachable :: "(string \<Rightarrow> string \<Rightarrow> bool) \<Rightarrow> (string \<Rightarrow> string) \<Rightarrow> sheet_state \<Rightarrow> bool"
  for accepts hasher where
  sheet_start: "sheet_reachable accepts hasher \<lparr>ss_rows = [], ss_pending = {#}, ss_spent = []\<rparr>"
| sheet_next: "sheet_reachable accepts hasher s \<Longrightarrow> sheet_step accepts hasher s s' \<Longrightarrow>
    sheet_reachable accepts hasher s'"

definition sheet_inv :: "sheet_state \<Rightarrow> bool" where
  "sheet_inv s = (distinct (ss_spent s) \<and>
     (\<forall>r\<in>set (ss_rows s). rc_id r \<in> set (ss_spent s) \<longrightarrow> rc_used_at r \<noteq> None))"

lemma issue_rows:
  assumes "issue_recovery_codes hasher rows person raws now = (codes, rows')" and "r \<in> set rows'"
  shows "(\<exists>q\<in>set rows. rc_id r = rc_id q \<and> rc_used_at r = rc_used_at q) \<or> rc_id r \<in> fst ` set raws"
proof -
  let ?old = "map (\<lambda>r. if rc_person r = person \<and> rc_used_at r = None \<and> rc_superseded_at r = None
    then r\<lparr>rc_superseded_at := Some now\<rparr> else r) rows"
  let ?new = "map (\<lambda>(i, c). \<lparr>rc_id = i, rc_person = person, rc_hash = hash_code hasher c,
    rc_used_at = None, rc_superseded_at = None\<rparr>) (zip (map fst raws) codes)"
  have eq: "rows' = ?old @ ?new"
    using assms(1) by (clarsimp simp add: issue_recovery_codes_def Let_def update_where_def)
  have "r \<in> set ?old \<union> set ?new" using assms(2) by (simp only: eq set_append)
  then show ?thesis
  proof (rule UnE)
    assume "r \<in> set ?old"
    then obtain q where "q \<in> set rows" "rc_id r = rc_id q \<and> rc_used_at r = rc_used_at q" by fastforce
    then show ?thesis by blast
  next
    assume "r \<in> set ?new"
    then have "rc_id r \<in> set (map fst raws)" by (auto dest: set_zip_leftD)
    then show ?thesis by simp
  qed
qed

lemma sheet_step_inv: "sheet_step accepts hasher s s' \<Longrightarrow> sheet_inv s \<Longrightarrow> sheet_inv s'"
proof (induction rule: sheet_step.induct)
  case (redeem_begin s person code i remaining)
  then show ?case by (simp add: sheet_inv_def)
next
  case (redeem_end i s now rows' ok)
  show ?case
  proof (cases ok)
    case True
    then have "\<exists>r\<in>set (ss_rows s). rc_id r = i \<and> rc_used_at r = None"
      using redeem_end(2) by (auto simp: spend_code_def update_where_def list_ex_iff)
    then have fresh: "i \<notin> set (ss_spent s)" using redeem_end(3) by (auto simp: sheet_inv_def)
    have rw: "rows' = map (\<lambda>r. if rc_id r = i \<and> rc_used_at r = None then r\<lparr>rc_used_at := Some now\<rparr> else r) (ss_rows s)"
      using redeem_end(2) by (simp add: spend_code_def update_where_def)
    have "rc_used_at r' \<noteq> None" if r': "r' \<in> set rows'" "rc_id r' \<in> set (i # ss_spent s)" for r'
    proof -
      obtain r where r: "r \<in> set (ss_rows s)"
          "r' = (if rc_id r = i \<and> rc_used_at r = None then r\<lparr>rc_used_at := Some now\<rparr> else r)"
        using r'(1) unfolding rw set_map by (rule imageE)
      show ?thesis
      proof (cases "rc_id r = i")
        case False
        then have "rc_id r \<in> set (ss_spent s)" using r'(2) r(2) by simp
        then show ?thesis using r False redeem_end(3) by (simp add: sheet_inv_def)
      qed (use r(2) in simp)
    qed
    then show ?thesis using True redeem_end(3) fresh by (simp add: sheet_inv_def)
  qed (use redeem_end(3) in \<open>simp add: sheet_inv_def\<close>)
next
  case (issue s person raws now codes rows')
  have "rc_used_at r \<noteq> None" if r: "r \<in> set rows'" "rc_id r \<in> set (ss_spent s)" for r
  proof -
    have "rc_id r \<notin> fst ` set raws" using issue(3) r(2) by blast
    then obtain q where "q \<in> set (ss_rows s)" "rc_id r = rc_id q" "rc_used_at r = rc_used_at q"
      using issue_rows[OF issue(1) r(1)] by blast
    then show ?thesis using issue(4) r(2) by (simp add: sheet_inv_def)
  qed
  then show ?case using issue(4) by (simp add: sheet_inv_def)
qed

lemma sheet_reachable_inv: "sheet_reachable accepts hasher s \<Longrightarrow> sheet_inv s"
proof (induction rule: sheet_reachable.induct)
  case (sheet_next s s')
  then show ?case using sheet_step_inv by blast
qed (simp add: sheet_inv_def)

text \<open>A recovery code is spent at most once, over every interleaving of redemptions and reissues,
  although reading the sheet and spending the code are separate statements.\<close>

theorem recovery_code_single_use:
  assumes "sheet_reachable accepts hasher s"
  shows "distinct (ss_spent s) \<and> (\<forall>r\<in>set (ss_rows s). rc_id r \<in> set (ss_spent s) \<longrightarrow> rc_used_at r \<noteq> None)"
  using sheet_reachable_inv[OF assms] by (simp add: sheet_inv_def)

definition sample_sheet :: sheets where
  "sample_sheet = [\<lparr>rc_id = 1, rc_person = ''p'', rc_hash = ''00000000'', rc_used_at = None, rc_superseded_at = None\<rparr>]"

theorem recovery_code_single_use_witness:
  "\<exists>s. sheet_reachable (=) id s \<and> ss_spent s = [1] \<and> distinct (ss_spent s)"
proof -
  let ?s0 = "\<lparr>ss_rows = [], ss_pending = {#}, ss_spent = []\<rparr>"
  let ?r = "[\<lparr>rc_id = 1, rc_person = ''p'', rc_hash = normalise (format_code (replicate 5 0)),
      rc_used_at = None, rc_superseded_at = None\<rparr>]"
  let ?s1 = "?s0\<lparr>ss_rows := ?r\<rparr>"
  let ?s2 = "?s1\<lparr>ss_pending := {#1#}\<rparr>"
  let ?s3 = "?s2\<lparr>ss_rows := fst (spend_code ?r 1 5), ss_pending := {#}, ss_spent := [1]\<rparr>"
  have "issue_recovery_codes id [] ''p'' [(1, replicate 5 0)] 0 = ([format_code (replicate 5 0)], ?r)"
    by (simp add: issue_recovery_codes_def Let_def generate_def hash_code_def update_where_def)
  then have 1: "sheet_step (=) id ?s0 ?s1"
    using sheet_step.issue[of id ?s0 "''p''" "[(1, replicate 5 0)]" 0 _ ?r "(=)"] by simp
  have 2: "sheet_step (=) id ?s1 ?s2"
    using sheet_step.redeem_begin[of "(=)" ?s1 "''p''" "format_code (replicate 5 0)" 1 0 id]
    by (simp add: redeem_read_def live_codes_def recovery_matches_def Let_def)
  have 3: "sheet_step (=) id ?s2 ?s3"
    using sheet_step.redeem_end[of 1 ?s2 5 "fst (spend_code ?r 1 5)" True "(=)" id]
    by (simp add: spend_code_def update_where_def)
  have r: "sheet_reachable (=) id ?s3"
    using sheet_start[of "(=)" id] 1 2 3 by (blast intro: sheet_next)
  from recovery_code_single_use[OF r] r show ?thesis by (intro exI[of _ ?s3]) simp
qed

text \<open>Reissuing does not stop a redemption that has already read the old sheet: the spend tests
  only that the code is unused, so a superseded code is still accepted.\<close>

theorem reissue_race_spends_superseded:
  "\<exists>rows' rows''. redeem_read (=) sample_sheet ''p'' ''0000-0000'' = Ok (1, 0) \<and>
     rows' = snd (issue_recovery_codes id sample_sheet ''p'' [(2, replicate 5 1)] 10) \<and>
     rc_superseded_at (hd rows') = Some 10 \<and> spend_code rows' 1 11 = (rows'', True)"
proof -
  have n: "normalise ''0000-0000'' = ''00000000''" by code_simp
  have 1: "redeem_read (=) sample_sheet ''p'' ''0000-0000'' = Ok (1, 0)"
    by (simp add: redeem_read_def live_codes_def sample_sheet_def recovery_matches_def n)
  let ?rows = "snd (issue_recovery_codes id sample_sheet ''p'' [(2, replicate 5 1)] 10)"
  have rows: "?rows = \<lparr>rc_id = 1, rc_person = ''p'', rc_hash = ''00000000'',
      rc_used_at = None, rc_superseded_at = Some 10\<rparr> # tl ?rows"
    by (simp add: issue_recovery_codes_def Let_def update_where_def sample_sheet_def)
  have 2: "\<exists>rows''. spend_code ?rows 1 11 = (rows'', True)"
    by (subst rows) (simp add: spend_code_def update_where_def)
  have 3: "rc_superseded_at (hd ?rows) = Some 10" by (subst rows) simp
  show ?thesis using 1 2 3 by blast
qed

end
