(* ===== verification/ReleasePolicy.thy ===== *)
theory ReleasePolicy
  imports Prelude
begin

text \<open>
  Attribute release: the catalogue (\<open>campusid/policy/attributes.py\<close>), the normalisation of asserted
  values (\<open>policy/normalize.py\<close>) and the release engine (\<open>policy/release.py\<close>).

  A \<open>dict[str, list[str]]\<close> is an association list with distinct keys.  The regular-expression engine
  is a parameter \<open>fullmatch\<close> of the rules that carry a value filter: whether a pattern matches a whole
  value.
\<close>

section \<open>The catalogue\<close>

datatype classification = PUBLIC | DIRECTORY | INTERNAL | RESTRICTED

record attribute_definition =
  ad_name :: string
  ad_friendly_name :: string
  ad_classification :: classification
  ad_ferpa :: bool
  ad_multivalued :: bool

definition EPPN :: string where "EPPN = ''urn:oid:1.3.6.1.4.1.5923.1.1.1.6''"
definition UNIQUE_ID :: string where "UNIQUE_ID = ''urn:oid:1.3.6.1.4.1.5923.1.1.1.13''"
definition SUBJECT_ID :: string where "SUBJECT_ID = ''urn:oasis:names:tc:SAML:attribute:subject-id''"
definition PAIRWISE_ID :: string where "PAIRWISE_ID = ''urn:oasis:names:tc:SAML:attribute:pairwise-id''"
definition MAIL :: string where "MAIL = ''urn:oid:0.9.2342.19200300.100.1.3''"
definition DISPLAY_NAME :: string where "DISPLAY_NAME = ''urn:oid:2.16.840.1.113730.3.1.241''"
definition GIVEN_NAME :: string where "GIVEN_NAME = ''urn:oid:2.5.4.42''"
definition SURNAME :: string where "SURNAME = ''urn:oid:2.5.4.4''"
definition SCOPED_AFFILIATION :: string where "SCOPED_AFFILIATION = ''urn:oid:1.3.6.1.4.1.5923.1.1.1.9''"
definition AFFILIATION :: string where "AFFILIATION = ''urn:oid:1.3.6.1.4.1.5923.1.1.1.1''"
definition PRIMARY_AFFILIATION :: string where "PRIMARY_AFFILIATION = ''urn:oid:1.3.6.1.4.1.5923.1.1.1.5''"
definition ENTITLEMENT :: string where "ENTITLEMENT = ''urn:oid:1.3.6.1.4.1.5923.1.1.1.7''"
definition ASSURANCE :: string where "ASSURANCE = ''urn:oid:1.3.6.1.4.1.5923.1.1.1.11''"
definition ORG_UNIT :: string where "ORG_UNIT = ''urn:oid:2.5.4.11''"
definition ORCID :: string where "ORCID = ''urn:oid:1.3.6.1.4.1.5923.1.1.1.16''"
definition STUDENT_ID :: string where "STUDENT_ID = ''urn:campusid:attribute:student-id''"
definition EMPLOYEE_ID :: string where "EMPLOYEE_ID = ''urn:campusid:attribute:employee-id''"

lemmas attribute_names = EPPN_def UNIQUE_ID_def SUBJECT_ID_def PAIRWISE_ID_def MAIL_def DISPLAY_NAME_def
  GIVEN_NAME_def SURNAME_def SCOPED_AFFILIATION_def AFFILIATION_def PRIMARY_AFFILIATION_def ENTITLEMENT_def
  ASSURANCE_def ORG_UNIT_def ORCID_def STUDENT_ID_def EMPLOYEE_ID_def

abbreviation (input) attr_def where
  "attr_def n f c ferpa multi \<equiv> \<lparr>ad_name = n, ad_friendly_name = f, ad_classification = c,
     ad_ferpa = ferpa, ad_multivalued = multi\<rparr>"

definition CATALOGUE :: "attribute_definition list" where
  "CATALOGUE = [
     attr_def SUBJECT_ID ''subject-id'' DIRECTORY False False,
     attr_def PAIRWISE_ID ''pairwise-id'' PUBLIC False False,
     attr_def EPPN ''eduPersonPrincipalName'' DIRECTORY False False,
     attr_def UNIQUE_ID ''eduPersonUniqueId'' INTERNAL False False,
     attr_def MAIL ''mail'' DIRECTORY True True,
     attr_def DISPLAY_NAME ''displayName'' DIRECTORY True False,
     attr_def GIVEN_NAME ''givenName'' DIRECTORY True False,
     attr_def SURNAME ''sn'' DIRECTORY True False,
     attr_def SCOPED_AFFILIATION ''eduPersonScopedAffiliation'' DIRECTORY True True,
     attr_def AFFILIATION ''eduPersonAffiliation'' DIRECTORY True True,
     attr_def PRIMARY_AFFILIATION ''eduPersonPrimaryAffiliation'' DIRECTORY True False,
     attr_def ORG_UNIT ''ou'' DIRECTORY True True,
     attr_def ENTITLEMENT ''eduPersonEntitlement'' INTERNAL False True,
     attr_def ASSURANCE ''eduPersonAssurance'' INTERNAL False True,
     attr_def ORCID ''eduPersonOrcid'' PUBLIC False False,
     attr_def STUDENT_ID ''studentID'' RESTRICTED False False,
     attr_def EMPLOYEE_ID ''employeeNumber'' RESTRICTED False False]"

definition RESEARCH_AND_SCHOLARSHIP :: string where
  "RESEARCH_AND_SCHOLARSHIP = ''http://refeds.org/category/research-and-scholarship''"

definition RS_BUNDLE :: "string set" where
  "RS_BUNDLE = {SUBJECT_ID, EPPN, MAIL, DISPLAY_NAME, GIVEN_NAME, SURNAME, SCOPED_AFFILIATION}"

definition attribute_of :: "string \<Rightarrow> attribute_definition option" where
  "attribute_of name = find (\<lambda>a. ad_name a = name) CATALOGUE"

section \<open>Normalisation\<close>

type_synonym attrs = "(string \<times> string list) list"

definition AFFILIATION_VOCABULARY :: "string set" where
  "AFFILIATION_VOCABULARY = {''faculty'', ''student'', ''staff'', ''alum'', ''member'', ''affiliate'',
     ''employee'', ''library-walk-in''}"

datatype drop_reason = EmptyValue | OutsideVocabulary | NotScoped | WrongScope string | NotAnAddress

record dropped_value =
  dv_attribute :: string
  dv_value :: string
  dv_reason :: drop_reason

definition scoped :: "string \<Rightarrow> string \<Rightarrow> string set option \<Rightarrow> (drop_reason, string) result" where
  "scoped v scope vocabulary =
     (let (local, separator, asserted) = py_rpartition (CHR ''@'') v in
      if \<not> separator \<or> local = [] then Err NotScoped
      else if asserted \<noteq> scope then Err (WrongScope asserted)
      else if vocabulary \<noteq> None \<and> local \<notin> the vocabulary then Err OutsideVocabulary
      else Ok v)"

definition norm_mail :: "string \<Rightarrow> (drop_reason, string) result" where
  "norm_mail v =
     (let (local, separator, domain) = py_rpartition (CHR ''@'') v in
      if \<not> separator \<or> local = [] \<or> domain = [] then Err NotAnAddress
      else Ok (local @ ''@'' @ py_lower domain))"

definition normalize_value :: "string \<Rightarrow> string \<Rightarrow> string \<Rightarrow> (drop_reason, string) result" where
  "normalize_value name v scope =
     (if v = [] then Err EmptyValue
      else if name = EPPN then scoped (py_lower v) scope None
      else if name = SCOPED_AFFILIATION then scoped (py_lower v) scope (Some AFFILIATION_VOCABULARY)
      else if name = AFFILIATION \<or> name = PRIMARY_AFFILIATION then
        (if py_lower v \<notin> AFFILIATION_VOCABULARY then Err OutsideVocabulary else Ok (py_lower v))
      else if name = MAIL then norm_mail v
      else Ok v)"

fun normalize_values ::
  "string \<Rightarrow> string \<Rightarrow> string list \<Rightarrow> string list \<Rightarrow> string list \<times> dropped_value list" where
  "normalize_values name scope kept [] = (kept, [])"
| "normalize_values name scope kept (raw # raws) =
     (case normalize_value name (py_strip raw) scope of
        Inl reason \<Rightarrow> (let (ks, ds) = normalize_values name scope kept raws in
          (ks, \<lparr>dv_attribute = name, dv_value = raw, dv_reason = reason\<rparr> # ds))
      | Inr v \<Rightarrow> normalize_values name scope (if v \<in> set kept then kept else kept @ [v]) raws)"

fun normalize :: "string \<Rightarrow> attrs \<Rightarrow> attrs \<times> dropped_value list" where
  "normalize scope [] = ([], [])"
| "normalize scope ((name, values) # rest) =
     (let (kept, ds) = normalize_values name scope [] values; (ns, ds') = normalize scope rest in
      (if kept = [] then ns else (name, kept) # ns, ds @ ds'))"

section \<open>The release engine\<close>

datatype release_effect = AllowE | AllowValue | DenyE | RequireConsent

datatype basis = RestrictedB | FerpaSuppressed | UnknownAttribute | ExplicitDeny | ExplicitAllow
  | ValueFilter | EntityCategory | ConsentGiven | ConsentRequired | DefaultDeny

record release_rule =
  rr_id :: string
  rr_effect :: release_effect
  rr_attribute :: string
  rr_value_filter :: "string option"
  rr_precedence :: int

record release_policy =
  rp_sp_entity_id :: string
  rp_display_name :: string
  rp_entity_categories :: "string set"
  rp_shared_subject_id :: bool
  rp_school_official :: bool
  rp_require_encrypted :: bool
  rp_rules :: "release_rule list"

record release_subject =
  rs_person_key :: string
  rs_suppressed :: bool

record release_decision =
  rd_attribute :: string
  rd_released :: bool
  rd_values :: "string list"
  rd_basis :: basis
  rd_rule_id :: "string option"

definition filter_admits :: "(string \<Rightarrow> string \<Rightarrow> bool) \<Rightarrow> release_rule \<Rightarrow> string \<Rightarrow> bool" where
  "filter_admits fullmatch r v = (case rr_value_filter r of None \<Rightarrow> True | Some pat \<Rightarrow> fullmatch pat v)"

definition suppressed :: "release_policy \<Rightarrow> release_subject \<Rightarrow> attribute_definition \<Rightarrow> bool" where
  "suppressed p s a = (rs_suppressed s \<and> ad_ferpa a \<and> \<not> rp_school_official p)"

definition in_category_bundle :: "release_policy \<Rightarrow> string \<Rightarrow> bool" where
  "in_category_bundle p name = (RESEARCH_AND_SCHOLARSHIP \<in> rp_entity_categories p \<and> name \<in> RS_BUNDLE)"

abbreviation (input) outcome where
  "outcome n rel vs b rid \<equiv> \<lparr>rd_attribute = n, rd_released = rel, rd_values = vs, rd_basis = b, rd_rule_id = rid\<rparr>"

definition rule_outcome ::
  "(string \<Rightarrow> string \<Rightarrow> bool) \<Rightarrow> release_rule \<Rightarrow> string \<Rightarrow> string list \<Rightarrow> string set \<Rightarrow> release_decision" where
  "rule_outcome fullmatch r name values consented = (case rr_effect r of
       DenyE \<Rightarrow> outcome name False [] ExplicitDeny (Some (rr_id r))
     | AllowE \<Rightarrow> outcome name True values ExplicitAllow (Some (rr_id r))
     | RequireConsent \<Rightarrow>
         if name \<in> consented then outcome name True values ConsentGiven (Some (rr_id r))
         else outcome name False [] ConsentRequired (Some (rr_id r))
     | AllowValue \<Rightarrow>
         (let kept = filter (filter_admits fullmatch r) values in
          outcome name (kept \<noteq> []) kept ValueFilter (Some (rr_id r))))"

definition decide_release ::
  "(string \<Rightarrow> string \<Rightarrow> bool) \<Rightarrow> release_policy \<Rightarrow> release_subject \<Rightarrow> string \<Rightarrow> string list \<Rightarrow> string set \<Rightarrow> release_decision" where
  "decide_release fullmatch p s name values consented = (case attribute_of name of
       None \<Rightarrow> outcome name False [] UnknownAttribute None
     | Some a \<Rightarrow>
         if ad_classification a = RESTRICTED then outcome name False [] RestrictedB None
         else if suppressed p s a then outcome name False [] FerpaSuppressed None
         else (case find (\<lambda>r. rr_attribute r = name) (sort_key rr_precedence (rp_rules p)) of
             Some r \<Rightarrow> rule_outcome fullmatch r name values consented
           | None \<Rightarrow>
               if in_category_bundle p name then outcome name True values EntityCategory None
               else outcome name False [] DefaultDeny None))"

definition evaluate_release ::
  "(string \<Rightarrow> string \<Rightarrow> bool) \<Rightarrow> release_policy \<Rightarrow> release_subject \<Rightarrow> attrs \<Rightarrow> string set \<Rightarrow> attrs \<times> release_decision list" where
  "evaluate_release fullmatch p s available consented =
     (let decisions = map (\<lambda>name. decide_release fullmatch p s name (the (map_of available name)) consented)
        (sort (map fst available))
      in (map (\<lambda>d. (rd_attribute d, rd_values d)) (filter (\<lambda>d. rd_released d \<and> rd_values d \<noteq> []) decisions), decisions))"

definition subject_identifier_attribute :: "release_policy \<Rightarrow> string" where
  "subject_identifier_attribute p = (if rp_shared_subject_id p then SUBJECT_ID else PAIRWISE_ID)"

section \<open>Lemmas\<close>

lemma rule_outcome_name [simp]: "rd_attribute (rule_outcome fm r name vs c) = name"
  by (simp add: rule_outcome_def Let_def split: release_effect.splits)

lemma decide_release_name [simp]: "rd_attribute (decide_release fm p s name vs c) = name"
  by (simp add: decide_release_def split: option.splits)

text \<open>The rule that speaks for an attribute: the first of lowest precedence number.\<close>

definition speaks :: "release_policy \<Rightarrow> string \<Rightarrow> release_rule \<Rightarrow> bool" where
  "speaks p name r = (r \<in> set (rp_rules p) \<and> rr_attribute r = name \<and>
     (\<forall>r'\<in>set (rp_rules p). rr_attribute r' = name \<longrightarrow> rr_precedence r \<le> rr_precedence r'))"

lemma find_sorted_min:
  assumes "find P (sort_key k xs) = Some x" and "y \<in> set xs" and "P y"
  shows "k x \<le> k y"
proof -
  obtain i where i: "i < length (sort_key k xs)" "P (sort_key k xs ! i)" "x = sort_key k xs ! i"
      "\<forall>j<i. \<not> P (sort_key k xs ! j)"
    using assms(1) unfolding find_Some_iff by blast
  have "y \<in> set (sort_key k xs)" using assms(2) by simp
  then obtain j where j: "j < length (sort_key k xs)" "sort_key k xs ! j = y" by (metis in_set_conv_nth)
  then have ij: "i \<le> j" using i(4) assms(3) by (metis not_le)
  have "sorted (map k (sort_key k xs))" by simp
  then have "map k (sort_key k xs) ! i \<le> map k (sort_key k xs) ! j"
    using ij j(1) by (intro sorted_nth_mono) simp_all
  then show ?thesis using i(1,3) j by simp
qed

lemma find_speaks:
  "find (\<lambda>r. rr_attribute r = name) (sort_key rr_precedence (rp_rules p)) = Some r \<Longrightarrow> speaks p name r"
proof -
  assume f: "find (\<lambda>r. rr_attribute r = name) (sort_key rr_precedence (rp_rules p)) = Some r"
  then have "r \<in> set (sort_key rr_precedence (rp_rules p))" "rr_attribute r = name"
    unfolding find_Some_iff by (auto intro: nth_mem simp del: set_sort)
  then show ?thesis using find_sorted_min[OF f] by (simp add: speaks_def)
qed

lemma decide_release_released:
  assumes "rd_released (decide_release fm p s name vs c)"
  shows "\<exists>a. attribute_of name = Some a \<and> ad_classification a \<noteq> RESTRICTED \<and> \<not> suppressed p s a \<and>
     set (rd_values (decide_release fm p s name vs c)) \<subseteq> set vs \<and>
     ((\<exists>r. speaks p name r \<and> rr_effect r \<noteq> DenyE \<and> rd_rule_id (decide_release fm p s name vs c) = Some (rr_id r) \<and>
         (rr_effect r = RequireConsent \<longrightarrow> name \<in> c) \<and>
         (rr_effect r = AllowValue \<longrightarrow> (\<forall>v\<in>set (rd_values (decide_release fm p s name vs c)). filter_admits fm r v))) \<or>
      (in_category_bundle p name \<and> (\<nexists>r. r \<in> set (rp_rules p) \<and> rr_attribute r = name)))"
proof -
  obtain a where a: "attribute_of name = Some a" "ad_classification a \<noteq> RESTRICTED" "\<not> suppressed p s a"
    using assms by (auto simp: decide_release_def split: option.splits if_splits)
  show ?thesis
  proof (cases "find (\<lambda>r. rr_attribute r = name) (sort_key rr_precedence (rp_rules p))")
    case (Some r)
    then have d: "decide_release fm p s name vs c = rule_outcome fm r name vs c"
      using a by (simp add: decide_release_def)
    have "speaks p name r" by (rule find_speaks[OF Some])
    then show ?thesis
      using a assms by (auto simp: d rule_outcome_def Let_def split: release_effect.splits if_splits)
  next
    case None
    then have "\<nexists>r. r \<in> set (rp_rules p) \<and> rr_attribute r = name" by (auto simp: find_None_iff)
    then show ?thesis using a assms None by (auto simp: decide_release_def split: if_splits)
  qed
qed

section \<open>Properties\<close>

text \<open>C18. Nothing is released by default: a service provider receives an attribute only if the broker
  holds it, knows it, does not classify it as restricted, and FERPA suppression does not withhold it;
  and only on the word of the rule of lowest precedence number for it (which permits, has the
  subject's consent where it asks for it, and admits each value released) or, with no rule at all, of
  the entity category.  Only values the broker holds are released.\<close>

theorem release_justified:
  assumes "distinct (map fst available)"
    and "(name, vs) \<in> set (fst (evaluate_release fm p s available consented))"
  shows "\<exists>a held. attribute_of name = Some a \<and> ad_classification a \<noteq> RESTRICTED \<and> \<not> suppressed p s a \<and>
     (name, held) \<in> set available \<and> set vs \<subseteq> set held \<and>
     ((\<exists>r. speaks p name r \<and> rr_effect r \<noteq> DenyE \<and> (rr_effect r = RequireConsent \<longrightarrow> name \<in> consented) \<and>
         (rr_effect r = AllowValue \<longrightarrow> (\<forall>v\<in>set vs. filter_admits fm r v))) \<or>
      (in_category_bundle p name \<and> (\<nexists>r. r \<in> set (rp_rules p) \<and> rr_attribute r = name)))"
proof -
  let ?d = "decide_release fm p s name (the (map_of available name)) consented"
  have d: "rd_released ?d" "vs = rd_values ?d" "name \<in> set (map fst available)"
    using assms(2) by (force simp: evaluate_release_def Let_def)+
  then obtain held where "(name, held) \<in> set available" by auto
  moreover from this have "map_of available name = Some held" using assms(1) by simp
  ultimately show ?thesis using decide_release_released[OF d(1)] d(2) by auto
qed

definition sample_policy :: "release_rule list \<Rightarrow> release_policy" where
  "sample_policy rules = \<lparr>rp_sp_entity_id = ''https://sp'', rp_display_name = [], rp_entity_categories = {RESEARCH_AND_SCHOLARSHIP},
     rp_shared_subject_id = False, rp_school_official = False, rp_require_encrypted = False, rp_rules = rules\<rparr>"

definition sample_rule :: "string \<Rightarrow> release_effect \<Rightarrow> string \<Rightarrow> int \<Rightarrow> release_rule" where
  "sample_rule i eff name prec = \<lparr>rr_id = i, rr_effect = eff, rr_attribute = name, rr_value_filter = None,
     rr_precedence = prec\<rparr>"

definition sample_subject :: "bool \<Rightarrow> release_subject" where
  "sample_subject opted_out = \<lparr>rs_person_key = ''k'', rs_suppressed = opted_out\<rparr>"

lemma sample_release:
  "evaluate_release fm (sample_policy [sample_rule ''r'' AllowE ORCID 100]) (sample_subject True)
     [(ORCID, [''0000'']), (STUDENT_ID, [''1''])] {} =
   ([(ORCID, [''0000''])], [outcome STUDENT_ID False [] RestrictedB None, outcome ORCID True [''0000''] ExplicitAllow (Some ''r'')])"
proof -
  have "sort [ORCID, STUDENT_ID] = [STUDENT_ID, ORCID]" by code_simp
  then show ?thesis
    by (simp add: evaluate_release_def decide_release_def attribute_of_def CATALOGUE_def sample_policy_def
        sample_rule_def sample_subject_def suppressed_def rule_outcome_def attribute_names)
qed

theorem release_justified_witness:
  "\<exists>a. attribute_of ORCID = Some a \<and> ad_classification a \<noteq> RESTRICTED"
proof -
  have 1: "distinct (map fst [(ORCID, [''0000'']), (STUDENT_ID, [''1''])])"
    by (simp add: attribute_names)
  have "(ORCID, [''0000'']) \<in> set (fst (evaluate_release (\<lambda>p v. False)
      (sample_policy [sample_rule ''r'' AllowE ORCID 100]) (sample_subject True)
      [(ORCID, [''0000'']), (STUDENT_ID, [''1''])] {}))"
    by (simp only: sample_release) simp
  from release_justified[OF 1 this] show ?thesis by blast
qed

text \<open>Every attribute the broker holds is accounted for: one decision each, in the order of the
  names; what is released is exactly what the decisions marked released say, and a name is never
  both released and denied.\<close>

theorem release_accounts:
  "map rd_attribute (snd (evaluate_release fm p s available consented)) = sort (map fst available) \<and>
   fst (evaluate_release fm p s available consented) =
     map (\<lambda>d. (rd_attribute d, rd_values d))
       (filter rd_released (filter (\<lambda>d. rd_values d \<noteq> []) (snd (evaluate_release fm p s available consented))))"
  by (simp add: evaluate_release_def Let_def comp_def conj_commute)

text \<open>A denial does not override a permission of lower precedence number: with an allowing rule
  at 10 and a denying rule at 100 the attribute is released; exchanging the numbers withholds it.\<close>

theorem allow_before_deny_releases:
  "rd_released (decide_release fm (sample_policy [sample_rule ''d'' DenyE MAIL 100, sample_rule ''a'' AllowE MAIL 10])
     (sample_subject False) MAIL [''x@y''] {}) \<and>
   rd_released (decide_release fm (sample_policy [sample_rule ''d'' DenyE MAIL 10, sample_rule ''a'' AllowE MAIL 100])
     (sample_subject False) MAIL [''x@y''] {}) = False"
  by (simp add: decide_release_def attribute_of_def CATALOGUE_def attribute_names sample_policy_def sample_rule_def
      sample_subject_def suppressed_def rule_outcome_def)

text \<open>Suppression does not cover all directory information: the principal name of a student who
  opted out is classified as directory information, yet a research-and-scholarship provider outside
  the school-official exception receives it.\<close>

theorem suppressed_student_eppn_released:
  "(\<exists>a. attribute_of EPPN = Some a \<and> ad_classification a = DIRECTORY) \<and>
   rd_released (decide_release fm (sample_policy []) (sample_subject True) EPPN [''sam@campus''] {}) \<and>
   rd_released (decide_release fm (sample_policy []) (sample_subject True) MAIL [''sam@campus''] {}) = False"
  by (simp add: decide_release_def attribute_of_def CATALOGUE_def attribute_names sample_policy_def
      sample_subject_def suppressed_def in_category_bundle_def RS_BUNDLE_def)

section \<open>What normalisation guarantees\<close>

definition trimmed :: "string \<Rightarrow> bool" where
  "trimmed v = (v = [] \<or> \<not> py_is_space (hd v) \<and> \<not> py_is_space (last v))"

lemma strip_trimmed: "trimmed v \<Longrightarrow> py_strip v = v"
proof (cases "v = []")
  case False
  moreover assume "trimmed v"
  ultimately have "\<not> py_is_space (hd v)" "\<not> py_is_space (hd (rev v))" by (auto simp: trimmed_def hd_rev)
  then have "dropWhile py_is_space v = v" "dropWhile py_is_space (rev v) = rev v"
    by (simp_all add: dropWhile_eq_self_iff)
  then show ?thesis by (simp add: py_strip_def)
qed (simp add: py_strip_def)

lemma trimmed_strip: "trimmed (py_strip raw)"
proof -
  define t where "t = dropWhile py_is_space raw"
  define u where "u = dropWhile py_is_space (rev t)"
  have t: "t = [] \<or> \<not> py_is_space (hd t)" using hd_dropWhile[of py_is_space raw] by (auto simp: t_def)
  have u: "u = [] \<or> \<not> py_is_space (hd u)" using hd_dropWhile[of py_is_space "rev t"] by (auto simp: u_def)
  have "rev t = takeWhile py_is_space (rev t) @ u" by (simp add: u_def)
  then have "t = rev u @ rev (takeWhile py_is_space (rev t))" by (metis rev_append rev_rev_ident)
  then have "hd (rev u) = hd t" if "u \<noteq> []" using that by (metis hd_append2 rev_is_Nil_conv)
  moreover have "t \<noteq> []" if "u \<noteq> []" using that by (auto simp: u_def)
  ultimately have "u = [] \<or> \<not> py_is_space (hd (rev u)) \<and> \<not> py_is_space (last (rev u))"
    using t u by (auto simp: last_rev)
  then show ?thesis by (auto simp: trimmed_def py_strip_def t_def[symmetric] u_def[symmetric])
qed

lemma space_lower: "py_is_space (py_lower_char c) = py_is_space c"
  by (simp add: py_is_space_def py_lower_char_code Let_def)

lemma trimmed_lower: "trimmed (py_lower v) = trimmed v"
  by (cases "v = []") (auto simp: trimmed_def space_lower py_lower_def hd_map last_map)

lemma scoped_Ok: "scoped v scope voc = Ok w \<Longrightarrow>
    w = v \<and> (\<exists>local. local \<noteq> [] \<and> v = local @ CHR ''@'' # scope \<and> (voc \<noteq> None \<longrightarrow> local \<in> the voc))"
  by (auto simp: scoped_def dest!: py_rpartition_split split: prod.splits if_splits)

lemma norm_mail_Ok:
  assumes "norm_mail v = Ok w"
  obtains local domain where "v = local @ CHR ''@'' # domain" "w = local @ CHR ''@'' # py_lower domain"
    "local \<noteq> []" "domain \<noteq> []" "CHR ''@'' \<notin> set domain"
  using assms by (auto simp: norm_mail_def dest!: py_rpartition_split split: prod.splits if_splits)

lemma lower_at: "CHR ''@'' \<in> set (py_lower d) \<longleftrightarrow> CHR ''@'' \<in> set d"
proof -
  have "py_lower_char c = CHR ''@'' \<longleftrightarrow> c = CHR ''@''" for c
  proof
    assume "py_lower_char c = CHR ''@''"
    then have "(of_char (py_lower_char c) :: nat) = 64" by simp
    then have "(of_char c :: nat) = 64" by (auto simp: py_lower_char_code Let_def split: if_splits)
    then show "c = CHR ''@''" using of_char_eq_iff[of c "CHR ''@''", where ?'a=nat] by simp
  qed (simp add: py_lower_char_def)
  then show ?thesis unfolding py_lower_def set_map image_iff by metis
qed

lemma normalize_value_stable:
  assumes "normalize_value name v scope = Ok w" and "trimmed v"
  shows "trimmed w \<and> normalize_value name w scope = Ok w"
proof -
  have v: "v \<noteq> []" using assms(1) by (auto simp: normalize_value_def split: if_splits)
  have low: "py_lower v \<noteq> []" "trimmed (py_lower v)" using v assms(2) by (simp_all add: trimmed_lower)
  show ?thesis
  proof (cases "name = EPPN \<or> name = SCOPED_AFFILIATION")
    case True
    then obtain voc where "scoped (py_lower v) scope voc = Ok w"
      using assms(1) v by (cases "name = EPPN") (simp_all add: normalize_value_def)
    then have "w = py_lower v" using scoped_Ok by blast
    then show ?thesis using True assms(1) low v by (cases "name = EPPN") (simp_all add: normalize_value_def)
  next
    case f1: False
    show ?thesis
    proof (cases "name = AFFILIATION \<or> name = PRIMARY_AFFILIATION")
      case True
      then have "w = py_lower v" "w \<in> AFFILIATION_VOCABULARY"
        using assms(1) v f1 by (auto simp: normalize_value_def split: if_splits)
      then show ?thesis using True f1 low v by (simp add: normalize_value_def)
    next
      case f2: False
      show ?thesis
      proof (cases "name = MAIL")
        case True
        then have "norm_mail v = Ok w" using assms(1) v f1 f2 by (simp add: normalize_value_def)
        then obtain l d where ld: "v = l @ CHR ''@'' # d" "w = l @ CHR ''@'' # py_lower d" "l \<noteq> []" "d \<noteq> []"
            "CHR ''@'' \<notin> set d" by (rule norm_mail_Ok)
        have "norm_mail w = Ok w" using ld lower_at[of d] by (simp add: norm_mail_def)
        moreover have "trimmed w"
          using assms(2) ld by (auto simp: trimmed_def py_lower_def last_map space_lower)
        ultimately show ?thesis using True f1 f2 ld(2,3) by (simp add: normalize_value_def)
      next
        case False
        then have "w = v" using assms(1) v f1 f2 by (simp add: normalize_value_def)
        then show ?thesis using assms by simp
      qed
    qed
  qed
qed

lemma normalize_values_kept:
  "v \<in> set (fst (normalize_values name scope kept raws)) \<longleftrightarrow>
     v \<in> set kept \<or> (\<exists>raw\<in>set raws. normalize_value name (py_strip raw) scope = Ok v)"
  by (induction raws arbitrary: kept) (auto simp: Let_def case_prod_beta split: sum.splits)

lemma normalize_values_distinct:
  "distinct kept \<Longrightarrow> distinct (fst (normalize_values name scope kept raws))"
  by (induction raws arbitrary: kept) (auto simp: Let_def case_prod_beta split: sum.splits)

lemma normalize_in:
  "(name, vs) \<in> set (fst (normalize scope as)) \<Longrightarrow>
     \<exists>raws. (name, raws) \<in> set as \<and> vs = fst (normalize_values name scope [] raws) \<and> vs \<noteq> []"
proof (induction as)
  case (Cons a as)
  then show ?case by (cases a) (auto simp: Let_def case_prod_beta split: if_splits)
qed simp

lemma normalize_values_fixed:
  "(\<And>v. v \<in> set vs \<Longrightarrow> trimmed v \<and> normalize_value name v scope = Ok v) \<Longrightarrow> distinct (kept @ vs) \<Longrightarrow>
     normalize_values name scope kept vs = (kept @ vs, [])"
proof (induction vs arbitrary: kept)
  case (Cons v vs)
  have "py_strip v = v" "normalize_value name v scope = Ok v"
    using Cons.prems(1)[of v] strip_trimmed by simp_all
  then show ?case using Cons.IH[of "kept @ [v]"] Cons.prems by simp
qed simp

lemma normalized_stable:
  assumes "(name, vs) \<in> set (fst (normalize scope as))"
  shows "normalize_values name scope [] vs = (vs, [])"
proof -
  obtain raws where r: "vs = fst (normalize_values name scope [] raws)" using normalize_in[OF assms] by blast
  have "trimmed v \<and> normalize_value name v scope = Ok v" if v: "v \<in> set vs" for v
  proof -
    obtain raw where "normalize_value name (py_strip raw) scope = Ok v"
      using v normalize_values_kept[of v name scope "[]" raws] by (auto simp: r)
    then show ?thesis using normalize_value_stable trimmed_strip by blast
  qed
  then show ?thesis
    using normalize_values_fixed[of vs name scope "[]"] normalize_values_distinct[of "[]" name scope raws] r by simp
qed

lemma normalize_fixed:
  "(\<And>name vs. (name, vs) \<in> set as \<Longrightarrow> vs \<noteq> [] \<and> normalize_values name scope [] vs = (vs, [])) \<Longrightarrow>
     normalize scope as = (as, [])"
proof (induction as)
  case (Cons a as)
  obtain name vs where a: "a = (name, vs)" by (cases a)
  have "vs \<noteq> [] \<and> normalize_values name scope [] vs = (vs, [])" using Cons.prems[of name vs] a by simp
  moreover have "normalize scope as = (as, [])" by (rule Cons.IH, rule Cons.prems) simp
  ultimately show ?case by (simp add: a)
qed simp

definition value_ok :: "string \<Rightarrow> string \<Rightarrow> string \<Rightarrow> bool" where
  "value_ok scope name v =
     (if name = EPPN then \<exists>local. local \<noteq> [] \<and> v = local @ CHR ''@'' # scope
      else if name = SCOPED_AFFILIATION then \<exists>local\<in>AFFILIATION_VOCABULARY. v = local @ CHR ''@'' # scope
      else if name = AFFILIATION \<or> name = PRIMARY_AFFILIATION then v \<in> AFFILIATION_VOCABULARY
      else v \<noteq> [])"

lemma normalize_value_ok:
  assumes "normalize_value name raw scope = Ok v"
  shows "value_ok scope name v"
proof (cases "name = MAIL")
  case True
  then have "norm_mail raw = Ok v" using assms by (auto simp: normalize_value_def attribute_names split: if_splits)
  then have "v \<noteq> []" by (auto elim: norm_mail_Ok)
  then show ?thesis using True by (simp add: value_ok_def attribute_names)
next
  case False
  then show ?thesis
    using assms by (auto simp: value_ok_def normalize_value_def split: if_splits dest!: scoped_Ok)
qed

text \<open>After normalisation every scoped value is scoped to this deployment and to nothing else,
  every affiliation is of the controlled vocabulary, no value is repeated and no attribute is empty;
  normalising again changes nothing and drops nothing.\<close>

theorem normalize_safe_idempotent:
  "normalize scope (fst (normalize scope as)) = (fst (normalize scope as), []) \<and>
   list_all (\<lambda>(name, vs). vs \<noteq> [] \<and> distinct vs \<and> list_all (\<lambda>v. value_ok scope name v) vs) (fst (normalize scope as))"
proof
  show "normalize scope (fst (normalize scope as)) = (fst (normalize scope as), [])"
    using normalize_in normalized_stable by (intro normalize_fixed) blast
  show "list_all (\<lambda>(name, vs). vs \<noteq> [] \<and> distinct vs \<and> list_all (\<lambda>v. value_ok scope name v) vs) (fst (normalize scope as))"
    unfolding list_all_iff
  proof (clarify, intro conjI)
    fix name vs
    assume "(name, vs) \<in> set (fst (normalize scope as))"
    then obtain raws where r: "vs = fst (normalize_values name scope [] raws)" "vs \<noteq> []"
      using normalize_in by blast
    show "vs \<noteq> []" by (rule r(2))
    show "distinct vs" using r(1) normalize_values_distinct by simp
    show "\<forall>v\<in>set vs. value_ok scope name v"
      using r(1) normalize_values_kept[of _ name scope "[]" raws] normalize_value_ok by auto
  qed
qed

end
