(* ===== verification/ReloadingStore.thy ===== *)
theory ReloadingStore
  imports Prelude
begin

text \<open>
  The stores that hold a validated configuration file and reload it when its modification time
  changes, keeping what worked when the new file does not (\<open>RulesStore\<close> of
  \<open>campusid/lifecycle/rules.py\<close>).

  Reading the file is split as the source splits it: the contents are read and validated first and
  the modification time is asked for afterwards, so both are arguments and may come from different
  moments.
\<close>

record ('c, 'f) store =
  st_current :: 'c
  st_fingerprint :: "'f option"

definition store_reload ::
  "('e, 'c) result \<Rightarrow> 'f option \<Rightarrow> ('c, 'f) store \<Rightarrow> ('c, 'f) store" where
  "store_reload loaded mtime st = (case loaded of
       Inl e \<Rightarrow> st | Inr c \<Rightarrow> \<lparr>st_current = c, st_fingerprint = mtime\<rparr>)"

definition store_init :: "'c \<Rightarrow> ('e, 'c) result \<Rightarrow> 'f option \<Rightarrow> ('c, 'f) store" where
  "store_init blank loaded mtime = store_reload loaded mtime \<lparr>st_current = blank, st_fingerprint = None\<rparr>"

definition store_changed :: "'f option \<Rightarrow> ('c, 'f) store \<Rightarrow> bool" where
  "store_changed mtime st = (mtime \<noteq> st_fingerprint st)"

text \<open>The \<open>current\<close> property: a first look at the modification time, and a reload if it differs.\<close>

definition store_read ::
  "'f option \<Rightarrow> ('e, 'c) result \<Rightarrow> 'f option \<Rightarrow> ('c, 'f) store \<Rightarrow> ('c, 'f) store" where
  "store_read seen loaded mtime st = (if store_changed seen st then store_reload loaded mtime st else st)"

text \<open>A run of reads, each with what it found on disk.\<close>

fun store_run :: "('f option \<times> ('e, 'c) result \<times> 'f option) list \<Rightarrow> ('c, 'f) store \<Rightarrow> ('c, 'f) store" where
  "store_run [] st = st"
| "store_run ((seen, loaded, mtime) # rest) st = store_run rest (store_read seen loaded mtime st)"

text \<open>What a loader promises its store: what it returns is well formed.\<close>

locale validated_loader =
  fixes load :: "'doc \<Rightarrow> ('e, 'c) result" and ok :: "'c \<Rightarrow> bool" and blank :: 'c
  assumes load_ok: "load d = Ok c \<Longrightarrow> ok c"
    and blank_ok: "ok blank"
begin

lemma reload_ok: "ok (st_current st) \<Longrightarrow> ok (st_current (store_reload (load d) mtime st))"
  by (auto simp: store_reload_def load_ok split: sum.splits)

lemma init_ok: "ok (st_current (store_init blank (load d) mtime))"
  unfolding store_init_def by (rule reload_ok) (simp add: blank_ok)

lemma run_ok:
  "ok (st_current st) \<Longrightarrow> \<forall>e\<in>set events. \<exists>d. fst (snd e) = load d \<Longrightarrow> ok (st_current (store_run events st))"
proof (induction events st rule: store_run.induct)
  case (2 seen loaded mtime rest st)
  then obtain d where "loaded = load d" by auto
  then have "ok (st_current (store_read seen loaded mtime st))"
    using 2(2) by (simp add: store_read_def reload_ok)
  then show ?case using 2 by simp
qed simp

lemma last_known_good:
  assumes "\<forall>e\<in>set events. \<exists>err. fst (snd e) = Err err"
  shows "store_run events st = st"
  using assms
  by (induction events st rule: store_run.induct) (auto simp: store_read_def store_reload_def)

end

end
