(* ===== verification/LifecycleRules.thy ===== *)
theory LifecycleRules
  imports ReleasePolicy ReloadingStore
begin

text \<open>
  Affiliation transition rules (\<open>campusid/lifecycle/rules.py\<close>): what affiliations entitle a person to,
  the delta of a change of affiliations, the validation of a rules file and the store that holds it.

  A date is its day number.  The catalogue, a dict built in file order, is the list of its
  entitlements; validation sees the parsed document.  A \<open>LifecycleRulesError\<close> is \<open>RulesError\<close>; the
  \<open>TypeError\<close> that an unhashable or unorderable document element raises, and nothing catches, is
  \<open>TypeErrorR\<close>.
\<close>

section \<open>Rules\<close>

definition CLASSIFICATIONS :: "string set" where
  "CLASSIFICATIONS = {''public'', ''directory'', ''internal'', ''restricted''}"

definition MAX_GRACE_DAYS :: int where "MAX_GRACE_DAYS = 365"

datatype rules_error = RulesError | TypeErrorR

record entitlement =
  en_urn :: string
  en_display_name :: string
  en_classification :: string
  en_grace_days :: int
  en_requires_aal2 :: bool

record lrule =
  lr_id :: string
  lr_affiliations :: "string set"
  lr_grants :: "string list"

record grant =
  g_urn :: string
  g_rule_id :: string
  g_affiliation :: string

record revocation =
  rv_urn :: string
  rv_effective :: int
  rv_grace_days :: int

record delta =
  dl_granted :: "grant list"
  dl_retained :: "grant list"
  dl_revoked :: "revocation list"

record lifecycle_rules =
  lf_entitlements :: "entitlement list"
  lf_rules :: "lrule list"

definition delta_is_empty :: "delta \<Rightarrow> bool" where
  "delta_is_empty d = (dl_granted d = [] \<and> dl_revoked d = [])"

definition delta_immediate :: "delta \<Rightarrow> revocation list" where
  "delta_immediate d = filter (\<lambda>r. rv_grace_days r = 0) (dl_revoked d)"

definition delta_deferred :: "delta \<Rightarrow> revocation list" where
  "delta_deferred d = filter (\<lambda>r. rv_grace_days r > 0) (dl_revoked d)"

section \<open>Transitions\<close>

definition find_entitlement :: "lifecycle_rules \<Rightarrow> string \<Rightarrow> entitlement option" where
  "find_entitlement L urn = find (\<lambda>e. en_urn e = urn) (lf_entitlements L)"

text \<open>\<open>sorted(rule.affiliations & affiliations)\<close>, the person's affiliations given as a list.\<close>

definition common_affiliations :: "lrule \<Rightarrow> string list \<Rightarrow> string list" where
  "common_affiliations r as = sorted_set (filter (\<lambda>a. a \<in> lr_affiliations r) as)"

definition grants_for :: "lifecycle_rules \<Rightarrow> string list \<Rightarrow> grant list" where
  "grants_for L as = concat (map (\<lambda>r. concat (map (\<lambda>a.
     map (\<lambda>u. \<lparr>g_urn = u, g_rule_id = lr_id r, g_affiliation = a\<rparr>) (lr_grants r))
     (common_affiliations r as))) (lf_rules L))"

definition revocation_of :: "lifecycle_rules \<Rightarrow> string \<Rightarrow> int \<Rightarrow> revocation" where
  "revocation_of L urn today =
     (let grace = (case find_entitlement L urn of Some e \<Rightarrow> en_grace_days e | None \<Rightarrow> 0) in
      \<lparr>rv_urn = urn, rv_effective = today + grace, rv_grace_days = grace\<rparr>)"

definition transition :: "lifecycle_rules \<Rightarrow> string list \<Rightarrow> string list \<Rightarrow> int \<Rightarrow> delta" where
  "transition L before after today =
     (let held = map g_urn (grants_for L before); now = grants_for L after in
      \<lparr>dl_granted = filter (\<lambda>g. g_urn g \<notin> set held) now,
       dl_retained = filter (\<lambda>g. g_urn g \<in> set held) now,
       dl_revoked = map (\<lambda>u. revocation_of L u today)
         (sorted_set (filter (\<lambda>u. u \<notin> g_urn ` set now) held))\<rparr>)"

section \<open>Loading\<close>

definition dict_get_default :: "dict \<Rightarrow> string \<Rightarrow> pyval \<Rightarrow> pyval" where
  "dict_get_default d k v = (case map_of d k of None \<Rightarrow> v | Some w \<Rightarrow> w)"

fun hashable :: "pyval \<Rightarrow> bool" where
  "hashable (PList _) = False"
| "hashable (PDict _) = False"
| "hashable _ = True"

definition parse_entitlement :: "string list \<Rightarrow> pyval \<Rightarrow> (rules_error, entitlement) result" where
  "parse_entitlement seen entry = (case entry of
       PDict d \<Rightarrow> (case dict_get d ''urn'' of
           PStr urn \<Rightarrow>
             if \<not> starts_with urn ''urn:'' then Err RulesError
             else if urn \<in> set seen then Err RulesError
             else let classification = dict_get_default d ''classification'' (PStr ''internal'') in
               if \<not> hashable classification then Err TypeErrorR
               else if classification \<notin> PStr ` CLASSIFICATIONS then Err RulesError
               else (case dict_get_default d ''grace_days'' (PInt 0) of
                   PInt grace \<Rightarrow>
                     if grace < 0 then Err RulesError
                     else if grace > MAX_GRACE_DAYS then Err RulesError
                     else (case dict_get d ''display_name'' of
                         PStr name \<Rightarrow>
                           if name = [] then Err RulesError
                           else Ok \<lparr>en_urn = urn, en_display_name = name,
                             en_classification = (case classification of PStr c \<Rightarrow> c | _ \<Rightarrow> []),
                             en_grace_days = grace,
                             en_requires_aal2 = py_truthy (dict_get_default d ''requires_aal2'' (PBool False))\<rparr>
                       | _ \<Rightarrow> Err RulesError)
                 | _ \<Rightarrow> Err RulesError)
         | _ \<Rightarrow> Err RulesError)
     | _ \<Rightarrow> Err RulesError)"

fun parse_entitlements :: "string list \<Rightarrow> pyval list \<Rightarrow> (rules_error, entitlement list) result" where
  "parse_entitlements seen [] = Ok []"
| "parse_entitlements seen (entry # rest) = (case parse_entitlement seen entry of Inl e \<Rightarrow> Err e
     | Inr en \<Rightarrow> (case parse_entitlements (en_urn en # seen) rest of Inl e \<Rightarrow> Err e | Inr ens \<Rightarrow> Ok (en # ens)))"

text \<open>\<open>sorted(unknown)\<close> in the error message raises when the elements cannot be ordered.\<close>

definition orderable :: "pyval list \<Rightarrow> bool" where
  "orderable vs = (length (remdups vs) \<le> 1 \<or> list_all is_str vs \<or>
     list_all (\<lambda>v. is_int v \<or> (case v of PFloat _ _ \<Rightarrow> True | _ \<Rightarrow> False)) vs)"

definition strings_of :: "pyval list \<Rightarrow> string list" where
  "strings_of vs = List.map_filter (\<lambda>v. case v of PStr s \<Rightarrow> Some s | _ \<Rightarrow> None) vs"

definition check_affiliations :: "pyval \<Rightarrow> (rules_error, string list) result" where
  "check_affiliations v = (case v of
       PList as \<Rightarrow>
         if as = [] then Err RulesError
         else if \<not> list_all hashable as then Err TypeErrorR
         else let unknown = filter (\<lambda>a. a \<notin> PStr ` AFFILIATION_VOCABULARY) as in
           if unknown \<noteq> [] then Err (if orderable unknown then RulesError else TypeErrorR)
           else Ok (strings_of as)
     | _ \<Rightarrow> Err RulesError)"

definition check_grants :: "entitlement list \<Rightarrow> pyval \<Rightarrow> (rules_error, string list) result" where
  "check_grants catalogue v = (case v of
       PList gs \<Rightarrow>
         if \<not> list_all hashable gs then Err TypeErrorR
         else if \<exists>g\<in>set gs. g \<notin> PStr ` set (map en_urn catalogue) then Err RulesError
         else Ok (strings_of gs)
     | _ \<Rightarrow> Err RulesError)"

definition parse_lrule :: "entitlement list \<Rightarrow> string list \<Rightarrow> pyval \<Rightarrow> (rules_error, lrule) result" where
  "parse_lrule catalogue seen entry = (case entry of
       PDict d \<Rightarrow> (case dict_get d ''id'' of
           PStr rule_id \<Rightarrow>
             if rule_id = [] then Err RulesError
             else if rule_id \<in> set seen then Err RulesError
             else rbind (check_affiliations (dict_get d ''affiliations'')) (\<lambda>affs.
               rbind (check_grants catalogue (dict_get d ''grants'')) (\<lambda>gs.
                 Ok \<lparr>lr_id = rule_id, lr_affiliations = set affs, lr_grants = gs\<rparr>))
         | _ \<Rightarrow> Err RulesError)
     | _ \<Rightarrow> Err RulesError)"

fun parse_lrules :: "entitlement list \<Rightarrow> string list \<Rightarrow> pyval list \<Rightarrow> (rules_error, lrule list) result" where
  "parse_lrules catalogue seen [] = Ok []"
| "parse_lrules catalogue seen (entry # rest) = (case parse_lrule catalogue seen entry of Inl e \<Rightarrow> Err e
     | Inr r \<Rightarrow> (case parse_lrules catalogue (lr_id r # seen) rest of Inl e \<Rightarrow> Err e | Inr rs \<Rightarrow> Ok (r # rs)))"

definition nonempty_list :: "pyval \<Rightarrow> (rules_error, pyval list) result" where
  "nonempty_list v = (case v of PList l \<Rightarrow> if l = [] then Err RulesError else Ok l | _ \<Rightarrow> Err RulesError)"

text \<open>\<open>load_rules\<close>, given the parsed document or the failure to read it.\<close>

definition load_rules :: "pyval option \<Rightarrow> (rules_error, lifecycle_rules) result" where
  "load_rules document = (case document of
       Some (PDict d) \<Rightarrow>
         rbind (nonempty_list (dict_get d ''entitlements'')) (\<lambda>raw.
         rbind (parse_entitlements [] raw) (\<lambda>catalogue.
         rbind (nonempty_list (dict_get d ''rules'')) (\<lambda>raw_rules.
         rbind (parse_lrules catalogue [] raw_rules) (\<lambda>rules.
           Ok \<lparr>lf_entitlements = catalogue, lf_rules = rules\<rparr>))))
     | _ \<Rightarrow> Err RulesError)"

definition no_rules :: lifecycle_rules where
  "no_rules = \<lparr>lf_entitlements = [], lf_rules = []\<rparr>"

text \<open>\<open>RulesStore.current\<close>: what the caller gets, and the store afterwards.  Only a rejected file is
  survived; another exception reaches the caller.\<close>

definition rules_current ::
  "nat option \<Rightarrow> pyval option \<Rightarrow> nat option \<Rightarrow> (lifecycle_rules, nat) store \<Rightarrow>
     (rules_error, lifecycle_rules) result \<times> (lifecycle_rules, nat) store" where
  "rules_current seen document mtime st =
     (if store_changed seen st \<and> load_rules document = Err TypeErrorR then (Err TypeErrorR, st)
      else let st' = store_read seen (load_rules document) mtime st in (Ok (st_current st'), st'))"

section \<open>What a loaded file satisfies\<close>

definition entitlement_ok :: "entitlement \<Rightarrow> bool" where
  "entitlement_ok e = (starts_with (en_urn e) ''urn:'' \<and> en_classification e \<in> CLASSIFICATIONS \<and>
     0 \<le> en_grace_days e \<and> en_grace_days e \<le> MAX_GRACE_DAYS \<and> en_display_name e \<noteq> [])"

definition lrule_ok :: "entitlement list \<Rightarrow> lrule \<Rightarrow> bool" where
  "lrule_ok catalogue r = (lr_id r \<noteq> [] \<and> lr_affiliations r \<noteq> {} \<and> lr_affiliations r \<subseteq> AFFILIATION_VOCABULARY \<and>
     set (lr_grants r) \<subseteq> en_urn ` set catalogue)"

definition rules_ok :: "lifecycle_rules \<Rightarrow> bool" where
  "rules_ok L = (distinct (map en_urn (lf_entitlements L)) \<and> list_all entitlement_ok (lf_entitlements L) \<and>
     distinct (map lr_id (lf_rules L)) \<and> list_all (lrule_ok (lf_entitlements L)) (lf_rules L))"

lemma parse_entitlement_Ok:
  "parse_entitlement seen entry = Ok e \<Longrightarrow> entitlement_ok e \<and> en_urn e \<notin> set seen"
  by (auto simp: parse_entitlement_def entitlement_ok_def Let_def split: pyval.splits if_splits)

lemma parse_entitlements_Ok:
  "parse_entitlements seen raw = Ok es \<Longrightarrow>
     list_all entitlement_ok es \<and> distinct (map en_urn es) \<and> set (map en_urn es) \<inter> set seen = {}"
proof (induction raw arbitrary: seen es)
  case (Cons entry rest)
  then obtain e es' where e: "parse_entitlement seen entry = Ok e" "es = e # es'"
      "parse_entitlements (en_urn e # seen) rest = Ok es'"
    by (auto split: sum.splits)
  from Cons.IH[OF e(3)] parse_entitlement_Ok[OF e(1)] show ?case using e(2) by auto
qed simp

lemma strings_of_PStr: "set vs \<subseteq> PStr ` S \<Longrightarrow> set (strings_of vs) \<subseteq> S \<and> (vs \<noteq> [] \<longrightarrow> strings_of vs \<noteq> [])"
  by (induction vs) (auto simp: strings_of_def map_filter_simps)

lemma check_affiliations_Ok:
  "check_affiliations v = Ok affs \<Longrightarrow> affs \<noteq> [] \<and> set affs \<subseteq> AFFILIATION_VOCABULARY"
proof -
  assume "check_affiliations v = Ok affs"
  then obtain as where as: "as \<noteq> []" "filter (\<lambda>a. a \<notin> PStr ` AFFILIATION_VOCABULARY) as = []" "affs = strings_of as"
    by (auto simp: check_affiliations_def Let_def split: pyval.splits if_splits)
  have "set as \<subseteq> PStr ` AFFILIATION_VOCABULARY" using as(2) by (auto simp: filter_empty_conv)
  from strings_of_PStr[OF this] show ?thesis using as(1,3) by simp
qed

lemma check_grants_Ok: "check_grants cat v = Ok gs \<Longrightarrow> set gs \<subseteq> en_urn ` set cat"
proof -
  assume "check_grants cat v = Ok gs"
  then obtain l where "\<not> (\<exists>g\<in>set l. g \<notin> PStr ` set (map en_urn cat))" "gs = strings_of l"
    unfolding check_grants_def by (cases v) (auto split: if_splits)
  then have l: "set l \<subseteq> PStr ` (en_urn ` set cat)" "gs = strings_of l" by auto
  then show ?thesis using strings_of_PStr by blast
qed

lemma parse_lrule_Ok: "parse_lrule cat seen entry = Ok r \<Longrightarrow> lrule_ok cat r \<and> lr_id r \<notin> set seen"
  by (auto simp: parse_lrule_def lrule_ok_def rbind_eq_Ok dest!: check_affiliations_Ok check_grants_Ok
      split: pyval.splits if_splits)

lemma parse_lrules_Ok:
  "parse_lrules cat seen raw = Ok rs \<Longrightarrow>
     list_all (lrule_ok cat) rs \<and> distinct (map lr_id rs) \<and> set (map lr_id rs) \<inter> set seen = {}"
proof (induction raw arbitrary: seen rs)
  case (Cons entry rest)
  then obtain r rs' where r: "parse_lrule cat seen entry = Ok r" "rs = r # rs'"
      "parse_lrules cat (lr_id r # seen) rest = Ok rs'"
    by (auto split: sum.splits)
  from Cons.IH[OF r(3)] parse_lrule_Ok[OF r(1)] show ?case using r(2) by auto
qed simp

lemma load_rules_ok: "load_rules document = Ok L \<Longrightarrow> rules_ok L"
  by (auto simp: load_rules_def rules_ok_def rbind_eq_Ok dest!: parse_entitlements_Ok parse_lrules_Ok
      split: option.splits pyval.splits)

interpretation rules_loader: validated_loader load_rules rules_ok no_rules
proof
  show "rules_ok L" if "load_rules d = Ok L" for d L using that by (rule load_rules_ok)
  show "rules_ok no_rules" by (simp add: rules_ok_def no_rules_def)
qed

section \<open>Properties\<close>


definition sample_rules :: lifecycle_rules where
  "sample_rules = \<lparr>lf_entitlements = [
      \<lparr>en_urn = ''urn:lms'', en_display_name = ''LMS'', en_classification = ''internal'', en_grace_days = 30, en_requires_aal2 = False\<rparr>,
      \<lparr>en_urn = ''urn:mail'', en_display_name = ''Mail'', en_classification = ''internal'', en_grace_days = 0, en_requires_aal2 = False\<rparr>],
    lf_rules = [\<lparr>lr_id = ''s'', lr_affiliations = {''student''}, lr_grants = [''urn:lms'', ''urn:mail'']\<rparr>,
      \<lparr>lr_id = ''a'', lr_affiliations = {''alum''}, lr_grants = [''urn:mail'']\<rparr>]\<rparr>"


text \<open>The rules store never serves an unvalidated file: over any sequence of reads, whatever is on
  disk at each, the rules it holds are well formed (every grant declared, identifiers unique,
  affiliations of the vocabulary, grace periods within a year); and while every read finds a file it
  rejects, it keeps the rules it had.\<close>

theorem rules_store_sound:
  assumes "\<forall>e\<in>set events. \<exists>document. fst (snd e) = load_rules document"
  shows "rules_ok (st_current (store_run events (store_init no_rules (load_rules first) mtime))) \<and>
     (if list_all (\<lambda>e. \<exists>err. fst (snd e) = Err err) events
      then store_run events (store_init no_rules (load_rules first) mtime) = store_init no_rules (load_rules first) mtime
      else True)"
  using rules_loader.run_ok[OF rules_loader.init_ok assms]
    rules_loader.last_known_good[of events "store_init no_rules (load_rules first) mtime"]
  by (simp add: list_all_iff)

theorem rules_store_sound_witness:
  "rules_ok (st_current (store_run [(Some 2, load_rules None, Some 2)] (store_init no_rules (load_rules None) (Some (1 :: nat)))))"
  using rules_store_sound[of "[(Some 2, load_rules None, Some 2)]" None "Some 1"] by fastforce

text \<open>An edit between reading the file and reading its modification time is missed: the store
  records the new time for the old rules, and from then on sees no change while the file on disk says
  something else.\<close>

theorem reload_race_keeps_stale_rules:
  assumes "load_rules old = Ok L" and "load_rules new = Ok L'"
  shows "\<exists>st. rules_current (Some 2) old (Some 3) \<lparr>st_current = no_rules, st_fingerprint = Some 1\<rparr> = (Ok L, st) \<and>
     rules_current (Some 3) new (Some 3) st = (Ok L, st)"
  using assms by (simp add: rules_current_def store_read_def store_changed_def store_reload_def Let_def)

definition sample_document :: "string \<Rightarrow> pyval" where
  "sample_document urn = PDict [
     (''entitlements'', PList [PDict [(''urn'', PStr urn), (''display_name'', PStr ''LMS'')]]),
     (''rules'', PList [PDict [(''id'', PStr ''r''), (''affiliations'', PList [PStr ''student'']), (''grants'', PList [PStr urn])]])]"

lemma sample_document_loads:
  "starts_with urn ''urn:'' \<Longrightarrow> load_rules (Some (sample_document urn)) = Ok \<lparr>lf_entitlements = [\<lparr>en_urn = urn,
     en_display_name = ''LMS'', en_classification = ''internal'', en_grace_days = 0, en_requires_aal2 = False\<rparr>],
     lf_rules = [\<lparr>lr_id = ''r'', lr_affiliations = {''student''}, lr_grants = [urn]\<rparr>]\<rparr>"
  by (simp add: load_rules_def sample_document_def dict_get_def nonempty_list_def parse_entitlement_def Let_def
      dict_get_default_def CLASSIFICATIONS_def MAX_GRACE_DAYS_def parse_lrule_def check_affiliations_def
      AFFILIATION_VOCABULARY_def check_grants_def strings_of_def map_filter_simps)

theorem reload_race_keeps_stale_rules_witness:
  "\<exists>st. rules_current (Some 3) (Some (sample_document ''urn:b'')) (Some 3) st =
      (load_rules (Some (sample_document ''urn:a'')), st)"
  using reload_race_keeps_stale_rules[OF sample_document_loads[of "''urn:a''"] sample_document_loads[of "''urn:b''"]]
  by (auto simp: sample_document_loads starts_with_def)

end
