(* ===== verification/Retry.thy ===== *)
theory Retry
  imports Prelude
begin

text \<open>
  Retrying a downstream write (\<open>campusid/lifecycle/retry.py\<close>).

  The operation is a function of the attempt number that answers with a value, a failure of a kind
  \<open>retry_on\<close> covers, or another exception.  Delays are milliseconds.  The jitter draws its number from
  a parameter \<open>uniform\<close>; a result carries the waits that were made, in order.
\<close>

definition MAX_ATTEMPTS :: nat where "MAX_ATTEMPTS = 5"
definition BASE_DELAY :: nat where "BASE_DELAY = 500"
definition MAX_DELAY :: nat where "MAX_DELAY = 8000"

datatype 'a outcome = Returned 'a | Transient string | Fatal string

record attempt =
  at_number :: nat
  at_error :: string

datatype retry_error = RetriesExhausted "attempt list" | Raised string | IndexError

definition backoff :: "nat \<Rightarrow> nat" where
  "backoff n = (if n \<le> 1 then 0 else min (BASE_DELAY * 2 ^ (n - 2)) MAX_DELAY)"

definition full_jitter :: "(nat \<Rightarrow> nat \<Rightarrow> nat) \<Rightarrow> nat \<Rightarrow> nat \<Rightarrow> nat" where
  "full_jitter uniform n delay = uniform n delay"

fun retry_loop ::
  "(nat \<Rightarrow> nat \<Rightarrow> nat) \<Rightarrow> (nat \<Rightarrow> 'a outcome) \<Rightarrow> nat list \<Rightarrow> attempt list \<Rightarrow> nat list \<Rightarrow>
     (retry_error, 'a) result \<times> nat list" where
  "retry_loop uniform f [] history waits =
     ((if history = [] then Err IndexError else Err (RetriesExhausted history)), waits)"
| "retry_loop uniform f (n # ns) history waits =
     (let delay = full_jitter uniform n (backoff n); waits' = (if delay = 0 then waits else waits @ [delay]) in
      case f n of
        Returned a \<Rightarrow> (Ok a, waits')
      | Transient e \<Rightarrow> retry_loop uniform f ns (history @ [\<lparr>at_number = n, at_error = e\<rparr>]) waits'
      | Fatal e \<Rightarrow> (Err (Raised e), waits'))"

definition with_retries ::
  "(nat \<Rightarrow> nat \<Rightarrow> nat) \<Rightarrow> (nat \<Rightarrow> 'a outcome) \<Rightarrow> nat \<Rightarrow> (retry_error, 'a) result \<times> nat list" where
  "with_retries uniform f attempts = retry_loop uniform f [1..<Suc attempts] [] []"

section \<open>Properties\<close>

fun transient :: "'a outcome \<Rightarrow> bool" where
  "transient (Transient e) = True"
| "transient _ = False"

fun error_of :: "'a outcome \<Rightarrow> string" where
  "error_of (Transient e) = e"
| "error_of _ = []"

fun settled :: "'a outcome \<Rightarrow> (retry_error, 'a) result" where
  "settled (Returned a) = Ok a"
| "settled (Fatal e) = Err (Raised e)"
| "settled (Transient e) = Err (Raised e)"

definition all_failed :: "attempt list \<Rightarrow> (retry_error, 'a) result" where
  "all_failed history = (if history = [] then Err IndexError else Err (RetriesExhausted history))"

definition tried :: "(nat \<Rightarrow> 'a outcome) \<Rightarrow> nat list \<Rightarrow> attempt list" where
  "tried f ns = map (\<lambda>n. \<lparr>at_number = n, at_error = error_of (f n)\<rparr>) ns"

lemma retry_loop_result:
  "fst (retry_loop uniform f ns history waits) =
     (case find (\<lambda>n. \<not> transient (f n)) ns of
        Some n \<Rightarrow> settled (f n) | None \<Rightarrow> all_failed (history @ tried f ns))"
proof (induction ns arbitrary: history waits)
  case Nil
  show ?case by (simp add: all_failed_def tried_def)
next
  case (Cons n ns)
  show ?case
    by (cases "f n"; cases "find (\<lambda>n. \<not> transient (f n)) ns") (simp_all add: Let_def tried_def Cons.IH)
qed

lemma retry_loop_waits:
  assumes "\<And>n d. uniform n d \<le> d"
  shows "sum_list (snd (retry_loop uniform f ns history waits)) \<le> sum_list waits + sum_list (map backoff ns)"
proof (induction ns arbitrary: history waits)
  case (Cons n ns)
  have d: "full_jitter uniform n (backoff n) \<le> backoff n" using assms by (simp add: full_jitter_def)
  have "sum_list (snd (retry_loop uniform f ns h (if full_jitter uniform n (backoff n) = 0 then waits
      else waits @ [full_jitter uniform n (backoff n)]))) \<le> sum_list waits + backoff n + sum_list (map backoff ns)" for h
    using Cons.IH[of h "if full_jitter uniform n (backoff n) = 0 then waits else waits @ [full_jitter uniform n (backoff n)]"] d
    by (auto split: if_splits)
  note rest = this[unfolded add.assoc]
  show ?case using d rest by (cases "f n") (auto simp: Let_def add.assoc)
qed simp

text \<open>With at least one attempt the call always ends: it returns the first answer that is not a
  transient failure, or else reports every attempt made, numbered from one; and the waits in between
  add up to at most seven and a half seconds for the five attempts used, never the thirty announced.\<close>

theorem with_retries_exact:
  assumes "\<And>n d. uniform n d \<le> d" and "0 < attempts"
  shows "fst (with_retries uniform f attempts) =
     (case find (\<lambda>n. \<not> transient (f n)) [1..<Suc attempts] of
        Some n \<Rightarrow> settled (f n)
      | None \<Rightarrow> Err (RetriesExhausted (tried f [1..<Suc attempts]))) \<and>
     sum_list (snd (with_retries uniform f MAX_ATTEMPTS)) \<le> 7500"
proof
  show "fst (with_retries uniform f attempts) =
     (case find (\<lambda>n. \<not> transient (f n)) [1..<Suc attempts] of
        Some n \<Rightarrow> settled (f n)
      | None \<Rightarrow> Err (RetriesExhausted (tried f [1..<Suc attempts])))"
    using assms(2)
    by (simp add: with_retries_def retry_loop_result all_failed_def tried_def del: upt_Suc split: option.splits)
  have "sum_list (map backoff [1..<Suc MAX_ATTEMPTS]) = 7500"
    by (simp add: MAX_ATTEMPTS_def backoff_def BASE_DELAY_def MAX_DELAY_def upt_rec)
  then show "sum_list (snd (with_retries uniform f MAX_ATTEMPTS)) \<le> 7500"
    using retry_loop_waits[of uniform f "[1..<Suc MAX_ATTEMPTS]" "[]" "[]"] assms(1) by (simp add: with_retries_def)
qed

theorem with_retries_exact_witness:
  "fst (with_retries (\<lambda>n d. d) (\<lambda>n. if n < 3 then Transient ''busy'' else Returned n) 5) = Ok 3"
proof -
  have "[1..<Suc 5] = [1, 2, 3, 4, 5 :: nat]" by (simp add: upt_rec)
  then show ?thesis
    using with_retries_exact[of "\<lambda>n d. d" 5 "\<lambda>n. if n < 3 then Transient ''busy'' else Returned n"]
    by (simp del: upt_Suc)
qed

end
