(* ===== verification/JsonText.thy ===== *)
theory JsonText
  imports Prelude
begin

text \<open>
  The JSON text \<open>json.dumps(..., separators=(",", ":"), ensure_ascii=False)\<close> writes for a document, and
  the proof that a document without fractional numbers can be read off its text: the encoding is
  injective.  How Python prints a fractional number is a parameter \<open>float_repr\<close>.
\<close>

section \<open>Encoding\<close>

definition hex_digit :: "nat \<Rightarrow> char" where
  "hex_digit d = char_of (if d < 10 then 48 + d else 87 + d)"

definition json_escape :: "char \<Rightarrow> string" where
  "json_escape c = (let n = (of_char c :: nat) in
     if c = CHR 0x22 then [CHR 0x5C, CHR 0x22]
     else if c = CHR 0x5C then [CHR 0x5C, CHR 0x5C]
     else if n = 8 then [CHR 0x5C, CHR ''b''] else if n = 9 then [CHR 0x5C, CHR ''t'']
     else if n = 10 then [CHR 0x5C, CHR ''n''] else if n = 12 then [CHR 0x5C, CHR ''f'']
     else if n = 13 then [CHR 0x5C, CHR ''r'']
     else if n < 32 then [CHR 0x5C, CHR ''u'', CHR ''0'', CHR ''0'', hex_digit (n div 16), hex_digit (n mod 16)]
     else [c])"

definition json_string :: "string \<Rightarrow> string" where
  "json_string s = CHR 0x22 # concat (map json_escape s) @ [CHR 0x22]"

definition json_int :: "int \<Rightarrow> string" where
  "json_int i = (if i < 0 then CHR ''-'' # show_nat (nat (- i)) else show_nat (nat i))"

text \<open>After the first element of a list or the first member of an object: the remaining ones, each
  preceded by a comma, and the closing bracket.\<close>

fun json_text :: "(int \<Rightarrow> nat \<Rightarrow> string) \<Rightarrow> pyval \<Rightarrow> string"
  and json_rest :: "(int \<Rightarrow> nat \<Rightarrow> string) \<Rightarrow> pyval list \<Rightarrow> string"
  and json_members :: "(int \<Rightarrow> nat \<Rightarrow> string) \<Rightarrow> dict \<Rightarrow> string" where
  "json_text fr PNone = ''null''"
| "json_text fr (PBool b) = (if b then ''true'' else ''false'')"
| "json_text fr (PInt i) = json_int i"
| "json_text fr (PFloat m k) = fr m k"
| "json_text fr (PStr s) = json_string s"
| "json_text fr (PList []) = ''[]''"
| "json_text fr (PList (v # vs)) = CHR ''['' # json_text fr v @ json_rest fr vs"
| "json_text fr (PDict []) = ''{}''"
| "json_text fr (PDict ((k, v) # d)) = CHR ''{'' # json_string k @ CHR '':'' # json_text fr v @ json_members fr d"
| "json_rest fr [] = '']''"
| "json_rest fr (v # vs) = CHR '','' # json_text fr v @ json_rest fr vs"
| "json_members fr [] = ''}''"
| "json_members fr ((k, v) # d) = CHR '','' # json_string k @ CHR '':'' # json_text fr v @ json_members fr d"

fun no_floats :: "pyval \<Rightarrow> bool" where
  "no_floats (PFloat m k) = False"
| "no_floats (PList vs) = list_all no_floats vs"
| "no_floats (PDict d) = list_all (\<lambda>(k, v). no_floats v) d"
| "no_floats _ = True"

section \<open>Reading back\<close>

definition unhex :: "char \<Rightarrow> nat" where
  "unhex c = (let n = of_char c in if n < 58 then n - 48 else n - 87)"

lemma unhex_hex: "d < 16 \<Longrightarrow> unhex (hex_digit d) = d"
  by (simp add: unhex_def hex_digit_def)

lemma json_escape_head: "\<exists>x xs. json_escape c = x # xs \<and> x \<noteq> CHR 0x22"
  by (auto simp: json_escape_def Let_def)

text \<open>Reading one escaped character.\<close>

definition json_unescape :: "string \<Rightarrow> nat \<times> string" where
  "json_unescape t =
     (if hd t \<noteq> CHR 0x5C then (of_char (hd t), tl t)
      else let y = t ! 1 in
        if y = CHR ''u'' then (unhex (t ! 4) * 16 + unhex (t ! 5), drop 6 t)
        else (if y = CHR 0x22 then 0x22 else if y = CHR 0x5C then 0x5C else if y = CHR ''b'' then 8
              else if y = CHR ''t'' then 9 else if y = CHR ''n'' then 10 else if y = CHR ''f'' then 12 else 13, drop 2 t))"

lemma json_unescape_escape: "json_unescape (json_escape c @ s) = (of_char c, s)"
proof -
  let ?n = "of_char c :: nat"
  consider "c = CHR 0x22" | "c = CHR 0x5C" | "?n = 8" | "?n = 9" | "?n = 10" | "?n = 12" | "?n = 13"
    | (ctl) "?n < 32" "?n \<notin> {8, 9, 10, 12, 13}" | (plain) "32 \<le> ?n" "c \<noteq> CHR 0x22" "c \<noteq> CHR 0x5C"
    by force
  then show ?thesis
  proof cases
    case ctl
    then have "c \<noteq> CHR 0x22" "c \<noteq> CHR 0x5C" by auto
    moreover have "unhex (hex_digit (?n div 16)) * 16 + unhex (hex_digit (?n mod 16)) = ?n"
      using ctl(1) by (simp add: unhex_hex)
    ultimately show ?thesis using ctl by (simp add: json_escape_def json_unescape_def Let_def)
  next
    case plain
    then show ?thesis by (simp add: json_escape_def json_unescape_def Let_def)
  qed (auto simp: json_escape_def json_unescape_def Let_def)
qed

lemma json_escape_prefix_free:
  assumes "json_escape c @ s = json_escape d @ t"
  shows "c = d \<and> s = t"
proof -
  have "(of_char c :: nat, s) = (of_char d, t)"
    unfolding json_unescape_escape[of c s, symmetric] json_unescape_escape[of d t, symmetric] assms ..
  then show ?thesis by simp
qed

lemma json_escapes_inj:
  "concat (map json_escape s) @ CHR 0x22 # r = concat (map json_escape t) @ CHR 0x22 # u \<Longrightarrow> s = t \<and> r = u"
proof (induction s arbitrary: t)
  case Nil
  then show ?case using json_escape_head by (cases t) (auto, metis append_Cons list.inject)
next
  case (Cons c s)
  show ?case
  proof (cases t)
    case Nil
    then show ?thesis using Cons.prems json_escape_head[of c] by auto
  next
    case (Cons d t')
    then show ?thesis
      using Cons.prems Cons.IH[of t'] json_escape_prefix_free[of c _ d] by (auto simp: local.Cons)
  qed
qed

lemma json_string_inj: "json_string s @ r = json_string t @ u \<Longrightarrow> s = t \<and> r = u"
  using json_escapes_inj[of s r t u] by (simp add: json_string_def)

text \<open>What may follow a value inside a document.\<close>

definition delimited :: "string \<Rightarrow> bool" where
  "delimited r = (case r of [] \<Rightarrow> True | c # _ \<Rightarrow> c \<in> {CHR '','', CHR '']'', CHR ''}''})"

lemma delimited_simps [simp]:
  "delimited []" "delimited (CHR '','' # r)" "delimited (CHR '']'' # r)" "delimited (CHR ''}'' # r)"
  by (simp_all add: delimited_def)

lemma rest_delimited: "delimited (json_rest fr vs @ r)" "delimited (json_members fr d @ r)"
  by (cases vs; simp) (cases d; auto)

lemma digits_cut:
  assumes "\<forall>c\<in>set s. is_ascii_digit c" "\<forall>c\<in>set t. is_ascii_digit c" "delimited r" "delimited u" "s @ r = t @ u"
  shows "s = t \<and> r = u"
proof -
  have stop: "takeWhile is_ascii_digit (x @ y) = x" if "\<forall>c\<in>set x. is_ascii_digit c" "delimited y" for x y
    using that by (cases y) (auto simp: delimited_def is_ascii_digit_def takeWhile_append)
  have "s = t" using stop[OF assms(1,3)] stop[OF assms(2,4)] assms(5) by simp
  then show ?thesis using assms(5) by simp
qed

lemma json_int_inj:
  assumes "json_int i @ r = json_int j @ u" and "delimited r" and "delimited u"
  shows "i = j \<and> r = u"
proof -
  have d: "c \<noteq> CHR ''-''" if "is_ascii_digit c" for c using that by (auto simp: is_ascii_digit_def)
  have h: "hd (show_nat n @ x) \<noteq> CHR ''-''" for n x
    using show_nat_ne[of n] show_nat_digits[of n] d by (cases "show_nat n") auto
  have "(i < 0) = (j < 0)"
    using arg_cong[OF assms(1), of hd] h[of "nat i" r] h[of "nat j" u] by (auto simp: json_int_def split: if_splits)
  then have "show_nat (nat \<bar>i\<bar>) @ r = show_nat (nat \<bar>j\<bar>) @ u"
    using assms(1) by (auto simp: json_int_def split: if_splits)
  then have "show_nat (nat \<bar>i\<bar>) = show_nat (nat \<bar>j\<bar>)" "r = u"
    using digits_cut[OF show_nat_digits show_nat_digits assms(2,3)] by auto
  then show ?thesis using \<open>(i < 0) = (j < 0)\<close> show_nat_inj[of "nat \<bar>i\<bar>" "nat \<bar>j\<bar>"] by (auto split: if_splits)
qed

text \<open>The first character tells the kind of a value.\<close>

fun kind_char :: "pyval \<Rightarrow> char \<Rightarrow> bool" where
  "kind_char PNone c = (c = CHR ''n'')"
| "kind_char (PBool b) c = (c = (if b then CHR ''t'' else CHR ''f''))"
| "kind_char (PInt i) c = (c = CHR ''-'' \<or> is_ascii_digit c)"
| "kind_char (PFloat m k) c = True"
| "kind_char (PStr s) c = (c = CHR 0x22)"
| "kind_char (PList vs) c = (c = CHR ''['')"
| "kind_char (PDict d) c = (c = CHR ''{'')"

lemma json_text_head:
  assumes "no_floats v"
  shows "\<exists>c cs. json_text fr v = c # cs \<and> kind_char v c"
proof (cases v)
  case (PInt i)
  then show ?thesis
    using show_nat_ne[of "nat i"] show_nat_digits[of "nat i"]
    by (cases "show_nat (nat i)") (auto simp: json_int_def)
next
  case (PList vs)
  then show ?thesis by (cases vs) auto
next
  case (PDict d)
  then show ?thesis by (cases d) auto
qed (use assms in \<open>auto simp: json_string_def\<close>)

lemma kind_char_same:
  "kind_char v c \<Longrightarrow> kind_char w c \<Longrightarrow> no_floats v \<Longrightarrow> no_floats w \<Longrightarrow>
     (case v of PNone \<Rightarrow> w = PNone | PBool b \<Rightarrow> w = PBool b | PInt i \<Rightarrow> \<exists>j. w = PInt j | PFloat m k \<Rightarrow> False
      | PStr s \<Rightarrow> \<exists>t. w = PStr t | PList vs \<Rightarrow> \<exists>ws. w = PList ws | PDict d \<Rightarrow> \<exists>e. w = PDict e)"
  by (cases v; cases w) (auto simp: is_ascii_digit_def split: if_splits)

lemma json_text_kind:
  assumes "json_text fr v @ r = json_text fr w @ u" "no_floats v" "no_floats w"
  shows "case v of PNone \<Rightarrow> w = PNone | PBool b \<Rightarrow> w = PBool b | PInt i \<Rightarrow> \<exists>j. w = PInt j | PFloat m k \<Rightarrow> False
      | PStr s \<Rightarrow> \<exists>t. w = PStr t | PList vs \<Rightarrow> \<exists>ws. w = PList ws | PDict d \<Rightarrow> \<exists>e. w = PDict e"
proof -
  obtain c cs where c: "json_text fr v = c # cs" "kind_char v c" using json_text_head[OF assms(2)] by blast
  obtain d ds where d: "json_text fr w = d # ds" "kind_char w d" using json_text_head[OF assms(3)] by blast
  have "c = d" using assms(1) c(1) d(1) by simp
  then show ?thesis using kind_char_same[OF c(2) _ assms(2,3)] d(2) by simp
qed

lemma json_text_not_close:
  "no_floats v \<Longrightarrow> json_text fr v @ r \<noteq> CHR '']'' # u"
  using json_text_head[of v fr] by (cases v) (auto simp: is_ascii_digit_def)

lemma json_text_inj_aux:
  "json_text fr v @ r = json_text fr w @ u \<Longrightarrow> no_floats v \<Longrightarrow> no_floats w \<Longrightarrow> delimited r \<Longrightarrow> delimited u \<Longrightarrow>
     v = w \<and> r = u"
  "json_rest fr vs @ r = json_rest fr ws @ u \<Longrightarrow> list_all no_floats vs \<Longrightarrow> list_all no_floats ws \<Longrightarrow>
     vs = ws \<and> r = u"
  "json_members fr d @ r = json_members fr e @ u \<Longrightarrow> list_all (\<lambda>(k, v). no_floats v) d \<Longrightarrow>
     list_all (\<lambda>(k, v). no_floats v) e \<Longrightarrow> d = e \<and> r = u"
proof (induction fr v and fr vs and fr d arbitrary: w r u and ws r u and e r u
    rule: json_text_json_rest_json_members.induct)
  case (1 fr)
  then show ?case using json_text_kind[OF 1(1-3)] by simp
next
  case (2 fr b)
  then show ?case using json_text_kind[OF 2(1-3)] by simp
next
  case (3 fr i)
  then show ?case using json_text_kind[OF 3(1-3)] json_int_inj by auto
next
  case (5 fr s)
  obtain t where w: "w = PStr t" using json_text_kind[OF 5(1-3)] by (auto simp only: pyval.case)
  then have "json_string s @ r = json_string t @ u" using 5(1) by simp
  from json_string_inj[OF this] show ?case using w by simp
next
  case (6 fr)
  obtain ws where w: "w = PList ws" using json_text_kind[OF 6(1-3)] by (auto simp only: pyval.case)
  show ?case
  proof (cases ws)
    case (Cons x xs)
    have "CHR '']'' # r = json_text fr x @ json_rest fr xs @ u" using 6(1) w Cons by simp
    moreover have "no_floats x" using 6(3) w Cons by simp
    ultimately show ?thesis using json_text_not_close by metis
  qed (use 6 w in simp)
next
  case (7 fr v vs)
  obtain ws where w: "w = PList ws" using json_text_kind[OF 7(3-5)] by (auto simp only: pyval.case)
  show ?case
  proof (cases ws)
    case Nil
    then have "json_text fr v @ json_rest fr vs @ r = CHR '']'' # u" using 7(3) w by simp
    moreover have "no_floats v" using 7(4) by simp
    ultimately show ?thesis using json_text_not_close by metis
  next
    case (Cons x xs)
    have eq: "json_text fr v @ json_rest fr vs @ r = json_text fr x @ json_rest fr xs @ u"
      using 7(3) w Cons by simp
    have a: "v = x \<and> json_rest fr vs @ r = json_rest fr xs @ u"
      using 7(1)[OF eq] 7(4,5) w Cons rest_delimited(1) by simp
    from a have st: "json_rest fr vs @ r = json_rest fr xs @ u" by blast
    have b: "vs = xs \<and> r = u"
      by (rule 7(2)[OF st]) (use 7(4,5) w Cons in simp_all)
    show ?thesis using a b w Cons by simp
  qed
next
  case (8 fr)
  obtain e where w: "w = PDict e" using json_text_kind[OF 8(1-3)] by (auto simp only: pyval.case)
  show ?case
  proof (cases e)
    case (Cons x xs)
    then show ?thesis using 8 w by (cases x) (auto simp: json_string_def)
  qed (use 8 w in simp)
next
  case (9 fr k v d)
  obtain e where w: "w = PDict e" using json_text_kind[OF 9(3-5)] by (auto simp only: pyval.case)
  show ?case
  proof (cases e)
    case Nil
    then show ?thesis using 9(3) w by (simp add: json_string_def)
  next
    case (Cons x xs)
    obtain k' v' where x: "x = (k', v')" by (cases x)
    have "json_string k @ (CHR '':'' # json_text fr v @ json_members fr d @ r) =
        json_string k' @ (CHR '':'' # json_text fr v' @ json_members fr xs @ u)"
      using 9(3) w Cons x by simp
    from json_string_inj[OF this] have k: "k = k'"
      and eq: "json_text fr v @ json_members fr d @ r = json_text fr v' @ json_members fr xs @ u" by auto
    have a: "v = v' \<and> json_members fr d @ r = json_members fr xs @ u"
      using 9(1)[OF eq] 9(4,5) w Cons x rest_delimited(2) by simp
    from a have st: "json_members fr d @ r = json_members fr xs @ u" by blast
    have b: "d = xs \<and> r = u"
      by (rule 9(2)[OF st]) (use 9(4,5) w Cons x in simp_all)
    show ?thesis using a b w Cons x k by simp
  qed
next
  case (10 fr)
  then show ?case by (cases ws) simp_all
next
  case (11 fr v vs)
  show ?case
  proof (cases ws)
    case Nil
    then show ?thesis using 11(3) by simp
  next
    case (Cons x xs)
    have eq: "json_text fr v @ json_rest fr vs @ r = json_text fr x @ json_rest fr xs @ u"
      using 11(3) Cons by simp
    have a: "v = x \<and> json_rest fr vs @ r = json_rest fr xs @ u"
      using 11(1)[OF eq] 11(4,5) Cons rest_delimited(1) by simp
    from a have st: "json_rest fr vs @ r = json_rest fr xs @ u" by blast
    have b: "vs = xs \<and> r = u"
      by (rule 11(2)[OF st]) (use 11(4,5) Cons in simp_all)
    show ?thesis using a b Cons by simp
  qed
next
  case (12 fr)
  then show ?case by (cases e) auto
next
  case (13 fr k v d)
  show ?case
  proof (cases e)
    case Nil
    then show ?thesis using 13(3) by simp
  next
    case (Cons x xs)
    obtain k' v' where x: "x = (k', v')" by (cases x)
    have "json_string k @ (CHR '':'' # json_text fr v @ json_members fr d @ r) =
        json_string k' @ (CHR '':'' # json_text fr v' @ json_members fr xs @ u)"
      using 13(3) Cons x by simp
    from json_string_inj[OF this] have k: "k = k'"
      and eq: "json_text fr v @ json_members fr d @ r = json_text fr v' @ json_members fr xs @ u" by auto
    have a: "v = v' \<and> json_members fr d @ r = json_members fr xs @ u"
      using 13(1)[OF eq] 13(4,5) Cons x rest_delimited(2) by simp
    from a have st: "json_members fr d @ r = json_members fr xs @ u" by blast
    have b: "d = xs \<and> r = u"
      by (rule 13(2)[OF st]) (use 13(4,5) Cons x in simp_all)
    show ?thesis using a b Cons x k by simp
  qed
qed simp

lemma json_text_inj:
  "json_text fr v = json_text fr w \<Longrightarrow> no_floats v \<Longrightarrow> no_floats w \<Longrightarrow> v = w"
  using json_text_inj_aux(1)[of fr v "[]" w "[]"] by simp

end
