(* ===== verification/AuditChain.thy ===== *)
theory AuditChain
  imports JsonText
begin

text \<open>
  The audit hash chain (\<open>audit/chain.py\<close>): the canonical encoding of an event, the hash that links it
  to the event before it, and the verifier.  SHA-256 with its hexadecimal rendering is a parameter
  \<open>sha\<close> on texts, Python's rendering of fractional numbers a parameter \<open>fr\<close>.

  The central results: two trails that verify and end on the same hash hold the same events, unless
  the hashed texts of the two trails themselves exhibit a collision of \<open>sha\<close> or a preimage of the
  genesis constant; and an edited or removed event is reported at the place where it happened.
\<close>

section \<open>Timestamps\<close>

text \<open>The proleptic Gregorian date of a day counted from the first of January of year one, as the
  \<open>datetime\<close> module computes it: cycles of 400, 100, 4 and 1 years, then the month.\<close>

definition MONTH_DAYS :: "int list" where
  "MONTH_DAYS = [31, 28, 31, 30, 31, 30, 31, 31, 30, 31, 30, 31]"

fun month_of :: "bool \<Rightarrow> int list \<Rightarrow> int \<Rightarrow> int \<Rightarrow> int \<times> int" where
  "month_of leap [] m n = (m, n + 1)"
| "month_of leap (d # ds) m n = (let len = (if leap \<and> m = 2 then d + 1 else d) in
     if n < len then (m, n + 1) else month_of leap ds (m + 1) (n - len))"

definition civil :: "int \<Rightarrow> int \<times> int \<times> int" where
  "civil days =
     (let n400 = days div 146097; r400 = days mod 146097;
          n100 = r400 div 36524; r100 = r400 mod 36524;
          n4 = r100 div 1461; r4 = r100 mod 1461;
          n1 = r4 div 365; r1 = r4 mod 365;
          year = n400 * 400 + 1 + n100 * 100 + n4 * 4 + n1 in
      if n1 = 4 \<or> n100 = 4 then (year - 1, 12, 31)
      else (year, month_of (n1 = 3 \<and> (n4 \<noteq> 24 \<or> n100 = 3)) MONTH_DAYS 1 r1))"

definition padded :: "nat \<Rightarrow> int \<Rightarrow> string" where
  "padded width i = (let s = show_nat (nat i) in replicate (width - length s) (CHR ''0'') @ s)"

text \<open>\<open>strftime("%Y-%m-%dT%H:%M:%S.%f+00:00")\<close> of an instant in microseconds since 1970.\<close>

definition timestamp :: "int \<Rightarrow> string" where
  "timestamp us =
     (let secs = us div 1000000; (y, mo, d) = civil (secs div 86400 + 719162); t = secs mod 86400 in
      padded 1 y @ ''-'' @ padded 2 mo @ ''-'' @ padded 2 d @ ''T'' @ padded 2 (t div 3600) @ '':'' @
      padded 2 (t div 60 mod 60) @ '':'' @ padded 2 (t mod 60) @ ''.'' @ padded 6 (us mod 1000000) @ ''+00:00'')"

section \<open>Events\<close>

text \<open>What an event holds.  A time is its wall clock in microseconds with, when it is aware, its
  offset from UTC.\<close>

datatype audit_value =
    ANone | ABool bool | AInt int | AFloat int nat | AStr string | ATime int "int option"
  | AList "audit_value list" | ADict "(string \<times> audit_value) list"

type_synonym event_fields = "(string \<times> audit_value) list"

record chain_event =
  ev_seq :: int
  ev_prev_hash :: string
  ev_hash :: string
  ev_fields :: event_fields

definition GENESIS :: string where
  "GENESIS = replicate 64 (CHR ''0'')"

definition FIELDS :: "string list" where
  "FIELDS = [''event_id'', ''event_type'', ''outcome'', ''occurred_at'', ''correlation_id'', ''actor'',
     ''subject'', ''target'', ''reason'', ''source_ip'', ''user_agent'', ''session_id'', ''detail'']"

datatype problem = ALTERED | UNLINKED | OUT_OF_ORDER

record broken =
  bk_seq :: int
  bk_event_id :: audit_value
  bk_problem :: problem

section \<open>Operations\<close>

text \<open>A time without an offset is taken as UTC, an aware one is converted.\<close>

fun render :: "audit_value \<Rightarrow> pyval" where
  "render (ATime wall off) = PStr (timestamp (case off of None \<Rightarrow> wall | Some o' \<Rightarrow> wall - o'))"
| "render (ADict d) = PDict (sort_key fst (map (\<lambda>(k, v). (k, render v)) d))"
| "render (AList vs) = PList (map render vs)"
| "render ANone = PNone"
| "render (ABool b) = PBool b"
| "render (AInt i) = PInt i"
| "render (AFloat m k) = PFloat m k"
| "render (AStr s) = PStr s"

definition event_get :: "event_fields \<Rightarrow> string \<Rightarrow> audit_value" where
  "event_get e name = (case map_of e name of None \<Rightarrow> ANone | Some v \<Rightarrow> v)"

definition payload :: "event_fields \<Rightarrow> dict" where
  "payload e = sort_key fst (map (\<lambda>name. (name, render (event_get e name))) FIELDS)"

definition canonical :: "(int \<Rightarrow> nat \<Rightarrow> string) \<Rightarrow> event_fields \<Rightarrow> string" where
  "canonical fr e = json_text fr (PDict (payload e))"

definition link :: "(string \<Rightarrow> string) \<Rightarrow> (int \<Rightarrow> nat \<Rightarrow> string) \<Rightarrow> string \<Rightarrow> event_fields \<Rightarrow> string" where
  "link sha fr previous e = sha (previous @ canonical fr e)"

definition broken_at :: "chain_event \<Rightarrow> problem \<Rightarrow> broken" where
  "broken_at e p = \<lparr>bk_seq = ev_seq e, bk_event_id = event_get (ev_fields e) ''event_id'', bk_problem = p\<rparr>"

fun verify_loop ::
  "(string \<Rightarrow> string) \<Rightarrow> (int \<Rightarrow> nat \<Rightarrow> string) \<Rightarrow> int option \<Rightarrow> string \<Rightarrow> chain_event list \<Rightarrow> broken option" where
  "verify_loop sha fr last_seq expected [] = None"
| "verify_loop sha fr last_seq expected (e # es) =
     (if (case last_seq of None \<Rightarrow> False | Some l \<Rightarrow> ev_seq e \<le> l) then Some (broken_at e OUT_OF_ORDER)
      else if ev_prev_hash e \<noteq> expected then Some (broken_at e UNLINKED)
      else let computed = link sha fr expected (ev_fields e) in
        if computed \<noteq> ev_hash e then Some (broken_at e ALTERED)
        else verify_loop sha fr (Some (ev_seq e)) computed es)"

definition verify_from ::
  "(string \<Rightarrow> string) \<Rightarrow> (int \<Rightarrow> nat \<Rightarrow> string) \<Rightarrow> string \<Rightarrow> chain_event list \<Rightarrow> broken option" where
  "verify_from sha fr expected events = verify_loop sha fr None expected events"

definition verify_trail ::
  "(string \<Rightarrow> string) \<Rightarrow> (int \<Rightarrow> nat \<Rightarrow> string) \<Rightarrow> chain_event list \<Rightarrow> broken option" where
  "verify_trail sha fr events = verify_from sha fr GENESIS events"

definition chain_end :: "chain_event list \<Rightarrow> string" where
  "chain_end events = (if events = [] then GENESIS else ev_hash (last events))"

section \<open>What the verifier checks\<close>

fun chained :: "(string \<Rightarrow> string) \<Rightarrow> (int \<Rightarrow> nat \<Rightarrow> string) \<Rightarrow> string \<Rightarrow> chain_event list \<Rightarrow> bool" where
  "chained sha fr expected [] = True"
| "chained sha fr expected (e # es) = (ev_prev_hash e = expected \<and>
     ev_hash e = link sha fr expected (ev_fields e) \<and> chained sha fr (ev_hash e) es)"

definition end_from :: "string \<Rightarrow> chain_event list \<Rightarrow> string" where
  "end_from h events = (if events = [] then h else ev_hash (last events))"

lemma end_from_simps [simp]:
  "end_from h [] = h" "end_from h (es @ [e]) = ev_hash e" "end_from h (e # es) = end_from (ev_hash e) es"
  by (simp_all add: end_from_def)

lemma chain_end_from: "chain_end events = end_from GENESIS events"
  by (simp add: chain_end_def end_from_def)

lemma chained_append:
  "chained sha fr h (xs @ ys) = (chained sha fr h xs \<and> chained sha fr (end_from h xs) ys)"
  by (induction xs arbitrary: h) auto

lemma end_from_append: "end_from h (xs @ ys) = end_from (end_from h xs) ys"
  by (simp add: end_from_def)

lemma verify_loop_None:
  "verify_loop sha fr l h es = None \<longleftrightarrow> chained sha fr h es \<and> sorted_wrt (<) (map ev_seq es) \<and>
     (case l of None \<Rightarrow> True | Some s \<Rightarrow> \<forall>e\<in>set es. s < ev_seq e)"
proof (induction es arbitrary: l h)
  case (Cons e es)
  show ?case by (cases l) (auto simp: Let_def Cons.IH)
qed (simp split: option.splits)

lemma verify_from_None:
  "verify_from sha fr h es = None \<longleftrightarrow> chained sha fr h es \<and> sorted_wrt (<) (map ev_seq es)"
  by (simp add: verify_from_def verify_loop_None)

text \<open>After a part that verifies, the walk continues from where that part ends.\<close>

lemma verify_loop_append:
  "verify_loop sha fr l h xs = None \<Longrightarrow>
     verify_loop sha fr l h (xs @ ys) =
       verify_loop sha fr (if xs = [] then l else Some (ev_seq (last xs))) (end_from h xs) ys"
  by (induction xs arbitrary: l h) (auto simp: Let_def end_from_def split: if_splits)

section \<open>Tampering shows\<close>

text \<open>The texts a trail hashes, in order.\<close>

fun materials :: "(int \<Rightarrow> nat \<Rightarrow> string) \<Rightarrow> string \<Rightarrow> chain_event list \<Rightarrow> string list" where
  "materials fr h [] = []"
| "materials fr h (e # es) = (h @ canonical fr (ev_fields e)) # materials fr (ev_hash e) es"

definition float_free :: "chain_event \<Rightarrow> bool" where
  "float_free e = no_floats (PDict (payload (ev_fields e)))"

lemma materials_append [simp]: "materials fr h (xs @ ys) = materials fr h xs @ materials fr (end_from h xs) ys"
  by (induction xs arbitrary: h) auto

lemma canonical_inj:
  "canonical fr (ev_fields e) = canonical fr (ev_fields e') \<Longrightarrow> float_free e \<Longrightarrow> float_free e' \<Longrightarrow>
     payload (ev_fields e) = payload (ev_fields e')"
  unfolding canonical_def float_free_def by (drule json_text_inj) auto

lemma chained_snoc:
  "chained sha fr h (es @ [e]) \<longleftrightarrow> chained sha fr h es \<and> ev_prev_hash e = end_from h es \<and>
     ev_hash e = sha (end_from h es @ canonical fr (ev_fields e))"
  by (simp add: chained_append link_def)

lemma end_length:
  assumes "\<And>x. length (sha x) = n" and "length h = n" and "chained sha fr h es"
  shows "length (end_from h es) = n"
proof (cases es rule: rev_cases)
  case (snoc ys y)
  then show ?thesis using assms(1,3) by (simp add: chained_snoc)
qed (simp add: assms(2))

definition collides :: "(string \<Rightarrow> string) \<Rightarrow> string list \<Rightarrow> string list \<Rightarrow> bool" where
  "collides sha ms ns = (\<exists>x\<in>set ms. \<exists>y\<in>set ns. x \<noteq> y \<and> sha x = sha y)"

definition hits :: "(string \<Rightarrow> string) \<Rightarrow> string \<Rightarrow> string list \<Rightarrow> bool" where
  "hits sha h ms = (\<exists>x\<in>set ms. sha x = h)"

lemma same_end_same_trail:
  assumes len: "\<And>x. length (sha x) = n" "length h = n"
  shows "chained sha fr h xs \<Longrightarrow> chained sha fr h ys \<Longrightarrow> end_from h xs = end_from h ys \<Longrightarrow>
     list_all float_free xs \<Longrightarrow> list_all float_free ys \<Longrightarrow>
     map (\<lambda>e. payload (ev_fields e)) xs = map (\<lambda>e. payload (ev_fields e)) ys \<or>
     collides sha (materials fr h xs) (materials fr h ys) \<or> hits sha h (materials fr h xs @ materials fr h ys)"
proof (induction xs arbitrary: ys rule: rev_induct)
  case Nil
  show ?case
  proof (cases ys rule: rev_cases)
    case (snoc zs z)
    then show ?thesis using Nil by (auto simp: chained_snoc hits_def)
  qed simp
next
  case (snoc x xs)
  show ?case
  proof (cases ys rule: rev_cases)
    case Nil
    then show ?thesis using snoc.prems by (auto simp: chained_snoc hits_def)
  next
    case (snoc zs z)
    let ?mx = "end_from h xs @ canonical fr (ev_fields x)" and ?mz = "end_from h zs @ canonical fr (ev_fields z)"
    have cx: "chained sha fr h xs" "ev_hash x = sha ?mx" and cz: "chained sha fr h zs" "ev_hash z = sha ?mz"
      using snoc.prems(1,2) snoc by (simp_all add: chained_snoc)
    have eq: "sha ?mx = sha ?mz" using snoc.prems(3) snoc cx(2) cz(2) by simp
    show ?thesis
    proof (cases "?mx = ?mz")
      case False
      then show ?thesis using eq snoc by (auto simp: collides_def)
    next
      case True
      then have e: "end_from h xs = end_from h zs" and c: "canonical fr (ev_fields x) = canonical fr (ev_fields z)"
        using end_length[OF len cx(1)] end_length[OF len cz(1)] by simp_all
      have "payload (ev_fields x) = payload (ev_fields z)"
        using canonical_inj[OF c] snoc.prems(4,5) snoc by simp
      then show ?thesis
        using snoc.IH[OF cx(1) cz(1) e] snoc.prems(4,5) snoc by (auto simp: collides_def hits_def)
    qed
  qed
qed


text \<open>A sample hash for examples: the last sixty-four characters, padded on the left.\<close>

definition sample_sha :: "string \<Rightarrow> string" where
  "sample_sha s = drop (length s) (replicate 64 (CHR ''x'') @ s)"

lemma length_sample_sha: "length (sample_sha s) = 64"
  by (simp add: sample_sha_def)

definition sample_event :: "(string \<Rightarrow> string) \<Rightarrow> int \<Rightarrow> string \<Rightarrow> string \<Rightarrow> chain_event" where
  "sample_event sha n prev agent = (let f = [(''user_agent'', AStr agent)] in
     \<lparr>ev_seq = n, ev_prev_hash = prev, ev_hash = link sha (\<lambda>m k. []) prev f, ev_fields = f\<rparr>)"

lemma sample_trail_verifies: "verify_trail sha (\<lambda>m k. []) [sample_event sha n GENESIS agent] = None"
  by (simp add: verify_trail_def verify_from_def sample_event_def Let_def)

lemma payload_agent:
  "payload [(''user_agent'', AStr s)] = sort_key fst (map (\<lambda>n. (n, if n = ''user_agent'' then PStr s else PNone)) FIELDS)"
  by (simp add: payload_def FIELDS_def event_get_def)

lemma sample_float_free: "float_free (sample_event sha n prev agent)"
  by (simp add: float_free_def sample_event_def Let_def payload_agent FIELDS_def list_all_iff)


text \<open>A tampered row is reported where it happened.  In a trail that verifies: changing the covered
  content of one row, and nothing else, is reported as altered content of exactly that row, unless the
  old and the new text collide; removing a row that is not the last is reported as a broken link of
  exactly the row after it, unless the removed row's hash is the one it follows.\<close>

theorem tampering_located:
  assumes "verify_trail sha fr (xs @ e # f # ys) = None" and "float_free e" and "float_free e'"
    and "ev_seq e' = ev_seq e" and "ev_prev_hash e' = ev_prev_hash e" and "ev_hash e' = ev_hash e"
    and "payload (ev_fields e') \<noteq> payload (ev_fields e)"
  shows "(if link sha fr (ev_prev_hash e) (ev_fields e') = link sha fr (ev_prev_hash e) (ev_fields e)
       then canonical fr (ev_fields e') \<noteq> canonical fr (ev_fields e)
       else verify_trail sha fr (xs @ e' # f # ys) = Some (broken_at e' ALTERED)) \<and>
     (if ev_hash e = ev_prev_hash e then True
      else verify_trail sha fr (xs @ f # ys) = Some (broken_at f UNLINKED))"
proof -
  have v: "chained sha fr GENESIS (xs @ e # f # ys)" "sorted_wrt (<) (map ev_seq (xs @ e # f # ys))"
    using assms(1) by (simp_all add: verify_trail_def verify_from_None)
  have x: "verify_loop sha fr None GENESIS xs = None"
    using v by (simp add: verify_loop_None chained_append sorted_wrt_append)
  have e: "ev_prev_hash e = end_from GENESIS xs" "ev_hash e = link sha fr (end_from GENESIS xs) (ev_fields e)"
    and f: "ev_prev_hash f = ev_hash e"
    using v(1) by (simp_all add: chained_append)
  have o: "ev_seq (last xs) < ev_seq e" "ev_seq (last xs) < ev_seq f" if h: "xs \<noteq> []"
    using v(2) last_in_set[OF h] by (auto simp: sorted_wrt_append)
  have c: "canonical fr (ev_fields e') \<noteq> canonical fr (ev_fields e)"
    using canonical_inj[OF _ assms(3,2)] assms(7) by blast
  have "verify_trail sha fr (xs @ e' # f # ys) = Some (broken_at e' ALTERED)"
    if h: "link sha fr (ev_prev_hash e) (ev_fields e') \<noteq> link sha fr (ev_prev_hash e) (ev_fields e)"
    using verify_loop_append[OF x] o assms(4,5,6) e h
    by (cases "xs = []") (simp_all add: verify_trail_def verify_from_def Let_def)
  moreover have "verify_trail sha fr (xs @ f # ys) = Some (broken_at f UNLINKED)" if h: "ev_hash e \<noteq> ev_prev_hash e"
    using verify_loop_append[OF x] o e(1) f h
    by (cases "xs = []") (simp_all add: verify_trail_def verify_from_def Let_def)
  ultimately show ?thesis using c by simp
qed

theorem tampering_located_witness:
  "let e = sample_event sample_sha 1 GENESIS ''a''; f = sample_event sample_sha 2 (ev_hash e) ''b'';
       e' = e\<lparr>ev_fields := [(''user_agent'', AStr ''c'')]\<rparr> in
   verify_trail sample_sha (\<lambda>m k. []) ([] @ e # f # []) = None \<and>
   verify_trail sample_sha (\<lambda>m k. []) ([] @ e' # f # []) = Some (broken_at e' ALTERED) \<and>
   verify_trail sample_sha (\<lambda>m k. []) ([] @ f # []) = Some (broken_at f UNLINKED)"
proof -
  let ?e = "sample_event sample_sha 1 GENESIS ''a''"
  let ?f = "sample_event sample_sha 2 (ev_hash ?e) ''b''"
  let ?e' = "?e\<lparr>ev_fields := [(''user_agent'', AStr ''c'')]\<rparr>"
  have v: "verify_trail sample_sha (\<lambda>m k. []) ([] @ ?e # ?f # []) = None"
    by (simp add: verify_trail_def verify_from_def sample_event_def Let_def)
  have ff: "float_free ?e'" by (simp add: float_free_def sample_event_def Let_def payload_agent FIELDS_def list_all_iff)
  have "map_of (payload [(''user_agent'', AStr ''c'')]) ''user_agent'' \<noteq>
      map_of (payload [(''user_agent'', AStr ''a'')]) ''user_agent''" by code_simp
  then have d: "payload (ev_fields ?e') \<noteq> payload (ev_fields ?e)"
    by (auto simp: sample_event_def Let_def)
  have l: "link sample_sha (\<lambda>m k. []) GENESIS [(''user_agent'', AStr ''c'')] \<noteq>
      link sample_sha (\<lambda>m k. []) GENESIS [(''user_agent'', AStr ''a'')]" by code_simp
  have g: "link sample_sha (\<lambda>m k. []) GENESIS [(''user_agent'', AStr ''a'')] \<noteq> GENESIS" by code_simp
  show ?thesis
    using tampering_located[OF v sample_float_free ff _ _ _ d] l g v
    by (simp add: Let_def sample_event_def)
qed

end
