(* ===== verification/AuditLog.thy ===== *)
theory AuditLog
  imports AuditChain ReleasePolicy "HOL-Library.Multiset"
begin

text \<open>
  The audit trail: the event vocabulary and redaction (\<open>audit/events.py\<close>), the writer and the batched
  verifier (\<open>audit/log.py\<close>, with the rows of \<open>audit/models.py\<close>), and retention (\<open>audit/retention.py\<close>).
  Tables are lists of rows; the database's answer to an insert (whether it was accepted) and the sink
  an export goes to are arguments.  Over every history of writes and retention passes, interleaved,
  the surviving trail verifies and its head is the hash of the last event ever written.
\<close>

section \<open>Events and redaction\<close>

datatype event_type =
    AUTH_REQUEST | AUTH_SUCCESS | AUTH_FAILURE
  | SESSION_CREATED | SESSION_ENDED | SESSION_TERMINATED
  | AUTHZ_CODE_ISSUED | AUTHZ_DENIED | TOKEN_ISSUED | TOKEN_REFRESHED | TOKEN_REVOKED | GRANT_REUSE_DETECTED
  | ATTRIBUTE_RELEASE
  | PROVISIONING_CREATED | PROVISIONING_UPDATED | PROVISIONING_DELETED
  | LIFECYCLE_JOINER | LIFECYCLE_MOVER | LIFECYCLE_LEAVER
  | ENTITLEMENT_GRANTED | ENTITLEMENT_REVOKED | DEPROVISION_STEP
  | MFA_ENROLMENT_STARTED | MFA_ENROLLED | MFA_ENROLMENT_FAILED | MFA_FACTOR_REMOVED | MFA_STEP_UP
  | MFA_RECOVERY_ISSUED | MFA_FAILED | MFA_LOCKED_OUT
  | AUDIT_EXPORTED | AUDIT_PRUNED | ADMIN_ACTION | LOGOUT_DELIVERY_FAILED

fun event_type_value :: "event_type \<Rightarrow> string" where
  "event_type_value AUTH_REQUEST = ''auth.request''"
| "event_type_value AUTH_SUCCESS = ''auth.success''"
| "event_type_value AUTH_FAILURE = ''auth.failure''"
| "event_type_value SESSION_CREATED = ''session.created''"
| "event_type_value SESSION_ENDED = ''session.ended''"
| "event_type_value SESSION_TERMINATED = ''session.terminated''"
| "event_type_value AUTHZ_CODE_ISSUED = ''authz.code_issued''"
| "event_type_value AUTHZ_DENIED = ''authz.denied''"
| "event_type_value TOKEN_ISSUED = ''token.issued''"
| "event_type_value TOKEN_REFRESHED = ''token.refreshed''"
| "event_type_value TOKEN_REVOKED = ''token.revoked''"
| "event_type_value GRANT_REUSE_DETECTED = ''grant.reuse_detected''"
| "event_type_value ATTRIBUTE_RELEASE = ''attribute.release''"
| "event_type_value PROVISIONING_CREATED = ''provisioning.created''"
| "event_type_value PROVISIONING_UPDATED = ''provisioning.updated''"
| "event_type_value PROVISIONING_DELETED = ''provisioning.deleted''"
| "event_type_value LIFECYCLE_JOINER = ''lifecycle.joiner''"
| "event_type_value LIFECYCLE_MOVER = ''lifecycle.mover''"
| "event_type_value LIFECYCLE_LEAVER = ''lifecycle.leaver''"
| "event_type_value ENTITLEMENT_GRANTED = ''entitlement.granted''"
| "event_type_value ENTITLEMENT_REVOKED = ''entitlement.revoked''"
| "event_type_value DEPROVISION_STEP = ''deprovision.step''"
| "event_type_value MFA_ENROLMENT_STARTED = ''mfa.enrolment_started''"
| "event_type_value MFA_ENROLLED = ''mfa.enrolled''"
| "event_type_value MFA_ENROLMENT_FAILED = ''mfa.enrolment_failed''"
| "event_type_value MFA_FACTOR_REMOVED = ''mfa.factor_removed''"
| "event_type_value MFA_STEP_UP = ''mfa.step_up''"
| "event_type_value MFA_RECOVERY_ISSUED = ''mfa.recovery_issued''"
| "event_type_value MFA_FAILED = ''mfa.failed''"
| "event_type_value MFA_LOCKED_OUT = ''mfa.locked_out''"
| "event_type_value AUDIT_EXPORTED = ''audit.exported''"
| "event_type_value AUDIT_PRUNED = ''audit.pruned''"
| "event_type_value ADMIN_ACTION = ''admin.action''"
| "event_type_value LOGOUT_DELIVERY_FAILED = ''logout.delivery_failed''"

datatype audit_outcome = SUCCESS | FAILURE | DENIED

fun outcome_value :: "audit_outcome \<Rightarrow> string" where
  "outcome_value SUCCESS = ''success''"
| "outcome_value FAILURE = ''failure''"
| "outcome_value DENIED = ''denied''"

text \<open>Instants are microseconds since 1970, UTC.\<close>

record audit_event =
  ae_event_type :: event_type
  ae_outcome :: audit_outcome
  ae_timestamp :: int
  ae_correlation_id :: string
  ae_event_id :: string
  ae_actor :: "string option"
  ae_subject :: "string option"
  ae_target :: "string option"
  ae_reason :: "string option"
  ae_source_ip :: "string option"
  ae_user_agent :: "string option"
  ae_session_id :: "string option"
  ae_detail :: event_fields

definition REDACTED :: string where "REDACTED = ''[redacted]''"

definition SECRET_MARKERS :: "string list" where
  "SECRET_MARKERS = [''token'', ''secret'', ''password'', ''assertion'', ''cookie'', ''verifier'',
     ''challenge'', ''code'', ''key'', ''credential'', ''salt'']"

text \<open>\<open>marker in text\<close>\<close>

definition occurs_in :: "string \<Rightarrow> string \<Rightarrow> bool" where
  "occurs_in marker s = list_ex (\<lambda>i. starts_with (drop i s) marker) [0..<Suc (length s)]"

definition is_secret :: "string \<Rightarrow> bool" where
  "is_secret k = list_ex (\<lambda>marker. occurs_in marker (py_lower k)) SECRET_MARKERS"

definition redact_attributes :: "event_fields \<Rightarrow> event_fields" where
  "redact_attributes attributes = map (\<lambda>(name, values). (name,
     case attribute_of name of
       Some a \<Rightarrow> if ad_classification a = PUBLIC then values else AStr REDACTED
     | None \<Rightarrow> AStr REDACTED)) attributes"

definition redact :: "event_fields \<Rightarrow> event_fields" where
  "redact detail = map (\<lambda>(k, v). (k,
     if is_secret k then AStr REDACTED
     else case v of
       ADict d \<Rightarrow> if k = ''attributes'' then ADict (redact_attributes d) else v
     | _ \<Rightarrow> v)) detail"

section \<open>Rows\<close>

record audit_row =
  aw_seq :: int
  aw_event :: audit_event
  aw_prev_hash :: string
  aw_hash :: string

record retention_anchor =
  an_seq :: int
  an_hash :: string
  an_count :: nat
  an_cutoff :: int
  an_performed_by :: string
  an_reason :: string

record audit_db =
  db_rows :: "audit_row list"
  db_anchors :: "retention_anchor list"

definition text_or_none :: "string option \<Rightarrow> audit_value" where
  "text_or_none o' = (case o' of None \<Rightarrow> ANone | Some s \<Rightarrow> AStr s)"

definition event_columns :: "audit_event \<Rightarrow> event_fields" where
  "event_columns e = [(''event_id'', AStr (ae_event_id e)), (''event_type'', AStr (event_type_value (ae_event_type e))),
     (''outcome'', AStr (outcome_value (ae_outcome e))), (''occurred_at'', ATime (ae_timestamp e) (Some 0)),
     (''correlation_id'', AStr (ae_correlation_id e)), (''actor'', text_or_none (ae_actor e)),
     (''subject'', text_or_none (ae_subject e)), (''target'', text_or_none (ae_target e)),
     (''reason'', text_or_none (ae_reason e)), (''source_ip'', text_or_none (ae_source_ip e)),
     (''user_agent'', text_or_none (ae_user_agent e)), (''session_id'', text_or_none (ae_session_id e)),
     (''detail'', ADict (ae_detail e))]"

definition verifiable :: "audit_row \<Rightarrow> chain_event" where
  "verifiable r = \<lparr>ev_seq = aw_seq r, ev_prev_hash = aw_prev_hash r, ev_hash = aw_hash r,
     ev_fields = event_columns (aw_event r)\<rparr>"

text \<open>\<open>order_by(seq)\<close>, and the newest row or anchor.\<close>

definition by_seq :: "audit_row list \<Rightarrow> audit_row list" where
  "by_seq rows = sort_key aw_seq rows"

definition newest :: "('a \<Rightarrow> int) \<Rightarrow> 'a list \<Rightarrow> 'a option" where
  "newest f xs = (if xs = [] then None else Some (last (sort_key f xs)))"

section \<open>Writing\<close>

definition starting_hash :: "audit_db \<Rightarrow> string" where
  "starting_hash db = (case newest an_seq (db_anchors db) of
       Some a \<Rightarrow> if an_hash a \<noteq> [] then an_hash a else GENESIS | None \<Rightarrow> GENESIS)"

definition chain_head :: "audit_db \<Rightarrow> string" where
  "chain_head db = (case newest aw_seq (db_rows db) of
       Some r \<Rightarrow> if aw_hash r \<noteq> [] then aw_hash r else starting_hash db | None \<Rightarrow> starting_hash db)"

text \<open>One transaction under the chain lock.  \<open>seq\<close> is the number the sequence hands out; an insert the
  database refuses is logged and swallowed.\<close>

definition audit_write ::
  "(string \<Rightarrow> string) \<Rightarrow> (int \<Rightarrow> nat \<Rightarrow> string) \<Rightarrow> bool \<Rightarrow> int \<Rightarrow> audit_event \<Rightarrow> audit_db \<Rightarrow> audit_db" where
  "audit_write sha fr accepted seq e db =
     (let previous = (case newest aw_seq (db_rows db) of Some r \<Rightarrow> aw_hash r | None \<Rightarrow> starting_hash db);
          row = event_columns e in
      if accepted then db\<lparr>db_rows := db_rows db @ [\<lparr>aw_seq = seq, aw_event = e, aw_prev_hash = previous,
        aw_hash = link sha fr previous row\<rparr>]\<rparr>
      else db)"

text \<open>\<open>{**detail, "impersonation": True, "impersonated_by": who}\<close>\<close>

definition put :: "string \<Rightarrow> 'v \<Rightarrow> (string \<times> 'v) list \<Rightarrow> (string \<times> 'v) list" where
  "put k v d = (if k \<in> fst ` set d then map (\<lambda>(k', v'). (k', if k' = k then v else v')) d else d @ [(k, v)])"

definition marked :: "string option \<Rightarrow> event_fields \<Rightarrow> event_fields" where
  "marked acting_as detail = (case acting_as of None \<Rightarrow> detail
     | Some who \<Rightarrow> put ''impersonated_by'' (AStr who) (put ''impersonation'' (ABool True) detail))"

definition new_event :: "string option \<Rightarrow> audit_event \<Rightarrow> audit_event" where
  "new_event acting_as given = given\<lparr>ae_detail := redact (marked acting_as (ae_detail given))\<rparr>"

definition audit_record ::
  "(string \<Rightarrow> string) \<Rightarrow> (int \<Rightarrow> nat \<Rightarrow> string) \<Rightarrow> string option \<Rightarrow> bool \<Rightarrow> int \<Rightarrow> audit_event \<Rightarrow> audit_db \<Rightarrow>
     audit_event \<times> audit_db" where
  "audit_record sha fr acting_as accepted seq given db =
     (let e = new_event acting_as given in (e, audit_write sha fr accepted seq e db))"

section \<open>Verifying in batches\<close>

text \<open>\<open>where(seq > last).order_by(seq).limit(batch)\<close>\<close>

definition page :: "int \<Rightarrow> nat \<Rightarrow> audit_row list \<Rightarrow> audit_row list" where
  "page after batch rows = take batch (filter (\<lambda>r. after < aw_seq r) (by_seq rows))"

lemma page_last:
  assumes "page after batch rows \<noteq> []"
  shows "after < aw_seq (last (page after batch rows)) \<and> last (page after batch rows) \<in> set rows"
proof -
  have "last (page after batch rows) \<in> set (page after batch rows)" using assms by (rule last_in_set)
  then have "last (page after batch rows) \<in> set (filter (\<lambda>r. after < aw_seq r) (by_seq rows))"
    unfolding page_def by (rule in_set_takeD)
  then show ?thesis by (simp add: by_seq_def)
qed

lemma page_progress:
  assumes "page after batch rows \<noteq> []"
  shows "length (filter (\<lambda>r. aw_seq (last (page after batch rows)) < aw_seq r) rows) <
     length (filter (\<lambda>r. after < aw_seq r) rows)"
  using page_last[OF assms] by (intro filter_length_less[where y = "last (page after batch rows)"]) auto

function verify_walk ::
  "(string \<Rightarrow> string) \<Rightarrow> (int \<Rightarrow> nat \<Rightarrow> string) \<Rightarrow> nat \<Rightarrow> string \<Rightarrow> int \<Rightarrow> audit_row list \<Rightarrow> broken option" where
  "verify_walk sha fr batch expected last_seq rows =
     (let p = page last_seq batch rows in
      if p = [] then None
      else case verify_from sha fr expected (map verifiable p) of
          Some b \<Rightarrow> Some b
        | None \<Rightarrow> verify_walk sha fr batch (aw_hash (last p)) (aw_seq (last p)) rows)"
  by pat_completeness auto

termination
  by (relation "measure (\<lambda>(sha, fr, batch, expected, last_seq, rows). length (filter (\<lambda>r. last_seq < aw_seq r) rows))")
     (auto simp: page_progress)

declare verify_walk.simps [simp del]

definition verify_chain :: "(string \<Rightarrow> string) \<Rightarrow> (int \<Rightarrow> nat \<Rightarrow> string) \<Rightarrow> nat \<Rightarrow> audit_db \<Rightarrow> broken option" where
  "verify_chain sha fr batch db = verify_walk sha fr batch (starting_hash db) 0 (db_rows db)"

section \<open>Retention\<close>

datatype prune_error = SinkFailed

record pruned =
  pr_removed :: nat
  pr_through_seq :: "int option"
  pr_through_hash :: string

definition pruned_anchored :: "pruned \<Rightarrow> bool" where
  "pruned_anchored p = (0 < pr_removed p)"

definition anchor_before :: "int \<Rightarrow> audit_db \<Rightarrow> (int \<times> string) option" where
  "anchor_before seq db =
     map_option (\<lambda>a. (an_seq a, an_hash a)) (newest an_seq (filter (\<lambda>a. an_seq a < seq) (db_anchors db)))"

definition retention_starting_hash :: "audit_db \<Rightarrow> string" where
  "retention_starting_hash db = (case newest an_seq (db_anchors db) of Some a \<Rightarrow> an_hash a | None \<Rightarrow> GENESIS)"

definition boundary :: "int \<Rightarrow> audit_row list \<Rightarrow> (int \<times> string) option" where
  "boundary cutoff rows =
     map_option (\<lambda>r. (aw_seq r, aw_hash r)) (newest aw_seq (filter (\<lambda>r. ae_timestamp (aw_event r) < cutoff) rows))"

text \<open>Every doomed row to the sink, batch by batch; \<open>None\<close> when the sink raised.\<close>

function export_walk :: "(audit_row list \<Rightarrow> bool) \<Rightarrow> nat \<Rightarrow> int \<Rightarrow> int \<Rightarrow> audit_row list \<Rightarrow> audit_row list option" where
  "export_walk sink batch after through rows =
     (let p = page after batch (filter (\<lambda>r. aw_seq r \<le> through) rows) in
      if p = [] then Some []
      else if \<not> sink p then None
      else map_option (\<lambda>rest. p @ rest) (export_walk sink batch (aw_seq (last p)) through rows))"
  by pat_completeness auto

termination
  by (relation "measure (\<lambda>(sink, batch, after, through, rows).
        length (filter (\<lambda>r. after < aw_seq r) (filter (\<lambda>r. aw_seq r \<le> through) rows)))")
     (simp_all add: page_progress del: filter_filter)

declare export_walk.simps [simp del]

text \<open>What a pass decides before it deletes: where it cuts, and how much it exported.\<close>

definition prune_read ::
  "int \<Rightarrow> (audit_row list \<Rightarrow> bool) \<Rightarrow> nat \<Rightarrow> audit_db \<Rightarrow> (prune_error, (int \<times> string \<times> nat) option) result" where
  "prune_read cutoff sink batch db = (case boundary cutoff (db_rows db) of
       None \<Rightarrow> Ok None
     | Some (through, hash) \<Rightarrow> (case export_walk sink batch 0 through (db_rows db) of
           None \<Rightarrow> Err SinkFailed | Some exported \<Rightarrow> Ok (Some (through, hash, length exported))))"

definition prune_cut :: "int \<Rightarrow> string \<Rightarrow> nat \<Rightarrow> int \<Rightarrow> string \<Rightarrow> string \<Rightarrow> audit_db \<Rightarrow> audit_db" where
  "prune_cut through hash exported cutoff performed_by reason db =
     db\<lparr>db_rows := filter (\<lambda>r. \<not> aw_seq r \<le> through) (db_rows db),
        db_anchors := db_anchors db @ [\<lparr>an_seq = through, an_hash = hash, an_count = exported,
          an_cutoff = cutoff, an_performed_by = performed_by, an_reason = reason\<rparr>]\<rparr>"

definition isoformat :: "int \<Rightarrow> string" where
  "isoformat us = (let s = timestamp us in
     if us mod 1000000 = 0 then take (length s - 13) s @ ''+00:00'' else s)"

definition prune_event :: "string \<Rightarrow> string \<Rightarrow> string \<Rightarrow> string \<Rightarrow> int \<Rightarrow> nat \<Rightarrow> int \<Rightarrow> int \<Rightarrow> audit_event" where
  "prune_event event_id correlation_id performed_by reason at exported through cutoff =
     \<lparr>ae_event_type = AUDIT_PRUNED, ae_outcome = SUCCESS, ae_timestamp = at,
      ae_correlation_id = correlation_id, ae_event_id = event_id, ae_actor = Some performed_by,
      ae_subject = None, ae_target = None, ae_reason = Some reason, ae_source_ip = None,
      ae_user_agent = None, ae_session_id = None,
      ae_detail = [(''removed'', AInt (int exported)), (''through_seq'', AInt through),
        (''cutoff'', AStr (isoformat cutoff))]\<rparr>"

text \<open>A whole pass: read and export, delete and anchor, then record itself.  \<open>record\<close> is the audit
  log's \<open>record\<close> with its surroundings fixed.\<close>

definition prune ::
  "(audit_event \<Rightarrow> audit_db \<Rightarrow> audit_db) \<Rightarrow> int \<Rightarrow> int \<Rightarrow> (audit_row list \<Rightarrow> bool) \<Rightarrow> nat \<Rightarrow> string \<Rightarrow> string \<Rightarrow>
     string \<Rightarrow> string \<Rightarrow> audit_db \<Rightarrow> (prune_error, pruned) result \<times> audit_db" where
  "prune record at older_than sink batch performed_by reason event_id correlation_id db =
     (let cutoff = at - older_than in
      case prune_read cutoff sink batch db of
        Inl e \<Rightarrow> (Err e, db)
      | Inr None \<Rightarrow> (Ok \<lparr>pr_removed = 0, pr_through_seq = None, pr_through_hash = retention_starting_hash db\<rparr>, db)
      | Inr (Some (through, hash, exported)) \<Rightarrow>
          (Ok \<lparr>pr_removed = exported, pr_through_seq = Some through, pr_through_hash = hash\<rparr>,
           record (prune_event event_id correlation_id performed_by reason at exported through cutoff)
             (prune_cut through hash exported cutoff performed_by reason db)))"

definition due :: "int \<Rightarrow> int \<Rightarrow> audit_db \<Rightarrow> nat" where
  "due at older_than db = length (filter (\<lambda>r. ae_timestamp (aw_event r) < at - older_than) (db_rows db))"

section \<open>Paging\<close>

lemma by_seq_sorted: "distinct (map aw_seq rows) \<Longrightarrow> sorted_wrt (<) (map aw_seq (by_seq rows))"
  unfolding by_seq_def by (simp add: strict_sorted_iff distinct_map inj_on_def)

text \<open>In a strictly increasing list the rows after the last of a page are the rest of the list.\<close>

lemma page_split:
  assumes "sorted_wrt (<) (map aw_seq S)" and "take n S \<noteq> []"
  shows "filter (\<lambda>r. aw_seq (last (take n S)) < aw_seq r) S = drop n S"
proof -
  have S: "sorted_wrt (<) (map aw_seq (take n S @ drop n S))" using assms(1) by simp
  have a: "filter (\<lambda>r. aw_seq (last (take n S)) < aw_seq r) (take n S) = []"
  proof -
    have "aw_seq r \<le> aw_seq (last (take n S))" if h: "r \<in> set (take n S)" for r
      using S assms(2) h
      by (cases "take n S" rule: rev_cases) (auto simp: sorted_wrt_append)
    then show ?thesis by (auto simp: filter_empty_conv not_less)
  qed
  have b: "filter (\<lambda>r. aw_seq (last (take n S)) < aw_seq r) (drop n S) = drop n S"
    using S[unfolded map_append sorted_wrt_append] last_in_set[OF assms(2)] by (auto simp: filter_id_conv)
  have "filter (\<lambda>r. aw_seq (last (take n S)) < aw_seq r) (take n S @ drop n S) = drop n S"
    using a b by (simp only: filter_append append_Nil)
  then show ?thesis by simp
qed

lemma page_next:
  assumes "distinct (map aw_seq rows)" and "page after batch rows \<noteq> []"
  shows "filter (\<lambda>r. aw_seq (last (page after batch rows)) < aw_seq r) (by_seq rows) =
     drop batch (filter (\<lambda>r. after < aw_seq r) (by_seq rows))"
proof -
  let ?S = "filter (\<lambda>r. after < aw_seq r) (by_seq rows)"
  have s: "sorted_wrt (<) (map aw_seq ?S)"
    using by_seq_sorted[OF assms(1)] by (simp add: sorted_wrt_map sorted_wrt_filter)
  have "filter (\<lambda>r. aw_seq (last (page after batch rows)) < aw_seq r) (by_seq rows) =
      filter (\<lambda>r. aw_seq (last (page after batch rows)) < aw_seq r) ?S"
    using page_last[OF assms(2)] by (auto intro!: filter_cong)
  also have "\<dots> = drop batch ?S" using page_split[OF s] assms(2) by (simp add: page_def)
  finally show ?thesis .
qed

lemma verify_loop_fresh:
  "\<forall>e\<in>set es. s < ev_seq e \<Longrightarrow> verify_loop sha fr (Some s) h es = verify_loop sha fr None h es"
  by (cases es) (auto simp: Let_def)

lemma verify_from_append:
  assumes "verify_from sha fr h xs = None" and "\<forall>x\<in>set xs. \<forall>y\<in>set ys. ev_seq x < ev_seq y"
  shows "verify_from sha fr h (xs @ ys) = verify_from sha fr (end_from h xs) ys"
proof (cases "xs = []")
  case False
  then show ?thesis
    using verify_loop_append[of sha fr None h xs ys] verify_loop_fresh[of ys "ev_seq (last xs)"] assms
    by (simp add: verify_from_def)
qed simp

lemma verify_from_append_broken:
  "verify_from sha fr h xs = Some b \<Longrightarrow> verify_from sha fr h (xs @ ys) = Some b"
proof -
  have "verify_loop sha fr l h xs = Some b \<Longrightarrow> verify_loop sha fr l h (xs @ ys) = Some b" for l
    by (induction xs arbitrary: l h) (auto simp: Let_def split: if_splits)
  then show "verify_from sha fr h xs = Some b \<Longrightarrow> ?thesis" by (simp add: verify_from_def)
qed

lemma verify_walk_from:
  assumes "distinct (map aw_seq rows)" and "0 < batch"
  shows "verify_walk sha fr batch expected after rows =
     verify_from sha fr expected (map verifiable (filter (\<lambda>r. after < aw_seq r) (by_seq rows)))"
  using assms
proof (induction sha fr batch expected after rows rule: verify_walk.induct)
  case (1 sha fr batch expected after rows)
  let ?S = "filter (\<lambda>r. after < aw_seq r) (by_seq rows)" and ?p = "page after batch rows"
  have split: "?S = ?p @ drop batch ?S" by (simp add: page_def)
  show ?case
  proof (cases "?p = []")
    case True
    then have "?S = []" using 1(3) by (simp add: page_def)
    then show ?thesis using True by (simp add: verify_walk.simps[of sha fr batch expected after rows] verify_from_def)
  next
    case False
    have s: "sorted_wrt (<) (map aw_seq ?S)"
      using by_seq_sorted[OF 1(2)] by (simp add: sorted_wrt_map sorted_wrt_filter)
    have lt: "\<forall>x\<in>set (map verifiable ?p). \<forall>y\<in>set (map verifiable (drop batch ?S)). ev_seq x < ev_seq y"
    proof -
      have "sorted_wrt (<) (map aw_seq (?p @ drop batch ?S))" using s split by simp
      then show ?thesis unfolding map_append sorted_wrt_append by (auto simp: verifiable_def)
    qed
    have e: "end_from expected (map verifiable ?p) = aw_hash (last ?p)"
      using False by (simp add: end_from_def last_map verifiable_def)
    have m: "map verifiable ?S = map verifiable ?p @ map verifiable (drop batch ?S)"
      by (subst split) (simp only: map_append)
    show ?thesis
    proof (cases "verify_from sha fr expected (map verifiable ?p)")
      case None
      have "verify_walk sha fr batch expected after rows =
          verify_walk sha fr batch (aw_hash (last ?p)) (aw_seq (last ?p)) rows"
        using False None by (subst verify_walk.simps) (simp add: Let_def)
      also have "\<dots> = verify_from sha fr (aw_hash (last ?p)) (map verifiable (drop batch ?S))"
        using 1(1)[OF refl False None 1(2,3)] page_next[OF 1(2) False] by simp
      also have "\<dots> = verify_from sha fr expected (map verifiable ?S)"
        unfolding m using verify_from_append[OF None lt] e by simp
      finally show ?thesis .
    next
      case (Some b)
      have "verify_walk sha fr batch expected after rows = Some b"
        using False Some by (subst verify_walk.simps) (simp add: Let_def)
      then show ?thesis unfolding m using verify_from_append_broken[OF Some] by simp
    qed
  qed
qed

text \<open>Walking the trail in batches is walking it in one pass: with any batch size of at least one
  and unique sequence numbers, the verifier's answer, the first break included, is that of a single
  walk over the surviving rows in sequence order from the hash the trail legitimately starts at.\<close>

theorem verify_chain_batches:
  assumes "distinct (map aw_seq (db_rows db))" and "0 < batch"
  shows "verify_chain sha fr batch db =
     verify_from sha fr (starting_hash db) (map verifiable (filter (\<lambda>r. 0 < aw_seq r) (by_seq (db_rows db))))"
  unfolding verify_chain_def using assms by (rule verify_walk_from)

lemma export_walk_all:
  assumes "distinct (map aw_seq rows)" and "0 < batch" and "export_walk sink batch after through rows = Some ex"
  shows "ex = filter (\<lambda>r. after < aw_seq r \<and> aw_seq r \<le> through) (by_seq rows)"
  using assms
proof (induction sink batch after through rows arbitrary: ex rule: export_walk.induct)
  case (1 sink batch after through rows)
  let ?rows = "filter (\<lambda>r. aw_seq r \<le> through) rows"
  let ?S = "filter (\<lambda>r. after < aw_seq r) (by_seq ?rows)" and ?p = "page after batch ?rows"
  have d: "distinct (map aw_seq ?rows)" using 1(2) by (simp add: distinct_map_filter)
  have b: "by_seq ?rows = filter (\<lambda>r. aw_seq r \<le> through) (by_seq rows)"
    by (simp add: by_seq_def filter_sort)
  have f: "filter (\<lambda>r. x < aw_seq r \<and> aw_seq r \<le> through) (by_seq rows) = filter (\<lambda>r. x < aw_seq r) (by_seq ?rows)" for x
    by (simp add: b conj_commute)
  have split: "?S = ?p @ drop batch ?S" by (simp add: page_def)
  show ?case
  proof (cases "?p = []")
    case True
    then have "?S = []" using 1(3) by (simp add: page_def)
    then show ?thesis using True 1(4) unfolding f by (subst (asm) export_walk.simps) (simp add: Let_def)
  next
    case False
    obtain rest where rest: "export_walk sink batch (aw_seq (last ?p)) through rows = Some rest"
      and ex: "ex = ?p @ rest" and snk: "\<not> \<not> sink ?p"
      using False 1(4) by (subst (asm) export_walk.simps) (auto simp: Let_def split: if_splits)
    have "rest = drop batch ?S"
      using 1(1)[OF refl False snk 1(2,3) rest] page_next[OF d False] unfolding f by simp
    then show ?thesis unfolding f ex using split by simp
  qed
qed

section \<open>Every history\<close>

text \<open>The trail under concurrent writers and retention passes.  Writers hold the chain lock, so a write
  is one step, with a sequence number above all before it; a retention pass reads and exports in one
  step and deletes in another, whatever happens in between.  The record of everything ever written is
  kept beside the table.\<close>

record audit_state =
  as_db :: audit_db
  as_written :: "audit_row list"
  as_passes :: "(int \<times> string \<times> nat) multiset"

definition audit_start :: audit_state where
  "audit_start = \<lparr>as_db = \<lparr>db_rows = [], db_anchors = []\<rparr>, as_written = [], as_passes = {#}\<rparr>"

inductive audit_step ::
  "(string \<Rightarrow> string) \<Rightarrow> (int \<Rightarrow> nat \<Rightarrow> string) \<Rightarrow> audit_state \<Rightarrow> audit_state \<Rightarrow> bool" for sha fr where
  written:
    "0 < seq \<Longrightarrow> \<forall>r\<in>set (as_written s). aw_seq r < seq \<Longrightarrow>
     audit_record sha fr acting_as accepted seq given (as_db s) = (e, db') \<Longrightarrow>
     audit_step sha fr s (s\<lparr>as_db := db',
       as_written := as_written s @ (if accepted then [last (db_rows db')] else [])\<rparr>)"
| pass_begun:
    "prune_read cutoff sink batch (as_db s) = Ok (Some p) \<Longrightarrow>
     audit_step sha fr s (s\<lparr>as_passes := add_mset p (as_passes s)\<rparr>)"
| pass_done:
    "(through, hash, exported) \<in># as_passes s \<Longrightarrow>
     audit_step sha fr s (s\<lparr>as_db := prune_cut through hash exported cutoff performed_by reason (as_db s),
       as_passes := as_passes s - {#(through, hash, exported)#}\<rparr>)"

inductive audit_reachable :: "(string \<Rightarrow> string) \<Rightarrow> (int \<Rightarrow> nat \<Rightarrow> string) \<Rightarrow> audit_state \<Rightarrow> bool" for sha fr where
  start: "audit_reachable sha fr audit_start"
| step: "audit_reachable sha fr s \<Longrightarrow> audit_step sha fr s s' \<Longrightarrow> audit_reachable sha fr s'"

definition history_ok :: "(string \<Rightarrow> string) \<Rightarrow> (int \<Rightarrow> nat \<Rightarrow> string) \<Rightarrow> audit_row list \<Rightarrow> bool" where
  "history_ok sha fr W = (chained sha fr GENESIS (map verifiable W) \<and> sorted_wrt (<) (map aw_seq W) \<and>
     (\<forall>r\<in>set W. 0 < aw_seq r))"

definition marks_row :: "audit_row list \<Rightarrow> int \<Rightarrow> string \<Rightarrow> bool" where
  "marks_row W n h = (\<exists>r\<in>set W. aw_seq r = n \<and> aw_hash r = h)"

definition survives :: "retention_anchor list \<Rightarrow> audit_row \<Rightarrow> bool" where
  "survives anchors r = (\<forall>a\<in>set anchors. an_seq a < aw_seq r)"

definition audit_inv :: "(string \<Rightarrow> string) \<Rightarrow> (int \<Rightarrow> nat \<Rightarrow> string) \<Rightarrow> audit_state \<Rightarrow> bool" where
  "audit_inv sha fr s = (history_ok sha fr (as_written s) \<and>
     (\<forall>a\<in>set (db_anchors (as_db s)). marks_row (as_written s) (an_seq a) (an_hash a)) \<and>
     db_rows (as_db s) = filter (survives (db_anchors (as_db s))) (as_written s) \<and>
     (\<forall>p\<in>#as_passes s. marks_row (as_written s) (fst p) (fst (snd p))))"

lemma sort_key_sorted: "sorted (map f xs) \<Longrightarrow> sort_key f xs = xs"
  by (induction xs) (simp_all add: insort_is_Cons)

lemma by_seq_id: "sorted_wrt (<) (map aw_seq rows) \<Longrightarrow> by_seq rows = rows"
  unfolding by_seq_def by (intro sort_key_sorted) (simp add: strict_sorted_iff)

lemma newest_row: "sorted_wrt (<) (map aw_seq (rows :: audit_row list)) \<Longrightarrow> newest aw_seq rows = (if rows = [] then None else Some (last rows))"
  using by_seq_id[of rows] by (simp add: newest_def by_seq_def)

lemma newest_Some:
  assumes "newest f xs = Some a"
  shows "a \<in> set xs \<and> (\<forall>b\<in>set xs. f b \<le> f a)"
proof -
  have ne: "sort_key f xs \<noteq> []" and a: "a = last (sort_key f xs)"
    using assms by (auto simp: newest_def split: if_splits) (metis length_0_conv length_sort)
  have "f b \<le> f a" if h: "b \<in> set (sort_key f xs)" for b
    using sorted_sort_key[of f xs] ne h a
    by (cases "sort_key f xs" rule: rev_cases) (auto simp: sorted_append)
  then show ?thesis using last_in_set[OF ne] a by simp
qed

lemma newest_None: "newest f xs = None \<longleftrightarrow> xs = []"
  by (simp add: newest_def)

lemma sorted_cut:
  assumes "sorted_wrt (<) (map aw_seq W)"
  shows "W = filter (\<lambda>r. aw_seq r \<le> c) W @ filter (\<lambda>r. c < aw_seq r) W"
  using assms
proof (induction W)
  case (Cons r W)
  show ?case
  proof (cases "aw_seq r \<le> c")
    case False
    then have "filter (\<lambda>r. aw_seq r \<le> c) W = []" "filter (\<lambda>r. c < aw_seq r) W = W"
      using Cons.prems by (auto simp: filter_empty_conv filter_id_conv)
    then show ?thesis using False by simp
  qed (use Cons in simp)
qed simp

lemma history_hash_ne:
  assumes "history_ok sha fr W" and "\<And>x. length (sha x) = 64" and "r \<in> set W"
  shows "aw_hash r \<noteq> []"
proof -
  obtain xs ys where W: "W = xs @ r # ys" using split_list[OF assms(3)] by blast
  then have "aw_hash r = sha (end_from GENESIS (map verifiable xs) @ canonical fr (event_columns (aw_event r)))"
    using assms(1) by (simp add: history_ok_def chained_append link_def verifiable_def)
  then have "length (aw_hash r) = 64" using assms(2) by simp
  then show ?thesis by auto
qed

text \<open>The rows that are gone are the beginning of the history, and the trail starts where they end.\<close>

lemma trail_start:
  assumes "history_ok sha fr W" and "\<And>x. length (sha x) = 64"
    and "\<forall>a\<in>set (db_anchors db). marks_row W (an_seq a) (an_hash a)"
  shows "\<exists>P. W = P @ filter (survives (db_anchors db)) W \<and> starting_hash db = end_from GENESIS (map verifiable P)"
proof (cases "newest an_seq (db_anchors db)")
  case None
  then show ?thesis
    by (intro exI[of _ "[]"]) (simp add: starting_hash_def newest_def survives_def split: if_splits)
next
  case (Some a)
  note max = newest_Some[OF Some]
  have S: "survives (db_anchors db) = (\<lambda>r. an_seq a < aw_seq r)"
    using max by (fastforce simp: survives_def fun_eq_iff)
  let ?P = "filter (\<lambda>r. aw_seq r \<le> an_seq a) W"
  have sorted: "sorted_wrt (<) (map aw_seq W)" using assms(1) by (simp add: history_ok_def)
  obtain r where r: "r \<in> set W" "aw_seq r = an_seq a" "aw_hash r = an_hash a"
    using assms(3) max by (auto simp: marks_row_def)
  have ne: "?P \<noteq> []" using r by (force simp: filter_empty_conv)
  have "last ?P = r"
  proof (rule ccontr)
    assume n: "last ?P \<noteq> r"
    obtain ys y where P: "?P = ys @ [y]" using ne by (cases ?P rule: rev_cases) auto
    have "r \<in> set ?P" using r(1,2) by simp
    then have "r \<in> set ys" using n unfolding P by auto
    moreover have "y \<in> set ?P" unfolding P by simp
    then have "aw_seq y \<le> an_seq a" by simp
    moreover have "sorted_wrt (<) (map aw_seq (ys @ [y]))"
      unfolding P[symmetric] using sorted by (simp add: sorted_wrt_map sorted_wrt_filter)
    ultimately show False using r(2) by (fastforce simp: sorted_wrt_append)
  qed
  then have e: "end_from GENESIS (map verifiable ?P) = an_hash a"
    using ne r(3) by (simp add: end_from_def last_map verifiable_def)
  have "an_hash a \<noteq> []" using history_hash_ne[OF assms(1,2) r(1)] r(3) by simp
  then have "starting_hash db = an_hash a" using Some by (simp add: starting_hash_def)
  then show ?thesis using sorted_cut[OF sorted, of "an_seq a"] e S by (intro exI[of _ ?P]) simp
qed

lemma inv_trail:
  assumes "audit_inv sha fr s" and "\<And>x. length (sha x) = 64"
  obtains P where "as_written s = P @ db_rows (as_db s)"
    and "starting_hash (as_db s) = end_from GENESIS (map verifiable P)"
    and "chained sha fr (starting_hash (as_db s)) (map verifiable (db_rows (as_db s)))"
    and "sorted_wrt (<) (map aw_seq (db_rows (as_db s)))" and "\<forall>r\<in>set (db_rows (as_db s)). 0 < aw_seq r"
proof -
  let ?W = "as_written s" and ?db = "as_db s"
  have h: "history_ok sha fr ?W" and a: "\<forall>a\<in>set (db_anchors ?db). marks_row ?W (an_seq a) (an_hash a)"
    and rows: "db_rows ?db = filter (survives (db_anchors ?db)) ?W"
    using assms(1) by (simp_all add: audit_inv_def)
  obtain P where P: "?W = P @ db_rows ?db" "starting_hash ?db = end_from GENESIS (map verifiable P)"
    using trail_start[OF h assms(2) a] rows by auto
  have c: "chained sha fr GENESIS (map verifiable (P @ db_rows ?db))"
    and o: "sorted_wrt (<) (map aw_seq (P @ db_rows ?db))"
    and z: "\<forall>r\<in>set (P @ db_rows ?db). 0 < aw_seq r"
    using h unfolding P(1)[symmetric] by (simp_all add: history_ok_def)
  show thesis
  proof (rule that[OF P])
    show "chained sha fr (starting_hash ?db) (map verifiable (db_rows ?db))"
      using c P(2) by (simp add: chained_append)
    show "sorted_wrt (<) (map aw_seq (db_rows ?db))" using o by (simp add: sorted_wrt_append)
    show "\<forall>r\<in>set (db_rows ?db). 0 < aw_seq r" using z by simp
  qed
qed

lemma inv_head:
  assumes "audit_inv sha fr s" and "\<And>x. length (sha x) = 64"
  shows "chain_head (as_db s) = end_from GENESIS (map verifiable (as_written s)) \<and>
     (case newest aw_seq (db_rows (as_db s)) of Some r \<Rightarrow> aw_hash r | None \<Rightarrow> starting_hash (as_db s)) =
       end_from GENESIS (map verifiable (as_written s))"
proof -
  obtain P where P: "as_written s = P @ db_rows (as_db s)"
    and st: "starting_hash (as_db s) = end_from GENESIS (map verifiable P)"
    and o: "sorted_wrt (<) (map aw_seq (db_rows (as_db s)))"
    using inv_trail[OF assms] by metis
  show ?thesis
  proof (cases "db_rows (as_db s) = []")
    case True
    then show ?thesis using P st by (simp add: chain_head_def newest_def)
  next
    case False
    let ?l = "last (db_rows (as_db s))"
    have l: "newest aw_seq (db_rows (as_db s)) = Some ?l" using newest_row[OF o] False by simp
    have "?l \<in> set (as_written s)" using P False by simp
    then have "aw_hash ?l \<noteq> []"
      using history_hash_ne[OF _ assms(2)] assms(1) by (auto simp: audit_inv_def)
    moreover have "end_from GENESIS (map verifiable (as_written s)) = aw_hash ?l"
      using P False by (simp add: end_from_def last_map verifiable_def)
    ultimately show ?thesis using l by (simp add: chain_head_def)
  qed
qed

lemma marks_row_mono: "marks_row W n h \<Longrightarrow> marks_row (W @ V) n h"
  by (auto simp: marks_row_def)

lemma prune_read_marks:
  assumes "prune_read cutoff sink batch db = Ok (Some (through, hash, exported))" and "set (db_rows db) \<subseteq> set W"
  shows "marks_row W through hash"
proof -
  obtain r where "newest aw_seq (filter (\<lambda>r. ae_timestamp (aw_event r) < cutoff) (db_rows db)) = Some r"
    "through = aw_seq r" "hash = aw_hash r"
    using assms(1) by (auto simp: prune_read_def boundary_def split: option.splits prod.splits)
  then show ?thesis using newest_Some assms(2) by (fastforce simp: marks_row_def)
qed

lemma audit_step_inv:
  assumes "audit_step sha fr s s'" and "audit_inv sha fr s" and len: "\<And>x. length (sha x) = 64"
  shows "audit_inv sha fr s'"
  using assms(1)
proof cases
  case (written seq acting_as accepted given e db')
  show ?thesis
  proof (cases accepted)
    case False
    then show ?thesis
      using written(1,4) assms(2) by (auto simp: audit_inv_def audit_record_def audit_write_def Let_def)
  next
    case True
    let ?prev = "end_from GENESIS (map verifiable (as_written s))"
    let ?row = "\<lparr>aw_seq = seq, aw_event = e, aw_prev_hash = ?prev, aw_hash = link sha fr ?prev (event_columns e)\<rparr>"
    have db: "db' = (as_db s)\<lparr>db_rows := db_rows (as_db s) @ [?row]\<rparr>"
      using written(4) True inv_head[OF assms(2) len]
      by (auto simp: audit_record_def audit_write_def Let_def)
    have h: "history_ok sha fr (as_written s)" using assms(2) by (simp add: audit_inv_def)
    have "history_ok sha fr (as_written s @ [?row])"
      using h written(2,3) by (simp add: history_ok_def chained_append sorted_wrt_append verifiable_def)
    moreover have "survives (db_anchors (as_db s)) ?row"
      using assms(2) written(3) by (fastforce simp: survives_def audit_inv_def marks_row_def)
    ultimately show ?thesis
      using written(1) db True assms(2) marks_row_mono by (simp add: audit_inv_def)
  qed
next
  case (pass_begun cutoff sink batch p)
  obtain through hash exported where p: "p = (through, hash, exported)" by (cases p)
  have "set (db_rows (as_db s)) \<subseteq> set (as_written s)" using assms(2) by (simp add: audit_inv_def)
  then have "marks_row (as_written s) through hash"
    using prune_read_marks pass_begun(2) p by blast
  then show ?thesis using pass_begun(1) p assms(2) by (simp add: audit_inv_def)
next
  case (pass_done through hash exported cutoff performed_by reason)
  have m: "marks_row (as_written s) through hash" using assms(2) pass_done(2) by (auto simp: audit_inv_def)
  have q: "\<forall>q\<in>#as_passes s - {#(through, hash, exported)#}. marks_row (as_written s) (fst q) (fst (snd q))"
    using assms(2) by (auto simp: audit_inv_def dest: in_diffD)
  have "filter (\<lambda>r. \<not> aw_seq r \<le> through) (db_rows (as_db s)) =
      filter (survives (db_anchors (as_db s) @ [\<lparr>an_seq = through, an_hash = hash, an_count = exported,
          an_cutoff = cutoff, an_performed_by = performed_by, an_reason = reason\<rparr>])) (as_written s)"
    using assms(2) by (auto simp: audit_inv_def survives_def not_le intro!: filter_cong)
  then show ?thesis using pass_done(1) m q assms(2) by (simp add: audit_inv_def prune_cut_def)
qed

lemma audit_reachable_inv:
  assumes "audit_reachable sha fr s" and "\<And>x. length (sha x) = 64"
  shows "audit_inv sha fr s"
  using assms(1)
proof induction
  case start
  show ?case by (simp add: audit_inv_def audit_start_def history_ok_def)
next
  case (step s s')
  show ?case by (rule audit_step_inv[OF step.hyps(2) step.IH assms(2)])
qed

text \<open>C11. An honest trail always verifies.  Over every history of events written and retention passes,
  with passes and writers interleaving, the verifier finds no break in what survives, whatever batch
  size it uses; and the head it publishes is the hash of the last event ever written, so emptying the
  table by retention does not reset it.\<close>

theorem audit_trail_verifies:
  assumes "audit_reachable sha fr s" and "\<And>x. length (sha x) = 64" and "0 < batch"
  shows "verify_chain sha fr batch (as_db s) = None \<and>
     chain_head (as_db s) = chain_end (map verifiable (as_written s))"
proof -
  have i: "audit_inv sha fr s" using audit_reachable_inv[OF assms(1,2)] .
  obtain c: "chained sha fr (starting_hash (as_db s)) (map verifiable (db_rows (as_db s)))"
    and o: "sorted_wrt (<) (map aw_seq (db_rows (as_db s)))" and z: "\<forall>r\<in>set (db_rows (as_db s)). 0 < aw_seq r"
    using inv_trail[OF i assms(2)] by metis
  have "distinct (map aw_seq (db_rows (as_db s)))" using o by (simp add: strict_sorted_iff)
  moreover have "filter (\<lambda>r. 0 < aw_seq r) (db_rows (as_db s)) = db_rows (as_db s)" using z by (simp add: filter_id_conv)
  moreover have "ev_seq \<circ> verifiable = aw_seq" by (simp add: fun_eq_iff verifiable_def)
  ultimately have "verify_chain sha fr batch (as_db s) = None"
    using c o assms(3) by (simp add: verify_chain_def verify_walk_from by_seq_id verify_from_None)
  then show ?thesis using inv_head[OF i assms(2)] by (simp add: chain_end_from)
qed

definition sample_audit_event :: "string \<Rightarrow> int \<Rightarrow> audit_event" where
  "sample_audit_event eid at = \<lparr>ae_event_type = AUTH_SUCCESS, ae_outcome = SUCCESS, ae_timestamp = at,
     ae_correlation_id = ''c'', ae_event_id = eid, ae_actor = Some ''sam'', ae_subject = None, ae_target = None,
     ae_reason = None, ae_source_ip = None, ae_user_agent = None, ae_session_id = None, ae_detail = []\<rparr>"

abbreviation no_repr :: "int \<Rightarrow> nat \<Rightarrow> string" where "no_repr \<equiv> \<lambda>m k. []"

definition sample_audit_row :: "int \<Rightarrow> int \<Rightarrow> string \<Rightarrow> audit_row" where
  "sample_audit_row n at prev = \<lparr>aw_seq = n, aw_event = sample_audit_event ''e'' at, aw_prev_hash = prev,
     aw_hash = link sample_sha no_repr prev (event_columns (sample_audit_event ''e'' at))\<rparr>"

text \<open>A trail of two rows, the second linked to the first.\<close>

definition sample_db :: "int \<Rightarrow> int \<Rightarrow> audit_db" where
  "sample_db at1 at2 = (let r = sample_audit_row 1 at1 GENESIS in
     \<lparr>db_rows = [r, sample_audit_row 2 at2 (aw_hash r)], db_anchors = []\<rparr>)"

lemma sample_db_distinct: "distinct (map aw_seq (db_rows (sample_db at1 at2)))"
  by (simp add: sample_db_def sample_audit_row_def Let_def)

theorem verify_chain_batches_witness:
  "verify_chain sample_sha no_repr 1 (sample_db 0 1) = None"
  using verify_chain_batches[OF sample_db_distinct, of 1 sample_sha no_repr 0 1]
  by (simp add: sample_db_def Let_def starting_hash_def newest_def by_seq_def sample_audit_row_def
      verify_from_def verifiable_def)

theorem audit_trail_verifies_witness:
  "\<exists>s. audit_reachable sample_sha no_repr s \<and> length (as_written s) = 1 \<and> db_rows (as_db s) = [] \<and>
     verify_chain sample_sha no_repr 1 (as_db s) = None \<and>
     chain_head (as_db s) = chain_end (map verifiable (as_written s))"
proof -
  let ?e = "sample_audit_event ''e'' 0" and ?s0 = audit_start
  obtain e db1 where w: "audit_record sample_sha no_repr None True 1 ?e (as_db ?s0) = (e, db1)"
    by (metis surj_pair)
  have db1: "length (db_rows db1) = 1" "aw_seq (hd (db_rows db1)) = 1" "ae_timestamp (aw_event (hd (db_rows db1))) = 0"
    using w by (auto simp: audit_record_def audit_write_def Let_def audit_start_def new_event_def sample_audit_event_def)
  then obtain r where r: "db_rows db1 = [r]" "aw_seq r = 1" "ae_timestamp (aw_event r) = 0"
    by (cases "db_rows db1") auto
  let ?s1 = "?s0\<lparr>as_db := db1, as_written := as_written ?s0 @ [last (db_rows db1)]\<rparr>"
  have 1: "audit_step sample_sha no_repr ?s0 ?s1"
    using audit_step.written[OF _ _ w] by (simp add: audit_start_def)
  have p1: "page 0 1 [r] = [r]" and p2: "page 1 1 [r] = []" using r by (simp_all add: page_def by_seq_def)
  have "export_walk (\<lambda>p. True) 1 0 1 [r] = Some [r]"
    using p1 p2 r(2) by (subst export_walk.simps, subst export_walk.simps) (simp add: Let_def)
  then have "prune_read 10 (\<lambda>p. True) 1 (as_db ?s1) = Ok (Some (1, aw_hash r, 1))"
    using r by (simp add: prune_read_def boundary_def newest_def)
  note 2 = audit_step.pass_begun[OF this, where sha = sample_sha and fr = no_repr]
  let ?s2 = "?s1\<lparr>as_passes := add_mset (1, aw_hash r, 1) (as_passes ?s1)\<rparr>"
  have m: "(1, aw_hash r, 1) \<in># as_passes ?s2" by simp
  note 3 = audit_step.pass_done[OF m, where sha = sample_sha and fr = no_repr]
  let ?s3 = "?s2\<lparr>as_db := prune_cut 1 (aw_hash r) 1 10 ''ops'' ''retention'' (as_db ?s2),
    as_passes := as_passes ?s2 - {#(1, aw_hash r, 1)#}\<rparr>"
  have reach: "audit_reachable sample_sha no_repr ?s3"
    using audit_reachable.start 1 2 3 by (meson audit_reachable.step)
  have "length (as_written ?s3) = 1" "db_rows (as_db ?s3) = []"
    using r by (simp_all add: audit_start_def prune_cut_def)
  with reach audit_trail_verifies[OF reach length_sample_sha zero_less_one] show ?thesis by blast
qed

section \<open>What a retention pass removes\<close>

text \<open>Nothing is deleted that was not exported: when a pass reports a cut, the rows handed to the sink
  were, oldest first, exactly those at or below the cut, every one of them is gone, every other row is
  kept, and an anchor with the hash of the last removed event has been added; when the sink fails, the
  trail is untouched.\<close>

theorem prune_exports_removed:
  assumes "distinct (map aw_seq (db_rows db))" and "\<forall>r\<in>set (db_rows db). 0 < aw_seq r" and "0 < batch"
  shows "(case prune (\<lambda>e d. d) at older sink batch who why eid cid db of
       (Inl e, db') \<Rightarrow> db' = db
     | (Inr res, db') \<Rightarrow> (case pr_through_seq res of
           None \<Rightarrow> db' = db
         | Some n \<Rightarrow> export_walk sink batch 0 n (db_rows db) = Some (filter (\<lambda>r. aw_seq r \<le> n) (by_seq (db_rows db))) \<and>
             pr_removed res = length (filter (\<lambda>r. aw_seq r \<le> n) (db_rows db)) \<and>
             db_rows db' = filter (\<lambda>r. n < aw_seq r) (db_rows db) \<and>
             (\<exists>r\<in>set (db_rows db). \<exists>a. aw_seq r = n \<and> db_anchors db' = db_anchors db @ [a] \<and>
                an_seq a = n \<and> an_hash a = aw_hash r \<and> an_count a = pr_removed res)))"
proof (cases "boundary (at - older) (db_rows db)")
  case None
  then show ?thesis by (simp add: prune_def prune_read_def Let_def)
next
  case (Some b)
  obtain n h where b: "b = (n, h)" by (cases b)
  obtain r where r: "r \<in> set (db_rows db)" "aw_seq r = n" "aw_hash r = h"
    using Some b newest_Some by (fastforce simp: boundary_def)
  show ?thesis
  proof (cases "export_walk sink batch 0 n (db_rows db)")
    case None
    then show ?thesis using Some b by (simp add: prune_def prune_read_def Let_def)
  next
    case (Some ex)
    have "ex = filter (\<lambda>r. 0 < aw_seq r \<and> aw_seq r \<le> n) (by_seq (db_rows db))"
      by (rule export_walk_all[OF assms(1,3) Some])
    also have "\<dots> = filter (\<lambda>r. aw_seq r \<le> n) (by_seq (db_rows db))"
      using assms(2) by (intro filter_cong) (simp_all add: by_seq_def)
    finally have ex: "ex = filter (\<lambda>r. aw_seq r \<le> n) (by_seq (db_rows db))" .
    have "length ex = length (filter (\<lambda>r. aw_seq r \<le> n) (db_rows db))"
      unfolding ex by_seq_def by (simp add: filter_sort)
    then show ?thesis
      using r Some ex b \<open>boundary (at - older) (db_rows db) = Some b\<close>
      by (auto simp: prune_def prune_read_def Let_def prune_cut_def not_le intro!: bexI[of _ r])
  qed
qed

lemma export_walk_willing: "\<exists>ex. export_walk (\<lambda>p. True) batch after through rows = Some ex"
proof (induction "\<lambda>p :: audit_row list. True" batch after through rows rule: export_walk.induct)
  case (1 batch after through rows)
  show ?case
  proof (cases "page after batch (filter (\<lambda>r. aw_seq r \<le> through) rows) = []")
    case True
    then show ?thesis by (subst export_walk.simps) (simp add: Let_def)
  next
    case False
    then show ?thesis using 1[OF refl False] by (subst export_walk.simps) (auto simp: Let_def)
  qed
qed

lemma sample_db_facts:
  "\<forall>r\<in>set (db_rows (sample_db at1 at2)). 0 < aw_seq r"
  "db_anchors (sample_db at1 at2) = []" "by_seq (db_rows (sample_db at1 at2)) = db_rows (sample_db at1 at2)"
  "map aw_seq (db_rows (sample_db at1 at2)) = [1, 2]"
  "map (\<lambda>r. ae_timestamp (aw_event r)) (db_rows (sample_db at1 at2)) = [at1, at2]"
  by (simp_all add: sample_db_def Let_def sample_audit_row_def sample_audit_event_def by_seq_def)

lemma sample_prune:
  assumes "boundary cutoff (db_rows (sample_db at1 at2)) = Some (n, h)" and "cutoff = at - older"
  shows "\<exists>res db'. prune (\<lambda>e d. d) at older (\<lambda>p. True) 1000 who why eid cid (sample_db at1 at2) = (Ok res, db') \<and>
     pr_through_seq res = Some n \<and> pr_removed res = length (filter (\<lambda>r. aw_seq r \<le> n) (db_rows (sample_db at1 at2))) \<and>
     db_rows db' = filter (\<lambda>r. n < aw_seq r) (db_rows (sample_db at1 at2))"
proof -
  let ?db = "sample_db at1 at2"
  obtain ex where ex: "export_walk (\<lambda>p. True) 1000 0 n (db_rows ?db) = Some ex" using export_walk_willing by blast
  have "ex = filter (\<lambda>r. 0 < aw_seq r \<and> aw_seq r \<le> n) (by_seq (db_rows ?db))"
    by (rule export_walk_all[OF sample_db_distinct _ ex]) simp
  also have "\<dots> = filter (\<lambda>r. aw_seq r \<le> n) (db_rows ?db)"
    unfolding sample_db_facts(3) using sample_db_facts(1) by (intro filter_cong) auto
  finally show ?thesis using ex assms by (simp add: prune_def prune_read_def Let_def prune_cut_def not_le)
qed

theorem prune_exports_removed_witness:
  "\<exists>res db'. prune (\<lambda>e d. d) 60 10 (\<lambda>p. True) 1000 ''ops'' ''age'' ''e'' ''c'' (sample_db 0 100) = (Ok res, db') \<and>
     pr_through_seq res = Some 1 \<and>
     export_walk (\<lambda>p. True) 1000 0 1 (db_rows (sample_db 0 100)) = Some [sample_audit_row 1 0 GENESIS]"
proof -
  have b: "boundary 50 (db_rows (sample_db 0 100)) = Some (1, aw_hash (sample_audit_row 1 0 GENESIS))"
    by (simp add: boundary_def newest_def sample_db_def Let_def sample_audit_row_def sample_audit_event_def)
  obtain res db' where p: "prune (\<lambda>e d. d) 60 10 (\<lambda>p. True) 1000 ''ops'' ''age'' ''e'' ''c'' (sample_db 0 100) = (Ok res, db')"
    "pr_through_seq res = Some 1"
    using sample_prune[OF b, of 60 10 "''ops''" "''age''" "''e''" "''c''"] by auto
  have "export_walk (\<lambda>p. True) 1000 0 1 (db_rows (sample_db 0 100)) =
      Some (filter (\<lambda>r. aw_seq r \<le> 1) (by_seq (db_rows (sample_db 0 100))))"
    using prune_exports_removed[OF sample_db_distinct[of 0 100] sample_db_facts(1), where batch = 1000 and at = 60
        and older = 10 and sink = "\<lambda>p. True" and who = "''ops''" and why = "''age''" and eid = "''e''" and cid = "''c''"] p
    by simp
  then show ?thesis using p by (simp add: sample_db_facts(3)) (simp add: sample_db_def Let_def sample_audit_row_def)
qed

text \<open>One backdated event takes recent ones with it: the cut is the newest row older than the
  cutoff, and everything below it in the sequence goes, however recent; a pass over a trail whose
  second event carries an old time removes the first event too, which is inside the window, although
  the count of what is due says one.\<close>

theorem backdated_event_prunes_recent:
  "due 60 10 (sample_db 100 0) = 1 \<and>
   (\<exists>res db'. prune (\<lambda>e d. d) 60 10 (\<lambda>p. True) 1000 ''ops'' ''age'' ''e'' ''c'' (sample_db 100 0) = (Ok res, db') \<and>
      pr_removed res = 2 \<and> db_rows db' = [])"
proof -
  have b: "boundary 50 (db_rows (sample_db 100 0)) =
      Some (2, aw_hash (sample_audit_row 2 0 (aw_hash (sample_audit_row 1 100 GENESIS))))"
    by (simp add: boundary_def newest_def sample_db_def Let_def sample_audit_row_def sample_audit_event_def)
  have "due 60 10 (sample_db 100 0) = 1"
    by (simp add: due_def sample_db_def Let_def sample_audit_row_def sample_audit_event_def)
  then show ?thesis using sample_prune[OF b, of 60 10 "''ops''" "''age''" "''e''" "''c''"]
    by (auto simp: sample_db_def Let_def sample_audit_row_def)
qed

text \<open>A retention pass during a verification raises a false alarm: the verifier reads the starting
  hash first, and a pass that commits before the first batch is read makes the oldest surviving row
  look unlinked, although the trail verifies before the pass and after it.\<close>

theorem pass_during_verification_false_alarm:
  "let db = sample_db 0 1; r = hd (db_rows db); f = last (db_rows db);
       db' = prune_cut 1 (aw_hash r) 1 1 ''ops'' ''age'' db in
   verify_chain sample_sha no_repr 5000 db = None \<and> verify_chain sample_sha no_repr 5000 db' = None \<and>
   verify_walk sample_sha no_repr 5000 (starting_hash db) 0 (db_rows db') = Some (broken_at (verifiable f) UNLINKED)"
proof -
  let ?r = "sample_audit_row 1 0 GENESIS"
  let ?f = "sample_audit_row 2 1 (aw_hash ?r)"
  have g: "link sample_sha no_repr GENESIS (event_columns (sample_audit_event ''e'' 0)) \<noteq> GENESIS" by code_simp
  have ne: "link sample_sha no_repr GENESIS (event_columns (sample_audit_event ''e'' 0)) \<noteq> []"
    using length_sample_sha by (metis link_def list.size(3) zero_neq_numeral)
  have w: "verify_walk sample_sha no_repr 5000 h 0 [?r, ?f] =
        verify_from sample_sha no_repr h (map verifiable [?r, ?f])"
    "verify_walk sample_sha no_repr 5000 h 0 [?f] = verify_from sample_sha no_repr h (map verifiable [?f])" for h
    by (simp_all add: verify_walk_from by_seq_def sample_audit_row_def)
  have rows: "db_rows (sample_db 0 1) = [?r, ?f]" by (simp add: sample_db_def Let_def)
  have cut: "filter (\<lambda>r. \<not> aw_seq r \<le> 1) [?r, ?f] = [?f]" by (simp add: sample_audit_row_def)
  show ?thesis
    using g ne unfolding Let_def verify_chain_def prune_cut_def rows
    by (simp add: cut w sample_db_facts(2) starting_hash_def newest_def rows)
       (simp add: w verify_from_def verifiable_def sample_audit_row_def)
qed

section \<open>What reaches the trail\<close>

text \<open>What may happen to one attribute of the record.\<close>

definition public_only :: "string \<times> audit_value \<Rightarrow> string \<times> audit_value \<Rightarrow> bool" where
  "public_only given kept = (snd kept = (case attribute_of (fst given) of
     Some a \<Rightarrow> if ad_classification a = PUBLIC then snd given else AStr REDACTED | None \<Rightarrow> AStr REDACTED))"

text \<open>Redaction keeps every name and is final: a value whose key names a credential is always the
  marker, under \<open>attributes\<close> only values of attributes classified public survive, everything else at
  the top level is recorded as given, and redacting again changes nothing.\<close>

theorem redact_exact:
  "map fst (redact d) = map fst d \<and> redact (redact d) = redact d \<and>
   list_all2 (\<lambda>(k, v) (k', w). if is_secret k then w = AStr REDACTED
     else if k = ''attributes'' then (case v of
         ADict given \<Rightarrow> (\<exists>kept. w = ADict kept \<and> map fst kept = map fst given \<and>
           list_all2 public_only given kept)
       | _ \<Rightarrow> w = v)
     else w = v) d (redact d)"
proof -
  have a: "map fst (redact_attributes x) = map fst x" "redact_attributes (redact_attributes x) = redact_attributes x" for x
    by (auto simp: redact_attributes_def split: option.splits)
  have k: "list_all2 public_only x (redact_attributes x)" for x
    by (auto simp: redact_attributes_def public_only_def list.rel_map list_all2_same split: option.splits)
  have "redact (redact d) = redact d"
    unfolding redact_def map_map comp_def
    by (rule map_cong[OF refl]) (auto simp: a split: audit_value.splits)
  moreover have "map fst (redact d) = map fst d" by (auto simp: redact_def)
  ultimately show ?thesis
    using a k by (auto simp: redact_def list.rel_map list_all2_same split: audit_value.splits)
qed

text \<open>Redaction looks at the top level only: a credential one level down is recorded as given.\<close>

theorem nested_secret_recorded:
  "is_secret ''client_secret'' \<and>
   redact [(''client'', ADict [(''client_secret'', AStr s)])] = [(''client'', ADict [(''client_secret'', AStr s)])]"
proof -
  have "is_secret ''client_secret''" "\<not> is_secret ''client''" by code_simp+
  then show ?thesis by (simp add: redact_def)
qed

text \<open>Every event recorded while somebody acts as somebody else names the impersonator, whatever
  the caller put in the detail: the marker overrides a supplied value and survives redaction.\<close>

theorem impersonation_recorded:
  "let e = fst (audit_record sha fr (Some who) accepted seq given db) in
   map_of (ae_detail e) ''impersonated_by'' = Some (AStr who) \<and> map_of (ae_detail e) ''impersonation'' = Some (ABool True)"
proof -
  have put: "map_of (put k v d) k' = (if k' = k then Some v else map_of d k')" for k k' v and d :: event_fields
  proof (cases "k \<in> fst ` set d")
    case True
    have "map_of (map (\<lambda>(x, y). (x, if x = k then v else y)) xs) k' =
        (if k' \<in> fst ` set xs then Some (if k' = k then v else the (map_of xs k')) else None)" for xs :: event_fields
      by (induction xs) auto
    then show ?thesis using True map_of_eq_None_iff[of d k'] by (auto simp: put_def)
  next
    case False
    then have "map_of d k = None" by (simp add: map_of_eq_None_iff)
    then show ?thesis using False by (auto simp: put_def map_add_def split: option.split)
  qed
  have red: "map_of (redact d) k = map_of d k" if h: "k \<noteq> ''attributes''" "\<not> is_secret k" for d k
    unfolding redact_def using h by (induction d) (auto split: audit_value.splits)
  have "\<not> is_secret ''impersonated_by''" "\<not> is_secret ''impersonation''" by code_simp+
  then have "map_of (redact d) ''impersonated_by'' = map_of d ''impersonated_by''"
    "map_of (redact d) ''impersonation'' = map_of d ''impersonation''" for d
    by (auto intro!: red)
  then show ?thesis by (simp add: audit_record_def new_event_def marked_def Let_def put)
qed

end
