(* ===== verification/BrokerErrors.thy ===== *)
theory BrokerErrors
  imports Prelude
begin

text \<open>
  The broker's refusals (\<open>errors.py\<close>, \<open>oidc/errors.py\<close>): the registry of internal reason codes, the
  coarse OAuth error a client is told, and which refusals may be sent to a redirect URI.  The prose of a
  refusal is left out.
\<close>

datatype reason_code =
    R_PAYLOAD_TOO_LARGE | R_MALFORMED_RESPONSE | R_XML_HARDENING_VIOLATION | R_DUPLICATE_ELEMENT_ID
  | R_SIGNATURE_WRAPPING_DETECTED | R_IDP_ERROR_STATUS | R_UNKNOWN_ISSUER | R_ISSUER_MISMATCH
  | R_SIGNATURE_MISSING | R_SIGNATURE_INVALID | R_WEAK_ALGORITHM | R_DECRYPTION_FAILED
  | R_UNSUPPORTED_ENCRYPTION_ALGORITHM | R_DESTINATION_MISMATCH | R_UNKNOWN_INRESPONSETO | R_UNSOLICITED_RESPONSE
  | R_REQUEST_BINDING_INVALID | R_SUBJECT_CONFIRMATION_INVALID | R_AUDIENCE_MISMATCH | R_ASSERTION_NOT_YET_VALID
  | R_ASSERTION_EXPIRED | R_UNSUPPORTED_CONDITION | R_MISSING_AUTHN_STATEMENT | R_REPLAY_DETECTED
  | R_METADATA_INVALID | R_METADATA_EXPIRED | R_INVALID_RETURN_URL | R_IDENTITY_REVIEW_REQUIRED
  | R_IDENTITY_SUSPENDED | R_UNKNOWN_CLIENT | R_REDIRECT_URI_MISMATCH | R_CLIENT_AUTHENTICATION_FAILED
  | R_SCOPE_NOT_PERMITTED | R_PKCE_REQUIRED | R_PKCE_METHOD_UNSUPPORTED | R_PKCE_VERIFICATION_FAILED
  | R_GRANT_INVALID | R_GRANT_REVOKED | R_GRANT_REUSE_DETECTED

fun reason_value :: "reason_code \<Rightarrow> string" where
  "reason_value R_PAYLOAD_TOO_LARGE = ''payload_too_large''"
| "reason_value R_MALFORMED_RESPONSE = ''malformed_response''"
| "reason_value R_XML_HARDENING_VIOLATION = ''xml_hardening_violation''"
| "reason_value R_DUPLICATE_ELEMENT_ID = ''duplicate_element_id''"
| "reason_value R_SIGNATURE_WRAPPING_DETECTED = ''signature_wrapping_detected''"
| "reason_value R_IDP_ERROR_STATUS = ''idp_error_status''"
| "reason_value R_UNKNOWN_ISSUER = ''unknown_issuer''"
| "reason_value R_ISSUER_MISMATCH = ''issuer_mismatch''"
| "reason_value R_SIGNATURE_MISSING = ''signature_missing''"
| "reason_value R_SIGNATURE_INVALID = ''signature_invalid''"
| "reason_value R_WEAK_ALGORITHM = ''weak_algorithm''"
| "reason_value R_DECRYPTION_FAILED = ''decryption_failed''"
| "reason_value R_UNSUPPORTED_ENCRYPTION_ALGORITHM = ''unsupported_encryption_algorithm''"
| "reason_value R_DESTINATION_MISMATCH = ''destination_mismatch''"
| "reason_value R_UNKNOWN_INRESPONSETO = ''unknown_inresponseto''"
| "reason_value R_UNSOLICITED_RESPONSE = ''unsolicited_response''"
| "reason_value R_REQUEST_BINDING_INVALID = ''request_binding_invalid''"
| "reason_value R_SUBJECT_CONFIRMATION_INVALID = ''subject_confirmation_invalid''"
| "reason_value R_AUDIENCE_MISMATCH = ''audience_mismatch''"
| "reason_value R_ASSERTION_NOT_YET_VALID = ''assertion_not_yet_valid''"
| "reason_value R_ASSERTION_EXPIRED = ''assertion_expired''"
| "reason_value R_UNSUPPORTED_CONDITION = ''unsupported_condition''"
| "reason_value R_MISSING_AUTHN_STATEMENT = ''missing_authn_statement''"
| "reason_value R_REPLAY_DETECTED = ''replay_detected''"
| "reason_value R_METADATA_INVALID = ''metadata_invalid''"
| "reason_value R_METADATA_EXPIRED = ''metadata_expired''"
| "reason_value R_INVALID_RETURN_URL = ''invalid_return_url''"
| "reason_value R_IDENTITY_REVIEW_REQUIRED = ''identity_review_required''"
| "reason_value R_IDENTITY_SUSPENDED = ''identity_suspended''"
| "reason_value R_UNKNOWN_CLIENT = ''unknown_client''"
| "reason_value R_REDIRECT_URI_MISMATCH = ''redirect_uri_mismatch''"
| "reason_value R_CLIENT_AUTHENTICATION_FAILED = ''client_authentication_failed''"
| "reason_value R_SCOPE_NOT_PERMITTED = ''scope_not_permitted''"
| "reason_value R_PKCE_REQUIRED = ''pkce_required''"
| "reason_value R_PKCE_METHOD_UNSUPPORTED = ''pkce_method_unsupported''"
| "reason_value R_PKCE_VERIFICATION_FAILED = ''pkce_verification_failed''"
| "reason_value R_GRANT_INVALID = ''grant_invalid''"
| "reason_value R_GRANT_REVOKED = ''grant_revoked''"
| "reason_value R_GRANT_REUSE_DETECTED = ''grant_reuse_detected''"

datatype oauth_code = INVALID_REQUEST | INVALID_CLIENT | INVALID_GRANT | UNAUTHORIZED_CLIENT
  | UNSUPPORTED_GRANT_TYPE | UNSUPPORTED_RESPONSE_TYPE | INVALID_SCOPE | ACCESS_DENIED | SERVER_ERROR

datatype oauth_error = OAuthError (oe_error: oauth_code) (oe_reason: reason_code)

definition NEVER_REDIRECTED :: "reason_code set" where
  "NEVER_REDIRECTED = {R_UNKNOWN_CLIENT, R_REDIRECT_URI_MISMATCH}"

definition may_be_redirected :: "oauth_error \<Rightarrow> bool" where
  "may_be_redirected e = (oe_reason e \<notin> NEVER_REDIRECTED)"

abbreviation refuse :: "oauth_code \<Rightarrow> reason_code \<Rightarrow> (oauth_error, 'a) result" where
  "refuse c r \<equiv> Err (OAuthError c r)"

end
