(* ===== verification/Redis.thy ===== *)
theory Redis
  imports Prelude "HOL-Library.FSet"
begin

text \<open>
  What the broker relies on of its Redis server.  The server is not part of the repository: its
  commands are a record of functions the stores take as an argument, and the locale \<open>redis_server\<close>
  states their documented behaviour, through the keys visible at a time.  Time is counted in
  milliseconds on the server's clock; \<open>EX\<close> and \<open>EXPIRE\<close> take seconds.  A stored text is represented by
  the document it encodes.
\<close>

type_synonym time = nat

datatype rvalue = RVal pyval | RSet "string fset"

type_synonym entry = "rvalue \<times> time option"
type_synonym keyspace = "string \<Rightarrow> entry option"

definition alive :: "time \<Rightarrow> entry \<Rightarrow> bool" where
  "alive t e = (case snd e of None \<Rightarrow> True | Some d \<Rightarrow> t < d)"

definition unexpired :: "time \<Rightarrow> keyspace \<Rightarrow> keyspace" where
  "unexpired t m k = (case m k of None \<Rightarrow> None | Some e \<Rightarrow> if alive t e then Some e else None)"

definition deadline :: "time \<Rightarrow> nat \<Rightarrow> time option" where
  "deadline t ex = Some (t + 1000 * ex)"

record 's redis =
  r_get :: "time \<Rightarrow> string \<Rightarrow> 's \<Rightarrow> pyval option"
  r_set :: "time \<Rightarrow> string \<Rightarrow> pyval \<Rightarrow> nat \<Rightarrow> 's \<Rightarrow> 's"
  r_set_nx :: "time \<Rightarrow> string \<Rightarrow> pyval \<Rightarrow> nat \<Rightarrow> 's \<Rightarrow> bool \<times> 's"
  r_delete :: "time \<Rightarrow> string \<Rightarrow> 's \<Rightarrow> 's"
  r_getdel :: "time \<Rightarrow> string \<Rightarrow> 's \<Rightarrow> pyval option \<times> 's"
  r_exists :: "time \<Rightarrow> string \<Rightarrow> 's \<Rightarrow> bool"
  r_sadd :: "time \<Rightarrow> string \<Rightarrow> string \<Rightarrow> 's \<Rightarrow> 's"
  r_srem :: "time \<Rightarrow> string \<Rightarrow> string \<Rightarrow> 's \<Rightarrow> 's"
  r_smembers :: "time \<Rightarrow> string \<Rightarrow> 's \<Rightarrow> string list"
  r_expire :: "time \<Rightarrow> string \<Rightarrow> nat \<Rightarrow> 's \<Rightarrow> 's"
  r_incr :: "time \<Rightarrow> string \<Rightarrow> 's \<Rightarrow> nat \<times> 's"
  r_ttl :: "time \<Rightarrow> string \<Rightarrow> 's \<Rightarrow> int"

section \<open>Reference semantics of the commands\<close>

definition text_of :: "entry option \<Rightarrow> pyval option" where
  "text_of e = (case e of Some (RVal v, d) \<Rightarrow> Some v | _ \<Rightarrow> None)"

definition members_of :: "entry option \<Rightarrow> string fset" where
  "members_of e = (case e of Some (RSet x, d) \<Rightarrow> x | _ \<Rightarrow> {||})"

definition expiry_of :: "entry option \<Rightarrow> time option" where
  "expiry_of e = (case e of Some (v, d) \<Rightarrow> d | None \<Rightarrow> None)"

definition count_of :: "entry option \<Rightarrow> nat" where
  "count_of e = (case text_of e of Some (PInt i) \<Rightarrow> nat i | _ \<Rightarrow> 0)"

text \<open>\<open>TTL\<close>: seconds left, rounded to the nearest as the server rounds; \<open>-1\<close> without expiry and \<open>-2\<close> without key.\<close>

definition ttl_of :: "time \<Rightarrow> entry option \<Rightarrow> int" where
  "ttl_of t e = (case e of None \<Rightarrow> -2 | Some (v, None) \<Rightarrow> -1 | Some (v, Some d) \<Rightarrow> (int d - int t + 500) div 1000)"

definition drop_empty :: "rvalue \<Rightarrow> time option \<Rightarrow> entry option" where
  "drop_empty v d = (if v = RSet {||} then None else Some (v, d))"

text \<open>The interface: what a store sees after a command, at the time of the command and later.\<close>

locale redis_server =
  fixes R :: "'s redis" and visible :: "time \<Rightarrow> 's \<Rightarrow> keyspace"
  assumes later: "t \<le> t' \<Longrightarrow> visible t' s = unexpired t' (visible t s)"
    and get: "r_get R t k s = text_of (visible t s k)"
    and set: "0 < ex \<Longrightarrow> visible t (r_set R t k v ex s) = (visible t s)(k \<mapsto> (RVal v, deadline t ex))"
    and set_nx: "0 < ex \<Longrightarrow> fst (r_set_nx R t k v ex s) = (visible t s k = None)"
      "0 < ex \<Longrightarrow> visible t (snd (r_set_nx R t k v ex s)) =
         (if visible t s k = None then (visible t s)(k \<mapsto> (RVal v, deadline t ex)) else visible t s)"
    and delete: "visible t (r_delete R t k s) = (visible t s)(k := None)"
    and getdel: "fst (r_getdel R t k s) = text_of (visible t s k)"
      "visible t (snd (r_getdel R t k s)) = (visible t s)(k := None)"
    and exists: "r_exists R t k s = (visible t s k \<noteq> None)"
    and sadd: "visible t (r_sadd R t k x s) =
        (visible t s)(k \<mapsto> (RSet (finsert x (members_of (visible t s k))), expiry_of (visible t s k)))"
    and srem: "visible t (r_srem R t k x s) = (case visible t s k of
        None \<Rightarrow> visible t s
      | Some e \<Rightarrow> (visible t s)(k := drop_empty (RSet (members_of (Some e) |-| {|x|})) (snd e)))"
    and smembers: "set (r_smembers R t k s) = fset (members_of (visible t s k))"
    and expire: "0 < ex \<Longrightarrow> visible t (r_expire R t k ex s) =
        (visible t s)(k := map_option (\<lambda>e. (fst e, deadline t ex)) (visible t s k))"
    and incr: "fst (r_incr R t k s) = Suc (count_of (visible t s k))"
      "visible t (snd (r_incr R t k s)) =
        (visible t s)(k \<mapsto> (RVal (PInt (int (Suc (count_of (visible t s k))))), expiry_of (visible t s k)))"
    and ttl: "r_ttl R t k s = ttl_of t (visible t s k)"
begin

lemmas writes = set set_nx(2) delete getdel(2) sadd srem expire incr(2)

lemma set_read: "0 < ex \<Longrightarrow> t \<le> t' \<Longrightarrow> t' < t + 1000 * ex \<Longrightarrow> r_get R t' k (r_set R t k v ex s) = Some v"
  by (simp add: get later[of t t'] set unexpired_def alive_def deadline_def text_of_def)

lemma set_expires: "0 < ex \<Longrightarrow> t + 1000 * ex \<le> t' \<Longrightarrow> r_get R t' k (r_set R t k v ex s) = None"
  by (simp add: get later[of t t'] set unexpired_def alive_def deadline_def text_of_def)

text \<open>\<open>SET NX\<close> decides a race: of two calls on one key within the lifetime, one is told it was first.\<close>

lemma set_nx_once:
  assumes "0 < ex" "t \<le> t'" "t' < t + 1000 * ex" "r_set_nx R t k v ex s = (True, s')"
  shows "fst (r_set_nx R t' k w ex' s') = False \<or> ex' = 0"
proof -
  have "visible t s' = (visible t s)(k \<mapsto> (RVal v, deadline t ex))"
    using set_nx[OF assms(1), of t k v s] assms(4) by simp
  then have "visible t' s' k \<noteq> None"
    using assms(2,3) by (simp add: later[of t t'] unexpired_def alive_def deadline_def)
  then show ?thesis using set_nx(1)[of ex' t' k w s'] by (cases "ex' = 0") auto
qed

text \<open>\<open>GETDEL\<close> hands a value out once.\<close>

lemma getdel_once: "r_getdel R t k s = (v, s') \<Longrightarrow> t \<le> t' \<Longrightarrow> fst (r_getdel R t' k s') = None"
  using getdel(2)[of t k s] by (simp add: getdel(1) later[of t t'] unexpired_def text_of_def)

end

section \<open>A server in memory\<close>

text \<open>An executable server that keeps the keyspace itself and drops what has expired when it is
  touched.\<close>

definition mem_redis :: "keyspace redis" where
  "mem_redis = \<lparr>
     r_get = (\<lambda>t k m. text_of (unexpired t m k)),
     r_set = (\<lambda>t k v ex m. m(k \<mapsto> (RVal v, deadline t ex))),
     r_set_nx = (\<lambda>t k v ex m. if unexpired t m k = None then (True, m(k \<mapsto> (RVal v, deadline t ex))) else (False, m)),
     r_delete = (\<lambda>t k m. m(k := None)),
     r_getdel = (\<lambda>t k m. (text_of (unexpired t m k), m(k := None))),
     r_exists = (\<lambda>t k m. unexpired t m k \<noteq> None),
     r_sadd = (\<lambda>t k x m. m(k \<mapsto> (RSet (finsert x (members_of (unexpired t m k))), expiry_of (unexpired t m k)))),
     r_srem = (\<lambda>t k x m. case unexpired t m k of None \<Rightarrow> m
        | Some e \<Rightarrow> m(k := drop_empty (RSet (members_of (Some e) |-| {|x|})) (snd e))),
     r_smembers = (\<lambda>t k m. sorted_list_of_fset (members_of (unexpired t m k))),
     r_expire = (\<lambda>t k ex m. m(k := map_option (\<lambda>e. (fst e, deadline t ex)) (unexpired t m k))),
     r_incr = (\<lambda>t k m. (Suc (count_of (unexpired t m k)),
        m(k \<mapsto> (RVal (PInt (int (Suc (count_of (unexpired t m k))))), expiry_of (unexpired t m k))))),
     r_ttl = (\<lambda>t k m. ttl_of t (unexpired t m k))\<rparr>"

lemma mem_redis_ops:
  "r_get mem_redis t k m = text_of (unexpired t m k)"
  "r_set mem_redis t k v ex m = m(k \<mapsto> (RVal v, deadline t ex))"
  "r_set_nx mem_redis t k v ex m = (if unexpired t m k = None then (True, m(k \<mapsto> (RVal v, deadline t ex))) else (False, m))"
  "r_delete mem_redis t k m = m(k := None)"
  "r_getdel mem_redis t k m = (text_of (unexpired t m k), m(k := None))"
  "r_exists mem_redis t k m = (unexpired t m k \<noteq> None)"
  "r_sadd mem_redis t k x m = m(k \<mapsto> (RSet (finsert x (members_of (unexpired t m k))), expiry_of (unexpired t m k)))"
  "r_smembers mem_redis t k m = sorted_list_of_fset (members_of (unexpired t m k))"
  "r_expire mem_redis t k ex m = m(k := map_option (\<lambda>e. (fst e, deadline t ex)) (unexpired t m k))"
  "r_incr mem_redis t k m = (Suc (count_of (unexpired t m k)),
     m(k \<mapsto> (RVal (PInt (int (Suc (count_of (unexpired t m k))))), expiry_of (unexpired t m k))))"
  "r_ttl mem_redis t k m = ttl_of t (unexpired t m k)"
  by (simp_all add: mem_redis_def)

lemma no_keys [simp]: "unexpired t (\<lambda>k. None) = (\<lambda>k. None)"
  by (simp add: unexpired_def fun_eq_iff)

lemma unexpired_twice: "t \<le> t' \<Longrightarrow> unexpired t' (unexpired t m) = unexpired t' m"
  by (auto simp: unexpired_def alive_def fun_eq_iff split: option.splits)

lemma unexpired_upd [simp]:
  "unexpired t (m(k \<mapsto> (v, Some d))) = (if t < d then (unexpired t m)(k \<mapsto> (v, Some d)) else (unexpired t m)(k := None))"
  "unexpired t (m(k \<mapsto> (v, None))) = (unexpired t m)(k \<mapsto> (v, None))"
  "unexpired t (m(k := None)) = (unexpired t m)(k := None)"
  by (auto simp: unexpired_def alive_def fun_eq_iff)

lemma unexpired_some: "unexpired t m k = Some e \<Longrightarrow> alive t e"
  by (auto simp: unexpired_def split: option.splits if_splits)

lemma unexpired_origin: "unexpired t m k = Some e \<Longrightarrow> m k = Some e"
  by (auto simp: unexpired_def split: option.splits if_splits)

lemma unexpired_entry: "alive t e \<Longrightarrow> unexpired t (m(k \<mapsto> e)) = (unexpired t m)(k \<mapsto> e)"
  by (auto simp: unexpired_def fun_eq_iff)

lemma alive_expiry: "unexpired t m k = e \<Longrightarrow> alive t (v, expiry_of e)"
  by (cases e) (auto dest: unexpired_some simp: alive_def expiry_of_def)

interpretation mem: redis_server mem_redis unexpired
proof
  fix t t' :: time and s :: keyspace and k :: string and x :: string and ex :: nat and v
  show "t \<le> t' \<Longrightarrow> unexpired t' s = unexpired t' (unexpired t s)" by (simp add: unexpired_twice)
  show "unexpired t (r_sadd mem_redis t k x s) =
      (unexpired t s)(k \<mapsto> (RSet (finsert x (members_of (unexpired t s k))), expiry_of (unexpired t s k)))"
    by (simp add: mem_redis_def unexpired_entry alive_expiry)
  show "unexpired t (r_srem mem_redis t k x s) = (case unexpired t s k of
        None \<Rightarrow> unexpired t s
      | Some e \<Rightarrow> (unexpired t s)(k := drop_empty (RSet (members_of (Some e) |-| {|x|})) (snd e)))"
    using unexpired_some[of t s k] by (auto simp: mem_redis_def drop_empty_def unexpired_entry alive_def split: option.split)
  show "0 < ex \<Longrightarrow> unexpired t (r_expire mem_redis t k ex s) =
        (unexpired t s)(k := map_option (\<lambda>e. (fst e, deadline t ex)) (unexpired t s k))"
    by (cases "unexpired t s k") (simp_all add: mem_redis_def deadline_def)
  show "unexpired t (snd (r_incr mem_redis t k s)) =
        (unexpired t s)(k \<mapsto> (RVal (PInt (int (Suc (count_of (unexpired t s k))))), expiry_of (unexpired t s k)))"
    by (simp add: mem_redis_def unexpired_entry alive_expiry)
qed (simp_all add: mem_redis_def deadline_def)

end
