(* ===== verification/Documents.thy ===== *)
theory Documents
  imports Prelude
begin

text \<open>
  Reading and writing the JSON documents the stores keep: each store's \<open>to_json\<close> and \<open>from_json\<close> is a
  definition of its own over these readers of a member.  A reader gives \<open>None\<close> where the code raises.
\<close>

text \<open>An instant in a document stands for its ISO text.\<close>

definition opt_str :: "string option \<Rightarrow> pyval" where
  "opt_str v = (case v of None \<Rightarrow> PNone | Some s \<Rightarrow> PStr s)"

definition opt_int :: "int option \<Rightarrow> pyval" where
  "opt_int v = (case v of None \<Rightarrow> PNone | Some i \<Rightarrow> PInt i)"

definition to_str :: "pyval \<Rightarrow> string option" where
  "to_str v = (case v of PStr s \<Rightarrow> Some s | _ \<Rightarrow> None)"

definition to_opt_str :: "pyval \<Rightarrow> string option option" where
  "to_opt_str v = (case v of PStr s \<Rightarrow> Some (Some s) | PNone \<Rightarrow> Some None | _ \<Rightarrow> None)"

definition to_int :: "pyval \<Rightarrow> int option" where
  "to_int v = (case v of PInt i \<Rightarrow> Some i | _ \<Rightarrow> None)"

definition to_opt_int :: "pyval \<Rightarrow> int option option" where
  "to_opt_int v = (case v of PInt i \<Rightarrow> Some (Some i) | PNone \<Rightarrow> Some None | _ \<Rightarrow> None)"

definition to_strs :: "pyval \<Rightarrow> string list option" where
  "to_strs v = (case v of PList vs \<Rightarrow> those (map to_str vs) | _ \<Rightarrow> None)"

definition member :: "pyval \<Rightarrow> string \<Rightarrow> (pyval \<Rightarrow> 'a option) \<Rightarrow> 'a option" where
  "member doc k read = (case doc of PDict d \<Rightarrow> (case map_of d k of Some v \<Rightarrow> read v | None \<Rightarrow> None) | _ \<Rightarrow> None)"

definition strs :: "string list \<Rightarrow> pyval" where
  "strs xs = PList (map PStr xs)"

definition default_member :: "pyval \<Rightarrow> string \<Rightarrow> 'a \<Rightarrow> (pyval \<Rightarrow> 'a option) \<Rightarrow> 'a option" where
  "default_member doc k d read = (case doc of PDict xs \<Rightarrow> (case map_of xs k of Some v \<Rightarrow> read v | None \<Rightarrow> Some d) | _ \<Rightarrow> None)"

definition to_bool :: "pyval \<Rightarrow> bool option" where
  "to_bool v = (case v of PBool b \<Rightarrow> Some b | _ \<Rightarrow> None)"

definition to_dict :: "(pyval \<Rightarrow> 'a option) \<Rightarrow> pyval \<Rightarrow> (string \<times> 'a) list option" where
  "to_dict read v = (case v of PDict d \<Rightarrow> those (map (\<lambda>(k, x). map_option (Pair k) (read x)) d) | _ \<Rightarrow> None)"

definition dict_of :: "('a \<Rightarrow> pyval) \<Rightarrow> (string \<times> 'a) list \<Rightarrow> pyval" where
  "dict_of f d = PDict (map (\<lambda>(k, x). (k, f x)) d)"

lemma those_strs [simp]: "to_strs (strs xs) = Some xs"
proof -
  have "those (map (to_str \<circ> PStr) xs) = Some xs" by (induction xs) (simp_all add: to_str_def)
  then show ?thesis by (simp add: to_strs_def strs_def)
qed

lemma member_simps [simp]:
  "member (PDict ((k, v) # d)) k' read = (if k' = k then read v else member (PDict d) k' read)"
  by (simp add: member_def)

lemma read_back [simp]:
  "to_str (PStr s) = Some s" "to_int (PInt i) = Some i" "to_opt_str (opt_str o') = Some o'" "to_opt_int (opt_int n) = Some n"
  by (auto simp: to_str_def to_int_def to_opt_str_def opt_str_def to_opt_int_def opt_int_def split: option.splits)

lemma default_member_simps [simp]:
  "default_member (PDict ((k, v) # d)) k' x read = (if k' = k then read v else default_member (PDict d) k' x read)"
  "default_member (PDict []) k' x read = Some x"
  by (simp_all add: default_member_def)

lemma read_bool [simp]: "to_bool (PBool b) = Some b"
  by (simp add: to_bool_def)

lemma read_dict [simp]:
  assumes "\<And>x. read (f x) = Some x"
  shows "to_dict read (dict_of f d) = Some d"
proof -
  have "those (map ((\<lambda>(k, x). map_option (Pair k) (read x)) \<circ> (\<lambda>(k, x). (k, f x))) d) = Some d"
    by (induction d) (auto simp: assms)
  then show ?thesis by (simp add: to_dict_def dict_of_def)
qed

end
