(* ===== verification/Grants.thy ===== *)
theory Grants
  imports BrokerErrors Redis Documents "HOL-Library.Multiset"
begin

text \<open>
  Authorization codes and refresh token families (\<open>oidc/grants.py\<close>) over a Redis server.  Random tokens
  are arguments, SHA-256 is the parameter \<open>g_digest\<close>.  Every operation is split where the code talks to
  the server more than once, so that concurrent requests interleave; times are the server's.
\<close>

section \<open>Data\<close>

definition CODE_KEY_PREFIX :: string where "CODE_KEY_PREFIX = ''oidc:code:''"
definition CODE_SPENT_PREFIX :: string where "CODE_SPENT_PREFIX = ''oidc:code:spent:''"
definition REFRESH_KEY_PREFIX :: string where "REFRESH_KEY_PREFIX = ''oidc:refresh:''"
definition REFRESH_SPENT_PREFIX :: string where "REFRESH_SPENT_PREFIX = ''oidc:refresh:spent:''"
definition FAMILY_REVOKED_PREFIX :: string where "FAMILY_REVOKED_PREFIX = ''oidc:family:revoked:''"
definition SESSION_FAMILY_PREFIX :: string where "SESSION_FAMILY_PREFIX = ''oidc:session-families:''"

lemmas grant_prefixes = CODE_KEY_PREFIX_def CODE_SPENT_PREFIX_def REFRESH_KEY_PREFIX_def
  REFRESH_SPENT_PREFIX_def FAMILY_REVOKED_PREFIX_def SESSION_FAMILY_PREFIX_def

definition CODE_TTL :: int where "CODE_TTL = 60"
definition REFRESH_TTL :: int where "REFRESH_TTL = 14 * 86400"

record authorization_code =
  ac_client_id :: string
  ac_redirect_uri :: string
  ac_code_challenge :: string
  ac_scopes :: "string list"
  ac_subject :: string
  ac_sid :: string
  ac_family_id :: string
  ac_nonce :: "string option"
  ac_auth_time :: "int option"
  ac_acr :: "string option"
  ac_amr :: "string list"

record refresh_token =
  rt_client_id :: string
  rt_scopes :: "string list"
  rt_subject :: string
  rt_sid :: string
  rt_family_id :: string
  rt_generation :: int
  rt_issued_at :: int

text \<open>\<open>GrantStore.__init__\<close>: the server, the digest and the two lifetimes, in seconds.\<close>

record 's grant_store =
  g_redis :: "'s redis"
  g_digest :: "string \<Rightarrow> string"
  g_code_ttl :: int
  g_refresh_ttl :: int

datatype grant_error = GrantError oauth_error | GrantReuse oauth_error | GrantCorrupt

section \<open>Documents\<close>

definition code_to_json :: "authorization_code \<Rightarrow> pyval" where
  "code_to_json g = PDict [(''client_id'', PStr (ac_client_id g)), (''redirect_uri'', PStr (ac_redirect_uri g)),
     (''code_challenge'', PStr (ac_code_challenge g)), (''scopes'', strs (ac_scopes g)),
     (''subject'', PStr (ac_subject g)), (''sid'', PStr (ac_sid g)), (''family_id'', PStr (ac_family_id g)),
     (''nonce'', opt_str (ac_nonce g)), (''auth_time'', opt_int (ac_auth_time g)),
     (''acr'', opt_str (ac_acr g)), (''amr'', strs (ac_amr g))]"

definition code_from_json :: "pyval \<Rightarrow> authorization_code option" where
  "code_from_json doc =
     Option.bind (member doc ''client_id'' to_str) (\<lambda>client_id.
     Option.bind (member doc ''redirect_uri'' to_str) (\<lambda>redirect_uri.
     Option.bind (member doc ''code_challenge'' to_str) (\<lambda>code_challenge.
     Option.bind (member doc ''scopes'' to_strs) (\<lambda>scopes.
     Option.bind (member doc ''subject'' to_str) (\<lambda>subject.
     Option.bind (member doc ''sid'' to_str) (\<lambda>sid.
     Option.bind (member doc ''family_id'' to_str) (\<lambda>family_id.
     Option.bind (member doc ''nonce'' to_opt_str) (\<lambda>nonce.
     Option.bind (member doc ''auth_time'' to_opt_int) (\<lambda>auth_time.
     Option.bind (member doc ''acr'' to_opt_str) (\<lambda>acr.
     Option.bind (member doc ''amr'' to_strs) (\<lambda>amr.
       Some \<lparr>ac_client_id = client_id, ac_redirect_uri = redirect_uri, ac_code_challenge = code_challenge,
         ac_scopes = scopes, ac_subject = subject, ac_sid = sid, ac_family_id = family_id, ac_nonce = nonce,
         ac_auth_time = auth_time, ac_acr = acr, ac_amr = amr\<rparr>)))))))))))"

definition token_to_json :: "refresh_token \<Rightarrow> pyval" where
  "token_to_json r = PDict [(''client_id'', PStr (rt_client_id r)), (''scopes'', strs (rt_scopes r)),
     (''subject'', PStr (rt_subject r)), (''sid'', PStr (rt_sid r)), (''family_id'', PStr (rt_family_id r)),
     (''generation'', PInt (rt_generation r)), (''issued_at'', PInt (rt_issued_at r))]"

definition token_from_json :: "pyval \<Rightarrow> refresh_token option" where
  "token_from_json doc =
     Option.bind (member doc ''client_id'' to_str) (\<lambda>client_id.
     Option.bind (member doc ''scopes'' to_strs) (\<lambda>scopes.
     Option.bind (member doc ''subject'' to_str) (\<lambda>subject.
     Option.bind (member doc ''sid'' to_str) (\<lambda>sid.
     Option.bind (member doc ''family_id'' to_str) (\<lambda>family_id.
     Option.bind (member doc ''generation'' to_int) (\<lambda>generation.
     Option.bind (member doc ''issued_at'' to_int) (\<lambda>issued_at.
       Some \<lparr>rt_client_id = client_id, rt_scopes = scopes, rt_subject = subject, rt_sid = sid,
         rt_family_id = family_id, rt_generation = generation, rt_issued_at = issued_at\<rparr>)))))))"

lemma code_json [simp]: "code_from_json (code_to_json g) = Some g"
  by (simp add: code_from_json_def code_to_json_def)

lemma token_json [simp]: "token_from_json (token_to_json r) = Some r"
  by (simp add: token_from_json_def token_to_json_def)

section \<open>Operations\<close>

definition seconds :: "int \<Rightarrow> nat" where
  "seconds ttl = nat (max ttl 1)"

lemma seconds_pos [simp]: "0 < seconds ttl"
  by (simp add: seconds_def)

abbreviation "code_record_key \<equiv> \<lambda>d. CODE_KEY_PREFIX @ d"
abbreviation "code_spent_key \<equiv> \<lambda>d. CODE_SPENT_PREFIX @ d"
abbreviation "token_record_key \<equiv> \<lambda>d. REFRESH_KEY_PREFIX @ d"
abbreviation "token_spent_key \<equiv> \<lambda>d. REFRESH_SPENT_PREFIX @ d"
abbreviation "family_key \<equiv> \<lambda>f. FAMILY_REVOKED_PREFIX @ f"
abbreviation "session_key \<equiv> \<lambda>sid. SESSION_FAMILY_PREFIX @ sid"

definition revoke_family :: "'s grant_store \<Rightarrow> time \<Rightarrow> string \<Rightarrow> 's \<Rightarrow> 's" where
  "revoke_family G t f s = r_set (g_redis G) t (family_key f) (PStr ''1'') (seconds (g_refresh_ttl G)) s"

definition is_family_revoked :: "'s grant_store \<Rightarrow> time \<Rightarrow> string \<Rightarrow> 's \<Rightarrow> bool" where
  "is_family_revoked G t f s = r_exists (g_redis G) t (family_key f) s"

definition issue_code :: "'s grant_store \<Rightarrow> time \<Rightarrow> string \<Rightarrow> authorization_code \<Rightarrow> 's \<Rightarrow> string \<times> 's" where
  "issue_code G t code grant s =
     (let s1 = r_set (g_redis G) t (code_record_key (g_digest G code)) (code_to_json grant) (seconds (g_code_ttl G)) s;
          s2 = r_sadd (g_redis G) t (session_key (ac_sid grant)) (ac_family_id grant) s1 in
      (code, r_expire (g_redis G) t (session_key (ac_sid grant)) (seconds (g_refresh_ttl G)) s2))"

text \<open>\<open>redeem_code\<close> up to the first write: the record, if the code is known.\<close>

definition redeem_lookup :: "'s grant_store \<Rightarrow> time \<Rightarrow> string \<Rightarrow> 's \<Rightarrow> (grant_error, authorization_code) result" where
  "redeem_lookup G t code s = (case r_get (g_redis G) t (code_record_key (g_digest G code)) s of
       None \<Rightarrow> Err (GrantError (OAuthError INVALID_GRANT R_GRANT_INVALID))
     | Some doc \<Rightarrow> (case code_from_json doc of None \<Rightarrow> Err GrantCorrupt | Some grant \<Rightarrow> Ok grant))"

definition redeem_spend ::
  "'s grant_store \<Rightarrow> time \<Rightarrow> string \<Rightarrow> string \<Rightarrow> string \<Rightarrow> authorization_code \<Rightarrow> 's \<Rightarrow>
     (grant_error, authorization_code) result \<times> 's" where
  "redeem_spend G t code client_id redirect_uri grant s =
     (let (first_use, s1) = r_set_nx (g_redis G) t (code_spent_key (g_digest G code)) (PStr ''1'') (seconds (g_code_ttl G)) s in
      if \<not> first_use
      then (Err (GrantReuse (OAuthError INVALID_GRANT R_GRANT_REUSE_DETECTED)), revoke_family G t (ac_family_id grant) s1)
      else if ac_client_id grant \<noteq> client_id
      then (Err (GrantError (OAuthError INVALID_GRANT R_GRANT_INVALID)), revoke_family G t (ac_family_id grant) s1)
      else if ac_redirect_uri grant \<noteq> redirect_uri
      then (Err (GrantError (OAuthError INVALID_GRANT R_GRANT_INVALID)), s1)
      else (Ok grant, s1))"

definition redeem_code ::
  "'s grant_store \<Rightarrow> time \<Rightarrow> time \<Rightarrow> string \<Rightarrow> string \<Rightarrow> string \<Rightarrow> 's \<Rightarrow> (grant_error, authorization_code) result \<times> 's" where
  "redeem_code G t t' code client_id redirect_uri s = (case redeem_lookup G t code s of
       Inl e \<Rightarrow> (Err e, s) | Inr grant \<Rightarrow> redeem_spend G t' code client_id redirect_uri grant s)"

definition issue_refresh_token :: "'s grant_store \<Rightarrow> time \<Rightarrow> string \<Rightarrow> refresh_token \<Rightarrow> 's \<Rightarrow> string \<times> 's" where
  "issue_refresh_token G t token record s =
     (token, r_set (g_redis G) t (token_record_key (g_digest G token)) (token_to_json record) (seconds (g_refresh_ttl G)) s)"

definition rotate_lookup :: "'s grant_store \<Rightarrow> time \<Rightarrow> string \<Rightarrow> 's \<Rightarrow> (grant_error, refresh_token) result" where
  "rotate_lookup G t token s = (case r_get (g_redis G) t (token_record_key (g_digest G token)) s of
       None \<Rightarrow> Err (GrantError (OAuthError INVALID_GRANT R_GRANT_INVALID))
     | Some doc \<Rightarrow> (case token_from_json doc of
           None \<Rightarrow> Err GrantCorrupt
         | Some record \<Rightarrow>
             if is_family_revoked G t (rt_family_id record) s
             then Err (GrantError (OAuthError INVALID_GRANT R_GRANT_REVOKED)) else Ok record))"

definition rotate_spend ::
  "'s grant_store \<Rightarrow> time \<Rightarrow> string \<Rightarrow> string \<Rightarrow> refresh_token \<Rightarrow> 's \<Rightarrow> (grant_error, refresh_token) result \<times> 's" where
  "rotate_spend G t token client_id record s =
     (let (first_use, s1) = r_set_nx (g_redis G) t (token_spent_key (g_digest G token)) (PStr ''1'') (seconds (g_refresh_ttl G)) s in
      if \<not> first_use
      then (Err (GrantReuse (OAuthError INVALID_GRANT R_GRANT_REUSE_DETECTED)), revoke_family G t (rt_family_id record) s1)
      else if rt_client_id record \<noteq> client_id
      then (Err (GrantError (OAuthError INVALID_GRANT R_GRANT_INVALID)), revoke_family G t (rt_family_id record) s1)
      else (Ok record, s1))"

definition successor :: "refresh_token \<Rightarrow> int \<Rightarrow> refresh_token" where
  "successor record now = record\<lparr>rt_generation := rt_generation record + 1, rt_issued_at := now\<rparr>"

text \<open>The three exchanges of a rotation: look up, spend, and issue the successor.\<close>

definition rotate_refresh_token ::
  "'s grant_store \<Rightarrow> time \<Rightarrow> time \<Rightarrow> time \<Rightarrow> string \<Rightarrow> string \<Rightarrow> string \<Rightarrow> int \<Rightarrow> 's \<Rightarrow>
     (grant_error, string \<times> refresh_token) result \<times> 's" where
  "rotate_refresh_token G t t' t'' token new client_id now s = (case rotate_lookup G t token s of
       Inl e \<Rightarrow> (Err e, s)
     | Inr record \<Rightarrow> (case rotate_spend G t' token client_id record s of
           (Inl e, s1) \<Rightarrow> (Err e, s1)
         | (Inr _, s1) \<Rightarrow> (let (tok, s2) = issue_refresh_token G t'' new (successor record now) s1 in
             (Ok (tok, successor record now), s2))))"

definition describe_refresh_token :: "'s grant_store \<Rightarrow> time \<Rightarrow> string \<Rightarrow> 's \<Rightarrow> (grant_error, refresh_token option) result" where
  "describe_refresh_token G t token s = (case r_get (g_redis G) t (token_record_key (g_digest G token)) s of
       None \<Rightarrow> Ok None
     | Some doc \<Rightarrow> (case token_from_json doc of None \<Rightarrow> Err GrantCorrupt | Some record \<Rightarrow> Ok (Some record)))"

definition revoke_session_families :: "'s grant_store \<Rightarrow> time \<Rightarrow> string \<Rightarrow> 's \<Rightarrow> string list \<times> 's" where
  "revoke_session_families G t sid s =
     (let families = sort (r_smembers (g_redis G) t (session_key sid) s) in
      (families, r_delete (g_redis G) t (session_key sid) (fold (revoke_family G t) families s)))"

section \<open>Concurrent requests\<close>

text \<open>The store under any interleaving of requests: what the server holds at a time, the redemptions and
  rotations between look-up and spending, and, kept beside them, what has been issued, accepted and
  revoked.  A spending step happens while the record it looked up is still there.\<close>

record 's grant_state =
  gs_clock :: time
  gs_redis :: 's
  gs_codes :: "string list"
  gs_redeeming :: "(string \<times> authorization_code) multiset"
  gs_redeemed :: "string list"
  gs_tokens :: "(string \<times> string \<times> time) list"
  gs_rotating :: "(string \<times> refresh_token) multiset"
  gs_rotated :: "string list"
  gs_revoked :: "(string \<times> time) list"

definition accepted :: "('e, 'a) result \<Rightarrow> 'b \<Rightarrow> 'b list" where
  "accepted res d = (case res of Inr _ \<Rightarrow> [d] | Inl _ \<Rightarrow> [])"

text \<open>A family is revoked on reuse, and when the credential is presented by another client.\<close>

definition revokes :: "(grant_error, 'a) result \<Rightarrow> bool \<Rightarrow> 'b \<Rightarrow> 'b list" where
  "revokes res stranger f = (if stranger \<or> (\<exists>e. res = Err (GrantReuse e)) then [f] else [])"

inductive grant_step ::
  "'s grant_store \<Rightarrow> (time \<Rightarrow> 's \<Rightarrow> keyspace) \<Rightarrow> 's grant_state \<Rightarrow> 's grant_state \<Rightarrow> bool" for G visible where
  tick: "gs_clock \<sigma> \<le> t \<Longrightarrow> grant_step G visible \<sigma> (\<sigma>\<lparr>gs_clock := t\<rparr>)"
| elsewhere:
    "(\<And>k. starts_with k ''oidc:'' \<Longrightarrow> visible (gs_clock \<sigma>) s' k = visible (gs_clock \<sigma>) (gs_redis \<sigma>) k) \<Longrightarrow>
     grant_step G visible \<sigma> (\<sigma>\<lparr>gs_redis := s'\<rparr>)"
| code_issued:
    "g_digest G code \<notin> set (gs_codes \<sigma>) \<Longrightarrow>
     grant_step G visible \<sigma> (\<sigma>\<lparr>gs_redis := snd (issue_code G (gs_clock \<sigma>) code grant (gs_redis \<sigma>)),
       gs_codes := g_digest G code # gs_codes \<sigma>\<rparr>)"
| code_looked_up:
    "redeem_lookup G (gs_clock \<sigma>) code (gs_redis \<sigma>) = Ok grant \<Longrightarrow>
     grant_step G visible \<sigma> (\<sigma>\<lparr>gs_redeeming := add_mset (code, grant) (gs_redeeming \<sigma>)\<rparr>)"
| code_spent:
    "(code, grant) \<in># gs_redeeming \<sigma> \<Longrightarrow>
     r_get (g_redis G) (gs_clock \<sigma>) (code_record_key (g_digest G code)) (gs_redis \<sigma>) \<noteq> None \<Longrightarrow>
     redeem_spend G (gs_clock \<sigma>) code client_id uri grant (gs_redis \<sigma>) = (res, s') \<Longrightarrow>
     grant_step G visible \<sigma> (\<sigma>\<lparr>gs_redis := s', gs_redeeming := gs_redeeming \<sigma> - {#(code, grant)#},
       gs_redeemed := accepted res (g_digest G code) @ gs_redeemed \<sigma>,
       gs_revoked := revokes res (ac_client_id grant \<noteq> client_id) (ac_family_id grant, gs_clock \<sigma>) @ gs_revoked \<sigma>\<rparr>)"
| token_issued:
    "g_digest G token \<notin> fst ` set (gs_tokens \<sigma>) \<Longrightarrow>
     grant_step G visible \<sigma> (\<sigma>\<lparr>gs_redis := snd (issue_refresh_token G (gs_clock \<sigma>) token record (gs_redis \<sigma>)),
       gs_tokens := (g_digest G token, rt_family_id record, gs_clock \<sigma>) # gs_tokens \<sigma>\<rparr>)"
| token_looked_up:
    "rotate_lookup G (gs_clock \<sigma>) token (gs_redis \<sigma>) = Ok record \<Longrightarrow>
     grant_step G visible \<sigma> (\<sigma>\<lparr>gs_rotating := add_mset (token, record) (gs_rotating \<sigma>)\<rparr>)"
| token_spent:
    "(token, record) \<in># gs_rotating \<sigma> \<Longrightarrow>
     r_get (g_redis G) (gs_clock \<sigma>) (token_record_key (g_digest G token)) (gs_redis \<sigma>) \<noteq> None \<Longrightarrow>
     rotate_spend G (gs_clock \<sigma>) token client_id record (gs_redis \<sigma>) = (res, s') \<Longrightarrow>
     grant_step G visible \<sigma> (\<sigma>\<lparr>gs_redis := s', gs_rotating := gs_rotating \<sigma> - {#(token, record)#},
       gs_rotated := accepted res (g_digest G token) @ gs_rotated \<sigma>,
       gs_revoked := revokes res (rt_client_id record \<noteq> client_id) (rt_family_id record, gs_clock \<sigma>) @ gs_revoked \<sigma>\<rparr>)"
| family_revoked:
    "grant_step G visible \<sigma> (\<sigma>\<lparr>gs_redis := revoke_family G (gs_clock \<sigma>) f (gs_redis \<sigma>),
       gs_revoked := (f, gs_clock \<sigma>) # gs_revoked \<sigma>\<rparr>)"
| session_ended:
    "revoke_session_families G (gs_clock \<sigma>) sid (gs_redis \<sigma>) = (fs, s') \<Longrightarrow>
     grant_step G visible \<sigma> (\<sigma>\<lparr>gs_redis := s', gs_revoked := map (\<lambda>f. (f, gs_clock \<sigma>)) fs @ gs_revoked \<sigma>\<rparr>)"

inductive grant_reachable ::
  "'s grant_store \<Rightarrow> (time \<Rightarrow> 's \<Rightarrow> keyspace) \<Rightarrow> 's grant_state \<Rightarrow> bool" for G visible where
  start: "(\<And>k. starts_with k ''oidc:'' \<Longrightarrow> visible t s k = None) \<Longrightarrow>
     grant_reachable G visible \<lparr>gs_clock = t, gs_redis = s, gs_codes = [], gs_redeeming = {#}, gs_redeemed = [],
       gs_tokens = [], gs_rotating = {#}, gs_rotated = [], gs_revoked = []\<rparr>"
| step: "grant_reachable G visible \<sigma> \<Longrightarrow> grant_step G visible \<sigma> \<sigma>' \<Longrightarrow> grant_reachable G visible \<sigma>'"

section \<open>What the server holds\<close>

lemma prefix_oidc [simp]:
  "starts_with (code_record_key d) ''oidc:''" "starts_with (code_spent_key d) ''oidc:''"
  "starts_with (token_record_key d) ''oidc:''" "starts_with (token_spent_key d) ''oidc:''"
  "starts_with (family_key d) ''oidc:''"
  by (simp_all add: grant_prefixes starts_with_def)

lemma grant_keys_apart [simp]:
  "code_record_key d \<noteq> token_record_key e" "code_record_key d \<noteq> token_spent_key e"
  "code_record_key d \<noteq> family_key e" "code_record_key d \<noteq> session_key e"
  "code_spent_key d \<noteq> token_record_key e" "code_spent_key d \<noteq> token_spent_key e"
  "code_spent_key d \<noteq> family_key e" "code_spent_key d \<noteq> session_key e"
  "token_record_key d \<noteq> family_key e" "token_record_key d \<noteq> session_key e"
  "token_record_key d \<noteq> code_record_key e" "token_record_key d \<noteq> code_spent_key e"
  "token_spent_key d \<noteq> family_key e" "token_spent_key d \<noteq> session_key e"
  "token_spent_key d \<noteq> code_record_key e" "token_spent_key d \<noteq> code_spent_key e"
  "family_key d \<noteq> session_key e" "family_key d \<noteq> code_record_key e" "family_key d \<noteq> code_spent_key e"
  "family_key d \<noteq> token_record_key e" "family_key d \<noteq> token_spent_key e"
  by (simp_all add: grant_prefixes)

lemma record_spent_apart:
  assumes "length d = length e"
  shows "code_record_key d \<noteq> code_spent_key e" "code_spent_key d \<noteq> code_record_key e"
    "token_record_key d \<noteq> token_spent_key e" "token_spent_key d \<noteq> token_record_key e"
  using assms by (auto simp: grant_prefixes dest: arg_cong[of _ _ length])

lemma prefix_apart [simp]:
  "CODE_KEY_PREFIX \<noteq> CODE_SPENT_PREFIX" "CODE_SPENT_PREFIX \<noteq> CODE_KEY_PREFIX"
  "REFRESH_KEY_PREFIX \<noteq> REFRESH_SPENT_PREFIX" "REFRESH_SPENT_PREFIX \<noteq> REFRESH_KEY_PREFIX"
  by (simp_all add: grant_prefixes)

text \<open>While a spent credential's record lives, its marker lives at least as long.\<close>

definition covered :: "keyspace \<Rightarrow> string \<Rightarrow> string \<Rightarrow> bool" where
  "covered V rk sk = (\<forall>v D. V rk = Some (v, D) \<longrightarrow> (\<exists>x y w. D = Some x \<and> V sk = Some (w, Some y) \<and> x \<le> y))"

lemma unexpired_Some: "unexpired t V k = Some e \<Longrightarrow> V k = Some e \<and> alive t e"
  by (auto simp: unexpired_def split: option.splits if_splits)

lemma covered_later:
  assumes "covered V rk sk"
  shows "covered (unexpired t V) rk sk"
  unfolding covered_def
proof (intro allI impI)
  fix v D
  assume "unexpired t V rk = Some (v, D)"
  then have r: "V rk = Some (v, D)" "alive t (v, D)" using unexpired_Some by blast+
  then obtain x y w where x: "D = Some x" "V sk = Some (w, Some y)" "x \<le> y"
    using assms unfolding covered_def by blast
  then show "\<exists>x y w. D = Some x \<and> unexpired t V sk = Some (w, Some y) \<and> x \<le> y"
    using r(2) by (simp add: unexpired_def alive_def)
qed

lemma covered_same: "covered V rk sk \<Longrightarrow> V' rk = V rk \<Longrightarrow> V' sk = V sk \<Longrightarrow> covered V' rk sk"
  by (simp add: covered_def)

text \<open>The invariant, on the keys visible now.\<close>

definition spent_ok :: "(string \<Rightarrow> string) \<Rightarrow> (string \<Rightarrow> string) \<Rightarrow> keyspace \<Rightarrow> string list \<Rightarrow> string set \<Rightarrow> bool" where
  "spent_ok rk sk V taken issued = (distinct taken \<and> set taken \<subseteq> issued \<and> (\<forall>d\<in>set taken. covered V (rk d) (sk d)))"

definition revoked_ok :: "keyspace \<Rightarrow> time \<Rightarrow> nat \<Rightarrow> (string \<times> time) list \<Rightarrow> bool" where
  "revoked_ok V now ex revoked = (\<forall>(f, t0)\<in>set revoked. t0 \<le> now \<and>
     (now < t0 + 1000 * ex \<longrightarrow> (\<exists>v y. V (family_key f) = Some (v, Some y) \<and> t0 + 1000 * ex \<le> y)))"

definition token_ok :: "keyspace \<Rightarrow> time \<Rightarrow> nat \<Rightarrow> string \<times> string \<times> time \<Rightarrow> bool" where
  "token_ok V now ex e = (length (fst e) = 64 \<and> snd (snd e) \<le> now \<and> (case V (token_record_key (fst e)) of None \<Rightarrow> True
     | Some x \<Rightarrow> snd x = deadline (snd (snd e)) ex \<and> (\<exists>r. fst x = RVal (token_to_json r) \<and> rt_family_id r = fst (snd e))))"

definition tokens_ok :: "keyspace \<Rightarrow> time \<Rightarrow> nat \<Rightarrow> (string \<times> string \<times> time) list \<Rightarrow> bool" where
  "tokens_ok V now ex tokens = list_all (token_ok V now ex) tokens"

lemma spent_ok_later: "spent_ok rk sk V taken issued \<Longrightarrow> spent_ok rk sk (unexpired t V) taken issued"
  by (simp add: spent_ok_def covered_later)

lemma spent_ok_same:
  "spent_ok rk sk V taken issued \<Longrightarrow> (\<And>d. d \<in> set taken \<Longrightarrow> V' (rk d) = V (rk d) \<and> V' (sk d) = V (sk d)) \<Longrightarrow>
     issued \<subseteq> issued' \<Longrightarrow> spent_ok rk sk V' taken issued'"
  unfolding spent_ok_def using covered_same by fast

lemma revoked_ok_later:
  assumes "revoked_ok V now ex revoked" and "now \<le> t"
  shows "revoked_ok (unexpired t V) t ex revoked"
  unfolding revoked_ok_def
proof clarify
  fix f t0
  assume "(f, t0) \<in> set revoked"
  then have o: "t0 \<le> now" and k: "now < t0 + 1000 * ex \<longrightarrow> (\<exists>v y. V (family_key f) = Some (v, Some y) \<and> t0 + 1000 * ex \<le> y)"
    using assms(1) by (auto simp: revoked_ok_def)
  show "t0 \<le> t \<and> (t < t0 + 1000 * ex \<longrightarrow>
      (\<exists>v y. unexpired t V (family_key f) = Some (v, Some y) \<and> t0 + 1000 * ex \<le> y))"
  proof (intro conjI impI)
    show "t0 \<le> t" using o assms(2) by simp
    assume l: "t < t0 + 1000 * ex"
    then obtain v y where "V (family_key f) = Some (v, Some y)" "t0 + 1000 * ex \<le> y" using k assms(2) by auto
    then show "\<exists>v y. unexpired t V (family_key f) = Some (v, Some y) \<and> t0 + 1000 * ex \<le> y"
      using l by (simp add: unexpired_def alive_def)
  qed
qed

lemma revoked_ok_same:
  "revoked_ok V now ex revoked \<Longrightarrow> (\<And>f. V' (family_key f) = V (family_key f)) \<Longrightarrow> revoked_ok V' now ex revoked"
  by (simp add: revoked_ok_def)

lemma revoked_ok_add:
  assumes "revoked_ok V now ex revoked" and "V' (family_key f) = Some (v, deadline now ex)"
    and "\<And>g. g \<noteq> f \<Longrightarrow> V' (family_key g) = V (family_key g)"
  shows "revoked_ok V' now ex ((f, now) # revoked)"
  unfolding revoked_ok_def
proof clarify
  fix g t0
  assume "(g, t0) \<in> set ((f, now) # revoked)"
  then have o: "t0 \<le> now" and k: "g \<noteq> f \<Longrightarrow> now < t0 + 1000 * ex \<Longrightarrow>
      \<exists>v y. V (family_key g) = Some (v, Some y) \<and> t0 + 1000 * ex \<le> y"
    using assms(1) by (auto simp: revoked_ok_def)
  show "t0 \<le> now \<and> (now < t0 + 1000 * ex \<longrightarrow>
      (\<exists>v y. V' (family_key g) = Some (v, Some y) \<and> t0 + 1000 * ex \<le> y))"
    using o k assms(2,3) by (cases "g = f") (simp_all add: deadline_def)
qed

lemma token_ok_later: "token_ok V now ex e \<Longrightarrow> now \<le> t \<Longrightarrow> token_ok (unexpired t V) t ex e"
  by (auto simp: token_ok_def unexpired_def split: option.splits)

lemma tokens_ok_later: "tokens_ok V now ex tokens \<Longrightarrow> now \<le> t \<Longrightarrow> tokens_ok (unexpired t V) t ex tokens"
  unfolding tokens_ok_def list_all_iff by (blast intro: token_ok_later)

lemma tokens_ok_same:
  "tokens_ok V now ex tokens \<Longrightarrow> (\<And>d. d \<in> fst ` set tokens \<Longrightarrow> V' (token_record_key d) = V (token_record_key d)) \<Longrightarrow>
     tokens_ok V' now ex tokens"
  by (simp add: tokens_ok_def list_all_iff token_ok_def)

lemma spent_ok_take:
  assumes "spent_ok rk sk V taken issued" and "d \<in> issued" and "V (sk d) = None"
    and "V' (sk d) = Some (v, Some y)" and "\<And>w D. V (rk d) = Some (w, D) \<Longrightarrow> \<exists>x\<le>y. D = Some x"
    and "\<And>e. V' (rk e) = V (rk e)" and "\<And>e. e \<noteq> d \<Longrightarrow> V' (sk e) = V (sk e)" and "V (rk d) \<noteq> None"
  shows "spent_ok rk sk V' (d # taken) issued"
proof -
  have "\<not> covered V (rk d) (sk d)" using assms(3,8) by (auto simp: covered_def)
  then have n: "d \<notin> set taken" using assms(1) by (auto simp: spent_ok_def)
  have "covered V' (rk d) (sk d)"
    unfolding covered_def
  proof (intro allI impI)
    fix w D
    assume "V' (rk d) = Some (w, D)"
    then have "V (rk d) = Some (w, D)" using assms(6)[of d] by simp
    then obtain x where "x \<le> y" "D = Some x" using assms(5) by blast
    then show "\<exists>x y w. D = Some x \<and> V' (sk d) = Some (w, Some y) \<and> x \<le> y" using assms(4) by simp
  qed
  moreover have "covered V' (rk e) (sk e)" if h: "e \<in> set taken" for e
  proof (rule covered_same[OF _ assms(6) assms(7)])
    show "covered V (rk e) (sk e)" using assms(1) h by (simp add: spent_ok_def)
    show "e \<noteq> d" using h n by blast
  qed
  ultimately show ?thesis using assms(1,2) n by (auto simp: spent_ok_def)
qed

section \<open>The store on a server\<close>

locale grants_on_redis = redis_server "g_redis G" visible
  for G :: "'s grant_store" and visible :: "time \<Rightarrow> 's \<Rightarrow> keyspace" +
  assumes digest_length: "length (g_digest G x) = 64"
begin

abbreviation (input) code_secs where "code_secs \<equiv> seconds (g_code_ttl G)"
abbreviation (input) token_secs where "token_secs \<equiv> seconds (g_refresh_ttl G)"

lemma revoke_family_view:
  "visible t (revoke_family G t f s) = (visible t s)(family_key f \<mapsto> (RVal (PStr ''1''), deadline t token_secs))"
  by (simp add: revoke_family_def set)

lemma issue_code_view:
  "k \<noteq> session_key (ac_sid grant) \<Longrightarrow> visible t (snd (issue_code G t code grant s)) k =
     (if k = code_record_key (g_digest G code) then Some (RVal (code_to_json grant), deadline t code_secs)
      else visible t s k)"
  by (simp add: issue_code_def Let_def set sadd expire)

lemma issue_refresh_token_view:
  "visible t (snd (issue_refresh_token G t token record s)) =
     (visible t s)(token_record_key (g_digest G token) \<mapsto> (RVal (token_to_json record), deadline t token_secs))"
  by (simp add: issue_refresh_token_def set)

lemma revoke_families_view:
  "visible t (fold (revoke_family G t) fs s) k =
     (if k \<in> family_key ` set fs then Some (RVal (PStr ''1''), deadline t token_secs) else visible t s k)"
  by (induction fs arbitrary: s) (auto simp: revoke_family_view)

lemma redeem_spend_view:
  assumes "redeem_spend G t code client_id uri grant s = (res, s')"
  shows "visible t s (code_spent_key (g_digest G code)) \<noteq> None \<Longrightarrow> accepted res d = [] \<and>
       visible t s' = (visible t s)(family_key (ac_family_id grant) \<mapsto> (RVal (PStr ''1''), deadline t token_secs)) \<and>
       (\<exists>e. res = Err (GrantReuse e))"
    and "visible t s (code_spent_key (g_digest G code)) = None \<Longrightarrow>
       visible t s' = (if ac_client_id grant \<noteq> client_id
         then (visible t s)(code_spent_key (g_digest G code) \<mapsto> (RVal (PStr ''1''), deadline t code_secs),
           family_key (ac_family_id grant) \<mapsto> (RVal (PStr ''1''), deadline t token_secs))
         else (visible t s)(code_spent_key (g_digest G code) \<mapsto> (RVal (PStr ''1''), deadline t code_secs))) \<and>
       (\<forall>e. res \<noteq> Err (GrantReuse e)) \<and> (ac_client_id grant \<noteq> client_id \<longrightarrow> accepted res d = [])"
  using assms set_nx[OF seconds_pos, of t "code_spent_key (g_digest G code)" "PStr ''1''" "g_code_ttl G" s]
  by (auto simp: redeem_spend_def Let_def revoke_family_view accepted_def split: if_splits prod.splits)

lemma rotate_spend_view:
  assumes "rotate_spend G t token client_id record s = (res, s')"
  shows "visible t s (token_spent_key (g_digest G token)) \<noteq> None \<Longrightarrow> accepted res d = [] \<and>
       visible t s' = (visible t s)(family_key (rt_family_id record) \<mapsto> (RVal (PStr ''1''), deadline t token_secs)) \<and>
       (\<exists>e. res = Err (GrantReuse e))"
    and "visible t s (token_spent_key (g_digest G token)) = None \<Longrightarrow>
       visible t s' = (if rt_client_id record \<noteq> client_id
         then (visible t s)(token_spent_key (g_digest G token) \<mapsto> (RVal (PStr ''1''), deadline t token_secs),
           family_key (rt_family_id record) \<mapsto> (RVal (PStr ''1''), deadline t token_secs))
         else (visible t s)(token_spent_key (g_digest G token) \<mapsto> (RVal (PStr ''1''), deadline t token_secs))) \<and>
       (\<forall>e. res \<noteq> Err (GrantReuse e)) \<and> (rt_client_id record \<noteq> client_id \<longrightarrow> accepted res d = [])"
  using assms set_nx[OF seconds_pos, of t "token_spent_key (g_digest G token)" "PStr ''1''" "g_refresh_ttl G" s]
  by (auto simp: rotate_spend_def Let_def revoke_family_view accepted_def split: if_splits prod.splits)

lemma revoke_session_families_view:
  assumes "revoke_session_families G t sid s = (fs, s')"
  shows "k \<noteq> session_key sid \<Longrightarrow> visible t s' k =
     (if k \<in> family_key ` set fs then Some (RVal (PStr ''1''), deadline t token_secs) else visible t s k)"
  using assms by (auto simp: revoke_session_families_def Let_def delete revoke_families_view)

text \<open>Lifetimes: no record outlives the time it was written at by more than its lifetime.\<close>

definition lifetimes_ok :: "(string \<Rightarrow> string) \<Rightarrow> nat \<Rightarrow> keyspace \<Rightarrow> time \<Rightarrow> string set \<Rightarrow> bool" where
  "lifetimes_ok rk ex V now issued = (\<forall>d. length d = 64 \<longrightarrow> (case V (rk d) of None \<Rightarrow> True
     | Some x \<Rightarrow> d \<in> issued \<and> (\<exists>y \<le> now + 1000 * ex. snd x = Some y)))"

lemma lifetimes_ok_later:
  assumes "lifetimes_ok rk ex V now issued" and "now \<le> t"
  shows "lifetimes_ok rk ex (unexpired t V) t issued"
  unfolding lifetimes_ok_def
proof (intro allI impI)
  fix d :: string
  assume "length d = 64"
  then have "case V (rk d) of None \<Rightarrow> True | Some x \<Rightarrow> d \<in> issued \<and> (\<exists>y \<le> now + 1000 * ex. snd x = Some y)"
    using assms(1) by (simp add: lifetimes_ok_def)
  then show "case unexpired t V (rk d) of None \<Rightarrow> True | Some x \<Rightarrow> d \<in> issued \<and> (\<exists>y \<le> t + 1000 * ex. snd x = Some y)"
    using assms(2) by (cases "unexpired t V (rk d)") (fastforce dest: unexpired_Some)+
qed

lemma lifetimes_ok_same:
  "lifetimes_ok rk ex V now issued \<Longrightarrow> (\<And>d. length d = 64 \<Longrightarrow> V' (rk d) = V (rk d)) \<Longrightarrow> lifetimes_ok rk ex V' now issued"
  by (simp add: lifetimes_ok_def)

definition view_inv ::
  "keyspace \<Rightarrow> time \<Rightarrow> string list \<Rightarrow> string list \<Rightarrow> (string \<times> string \<times> time) list \<Rightarrow> string list \<Rightarrow> (string \<times> time) list \<Rightarrow> bool" where
  "view_inv V now codes redeemed tokens rotated revoked =
     (spent_ok code_record_key code_spent_key V redeemed {d \<in> set codes. length d = 64} \<and>
      spent_ok token_record_key token_spent_key V rotated {d \<in> fst ` set tokens. length d = 64} \<and>
      lifetimes_ok code_record_key code_secs V now (set codes) \<and>
      lifetimes_ok token_record_key token_secs V now (fst ` set tokens) \<and>
      revoked_ok V now token_secs revoked \<and> tokens_ok V now token_secs tokens)"

definition grant_inv :: "'s grant_state \<Rightarrow> bool" where
  "grant_inv \<sigma> = view_inv (visible (gs_clock \<sigma>) (gs_redis \<sigma>)) (gs_clock \<sigma>) (gs_codes \<sigma>) (gs_redeemed \<sigma>)
     (gs_tokens \<sigma>) (gs_rotated \<sigma>) (gs_revoked \<sigma>)"

lemma spent_length: "spent_ok rk sk V taken {d \<in> A. length d = 64} \<Longrightarrow> d \<in> set taken \<Longrightarrow> length d = 64"
  by (auto simp: spent_ok_def)

lemma view_later: "view_inv V now codes red tok rot revd \<Longrightarrow> now \<le> t \<Longrightarrow> view_inv (unexpired t V) t codes red tok rot revd"
  unfolding view_inv_def
  by (intro conjI) (blast intro: spent_ok_later lifetimes_ok_later revoked_ok_later tokens_ok_later)+

text \<open>A write that leaves records and markers alone.\<close>

lemma view_frame:
  assumes "view_inv V now codes red tok rot revd"
    and "\<And>d. V' (code_record_key d) = V (code_record_key d)" "\<And>d. V' (code_spent_key d) = V (code_spent_key d)"
    and "\<And>d. V' (token_record_key d) = V (token_record_key d)" "\<And>d. V' (token_spent_key d) = V (token_spent_key d)"
    and "revoked_ok V' now token_secs revd'"
  shows "view_inv V' now codes red tok rot revd'"
proof -
  have "spent_ok code_record_key code_spent_key V' red {d \<in> set codes. length d = 64}"
    using assms(1-3) unfolding view_inv_def by (blast intro: spent_ok_same)
  moreover have "spent_ok token_record_key token_spent_key V' rot {d \<in> fst ` set tok. length d = 64}"
    using assms(1,4,5) unfolding view_inv_def by (blast intro: spent_ok_same)
  moreover have "lifetimes_ok code_record_key code_secs V' now (set codes)"
    using assms(1,2) unfolding view_inv_def by (blast intro: lifetimes_ok_same)
  moreover have "lifetimes_ok token_record_key token_secs V' now (fst ` set tok)"
    using assms(1,4) unfolding view_inv_def by (blast intro: lifetimes_ok_same)
  moreover have "tokens_ok V' now token_secs tok"
    using assms(1,4) unfolding view_inv_def by (blast intro: tokens_ok_same)
  ultimately show ?thesis using assms(6) unfolding view_inv_def by blast
qed

lemma view_revoke:
  assumes "view_inv V now codes red tok rot revd"
  shows "view_inv (V(family_key f \<mapsto> (RVal (PStr ''1''), deadline now token_secs))) now codes red tok rot ((f, now) # revd)"
proof (rule view_frame[OF assms])
  have "revoked_ok V now token_secs revd" using assms by (simp add: view_inv_def)
  then show "revoked_ok (V(family_key f \<mapsto> (RVal (PStr ''1''), deadline now token_secs))) now token_secs ((f, now) # revd)"
    by (rule revoked_ok_add) auto
qed auto

lemma view_code_issued:
  assumes "view_inv V now codes red tok rot revd" and "length d = 64" and "d \<notin> set codes"
  shows "view_inv (V(code_record_key d \<mapsto> (v, deadline now code_secs))) now (d # codes) red tok rot revd"
proof -
  let ?V' = "V(code_record_key d \<mapsto> (v, deadline now code_secs))"
  have old: "spent_ok code_record_key code_spent_key V red {d \<in> set codes. length d = 64}"
    "lifetimes_ok code_record_key code_secs V now (set codes)"
    "spent_ok token_record_key token_spent_key V rot {d \<in> fst ` set tok. length d = 64}"
    "lifetimes_ok token_record_key token_secs V now (fst ` set tok)" "revoked_ok V now token_secs revd" "tokens_ok V now token_secs tok"
    using assms(1) unfolding view_inv_def by blast+
  have "d \<notin> set red" using old(1) assms(3) by (auto simp: spent_ok_def)
  then have "spent_ok code_record_key code_spent_key ?V' red {x \<in> set (d # codes). length x = 64}"
    using spent_length[OF old(1)] assms(2) by (intro spent_ok_same[OF old(1)]) (auto simp: record_spent_apart)
  moreover have "lifetimes_ok code_record_key code_secs ?V' now (set (d # codes))"
    using old(2) unfolding lifetimes_ok_def by (auto simp: deadline_def split: option.splits)
  moreover have "spent_ok token_record_key token_spent_key ?V' rot {d \<in> fst ` set tok. length d = 64}"
    by (rule spent_ok_same[OF old(3)]) auto
  moreover have "lifetimes_ok token_record_key token_secs ?V' now (fst ` set tok)"
    by (rule lifetimes_ok_same[OF old(4)]) auto
  moreover have "revoked_ok ?V' now token_secs revd" by (rule revoked_ok_same[OF old(5)]) auto
  moreover have "tokens_ok ?V' now token_secs tok" by (rule tokens_ok_same[OF old(6)]) auto
  ultimately show ?thesis unfolding view_inv_def by blast
qed

lemma view_token_issued:
  assumes "view_inv V now codes red tok rot revd" and "length d = 64" and "d \<notin> fst ` set tok"
  shows "view_inv (V(token_record_key d \<mapsto> (RVal (token_to_json r), deadline now token_secs))) now codes red
     ((d, rt_family_id r, now) # tok) rot revd"
proof -
  let ?V' = "V(token_record_key d \<mapsto> (RVal (token_to_json r), deadline now token_secs))" and ?tok = "(d, rt_family_id r, now) # tok"
  have old: "spent_ok code_record_key code_spent_key V red {d \<in> set codes. length d = 64}"
    "lifetimes_ok code_record_key code_secs V now (set codes)"
    "spent_ok token_record_key token_spent_key V rot {d \<in> fst ` set tok. length d = 64}"
    "lifetimes_ok token_record_key token_secs V now (fst ` set tok)" "revoked_ok V now token_secs revd" "tokens_ok V now token_secs tok"
    using assms(1) unfolding view_inv_def by blast+
  have "d \<notin> set rot" using old(3) assms(3) by (auto simp: spent_ok_def)
  then have "spent_ok token_record_key token_spent_key ?V' rot {x \<in> fst ` set ?tok. length x = 64}"
    using spent_length[OF old(3)] assms(2) by (intro spent_ok_same[OF old(3)]) (auto simp: record_spent_apart)
  moreover have "lifetimes_ok token_record_key token_secs ?V' now (fst ` set ?tok)"
    using old(4) unfolding lifetimes_ok_def by (auto simp: deadline_def split: option.splits)
  moreover have "spent_ok code_record_key code_spent_key ?V' red {d \<in> set codes. length d = 64}"
    by (rule spent_ok_same[OF old(1)]) auto
  moreover have "lifetimes_ok code_record_key code_secs ?V' now (set codes)"
    by (rule lifetimes_ok_same[OF old(2)]) auto
  moreover have "revoked_ok ?V' now token_secs revd" by (rule revoked_ok_same[OF old(5)]) auto
  moreover have "tokens_ok ?V' now token_secs tok"
    using assms(3) by (intro tokens_ok_same[OF old(6)]) auto
  then have "tokens_ok ?V' now token_secs ?tok" using assms(2) by (auto simp: tokens_ok_def token_ok_def)
  ultimately show ?thesis unfolding view_inv_def by blast
qed

lemma spent_ok_cons:
  "spent_ok rk sk V taken issued \<Longrightarrow> d \<notin> set taken \<Longrightarrow> d \<in> issued \<Longrightarrow> covered V (rk d) (sk d) \<Longrightarrow>
     spent_ok rk sk V (d # taken) issued"
  by (simp add: spent_ok_def)

lemma lifetime_of:
  "lifetimes_ok rk ex V now issued \<Longrightarrow> length d = 64 \<Longrightarrow> V (rk d) \<noteq> None \<Longrightarrow> d \<in> issued"
  "lifetimes_ok rk ex V now issued \<Longrightarrow> length d = 64 \<Longrightarrow> V (rk d) = Some (w, D) \<Longrightarrow> \<exists>x \<le> now + 1000 * ex. D = Some x"
  by (fastforce simp: lifetimes_ok_def split: option.splits)+

lemma view_code_spent:
  assumes "view_inv V now codes red tok rot revd" and "length d = 64" and "V (code_record_key d) \<noteq> None"
    and "V (code_spent_key d) = None" and "red' = d # red \<or> red' = red"
  shows "view_inv (V(code_spent_key d \<mapsto> (v, deadline now code_secs))) now codes red' tok rot revd"
proof -
  let ?V' = "V(code_spent_key d \<mapsto> (v, deadline now code_secs))"
  have old: "spent_ok code_record_key code_spent_key V red {d \<in> set codes. length d = 64}"
    "lifetimes_ok code_record_key code_secs V now (set codes)"
    "spent_ok token_record_key token_spent_key V rot {d \<in> fst ` set tok. length d = 64}"
    "lifetimes_ok token_record_key token_secs V now (fst ` set tok)" "revoked_ok V now token_secs revd" "tokens_ok V now token_secs tok"
    using assms(1) unfolding view_inv_def by blast+
  have "d \<in> set codes" using lifetime_of(1)[OF old(2) assms(2,3)] .
  have n: "d \<notin> set red" using old(1) assms(3,4) by (auto simp: spent_ok_def covered_def)
  have same: "spent_ok code_record_key code_spent_key ?V' red {d \<in> set codes. length d = 64}"
    using spent_length[OF old(1)] assms(2) n by (intro spent_ok_same[OF old(1)]) (auto simp: record_spent_apart)
  have "covered ?V' (code_record_key d) (code_spent_key d)"
    using lifetime_of(2)[OF old(2) assms(2)] assms(2) by (fastforce simp: covered_def record_spent_apart deadline_def)
  then have "spent_ok code_record_key code_spent_key ?V' (d # red) {d \<in> set codes. length d = 64}"
    using n \<open>d \<in> set codes\<close> assms(2) by (intro spent_ok_cons[OF same]) simp_all
  then have "spent_ok code_record_key code_spent_key ?V' red' {d \<in> set codes. length d = 64}"
    using assms(5) same by (elim disjE) (simp_all only:)
  moreover have "lifetimes_ok code_record_key code_secs ?V' now (set codes)"
    using assms(2) by (intro lifetimes_ok_same[OF old(2)]) (simp add: record_spent_apart)
  moreover have "spent_ok token_record_key token_spent_key ?V' rot {d \<in> fst ` set tok. length d = 64}"
    by (rule spent_ok_same[OF old(3)]) auto
  moreover have "lifetimes_ok token_record_key token_secs ?V' now (fst ` set tok)"
    by (rule lifetimes_ok_same[OF old(4)]) auto
  moreover have "revoked_ok ?V' now token_secs revd" by (rule revoked_ok_same[OF old(5)]) auto
  moreover have "tokens_ok ?V' now token_secs tok" by (rule tokens_ok_same[OF old(6)]) auto
  ultimately show ?thesis unfolding view_inv_def by blast
qed

lemma view_token_spent:
  assumes "view_inv V now codes red tok rot revd" and "length d = 64" and "V (token_record_key d) \<noteq> None"
    and "V (token_spent_key d) = None" and "rot' = d # rot \<or> rot' = rot"
  shows "view_inv (V(token_spent_key d \<mapsto> (v, deadline now token_secs))) now codes red tok rot' revd"
proof -
  let ?V' = "V(token_spent_key d \<mapsto> (v, deadline now token_secs))"
  have old: "spent_ok code_record_key code_spent_key V red {d \<in> set codes. length d = 64}"
    "lifetimes_ok code_record_key code_secs V now (set codes)"
    "spent_ok token_record_key token_spent_key V rot {d \<in> fst ` set tok. length d = 64}"
    "lifetimes_ok token_record_key token_secs V now (fst ` set tok)" "revoked_ok V now token_secs revd" "tokens_ok V now token_secs tok"
    using assms(1) unfolding view_inv_def by blast+
  have i: "d \<in> fst ` set tok" using lifetime_of(1)[OF old(4) assms(2,3)] .
  have n: "d \<notin> set rot" using old(3) assms(3,4) by (auto simp: spent_ok_def covered_def)
  have same: "spent_ok token_record_key token_spent_key ?V' rot {d \<in> fst ` set tok. length d = 64}"
    using spent_length[OF old(3)] assms(2) n by (intro spent_ok_same[OF old(3)]) (auto simp: record_spent_apart)
  have "covered ?V' (token_record_key d) (token_spent_key d)"
    using lifetime_of(2)[OF old(4) assms(2)] assms(2) by (fastforce simp: covered_def record_spent_apart deadline_def)
  then have "spent_ok token_record_key token_spent_key ?V' (d # rot) {d \<in> fst ` set tok. length d = 64}"
    using n i assms(2) by (intro spent_ok_cons[OF same]) simp_all
  then have "spent_ok token_record_key token_spent_key ?V' rot' {d \<in> fst ` set tok. length d = 64}"
    using assms(5) same by (elim disjE) (simp_all only:)
  moreover have "lifetimes_ok token_record_key token_secs ?V' now (fst ` set tok)"
    using assms(2) by (intro lifetimes_ok_same[OF old(4)]) (simp add: record_spent_apart)
  moreover have "spent_ok code_record_key code_spent_key ?V' red {d \<in> set codes. length d = 64}"
    by (rule spent_ok_same[OF old(1)]) auto
  moreover have "lifetimes_ok code_record_key code_secs ?V' now (set codes)"
    by (rule lifetimes_ok_same[OF old(2)]) auto
  moreover have "revoked_ok ?V' now token_secs revd" by (rule revoked_ok_same[OF old(5)]) auto
  moreover have "tokens_ok ?V' now token_secs tok"
  proof (rule tokens_ok_same[OF old(6)])
    fix e assume "e \<in> fst ` set tok"
    then have "length e = 64" using old(6) by (auto simp: tokens_ok_def token_ok_def list_all_iff)
    then show "?V' (token_record_key e) = V (token_record_key e)" using assms(2) by (simp add: record_spent_apart)
  qed
  ultimately show ?thesis unfolding view_inv_def by blast
qed

lemma grant_step_inv:
  assumes "grant_step G visible \<sigma> \<sigma>'" and "grant_inv \<sigma>"
  shows "grant_inv \<sigma>'"
  using assms(1)
proof cases
  case (tick t)
  then show ?thesis using view_later[of _ "gs_clock \<sigma>"] later[of "gs_clock \<sigma>" t] assms(2) by (simp add: grant_inv_def)
next
  case (elsewhere s')
  have "view_inv (visible (gs_clock \<sigma>) s') (gs_clock \<sigma>) (gs_codes \<sigma>) (gs_redeemed \<sigma>) (gs_tokens \<sigma>) (gs_rotated \<sigma>) (gs_revoked \<sigma>)"
  proof (rule view_frame[OF assms(2)[unfolded grant_inv_def]])
    have "revoked_ok (visible (gs_clock \<sigma>) (gs_redis \<sigma>)) (gs_clock \<sigma>) token_secs (gs_revoked \<sigma>)"
      using assms(2) by (simp add: grant_inv_def view_inv_def)
    then show "revoked_ok (visible (gs_clock \<sigma>) s') (gs_clock \<sigma>) token_secs (gs_revoked \<sigma>)"
      by (rule revoked_ok_same) (simp add: elsewhere(2))
  qed (simp_all add: elsewhere(2))
  then show ?thesis using elsewhere(1) by (simp add: grant_inv_def)
next
  case (code_issued code grant)
  let ?s' = "snd (issue_code G (gs_clock \<sigma>) code grant (gs_redis \<sigma>))" and ?d = "g_digest G code"
  let ?V' = "(visible (gs_clock \<sigma>) (gs_redis \<sigma>))(code_record_key ?d \<mapsto> (RVal (code_to_json grant), deadline (gs_clock \<sigma>) code_secs))"
  have "view_inv ?V' (gs_clock \<sigma>) (?d # gs_codes \<sigma>) (gs_redeemed \<sigma>) (gs_tokens \<sigma>) (gs_rotated \<sigma>) (gs_revoked \<sigma>)"
    using view_code_issued[OF assms(2)[unfolded grant_inv_def] digest_length code_issued(2)] .
  then have "view_inv (visible (gs_clock \<sigma>) ?s') (gs_clock \<sigma>) (?d # gs_codes \<sigma>) (gs_redeemed \<sigma>) (gs_tokens \<sigma>) (gs_rotated \<sigma>) (gs_revoked \<sigma>)"
  proof (rule view_frame)
    have "revoked_ok (visible (gs_clock \<sigma>) (gs_redis \<sigma>)) (gs_clock \<sigma>) token_secs (gs_revoked \<sigma>)"
      using assms(2) by (simp add: grant_inv_def view_inv_def)
    then show "revoked_ok (visible (gs_clock \<sigma>) ?s') (gs_clock \<sigma>) token_secs (gs_revoked \<sigma>)"
      by (rule revoked_ok_same) (simp add: issue_code_view)
  qed (simp_all add: issue_code_view)
  then show ?thesis using code_issued(1) by (simp add: grant_inv_def)
next
  case (code_looked_up code grant)
  then show ?thesis using assms(2) by (simp add: grant_inv_def)
next
  case (code_spent code grant client_id uri res s')
  let ?V = "visible (gs_clock \<sigma>) (gs_redis \<sigma>)" and ?d = "g_digest G code"
  have rec: "?V (code_record_key ?d) \<noteq> None" using code_spent(3) by (cases "?V (code_record_key ?d)") (simp_all add: get text_of_def)
  have "view_inv (visible (gs_clock \<sigma>) s') (gs_clock \<sigma>) (gs_codes \<sigma>) (accepted res ?d @ gs_redeemed \<sigma>) (gs_tokens \<sigma>)
      (gs_rotated \<sigma>) (revokes res (ac_client_id grant \<noteq> client_id) (ac_family_id grant, gs_clock \<sigma>) @ gs_revoked \<sigma>)"
  proof (cases "?V (code_spent_key ?d) = None")
    case False
    then show ?thesis
      using redeem_spend_view(1)[OF code_spent(4), of ?d] view_revoke[OF assms(2)[unfolded grant_inv_def], of "ac_family_id grant"]
      by (auto simp: revokes_def)
  next
    case True
    note v = redeem_spend_view(2)[OF code_spent(4) True, of ?d]
    have t: "view_inv (?V(code_spent_key ?d \<mapsto> (RVal (PStr ''1''), deadline (gs_clock \<sigma>) code_secs))) (gs_clock \<sigma>)
        (gs_codes \<sigma>) (accepted res ?d @ gs_redeemed \<sigma>) (gs_tokens \<sigma>) (gs_rotated \<sigma>) (gs_revoked \<sigma>)"
      by (rule view_code_spent[OF assms(2)[unfolded grant_inv_def] digest_length rec True])
         (simp add: accepted_def split: sum.splits)
    show ?thesis
      using v t view_revoke[OF t, of "ac_family_id grant"] by (auto simp: revokes_def)
  qed
  then show ?thesis using code_spent(1) by (simp add: grant_inv_def)
next
  case (token_issued token r)
  then show ?thesis
    using view_token_issued[OF assms(2)[unfolded grant_inv_def] digest_length token_issued(2)]
    by (simp add: grant_inv_def issue_refresh_token_view)
next
  case (token_looked_up token r)
  then show ?thesis using assms(2) by (simp add: grant_inv_def)
next
  case (token_spent token r client_id res s')
  let ?V = "visible (gs_clock \<sigma>) (gs_redis \<sigma>)" and ?d = "g_digest G token"
  have rec: "?V (token_record_key ?d) \<noteq> None" using token_spent(3) by (cases "?V (token_record_key ?d)") (simp_all add: get text_of_def)
  have "view_inv (visible (gs_clock \<sigma>) s') (gs_clock \<sigma>) (gs_codes \<sigma>) (gs_redeemed \<sigma>) (gs_tokens \<sigma>)
      (accepted res ?d @ gs_rotated \<sigma>) (revokes res (rt_client_id r \<noteq> client_id) (rt_family_id r, gs_clock \<sigma>) @ gs_revoked \<sigma>)"
  proof (cases "?V (token_spent_key ?d) = None")
    case False
    then show ?thesis
      using rotate_spend_view(1)[OF token_spent(4), of ?d] view_revoke[OF assms(2)[unfolded grant_inv_def], of "rt_family_id r"]
      by (auto simp: revokes_def)
  next
    case True
    note v = rotate_spend_view(2)[OF token_spent(4) True, of ?d]
    have t: "view_inv (?V(token_spent_key ?d \<mapsto> (RVal (PStr ''1''), deadline (gs_clock \<sigma>) token_secs))) (gs_clock \<sigma>)
        (gs_codes \<sigma>) (gs_redeemed \<sigma>) (gs_tokens \<sigma>) (accepted res ?d @ gs_rotated \<sigma>) (gs_revoked \<sigma>)"
      by (rule view_token_spent[OF assms(2)[unfolded grant_inv_def] digest_length rec True])
         (simp add: accepted_def split: sum.splits)
    show ?thesis
      using v t view_revoke[OF t, of "rt_family_id r"] by (auto simp: revokes_def)
  qed
  then show ?thesis using token_spent(1) by (simp add: grant_inv_def)
next
  case (family_revoked f)
  then show ?thesis
    using view_revoke[OF assms(2)[unfolded grant_inv_def]] by (simp add: grant_inv_def revoke_family_view)
next
  case (session_ended sid fs s')
  let ?V = "visible (gs_clock \<sigma>) (gs_redis \<sigma>)"
  have all: "view_inv (\<lambda>k. if k \<in> family_key ` set gs then Some (RVal (PStr ''1''), deadline (gs_clock \<sigma>) token_secs) else ?V k)
      (gs_clock \<sigma>) (gs_codes \<sigma>) (gs_redeemed \<sigma>) (gs_tokens \<sigma>) (gs_rotated \<sigma>) (map (\<lambda>f. (f, gs_clock \<sigma>)) gs @ gs_revoked \<sigma>)" for gs
  proof (induction gs)
    case Nil
    then show ?case using assms(2) by (simp add: grant_inv_def)
  next
    case (Cons g gs)
    have "(\<lambda>k. if k \<in> family_key ` set (g # gs) then Some (RVal (PStr ''1''), deadline (gs_clock \<sigma>) token_secs) else ?V k) =
        (\<lambda>k. if k \<in> family_key ` set gs then Some (RVal (PStr ''1''), deadline (gs_clock \<sigma>) token_secs) else ?V k)
          (family_key g \<mapsto> (RVal (PStr ''1''), deadline (gs_clock \<sigma>) token_secs))" by auto
    then show ?case using view_revoke[OF Cons, of g] by simp
  qed
  have "view_inv (visible (gs_clock \<sigma>) s') (gs_clock \<sigma>) (gs_codes \<sigma>) (gs_redeemed \<sigma>) (gs_tokens \<sigma>) (gs_rotated \<sigma>)
      (map (\<lambda>f. (f, gs_clock \<sigma>)) fs @ gs_revoked \<sigma>)"
  proof (rule view_frame[OF all[of fs]])
    show "revoked_ok (visible (gs_clock \<sigma>) s') (gs_clock \<sigma>) token_secs (map (\<lambda>f. (f, gs_clock \<sigma>)) fs @ gs_revoked \<sigma>)"
      using all[of fs] unfolding view_inv_def
      by (elim conjE, elim revoked_ok_same) (simp add: revoke_session_families_view[OF session_ended(2)])
  qed (simp_all add: revoke_session_families_view[OF session_ended(2)])
  then show ?thesis using session_ended(1) by (simp add: grant_inv_def)
qed

lemma grant_reachable_inv: "grant_reachable G visible \<sigma> \<Longrightarrow> grant_inv \<sigma>"
proof (induction rule: grant_reachable.induct)
  case (start t s)
  then show ?case
    by (simp add: grant_inv_def view_inv_def spent_ok_def lifetimes_ok_def revoked_ok_def tokens_ok_def)
next
  case (step \<sigma> \<sigma>')
  then show ?case using grant_step_inv by blast
qed

lemma revoked_refused:
  assumes "grant_reachable G visible \<sigma>" and "(f, t0) \<in> set (gs_revoked \<sigma>)"
    and "(g_digest G token, f, ti) \<in> set (gs_tokens \<sigma>)" and "ti \<le> t0"
  shows "\<exists>e. rotate_lookup G (gs_clock \<sigma>) token (gs_redis \<sigma>) = Err e"
proof (cases "visible (gs_clock \<sigma>) (gs_redis \<sigma>) (token_record_key (g_digest G token))")
  case None
  then show ?thesis by (simp add: rotate_lookup_def get text_of_def)
next
  case (Some x)
  let ?V = "visible (gs_clock \<sigma>) (gs_redis \<sigma>)"
  have i: "revoked_ok ?V (gs_clock \<sigma>) token_secs (gs_revoked \<sigma>)" "tokens_ok ?V (gs_clock \<sigma>) token_secs (gs_tokens \<sigma>)"
    using grant_reachable_inv[OF assms(1)] by (simp_all add: grant_inv_def view_inv_def)
  have "token_ok ?V (gs_clock \<sigma>) token_secs (g_digest G token, f, ti)"
    using i(2) assms(3) by (simp add: tokens_ok_def list_all_iff)
  then obtain r where r: "x = (RVal (token_to_json r), deadline ti token_secs)" "rt_family_id r = f"
    using Some by (cases x) (auto simp: token_ok_def)
  have "?V = unexpired (gs_clock \<sigma>) ?V" using later[of "gs_clock \<sigma>" "gs_clock \<sigma>"] by simp
  then have "alive (gs_clock \<sigma>) x" using Some unexpired_some by metis
  then have "gs_clock \<sigma> < t0 + 1000 * token_secs" using r(1) assms(4) by (simp add: alive_def deadline_def)
  then have "?V (family_key f) \<noteq> None" using i(1) assms(2) by (fastforce simp: revoked_ok_def)
  then have "is_family_revoked G (gs_clock \<sigma>) (rt_family_id r) (gs_redis \<sigma>)" using r(2) by (simp add: is_family_revoked_def exists)
  then show ?thesis using Some r(1) by (simp add: rotate_lookup_def get text_of_def)
qed

end

section \<open>The store on a server in memory\<close>

definition sample_digest :: "string \<Rightarrow> string" where
  "sample_digest x = take 64 (x @ replicate 64 (CHR ''0''))"

definition sample_grants :: "keyspace grant_store" where
  "sample_grants = \<lparr>g_redis = mem_redis, g_digest = sample_digest, g_code_ttl = CODE_TTL, g_refresh_ttl = REFRESH_TTL\<rparr>"

lemma sample_digest_length [simp]: "length (sample_digest x) = 64"
  by (simp add: sample_digest_def)

lemma sample_grants_sel [simp]:
  "g_redis sample_grants = mem_redis" "g_digest sample_grants = sample_digest"
  "seconds (g_code_ttl sample_grants) = 60" "seconds (g_refresh_ttl sample_grants) = 1209600"
  by (simp_all add: sample_grants_def seconds_def CODE_TTL_def REFRESH_TTL_def)

interpretation mem_grants: grants_on_redis sample_grants unexpired
proof -
  have "grants_on_redis_axioms sample_grants" by standard simp
  then show "grants_on_redis sample_grants unexpired"
    using mem.redis_server_axioms by (simp add: grants_on_redis_def)
qed

definition sample_code :: authorization_code where
  "sample_code = \<lparr>ac_client_id = ''rp'', ac_redirect_uri = ''https://rp/cb'', ac_code_challenge = ''c'', ac_scopes = [''openid''],
     ac_subject = ''u1'', ac_sid = ''s1'', ac_family_id = ''f1'', ac_nonce = None, ac_auth_time = None, ac_acr = None, ac_amr = []\<rparr>"

definition sample_token :: refresh_token where
  "sample_token = \<lparr>rt_client_id = ''rp'', rt_scopes = [''openid''], rt_subject = ''u1'', rt_sid = ''s1'', rt_family_id = ''f1'',
     rt_generation = 0, rt_issued_at = 0\<rparr>"

lemma sample_fields [simp]:
  "ac_client_id sample_code = ''rp''" "ac_redirect_uri sample_code = ''https://rp/cb''" "ac_sid sample_code = ''s1''"
  "ac_family_id sample_code = ''f1''" "rt_client_id sample_token = ''rp''" "rt_family_id sample_token = ''f1''"
  by (simp_all add: sample_code_def sample_token_def)

lemmas mem_eval = mem_redis_ops deadline_def text_of_def Let_def record_spent_apart

definition sample_start :: "keyspace grant_state" where
  "sample_start = \<lparr>gs_clock = 0, gs_redis = (\<lambda>k. None), gs_codes = [], gs_redeeming = {#}, gs_redeemed = [],
     gs_tokens = [], gs_rotating = {#}, gs_rotated = [], gs_revoked = []\<rparr>"

lemma sample_start_reachable: "grant_reachable sample_grants unexpired sample_start"
  unfolding sample_start_def by (rule grant_reachable.start) simp

text \<open>The keys after a code is issued at time 0.\<close>

definition sample_keys :: keyspace where
  "sample_keys = (\<lambda>k. None)(code_record_key (sample_digest ''abc'') \<mapsto> (RVal (code_to_json sample_code), Some 60000),
     session_key ''s1'' \<mapsto> (RSet {|''f1''|}, Some 1209600000))"

lemma sample_issue: "issue_code sample_grants 0 ''abc'' sample_code (\<lambda>k. None) = (''abc'', sample_keys)"
  by (simp add: issue_code_def sample_keys_def mem_eval members_of_def expiry_of_def)

lemma sample_lookup: "t < 60000 \<Longrightarrow> redeem_lookup sample_grants t ''abc'' sample_keys = Ok sample_code"
  by (simp add: redeem_lookup_def sample_keys_def mem_eval)

lemma sample_spend:
  "redeem_spend sample_grants t ''abc'' ''rp'' ''https://rp/cb'' sample_code sample_keys =
     (Ok sample_code, sample_keys(code_spent_key (sample_digest ''abc'') \<mapsto> (RVal (PStr ''1''), Some (t + 60000))))"
  by (simp add: redeem_spend_def sample_keys_def mem_eval)

lemma sample_issued_reachable:
  "grant_reachable sample_grants unexpired (sample_start\<lparr>gs_redis := sample_keys, gs_codes := [sample_digest ''abc'']\<rparr>)"
  using grant_reachable.step[OF sample_start_reachable grant_step.code_issued[of sample_grants "''abc''" sample_start unexpired sample_code]]
  by (simp add: sample_start_def sample_issue)

lemma sample_redeeming_reachable:
  "grant_reachable sample_grants unexpired (sample_start\<lparr>gs_redis := sample_keys, gs_codes := [sample_digest ''abc''],
     gs_redeeming := {#(''abc'', sample_code)#}\<rparr>)"
  using grant_reachable.step[OF sample_issued_reachable grant_step.code_looked_up[of sample_grants _ "''abc''" sample_code]]
  by (simp add: sample_start_def sample_lookup)

text \<open>C6. Under any interleaving of requests, expiries and writes by other parts of the broker, no
  authorization code is redeemed twice and no refresh token is rotated twice, as long as each is spent
  while its record is still there.\<close>

theorem grants_single_use:
  assumes "grants_on_redis G visible" and "grant_reachable G visible \<sigma>"
  shows "distinct (gs_redeemed \<sigma>) \<and> distinct (gs_rotated \<sigma>)"
  using grants_on_redis.grant_reachable_inv[OF assms]
  by (simp add: grants_on_redis.grant_inv_def[OF assms(1)] grants_on_redis.view_inv_def[OF assms(1)] spent_ok_def)

theorem grants_single_use_witness:
  "\<exists>\<sigma>. grant_reachable sample_grants unexpired \<sigma> \<and> gs_redeemed \<sigma> = [sample_digest ''abc''] \<and>
     distinct (gs_redeemed \<sigma>) \<and> distinct (gs_rotated \<sigma>)"
proof -
  let ?a = "sample_start\<lparr>gs_redis := sample_keys, gs_codes := [sample_digest ''abc''], gs_redeeming := {#(''abc'', sample_code)#}\<rparr>"
  let ?b = "?a\<lparr>gs_redis := sample_keys(code_spent_key (sample_digest ''abc'') \<mapsto> (RVal (PStr ''1''), Some 60000)),
    gs_redeeming := {#}, gs_redeemed := [sample_digest ''abc'']\<rparr>"
  have "grant_step sample_grants unexpired ?a ?b"
    using grant_step.code_spent[of "''abc''" sample_code ?a sample_grants "''rp''" "''https://rp/cb''"
        "Ok sample_code" "sample_keys(code_spent_key (sample_digest ''abc'') \<mapsto> (RVal (PStr ''1''), Some 60000))" unexpired]
      sample_spend[of 0]
    by (simp add: accepted_def revokes_def sample_start_def sample_keys_def mem_eval)
  then have r: "grant_reachable sample_grants unexpired ?b" by (rule grant_reachable.step[OF sample_redeeming_reachable])
  moreover have "gs_redeemed ?b = [sample_digest ''abc'']" by simp
  ultimately show ?thesis using grants_single_use[OF mem_grants.grants_on_redis_axioms r] by blast
qed

text \<open>C17. Once a family is revoked, no refresh token of it issued up to then is accepted again: the
  revocation marker outlives every one of them.\<close>

theorem revoked_family_dead:
  assumes "grants_on_redis G visible" and "grant_reachable G visible \<sigma>" and "(f, t0) \<in> set (gs_revoked \<sigma>)"
    and "(g_digest G token, f, ti) \<in> set (gs_tokens \<sigma>)" and "ti \<le> t0"
  shows "\<exists>e. rotate_lookup G (gs_clock \<sigma>) token (gs_redis \<sigma>) = Err e"
  using grants_on_redis.revoked_refused[OF assms] .

theorem revoked_family_dead_witness:
  "\<exists>\<sigma> e. grant_reachable sample_grants unexpired \<sigma> \<and> gs_revoked \<sigma> = [(''f1'', 0)] \<and>
     gs_tokens \<sigma> = [(sample_digest ''tok'', ''f1'', 0)] \<and> rotate_lookup sample_grants (gs_clock \<sigma>) ''tok'' (gs_redis \<sigma>) = Err e"
proof -
  let ?a = "sample_start\<lparr>gs_redis := snd (issue_refresh_token sample_grants 0 ''tok'' sample_token (gs_redis sample_start)),
    gs_tokens := [(sample_digest ''tok'', ''f1'', 0)]\<rparr>"
  let ?b = "?a\<lparr>gs_redis := revoke_family sample_grants 0 ''f1'' (gs_redis ?a), gs_revoked := [(''f1'', 0)]\<rparr>"
  have "grant_step sample_grants unexpired sample_start ?a"
    using grant_step.token_issued[of sample_grants "''tok''" sample_start unexpired sample_token] by (simp add: sample_start_def)
  then have "grant_reachable sample_grants unexpired ?a" by (rule grant_reachable.step[OF sample_start_reachable])
  moreover have "grant_step sample_grants unexpired ?a ?b"
    using grant_step.family_revoked[of sample_grants unexpired ?a "''f1''"] by (simp add: sample_start_def)
  ultimately have r: "grant_reachable sample_grants unexpired ?b" by (rule grant_reachable.step)
  then have "\<exists>e. rotate_lookup sample_grants (gs_clock ?b) ''tok'' (gs_redis ?b) = Err e"
    by (rule revoked_family_dead[OF mem_grants.grants_on_redis_axioms, where f = "''f1''" and ti = 0 and ?t0.0 = 0]) simp_all
  moreover have "gs_revoked ?b = [(''f1'', 0)]" "gs_tokens ?b = [(sample_digest ''tok'', ''f1'', 0)]" by simp_all
  ultimately show ?thesis using r by blast
qed

text \<open>A refresh token of a revoked family works again: the session ends one second after the code was
  issued, but the code is still redeemed, since a redemption does not ask whether its family is revoked.
  The token issued for it outlives the revocation marker, and is rotated into one that lives another
  fourteen days.\<close>

theorem revoked_family_revives:
  "case issue_code sample_grants 0 ''abc'' sample_code (\<lambda>k. None) of (code, s0) \<Rightarrow>
     (case revoke_session_families sample_grants 1000 ''s1'' s0 of (families, s1) \<Rightarrow>
        families = [''f1''] \<and>
        (case redeem_code sample_grants 30000 30000 code ''rp'' ''https://rp/cb'' s1 of (res, s2) \<Rightarrow>
           res = Ok sample_code \<and>
           (case issue_refresh_token sample_grants 30000 ''tok'' sample_token s2 of (token, s3) \<Rightarrow>
              rotate_lookup sample_grants 1209600999 token s3 = Err (GrantError (OAuthError INVALID_GRANT R_GRANT_REVOKED)) \<and>
              fst (rotate_refresh_token sample_grants 1209601000 1209601000 1209601000 token ''new'' ''rp'' 1209601 s3) =
                Ok (''new'', successor sample_token 1209601))))"
proof -
  let ?m1 = "sample_keys(family_key ''f1'' \<mapsto> (RVal (PStr ''1''), Some 1209601000), session_key ''s1'' := None)"
  let ?m2 = "?m1(code_spent_key (sample_digest ''abc'') \<mapsto> (RVal (PStr ''1''), Some 90000))"
  let ?m3 = "?m2(token_record_key (sample_digest ''tok'') \<mapsto> (RVal (token_to_json sample_token), Some 1209630000))"
  have "revoke_session_families sample_grants 1000 ''s1'' sample_keys = ([''f1''], ?m1)"
    by (simp add: revoke_session_families_def revoke_family_def sample_keys_def mem_eval members_of_def fun_upd_twist
        sorted_list_of_fset.rep_eq)
  moreover have "redeem_code sample_grants 30000 30000 ''abc'' ''rp'' ''https://rp/cb'' ?m1 = (Ok sample_code, ?m2)"
    by (simp add: redeem_code_def redeem_lookup_def redeem_spend_def sample_keys_def mem_eval)
  moreover have "issue_refresh_token sample_grants 30000 ''tok'' sample_token ?m2 = (''tok'', ?m3)"
    by (simp add: issue_refresh_token_def mem_eval)
  moreover have "rotate_lookup sample_grants 1209600999 ''tok'' ?m3 = Err (GrantError (OAuthError INVALID_GRANT R_GRANT_REVOKED))"
    by (simp add: rotate_lookup_def is_family_revoked_def mem_eval)
  moreover have "fst (rotate_refresh_token sample_grants 1209601000 1209601000 1209601000 ''tok'' ''new'' ''rp'' 1209601 ?m3) =
      Ok (''new'', successor sample_token 1209601)"
    by (simp add: rotate_refresh_token_def rotate_lookup_def rotate_spend_def is_family_revoked_def issue_refresh_token_def
        sample_keys_def mem_eval)
  ultimately show ?thesis by (simp only: sample_issue prod.case fst_conv simp_thms)
qed

text \<open>An authorization code is redeemed twice when its look-up comes before the record expires and its
  spending after the marker of the first redemption has: the marker does not outlive the record it guards
  by the time a redemption takes.\<close>

theorem code_redeemed_twice:
  "case issue_code sample_grants 0 ''abc'' sample_code (\<lambda>k. None) of (code, s0) \<Rightarrow>
     redeem_lookup sample_grants 59999 code s0 = Ok sample_code \<and>
     (case redeem_code sample_grants 1 1 code ''rp'' ''https://rp/cb'' s0 of (res, s1) \<Rightarrow>
        res = Ok sample_code \<and> redeem_lookup sample_grants 59999 code s1 = Ok sample_code \<and>
        fst (redeem_spend sample_grants 60001 code ''rp'' ''https://rp/cb'' sample_code s1) = Ok sample_code)"
  by (simp add: sample_issue redeem_code_def redeem_lookup_def redeem_spend_def sample_keys_def mem_eval)

end
