(* ===== verification/Sessions.thy ===== *)
theory Sessions
  imports Redis Documents
begin

text \<open>
  Server-side sessions (\<open>session/store.py\<close>) over a Redis server.  Instants of the application's clock are
  microseconds, random identifiers are arguments, SHA-256 is the parameter \<open>ss_digest\<close>.  The marker of an
  impersonated request (\<open>set_impersonator\<close>) is part of the state a load updates.
\<close>

section \<open>Data\<close>

type_synonym micros = int

definition SESSION_KEY_PREFIX :: string where "SESSION_KEY_PREFIX = ''session:''"
definition SUBJECT_INDEX_PREFIX :: string where "SUBJECT_INDEX_PREFIX = ''session:subject:''"
definition IDLE_TIMEOUT :: micros where "IDLE_TIMEOUT = 30 * 60 * 1000000"
definition ABSOLUTE_TIMEOUT :: micros where "ABSOLUTE_TIMEOUT = 12 * 3600 * 1000000"

record session =
  se_sid :: string
  se_idp_entity_id :: string
  se_name_id :: string
  se_name_id_format :: "string option"
  se_auth_time :: micros
  se_created_at :: micros
  se_last_seen_at :: micros
  se_absolute_expiry :: micros
  se_acr :: "string option"
  se_amr :: "string list"
  se_session_index :: "string option"
  se_attributes :: "(string \<times> string list) list"
  se_person_uuid :: "string option"
  se_impersonated_by :: "string option"

definition CARRIED_FORWARD :: "string list" where
  "CARRIED_FORWARD = [''sid'', ''idp_entity_id'', ''name_id'', ''name_id_format'', ''auth_time'', ''created_at'',
     ''last_seen_at'', ''absolute_expiry'', ''acr'', ''amr'', ''session_index'', ''attributes'', ''person_uuid'',
     ''impersonated_by'']"

definition subject_key :: "session \<Rightarrow> string" where
  "subject_key x = (case se_person_uuid x of
       Some u \<Rightarrow> if u = '''' then se_idp_entity_id x @ ''|'' @ se_name_id x else u
     | None \<Rightarrow> se_idp_entity_id x @ ''|'' @ se_name_id x)"

definition session_to_json :: "session \<Rightarrow> pyval" where
  "session_to_json x = PDict [(''sid'', PStr (se_sid x)), (''idp_entity_id'', PStr (se_idp_entity_id x)),
     (''name_id'', PStr (se_name_id x)), (''name_id_format'', opt_str (se_name_id_format x)),
     (''auth_time'', PInt (se_auth_time x)), (''created_at'', PInt (se_created_at x)),
     (''last_seen_at'', PInt (se_last_seen_at x)), (''absolute_expiry'', PInt (se_absolute_expiry x)),
     (''acr'', opt_str (se_acr x)), (''amr'', strs (se_amr x)), (''session_index'', opt_str (se_session_index x)),
     (''attributes'', dict_of strs (se_attributes x)), (''person_uuid'', opt_str (se_person_uuid x)),
     (''impersonated_by'', opt_str (se_impersonated_by x))]"

text \<open>A document with a key that is not a field is refused, as the constructor refuses it; a field with a
  default may be missing, \<open>amr\<close> apart.\<close>

definition known_fields :: "pyval \<Rightarrow> bool" where
  "known_fields doc = (case doc of PDict d \<Rightarrow> list_all (\<lambda>e. fst e \<in> set CARRIED_FORWARD) d | _ \<Rightarrow> False)"

definition session_from_json :: "pyval \<Rightarrow> session option" where
  "session_from_json doc = (if \<not> known_fields doc then None else
     Option.bind (member doc ''sid'' to_str) (\<lambda>sid.
     Option.bind (member doc ''idp_entity_id'' to_str) (\<lambda>idp.
     Option.bind (member doc ''name_id'' to_str) (\<lambda>name_id.
     Option.bind (member doc ''name_id_format'' to_opt_str) (\<lambda>format.
     Option.bind (member doc ''auth_time'' to_int) (\<lambda>auth_time.
     Option.bind (member doc ''created_at'' to_int) (\<lambda>created.
     Option.bind (member doc ''last_seen_at'' to_int) (\<lambda>seen.
     Option.bind (member doc ''absolute_expiry'' to_int) (\<lambda>expiry.
     Option.bind (default_member doc ''acr'' None to_opt_str) (\<lambda>acr.
     Option.bind (member doc ''amr'' to_strs) (\<lambda>amr.
     Option.bind (default_member doc ''session_index'' None to_opt_str) (\<lambda>index.
     Option.bind (default_member doc ''attributes'' [] (to_dict to_strs)) (\<lambda>attributes.
     Option.bind (default_member doc ''person_uuid'' None to_opt_str) (\<lambda>person.
     Option.bind (default_member doc ''impersonated_by'' None to_opt_str) (\<lambda>impersonated.
       Some \<lparr>se_sid = sid, se_idp_entity_id = idp, se_name_id = name_id, se_name_id_format = format,
         se_auth_time = auth_time, se_created_at = created, se_last_seen_at = seen, se_absolute_expiry = expiry,
         se_acr = acr, se_amr = amr, se_session_index = index, se_attributes = attributes,
         se_person_uuid = person, se_impersonated_by = impersonated\<rparr>)))))))))))))))"

lemma session_json [simp]: "session_from_json (session_to_json x) = Some x"
  by (simp add: session_from_json_def session_to_json_def known_fields_def CARRIED_FORWARD_def)

lemma session_to_json_eq [simp]: "session_to_json x = session_to_json y \<longleftrightarrow> x = y"
  by (metis option.inject session_json)

section \<open>Operations\<close>

text \<open>\<open>SessionStore.__init__\<close>.\<close>

record 's session_store =
  ss_redis :: "'s redis"
  ss_digest :: "string \<Rightarrow> string"
  ss_idle :: micros
  ss_absolute :: micros
  ss_prefix :: string

text \<open>What a request changes: the server, and the marker its audit events carry.\<close>

record 's session_state =
  st_redis :: 's
  st_impersonator :: "string option"

datatype session_error = SessionCorrupt

definition store_key :: "'s session_store \<Rightarrow> string \<Rightarrow> string" where
  "store_key S sid = ss_prefix S @ sid"

definition index_key :: "'s session_store \<Rightarrow> string \<Rightarrow> string" where
  "index_key S subject = SUBJECT_INDEX_PREFIX @ ss_digest S subject"

definition whole_seconds :: "micros \<Rightarrow> nat" where
  "whole_seconds d = nat (max (d div 1000000) 1)"

definition write_session :: "'s session_store \<Rightarrow> time \<Rightarrow> micros \<Rightarrow> session \<Rightarrow> 's \<Rightarrow> 's" where
  "write_session S t now x s =
     (let ttl = whole_seconds (min (ss_idle S) (se_absolute_expiry x - now));
          s1 = r_set (ss_redis S) t (store_key S (se_sid x)) (session_to_json x) ttl s;
          s2 = r_sadd (ss_redis S) t (index_key S (subject_key x)) (se_sid x) s1 in
      r_expire (ss_redis S) t (index_key S (subject_key x)) (whole_seconds (ss_absolute S)) s2)"

text \<open>The arguments of \<open>create\<close>; the clock is read once for the session and once more when it is written.\<close>

record login =
  lo_idp_entity_id :: string
  lo_name_id :: string
  lo_name_id_format :: "string option"
  lo_auth_time :: "micros option"
  lo_acr :: "string option"
  lo_amr :: "string list"
  lo_session_index :: "string option"
  lo_attributes :: "(string \<times> string list) list"
  lo_person_uuid :: "string option"
  lo_impersonated_by :: "string option"

definition new_session :: "'s session_store \<Rightarrow> micros \<Rightarrow> string \<Rightarrow> login \<Rightarrow> session" where
  "new_session S now sid l = \<lparr>se_sid = sid, se_idp_entity_id = lo_idp_entity_id l, se_name_id = lo_name_id l,
     se_name_id_format = lo_name_id_format l,
     se_auth_time = (case lo_auth_time l of Some a \<Rightarrow> a | None \<Rightarrow> now), se_created_at = now, se_last_seen_at = now,
     se_absolute_expiry = now + ss_absolute S, se_acr = lo_acr l, se_amr = lo_amr l,
     se_session_index = lo_session_index l, se_attributes = lo_attributes l, se_person_uuid = lo_person_uuid l,
     se_impersonated_by = lo_impersonated_by l\<rparr>"

definition session_create ::
  "'s session_store \<Rightarrow> time \<Rightarrow> micros \<Rightarrow> micros \<Rightarrow> string \<Rightarrow> login \<Rightarrow> 's session_state \<Rightarrow> session \<times> 's session_state" where
  "session_create S t now now' sid l \<sigma> =
     (let x = new_session S now sid l in (x, \<sigma>\<lparr>st_redis := write_session S t now' x (st_redis \<sigma>)\<rparr>))"

definition session_destroy :: "'s session_store \<Rightarrow> time \<Rightarrow> string \<Rightarrow> 's \<Rightarrow> (session_error, unit) result \<times> 's" where
  "session_destroy S t sid s = (case r_get (ss_redis S) t (store_key S sid) s of
       None \<Rightarrow> (Ok (), r_delete (ss_redis S) t (store_key S sid) s)
     | Some doc \<Rightarrow> (case session_from_json doc of
           None \<Rightarrow> (Err SessionCorrupt, s)
         | Some x \<Rightarrow> (Ok (), r_delete (ss_redis S) t (store_key S sid)
             (r_srem (ss_redis S) t (index_key S (subject_key x)) sid s))))"

definition timed_out :: "'s session_store \<Rightarrow> micros \<Rightarrow> session \<Rightarrow> bool" where
  "timed_out S now x = (se_absolute_expiry x \<le> now \<or> ss_idle S \<le> now - se_last_seen_at x)"

text \<open>\<open>load\<close>, up to its first write and from there.\<close>

definition load_read :: "'s session_store \<Rightarrow> time \<Rightarrow> string \<Rightarrow> 's \<Rightarrow> (session_error, session option) result" where
  "load_read S t sid s = (case r_get (ss_redis S) t (store_key S sid) s of
       None \<Rightarrow> Ok None
     | Some doc \<Rightarrow> (case session_from_json doc of None \<Rightarrow> Err SessionCorrupt | Some x \<Rightarrow> Ok (Some x)))"

definition load_touch :: "'s session_store \<Rightarrow> time \<Rightarrow> micros \<Rightarrow> session \<Rightarrow> 's session_state \<Rightarrow> session \<times> 's session_state" where
  "load_touch S t now x \<sigma> =
     (let touched = x\<lparr>se_last_seen_at := now\<rparr> in
      (touched, \<sigma>\<lparr>st_impersonator := se_impersonated_by x, st_redis := write_session S t now touched (st_redis \<sigma>)\<rparr>))"

definition session_load ::
  "'s session_store \<Rightarrow> time \<Rightarrow> micros \<Rightarrow> string \<Rightarrow> 's session_state \<Rightarrow> (session_error, session option) result \<times> 's session_state" where
  "session_load S t now sid \<sigma> = (case load_read S t sid (st_redis \<sigma>) of
       Inl e \<Rightarrow> (Err e, \<sigma>)
     | Inr None \<Rightarrow> (Ok None, \<sigma>)
     | Inr (Some x) \<Rightarrow>
         if timed_out S now x
         then (case session_destroy S t sid (st_redis \<sigma>) of
             (Inl e, s') \<Rightarrow> (Err e, \<sigma>\<lparr>st_redis := s'\<rparr>) | (Inr _, s') \<Rightarrow> (Ok None, \<sigma>\<lparr>st_redis := s'\<rparr>))
         else (let (touched, \<sigma>') = load_touch S t now x \<sigma> in (Ok (Some touched), \<sigma>')))"

text \<open>\<open>rotate\<close> and \<open>elevate\<close> differ in what they change of the loaded session besides its identifier.\<close>

definition move_session ::
  "'s session_store \<Rightarrow> time \<Rightarrow> micros \<Rightarrow> string \<Rightarrow> (session \<Rightarrow> session) \<Rightarrow> 's session_state \<Rightarrow>
     (session_error, session option) result \<times> 's session_state" where
  "move_session S t now sid change \<sigma> = (case session_load S t now sid \<sigma> of
       (Inr (Some x), \<sigma>') \<Rightarrow>
         (case session_destroy S t sid (write_session S t now (change x) (st_redis \<sigma>')) of
             (Inl e, s') \<Rightarrow> (Err e, \<sigma>'\<lparr>st_redis := s'\<rparr>)
           | (Inr _, s') \<Rightarrow> (Ok (Some (change x)), \<sigma>'\<lparr>st_redis := s'\<rparr>))
     | (res, \<sigma>') \<Rightarrow> (res, \<sigma>'))"

definition session_rotate ::
  "'s session_store \<Rightarrow> time \<Rightarrow> micros \<Rightarrow> string \<Rightarrow> string \<Rightarrow> 's session_state \<Rightarrow>
     (session_error, session option) result \<times> 's session_state" where
  "session_rotate S t now sid new = move_session S t now sid (\<lambda>x. x\<lparr>se_sid := new, se_last_seen_at := now\<rparr>)"

definition session_elevate ::
  "'s session_store \<Rightarrow> time \<Rightarrow> micros \<Rightarrow> string \<Rightarrow> string \<Rightarrow> string \<Rightarrow> string list \<Rightarrow> 's session_state \<Rightarrow>
     (session_error, session option) result \<times> 's session_state" where
  "session_elevate S t now sid new acr amr = move_session S t now sid
     (\<lambda>x. x\<lparr>se_sid := new, se_acr := Some acr, se_amr := amr, se_auth_time := now, se_last_seen_at := now\<rparr>)"

definition sids_for :: "'s session_store \<Rightarrow> time \<Rightarrow> string \<Rightarrow> 's \<Rightarrow> string list" where
  "sids_for S t subject s = sort (r_smembers (ss_redis S) t (index_key S subject) s)"

fun destroy_all :: "'s session_store \<Rightarrow> time \<Rightarrow> string list \<Rightarrow> 's \<Rightarrow> (session_error, unit) result \<times> 's" where
  "destroy_all S t [] s = (Ok (), s)"
| "destroy_all S t (sid # sids) s = (case session_destroy S t sid s of
     (Inl e, s') \<Rightarrow> (Err e, s') | (Inr _, s') \<Rightarrow> destroy_all S t sids s')"

definition terminate_subject ::
  "'s session_store \<Rightarrow> time \<Rightarrow> string \<Rightarrow> 's \<Rightarrow> (session_error, string list) result \<times> 's" where
  "terminate_subject S t subject s =
     (let sids = sids_for S t subject s in
      case destroy_all S t sids s of
        (Inl e, s') \<Rightarrow> (Err e, s')
      | (Inr _, s') \<Rightarrow> (Ok sids, r_delete (ss_redis S) t (index_key S subject) s'))"

section \<open>Sequences of requests\<close>

text \<open>The store under requests that do not overlap, other writers, and the passing of time.  A new
  identifier is fresh and, as URL-safe text, has no colon.\<close>

record 's sessions_run =
  sr_clock :: time
  sr_state :: "'s session_state"

definition fresh_sid :: "'s session_store \<Rightarrow> keyspace \<Rightarrow> string \<Rightarrow> bool" where
  "fresh_sid S V sid = (CHR '':'' \<notin> set sid \<and> V (store_key S sid) = None)"

inductive session_step ::
  "'s session_store \<Rightarrow> (time \<Rightarrow> 's \<Rightarrow> keyspace) \<Rightarrow> 's sessions_run \<Rightarrow> 's sessions_run \<Rightarrow> bool" for S visible where
  later: "sr_clock \<rho> \<le> t \<Longrightarrow> session_step S visible \<rho> (\<rho>\<lparr>sr_clock := t\<rparr>)"
| elsewhere: "(\<And>k. starts_with k ''session:'' \<Longrightarrow> visible (sr_clock \<rho>) (st_redis \<sigma>') k = visible (sr_clock \<rho>) (st_redis (sr_state \<rho>)) k) \<Longrightarrow>
     session_step S visible \<rho> (\<rho>\<lparr>sr_state := \<sigma>'\<rparr>)"
| created: "fresh_sid S (visible (sr_clock \<rho>) (st_redis (sr_state \<rho>))) sid \<Longrightarrow>
     session_step S visible \<rho> (\<rho>\<lparr>sr_state := snd (session_create S (sr_clock \<rho>) now now' sid l (sr_state \<rho>))\<rparr>)"
| loaded: "CHR '':'' \<notin> set sid \<Longrightarrow> session_step S visible \<rho> (\<rho>\<lparr>sr_state := snd (session_load S (sr_clock \<rho>) now sid (sr_state \<rho>))\<rparr>)"
| rotated: "CHR '':'' \<notin> set sid \<Longrightarrow> fresh_sid S (visible (sr_clock \<rho>) (st_redis (sr_state \<rho>))) new \<Longrightarrow>
     session_step S visible \<rho> (\<rho>\<lparr>sr_state := snd (session_rotate S (sr_clock \<rho>) now sid new (sr_state \<rho>))\<rparr>)"
| elevated: "CHR '':'' \<notin> set sid \<Longrightarrow> fresh_sid S (visible (sr_clock \<rho>) (st_redis (sr_state \<rho>))) new \<Longrightarrow>
     session_step S visible \<rho> (\<rho>\<lparr>sr_state := snd (session_elevate S (sr_clock \<rho>) now sid new acr amr (sr_state \<rho>))\<rparr>)"
| destroyed: "CHR '':'' \<notin> set sid \<Longrightarrow>
     session_step S visible \<rho> (\<rho>\<lparr>sr_state := (sr_state \<rho>)\<lparr>st_redis := snd (session_destroy S (sr_clock \<rho>) sid (st_redis (sr_state \<rho>)))\<rparr>\<rparr>)"
| terminated: "session_step S visible \<rho> (\<rho>\<lparr>sr_state := (sr_state \<rho>)\<lparr>st_redis := snd (terminate_subject S (sr_clock \<rho>) subject (st_redis (sr_state \<rho>)))\<rparr>\<rparr>)"

inductive sessions_reachable ::
  "'s session_store \<Rightarrow> (time \<Rightarrow> 's \<Rightarrow> keyspace) \<Rightarrow> 's sessions_run \<Rightarrow> bool" for S visible where
  start: "(\<And>k. starts_with k ''session:'' \<Longrightarrow> visible (sr_clock \<rho>) (st_redis (sr_state \<rho>)) k = None) \<Longrightarrow> sessions_reachable S visible \<rho>"
| step: "sessions_reachable S visible \<rho> \<Longrightarrow> session_step S visible \<rho> \<rho>' \<Longrightarrow> sessions_reachable S visible \<rho>'"

section \<open>The index covers every live session\<close>

text \<open>An entry under a session's key: the document of that session, in the index of its subject, which lives
  at least as long.\<close>

definition indexed :: "'s session_store \<Rightarrow> keyspace \<Rightarrow> time \<Rightarrow> string \<Rightarrow> entry \<Rightarrow> bool" where
  "indexed S V t sid e = (\<exists>x y z m. e = (RVal (session_to_json x), Some y) \<and> se_sid x = sid \<and>
     V (index_key S (subject_key x)) = Some (RSet m, Some z) \<and> sid |\<in>| m \<and> y \<le> z \<and> y \<le> t + 1000 * whole_seconds (ss_idle S))"

definition sessions_ok :: "'s session_store \<Rightarrow> keyspace \<Rightarrow> time \<Rightarrow> bool" where
  "sessions_ok S V t = (\<forall>sid e. CHR '':'' \<notin> set sid \<longrightarrow> V (store_key S sid) = Some e \<longrightarrow> indexed S V t sid e)"

definition index_sids :: "'s session_store \<Rightarrow> keyspace \<Rightarrow> bool" where
  "index_sids S V = (\<forall>sub m d x. V (index_key S sub) = Some (RSet m, d) \<longrightarrow> x |\<in>| m \<longrightarrow> CHR '':'' \<notin> set x)"

lemma sessions_okD: "sessions_ok S V t \<Longrightarrow> CHR '':'' \<notin> set sid \<Longrightarrow> V (store_key S sid) = Some e \<Longrightarrow> indexed S V t sid e"
  unfolding sessions_ok_def by blast

lemma indexedI:
  "e = (RVal (session_to_json x), Some y) \<Longrightarrow> se_sid x = sid \<Longrightarrow> V (index_key S (subject_key x)) = Some (RSet m, Some z) \<Longrightarrow>
     sid |\<in>| m \<Longrightarrow> y \<le> z \<Longrightarrow> y \<le> t + 1000 * whole_seconds (ss_idle S) \<Longrightarrow> indexed S V t sid e"
  unfolding indexed_def by blast

lemma indexed_later:
  assumes "indexed S V t sid e" and "alive t' e" and "t \<le> t'"
  shows "indexed S (unexpired t' V) t' sid e"
  using assms unfolding indexed_def by (fastforce simp: unexpired_def alive_def)

lemma sessions_ok_later: "sessions_ok S V t \<Longrightarrow> t \<le> t' \<Longrightarrow> sessions_ok S (unexpired t' V) t'"
  unfolding sessions_ok_def by (intro allI impI) (blast dest: unexpired_some unexpired_origin intro: indexed_later)

lemma index_sids_later: "index_sids S V \<Longrightarrow> index_sids S (unexpired t V)"
  unfolding index_sids_def by (blast dest: unexpired_origin)

locale sessions_on_redis = redis_server "ss_redis S" visible
  for S :: "'s session_store" and visible :: "time \<Rightarrow> 's \<Rightarrow> keyspace" +
  assumes prefix: "ss_prefix S = SESSION_KEY_PREFIX"
    and idle_within_absolute: "ss_idle S \<le> ss_absolute S"
begin

lemma keys_apart:
  "CHR '':'' \<notin> set sid \<Longrightarrow> store_key S sid \<noteq> index_key S sub" "CHR '':'' \<notin> set sid \<Longrightarrow> index_key S sub \<noteq> store_key S sid"
  by (auto simp: store_key_def index_key_def prefix SESSION_KEY_PREFIX_def SUBJECT_INDEX_PREFIX_def)

lemma store_key_inj [simp]: "store_key S a = store_key S b \<longleftrightarrow> a = b"
  by (simp add: store_key_def)

lemma whole_seconds_pos [simp]: "0 < whole_seconds d"
  by (simp add: whole_seconds_def)

lemma ttl_bounds:
  "whole_seconds (min (ss_idle S) d) \<le> whole_seconds (ss_idle S)" "whole_seconds (ss_idle S) \<le> whole_seconds (ss_absolute S)"
proof -
  have "min (ss_idle S) d div 1000000 \<le> ss_idle S div 1000000" by (rule zdiv_mono1) simp_all
  then show "whole_seconds (min (ss_idle S) d) \<le> whole_seconds (ss_idle S)" unfolding whole_seconds_def by (intro nat_mono max.mono) auto
  have "ss_idle S div 1000000 \<le> ss_absolute S div 1000000" using idle_within_absolute by (rule zdiv_mono1) simp
  then show "whole_seconds (ss_idle S) \<le> whole_seconds (ss_absolute S)" unfolding whole_seconds_def by (intro nat_mono max.mono) auto
qed

lemma write_view:
  assumes "CHR '':'' \<notin> set (se_sid x)"
  shows "visible t (write_session S t now x s) = (visible t s)
     (store_key S (se_sid x) \<mapsto> (RVal (session_to_json x), deadline t (whole_seconds (min (ss_idle S) (se_absolute_expiry x - now)))),
      index_key S (subject_key x) \<mapsto> (RSet (finsert (se_sid x) (members_of (visible t s (index_key S (subject_key x))))),
        deadline t (whole_seconds (ss_absolute S))))"
  using keys_apart[OF assms, of "subject_key x"] by (simp add: write_session_def Let_def set sadd expire)

lemma write_ok:
  assumes "sessions_ok S (visible t s) t" and "CHR '':'' \<notin> set (se_sid x)"
  shows "sessions_ok S (visible t (write_session S t now x s)) t"
  unfolding sessions_ok_def
proof (intro allI impI)
  fix sid e
  assume c: "CHR '':'' \<notin> set sid" and e: "visible t (write_session S t now x s) (store_key S sid) = Some e"
  note v = write_view[OF assms(2), of t now s]
  let ?ttl = "whole_seconds (min (ss_idle S) (se_absolute_expiry x - now))"
  have b: "?ttl \<le> whole_seconds (ss_idle S)" "whole_seconds (ss_idle S) \<le> whole_seconds (ss_absolute S)" by (rule ttl_bounds)+
  show "indexed S (visible t (write_session S t now x s)) t sid e"
  proof (cases "sid = se_sid x")
    case True
    then have "e = (RVal (session_to_json x), deadline t ?ttl)" using e keys_apart[OF c] by (simp add: v)
    then show ?thesis using True b by (auto simp: indexed_def v deadline_def)
  next
    case False
    then have "visible t s (store_key S sid) = Some e" using e keys_apart[OF c] by (simp add: v)
    then have "indexed S (visible t s) t sid e" by (rule sessions_okD[OF assms(1) c])
    then obtain y d z m where i: "e = (RVal (session_to_json y), Some d)" "se_sid y = sid"
        "visible t s (index_key S (subject_key y)) = Some (RSet m, Some z)" "sid |\<in>| m" "d \<le> z"
        "d \<le> t + 1000 * whole_seconds (ss_idle S)"
      by (auto simp: indexed_def)
    then have d: "d \<le> t + 1000 * whole_seconds (ss_absolute S)" using b(2) by linarith
    let ?k = "index_key S (subject_key y)" and ?V' = "visible t (write_session S t now x s)"
    show ?thesis
    proof (cases "?k = index_key S (subject_key x)")
      case True
      then have "?V' ?k = Some (RSet (finsert (se_sid x) m), Some (t + 1000 * whole_seconds (ss_absolute S)))"
        using i(3) by (simp add: v members_of_def deadline_def)
      then show ?thesis by (rule indexedI[OF i(1,2)]) (use i(4,6) d in simp_all)
    next
      case False
      then have "?V' ?k = Some (RSet m, Some z)" using i(3) keys_apart(2)[OF assms(2)] by (simp add: v)
      then show ?thesis by (rule indexedI[OF i(1,2)]) (use i in simp_all)
    qed
  qed
qed

lemma write_index:
  assumes "index_sids S (visible t s)" and "CHR '':'' \<notin> set (se_sid x)"
  shows "index_sids S (visible t (write_session S t now x s))"
  unfolding index_sids_def
proof (intro allI impI)
  fix sub m d y
  assume e: "visible t (write_session S t now x s) (index_key S sub) = Some (RSet m, d)" and y: "y |\<in>| m"
  show "CHR '':'' \<notin> set y"
  proof (cases "index_key S sub = index_key S (subject_key x)")
    case True
    then have "y |\<in>| finsert (se_sid x) (members_of (visible t s (index_key S (subject_key x))))"
      using e y by (simp add: write_view[OF assms(2)])
    then show ?thesis
      using assms unfolding index_sids_def
      by (fastforce simp: members_of_def split: option.splits rvalue.splits)
  next
    case False
    then have "visible t s (index_key S sub) = Some (RSet m, d)"
      using e keys_apart[OF assms(2), of sub] by (auto simp: write_view[OF assms(2)] split: if_splits)
    then show ?thesis using assms(1) y unfolding index_sids_def by blast
  qed
qed

lemma destroy_view:
  assumes "sessions_ok S (visible t s) t" and "CHR '':'' \<notin> set sid"
  shows "\<exists>s'. session_destroy S t sid s = (Ok (), s') \<and> visible t s' (store_key S sid) = None \<and>
     (\<forall>a. a \<noteq> sid \<longrightarrow> CHR '':'' \<notin> set a \<longrightarrow> visible t s' (store_key S a) = visible t s (store_key S a)) \<and>
     (\<forall>sub. visible t s' (index_key S sub) = visible t s (index_key S sub) \<or>
        (\<exists>m z. visible t s (index_key S sub) = Some (RSet m, Some z) \<and>
          visible t s' (index_key S sub) = drop_empty (RSet (m |-| {|sid|})) (Some z)))"
proof (cases "visible t s (store_key S sid)")
  case None
  then show ?thesis using keys_apart[OF assms(2)] by (auto simp: session_destroy_def get text_of_def delete)
next
  case (Some e)
  then obtain x y z m where i: "e = (RVal (session_to_json x), Some y)" "se_sid x = sid"
      "visible t s (index_key S (subject_key x)) = Some (RSet m, Some z)"
    using sessions_okD[OF assms] by (auto simp: indexed_def)
  then have "session_destroy S t sid s =
      (Ok (), r_delete (ss_redis S) t (store_key S sid) (r_srem (ss_redis S) t (index_key S (subject_key x)) sid s))"
    using Some by (simp add: session_destroy_def get text_of_def)
  moreover have "visible t (r_delete (ss_redis S) t (store_key S sid) (r_srem (ss_redis S) t (index_key S (subject_key x)) sid s)) =
      (visible t s)(index_key S (subject_key x) := drop_empty (RSet (m |-| {|sid|})) (Some z), store_key S sid := None)"
    using i(3) by (simp add: delete srem members_of_def)
  ultimately show ?thesis using i(3) keys_apart[OF assms(2)] by (auto simp: keys_apart)
qed

text \<open>What is known of the keys between requests.\<close>

definition store_ok :: "'s \<Rightarrow> time \<Rightarrow> bool" where
  "store_ok s t = (sessions_ok S (visible t s) t \<and> index_sids S (visible t s))"

lemma write_store_ok: "store_ok s t \<Longrightarrow> CHR '':'' \<notin> set (se_sid x) \<Longrightarrow> store_ok (write_session S t now x s) t"
  by (simp add: store_ok_def write_ok write_index)

lemma destroy_store_ok:
  assumes "store_ok s t" and "CHR '':'' \<notin> set sid"
  shows "\<exists>s'. session_destroy S t sid s = (Ok (), s') \<and> store_ok s' t \<and> visible t s' (store_key S sid) = None \<and>
     (\<forall>a. a \<noteq> sid \<longrightarrow> CHR '':'' \<notin> set a \<longrightarrow> visible t s' (store_key S a) = visible t s (store_key S a))"
proof -
  have ok: "sessions_ok S (visible t s) t" "index_sids S (visible t s)" using assms(1) by (simp_all add: store_ok_def)
  obtain s' where d: "session_destroy S t sid s = (Ok (), s')" "visible t s' (store_key S sid) = None"
      "\<forall>a. a \<noteq> sid \<longrightarrow> CHR '':'' \<notin> set a \<longrightarrow> visible t s' (store_key S a) = visible t s (store_key S a)"
      "\<forall>sub. visible t s' (index_key S sub) = visible t s (index_key S sub) \<or>
        (\<exists>m z. visible t s (index_key S sub) = Some (RSet m, Some z) \<and>
          visible t s' (index_key S sub) = drop_empty (RSet (m |-| {|sid|})) (Some z))"
    using destroy_view[OF ok(1) assms(2)] by (elim exE conjE) (rule that)
  have "sessions_ok S (visible t s') t"
    unfolding sessions_ok_def
  proof (intro allI impI)
    fix a e
    assume c: "CHR '':'' \<notin> set a" and e: "visible t s' (store_key S a) = Some e"
    have a: "a \<noteq> sid" using e d(2) by auto
    then have "indexed S (visible t s) t a e" using sessions_okD[OF ok(1) c] e d(3)[rule_format, OF a c] by simp
    then obtain x y z m where i: "e = (RVal (session_to_json x), Some y)" "se_sid x = a"
        "visible t s (index_key S (subject_key x)) = Some (RSet m, Some z)" "a |\<in>| m" "y \<le> z"
        "y \<le> t + 1000 * whole_seconds (ss_idle S)"
      by (auto simp: indexed_def)
    have "visible t s' (index_key S (subject_key x)) = Some (RSet m, Some z) \<or>
        visible t s' (index_key S (subject_key x)) = Some (RSet (m |-| {|sid|}), Some z)"
    proof -
      have "RSet (m |-| {|sid|}) \<noteq> RSet {||}" using i(4) a by auto
      then show ?thesis using d(4)[rule_format, of "subject_key x"] i(3) by (auto simp: drop_empty_def)
    qed
    then show "indexed S (visible t s') t a e"
    proof
      assume "visible t s' (index_key S (subject_key x)) = Some (RSet m, Some z)"
      then show ?thesis by (rule indexedI[OF i(1,2)]) (use i in simp_all)
    next
      assume "visible t s' (index_key S (subject_key x)) = Some (RSet (m |-| {|sid|}), Some z)"
      then show ?thesis by (rule indexedI[OF i(1,2)]) (use i a in simp_all)
    qed
  qed
  moreover have "index_sids S (visible t s')"
    unfolding index_sids_def
  proof (intro allI impI)
    fix sub m D x
    assume m: "visible t s' (index_key S sub) = Some (RSet m, D)" "x |\<in>| m"
    then have "\<exists>m' D'. visible t s (index_key S sub) = Some (RSet m', D') \<and> x |\<in>| m'"
      using d(4)[rule_format, of sub]
      by (elim disjE exE conjE) (auto simp: drop_empty_def split: if_splits dest: sym)
    then show "CHR '':'' \<notin> set x" using ok(2) unfolding index_sids_def by blast
  qed
  ultimately show ?thesis using d(1-3) by (auto simp: store_ok_def)
qed

lemma destroy_all_ok:
  "store_ok s t \<Longrightarrow> list_all (\<lambda>sid. CHR '':'' \<notin> set sid) sids \<Longrightarrow>
     \<exists>s'. destroy_all S t sids s = (Ok (), s') \<and> store_ok s' t \<and> (\<forall>sid\<in>set sids. visible t s' (store_key S sid) = None) \<and>
       (\<forall>a. a \<notin> set sids \<longrightarrow> CHR '':'' \<notin> set a \<longrightarrow> visible t s' (store_key S a) = visible t s (store_key S a))"
proof (induction sids arbitrary: s)
  case Nil
  then show ?case by simp
next
  case (Cons sid sids)
  then have c: "CHR '':'' \<notin> set sid" "list_all (\<lambda>sid. CHR '':'' \<notin> set sid) sids" by simp_all
  obtain s1 where d: "session_destroy S t sid s = (Ok (), s1)" "store_ok s1 t" "visible t s1 (store_key S sid) = None"
      "\<And>a. a \<noteq> sid \<Longrightarrow> CHR '':'' \<notin> set a \<Longrightarrow> visible t s1 (store_key S a) = visible t s (store_key S a)"
    using destroy_store_ok[OF Cons.prems(1) c(1)] by blast
  obtain s' where r: "destroy_all S t sids s1 = (Ok (), s')" "store_ok s' t" "\<forall>sid\<in>set sids. visible t s' (store_key S sid) = None"
      "\<And>a. a \<notin> set sids \<Longrightarrow> CHR '':'' \<notin> set a \<Longrightarrow> visible t s' (store_key S a) = visible t s1 (store_key S a)"
    using Cons.IH[OF d(2) c(2)] by blast
  have "visible t s' (store_key S sid) = None" using r(3) r(4)[of sid] d(3) c(1) by (cases "sid \<in> set sids") simp_all
  then show ?case using d(1,4) r by simp
qed

text \<open>Ending every session of a subject leaves none of them, and the store in order.\<close>

lemma terminate_ok:
  assumes "store_ok s t"
  shows "\<exists>s'. terminate_subject S t sub s = (Ok (sids_for S t sub s), s') \<and> store_ok s' t \<and>
     (\<forall>x sid d. CHR '':'' \<notin> set sid \<longrightarrow> visible t s' (store_key S sid) = Some (RVal (session_to_json x), d) \<longrightarrow> subject_key x \<noteq> sub)"
proof -
  have ok: "sessions_ok S (visible t s) t" "index_sids S (visible t s)" using assms by (simp_all add: store_ok_def)
  let ?sids = "sids_for S t sub s"
  have members: "set ?sids = fset (members_of (visible t s (index_key S sub)))" by (simp add: sids_for_def smembers)
  then have "list_all (\<lambda>sid. CHR '':'' \<notin> set sid) ?sids"
    using ok(2) unfolding index_sids_def list_all_iff by (fastforce simp: members_of_def split: option.splits rvalue.splits)
  then obtain s1 where d: "destroy_all S t ?sids s = (Ok (), s1)" "store_ok s1 t"
      "\<forall>sid\<in>set ?sids. visible t s1 (store_key S sid) = None"
      "\<And>a. a \<notin> set ?sids \<Longrightarrow> CHR '':'' \<notin> set a \<Longrightarrow> visible t s1 (store_key S a) = visible t s (store_key S a)"
    using destroy_all_ok[OF assms] by blast
  let ?s' = "r_delete (ss_redis S) t (index_key S sub) s1"
  have v: "visible t ?s' = (visible t s1)(index_key S sub := None)" by (simp add: delete)
  have other: "index_key S (subject_key x) \<noteq> index_key S sub"
    if h: "CHR '':'' \<notin> set sid" "visible t s1 (store_key S sid) = Some (RVal (session_to_json x), y)" for sid x y
  proof
    assume same: "index_key S (subject_key x) = index_key S sub"
    have "sid \<notin> set ?sids" using d(3) h(2) by fastforce
    then have "visible t s (store_key S sid) = Some (RVal (session_to_json x), y)" using d(4) h by simp
    then have "indexed S (visible t s) t sid (RVal (session_to_json x), y)" by (rule sessions_okD[OF ok(1) h(1)])
    then obtain m z where "visible t s (index_key S (subject_key x)) = Some (RSet m, Some z)" "sid |\<in>| m"
      by (auto simp: indexed_def)
    then have "sid \<in> set ?sids" using same members by (simp add: members_of_def)
    then show False using \<open>sid \<notin> set ?sids\<close> by blast
  qed
  have "sessions_ok S (visible t ?s') t"
    unfolding sessions_ok_def
  proof (intro allI impI)
    fix sid e
    assume c: "CHR '':'' \<notin> set sid" and "visible t ?s' (store_key S sid) = Some e"
    then have e: "visible t s1 (store_key S sid) = Some e" using keys_apart(1)[OF c, of sub] by (simp add: v)
    then have "indexed S (visible t s1) t sid e" using d(2) c unfolding store_ok_def by (blast intro: sessions_okD)
    then obtain x y z m where i: "e = (RVal (session_to_json x), Some y)" "se_sid x = sid"
        "visible t s1 (index_key S (subject_key x)) = Some (RSet m, Some z)" "sid |\<in>| m" "y \<le> z"
        "y \<le> t + 1000 * whole_seconds (ss_idle S)" by (auto simp: indexed_def)
    have "visible t ?s' (index_key S (subject_key x)) = Some (RSet m, Some z)"
      using i(3) other[OF c] e i(1) by (simp add: v)
    then show "indexed S (visible t ?s') t sid e" by (rule indexedI[OF i(1,2)]) (use i in simp_all)
  qed
  moreover have "index_sids S (visible t ?s')"
    using d(2) unfolding store_ok_def index_sids_def v by (metis fun_upd_apply option.distinct(1))
  moreover have "subject_key x \<noteq> sub"
    if h: "CHR '':'' \<notin> set sid" "visible t ?s' (store_key S sid) = Some (RVal (session_to_json x), y)" for sid x y
  proof -
    have "visible t s1 (store_key S sid) = Some (RVal (session_to_json x), y)"
      using h(2) keys_apart(1)[OF h(1), of sub] by (simp add: v)
    then show ?thesis using other[OF h(1)] by blast
  qed
  ultimately show ?thesis using d(1) by (auto simp: terminate_subject_def Let_def store_ok_def)
qed

lemma load_read_entry:
  assumes "store_ok s t" and "CHR '':'' \<notin> set sid"
  shows "load_read S t sid s = Ok (Some x) \<longleftrightarrow> (\<exists>d. visible t s (store_key S sid) = Some (RVal (session_to_json x), d))"
proof (cases "visible t s (store_key S sid)")
  case None
  then show ?thesis by (simp add: load_read_def get text_of_def)
next
  case (Some e)
  have v: "sessions_ok S (visible t s) t" using assms(1) by (simp add: store_ok_def)
  obtain y d where "e = (RVal (session_to_json y), Some d)"
    using sessions_okD[OF v assms(2) Some] unfolding indexed_def by blast
  then show ?thesis using Some by (auto simp: load_read_def get text_of_def)
qed

lemma load_found:
  assumes "store_ok s t" and "CHR '':'' \<notin> set sid" and "load_read S t sid s = Ok (Some x)"
  shows "se_sid x = sid"
proof -
  obtain d where d: "visible t s (store_key S sid) = Some (RVal (session_to_json x), d)"
    using load_read_entry[OF assms(1,2)] assms(3) by blast
  have "sessions_ok S (visible t s) t" using assms(1) by (simp add: store_ok_def)
  then have "indexed S (visible t s) t sid (RVal (session_to_json x), d)" by (rule sessions_okD[OF _ assms(2)]) (rule d)
  then show ?thesis by (auto simp: indexed_def)
qed

lemma store_ok_later: "store_ok s t \<Longrightarrow> t \<le> t' \<Longrightarrow> store_ok s t'"
  unfolding store_ok_def using later[of t t' s] sessions_ok_later index_sids_later by metis

lemma load_ok:
  assumes "store_ok (st_redis \<sigma>) t" and "CHR '':'' \<notin> set sid"
  shows "store_ok (st_redis (snd (session_load S t now sid \<sigma>))) t"
    and "\<And>x. fst (session_load S t now sid \<sigma>) = Ok (Some x) \<Longrightarrow> se_sid x = sid"
proof -
  obtain s' where d: "session_destroy S t sid (st_redis \<sigma>) = (Ok (), s')" "store_ok s' t" using destroy_store_ok[OF assms] by blast
  show "store_ok (st_redis (snd (session_load S t now sid \<sigma>))) t"
    using d assms write_store_ok load_found[OF assms]
    by (auto simp: session_load_def load_touch_def Let_def split: sum.splits option.splits)
  show "se_sid x = sid" if "fst (session_load S t now sid \<sigma>) = Ok (Some x)" for x
    using that d load_found[OF assms] by (auto simp: session_load_def load_touch_def Let_def split: sum.splits option.splits if_splits)
qed

lemma move_ok:
  assumes "store_ok (st_redis \<sigma>) t" and "CHR '':'' \<notin> set sid" and "\<And>x. CHR '':'' \<notin> set (se_sid (change x))"
  shows "store_ok (st_redis (snd (move_session S t now sid change \<sigma>))) t"
proof -
  obtain res \<sigma>' where l: "session_load S t now sid \<sigma> = (res, \<sigma>')" by fastforce
  then have ok: "store_ok (st_redis \<sigma>') t" using load_ok(1)[OF assms(1,2), of now] by simp
  show ?thesis
  proof (cases "\<exists>x. res = Ok (Some x)")
    case True
    then obtain x where x: "res = Ok (Some x)" by blast
    obtain s' where "session_destroy S t sid (write_session S t now (change x) (st_redis \<sigma>')) = (Ok (), s')" "store_ok s' t"
      using destroy_store_ok[OF write_store_ok[OF ok assms(3)] assms(2)] by blast
    then show ?thesis using l x by (simp add: move_session_def)
  next
    case False
    then show ?thesis using l ok by (auto simp: move_session_def split: sum.splits option.splits)
  qed
qed

lemma session_step_ok:
  assumes "session_step S visible \<rho> \<rho>'" and "store_ok (st_redis (sr_state \<rho>)) (sr_clock \<rho>)"
  shows "store_ok (st_redis (sr_state \<rho>')) (sr_clock \<rho>')"
  using assms(1)
proof cases
  case (later t)
  then show ?thesis using store_ok_later[OF assms(2)] by simp
next
  case (elsewhere \<sigma>')
  have "starts_with (store_key S sid) ''session:''" "starts_with (index_key S sub) ''session:''" for sid sub
    by (simp_all add: store_key_def index_key_def prefix SESSION_KEY_PREFIX_def SUBJECT_INDEX_PREFIX_def starts_with_def)
  then show ?thesis
    using assms(2) elsewhere by (simp add: store_ok_def sessions_ok_def index_sids_def indexed_def)
next
  case (created sid now now' l)
  then show ?thesis
    using assms(2) write_store_ok[of "st_redis (sr_state \<rho>)" "sr_clock \<rho>" "new_session S now sid l" now']
    by (simp add: session_create_def Let_def fresh_sid_def new_session_def)
next
  case (loaded sid now)
  then show ?thesis using assms(2) load_ok(1) by simp
next
  case (rotated sid new now)
  then show ?thesis using assms(2) by (simp add: session_rotate_def move_ok fresh_sid_def)
next
  case (elevated sid new now acr amr)
  then show ?thesis using assms(2) by (simp add: session_elevate_def move_ok fresh_sid_def)
next
  case (destroyed sid)
  then show ?thesis using destroy_store_ok[OF assms(2) destroyed(2)] by auto
next
  case (terminated subject)
  then show ?thesis using terminate_ok[OF assms(2), of subject] by auto
qed

lemma sessions_reachable_ok: "sessions_reachable S visible \<rho> \<Longrightarrow> store_ok (st_redis (sr_state \<rho>)) (sr_clock \<rho>)"
proof (induction rule: sessions_reachable.induct)
  case (start \<rho>)
  have "starts_with (store_key S sid) ''session:''" "starts_with (index_key S sub) ''session:''" for sid sub
    by (simp_all add: store_key_def index_key_def prefix SESSION_KEY_PREFIX_def SUBJECT_INDEX_PREFIX_def starts_with_def)
  then show ?case using start by (simp add: store_ok_def sessions_ok_def index_sids_def)
next
  case (step \<rho> \<rho>')
  then show ?case using session_step_ok by blast
qed

text \<open>No session of a terminated subject is found, at any later time, until another request writes one.\<close>

lemma terminated_gone:
  assumes "sessions_reachable S visible \<rho>" and "terminate_subject S (sr_clock \<rho>) sub (st_redis (sr_state \<rho>)) = (res, s')"
    and "sr_clock \<rho> \<le> t" and "CHR '':'' \<notin> set sid" and "load_read S t sid s' = Ok (Some x)"
  shows "subject_key x \<noteq> sub"
proof -
  obtain s1 where "terminate_subject S (sr_clock \<rho>) sub (st_redis (sr_state \<rho>)) = (Ok (sids_for S (sr_clock \<rho>) sub (st_redis (sr_state \<rho>))), s1)"
      "store_ok s1 (sr_clock \<rho>)"
      "\<forall>x sid d. CHR '':'' \<notin> set sid \<longrightarrow> visible (sr_clock \<rho>) s1 (store_key S sid) = Some (RVal (session_to_json x), d) \<longrightarrow> subject_key x \<noteq> sub"
    using terminate_ok[OF sessions_reachable_ok[OF assms(1)], of sub] by blast
  then have ok: "store_ok s' (sr_clock \<rho>)"
    and gone: "\<And>x sid d. CHR '':'' \<notin> set sid \<Longrightarrow> visible (sr_clock \<rho>) s' (store_key S sid) = Some (RVal (session_to_json x), d) \<Longrightarrow> subject_key x \<noteq> sub"
    using assms(2) by auto
  obtain d where d: "visible t s' (store_key S sid) = Some (RVal (session_to_json x), d)"
    using load_read_entry[OF store_ok_later[OF ok assms(3)] assms(4)] assms(5) by blast
  then have "visible (sr_clock \<rho>) s' (store_key S sid) = Some (RVal (session_to_json x), d)"
    using later[OF assms(3), of s'] by (metis unexpired_origin)
  then show ?thesis by (rule gone[OF assms(4)])
qed

lemma move_succeeds:
  assumes "store_ok (st_redis \<sigma>) t" and "CHR '':'' \<notin> set sid" and "\<And>x. CHR '':'' \<notin> set (se_sid (change x))"
    and "load_read S t sid (st_redis \<sigma>) = Ok (Some x)" and "\<not> timed_out S now x"
  shows "\<exists>\<sigma>'. move_session S t now sid change \<sigma> = (Ok (Some (change (x\<lparr>se_last_seen_at := now\<rparr>))), \<sigma>')"
proof -
  obtain \<sigma>1 where l: "session_load S t now sid \<sigma> = (Ok (Some (x\<lparr>se_last_seen_at := now\<rparr>)), \<sigma>1)"
    using assms(4,5) by (simp add: session_load_def load_touch_def Let_def)
  then have "store_ok (st_redis \<sigma>1) t" using load_ok(1)[OF assms(1,2), of now] by simp
  then obtain s' where "session_destroy S t sid (write_session S t now (change (x\<lparr>se_last_seen_at := now\<rparr>)) (st_redis \<sigma>1)) = (Ok (), s')"
    using destroy_store_ok[OF write_store_ok[OF _ assms(3)] assms(2)] by blast
  then show ?thesis using l by (simp add: move_session_def)
qed

text \<open>A moved session answers to its new identifier only.\<close>

lemma moved:
  assumes "store_ok (st_redis \<sigma>) t" and "CHR '':'' \<notin> set sid" and "CHR '':'' \<notin> set new" and "new \<noteq> sid"
    and "\<And>x. se_sid (change x) = new" and "move_session S t now sid change \<sigma> = (Ok (Some y), \<sigma>')"
  shows "\<exists>x. load_read S t sid (st_redis \<sigma>) = Ok (Some x) \<and> \<not> timed_out S now x \<and> y = change (x\<lparr>se_last_seen_at := now\<rparr>) \<and>
     load_read S t sid (st_redis \<sigma>') = Ok None \<and> load_read S t new (st_redis \<sigma>') = Ok (Some y)"
proof -
  obtain z \<sigma>1 where l: "session_load S t now sid \<sigma> = (Ok (Some z), \<sigma>1)"
    using assms(6) by (auto simp: move_session_def split: prod.splits sum.splits option.splits)
  then obtain x where x: "load_read S t sid (st_redis \<sigma>) = Ok (Some x)" "\<not> timed_out S now x" "z = x\<lparr>se_last_seen_at := now\<rparr>"
    by (auto simp: session_load_def load_touch_def Let_def split: sum.splits option.splits if_splits prod.splits)
  let ?w = "write_session S t now (change z) (st_redis \<sigma>1)"
  have ok: "store_ok ?w t" using write_store_ok load_ok(1)[OF assms(1,2), of now] l assms(3,5) by simp
  obtain s' where d: "session_destroy S t sid ?w = (Ok (), s')" "store_ok s' t" "visible t s' (store_key S sid) = None"
      "\<forall>a. a \<noteq> sid \<longrightarrow> CHR '':'' \<notin> set a \<longrightarrow> visible t s' (store_key S a) = visible t ?w (store_key S a)"
    using destroy_store_ok[OF ok assms(2)] by (elim exE conjE) (rule that)
  have r: "y = change z" "st_redis \<sigma>' = s'" using assms(6) l d(1) by (auto simp: move_session_def)
  have "visible t s' (store_key S new) = visible t ?w (store_key S new)" using d(4) assms(3,4) by blast
  then have "load_read S t new s' = Ok (Some (change z))"
    using load_read_entry[OF d(2) assms(3)] keys_apart(1)[OF assms(3)] assms(3,5) by (simp add: write_view)
  moreover have "load_read S t sid s' = Ok None" using d(3) by (simp add: load_read_def get text_of_def)
  ultimately show ?thesis using x r by auto
qed

end

section \<open>The store on a server in memory\<close>

definition sample_sessions :: "keyspace session_store" where
  "sample_sessions = \<lparr>ss_redis = mem_redis, ss_digest = id, ss_idle = IDLE_TIMEOUT, ss_absolute = ABSOLUTE_TIMEOUT,
     ss_prefix = SESSION_KEY_PREFIX\<rparr>"

lemma sample_sessions_sel [simp]:
  "ss_redis sample_sessions = mem_redis" "ss_digest sample_sessions = id" "ss_idle sample_sessions = IDLE_TIMEOUT"
  "ss_absolute sample_sessions = ABSOLUTE_TIMEOUT" "ss_prefix sample_sessions = SESSION_KEY_PREFIX"
  by (simp_all add: sample_sessions_def)

interpretation mem_sessions: sessions_on_redis sample_sessions unexpired
proof -
  have "sessions_on_redis_axioms sample_sessions" by standard (simp_all add: IDLE_TIMEOUT_def ABSOLUTE_TIMEOUT_def)
  then show "sessions_on_redis sample_sessions unexpired"
    using mem.redis_server_axioms by (simp add: sessions_on_redis_def)
qed

definition sample_login :: login where
  "sample_login = \<lparr>lo_idp_entity_id = ''idp'', lo_name_id = ''n1'', lo_name_id_format = None, lo_auth_time = None, lo_acr = None,
     lo_amr = [], lo_session_index = None, lo_attributes = [], lo_person_uuid = Some ''p1'', lo_impersonated_by = None\<rparr>"

definition sample_session :: session where
  "sample_session = new_session sample_sessions 0 ''s1'' sample_login"

lemma sample_session_sel [simp]:
  "se_sid sample_session = ''s1''" "subject_key sample_session = ''p1''" "se_absolute_expiry sample_session = 43200000000"
  "se_last_seen_at sample_session = 0"
  by (simp_all add: sample_session_def new_session_def sample_login_def subject_key_def ABSOLUTE_TIMEOUT_def)

definition sample_session_keys :: keyspace where
  "sample_session_keys = (\<lambda>k. None)(''session:s1'' \<mapsto> (RVal (session_to_json sample_session), Some 1800000),
     ''session:subject:p1'' \<mapsto> (RSet {|''s1''|}, Some 43200000))"

definition sample_session_start :: "keyspace session_state" where
  "sample_session_start = \<lparr>st_redis = (\<lambda>k. None), st_impersonator = None\<rparr>"

lemmas session_eval = mem_redis_ops deadline_def text_of_def members_of_def expiry_of_def Let_def store_key_def index_key_def
  SESSION_KEY_PREFIX_def SUBJECT_INDEX_PREFIX_def whole_seconds_def IDLE_TIMEOUT_def ABSOLUTE_TIMEOUT_def

lemma sample_created:
  "session_create sample_sessions 0 0 0 ''s1'' sample_login sample_session_start =
     (sample_session, sample_session_start\<lparr>st_redis := sample_session_keys\<rparr>)"
  by (simp add: session_create_def sample_session_def[symmetric] write_session_def sample_session_keys_def
      sample_session_start_def session_eval)

lemma sample_created_reachable:
  "sessions_reachable sample_sessions unexpired \<lparr>sr_clock = 0, sr_state = sample_session_start\<lparr>st_redis := sample_session_keys\<rparr>\<rparr>"
proof -
  have "sessions_reachable sample_sessions unexpired \<lparr>sr_clock = 0, sr_state = sample_session_start\<rparr>"
    by (rule sessions_reachable.start) (simp add: sample_session_start_def)
  then have "sessions_reachable sample_sessions unexpired
      (\<lparr>sr_clock = 0, sr_state = sample_session_start\<rparr>\<lparr>sr_state := snd (session_create sample_sessions 0 0 0 ''s1'' sample_login sample_session_start)\<rparr>)"
    by (rule sessions_reachable.step)
       (use session_step.created[of sample_sessions unexpired "\<lparr>sr_clock = 0, sr_state = sample_session_start\<rparr>" "''s1''" 0 0 sample_login]
        in \<open>simp add: fresh_sid_def sample_session_start_def\<close>)
  then show ?thesis by (simp add: sample_created)
qed

lemma sample_session_read: "t < 1800000 \<Longrightarrow> load_read sample_sessions t ''s1'' sample_session_keys = Ok (Some sample_session)"
  by (simp add: load_read_def sample_session_keys_def session_eval)

lemma sample_terminated:
  "t < 1800000 \<Longrightarrow> terminate_subject sample_sessions t ''p1'' sample_session_keys =
     (Ok [''s1''], sample_session_keys(''session:subject:p1'' := None, ''session:s1'' := None))"
  by (simp add: terminate_subject_def sids_for_def session_destroy_def sample_session_keys_def session_eval
      mem_redis_def drop_empty_def sorted_list_of_fset.rep_eq fun_upd_twist)

text \<open>A second person's session beside the first.\<close>

definition sample_session2 :: session where
  "sample_session2 = new_session sample_sessions 0 ''s2'' (sample_login\<lparr>lo_person_uuid := Some ''p2''\<rparr>)"

lemma sample_session2_sel [simp]:
  "se_sid sample_session2 = ''s2''" "subject_key sample_session2 = ''p2''" "se_absolute_expiry sample_session2 = 43200000000"
  by (simp_all add: sample_session2_def new_session_def sample_login_def subject_key_def ABSOLUTE_TIMEOUT_def)

definition two_sessions :: keyspace where
  "two_sessions = sample_session_keys(''session:s2'' \<mapsto> (RVal (session_to_json sample_session2), Some 1800000),
     ''session:subject:p2'' \<mapsto> (RSet {|''s2''|}, Some 43200000))"

lemma two_sessions_reachable:
  "sessions_reachable sample_sessions unexpired \<lparr>sr_clock = 0, sr_state = sample_session_start\<lparr>st_redis := two_sessions\<rparr>\<rparr>"
proof -
  let ?l = "sample_login\<lparr>lo_person_uuid := Some ''p2''\<rparr>"
  let ?\<rho> = "\<lparr>sr_clock = 0, sr_state = sample_session_start\<lparr>st_redis := sample_session_keys\<rparr>\<rparr>"
  let ?\<rho>' = "?\<rho>\<lparr>sr_state := snd (session_create sample_sessions 0 0 0 ''s2'' ?l (sr_state ?\<rho>))\<rparr>"
  have "session_step sample_sessions unexpired ?\<rho> ?\<rho>'"
    using session_step.created[of sample_sessions unexpired ?\<rho> "''s2''" 0 0 ?l]
    by (simp add: fresh_sid_def sample_session_keys_def session_eval)
  then have "sessions_reachable sample_sessions unexpired ?\<rho>'" by (rule sessions_reachable.step[OF sample_created_reachable])
  moreover have "session_create sample_sessions 0 0 0 ''s2'' ?l (sr_state ?\<rho>) =
      (sample_session2, sample_session_start\<lparr>st_redis := two_sessions\<rparr>)"
    by (simp add: session_create_def sample_session2_def[symmetric] write_session_def two_sessions_def sample_session_keys_def session_eval)
  ultimately show ?thesis by simp
qed

section \<open>Properties\<close>

text \<open>C10. When requests do not overlap, ending every session of a person ends all of them: no identifier
  finds a session of that person afterwards, whichever way the person's sessions were created, used,
  rotated or elevated.\<close>

theorem terminate_subject_ends_all:
  assumes "sessions_on_redis S visible" and "sessions_reachable S visible \<rho>"
    and "terminate_subject S (sr_clock \<rho>) sub (st_redis (sr_state \<rho>)) = (res, s')"
    and "sr_clock \<rho> \<le> t" and "CHR '':'' \<notin> set sid" and "load_read S t sid s' = Ok (Some x)"
  shows "subject_key x \<noteq> sub"
  using sessions_on_redis.terminated_gone[OF assms] .

theorem terminate_subject_ends_all_witness:
  "\<exists>s'. terminate_subject sample_sessions 0 ''p1'' two_sessions = (Ok [''s1''], s') \<and>
     load_read sample_sessions 5 ''s2'' s' = Ok (Some sample_session2) \<and> subject_key sample_session2 \<noteq> ''p1''"
proof -
  let ?\<rho> = "\<lparr>sr_clock = 0, sr_state = sample_session_start\<lparr>st_redis := two_sessions\<rparr>\<rparr>"
  let ?s' = "two_sessions(''session:subject:p1'' := None, ''session:s1'' := None)"
  have t: "terminate_subject sample_sessions 0 ''p1'' two_sessions = (Ok [''s1''], ?s')"
    by (simp add: terminate_subject_def sids_for_def session_destroy_def two_sessions_def sample_session_keys_def session_eval
        mem_redis_def drop_empty_def sorted_list_of_fset.rep_eq fun_upd_twist)
  have l: "load_read sample_sessions 5 ''s2'' ?s' = Ok (Some sample_session2)"
    by (simp add: load_read_def two_sessions_def sample_session_keys_def session_eval)
  have "subject_key sample_session2 \<noteq> ''p1''"
    by (rule terminate_subject_ends_all[OF mem_sessions.sessions_on_redis_axioms two_sessions_reachable, of "''p1''" _ ?s' 5 "''s2''"])
       (simp_all add: t l)
  then show ?thesis using t l by blast
qed

text \<open>A load returns a session only inside both timeouts, counted from the instants it stores, with its last use
  brought up to date and nothing else of it changed, and sets the impersonation marker to that session's.\<close>

theorem session_load_sound:
  assumes "session_load S t now sid \<sigma> = (Ok (Some y), \<sigma>')"
  shows "\<exists>x. load_read S t sid (st_redis \<sigma>) = Ok (Some x) \<and> now < se_absolute_expiry x \<and> now - se_last_seen_at x < ss_idle S \<and>
     y = x\<lparr>se_last_seen_at := now\<rparr> \<and> st_impersonator \<sigma>' = se_impersonated_by x"
  using assms by (auto simp: session_load_def load_touch_def timed_out_def Let_def not_le
      split: sum.splits option.splits if_splits prod.splits)

theorem session_load_sound_witness:
  "\<exists>x. load_read sample_sessions 1000 ''s1'' sample_session_keys = Ok (Some x) \<and> 1000000 < se_absolute_expiry x \<and>
     1000000 - se_last_seen_at x < ss_idle sample_sessions \<and>
     sample_session\<lparr>se_last_seen_at := 1000000\<rparr> = x\<lparr>se_last_seen_at := 1000000\<rparr>"
proof -
  have "fst (session_load sample_sessions 1000 1000000 ''s1'' \<lparr>st_redis = sample_session_keys, st_impersonator = None\<rparr>) =
      Ok (Some (sample_session\<lparr>se_last_seen_at := 1000000\<rparr>))"
    by (simp add: session_load_def sample_session_read timed_out_def load_touch_def IDLE_TIMEOUT_def Let_def)
  then obtain \<sigma>' where "session_load sample_sessions 1000 1000000 ''s1'' \<lparr>st_redis = sample_session_keys, st_impersonator = None\<rparr> =
      (Ok (Some (sample_session\<lparr>se_last_seen_at := 1000000\<rparr>)), \<sigma>')"
    by (metis prod.collapse)
  from session_load_sound[OF this] show ?thesis by auto
qed

text \<open>A rotation moves the session: the old identifier finds nothing, the new one finds the session the old
  one found, with the new identifier and the time of the rotation and every other field carried over.\<close>

theorem session_rotate_moves:
  assumes "sessions_on_redis S visible" and "sessions_reachable S visible \<rho>" and "CHR '':'' \<notin> set sid"
    and "CHR '':'' \<notin> set new" and "new \<noteq> sid"
    and "session_rotate S (sr_clock \<rho>) now sid new (sr_state \<rho>) = (Ok (Some y), \<sigma>')"
  shows "\<exists>x. load_read S (sr_clock \<rho>) sid (st_redis (sr_state \<rho>)) = Ok (Some x) \<and>
     y = x\<lparr>se_sid := new, se_last_seen_at := now\<rparr> \<and>
     load_read S (sr_clock \<rho>) sid (st_redis \<sigma>') = Ok None \<and> load_read S (sr_clock \<rho>) new (st_redis \<sigma>') = Ok (Some y)"
proof -
  have "session.se_sid (x\<lparr>se_sid := new, se_last_seen_at := now\<rparr>) = new" for x by simp
  from sessions_on_redis.moved[OF assms(1) sessions_on_redis.sessions_reachable_ok[OF assms(1,2)] assms(3-5) this
      assms(6)[unfolded session_rotate_def]]
  show ?thesis by auto
qed

theorem session_rotate_moves_witness:
  "\<exists>y \<sigma>'. session_rotate sample_sessions 0 0 ''s1'' ''s2'' (sample_session_start\<lparr>st_redis := sample_session_keys\<rparr>) = (Ok (Some y), \<sigma>') \<and>
     load_read sample_sessions 0 ''s1'' (st_redis \<sigma>') = Ok None \<and> load_read sample_sessions 0 ''s2'' (st_redis \<sigma>') = Ok (Some y)"
proof -
  let ?\<rho> = "\<lparr>sr_clock = 0, sr_state = sample_session_start\<lparr>st_redis := sample_session_keys\<rparr>\<rparr>"
  have store_ok: "mem_sessions.store_ok (st_redis (sr_state ?\<rho>)) 0"
    using mem_sessions.sessions_reachable_ok[OF sample_created_reachable] by simp
  obtain y \<sigma>' where y: "session_rotate sample_sessions (sr_clock ?\<rho>) 0 ''s1'' ''s2'' (sr_state ?\<rho>) = (Ok (Some y), \<sigma>')"
    using mem_sessions.move_succeeds[OF store_ok, of "''s1''" "\<lambda>x. x\<lparr>se_sid := ''s2'', se_last_seen_at := 0\<rparr>" sample_session 0]
    by (auto simp: session_rotate_def sample_session_read timed_out_def IDLE_TIMEOUT_def)
  show ?thesis
    using session_rotate_moves[OF mem_sessions.sessions_on_redis_axioms sample_created_reachable _ _ _ y] y by auto
qed

text \<open>A session whose read and refresh fall on either side of its termination is written back: the person's
  sessions were all ended, and the browser's next request is served.\<close>

theorem terminated_session_returns:
  "load_read sample_sessions 1000 ''s1'' sample_session_keys = Ok (Some sample_session) \<and>
   (case terminate_subject sample_sessions 1001 ''p1'' sample_session_keys of (res, s) \<Rightarrow>
      res = Ok [''s1''] \<and> load_read sample_sessions 1001 ''s1'' s = Ok None \<and>
      (case load_touch sample_sessions 1002 1002000 sample_session \<lparr>st_redis = s, st_impersonator = None\<rparr> of (x, \<sigma>) \<Rightarrow>
         load_read sample_sessions 2000 ''s1'' (st_redis \<sigma>) = Ok (Some (sample_session\<lparr>se_last_seen_at := 1002000\<rparr>))))"
  using sample_session_read[of 1000] sample_terminated[of 1001]
  by (simp add: load_touch_def write_session_def load_read_def session_eval sample_session_keys_def)

end
