(* ===== verification/OneTime.thy ===== *)
theory OneTime
  imports Redis Documents JsonText "HOL-Library.Word"
begin

text \<open>
  The stores whose entries are spent: outstanding SAML requests and the replay cache of accepted
  assertions (\<open>saml/stores.py\<close>), pushed authorization requests (\<open>oidc/par.py\<close>), WebAuthn challenges
  (\<open>mfa/challenges.py\<close>) and push approvals (\<open>mfa/push.py\<close>).  Random references and challenges are
  arguments; the push service is a parameter: what it answers is an argument of the call.
\<close>

section \<open>Lifetimes\<close>

text \<open>\<open>max(int(ttl.total_seconds()), 1)\<close> for a duration in seconds.\<close>

definition at_least_one :: "int \<Rightarrow> nat" where
  "at_least_one ttl = nat (max ttl 1)"

lemma at_least_one_pos [simp]: "0 < at_least_one ttl"
  by (simp add: at_least_one_def)

section \<open>SAML: outstanding requests and seen assertions\<close>

definition REPLAY_KEY_PREFIX :: string where "REPLAY_KEY_PREFIX = ''saml:replay:''"
definition REQUEST_KEY_PREFIX :: string where "REQUEST_KEY_PREFIX = ''saml:request:''"

record outstanding_request =
  or_request_id :: string
  or_idp_entity_id :: string
  or_relay_state :: string
  or_created_at :: int
  or_return_to :: "string option"
  or_correlation_id :: "string option"

definition request_to_json :: "outstanding_request \<Rightarrow> pyval" where
  "request_to_json q = PDict [(''request_id'', PStr (or_request_id q)), (''idp_entity_id'', PStr (or_idp_entity_id q)),
     (''relay_state'', PStr (or_relay_state q)), (''created_at'', PInt (or_created_at q)),
     (''return_to'', opt_str (or_return_to q)), (''correlation_id'', opt_str (or_correlation_id q))]"

definition request_from_json :: "pyval \<Rightarrow> outstanding_request option" where
  "request_from_json doc =
     Option.bind (member doc ''request_id'' to_str) (\<lambda>request_id.
     Option.bind (member doc ''idp_entity_id'' to_str) (\<lambda>idp.
     Option.bind (member doc ''relay_state'' to_str) (\<lambda>relay.
     Option.bind (member doc ''created_at'' to_int) (\<lambda>created.
     Option.bind (default_member doc ''return_to'' None to_opt_str) (\<lambda>return_to.
     Option.bind (default_member doc ''correlation_id'' None to_opt_str) (\<lambda>correlation.
       Some \<lparr>or_request_id = request_id, or_idp_entity_id = idp, or_relay_state = relay, or_created_at = created,
         or_return_to = return_to, or_correlation_id = correlation\<rparr>))))))"

lemma request_json [simp]: "request_from_json (request_to_json q) = Some q"
  by (simp add: request_from_json_def request_to_json_def)

definition request_remember :: "'s redis \<Rightarrow> time \<Rightarrow> outstanding_request \<Rightarrow> int \<Rightarrow> 's \<Rightarrow> 's" where
  "request_remember R t q ttl s =
     r_set R t (REQUEST_KEY_PREFIX @ or_request_id q) (request_to_json q) (at_least_one ttl) s"

text \<open>\<open>consume\<close>: nothing outstanding, an unreadable record, or the request; the key is gone in every case.\<close>

datatype 'a taken = Nothing | Unreadable | Taken 'a

definition read_taken :: "(pyval \<Rightarrow> 'a option) \<Rightarrow> pyval option \<Rightarrow> 'a taken" where
  "read_taken read v = (case v of None \<Rightarrow> Nothing
     | Some doc \<Rightarrow> (case read doc of None \<Rightarrow> Unreadable | Some x \<Rightarrow> Taken x))"

definition request_consume :: "'s redis \<Rightarrow> time \<Rightarrow> string \<Rightarrow> 's \<Rightarrow> outstanding_request taken \<times> 's" where
  "request_consume R t request_id s =
     (let (v, s') = r_getdel R t (REQUEST_KEY_PREFIX @ request_id) s in (read_taken request_from_json v, s'))"

definition replay_remember :: "'s redis \<Rightarrow> time \<Rightarrow> string \<Rightarrow> int \<Rightarrow> 's \<Rightarrow> bool \<times> 's" where
  "replay_remember R t assertion_id ttl s =
     r_set_nx R t (REPLAY_KEY_PREFIX @ assertion_id) (PStr ''1'') (at_least_one ttl) s"

section \<open>Pushed authorization requests\<close>

definition REQUEST_URI_PREFIX :: string where "REQUEST_URI_PREFIX = ''urn:ietf:params:oauth:request_uri:''"
definition PAR_KEY_PREFIX :: string where "PAR_KEY_PREFIX = ''oidc:par:''"
definition PAR_TTL :: int where "PAR_TTL = 90"

definition par_push :: "'s redis \<Rightarrow> time \<Rightarrow> int \<Rightarrow> string \<Rightarrow> string \<Rightarrow> dict \<Rightarrow> 's \<Rightarrow> (string \<times> nat) \<times> 's" where
  "par_push R t ttl reference client_id parameters s =
     ((REQUEST_URI_PREFIX @ reference, at_least_one ttl),
      r_set R t (PAR_KEY_PREFIX @ reference) (PDict [(''client_id'', PStr client_id), (''parameters'', PDict parameters)])
        (at_least_one ttl) s)"

definition par_record :: "string \<Rightarrow> pyval \<Rightarrow> dict option taken" where
  "par_record client_id doc = (case doc of
       PDict d \<Rightarrow> if map_of d ''client_id'' \<noteq> Some (PStr client_id) then Taken None
                  else (case map_of d ''parameters'' of Some (PDict p) \<Rightarrow> Taken (Some p) | _ \<Rightarrow> Unreadable)
     | _ \<Rightarrow> Unreadable)"

definition par_consume :: "'s redis \<Rightarrow> time \<Rightarrow> string \<Rightarrow> string \<Rightarrow> 's \<Rightarrow> dict option taken \<times> 's" where
  "par_consume R t request_uri client_id s =
     (if \<not> starts_with request_uri REQUEST_URI_PREFIX then (Taken None, s)
      else (let reference = drop (length REQUEST_URI_PREFIX) request_uri;
                (raw, s') = r_getdel R t (PAR_KEY_PREFIX @ reference) s in
            (case raw of None \<Rightarrow> (Taken None, s') | Some doc \<Rightarrow> (par_record client_id doc, s'))))"

section \<open>WebAuthn challenges\<close>

definition CHALLENGE_PREFIX :: string where "CHALLENGE_PREFIX = ''mfa:challenge:''"
definition CHALLENGE_TTL :: int where "CHALLENGE_TTL = 300"
definition REGISTER :: string where "REGISTER = ''register''"
definition AUTHENTICATE :: string where "AUTHENTICATE = ''authenticate''"

definition challenge_key :: "string \<Rightarrow> string \<Rightarrow> string" where
  "challenge_key person ceremony = CHALLENGE_PREFIX @ ceremony @ '':'' @ person"

definition bytes_hex :: "8 word list \<Rightarrow> string" where
  "bytes_hex bs = concat (map (\<lambda>b. [hex_digit (unat b div 16), hex_digit (unat b mod 16)]) bs)"

definition hex_value :: "char \<Rightarrow> nat option" where
  "hex_value c = (let n = of_char c in
     if 48 \<le> n \<and> n \<le> 57 then Some (n - 48) else if 97 \<le> n \<and> n \<le> 102 then Some (n - 87)
     else if 65 \<le> n \<and> n \<le> 70 then Some (n - 55) else None)"

text \<open>\<open>bytes.fromhex\<close> skips ASCII whitespace between bytes.\<close>

definition ascii_space :: "char \<Rightarrow> bool" where
  "ascii_space c = ((of_char c :: nat) \<in> {9, 10, 11, 12, 13, 32})"

fun bytes_fromhex :: "string \<Rightarrow> 8 word list option" where
  "bytes_fromhex [] = Some []"
| "bytes_fromhex [c] = (if ascii_space c then Some [] else None)"
| "bytes_fromhex (c # d # cs) = (if ascii_space c then bytes_fromhex (d # cs)
     else (case (hex_value c, hex_value d) of
         (Some a, Some b) \<Rightarrow> map_option (Cons (of_nat (16 * a + b))) (bytes_fromhex cs)
       | _ \<Rightarrow> None))"

definition challenge_issue :: "'s redis \<Rightarrow> time \<Rightarrow> int \<Rightarrow> 8 word list \<Rightarrow> string \<Rightarrow> string \<Rightarrow> 's \<Rightarrow> 8 word list \<times> 's" where
  "challenge_issue R t ttl challenge person ceremony s =
     (challenge, r_set R t (challenge_key person ceremony) (PStr (bytes_hex challenge)) (nat ttl) s)"

definition challenge_consume :: "'s redis \<Rightarrow> time \<Rightarrow> string \<Rightarrow> string \<Rightarrow> 's \<Rightarrow> 8 word list option \<times> 's" where
  "challenge_consume R t person ceremony s =
     (let (raw, s') = r_getdel R t (challenge_key person ceremony) s in
      (case raw of Some (PStr text) \<Rightarrow> bytes_fromhex text | _ \<Rightarrow> None, s'))"

lemma hex_value_digit: "d < 16 \<Longrightarrow> hex_value (hex_digit d) = Some d" "d < 16 \<Longrightarrow> \<not> ascii_space (hex_digit d)"
  by (auto simp: hex_value_def hex_digit_def ascii_space_def Let_def)

lemma fromhex_hex [simp]: "bytes_fromhex (bytes_hex bs) = Some bs"
proof (induction bs)
  case Nil
  then show ?case by (simp add: bytes_hex_def)
next
  case (Cons b bs)
  have "unat b < 256" using unsigned_less[of b] by simp
  then have "unat b div 16 < 16" by (simp add: less_mult_imp_div_less)
  moreover have "16 * (unat b div 16) + unat b mod 16 = unat b" by simp
  ultimately show ?case using Cons by (simp add: bytes_hex_def hex_value_digit)
qed

section \<open>Push approvals\<close>

definition BINDING_PREFIX :: string where "BINDING_PREFIX = ''mfa:push:''"
definition PUSH_WINDOW :: int where "PUSH_WINDOW = 60"
definition PENDING :: string where "PENDING = ''pending''"
definition APPROVED :: string where "APPROVED = ''approved''"
definition DENIED :: string where "DENIED = ''denied''"
definition EXPIRED :: string where "EXPIRED = ''expired''"
definition UNAVAILABLE :: string where "UNAVAILABLE = ''unavailable''"

text \<open>What the service answers: nothing, or a document of which the client reads one member as text.\<close>

datatype push_answer = Unreachable | Answer "string option"

definition push_send :: "'s redis \<Rightarrow> time \<Rightarrow> int \<Rightarrow> push_answer \<Rightarrow> string \<Rightarrow> 's \<Rightarrow> string option \<times> 's" where
  "push_send R t window answer person s = (case answer of
       Answer (Some request_id) \<Rightarrow> (Some request_id, r_set R t (BINDING_PREFIX @ request_id) (PStr person) (nat window) s)
     | _ \<Rightarrow> (None, s))"

text \<open>\<open>outcome\<close>, before and after the service is asked.\<close>

definition push_bound :: "'s redis \<Rightarrow> time \<Rightarrow> string \<Rightarrow> string \<Rightarrow> 's \<Rightarrow> bool" where
  "push_bound R t person request_id s = (r_get R t (BINDING_PREFIX @ request_id) s = Some (PStr person))"

definition push_settle :: "'s redis \<Rightarrow> time \<Rightarrow> push_answer \<Rightarrow> string \<Rightarrow> 's \<Rightarrow> string \<times> 's" where
  "push_settle R t answer request_id s = (case answer of
       Unreachable \<Rightarrow> (UNAVAILABLE, s)
     | Answer a \<Rightarrow> (let status = (case a of None \<Rightarrow> PENDING | Some x \<Rightarrow> x) in
         (status, if status \<in> {APPROVED, DENIED, EXPIRED} then r_delete R t (BINDING_PREFIX @ request_id) s else s)))"

definition push_outcome :: "'s redis \<Rightarrow> time \<Rightarrow> time \<Rightarrow> push_answer \<Rightarrow> string \<Rightarrow> string \<Rightarrow> 's \<Rightarrow> string \<times> 's" where
  "push_outcome R t t' answer person request_id s =
     (if \<not> push_bound R t person request_id s then (EXPIRED, s) else push_settle R t' answer request_id s)"

section \<open>Runs of the stores\<close>

datatype ot_op =
    RequestRemember outstanding_request int
  | RequestConsume string
  | ReplayRemember string int
  | ParPush int string string dict
  | ParConsume string string
  | ChallengeIssue nat "8 word list" string string
  | ChallengeConsume string string

datatype ot_result = Done | Request "outstanding_request taken" | First bool | Params "dict option taken"
  | Challenge "8 word list option"

text \<open>A challenge's lifetime is at least a second.\<close>

fun ot_exec :: "'s redis \<Rightarrow> time \<Rightarrow> ot_op \<Rightarrow> 's \<Rightarrow> ot_result \<times> 's" where
  "ot_exec R t (RequestRemember q ttl) s = (Done, request_remember R t q ttl s)"
| "ot_exec R t (RequestConsume i) s = (let (x, s') = request_consume R t i s in (Request x, s'))"
| "ot_exec R t (ReplayRemember a ttl) s = (let (b, s') = replay_remember R t a ttl s in (First b, s'))"
| "ot_exec R t (ParPush ttl reference client p) s = (Done, snd (par_push R t ttl reference client p s))"
| "ot_exec R t (ParConsume uri client) s = (let (x, s') = par_consume R t uri client s in (Params x, s'))"
| "ot_exec R t (ChallengeIssue ttl c person ceremony) s = (Done, snd (challenge_issue R t (int (Suc ttl)) c person ceremony s))"
| "ot_exec R t (ChallengeConsume person ceremony) s = (let (x, s') = challenge_consume R t person ceremony s in (Challenge x, s'))"

definition one_time_key :: "string \<Rightarrow> bool" where
  "one_time_key k = (starts_with k ''saml:'' \<or> starts_with k ''oidc:par:'' \<or> starts_with k ''mfa:challenge:'')"

text \<open>The events of a run, the latest first, with time passing and other parts of the broker writing their own
  keys in between.\<close>

inductive ot_run ::
  "'s redis \<Rightarrow> (time \<Rightarrow> 's \<Rightarrow> keyspace) \<Rightarrow> time \<Rightarrow> 's \<Rightarrow> (ot_op \<times> ot_result) list \<Rightarrow> time \<Rightarrow> 's \<Rightarrow> bool"
  for R visible t s where
  nothing: "ot_run R visible t s [] t s"
| later: "ot_run R visible t s es t1 s1 \<Longrightarrow> t1 \<le> t2 \<Longrightarrow> ot_run R visible t s es t2 s1"
| elsewhere: "ot_run R visible t s es t1 s1 \<Longrightarrow> (\<And>k. one_time_key k \<Longrightarrow> visible t1 s2 k = visible t1 s1 k) \<Longrightarrow>
    ot_run R visible t s es t1 s2"
| event: "ot_run R visible t s es t1 s1 \<Longrightarrow> ot_exec R t1 op s1 = (r, s2) \<Longrightarrow> ot_run R visible t s ((op, r) # es) t1 s2"

fun put_key :: "ot_op \<Rightarrow> string option" where
  "put_key (RequestRemember q ttl) = Some (REQUEST_KEY_PREFIX @ or_request_id q)"
| "put_key (ReplayRemember a ttl) = Some (REPLAY_KEY_PREFIX @ a)"
| "put_key (ParPush ttl reference client p) = Some (PAR_KEY_PREFIX @ reference)"
| "put_key (ChallengeIssue ttl c person ceremony) = Some (challenge_key person ceremony)"
| "put_key _ = None"

fun take_key :: "ot_op \<Rightarrow> string option" where
  "take_key (RequestConsume i) = Some (REQUEST_KEY_PREFIX @ i)"
| "take_key (ParConsume uri client) =
     (if starts_with uri REQUEST_URI_PREFIX then Some (PAR_KEY_PREFIX @ drop (length REQUEST_URI_PREFIX) uri) else None)"
| "take_key (ChallengeConsume person ceremony) = Some (challenge_key person ceremony)"
| "take_key _ = None"

fun handed_out :: "ot_result \<Rightarrow> bool" where
  "handed_out (Request (Taken q)) = True"
| "handed_out (Params (Taken (Some p))) = True"
| "handed_out (Challenge (Some c)) = True"
| "handed_out _ = False"

definition puts :: "string \<Rightarrow> (ot_op \<times> ot_result) list \<Rightarrow> nat" where
  "puts k es = length (filter (\<lambda>(op, r). put_key op = Some k) es)"

definition takes :: "string \<Rightarrow> (ot_op \<times> ot_result) list \<Rightarrow> nat" where
  "takes k es = length (filter (\<lambda>(op, r). take_key op = Some k \<and> handed_out r) es)"

definition held :: "keyspace \<Rightarrow> string \<Rightarrow> nat" where
  "held V k = (if V k = None then 0 else 1)"

lemma puts_Cons: "puts k (e # es) = puts k [e] + puts k es" and takes_Cons: "takes k (e # es) = takes k [e] + takes k es"
  by (simp_all add: puts_def takes_def)

lemma held_later: "held (unexpired t V) k \<le> held V k"
  by (auto simp: held_def unexpired_def)

context redis_server
begin

lemma ot_exec_untouched:
  "put_key op \<noteq> Some k \<Longrightarrow> take_key op \<noteq> Some k \<Longrightarrow> visible t (snd (ot_exec R t op s)) k = visible t s k"
  by (cases op) (auto simp: request_remember_def request_consume_def replay_remember_def par_push_def par_consume_def
      challenge_issue_def challenge_consume_def writes Let_def split: prod.splits option.splits if_splits dest!: arg_cong[of _ _ snd])

lemma ot_exec_taken:
  assumes "take_key op = Some k"
  shows "visible t (snd (ot_exec R t op s)) k = None" and "handed_out (fst (ot_exec R t op s)) \<Longrightarrow> visible t s k \<noteq> None"
proof -
  show "visible t (snd (ot_exec R t op s)) k = None"
    using assms getdel(2)[of t k s]
    by (cases op) (auto simp: request_consume_def par_consume_def challenge_consume_def Let_def
        split: prod.splits option.splits if_splits)
  assume h: "handed_out (fst (ot_exec R t op s))"
  show "visible t s k \<noteq> None"
  proof
    assume "visible t s k = None"
    then have "fst (r_getdel R t k s) = None" by (simp add: getdel(1) text_of_def)
    then have "r_getdel R t k s = (None, snd (r_getdel R t k s))" by (metis prod.collapse)
    then show False
      using assms h by (cases op) (auto simp: request_consume_def par_consume_def challenge_consume_def read_taken_def Let_def
          split: if_splits prod.splits)
  qed
qed

text \<open>What is handed out under a key has been put there before: every entry is spent by the read.\<close>

lemma ot_ledger:
  "ot_run R visible t s es t' s' \<Longrightarrow> one_time_key k \<Longrightarrow> held (visible t' s') k + takes k es \<le> held (visible t s) k + puts k es"
proof (induction rule: ot_run.induct)
  case nothing
  then show ?case by (simp add: puts_def takes_def)
next
  case (later es t1 s1 t2)
  then show ?case using held_later[of t2 "visible t1 s1" k] redis_server.later[OF redis_server_axioms, of t1 t2 s1] by simp
next
  case (elsewhere es t1 s1 s2)
  then show ?case by (simp add: held_def)
next
  case (event es t1 s1 op r s2)
  have s2: "s2 = snd (ot_exec R t1 op s1)" "r = fst (ot_exec R t1 op s1)" using event(2) by simp_all
  have "held (visible t1 s2) k + takes k [(op, r)] \<le> held (visible t1 s1) k + puts k [(op, r)]"
  proof (cases "take_key op = Some k")
    case True
    then show ?thesis using ot_exec_taken[OF True, of t1 s1] by (auto simp: s2 held_def takes_def)
  next
    case False
    then show ?thesis using ot_exec_untouched[OF _ False, of t1 s1] by (auto simp: s2 held_def takes_def puts_def)
  qed
  then show ?case using event(3)[OF event(4)] puts_Cons[of k "(op, r)" es] takes_Cons[of k "(op, r)" es] by linarith
qed

text \<open>While an accepted assertion is remembered, no run accepts it again.\<close>

lemma replay_key_apart:
  "take_key op \<noteq> Some (REPLAY_KEY_PREFIX @ a)"
  by (cases op) (auto simp: REPLAY_KEY_PREFIX_def REQUEST_KEY_PREFIX_def PAR_KEY_PREFIX_def challenge_key_def CHALLENGE_PREFIX_def)

lemma replay_put: "put_key op = Some (REPLAY_KEY_PREFIX @ a) \<longleftrightarrow> (\<exists>ttl. op = ReplayRemember a ttl)"
  by (cases op) (auto simp: REPLAY_KEY_PREFIX_def REQUEST_KEY_PREFIX_def PAR_KEY_PREFIX_def challenge_key_def CHALLENGE_PREFIX_def)

lemma replay_kept:
  assumes "ot_run R visible t s es t' s'" and "visible t s (REPLAY_KEY_PREFIX @ a) = Some (v, Some y)"
  shows "t' < y \<Longrightarrow> visible t' s' (REPLAY_KEY_PREFIX @ a) = Some (v, Some y) \<and>
     list_all (\<lambda>(op, r). \<forall>ttl. op = ReplayRemember a ttl \<longrightarrow> r = First False) es"
  using assms(1)
proof (induction rule: ot_run.induct)
  case nothing
  then show ?case using assms(2) by simp
next
  case (later es t1 s1 t2)
  then have "t1 < y" by simp
  then show ?case using later by (simp add: redis_server.later[OF redis_server_axioms, of t1 t2 s1] unexpired_def alive_def)
next
  case (elsewhere es t1 s1 s2)
  then show ?case by (simp add: one_time_key_def starts_with_def REPLAY_KEY_PREFIX_def)
next
  case (event es t1 s1 op r s2)
  let ?k = "REPLAY_KEY_PREFIX @ a"
  have s2: "s2 = snd (ot_exec R t1 op s1)" "r = fst (ot_exec R t1 op s1)" using event(2) by simp_all
  have v: "visible t1 s1 ?k = Some (v, Some y)" using event by simp
  show ?case
  proof (cases "\<exists>ttl. op = ReplayRemember a ttl")
    case True
    then obtain ttl where op: "op = ReplayRemember a ttl" by blast
    have "r = First False" "visible t1 s2 ?k = Some (v, Some y)"
      using v set_nx[of "at_least_one ttl" t1 ?k "PStr ''1''" s1]
      by (auto simp: s2 op replay_remember_def Let_def split: prod.splits)
    then show ?thesis using event by simp
  next
    case False
    then have "visible t1 s2 ?k = visible t1 s1 ?k"
      using ot_exec_untouched[of op ?k t1 s1] replay_key_apart[of op a] replay_put[of op a] s2(1) by blast
    then show ?thesis using False event v by simp
  qed
qed

end

section \<open>Properties\<close>

text \<open>C32. Outstanding SAML requests, pushed authorization requests and WebAuthn challenges are handed out at
  most once each: in any run of the stores, under every key, no more is handed out than was put there.\<close>

theorem one_time_spent_once:
  assumes "redis_server R visible" and "ot_run R visible t s es t' s'" and "one_time_key k" and "visible t s k = None"
  shows "takes k es \<le> puts k es"
  using redis_server.ot_ledger[OF assms(1-3)] assms(4) by (simp add: held_def)

definition sample_request :: outstanding_request where
  "sample_request = \<lparr>or_request_id = ''r1'', or_idp_entity_id = ''idp'', or_relay_state = ''rs'', or_created_at = 0,
     or_return_to = None, or_correlation_id = None\<rparr>"

definition sample_events :: "(ot_op \<times> ot_result) list" where
  "sample_events = [(RequestConsume ''r1'', Request Nothing), (RequestConsume ''r1'', Request (Taken sample_request)),
     (RequestRemember sample_request 300, Done)]"

lemma sample_run: "\<exists>s'. ot_run mem_redis unexpired 0 (\<lambda>k. None) sample_events 1 s'"
proof -
  let ?k = "REQUEST_KEY_PREFIX @ ''r1''"
  let ?m = "(\<lambda>k. None)(?k \<mapsto> (RVal (request_to_json sample_request), Some 300000))"
  have a: "ot_run mem_redis unexpired 0 (\<lambda>k. None) [(RequestRemember sample_request 300, Done)] 0 ?m"
    by (rule ot_run.event[OF ot_run.nothing])
       (simp add: request_remember_def mem_redis_ops deadline_def at_least_one_def, simp add: sample_request_def)
  then have "ot_run mem_redis unexpired 0 (\<lambda>k. None) [(RequestRemember sample_request 300, Done)] 1 ?m"
    by (rule ot_run.later) simp
  then have "ot_run mem_redis unexpired 0 (\<lambda>k. None)
      [(RequestConsume ''r1'', Request (Taken sample_request)), (RequestRemember sample_request 300, Done)] 1 (?m(?k := None))"
    by (rule ot_run.event) (simp add: request_consume_def mem_redis_ops read_taken_def text_of_def)
  then have "ot_run mem_redis unexpired 0 (\<lambda>k. None) sample_events 1 (?m(?k := None, ?k := None))"
    unfolding sample_events_def by (rule ot_run.event) (simp add: request_consume_def mem_redis_ops read_taken_def text_of_def)
  then show ?thesis by blast
qed

theorem one_time_spent_once_witness:
  "takes (REQUEST_KEY_PREFIX @ ''r1'') sample_events = 1 \<and> takes (REQUEST_KEY_PREFIX @ ''r1'') sample_events \<le> puts (REQUEST_KEY_PREFIX @ ''r1'') sample_events"
proof -
  obtain s' where "ot_run mem_redis unexpired 0 (\<lambda>k. None) sample_events 1 s'" using sample_run by blast
  then have "takes (REQUEST_KEY_PREFIX @ ''r1'') sample_events \<le> puts (REQUEST_KEY_PREFIX @ ''r1'') sample_events"
    by (rule one_time_spent_once[OF mem.redis_server_axioms]) (simp_all add: one_time_key_def starts_with_def REQUEST_KEY_PREFIX_def)
  moreover have "takes (REQUEST_KEY_PREFIX @ ''r1'') sample_events = 1" by (simp add: takes_def sample_events_def)
  ultimately show ?thesis by simp
qed

text \<open>An assertion accepted once is refused for its whole remembered life, whatever the stores do in
  between and however many requests held it.\<close>

theorem replay_refused:
  assumes "redis_server R visible" and "replay_remember R t a ttl s = (True, s1)"
    and "ot_run R visible t s1 es t' s'" and "t' < t + 1000 * at_least_one ttl"
  shows "fst (replay_remember R t' a ttl' s') = False"
proof -
  have "visible t s1 (REPLAY_KEY_PREFIX @ a) = Some (RVal (PStr ''1''), Some (t + 1000 * at_least_one ttl))"
    using redis_server.set_nx[OF assms(1) at_least_one_pos, of t "REPLAY_KEY_PREFIX @ a" "PStr ''1''" ttl s] assms(2)
    by (auto simp: replay_remember_def deadline_def)
  then have "visible t' s' (REPLAY_KEY_PREFIX @ a) \<noteq> None"
    using redis_server.replay_kept[OF assms(1,3)] assms(4) by fastforce
  then show ?thesis
    using redis_server.set_nx(1)[OF assms(1) at_least_one_pos] by (simp add: replay_remember_def)
qed

theorem replay_refused_witness:
  "\<exists>s1. replay_remember mem_redis 0 ''a1'' 300 (\<lambda>k. None) = (True, s1) \<and> fst (replay_remember mem_redis 299999 ''a1'' 300 s1) = False"
proof -
  obtain s1 where s1: "replay_remember mem_redis 0 ''a1'' 300 (\<lambda>k. None) = (True, s1)"
    by (simp add: replay_remember_def mem_redis_ops)
  have "ot_run mem_redis unexpired 0 s1 [] 299999 s1" by (rule ot_run.later[OF ot_run.nothing]) simp
  from replay_refused[OF mem.redis_server_axioms s1 this, of 300] s1 show ?thesis by (simp add: at_least_one_def)
qed

text \<open>A pushed request is given to the client that pushed it and to no other, and a client that presents
  another's reference spends it.\<close>

theorem par_bound_to_client:
  assumes "redis_server R visible" and "par_push R t ttl reference client p s = ((uri, life), s1)" and "t \<le> t'" and "t' < t + 1000 * life"
  shows "fst (par_consume R t' uri client' s1) = Taken (if client' = client then Some p else None) \<and>
     fst (par_consume R t' uri client'' (snd (par_consume R t' uri client' s1))) = Taken None"
proof -
  let ?k = "PAR_KEY_PREFIX @ reference"
  let ?doc = "PDict [(''client_id'', PStr client), (''parameters'', PDict p)]"
  have push: "uri = REQUEST_URI_PREFIX @ reference" "s1 = r_set R t ?k ?doc (at_least_one ttl) s" "life = at_least_one ttl"
    using assms(2) by (auto simp: par_push_def)
  have consume: "fst (par_consume R t' uri c z) = (case fst (r_getdel R t' ?k z) of None \<Rightarrow> Taken None | Some doc \<Rightarrow> par_record c doc)"
    "snd (par_consume R t' uri c z) = snd (r_getdel R t' ?k z)" for c z
    by (simp_all add: par_consume_def push(1) starts_with_def Let_def split: prod.splits option.splits)
  have "fst (r_getdel R t' ?k s1) = Some ?doc"
    using redis_server.set_read[OF assms(1) at_least_one_pos assms(3), of ttl ?k ?doc s] assms(4)
    by (simp add: redis_server.getdel(1)[OF assms(1)] redis_server.get[OF assms(1)] push)
  moreover have "fst (r_getdel R t' ?k (snd (r_getdel R t' ?k s1))) = None"
    using redis_server.getdel_once[OF assms(1), of t' ?k s1 _ _ t'] by (metis order_refl prod.collapse)
  ultimately show ?thesis by (simp add: consume par_record_def)
qed

theorem par_bound_to_client_witness:
  "\<exists>s1. par_push mem_redis 0 PAR_TTL ''ref'' ''rp'' [(''scope'', PStr ''openid'')] (\<lambda>k. None) = ((REQUEST_URI_PREFIX @ ''ref'', 90), s1) \<and>
     fst (par_consume mem_redis 100 (REQUEST_URI_PREFIX @ ''ref'') ''rp'' s1) = Taken (Some [(''scope'', PStr ''openid'')]) \<and>
     fst (par_consume mem_redis 100 (REQUEST_URI_PREFIX @ ''ref'') ''rp'' (snd (par_consume mem_redis 100 (REQUEST_URI_PREFIX @ ''ref'') ''other'' s1))) = Taken None"
proof -
  obtain s1 where s1: "par_push mem_redis 0 PAR_TTL ''ref'' ''rp'' [(''scope'', PStr ''openid'')] (\<lambda>k. None) = ((REQUEST_URI_PREFIX @ ''ref'', 90), s1)"
    by (simp add: par_push_def at_least_one_def PAR_TTL_def)
  show ?thesis
    using s1 par_bound_to_client[OF mem.redis_server_axioms s1, of 100 "''rp''" "''rp''"]
      par_bound_to_client[OF mem.redis_server_axioms s1, of 100 "''other''" "''rp''"] by simp
qed

text \<open>Two polls that ask before either has settled both report the approval: it elevates two sessions.\<close>

theorem push_approved_twice:
  "case push_send mem_redis 0 PUSH_WINDOW (Answer (Some ''q1'')) ''p1'' (\<lambda>k. None) of (request, s) \<Rightarrow>
     request = Some ''q1'' \<and> push_bound mem_redis 5 ''p1'' ''q1'' s \<and> push_bound mem_redis 6 ''p1'' ''q1'' s \<and>
     (case push_settle mem_redis 7 (Answer (Some APPROVED)) ''q1'' s of (first, s1) \<Rightarrow>
        first = APPROVED \<and> fst (push_settle mem_redis 8 (Answer (Some APPROVED)) ''q1'' s1) = APPROVED \<and>
        fst (push_outcome mem_redis 9 9 (Answer (Some APPROVED)) ''p1'' ''q1'' s1) = EXPIRED)"
  by (simp add: push_send_def push_bound_def push_settle_def push_outcome_def mem_redis_ops text_of_def deadline_def PUSH_WINDOW_def)

end
