(* ===== verification/RateLimits.thy ===== *)
theory RateLimits
  imports Redis Complex_Main
begin

text \<open>
  The two limiters: the lock after too many wrong second factors (\<open>mfa/ratelimit.py\<close>) and the sliding
  count of attempts at the authentication endpoints (\<open>security/throttle.py\<close>).  A server that stops
  answering is an argument: how many commands of the call it still server_up.
\<close>

section \<open>Wrong second factors\<close>

definition ATTEMPTS_PREFIX :: string where "ATTEMPTS_PREFIX = ''mfa:attempts:''"
definition LOCK_PREFIX :: string where "LOCK_PREFIX = ''mfa:lock:''"
definition THRESHOLD :: nat where "THRESHOLD = 5"
definition WINDOW :: nat where "WINDOW = 900"
definition LOCKOUT :: nat where "LOCKOUT = 900"

datatype limit_reason = LOCKED | LIMITER_UNAVAILABLE

datatype rate_limited = RateLimited limit_reason int

record failure =
  fl_attempts :: nat
  fl_locked :: bool

record 's attempt_limiter =
  al_redis :: "'s redis"
  al_threshold :: nat
  al_window :: nat
  al_lockout :: nat

definition attempts_key :: "string \<Rightarrow> string \<Rightarrow> string" where
  "attempts_key person kind = ATTEMPTS_PREFIX @ kind @ '':'' @ person"

definition lock_key :: "string \<Rightarrow> string \<Rightarrow> string" where
  "lock_key person kind = LOCK_PREFIX @ kind @ '':'' @ person"

text \<open>\<open>server_up n i\<close>: the server server_up command number \<open>i\<close> of the call.\<close>

definition server_up :: "nat option \<Rightarrow> nat \<Rightarrow> bool" where
  "server_up outage i = (case outage of None \<Rightarrow> True | Some n \<Rightarrow> i < n)"

definition unavailable :: "'s attempt_limiter \<Rightarrow> rate_limited" where
  "unavailable L = RateLimited LIMITER_UNAVAILABLE (int (al_lockout L))"

definition limiter_check :: "'s attempt_limiter \<Rightarrow> nat option \<Rightarrow> time \<Rightarrow> string \<Rightarrow> string \<Rightarrow> 's \<Rightarrow> (rate_limited, unit) result" where
  "limiter_check L outage t person kind s =
     (if \<not> server_up outage 0 then Err (unavailable L)
      else (let remaining = r_ttl (al_redis L) t (lock_key person kind) s in
            if remaining > 0 then Err (RateLimited LOCKED remaining) else Ok ()))"

definition record_failure ::
  "'s attempt_limiter \<Rightarrow> nat option \<Rightarrow> time \<Rightarrow> string \<Rightarrow> string \<Rightarrow> 's \<Rightarrow> (rate_limited, failure) result \<times> 's" where
  "record_failure L outage t person kind s =
     (let key = attempts_key person kind in
      if \<not> server_up outage 0 then (Err (unavailable L), s)
      else (let (attempts, s1) = r_incr (al_redis L) t key s;
                i = (if attempts = 1 then 2 else 1) in
        if attempts = 1 \<and> \<not> server_up outage 1 then (Err (unavailable L), s1)
        else (let s2 = (if attempts = 1 then r_expire (al_redis L) t key (al_window L) s1 else s1) in
          if attempts < al_threshold L then (Ok \<lparr>fl_attempts = attempts, fl_locked = False\<rparr>, s2)
          else if \<not> server_up outage i then (Err (unavailable L), s2)
          else (let s3 = r_set (al_redis L) t (lock_key person kind) (PStr ''1'') (al_lockout L) s2 in
            if \<not> server_up outage (Suc i) then (Err (unavailable L), s3)
            else (Ok \<lparr>fl_attempts = attempts, fl_locked = True\<rparr>, r_delete (al_redis L) t key s3)))))"

definition record_success :: "'s attempt_limiter \<Rightarrow> nat option \<Rightarrow> time \<Rightarrow> string \<Rightarrow> string \<Rightarrow> 's \<Rightarrow> 's" where
  "record_success L outage t person kind s =
     (if server_up outage 0 then r_delete (al_redis L) t (attempts_key person kind) s else s)"

definition limiter_clear :: "'s attempt_limiter \<Rightarrow> time \<Rightarrow> string \<Rightarrow> string \<Rightarrow> 's \<Rightarrow> 's" where
  "limiter_clear L t person kind s =
     r_delete (al_redis L) t (attempts_key person kind) (r_delete (al_redis L) t (lock_key person kind) s)"

definition limiter_locked :: "'s attempt_limiter \<Rightarrow> time \<Rightarrow> string \<Rightarrow> string \<Rightarrow> 's \<Rightarrow> int" where
  "limiter_locked L t person kind s = max 0 (r_ttl (al_redis L) t (lock_key person kind) s)"

text \<open>Failures at a list of times, while the server server_up.\<close>

fun record_failures ::
  "'s attempt_limiter \<Rightarrow> time list \<Rightarrow> string \<Rightarrow> string \<Rightarrow> 's \<Rightarrow> (rate_limited, failure) result list \<times> 's" where
  "record_failures L [] person kind s = ([], s)"
| "record_failures L (t # ts) person kind s =
     (let (r, s1) = record_failure L None t person kind s; (rs, s2) = record_failures L ts person kind s1 in (r # rs, s2))"

section \<open>Attempts at an endpoint\<close>

text \<open>Moments are rational; the code computes with floats.\<close>

definition THROTTLE_PREFIX :: string where "THROTTLE_PREFIX = ''throttle:''"
definition PER_ADDRESS :: nat where "PER_ADDRESS = 10"
definition PER_ACCOUNT :: nat where "PER_ACCOUNT = 5"
definition WINDOW_SECONDS :: nat where "WINDOW_SECONDS = 60"

datatype bucket = ADDRESS | ACCOUNT

datatype throttle_reason = THROTTLED | THROTTLE_UNAVAILABLE

datatype throttled = Throttled throttle_reason bucket int

record 's throttle =
  th_redis :: "'s redis"
  th_digest :: "string \<Rightarrow> string"
  th_per_address :: nat
  th_per_account :: nat
  th_window :: nat

definition bucket_name :: "bucket \<Rightarrow> string" where
  "bucket_name b = (case b of ADDRESS \<Rightarrow> ''ip'' | ACCOUNT \<Rightarrow> ''account'')"

definition decimal :: "int \<Rightarrow> string" where
  "decimal i = (if i < 0 then CHR ''-'' # show_nat (nat (- i)) else show_nat (nat i))"

definition throttle_key :: "'s throttle \<Rightarrow> bucket \<Rightarrow> string \<Rightarrow> int \<Rightarrow> string" where
  "throttle_key T b value window = THROTTLE_PREFIX @ bucket_name b @ '':'' @ take 32 (th_digest T value) @ '':'' @ decimal window"

definition ceiling_of :: "'s throttle \<Rightarrow> bucket \<Rightarrow> nat" where
  "ceiling_of T b = (case b of ADDRESS \<Rightarrow> th_per_address T | ACCOUNT \<Rightarrow> th_per_account T)"

definition window_of :: "'s throttle \<Rightarrow> rat \<Rightarrow> int" where
  "window_of T moment = \<lfloor>moment / of_nat (th_window T)\<rfloor>"

definition into_window :: "'s throttle \<Rightarrow> rat \<Rightarrow> rat" where
  "into_window T moment = moment - of_int (window_of T moment) * of_nat (th_window T)"

definition throttle_count :: "'s throttle \<Rightarrow> bucket \<Rightarrow> time \<Rightarrow> rat \<Rightarrow> string \<Rightarrow> 's \<Rightarrow> rat \<times> 's" where
  "throttle_count T b t moment value s =
     (let current = window_of T moment; elapsed = into_window T moment / of_nat (th_window T);
          key = throttle_key T b value current; (count, s1) = r_incr (th_redis T) t key s;
          s2 = (if count = 1 then r_expire (th_redis T) t key (th_window T * 2) s1 else s1);
          previous = (case r_get (th_redis T) t (throttle_key T b value (current - 1)) s2 of Some (PInt i) \<Rightarrow> i | _ \<Rightarrow> 0) in
      (of_nat count + of_int previous * (1 - elapsed), s2))"

definition retry_after :: "'s throttle \<Rightarrow> rat \<Rightarrow> int" where
  "retry_after T moment = max 1 \<lfloor>of_nat (th_window T) - into_window T moment\<rfloor>"

text \<open>\<open>check\<close> counts each bucket that has a value, remembers the first refusal, and raises it at the end.
  \<open>up\<close> tells for each bucket whether the server answers.\<close>

definition throttle_bucket ::
  "'s throttle \<Rightarrow> (bucket \<Rightarrow> bool) \<Rightarrow> time \<Rightarrow> rat \<Rightarrow> bucket \<Rightarrow> string option \<Rightarrow> throttled option \<times> 's \<Rightarrow> (throttled, throttled option \<times> 's) result" where
  "throttle_bucket T up t moment b v acc = (case v of
       None \<Rightarrow> Ok acc
     | Some value \<Rightarrow>
         if value = '''' then Ok acc
         else if \<not> up b then Err (Throttled THROTTLE_UNAVAILABLE b (int (th_window T)))
         else (let (used, s') = throttle_count T b t moment value (snd acc) in
           Ok (if of_nat (ceiling_of T b) < used \<and> fst acc = None
               then Some (Throttled THROTTLED b (retry_after T moment)) else fst acc, s')))"

definition throttle_check ::
  "'s throttle \<Rightarrow> (bucket \<Rightarrow> bool) \<Rightarrow> time \<Rightarrow> rat \<Rightarrow> string option \<Rightarrow> string option \<Rightarrow> 's \<Rightarrow> (throttled, unit) result \<times> 's" where
  "throttle_check T up t moment address account s =
     (case throttle_bucket T up t moment ADDRESS address (None, s) of
        Inl e \<Rightarrow> (Err e, s)
      | Inr (r1, s1) \<Rightarrow> (case throttle_bucket T up t moment ACCOUNT account (r1, s1) of
          Inl e \<Rightarrow> (Err e, s1)
        | Inr (None, s2) \<Rightarrow> (Ok (), s2)
        | Inr (Some e, s2) \<Rightarrow> (Err e, s2)))"

section \<open>Locking\<close>

lemma limiter_keys_apart [simp]: "attempts_key p k \<noteq> lock_key p' k'" "lock_key p' k' \<noteq> attempts_key p k"
  by (simp_all add: attempts_key_def lock_key_def ATTEMPTS_PREFIX_def LOCK_PREFIX_def)

lemma server_up_always [simp]: "server_up None i"
  by (simp add: server_up_def)

locale limiter_on_redis = redis_server "al_redis L" visible
  for L :: "'s attempt_limiter" and visible :: "time \<Rightarrow> 's \<Rightarrow> keyspace" +
  assumes window_pos: "0 < al_window L" and lockout_pos: "0 < al_lockout L"
begin

lemma failure_first:
  assumes "visible t s (attempts_key p k) = None" and "1 < al_threshold L"
  shows "\<exists>s'. record_failure L None t p k s = (Ok \<lparr>fl_attempts = 1, fl_locked = False\<rparr>, s') \<and>
     visible t s' (attempts_key p k) = Some (RVal (PInt 1), Some (t + 1000 * al_window L))"
proof -
  let ?key = "attempts_key p k"
  have i: "fst (r_incr (al_redis L) t ?key s) = 1"
    "visible t (snd (r_incr (al_redis L) t ?key s)) ?key = Some (RVal (PInt 1), None)"
    using assms(1) by (simp_all add: incr count_of_def text_of_def expiry_of_def)
  obtain s1 where s1: "r_incr (al_redis L) t ?key s = (1, s1)" using i(1) by (metis prod.collapse)
  then show ?thesis
    using i(2) assms(2) window_pos by (simp add: record_failure_def Let_def expire deadline_def)
qed

lemma failure_next:
  assumes "visible t s (attempts_key p k) = Some (RVal (PInt (int n)), Some y)" and "0 < n" and "Suc n < al_threshold L"
  shows "\<exists>s'. record_failure L None t p k s = (Ok \<lparr>fl_attempts = Suc n, fl_locked = False\<rparr>, s') \<and>
     visible t s' (attempts_key p k) = Some (RVal (PInt (int (Suc n))), Some y)"
proof -
  let ?key = "attempts_key p k"
  obtain s1 where s1: "r_incr (al_redis L) t ?key s = (Suc n, s1)" "visible t s1 ?key = Some (RVal (PInt (int (Suc n))), Some y)"
    using assms(1) incr[of t ?key s] by (cases "r_incr (al_redis L) t ?key s") (simp add: count_of_def text_of_def expiry_of_def)
  then show ?thesis using assms(2,3) by (simp add: record_failure_def Let_def)
qed

lemma failure_locks:
  assumes "count_of (visible t s (attempts_key p k)) = n" and "al_threshold L \<le> Suc n"
  shows "\<exists>s'. record_failure L None t p k s = (Ok \<lparr>fl_attempts = Suc n, fl_locked = True\<rparr>, s') \<and>
     visible t s' (attempts_key p k) = None \<and> visible t s' (lock_key p k) = Some (RVal (PStr ''1''), deadline t (al_lockout L))"
proof -
  let ?key = "attempts_key p k"
  obtain s1 where s1: "r_incr (al_redis L) t ?key s = (Suc n, s1)"
    using assms(1) incr(1)[of t ?key s] by (cases "r_incr (al_redis L) t ?key s") simp
  then show ?thesis
    using assms(2) lockout_pos by (cases "n = 0") (simp_all add: record_failure_def Let_def delete set)
qed

lemma still_there:
  "t \<le> t' \<Longrightarrow> visible t s k = Some (v, Some y) \<Longrightarrow> t' < y \<Longrightarrow> visible t' s k = Some (v, Some y)"
  by (simp add: later[of t t'] unexpired_def alive_def)

lemma lock_refuses:
  assumes "visible t s (lock_key p k) = Some (v, deadline t (al_lockout L))" and "t \<le> t'" and "t' + 500 \<le> t + 1000 * al_lockout L"
  shows "\<exists>r > 0. limiter_check L None t' p k s = Err (RateLimited LOCKED r)"
proof -
  have "visible t' s (lock_key p k) = Some (v, Some (t + 1000 * al_lockout L))"
    using assms by (intro still_there[OF assms(2)]) (simp_all add: deadline_def)
  moreover have "0 < (int (t + 1000 * al_lockout L) - int t' + 500) div 1000" using assms(3) by linarith
  ultimately show ?thesis by (simp add: limiter_check_def ttl ttl_of_def)
qed

text \<open>The threshold reached inside one window: every failure is counted and the last one locks.\<close>

lemma failures_lock:
  "visible t s (attempts_key p k) = Some (RVal (PInt (int n)), Some y) \<Longrightarrow> 0 < n \<Longrightarrow> n + length ts = al_threshold L \<Longrightarrow> ts \<noteq> [] \<Longrightarrow>
     sorted (t # ts) \<Longrightarrow> last ts < y \<Longrightarrow>
   \<exists>rs s'. record_failures L ts p k s = (rs, s') \<and>
     rs = map (\<lambda>i. Ok \<lparr>fl_attempts = i, fl_locked = (i = al_threshold L)\<rparr>) [Suc n..<Suc (al_threshold L)] \<and>
     visible (last ts) s' (lock_key p k) = Some (RVal (PStr ''1''), deadline (last ts) (al_lockout L))"
proof (induction ts arbitrary: t s n)
  case Nil
  then show ?case by simp
next
  case (Cons u us)
  have "u \<le> last (u # us)" using Cons.prems(5) by (cases us) auto
  then have v: "visible u s (attempts_key p k) = Some (RVal (PInt (int n)), Some y)"
    using Cons.prems(5,6) by (intro still_there[OF _ Cons.prems(1)]) simp_all
  show ?case
  proof (cases us)
    case Nil
    have "count_of (visible u s (attempts_key p k)) = n" using v by (simp add: count_of_def text_of_def)
    then obtain s' where "record_failure L None u p k s = (Ok \<lparr>fl_attempts = Suc n, fl_locked = True\<rparr>, s')"
        "visible u s' (lock_key p k) = Some (RVal (PStr ''1''), deadline u (al_lockout L))"
      using failure_locks[of u s p k n] Cons.prems(3) Nil by auto
    then show ?thesis using Nil Cons.prems(3) by (simp add: Let_def)
  next
    case (Cons w ws)
    then have lt: "Suc n < al_threshold L" using Cons.prems(3) by simp
    obtain s1 where s1: "record_failure L None u p k s = (Ok \<lparr>fl_attempts = Suc n, fl_locked = False\<rparr>, s1)"
        "visible u s1 (attempts_key p k) = Some (RVal (PInt (int (Suc n))), Some y)"
      using failure_next[OF v Cons.prems(2) lt] by blast
    obtain rs s' where r: "record_failures L us p k s1 = (rs, s')"
        "rs = map (\<lambda>i. Ok \<lparr>fl_attempts = i, fl_locked = (i = al_threshold L)\<rparr>) [Suc (Suc n)..<Suc (al_threshold L)]"
        "visible (last us) s' (lock_key p k) = Some (RVal (PStr ''1''), deadline (last us) (al_lockout L))"
      using Cons.IH[OF s1(2)] Cons.prems Cons by auto
    have "[Suc n..<Suc (al_threshold L)] = Suc n # [Suc (Suc n)..<Suc (al_threshold L)]" using lt by (intro upt_conv_Cons) simp
    then show ?thesis using s1(1) r lt Cons by (simp add: Let_def)
  qed
qed

lemma lockout_reached:
  assumes "visible t s (attempts_key p k) = None" and "1 < al_threshold L" and "Suc (length ts) = al_threshold L"
    and "sorted (t # ts)" and "last ts < t + 1000 * al_window L"
  shows "\<exists>s'. record_failures L (t # ts) p k s =
      (map (\<lambda>i. Ok \<lparr>fl_attempts = i, fl_locked = (i = al_threshold L)\<rparr>) [1..<Suc (al_threshold L)], s') \<and>
     visible (last ts) s' (lock_key p k) = Some (RVal (PStr ''1''), deadline (last ts) (al_lockout L))"
proof -
  obtain s1 where s1: "record_failure L None t p k s = (Ok \<lparr>fl_attempts = 1, fl_locked = False\<rparr>, s1)"
      "visible t s1 (attempts_key p k) = Some (RVal (PInt (int 1)), Some (t + 1000 * al_window L))"
    using failure_first[OF assms(1,2)] by auto
  have "\<exists>rs s'. record_failures L ts p k s1 = (rs, s') \<and>
     rs = map (\<lambda>i. Ok \<lparr>fl_attempts = i, fl_locked = (i = al_threshold L)\<rparr>) [Suc 1..<Suc (al_threshold L)] \<and>
     visible (last ts) s' (lock_key p k) = Some (RVal (PStr ''1''), deadline (last ts) (al_lockout L))"
    using assms by (intro failures_lock[OF s1(2)]) auto
  moreover have "[1..<Suc (al_threshold L)] = 1 # [Suc 1..<Suc (al_threshold L)]" using assms(2) by (intro upt_conv_Cons) simp
  ultimately show ?thesis using s1(1) assms(2) by (auto simp: Let_def)
qed

end

section \<open>Properties of the lock\<close>

definition sample_limiter :: "keyspace attempt_limiter" where
  "sample_limiter = \<lparr>al_redis = mem_redis, al_threshold = THRESHOLD, al_window = WINDOW, al_lockout = LOCKOUT\<rparr>"

lemma sample_limiter_sel [simp]:
  "al_redis sample_limiter = mem_redis" "al_threshold sample_limiter = 5" "al_window sample_limiter = 900" "al_lockout sample_limiter = 900"
  by (simp_all add: sample_limiter_def THRESHOLD_def WINDOW_def LOCKOUT_def)

interpretation mem_limiter: limiter_on_redis sample_limiter unexpired
proof -
  have "limiter_on_redis_axioms sample_limiter" by standard simp_all
  then show "limiter_on_redis sample_limiter unexpired" using mem.redis_server_axioms by (simp add: limiter_on_redis_def)
qed

text \<open>As many failures as the threshold inside one window lock: each is counted, the last one reports the lock,
  and from then on every attempt is refused until half a second before the lockout ends.\<close>

theorem failures_lock_out:
  assumes "limiter_on_redis L visible" and "visible t s (attempts_key p k) = None" and "1 < al_threshold L"
    and "Suc (length ts) = al_threshold L" and "sorted (t # ts)" and "last ts < t + 1000 * al_window L"
    and "last ts \<le> t'" and "t' + 500 \<le> last ts + 1000 * al_lockout L"
  shows "case record_failures L (t # ts) p k s of (rs, s') \<Rightarrow>
     rs = map (\<lambda>i. Ok \<lparr>fl_attempts = i, fl_locked = (i = al_threshold L)\<rparr>) [1..<Suc (al_threshold L)] \<and>
     (\<exists>r > 0. limiter_check L None t' p k s' = Err (RateLimited LOCKED r))"
proof -
  obtain s' where "record_failures L (t # ts) p k s =
      (map (\<lambda>i. Ok \<lparr>fl_attempts = i, fl_locked = (i = al_threshold L)\<rparr>) [1..<Suc (al_threshold L)], s')"
      "visible (last ts) s' (lock_key p k) = Some (RVal (PStr ''1''), deadline (last ts) (al_lockout L))"
    using limiter_on_redis.lockout_reached[OF assms(1-6)] by blast
  then show ?thesis using limiter_on_redis.lock_refuses[OF assms(1) _ assms(7,8)] by auto
qed

theorem failures_lock_out_witness:
  "case record_failures sample_limiter [0, 1000, 2000, 3000, 4000] ''p1'' ''totp'' (\<lambda>k. None) of (rs, s') \<Rightarrow>
     length rs = 5 \<and> (\<exists>r > 0. limiter_check sample_limiter None 500000 ''p1'' ''totp'' s' = Err (RateLimited LOCKED r))"
  using failures_lock_out[OF mem_limiter.limiter_on_redis_axioms, of 0 "\<lambda>k. None" "''p1''" "''totp''" "[1000, 2000, 3000, 4000]" 500000]
  by (auto split: prod.splits)

lemma four_failures:
  assumes "unexpired t s (attempts_key p k) = None"
  shows "\<exists>s'. record_failures sample_limiter [t, t, t, t] p k s = (map (\<lambda>i. Ok \<lparr>fl_attempts = i, fl_locked = False\<rparr>) [1, 2, 3, 4], s') \<and>
     unexpired (t + 900000) s' (attempts_key p k) = None"
proof -
  let ?k = "attempts_key p k" and ?e = "\<lambda>n. Some (RVal (PInt n), Some (t + 900000))"
  obtain s1 where s1: "record_failure sample_limiter None t p k s = (Ok \<lparr>fl_attempts = 1, fl_locked = False\<rparr>, s1)" "unexpired t s1 ?k = ?e 1"
    using mem_limiter.failure_first[OF assms] by auto
  obtain s2 where s2: "record_failure sample_limiter None t p k s1 = (Ok \<lparr>fl_attempts = 2, fl_locked = False\<rparr>, s2)" "unexpired t s2 ?k = ?e 2"
    using mem_limiter.failure_next[of t s1 p k 1] s1(2) by auto
  obtain s3 where s3: "record_failure sample_limiter None t p k s2 = (Ok \<lparr>fl_attempts = 3, fl_locked = False\<rparr>, s3)" "unexpired t s3 ?k = ?e 3"
    using mem_limiter.failure_next[of t s2 p k 2] s2(2) by auto
  obtain s4 where s4: "record_failure sample_limiter None t p k s3 = (Ok \<lparr>fl_attempts = 4, fl_locked = False\<rparr>, s4)" "unexpired t s4 ?k = ?e 4"
    using mem_limiter.failure_next[of t s3 p k 3] s3(2) by auto
  have "unexpired (t + 900000) s4 ?k = None"
    using s4(2) mem.later[of t "t + 900000" s4] by (simp add: unexpired_def alive_def)
  then show ?thesis using s1(1) s2(1) s3(1) s4(1) by (simp add: Let_def)
qed

fun paced :: "nat \<Rightarrow> time \<Rightarrow> time list" where
  "paced 0 t = []"
| "paced (Suc n) t = [t, t, t, t] @ paced n (t + 900000)"

lemma record_failures_append:
  "record_failures L (ts @ us) p k s = (let (rs, s1) = record_failures L ts p k s; (rs', s2) = record_failures L us p k s1 in (rs @ rs', s2))"
  by (induction ts arbitrary: s) (simp_all add: Let_def split: prod.splits)

text \<open>Four failures in every fifteen minutes never lock, however long they go on: the counter is gone when
  the next four begin.\<close>

theorem paced_guessing_never_locks:
  "length (paced n 0) = 4 * n \<and>
   list_all (\<lambda>r. case r of Inr f \<Rightarrow> \<not> fl_locked f | Inl e \<Rightarrow> False) (fst (record_failures sample_limiter (paced n 0) p k (\<lambda>k. None)))"
proof -
  have "length (paced n t) = 4 * n" for t by (induction n arbitrary: t) simp_all
  moreover have "list_all (\<lambda>r. case r of Inr f \<Rightarrow> \<not> fl_locked f | Inl e \<Rightarrow> False) (fst (record_failures sample_limiter (paced n t) p k s))"
    if "unexpired t s (attempts_key p k) = None" for t s
    using that
  proof (induction n arbitrary: t s)
    case 0
    then show ?case by simp
  next
    case (Suc n)
    obtain s' where "record_failures sample_limiter [t, t, t, t] p k s = (map (\<lambda>i. Ok \<lparr>fl_attempts = i, fl_locked = False\<rparr>) [1, 2, 3, 4], s')"
        "unexpired (t + 900000) s' (attempts_key p k) = None"
      using four_failures[OF Suc.prems] by blast
    then show ?case
      using Suc.IH[of "t + 900000" s'] record_failures_append[of sample_limiter "[t, t, t, t]" "paced n (t + 900000)" p k s]
      by (simp add: Let_def split: prod.splits)
  qed
  ultimately show ?thesis by simp
qed

text \<open>An outage between counting the first failure and giving the counter its window leaves a counter that
  never expires: four more failures, a year apart, lock the person out.\<close>

theorem counter_without_window:
  "case record_failure sample_limiter (Some 1) 0 ''p1'' ''totp'' (\<lambda>k. None) of (r, s) \<Rightarrow>
     r = Err (RateLimited LIMITER_UNAVAILABLE 900) \<and>
     fst (record_failures sample_limiter [31536000000, 63072000000, 94608000000, 126144000000] ''p1'' ''totp'' s) =
       map (\<lambda>i. Ok \<lparr>fl_attempts = i, fl_locked = (i = 5)\<rparr>) [2, 3, 4, 5]"
  by (simp add: record_failure_def mem_redis_ops server_up_def unavailable_def count_of_def text_of_def expiry_of_def Let_def)

section \<open>Properties of the throttle\<close>

definition sample_throttle :: "keyspace throttle" where
  "sample_throttle = \<lparr>th_redis = mem_redis, th_digest = id, th_per_address = PER_ADDRESS, th_per_account = PER_ACCOUNT, th_window = WINDOW_SECONDS\<rparr>"

lemma sample_throttle_sel [simp]:
  "th_redis sample_throttle = mem_redis" "th_digest sample_throttle = id" "th_per_address sample_throttle = 10"
  "th_per_account sample_throttle = 5" "th_window sample_throttle = 60"
  by (simp_all add: sample_throttle_def PER_ADDRESS_def PER_ACCOUNT_def WINDOW_SECONDS_def)

text \<open>Attempts from one address, each at a server time and a moment.\<close>

fun throttle_run :: "'s throttle \<Rightarrow> (time \<times> rat) list \<Rightarrow> string \<Rightarrow> 's \<Rightarrow> (throttled, unit) result list \<times> 's" where
  "throttle_run T [] a s = ([], s)"
| "throttle_run T ((t, m) # ms) a s =
     (let (r, s1) = throttle_check T (\<lambda>b. True) t m (Some a) None s; (rs, s2) = throttle_run T ms a s1 in (r # rs, s2))"

lemma throttle_run_append:
  "throttle_run T (ms @ ns) a s = (let (rs, s1) = throttle_run T ms a s; (rs', s2) = throttle_run T ns a s1 in (rs @ rs', s2))"
  by (induction ms arbitrary: s) (auto simp: Let_def split: prod.splits)

definition admitted :: "(throttled, unit) result list \<Rightarrow> nat" where
  "admitted rs = length (filter (\<lambda>r. r = Ok ()) rs)"

lemma admitted_Cons:
  "throttle_check T (\<lambda>b. True) t m (Some a) None s = (r, s1) \<Longrightarrow>
     admitted (fst (throttle_run T ((t, m) # ms) a s)) = (if r = Ok () then 1 else 0) + admitted (fst (throttle_run T ms a s1))"
  by (simp add: admitted_def Let_def case_prod_beta)

locale throttle_on_redis = redis_server "th_redis T" visible
  for T :: "'s throttle" and visible :: "time \<Rightarrow> 's \<Rightarrow> keyspace" +
  assumes window_pos: "0 < th_window T"
begin

lemma into_window_bounds: "0 \<le> into_window T m" "into_window T m < of_nat (th_window T)"
proof -
  let ?w = "of_nat (th_window T) :: rat"
  have w: "0 < ?w" using window_pos by simp
  have "of_int \<lfloor>m / ?w\<rfloor> \<le> m / ?w" "m / ?w < of_int \<lfloor>m / ?w\<rfloor> + 1" by linarith+
  then have "of_int \<lfloor>m / ?w\<rfloor> * ?w \<le> m" "m < (of_int \<lfloor>m / ?w\<rfloor> + 1) * ?w" using w by (simp_all add: le_divide_eq divide_less_eq)
  then show "0 \<le> into_window T m" "into_window T m < ?w" by (simp_all add: into_window_def window_of_def algebra_simps)
qed

text \<open>The count of the last window, when there is one, is not negative.\<close>

definition no_debt :: "time \<Rightarrow> string \<Rightarrow> 's \<Rightarrow> int \<Rightarrow> bool" where
  "no_debt t a s w = (\<forall>i. text_of (visible t s (throttle_key T ADDRESS a w)) = Some (PInt i) \<longrightarrow> 0 \<le> i)"

lemma throttle_charged:
  assumes "a \<noteq> ''''" and "throttle_check T (\<lambda>b. True) t m (Some a) None s = (r, s')"
  shows "visible t s' (throttle_key T ADDRESS a (window_of T m)) =
      Some (RVal (PInt (int (Suc (count_of (visible t s (throttle_key T ADDRESS a (window_of T m))))))),
        if count_of (visible t s (throttle_key T ADDRESS a (window_of T m))) = 0 then deadline t (th_window T * 2)
        else expiry_of (visible t s (throttle_key T ADDRESS a (window_of T m))))"
    and "k \<noteq> throttle_key T ADDRESS a (window_of T m) \<Longrightarrow> visible t s' k = visible t s k"
    and "r = Ok () \<Longrightarrow> no_debt t a s' (window_of T m - 1) \<Longrightarrow>
      Suc (count_of (visible t s (throttle_key T ADDRESS a (window_of T m)))) \<le> th_per_address T"
proof -
  let ?k = "throttle_key T ADDRESS a (window_of T m)" and ?p = "throttle_key T ADDRESS a (window_of T m - 1)"
  obtain c s1 where i: "r_incr (th_redis T) t ?k s = (c, s1)" by fastforce
  then have c: "c = Suc (count_of (visible t s ?k))"
    and v1: "visible t s1 = (visible t s)(?k \<mapsto> (RVal (PInt (int c)), expiry_of (visible t s ?k)))"
    using incr[of t ?k s] by simp_all
  let ?s2 = "if c = 1 then r_expire (th_redis T) t ?k (th_window T * 2) s1 else s1"
  let ?prev = "case r_get (th_redis T) t ?p ?s2 of Some (PInt i) \<Rightarrow> i | _ \<Rightarrow> 0"
  let ?used = "of_nat c + of_int ?prev * (1 - into_window T m / of_nat (th_window T)) :: rat"
  have n: "throttle_count T ADDRESS t m a s = (?used, ?s2)" by (simp add: throttle_count_def i Let_def)
  then have r: "s' = ?s2" "r = (if of_nat (th_per_address T) < ?used then Err (Throttled THROTTLED ADDRESS (retry_after T m)) else Ok ())"
    using assms by (auto simp: throttle_check_def throttle_bucket_def ceiling_of_def Let_def split: if_splits)
  show "visible t s' ?k = Some (RVal (PInt (int (Suc (count_of (visible t s ?k))))),
      if count_of (visible t s ?k) = 0 then deadline t (th_window T * 2) else expiry_of (visible t s ?k))"
    using v1 c window_pos by (simp add: r(1) expire)
  show "visible t s' k = visible t s k" if "k \<noteq> ?k" using that v1 window_pos by (simp add: r(1) expire)
  assume "r = Ok ()" and d: "no_debt t a s' (window_of T m - 1)"
  then have u: "?used \<le> of_nat (th_per_address T)" using r(2) by (simp split: if_splits)
  have "0 \<le> ?prev" using d by (auto simp: r(1) no_debt_def get split: option.splits pyval.splits)
  moreover have "0 \<le> 1 - into_window T m / of_nat (th_window T)"
    using into_window_bounds(2)[of m] window_pos by (simp add: divide_le_eq)
  ultimately have "0 \<le> of_int ?prev * (1 - into_window T m / of_nat (th_window T))" by (intro mult_nonneg_nonneg) simp_all
  then have "of_nat c \<le> (of_nat (th_per_address T) :: rat)" using u by linarith
  then show "Suc (count_of (visible t s ?k)) \<le> th_per_address T" using c by simp
qed

lemma no_debt_later: "no_debt t a s w \<Longrightarrow> t \<le> t' \<Longrightarrow> no_debt t' a s w"
  unfolding no_debt_def later[of t t' s] by (auto simp: unexpired_def text_of_def split: option.splits if_splits)

lemma window_keys_apart: "throttle_key T b a (w - 1) \<noteq> throttle_key T b a w"
proof -
  have "show_nat n \<noteq> CHR ''-'' # xs" for n xs
    using show_nat_digits[of n] by (auto simp: is_ascii_digit_def)
  then have "decimal (w - 1) \<noteq> decimal w"
    by (auto simp: decimal_def dest!: show_nat_inj split: if_splits) (metis)+
  then show ?thesis by (simp add: throttle_key_def)
qed

lemma run_bound:
  assumes "a \<noteq> ''''"
  shows "visible t s (throttle_key T ADDRESS a w) = Some (RVal (PInt (int n)), Some y) \<Longrightarrow> 0 < n \<Longrightarrow> sorted (t # map fst ms) \<Longrightarrow>
    list_all (\<lambda>(u, m). u < y \<and> window_of T m = w) ms \<Longrightarrow> no_debt t a s (w - 1) \<Longrightarrow>
    admitted (fst (throttle_run T ms a s)) \<le> th_per_address T - n"
proof (induction ms arbitrary: t s n)
  case Nil
  then show ?case by (simp add: admitted_def)
next
  case (Cons e ms)
  obtain u m where e: "e = (u, m)" by fastforce
  let ?k = "throttle_key T ADDRESS a w"
  have um: "t \<le> u" "u < y" "window_of T m = w" using Cons.prems(3,4) e by simp_all
  obtain r s1 where c: "throttle_check T (\<lambda>b. True) u m (Some a) None s = (r, s1)" by fastforce
  have "visible u s ?k = Some (RVal (PInt (int n)), Some y)"
    using Cons.prems(1) um by (simp add: later[OF um(1)] unexpired_def alive_def)
  then have count: "count_of (visible u s ?k) = n" "expiry_of (visible u s ?k) = Some y"
    by (simp_all add: count_of_def text_of_def expiry_of_def)
  have v1: "visible u s1 ?k = Some (RVal (PInt (int (Suc n))), Some y)"
    using throttle_charged(1)[OF assms c] count Cons.prems(2) um(3) by simp
  have debt: "no_debt u a s1 (w - 1)"
    using no_debt_later[OF Cons.prems(5) um(1)] throttle_charged(2)[OF assms c] um(3) window_keys_apart
    by (simp add: no_debt_def)
  have ih: "admitted (fst (throttle_run T ms a s1)) \<le> th_per_address T - Suc n"
    using Cons.prems(3,4) e by (intro Cons.IH[OF v1 _ _ _ debt]) auto
  show ?case
  proof (cases "r = Ok ()")
    case True
    then have "Suc n \<le> th_per_address T" using throttle_charged(3)[OF assms c] debt um(3) count(1) by simp
    then show ?thesis using ih True admitted_Cons[OF c] e by simp
  next
    case False
    then show ?thesis using ih admitted_Cons[OF c] e by simp
  qed
qed

lemma window_bound:
  assumes "a \<noteq> ''''" and "visible t s (throttle_key T ADDRESS a w) = None" and "no_debt t a s (w - 1)"
    and "sorted (t # map fst ms)" and "list_all (\<lambda>(u, m). u < t + 2000 * th_window T \<and> window_of T m = w) ((t, m) # ms)"
  shows "admitted (fst (throttle_run T ((t, m) # ms) a s)) \<le> th_per_address T"
proof -
  let ?k = "throttle_key T ADDRESS a w"
  obtain r s1 where c: "throttle_check T (\<lambda>b. True) t m (Some a) None s = (r, s1)" by fastforce
  have w: "window_of T m = w" using assms(5) by simp
  have count: "count_of (visible t s ?k) = 0" using assms(2) by (simp add: count_of_def text_of_def)
  have v1: "visible t s1 ?k = Some (RVal (PInt (int 1)), Some (t + 2000 * th_window T))"
    using throttle_charged(1)[OF assms(1) c] count w by (simp add: deadline_def)
  have debt: "no_debt t a s1 (w - 1)"
    using assms(3) throttle_charged(2)[OF assms(1) c] w window_keys_apart by (simp add: no_debt_def)
  have rest: "admitted (fst (throttle_run T ms a s1)) \<le> th_per_address T - 1"
    using assms(4,5) by (intro run_bound[OF assms(1) v1 _ _ _ debt]) auto
  show ?thesis
  proof (cases "r = Ok ()")
    case True
    then have "Suc 0 \<le> th_per_address T" using throttle_charged(3)[OF assms(1) c] debt w count by simp
    then show ?thesis using rest True admitted_Cons[OF c] by simp
  next
    case False
    then show ?thesis using rest admitted_Cons[OF c] by simp
  qed
qed

end

interpretation mem_throttle: throttle_on_redis sample_throttle unexpired
proof -
  have "throttle_on_redis_axioms sample_throttle" by standard simp
  then show "throttle_on_redis sample_throttle unexpired" using mem.redis_server_axioms by (simp add: throttle_on_redis_def)
qed

text \<open>C40. No more attempts of one address are admitted inside a window than its ceiling, whatever the window before
  it saw, while the server keeps the counter for the two windows it was told to.\<close>

theorem throttle_window_ceiling:
  assumes "throttle_on_redis T visible" and "a \<noteq> ''''" and "visible t s (throttle_key T ADDRESS a w) = None"
    and "\<And>i. text_of (visible t s (throttle_key T ADDRESS a (w - 1))) = Some (PInt i) \<Longrightarrow> 0 \<le> i"
    and "sorted (t # map fst ms)" and "list_all (\<lambda>(u, m). u < t + 2000 * th_window T \<and> window_of T m = w) ((t, m) # ms)"
  shows "admitted (fst (throttle_run T ((t, m) # ms) a s)) \<le> th_per_address T"
proof -
  have "throttle_on_redis.no_debt T visible t a s (w - 1)"
    using assms(4) by (simp add: throttle_on_redis.no_debt_def[OF assms(1)])
  then show ?thesis using throttle_on_redis.window_bound[OF assms(1-3) _ assms(5,6)] by blast
qed

theorem throttle_window_ceiling_witness:
  "admitted (fst (throttle_run sample_throttle (replicate 30 (1000, 1)) ''10.0.0.1'' (\<lambda>k. None))) \<le> 10"
proof -
  have r: "replicate 30 (1000, 1) = (1000, 1) # replicate 29 (1000 :: nat, 1 :: rat)" by (simp add: numeral_eq_Suc)
  have "list_all (\<lambda>(u, m). u < 1000 + 2000 * th_window sample_throttle \<and> window_of sample_throttle m = 0) ((1000, 1) # replicate 29 (1000 :: nat, 1))"
    by (simp add: list_all_iff window_of_def floor_eq_iff)
  then have "admitted (fst (throttle_run sample_throttle ((1000, 1) # replicate 29 (1000, 1)) ''10.0.0.1'' (\<lambda>k. None))) \<le> th_per_address sample_throttle"
    by (rule throttle_window_ceiling[OF mem_throttle.throttle_on_redis_axioms, rotated -1])
       (simp_all add: text_of_def sorted_replicate)
  then show ?thesis unfolding r by simp
qed

text \<open>A burst of attempts at one moment on the sample server.\<close>

definition carried :: "rat \<Rightarrow> int \<Rightarrow> rat" where
  "carried m prev = of_int prev * (1 - into_window sample_throttle m / 60)"

lemma sample_attempt:
  assumes "a \<noteq> ''''" and "unexpired t s (throttle_key sample_throttle ADDRESS a (window_of sample_throttle m)) = e" and "count_of e = n"
    and "(case text_of (unexpired t s (throttle_key sample_throttle ADDRESS a (window_of sample_throttle m - 1))) of Some (PInt i) \<Rightarrow> i | _ \<Rightarrow> 0) = prev"
  shows "throttle_check sample_throttle (\<lambda>b. True) t m (Some a) None s =
    (if 10 < of_nat (Suc n) + carried m prev then Err (Throttled THROTTLED ADDRESS (retry_after sample_throttle m)) else Ok (),
     s(throttle_key sample_throttle ADDRESS a (window_of sample_throttle m) \<mapsto>
       (RVal (PInt (int (Suc n))), if n = 0 then Some (t + 120000) else expiry_of e)))"
proof -
  let ?k = "throttle_key sample_throttle ADDRESS a (window_of sample_throttle m)"
  let ?p = "throttle_key sample_throttle ADDRESS a (window_of sample_throttle m - 1)"
  let ?s' = "s(?k \<mapsto> (RVal (PInt (int (Suc n))), if n = 0 then Some (t + 120000) else expiry_of e))"
  have al: "alive t (v, expiry_of e)" for v using alive_expiry[OF assms(2)] .
  have x: "unexpired t (s(?k \<mapsto> (v, expiry_of e))) ?k = Some (v, expiry_of e)" for v
    using al by (simp add: unexpired_def)
  have ne: "?p \<noteq> ?k" by (rule mem_throttle.window_keys_apart)
  then have p: "unexpired t (s(?k \<mapsto> e')) ?p = unexpired t s ?p" for e'
    by (simp add: unexpired_def)
  have "throttle_count sample_throttle ADDRESS t m a s = (of_nat (Suc n) + carried m prev, ?s')"
    using assms(2-4) x p ne
    by (cases "n = 0") (simp_all add: throttle_count_def mem_redis_ops Let_def carried_def deadline_def del: unexpired_upd)
  then show ?thesis using assms(1) by (simp add: throttle_check_def throttle_bucket_def ceiling_of_def)
qed

lemma sample_burst:
  assumes "a \<noteq> ''''" and "t < y" and "window_of sample_throttle m = w"
    and "(case text_of (unexpired t s (throttle_key sample_throttle ADDRESS a (w - 1))) of Some (PInt i) \<Rightarrow> i | _ \<Rightarrow> 0) = prev"
  shows "0 < n \<Longrightarrow> of_nat (n + j) + carried m prev \<le> 10 \<Longrightarrow>
    throttle_run sample_throttle (replicate j (t, m)) a (s(throttle_key sample_throttle ADDRESS a w \<mapsto> (RVal (PInt (int n)), Some y))) =
    (replicate j (Ok ()), s(throttle_key sample_throttle ADDRESS a w \<mapsto> (RVal (PInt (int (n + j))), Some y)))"
proof (induction j arbitrary: n)
  case 0
  then show ?case by simp
next
  case (Suc j)
  let ?k = "throttle_key sample_throttle ADDRESS a w" and ?e = "Some (RVal (PInt (int n)), Some y)"
  have "throttle_check sample_throttle (\<lambda>b. True) t m (Some a) None (s(?k := ?e)) =
      (if 10 < of_nat (Suc n) + carried m prev then Err (Throttled THROTTLED ADDRESS (retry_after sample_throttle m)) else Ok (),
       s(?k \<mapsto> (RVal (PInt (int (Suc n))), Some y)))"
    using sample_attempt[OF assms(1), of t "s(?k := ?e)" m ?e n prev] assms(2-4) Suc.prems(1) mem_throttle.window_keys_apart
    by (simp add: count_of_def text_of_def expiry_of_def)
  moreover have "\<not> 10 < of_nat (Suc n) + carried m prev" using Suc.prems(2) by simp
  ultimately have c: "throttle_check sample_throttle (\<lambda>b. True) t m (Some a) None (s(?k := ?e)) =
      (Ok (), s(?k \<mapsto> (RVal (PInt (int (Suc n))), Some y)))" by simp
  have ih: "throttle_run sample_throttle (replicate j (t, m)) a (s(?k \<mapsto> (RVal (PInt (int (Suc n))), Some y))) =
      (replicate j (Ok ()), s(?k \<mapsto> (RVal (PInt (int (Suc n + j))), Some y)))"
    using Suc.prems(2) by (intro Suc.IH) simp_all
  show ?case unfolding replicate_Suc throttle_run.simps c Let_def prod.case ih by (simp add: fun_upd_def)
qed

lemma sample_windows:
  "window_of sample_throttle 59 = 0" "window_of sample_throttle 90 = 1" "window_of sample_throttle 119 = 1" "window_of sample_throttle 120 = 2"
  "into_window sample_throttle 59 = 59" "into_window sample_throttle 90 = 30" "into_window sample_throttle 119 = 59" "into_window sample_throttle 120 = 0"
  by (simp_all add: window_of_def into_window_def floor_eq_iff)

text \<open>The sliding count lets through more than the ceiling inside a minute: ten attempts at the end of one window
  and five in the middle of the next, all admitted within thirty-one seconds.\<close>

theorem sliding_count_admits_more:
  "fst (throttle_run sample_throttle ((59000, 59) # replicate 9 (59000, 59) @ (90000, 90) # replicate 4 (90000, 90)) ''10.0.0.1'' (\<lambda>k. None)) =
     replicate 15 (Ok ())"
proof -
  let ?a = "''10.0.0.1''"
  let ?k = "\<lambda>w. throttle_key sample_throttle ADDRESS ?a w"
  let ?m1 = "(\<lambda>k. None)(?k 0 \<mapsto> (RVal (PInt 1), Some 179000))" and ?m2 = "(\<lambda>k. None)(?k 0 \<mapsto> (RVal (PInt 10), Some 179000))"
  have apart: "?k 1 \<noteq> ?k 0" "?k 0 \<noteq> ?k 1" using mem_throttle.window_keys_apart[of ADDRESS ?a 1] by auto
  have 1: "throttle_check sample_throttle (\<lambda>b. True) 59000 59 (Some ?a) None (\<lambda>k. None) = (Ok (), ?m1)"
    using sample_attempt[of ?a 59000 "\<lambda>k. None" 59 None 0 0]
    by (simp add: sample_windows carried_def count_of_def text_of_def)
  have 2: "throttle_run sample_throttle (replicate 9 (59000, 59)) ?a ?m1 = (replicate 9 (Ok ()), ?m2)"
    using sample_burst[of ?a 59000 179000 59 0 "\<lambda>k. None" 0 1 9] by (simp add: sample_windows carried_def text_of_def)
  have 3: "throttle_check sample_throttle (\<lambda>b. True) 90000 90 (Some ?a) None ?m2 = (Ok (), ?m2(?k 1 \<mapsto> (RVal (PInt 1), Some 210000)))"
    using sample_attempt[of ?a 90000 ?m2 90 None 0 10] apart
    by (simp add: sample_windows carried_def count_of_def text_of_def)
  have 4: "throttle_run sample_throttle (replicate 4 (90000, 90)) ?a (?m2(?k 1 \<mapsto> (RVal (PInt 1), Some 210000))) =
      (replicate 4 (Ok ()), ?m2(?k 1 \<mapsto> (RVal (PInt 5), Some 210000)))"
    using sample_burst[of ?a 90000 210000 90 1 ?m2 10 1 4] apart by (simp add: sample_windows carried_def text_of_def)
  have 5: "Ok () # replicate 9 (Ok ()) @ Ok () # replicate 4 (Ok ()) = (replicate 15 (Ok ()) :: (throttled, unit) result list)"
    by (simp add: numeral_eq_Suc)
  show ?thesis
    unfolding throttle_run.simps 1 Let_def prod.case throttle_run_append 2 3 4 fst_conv by (rule 5)
qed

text \<open>A refused caller is told to come back too early: the eleventh attempt at the end of a window is told to wait one
  second, and the attempt a second later is refused as well, as everything of the last window still counts.\<close>

theorem retry_after_too_early:
  "case throttle_run sample_throttle ((119000, 119) # replicate 9 (119000, 119)) ''10.0.0.1'' (\<lambda>k. None) of (rs, s) \<Rightarrow>
     (case throttle_check sample_throttle (\<lambda>b. True) 119000 119 (Some ''10.0.0.1'') None s of (r, s') \<Rightarrow>
        r = Err (Throttled THROTTLED ADDRESS 1) \<and>
        fst (throttle_check sample_throttle (\<lambda>b. True) 120000 120 (Some ''10.0.0.1'') None s') = Err (Throttled THROTTLED ADDRESS 60))"
proof -
  let ?a = "''10.0.0.1''"
  let ?k = "\<lambda>w. throttle_key sample_throttle ADDRESS ?a w"
  let ?m = "\<lambda>n. (\<lambda>k. None)(?k 1 \<mapsto> (RVal (PInt n), Some 239000))"
  have apart: "?k 1 \<noteq> ?k 0" "?k 0 \<noteq> ?k 1" "?k 1 \<noteq> ?k 2" "?k 2 \<noteq> ?k 1"
    using mem_throttle.window_keys_apart[of ADDRESS ?a 1] mem_throttle.window_keys_apart[of ADDRESS ?a 2] by auto
  have 1: "throttle_check sample_throttle (\<lambda>b. True) 119000 119 (Some ?a) None (\<lambda>k. None) = (Ok (), ?m 1)"
    using sample_attempt[of ?a 119000 "\<lambda>k. None" 119 None 0 0]
    by (simp add: sample_windows carried_def count_of_def text_of_def)
  have 2: "throttle_run sample_throttle (replicate 9 (119000, 119)) ?a (?m 1) = (replicate 9 (Ok ()), ?m 10)"
    using sample_burst[of ?a 119000 239000 119 1 "\<lambda>k. None" 0 1 9] by (simp add: sample_windows carried_def text_of_def)
  have 3: "throttle_check sample_throttle (\<lambda>b. True) 119000 119 (Some ?a) None (?m 10) = (Err (Throttled THROTTLED ADDRESS 1), ?m 11)"
    using sample_attempt[of ?a 119000 "?m 10" 119 "Some (RVal (PInt 10), Some 239000)" 10 0] apart
    by (simp add: sample_windows carried_def count_of_def text_of_def expiry_of_def retry_after_def)
  have 4: "fst (throttle_check sample_throttle (\<lambda>b. True) 120000 120 (Some ?a) None (?m 11)) = Err (Throttled THROTTLED ADDRESS 60)"
    using sample_attempt[of ?a 120000 "?m 11" 120 None 0 11] apart
    by (simp add: sample_windows carried_def count_of_def text_of_def retry_after_def)
  show ?thesis using 1 2 3 4 by (simp add: Let_def)
qed

end
