(* ===== verification/Url.thy ===== *)
theory Url
  imports Bytes
begin

text \<open>
  What the broker uses of the standard library's URL and base64 functions: \<open>urllib.parse.urlsplit\<close> with
  the \<open>hostname\<close> of its result, for ASCII text, \<open>base64.urlsafe_b64encode\<close> without padding, and
  \<open>str.split\<close>.  Whether the text between brackets is an IPv6 literal, which \<open>urlsplit\<close> asks the
  \<open>ipaddress\<close> module, is a parameter.
\<close>

section \<open>Words of a text\<close>

fun split_words :: "string \<Rightarrow> string \<Rightarrow> string list" where
  "split_words acc [] = (if acc = [] then [] else [rev acc])"
| "split_words acc (c # cs) = (if py_is_space c then (if acc = [] then [] else [rev acc]) @ split_words [] cs
     else split_words (c # acc) cs)"

definition py_split :: "string \<Rightarrow> string list" where
  "py_split s = split_words [] s"

lemma split_words_join:
  "list_all (\<lambda>w. w \<noteq> [] \<and> \<not> (\<exists>c\<in>set w. py_is_space c)) ws \<Longrightarrow>
     split_words [] (concat (map (\<lambda>w. w @ '' '') ws)) = ws"
proof (induction ws)
  case (Cons w ws)
  have step: "\<not> (\<exists>c\<in>set v. py_is_space c) \<Longrightarrow> split_words acc (v @ CHR '' '' # r) =
      (if rev acc @ v = [] then [] else [rev acc @ v]) @ split_words [] r" for acc v r
    by (induction v arbitrary: acc) (auto simp: py_is_space_def)
  show ?case using Cons step[of w "[]"] by simp
qed simp

section \<open>Splitting a URL\<close>

record url =
  u_scheme :: string
  u_netloc :: string
  u_path :: string
  u_query :: string
  u_fragment :: string

definition c0_or_space :: "char \<Rightarrow> bool" where
  "c0_or_space c = ((of_char c :: nat) \<le> 32)"

definition unsafe_removed :: "string \<Rightarrow> string" where
  "unsafe_removed s = filter (\<lambda>c. (of_char c :: nat) \<notin> {9, 10, 13}) s"

definition scheme_char :: "char \<Rightarrow> bool" where
  "scheme_char c = (is_ascii_alpha c \<or> is_ascii_digit c \<or> c \<in> {CHR ''+'', CHR ''-'', CHR ''.''})"

definition split_scheme :: "string \<Rightarrow> string \<times> string" where
  "split_scheme s = (case py_partition (CHR '':'') s of
       (before, found, after) \<Rightarrow>
         if found \<and> before \<noteq> [] \<and> is_ascii_alpha (hd before) \<and> list_all scheme_char before
         then (py_lower before, after) else ('''', s))"

definition bracket_clash :: "string \<Rightarrow> bool" where
  "bracket_clash netloc = ((CHR ''['' \<in> set netloc) \<noteq> (CHR '']'' \<in> set netloc))"

text \<open>The host of a \<open>netloc\<close>: what follows the last \<open>@\<close>, without brackets or port.\<close>

definition host_info :: "string \<Rightarrow> string" where
  "host_info netloc = (let (_, _, info) = py_rpartition (CHR ''@'') netloc;
       (_, open, bracketed) = py_partition (CHR ''['') info in
     if open then fst (py_partition (CHR '']'') bracketed) else fst (py_partition (CHR '':'') info))"

definition hostname :: "url \<Rightarrow> string option" where
  "hostname u = (let h = host_info (u_netloc u) in
     if h = [] then None
     else (case py_partition (CHR ''%'') h of (a, percent, zone) \<Rightarrow> Some (py_lower a @ (if percent then CHR ''%'' # zone else []))))"

text \<open>\<open>None\<close> stands for \<open>ValueError\<close>.\<close>

definition urlsplit :: "(string \<Rightarrow> bool) \<Rightarrow> string \<Rightarrow> url option" where
  "urlsplit ip_literal text =
     (let s = unsafe_removed (dropWhile c0_or_space text);
          (scheme, rest) = split_scheme s;
          (netloc, rest) = (if starts_with rest ''//''
             then (takeWhile (\<lambda>c. c \<notin> set ''/?#'') (drop 2 rest), dropWhile (\<lambda>c. c \<notin> set ''/?#'') (drop 2 rest)) else ('''', rest)) in
      if bracket_clash netloc then None
      else if CHR ''['' \<in> set netloc \<and> \<not> ip_literal (host_info netloc) then None
      else (let (rest, _, fragment) = py_partition (CHR ''#'') rest; (path, _, query) = py_partition (CHR ''?'') rest in
            Some \<lparr>u_scheme = scheme, u_netloc = netloc, u_path = path, u_query = query, u_fragment = fragment\<rparr>))"

section \<open>Base64\<close>

fun sextets :: "bytes \<Rightarrow> nat list" where
  "sextets [] = []"
| "sextets [a] = [unat a div 4, (unat a mod 4) * 16]"
| "sextets [a, b] = [unat a div 4, (unat a mod 4) * 16 + unat b div 16, (unat b mod 16) * 4]"
| "sextets (a # b # c # r) = unat a div 4 # ((unat a mod 4) * 16 + unat b div 16) # ((unat b mod 16) * 4 + unat c div 64) # unat c mod 64 # sextets r"

definition b64url_char :: "nat \<Rightarrow> char" where
  "b64url_char n = char_of (if n < 26 then 65 + n else if n < 52 then 71 + n else if n < 62 then n - 4 else if n = 62 then 45 else 95)"

definition b64url :: "bytes \<Rightarrow> string" where
  "b64url bs = map b64url_char (sextets bs)"

lemma sextets_bound: "list_all (\<lambda>n. n < 64) (sextets bs)"
proof (induction bs rule: sextets.induct)
  case (4 a b c r)
  have "unat a < 256" "unat b < 256" "unat c < 256" by simp_all
  then have "unat a div 4 < 64" "unat b div 16 < 16" "unat c div 64 < 4" by (simp_all add: less_mult_imp_div_less)
  moreover have "unat a mod 4 < 4" "unat b mod 16 < 16" "unat c mod 64 < 64" by simp_all
  ultimately show ?case using 4 by simp linarith
next
  case (2 a)
  have "unat a < 256" by simp
  then have "unat a div 4 < 64" by (simp add: less_mult_imp_div_less)
  moreover have "unat a mod 4 < 4" by simp
  ultimately show ?case by simp
next
  case (3 a b)
  have "unat a < 256" "unat b < 256" by simp_all
  then have "unat a div 4 < 64" "unat b div 16 < 16" by (simp_all add: less_mult_imp_div_less)
  moreover have "unat a mod 4 < 4" "unat b mod 16 < 16" by simp_all
  ultimately show ?case by simp
qed simp

lemma length_b64url: "length (b64url bs) = (4 * length bs + 2) div 3"
proof -
  have "length (sextets bs) = (4 * length bs + 2) div 3" by (induction bs rule: sextets.induct) simp_all
  then show ?thesis by (simp add: b64url_def)
qed

definition unreserved :: "char \<Rightarrow> bool" where
  "unreserved c = (is_ascii_alpha c \<or> is_ascii_digit c \<or> c \<in> {CHR ''.'', CHR ''_'', CHR ''~'', CHR ''-''})"

lemma dash_underscore: "char_of (45 :: nat) = CHR ''-''" "char_of (95 :: nat) = CHR ''_''"
  by code_simp+

lemma b64url_unreserved: "list_all unreserved (b64url bs)"
proof -
  have "unreserved (b64url_char n)" if "n < 64" for n
    using that by (auto simp: unreserved_def b64url_char_def is_ascii_alpha_def is_ascii_digit_def dash_underscore Let_def)
  then show ?thesis using sextets_bound[of bs] by (auto simp: b64url_def list_all_iff)
qed

end
