(* ===== verification/OidcClients.thy ===== *)
theory OidcClients
  imports BrokerErrors Url
begin

text \<open>
  Registered OIDC clients (\<open>oidc/clients.py\<close>), proof keys (\<open>oidc/pkce.py\<close>) and the scopes they deal in
  (\<open>oidc/claims.py\<close>).  SHA-256 is a parameter, as bytes for a proof key and as hexadecimal text for a
  client secret.
\<close>

section \<open>Scopes\<close>

definition SCOPE_OPENID :: string where "SCOPE_OPENID = ''openid''"
definition SCOPE_PROFILE :: string where "SCOPE_PROFILE = ''profile''"
definition SCOPE_EMAIL :: string where "SCOPE_EMAIL = ''email''"
definition SCOPE_AFFILIATION :: string where "SCOPE_AFFILIATION = ''campus:affiliation''"
definition SCOPE_ENTITLEMENT :: string where "SCOPE_ENTITLEMENT = ''campus:entitlement''"
definition SCOPE_SCIM_READ :: string where "SCOPE_SCIM_READ = ''scim:read''"
definition SCOPE_SCIM_WRITE :: string where "SCOPE_SCIM_WRITE = ''scim:write''"

lemmas scope_names = SCOPE_OPENID_def SCOPE_PROFILE_def SCOPE_EMAIL_def SCOPE_AFFILIATION_def SCOPE_ENTITLEMENT_def
  SCOPE_SCIM_READ_def SCOPE_SCIM_WRITE_def

definition MACHINE_SCOPES :: "string set" where
  "MACHINE_SCOPES = {SCOPE_SCIM_READ, SCOPE_SCIM_WRITE}"

section \<open>Clients\<close>

datatype client_type = CONFIDENTIAL | PUBLIC_CLIENT | NATIVE

record oidc_client =
  oc_client_id :: string
  oc_client_type :: client_type
  oc_redirect_uris :: "string list"
  oc_allowed_scopes :: "string set"
  oc_secret_hash :: "string option"
  oc_display_name :: "string option"
  oc_require_par :: bool
  oc_backchannel_logout_uri :: "string option"
  oc_post_logout_redirect_uris :: "string list"

definition LOOPBACK_HOSTS :: "string set" where
  "LOOPBACK_HOSTS = {''127.0.0.1'', ''[::1]''}"

definition loopback_host :: "string \<Rightarrow> string" where
  "loopback_host host = (if CHR '':'' \<in> set host then ''['' @ host @ '']'' else host)"

definition host_of :: "url \<Rightarrow> string" where
  "host_of u = loopback_host (case hostname u of None \<Rightarrow> '''' | Some h \<Rightarrow> h)"

datatype registration_error =
    NotAUrl | NotAbsolute | NoHost | HasFragment | MustUseHttps | NativeSchemeOnly
  | NoRedirectUri | NoSecret | CannotHoldSecret | CannotRequestOpenid

definition assert_registrable :: "(string \<Rightarrow> bool) \<Rightarrow> string \<Rightarrow> client_type \<Rightarrow> (registration_error, unit) result" where
  "assert_registrable ip uri t = (case urlsplit ip uri of
       None \<Rightarrow> Err NotAUrl
     | Some u \<Rightarrow>
         if u_scheme u = '''' then Err NotAbsolute
         else if u_scheme u \<in> {''http'', ''https''} \<and> u_netloc u = '''' then Err NoHost
         else if u_fragment u \<noteq> '''' then Err HasFragment
         else if u_scheme u = ''https'' then Ok ()
         else if u_scheme u = ''http''
         then (if t = NATIVE \<and> host_of u \<in> LOOPBACK_HOSTS then Ok () else Err MustUseHttps)
         else if t \<noteq> NATIVE then Err NativeSchemeOnly else Ok ())"

text \<open>A registered URI has passed this before it is ever compared, so it splits.  \<open>__post_init__\<close>: what every client object has passed.\<close>

definition post_init :: "(string \<Rightarrow> bool) \<Rightarrow> oidc_client \<Rightarrow> (registration_error, oidc_client) result" where
  "post_init ip c =
     (if oc_redirect_uris c = [] then Err NoRedirectUri
      else rbind (rmap (\<lambda>uri. assert_registrable ip uri (oc_client_type c)) (oc_redirect_uris c)) (\<lambda>_.
        let has_secret = (case oc_secret_hash c of None \<Rightarrow> False | Some h \<Rightarrow> h \<noteq> '''') in
        if oc_client_type c = CONFIDENTIAL \<and> \<not> has_secret then Err NoSecret
        else if oc_client_type c \<noteq> CONFIDENTIAL \<and> has_secret then Err CannotHoldSecret
        else if SCOPE_OPENID \<notin> oc_allowed_scopes c then Err CannotRequestOpenid
        else Ok c))"

definition matches_loopback :: "(string \<Rightarrow> bool) \<Rightarrow> oidc_client \<Rightarrow> string \<Rightarrow> bool option" where
  "matches_loopback ip c candidate = (case urlsplit ip candidate of
       None \<Rightarrow> None
     | Some u \<Rightarrow>
         if u_scheme u \<noteq> ''http'' \<or> u_fragment u \<noteq> '''' then Some False
         else if host_of u \<notin> LOOPBACK_HOSTS then Some False
         else Some (list_ex (\<lambda>r. case urlsplit ip r of None \<Rightarrow> False
             | Some g \<Rightarrow> u_scheme g = ''http'' \<and> host_of g = host_of u \<and> u_path g = u_path u \<and> u_query g = u_query u)
             (oc_redirect_uris c)))"

datatype client_error = ClientRefused oauth_error | ClientValueError

definition validated_redirect_uri :: "(string \<Rightarrow> bool) \<Rightarrow> oidc_client \<Rightarrow> string option \<Rightarrow> (client_error, string) result" where
  "validated_redirect_uri ip c candidate =
     (let refusal = Err (ClientRefused (OAuthError INVALID_REQUEST R_REDIRECT_URI_MISMATCH)) in
      case candidate of None \<Rightarrow> refusal
      | Some uri \<Rightarrow>
          if uri = '''' then refusal
          else if uri \<in> set (oc_redirect_uris c) then Ok uri
          else if oc_client_type c = NATIVE
          then (case matches_loopback ip c uri of None \<Rightarrow> Err ClientValueError | Some True \<Rightarrow> Ok uri | Some False \<Rightarrow> refusal)
          else refusal)"

definition authenticate :: "(string \<Rightarrow> string) \<Rightarrow> oidc_client \<Rightarrow> string option \<Rightarrow> (client_error, unit) result" where
  "authenticate hash_secret c secret =
     (let refusal = Err (ClientRefused (OAuthError INVALID_CLIENT R_CLIENT_AUTHENTICATION_FAILED)) in
      if oc_client_type c \<noteq> CONFIDENTIAL then refusal
      else (case secret of None \<Rightarrow> refusal
        | Some s \<Rightarrow> if hash_secret s = (case oc_secret_hash c of None \<Rightarrow> '''' | Some h \<Rightarrow> h) then Ok () else refusal))"

definition asked_scopes :: "string option \<Rightarrow> string set" where
  "asked_scopes requested = set (py_split (case requested of None \<Rightarrow> '''' | Some r \<Rightarrow> r))"

definition granted_scopes :: "oidc_client \<Rightarrow> string option \<Rightarrow> (client_error, string set) result" where
  "granted_scopes c requested =
     (let refusal = Err (ClientRefused (OAuthError INVALID_SCOPE R_SCOPE_NOT_PERMITTED)); asked = asked_scopes requested in
      if SCOPE_OPENID \<notin> asked then refusal
      else if asked \<inter> MACHINE_SCOPES \<noteq> {} then refusal
      else if asked - oc_allowed_scopes c \<noteq> {} then refusal
      else Ok asked)"

definition machine_scopes :: "oidc_client \<Rightarrow> string option \<Rightarrow> (client_error, string set) result" where
  "machine_scopes c requested =
     (let refusal = Err (ClientRefused (OAuthError INVALID_SCOPE R_SCOPE_NOT_PERMITTED));
          available = oc_allowed_scopes c \<inter> MACHINE_SCOPES; asked = asked_scopes requested in
      if available = {} then refusal
      else if asked = {} then Ok available
      else if SCOPE_OPENID \<in> asked then refusal
      else if asked - available \<noteq> {} then refusal
      else Ok asked)"

section \<open>Proof keys\<close>

definition S256 :: string where "S256 = ''S256''"
definition MIN_VERIFIER_LENGTH :: nat where "MIN_VERIFIER_LENGTH = 43"
definition MAX_VERIFIER_LENGTH :: nat where "MAX_VERIFIER_LENGTH = 128"

text \<open>\<open>re.compile("^[A-Za-z0-9._~-]+$").match\<close>: a dollar also matches before a final newline.\<close>

definition verifier_charset :: "string \<Rightarrow> bool" where
  "verifier_charset s = (let core = (if s \<noteq> [] \<and> last s = CHR 0x0A then butlast s else s) in core \<noteq> [] \<and> list_all unreserved core)"

definition ascii_bytes :: "string \<Rightarrow> bytes" where
  "ascii_bytes s = map (\<lambda>c. of_nat (of_char c)) s"

definition compute_challenge :: "(bytes \<Rightarrow> bytes) \<Rightarrow> string \<Rightarrow> string" where
  "compute_challenge sha verifier = b64url (sha (ascii_bytes verifier))"

definition assert_supported_method :: "string option \<Rightarrow> (oauth_error, unit) result" where
  "assert_supported_method m = (if m = Some S256 then Ok () else Err (OAuthError INVALID_REQUEST R_PKCE_METHOD_UNSUPPORTED))"

definition assert_valid_challenge :: "string option \<Rightarrow> (oauth_error, unit) result" where
  "assert_valid_challenge c = (case c of None \<Rightarrow> Err (OAuthError INVALID_REQUEST R_PKCE_REQUIRED)
     | Some s \<Rightarrow> if s = '''' then Err (OAuthError INVALID_REQUEST R_PKCE_REQUIRED)
         else if length s \<noteq> MIN_VERIFIER_LENGTH \<or> \<not> verifier_charset s then Err (OAuthError INVALID_REQUEST R_PKCE_REQUIRED)
         else Ok ())"

definition pkce_verify :: "(bytes \<Rightarrow> bytes) \<Rightarrow> string option \<Rightarrow> string \<Rightarrow> (oauth_error, unit) result" where
  "pkce_verify sha verifier challenge =
     (let refusal = Err (OAuthError INVALID_GRANT R_PKCE_VERIFICATION_FAILED) in
      case verifier of None \<Rightarrow> refusal
      | Some v \<Rightarrow>
          if \<not> (MIN_VERIFIER_LENGTH \<le> length v \<and> length v \<le> MAX_VERIFIER_LENGTH) then refusal
          else if \<not> verifier_charset v then refusal
          else if compute_challenge sha v \<noteq> challenge then refusal
          else Ok ())"

section \<open>Properties\<close>

text \<open>A browser flow is granted exactly the scopes it asks for, and only if they include \<open>openid\<close>, contain no
  provisioning scope and are all registered; a machine is granted only provisioning scopes it is
  registered for, at least one of them, and never \<open>openid\<close>.  So no token joins a person and a
  provisioning scope.\<close>

theorem scopes_apart:
  "(granted_scopes c requested = Ok s \<longleftrightarrow> s = asked_scopes requested \<and> SCOPE_OPENID \<in> s \<and> s \<inter> MACHINE_SCOPES = {} \<and> s \<subseteq> oc_allowed_scopes c) \<and>
   (machine_scopes c requested = Ok m \<longrightarrow> m \<noteq> {} \<and> m \<subseteq> oc_allowed_scopes c \<inter> MACHINE_SCOPES \<and> SCOPE_OPENID \<notin> m \<and>
      (m = asked_scopes requested \<or> asked_scopes requested = {} \<and> m = oc_allowed_scopes c \<inter> MACHINE_SCOPES))"

by (auto simp: granted_scopes_def machine_scopes_def MACHINE_SCOPES_def scope_names Let_def split: if_splits)

definition sample_client :: "client_type \<Rightarrow> string list \<Rightarrow> oidc_client" where
  "sample_client t uris = \<lparr>oc_client_id = ''rp'', oc_client_type = t, oc_redirect_uris = uris,
     oc_allowed_scopes = {''openid'', ''email'', ''scim:read''}, oc_secret_hash = (if t = CONFIDENTIAL then Some ''aa'' else None),
     oc_display_name = None, oc_require_par = False, oc_backchannel_logout_uri = None, oc_post_logout_redirect_uris = []\<rparr>"

theorem scopes_apart_witness:
  "machine_scopes (sample_client CONFIDENTIAL [''https://rp/cb'']) None = Ok {''scim:read''} \<and> SCOPE_OPENID \<notin> {''scim:read''}"
proof -
  have "machine_scopes (sample_client CONFIDENTIAL [''https://rp/cb'']) None = Ok {''scim:read''}"
    by (auto simp: machine_scopes_def sample_client_def MACHINE_SCOPES_def scope_names asked_scopes_def py_split_def Let_def)
  with scopes_apart[of "sample_client CONFIDENTIAL [''https://rp/cb'']" None "{}" "{''scim:read''}"] show ?thesis by simp
qed

lemma loopback_host_netloc: "host_of u \<in> LOOPBACK_HOSTS \<Longrightarrow> u_netloc u \<noteq> ''''"
  by (auto simp: host_of_def LOOPBACK_HOSTS_def loopback_host_def hostname_def host_info_def py_rpartition_def py_partition_def)

lemma rmap_unit: "rmap f xs = Ok ys \<Longrightarrow> x \<in> set xs \<Longrightarrow> \<exists>y. f x = Ok y"
  by (auto simp: rmap_Ok_iff list_all2_conv_all_nth in_set_conv_nth)

text \<open>Every redirect URI a registered client is answered at could have been registered by it: it is absolute,
  carries no fragment, and is https, or, for a native client, the loopback interface over http or a
  private scheme.\<close>

theorem accepted_redirect_registrable:
  assumes "post_init ip c = Ok c'" and "validated_redirect_uri ip c' candidate = Ok u"
  shows "candidate = Some u \<and> assert_registrable ip u (oc_client_type c) = Ok ()"
proof -
  have c: "c' = c" "\<And>r. r \<in> set (oc_redirect_uris c) \<Longrightarrow> assert_registrable ip r (oc_client_type c) = Ok ()"
    using assms(1) by (auto simp: post_init_def Let_def rbind_eq_Ok split: if_splits dest: rmap_unit)
  have u: "candidate = Some u" "u \<in> set (oc_redirect_uris c) \<or> oc_client_type c = NATIVE \<and> matches_loopback ip c u = Some True"
    using assms(2) c(1) by (auto simp: validated_redirect_uri_def Let_def split: option.splits if_splits bool.splits)
  moreover have "assert_registrable ip u NATIVE = Ok ()" if m: "matches_loopback ip c u = Some True"
  proof -
    obtain p where "urlsplit ip u = Some p" "u_scheme p = ''http''" "u_fragment p = ''''" "host_of p \<in> LOOPBACK_HOSTS"
      using m by (cases "urlsplit ip u") (auto simp: matches_loopback_def split: if_splits)
    then show ?thesis using loopback_host_netloc[of p] by (simp add: assert_registrable_def)
  qed
  ultimately show ?thesis using c(2) by auto
qed

lemmas url_eval = urlsplit_def unsafe_removed_def c0_or_space_def split_scheme_def py_partition_def py_rpartition_def
  is_ascii_alpha_def is_ascii_digit_def scheme_char_def starts_with_def bracket_clash_def host_info_def hostname_def
  host_of_def loopback_host_def LOOPBACK_HOSTS_def py_lower_def py_lower_char_def Let_def

lemma upper_http: "char_of (116 :: nat) = CHR ''t''" "char_of (104 :: nat) = CHR ''h''" "char_of (112 :: nat) = CHR ''p''"
  by code_simp+

lemma sample_registered: "post_init ip (sample_client NATIVE [''http://127.0.0.1/cb'']) = Ok (sample_client NATIVE [''http://127.0.0.1/cb''])"
  by (simp add: post_init_def sample_client_def assert_registrable_def url_eval scope_names)

theorem accepted_redirect_registrable_witness:
  "validated_redirect_uri (\<lambda>h. True) (sample_client NATIVE [''http://127.0.0.1/cb'']) (Some ''http://127.0.0.1:5000/cb'') = Ok ''http://127.0.0.1:5000/cb'' \<and>
   assert_registrable (\<lambda>h. True) ''http://127.0.0.1:5000/cb'' NATIVE = Ok ()"
proof -
  have v: "validated_redirect_uri (\<lambda>h. True) (sample_client NATIVE [''http://127.0.0.1/cb'']) (Some ''http://127.0.0.1:5000/cb'') = Ok ''http://127.0.0.1:5000/cb''"
    by (simp add: validated_redirect_uri_def matches_loopback_def sample_client_def url_eval)
  with accepted_redirect_registrable[OF sample_registered v] show ?thesis by (simp add: sample_client_def)
qed

text \<open>More than the port of a loopback redirect may vary: a candidate with user information, another spelling of
  the scheme and a line break inside the path is answered at, although only
  \<open>http://127.0.0.1/cb\<close> is registered.\<close>

theorem loopback_more_than_port:
  "validated_redirect_uri (\<lambda>h. True) (sample_client NATIVE [''http://127.0.0.1/cb''])
     (Some (''HTTP://evil.test:x@127.0.0.1:5000/c'' @ [CHR 0x0A] @ ''b'')) = Ok (''HTTP://evil.test:x@127.0.0.1:5000/c'' @ [CHR 0x0A] @ ''b'')"
  by (simp add: validated_redirect_uri_def matches_loopback_def sample_client_def url_eval upper_http)

text \<open>With a 32-byte digest, a client that keeps to the protocol is never refused: its challenge passes the
  check of the authorization request and its verifier the check of the token request.  And a verifier is
  accepted only if its digest is the challenge.\<close>

theorem pkce_sound_complete:
  assumes "\<And>m. length (sha m) = 32"
  shows "(list_all unreserved v \<and> 43 \<le> length v \<and> length v \<le> 128 \<longrightarrow>
      assert_valid_challenge (Some (compute_challenge sha v)) = Ok () \<and> pkce_verify sha (Some v) (compute_challenge sha v) = Ok ()) \<and>
    (pkce_verify sha w challenge = Ok () \<longrightarrow> (\<exists>v. w = Some v \<and> 43 \<le> length v \<and> length v \<le> 128 \<and> compute_challenge sha v = challenge))"
proof -
  have charset: "verifier_charset x" if h: "list_all unreserved x" "x \<noteq> []" for x
  proof -
    have "unreserved (last x)" using h by (simp add: list_all_iff)
    moreover have "\<not> unreserved (CHR 0x0A)" by (simp add: unreserved_def is_ascii_alpha_def is_ascii_digit_def)
    ultimately have "last x \<noteq> CHR 0x0A" by auto
    then show ?thesis using h by (simp add: verifier_charset_def)
  qed
  have len: "length (compute_challenge sha v) = 43" for v using assms by (simp add: compute_challenge_def length_b64url)
  then have ne: "compute_challenge sha v \<noteq> []" for v by (metis list.size(3) zero_neq_numeral)
  then have "verifier_charset (compute_challenge sha v)" for v
    by (intro charset) (simp_all add: compute_challenge_def b64url_unreserved)
  then have "assert_valid_challenge (Some (compute_challenge sha v)) = Ok ()" for v
    using len ne by (simp add: assert_valid_challenge_def MIN_VERIFIER_LENGTH_def)
  moreover have "list_all unreserved v \<and> 43 \<le> length v \<and> length v \<le> 128 \<longrightarrow> pkce_verify sha (Some v) (compute_challenge sha v) = Ok ()"
    using charset[of v] by (cases v) (simp_all add: pkce_verify_def MIN_VERIFIER_LENGTH_def MAX_VERIFIER_LENGTH_def)
  moreover have "pkce_verify sha w challenge = Ok () \<longrightarrow>
      (\<exists>v. w = Some v \<and> 43 \<le> length v \<and> length v \<le> 128 \<and> compute_challenge sha v = challenge)"
    by (cases w) (simp_all add: pkce_verify_def MIN_VERIFIER_LENGTH_def MAX_VERIFIER_LENGTH_def Let_def)
  ultimately show ?thesis by blast
qed

theorem pkce_sound_complete_witness:
  "pkce_verify (\<lambda>m. replicate 32 0) (Some (replicate 43 (CHR ''a''))) (compute_challenge (\<lambda>m. replicate 32 0) (replicate 43 (CHR ''a''))) = Ok ()"
  using pkce_sound_complete[of "\<lambda>m. replicate 32 0" "replicate 43 (CHR ''a'')"]
  by (simp add: list_all_iff unreserved_def is_ascii_alpha_def)

text \<open>A challenge that is no base64url text passes: forty-two characters and a line break.\<close>

theorem challenge_with_newline:
  "assert_valid_challenge (Some (replicate 42 (CHR ''A'') @ [CHR 0x0A])) = Ok ()"
  by (simp add: assert_valid_challenge_def MIN_VERIFIER_LENGTH_def verifier_charset_def butlast_append list_all_iff unreserved_def is_ascii_alpha_def)

end
