(* ===== verification/OidcClaims.thy ===== *)
theory OidcClaims
  imports OidcClients ReleasePolicy Sessions
begin

text \<open>
  What one client learns of one session: the claims released attributes become (\<open>oidc/claims.py\<close>), the
  pairwise and shared subject identifiers (\<open>policy/pairwise.py\<close>) and their composition with the session,
  the normalisation and the release engine (\<open>oidc/identity.py\<close>).  HMAC-SHA256 is a parameter.
\<close>

section \<open>Claims\<close>

record claim_mapping =
  cm_attribute :: string
  cm_claim :: string
  cm_scope :: string
  cm_multivalued :: bool

abbreviation (input) claim_map where
  "claim_map a c s m \<equiv> \<lparr>cm_attribute = a, cm_claim = c, cm_scope = s, cm_multivalued = m\<rparr>"

definition CLAIMS :: "claim_mapping list" where
  "CLAIMS = [
     claim_map EPPN ''preferred_username'' SCOPE_PROFILE False,
     claim_map DISPLAY_NAME ''name'' SCOPE_PROFILE False,
     claim_map GIVEN_NAME ''given_name'' SCOPE_PROFILE False,
     claim_map SURNAME ''family_name'' SCOPE_PROFILE False,
     claim_map ORCID ''orcid'' SCOPE_PROFILE False,
     claim_map MAIL ''email'' SCOPE_EMAIL False,
     claim_map ORG_UNIT ''campus_org_unit'' SCOPE_PROFILE True,
     claim_map SCOPED_AFFILIATION ''campus_scoped_affiliation'' SCOPE_AFFILIATION True,
     claim_map AFFILIATION ''campus_affiliation'' SCOPE_AFFILIATION True,
     claim_map PRIMARY_AFFILIATION ''campus_primary_affiliation'' SCOPE_AFFILIATION False,
     claim_map ENTITLEMENT ''campus_entitlement'' SCOPE_ENTITLEMENT True]"

definition by_attribute :: "string \<Rightarrow> claim_mapping option" where
  "by_attribute name = find (\<lambda>m. cm_attribute m = name) CLAIMS"

definition attributes_for_scopes :: "string set \<Rightarrow> string set" where
  "attributes_for_scopes scopes = cm_attribute ` {m \<in> set CLAIMS. cm_scope m \<in> scopes}"

definition claim_value :: "claim_mapping \<Rightarrow> string list \<Rightarrow> pyval" where
  "claim_value m values = (if cm_multivalued m then strs values else PStr (hd values))"

definition claim_for :: "string set \<Rightarrow> string \<times> string list \<Rightarrow> (string \<times> pyval) option" where
  "claim_for scopes e = (case by_attribute (fst e) of
       None \<Rightarrow> None
     | Some m \<Rightarrow> if cm_scope m \<notin> scopes \<or> snd e = [] then None else Some (cm_claim m, claim_value m (snd e)))"

definition claims_for :: "string set \<Rightarrow> attrs \<Rightarrow> dict" where
  "claims_for scopes released = List.map_filter (claim_for scopes) (sort_key fst released)"

section \<open>Subject identifiers\<close>

definition utf8 :: "string \<Rightarrow> bytes" where
  "utf8 s = utf8_encode (map of_char s)"

definition pairwise_message :: "string \<Rightarrow> string \<Rightarrow> bytes" where
  "pairwise_message person_key sp_entity_id = utf8 person_key @ [0] @ utf8 sp_entity_id"

definition pairwise_id :: "(bytes \<Rightarrow> bytes \<Rightarrow> bytes) \<Rightarrow> bytes \<Rightarrow> string \<Rightarrow> string \<Rightarrow> string \<Rightarrow> string option" where
  "pairwise_id hmac salt person_key sp_entity_id scope =
     (if salt = [] then None
      else Some (b64url (take 16 (hmac salt (pairwise_message person_key sp_entity_id))) @ ''@'' @ scope))"

definition subject_id :: "string \<Rightarrow> string \<Rightarrow> string" where
  "subject_id person_key scope = person_key @ ''@'' @ scope"

section \<open>Released identity\<close>

record released_identity =
  ri_subject :: string
  ri_claims :: dict
  ri_decisions :: "release_decision list"

definition subject_identifier ::
  "(bytes \<Rightarrow> bytes \<Rightarrow> bytes) \<Rightarrow> release_policy \<Rightarrow> release_subject \<Rightarrow> bytes \<Rightarrow> string \<Rightarrow> string option" where
  "subject_identifier hmac p s salt scope =
     (if rp_shared_subject_id p then Some (subject_id (rs_person_key s) scope)
      else pairwise_id hmac salt (rs_person_key s) (rp_sp_entity_id p) scope)"

text \<open>\<open>None\<close> stands for the \<open>ValueError\<close> of an empty salt.\<close>

definition release_to ::
  "(bytes \<Rightarrow> bytes \<Rightarrow> bytes) \<Rightarrow> (string \<Rightarrow> string \<Rightarrow> bool) \<Rightarrow> session \<Rightarrow> release_policy \<Rightarrow> string set \<Rightarrow> bytes \<Rightarrow> string \<Rightarrow>
     bool \<Rightarrow> string set \<Rightarrow> released_identity option" where
  "release_to hmac fullmatch x p scopes salt scope opted_out consented =
     (let s = \<lparr>rs_person_key = subject_key x, rs_suppressed = opted_out\<rparr>;
          normalised = fst (normalize scope (se_attributes x));
          (released, decisions) = evaluate_release fullmatch p s normalised consented in
      map_option (\<lambda>sub. \<lparr>ri_subject = sub, ri_claims = claims_for scopes released, ri_decisions = decisions\<rparr>)
        (subject_identifier hmac p s salt scope))"

section \<open>Lemmas\<close>

lemma utf8_inj: "utf8 s = utf8 t \<Longrightarrow> s = t"
proof -
  assume e: "utf8 s = utf8 t"
  have "utf8_decode (utf8 u) = Some (map of_char u)" for u
  proof -
    have "valid_cp (of_char c)" for c :: char
      using nat_of_char_less_256[of c] by (auto simp: valid_cp_def simp del: nat_of_char_less_256)
    then show ?thesis by (simp add: utf8_def utf8_decode_encode)
  qed
  then have "map (of_char :: char \<Rightarrow> nat) s = map of_char t" using e by (metis option.inject)
  then show "s = t" by (simp add: inj_map_eq_map inj_of_char)
qed

lemma evaluate_released_in:
  assumes "distinct (map fst available)" and "(name, vs) \<in> set (fst (evaluate_release fm p s available consented))"
  shows "\<exists>held d. (name, held) \<in> set available \<and> d \<in> set (snd (evaluate_release fm p s available consented)) \<and>
     rd_attribute d = name \<and> rd_released d \<and> rd_values d = vs \<and> vs \<noteq> [] \<and> d = decide_release fm p s name held consented"
proof -
  let ?d = "decide_release fm p s name (the (map_of available name)) consented"
  have d: "rd_released ?d" "rd_values ?d = vs" "vs \<noteq> []" "name \<in> set (map fst available)"
    using assms(2) by (force simp: evaluate_release_def Let_def)+
  then obtain held where "(name, held) \<in> set available" by auto
  moreover from this have "map_of available name = Some held" using assms(1) by simp
  moreover have "?d \<in> set (snd (evaluate_release fm p s available consented))" using d(4) by (auto simp: evaluate_release_def Let_def)
  ultimately show ?thesis using d by auto
qed

lemma normalize_keys: "distinct (map fst as) \<Longrightarrow> distinct (map fst (fst (normalize scope as)))"
proof (induction as)
  case (Cons e as)
  obtain name vs where e: "e = (name, vs)" by fastforce
  have "name \<notin> fst ` set (fst (normalize scope as))"
  proof
    assume "name \<in> fst ` set (fst (normalize scope as))"
    then obtain ws where "(name, ws) \<in> set (fst (normalize scope as))" by auto
    then have "name \<in> fst ` set as" using normalize_in by (metis fst_conv imageI)
    then show False using Cons.prems e by simp
  qed
  then show ?case using Cons e by (simp add: Let_def case_prod_beta)
qed simp

lemma claims_for_in:
  assumes "(claim, v) \<in> set (claims_for scopes released)"
  shows "\<exists>m vs. m \<in> set CLAIMS \<and> cm_claim m = claim \<and> cm_scope m \<in> scopes \<and> (cm_attribute m, vs) \<in> set released \<and>
     vs \<noteq> [] \<and> v = claim_value m vs"
proof -
  obtain e where e: "e \<in> set released" "claim_for scopes e = Some (claim, v)"
    using assms by (auto simp: claims_for_def List.map_filter_def)
  then obtain m where m: "by_attribute (fst e) = Some m" "cm_scope m \<in> scopes" "snd e \<noteq> []" "claim = cm_claim m" "v = claim_value m (snd e)"
    by (auto simp: claim_for_def split: option.splits if_splits)
  then have "m \<in> set CLAIMS" "cm_attribute m = fst e" by (auto simp: by_attribute_def find_Some_iff)
  then show ?thesis using e(1) m by (metis prod.collapse)
qed

section \<open>Properties\<close>

text \<open>A claim a client receives was asked for by one of its scopes, and what it says was released to that client's
  policy: the attribute is catalogued, not restricted and not suppressed, a rule or the entity category
  permits it, and each value stands in the session's attributes after normalisation.  So OIDC widens
  nothing the release engine decided.\<close>

theorem claims_justified:
  assumes "distinct (map fst (se_attributes x))"
    and "release_to hmac fm x p scopes salt scope opted_out consented = Some ri" and "(claim, v) \<in> set (ri_claims ri)"
  shows "\<exists>m d a held. m \<in> set CLAIMS \<and> cm_claim m = claim \<and> cm_scope m \<in> scopes \<and>
     d \<in> set (ri_decisions ri) \<and> rd_attribute d = cm_attribute m \<and> rd_released d \<and> v = claim_value m (rd_values d) \<and>
     attribute_of (cm_attribute m) = Some a \<and> ad_classification a \<noteq> RESTRICTED \<and> (opted_out \<and> ad_ferpa a \<longrightarrow> rp_school_official p) \<and>
     (cm_attribute m, held) \<in> set (fst (normalize scope (se_attributes x))) \<and> set (rd_values d) \<subseteq> set held"
proof -
  let ?s = "\<lparr>rs_person_key = subject_key x, rs_suppressed = opted_out\<rparr>"
  let ?n = "fst (normalize scope (se_attributes x))"
  let ?e = "evaluate_release fm p ?s ?n consented"
  have ri: "ri_claims ri = claims_for scopes (fst ?e)" "ri_decisions ri = snd ?e"
    using assms(2) by (auto simp: release_to_def Let_def case_prod_beta)
  obtain m vs where m: "m \<in> set CLAIMS" "cm_claim m = claim" "cm_scope m \<in> scopes" "(cm_attribute m, vs) \<in> set (fst ?e)" "v = claim_value m vs"
    using claims_for_in assms(3) ri(1) by metis
  obtain held d where d: "(cm_attribute m, held) \<in> set ?n" "d \<in> set (snd ?e)" "rd_attribute d = cm_attribute m" "rd_released d"
      "rd_values d = vs" "d = decide_release fm p ?s (cm_attribute m) held consented"
    using evaluate_released_in[OF normalize_keys[OF assms(1)] m(4)] by blast
  have "rd_released (decide_release fm p ?s (cm_attribute m) held consented)" using d(4,6) by simp
  from decide_release_released[OF this] obtain a where
      "attribute_of (cm_attribute m) = Some a" "ad_classification a \<noteq> RESTRICTED" "\<not> suppressed p ?s a" "set (rd_values d) \<subseteq> set held"
    unfolding d(6)[symmetric] by blast
  note a = this
  have "opted_out \<and> ad_ferpa a \<longrightarrow> rp_school_official p" using a(3) by (auto simp: suppressed_def)
  moreover have "v = claim_value m (rd_values d)" using m(5) d(5) by simp
  moreover have "d \<in> set (ri_decisions ri)" using d(2) ri(2) by simp
  ultimately show ?thesis using m(1-3) d(1,3,4) a(1,2,4) by blast
qed

text \<open>The text a pairwise identifier is derived from names one person at one service provider: no two pairs of
  a person's key and a provider, free of the separator, give the same text.\<close>

theorem pairwise_message_unambiguous:
  assumes "pairwise_message k sp = pairwise_message k' sp'" and "CHR 0x00 \<notin> set k" and "CHR 0x00 \<notin> set k'"
  shows "k = k' \<and> sp = sp'"
proof -
  have "pairwise_message k sp = utf8 (k @ CHR 0x00 # sp)" for k sp
    by (simp add: pairwise_message_def utf8_def utf8_encode_def utf8_char_def)
  then have e: "k @ CHR 0x00 # sp = k' @ CHR 0x00 # sp'" using assms(1) utf8_inj by metis
  have "takeWhile (\<lambda>c. c \<noteq> CHR 0x00) (j @ CHR 0x00 # r) = j" if "CHR 0x00 \<notin> set j" for j r
    using that by (induction j) auto
  then have "k = k'" using e assms(2,3) by metis
  then show ?thesis using e by simp
qed

theorem pairwise_message_unambiguous_witness:
  "pairwise_message ''ab'' ''cd'' \<noteq> pairwise_message ''a'' ''bcd''"
  using pairwise_message_unambiguous[of "''ab''" "''cd''" "''a''" "''bcd''"] by auto

lemma sample_orcid_release:
  "evaluate_release fm (sample_policy [sample_rule ''r'' AllowE ORCID 100]) \<lparr>rs_person_key = k, rs_suppressed = b\<rparr> [(ORCID, [''0000''])] {} =
   ([(ORCID, [''0000''])], [outcome ORCID True [''0000''] ExplicitAllow (Some ''r'')])"
  by (simp add: evaluate_release_def decide_release_def attribute_of_def CATALOGUE_def sample_policy_def
      sample_rule_def suppressed_def rule_outcome_def attribute_names)

theorem claims_justified_witness:
  "\<exists>ri m a. release_to (\<lambda>k m. replicate 32 0) (\<lambda>p v. False) (sample_session\<lparr>se_attributes := [(ORCID, [''0000''])]\<rparr>)
      (sample_policy [sample_rule ''r'' AllowE ORCID 100]) {SCOPE_PROFILE} [1] ''campus.test'' True {} = Some ri \<and>
    ri_claims ri = [(''orcid'', PStr ''0000'')] \<and> m \<in> set CLAIMS \<and> cm_claim m = ''orcid'' \<and>
    attribute_of (cm_attribute m) = Some a \<and> ad_classification a \<noteq> RESTRICTED"
proof -
  let ?x = "sample_session\<lparr>se_attributes := [(ORCID, [''0000''])]\<rparr>"
  have n: "fst (normalize ''campus.test'' [(ORCID, [''0000''])]) = [(ORCID, [''0000''])]"
    by (simp add: normalize_value_def attribute_names py_strip_def py_is_space_def)
  have c: "claims_for {SCOPE_PROFILE} [(ORCID, [''0000''])] = [(''orcid'', PStr ''0000'')]"
    by (simp add: claims_for_def List.map_filter_def claim_for_def by_attribute_def CLAIMS_def attribute_names claim_value_def scope_names)
  let ?p = "sample_policy [sample_rule ''r'' AllowE ORCID 100]"
  have m: "rp_shared_subject_id ?p = False" by (simp add: sample_policy_def)
  have at: "se_attributes ?x = [(ORCID, [''0000''])]" by simp
  obtain ri where ri: "release_to (\<lambda>k m. replicate 32 0) (\<lambda>p v. False) ?x ?p {SCOPE_PROFILE} [1] ''campus.test'' True {} = Some ri"
      "ri_claims ri = [(''orcid'', PStr ''0000'')]"
    unfolding release_to_def Let_def at n sample_orcid_release prod.case c subject_identifier_def m pairwise_id_def by simp
  have "distinct (map fst (se_attributes ?x))" by simp
  from claims_justified[OF this ri(1), of "''orcid''" "PStr ''0000''"] ri show ?thesis by auto
qed

end
