(* ===== verification/Roles.thy ===== *)
theory Roles
  imports LifecycleRules "HOL-Library.Product_Lexorder"
begin

text \<open>
  Roles (\<open>campusid/authz/roles.py\<close>), their derivation from affiliations and groups, separation of
  duties, and the assignments table (\<open>campusid/authz/store.py\<close>, \<open>campusid/authz/models.py\<close>).

  A date is its day number, a person the text of a UUID that parses, and the random primary key of a
  row, which nothing reads, is left out.  A write is the list of rows the transaction would leave;
  \<open>commit\<close> is the database's verdict on it, the constraints of the table.  \<open>reprs\<close> is Python's
  \<open>str\<close> on a value that is not a string.
\<close>

section \<open>The catalogue\<close>

datatype origin = AFFILIATION | GROUP | DIRECT

definition origin_value :: "origin \<Rightarrow> string" where
  "origin_value k = (case k of AFFILIATION \<Rightarrow> ''affiliation'' | GROUP \<Rightarrow> ''group'' | DIRECT \<Rightarrow> ''direct'')"

datatype role_error = RoleError | TypeErrorRole | WriteRefused

record role =
  ro_id :: string
  ro_display_name :: string
  ro_description :: string
  ro_requires_aal2 :: bool

record derivation =
  de_role :: string
  de_origin :: origin
  de_value :: string

record conflict =
  cf_roles :: "string set"
  cf_reason :: string

record assignment =
  as_role :: string
  as_origin :: origin
  as_reference :: string

record role_catalogue =
  rc_roles :: "role list"
  rc_derivations :: "derivation list"
  rc_conflicts :: "conflict list"

definition no_roles :: role_catalogue where
  "no_roles = \<lparr>rc_roles = [], rc_derivations = [], rc_conflicts = []\<rparr>"

definition find_role :: "role list \<Rightarrow> string \<Rightarrow> role option" where
  "find_role rs r = find (\<lambda>x. ro_id x = r) rs"

definition fires :: "string set \<Rightarrow> string set \<Rightarrow> derivation \<Rightarrow> bool" where
  "fires affiliations groups d =
     ((de_origin d = AFFILIATION \<and> de_value d \<in> affiliations) \<or> (de_origin d = GROUP \<and> de_value d \<in> groups))"

definition derive :: "role_catalogue \<Rightarrow> string set \<Rightarrow> string set \<Rightarrow> assignment list" where
  "derive c affiliations groups =
     map (\<lambda>d. \<lparr>as_role = de_role d, as_origin = de_origin d, as_reference = de_value d\<rparr>)
       (filter (fires affiliations groups) (rc_derivations c))"

definition conflicting :: "role_catalogue \<Rightarrow> string set \<Rightarrow> conflict list" where
  "conflicting c roles = filter (\<lambda>cf. cf_roles cf \<subseteq> roles) (rc_conflicts c)"

definition assert_compatible :: "role_catalogue \<Rightarrow> string set \<Rightarrow> (role_error, unit) result" where
  "assert_compatible c roles = guard_r (conflicting c roles = []) RoleError"

definition roles_require_aal2 :: "role_catalogue \<Rightarrow> string set \<Rightarrow> bool" where
  "roles_require_aal2 c roles =
     (\<exists>r\<in>roles. case find_role (rc_roles c) r of None \<Rightarrow> False | Some x \<Rightarrow> ro_requires_aal2 x)"

section \<open>Loading\<close>

definition VALID_ORIGINS :: "string list" where
  "VALID_ORIGINS = [''affiliation'', ''group'']"

definition nonempty_str :: "pyval \<Rightarrow> string option" where
  "nonempty_str v = (case v of PStr s \<Rightarrow> if s = [] then None else Some s | _ \<Rightarrow> None)"

definition py_str :: "(pyval \<Rightarrow> string) \<Rightarrow> pyval \<Rightarrow> string" where
  "py_str reprs v = (case v of PStr s \<Rightarrow> s | _ \<Rightarrow> reprs v)"

definition parse_role :: "(pyval \<Rightarrow> string) \<Rightarrow> string list \<Rightarrow> pyval \<Rightarrow> (role_error, role) result" where
  "parse_role reprs seen entry = (case entry of
       PDict d \<Rightarrow> (case nonempty_str (dict_get d ''id'') of
           None \<Rightarrow> Err RoleError
         | Some role_id \<Rightarrow>
             if role_id \<in> set seen then Err RoleError
             else (case nonempty_str (dict_get d ''display_name'') of
                 None \<Rightarrow> Err RoleError
               | Some display \<Rightarrow> Ok \<lparr>ro_id = role_id, ro_display_name = display,
                   ro_description = py_str reprs (dict_get_default d ''description'' (PStr [])),
                   ro_requires_aal2 = py_truthy (dict_get_default d ''requires_aal2'' (PBool False))\<rparr>))
     | _ \<Rightarrow> Err RoleError)"

fun parse_roles :: "(pyval \<Rightarrow> string) \<Rightarrow> string list \<Rightarrow> pyval list \<Rightarrow> (role_error, role list) result" where
  "parse_roles reprs seen [] = Ok []"
| "parse_roles reprs seen (entry # rest) = (case parse_role reprs seen entry of Inl e \<Rightarrow> Err e
     | Inr r \<Rightarrow> (case parse_roles reprs (ro_id r # seen) rest of Inl e \<Rightarrow> Err e | Inr rs \<Rightarrow> Ok (r # rs)))"

definition load_role_list :: "(pyval \<Rightarrow> string) \<Rightarrow> pyval \<Rightarrow> (role_error, role list) result" where
  "load_role_list reprs raw = (case raw of
       PList l \<Rightarrow> if l = [] then Err RoleError else parse_roles reprs [] l | _ \<Rightarrow> Err RoleError)"

text \<open>\<open>role not in roles\<close>: hashing a list or a dict raises.\<close>

definition known_role :: "role list \<Rightarrow> pyval \<Rightarrow> (role_error, bool) result" where
  "known_role rs v = (if \<not> hashable v then Err TypeErrorRole else Ok (v \<in> PStr ` set (map ro_id rs)))"

definition origin_of :: "string \<Rightarrow> origin" where
  "origin_of s = (if s = ''affiliation'' then AFFILIATION else if s = ''group'' then GROUP else DIRECT)"

definition parse_derivation :: "role list \<Rightarrow> pyval \<Rightarrow> (role_error, derivation) result" where
  "parse_derivation rs entry = (case entry of
       PDict d \<Rightarrow> rbind (known_role rs (dict_get d ''role'')) (\<lambda>known.
         if \<not> known then Err RoleError
         else (case filter (\<lambda>k. map_of d k \<noteq> None) VALID_ORIGINS of
             [k] \<Rightarrow> (case nonempty_str (dict_get d k) of
                 None \<Rightarrow> Err RoleError
               | Some value \<Rightarrow> Ok \<lparr>de_role = (case dict_get d ''role'' of PStr s \<Rightarrow> s | _ \<Rightarrow> []),
                   de_origin = origin_of k, de_value = value\<rparr>)
           | _ \<Rightarrow> Err RoleError))
     | _ \<Rightarrow> Err RoleError)"

definition load_derivations :: "role list \<Rightarrow> pyval \<Rightarrow> (role_error, derivation list) result" where
  "load_derivations rs raw = (case raw of
       PNone \<Rightarrow> Ok [] | PList l \<Rightarrow> rmap (parse_derivation rs) l | _ \<Rightarrow> Err RoleError)"

definition parse_conflict :: "role list \<Rightarrow> pyval \<Rightarrow> (role_error, conflict) result" where
  "parse_conflict rs entry = (case entry of
       PDict d \<Rightarrow> (case dict_get d ''roles'' of
           PList pair \<Rightarrow>
             if length pair < 2 then Err RoleError
             else rbind (rmap (known_role rs) pair) (\<lambda>known.
               if \<not> list_all id known then Err RoleError
               else (case nonempty_str (dict_get d ''reason'') of
                   None \<Rightarrow> Err RoleError
                 | Some reason \<Rightarrow> Ok \<lparr>cf_roles = set (strings_of pair), cf_reason = reason\<rparr>))
         | _ \<Rightarrow> Err RoleError)
     | _ \<Rightarrow> Err RoleError)"

definition load_conflicts :: "role list \<Rightarrow> pyval \<Rightarrow> (role_error, conflict list) result" where
  "load_conflicts rs raw = (case raw of
       PNone \<Rightarrow> Ok [] | PList l \<Rightarrow> rmap (parse_conflict rs) l | _ \<Rightarrow> Err RoleError)"

definition load_roles :: "(pyval \<Rightarrow> string) \<Rightarrow> pyval option \<Rightarrow> (role_error, role_catalogue) result" where
  "load_roles reprs document = (case document of
       Some (PDict d) \<Rightarrow>
         rbind (load_role_list reprs (dict_get d ''roles'')) (\<lambda>rs.
         rbind (load_derivations rs (dict_get d ''derivations'')) (\<lambda>ds.
         rbind (load_conflicts rs (dict_get d ''separation_of_duties'')) (\<lambda>cs.
           Ok \<lparr>rc_roles = rs, rc_derivations = ds, rc_conflicts = cs\<rparr>)))
     | _ \<Rightarrow> Err RoleError)"

text \<open>\<open>RoleStore.current\<close>; only a \<open>RoleError\<close> is survived.\<close>

definition roles_current ::
  "(pyval \<Rightarrow> string) \<Rightarrow> nat option \<Rightarrow> pyval option \<Rightarrow> nat option \<Rightarrow> (role_catalogue, nat) store \<Rightarrow>
     (role_error, role_catalogue) result \<times> (role_catalogue, nat) store" where
  "roles_current reprs seen document mtime st =
     (if store_changed seen st \<and> load_roles reprs document = Err TypeErrorRole then (Err TypeErrorRole, st)
      else let st' = store_read seen (load_roles reprs document) mtime st in (Ok (st_current st'), st'))"

section \<open>The assignments table\<close>

record role_assignment =
  ra_person :: string
  ra_role :: string
  ra_origin_kind :: string
  ra_origin_ref :: string
  ra_valid_from :: int
  ra_valid_until :: "int option"
  ra_granted_at :: int
  ra_granted_by :: "string option"

type_synonym assignments = "role_assignment list"

definition DERIVED :: "string list" where
  "DERIVED = [origin_value AFFILIATION, origin_value GROUP]"

definition ra_origin :: "role_assignment \<Rightarrow> string \<times> string \<times> string" where
  "ra_origin r = (ra_role r, ra_origin_kind r, ra_origin_ref r)"

definition ra_index :: "role_assignment \<Rightarrow> string \<times> string \<times> string \<times> string" where
  "ra_index r = (ra_person r, ra_origin r)"

definition row_fits :: "string set \<Rightarrow> role_assignment \<Rightarrow> bool" where
  "row_fits persons r = (ra_person r \<in> persons \<and> length (ra_role r) \<le> 64 \<and> length (ra_origin_ref r) \<le> 256 \<and>
     ra_origin_kind r \<in> {''affiliation'', ''group'', ''direct''} \<and>
     (case ra_granted_by r of None \<Rightarrow> True | Some s \<Rightarrow> length s \<le> 256) \<and>
     (case ra_valid_until r of None \<Rightarrow> True | Some u \<Rightarrow> ra_valid_from r \<le> u))"

definition table_ok :: "string set \<Rightarrow> assignments \<Rightarrow> bool" where
  "table_ok persons rows = (list_all (row_fits persons) rows \<and> distinct (map ra_index rows))"

definition commit :: "string set \<Rightarrow> assignments \<Rightarrow> (role_error, assignments) result" where
  "commit persons rows = (if table_ok persons rows then Ok rows else Err WriteRefused)"

definition live_on :: "role_assignment \<Rightarrow> int \<Rightarrow> bool" where
  "live_on r d = (if ra_valid_from r > d then False
     else (case ra_valid_until r of None \<Rightarrow> True | Some u \<Rightarrow> u > d))"

definition roles_for :: "assignments \<Rightarrow> string \<Rightarrow> int \<Rightarrow> string set" where
  "roles_for rows p d = ra_role ` set (filter (\<lambda>r. ra_person r = p \<and> live_on r d) rows)"

definition assignments_for :: "assignments \<Rightarrow> string \<Rightarrow> role_assignment list" where
  "assignments_for rows p = sort_key ra_granted_at (filter (\<lambda>r. ra_person r = p) rows)"

definition wanted_keys :: "assignment list \<Rightarrow> (string \<times> string \<times> string) list" where
  "wanted_keys derived = map (\<lambda>a. (as_role a, origin_value (as_origin a), as_reference a)) derived"

text \<open>The rows a derivation run owns, and what it does to one of them.\<close>

definition owned_by_run :: "string \<Rightarrow> role_assignment \<Rightarrow> bool" where
  "owned_by_run p r = (ra_person r = p \<and> ra_origin_kind r \<in> set DERIVED)"

definition reconcile_row :: "(string \<times> string \<times> string) list \<Rightarrow> int \<Rightarrow> role_assignment \<Rightarrow> role_assignment" where
  "reconcile_row wanted today r =
     (if ra_origin r \<in> set wanted
      then (case ra_valid_until r of
          Some u \<Rightarrow> if u < today then r\<lparr>ra_valid_until := None\<rparr> else r | None \<Rightarrow> r)
      else if live_on r today then r\<lparr>ra_valid_until := Some today\<rparr> else r)"

definition derived_row :: "string \<Rightarrow> int \<Rightarrow> int \<Rightarrow> string \<times> string \<times> string \<Rightarrow> role_assignment" where
  "derived_row p today now k = (case k of (role, kind, reference) \<Rightarrow>
     \<lparr>ra_person = p, ra_role = role, ra_origin_kind = kind, ra_origin_ref = reference, ra_valid_from = today,
      ra_valid_until = None, ra_granted_at = now, ra_granted_by = None\<rparr>)"

definition reconcile_derived ::
  "string set \<Rightarrow> assignments \<Rightarrow> string \<Rightarrow> assignment list \<Rightarrow> int \<Rightarrow> int \<Rightarrow>
     (role_error, (nat \<times> nat) \<times> assignments) result" where
  "reconcile_derived persons rows p derived today now =
     (let wanted = wanted_keys derived;
          mine = filter (owned_by_run p) rows;
          missing = sorted_set (filter (\<lambda>k. k \<notin> ra_origin ` set mine) wanted);
          rows' = map (\<lambda>r. if owned_by_run p r then reconcile_row wanted today r else r) rows @
            map (derived_row p today now) missing;
          ended = length (filter (\<lambda>r. ra_origin r \<notin> set wanted \<and> live_on r today) mine) in
      rbind (commit persons rows') (\<lambda>rows''. Ok ((length missing, ended), rows'')))"

definition same_grant :: "string \<Rightarrow> string \<Rightarrow> string \<Rightarrow> role_assignment \<Rightarrow> bool" where
  "same_grant p role granted_by r =
     (ra_person r = p \<and> ra_role r = role \<and> ra_origin_kind r = origin_value DIRECT \<and> ra_origin_ref r = granted_by)"

text \<open>\<open>grant\<close> reads and checks in one transaction and writes in another: two steps.\<close>

definition grant_check :: "role_catalogue \<Rightarrow> assignments \<Rightarrow> string \<Rightarrow> string \<Rightarrow> int \<Rightarrow> (role_error, unit) result" where
  "grant_check c rows p role today =
     (if find_role (rc_roles c) role = None then Err RoleError
      else assert_compatible c (roles_for rows p today \<union> {role}))"

definition grant_write ::
  "string set \<Rightarrow> assignments \<Rightarrow> string \<Rightarrow> string \<Rightarrow> string \<Rightarrow> int \<Rightarrow> int option \<Rightarrow> int \<Rightarrow>
     (role_error, bool \<times> assignments) result" where
  "grant_write persons rows p role granted_by today until now =
     (if \<exists>r\<in>set rows. same_grant p role granted_by r
      then rbind (commit persons (map (\<lambda>r. if same_grant p role granted_by r then r\<lparr>ra_valid_until := until\<rparr> else r) rows))
        (\<lambda>rows'. Ok (False, rows'))
      else rbind (commit persons (rows @ [\<lparr>ra_person = p, ra_role = role, ra_origin_kind = origin_value DIRECT,
          ra_origin_ref = granted_by, ra_valid_from = today, ra_valid_until = until, ra_granted_at = now,
          ra_granted_by = Some granted_by\<rparr>])) (\<lambda>rows'. Ok (True, rows')))"

definition grant_role ::
  "role_catalogue \<Rightarrow> string set \<Rightarrow> assignments \<Rightarrow> string \<Rightarrow> string \<Rightarrow> string \<Rightarrow> int \<Rightarrow> int option \<Rightarrow> int \<Rightarrow>
     (role_error, bool \<times> assignments) result" where
  "grant_role c persons rows p role granted_by today until now =
     rbind (grant_check c rows p role today) (\<lambda>_. grant_write persons rows p role granted_by today until now)"

definition revoke_role ::
  "string set \<Rightarrow> assignments \<Rightarrow> string \<Rightarrow> string \<Rightarrow> int \<Rightarrow> (role_error, nat \<times> assignments) result" where
  "revoke_role persons rows p role today =
     (let hit = (\<lambda>r. ra_person r = p \<and> ra_role r = role \<and> live_on r today) in
      rbind (commit persons (map (\<lambda>r. if hit r then r\<lparr>ra_valid_until := Some today\<rparr> else r) rows))
        (\<lambda>rows'. Ok (length (filter hit rows), rows')))"

section \<open>What a loaded file satisfies\<close>

definition derivation_ok :: "role list \<Rightarrow> derivation \<Rightarrow> bool" where
  "derivation_ok rs d = (de_role d \<in> ro_id ` set rs \<and> de_origin d \<noteq> DIRECT \<and> de_value d \<noteq> [])"

definition conflict_ok :: "role list \<Rightarrow> conflict \<Rightarrow> bool" where
  "conflict_ok rs cf = (cf_roles cf \<subseteq> ro_id ` set rs \<and> cf_roles cf \<noteq> {} \<and> cf_reason cf \<noteq> [])"

definition catalogue_ok :: "role_catalogue \<Rightarrow> bool" where
  "catalogue_ok c = (distinct (map ro_id (rc_roles c)) \<and>
     list_all (\<lambda>r. ro_id r \<noteq> [] \<and> ro_display_name r \<noteq> []) (rc_roles c) \<and>
     list_all (derivation_ok (rc_roles c)) (rc_derivations c) \<and> list_all (conflict_ok (rc_roles c)) (rc_conflicts c))"

lemma nonempty_str_Some: "nonempty_str v = Some s \<longleftrightarrow> v = PStr s \<and> s \<noteq> []"
  by (auto simp: nonempty_str_def split: pyval.splits)

lemma parse_role_Ok:
  "parse_role reprs seen entry = Ok r \<Longrightarrow> ro_id r \<noteq> [] \<and> ro_display_name r \<noteq> [] \<and> ro_id r \<notin> set seen"
  by (auto simp: parse_role_def nonempty_str_Some split: pyval.splits option.splits if_splits)

lemma parse_roles_Ok:
  "parse_roles reprs seen raw = Ok rs \<Longrightarrow>
     list_all (\<lambda>r. ro_id r \<noteq> [] \<and> ro_display_name r \<noteq> []) rs \<and> distinct (map ro_id rs) \<and>
     set (map ro_id rs) \<inter> set seen = {}"
proof (induction raw arbitrary: seen rs)
  case (Cons entry rest)
  then obtain r rs' where r: "parse_role reprs seen entry = Ok r" "rs = r # rs'"
      "parse_roles reprs (ro_id r # seen) rest = Ok rs'"
    by (auto split: sum.splits)
  from Cons.IH[OF r(3)] parse_role_Ok[OF r(1)] show ?case using r(2) by auto
qed simp

lemma parse_derivation_Ok: "parse_derivation rs entry = Ok d \<Longrightarrow> derivation_ok rs d"
  by (auto simp: parse_derivation_def derivation_ok_def rbind_eq_Ok known_role_def nonempty_str_Some VALID_ORIGINS_def
      origin_of_def split: pyval.splits list.splits option.splits if_splits)

lemma known_roles_strings:
  "rmap (known_role rs) pair = Ok known \<Longrightarrow> list_all id known \<Longrightarrow> set pair \<subseteq> PStr ` (ro_id ` set rs)"
proof (induction pair arbitrary: known)
  case (Cons v pair)
  then show ?case by (auto simp: known_role_def split: sum.splits if_splits)
qed simp

lemma parse_conflict_Ok: "parse_conflict rs entry = Ok cf \<Longrightarrow> conflict_ok rs cf"
proof -
  assume "parse_conflict rs entry = Ok cf"
  then obtain pair known where p: "\<not> length pair < 2" "rmap (known_role rs) pair = Ok known" "list_all id known"
      "cf_roles cf = set (strings_of pair)" "cf_reason cf \<noteq> []"
    by (auto simp: parse_conflict_def rbind_eq_Ok nonempty_str_Some split: pyval.splits option.splits if_splits)
  have "pair \<noteq> []" using p(1) by auto
  with strings_of_PStr[OF known_roles_strings[OF p(2,3)]] p(4,5) show ?thesis by (simp add: conflict_ok_def)
qed

lemma rmap_list_all: "rmap f xs = Ok ys \<Longrightarrow> (\<And>x y. f x = Ok y \<Longrightarrow> P y) \<Longrightarrow> list_all P ys"
  by (auto simp: list_all_iff dest: rmap_Ok_setD)

lemma load_derivations_ok: "load_derivations rs raw = Ok ds \<Longrightarrow> list_all (derivation_ok rs) ds"
  unfolding load_derivations_def
  by (cases raw) (auto elim!: rmap_list_all intro: parse_derivation_Ok)

lemma load_conflicts_ok: "load_conflicts rs raw = Ok cs \<Longrightarrow> list_all (conflict_ok rs) cs"
  unfolding load_conflicts_def
  by (cases raw) (auto elim!: rmap_list_all intro: parse_conflict_Ok)

lemma load_role_list_ok:
  "load_role_list reprs raw = Ok rs \<Longrightarrow>
     list_all (\<lambda>r. ro_id r \<noteq> [] \<and> ro_display_name r \<noteq> []) rs \<and> distinct (map ro_id rs)"
  unfolding load_role_list_def
  by (cases raw) (auto dest!: parse_roles_Ok split: if_splits)

lemma load_roles_ok:
  assumes "load_roles reprs document = Ok c"
  shows "catalogue_ok c"
proof -
  obtain d where d: "document = Some (PDict d)"
    using assms by (auto simp: load_roles_def split: option.splits pyval.splits)
  then obtain rs ds cs where "load_role_list reprs (dict_get d ''roles'') = Ok rs"
      "load_derivations rs (dict_get d ''derivations'') = Ok ds"
      "load_conflicts rs (dict_get d ''separation_of_duties'') = Ok cs"
      "c = \<lparr>rc_roles = rs, rc_derivations = ds, rc_conflicts = cs\<rparr>"
    using assms by (auto simp: load_roles_def rbind_eq_Ok)
  then show ?thesis
    by (simp add: catalogue_ok_def load_role_list_ok load_derivations_ok load_conflicts_ok)
qed

interpretation role_loader: validated_loader "load_roles reprs" catalogue_ok no_roles
  for reprs
proof
  show "catalogue_ok c" if "load_roles reprs d = Ok c" for d c using that by (rule load_roles_ok)
  show "catalogue_ok no_roles" by (simp add: catalogue_ok_def no_roles_def)
qed

section \<open>The table against its specification\<close>

text \<open>What the table promises on a day: a set of holdings, a person with a role and the reason for it.\<close>

definition live_holdings :: "assignments \<Rightarrow> int \<Rightarrow> (string \<times> string \<times> string \<times> string) set" where
  "live_holdings rows d = ra_index ` set (filter (\<lambda>r. live_on r d) rows)"

lemma roles_for_holdings: "roles_for rows p d = {role. \<exists>k ref. (p, role, k, ref) \<in> live_holdings rows d}"
  by (auto simp: roles_for_def live_holdings_def ra_index_def ra_origin_def image_iff)

lemma commit_eq_Ok: "commit persons rows = Ok rows' \<longleftrightarrow> table_ok persons rows \<and> rows' = rows"
  by (auto simp: commit_def)

lemma distinct_indexD:
  "distinct (map ra_index rows) \<Longrightarrow> r \<in> set rows \<Longrightarrow> r' \<in> set rows \<Longrightarrow> ra_index r = ra_index r' \<Longrightarrow> r = r'"
  by (auto simp: distinct_map inj_on_def)

lemma ended_today_dead [simp]: "\<not> live_on (r\<lparr>ra_valid_until := Some d\<rparr>) d"
  by (simp add: live_on_def)

lemma ra_index_until [simp]: "ra_index (r\<lparr>ra_valid_until := u\<rparr>) = ra_index r"
  by (simp add: ra_index_def ra_origin_def)

lemma row_fits_ended: "row_fits persons r \<Longrightarrow> live_on r d \<Longrightarrow> row_fits persons (r\<lparr>ra_valid_until := Some d\<rparr>)"
  by (auto simp: row_fits_def live_on_def split: if_splits)

lemma row_fits_open: "row_fits persons r \<Longrightarrow> row_fits persons (r\<lparr>ra_valid_until := None\<rparr>)"
  by (auto simp: row_fits_def)

lemma reconcile_row_simps [simp]:
  "ra_index (reconcile_row w d r) = ra_index r" "ra_person (reconcile_row w d r) = ra_person r"
  "ra_origin (reconcile_row w d r) = ra_origin r" "ra_origin_kind (reconcile_row w d r) = ra_origin_kind r"
  by (auto simp: reconcile_row_def ra_origin_def split: option.splits)

lemma derived_row_simps [simp]:
  "ra_index (derived_row p d n k) = (p, k)" "ra_origin (derived_row p d n k) = k"
  "ra_person (derived_row p d n k) = p" "live_on (derived_row p d n k) d"
  by (auto simp: derived_row_def ra_index_def ra_origin_def live_on_def split: prod.splits)

lemma row_fits_reconcile: "row_fits persons r \<Longrightarrow> row_fits persons (reconcile_row w d r)"
  by (auto simp: reconcile_row_def row_fits_ended row_fits_open split: option.splits)

lemma reconcile_row_live:
  "live_on (reconcile_row w d r) d \<longleftrightarrow> ra_origin r \<in> set w \<and> ra_valid_from r \<le> d \<and> ra_valid_until r \<noteq> Some d"
  by (auto simp: reconcile_row_def live_on_def split: option.splits)

lemma revoke_holdings:
  assumes "revoke_role persons rows p role d = Ok (n, rows')"
  shows "live_holdings rows' d = {h \<in> live_holdings rows d. \<not> (fst h = p \<and> fst (snd h) = role)}"
proof -
  have r': "rows' = map (\<lambda>r. if ra_person r = p \<and> ra_role r = role \<and> live_on r d then r\<lparr>ra_valid_until := Some d\<rparr> else r) rows"
    using assms by (auto simp: revoke_role_def rbind_eq_Ok commit_eq_Ok)
  have "live_holdings rows' d = ra_index ` {r \<in> set rows. live_on r d \<and> \<not> (ra_person r = p \<and> ra_role r = role)}"
    unfolding live_holdings_def r' by force
  also have "\<dots> = {h \<in> live_holdings rows d. \<not> (fst h = p \<and> fst (snd h) = role)}"
    by (auto simp: live_holdings_def ra_index_def ra_origin_def)
  finally show ?thesis .
qed

text \<open>The days a derivation run cannot give a role back: a row that ends today, or starts later.\<close>

definition held_back :: "assignments \<Rightarrow> string \<Rightarrow> int \<Rightarrow> (string \<times> string \<times> string) set" where
  "held_back rows p d = ra_origin ` set (filter (\<lambda>r. owned_by_run p r \<and>
     (ra_valid_from r > d \<or> ra_valid_until r = Some d)) rows)"

definition missing_keys :: "assignments \<Rightarrow> string \<Rightarrow> (string \<times> string \<times> string) list \<Rightarrow> (string \<times> string \<times> string) list" where
  "missing_keys rows p wanted = sorted_set (filter (\<lambda>k. k \<notin> ra_origin ` set (filter (owned_by_run p) rows)) wanted)"

definition reconciled_rows :: "assignments \<Rightarrow> string \<Rightarrow> (string \<times> string \<times> string) list \<Rightarrow> int \<Rightarrow> int \<Rightarrow> assignments" where
  "reconciled_rows rows p wanted today now =
     map (\<lambda>r. if owned_by_run p r then reconcile_row wanted today r else r) rows @
     map (derived_row p today now) (missing_keys rows p wanted)"

lemma reconcile_derived_Ok:
  "reconcile_derived persons rows p derived today now = Ok (n, rows') \<longleftrightarrow>
     table_ok persons (reconciled_rows rows p (wanted_keys derived) today now) \<and>
     rows' = reconciled_rows rows p (wanted_keys derived) today now \<and>
     n = (length (missing_keys rows p (wanted_keys derived)),
          length (filter (\<lambda>r. ra_origin r \<notin> set (wanted_keys derived) \<and> live_on r today) (filter (owned_by_run p) rows)))"
  by (auto simp: reconcile_derived_def Let_def rbind_eq_Ok commit_eq_Ok reconciled_rows_def missing_keys_def)

abbreviation derived_kind :: "string \<times> string \<times> string \<Rightarrow> bool" where
  "derived_kind k \<equiv> fst (snd k) \<in> set DERIVED"

lemma derive_kinds: "catalogue_ok c \<Longrightarrow> k \<in> set (wanted_keys (derive c A G)) \<Longrightarrow> derived_kind k"
  by (auto simp: wanted_keys_def derive_def fires_def DERIVED_def origin_value_def)

lemma owned_by_run_key: "owned_by_run p r \<longleftrightarrow> fst (ra_index r) = p \<and> derived_kind (snd (ra_index r))"
  by (simp add: owned_by_run_def ra_index_def ra_origin_def)

lemma missing_key_absent:
  "k \<in> set (missing_keys rows p w) \<Longrightarrow> derived_kind k \<Longrightarrow> (p, k) \<notin> ra_index ` set rows"
  by (auto simp: missing_keys_def owned_by_run_def ra_index_def ra_origin_def image_iff)

lemma live_holdings_append: "live_holdings (xs @ ys) d = live_holdings xs d \<union> live_holdings ys d"
  by (auto simp: live_holdings_def)

lemma live_holdings_map:
  "(\<And>r. ra_index (f r) = ra_index r) \<Longrightarrow> live_holdings (map f rows) d = ra_index ` {r \<in> set rows. live_on (f r) d}"
  by (force simp: live_holdings_def image_iff)

lemma live_holdings_derived: "live_holdings (map (derived_row p d n) ks) d = Pair p ` set ks"
  by (force simp: live_holdings_def image_iff)

lemma mine_not_held_back:
  assumes "distinct (map ra_index rows)" and r: "r \<in> set rows" "owned_by_run p r" "ra_valid_from r \<le> d" "ra_valid_until r \<noteq> Some d"
  shows "ra_origin r \<notin> held_back rows p d"
proof
  assume "ra_origin r \<in> held_back rows p d"
  then obtain r' where r': "r' \<in> set rows" "owned_by_run p r'" "ra_valid_from r' > d \<or> ra_valid_until r' = Some d"
      "ra_origin r' = ra_origin r"
    by (auto simp: held_back_def)
  then have "ra_index r' = ra_index r" using r(2) by (simp add: ra_index_def owned_by_run_def)
  then have "r' = r" using distinct_indexD[OF assms(1) r'(1) r(1)] by simp
  then show False using r'(3) r(3,4) by auto
qed

lemma mine_or_missing:
  assumes "distinct (map ra_index rows)"
  shows "ra_origin ` {r \<in> set rows. owned_by_run p r \<and> ra_origin r \<in> set w \<and> ra_valid_from r \<le> d \<and> ra_valid_until r \<noteq> Some d} \<union>
     set (missing_keys rows p w) = {k \<in> set w. k \<notin> held_back rows p d}"
    (is "ra_origin ` ?mine \<union> ?missing = ?K")
proof (intro equalityI subsetI)
  fix k assume "k \<in> ra_origin ` ?mine \<union> ?missing"
  then show "k \<in> ?K"
    using mine_not_held_back[OF assms] by (auto simp: missing_keys_def held_back_def)
next
  fix k assume k: "k \<in> ?K"
  show "k \<in> ra_origin ` ?mine \<union> ?missing"
  proof (cases "\<exists>r\<in>set rows. owned_by_run p r \<and> ra_origin r = k")
    case True
    then obtain r where r: "r \<in> set rows" "owned_by_run p r" "ra_origin r = k" by blast
    then have "\<not> (ra_valid_from r > d \<or> ra_valid_until r = Some d)" using k by (auto simp: held_back_def)
    then show ?thesis using r k by auto
  next
    case False
    then show ?thesis using k by (auto simp: missing_keys_def)
  qed
qed

lemma reconciled_live:
  assumes "distinct (map ra_index rows)"
  shows "live_holdings (reconciled_rows rows p w d n) d =
     {h \<in> live_holdings rows d. \<not> (fst h = p \<and> derived_kind (snd h))} \<union> Pair p ` {k \<in> set w. k \<notin> held_back rows p d}"
    (is "?L = ?keep \<union> _")
proof -
  let ?mine = "{r \<in> set rows. owned_by_run p r \<and> ra_origin r \<in> set w \<and> ra_valid_from r \<le> d \<and> ra_valid_until r \<noteq> Some d}"
  have "?L = ra_index ` {r \<in> set rows. \<not> owned_by_run p r \<and> live_on r d} \<union>
      ra_index ` {r \<in> set rows. owned_by_run p r \<and> live_on (reconcile_row w d r) d} \<union> Pair p ` set (missing_keys rows p w)"
    by (auto simp: reconciled_rows_def live_holdings_append live_holdings_map live_holdings_derived)
  also have "ra_index ` {r \<in> set rows. \<not> owned_by_run p r \<and> live_on r d} = ?keep"
    by (auto simp: live_holdings_def owned_by_run_key)
  also have "{r \<in> set rows. owned_by_run p r \<and> live_on (reconcile_row w d r) d} = ?mine"
    by (auto simp: reconcile_row_live)
  also have "ra_index ` ?mine = Pair p ` ra_origin ` ?mine"
    unfolding image_image by (rule image_cong) (auto simp: ra_index_def owned_by_run_def)
  finally show ?thesis by (simp add: mine_or_missing[OF assms, symmetric] image_Un Un_assoc)
qed

lemma reconciled_table_ok:
  assumes "table_ok persons rows" and "p \<in> persons" and kinds: "\<forall>k\<in>set w. derived_kind k"
    and fits: "\<forall>k\<in>set w. length (fst k) \<le> 64 \<and> length (snd (snd k)) \<le> 256"
  shows "table_ok persons (reconciled_rows rows p w d n)"
proof -
  have w: "set (missing_keys rows p w) \<subseteq> set w" by (auto simp: missing_keys_def)
  have idx: "map ra_index (reconciled_rows rows p w d n) = map ra_index rows @ map (Pair p) (missing_keys rows p w)"
    by (simp add: reconciled_rows_def)
  have "distinct (map ra_index (reconciled_rows rows p w d n))"
  proof -
    have "set (map ra_index rows) \<inter> set (map (Pair p) (missing_keys rows p w)) = {}"
      using missing_key_absent[of _ rows p w] subsetD[OF w] kinds by (fastforce simp del: split_paired_All)
    moreover have "distinct (map (Pair p) (missing_keys rows p w))"
      by (simp add: distinct_map inj_on_def missing_keys_def)
    ultimately show ?thesis unfolding idx distinct_append using assms(1) by (simp add: table_ok_def)
  qed
  moreover have "row_fits persons (derived_row p d n k)" if "k \<in> set w" for k
    using that kinds fits assms(2) by (auto simp: row_fits_def derived_row_def DERIVED_def origin_value_def split: prod.splits)
  ultimately show ?thesis
    using assms(1) w by (auto simp: table_ok_def reconciled_rows_def list_all_iff row_fits_reconcile)
qed

lemma same_grant_index:
  "same_grant p role by r \<longleftrightarrow> ra_index r = (p, role, origin_value DIRECT, by)"
  by (auto simp: same_grant_def ra_index_def ra_origin_def)

lemma singleton_filter:
  assumes "a \<in> S" and "f a = x" and "\<And>b. b \<in> S \<Longrightarrow> f b = x \<Longrightarrow> b = a"
  shows "{b \<in> S. f b = x \<and> P b} = (if P a then {a} else {})"
proof -
  have "b \<in> S \<and> f b = x \<longleftrightarrow> b = a" for b using assms(1,2) assms(3)[of b] by blast
  then have "{b \<in> S. f b = x \<and> P b} = {b. b = a \<and> P b}" unfolding conj_assoc[symmetric] by (simp only:)
  then show ?thesis by (cases "P a") auto
qed

lemma grant_write_holdings:
  assumes "table_ok persons rows" and "grant_write persons rows p role by d until now = Ok (new, rows')"
  defines "x \<equiv> (p, role, origin_value DIRECT, by)"
  shows "live_holdings rows' d =
     (if (case until of None \<Rightarrow> True | Some u \<Rightarrow> d < u) \<and> \<not> (\<exists>r\<in>set rows. ra_index r = x \<and> d < ra_valid_from r)
      then insert x (live_holdings rows d) else live_holdings rows d - {x})"
proof (cases "\<exists>r\<in>set rows. ra_index r = x")
  case True
  then obtain r where r: "r \<in> set rows" "ra_index r = x" by blast
  have only: "r' = r" if "r' \<in> set rows" "ra_index r' = x" for r'
    using distinct_indexD[of rows r' r] assms(1) r that by (simp add: table_ok_def)
  have r': "rows' = map (\<lambda>r. if same_grant p role by r then r\<lparr>ra_valid_until := until\<rparr> else r) rows"
    using assms(2) True by (auto simp: grant_write_def same_grant_index x_def rbind_eq_Ok commit_eq_Ok split: if_splits)
  have set_live: "live_on (r\<lparr>ra_valid_until := until\<rparr>) d \<longleftrightarrow>
      (case until of None \<Rightarrow> True | Some u \<Rightarrow> d < u) \<and> \<not> d < ra_valid_from r" for r
    by (auto simp: live_on_def split: option.splits)
  have "live_holdings rows' d = ra_index ` {r \<in> set rows. live_on (if ra_index r = x then r\<lparr>ra_valid_until := until\<rparr> else r) d}"
    unfolding r' by (subst live_holdings_map) (simp_all add: same_grant_index x_def)
  also have "\<dots> = ra_index ` {r \<in> set rows. ra_index r \<noteq> x \<and> live_on r d} \<union>
      ra_index ` {r' \<in> set rows. ra_index r' = x \<and> live_on (r'\<lparr>ra_valid_until := until\<rparr>) d}"
    unfolding image_Un[symmetric] by (rule arg_cong[where f = "(`) ra_index"]) auto
  also have "ra_index ` {r \<in> set rows. ra_index r \<noteq> x \<and> live_on r d} = live_holdings rows d - {x}"
    by (auto simp: live_holdings_def)
  also have "{r' \<in> set rows. ra_index r' = x \<and> live_on (r'\<lparr>ra_valid_until := until\<rparr>) d} =
      (if live_on (r\<lparr>ra_valid_until := until\<rparr>) d then {r} else {})"
    by (rule singleton_filter[where f = ra_index, OF r]) (rule only)
  finally have "live_holdings rows' d = live_holdings rows d - {x} \<union> (if live_on (r\<lparr>ra_valid_until := until\<rparr>) d then {x} else {})"
    by (simp add: r(2))
  moreover have "(\<exists>r\<in>set rows. ra_index r = x \<and> d < ra_valid_from r) \<longleftrightarrow> d < ra_valid_from r"
    using r only by metis
  ultimately show ?thesis by (simp add: set_live)
next
  case False
  then have r': "rows' = rows @ [\<lparr>ra_person = p, ra_role = role, ra_origin_kind = origin_value DIRECT,
          ra_origin_ref = by, ra_valid_from = d, ra_valid_until = until, ra_granted_at = now, ra_granted_by = Some by\<rparr>]"
    using assms(2) by (auto simp: grant_write_def same_grant_index x_def rbind_eq_Ok commit_eq_Ok split: if_splits)
  have "x \<notin> live_holdings rows d" using False by (auto simp: live_holdings_def)
  then show ?thesis using False unfolding r' live_holdings_append
    by (auto simp: live_holdings_def live_on_def ra_index_def ra_origin_def x_def split: option.splits)
qed

section \<open>Properties\<close>

definition spec_reconcile ::
  "(string \<times> string \<times> string \<times> string) set \<Rightarrow> string \<Rightarrow> (string \<times> string \<times> string) set \<Rightarrow> (string \<times> string \<times> string \<times> string) set" where
  "spec_reconcile H p w = {h \<in> H. \<not> (fst h = p \<and> derived_kind (snd h))} \<union> Pair p ` w"

definition spec_revoke ::
  "(string \<times> string \<times> string \<times> string) set \<Rightarrow> string \<Rightarrow> string \<Rightarrow> (string \<times> string \<times> string \<times> string) set" where
  "spec_revoke H p role = {h \<in> H. \<not> (fst h = p \<and> fst (snd h) = role)}"

definition spec_grant ::
  "(string \<times> string \<times> string \<times> string) set \<Rightarrow> string \<Rightarrow> string \<Rightarrow> string \<Rightarrow> (string \<times> string \<times> string \<times> string) set" where
  "spec_grant H p role by = insert (p, role, ''direct'', by) H"

text \<open>C15. The assignments table implements a set of holdings (a person, a role, the reason): on the day of
  the call, reconciling replaces exactly the person's derived holdings by what the facts now say (less
  the keys whose row ends that very day or starts later), revoking removes every holding of the role,
  whatever its reason, and an open-ended grant not already dated in the future adds one; and each
  leaves a table that meets its constraints.\<close>

theorem roles_table_refines:
  assumes "table_ok persons rows" and "catalogue_ok c"
  shows "(case reconcile_derived persons rows p (derive c A G) d now of Inl e \<Rightarrow> True | Inr (n, rows') \<Rightarrow>
       table_ok persons rows' \<and> live_holdings rows' d = spec_reconcile (live_holdings rows d) p
         (set (wanted_keys (derive c A G)) - held_back rows p d)) \<and>
     (case revoke_role persons rows p role d of Inl e \<Rightarrow> False | Inr (n, rows') \<Rightarrow>
       table_ok persons rows' \<and> live_holdings rows' d = spec_revoke (live_holdings rows d) p role) \<and>
     (case grant_role c persons rows p role by d None now of Inl e \<Rightarrow> True | Inr (new, rows') \<Rightarrow>
       table_ok persons rows' \<and> (if \<exists>r\<in>set rows. same_grant p role by r \<and> d < ra_valid_from r then True
         else live_holdings rows' d = spec_grant (live_holdings rows d) p role by))"
proof (intro conjI)
  have dist: "distinct (map ra_index rows)" using assms(1) by (simp add: table_ok_def)
  show "case reconcile_derived persons rows p (derive c A G) d now of Inl e \<Rightarrow> True | Inr (n, rows') \<Rightarrow>
       table_ok persons rows' \<and> live_holdings rows' d = spec_reconcile (live_holdings rows d) p
         (set (wanted_keys (derive c A G)) - held_back rows p d)"
    by (auto simp: reconcile_derived_Ok reconciled_live[OF dist] spec_reconcile_def split: sum.splits)
next
  let ?hit = "\<lambda>r. ra_person r = p \<and> ra_role r = role \<and> live_on r d"
  let ?f = "\<lambda>r. if ?hit r then r\<lparr>ra_valid_until := Some d\<rparr> else r"
  have "map ra_index (map ?f rows) = map ra_index rows" by simp
  moreover have "list_all (row_fits persons) (map ?f rows)"
    using assms(1) by (auto simp: table_ok_def list_all_iff row_fits_ended)
  ultimately have "table_ok persons (map ?f rows)" using assms(1) unfolding table_ok_def by (simp only:)
  then have ok: "revoke_role persons rows p role d = Ok (length (filter ?hit rows), map ?f rows)"
    by (simp add: revoke_role_def Let_def commit_def)
  show "case revoke_role persons rows p role d of Inl e \<Rightarrow> False | Inr (n, rows') \<Rightarrow>
       table_ok persons rows' \<and> live_holdings rows' d = spec_revoke (live_holdings rows d) p role"
    using \<open>table_ok persons (map ?f rows)\<close> revoke_holdings[OF ok] unfolding ok by (simp add: spec_revoke_def)
next
  show "case grant_role c persons rows p role by d None now of Inl e \<Rightarrow> True | Inr (new, rows') \<Rightarrow>
       table_ok persons rows' \<and> (if \<exists>r\<in>set rows. same_grant p role by r \<and> d < ra_valid_from r then True
         else live_holdings rows' d = spec_grant (live_holdings rows d) p role by)"
  proof (cases "grant_role c persons rows p role by d None now")
    case (Inr nr)
    then obtain new rows' where w: "grant_write persons rows p role by d None now = Ok (new, rows')" "nr = (new, rows')"
      by (cases nr) (auto simp: grant_role_def rbind_eq_Ok)
    then have "table_ok persons rows'" by (auto simp: grant_write_def rbind_eq_Ok commit_eq_Ok split: if_splits)
    then show ?thesis using grant_write_holdings[OF assms(1) w(1)] Inr w(2)
      by (simp add: spec_grant_def same_grant_index origin_value_def)
  qed simp
qed

lemma roles_for_Nil: "roles_for [] p d = {}"
  by (simp add: roles_for_def)

lemma roles_for_Cons:
  "roles_for (r # rs) p d = (if ra_person r = p \<and> live_on r d then insert (ra_role r) (roles_for rs p d) else roles_for rs p d)"
  by (simp add: roles_for_def)

definition sample_catalogue :: role_catalogue where
  "sample_catalogue = \<lparr>
     rc_roles = [\<lparr>ro_id = ''student'', ro_display_name = ''Student'', ro_description = [], ro_requires_aal2 = False\<rparr>,
       \<lparr>ro_id = ''payer'', ro_display_name = ''Payer'', ro_description = [], ro_requires_aal2 = False\<rparr>,
       \<lparr>ro_id = ''approver'', ro_display_name = ''Approver'', ro_description = [], ro_requires_aal2 = True\<rparr>],
     rc_derivations = [\<lparr>de_role = ''student'', de_origin = AFFILIATION, de_value = ''student''\<rparr>],
     rc_conflicts = [\<lparr>cf_roles = {''payer'', ''approver''}, cf_reason = ''pays themselves''\<rparr>]\<rparr>"

lemma sample_catalogue_ok: "catalogue_ok sample_catalogue"
  by (simp add: sample_catalogue_def catalogue_ok_def derivation_ok_def conflict_ok_def)

lemmas grant_eval = grant_role_def grant_check_def sample_catalogue_def find_role_def assert_compatible_def conflicting_def
  roles_for_Nil roles_for_Cons live_on_def grant_write_def same_grant_def commit_def table_ok_def row_fits_def
  origin_value_def ra_index_def ra_origin_def guard_r_def

definition student_row :: role_assignment where
  "student_row = \<lparr>ra_person = ''p'', ra_role = ''student'', ra_origin_kind = ''affiliation'', ra_origin_ref = ''student'',
     ra_valid_from = 1, ra_valid_until = None, ra_granted_at = 0, ra_granted_by = None\<rparr>"

lemma student_row_ok: "table_ok {''p''} [student_row]"
  by (simp add: table_ok_def row_fits_def student_row_def)

theorem roles_table_refines_witness:
  "case reconcile_derived {''p''} [student_row] ''p'' (derive sample_catalogue {} {}) 5 0 of Inl e \<Rightarrow> False
   | Inr (n, rows') \<Rightarrow> n = (0, 1) \<and> live_holdings rows' 5 = {}"
proof -
  have "reconcile_derived {''p''} [student_row] ''p'' (derive sample_catalogue {} {}) 5 0 =
      Ok ((0, 1), [student_row\<lparr>ra_valid_until := Some 5\<rparr>])"
    by (simp add: reconcile_derived_Ok derive_def fires_def sample_catalogue_def wanted_keys_def missing_keys_def
        reconciled_rows_def sorted_set_def owned_by_run_def DERIVED_def origin_value_def student_row_def
        reconcile_row_def live_on_def table_ok_def row_fits_def)
  then show ?thesis
    using roles_table_refines[OF student_row_ok sample_catalogue_ok, where p = "''p''" and A = "{}" and G = "{}" and d = 5 and now = 0]
    by (simp add: spec_reconcile_def live_holdings_def student_row_def live_on_def)
qed

text \<open>Separation of duties holds on the day a grant takes effect: whatever the table held, after a grant
  that was not refused the person's roles that day contain no conflicting combination; and a grant of
  an undeclared role or of a conflicting one is refused.\<close>

theorem grant_keeps_duties:
  assumes "table_ok persons rows"
  shows "(case grant_role c persons rows p role by d until now of
       Inl e \<Rightarrow> True
     | Inr (new, rows') \<Rightarrow> conflicting c (roles_for rows' p d) = [] \<and> role \<in> ro_id ` set (rc_roles c) \<and>
         filter (\<lambda>r. ra_person r \<noteq> p) rows' = filter (\<lambda>r. ra_person r \<noteq> p) rows) \<and>
     (if conflicting c (roles_for rows p d \<union> {role}) \<noteq> [] \<or> role \<notin> ro_id ` set (rc_roles c)
      then grant_role c persons rows p role by d until now = Err RoleError else True)"
proof (intro conjI)
  show "case grant_role c persons rows p role by d until now of
       Inl e \<Rightarrow> True
     | Inr (new, rows') \<Rightarrow> conflicting c (roles_for rows' p d) = [] \<and> role \<in> ro_id ` set (rc_roles c) \<and>
         filter (\<lambda>r. ra_person r \<noteq> p) rows' = filter (\<lambda>r. ra_person r \<noteq> p) rows"
  proof (cases "grant_role c persons rows p role by d until now")
    case (Inr nr)
    then obtain new rows' where w: "grant_write persons rows p role by d until now = Ok (new, rows')" "nr = (new, rows')"
        "grant_check c rows p role d = Ok ()"
      by (cases nr) (auto simp: grant_role_def rbind_eq_Ok)
    have "roles_for rows' p d \<subseteq> roles_for rows p d \<union> {role}"
      unfolding roles_for_holdings using grant_write_holdings[OF assms w(1)] by (auto split: if_splits)
    then have "conflicting c (roles_for rows' p d) = []"
      using w(3) by (auto simp: grant_check_def assert_compatible_def guard_r_eq_Ok conflicting_def filter_empty_conv
          split: if_splits)
    moreover have "role \<in> ro_id ` set (rc_roles c)"
      using w(3) by (auto simp: grant_check_def find_role_def find_None_iff split: if_splits)
    moreover have "filter (\<lambda>r. ra_person r \<noteq> p) (map (\<lambda>r. if same_grant p role by r then r\<lparr>ra_valid_until := until\<rparr> else r) rs) =
        filter (\<lambda>r. ra_person r \<noteq> p) rs" for rs
      by (induction rs) (auto simp: same_grant_def)
    then have "filter (\<lambda>r. ra_person r \<noteq> p) rows' = filter (\<lambda>r. ra_person r \<noteq> p) rows"
      using w(1) by (auto simp: grant_write_def rbind_eq_Ok commit_eq_Ok split: if_splits)
    ultimately show ?thesis using Inr w(2) by simp
  qed simp
  show "if conflicting c (roles_for rows p d \<union> {role}) \<noteq> [] \<or> role \<notin> ro_id ` set (rc_roles c)
      then grant_role c persons rows p role by d until now = Err RoleError else True"
    by (auto simp: grant_role_def grant_check_def assert_compatible_def guard_r_def find_role_def find_None_iff)
qed

definition payer_row :: role_assignment where
  "payer_row = student_row\<lparr>ra_role := ''payer'', ra_origin_kind := ''direct'', ra_origin_ref := ''a'', ra_granted_by := Some ''a''\<rparr>"

theorem grant_keeps_duties_witness:
  "grant_role sample_catalogue {''p''} [payer_row] ''p'' ''approver'' ''a'' 5 None 0 = Err RoleError"
proof -
  have "table_ok {''p''} [payer_row]" by (simp add: table_ok_def row_fits_def payer_row_def student_row_def)
  note g = grant_keeps_duties[OF this, of sample_catalogue "''p''" 5 "''approver''" "''a''" None 0]
  have "conflicting sample_catalogue (roles_for [payer_row] ''p'' 5 \<union> {''approver''}) \<noteq> []"
    by (simp add: conflicting_def sample_catalogue_def roles_for_def payer_row_def student_row_def live_on_def)
  then show ?thesis using g by (simp only: simp_thms if_True)
qed

text \<open>The check looks at one day only.  Granting the conflicting role from today while the other is
  already granted from a later day passes, and on that later day both are held.\<close>

theorem future_grant_evades_duties:
  "\<exists>rows rows'. grant_role sample_catalogue {''p''} [] ''p'' ''payer'' ''a'' 10 None 0 = Ok (True, rows) \<and>
     grant_role sample_catalogue {''p''} rows ''p'' ''approver'' ''a'' 5 None 0 = Ok (True, rows') \<and>
     conflicting sample_catalogue (roles_for rows' ''p'' 10) \<noteq> []"
  by (simp add: grant_eval)

text \<open>The check and the write are two transactions: two grants whose checks both run before either
  writes leave the person with both roles at once.\<close>

theorem concurrent_grants_evade_duties:
  "\<exists>rows rows'. grant_check sample_catalogue [] ''p'' ''payer'' 5 = Ok () \<and>
     grant_check sample_catalogue [] ''p'' ''approver'' 5 = Ok () \<and>
     grant_write {''p''} [] ''p'' ''payer'' ''a'' 5 None 0 = Ok (True, rows) \<and>
     grant_write {''p''} rows ''p'' ''approver'' ''b'' 5 None 0 = Ok (True, rows') \<and>
     conflicting sample_catalogue (roles_for rows' ''p'' 5) \<noteq> []"
  by (simp add: grant_eval)

text \<open>Revoking a derived role lasts a day: the next derivation run reopens the row, because the fact
  behind it is still true.\<close>

theorem revoked_derived_role_returns:
  assumes "table_ok persons rows" and "p \<in> persons" and "r \<in> set rows" and "owned_by_run p r" and "live_on r d"
    and "ra_origin r \<in> set (wanted_keys (derive c A G))" and "d < d'"
    and "revoke_role persons rows p (ra_role r) d = Ok (n, revoked)"
  shows "ra_role r \<notin> roles_for revoked p d \<and>
     ra_role r \<in> roles_for (reconciled_rows revoked p (wanted_keys (derive c A G)) d' now) p d'"
proof
  show "ra_role r \<notin> roles_for revoked p d"
    unfolding roles_for_holdings revoke_holdings[OF assms(8)] by auto
  let ?r = "r\<lparr>ra_valid_until := Some d\<rparr>"
  have "?r \<in> set revoked"
    using assms(3-5,8) by (auto simp: revoke_role_def Let_def rbind_eq_Ok commit_eq_Ok owned_by_run_def image_iff intro!: bexI[of _ r])
  moreover have "owned_by_run p ?r" using assms(4) by (simp add: owned_by_run_def)
  moreover have "reconcile_row (wanted_keys (derive c A G)) d' ?r = r\<lparr>ra_valid_until := None\<rparr>"
    using assms(6,7) by (simp add: reconcile_row_def ra_origin_def)
  ultimately have "r\<lparr>ra_valid_until := None\<rparr> \<in> set (reconciled_rows revoked p (wanted_keys (derive c A G)) d' now)"
    by (force simp: reconciled_rows_def image_iff)
  moreover have "live_on (r\<lparr>ra_valid_until := None\<rparr>) d'"
    using assms(5,7) by (auto simp: live_on_def split: if_splits)
  ultimately show "ra_role r \<in> roles_for (reconciled_rows revoked p (wanted_keys (derive c A G)) d' now) p d'"
    using assms(4) by (force simp: roles_for_def owned_by_run_def image_iff)
qed

text \<open>Whatever is on disk at each read, the role store serves a catalogue whose role identifiers are
  unique, whose derivations name declared roles and a registry fact, and whose conflicts name declared
  roles and a reason; what it derives from any facts is therefore a declared role with the fact that
  produced it, never a direct grant.\<close>

theorem role_store_sound:
  assumes "\<forall>e\<in>set events. \<exists>document. fst (snd e) = load_roles reprs document"
  shows "let c = st_current (store_run events (store_init no_roles (load_roles reprs first) mtime)) in
     catalogue_ok c \<and>
     list_all (\<lambda>a. as_role a \<in> ro_id ` set (rc_roles c) \<and>
       (case as_origin a of AFFILIATION \<Rightarrow> as_reference a \<in> A | GROUP \<Rightarrow> as_reference a \<in> G | DIRECT \<Rightarrow> False)) (derive c A G)"
proof -
  have "catalogue_ok (st_current (store_run events (store_init no_roles (load_roles reprs first) mtime)))"
    by (rule role_loader.run_ok[OF role_loader.init_ok assms])
  then show ?thesis
    by (auto simp: Let_def derive_def fires_def catalogue_ok_def derivation_ok_def list_all_iff split: origin.splits)
qed

definition sample_role_document :: "pyval \<Rightarrow> pyval" where
  "sample_role_document conflicts = PDict [
     (''roles'', PList [PDict [(''id'', PStr ''tutor''), (''display_name'', PStr ''Tutor'')]]),
     (''derivations'', PList [PDict [(''role'', PStr ''tutor''), (''group'', PStr ''tutors'')]]),
     (''separation_of_duties'', conflicts)]"

lemmas load_roles_eval = load_roles_def sample_role_document_def dict_get_def dict_get_default_def load_role_list_def
  parse_role_def nonempty_str_def py_str_def load_derivations_def parse_derivation_def known_role_def VALID_ORIGINS_def
  origin_of_def load_conflicts_def parse_conflict_def strings_of_def map_filter_simps

theorem role_store_sound_witness:
  "catalogue_ok (st_current (store_run [(Some 2, load_roles (\<lambda>_. []) None, Some 2)]
     (store_init no_roles (load_roles (\<lambda>_. []) (Some (sample_role_document PNone))) (Some (1 :: nat))))) \<and>
   rc_derivations (st_current (store_run [(Some 2, load_roles (\<lambda>_. []) None, Some 2)]
     (store_init no_roles (load_roles (\<lambda>_. []) (Some (sample_role_document PNone))) (Some (1 :: nat))))) =
     [\<lparr>de_role = ''tutor'', de_origin = GROUP, de_value = ''tutors''\<rparr>]"
proof
  show "rc_derivations (st_current (store_run [(Some 2, load_roles (\<lambda>_. []) None, Some 2)]
     (store_init no_roles (load_roles (\<lambda>_. []) (Some (sample_role_document PNone))) (Some (1 :: nat))))) =
     [\<lparr>de_role = ''tutor'', de_origin = GROUP, de_value = ''tutors''\<rparr>]"
    by (simp add: load_roles_eval store_init_def store_reload_def store_read_def store_changed_def)
qed (use role_store_sound[of "[(Some 2, load_roles (\<lambda>_. []) None, Some 2)]" "\<lambda>_. []" "Some (sample_role_document PNone)" "Some (1 :: nat)"]
  in \<open>simp only: Let_def, fastforce\<close>)

text \<open>A role file naming a list where a role belongs is not rejected but raises: the exception is not
  one the store survives, so every read fails until the file is put right.\<close>

theorem unhashable_role_raises:
  "mtime \<noteq> st_fingerprint st \<Longrightarrow>
   roles_current reprs mtime (Some (sample_role_document (PList [PDict [(''roles'', PList [PList [], PStr ''tutor''])]]))) mtime st =
     (Err TypeErrorRole, st)"
  by (simp add: roles_current_def store_changed_def load_roles_eval)

text \<open>A conflict that lists one role twice is accepted, and forbids that role on its own.\<close>

theorem repeated_role_conflict_accepted:
  "\<exists>c. load_roles reprs (Some (sample_role_document (PList [PDict [(''roles'', PList [PStr ''tutor'', PStr ''tutor'']),
       (''reason'', PStr ''why'')]]))) = Ok c \<and>
     (\<forall>persons rows p by d until now. grant_role c persons rows p ''tutor'' by d until now = Err RoleError)"
  by (simp add: load_roles_eval grant_role_def grant_check_def find_role_def assert_compatible_def conflicting_def guard_r_def)

end
