(* ===== verification/DecisionCache.thy ===== *)
theory DecisionCache
  imports Authz Redis JsonText
begin

text \<open>
  The cache of authorization decisions (\<open>campusid/authz/cache.py\<close>) in front of the engine of
  \<open>Authz\<close>: a decision is kept for a minute under a key that names the question and the person's epoch,
  and an invalidation increments the epoch.

  Redis is the record of commands of \<open>Redis\<close>; \<open>up\<close> says whether an operation reaches it (no client, or
  any exception, is \<open>False\<close>).  \<open>sha\<close> is the hexadecimal SHA-256 of a text.  A decoded decision carries
  whatever the document had in its untyped fields.
\<close>

section \<open>Decisions as documents\<close>

definition CACHE_TTL :: nat where "CACHE_TTL = 60"
definition DECISION_PREFIX :: string where "DECISION_PREFIX = ''authz:decision:''"
definition EPOCH_PREFIX :: string where "EPOCH_PREFIX = ''authz:epoch:''"

definition effect_value :: "effect \<Rightarrow> string" where
  "effect_value e = (case e of PERMIT \<Rightarrow> ''permit'' | DENY \<Rightarrow> ''deny'' | CHALLENGE \<Rightarrow> ''challenge'')"

definition effect_of :: "pyval \<Rightarrow> effect option" where
  "effect_of v = (if v = PStr ''permit'' then Some PERMIT else if v = PStr ''deny'' then Some DENY
     else if v = PStr ''challenge'' then Some CHALLENGE else None)"

record cached =
  cd_effect :: effect
  cd_rule_id :: pyval
  cd_reason :: pyval
  cd_required_assurance :: pyval

definition as_cached :: "decision \<Rightarrow> cached" where
  "as_cached d = \<lparr>cd_effect = d_effect d, cd_rule_id = PStr (d_rule_id d), cd_reason = PStr (d_reason d),
     cd_required_assurance = (case d_required_assurance d of None \<Rightarrow> PNone | Some a \<Rightarrow> PStr a)\<rparr>"

definition encode_decision :: "decision \<Rightarrow> pyval" where
  "encode_decision d = PDict [(''effect'', PStr (effect_value (d_effect d))), (''rule_id'', PStr (d_rule_id d)),
     (''reason'', PStr (d_reason d)),
     (''required_assurance'', case d_required_assurance d of None \<Rightarrow> PNone | Some a \<Rightarrow> PStr a)]"

definition decode_decision :: "pyval \<Rightarrow> cached option" where
  "decode_decision raw = (case raw of
       PDict p \<Rightarrow> (case map_of p ''effect'' of
           None \<Rightarrow> None
         | Some v \<Rightarrow> (case effect_of v of
             None \<Rightarrow> None
           | Some e \<Rightarrow> (case map_of p ''rule_id'' of
               None \<Rightarrow> None
             | Some rid \<Rightarrow> Some \<lparr>cd_effect = e, cd_rule_id = rid,
                 cd_reason = (case map_of p ''reason'' of None \<Rightarrow> PStr [] | Some r \<Rightarrow> r),
                 cd_required_assurance = dict_get p ''required_assurance''\<rparr>)))
     | _ \<Rightarrow> None)"

lemma decode_encode: "decode_decision (encode_decision d) = Some (as_cached d)"
  by (cases "d_effect d")
    (simp_all add: decode_decision_def encode_decision_def effect_of_def effect_value_def as_cached_def dict_get_def)

section \<open>Keys\<close>

text \<open>\<open>json.dumps\<close> escapes everything outside printable ASCII; those characters occur only inside
  strings, so the text is the unescaped one with each of them replaced.\<close>

definition ascii_only :: "char \<Rightarrow> string" where
  "ascii_only c = (let n = (of_char c :: nat) in
     if n < 127 then [c] else [CHR 0x5C, CHR ''u'', CHR ''0'', CHR ''0'', hex_digit (n div 16), hex_digit (n mod 16)])"

definition dumps :: "pyval \<Rightarrow> string" where
  "dumps v = concat (map ascii_only (json_text (\<lambda>_ _. []) v))"

definition person_of :: "request \<Rightarrow> string" where
  "person_of q = (case s_person_uuid (req_subject q) of None \<Rightarrow> ''None'' | Some p \<Rightarrow> p)"

definition question :: "int \<Rightarrow> request \<Rightarrow> pyval" where
  "question epoch q = PList [PStr (person_of q), PInt epoch, PStr (res_id (req_resource q)),
     PStr (res_classification (req_resource q)), PBool (res_requires_aal2 (req_resource q)), PStr (req_action q),
     PStr (s_assurance (req_subject q)), PStr (env_network (req_environment q))]"

record 's cache =
  dc_redis :: "'s redis"
  dc_sha :: "string \<Rightarrow> string"

definition epoch_key :: "string \<Rightarrow> string" where
  "epoch_key p = EPOCH_PREFIX @ p"

definition epoch_of :: "'s cache \<Rightarrow> time \<Rightarrow> string \<Rightarrow> 's \<Rightarrow> int" where
  "epoch_of C t p s = (case r_get (dc_redis C) t (epoch_key p) s of Some (PInt i) \<Rightarrow> i | _ \<Rightarrow> 0)"

definition decision_key :: "'s cache \<Rightarrow> int \<Rightarrow> request \<Rightarrow> string" where
  "decision_key C epoch q = DECISION_PREFIX @ person_of q @ '':'' @ take 32 (dc_sha C (dumps (question epoch q)))"

section \<open>Operations\<close>

definition cache_get :: "'s cache \<Rightarrow> bool \<Rightarrow> time \<Rightarrow> request \<Rightarrow> 's \<Rightarrow> cached option" where
  "cache_get C up t q s =
     (if \<not> up \<or> s_person_uuid (req_subject q) = None then None
      else (case r_get (dc_redis C) t (decision_key C (epoch_of C t (person_of q) s) q) s of
          None \<Rightarrow> None | Some raw \<Rightarrow> decode_decision raw))"

definition cache_put :: "'s cache \<Rightarrow> bool \<Rightarrow> time \<Rightarrow> request \<Rightarrow> decision \<Rightarrow> 's \<Rightarrow> 's" where
  "cache_put C up t q d s =
     (if \<not> up \<or> s_person_uuid (req_subject q) = None then s
      else r_set (dc_redis C) t (decision_key C (epoch_of C t (person_of q) s) q) (encode_decision d) CACHE_TTL s)"

definition invalidate :: "'s cache \<Rightarrow> bool \<Rightarrow> time \<Rightarrow> string \<Rightarrow> 's \<Rightarrow> 's" where
  "invalidate C up t p s = (if \<not> up then s else snd (r_incr (dc_redis C) t (epoch_key p) s))"

text \<open>\<open>CachingDecider.decide\<close>: the answer, whether it came from the cache, and the store afterwards.
  The cache is read at one time and written at a later one.\<close>

definition caching_decide ::
  "'s cache \<Rightarrow> bool \<Rightarrow> rule list \<Rightarrow> time \<Rightarrow> time \<Rightarrow> request \<Rightarrow> 's \<Rightarrow> (cached \<times> bool) \<times> 's" where
  "caching_decide C up rules t t' q s = (case cache_get C up t q s of
       Some d \<Rightarrow> ((d, True), s)
     | None \<Rightarrow> let d = decide rules q in ((as_cached d, False), cache_put C up t' q d s))"

section \<open>What the key names\<close>

definition printable :: "string \<Rightarrow> bool" where
  "printable s = list_all (\<lambda>c. 32 \<le> (of_char c :: nat) \<and> (of_char c :: nat) < 127) s"

definition printable_question :: "request \<Rightarrow> bool" where
  "printable_question q = (printable (person_of q) \<and> printable (res_id (req_resource q)) \<and>
     printable (res_classification (req_resource q)) \<and> printable (req_action q) \<and>
     printable (s_assurance (req_subject q)) \<and> printable (env_network (req_environment q)))"

lemma ascii_only_id: "list_all (\<lambda>c. (of_char c :: nat) < 127) s \<Longrightarrow> concat (map ascii_only s) = s"
  by (induction s) (simp_all add: ascii_only_def)

lemma printable_escape: "printable s \<Longrightarrow> list_all (\<lambda>c. (of_char c :: nat) < 127) (json_string s)"
  by (induction s) (auto simp: printable_def json_string_def json_escape_def Let_def)

lemma json_int_ascii: "list_all (\<lambda>c. (of_char c :: nat) < 127) (json_int i)"
proof -
  have "list_all (\<lambda>c. (of_char c :: nat) < 127) (show_nat n)" for n
    using show_nat_digits[of n] by (auto simp: list_all_iff is_ascii_digit_def Let_def)
  then show ?thesis by (simp add: json_int_def)
qed

lemma dumps_question:
  assumes "printable_question q"
  shows "dumps (question e q) = json_text (\<lambda>_ _. []) (question e q)"
  unfolding dumps_def
  by (rule ascii_only_id)
    (use assms in \<open>simp add: question_def printable_question_def printable_escape json_int_ascii\<close>)

lemma question_text_inj:
  assumes "printable_question q" and "printable_question q'"
  shows "dumps (question e q) = dumps (question e' q') \<longleftrightarrow> question e q = question e' q'"
proof
  assume "dumps (question e q) = dumps (question e' q')"
  then have "json_text (\<lambda>_ _. []) (question e q) = json_text (\<lambda>_ _. []) (question e' q')"
    by (simp add: dumps_question assms)
  then show "question e q = question e' q'" by (rule json_text_inj) (simp_all add: question_def)
qed simp

section \<open>The cache on its server\<close>

definition epoch_entry_ok :: "entry option \<Rightarrow> bool" where
  "epoch_entry_ok e = (case e of None \<Rightarrow> True | Some (RVal (PInt i), None) \<Rightarrow> 0 \<le> i | _ \<Rightarrow> False)"

definition epoch_value :: "entry option \<Rightarrow> int" where
  "epoch_value e = (case e of Some (RVal (PInt i), d) \<Rightarrow> i | _ \<Rightarrow> 0)"

lemma epoch_entry_cases:
  assumes "epoch_entry_ok e"
  obtains "e = None" | n where "e = Some (RVal (PInt (int n)), None)"
proof (cases e)
  case (Some x)
  then obtain i where "x = (RVal (PInt i), None)" "0 \<le> i"
    using assms by (cases x) (auto simp: epoch_entry_ok_def split: rvalue.splits pyval.splits option.splits)
  then show ?thesis using that(2)[of "nat i"] Some by simp
qed (use that in simp)

lemma decision_key_not_epoch [simp]: "decision_key C e q \<noteq> epoch_key p" "epoch_key p \<noteq> decision_key C e q"
  by (simp_all add: decision_key_def epoch_key_def DECISION_PREFIX_def EPOCH_PREFIX_def)

text \<open>Two requests of one person ask the same when resource, action, assurance and network agree.\<close>

definition same_question :: "request \<Rightarrow> request \<Rightarrow> bool" where
  "same_question q q' = (req_resource q = req_resource q' \<and> req_action q = req_action q' \<and>
     s_assurance (req_subject q) = s_assurance (req_subject q') \<and>
     env_network (req_environment q) = env_network (req_environment q'))"

definition collision_free :: "'s cache \<Rightarrow> string \<Rightarrow> string \<Rightarrow> bool" where
  "collision_free C m m' = (m = m' \<or> take 32 (dc_sha C m) \<noteq> take 32 (dc_sha C m'))"

lemma decision_key_eq:
  assumes "person_of q = person_of q'" and "printable_question q" and "printable_question q'"
    and "collision_free C (dumps (question e q)) (dumps (question e' q'))"
  shows "decision_key C e q = decision_key C e' q' \<longleftrightarrow> e = e' \<and> same_question q q'"
proof -
  have "decision_key C e q = decision_key C e' q' \<longleftrightarrow> dumps (question e q) = dumps (question e' q')"
    using assms(1,4) by (auto simp: decision_key_def collision_free_def)
  also have "\<dots> \<longleftrightarrow> question e q = question e' q'" by (rule question_text_inj) fact+
  also have "\<dots> \<longleftrightarrow> e = e' \<and> same_question q q'"
    using assms(1) by (cases "req_resource q"; cases "req_resource q'") (auto simp: question_def same_question_def)
  finally show ?thesis .
qed

locale cache_on_redis = redis_server "dc_redis C" visible
  for C :: "'s cache" and visible :: "time \<Rightarrow> 's \<Rightarrow> keyspace"
begin

lemma epoch_of_visible: "epoch_of C t p s = epoch_value (visible t s (epoch_key p))"
  by (auto simp: epoch_of_def epoch_value_def get text_of_def split: option.splits prod.splits rvalue.splits pyval.splits)

lemma epoch_later:
  assumes "epoch_entry_ok (visible t s (epoch_key p))" and "t \<le> t'"
  shows "visible t' s (epoch_key p) = visible t s (epoch_key p)"
  using assms(1) by (cases rule: epoch_entry_cases) (simp_all add: later[OF assms(2)] unexpired_def alive_def)

lemma put_visible:
  assumes "s_person_uuid (req_subject q) = Some p"
  shows "visible t (cache_put C True t q d s) = (visible t s)
     (decision_key C (epoch_of C t (person_of q) s) q \<mapsto> (RVal (encode_decision d), deadline t CACHE_TTL))"
  using assms by (simp add: cache_put_def set CACHE_TTL_def)

lemma invalidate_epoch:
  assumes "epoch_entry_ok (visible t s (epoch_key p))"
  shows "visible t (invalidate C True t p s) =
     (visible t s)(epoch_key p \<mapsto> (RVal (PInt (epoch_value (visible t s (epoch_key p)) + 1)), None))"
  using assms
  by (cases rule: epoch_entry_cases)
    (simp_all add: invalidate_def incr(2) count_of_def text_of_def expiry_of_def epoch_value_def add.commute)

lemma get_visible:
  assumes "s_person_uuid (req_subject q) = Some p"
  shows "cache_get C True t q s = (case text_of (visible t s (decision_key C (epoch_value (visible t s (epoch_key p))) q)) of
     None \<Rightarrow> None | Some raw \<Rightarrow> decode_decision raw)"
  using assms by (simp add: cache_get_def get epoch_of_visible person_of_def)

lemma get_after_put:
  assumes q: "s_person_uuid (req_subject q) = Some p" and q': "s_person_uuid (req_subject q') = Some p"
    and ok: "epoch_entry_ok (visible t s (epoch_key p))" and t: "t \<le> t'"
  defines "e \<equiv> epoch_value (visible t s (epoch_key p))"
  shows "cache_get C True t' q' (cache_put C True t q d s) =
     (if decision_key C e q = decision_key C e q' then if t' < t + 60000 then Some (as_cached d) else None
      else cache_get C True t' q' s)"
proof -
  have p: "visible t (cache_put C True t q d s) = (visible t s)(decision_key C e q \<mapsto> (RVal (encode_decision d), Some (t + 60000)))"
    using put_visible[OF q, of t d s] q by (simp add: e_def epoch_of_visible person_of_def deadline_def CACHE_TTL_def)
  then have "visible t (cache_put C True t q d s) (epoch_key p) = visible t s (epoch_key p)" by simp
  then have ep: "visible t' (cache_put C True t q d s) (epoch_key p) = visible t s (epoch_key p)"
    using epoch_later[of t "cache_put C True t q d s" p t'] ok t by simp
  have es: "visible t' s (epoch_key p) = visible t s (epoch_key p)" by (rule epoch_later[OF ok t])
  show ?thesis
    unfolding get_visible[OF q'] ep es e_def[symmetric]
    by (simp add: later[OF t] p unexpired_def alive_def text_of_def decode_encode)
qed

lemma get_after_invalidate:
  assumes q: "s_person_uuid (req_subject q) = Some p" and q': "s_person_uuid (req_subject q') = Some p"
    and ok: "epoch_entry_ok (visible t s (epoch_key p))" and t: "t \<le> t1" "t1 \<le> t2"
    and ne: "decision_key C e q \<noteq> decision_key C (e + 1) q'" and e: "e = epoch_value (visible t s (epoch_key p))"
  shows "cache_get C True t2 q' (invalidate C True t1 p (cache_put C True t q d s)) =
     cache_get C True t2 q' (invalidate C True t1 p s)"
proof -
  let ?s = "cache_put C True t q d s"
  have p: "visible t ?s = (visible t s)(decision_key C e q \<mapsto> (RVal (encode_decision d), Some (t + 60000)))"
    using put_visible[OF q, of t d s] q by (simp add: e epoch_of_visible person_of_def deadline_def CACHE_TTL_def)
  have ok': "epoch_entry_ok (visible t ?s (epoch_key p))" using ok by (simp add: p)
  have s1: "visible t1 ?s (epoch_key p) = visible t s (epoch_key p)" "visible t1 s (epoch_key p) = visible t s (epoch_key p)"
    using epoch_later[OF ok' t(1)] epoch_later[OF ok t(1)] by (simp_all add: p)
  have i: "visible t1 (invalidate C True t1 p ?s) = (visible t1 ?s)(epoch_key p \<mapsto> (RVal (PInt (e + 1)), None))"
    "visible t1 (invalidate C True t1 p s) = (visible t1 s)(epoch_key p \<mapsto> (RVal (PInt (e + 1)), None))"
    using invalidate_epoch[of t1 ?s p] invalidate_epoch[of t1 s p] s1 ok by (simp_all add: e)
  have v: "visible t2 (invalidate C True t1 p ?s) (epoch_key p) = Some (RVal (PInt (e + 1)), None)"
    "visible t2 (invalidate C True t1 p s) (epoch_key p) = Some (RVal (PInt (e + 1)), None)"
    by (simp_all add: later[OF t(2)] i unexpired_def alive_def)
  have k: "visible t2 (invalidate C True t1 p ?s) (decision_key C (e + 1) q') =
      visible t2 (invalidate C True t1 p s) (decision_key C (e + 1) q')"
  proof -
    have "visible t1 ?s (decision_key C (e + 1) q') = visible t1 s (decision_key C (e + 1) q')"
      using ne by (simp add: later[OF t(1)] p unexpired_def)
    then show ?thesis by (simp add: later[OF t(2)] i unexpired_def)
  qed
  show ?thesis unfolding get_visible[OF q'] v by (simp add: epoch_value_def k)
qed

lemma put_after_invalidate:
  assumes q: "s_person_uuid (req_subject q) = Some p" and ok: "epoch_entry_ok (visible t s (epoch_key p))"
    and t: "t \<le> t1" "t1 \<le> t2" "t2 < t1 + 60000"
  shows "cache_get C True t2 q (cache_put C True t1 q d (invalidate C True t p s)) = Some (as_cached d)"
proof -
  let ?s = "invalidate C True t p s"
  have "epoch_entry_ok (visible t ?s (epoch_key p))"
    using ok by (cases rule: epoch_entry_cases) (simp_all add: invalidate_epoch[OF ok] epoch_entry_ok_def epoch_value_def)
  then have "epoch_entry_ok (visible t1 ?s (epoch_key p))" using epoch_later[of t ?s p t1] t(1) by simp
  from get_after_put[OF q q this t(2)] show ?thesis using t(3) by simp
qed

end

definition sample_cache :: "keyspace cache" where
  "sample_cache = \<lparr>dc_redis = mem_redis, dc_sha = id\<rparr>"

interpretation mem_cache: cache_on_redis sample_cache unexpired
  using mem.redis_server_axioms by (simp add: cache_on_redis_def sample_cache_def)

section \<open>Properties\<close>

text \<open>The cache answers the question that was asked: after a decision is stored, another request of the
  same person within the minute gets it exactly when resource, action, assurance and network are the
  same, and otherwise gets what it would have got had nothing been stored; after the minute it is
  gone.\<close>

theorem cache_answers_the_question:
  assumes "cache_on_redis C visible" and q: "s_person_uuid (req_subject q) = Some p" "s_person_uuid (req_subject q') = Some p"
    and "printable_question q" "printable_question q'" and "epoch_entry_ok (visible t s (epoch_key p))" and "t \<le> t'"
    and "collision_free C (dumps (question (epoch_of C t p s) q)) (dumps (question (epoch_of C t p s) q'))"
  shows "cache_get C True t' q' (cache_put C True t q d s) =
     (if same_question q q' then if t' < t + 60000 then Some (as_cached d) else None
      else cache_get C True t' q' s)"
proof -
  have "person_of q = person_of q'" using q by (simp add: person_of_def)
  note k = decision_key_eq[OF this assms(4,5,8)]
  show ?thesis
    using cache_on_redis.get_after_put[OF assms(1) q assms(6,7), of d] k
    by (simp add: cache_on_redis.epoch_of_visible[OF assms(1)])
qed

definition asked :: "string set \<Rightarrow> string \<Rightarrow> request" where
  "asked entitlements action = \<lparr>
     req_subject = \<lparr>s_entitlements = entitlements, s_affiliations = {}, s_roles = {}, s_assurance = ''a'', s_person_uuid = Some ''p''\<rparr>,
     req_resource = \<lparr>res_id = ''r'', res_classification = ''c'', res_requires_aal2 = False\<rparr>,
     req_action = action, req_environment = \<lparr>env_network = ''n'', env_at = None\<rparr>\<rparr>"

definition lms_rule :: rule where
  "lms_rule = \<lparr>r_id = ''lms'', r_effect = PERMIT, r_description = '''', r_entitlements = {''urn:lms''}, r_affiliations = {},
     r_roles = {}, r_actions = {}, r_resources = {}, r_resource_prefix = '''', r_classifications = {}, r_networks = {},
     r_between = None, r_assurance = ''''\<rparr>"

lemma asked_printable: "printable a \<Longrightarrow> printable_question (asked es a)"
  by (simp add: asked_def printable_question_def printable_def person_of_def)

lemma asked_person: "s_person_uuid (req_subject (asked es a)) = Some ''p''"
  by (simp add: asked_def)

lemma sample_text:
  "printable a \<Longrightarrow> dumps (question e (asked es a)) = json_text (\<lambda>_ _. [])
     (PList [PStr ''p'', PInt e, PStr ''r'', PStr ''c'', PBool False, PStr a, PStr ''a'', PStr ''n''])"
  using dumps_question[OF asked_printable, of a e es] by (simp add: question_def asked_def person_of_def)

lemma no_epoch: "epoch_entry_ok (unexpired t (\<lambda>k. None) k)"
  by (simp add: epoch_entry_ok_def)

theorem cache_answers_the_question_witness:
  "cache_get sample_cache True 5 (asked {} ''write'')
     (cache_put sample_cache True 1 (asked {} ''read'') (decided PERMIT lms_rule ''ok'') (\<lambda>k. None)) = None"
proof -
  have "take 32 (dumps (question 0 (asked {} ''read''))) \<noteq>
      take 32 (dumps (question 0 (asked {} ''write'')))"
    by (simp add: sample_text printable_def json_string_def json_escape_def json_int_def show_nat.simps digit_char_def Let_def)
  then have "collision_free sample_cache (dumps (question (epoch_of sample_cache 1 ''p'' (\<lambda>k. None)) (asked {} ''read'')))
      (dumps (question (epoch_of sample_cache 1 ''p'' (\<lambda>k. None)) (asked {} ''write'')))"
    by (simp add: collision_free_def sample_cache_def epoch_of_def mem_redis_ops text_of_def)
  note c = cache_answers_the_question[OF mem_cache.cache_on_redis_axioms asked_person asked_person
      asked_printable asked_printable no_epoch _ this, of 5]
  show ?thesis
    using c[of "decided PERMIT lms_rule ''ok''"]
    by (simp add: printable_def same_question_def asked_def cache_get_def sample_cache_def mem_redis_ops text_of_def)
qed



text \<open>The epoch is read again when the decision is written.  A decision worked out before an invalidation
  and written after it is filed under the new epoch, and served for the next minute.\<close>

theorem late_write_survives_invalidation:
  assumes "cache_on_redis C visible" and "s_person_uuid (req_subject q) = Some p"
    and "epoch_entry_ok (visible t s (epoch_key p))" and "t \<le> t1" and "t1 \<le> t2" and "t2 < t1 + 60000"
    and "cache_get C True t0 q s = None"
  shows "fst (caching_decide C True rules t0 t1 q s) = (as_cached (decide rules q), False) \<and>
     cache_get C True t2 q (cache_put C True t1 q (decide rules q) (invalidate C True t p s)) = Some (as_cached (decide rules q))"
  using cache_on_redis.put_after_invalidate[OF assms(1-6), of "decide rules q"] assms(7) by (simp add: caching_decide_def Let_def)

theorem late_write_survives_invalidation_witness:
  "cache_get sample_cache True 5 (asked {''urn:lms''} ''read'')
     (cache_put sample_cache True 3 (asked {''urn:lms''} ''read'') (decide [lms_rule] (asked {''urn:lms''} ''read''))
       (invalidate sample_cache True 2 ''p'' (\<lambda>k. None))) =
   Some (as_cached (decide [lms_rule] (asked {''urn:lms''} ''read'')))"
  using late_write_survives_invalidation[OF mem_cache.cache_on_redis_axioms asked_person[of "{''urn:lms''}" "''read''"], of 2 "\<lambda>k. None" 3 5 0 "[lms_rule]"]
  by (simp add: cache_get_def[of _ _ 0] sample_cache_def mem_redis_ops text_of_def epoch_entry_ok_def)

text \<open>The key does not name the entitlements, affiliations and roles the engine reads: a request carrying
  fewer of them is served the permit of one that carried more.\<close>

theorem cached_permit_ignores_subject:
  "decide [lms_rule] (asked {} ''read'') = \<lparr>d_effect = DENY, d_rule_id = DEFAULT_RULE,
     d_reason = ''no rule permitted this request'', d_required_assurance = None\<rparr> \<and>
   (case caching_decide sample_cache True [lms_rule] 1 2 (asked {''urn:lms''} ''read'') (\<lambda>k. None) of
      ((first, c), s) \<Rightarrow> cd_effect first = PERMIT \<and>
        fst (caching_decide sample_cache True [lms_rule] 3 4 (asked {} ''read'') s) = (first, True))"
proof -
  have d: "decide [lms_rule] (asked {} ''read'') = \<lparr>d_effect = DENY, d_rule_id = DEFAULT_RULE,
     d_reason = ''no rule permitted this request'', d_required_assurance = None\<rparr>"
    "d_effect (decide [lms_rule] (asked {''urn:lms''} ''read'')) = PERMIT"
    by (simp_all add: decide_def rule_matches_def lms_rule_def asked_def permit_or_challenge_def
        required_assurance_def falls_short_def decided_def Let_def)
  have q: "question 0 (asked {} ''read'') = question 0 (asked {''urn:lms''} ''read'')"
    "person_of (asked es a) = ''p''" for es a
    by (simp_all add: question_def asked_def person_of_def)
  have miss: "cache_get sample_cache True t (asked es ''read'') (\<lambda>k. None) = None" for es t
    by (simp add: cache_get_def sample_cache_def mem_redis_ops text_of_def)
  have hit: "cache_get sample_cache True 3 (asked {} ''read'')
      (cache_put sample_cache True 2 (asked {''urn:lms''} ''read'') d (\<lambda>k. None)) = Some (as_cached d)" for d
    by (simp add: cache_get_def cache_put_def asked_person epoch_of_def sample_cache_def mem_redis_ops text_of_def
        deadline_def decision_key_def q epoch_key_def DECISION_PREFIX_def EPOCH_PREFIX_def decode_encode CACHE_TTL_def)
  show ?thesis using d by (simp add: caching_decide_def miss hit Let_def as_cached_def)
qed

text \<open>Without Redis every request is decided by the engine, as if there were no cache: nothing is read
  from it, nothing is written to it, and no decision changes.\<close>

theorem cache_outage_decides:
  "caching_decide C False rules t t' q s = ((as_cached (decide rules q), False), s) \<and> invalidate C False t p s = s"
  by (simp add: caching_decide_def cache_get_def cache_put_def invalidate_def Let_def)

end
