(* ===== verification/AuthzLoader.thy ===== *)
theory AuthzLoader
  imports Authz ReloadingStore JsonText LifecycleRules
begin

text \<open>
  Loading the authorization policy (\<open>campusid/authz/loader.py\<close>): the validation of a policy file and
  the store that serves it.  The parsed document is the argument.  \<open>reprs\<close> is Python's \<open>str\<close> on a
  value that is neither text nor an integer.  A window text with an offset from UTC, which gives a
  time the engine cannot compare with a naive one, is outside the model.
\<close>

section \<open>Times of day\<close>

definition clock_digit :: "char \<Rightarrow> nat" where
  "clock_digit c = of_char c - 48"

fun two_digits :: "string \<Rightarrow> (nat \<times> string) option" where
  "two_digits (a # b # rest) = (if is_ascii_digit a \<and> is_ascii_digit b
     then Some (10 * clock_digit a + clock_digit b, rest) else None)"
| "two_digits _ = None"

definition clock_digits :: "string \<Rightarrow> nat" where
  "clock_digits s = foldl (\<lambda>n c. 10 * n + clock_digit c) 0 s"

text \<open>The fraction of a second: six digits count, further ones are dropped.\<close>

definition fraction :: "string \<Rightarrow> nat option" where
  "fraction s = (case s of
       [] \<Rightarrow> Some 0
     | c # ds \<Rightarrow> if c \<in> {CHR ''.'', CHR '',''} \<and> ds \<noteq> [] \<and> list_all is_ascii_digit ds
         then Some (clock_digits (take 6 ds) * 10 ^ (6 - min 6 (length ds))) else None)"

definition clock :: "nat \<Rightarrow> nat \<Rightarrow> nat \<Rightarrow> nat \<Rightarrow> nat option" where
  "clock h m s us = (if h < 24 \<and> m < 60 \<and> s < 60 then Some (((h * 60 + m) * 60 + s) * 1000000 + us) else None)"

text \<open>The next component: after a colon in the separated form, at once in the compact one.\<close>

definition next_component :: "bool \<Rightarrow> string \<Rightarrow> (nat \<times> string) option" where
  "next_component separated s =
     (if separated then (case s of c # rest \<Rightarrow> if c = CHR '':'' then two_digits rest else None | [] \<Rightarrow> None)
      else two_digits s)"

definition time_fromisoformat :: "string \<Rightarrow> nat option" where
  "time_fromisoformat text = (let s = (if starts_with text ''T'' then drop 1 text else text) in
     case two_digits s of
       None \<Rightarrow> None
     | Some (h, []) \<Rightarrow> clock h 0 0 0
     | Some (h, r) \<Rightarrow> (let separated = (hd r = CHR '':'') in case next_component separated r of
           None \<Rightarrow> None
         | Some (m, []) \<Rightarrow> clock h m 0 0
         | Some (m, r') \<Rightarrow> (case next_component separated r' of
               None \<Rightarrow> None
             | Some (sec, r'') \<Rightarrow> (case fraction r'' of None \<Rightarrow> None | Some us \<Rightarrow> clock h m sec us))))"

section \<open>Rules\<close>

definition VALID_ASSURANCE :: "string set" where
  "VALID_ASSURANCE = {'''', AAL1, AAL2}"

datatype policy_error = PolicyError | TypeErrorPolicy

definition names_of :: "pyval \<Rightarrow> (policy_error, string set) result" where
  "names_of v = (case v of
       PNone \<Rightarrow> Ok {}
     | PList vs \<Rightarrow> if list_all is_str vs then Ok (set (strings_of vs)) else Err PolicyError
     | _ \<Rightarrow> Err PolicyError)"

definition policy_text :: "pyval \<Rightarrow> (policy_error, string) result" where
  "policy_text v = (case v of PNone \<Rightarrow> Ok [] | PStr s \<Rightarrow> Ok s | _ \<Rightarrow> Err PolicyError)"

definition str_of :: "(pyval \<Rightarrow> string) \<Rightarrow> pyval \<Rightarrow> string" where
  "str_of reprs v = (case v of PStr s \<Rightarrow> s | PInt i \<Rightarrow> json_int i | _ \<Rightarrow> reprs v)"

definition window_of_doc :: "(pyval \<Rightarrow> string) \<Rightarrow> pyval \<Rightarrow> (policy_error, (nat \<times> nat) option) result" where
  "window_of_doc reprs v = (case v of
       PNone \<Rightarrow> Ok None
     | PList [a, b] \<Rightarrow> (case time_fromisoformat (str_of reprs a) of
           None \<Rightarrow> Err PolicyError
         | Some start \<Rightarrow> (case time_fromisoformat (str_of reprs b) of
               None \<Rightarrow> Err PolicyError | Some end \<Rightarrow> Ok (Some (start, end))))
     | _ \<Rightarrow> Err PolicyError)"

definition rule_effect :: "pyval \<Rightarrow> effect option" where
  "rule_effect v = (if v = PStr ''permit'' then Some PERMIT else if v = PStr ''deny'' then Some DENY else None)"

definition rule_assurance :: "pyval \<Rightarrow> (policy_error, string) result" where
  "rule_assurance v = (if \<not> hashable v then Err TypeErrorPolicy else (case v of
       PStr a \<Rightarrow> if a \<in> VALID_ASSURANCE then Ok a else Err PolicyError | _ \<Rightarrow> Err PolicyError))"

definition parse_rule :: "(pyval \<Rightarrow> string) \<Rightarrow> pyval \<Rightarrow> (policy_error, rule) result" where
  "parse_rule reprs entry = (case entry of
       PDict d \<Rightarrow> (case dict_get d ''id'' of
           PStr rule_id \<Rightarrow> if rule_id = [] then Err PolicyError
             else (case rule_effect (dict_get d ''effect'') of
                 None \<Rightarrow> Err PolicyError
               | Some eff \<Rightarrow>
                   rbind (rule_assurance (dict_get_default d ''assurance'' (PStr []))) (\<lambda>assurance.
                   rbind (policy_text (dict_get d ''description'')) (\<lambda>description.
                   rbind (names_of (dict_get d ''entitlements'')) (\<lambda>entitlements.
                   rbind (names_of (dict_get d ''affiliations'')) (\<lambda>affiliations.
                   rbind (names_of (dict_get d ''roles'')) (\<lambda>roles.
                   rbind (names_of (dict_get d ''actions'')) (\<lambda>actions.
                   rbind (names_of (dict_get d ''resources'')) (\<lambda>resources.
                   rbind (policy_text (dict_get d ''resource_prefix'')) (\<lambda>prefix.
                   rbind (names_of (dict_get d ''classifications'')) (\<lambda>classifications.
                   rbind (names_of (dict_get d ''networks'')) (\<lambda>networks.
                   rbind (window_of_doc reprs (dict_get d ''between'')) (\<lambda>between.
                     Ok \<lparr>r_id = rule_id, r_effect = eff, r_description = description, r_entitlements = entitlements,
                       r_affiliations = affiliations, r_roles = roles, r_actions = actions, r_resources = resources,
                       r_resource_prefix = prefix, r_classifications = classifications, r_networks = networks,
                       r_between = between, r_assurance = assurance\<rparr>))))))))))))
         | _ \<Rightarrow> Err PolicyError)
     | _ \<Rightarrow> Err PolicyError)"

fun parse_rules :: "(pyval \<Rightarrow> string) \<Rightarrow> string list \<Rightarrow> pyval list \<Rightarrow> (policy_error, rule list) result" where
  "parse_rules reprs seen [] = Ok []"
| "parse_rules reprs seen (entry # rest) = (case parse_rule reprs entry of Inl e \<Rightarrow> Err e
     | Inr r \<Rightarrow> if r_id r \<in> set seen then Err PolicyError
         else (case parse_rules reprs (r_id r # seen) rest of Inl e \<Rightarrow> Err e | Inr rs \<Rightarrow> Ok (r # rs)))"

definition load_policies :: "(pyval \<Rightarrow> string) \<Rightarrow> pyval option \<Rightarrow> (policy_error, rule list) result" where
  "load_policies reprs document = (case document of
       Some (PDict d) \<Rightarrow> (case dict_get d ''rules'' of
           PList raw \<Rightarrow> if raw = [] then Err PolicyError else parse_rules reprs [] raw
         | _ \<Rightarrow> Err PolicyError)
     | _ \<Rightarrow> Err PolicyError)"

definition policies_current ::
  "(pyval \<Rightarrow> string) \<Rightarrow> nat option \<Rightarrow> pyval option \<Rightarrow> nat option \<Rightarrow> (rule list, nat) store \<Rightarrow>
     (policy_error, rule list) result \<times> (rule list, nat) store" where
  "policies_current reprs seen document mtime st =
     (if store_changed seen st \<and> load_policies reprs document = Err TypeErrorPolicy then (Err TypeErrorPolicy, st)
      else let st' = store_read seen (load_policies reprs document) mtime st in (Ok (st_current st'), st'))"

section \<open>What a loaded file satisfies\<close>

definition loaded_rule_ok :: "rule \<Rightarrow> bool" where
  "loaded_rule_ok r = (r_id r \<noteq> [] \<and> r_effect r \<noteq> CHALLENGE \<and> r_assurance r \<in> VALID_ASSURANCE \<and>
     (case r_between r of None \<Rightarrow> True | Some (a, b) \<Rightarrow> a < 86400000000 \<and> b < 86400000000))"

definition policies_ok :: "rule list \<Rightarrow> bool" where
  "policies_ok rs = (distinct (map r_id rs) \<and> list_all loaded_rule_ok rs)"

lemma fraction_bound: "fraction s = Some us \<Longrightarrow> us < 1000000"
proof -
  assume f: "fraction s = Some us"
  show ?thesis
  proof (cases s)
    case (Cons c ds)
    have le: "foldl (\<lambda>n c. 10 * n + clock_digit c) n xs < (n + 1) * 10 ^ length xs" if "list_all is_ascii_digit xs" for n xs
      using that
    proof (induction xs arbitrary: n)
      case (Cons x xs)
      have "foldl (\<lambda>n c. 10 * n + clock_digit c) (10 * n + clock_digit x) xs < (10 * n + clock_digit x + 1) * 10 ^ length xs"
        using Cons by simp
      also have "\<dots> \<le> (10 * n + 10) * 10 ^ length xs"
        using Cons.prems by (intro mult_right_mono) (auto simp: is_ascii_digit_def clock_digit_def Let_def)
      finally show ?case by (simp add: algebra_simps)
    qed simp
    have ds: "list_all is_ascii_digit ds" "us = clock_digits (take 6 ds) * 10 ^ (6 - min 6 (length ds))"
      using f by (auto simp: fraction_def Cons split: if_splits)
    have "clock_digits (take 6 ds) < 10 ^ min 6 (length ds)"
    proof -
      have "list_all is_ascii_digit (take 6 ds)" using ds(1) by (auto simp: list_all_iff dest: in_set_takeD)
      from le[OF this, of 0] have "clock_digits (take 6 ds) < 10 ^ min (length ds) 6" by (simp add: clock_digits_def)
      then show ?thesis by (simp only: min.commute)
    qed
    then have "us < 10 ^ min 6 (length ds) * 10 ^ (6 - min 6 (length ds))" unfolding ds(2) by simp
    also have "\<dots> = 10 ^ 6" by (simp add: power_add[symmetric])
    finally show ?thesis by simp
  qed (use f in \<open>simp add: fraction_def\<close>)
qed

lemma clock_bound:
  assumes "clock h m s us = Some t" and "us < 1000000"
  shows "t < 86400000000"
proof -
  have "h \<le> 23" "m \<le> 59" "s \<le> 59" "t = ((h * 60 + m) * 60 + s) * 1000000 + us"
    using assms(1) by (auto simp: clock_def split: if_splits)
  then show ?thesis using assms(2) by simp
qed

lemma time_bound: "time_fromisoformat text = Some t \<Longrightarrow> t < 86400000000"
  by (auto simp: time_fromisoformat_def Let_def split: option.splits prod.splits list.splits
      dest: clock_bound fraction_bound intro: clock_bound[of _ _ _ 0])

lemma window_of_doc_ok:
  "window_of_doc reprs v = Ok w \<Longrightarrow> (case w of None \<Rightarrow> True | Some (a, b) \<Rightarrow> a < 86400000000 \<and> b < 86400000000)"
  by (auto simp: window_of_doc_def split: pyval.splits list.splits option.splits dest: time_bound)

lemma parse_rule_ok: "parse_rule reprs entry = Ok r \<Longrightarrow> loaded_rule_ok r"
proof -
  assume a: "parse_rule reprs entry = Ok r"
  then obtain d rule_id eff where d: "entry = PDict d" "dict_get d ''id'' = PStr rule_id" "rule_id \<noteq> []"
      "rule_effect (dict_get d ''effect'') = Some eff"
    by (auto simp: parse_rule_def split: pyval.splits option.splits if_splits)
  then obtain assurance between where r: "rule_assurance (dict_get_default d ''assurance'' (PStr [])) = Ok assurance"
      "window_of_doc reprs (dict_get d ''between'') = Ok between"
      "r_id r = rule_id" "r_effect r = eff" "r_assurance r = assurance" "r_between r = between"
    using a by (auto simp: parse_rule_def rbind_eq_Ok)
  have "eff \<noteq> CHALLENGE" using d(4) by (auto simp: rule_effect_def split: if_splits)
  moreover have "assurance \<in> VALID_ASSURANCE" using r(1) by (auto simp: rule_assurance_def split: pyval.splits if_splits)
  ultimately show ?thesis using d(3) r(3-6) window_of_doc_ok[OF r(2)] by (simp add: loaded_rule_ok_def)
qed

lemma parse_rules_ok:
  "parse_rules reprs seen raw = Ok rs \<Longrightarrow> policies_ok rs \<and> set (map r_id rs) \<inter> set seen = {}"
proof (induction raw arbitrary: seen rs)
  case (Cons entry rest)
  then obtain r rs' where r: "parse_rule reprs entry = Ok r" "rs = r # rs'" "r_id r \<notin> set seen"
      "parse_rules reprs (r_id r # seen) rest = Ok rs'"
    by (auto split: sum.splits if_splits)
  from Cons.IH[OF r(4)] parse_rule_ok[OF r(1)] show ?case using r(2,3) by (auto simp: policies_ok_def)
qed (simp add: policies_ok_def)

lemma load_policies_ok: "load_policies reprs document = Ok rs \<Longrightarrow> policies_ok rs"
  by (auto simp: load_policies_def dest!: parse_rules_ok split: option.splits pyval.splits if_splits)

interpretation policy_loader: validated_loader "load_policies reprs" policies_ok "[]"
  for reprs
proof
  show "policies_ok c" if "load_policies reprs d = Ok c" for d c using that by (rule load_policies_ok)
  show "policies_ok []" by (simp add: policies_ok_def)
qed

section \<open>Properties\<close>

lemma find_SomeD: "find P xs = Some x \<Longrightarrow> x \<in> set xs \<and> P x"
  by (induction xs) (auto split: if_splits)

lemma decide_rule_id:
  "(d_rule_id (decide rs q) = DEFAULT_RULE \<and> d_effect (decide rs q) = DENY) \<or>
   (\<exists>r\<in>set rs. d_rule_id (decide rs q) = r_id r \<and> rule_matches r q)"
proof (cases "find (\<lambda>r. r_effect r = DENY) (filter (\<lambda>r. rule_matches r q) rs)")
  case (Some r)
  then show ?thesis using find_SomeD[OF Some] by (auto simp: decide_def decided_def)
next
  case deny: None
  show ?thesis
  proof (cases "find (\<lambda>r. r_effect r = PERMIT) (filter (\<lambda>r. rule_matches r q) rs)")
    case (Some r)
    have "d_rule_id (permit_or_challenge r q) = r_id r" by (simp add: permit_or_challenge_def decided_def Let_def)
    then show ?thesis using find_SomeD[OF Some] deny Some by (auto simp: decide_def)
  qed (simp add: decide_def deny)
qed

text \<open>Whatever is on disk at each read, every decision taken with the policy the store serves can be
  traced: it names the default denial, or the one rule of the file with that identifier, which
  matched; a rule's effect is never a challenge and its window lies within a day.\<close>

theorem loaded_decisions_traceable:
  assumes "\<forall>e\<in>set events. \<exists>document. fst (snd e) = load_policies reprs document"
  shows "let rs = st_current (store_run events (store_init [] (load_policies reprs first) mtime)) in
     policies_ok rs \<and>
     ((d_rule_id (decide rs q) = DEFAULT_RULE \<and> d_effect (decide rs q) = DENY) \<or>
      (\<exists>!r. r \<in> set rs \<and> r_id r = d_rule_id (decide rs q)) \<and>
      (\<exists>r\<in>set rs. r_id r = d_rule_id (decide rs q) \<and> rule_matches r q))"
proof -
  let ?rs = "st_current (store_run events (store_init [] (load_policies reprs first) mtime))"
  have ok: "policies_ok ?rs" by (rule policy_loader.run_ok[OF policy_loader.init_ok assms])
  then have "inj_on r_id (set ?rs)" by (simp add: policies_ok_def distinct_map)
  then have "(\<exists>r\<in>set ?rs. r_id r = i \<and> rule_matches r q) \<Longrightarrow> (\<exists>!r. r \<in> set ?rs \<and> r_id r = i)" for i
    by (auto simp: inj_on_def)
  with decide_rule_id[of ?rs q] ok show ?thesis unfolding Let_def by metis
qed

definition hours_policy :: "string \<Rightarrow> pyval \<Rightarrow> pyval" where
  "hours_policy rule_id between = PDict [(''rules'', PList [PDict [(''id'', PStr rule_id), (''effect'', PStr ''permit''),
     (''entitlements'', PList [PStr ''urn:lms'']), (''between'', between)]])]"

lemmas load_policies_eval = load_policies_def hours_policy_def dict_get_def dict_get_default_def parse_rule_def
  rule_effect_def rule_assurance_def VALID_ASSURANCE_def names_of_def policy_text_def strings_of_def map_filter_simps
  window_of_doc_def str_of_def

definition any_request :: request where
  "any_request = \<lparr>
     req_subject = \<lparr>s_entitlements = {''urn:lms''}, s_affiliations = {}, s_roles = {}, s_assurance = '''', s_person_uuid = None\<rparr>,
     req_resource = \<lparr>res_id = ''r'', res_classification = ''c'', res_requires_aal2 = False\<rparr>,
     req_action = ''read'', req_environment = \<lparr>env_network = ''n'', env_at = None\<rparr>\<rparr>"

theorem loaded_decisions_traceable_witness:
  "let rs = st_current (store_run [(Some 2, load_policies (\<lambda>_. []) None, Some 2)]
       (store_init [] (load_policies (\<lambda>_. []) (Some (hours_policy ''lms'' PNone))) (Some (1 :: nat)))) in
     d_rule_id (decide rs any_request) = ''lms'' \<and> (\<exists>!r. r \<in> set rs \<and> r_id r = ''lms'')"
proof -
  let ?rs = "st_current (store_run [(Some 2, load_policies (\<lambda>_. []) None, Some 2)]
       (store_init [] (load_policies (\<lambda>_. []) (Some (hours_policy ''lms'' PNone))) (Some (1 :: nat))))"
  have "d_rule_id (decide ?rs any_request) = ''lms''"
    by (simp add: load_policies_eval store_init_def store_reload_def store_read_def store_changed_def any_request_def
        decide_def rule_matches_def permit_or_challenge_def required_assurance_def falls_short_def decided_def Let_def)
  moreover have "''lms'' \<noteq> DEFAULT_RULE" by (simp add: DEFAULT_RULE_def)
  moreover have ev: "\<forall>e\<in>set [(Some (2 :: nat), load_policies (\<lambda>_. []) None, Some (2 :: nat))].
      \<exists>document. fst (snd e) = load_policies (\<lambda>_. []) document" by auto
  note loaded_decisions_traceable[OF ev, of "Some (hours_policy ''lms'' PNone)" "Some 1" any_request]
  ultimately show ?thesis unfolding Let_def by metis
qed

text \<open>\<open>default-deny\<close> is not reserved: a rule may take it for its identifier, and a permit then carries the
  name the audit trail uses for the absence of a rule.\<close>

theorem default_rule_id_accepted:
  "\<exists>rs. load_policies reprs (Some (hours_policy DEFAULT_RULE PNone)) = Ok rs \<and>
     d_rule_id (decide rs any_request) = DEFAULT_RULE \<and> d_effect (decide rs any_request) = PERMIT"
  by (simp add: load_policies_eval DEFAULT_RULE_def any_request_def decide_def rule_matches_def permit_or_challenge_def
      required_assurance_def falls_short_def decided_def Let_def)

text \<open>A number is a window bound when its digits are: \<open>1020\<close>, which is what YAML reads from an unquoted
  \<open>17:00\<close>, is twenty past ten.\<close>

theorem unquoted_window_misread:
  "\<exists>rs. load_policies reprs (Some (hours_policy ''hours'' (PList [PStr ''08:00'', PInt 1020]))) = Ok rs \<and>
     map r_between rs = [Some (8 * 3600000000, 10 * 3600000000 + 20 * 60000000)]"
proof -
  have "json_int 1020 = ''1020''" by code_simp
  then show ?thesis
    by (simp add: load_policies_eval time_fromisoformat_def starts_with_def is_ascii_digit_def clock_digit_def
        next_component_def clock_def Let_def)
qed

end
