(* ===== verification/Enrolment.thy ===== *)
theory Enrolment
  imports Roles
begin

text \<open>
  Who must enrol a second factor (\<open>campusid/mfa/enrolment.py\<close>), from the lifecycle rules and the role
  catalogue, and how it follows from the assignments table.
\<close>

record enrolment =
  eq_required :: bool
  eq_reasons :: "string list"

definition demanding :: "string list \<Rightarrow> lifecycle_rules \<Rightarrow> string list" where
  "demanding held L = filter (\<lambda>u. case find_entitlement L u of None \<Rightarrow> False | Some e \<Rightarrow> en_requires_aal2 e) held"

definition roles_demanding :: "string list \<Rightarrow> role_catalogue \<Rightarrow> string list" where
  "roles_demanding held c = filter (\<lambda>r. case find_role (rc_roles c) r of None \<Rightarrow> False | Some x \<Rightarrow> ro_requires_aal2 x) held"

text \<open>The sets of held entitlements and roles are given as lists.\<close>

definition requirement :: "string list \<Rightarrow> string list \<Rightarrow> lifecycle_rules \<Rightarrow> role_catalogue \<Rightarrow> bool \<Rightarrow> enrolment" where
  "requirement entitlements roles L c has_factor =
     (let reasons = sorted_set (demanding entitlements L @ roles_demanding roles c) in
      \<lparr>eq_required = (reasons \<noteq> [] \<and> \<not> has_factor), eq_reasons = reasons\<rparr>)"

lemma sorted_set_Nil_iff [simp]: "sorted_set xs = [] \<longleftrightarrow> xs = []"
  using set_sorted_set[of xs] by (metis set_empty)

lemma roles_demanding_iff: "roles_demanding rs c \<noteq> [] \<longleftrightarrow> roles_require_aal2 c (set rs)"
  by (auto simp: roles_demanding_def roles_require_aal2_def filter_empty_conv split: option.splits)

lemma demanding_grants:
  assumes "rules_ok L"
  shows "demanding us L = [] \<longleftrightarrow> (\<forall>e\<in>set (lf_entitlements L). en_urn e \<in> set us \<longrightarrow> \<not> en_requires_aal2 e)"
proof -
  have inj: "inj_on en_urn (set (lf_entitlements L))" using assms by (simp add: rules_ok_def distinct_map)
  have "find_entitlement L (en_urn e) = Some e" if "e \<in> set (lf_entitlements L)" for e
  proof (cases "find_entitlement L (en_urn e)")
    case (Some e')
    then have "e' \<in> set (lf_entitlements L)" "en_urn e' = en_urn e"
      by (auto simp: find_entitlement_def find_Some_iff)
    then show ?thesis using Some inj that by (simp add: inj_on_def)
  qed (use that in \<open>auto simp: find_entitlement_def find_None_iff\<close>)
  moreover have "e \<in> set (lf_entitlements L) \<and> en_urn e = u" if "find_entitlement L u = Some e" for u e
    using that by (auto simp: find_entitlement_def find_Some_iff)
  ultimately show ?thesis
    unfolding demanding_def filter_empty_conv by (fastforce split: option.splits)
qed

text \<open>Forced enrolment is complete: a person without a factor must enrol exactly when some declared
  entitlement they hold, or some declared role the assignments table gives them that day, requires a
  second factor; with a factor they never must; and the reasons are exactly those entitlements and
  roles, once each and in order.\<close>

theorem enrolment_complete:
  assumes "rules_ok L" and "set roles = roles_for rows p d"
  shows "let q = requirement us roles L c has_factor in
     eq_required q = (\<not> has_factor \<and>
       ((\<exists>e\<in>set (lf_entitlements L). en_urn e \<in> set us \<and> en_requires_aal2 e) \<or> roles_require_aal2 c (roles_for rows p d))) \<and>
     sorted (eq_reasons q) \<and> distinct (eq_reasons q) \<and>
     set (eq_reasons q) = set (demanding us L) \<union> set (roles_demanding roles c)"
proof -
  have "demanding us L @ roles_demanding roles c \<noteq> [] \<longleftrightarrow>
      (\<exists>e\<in>set (lf_entitlements L). en_urn e \<in> set us \<and> en_requires_aal2 e) \<or> roles_require_aal2 c (roles_for rows p d)"
    using demanding_grants[OF assms(1), of us] roles_demanding_iff[of roles c] assms(2) by auto
  then show ?thesis by (simp add: requirement_def Let_def) blast
qed

theorem enrolment_complete_witness:
  "eq_required (requirement [] [''approver''] sample_rules sample_catalogue False) \<and>
   \<not> eq_required (requirement [] [''approver''] sample_rules sample_catalogue True)"
proof -
  have ok: "rules_ok sample_rules"
    by (simp add: rules_ok_def sample_rules_def entitlement_ok_def lrule_ok_def starts_with_def CLASSIFICATIONS_def
        MAX_GRACE_DAYS_def AFFILIATION_VOCABULARY_def)
  let ?row = "student_row\<lparr>ra_role := ''approver''\<rparr>"
  have r: "set [''approver''] = roles_for [?row] ''p'' 5"
    by (simp add: roles_for_def student_row_def live_on_def)
  have a: "roles_require_aal2 sample_catalogue (roles_for [?row] ''p'' 5)"
    unfolding r[symmetric] by (simp add: roles_require_aal2_def find_role_def sample_catalogue_def)
  show ?thesis
    using enrolment_complete[OF ok r, of "[]" sample_catalogue False] enrolment_complete[OF ok r, of "[]" sample_catalogue True] a
    by (simp add: Let_def)
qed

text \<open>A role that requires a second factor takes effect at the next sign-in: once an open-ended grant of it
  is made, a person without a factor is required to enrol from that day on, and the role is among the
  reasons.\<close>

theorem aal2_grant_forces_enrolment:
  assumes "table_ok persons rows" and "catalogue_ok c" and "\<not> (\<exists>r\<in>set rows. same_grant p role by r)"
    and "grant_role c persons rows p role by d None now = Ok (new, rows')"
    and "roles_require_aal2 c {role}" and "set roles = roles_for rows' p d'" and "d \<le> d'"
  shows "eq_required (requirement us roles L c False) \<and> role \<in> set (eq_reasons (requirement us roles L c False))"
proof -
  have "grant_write persons rows p role by d None now = Ok (new, rows')"
    using assms(4) by (auto simp: grant_role_def rbind_eq_Ok)
  then have "rows' = rows @ [\<lparr>ra_person = p, ra_role = role, ra_origin_kind = origin_value DIRECT, ra_origin_ref = by,
      ra_valid_from = d, ra_valid_until = None, ra_granted_at = now, ra_granted_by = Some by\<rparr>]"
    using assms(3) by (simp add: grant_write_def rbind_eq_Ok commit_eq_Ok)
  then have "role \<in> roles_for rows' p d'" using assms(7) by (simp add: roles_for_def live_on_def)
  then have "role \<in> set (roles_demanding roles c)"
    using assms(5,6) by (auto simp: roles_demanding_def roles_require_aal2_def)
  then show ?thesis by (auto simp: requirement_def Let_def)
qed

theorem aal2_grant_forces_enrolment_witness:
  "case grant_role sample_catalogue {''p''} [] ''p'' ''approver'' ''a'' 5 None 0 of Inl e \<Rightarrow> False
   | Inr (new, rows') \<Rightarrow> eq_required (requirement [] [''approver''] sample_rules sample_catalogue False)"
proof -
  obtain rows' where g: "grant_role sample_catalogue {''p''} [] ''p'' ''approver'' ''a'' 5 None 0 = Ok (True, rows')"
      "set [''approver''] = roles_for rows' ''p'' 7"
    by (simp add: grant_eval)
  have a: "roles_require_aal2 sample_catalogue {''approver''}"
    by (simp add: roles_require_aal2_def find_role_def sample_catalogue_def)
  have t: "table_ok {''p''} []" by (simp add: table_ok_def)
  show ?thesis
    using aal2_grant_forces_enrolment[OF t sample_catalogue_ok _ g(1) a g(2)] g(1) by simp
qed

end
