(* ===== verification/Xml.thy ===== *)
theory Xml
  imports BrokerErrors Bytes
begin

text \<open>
  SAML documents as the broker sees them (\<open>saml/namespaces.py\<close>, \<open>saml/parser.py\<close>) and the structural
  defences against signature wrapping (\<open>saml/xsw.py\<close>).

  An element is its qualified name, its attributes and its content, the children and the texts between
  them in document order, read with the operations of Python's ElementTree interface (\<open>find\<close>,
  \<open>findall\<close>, \<open>iter\<close>, \<open>get\<close>, \<open>itertext\<close>); the hardened parser has removed comments and processing
  instructions.
  Reading the text itself is lxml's work and a parameter: \<open>fromstring\<close> gives the document type
  declaration, empty when there is none, and the root, or nothing for a syntax error.  Two elements of
  a document are the same when they stand at the same place: \<open>iter_from\<close> numbers them.
\<close>

section \<open>Elements\<close>

datatype xml = Elem string "(string \<times> string) list" "xml list" | Text string

fun x_tag :: "xml \<Rightarrow> string" where
  "x_tag (Elem t a c) = t"
| "x_tag (Text s) = []"

fun x_get :: "xml \<Rightarrow> string \<Rightarrow> string option" where
  "x_get (Elem t a c) n = map_of a n"
| "x_get (Text s) n = None"

fun x_content :: "xml \<Rightarrow> xml list" where
  "x_content (Elem t a c) = c"
| "x_content (Text s) = []"

fun is_elem :: "xml \<Rightarrow> bool" where
  "is_elem (Elem t a c) = True"
| "is_elem (Text s) = False"

definition x_children :: "xml \<Rightarrow> xml list" where
  "x_children e = filter is_elem (x_content e)"

definition x_findall :: "xml \<Rightarrow> string \<Rightarrow> xml list" where
  "x_findall e t = filter (\<lambda>c. x_tag c = t) (x_children e)"

definition x_find :: "xml \<Rightarrow> string \<Rightarrow> xml option" where
  "x_find e t = find (\<lambda>c. x_tag c = t) (x_children e)"

text \<open>\<open>find("A/B")\<close>.\<close>

definition x_find2 :: "xml \<Rightarrow> string \<Rightarrow> string \<Rightarrow> xml option" where
  "x_find2 e t u = (case concat (map (\<lambda>c. x_findall c u) (x_findall e t)) of [] \<Rightarrow> None | x # _ \<Rightarrow> Some x)"

text \<open>The elements of a document in document order, each with the place it stands at.\<close>

fun iter_from :: "nat list \<Rightarrow> xml \<Rightarrow> (nat list \<times> xml) list"
  and iters_from :: "nat list \<Rightarrow> nat \<Rightarrow> xml list \<Rightarrow> (nat list \<times> xml) list" where
  "iter_from p (Text s) = []"
| "iter_from p (Elem t a c) = (p, Elem t a c) # iters_from p 0 c"
| "iters_from p i [] = []"
| "iters_from p i (x # xs) = iter_from (p @ [i]) x @ iters_from p (Suc i) xs"

definition x_iter :: "xml \<Rightarrow> string \<Rightarrow> xml list" where
  "x_iter e t = filter (\<lambda>x. x_tag x = t) (map snd (iter_from [] e))"

text \<open>\<open>find(".//T")\<close>: the first below the element, in document order.\<close>

definition x_find_below :: "xml \<Rightarrow> string \<Rightarrow> xml option" where
  "x_find_below e t = find (\<lambda>x. x_tag x = t) (map snd (tl (iter_from [] e)))"

section \<open>Names\<close>

definition qn :: "string \<Rightarrow> string \<Rightarrow> string" where
  "qn namespace local_name = ''{'' @ namespace @ ''}'' @ local_name"

definition SAML :: string where "SAML = ''urn:oasis:names:tc:SAML:2.0:assertion''"
definition SAMLP :: string where "SAMLP = ''urn:oasis:names:tc:SAML:2.0:protocol''"
definition DS :: string where "DS = ''http://www.w3.org/2000/09/xmldsig#''"
definition XENC :: string where "XENC = ''http://www.w3.org/2001/04/xmlenc#''"
definition XENC11 :: string where "XENC11 = ''http://www.w3.org/2009/xmlenc11#''"

definition Q_RESPONSE :: string where "Q_RESPONSE = qn SAMLP ''Response''"
definition Q_STATUS_CODE :: string where "Q_STATUS_CODE = qn SAMLP ''StatusCode''"
definition Q_ASSERTION :: string where "Q_ASSERTION = qn SAML ''Assertion''"
definition Q_ENCRYPTED_ASSERTION :: string where "Q_ENCRYPTED_ASSERTION = qn SAML ''EncryptedAssertion''"
definition Q_ISSUER :: string where "Q_ISSUER = qn SAML ''Issuer''"
definition Q_SUBJECT :: string where "Q_SUBJECT = qn SAML ''Subject''"
definition Q_NAME_ID :: string where "Q_NAME_ID = qn SAML ''NameID''"
definition Q_SUBJECT_CONFIRMATION :: string where "Q_SUBJECT_CONFIRMATION = qn SAML ''SubjectConfirmation''"
definition Q_SUBJECT_CONFIRMATION_DATA :: string where
  "Q_SUBJECT_CONFIRMATION_DATA = qn SAML ''SubjectConfirmationData''"
definition Q_CONDITIONS :: string where "Q_CONDITIONS = qn SAML ''Conditions''"
definition Q_AUDIENCE_RESTRICTION :: string where "Q_AUDIENCE_RESTRICTION = qn SAML ''AudienceRestriction''"
definition Q_AUDIENCE :: string where "Q_AUDIENCE = qn SAML ''Audience''"
definition Q_ONE_TIME_USE :: string where "Q_ONE_TIME_USE = qn SAML ''OneTimeUse''"
definition Q_PROXY_RESTRICTION :: string where "Q_PROXY_RESTRICTION = qn SAML ''ProxyRestriction''"
definition Q_AUTHN_STATEMENT :: string where "Q_AUTHN_STATEMENT = qn SAML ''AuthnStatement''"
definition Q_AUTHN_CONTEXT_CLASS_REF :: string where "Q_AUTHN_CONTEXT_CLASS_REF = qn SAML ''AuthnContextClassRef''"
definition Q_ATTRIBUTE_STATEMENT :: string where "Q_ATTRIBUTE_STATEMENT = qn SAML ''AttributeStatement''"
definition Q_ATTRIBUTE :: string where "Q_ATTRIBUTE = qn SAML ''Attribute''"
definition Q_ATTRIBUTE_VALUE :: string where "Q_ATTRIBUTE_VALUE = qn SAML ''AttributeValue''"
definition Q_SIGNATURE :: string where "Q_SIGNATURE = qn DS ''Signature''"
definition Q_SIGNED_INFO :: string where "Q_SIGNED_INFO = qn DS ''SignedInfo''"
definition Q_SIGNATURE_METHOD :: string where "Q_SIGNATURE_METHOD = qn DS ''SignatureMethod''"
definition Q_DIGEST_METHOD :: string where "Q_DIGEST_METHOD = qn DS ''DigestMethod''"
definition Q_CANONICALIZATION_METHOD :: string where "Q_CANONICALIZATION_METHOD = qn DS ''CanonicalizationMethod''"
definition Q_REFERENCE :: string where "Q_REFERENCE = qn DS ''Reference''"
definition Q_TRANSFORM :: string where "Q_TRANSFORM = qn DS ''Transform''"
definition Q_ENCRYPTED_DATA :: string where "Q_ENCRYPTED_DATA = qn XENC ''EncryptedData''"
definition Q_ENCRYPTED_KEY :: string where "Q_ENCRYPTED_KEY = qn XENC ''EncryptedKey''"
definition Q_ENCRYPTION_METHOD :: string where "Q_ENCRYPTION_METHOD = qn XENC ''EncryptionMethod''"
definition Q_CIPHER_DATA :: string where "Q_CIPHER_DATA = qn XENC ''CipherData''"
definition Q_CIPHER_VALUE :: string where "Q_CIPHER_VALUE = qn XENC ''CipherValue''"
definition Q_MGF :: string where "Q_MGF = qn XENC11 ''MGF''"

definition BEARER_CONFIRMATION_METHOD :: string where
  "BEARER_CONFIRMATION_METHOD = ''urn:oasis:names:tc:SAML:2.0:cm:bearer''"
definition STATUS_SUCCESS :: string where "STATUS_SUCCESS = ''urn:oasis:names:tc:SAML:2.0:status:Success''"

section \<open>Parsing\<close>

text \<open>A refusal with its reason, or an exception nothing catches.\<close>

datatype saml_error = Rejected reason_code | Broken

definition MAX_DOCUMENT_BYTES :: nat where "MAX_DOCUMENT_BYTES = 512 * 1024"

definition element_ids :: "xml \<Rightarrow> string list" where
  "element_ids root = List.map_filter (\<lambda>(p, e). x_get e ''ID'') (iter_from [] root)"

definition parse_saml :: "(bytes \<Rightarrow> (string \<times> xml) option) \<Rightarrow> bytes \<Rightarrow> (saml_error, xml) result" where
  "parse_saml fromstring data =
     (if length data > MAX_DOCUMENT_BYTES then Err (Rejected R_PAYLOAD_TOO_LARGE)
      else (case fromstring data of
          None \<Rightarrow> Err (Rejected R_MALFORMED_RESPONSE)
        | Some (doctype, root) \<Rightarrow>
            if doctype \<noteq> [] then Err (Rejected R_XML_HARDENING_VIOLATION)
            else if \<not> distinct (element_ids root) then Err (Rejected R_DUPLICATE_ELEMENT_ID)
            else Ok root))"

fun text_of_xml :: "xml \<Rightarrow> string" where
  "text_of_xml (Text s) = s"
| "text_of_xml (Elem t a c) = concat (map text_of_xml c)"

definition x_text_of :: "xml option \<Rightarrow> string" where
  "x_text_of e = (case e of None \<Rightarrow> [] | Some x \<Rightarrow> text_of_xml x)"

section \<open>Wrapping\<close>

abbreviation wrapping :: saml_error where "wrapping \<equiv> Rejected R_SIGNATURE_WRAPPING_DETECTED"

definition assert_single_response_and_assertion :: "xml \<Rightarrow> (saml_error, unit) result" where
  "assert_single_response_and_assertion root =
     (if length (x_iter root Q_RESPONSE) > 1 then Err wrapping
      else if length (x_iter root Q_ASSERTION) + length (x_iter root Q_ENCRYPTED_ASSERTION) > 1 then Err wrapping
      else Ok ())"

text \<open>The places a signature may be a child of.\<close>

definition permitted_places :: "xml \<Rightarrow> nat list list" where
  "permitted_places root =
     (if x_tag root = Q_RESPONSE
      then [] # map (\<lambda>i. [i]) (filter (\<lambda>i. x_tag (x_content root ! i) = Q_ASSERTION) [0..<length (x_content root)])
      else if x_tag root = Q_ASSERTION then [[]] else [])"

fun placement_loop :: "nat list list \<Rightarrow> nat list list \<Rightarrow> nat list list \<Rightarrow> (saml_error, unit) result" where
  "placement_loop permitted occupied [] = Ok ()"
| "placement_loop permitted occupied (p # ps) =
     (if p = [] \<or> butlast p \<notin> set permitted then Err wrapping
      else if butlast p \<in> set occupied then Err wrapping
      else placement_loop permitted (butlast p # occupied) ps)"

definition assert_signature_placement :: "xml \<Rightarrow> (saml_error, unit) result" where
  "assert_signature_placement root =
     placement_loop (permitted_places root) [] (map fst (filter (\<lambda>(p, e). x_tag e = Q_SIGNATURE) (iter_from [] root)))"

definition assert_no_wrapping :: "xml \<Rightarrow> (saml_error, unit) result" where
  "assert_no_wrapping root =
     rbind (assert_single_response_and_assertion root) (\<lambda>_. assert_signature_placement root)"

definition ENVELOPED_SIGNATURE_TRANSFORM :: string where
  "ENVELOPED_SIGNATURE_TRANSFORM = ''http://www.w3.org/2000/09/xmldsig#enveloped-signature''"

definition references_of :: "xml \<Rightarrow> xml list" where
  "references_of signature = concat (map (\<lambda>i. x_findall i Q_REFERENCE) (x_findall signature Q_SIGNED_INFO))"

text \<open>The signature's parent is the element it was found in.\<close>

definition assert_reference_binds_to_parent :: "xml \<Rightarrow> xml \<Rightarrow> (saml_error, unit) result" where
  "assert_reference_binds_to_parent parent signature = (case references_of signature of
       [reference] \<Rightarrow> (case x_get reference ''URI'' of
           None \<Rightarrow> Err wrapping
         | Some uri \<Rightarrow>
             if uri = [] \<or> \<not> starts_with uri ''#'' then Err wrapping
             else if x_get parent ''ID'' \<noteq> Some (drop 1 uri) then Err wrapping
             else if Some ENVELOPED_SIGNATURE_TRANSFORM \<notin>
                 set (map (\<lambda>x. x_get x ''Algorithm'') (x_iter reference Q_TRANSFORM)) then Err wrapping
             else Ok ())
     | _ \<Rightarrow> Err wrapping)"

end
