(* ===== verification/Base64.thy ===== *)
theory Base64
  imports Url
begin

text \<open>
  Reading base64 as the standard library does, padded and URL-safe, and that it reads back what \<open>b64url\<close> wrote.
\<close>

section \<open>Decoding\<close>

text \<open>\<open>base64.b64decode\<close>: other characters are skipped, and enough padding after two or three digits ends
  the text.  The state is the digits since the last full group and the padding since the last digit.\<close>

definition b64_value :: "char \<Rightarrow> nat option" where
  "b64_value c = (let n = (of_char c :: nat) in
     if 65 \<le> n \<and> n \<le> 90 then Some (n - 65) else if 97 \<le> n \<and> n \<le> 122 then Some (n - 71)
     else if 48 \<le> n \<and> n \<le> 57 then Some (n + 4) else if n = 43 then Some 62 else if n = 47 then Some 63 else None)"

definition b64_bytes :: "nat list \<Rightarrow> bytes" where
  "b64_bytes ds = (case ds of
       [a, b, c, d] \<Rightarrow> [of_nat (a * 4 + b div 16), of_nat (b mod 16 * 16 + c div 4), of_nat (c mod 4 * 64 + d)]
     | [a, b, c] \<Rightarrow> [of_nat (a * 4 + b div 16), of_nat (b mod 16 * 16 + c div 4)]
     | [a, b] \<Rightarrow> [of_nat (a * 4 + b div 16)]
     | _ \<Rightarrow> [])"

fun b64_loop :: "nat list \<Rightarrow> nat \<Rightarrow> string \<Rightarrow> bytes option" where
  "b64_loop ds pads [] = (if ds = [] then Some [] else None)"
| "b64_loop ds pads (c # cs) =
     (if c = CHR ''='' then
        (if length ds \<ge> 2 then
           if length ds + Suc pads \<ge> 4 then Some (b64_bytes ds) else b64_loop ds (Suc pads) cs
         else b64_loop ds pads cs)
      else (case b64_value c of
          None \<Rightarrow> b64_loop ds pads cs
        | Some v \<Rightarrow> if length ds = 3 then map_option ((@) (b64_bytes (ds @ [v]))) (b64_loop [] 0 cs)
            else b64_loop (ds @ [v]) 0 cs))"

definition b64decode :: "string \<Rightarrow> bytes option" where
  "b64decode s = (if list_all (\<lambda>c. (of_char c :: nat) < 128) s then b64_loop [] 0 s else None)"

definition standard_char :: "char \<Rightarrow> char" where
  "standard_char c = (if c = CHR ''-'' then CHR ''+'' else if c = CHR ''_'' then CHR ''/'' else c)"

definition padding :: "nat \<Rightarrow> string" where
  "padding n = replicate (nat (- int n mod 4)) (CHR ''='')"

text \<open>\<open>base64.urlsafe_b64decode\<close> of a text with its padding restored; \<open>None\<close> where it raises.\<close>

definition urlsafe_b64decode :: "string \<Rightarrow> bytes option" where
  "urlsafe_b64decode s = b64decode (map standard_char (s @ padding (length s)))"

section \<open>Encoding and decoding\<close>

lemma char_of_eq: "k < 256 \<Longrightarrow> char_of (k :: nat) = c \<longleftrightarrow> k = of_char c"
  by (metis char_of_char of_char_of mod_less)

lemma b64url_code: "n < 64 \<Longrightarrow> \<exists>k. b64url_char n = char_of k \<and> k < 128 \<and>
    k = (if n < 26 then 65 + n else if n < 52 then 71 + n else if n < 62 then n - 4 else if n = 62 then 45 else 95)"
  by (auto simp: b64url_char_def)

lemma b64_value_char:
  assumes "n < 64"
  shows "b64_value (standard_char (b64url_char n)) = Some n" "standard_char (b64url_char n) \<noteq> CHR ''=''"
    "(of_char (standard_char (b64url_char n)) :: nat) < 128"
proof -
  obtain k where k: "b64url_char n = char_of k" "k < 128"
      "k = (if n < 26 then 65 + n else if n < 52 then 71 + n else if n < 62 then n - 4 else if n = 62 then 45 else 95)"
    using b64url_code[OF assms] by blast
  define j where "j = (if k = 45 then 43 else if k = 95 then 47 else k)"
  have j: "standard_char (b64url_char n) = char_of j" "j < 128"
    using k(2) by (auto simp: standard_char_def k(1) j_def char_of_eq) (simp_all add: char_of_def of_char_def bit_simps)
  have "b64_value (char_of j) = Some n" using assms j(2) by (auto simp: b64_value_def Let_def j_def k(3) split: if_splits)
  then show "b64_value (standard_char (b64url_char n)) = Some n" by (simp add: j)
  have "j \<noteq> 61" using assms by (auto simp: j_def k(3) split: if_splits)
  then show "standard_char (b64url_char n) \<noteq> CHR ''=''" using j by (simp add: char_of_eq)
  show "(of_char (standard_char (b64url_char n)) :: nat) < 128" using j by simp
qed

lemma digits_split: "y < k \<Longrightarrow> (x * k + y) div k = x" "y < k \<Longrightarrow> (x * k + y) mod k = (y :: nat)"
  by simp_all

lemma part_bounds: "unat (b :: byte) div 16 < 16" "unat (b :: byte) div 64 < 4" "unat (b :: byte) div 4 < 64"
  using unat_byte_lt[of b] by (simp_all add: div_less_iff_less_mult)

lemma digit_bounds:
  "(unat (a :: byte) mod 4) * 16 + unat (b :: byte) div 16 < 64" "(unat (a :: byte) mod 4) * 16 < 64"
  "(unat (a :: byte) mod 16) * 4 + unat (b :: byte) div 64 < 64" "(unat (a :: byte) mod 16) * 4 < 64" "unat (a :: byte) mod 64 < 64"
  using part_bounds(1,2)[of b] mod_less_divisor[of 4 "unat a"] mod_less_divisor[of 16 "unat a"] by linarith+

lemma byte_parts:
  "of_nat (unat b div 4) * 4 + of_nat (unat b mod 4) = (b :: byte)" "of_nat (unat b div 16) * 16 + of_nat (unat b mod 16) = (b :: byte)"
  "of_nat (unat b div 64) * 64 + of_nat (unat b mod 64) = (b :: byte)"
  by (metis div_mult_mod_eq of_nat_add of_nat_mult of_nat_numeral of_nat_unat_byte)+

lemmas b64_digits = byte_parts b64_value_char digit_bounds part_bounds b64_bytes_def digits_split

lemma b64_group:
  "b64_loop [] 0 (standard_char (b64url_char (unat a div 4)) # standard_char (b64url_char ((unat a mod 4) * 16 + unat b div 16)) #
     standard_char (b64url_char ((unat b mod 16) * 4 + unat c div 64)) # standard_char (b64url_char (unat c mod 64)) # rest) =
   map_option ((@) [a, b, c]) (b64_loop [] 0 rest)"
  by (simp add: b64_digits)

lemma b64_tail:
  "b64_loop [] 0 (map (standard_char \<circ> b64url_char) (sextets [a]) @ ''=='') = Some [a]"
  "b64_loop [] 0 (map (standard_char \<circ> b64url_char) (sextets [a, b]) @ ''='') = Some [a, b]"
  by (simp_all add: b64_digits)

lemma padding_4: "padding (Suc (Suc (Suc (Suc n)))) = padding n"
proof -
  have "- int (Suc (Suc (Suc (Suc n)))) mod 4 = - int n mod 4" by presburger
  then show ?thesis by (simp add: padding_def)
qed

lemma b64_loop_sextets:
  "b64_loop [] 0 (map (standard_char \<circ> b64url_char) (sextets bs) @ padding (length (sextets bs))) = Some bs"
proof (induction bs rule: sextets.induct)
  case 1
  then show ?case by (simp add: padding_def)
next
  case (2 a)
  have "padding (length (sextets [a])) = ''==''" by (simp add: padding_def numeral_2_eq_2)
  then show ?case using b64_tail(1)[of a] by metis
next
  case (3 a b)
  have "padding (length (sextets [a, b])) = ''=''" by (simp add: padding_def)
  then show ?case using b64_tail(2)[of a b] by metis
next
  case (4 a b c r)
  then show ?case by (simp add: b64_group padding_4 del: b64_loop.simps)
qed

lemma urlsafe_b64url: "urlsafe_b64decode (b64url bs) = Some bs"
proof -
  have "map standard_char (b64url bs @ padding (length (b64url bs))) =
      map (standard_char \<circ> b64url_char) (sextets bs) @ padding (length (sextets bs))"
    by (simp add: b64url_def padding_def standard_char_def)
  moreover have "list_all (\<lambda>c. (of_char c :: nat) < 128) (map (standard_char \<circ> b64url_char) (sextets bs) @ padding (length (sextets bs)))"
    using sextets_bound[of bs] by (auto simp: list_all_iff b64_value_char padding_def)
  ultimately show ?thesis using b64_loop_sextets[of bs] by (simp add: urlsafe_b64decode_def b64decode_def)
qed

end
