(* ===== verification/SamlSignature.thy ===== *)
theory SamlSignature
  imports Xml Base64
begin

text \<open>
  Signatures and encryption of SAML documents: the algorithm allowlists (\<open>saml/algorithms.py\<close>), what is
  verified and what is read afterwards (\<open>saml/signature.py\<close>), and the decryption of an assertion
  (\<open>saml/encryption.py\<close>).

  The cryptography is third-party code and a parameter: \<open>sx\<close> is signxml's verifier on a document, a
  place and a certificate, configured as the source configures it; \<open>crypto\<close> holds RSA key loading,
  OAEP unwrapping and AES-GCM.  \<open>None\<close> of a parameter is any exception it raises.
\<close>

section \<open>Algorithms\<close>

definition DSIG_MORE :: string where "DSIG_MORE = ''http://www.w3.org/2001/04/xmldsig-more#''"
definition EXC_C14N :: string where "EXC_C14N = ''http://www.w3.org/2001/10/xml-exc-c14n#''"

definition PERMITTED_SIGNATURE_METHODS :: "string set" where
  "PERMITTED_SIGNATURE_METHODS = (@) DSIG_MORE ` {''rsa-sha256'', ''rsa-sha384'', ''rsa-sha512'',
     ''ecdsa-sha256'', ''ecdsa-sha384'', ''ecdsa-sha512''}"

definition PERMITTED_DIGEST_METHODS :: "string set" where
  "PERMITTED_DIGEST_METHODS = {XENC @ ''sha256'', DSIG_MORE @ ''sha384'', XENC @ ''sha512''}"

definition PERMITTED_CANONICALIZATION_METHODS :: "string set" where
  "PERMITTED_CANONICALIZATION_METHODS = {EXC_C14N}"

definition PERMITTED_TRANSFORMS :: "string set" where
  "PERMITTED_TRANSFORMS = {DS @ ''enveloped-signature'', EXC_C14N}"

definition WITH_COMMENTS_SUFFIX :: string where "WITH_COMMENTS_SUFFIX = ''#WithComments''"

text \<open>\<open>algorithm not in permitted\<close>, an absent attribute being \<open>None\<close>.\<close>

definition allowed :: "string set \<Rightarrow> string option \<Rightarrow> bool" where
  "allowed permitted a = (case a of None \<Rightarrow> False | Some s \<Rightarrow> s \<in> permitted)"

definition keeps_comments :: "xml \<Rightarrow> bool" where
  "keeps_comments e = (case x_get e ''Algorithm'' of
       None \<Rightarrow> False | Some a \<Rightarrow> a \<noteq> [] \<and> ends_with a WITH_COMMENTS_SUFFIX)"

definition assert_no_with_comments :: "xml \<Rightarrow> (saml_error, unit) result" where
  "assert_no_with_comments signature =
     guard_r (list_all (\<lambda>(p, e). \<not> keeps_comments e) (iter_from [] signature)) (Rejected R_XML_HARDENING_VIOLATION)"

definition algorithm_below :: "xml \<Rightarrow> string \<Rightarrow> string option" where
  "algorithm_below signature t = Option.bind (x_find_below signature t) (\<lambda>e. x_get e ''Algorithm'')"

definition assert_algorithms_permitted :: "xml \<Rightarrow> (saml_error, unit) result" where
  "assert_algorithms_permitted signature =
     rbind (assert_no_with_comments signature) (\<lambda>_.
     rbind (guard_r (allowed PERMITTED_SIGNATURE_METHODS (algorithm_below signature Q_SIGNATURE_METHOD))
       (Rejected R_WEAK_ALGORITHM)) (\<lambda>_.
     rbind (guard_r (list_all (\<lambda>e. allowed PERMITTED_DIGEST_METHODS (x_get e ''Algorithm'')) (x_iter signature Q_DIGEST_METHOD))
       (Rejected R_WEAK_ALGORITHM)) (\<lambda>_.
     rbind (guard_r (allowed PERMITTED_CANONICALIZATION_METHODS (algorithm_below signature Q_CANONICALIZATION_METHOD))
       (Rejected R_WEAK_ALGORITHM)) (\<lambda>_.
     guard_r (list_all (\<lambda>e. allowed PERMITTED_TRANSFORMS (x_get e ''Algorithm'')) (x_iter signature Q_TRANSFORM))
       (Rejected R_WEAK_ALGORITHM)))))"

section \<open>Verification\<close>

datatype sig_location = RESPONSE_SIGNATURE_LOCATION | ASSERTION_SIGNATURE_LOCATION

text \<open>What the verifier does: refuses, reports several references, or returns the verified copy.\<close>

datatype sx_result = SxRefused | SxSeveral nat | SxVerified "xml option"

type_synonym verifier = "xml \<Rightarrow> sig_location \<Rightarrow> string \<Rightarrow> sx_result"

definition find_signature :: "xml \<Rightarrow> xml option" where
  "find_signature parent = x_find parent Q_SIGNATURE"

definition verified_is_expected :: "xml \<Rightarrow> xml \<Rightarrow> bool" where
  "verified_is_expected verified expected =
     (x_tag verified = x_tag expected \<and> x_get verified ''ID'' = x_get expected ''ID'')"

fun try_certificates :: "verifier \<Rightarrow> xml \<Rightarrow> xml \<Rightarrow> sig_location \<Rightarrow> string list \<Rightarrow> (saml_error, xml) result" where
  "try_certificates sx document element loc [] = Err (Rejected R_SIGNATURE_INVALID)"
| "try_certificates sx document element loc (c # cs) = (case sx document loc c of
       SxRefused \<Rightarrow> try_certificates sx document element loc cs
     | SxSeveral n \<Rightarrow> Err wrapping
     | SxVerified None \<Rightarrow> Err (Rejected R_SIGNATURE_INVALID)
     | SxVerified (Some verified) \<Rightarrow>
         if verified_is_expected verified element then Ok verified else Err wrapping)"

definition verify_signature ::
  "verifier \<Rightarrow> xml \<Rightarrow> xml \<Rightarrow> sig_location \<Rightarrow> string list \<Rightarrow> (saml_error, xml) result" where
  "verify_signature sx document element loc certificates = (case find_signature element of
       None \<Rightarrow> Err (Rejected R_SIGNATURE_MISSING)
     | Some signature \<Rightarrow>
         rbind (assert_algorithms_permitted signature) (\<lambda>_.
         rbind (assert_reference_binds_to_parent element signature) (\<lambda>_.
           if certificates = [] then Err (Rejected R_SIGNATURE_INVALID)
           else try_certificates sx document element loc certificates)))"

section \<open>Decryption\<close>

definition RSA_OAEP_MGF1P :: string where "RSA_OAEP_MGF1P = XENC @ ''rsa-oaep-mgf1p''"
definition RSA_OAEP :: string where "RSA_OAEP = XENC11 @ ''rsa-oaep''"

definition PERMITTED_KEY_TRANSPORT :: "string set" where
  "PERMITTED_KEY_TRANSPORT = {RSA_OAEP_MGF1P, RSA_OAEP}"

definition PERMITTED_CONTENT_ENCRYPTION :: "(string \<times> nat) list" where
  "PERMITTED_CONTENT_ENCRYPTION = [(XENC11 @ ''aes128-gcm'', 16), (XENC11 @ ''aes192-gcm'', 24), (XENC11 @ ''aes256-gcm'', 32)]"

definition OAEP_DIGESTS :: "string set" where
  "OAEP_DIGESTS = {DS @ ''sha1'', XENC @ ''sha256'', DSIG_MORE @ ''sha384'', XENC @ ''sha512''}"

definition MGF_HASHES :: "string set" where
  "MGF_HASHES = (@) XENC11 ` {''mgf1sha1'', ''mgf1sha224'', ''mgf1sha256'', ''mgf1sha384'', ''mgf1sha512''}"

definition GCM_IV_BYTES :: nat where "GCM_IV_BYTES = 12"
definition GCM_TAG_BYTES :: nat where "GCM_TAG_BYTES = 16"

record 'k crypto =
  cr_load :: "bytes \<Rightarrow> 'k option"
  cr_oaep :: "'k \<Rightarrow> string \<Rightarrow> string \<Rightarrow> bytes \<Rightarrow> bytes option"
  cr_gcm :: "bytes \<Rightarrow> bytes \<Rightarrow> bytes \<Rightarrow> bytes option"

text \<open>\<open>element.text\<close>: the text before the first child.\<close>

definition x_text :: "xml \<Rightarrow> string" where
  "x_text e = concat (map text_of_xml (takeWhile (\<lambda>c. \<not> is_elem c) (x_content e)))"

definition encryption_algorithm :: "xml \<Rightarrow> (saml_error, string) result" where
  "encryption_algorithm e = (case Option.bind (x_find e Q_ENCRYPTION_METHOD) (\<lambda>m. x_get m ''Algorithm'') of
       Some a \<Rightarrow> if a = [] then Err (Rejected R_UNSUPPORTED_ENCRYPTION_ALGORITHM) else Ok a
     | None \<Rightarrow> Err (Rejected R_UNSUPPORTED_ENCRYPTION_ALGORITHM))"

definition find_encrypted_key :: "xml \<Rightarrow> xml \<Rightarrow> (saml_error, xml) result" where
  "find_encrypted_key assertion data = (case x_find_below data Q_ENCRYPTED_KEY of
       Some k \<Rightarrow> Ok k
     | None \<Rightarrow> (case x_find_below assertion Q_ENCRYPTED_KEY of
           Some k \<Rightarrow> Ok k | None \<Rightarrow> Err (Rejected R_DECRYPTION_FAILED)))"

text \<open>\<open>None\<close> where \<open>b64decode\<close> raises; a missing value is refused.\<close>

definition cipher_value :: "xml \<Rightarrow> (saml_error, bytes option) result" where
  "cipher_value e = (case x_find2 e Q_CIPHER_DATA Q_CIPHER_VALUE of
       None \<Rightarrow> Err (Rejected R_DECRYPTION_FAILED)
     | Some v \<Rightarrow> if x_text v = [] then Err (Rejected R_DECRYPTION_FAILED)
         else Ok (b64decode (filter (\<lambda>c. \<not> py_is_space c) (x_text v))))"

text \<open>Unwrapping and decrypting: \<open>Ok None\<close> is an exception other than a refusal.\<close>

definition or_default :: "xml option \<Rightarrow> string \<Rightarrow> string option" where
  "or_default e d = (case e of None \<Rightarrow> Some d | Some x \<Rightarrow> x_get x ''Algorithm'')"

definition oaep_parameters :: "xml \<Rightarrow> string \<Rightarrow> (saml_error, string \<times> string) result" where
  "oaep_parameters key alg =
     (if alg = RSA_OAEP_MGF1P then Ok (DS @ ''sha1'', XENC11 @ ''mgf1sha1'')
      else (case x_find key Q_ENCRYPTION_METHOD of
          None \<Rightarrow> Err (Rejected R_DECRYPTION_FAILED)
        | Some m \<Rightarrow>
            (let digest = or_default (x_find m (qn DS ''DigestMethod'')) (XENC @ ''sha256'');
                 mgf = or_default (x_find m Q_MGF) (XENC11 @ ''mgf1sha1'') in
             if \<not> allowed OAEP_DIGESTS digest \<or> \<not> allowed MGF_HASHES mgf
             then Err (Rejected R_UNSUPPORTED_ENCRYPTION_ALGORITHM)
             else Ok (the digest, the mgf))))"

definition unwrap_key :: "'k crypto \<Rightarrow> xml \<Rightarrow> string \<Rightarrow> bytes \<Rightarrow> (saml_error, bytes option) result" where
  "unwrap_key C key alg pem = (case cr_load C pem of
       None \<Rightarrow> Ok None
     | Some k \<Rightarrow> rbind (oaep_parameters key alg) (\<lambda>(digest, mgf).
         rbind (cipher_value key) (\<lambda>v. Ok (Option.bind v (cr_oaep C k digest mgf)))))"

definition decrypt_gcm :: "'k crypto \<Rightarrow> bytes \<Rightarrow> bytes \<Rightarrow> bytes option" where
  "decrypt_gcm C ciphertext session_key =
     (if length ciphertext \<le> GCM_IV_BYTES + GCM_TAG_BYTES then None
      else cr_gcm C session_key (take GCM_IV_BYTES ciphertext) (drop GCM_IV_BYTES ciphertext))"

definition uniform :: "(saml_error, 'a option) result \<Rightarrow> (saml_error, 'a) result" where
  "uniform r = rbind r (\<lambda>v. case v of None \<Rightarrow> Err (Rejected R_DECRYPTION_FAILED) | Some x \<Rightarrow> Ok x)"

definition decrypt_content ::
  "'k crypto \<Rightarrow> xml \<Rightarrow> string \<Rightarrow> nat \<Rightarrow> bytes \<Rightarrow> xml \<Rightarrow> (saml_error, bytes) result" where
  "decrypt_content C key key_algorithm expected_length pem data =
     uniform (rbind (unwrap_key C key key_algorithm pem) (\<lambda>k. case k of
         None \<Rightarrow> Ok None
       | Some session_key \<Rightarrow>
           if length session_key \<noteq> expected_length then Ok None
           else rbind (cipher_value data) (\<lambda>v. Ok (Option.bind v (\<lambda>ct. decrypt_gcm C ct session_key)))))"

definition decrypt_assertion ::
  "'k crypto \<Rightarrow> (bytes \<Rightarrow> (string \<times> xml) option) \<Rightarrow> xml \<Rightarrow> bytes \<Rightarrow> (saml_error, xml) result" where
  "decrypt_assertion C fromstring encrypted pem = (case x_find encrypted Q_ENCRYPTED_DATA of
       None \<Rightarrow> Err (Rejected R_DECRYPTION_FAILED)
     | Some data \<Rightarrow>
         rbind (encryption_algorithm data) (\<lambda>content_algorithm.
         case map_of PERMITTED_CONTENT_ENCRYPTION content_algorithm of
           None \<Rightarrow> Err (Rejected R_UNSUPPORTED_ENCRYPTION_ALGORITHM)
         | Some expected_length \<Rightarrow>
             rbind (find_encrypted_key encrypted data) (\<lambda>key.
             rbind (encryption_algorithm key) (\<lambda>key_algorithm.
             if key_algorithm \<notin> PERMITTED_KEY_TRANSPORT then Err (Rejected R_UNSUPPORTED_ENCRYPTION_ALGORITHM)
             else rbind (decrypt_content C key key_algorithm expected_length pem data) (\<lambda>plaintext.
               if length plaintext > MAX_DOCUMENT_BYTES then Err (Rejected R_PAYLOAD_TOO_LARGE)
               else parse_saml fromstring plaintext)))))"

end
