(* ===== verification/SamlGate.thy ===== *)
theory SamlGate
  imports SamlSignature OneTime
begin

text \<open>
  The assertion gate (\<open>saml/gate.py\<close>): the ordered checks that turn a SAML response into the facts of a
  login, with the stores of \<open>OneTime\<close> behind it.

  An instant is a number of microseconds.  The broker's clock is read four times, for the conditions, the
  subject confirmation, the authentication statement and the replay entry: \<open>now i\<close> is the \<open>i\<close>-th
  reading.  How Python reads ISO 8601 is a parameter, \<open>dt\<close>: a syntax error, an instant without a time
  zone, or an instant; sums of an instant and the skew are taken to stay within the calendar.  The
  federation registry, the XML parser, the verifier and the cryptography are parameters as well.
  Tracing has no effect on the result and is left out.
\<close>

section \<open>Data\<close>

definition RECOGNISED_CONDITIONS :: "string set" where
  "RECOGNISED_CONDITIONS = {Q_AUDIENCE_RESTRICTION, Q_ONE_TIME_USE, Q_PROXY_RESTRICTION}"

record trusted_idp =
  ti_entity_id :: string
  ti_signing_certificates :: "string list"
  ti_want_assertions_signed :: bool
  ti_allow_unsolicited :: bool

record gate_policy =
  gp_audience :: string
  gp_destination :: string
  gp_clock_skew :: int
  gp_max_authn_age :: "int option"

record assertion_facts =
  af_issuer :: string
  af_assertion_id :: string
  af_name_id :: string
  af_name_id_format :: "string option"
  af_not_on_or_after :: int
  af_authn_instant :: int
  af_authn_context :: "string option"
  af_session_index :: "string option"
  af_attributes :: "(string \<times> string list) list"
  af_relay_state :: "string option"
  af_return_to :: "string option"
  af_correlation_id :: "string option"

datatype iso_instant = NotIso | Naive | Instant int

record ('k, 's) gate =
  gt_policy :: gate_policy
  gt_resolve :: "string \<Rightarrow> trusted_idp option"
  gt_redis :: "'s redis"
  gt_keys :: "bytes list"
  gt_fromstring :: "bytes \<Rightarrow> (string \<times> xml) option"
  gt_verifier :: verifier
  gt_crypto :: "'k crypto"
  gt_iso :: "string \<Rightarrow> iso_instant"

section \<open>Reading an element\<close>

definition required_attribute :: "xml \<Rightarrow> string \<Rightarrow> (saml_error, string) result" where
  "required_attribute e n = (case x_get e n of None \<Rightarrow> Err (Rejected R_MALFORMED_RESPONSE) | Some v \<Rightarrow> Ok v)"

definition optional_instant :: "(string \<Rightarrow> iso_instant) \<Rightarrow> xml \<Rightarrow> string \<Rightarrow> (saml_error, int option) result" where
  "optional_instant dt e n = (case x_get e n of
       None \<Rightarrow> Ok None
     | Some raw \<Rightarrow> (case dt raw of Instant i \<Rightarrow> Ok (Some i) | _ \<Rightarrow> Err (Rejected R_MALFORMED_RESPONSE)))"

definition required_instant :: "(string \<Rightarrow> iso_instant) \<Rightarrow> xml \<Rightarrow> string \<Rightarrow> (saml_error, int) result" where
  "required_instant dt e n = rbind (optional_instant dt e n) (\<lambda>v. case v of
       None \<Rightarrow> Err (Rejected R_MALFORMED_RESPONSE) | Some i \<Rightarrow> Ok i)"

text \<open>\<open>collected.setdefault(name, []).extend(values)\<close>.\<close>

definition collect :: "(string \<times> string list) list \<Rightarrow> xml \<Rightarrow> (string \<times> string list) list" where
  "collect acc a = (case x_get a ''Name'' of
       None \<Rightarrow> acc
     | Some name \<Rightarrow> AList.update name
         ((case map_of acc name of None \<Rightarrow> [] | Some vs \<Rightarrow> vs) @ map text_of_xml (x_findall a Q_ATTRIBUTE_VALUE)) acc)"

definition attributes_of :: "xml \<Rightarrow> (string \<times> string list) list" where
  "attributes_of assertion = foldl collect []
     (concat (map (\<lambda>s. x_findall s Q_ATTRIBUTE) (x_findall assertion Q_ATTRIBUTE_STATEMENT)))"

definition name_id_of :: "xml \<Rightarrow> (saml_error, string) result" where
  "name_id_of assertion = (let v = py_strip (x_text_of (x_find2 assertion Q_SUBJECT Q_NAME_ID)) in
     if v = [] then Err (Rejected R_SUBJECT_CONFIRMATION_INVALID) else Ok v)"

definition name_id_format_of :: "xml \<Rightarrow> string option" where
  "name_id_format_of assertion = Option.bind (x_find2 assertion Q_SUBJECT Q_NAME_ID) (\<lambda>n. x_get n ''Format'')"

section \<open>Checks before the stores\<close>

definition check_status :: "xml \<Rightarrow> (saml_error, unit) result" where
  "check_status root = guard_r
     (Option.bind (x_find_below root Q_STATUS_CODE) (\<lambda>c. x_get c ''Value'') = Some STATUS_SUCCESS)
     (Rejected R_IDP_ERROR_STATUS)"

definition issuer_of :: "xml \<Rightarrow> (saml_error, string) result" where
  "issuer_of root = (let issuer = py_strip (x_text_of (x_find root Q_ISSUER)) in
     case x_find root Q_ASSERTION of
       None \<Rightarrow> Ok issuer
     | Some a \<Rightarrow> (let inner = py_strip (x_text_of (x_find a Q_ISSUER)) in
         if inner \<noteq> [] \<and> issuer \<noteq> [] \<and> inner \<noteq> issuer then Err (Rejected R_ISSUER_MISMATCH)
         else Ok (if inner \<noteq> [] then inner else issuer)))"

definition resolve_issuer :: "('k, 's) gate \<Rightarrow> xml \<Rightarrow> (saml_error, trusted_idp) result" where
  "resolve_issuer G root = rbind (issuer_of root) (\<lambda>issuer.
     if issuer = [] then Err (Rejected R_UNKNOWN_ISSUER)
     else (case gt_resolve G issuer of None \<Rightarrow> Err (Rejected R_UNKNOWN_ISSUER) | Some idp \<Rightarrow> Ok idp))"

text \<open>\<open>_decrypt\<close>: the first key that works, or the refusal of the last one.\<close>

fun decrypt_with :: "('k, 's) gate \<Rightarrow> xml \<Rightarrow> bytes list \<Rightarrow> (saml_error, xml) result" where
  "decrypt_with G encrypted [] = Err Broken"
| "decrypt_with G encrypted (k # ks) = (case decrypt_assertion (gt_crypto G) (gt_fromstring G) encrypted k of
       Inr a \<Rightarrow> Ok a
     | Inl e \<Rightarrow> if ks = [] then Err e else decrypt_with G encrypted ks)"

definition verify_encrypted :: "('k, 's) gate \<Rightarrow> xml \<Rightarrow> trusted_idp \<Rightarrow> (saml_error, xml) result" where
  "verify_encrypted G encrypted idp =
     (if gt_keys G = [] then Err (Rejected R_DECRYPTION_FAILED)
      else rbind (decrypt_with G encrypted (gt_keys G)) (\<lambda>a.
        if x_tag a \<noteq> Q_ASSERTION then Err (Rejected R_DECRYPTION_FAILED)
        else rbind (assert_no_wrapping a) (\<lambda>_.
          verify_signature (gt_verifier G) a a RESPONSE_SIGNATURE_LOCATION (ti_signing_certificates idp))))"

definition verify_response :: "('k, 's) gate \<Rightarrow> xml \<Rightarrow> trusted_idp \<Rightarrow> (saml_error, unit) result" where
  "verify_response G root idp = (if find_signature root = None then Ok ()
     else rbind (verify_signature (gt_verifier G) root root RESPONSE_SIGNATURE_LOCATION (ti_signing_certificates idp))
       (\<lambda>_. Ok ()))"

definition verify_plain :: "('k, 's) gate \<Rightarrow> xml \<Rightarrow> trusted_idp \<Rightarrow> (saml_error, xml) result" where
  "verify_plain G root idp = (case x_find root Q_ASSERTION of
       None \<Rightarrow> Err (Rejected R_MALFORMED_RESPONSE)
     | Some a \<Rightarrow>
         if \<not> ti_want_assertions_signed idp \<and> find_signature a = None
         then if find_signature root = None then Err (Rejected R_SIGNATURE_MISSING) else Ok a
         else verify_signature (gt_verifier G) root a ASSERTION_SIGNATURE_LOCATION (ti_signing_certificates idp))"

definition gate_verify :: "('k, 's) gate \<Rightarrow> xml \<Rightarrow> trusted_idp \<Rightarrow> (saml_error, xml) result" where
  "gate_verify G root idp = rbind (verify_response G root idp) (\<lambda>_.
     case x_find root Q_ENCRYPTED_ASSERTION of
       Some encrypted \<Rightarrow> verify_encrypted G encrypted idp
     | None \<Rightarrow> verify_plain G root idp)"

definition check_destination :: "gate_policy \<Rightarrow> xml \<Rightarrow> (saml_error, unit) result" where
  "check_destination P root = (case x_get root ''Destination'' of
       None \<Rightarrow> Ok () | Some d \<Rightarrow> guard_r (d = gp_destination P) (Rejected R_DESTINATION_MISMATCH))"

text \<open>Everything up to the first store: the response, its issuer and the assertion to read.\<close>

definition gate_before :: "('k, 's) gate \<Rightarrow> bytes \<Rightarrow> (saml_error, xml \<times> trusted_idp \<times> xml) result" where
  "gate_before G document =
     rbind (parse_saml (gt_fromstring G) document) (\<lambda>root.
     rbind (assert_no_wrapping root) (\<lambda>_.
     rbind (check_status root) (\<lambda>_.
     rbind (resolve_issuer G root) (\<lambda>idp.
     rbind (gate_verify G root idp) (\<lambda>assertion.
     rbind (check_destination (gt_policy G) root) (\<lambda>_. Ok (root, idp, assertion)))))))"

section \<open>Checks of the assertion\<close>

definition audiences_of :: "xml \<Rightarrow> string list" where
  "audiences_of conditions = map (\<lambda>a. py_strip (text_of_xml a))
     (concat (map (\<lambda>r. x_findall r Q_AUDIENCE) (x_findall conditions Q_AUDIENCE_RESTRICTION)))"

definition check_audience :: "gate_policy \<Rightarrow> xml \<Rightarrow> (saml_error, unit) result" where
  "check_audience P assertion = (case x_find assertion Q_CONDITIONS of
       None \<Rightarrow> Err (Rejected R_AUDIENCE_MISMATCH)
     | Some c \<Rightarrow> if audiences_of c = [] then Err (Rejected R_AUDIENCE_MISMATCH)
         else guard_r (gp_audience P \<in> set (audiences_of c)) (Rejected R_AUDIENCE_MISMATCH))"

definition check_conditions :: "gate_policy \<Rightarrow> (string \<Rightarrow> iso_instant) \<Rightarrow> int \<Rightarrow> xml \<Rightarrow> (saml_error, int) result" where
  "check_conditions P dt now assertion = (case x_find assertion Q_CONDITIONS of
       None \<Rightarrow> Err (Rejected R_ASSERTION_EXPIRED)
     | Some c \<Rightarrow>
         if \<not> list_all (\<lambda>x. x_tag x \<in> RECOGNISED_CONDITIONS) (x_children c) then Err (Rejected R_UNSUPPORTED_CONDITION)
         else rbind (optional_instant dt c ''NotBefore'') (\<lambda>not_before.
           if (case not_before of None \<Rightarrow> False | Some b \<Rightarrow> now < b - gp_clock_skew P)
           then Err (Rejected R_ASSERTION_NOT_YET_VALID)
           else rbind (required_instant dt c ''NotOnOrAfter'') (\<lambda>until.
             if now \<ge> until + gp_clock_skew P then Err (Rejected R_ASSERTION_EXPIRED) else Ok until)))"

text \<open>The first bearer confirmation that carries data decides.\<close>

definition check_data ::
  "gate_policy \<Rightarrow> (string \<Rightarrow> iso_instant) \<Rightarrow> int \<Rightarrow> outstanding_request option \<Rightarrow> xml \<Rightarrow> (saml_error, unit) result" where
  "check_data P dt now req data =
     (if x_get data ''Recipient'' \<noteq> Some (gp_destination P) then Err (Rejected R_SUBJECT_CONFIRMATION_INVALID)
      else rbind (required_instant dt data ''NotOnOrAfter'') (\<lambda>expiry.
        if now \<ge> expiry + gp_clock_skew P then Err (Rejected R_SUBJECT_CONFIRMATION_INVALID)
        else guard_r (x_get data ''InResponseTo'' = map_option or_request_id req) (Rejected R_SUBJECT_CONFIRMATION_INVALID)))"

fun confirm_loop ::
  "gate_policy \<Rightarrow> (string \<Rightarrow> iso_instant) \<Rightarrow> int \<Rightarrow> outstanding_request option \<Rightarrow> xml list \<Rightarrow> (saml_error, unit) result" where
  "confirm_loop P dt now req [] = Err (Rejected R_SUBJECT_CONFIRMATION_INVALID)"
| "confirm_loop P dt now req (c # cs) =
     (if x_get c ''Method'' \<noteq> Some BEARER_CONFIRMATION_METHOD then confirm_loop P dt now req cs
      else (case x_find c Q_SUBJECT_CONFIRMATION_DATA of
          None \<Rightarrow> confirm_loop P dt now req cs
        | Some data \<Rightarrow> check_data P dt now req data))"

definition check_subject_confirmation ::
  "gate_policy \<Rightarrow> (string \<Rightarrow> iso_instant) \<Rightarrow> int \<Rightarrow> outstanding_request option \<Rightarrow> xml \<Rightarrow> (saml_error, unit) result" where
  "check_subject_confirmation P dt now req assertion = (case x_find assertion Q_SUBJECT of
       None \<Rightarrow> Err (Rejected R_SUBJECT_CONFIRMATION_INVALID)
     | Some subj \<Rightarrow> confirm_loop P dt now req (x_findall subj Q_SUBJECT_CONFIRMATION))"

definition check_authn_statement ::
  "gate_policy \<Rightarrow> (string \<Rightarrow> iso_instant) \<Rightarrow> int \<Rightarrow> xml \<Rightarrow> (saml_error, int \<times> string option \<times> string option) result" where
  "check_authn_statement P dt now assertion = (case x_find assertion Q_AUTHN_STATEMENT of
       None \<Rightarrow> Err (Rejected R_MISSING_AUTHN_STATEMENT)
     | Some st \<Rightarrow> rbind (required_instant dt st ''AuthnInstant'') (\<lambda>authn_instant.
         if (case gp_max_authn_age P of None \<Rightarrow> False | Some m \<Rightarrow> now - authn_instant > m + gp_clock_skew P)
         then Err (Rejected R_ASSERTION_EXPIRED)
         else (let ctx = (case x_find_below st Q_AUTHN_CONTEXT_CLASS_REF of
                     None \<Rightarrow> None | Some c \<Rightarrow> (let v = py_strip (text_of_xml c) in if v = [] then None else Some v)) in
           Ok (authn_instant, ctx, x_get st ''SessionIndex''))))"

definition gate_checks ::
  "('k, 's) gate \<Rightarrow> (nat \<Rightarrow> int) \<Rightarrow> outstanding_request option \<Rightarrow> xml \<Rightarrow>
     (saml_error, int \<times> int \<times> string option \<times> string option) result" where
  "gate_checks G now req assertion =
     rbind (check_audience (gt_policy G) assertion) (\<lambda>_.
     rbind (check_conditions (gt_policy G) (gt_iso G) (now 0) assertion) (\<lambda>until.
     rbind (check_subject_confirmation (gt_policy G) (gt_iso G) (now 1) req assertion) (\<lambda>_.
     rbind (check_authn_statement (gt_policy G) (gt_iso G) (now 2) assertion) (\<lambda>st. Ok (until, st)))))"

section \<open>The stores\<close>

definition consume_request ::
  "('k, 's) gate \<Rightarrow> time \<Rightarrow> xml \<Rightarrow> trusted_idp \<Rightarrow> 's \<Rightarrow> (saml_error, outstanding_request option) result \<times> 's" where
  "consume_request G t root idp s = (case x_get root ''InResponseTo'' of
       None \<Rightarrow> (if ti_allow_unsolicited idp then Ok None else Err (Rejected R_UNSOLICITED_RESPONSE), s)
     | Some rid \<Rightarrow> (let (taken, s') = request_consume (gt_redis G) t rid s in
         (case taken of
            Nothing \<Rightarrow> Err (Rejected R_UNKNOWN_INRESPONSETO)
          | Unreadable \<Rightarrow> Err Broken
          | Taken q \<Rightarrow> if or_idp_entity_id q \<noteq> ti_entity_id idp then Err (Rejected R_UNKNOWN_INRESPONSETO) else Ok (Some q), s')))"

text \<open>The entry lives for the whole seconds left of the validity, the skew included.\<close>

definition replay_ttl :: "gate_policy \<Rightarrow> int \<Rightarrow> int \<Rightarrow> int" where
  "replay_ttl P until now = (until - now + gp_clock_skew P) div 1000000"

definition check_replay ::
  "('k, 's) gate \<Rightarrow> time \<Rightarrow> int \<Rightarrow> xml \<Rightarrow> int \<Rightarrow> 's \<Rightarrow> (saml_error, unit) result \<times> 's" where
  "check_replay G t now assertion until s = (case required_attribute assertion ''ID'' of
       Inl e \<Rightarrow> (Err e, s)
     | Inr aid \<Rightarrow> (let (first, s') = replay_remember (gt_redis G) t aid (replay_ttl (gt_policy G) until now) s in
         (guard_r first (Rejected R_REPLAY_DETECTED), s')))"

definition facts_of ::
  "trusted_idp \<Rightarrow> outstanding_request option \<Rightarrow> int \<times> int \<times> string option \<times> string option \<Rightarrow> xml \<Rightarrow>
     (saml_error, assertion_facts) result" where
  "facts_of idp req checked assertion = (case checked of (until, authn_instant, ctx, index) \<Rightarrow>
     rbind (required_attribute assertion ''ID'') (\<lambda>aid.
     rbind (name_id_of assertion) (\<lambda>name_id.
       Ok \<lparr>af_issuer = ti_entity_id idp, af_assertion_id = aid, af_name_id = name_id,
         af_name_id_format = name_id_format_of assertion, af_not_on_or_after = until, af_authn_instant = authn_instant,
         af_authn_context = ctx, af_session_index = index, af_attributes = attributes_of assertion,
         af_relay_state = map_option or_relay_state req, af_return_to = Option.bind req or_return_to,
         af_correlation_id = Option.bind req or_correlation_id\<rparr>)))"

definition gate_validate ::
  "('k, 's) gate \<Rightarrow> time \<Rightarrow> (nat \<Rightarrow> int) \<Rightarrow> bytes \<Rightarrow> 's \<Rightarrow> (saml_error, assertion_facts) result \<times> 's" where
  "gate_validate G t now document s = (case gate_before G document of
       Inl e \<Rightarrow> (Err e, s)
     | Inr (root, idp, assertion) \<Rightarrow> (case consume_request G t root idp s of
           (Inl e, s1) \<Rightarrow> (Err e, s1)
         | (Inr req, s1) \<Rightarrow> (case gate_checks G now req assertion of
               Inl e \<Rightarrow> (Err e, s1)
             | Inr checked \<Rightarrow> (case check_replay G t (now 3) assertion (fst checked) s1 of
                   (Inl e, s2) \<Rightarrow> (Err e, s2)
                 | (Inr _, s2) \<Rightarrow> (facts_of idp req checked assertion, s2)))))"

section \<open>What stands where in a document\<close>

lemma find_SomeE: "find P xs = Some x \<Longrightarrow> x \<in> set xs \<and> P x"
  by (induction xs) (auto split: if_splits)

lemma iters_from_child: "c \<in> set cs \<Longrightarrow> is_elem c \<Longrightarrow> \<exists>q. (q, c) \<in> set (iters_from p i cs)"
proof (induction cs arbitrary: i)
  case (Cons x xs)
  show ?case
  proof (cases "c = x")
    case True
    then show ?thesis using Cons.prems(2) by (cases x) auto
  next
    case False
    then show ?thesis using Cons by fastforce
  qed
qed simp

lemma child_in_iter: "c \<in> set (x_children e) \<Longrightarrow> \<exists>q. (q, c) \<in> set (iter_from p e)"
  using iters_from_child[of c "x_content e" p 0] by (cases e) (auto simp: x_children_def)

lemma x_find_child: "x_find e t = Some c \<Longrightarrow> c \<in> set (x_children e) \<and> x_tag c = t"
  unfolding x_find_def by (rule find_SomeE)

lemma map_filter_distinctD:
  "distinct (List.map_filter f xs) \<Longrightarrow> x \<in> set xs \<Longrightarrow> y \<in> set xs \<Longrightarrow> f x = Some i \<Longrightarrow> f y = Some i \<Longrightarrow> x = y"
proof (induction xs)
  case (Cons z zs)
  have mem: "i \<in> set (List.map_filter f zs)" if "w \<in> set zs" "f w = Some i" for w
    using that by (induction zs) (auto simp: map_filter_simps split: option.splits)
  show ?case using Cons mem by (auto simp: map_filter_simps split: option.splits)
qed simp

text \<open>The enveloped-signature transform: the element without its signature.\<close>

fun without_signature :: "xml \<Rightarrow> xml" where
  "without_signature (Elem t a c) = Elem t a (filter (\<lambda>x. x_tag x \<noteq> Q_SIGNATURE) c)"
| "without_signature (Text s) = Text s"

lemma without_signature_simps [simp]: "x_tag (without_signature e) = x_tag e" "x_get (without_signature e) n = x_get e n"
  by (cases e; simp)+

text \<open>What signxml promises: the copy it returns is some element of the document it was given, less
  its signature.\<close>

definition returns_part :: "verifier \<Rightarrow> bool" where
  "returns_part sx = (\<forall>d loc c v. sx d loc c = SxVerified (Some v) \<longrightarrow> (\<exists>(p, e)\<in>set (iter_from [] d). v = without_signature e))"

lemma try_certificates_Ok:
  "try_certificates sx d e loc cs = Ok v \<Longrightarrow>
     \<exists>c\<in>set cs. sx d loc c = SxVerified (Some v) \<and> verified_is_expected v e"
  by (induction cs) (auto split: sx_result.splits option.splits if_splits)

lemma verify_signature_Ok:
  assumes "verify_signature sx d e loc cs = Ok v"
  shows "(\<exists>c\<in>set cs. sx d loc c = SxVerified (Some v)) \<and> verified_is_expected v e \<and> x_get e ''ID'' \<noteq> None \<and>
     (\<exists>signature. find_signature e = Some signature \<and> assert_algorithms_permitted signature = Ok ())"
proof -
  obtain signature where s: "find_signature e = Some signature" "assert_algorithms_permitted signature = Ok ()"
      "assert_reference_binds_to_parent e signature = Ok ()" "try_certificates sx d e loc cs = Ok v"
    using assms by (auto simp: verify_signature_def rbind_eq_Ok split: option.splits if_splits)
  have "x_get e ''ID'' \<noteq> None"
    using s(3) by (auto simp: assert_reference_binds_to_parent_def split: list.splits option.splits if_splits)
  then show ?thesis using s try_certificates_Ok[OF s(4)] by blast
qed

text \<open>A verified copy is the element that was looked at, when identifiers are unique.\<close>

lemma verified_copy:
  assumes "returns_part sx" and "distinct (element_ids d)" and "verify_signature sx d e loc cs = Ok v"
    and "\<exists>p. (p, e) \<in> set (iter_from [] d)"
  shows "v = without_signature e"
proof -
  obtain c where c: "sx d loc c = SxVerified (Some v)" "verified_is_expected v e" and id: "x_get e ''ID'' \<noteq> None"
    using verify_signature_Ok[OF assms(3)] by blast
  obtain p x where x: "(p, x) \<in> set (iter_from [] d)" "v = without_signature x"
    using assms(1) c(1) unfolding returns_part_def by blast
  obtain q where q: "(q, e) \<in> set (iter_from [] d)" using assms(4) by blast
  obtain i where i: "x_get e ''ID'' = Some i" using id by blast
  then have "x_get x ''ID'' = Some i" using c(2) x(2) by (simp add: verified_is_expected_def)
  then have "(p, x) = (q, e)"
    using map_filter_distinctD[OF assms(2)[unfolded element_ids_def] x(1) q, of i] i by simp
  then show ?thesis using x(2) by simp
qed

lemma parse_saml_distinct: "parse_saml fs data = Ok root \<Longrightarrow> distinct (element_ids root)"
  by (auto simp: parse_saml_def split: if_splits option.splits)

section \<open>What acceptance means\<close>

text \<open>The assertion the gate reads is vouched for by a certificate of the issuer's: signed itself, signed
  inside the encryption, or, where the issuer is registered for it, part of a signed response.\<close>

definition vouched :: "('k, 's) gate \<Rightarrow> xml \<Rightarrow> trusted_idp \<Rightarrow> xml \<Rightarrow> bool" where
  "vouched G root idp assertion = (\<exists>c\<in>set (ti_signing_certificates idp).
     (\<exists>a. x_find root Q_ASSERTION = Some a \<and> verified_is_expected assertion a \<and>
        gt_verifier G root ASSERTION_SIGNATURE_LOCATION c = SxVerified (Some assertion)) \<or>
     (\<exists>e a. x_find root Q_ENCRYPTED_ASSERTION = Some e \<and> decrypt_with G e (gt_keys G) = Ok a \<and> x_tag a = Q_ASSERTION \<and>
        verified_is_expected assertion a \<and> gt_verifier G a RESPONSE_SIGNATURE_LOCATION c = SxVerified (Some assertion)) \<or>
     (\<not> ti_want_assertions_signed idp \<and> x_find root Q_ASSERTION = Some assertion \<and>
        (\<exists>v. verified_is_expected v root \<and> gt_verifier G root RESPONSE_SIGNATURE_LOCATION c = SxVerified (Some v))))"

lemma gate_verify_vouched: "gate_verify G root idp = Ok a \<Longrightarrow> vouched G root idp a"
proof -
  assume v: "gate_verify G root idp = Ok a"
  show ?thesis
  proof (cases "x_find root Q_ENCRYPTED_ASSERTION")
    case (Some e)
    then obtain d where "decrypt_with G e (gt_keys G) = Ok d" "x_tag d = Q_ASSERTION"
        "verify_signature (gt_verifier G) d d RESPONSE_SIGNATURE_LOCATION (ti_signing_certificates idp) = Ok a"
      using v by (auto simp: gate_verify_def verify_encrypted_def rbind_eq_Ok split: if_splits)
    then show ?thesis using verify_signature_Ok[of "gt_verifier G" d d] Some unfolding vouched_def by blast
  next
    case None
    then have p: "verify_plain G root idp = Ok a" and r: "verify_response G root idp = Ok ()"
      using v by (auto simp: gate_verify_def rbind_eq_Ok)
    obtain x where x: "x_find root Q_ASSERTION = Some x" using p by (auto simp: verify_plain_def split: option.splits)
    show ?thesis
    proof (cases "\<not> ti_want_assertions_signed idp \<and> find_signature x = None")
      case True
      then have "find_signature root \<noteq> None" "a = x" using p x by (auto simp: verify_plain_def split: if_splits)
      then obtain w where "verify_signature (gt_verifier G) root root RESPONSE_SIGNATURE_LOCATION (ti_signing_certificates idp) = Ok w"
        using r by (auto simp: verify_response_def rbind_eq_Ok)
      then show ?thesis using verify_signature_Ok[of "gt_verifier G" root root] x True \<open>a = x\<close> unfolding vouched_def by blast
    next
      case False
      then have "verify_signature (gt_verifier G) root x ASSERTION_SIGNATURE_LOCATION (ti_signing_certificates idp) = Ok a"
        using p x by (auto simp: verify_plain_def)
      then show ?thesis using verify_signature_Ok[of "gt_verifier G" root x] x unfolding vouched_def by blast
    qed
  qed
qed

lemma confirm_loop_Ok:
  "confirm_loop P dt now req cs = Ok () \<Longrightarrow>
     \<exists>c\<in>set cs. \<exists>data. x_get c ''Method'' = Some BEARER_CONFIRMATION_METHOD \<and>
       x_find c Q_SUBJECT_CONFIRMATION_DATA = Some data \<and> check_data P dt now req data = Ok ()"
  by (induction cs) (auto split: if_splits option.splits)

definition bearer_confirmed :: "('k, 's) gate \<Rightarrow> int \<Rightarrow> outstanding_request option \<Rightarrow> xml \<Rightarrow> bool" where
  "bearer_confirmed G now req assertion = (\<exists>subj data. x_find assertion Q_SUBJECT = Some subj \<and>
     (\<exists>c\<in>set (x_findall subj Q_SUBJECT_CONFIRMATION). x_get c ''Method'' = Some BEARER_CONFIRMATION_METHOD \<and>
        x_find c Q_SUBJECT_CONFIRMATION_DATA = Some data) \<and>
     x_get data ''Recipient'' = Some (gp_destination (gt_policy G)) \<and>
     x_get data ''InResponseTo'' = map_option or_request_id req \<and>
     (\<exists>raw e. x_get data ''NotOnOrAfter'' = Some raw \<and> gt_iso G raw = Instant e \<and> now < e + gp_clock_skew (gt_policy G)))"

lemma required_instant_Ok: "required_instant dt e n = Ok i \<longleftrightarrow> (\<exists>raw. x_get e n = Some raw \<and> dt raw = Instant i)"
  by (auto simp: required_instant_def optional_instant_def rbind_eq_Ok split: option.splits iso_instant.splits)

lemma subject_confirmed:
  assumes "check_subject_confirmation (gt_policy G) (gt_iso G) now req a = Ok ()"
  shows "bearer_confirmed G now req a"
proof -
  obtain subj where s: "x_find a Q_SUBJECT = Some subj"
      "confirm_loop (gt_policy G) (gt_iso G) now req (x_findall subj Q_SUBJECT_CONFIRMATION) = Ok ()"
    using assms by (auto simp: check_subject_confirmation_def split: option.splits)
  obtain c data where c: "c \<in> set (x_findall subj Q_SUBJECT_CONFIRMATION)" "x_get c ''Method'' = Some BEARER_CONFIRMATION_METHOD"
      "x_find c Q_SUBJECT_CONFIRMATION_DATA = Some data" "check_data (gt_policy G) (gt_iso G) now req data = Ok ()"
    using confirm_loop_Ok[OF s(2)] by blast
  from c(4) have "x_get data ''Recipient'' = Some (gp_destination (gt_policy G))"
    "\<exists>raw e. x_get data ''NotOnOrAfter'' = Some raw \<and> gt_iso G raw = Instant e \<and> now < e + gp_clock_skew (gt_policy G)"
    "x_get data ''InResponseTo'' = map_option or_request_id req"
    by (auto simp: check_data_def rbind_eq_Ok required_instant_Ok guard_r_eq_Ok not_le split: if_splits)
  then show ?thesis using s(1) c(1-3) unfolding bearer_confirmed_def by blast
qed

definition in_window :: "('k, 's) gate \<Rightarrow> int \<Rightarrow> xml \<Rightarrow> int \<Rightarrow> bool" where
  "in_window G now assertion until = (\<exists>c raw. x_find assertion Q_CONDITIONS = Some c \<and>
     gp_audience (gt_policy G) \<in> set (audiences_of c) \<and> set (map x_tag (x_children c)) \<subseteq> RECOGNISED_CONDITIONS \<and>
     x_get c ''NotOnOrAfter'' = Some raw \<and> gt_iso G raw = Instant until \<and> now < until + gp_clock_skew (gt_policy G) \<and>
     (case x_get c ''NotBefore'' of None \<Rightarrow> True
      | Some b \<Rightarrow> (case gt_iso G b of Instant i \<Rightarrow> i - gp_clock_skew (gt_policy G) \<le> now | _ \<Rightarrow> False)))"

lemma conditions_window:
  assumes "check_audience (gt_policy G) a = Ok ()" and "check_conditions (gt_policy G) (gt_iso G) now a = Ok until"
  shows "in_window G now a until"
proof -
  obtain c where c: "x_find a Q_CONDITIONS = Some c" "gp_audience (gt_policy G) \<in> set (audiences_of c)"
    using assms(1) by (auto simp: check_audience_def guard_r_eq_Ok split: option.splits if_splits)
  from assms(2) c(1) obtain nb where nb: "optional_instant (gt_iso G) c ''NotBefore'' = Ok nb"
      "\<not> (case nb of None \<Rightarrow> False | Some b \<Rightarrow> now < b - gp_clock_skew (gt_policy G))"
      "list_all (\<lambda>x. x_tag x \<in> RECOGNISED_CONDITIONS) (x_children c)"
      "required_instant (gt_iso G) c ''NotOnOrAfter'' = Ok until" "now < until + gp_clock_skew (gt_policy G)"
    by (auto simp: check_conditions_def rbind_eq_Ok not_le split: if_splits)
  have b: "case x_get c ''NotBefore'' of None \<Rightarrow> True
      | Some b \<Rightarrow> (case gt_iso G b of Instant i \<Rightarrow> i - gp_clock_skew (gt_policy G) \<le> now | _ \<Rightarrow> False)"
    using nb(1,2) by (auto simp: optional_instant_def not_less split: option.splits iso_instant.splits)
  have "set (map x_tag (x_children c)) \<subseteq> RECOGNISED_CONDITIONS" using nb(3) by (auto simp: list_all_iff)
  moreover obtain raw where "x_get c ''NotOnOrAfter'' = Some raw" "gt_iso G raw = Instant until"
    using nb(4) by (auto simp: required_instant_Ok)
  ultimately show ?thesis unfolding in_window_def using c nb(5) b by blast
qed

lemma gate_validate_Ok:
  assumes "gate_validate G t now document s = (Ok f, s')"
  obtains root idp a req s1 until st where
    "parse_saml (gt_fromstring G) document = Ok root" "assert_no_wrapping root = Ok ()"
    "resolve_issuer G root = Ok idp" "gate_verify G root idp = Ok a"
    "consume_request G t root idp s = (Ok req, s1)" "gate_checks G now req a = Ok (until, st)"
    "check_replay G t (now 3) a until s1 = (Ok (), s')" "facts_of idp req (until, st) a = Ok f"
proof -
  obtain root idp a where b: "gate_before G document = Ok (root, idp, a)"
    using assms by (auto simp: gate_validate_def split: sum.splits)
  obtain req s1 where c: "consume_request G t root idp s = (Ok req, s1)"
    using assms b by (auto simp: gate_validate_def split: sum.splits prod.splits)
  obtain until st where k: "gate_checks G now req a = Ok (until, st)"
    using assms b c by (auto simp: gate_validate_def split: sum.splits)
  have "check_replay G t (now 3) a until s1 = (Ok (), s')" "facts_of idp req (until, st) a = Ok f"
    using assms b c k by (auto simp: gate_validate_def split: sum.splits prod.splits)
  moreover have "parse_saml (gt_fromstring G) document = Ok root" "assert_no_wrapping root = Ok ()"
    "resolve_issuer G root = Ok idp" "gate_verify G root idp = Ok a"
    using b by (auto simp: gate_before_def rbind_eq_Ok)
  ultimately show thesis using that c k by blast
qed

lemma facts_of_Ok:
  "facts_of idp req (until, st) a = Ok f \<Longrightarrow>
     af_issuer f = ti_entity_id idp \<and> x_get a ''ID'' = Some (af_assertion_id f) \<and> af_not_on_or_after f = until"
  by (auto simp: facts_of_def rbind_eq_Ok required_attribute_def split: prod.splits option.splits)

lemma check_replay_Ok:
  "check_replay G t n a until s = (Ok (), s') \<Longrightarrow> x_get a ''ID'' = Some aid \<Longrightarrow>
     replay_remember (gt_redis G) t aid (replay_ttl (gt_policy G) until n) s = (True, s')"
  by (auto simp: check_replay_def required_attribute_def guard_r_eq_Ok split: prod.splits)

section \<open>Properties\<close>

text \<open>C1. The gate lets in only what it should: when a response is accepted, its issuer is registered and
  vouches for the assertion that was read (with one of its own certificates), the facts carry that
  issuer and that assertion's identifier, the assertion is addressed to this broker and inside its
  window with no condition the broker does not understand, a bearer confirmation inside it names the
  broker's address and the request that was outstanding for that same issuer, and the assertion was
  not in the replay cache.\<close>

theorem gate_sound:
  assumes "gate_validate G t now document s = (Ok f, s')"
  shows "\<exists>root idp a req s1. parse_saml (gt_fromstring G) document = Ok root \<and>
     resolve_issuer G root = Ok idp \<and> af_issuer f = ti_entity_id idp \<and> vouched G root idp a \<and>
     x_get a ''ID'' = Some (af_assertion_id f) \<and> in_window G (now 0) a (af_not_on_or_after f) \<and>
     bearer_confirmed G (now 1) req a \<and> consume_request G t root idp s = (Ok req, s1) \<and>
     (case req of None \<Rightarrow> ti_allow_unsolicited idp | Some q \<Rightarrow> or_idp_entity_id q = af_issuer f) \<and>
     replay_remember (gt_redis G) t (af_assertion_id f) (replay_ttl (gt_policy G) (af_not_on_or_after f) (now 3)) s1 = (True, s')"
proof -
  obtain root idp a req s1 until st where g: "parse_saml (gt_fromstring G) document = Ok root"
      "resolve_issuer G root = Ok idp" "gate_verify G root idp = Ok a"
      "consume_request G t root idp s = (Ok req, s1)" "gate_checks G now req a = Ok (until, st)"
      "check_replay G t (now 3) a until s1 = (Ok (), s')" "facts_of idp req (until, st) a = Ok f"
    using gate_validate_Ok[OF assms] by metis
  have f: "af_issuer f = ti_entity_id idp" "x_get a ''ID'' = Some (af_assertion_id f)" "af_not_on_or_after f = until"
    using facts_of_Ok[OF g(7)] by auto
  have c: "check_audience (gt_policy G) a = Ok ()" "check_conditions (gt_policy G) (gt_iso G) (now 0) a = Ok until"
    "check_subject_confirmation (gt_policy G) (gt_iso G) (now 1) req a = Ok ()"
    using g(5) by (auto simp: gate_checks_def rbind_eq_Ok)
  have "case req of None \<Rightarrow> ti_allow_unsolicited idp | Some q \<Rightarrow> or_idp_entity_id q = ti_entity_id idp"
    using g(4) by (auto simp: consume_request_def split: option.splits if_splits prod.splits taken.splits)
  moreover have "replay_remember (gt_redis G) t (af_assertion_id f) (replay_ttl (gt_policy G) until (now 3)) s1 = (True, s')"
    by (rule check_replay_Ok[OF g(6) f(2)])
  ultimately show ?thesis
    using g(1,2,4) f gate_verify_vouched[OF g(3)] conditions_window[OF c(1,2)] subject_confirmed[OF c(3)] by metis
qed

text \<open>C16. A forged response changes nothing: while no certificate of the named issuer verifies any signature,
  every response is refused before a store is touched, so it can neither use up a login in flight nor
  put an assertion into the replay cache.\<close>

theorem forged_response_inert:
  assumes "\<And>root idp c d loc. parse_saml (gt_fromstring G) document = Ok root \<Longrightarrow> resolve_issuer G root = Ok idp \<Longrightarrow>
     c \<in> set (ti_signing_certificates idp) \<Longrightarrow> gt_verifier G d loc c = SxRefused"
  shows "\<exists>e. gate_validate G t now document s = (Err e, s)"
proof (cases "gate_before G document")
  case (Inr r)
  then obtain root idp a where b: "gate_before G document = Ok (root, idp, a)" by (cases r) auto
  then have g: "parse_saml (gt_fromstring G) document = Ok root" "resolve_issuer G root = Ok idp" "gate_verify G root idp = Ok a"
    by (auto simp: gate_before_def rbind_eq_Ok)
  obtain c where "c \<in> set (ti_signing_certificates idp)" "\<exists>d loc v. gt_verifier G d loc c = SxVerified (Some v)"
    using gate_verify_vouched[OF g(3)] unfolding vouched_def by blast
  then show ?thesis using assms[OF g(1,2)] by fastforce
qed (simp add: gate_validate_def)

text \<open>Signature wrapping does not work: what is read from an accepted response with a plain, signed
  assertion is the one assertion element the whole document contains, exactly as it stands in the
  response and less its signature, for any verifier that returns parts of the documents it is given.\<close>

theorem accepted_is_the_only_assertion:
  assumes "gate_validate G t now document s = (Ok f, s')" and "returns_part (gt_verifier G)"
    and "\<And>root. parse_saml (gt_fromstring G) document = Ok root \<Longrightarrow> x_find root Q_ENCRYPTED_ASSERTION = None"
    and "\<And>i idp. gt_resolve G i = Some idp \<Longrightarrow> ti_want_assertions_signed idp"
  shows "\<exists>root a. parse_saml (gt_fromstring G) document = Ok root \<and> x_iter root Q_ASSERTION = [a] \<and>
     a \<in> set (x_children root) \<and> x_get a ''ID'' = Some (af_assertion_id f) \<and>
     name_id_of (without_signature a) = Ok (af_name_id f) \<and> af_attributes f = attributes_of (without_signature a)"
proof -
  obtain root idp v req s1 until st where g: "parse_saml (gt_fromstring G) document = Ok root" "assert_no_wrapping root = Ok ()"
      "resolve_issuer G root = Ok idp" "gate_verify G root idp = Ok v" "facts_of idp req (until, st) v = Ok f"
    using gate_validate_Ok[OF assms(1)] by metis
  have "ti_want_assertions_signed idp"
    using g(3) assms(4) by (auto simp: resolve_issuer_def rbind_eq_Ok split: if_splits option.splits)
  then obtain a where a: "x_find root Q_ASSERTION = Some a"
      "verify_signature (gt_verifier G) root a ASSERTION_SIGNATURE_LOCATION (ti_signing_certificates idp) = Ok v"
    using g(4) assms(3)[OF g(1)] by (auto simp: gate_verify_def verify_plain_def rbind_eq_Ok split: option.splits)
  have child: "a \<in> set (x_children root)" "x_tag a = Q_ASSERTION" using x_find_child[OF a(1)] by auto
  have at: "\<exists>p. (p, a) \<in> set (iter_from [] root)" by (rule child_in_iter[OF child(1)])
  have v: "v = without_signature a" by (rule verified_copy[OF assms(2) parse_saml_distinct[OF g(1)] a(2) at])
  have "a \<in> set (x_iter root Q_ASSERTION)" using at child(2) by (force simp: x_iter_def)
  moreover have "length (x_iter root Q_ASSERTION) \<le> 1"
    using g(2) by (auto simp: assert_no_wrapping_def assert_single_response_and_assertion_def rbind_eq_Ok split: if_splits)
  ultimately have "x_iter root Q_ASSERTION = [a]" by (cases "x_iter root Q_ASSERTION") auto
  moreover have "x_get v ''ID'' = Some (af_assertion_id f)" "name_id_of v = Ok (af_name_id f)" "af_attributes f = attributes_of v"
    using g(5) by (auto simp: facts_of_def rbind_eq_Ok required_attribute_def split: prod.splits option.splits)
  ultimately show ?thesis using g(1) child(1) v by auto
qed

section \<open>A response at work\<close>

definition sample_signature :: xml where
  "sample_signature = Elem Q_SIGNATURE [] [Elem Q_SIGNED_INFO [] [
     Elem Q_CANONICALIZATION_METHOD [(''Algorithm'', EXC_C14N)] [],
     Elem Q_SIGNATURE_METHOD [(''Algorithm'', DSIG_MORE @ ''rsa-sha256'')] [],
     Elem Q_REFERENCE [(''URI'', ''#a1'')] [Elem Q_TRANSFORM [(''Algorithm'', ENVELOPED_SIGNATURE_TRANSFORM)] [],
       Elem Q_DIGEST_METHOD [(''Algorithm'', XENC @ ''sha256'')] []]]]"

definition sample_subject :: xml where
  "sample_subject = Elem Q_SUBJECT [] [Elem Q_NAME_ID [] [Text ''alice''],
     Elem Q_SUBJECT_CONFIRMATION [(''Method'', BEARER_CONFIRMATION_METHOD)]
       [Elem Q_SUBJECT_CONFIRMATION_DATA [(''Recipient'', ''acs''), (''NotOnOrAfter'', ''U'')] []]]"

definition sample_conditions :: xml where
  "sample_conditions = Elem Q_CONDITIONS [(''NotOnOrAfter'', ''U'')]
     [Elem Q_AUDIENCE_RESTRICTION [] [Elem Q_AUDIENCE [] [Text ''sp'']]]"

definition sample_assertion :: xml where
  "sample_assertion = Elem Q_ASSERTION [(''ID'', ''a1'')] [Elem Q_ISSUER [] [Text ''idp''], sample_signature,
     sample_subject, sample_conditions, Elem Q_AUTHN_STATEMENT [(''AuthnInstant'', ''U'')] []]"

definition sample_response :: xml where
  "sample_response = Elem Q_RESPONSE [(''ID'', ''r1'')] [Elem Q_ISSUER [] [Text ''idp''],
     Elem Q_STATUS_CODE [(''Value'', STATUS_SUCCESS)] [], sample_assertion]"

definition sample_idp :: trusted_idp where
  "sample_idp = \<lparr>ti_entity_id = ''idp'', ti_signing_certificates = [''cert''], ti_want_assertions_signed = True,
     ti_allow_unsolicited = True\<rparr>"

definition sample_verifier :: verifier where
  "sample_verifier d loc c = (case x_find d Q_ASSERTION of None \<Rightarrow> SxRefused | Some a \<Rightarrow> SxVerified (Some (without_signature a)))"

definition sample_gate :: "verifier \<Rightarrow> (unit, keyspace) gate" where
  "sample_gate sx = \<lparr>gt_policy = \<lparr>gp_audience = ''sp'', gp_destination = ''acs'', gp_clock_skew = 180000000, gp_max_authn_age = None\<rparr>,
     gt_resolve = (\<lambda>i. if i = ''idp'' then Some sample_idp else None), gt_redis = mem_redis, gt_keys = [],
     gt_fromstring = (\<lambda>_. Some ([], sample_response)), gt_verifier = sx,
     gt_crypto = \<lparr>cr_load = (\<lambda>_. None), cr_oaep = (\<lambda>_ _ _ _. None), cr_gcm = (\<lambda>_ _ _. None)\<rparr>,
     gt_iso = (\<lambda>raw. if raw = ''U'' then Instant 100000000 else NotIso)\<rparr>"

lemmas q_names = qn_def SAML_def SAMLP_def DS_def XENC_def XENC11_def Q_RESPONSE_def Q_STATUS_CODE_def Q_ASSERTION_def
  Q_ENCRYPTED_ASSERTION_def Q_ISSUER_def Q_SUBJECT_def Q_NAME_ID_def Q_SUBJECT_CONFIRMATION_def
  Q_SUBJECT_CONFIRMATION_DATA_def Q_CONDITIONS_def Q_AUDIENCE_RESTRICTION_def Q_AUDIENCE_def Q_ONE_TIME_USE_def
  Q_PROXY_RESTRICTION_def Q_AUTHN_STATEMENT_def Q_AUTHN_CONTEXT_CLASS_REF_def Q_ATTRIBUTE_STATEMENT_def Q_ATTRIBUTE_def
  Q_ATTRIBUTE_VALUE_def Q_SIGNATURE_def Q_SIGNED_INFO_def Q_SIGNATURE_METHOD_def Q_DIGEST_METHOD_def
  Q_CANONICALIZATION_METHOD_def Q_REFERENCE_def Q_TRANSFORM_def

lemmas x_eval = x_children_def x_find_def x_findall_def x_find2_def x_iter_def x_find_below_def x_text_of_def

lemmas sample_xml = sample_response_def sample_assertion_def sample_subject_def sample_conditions_def sample_signature_def

lemma sample_parse: "parse_saml (gt_fromstring (sample_gate sx)) document =
    (if length document > MAX_DOCUMENT_BYTES then Err (Rejected R_PAYLOAD_TOO_LARGE) else Ok sample_response)"
  by (simp add: parse_saml_def sample_gate_def element_ids_def sample_xml map_filter_simps)

lemma sample_unwrapped: "assert_no_wrapping sample_response = Ok ()"
  by (simp add: assert_no_wrapping_def assert_single_response_and_assertion_def assert_signature_placement_def
      permitted_places_def sample_xml x_eval q_names)

lemma sample_find: "x_find sample_response Q_ASSERTION = Some sample_assertion"
  "x_find sample_response Q_ENCRYPTED_ASSERTION = None" "find_signature sample_response = None"
  "find_signature sample_assertion = Some sample_signature"
  by (simp_all add: find_signature_def sample_xml x_eval q_names)

lemma sample_issuer: "resolve_issuer (sample_gate sx) sample_response = Ok sample_idp"
  by (simp add: resolve_issuer_def issuer_of_def sample_find sample_gate_def)
    (simp add: sample_xml x_eval q_names py_strip_def py_is_space_def)

lemma sample_status: "check_status sample_response = Ok ()"
  by (simp add: check_status_def sample_xml x_eval q_names guard_r_def)

lemma sample_algorithms: "assert_algorithms_permitted sample_signature = Ok ()"
  by (simp add: assert_algorithms_permitted_def assert_no_with_comments_def keeps_comments_def algorithm_below_def
      allowed_def PERMITTED_SIGNATURE_METHODS_def PERMITTED_DIGEST_METHODS_def PERMITTED_CANONICALIZATION_METHODS_def
      PERMITTED_TRANSFORMS_def guard_r_def ends_with_def WITH_COMMENTS_SUFFIX_def EXC_C14N_def DSIG_MORE_def
      ENVELOPED_SIGNATURE_TRANSFORM_def sample_signature_def x_eval q_names)

lemma sample_reference: "assert_reference_binds_to_parent sample_assertion sample_signature = Ok ()"
  by (simp add: assert_reference_binds_to_parent_def references_of_def sample_xml x_eval q_names starts_with_def)

lemma sample_verified:
  "gate_verify (sample_gate sample_verifier) sample_response sample_idp = Ok (without_signature sample_assertion)"
proof -
  have "sample_verifier sample_response loc c = SxVerified (Some (without_signature sample_assertion))" for loc c
    by (simp add: sample_verifier_def sample_find)
  then have "verify_signature sample_verifier sample_response sample_assertion ASSERTION_SIGNATURE_LOCATION [''cert''] =
      Ok (without_signature sample_assertion)"
    by (simp add: verify_signature_def sample_find sample_algorithms sample_reference verified_is_expected_def)
  then show ?thesis
    by (simp add: gate_verify_def verify_response_def verify_plain_def sample_find sample_gate_def sample_idp_def)
qed

lemma sample_before:
  "length document \<le> MAX_DOCUMENT_BYTES \<Longrightarrow>
     gate_before (sample_gate sample_verifier) document = Ok (sample_response, sample_idp, without_signature sample_assertion)"
  by (simp add: gate_before_def sample_parse sample_unwrapped sample_status sample_issuer sample_verified)
    (simp add: check_destination_def sample_response_def)

lemma sample_checks:
  assumes "now 0 < 280000000" and "now 1 < 280000000"
  shows "gate_checks (sample_gate sx) now None (without_signature sample_assertion) = Ok (100000000, 100000000, None, None)"
proof -
  have f: "x_find (without_signature sample_assertion) Q_CONDITIONS = Some sample_conditions"
    "x_find (without_signature sample_assertion) Q_SUBJECT = Some sample_subject"
    "x_find (without_signature sample_assertion) Q_AUTHN_STATEMENT = Some (Elem Q_AUTHN_STATEMENT [(''AuthnInstant'', ''U'')] [])"
    by (simp_all add: sample_xml x_eval q_names)
  have "check_audience (gt_policy (sample_gate sx)) (without_signature sample_assertion) = Ok ()"
    by (simp add: check_audience_def f sample_gate_def audiences_of_def guard_r_def)
      (simp add: sample_conditions_def x_eval q_names py_strip_def py_is_space_def)
  moreover have "check_conditions (gt_policy (sample_gate sx)) (gt_iso (sample_gate sx)) (now 0) (without_signature sample_assertion) = Ok 100000000"
    using assms(1) by (simp add: check_conditions_def f sample_gate_def)
      (simp add: sample_conditions_def x_eval q_names RECOGNISED_CONDITIONS_def optional_instant_def required_instant_def)
  moreover have "check_subject_confirmation (gt_policy (sample_gate sx)) (gt_iso (sample_gate sx)) (now 1) None (without_signature sample_assertion) = Ok ()"
    using assms(2) by (simp add: check_subject_confirmation_def f sample_gate_def)
      (simp add: sample_subject_def x_eval q_names check_data_def optional_instant_def required_instant_def guard_r_def)
  moreover have "check_authn_statement (gt_policy (sample_gate sx)) (gt_iso (sample_gate sx)) (now 2) (without_signature sample_assertion) = Ok (100000000, None, None)"
    by (simp add: check_authn_statement_def f sample_gate_def optional_instant_def required_instant_def x_find_below_def)
  ultimately show ?thesis by (simp add: gate_checks_def)
qed

lemma sample_name: "name_id_of (without_signature sample_assertion) = Ok ''alice''"
  by (simp add: name_id_of_def sample_xml x_eval q_names py_strip_def py_is_space_def)

lemma sample_id: "x_get sample_assertion ''ID'' = Some ''a1''" "x_get sample_response ''InResponseTo'' = None"
  by (simp_all add: sample_xml)

lemma sample_accepts:
  assumes "length document \<le> MAX_DOCUMENT_BYTES" and "now 0 < 280000000" and "now 1 < 280000000"
    and "unexpired t s (REPLAY_KEY_PREFIX @ ''a1'') = None"
  shows "\<exists>f. gate_validate (sample_gate sample_verifier) t now document s =
     (Ok f, s(REPLAY_KEY_PREFIX @ ''a1'' \<mapsto> (RVal (PStr ''1''), deadline t (at_least_one ((280000000 - now 3) div 1000000))))) \<and>
     af_assertion_id f = ''a1'' \<and> af_issuer f = ''idp'' \<and> af_name_id f = ''alice'' \<and> af_not_on_or_after f = 100000000"
proof -
  let ?G = "sample_gate sample_verifier"
  have c: "consume_request ?G t sample_response sample_idp s = (Ok None, s)"
    by (simp add: consume_request_def sample_id sample_idp_def)
  have "replay_ttl (gt_policy ?G) 100000000 (now 3) = (280000000 - now 3) div 1000000"
    by (simp add: replay_ttl_def sample_gate_def)
  moreover have "gt_redis ?G = mem_redis" by (simp add: sample_gate_def)
  ultimately have r: "check_replay ?G t (now 3) (without_signature sample_assertion) 100000000 s =
      (Ok (), s(REPLAY_KEY_PREFIX @ ''a1'' \<mapsto> (RVal (PStr ''1''), deadline t (at_least_one ((280000000 - now 3) div 1000000)))))"
    using assms(4) by (simp add: check_replay_def required_attribute_def sample_id replay_remember_def mem_redis_ops guard_r_def)
  show ?thesis
    unfolding gate_validate_def sample_before[OF assms(1)]
    by (simp add: c sample_checks[OF assms(2,3)] r facts_of_def required_attribute_def sample_id sample_name)
      (simp add: sample_idp_def)
qed

theorem gate_sound_witness:
  "\<exists>f s' root idp a. gate_validate (sample_gate sample_verifier) 0 (\<lambda>_. 5) [] (\<lambda>k. None) = (Ok f, s') \<and>
     parse_saml (gt_fromstring (sample_gate sample_verifier)) [] = Ok root \<and>
     resolve_issuer (sample_gate sample_verifier) root = Ok idp \<and> vouched (sample_gate sample_verifier) root idp a \<and>
     x_get a ''ID'' = Some ''a1''"
proof -
  obtain f s' where f: "gate_validate (sample_gate sample_verifier) 0 (\<lambda>_. 5) [] (\<lambda>k. None) = (Ok f, s')" "af_assertion_id f = ''a1''"
    using sample_accepts[of "[]" "\<lambda>_. 5" 0 "\<lambda>k. None"] by (auto simp: MAX_DOCUMENT_BYTES_def)
  from gate_sound[OF f(1)] f show ?thesis by auto
qed

theorem forged_response_inert_witness:
  "\<exists>e. gate_validate (sample_gate (\<lambda>d loc c. SxRefused)) 0 (\<lambda>_. 5) [] (\<lambda>k. None) = (Err e, \<lambda>k. None)"
  using forged_response_inert[of "sample_gate (\<lambda>d loc c. SxRefused)"] by (simp add: sample_gate_def)

lemma sample_verifier_part: "returns_part sample_verifier"
  unfolding returns_part_def
proof (intro allI impI)
  fix d loc c v assume "sample_verifier d loc c = SxVerified (Some v)"
  then obtain a where a: "x_find d Q_ASSERTION = Some a" "v = without_signature a"
    by (auto simp: sample_verifier_def split: option.splits)
  then obtain p where "(p, a) \<in> set (iter_from [] d)" using child_in_iter[of a d "[]"] x_find_child[OF a(1)] by blast
  then show "\<exists>(p, e)\<in>set (iter_from [] d). v = without_signature e" using a(2) by blast
qed

theorem accepted_is_the_only_assertion_witness:
  "\<exists>f s' root a. gate_validate (sample_gate sample_verifier) 0 (\<lambda>_. 5) [] (\<lambda>k. None) = (Ok f, s') \<and>
     parse_saml (gt_fromstring (sample_gate sample_verifier)) [] = Ok root \<and> x_iter root Q_ASSERTION = [a] \<and>
     name_id_of (without_signature a) = Ok ''alice''"
proof -
  obtain f s' where f: "gate_validate (sample_gate sample_verifier) 0 (\<lambda>_. 5) [] (\<lambda>k. None) = (Ok f, s')" "af_name_id f = ''alice''"
    using sample_accepts[of "[]" "\<lambda>_. 5" 0 "\<lambda>k. None"] by (auto simp: MAX_DOCUMENT_BYTES_def)
  have v: "returns_part (gt_verifier (sample_gate sample_verifier))" by (simp add: sample_gate_def sample_verifier_part)
  have e: "x_find root Q_ENCRYPTED_ASSERTION = None" if "parse_saml (gt_fromstring (sample_gate sample_verifier)) [] = Ok root" for root
    using that by (auto simp: sample_parse sample_find split: if_splits)
  have w: "ti_want_assertions_signed idp" if "gt_resolve (sample_gate sample_verifier) i = Some idp" for i idp
    using that by (auto simp: sample_gate_def sample_idp_def split: if_splits)
  have "\<exists>root a. parse_saml (gt_fromstring (sample_gate sample_verifier)) [] = Ok root \<and> x_iter root Q_ASSERTION = [a] \<and>
     a \<in> set (x_children root) \<and> x_get a ''ID'' = Some (af_assertion_id f) \<and>
     name_id_of (without_signature a) = Ok (af_name_id f) \<and> af_attributes f = attributes_of (without_signature a)"
    by (rule accepted_is_the_only_assertion[OF f(1) v]) (erule e, erule w)
  then show ?thesis using f by auto
qed

text \<open>C9. An accepted assertion is not accepted again while its replay entry lives, whatever document carries
  it: within the whole seconds that were left of its validity every response whose assertion has that
  identifier is refused.\<close>

theorem accepted_once:
  assumes "redis_server (gt_redis G) visible" and "gate_validate G t now document s = (Ok f, s')"
    and "gate_before G document' = Ok (root', idp', a')" and "x_get a' ''ID'' = Some (af_assertion_id f)"
    and "t \<le> t'" and "t' < t + 1000 * at_least_one (replay_ttl (gt_policy G) (af_not_on_or_after f) (now 3))"
  shows "\<exists>e s''. gate_validate G t' now' document' s' = (Err e, s'')"
proof -
  let ?k = "REPLAY_KEY_PREFIX @ af_assertion_id f" and ?ttl = "at_least_one (replay_ttl (gt_policy G) (af_not_on_or_after f) (now 3))"
  obtain s1 where "replay_remember (gt_redis G) t (af_assertion_id f) (replay_ttl (gt_policy G) (af_not_on_or_after f) (now 3)) s1 = (True, s')"
    using gate_validate_Ok[OF assms(2)] facts_of_Ok check_replay_Ok by metis
  then have v: "visible t s' = (visible t s1)(?k \<mapsto> (RVal (PStr ''1''), deadline t ?ttl))"
    using redis_server.set_nx[OF assms(1) at_least_one_pos] unfolding replay_remember_def by (metis fst_conv snd_conv)
  have "visible t' s' ?k = Some (RVal (PStr ''1''), deadline t ?ttl)"
    using assms(5,6) by (simp add: redis_server.later[OF assms(1,5)] v unexpired_def alive_def deadline_def)
  moreover have "visible t' s2 ?k = visible t' s' ?k" if "consume_request G t' root' idp' s' = (r, s2)" for r s2
  proof (cases "x_get root' ''InResponseTo''")
    case (Some rid)
    then have "s2 = snd (r_getdel (gt_redis G) t' (REQUEST_KEY_PREFIX @ rid) s')"
      using that by (auto simp: consume_request_def request_consume_def split: prod.splits)
    then show ?thesis
      by (simp add: redis_server.getdel(2)[OF assms(1)] REQUEST_KEY_PREFIX_def REPLAY_KEY_PREFIX_def)
  qed (use that in \<open>simp add: consume_request_def\<close>)
  ultimately have seen: "fst (replay_remember (gt_redis G) t' (af_assertion_id f) ttl s2) = False"
    if "consume_request G t' root' idp' s' = (r, s2)" for r s2 ttl
    using that by (simp add: replay_remember_def redis_server.set_nx(1)[OF assms(1)])
  have refused: "\<exists>e s3. check_replay G t' n a' u s2 = (Err e, s3)" if "consume_request G t' root' idp' s' = (r, s2)" for r s2 n u
    using seen[OF that, of "replay_ttl (gt_policy G) u n"] assms(4)
    by (auto simp: check_replay_def required_attribute_def guard_r_def split: prod.splits)
  obtain r s2 where c: "consume_request G t' root' idp' s' = (r, s2)" by fastforce
  show ?thesis
  proof (cases r)
    case (Inr req)
    show ?thesis
    proof (cases "gate_checks G now' req a'")
      case k: (Inr checked)
      obtain e s3 where "check_replay G t' (now' 3) a' (fst checked) s2 = (Err e, s3)" using refused[OF c] by blast
      then show ?thesis by (simp add: gate_validate_def assms(3) c Inr k)
    qed (simp add: gate_validate_def assms(3) c Inr)
  qed (simp add: gate_validate_def assms(3) c)
qed

theorem accepted_once_witness:
  "\<exists>f s'. gate_validate (sample_gate sample_verifier) 0 (\<lambda>_. 500000) [] (\<lambda>k. None) = (Ok f, s') \<and>
     (\<exists>e s''. gate_validate (sample_gate sample_verifier) 278000 (\<lambda>_. 278000000) [] s' = (Err e, s''))"
proof -
  let ?G = "sample_gate sample_verifier"
  obtain f s' where f: "gate_validate ?G 0 (\<lambda>_. 500000) [] (\<lambda>k. None) = (Ok f, s')" "af_assertion_id f = ''a1''"
      "af_not_on_or_after f = 100000000"
    using sample_accepts[of "[]" "\<lambda>_. 500000" 0 "\<lambda>k. None"] by (auto simp: MAX_DOCUMENT_BYTES_def)
  have "redis_server (gt_redis ?G) unexpired" using mem.redis_server_axioms by (simp add: sample_gate_def)
  moreover have "gate_before ?G [] = Ok (sample_response, sample_idp, without_signature sample_assertion)"
    by (rule sample_before) (simp add: MAX_DOCUMENT_BYTES_def)
  moreover have "replay_ttl (gt_policy ?G) 100000000 500000 = 279" by (simp add: replay_ttl_def sample_gate_def)
  ultimately have "\<exists>e s''. gate_validate ?G 278000 (\<lambda>_. 278000000) [] s' = (Err e, s'')"
    using accepted_once[OF _ f(1), of unexpired "[]" sample_response sample_idp "without_signature sample_assertion" 278000 "\<lambda>_. 278000000"] f(2,3)
    by (simp add: sample_id at_least_one_def)
  then show ?thesis using f(1) by blast
qed

text \<open>The entry is dropped with the last whole second, the assertion is valid to the end of the fraction:
  presented again in between, it is accepted a second time.\<close>

theorem replay_in_last_fraction:
  "\<exists>f s' f' s''. gate_validate (sample_gate sample_verifier) 500 (\<lambda>_. 500000) [] (\<lambda>k. None) = (Ok f, s') \<and>
     gate_validate (sample_gate sample_verifier) 279600 (\<lambda>_. 279600000) [] s' = (Ok f', s'') \<and>
     af_assertion_id f = ''a1'' \<and> af_assertion_id f' = ''a1''"
proof -
  obtain f s' where f: "gate_validate (sample_gate sample_verifier) 500 (\<lambda>_. 500000) [] (\<lambda>k. None) = (Ok f, s')" "af_assertion_id f = ''a1''"
      "s' = (\<lambda>k. None)(REPLAY_KEY_PREFIX @ ''a1'' \<mapsto> (RVal (PStr ''1''), deadline 500 279))"
    using sample_accepts[of "[]" "\<lambda>_. 500000" 500 "\<lambda>k. None"] by (auto simp: MAX_DOCUMENT_BYTES_def at_least_one_def)
  have "unexpired 279600 s' (REPLAY_KEY_PREFIX @ ''a1'') = None" by (simp add: f(3) unexpired_def alive_def deadline_def)
  then obtain f' s'' where "gate_validate (sample_gate sample_verifier) 279600 (\<lambda>_. 279600000) [] s' = (Ok f', s'')" "af_assertion_id f' = ''a1''"
    using sample_accepts[of "[]" "\<lambda>_. 279600000" 279600 s'] by (auto simp: MAX_DOCUMENT_BYTES_def)
  then show ?thesis using f by blast
qed

end
