(* ===== verification/LifecycleStore.thy ===== *)
theory LifecycleStore
  imports LifecycleRules DecisionCache "HOL-Library.Multiset"
begin

text \<open>
  Entitlement grants and the timeline (\<open>campusid/lifecycle/store.py\<close> and \<open>campusid/lifecycle/models.py\<close>),
  and the sweep that ends grace periods (\<open>campusid/lifecycle/sweeper.py\<close>).

  A date is its day number and an instant an integer; a person is the text of a UUID that parses.  The
  random primary keys, which no operation of the store reads, are left out.  Affiliation sets are
  given as lists.  \<open>now\<close> is the clock of the process and \<open>at\<close> the start of the database transaction.
  A write is the pair of tables the transaction would leave and \<open>ld_commit\<close> the verdict of their
  constraints.
\<close>

definition JOINER :: string where "JOINER = ''joiner''"
definition MOVER :: string where "MOVER = ''mover''"
definition LEAVER :: string where "LEAVER = ''leaver''"
definition GRACE_EXPIRY :: string where "GRACE_EXPIRY = ''grace_expiry''"
definition SOURCE_SCIM :: string where "SOURCE_SCIM = ''scim''"
definition SOURCE_SCHEDULER :: string where "SOURCE_SCHEDULER = ''scheduler''"

definition justification_ref :: "grant \<Rightarrow> string" where
  "justification_ref g = g_rule_id g @ '':'' @ g_affiliation g"

definition event_type_of :: "string list \<Rightarrow> string list \<Rightarrow> string" where
  "event_type_of before after = (if before = [] then JOINER else if after = [] then LEAVER else MOVER)"

record entitlement_grant =
  eg_person :: string
  eg_urn :: string
  eg_kind :: string
  eg_ref :: string
  eg_granted_at :: int
  eg_revoke_at :: "int option"
  eg_revoked_at :: "int option"

record lifecycle_event =
  lv_person :: string
  lv_type :: string
  lv_source :: string
  lv_before :: pyval
  lv_after :: pyval
  lv_correlation :: string
  lv_occurred_at :: int

record lifecycle_db =
  ld_grants :: "entitlement_grant list"
  ld_events :: "lifecycle_event list"

datatype lifecycle_error = LifecycleRefused

definition eg_key :: "entitlement_grant \<Rightarrow> string \<times> string \<times> string" where
  "eg_key r = (eg_person r, eg_urn r, eg_ref r)"

definition grant_fits :: "string set \<Rightarrow> entitlement_grant \<Rightarrow> bool" where
  "grant_fits persons r = (eg_person r \<in> persons \<and> length (eg_urn r) \<le> 256 \<and> length (eg_ref r) \<le> 256 \<and>
     eg_kind r \<in> {''affiliation'', ''group'', ''role'', ''manual''})"

definition event_fits :: "string set \<Rightarrow> lifecycle_event \<Rightarrow> bool" where
  "event_fits persons e = (lv_person e \<in> persons \<and> length (lv_type e) \<le> 32 \<and> length (lv_source e) \<le> 32 \<and>
     length (lv_correlation e) \<le> 64)"

definition ld_ok :: "string set \<Rightarrow> lifecycle_db \<Rightarrow> bool" where
  "ld_ok persons db = (list_all (grant_fits persons) (ld_grants db) \<and> distinct (map eg_key (ld_grants db)) \<and>
     list_all (event_fits persons) (ld_events db))"

definition ld_commit :: "string set \<Rightarrow> lifecycle_db \<Rightarrow> (lifecycle_error, lifecycle_db) result" where
  "ld_commit persons db = (if ld_ok persons db then Ok db else Err LifecycleRefused)"

section \<open>Applying a transition\<close>

definition fresh_row :: "string \<Rightarrow> int \<Rightarrow> grant \<Rightarrow> entitlement_grant" where
  "fresh_row p now g = \<lparr>eg_person = p, eg_urn = g_urn g, eg_kind = ''affiliation'', eg_ref = justification_ref g,
     eg_granted_at = now, eg_revoke_at = None, eg_revoked_at = None\<rparr>"

text \<open>\<open>_grant\<close>: each value of the \<open>INSERT\<close> in turn, skipped when its key is already in the table.\<close>

fun insert_rows :: "entitlement_grant list \<Rightarrow> entitlement_grant list \<Rightarrow> entitlement_grant list" where
  "insert_rows [] rows = rows"
| "insert_rows (r # rs) rows = insert_rows rs (if eg_key r \<in> eg_key ` set rows then rows else rows @ [r])"

definition write_grants :: "string \<Rightarrow> int \<Rightarrow> grant list \<Rightarrow> entitlement_grant list \<Rightarrow> entitlement_grant list" where
  "write_grants p now gs rows = insert_rows (map (fresh_row p now) gs) rows"

definition deadlines :: "revocation list \<Rightarrow> string \<rightharpoonup> revocation" where
  "deadlines revoked = map_of (rev (map (\<lambda>r. (rv_urn r, r)) revoked))"

definition end_row :: "int \<Rightarrow> revocation \<Rightarrow> entitlement_grant \<Rightarrow> entitlement_grant" where
  "end_row now rv r =
     (if rv_grace_days rv = 0 then r\<lparr>eg_revoked_at := Some now, eg_revoke_at := Some (rv_effective rv)\<rparr>
      else (case eg_revoke_at r of
          None \<Rightarrow> r\<lparr>eg_revoke_at := Some (rv_effective rv)\<rparr>
        | Some d \<Rightarrow> if rv_effective rv < d then r\<lparr>eg_revoke_at := Some (rv_effective rv)\<rparr> else r))"

definition revoke_row :: "string \<Rightarrow> int \<Rightarrow> revocation list \<Rightarrow> entitlement_grant \<Rightarrow> entitlement_grant" where
  "revoke_row p now revoked r =
     (if eg_person r = p \<and> eg_revoked_at r = None
      then (case deadlines revoked (eg_urn r) of None \<Rightarrow> r | Some rv \<Rightarrow> end_row now rv r) else r)"

definition revoke_rows :: "string \<Rightarrow> int \<Rightarrow> delta \<Rightarrow> entitlement_grant list \<Rightarrow> entitlement_grant list" where
  "revoke_rows p now delta rows = map (revoke_row p now (dl_revoked delta)) rows"

definition strings :: "string list \<Rightarrow> pyval" where
  "strings xs = PList (map PStr xs)"

definition state_before :: "string list \<Rightarrow> delta \<Rightarrow> pyval" where
  "state_before affiliations delta = PDict [(''affiliations'', strings (sorted_set affiliations)),
     (''entitlements'', strings (sorted_set (map g_urn (dl_retained delta) @ map rv_urn (dl_revoked delta))))]"

definition state_after :: "string list \<Rightarrow> delta \<Rightarrow> pyval" where
  "state_after affiliations delta = PDict [(''affiliations'', strings (sorted_set affiliations)),
     (''entitlements'', strings (sorted_set (map g_urn (dl_granted delta @ dl_retained delta))))]"

definition transition_event ::
  "string \<Rightarrow> delta \<Rightarrow> string list \<Rightarrow> string list \<Rightarrow> string \<Rightarrow> string \<Rightarrow> int \<Rightarrow> lifecycle_event" where
  "transition_event p delta before after source cid at = \<lparr>lv_person = p, lv_type = event_type_of before after,
     lv_source = source, lv_before = state_before before delta, lv_after = state_after after delta,
     lv_correlation = cid, lv_occurred_at = at\<rparr>"

definition apply_delta ::
  "string set \<Rightarrow> int \<Rightarrow> int \<Rightarrow> string \<Rightarrow> string \<Rightarrow> delta \<Rightarrow> string list \<Rightarrow> string list \<Rightarrow> string \<Rightarrow> lifecycle_db \<Rightarrow>
     (lifecycle_error, lifecycle_db) result" where
  "apply_delta persons now at cid p delta before after source db = ld_commit persons
     \<lparr>ld_grants = revoke_rows p now delta (write_grants p now (dl_granted delta) (ld_grants db)),
      ld_events = ld_events db @ [transition_event p delta before after source cid at]\<rparr>"

section \<open>Reading\<close>

definition in_force :: "int \<Rightarrow> entitlement_grant \<Rightarrow> bool" where
  "in_force today r = (eg_revoked_at r = None \<and> (case eg_revoke_at r of None \<Rightarrow> True | Some d \<Rightarrow> today < d))"

definition lifecycle_held :: "lifecycle_db \<Rightarrow> string \<Rightarrow> int \<Rightarrow> string set" where
  "lifecycle_held db p today = eg_urn ` set (filter (\<lambda>r. eg_person r = p \<and> in_force today r) (ld_grants db))"

definition timeline :: "lifecycle_db \<Rightarrow> string \<Rightarrow> lifecycle_event list" where
  "timeline db p = sort_key lv_occurred_at (filter (\<lambda>e. lv_person e = p) (ld_events db))"

section \<open>Ending grace periods\<close>

definition is_due :: "int \<Rightarrow> entitlement_grant \<Rightarrow> bool" where
  "is_due today r = (eg_revoked_at r = None \<and> (case eg_revoke_at r of None \<Rightarrow> False | Some d \<Rightarrow> d \<le> today))"

text \<open>The rows a sweep selects and locks: the due ones no other transaction has locked, by position.  The
  query has no order; the table's is taken.\<close>

definition select_due :: "int \<Rightarrow> nat set \<Rightarrow> entitlement_grant list \<Rightarrow> nat list" where
  "select_due today locked rows = filter (\<lambda>i. i \<notin> locked \<and> is_due today (rows ! i)) [0..<length rows]"

definition held_state :: "entitlement_grant \<Rightarrow> bool \<Rightarrow> pyval" where
  "held_state r b = PDict [(''entitlement'', PStr (eg_urn r)), (''held'', PBool b)]"

definition expiry_event :: "string \<Rightarrow> int \<Rightarrow> entitlement_grant \<Rightarrow> lifecycle_event" where
  "expiry_event cid at r = \<lparr>lv_person = eg_person r, lv_type = GRACE_EXPIRY, lv_source = SOURCE_SCHEDULER,
     lv_before = held_state r True, lv_after = held_state r False, lv_correlation = cid, lv_occurred_at = at\<rparr>"

definition revoke_at :: "int \<Rightarrow> nat list \<Rightarrow> entitlement_grant list \<Rightarrow> entitlement_grant list" where
  "revoke_at now is rows = map (\<lambda>i. if i \<in> set is then (rows ! i)\<lparr>eg_revoked_at := Some now\<rparr> else rows ! i) [0..<length rows]"

definition finish_sweep :: "int \<Rightarrow> int \<Rightarrow> string \<Rightarrow> nat list \<Rightarrow> lifecycle_db \<Rightarrow> string list \<times> lifecycle_db" where
  "finish_sweep now at cid due db =
     (let rows = ld_grants db in
      (sorted_set (map (\<lambda>i. eg_person (rows ! i)) due),
       \<lparr>ld_grants = revoke_at now due rows,
        ld_events = ld_events db @ map (\<lambda>i. expiry_event cid at (rows ! i)) due\<rparr>))"

definition expire_due ::
  "int \<Rightarrow> int \<Rightarrow> int \<Rightarrow> string \<Rightarrow> nat set \<Rightarrow> lifecycle_db \<Rightarrow> string list \<times> lifecycle_db" where
  "expire_due today now at cid locked db = finish_sweep now at cid (select_due today locked (ld_grants db)) db"

text \<open>\<open>sweep_once\<close>: the decisions cached about everybody touched are made unreachable.  \<open>decisions\<close> is
  \<open>None\<close> in a deployment without a cache.\<close>

definition sweep_once ::
  "('s cache \<times> bool) option \<Rightarrow> time \<Rightarrow> int \<Rightarrow> int \<Rightarrow> int \<Rightarrow> string \<Rightarrow> nat set \<Rightarrow> lifecycle_db \<Rightarrow> 's \<Rightarrow> nat \<times> lifecycle_db \<times> 's" where
  "sweep_once decisions t today now at cid locked db s =
     (let (people, db') = expire_due today now at cid locked db in
      (length people, db', (case decisions of None \<Rightarrow> s
         | Some (C, up) \<Rightarrow> fold (invalidate C up t) people s)))"

text \<open>\<open>_run\<close>: one pass per wake-up; a pass the database refuses changes nothing and the loop goes on.\<close>

record sweep_pass =
  sp_fails :: bool
  sp_time :: time
  sp_today :: int
  sp_now :: int
  sp_at :: int
  sp_correlation :: string
  sp_locked :: "nat set"

fun sweeper_run :: "('s cache \<times> bool) option \<Rightarrow> sweep_pass list \<Rightarrow> lifecycle_db \<Rightarrow> 's \<Rightarrow> lifecycle_db \<times> 's" where
  "sweeper_run decisions [] db s = (db, s)"
| "sweeper_run decisions (w # ws) db s =
     (if sp_fails w then sweeper_run decisions ws db s
      else let (n, db', s') = sweep_once decisions (sp_time w) (sp_today w) (sp_now w) (sp_at w) (sp_correlation w)
             (sp_locked w) db s in sweeper_run decisions ws db' s')"

section \<open>What a transition leaves\<close>

lemma insert_rows_append: "\<exists>new. insert_rows rs rows = rows @ new \<and> set new \<subseteq> set rs"
proof (induction rs arbitrary: rows)
  case (Cons r rs)
  obtain new where "insert_rows rs (if eg_key r \<in> eg_key ` set rows then rows else rows @ [r]) =
      (if eg_key r \<in> eg_key ` set rows then rows else rows @ [r]) @ new" "set new \<subseteq> set rs"
    using Cons.IH by blast
  then show ?case by (auto split: if_splits)
qed simp

lemma insert_rows_set:
  assumes "inj_on eg_key (set rs)"
  shows "set (insert_rows rs rows) = set rows \<union> {r \<in> set rs. eg_key r \<notin> eg_key ` set rows}"
  using assms
proof (induction rs arbitrary: rows)
  case (Cons r rs)
  have "inj_on eg_key (set rs)" using Cons.prems by (auto intro: inj_on_subset)
  note IH = Cons.IH[OF this]
  have same: "eg_key r' = eg_key r \<Longrightarrow> r' \<in> set rs \<Longrightarrow> r' = r" for r'
    using inj_onD[OF Cons.prems, of r' r] by simp
  show ?case by (auto simp: IH dest: same)
qed simp

lemma insert_rows_distinct:
  "distinct (map eg_key rows) \<Longrightarrow> distinct (map eg_key (insert_rows rs rows))"
  by (induction rs arbitrary: rows) auto

lemma fresh_row_simps [simp]:
  "eg_person (fresh_row p now g) = p" "eg_urn (fresh_row p now g) = g_urn g" "eg_revoked_at (fresh_row p now g) = None"
  "eg_revoke_at (fresh_row p now g) = None" "eg_key (fresh_row p now g) = (p, g_urn g, justification_ref g)"
  "in_force d (fresh_row p now g)"
  by (simp_all add: fresh_row_def eg_key_def in_force_def)

lemma fresh_rows_inj: "inj_on eg_key (set (map (fresh_row p now) gs))"
  by (auto simp: inj_on_def fresh_row_def eg_key_def)

lemma write_grants_set:
  "set (write_grants p now gs rows) = set rows \<union>
     fresh_row p now ` {g \<in> set gs. (p, g_urn g, justification_ref g) \<notin> eg_key ` set rows}"
  unfolding write_grants_def insert_rows_set[OF fresh_rows_inj] by auto

lemma revoke_row_simps [simp]:
  "eg_person (revoke_row p now rvs r) = eg_person r" "eg_urn (revoke_row p now rvs r) = eg_urn r"
  "eg_ref (revoke_row p now rvs r) = eg_ref r" "eg_kind (revoke_row p now rvs r) = eg_kind r"
  "eg_key (revoke_row p now rvs r) = eg_key r"
  by (simp_all add: revoke_row_def end_row_def eg_key_def split: option.split)

lemma revoke_row_revoked: "eg_revoked_at r \<noteq> None \<Longrightarrow> revoke_row p now rvs r = r"
  by (auto simp: revoke_row_def)

lemma deadlines_None: "deadlines rvs u = None \<longleftrightarrow> u \<notin> rv_urn ` set rvs"
  by (force simp: deadlines_def map_of_eq_None_iff)

lemma deadlines_Some:
  assumes "distinct (map rv_urn rvs)"
  shows "deadlines rvs u = Some r \<longleftrightarrow> r \<in> set rvs \<and> rv_urn r = u"
proof -
  have "distinct (map fst (rev (map (\<lambda>r. (rv_urn r, r)) rvs)))" using assms by (simp add: rev_map[symmetric] comp_def)
  from map_of_eq_Some_iff[OF this, of u r] show ?thesis by (force simp: deadlines_def)
qed

lemma in_force_end_row:
  assumes "eg_revoked_at r = None"
  shows "in_force d (end_row now rv r) \<longleftrightarrow> in_force d r \<and> rv_grace_days rv \<noteq> 0 \<and> d < rv_effective rv"
  using assms by (auto simp: in_force_def end_row_def split: option.split)

text \<open>Whether a revocation in the delta lets a person keep an entitlement for now.\<close>

definition spared :: "revocation list \<Rightarrow> string \<Rightarrow> int \<Rightarrow> bool" where
  "spared rvs u d = list_all (\<lambda>rv. rv_urn rv = u \<longrightarrow> rv_grace_days rv \<noteq> 0 \<and> d < rv_effective rv) rvs"

lemma spared_free: "u \<notin> rv_urn ` set rvs \<Longrightarrow> spared rvs u d"
  unfolding spared_def list_all_iff by blast

lemma in_force_revoke_row:
  assumes "distinct (map rv_urn rvs)" and "eg_person r = p"
  shows "in_force d (revoke_row p now rvs r) \<longleftrightarrow> in_force d r \<and> spared rvs (eg_urn r) d"
proof (cases "eg_revoked_at r = None")
  case True
  show ?thesis
  proof (cases "deadlines rvs (eg_urn r)")
    case None
    then have "spared rvs (eg_urn r) d" by (simp add: deadlines_None spared_free)
    with None show ?thesis by (simp add: revoke_row_def)
  next
    case (Some rv)
    then have "rv \<in> set rvs" "rv_urn rv = eg_urn r" by (simp_all add: deadlines_Some[OF assms(1)])
    moreover have "rv' = rv" if "rv' \<in> set rvs" "rv_urn rv' = eg_urn r" for rv'
      using that Some deadlines_Some[OF assms(1), of "eg_urn r" rv'] by simp
    ultimately have "spared rvs (eg_urn r) d \<longleftrightarrow> rv_grace_days rv \<noteq> 0 \<and> d < rv_effective rv"
      unfolding spared_def list_all_iff by blast
    with Some True assms(2) show ?thesis by (simp add: revoke_row_def in_force_end_row)
  qed
qed (auto simp: revoke_row_def in_force_def)

lemma revoke_row_other: "eg_person r \<noteq> p \<Longrightarrow> revoke_row p now rvs r = r"
  by (simp add: revoke_row_def)

lemma ld_commit_Ok: "ld_commit persons db = Ok db' \<longleftrightarrow> ld_ok persons db \<and> db' = db"
  by (auto simp: ld_commit_def)

lemma transition_parts:
  "distinct (map rv_urn (dl_revoked (transition L before after today)))"
  "g \<in> set (dl_granted (transition L before after today)) \<Longrightarrow> g_urn g \<notin> rv_urn ` set (dl_revoked (transition L before after today))"
  by (auto simp: transition_def Let_def revocation_of_def comp_def)

text \<open>The grants a transition really writes: those whose justification was never recorded.\<close>

definition unrecorded :: "lifecycle_db \<Rightarrow> string \<Rightarrow> grant list \<Rightarrow> grant list" where
  "unrecorded db p gs = filter (\<lambda>g. (p, g_urn g, justification_ref g) \<notin> eg_key ` set (ld_grants db)) gs"

lemma held_map:
  assumes "\<And>r. eg_urn (f r) = eg_urn r" and "\<And>r. eg_person (f r) = eg_person r"
    and "ld_grants db' = map f rows"
  shows "lifecycle_held db' p d = eg_urn ` {r \<in> set rows. eg_person r = p \<and> in_force d (f r)}"
proof -
  have "set (filter (\<lambda>r. eg_person r = p \<and> in_force d r) (map f rows)) = f ` {r \<in> set rows. eg_person r = p \<and> in_force d (f r)}"
    by (auto simp: assms(2))
  then show ?thesis by (simp add: lifecycle_held_def assms(1,3) image_image)
qed

lemma held_apply_rows:
  assumes "distinct (map rv_urn (dl_revoked \<delta>))" and "\<And>g. g \<in> set (dl_granted \<delta>) \<Longrightarrow> g_urn g \<notin> rv_urn ` set (dl_revoked \<delta>)"
    and rows: "ld_grants db' = revoke_rows q now \<delta> (write_grants q now (dl_granted \<delta>) (ld_grants db))"
  shows "lifecycle_held db' q d = {u \<in> lifecycle_held db q d. spared (dl_revoked \<delta>) u d} \<union>
     g_urn ` set (unrecorded db q (dl_granted \<delta>))"
proof -
  let ?R = "dl_revoked \<delta>"
  have keep: "in_force d (revoke_row q now ?R r) \<longleftrightarrow> in_force d r \<and> spared ?R (eg_urn r) d" if "eg_person r = q" for r
    using in_force_revoke_row[OF assms(1) that] .
  have free: "spared ?R (g_urn g) d" if "g \<in> set (dl_granted \<delta>)" for g
    by (rule spared_free[OF assms(2)[OF that]])
  have "lifecycle_held db' q d = eg_urn ` {r \<in> set (write_grants q now (dl_granted \<delta>) (ld_grants db)).
      eg_person r = q \<and> in_force d (revoke_row q now ?R r)}"
    by (rule held_map[OF _ _ rows[unfolded revoke_rows_def]]) simp_all
  also have "\<dots> = eg_urn ` {r \<in> set (write_grants q now (dl_granted \<delta>) (ld_grants db)).
      eg_person r = q \<and> in_force d r \<and> spared ?R (eg_urn r) d}"
    using keep by (intro arg_cong[where f = "image eg_urn"] Collect_cong) blast
  also have "\<dots> = eg_urn ` {r \<in> set (ld_grants db). eg_person r = q \<and> in_force d r \<and> spared ?R (eg_urn r) d} \<union>
      eg_urn ` {r \<in> fresh_row q now ` set (unrecorded db q (dl_granted \<delta>)). spared ?R (eg_urn r) d}"
    unfolding write_grants_set unrecorded_def image_Un[symmetric] by (intro arg_cong[where f = "image eg_urn"]) auto
  also have "eg_urn ` {r \<in> set (ld_grants db). eg_person r = q \<and> in_force d r \<and> spared ?R (eg_urn r) d} =
      {u \<in> lifecycle_held db q d. spared ?R u d}"
    by (auto simp: lifecycle_held_def)
  also have "{r \<in> fresh_row q now ` set (unrecorded db q (dl_granted \<delta>)). spared ?R (eg_urn r) d} =
      fresh_row q now ` set (unrecorded db q (dl_granted \<delta>))"
    using free by (auto simp: unrecorded_def)
  also have "eg_urn ` fresh_row q now ` set (unrecorded db q (dl_granted \<delta>)) = g_urn ` set (unrecorded db q (dl_granted \<delta>))"
    by (simp add: image_image)
  finally show ?thesis .
qed

lemma held_apply_others:
  assumes "p \<noteq> q" and "ld_grants db' = revoke_rows q now \<delta> (write_grants q now gs (ld_grants db))"
  shows "lifecycle_held db' p d = lifecycle_held db p d"
proof -
  have "lifecycle_held db' p d = eg_urn ` {r \<in> set (write_grants q now gs (ld_grants db)).
      eg_person r = p \<and> in_force d (revoke_row q now (dl_revoked \<delta>) r)}"
    by (rule held_map[OF _ _ assms(2)[unfolded revoke_rows_def]]) simp_all
  also have "{r \<in> set (write_grants q now gs (ld_grants db)). eg_person r = p \<and> in_force d (revoke_row q now (dl_revoked \<delta>) r)} =
      {r \<in> set (ld_grants db). eg_person r = p \<and> in_force d r}"
    using assms(1) by (auto simp: write_grants_set revoke_row_other)
  finally show ?thesis by (simp add: lifecycle_held_def)
qed

text \<open>C19. Applying a transition changes what the person holds exactly so: entitlements revoked at once go,
  those with a grace period stay until its day, everything else stays, and the granted ones whose
  justification was not in the table yet are added.  Nobody else's entitlements change, one event is
  appended to the timeline, and no row is ever removed.\<close>

theorem apply_exact:
  assumes "apply_delta persons now at cid q (transition L before after today) before after source db = Ok db'"
  shows "let \<delta> = transition L before after today in
     lifecycle_held db' q d = {u \<in> lifecycle_held db q d. spared (dl_revoked \<delta>) u d} \<union>
       g_urn ` set (unrecorded db q (dl_granted \<delta>)) \<and>
     (\<forall>p. p \<noteq> q \<longrightarrow> lifecycle_held db' p d = lifecycle_held db p d) \<and>
     ld_events db' = ld_events db @ [transition_event q \<delta> before after source cid at] \<and>
     (\<exists>new. map eg_key (ld_grants db') = map eg_key (ld_grants db) @ new) \<and> ld_ok persons db'"
proof -
  let ?\<delta> = "transition L before after today"
  have db': "ld_grants db' = revoke_rows q now ?\<delta> (write_grants q now (dl_granted ?\<delta>) (ld_grants db))"
      "ld_events db' = ld_events db @ [transition_event q ?\<delta> before after source cid at]" "ld_ok persons db'"
    using assms by (auto simp: apply_delta_def ld_commit_Ok)
  have "\<exists>new. map eg_key (ld_grants db') = map eg_key (ld_grants db) @ new"
    using insert_rows_append[of "map (fresh_row q now) (dl_granted ?\<delta>)" "ld_grants db"]
    by (auto simp: db'(1) revoke_rows_def write_grants_def comp_def)
  then show ?thesis
    unfolding Let_def
    using held_apply_rows[OF transition_parts db'(1)] held_apply_others[OF _ db'(1)] db'(2,3) by blast
qed

lemmas held_eval = apply_delta_def transition_def Let_def grants_for_def common_affiliations_def sample_rules_def sorted_set_def
  write_grants_def fresh_row_def justification_ref_def eg_key_def revoke_rows_def revoke_row_def deadlines_def end_row_def
  revocation_of_def find_entitlement_def ld_commit_def ld_ok_def grant_fits_def transition_event_def event_type_of_def
  event_fits_def JOINER_def LEAVER_def MOVER_def lifecycle_held_def in_force_def spared_def unrecorded_def

definition no_lifecycle :: lifecycle_db where "no_lifecycle = \<lparr>ld_grants = [], ld_events = []\<rparr>"

lemma sample_rules_ok: "rules_ok sample_rules"
  by (simp add: rules_ok_def sample_rules_def entitlement_ok_def lrule_ok_def starts_with_def CLASSIFICATIONS_def
      MAX_GRACE_DAYS_def AFFILIATION_VOCABULARY_def)

lemma sample_joiner:
  "\<exists>db. apply_delta {''p''} 5 5 ''c'' ''p'' (transition sample_rules [] [''student''] 100) [] [''student''] ''scim'' no_lifecycle = Ok db"
  by (simp add: held_eval no_lifecycle_def)

theorem apply_exact_witness:
  "\<exists>db. apply_delta {''p''} 5 5 ''c'' ''p'' (transition sample_rules [] [''student''] 100) [] [''student''] ''scim'' no_lifecycle = Ok db \<and>
     lifecycle_held db ''p'' 100 = {''urn:lms'', ''urn:mail''}"
proof -
  obtain db where db: "apply_delta {''p''} 5 5 ''c'' ''p'' (transition sample_rules [] [''student''] 100) [] [''student''] ''scim''
      no_lifecycle = Ok db" using sample_joiner by blast
  show ?thesis
    using db apply_exact[OF db, of 100] by (auto simp: held_eval no_lifecycle_def)
qed

text \<open>A leaver keeps nothing: once the longest grace period is over, somebody whose last affiliation was
  taken away holds none of the entitlements the rules gave those affiliations, and holds nothing at all
  if the rules account for everything held.\<close>

theorem leaver_ends_all:
  assumes "rules_ok L" and "apply_delta persons now at cid q (transition L before [] today) before [] source db = Ok db'"
    and "today + MAX_GRACE_DAYS \<le> d"
  shows "lifecycle_held db' q d = lifecycle_held db q d - g_urn ` set (grants_for L before)"
proof -
  let ?\<delta> = "transition L before [] today"
  have none: "grants_for L [] = []" by (simp add: grants_for_def common_affiliations_def sorted_set_def)
  have "rv_urn ` set (dl_revoked ?\<delta>) = g_urn ` set (grants_for L before)"
    by (auto simp: transition_def Let_def none revocation_of_def image_image)
  moreover have "rv_effective rv \<le> d" if mem: "rv \<in> set (dl_revoked ?\<delta>)" for rv
  proof -
    obtain u where rv: "rv = revocation_of L u today" using mem by (auto simp: transition_def Let_def)
    have "en_grace_days e \<le> MAX_GRACE_DAYS" if "find_entitlement L u = Some e" for e
      using that assms(1) by (auto simp: find_entitlement_def find_Some_iff rules_ok_def list_all_length entitlement_ok_def)
    then show ?thesis using assms(3) by (auto simp: rv revocation_of_def Let_def MAX_GRACE_DAYS_def split: option.split)
  qed
  ultimately have "spared (dl_revoked ?\<delta>) u d \<longleftrightarrow> u \<notin> g_urn ` set (grants_for L before)" for u
    by (force simp: spared_def list_all_iff)
  moreover have "dl_granted ?\<delta> = []" by (simp add: transition_def Let_def none)
  moreover have rows: "ld_grants db' = revoke_rows q now ?\<delta> (write_grants q now (dl_granted ?\<delta>) (ld_grants db))"
    using assms(2) by (auto simp: apply_delta_def ld_commit_Ok)
  ultimately show ?thesis using held_apply_rows[OF transition_parts(1) transition_parts(2) rows]
    by (auto simp: unrecorded_def)
qed

definition sample_joined :: lifecycle_db where
  "sample_joined = \<lparr>ld_grants = [fresh_row ''p'' 5 \<lparr>g_urn = ''urn:lms'', g_rule_id = ''s'', g_affiliation = ''student''\<rparr>,
     fresh_row ''p'' 5 \<lparr>g_urn = ''urn:mail'', g_rule_id = ''s'', g_affiliation = ''student''\<rparr>], ld_events = []\<rparr>"

lemma sample_leaver:
  "\<exists>db. apply_delta {''p''} 9 9 ''c'' ''p'' (transition sample_rules [''student''] [] 200) [''student''] [] ''scim'' sample_joined = Ok db"
  by (simp add: held_eval sample_joined_def)

theorem leaver_ends_all_witness:
  "\<exists>db. apply_delta {''p''} 9 9 ''c'' ''p'' (transition sample_rules [''student''] [] 200) [''student''] [] ''scim'' sample_joined = Ok db \<and>
     lifecycle_held db ''p'' 600 = {} \<and> lifecycle_held sample_joined ''p'' 600 = {''urn:lms'', ''urn:mail''}"
proof -
  obtain db where db: "apply_delta {''p''} 9 9 ''c'' ''p'' (transition sample_rules [''student''] [] 200) [''student''] [] ''scim''
      sample_joined = Ok db" using sample_leaver by blast
  show ?thesis
    using db leaver_ends_all[OF sample_rules_ok db, of 600] by (auto simp: held_eval sample_joined_def MAX_GRACE_DAYS_def)
qed

text \<open>A row that was ever recorded is never given back.  When every granted justification of an
  entitlement is already in the table, whatever became of it, the transition leaves the entitlement as
  it was: somebody who comes back does not get it again, and a deadline set when they left stands.\<close>

theorem recorded_grant_not_restored:
  assumes "apply_delta persons now at cid q (transition L before after today) before after source db = Ok db'"
    and "u \<in> g_urn ` set (dl_granted (transition L before after today))"
    and "\<forall>g\<in>set (unrecorded db q (dl_granted (transition L before after today))). g_urn g \<noteq> u"
  shows "u \<in> lifecycle_held db' q d \<longleftrightarrow> u \<in> lifecycle_held db q d"
proof -
  let ?\<delta> = "transition L before after today"
  have rows: "ld_grants db' = revoke_rows q now ?\<delta> (write_grants q now (dl_granted ?\<delta>) (ld_grants db))"
    using assms(1) by (auto simp: apply_delta_def ld_commit_Ok)
  have "spared (dl_revoked ?\<delta>) u d"
    using assms(2) by (auto intro!: spared_free dest: transition_parts(2))
  then show ?thesis
    using held_apply_rows[OF transition_parts(1) transition_parts(2) rows, of d] assms(3) by blast
qed

definition sample_left :: lifecycle_db where
  "sample_left = \<lparr>ld_grants = map (revoke_row ''p'' 9 (dl_revoked (transition sample_rules [''student''] [] 200))) (ld_grants sample_joined),
     ld_events = []\<rparr>"

theorem recorded_grant_not_restored_witness:
  "\<exists>db. apply_delta {''p''} 11 11 ''c'' ''p'' (transition sample_rules [] [''student''] 210) [] [''student''] ''scim'' sample_left = Ok db \<and>
     ''urn:mail'' \<in> g_urn ` set (grants_for sample_rules [''student'']) \<and> ''urn:mail'' \<notin> lifecycle_held db ''p'' 210"
proof -
  have "\<exists>db. apply_delta {''p''} 11 11 ''c'' ''p'' (transition sample_rules [] [''student''] 210) [] [''student''] ''scim'' sample_left = Ok db"
    by (simp add: held_eval sample_left_def sample_joined_def)
  then obtain db where db: "apply_delta {''p''} 11 11 ''c'' ''p'' (transition sample_rules [] [''student''] 210) [] [''student'']
      ''scim'' sample_left = Ok db" by blast
  have "''urn:mail'' \<in> g_urn ` set (dl_granted (transition sample_rules [] [''student''] 210))"
      "''urn:mail'' \<in> g_urn ` set (grants_for sample_rules [''student''])"
    by (simp_all add: transition_def Let_def grants_for_def common_affiliations_def sample_rules_def sorted_set_def)
  moreover have "unrecorded sample_left ''p'' (dl_granted (transition sample_rules [] [''student''] 210)) = []"
    by (simp add: transition_def Let_def grants_for_def common_affiliations_def sample_rules_def sorted_set_def unrecorded_def
        sample_left_def sample_joined_def justification_ref_def)
  moreover have "''urn:mail'' \<notin> lifecycle_held sample_left ''p'' 210"
    by (simp add: held_eval sample_left_def sample_joined_def)
  ultimately show ?thesis using db recorded_grant_not_restored[OF db, of "''urn:mail''" 210] by auto
qed

section \<open>Sweeps\<close>

lemma select_due_set: "set (select_due today locked rows) = {i. i < length rows \<and> i \<notin> locked \<and> is_due today (rows ! i)}"
  by (auto simp: select_due_def)

lemma select_due_distinct: "distinct (select_due today locked rows)"
  by (simp add: select_due_def)

lemma revoke_at_length [simp]: "length (revoke_at now is rows) = length rows"
  by (simp add: revoke_at_def)

lemma revoke_at_nth:
  "i < length rows \<Longrightarrow> revoke_at now is rows ! i = (if i \<in> set is then (rows ! i)\<lparr>eg_revoked_at := Some now\<rparr> else rows ! i)"
  by (simp add: revoke_at_def)

text \<open>A table read by position: the image of a selection is the image over the positions.\<close>

lemma filter_positions: "f ` set (filter P xs) = (\<lambda>i. f (xs ! i)) ` {i. i < length xs \<and> P (xs ! i)}"
proof -
  have "set (filter P xs) = (\<lambda>i. xs ! i) ` {i. i < length xs \<and> P (xs ! i)}" by (auto simp: in_set_conv_nth)
  then show ?thesis by (simp only: image_image)
qed

text \<open>The sweep does what the deadlines already said.  With nothing locked it revokes every grant whose day
  has come and no other, writes one event for each, names exactly the people concerned, and changes
  what nobody holds from that day on; a second pass finds nothing to do.\<close>

theorem sweep_exact:
  assumes "expire_due today now at cid {} db = (people, db')" and "today \<le> d"
  shows "set people = eg_person ` set (filter (is_due today) (ld_grants db)) \<and>
     ld_grants db' = map (\<lambda>r. if is_due today r then r\<lparr>eg_revoked_at := Some now\<rparr> else r) (ld_grants db) \<and>
     ld_events db' = ld_events db @ map (expiry_event cid at) (filter (is_due today) (ld_grants db)) \<and>
     lifecycle_held db' p d = lifecycle_held db p d \<and>
     expire_due today now2 at2 cid2 locked db' = ([], db')"
proof -
  let ?rows = "ld_grants db" and ?f = "\<lambda>r. if is_due today r then r\<lparr>eg_revoked_at := Some now\<rparr> else r"
  let ?due = "select_due today {} ?rows"
  have parts: "people = sorted_set (map (\<lambda>i. eg_person (?rows ! i)) ?due)" "ld_grants db' = revoke_at now ?due ?rows"
      "ld_events db' = ld_events db @ map (\<lambda>i. expiry_event cid at (?rows ! i)) ?due"
    using assms(1) by (auto simp: expire_due_def finish_sweep_def Let_def)
  have due: "map (\<lambda>i. g (?rows ! i)) ?due = map g (filter (is_due today) ?rows)" for g :: "entitlement_grant \<Rightarrow> 'a"
  proof -
    have "map (\<lambda>i. ?rows ! i) (filter (\<lambda>i. is_due today (?rows ! i)) [0..<length ?rows]) =
        filter (is_due today) (map (\<lambda>i. ?rows ! i) [0..<length ?rows])"
      by (simp add: filter_map comp_def)
    then have "map (\<lambda>i. ?rows ! i) ?due = filter (is_due today) ?rows" by (simp add: select_due_def map_nth)
    from arg_cong[OF this, of "map g"] show ?thesis by (simp add: comp_def)
  qed
  have rows: "ld_grants db' = map ?f ?rows"
    unfolding parts(2) by (rule nth_equalityI) (auto simp: revoke_at_nth select_due_set)
  have quiet: "\<not> is_due today (?f r)" for r by (simp add: is_due_def)
  have "in_force d (?f r) \<longleftrightarrow> in_force d r" for r
    using assms(2) by (auto simp: in_force_def is_due_def split: option.split)
  then have "lifecycle_held db' p d = lifecycle_held db p d"
    by (subst held_map[OF _ _ rows]) (auto simp: lifecycle_held_def)
  moreover have "select_due today locked (ld_grants db') = []"
    using quiet by (simp add: select_due_def rows filter_empty_conv)
  then have "expire_due today now2 at2 cid2 locked db' = ([], db')"
    by (simp add: expire_due_def finish_sweep_def sorted_set_def revoke_at_def map_nth)
  ultimately show ?thesis using rows parts(1,3) due[of eg_person] due[of "expiry_event cid at"] by simp
qed

theorem sweep_exact_witness:
  "fst (expire_due 230 20 20 ''c'' {} sample_left) = [''p''] \<and>
   expire_due 230 21 21 ''c'' {} (snd (expire_due 230 20 20 ''c'' {} sample_left)) =
     ([], snd (expire_due 230 20 20 ''c'' {} sample_left))"
proof -
  have "fst (expire_due 230 20 20 ''c'' {} sample_left) = [''p'']"
    by (simp add: expire_due_def finish_sweep_def select_due_def is_due_def held_eval sample_left_def sample_joined_def)
  then show ?thesis
    using sweep_exact[of 230 20 20 "''c''" sample_left "[''p'']" "snd (expire_due 230 20 20 ''c'' {} sample_left)" 230]
    by (simp add: prod_eq_iff)
qed

section \<open>Sweeps on several nodes\<close>

text \<open>A node's pass is two steps: the \<open>SELECT ... FOR UPDATE SKIP LOCKED\<close> and the commit.  Between them other
  transactions may do anything but delete or rename rows, bring a revoked row back, touch a locked row
  or write expiries of their own; a transition is one of them when no row it ends is locked.\<close>

record sweeping =
  sw_db :: lifecycle_db
  sw_locks :: "nat \<Rightarrow> nat list"

definition locked_by_others :: "nat \<Rightarrow> (nat \<Rightarrow> nat list) \<Rightarrow> nat set" where
  "locked_by_others n locks = (\<Union>m\<in>{m. m \<noteq> n}. set (locks m))"

definition same_grantee :: "entitlement_grant \<Rightarrow> entitlement_grant \<Rightarrow> bool" where
  "same_grantee r r' = (eg_key r' = eg_key r \<and> (eg_revoked_at r \<noteq> None \<longrightarrow> eg_revoked_at r' \<noteq> None))"

definition expiries :: "lifecycle_event list \<Rightarrow> lifecycle_event list" where
  "expiries es = filter (\<lambda>e. lv_type e = GRACE_EXPIRY) es"

definition undisturbed :: "nat set \<Rightarrow> lifecycle_db \<Rightarrow> lifecycle_db \<Rightarrow> bool" where
  "undisturbed locked db db' =
     (length (ld_grants db) \<le> length (ld_grants db') \<and> expiries (ld_events db') = expiries (ld_events db) \<and>
      list_all (\<lambda>i. same_grantee (ld_grants db ! i) (ld_grants db' ! i) \<and>
        (i \<in> locked \<longrightarrow> ld_grants db' ! i = ld_grants db ! i)) [0..<length (ld_grants db)])"

inductive sweep_step :: "sweeping \<Rightarrow> sweeping \<Rightarrow> bool" where
  sweep_select: "sw_locks \<sigma> n = [] \<Longrightarrow>
    sweep_step \<sigma> (\<sigma>\<lparr>sw_locks := (sw_locks \<sigma>)(n := select_due today (locked_by_others n (sw_locks \<sigma>)) (ld_grants (sw_db \<sigma>)))\<rparr>)"
| sweep_finish: "finish_sweep now at cid (sw_locks \<sigma> n) (sw_db \<sigma>) = (people, db') \<Longrightarrow>
    sweep_step \<sigma> \<lparr>sw_db = db', sw_locks = (sw_locks \<sigma>)(n := [])\<rparr>"
| sweep_other: "undisturbed (\<Union>m. set (sw_locks \<sigma> m)) (sw_db \<sigma>) db' \<Longrightarrow> sweep_step \<sigma> (\<sigma>\<lparr>sw_db := db'\<rparr>)"

definition revoked_positions :: "entitlement_grant list \<Rightarrow> nat set" where
  "revoked_positions rows = {i. i < length rows \<and> eg_revoked_at (rows ! i) \<noteq> None}"

definition row_tag :: "entitlement_grant \<Rightarrow> string \<times> pyval" where
  "row_tag r = (eg_person r, held_state r True)"

definition event_tag :: "lifecycle_event \<Rightarrow> string \<times> pyval" where
  "event_tag e = (lv_person e, lv_before e)"

definition counted :: "lifecycle_db \<Rightarrow> bool" where
  "counted db = (mset (map event_tag (expiries (ld_events db))) \<subseteq>#
     image_mset (\<lambda>i. row_tag (ld_grants db ! i)) (mset_set (revoked_positions (ld_grants db))))"

definition sweep_inv :: "sweeping \<Rightarrow> bool" where
  "sweep_inv \<sigma> = (counted (sw_db \<sigma>) \<and> (\<forall>n. distinct (sw_locks \<sigma> n)) \<and>
     (\<forall>m n. m \<noteq> n \<longrightarrow> set (sw_locks \<sigma> m) \<inter> set (sw_locks \<sigma> n) = {}) \<and>
     (\<forall>n. \<forall>i\<in>set (sw_locks \<sigma> n). i < length (ld_grants (sw_db \<sigma>)) \<and> eg_revoked_at (ld_grants (sw_db \<sigma>) ! i) = None))"

lemma revoked_positions_finite [simp]: "finite (revoked_positions rows)"
  by (simp add: revoked_positions_def)

lemma event_tag_expiry [simp]: "event_tag (expiry_event cid at r) = row_tag r"
  by (simp add: event_tag_def expiry_event_def row_tag_def)

lemma expiries_append [simp]: "expiries (es @ es') = expiries es @ expiries es'"
  by (simp add: expiries_def)

lemma expiries_expiry [simp]: "expiries (map (\<lambda>i. expiry_event cid at (f i)) is) = map (\<lambda>i. expiry_event cid at (f i)) is"
  by (simp add: expiries_def expiry_event_def filter_id_conv)

lemma row_tag_revoked [simp]: "row_tag (r\<lparr>eg_revoked_at := t\<rparr>) = row_tag r"
  by (simp add: row_tag_def held_state_def)

lemma row_tag_key: "eg_key r = eg_key r' \<Longrightarrow> row_tag r = row_tag r'"
  by (simp add: row_tag_def held_state_def eg_key_def)

lemma finish_counted:
  assumes "counted db" and "distinct due"
    and "\<forall>i\<in>set due. i < length (ld_grants db) \<and> eg_revoked_at (ld_grants db ! i) = None"
    and "finish_sweep now at cid due db = (people, db')"
  shows "counted db'"
proof -
  let ?rows = "ld_grants db"
  have db': "ld_grants db' = revoke_at now due ?rows"
      "ld_events db' = ld_events db @ map (\<lambda>i. expiry_event cid at (?rows ! i)) due"
    using assms(4) by (auto simp: finish_sweep_def Let_def)
  have pos: "revoked_positions (ld_grants db') = revoked_positions ?rows \<union> set due"
    using assms(3) by (auto simp: revoked_positions_def db'(1) revoke_at_nth)
  have disj: "revoked_positions ?rows \<inter> set due = {}" using assms(3) by (auto simp: revoked_positions_def)
  have tags: "row_tag (ld_grants db' ! i) = row_tag (?rows ! i)" if "i < length ?rows" for i
    using that by (simp add: db'(1) revoke_at_nth)
  have "image_mset (\<lambda>i. row_tag (ld_grants db' ! i)) (mset_set (revoked_positions (ld_grants db'))) =
      image_mset (\<lambda>i. row_tag (?rows ! i)) (mset_set (revoked_positions ?rows)) +
      image_mset (\<lambda>i. row_tag (?rows ! i)) (mset_set (set due))"
    unfolding pos mset_set_Union[OF revoked_positions_finite finite_set disj] image_mset_union
    using assms(3) by (intro arg_cong2[where f = plus] image_mset_cong tags) (auto simp: revoked_positions_def)
  moreover have "image_mset (\<lambda>i. row_tag (?rows ! i)) (mset_set (set due)) = mset (map (\<lambda>i. row_tag (?rows ! i)) due)"
    using mset_set_set[OF assms(2)] by simp
  ultimately show ?thesis
    using assms(1) by (simp add: counted_def db'(2) comp_def)
qed

lemma undisturbed_counted:
  assumes "counted db" and "undisturbed locked db db'"
  shows "counted db'"
proof -
  have same: "same_grantee (ld_grants db ! i) (ld_grants db' ! i)" if "i < length (ld_grants db)" for i
    using assms(2) that by (simp add: undisturbed_def list_all_iff)
  have sub: "revoked_positions (ld_grants db) \<subseteq> revoked_positions (ld_grants db')"
    using assms(2) same by (auto simp: revoked_positions_def undisturbed_def same_grantee_def)
  have "image_mset (\<lambda>i. row_tag (ld_grants db ! i)) (mset_set (revoked_positions (ld_grants db))) =
      image_mset (\<lambda>i. row_tag (ld_grants db' ! i)) (mset_set (revoked_positions (ld_grants db)))"
    using same by (intro image_mset_cong row_tag_key) (auto simp: revoked_positions_def same_grantee_def)
  also have "\<dots> \<subseteq># image_mset (\<lambda>i. row_tag (ld_grants db' ! i)) (mset_set (revoked_positions (ld_grants db')))"
    by (intro image_mset_subseteq_mono subset_imp_msubset_mset_set sub) simp
  finally show ?thesis
    using assms by (simp add: counted_def undisturbed_def)
qed

lemma sweep_step_inv: "sweep_step \<sigma> \<sigma>' \<Longrightarrow> sweep_inv \<sigma> \<Longrightarrow> sweep_inv \<sigma>'"
proof (induction rule: sweep_step.induct)
  case (sweep_select \<sigma> n today)
  then show ?case
    by (auto simp: sweep_inv_def select_due_set select_due_distinct locked_by_others_def is_due_def)
next
  case (sweep_finish now at cid \<sigma> n people db')
  then have rows: "ld_grants db' = revoke_at now (sw_locks \<sigma> n) (ld_grants (sw_db \<sigma>))"
    by (auto simp: finish_sweep_def Let_def)
  have "counted db'"
    by (rule finish_counted[OF _ _ _ sweep_finish.hyps]) (use sweep_finish.prems in \<open>simp_all add: sweep_inv_def\<close>)
  moreover have "i < length (ld_grants db') \<and> eg_revoked_at (ld_grants db' ! i) = None"
    if "m \<noteq> n" "i \<in> set (sw_locks \<sigma> m)" for m i
  proof -
    have "i < length (ld_grants (sw_db \<sigma>))" "eg_revoked_at (ld_grants (sw_db \<sigma>) ! i) = None" "i \<notin> set (sw_locks \<sigma> n)"
      using sweep_finish.prems that by (auto simp: sweep_inv_def)
    then show ?thesis by (simp add: rows revoke_at_nth)
  qed
  ultimately show ?case using sweep_finish.prems by (simp add: sweep_inv_def)
next
  case (sweep_other \<sigma> db')
  have "i < length (ld_grants db') \<and> eg_revoked_at (ld_grants db' ! i) = None" if i: "i \<in> set (sw_locks \<sigma> n)" for n i
  proof -
    have "i < length (ld_grants (sw_db \<sigma>))" "eg_revoked_at (ld_grants (sw_db \<sigma>) ! i) = None"
      using sweep_other.prems i by (auto simp: sweep_inv_def)
    with sweep_other.hyps i show ?thesis by (auto simp: undisturbed_def list_all_iff)
  qed
  then show ?case using sweep_other undisturbed_counted[OF _ sweep_other.hyps] by (auto simp: sweep_inv_def)
qed

lemma sweep_run_inv: "sweep_step\<^sup>*\<^sup>* \<sigma> \<sigma>' \<Longrightarrow> sweep_inv \<sigma> \<Longrightarrow> sweep_inv \<sigma>'"
  by (induction rule: rtranclp_induct) (auto intro: sweep_step_inv)

lemma positions_mset:
  "image_mset (\<lambda>i. f (rows ! i)) (mset_set {i. i < length rows \<and> P (rows ! i)}) = mset (map f (filter P rows))"
proof (induction rows rule: rev_induct)
  case (snoc r rows)
  have "{i. i < length (rows @ [r]) \<and> P ((rows @ [r]) ! i)} =
      {i. i < length rows \<and> P (rows ! i)} \<union> (if P r then {length rows} else {})"
    by (auto simp: nth_append less_Suc_eq split: if_splits)
  then have m: "mset_set {i. i < length (rows @ [r]) \<and> P ((rows @ [r]) ! i)} =
      mset_set {i. i < length rows \<and> P (rows ! i)} + (if P r then {#length rows#} else {#})"
    by (auto simp: mset_set_Union)
  have "image_mset (\<lambda>i. f ((rows @ [r]) ! i)) (mset_set {i. i < length rows \<and> P (rows ! i)}) =
      image_mset (\<lambda>i. f (rows ! i)) (mset_set {i. i < length rows \<and> P (rows ! i)})"
    by (intro image_mset_cong) (simp add: nth_append)
  with snoc show ?case unfolding m by simp
qed simp

text \<open>C20. However the passes of several nodes and other transactions interleave, from a table with no expiries the
  timeline never holds more expiry events of a person's entitlement than that person has revoked
  grants of it: no expiry is written twice.\<close>

theorem no_duplicate_expiry:
  assumes "expiries (ld_events db) = []" and "sweep_step\<^sup>*\<^sup>* \<lparr>sw_db = db, sw_locks = \<lambda>n. []\<rparr> \<sigma>"
  shows "mset (map event_tag (expiries (ld_events (sw_db \<sigma>)))) \<subseteq>#
     mset (map row_tag (filter (\<lambda>r. eg_revoked_at r \<noteq> None) (ld_grants (sw_db \<sigma>))))"
proof -
  have "sweep_inv \<lparr>sw_db = db, sw_locks = \<lambda>n. []\<rparr>" using assms(1) by (simp add: sweep_inv_def counted_def)
  from sweep_run_inv[OF assms(2) this] have "counted (sw_db \<sigma>)" by (simp add: sweep_inv_def)
  then show ?thesis unfolding counted_def revoked_positions_def positions_mset[where P = "\<lambda>r. eg_revoked_at r \<noteq> None"] .
qed

lemma apply_undisturbed:
  assumes "apply_delta persons now at cid q \<delta> before after source db = Ok db'"
    and "\<And>i. i \<in> locked \<Longrightarrow> i < length (ld_grants db) \<Longrightarrow> eg_person (ld_grants db ! i) \<noteq> q"
  shows "undisturbed locked db db'"
proof -
  obtain new where new: "write_grants q now (dl_granted \<delta>) (ld_grants db) = ld_grants db @ new"
    using insert_rows_append[of "map (fresh_row q now) (dl_granted \<delta>)" "ld_grants db"] unfolding write_grants_def by blast
  have db': "ld_grants db' = map (revoke_row q now (dl_revoked \<delta>)) (ld_grants db @ new)"
      "ld_events db' = ld_events db @ [transition_event q \<delta> before after source cid at]"
    using assms(1) by (auto simp: apply_delta_def ld_commit_Ok revoke_rows_def new)
  have "lv_type (transition_event q \<delta> before after source cid at) \<noteq> GRACE_EXPIRY"
    by (simp add: transition_event_def event_type_of_def JOINER_def LEAVER_def MOVER_def GRACE_EXPIRY_def)
  moreover have "same_grantee r (revoke_row q now rvs r)" for r rvs
    by (auto simp: same_grantee_def revoke_row_revoked)
  ultimately show ?thesis
    using assms(2) by (auto simp: undisturbed_def db' list_all_iff nth_append expiries_def revoke_row_other)
qed

text \<open>Two nodes sweep at once; the second finds the row locked and writes nothing.\<close>

theorem no_duplicate_expiry_witness:
  "\<exists>\<sigma>. sweep_step\<^sup>*\<^sup>* \<lparr>sw_db = sample_left, sw_locks = \<lambda>n. []\<rparr> \<sigma> \<and> length (expiries (ld_events (sw_db \<sigma>))) = 1 \<and>
     mset (map event_tag (expiries (ld_events (sw_db \<sigma>)))) \<subseteq>#
       mset (map row_tag (filter (\<lambda>r. eg_revoked_at r \<noteq> None) (ld_grants (sw_db \<sigma>))))"
proof -
  have due: "select_due 230 {} (ld_grants sample_left) = [0]" "select_due 230 {0} (ld_grants sample_left) = []"
    by (simp_all add: select_due_def is_due_def held_eval sample_left_def sample_joined_def)
  define s0 where "s0 = \<lparr>sw_db = sample_left, sw_locks = \<lambda>n. []\<rparr>"
  define s1 where "s1 = \<lparr>sw_db = sample_left, sw_locks = (\<lambda>n. [])(0 := [0])\<rparr>"
  define db where "db = snd (finish_sweep 20 20 ''c'' [0] sample_left)"
  define s2 where "s2 = \<lparr>sw_db = db, sw_locks = (\<lambda>n. [])(0 := [])\<rparr>"
  have others: "locked_by_others 0 (\<lambda>n. []) = {}" "locked_by_others 1 ((\<lambda>n. [])(0 := [0])) = {0}"
    by (auto simp: locked_by_others_def split: if_splits)
  have "sweep_step s0 s1"
    using sweep_select[of s0 0 230] by (simp add: s0_def s1_def due others)
  moreover have "sweep_step s1 s1"
    using sweep_select[of s1 1 230] others(2) due(2) by (simp add: s1_def fun_upd_idem)
  moreover have "sweep_step s1 s2"
    using sweep_finish[of 20 20 "''c''" s1 0 "fst (finish_sweep 20 20 ''c'' [0] sample_left)" db]
    by (simp add: s1_def s2_def db_def)
  ultimately have run: "sweep_step\<^sup>*\<^sup>* s0 s2" by (meson rtranclp.rtrancl_into_rtrancl rtranclp.rtrancl_refl)
  have none: "expiries (ld_events sample_left) = []" by (simp add: sample_left_def expiries_def)
  have "length (expiries (ld_events (sw_db s2))) = 1"
    using expiries_expiry[of "''c''" 20 "\<lambda>i. ld_grants sample_left ! i" "[0]"]
    by (simp add: s2_def db_def finish_sweep_def Let_def none)
  with run no_duplicate_expiry[OF none run[unfolded s0_def]] show ?thesis unfolding s0_def by blast
qed

end
