(* ===== verification/DeadLetters.thy ===== *)
theory DeadLetters
  imports Retry Documents
begin

text \<open>
  The dead-letter queue (\<open>campusid/lifecycle/deadletter.py\<close>, the \<open>DeadLetter\<close> table of
  \<open>campusid/lifecycle/models.py\<close>).

  An identifier and a person are the texts of UUIDs that parse; the identifier of a new row is a
  parameter.  \<open>record\<close> reads and writes in one transaction that holds no lock on what it did not find,
  and \<open>replay\<close> reads in one transaction and writes in another with the dispatch between them, so each is
  given as its steps and as their composition.
\<close>

record dead_letter =
  dd_id :: string
  dd_person :: string
  dd_target :: string
  dd_operation :: string
  dd_payload :: pyval
  dd_attempts :: "(nat \<times> string) list"
  dd_correlation :: string
  dd_created_at :: int
  dd_replayed_at :: "int option"

record dd_item =
  it_id :: string
  it_person :: string
  it_target :: string
  it_operation :: string
  it_payload :: pyval
  it_attempts :: "(nat \<times> string) list"
  it_created_at :: int

type_synonym dead_key = "string \<times> string \<times> string"

definition dd_key :: "dead_letter \<Rightarrow> dead_key" where
  "dd_key r = (dd_person r, dd_target r, dd_operation r)"

definition history :: "attempt list \<Rightarrow> (nat \<times> string) list" where
  "history attempts = map (\<lambda>a. (at_number a, at_error a)) attempts"

definition is_outstanding :: "dead_letter \<Rightarrow> bool" where
  "is_outstanding r = (dd_replayed_at r = None)"

definition to_item :: "dead_letter \<Rightarrow> dd_item" where
  "to_item r = \<lparr>it_id = dd_id r, it_person = dd_person r, it_target = dd_target r, it_operation = dd_operation r,
     it_payload = dd_payload r, it_attempts = dd_attempts r, it_created_at = dd_created_at r\<rparr>"

section \<open>Recording\<close>

definition find_existing :: "dead_key \<Rightarrow> dead_letter list \<Rightarrow> string option" where
  "find_existing k rows = map_option dd_id (find (\<lambda>r. dd_key r = k \<and> is_outstanding r) rows)"

definition extend_row :: "pyval \<Rightarrow> (nat \<times> string) list \<Rightarrow> dead_letter \<Rightarrow> dead_letter" where
  "extend_row payload h r = r\<lparr>dd_attempts := dd_attempts r @ h, dd_payload := payload\<rparr>"

definition extend_at :: "string \<Rightarrow> pyval \<Rightarrow> (nat \<times> string) list \<Rightarrow> dead_letter list \<Rightarrow> dead_letter list" where
  "extend_at i payload h rows = map (\<lambda>r. if dd_id r = i then extend_row payload h r else r) rows"

definition new_row :: "string \<Rightarrow> string \<Rightarrow> int \<Rightarrow> dead_key \<Rightarrow> pyval \<Rightarrow> (nat \<times> string) list \<Rightarrow> dead_letter" where
  "new_row fresh cid at k payload h = (case k of (p, tgt, operation) \<Rightarrow> \<lparr>dd_id = fresh, dd_person = p, dd_target = tgt,
     dd_operation = operation, dd_payload = payload, dd_attempts = h, dd_correlation = cid, dd_created_at = at,
     dd_replayed_at = None\<rparr>)"

text \<open>The write, given what the read found: the identifier of the item and the table.\<close>

definition record_write ::
  "string \<Rightarrow> string \<Rightarrow> int \<Rightarrow> dead_key \<Rightarrow> pyval \<Rightarrow> attempt list \<Rightarrow> string option \<Rightarrow> dead_letter list \<Rightarrow>
     string \<times> dead_letter list" where
  "record_write fresh cid at k payload attempts found rows = (case found of
       Some i \<Rightarrow> (i, extend_at i payload (history attempts) rows)
     | None \<Rightarrow> (fresh, rows @ [new_row fresh cid at k payload (history attempts)]))"

definition record_dead ::
  "string \<Rightarrow> string \<Rightarrow> int \<Rightarrow> dead_key \<Rightarrow> pyval \<Rightarrow> attempt list \<Rightarrow> dead_letter list \<Rightarrow> string \<times> dead_letter list" where
  "record_dead fresh cid at k payload attempts rows =
     record_write fresh cid at k payload attempts (find_existing k rows) rows"

definition outstanding :: "nat \<Rightarrow> dead_letter list \<Rightarrow> dd_item list" where
  "outstanding limit rows = map to_item (take limit (sort_key dd_created_at (filter is_outstanding rows)))"

section \<open>Replaying\<close>

datatype dispatched = Delivered | GaveUp "attempt list" | Broke string

definition replay_read :: "string \<Rightarrow> dead_letter list \<Rightarrow> dd_item option" where
  "replay_read i rows = (case find (\<lambda>r. dd_id r = i) rows of
       None \<Rightarrow> None | Some r \<Rightarrow> if dd_replayed_at r \<noteq> None then None else Some (to_item r))"

definition item_key :: "dd_item \<Rightarrow> dead_key" where
  "item_key it = (it_person it, it_target it, it_operation it)"

definition mark_replayed :: "string \<Rightarrow> int \<Rightarrow> dead_letter list \<Rightarrow> dead_letter list" where
  "mark_replayed i now rows = map (\<lambda>r. if dd_id r = i then r\<lparr>dd_replayed_at := Some now\<rparr> else r) rows"

definition replay_finish ::
  "string \<Rightarrow> string \<Rightarrow> int \<Rightarrow> int \<Rightarrow> dd_item \<Rightarrow> dispatched \<Rightarrow> dead_letter list \<Rightarrow> bool \<times> dead_letter list" where
  "replay_finish fresh cid at now it outcome rows = (case outcome of
       GaveUp attempts \<Rightarrow> (False, snd (record_dead fresh cid at (item_key it) (it_payload it) attempts rows))
     | Broke e \<Rightarrow> (False, snd (record_dead fresh cid at (item_key it) (it_payload it) [\<lparr>at_number = 1, at_error = e\<rparr>] rows))
     | Delivered \<Rightarrow> (True, mark_replayed (it_id it) now rows))"

definition replay ::
  "string \<Rightarrow> string \<Rightarrow> int \<Rightarrow> int \<Rightarrow> string \<Rightarrow> (dd_item \<Rightarrow> dispatched) \<Rightarrow> dead_letter list \<Rightarrow> bool \<times> dead_letter list" where
  "replay fresh cid at now i dispatch rows = (case replay_read i rows of
       None \<Rightarrow> (False, rows)
     | Some it \<Rightarrow> replay_finish fresh cid at now it (dispatch it) rows)"

section \<open>The queue as a map of histories\<close>

text \<open>What the queue promises: for each person, target and operation the failures since it last worked.\<close>

definition stuck :: "dead_letter list \<Rightarrow> dead_key \<rightharpoonup> (nat \<times> string) list" where
  "stuck rows k = map_option dd_attempts (find (\<lambda>r. dd_key r = k \<and> is_outstanding r) rows)"

definition noted :: "dead_key \<Rightarrow> (nat \<times> string) list \<Rightarrow> (dead_key \<rightharpoonup> (nat \<times> string) list) \<Rightarrow> (dead_key \<rightharpoonup> (nat \<times> string) list)" where
  "noted k h m = m(k \<mapsto> (case m k of None \<Rightarrow> h | Some h' \<Rightarrow> h' @ h))"

definition queue_ok :: "dead_letter list \<Rightarrow> bool" where
  "queue_ok rows = (distinct (map dd_id rows) \<and> distinct (map dd_key (filter is_outstanding rows)))"

lemma find_map_pred: "find P (map f xs) = map_option f (find (\<lambda>x. P (f x)) xs)"
  by (induction xs) auto

lemma stuck_Some:
  assumes "queue_ok rows"
  shows "stuck rows k = Some h \<longleftrightarrow> (\<exists>r\<in>set rows. dd_key r = k \<and> is_outstanding r \<and> dd_attempts r = h)"
proof
  assume "stuck rows k = Some h"
  then show "\<exists>r\<in>set rows. dd_key r = k \<and> is_outstanding r \<and> dd_attempts r = h"
    by (auto simp: stuck_def find_Some_iff)
next
  assume "\<exists>r\<in>set rows. dd_key r = k \<and> is_outstanding r \<and> dd_attempts r = h"
  then obtain r where r: "r \<in> set rows" "dd_key r = k" "is_outstanding r" "dd_attempts r = h" by blast
  then obtain r' where f: "find (\<lambda>r. dd_key r = k \<and> is_outstanding r) rows = Some r'"
    using find_None_iff[of "\<lambda>r. dd_key r = k \<and> is_outstanding r" rows] by fastforce
  then have r': "r' \<in> set rows" "dd_key r' = k" "is_outstanding r'" by (auto simp: find_Some_iff)
  have "inj_on dd_key (set (filter is_outstanding rows))" using assms by (simp add: queue_ok_def distinct_map)
  then have "r' = r" using r r' by (auto dest: inj_onD)
  with f r(4) show "stuck rows k = Some h" by (simp add: stuck_def)
qed

lemma option_ext: "(\<And>h. a = Some h \<longleftrightarrow> b = Some h) \<Longrightarrow> a = b"
  by (metis not_Some_eq)

lemma stuck_None: "stuck rows k = None \<longleftrightarrow> (\<forall>r\<in>set rows. dd_key r = k \<longrightarrow> \<not> is_outstanding r)"
  by (auto simp: stuck_def find_None_iff)

lemma extend_row_simps [simp]:
  "dd_key (extend_row payload h r) = dd_key r" "is_outstanding (extend_row payload h r) = is_outstanding r"
  "dd_id (extend_row payload h r) = dd_id r" "dd_attempts (extend_row payload h r) = dd_attempts r @ h"
  by (simp_all add: extend_row_def dd_key_def is_outstanding_def)

lemma new_row_simps [simp]:
  "dd_key (new_row fresh cid at k payload h) = k" "is_outstanding (new_row fresh cid at k payload h)"
  "dd_id (new_row fresh cid at k payload h) = fresh" "dd_attempts (new_row fresh cid at k payload h) = h"
  by (cases k; simp add: new_row_def dd_key_def is_outstanding_def)+

lemma record_dead_new:
  assumes "queue_ok rows" and "fresh \<notin> dd_id ` set rows" and "stuck rows k = None"
  shows "record_dead fresh cid at k payload attempts rows = (fresh, rows @ [new_row fresh cid at k payload (history attempts)])"
    and "queue_ok (rows @ [new_row fresh cid at k payload (history attempts)])"
    and "stuck (rows @ [new_row fresh cid at k payload (history attempts)]) = noted k (history attempts) (stuck rows)"
proof -
  have "find_existing k rows = None" using assms(3) by (simp add: find_existing_def stuck_def)
  then show "record_dead fresh cid at k payload attempts rows = (fresh, rows @ [new_row fresh cid at k payload (history attempts)])"
    by (simp add: record_dead_def record_write_def)
  show ok: "queue_ok (rows @ [new_row fresh cid at k payload (history attempts)])"
    using assms by (auto simp: queue_ok_def stuck_None)
  show "stuck (rows @ [new_row fresh cid at k payload (history attempts)]) = noted k (history attempts) (stuck rows)"
  proof
    fix k'
    show "stuck (rows @ [new_row fresh cid at k payload (history attempts)]) k' = noted k (history attempts) (stuck rows) k'"
    proof (cases "k' = k")
      case True
      have "stuck (rows @ [new_row fresh cid at k payload (history attempts)]) k = Some (history attempts)"
        unfolding stuck_Some[OF ok] by (rule bexI[of _ "new_row fresh cid at k payload (history attempts)"]) simp_all
      with True assms(3) show ?thesis by (simp add: noted_def)
    next
      case False
      have "stuck (rows @ [new_row fresh cid at k payload (history attempts)]) k' = stuck rows k'"
        by (rule option_ext) (use False in \<open>auto simp: stuck_Some[OF ok] stuck_Some[OF assms(1)]\<close>)
      with False show ?thesis by (simp add: noted_def)
    qed
  qed
qed

lemma record_dead_known:
  assumes "queue_ok rows" and "r \<in> set rows" and "dd_key r = k" and "is_outstanding r"
    and rows': "rows' = extend_at (dd_id r) payload (history attempts) rows"
  shows "record_dead fresh cid at k payload attempts rows = (dd_id r, rows')"
    and "queue_ok rows'" and "stuck rows' = noted k (history attempts) (stuck rows)"
proof -
  have ids: "x = r" if "x \<in> set rows" "dd_id x = dd_id r" for x
    using assms(1,2) that by (auto simp: queue_ok_def distinct_map dest: inj_onD)
  have keys: "x = r" if "x \<in> set rows" "is_outstanding x" "dd_key x = k" for x
    using assms(1-4) that by (auto simp: queue_ok_def distinct_map dest!: inj_onD)
  obtain r' where f: "find (\<lambda>r. dd_key r = k \<and> is_outstanding r) rows = Some r'"
    using assms(2-4) find_None_iff[of "\<lambda>r. dd_key r = k \<and> is_outstanding r" rows] by fastforce
  moreover from f have "r' = r" using keys by (auto simp: find_Some_iff)
  ultimately show "record_dead fresh cid at k payload attempts rows = (dd_id r, rows')"
    by (simp add: record_dead_def record_write_def find_existing_def rows' extend_at_def)
  have "map dd_id rows' = map dd_id rows" "map dd_key (filter is_outstanding rows') = map dd_key (filter is_outstanding rows)"
    by (auto simp: rows' extend_at_def filter_map comp_def intro!: arg_cong[of _ _ "map dd_key"] filter_cong)
  then show ok: "queue_ok rows'" using assms(1) by (simp add: queue_ok_def)
  have old: "stuck rows k = Some (dd_attempts r)" using stuck_Some[OF assms(1)] assms(2-4) by blast
  show "stuck rows' = noted k (history attempts) (stuck rows)"
  proof
    fix k'
    show "stuck rows' k' = noted k (history attempts) (stuck rows) k'"
    proof (cases "k' = k")
      case True
      have "extend_row payload (history attempts) r \<in> set rows'" using assms(2) by (auto simp: rows' extend_at_def image_iff)
      then have "stuck rows' k = Some (dd_attempts r @ history attempts)"
        unfolding stuck_Some[OF ok] using assms(3,4) by (intro bexI) auto
      with old True show ?thesis by (simp add: noted_def)
    next
      case False
      have apart: "dd_id x \<noteq> dd_id r" if "x \<in> set rows" "dd_key x = k'" for x using ids that False assms(3) by auto
      have "stuck rows' k' = stuck rows k'"
      proof (rule option_ext)
        fix h
        have "(\<exists>x\<in>set rows'. dd_key x = k' \<and> is_outstanding x \<and> dd_attempts x = h) \<longleftrightarrow>
            (\<exists>x\<in>set rows. dd_key x = k' \<and> is_outstanding x \<and> dd_attempts x = h)"
          using apart by (fastforce simp: rows' extend_at_def)
        then show "stuck rows' k' = Some h \<longleftrightarrow> stuck rows k' = Some h"
          by (simp add: stuck_Some[OF ok] stuck_Some[OF assms(1)])
      qed
      with False show ?thesis by (simp add: noted_def)
    qed
  qed
qed

lemma record_refines:
  assumes "queue_ok rows" and "fresh \<notin> dd_id ` set rows"
  shows "queue_ok (snd (record_dead fresh cid at k payload attempts rows)) \<and>
     stuck (snd (record_dead fresh cid at k payload attempts rows)) = noted k (history attempts) (stuck rows)"
proof (cases "stuck rows k")
  case None
  then show ?thesis using record_dead_new[OF assms] by simp
next
  case (Some h)
  then obtain r where "r \<in> set rows" "dd_key r = k" "is_outstanding r" using stuck_Some[OF assms(1)] by blast
  from record_dead_known[OF assms(1) this refl] show ?thesis by simp
qed

lemma replay_read_Some:
  assumes "queue_ok rows" and "replay_read i rows = Some it"
  obtains r where "r \<in> set rows" "dd_id r = i" "is_outstanding r" "it = to_item r" "item_key it = dd_key r"
proof -
  from assms(2) obtain r where f: "find (\<lambda>r. dd_id r = i) rows = Some r" and r: "dd_replayed_at r = None" "it = to_item r"
    by (auto simp: replay_read_def split: option.splits if_splits)
  from f have "r \<in> set rows" "dd_id r = i" by (auto simp: find_Some_iff)
  with r show thesis by (intro that[of r]) (simp_all add: is_outstanding_def to_item_def item_key_def dd_key_def)
qed

lemma ids_kept [simp]:
  "map dd_id (extend_at i payload h rows) = map dd_id rows" "map dd_id (mark_replayed i now rows) = map dd_id rows"
  by (simp_all add: extend_at_def mark_replayed_def)

lemma mark_replayed_ids [simp]: "dd_id ` set (mark_replayed i now rows) = dd_id ` set rows"
  by (metis ids_kept(2) list.set_map)

lemma mark_replayed_refines:
  assumes "queue_ok rows" and "r \<in> set rows" and "is_outstanding r"
  shows "queue_ok (mark_replayed (dd_id r) now rows)"
    and "stuck (mark_replayed (dd_id r) now rows) = (stuck rows)(dd_key r := None)"
proof -
  let ?rows = "mark_replayed (dd_id r) now rows"
  have ids: "x = r" if "x \<in> set rows" "dd_id x = dd_id r" for x
    using assms(1,2) that by (auto simp: queue_ok_def distinct_map dest: inj_onD)
  have keys: "x = r" if "x \<in> set rows" "is_outstanding x" "dd_key x = dd_key r" for x
    using assms that by (auto simp: queue_ok_def distinct_map dest!: inj_onD)
  have live: "filter is_outstanding ?rows = filter (\<lambda>x. is_outstanding x \<and> dd_id x \<noteq> dd_id r) rows"
    unfolding mark_replayed_def by (induction rows) (auto simp: is_outstanding_def)
  have "distinct (map dd_key (filter is_outstanding ?rows))"
    using assms(1) unfolding live queue_ok_def
    by (auto simp: distinct_map inj_on_def)
  then show ok: "queue_ok ?rows" using assms(1) by (simp add: queue_ok_def)
  have ids': "set (filter is_outstanding ?rows) = set (filter is_outstanding rows) - {r}"
    unfolding live using ids by auto
  show "stuck ?rows = (stuck rows)(dd_key r := None)"
  proof (rule ext, rule option_ext)
    fix k h
    have "stuck ?rows k = Some h \<longleftrightarrow> (\<exists>x\<in>set (filter is_outstanding ?rows). dd_key x = k \<and> dd_attempts x = h)"
      unfolding stuck_Some[OF ok] by auto
    also have "\<dots> \<longleftrightarrow> k \<noteq> dd_key r \<and> stuck rows k = Some h"
      unfolding ids' stuck_Some[OF assms(1)] using keys by auto
    finally show "stuck ?rows k = Some h \<longleftrightarrow> ((stuck rows)(dd_key r := None)) k = Some h" by auto
  qed
qed

text \<open>What replaying does to the abstract queue.\<close>

definition replayed :: "dead_key \<Rightarrow> dispatched \<Rightarrow> (dead_key \<rightharpoonup> (nat \<times> string) list) \<Rightarrow> (dead_key \<rightharpoonup> (nat \<times> string) list)" where
  "replayed k outcome m = (case outcome of
       Delivered \<Rightarrow> m(k := None)
     | GaveUp attempts \<Rightarrow> noted k (history attempts) m
     | Broke e \<Rightarrow> noted k [(1, e)] m)"

lemma replay_refines:
  assumes "queue_ok rows" and "fresh \<notin> dd_id ` set rows" and "replay_read i rows = Some it"
  shows "queue_ok (snd (replay fresh cid at now i dispatch rows)) \<and>
     stuck (snd (replay fresh cid at now i dispatch rows)) = replayed (item_key it) (dispatch it) (stuck rows)"
proof -
  obtain r where r: "r \<in> set rows" "dd_id r = i" "is_outstanding r" "it = to_item r" "item_key it = dd_key r"
    using replay_read_Some[OF assms(1,3)] by blast
  have it: "it_id it = dd_id r" using r(4) by (simp add: to_item_def)
  show ?thesis
    using record_refines[OF assms(1,2)] mark_replayed_refines[OF assms(1) r(1,3)] r(5) it
    by (cases "dispatch it") (simp_all add: replay_def assms(3) replay_finish_def replayed_def history_def)
qed

text \<open>C14. When its transactions do not overlap the queue is a map from person, target and operation to the
  failures since it last worked, with at most one item for each: recording appends to that history or
  starts it, a replay that delivers removes it, one that fails appends to it, a replay of an unknown or
  finished item changes nothing, and no row is ever removed.\<close>

theorem dead_letter_queue_refines:
  assumes "queue_ok rows" and "fresh \<notin> dd_id ` set rows"
  shows "let recorded = snd (record_dead fresh cid at k payload attempts rows);
             (worked, rows') = replay fresh cid at now i dispatch rows in
     queue_ok recorded \<and> stuck recorded = noted k (history attempts) (stuck rows) \<and> queue_ok rows' \<and>
     (case replay_read i rows of
        None \<Rightarrow> rows' = rows \<and> \<not> worked
      | Some it \<Rightarrow> stuck rows' = replayed (item_key it) (dispatch it) (stuck rows) \<and> worked = (dispatch it = Delivered)) \<and>
     set (map dd_id rows) \<subseteq> set (map dd_id rows')"
proof -
  have ids: "set (map dd_id rows) \<subseteq> set (map dd_id (snd (record_dead f c a q p as rows)))" for f c a q p as
    unfolding record_dead_def record_write_def by (cases "find_existing q rows") (auto simp del: list.set_map)
  show ?thesis
  proof (cases "replay_read i rows")
    case None
    then show ?thesis using record_refines[OF assms] assms(1) by (simp add: replay_def)
  next
    case (Some it)
    have "set (map dd_id rows) \<subseteq> set (map dd_id (snd (replay fresh cid at now i dispatch rows)))"
        "fst (replay fresh cid at now i dispatch rows) = (dispatch it = Delivered)"
      using ids by (cases "dispatch it"; simp add: replay_def Some replay_finish_def)+
    then show ?thesis using record_refines[OF assms] replay_refines[OF assms Some] Some by (simp add: Let_def case_prod_unfold)
  qed
qed

definition sample_dead :: dead_letter where
  "sample_dead = new_row ''1'' ''c'' 3 (''p'', ''ldap'', ''disable'') PNone [(1, ''down'')]"

theorem dead_letter_queue_refines_witness:
  "stuck (snd (record_dead ''2'' ''c'' 4 (''p'', ''ldap'', ''disable'') PNone [\<lparr>at_number = 1, at_error = ''late''\<rparr>] [sample_dead]))
     (''p'', ''ldap'', ''disable'') = Some [(1, ''down''), (1, ''late'')] \<and>
   stuck (snd (replay ''2'' ''c'' 4 5 ''1'' (\<lambda>it. Delivered) [sample_dead])) (''p'', ''ldap'', ''disable'') = None"
proof -
  have ok: "queue_ok [sample_dead]" by (simp add: queue_ok_def)
  have r: "replay_read ''1'' [sample_dead] = Some (to_item sample_dead)"
    by (simp add: replay_read_def sample_dead_def new_row_def)
  have k: "item_key (to_item sample_dead) = (''p'', ''ldap'', ''disable'')"
    by (simp add: item_key_def to_item_def sample_dead_def new_row_def)
  have s: "stuck [sample_dead] (''p'', ''ldap'', ''disable'') = Some [(1, ''down'')]"
    by (simp add: stuck_def sample_dead_def)
  have f: "''2'' \<notin> dd_id ` set [sample_dead]" by (simp add: sample_dead_def)
  from dead_letter_queue_refines[OF ok f, of "''c''" 4 "(''p'', ''ldap'', ''disable'')" PNone "[\<lparr>at_number = 1, at_error = ''late''\<rparr>]"
      5 "''1''" "\<lambda>it. Delivered"] r k s
  show ?thesis by (simp add: Let_def case_prod_unfold noted_def history_def replayed_def)
qed

section \<open>Overlapping transactions\<close>

text \<open>A replay that fails after another delivered the same item files a new one: the queue shows as stuck an
  account that was fixed, and holds two rows for one failure.\<close>

theorem replay_race_files_again:
  assumes "queue_ok rows" and "fresh \<notin> dd_id ` set rows" and "r \<in> set rows" and "is_outstanding r"
  shows "let rows1 = snd (replay_finish other cid at now (to_item r) Delivered rows);
             rows2 = snd (replay_finish fresh cid at now (to_item r) (GaveUp attempts) rows1) in
     stuck rows1 (dd_key r) = None \<and> stuck rows2 (dd_key r) = Some (history attempts) \<and> length rows2 = Suc (length rows)"
proof -
  let ?rows = "mark_replayed (dd_id r) now rows"
  note m = mark_replayed_refines[OF assms(1,3,4), of now]
  have k: "item_key (to_item r) = dd_key r" "it_id (to_item r) = dd_id r"
    by (simp_all add: item_key_def to_item_def dd_key_def)
  have "fresh \<notin> dd_id ` set ?rows" using assms(2) by simp
  from record_dead_new[OF m(1) this, of "dd_key r"] m(2) show ?thesis
    by (simp add: Let_def replay_finish_def k noted_def) (simp add: mark_replayed_def)
qed

theorem replay_race_files_again_witness:
  "length (snd (replay_finish ''2'' ''c'' 4 5 (to_item sample_dead) (GaveUp [])
     (snd (replay_finish ''2'' ''c'' 4 5 (to_item sample_dead) Delivered [sample_dead])))) = 2"
  using replay_race_files_again[of "[sample_dead]" "''2''" sample_dead "''2''" "''c''" 4 5 "[]"]
  by (simp add: queue_ok_def sample_dead_def Let_def)

text \<open>Nothing in the table forbids two items for one key: two first failures filed at once both find
  nothing and both insert.\<close>

theorem record_race_files_twice:
  assumes "stuck rows k = None" and "found = find_existing k rows"
  shows "let rows1 = snd (record_write a cid at k payload attempts found rows);
             rows2 = snd (record_write b cid at k payload attempts found rows1) in
     length (filter (\<lambda>r. dd_key r = k \<and> is_outstanding r) rows2) = 2"
proof -
  have "found = None" using assms by (simp add: find_existing_def stuck_def)
  moreover have "filter (\<lambda>r. dd_key r = k \<and> is_outstanding r) rows = []"
    using assms(1) by (auto simp: stuck_None filter_empty_conv)
  ultimately show ?thesis by (simp add: record_write_def Let_def)
qed

end
