(* ===== verification/Identity.thy ===== *)
theory Identity
  imports ReleasePolicy "HOL-Library.List_Lexorder" "HOL-Library.Char_ord"
begin

text \<open>
  The identity registry: its tables (\<open>campusid/identity/models.py\<close>), linking and allocation
  (\<open>campusid/identity/registry.py\<close>), and reading an upstream's statement (\<open>campusid/identity/assertions.py\<close>).

  A transaction is a function of the tables; \<open>id_commit\<close> is the verdict of the constraints, where a null
  scope equals nothing, as in PostgreSQL.  A query without an order takes rows in table order.  The new
  person's UUID, the random part of the opaque identifier and the clock are parameters; primary keys
  nothing reads are left out.  A date is its day number.
\<close>

definition ID_EPPN :: string where "ID_EPPN = ''eppn''"
definition ID_MAIL :: string where "ID_MAIL = ''mail''"
definition ID_UNIQUE :: string where "ID_UNIQUE = ''unique_id''"
definition STATUS_ACTIVE :: string where "STATUS_ACTIVE = ''active''"
definition MAX_EPPN_SUFFIX :: nat where "MAX_EPPN_SUFFIX = 999"

datatype link_basis = UNIQUE_ID_BASIS | EXISTING_ACCOUNT | EPPN_BASIS | CREATED | MANUAL_REVIEW

record person =
  pe_uuid :: string
  pe_unique_id :: string
  pe_display_name :: "string option"
  pe_given_name :: "string option"
  pe_surname :: "string option"
  pe_preferred_language :: "string option"
  pe_ferpa_suppressed :: bool
  pe_status :: string
  pe_source :: string
  pe_created_at :: int

record identifier_row =
  if_person :: string
  if_type :: string
  if_value :: string
  if_scope :: "string option"
  if_primary :: bool
  if_issued_at :: int
  if_released_at :: "int option"

record account =
  ac_person :: string
  ac_idp :: string
  ac_protocol :: string
  ac_subject :: string
  ac_confidence :: string
  ac_linked_at :: int
  ac_last_login_at :: "int option"

record affiliation_row =
  af_person :: string
  af_affiliation :: string
  af_primary :: bool
  af_org_unit :: "string option"
  af_valid_from :: int
  af_valid_until :: "int option"
  af_source :: string

record identity_db =
  ib_people :: "person list"
  ib_identifiers :: "identifier_row list"
  ib_accounts :: "account list"
  ib_affiliations :: "affiliation_row list"

datatype identity_error = IdentityRefused | IdentityValueError

section \<open>The constraints\<close>

definition fits :: "nat \<Rightarrow> string option \<Rightarrow> bool" where
  "fits n v = (case v of None \<Rightarrow> True | Some s \<Rightarrow> length s \<le> n)"

definition person_fits :: "person \<Rightarrow> bool" where
  "person_fits p = (length (pe_unique_id p) \<le> 255 \<and> fits 255 (pe_display_name p) \<and> fits 255 (pe_given_name p) \<and>
     fits 255 (pe_surname p) \<and> fits 35 (pe_preferred_language p) \<and> length (pe_status p) \<le> 16 \<and> length (pe_source p) \<le> 16)"

definition identifier_fits :: "string set \<Rightarrow> identifier_row \<Rightarrow> bool" where
  "identifier_fits people i = (if_person i \<in> people \<and> length (if_type i) \<le> 32 \<and> length (if_value i) \<le> 512 \<and> fits 255 (if_scope i))"

definition account_fits :: "string set \<Rightarrow> account \<Rightarrow> bool" where
  "account_fits people a = (ac_person a \<in> people \<and> length (ac_idp a) \<le> 1024 \<and> length (ac_protocol a) \<le> 8 \<and>
     length (ac_subject a) \<le> 512)"

definition affiliation_fits :: "string set \<Rightarrow> affiliation_row \<Rightarrow> bool" where
  "affiliation_fits people a = (af_person a \<in> people \<and> length (af_affiliation a) \<le> 32 \<and> fits 255 (af_org_unit a) \<and> length (af_source a) \<le> 16)"

definition if_key :: "identifier_row \<Rightarrow> string \<times> string \<times> string option" where
  "if_key i = (if_type i, if_value i, if_scope i)"

definition ac_key :: "account \<Rightarrow> string \<times> string" where
  "ac_key a = (ac_idp a, ac_subject a)"

definition id_ok :: "identity_db \<Rightarrow> bool" where
  "id_ok db = (let people = set (map pe_uuid (ib_people db)) in
     list_all person_fits (ib_people db) \<and> distinct (map pe_uuid (ib_people db)) \<and> distinct (map pe_unique_id (ib_people db)) \<and>
     list_all (identifier_fits people) (ib_identifiers db) \<and>
     distinct (map if_key (filter (\<lambda>i. if_scope i \<noteq> None) (ib_identifiers db))) \<and>
     list_all (account_fits people) (ib_accounts db) \<and> distinct (map ac_key (ib_accounts db)) \<and>
     list_all (affiliation_fits people) (ib_affiliations db))"

definition id_commit :: "identity_db \<Rightarrow> (identity_error, identity_db) result" where
  "id_commit db = (if id_ok db then Ok db else Err IdentityRefused)"

section \<open>Assertions\<close>

record assertion =
  sr_idp :: string
  sr_protocol :: string
  sr_subject :: string
  sr_unique_id :: "string option"
  sr_eppn :: "string option"
  sr_mail :: "string option"
  sr_display_name :: "string option"
  sr_given_name :: "string option"
  sr_surname :: "string option"

record resolution =
  rs_person :: "string option"
  rs_basis :: link_basis

definition res_linked :: "resolution \<Rightarrow> bool" where
  "res_linked r = (rs_person r \<noteq> None)"

definition first_value :: "(string \<times> string list) list \<Rightarrow> string \<Rightarrow> string option" where
  "first_value attributes name = (case map_of attributes name of Some (v # _) \<Rightarrow> Some v | _ \<Rightarrow> None)"

definition from_saml :: "string \<Rightarrow> string \<Rightarrow> (string \<times> string list) list \<Rightarrow> assertion" where
  "from_saml issuer name_id as = \<lparr>sr_idp = issuer, sr_protocol = ''saml'', sr_subject = name_id,
     sr_unique_id = first_value as UNIQUE_ID, sr_eppn = first_value as EPPN, sr_mail = first_value as MAIL,
     sr_display_name = first_value as DISPLAY_NAME, sr_given_name = first_value as GIVEN_NAME, sr_surname = first_value as SURNAME\<rparr>"

definition claim :: "dict \<Rightarrow> string \<Rightarrow> string option" where
  "claim claims name = (case map_of claims name of
       Some (PStr s) \<Rightarrow> if s = [] then None else Some s
     | Some (PList (PStr s # _)) \<Rightarrow> if s = [] then None else Some s
     | _ \<Rightarrow> None)"

definition from_claims :: "string \<Rightarrow> string \<Rightarrow> dict \<Rightarrow> assertion" where
  "from_claims issuer subject claims = \<lparr>sr_idp = issuer, sr_protocol = ''oidc'', sr_subject = subject,
     sr_unique_id = claim claims ''eduperson_unique_id'',
     sr_eppn = (case claim claims ''eduperson_principal_name'' of Some v \<Rightarrow> Some v | None \<Rightarrow> claim claims ''preferred_username''),
     sr_mail = claim claims ''email'', sr_display_name = claim claims ''name'', sr_given_name = claim claims ''given_name'',
     sr_surname = claim claims ''family_name''\<rparr>"

section \<open>Matching\<close>

definition given_text :: "string option \<Rightarrow> string option" where
  "given_text v = (case v of Some s \<Rightarrow> if s = [] then None else Some s | None \<Rightarrow> None)"

definition scope_of :: "string \<Rightarrow> string option" where
  "scope_of eppn = (case py_rpartition (CHR ''@'') eppn of (_, found, scope) \<Rightarrow> if found then Some (py_lower scope) else None)"

definition find_person :: "identity_db \<Rightarrow> string \<Rightarrow> person option" where
  "find_person db u = find (\<lambda>p. pe_uuid p = u) (ib_people db)"

definition find_live :: "identity_db \<Rightarrow> string \<Rightarrow> string \<Rightarrow> identifier_row option" where
  "find_live db ty v = find (\<lambda>i. if_type i = ty \<and> if_value i = v \<and> if_released_at i = None) (ib_identifiers db)"

definition by_asserted_unique_id :: "identity_db \<Rightarrow> string option \<Rightarrow> person option" where
  "by_asserted_unique_id db unique_id = Option.bind (given_text unique_id) (\<lambda>v.
     Option.bind (find_live db ID_UNIQUE v) (\<lambda>i. find_person db (if_person i)))"

definition by_live_eppn :: "identity_db \<Rightarrow> string option \<Rightarrow> person option" where
  "by_live_eppn db eppn = Option.bind (given_text eppn) (\<lambda>v.
     Option.bind (find_live db ID_EPPN (py_lower v)) (\<lambda>i.
     Option.bind (find_person db (if_person i)) (\<lambda>p. if pe_status p \<noteq> STATUS_ACTIVE then None else Some p)))"

definition mail_only_match :: "identity_db \<Rightarrow> string option \<Rightarrow> bool" where
  "mail_only_match db mail = (case given_text mail of None \<Rightarrow> False | Some m \<Rightarrow> find_live db ID_MAIL (py_lower m) \<noteq> None)"

definition identifier_taken :: "identity_db \<Rightarrow> string \<Rightarrow> string \<Rightarrow> bool" where
  "identifier_taken db ty v = (\<exists>i\<in>set (ib_identifiers db). if_type i = ty \<and> if_value i = v)"

section \<open>Linking\<close>

definition add_identifier :: "identifier_row \<Rightarrow> identity_db \<Rightarrow> identity_db" where
  "add_identifier i db = db\<lparr>ib_identifiers := ib_identifiers db @ [i]\<rparr>"

definition issued :: "string \<Rightarrow> string \<Rightarrow> string \<Rightarrow> string option \<Rightarrow> bool \<Rightarrow> int \<Rightarrow> identifier_row" where
  "issued p ty v scope primary now = \<lparr>if_person = p, if_type = ty, if_value = v, if_scope = scope, if_primary = primary,
     if_issued_at = now, if_released_at = None\<rparr>"

definition suffixed :: "string \<Rightarrow> string option \<Rightarrow> nat \<Rightarrow> string" where
  "suffixed local scope n = (case scope of
       Some s \<Rightarrow> if s = [] then local @ show_nat n else local @ show_nat n @ ''@'' @ s
     | None \<Rightarrow> local @ show_nat n)"

definition claim_eppn :: "identity_db \<Rightarrow> string \<Rightarrow> string \<Rightarrow> int \<Rightarrow> identity_db" where
  "claim_eppn db p asserted now =
     (let v = py_lower asserted; scope = scope_of v in
      if \<not> identifier_taken db ID_EPPN v then add_identifier (issued p ID_EPPN v scope True now) db
      else let local = fst (py_rpartition (CHR ''@'') v) in
        case find (\<lambda>n. \<not> identifier_taken db ID_EPPN (suffixed local scope n)) [2..<Suc MAX_EPPN_SUFFIX] of
          Some n \<Rightarrow> add_identifier (issued p ID_EPPN (suffixed local scope n) scope True now) db
        | None \<Rightarrow> db)"

definition new_unique_id :: "string \<Rightarrow> string \<Rightarrow> string" where
  "new_unique_id token scope = token @ ''@'' @ scope"

definition create_person :: "string \<Rightarrow> string \<Rightarrow> string \<Rightarrow> int \<Rightarrow> assertion \<Rightarrow> identity_db \<Rightarrow> identity_db" where
  "create_person scope fresh token now a db =
     (let unique = new_unique_id token scope;
          person = \<lparr>pe_uuid = fresh, pe_unique_id = unique, pe_display_name = sr_display_name a, pe_given_name = sr_given_name a,
            pe_surname = sr_surname a, pe_preferred_language = None, pe_ferpa_suppressed = False, pe_status = STATUS_ACTIVE, pe_source = ''jit'', pe_created_at = now\<rparr>;
          db1 = db\<lparr>ib_people := ib_people db @ [person]\<rparr>;
          db2 = (case given_text (sr_unique_id a) of
              None \<Rightarrow> db1 | Some u \<Rightarrow> add_identifier (issued fresh ID_UNIQUE u (scope_of u) False now) db1);
          db3 = claim_eppn db2 fresh (case given_text (sr_eppn a) of Some e \<Rightarrow> e | None \<Rightarrow> unique) now in
      case given_text (sr_mail a) of
        None \<Rightarrow> db3
      | Some m \<Rightarrow> if identifier_taken db3 ID_MAIL (py_lower m) then db3
          else add_identifier (issued fresh ID_MAIL (py_lower m) None True now) db3)"

definition touch_account :: "string \<Rightarrow> assertion \<Rightarrow> link_basis \<Rightarrow> int \<Rightarrow> identity_db \<Rightarrow> identity_db" where
  "touch_account p a basis now db = db\<lparr>ib_accounts := ib_accounts db @ [\<lparr>ac_person = p, ac_idp = sr_idp a, ac_protocol = sr_protocol a,
     ac_subject = sr_subject a, ac_confidence = (if basis = EPPN_BASIS then ''medium'' else ''high''), ac_linked_at = now,
     ac_last_login_at = Some now\<rparr>]\<rparr>"

definition find_account :: "identity_db \<Rightarrow> assertion \<Rightarrow> account option" where
  "find_account db a = find (\<lambda>x. ac_idp x = sr_idp a \<and> ac_subject x = sr_subject a) (ib_accounts db)"

definition logged_in :: "assertion \<Rightarrow> int \<Rightarrow> identity_db \<Rightarrow> identity_db" where
  "logged_in a now db = db\<lparr>ib_accounts := map (\<lambda>x. if ac_idp x = sr_idp a \<and> ac_subject x = sr_subject a
     then x\<lparr>ac_last_login_at := Some now\<rparr> else x) (ib_accounts db)\<rparr>"

definition link_result :: "string option \<Rightarrow> link_basis \<Rightarrow> identity_db \<Rightarrow> (identity_error, resolution \<times> identity_db) result" where
  "link_result p basis db = rbind (id_commit db) (\<lambda>db'. Ok (\<lparr>rs_person = p, rs_basis = basis\<rparr>, db'))"

definition resolve ::
  "string \<Rightarrow> string \<Rightarrow> string \<Rightarrow> int \<Rightarrow> assertion \<Rightarrow> identity_db \<Rightarrow> (identity_error, resolution \<times> identity_db) result" where
  "resolve scope fresh token now a db = (case by_asserted_unique_id db (sr_unique_id a) of
       Some p \<Rightarrow> link_result (Some (pe_uuid p)) UNIQUE_ID_BASIS (touch_account (pe_uuid p) a UNIQUE_ID_BASIS now db)
     | None \<Rightarrow> (case find_account db a of
       Some x \<Rightarrow> link_result (Some (ac_person x)) EXISTING_ACCOUNT (logged_in a now db)
     | None \<Rightarrow> (case by_live_eppn db (sr_eppn a) of
       Some p \<Rightarrow> link_result (Some (pe_uuid p)) EPPN_BASIS (touch_account (pe_uuid p) a EPPN_BASIS now db)
     | None \<Rightarrow> if mail_only_match db (sr_mail a) then Ok (\<lparr>rs_person = None, rs_basis = MANUAL_REVIEW\<rparr>, db)
         else link_result (Some fresh) CREATED (touch_account fresh a CREATED now (create_person scope fresh token now a db)))))"

section \<open>Identifiers, people and affiliations\<close>

definition allocate_eppn :: "string \<Rightarrow> string \<Rightarrow> string \<Rightarrow> int \<Rightarrow> identity_db \<Rightarrow> (identity_error, string \<times> identity_db) result" where
  "allocate_eppn scope p local_part at db =
     (let base = py_lower (py_strip local_part);
          candidate = (\<lambda>n. if n = 1 then base @ ''@'' @ scope else base @ show_nat n @ ''@'' @ scope) in
      if base = [] then Err IdentityValueError
      else case find (\<lambda>n. \<not> identifier_taken db ID_EPPN (candidate n)) [1..<Suc MAX_EPPN_SUFFIX] of
        None \<Rightarrow> Err IdentityValueError
      | Some n \<Rightarrow> rbind (id_commit (add_identifier (issued p ID_EPPN (candidate n) (Some scope) True at) db))
          (\<lambda>db'. Ok (candidate n, db')))"

text \<open>The one row \<open>scalar\<close> picks is updated.\<close>

fun update_first :: "('a \<Rightarrow> bool) \<Rightarrow> ('a \<Rightarrow> 'a) \<Rightarrow> 'a list \<Rightarrow> 'a list" where
  "update_first P f [] = []"
| "update_first P f (x # xs) = (if P x then f x # xs else x # update_first P f xs)"

definition release_identifier :: "string \<Rightarrow> string \<Rightarrow> string \<Rightarrow> int \<Rightarrow> identity_db \<Rightarrow> identity_db" where
  "release_identifier p ty v now db = db\<lparr>ib_identifiers := update_first
     (\<lambda>i. if_person i = p \<and> if_type i = ty \<and> if_value i = py_lower v \<and> if_released_at i = None)
     (\<lambda>i. i\<lparr>if_released_at := Some now, if_primary := False\<rparr>) (ib_identifiers db)\<rparr>"

definition identifiers :: "identity_db \<Rightarrow> string \<Rightarrow> bool \<Rightarrow> identifier_row list" where
  "identifiers db p include_released = sort_key if_issued_at
     (filter (\<lambda>i. if_person i = p \<and> (include_released \<or> if_released_at i = None)) (ib_identifiers db))"

definition person_for :: "identity_db \<Rightarrow> string \<Rightarrow> string option" where
  "person_for db eppn = map_option pe_uuid (by_live_eppn db (Some eppn))"

definition set_status :: "string \<Rightarrow> string \<Rightarrow> identity_db \<Rightarrow> (identity_error, identity_db) result" where
  "set_status p status db = (if find_person db p = None then Err IdentityValueError
     else id_commit (db\<lparr>ib_people := map (\<lambda>x. if pe_uuid x = p then x\<lparr>pe_status := status\<rparr> else x) (ib_people db)\<rparr>))"

definition accounts_of :: "identity_db \<Rightarrow> string \<Rightarrow> account list" where
  "accounts_of db p = sort_key ac_linked_at (filter (\<lambda>a. ac_person a = p) (ib_accounts db))"

definition add_affiliation ::
  "string \<Rightarrow> string \<Rightarrow> int \<Rightarrow> string option \<Rightarrow> bool \<Rightarrow> string \<Rightarrow> identity_db \<Rightarrow> (identity_error, identity_db) result" where
  "add_affiliation p affiliation from org_unit primary source db =
     (if affiliation \<notin> AFFILIATION_VOCABULARY then Err IdentityValueError
      else id_commit (db\<lparr>ib_affiliations := ib_affiliations db @ [\<lparr>af_person = p, af_affiliation = affiliation, af_primary = primary,
        af_org_unit = org_unit, af_valid_from = from, af_valid_until = None, af_source = source\<rparr>]\<rparr>))"

definition end_affiliation :: "string \<Rightarrow> string \<Rightarrow> int \<Rightarrow> identity_db \<Rightarrow> identity_db" where
  "end_affiliation p affiliation on db = db\<lparr>ib_affiliations := map (\<lambda>r.
     if af_person r = p \<and> af_affiliation r = affiliation \<and> af_valid_until r = None then r\<lparr>af_valid_until := Some on\<rparr> else r)
     (ib_affiliations db)\<rparr>"

definition affiliations_on :: "identity_db \<Rightarrow> string \<Rightarrow> int \<Rightarrow> string list" where
  "affiliations_on db p d = sorted_set (map af_affiliation (filter (\<lambda>r. af_person r = p \<and> af_valid_from r \<le> d \<and>
     (case af_valid_until r of None \<Rightarrow> True | Some u \<Rightarrow> d < u)) (ib_affiliations db)))"

section \<open>Who a login is\<close>

lemma id_commit_Ok: "id_commit db = Ok db' \<longleftrightarrow> id_ok db \<and> db' = db"
  by (auto simp: id_commit_def)

lemma link_result_Ok: "link_result p basis db = Ok (r, db') \<longleftrightarrow> id_ok db \<and> db' = db \<and> r = \<lparr>rs_person = p, rs_basis = basis\<rparr>"
  by (auto simp: link_result_def rbind_eq_Ok id_commit_Ok)

lemma given_text_Some: "given_text v = Some s \<longleftrightarrow> v = Some s \<and> s \<noteq> []"
  by (auto simp: given_text_def split: option.splits)

lemma find_live_Some:
  "find_live db ty v = Some i \<Longrightarrow> i \<in> set (ib_identifiers db) \<and> if_type i = ty \<and> if_value i = v \<and> if_released_at i = None"
  by (auto simp: find_live_def find_Some_iff)

lemma find_person_Some: "find_person db u = Some p \<Longrightarrow> p \<in> set (ib_people db) \<and> pe_uuid p = u"
  by (auto simp: find_person_def find_Some_iff)

lemma find_account_Some:
  "find_account db a = Some x \<Longrightarrow> x \<in> set (ib_accounts db) \<and> ac_idp x = sr_idp a \<and> ac_subject x = sr_subject a"
  by (auto simp: find_account_def find_Some_iff)

lemma by_unique_id_Some:
  assumes "by_asserted_unique_id db v = Some p"
  obtains i where "i \<in> set (ib_identifiers db)" "if_type i = ID_UNIQUE" "v = Some (if_value i)" "if_released_at i = None"
    "p \<in> set (ib_people db)" "pe_uuid p = if_person i"
  using assms that by (auto simp: by_asserted_unique_id_def given_text_Some bind_eq_Some_conv dest!: find_live_Some find_person_Some)

lemma by_live_eppn_Some:
  assumes "by_live_eppn db v = Some p"
  obtains i e where "i \<in> set (ib_identifiers db)" "if_type i = ID_EPPN" "v = Some e" "if_value i = py_lower e" "if_released_at i = None"
    "p \<in> set (ib_people db)" "pe_uuid p = if_person i" "pe_status p = STATUS_ACTIVE"
  using assms that
  by (auto simp: by_live_eppn_def given_text_Some bind_eq_Some_conv dest!: find_live_Some find_person_Some split: if_splits)

lemma created_people:
  "ib_people (touch_account q b basis now (create_person scope fresh token now a db)) = ib_people db @
     [\<lparr>pe_uuid = fresh, pe_unique_id = new_unique_id token scope, pe_display_name = sr_display_name a, pe_given_name = sr_given_name a,
       pe_surname = sr_surname a, pe_preferred_language = None, pe_ferpa_suppressed = False, pe_status = STATUS_ACTIVE,
       pe_source = ''jit'', pe_created_at = now\<rparr>]"
  by (simp add: touch_account_def create_person_def claim_eppn_def add_identifier_def Let_def split: option.split)

text \<open>What each outcome of \<open>resolve\<close> rests on.\<close>

definition link_evidence :: "identity_db \<Rightarrow> string \<Rightarrow> assertion \<Rightarrow> resolution \<Rightarrow> bool" where
  "link_evidence db fresh a r = (case rs_basis r of
       UNIQUE_ID_BASIS \<Rightarrow> \<exists>i\<in>set (ib_identifiers db). if_type i = ID_UNIQUE \<and> sr_unique_id a = Some (if_value i) \<and>
         if_released_at i = None \<and> rs_person r = Some (if_person i)
     | EXISTING_ACCOUNT \<Rightarrow> \<exists>x\<in>set (ib_accounts db). ac_idp x = sr_idp a \<and> ac_subject x = sr_subject a \<and> rs_person r = Some (ac_person x)
     | EPPN_BASIS \<Rightarrow> \<exists>i\<in>set (ib_identifiers db). \<exists>p\<in>set (ib_people db). if_type i = ID_EPPN \<and>
         map_option py_lower (sr_eppn a) = Some (if_value i) \<and> if_released_at i = None \<and> pe_uuid p = if_person i \<and>
         pe_status p = STATUS_ACTIVE \<and> rs_person r = Some (pe_uuid p)
     | CREATED \<Rightarrow> rs_person r = Some fresh \<and> fresh \<notin> set (map pe_uuid (ib_people db))
     | MANUAL_REVIEW \<Rightarrow> rs_person r = None \<and> mail_only_match db (sr_mail a))"

text \<open>C12. A login is matched on evidence and in order.  A resolution names the owner of a live identifier with the
  asserted unique id, or the owner of an account with this issuer and subject, or an active person with
  the asserted ePPN live, or somebody entirely new; weaker evidence is used only when the stronger is
  absent, and a matching email address alone links to nobody and changes nothing.\<close>

theorem resolve_sound:
  assumes "resolve scope fresh token now a db = Ok (r, db')"
  shows "link_evidence db fresh a r \<and>
     (rs_basis r \<noteq> UNIQUE_ID_BASIS \<longrightarrow> by_asserted_unique_id db (sr_unique_id a) = None) \<and>
     (rs_basis r \<notin> {UNIQUE_ID_BASIS, EXISTING_ACCOUNT} \<longrightarrow> find_account db a = None) \<and>
     (rs_basis r \<in> {CREATED, MANUAL_REVIEW} \<longrightarrow> by_live_eppn db (sr_eppn a) = None) \<and>
     (rs_basis r = MANUAL_REVIEW \<longleftrightarrow> \<not> res_linked r) \<and> (\<not> res_linked r \<longrightarrow> db' = db)"
proof (cases "by_asserted_unique_id db (sr_unique_id a)")
  case (Some p)
  then have "r = \<lparr>rs_person = Some (pe_uuid p), rs_basis = UNIQUE_ID_BASIS\<rparr>" using assms by (simp add: resolve_def link_result_Ok)
  with Some show ?thesis by (auto simp: link_evidence_def res_linked_def elim!: by_unique_id_Some)
next
  case u: None
  show ?thesis
  proof (cases "find_account db a")
    case (Some x)
    then have "r = \<lparr>rs_person = Some (ac_person x), rs_basis = EXISTING_ACCOUNT\<rparr>" using assms u by (simp add: resolve_def link_result_Ok)
    with u Some find_account_Some[OF Some] show ?thesis by (auto simp: link_evidence_def res_linked_def)
  next
    case acc: None
    show ?thesis
    proof (cases "by_live_eppn db (sr_eppn a)")
      case (Some p)
      then have "r = \<lparr>rs_person = Some (pe_uuid p), rs_basis = EPPN_BASIS\<rparr>" using assms u acc by (simp add: resolve_def link_result_Ok)
      with u acc Some show ?thesis by (auto simp: link_evidence_def res_linked_def elim!: by_live_eppn_Some)
    next
      case None
      show ?thesis
      proof (cases "mail_only_match db (sr_mail a)")
        case True
        then show ?thesis using assms u acc None by (auto simp: resolve_def link_evidence_def res_linked_def)
      next
        case False
        then have r: "r = \<lparr>rs_person = Some fresh, rs_basis = CREATED\<rparr>"
            "id_ok (touch_account fresh a CREATED now (create_person scope fresh token now a db))"
          using assms u acc None by (simp_all add: resolve_def link_result_Ok)
        then have "fresh \<notin> set (map pe_uuid (ib_people db))" by (simp add: id_ok_def Let_def created_people)
        with r(1) u acc None show ?thesis by (simp add: link_evidence_def res_linked_def)
      qed
    qed
  qed
qed

definition no_identities :: identity_db where
  "no_identities = \<lparr>ib_people = [], ib_identifiers = [], ib_accounts = [], ib_affiliations = []\<rparr>"

definition ada :: "string option \<Rightarrow> assertion" where
  "ada unique = \<lparr>sr_idp = ''idp'', sr_protocol = ''saml'', sr_subject = ''n1'', sr_unique_id = unique, sr_eppn = Some ''Ada@c'',
     sr_mail = Some ''ada@c'', sr_display_name = None, sr_given_name = None, sr_surname = None\<rparr>"

definition first_login :: "string option \<Rightarrow> resolution \<times> identity_db" where
  "first_login unique = (case resolve ''c'' ''u1'' ''t'' 5 (ada unique) no_identities of Inr x \<Rightarrow> x | Inl e \<Rightarrow> (\<lparr>rs_person = None, rs_basis = MANUAL_REVIEW\<rparr>, no_identities))"

lemma first_login_made:
  "resolve ''c'' ''u1'' ''t'' 5 (ada (Some ''x@i'')) no_identities = Ok (first_login (Some ''x@i''))"
  "fst (first_login (Some ''x@i'')) = \<lparr>rs_person = Some ''u1'', rs_basis = CREATED\<rparr>"
  by code_simp+

theorem resolve_sound_witness:
  "\<exists>r db. resolve ''c'' ''u1'' ''t'' 5 (ada (Some ''x@i'')) no_identities = Ok (r, db) \<and> rs_person r = Some ''u1'' \<and>
     link_evidence no_identities ''u1'' (ada (Some ''x@i'')) r"
proof -
  obtain r db where f: "first_login (Some ''x@i'') = (r, db)" by (cases "first_login (Some ''x@i'')")
  have "resolve ''c'' ''u1'' ''t'' 5 (ada (Some ''x@i'')) no_identities = Ok (r, db)" using first_login_made(1) f by simp
  from resolve_sound[OF this] this show ?thesis using first_login_made(2) f by auto
qed

text \<open>Somebody matched by their unique id can sign in once per issuer and subject: the second time, the code
  adds the account it already has, the database refuses the row, and the login fails.\<close>

theorem second_login_by_unique_id_refused:
  assumes "by_asserted_unique_id db (sr_unique_id a) = Some p" and "find_account db a = Some x"
  shows "resolve scope fresh token now a db = Err IdentityRefused"
proof -
  have "ac_key x = (sr_idp a, sr_subject a)" "x \<in> set (ib_accounts db)"
    using find_account_Some[OF assms(2)] by (simp_all add: ac_key_def)
  then have "(sr_idp a, sr_subject a) \<in> ac_key ` set (ib_accounts db)" by (metis imageI)
  then have "\<not> distinct (map ac_key (ib_accounts (touch_account (pe_uuid p) a UNIQUE_ID_BASIS now db)))"
    by (simp add: touch_account_def ac_key_def)
  then have "\<not> id_ok (touch_account (pe_uuid p) a UNIQUE_ID_BASIS now db)" unfolding id_ok_def Let_def by blast
  then show ?thesis using assms(1) by (simp add: resolve_def link_result_def id_commit_def)
qed

theorem second_login_by_unique_id_refused_witness:
  "resolve ''c'' ''u1'' ''t'' 5 (ada (Some ''x@i'')) no_identities = Ok (first_login (Some ''x@i'')) \<and>
   resolve ''c'' ''u2'' ''s'' 6 (ada (Some ''x@i'')) (snd (first_login (Some ''x@i''))) = Err IdentityRefused"
proof -
  have "by_asserted_unique_id (snd (first_login (Some ''x@i''))) (sr_unique_id (ada (Some ''x@i''))) \<noteq> None"
    "find_account (snd (first_login (Some ''x@i''))) (ada (Some ''x@i'')) \<noteq> None"
    by code_simp+
  then show ?thesis using second_login_by_unique_id_refused first_login_made(1) by blast
qed

text \<open>Only the ePPN rule asks whether a person is active.  Whoever has signed in before is resolved again
  whatever their status: a leaver keeps the way in they used.\<close>

theorem inactive_person_resolves:
  assumes "id_ok (logged_in a now db)" and "by_asserted_unique_id db (sr_unique_id a) = None" and "find_account db a = Some x"
  shows "\<exists>db'. resolve scope fresh token now a db = Ok (\<lparr>rs_person = Some (ac_person x), rs_basis = EXISTING_ACCOUNT\<rparr>, db')"
  using assms by (simp add: resolve_def link_result_def id_commit_def)

definition deactivated :: "identity_db \<Rightarrow> identity_db" where
  "deactivated db = (case set_status ''u1'' ''deactivated'' db of Inr db' \<Rightarrow> db' | Inl e \<Rightarrow> db)"

theorem inactive_person_resolves_witness:
  "map pe_status (ib_people (deactivated (snd (first_login None)))) = [''deactivated''] \<and>
   (\<exists>db'. resolve ''c'' ''u2'' ''s'' 6 (ada None) (deactivated (snd (first_login None))) =
      Ok (\<lparr>rs_person = Some ''u1'', rs_basis = EXISTING_ACCOUNT\<rparr>, db'))"
proof -
  have facts: "map pe_status (ib_people (deactivated (snd (first_login None)))) = [''deactivated'']"
    "id_ok (logged_in (ada None) 6 (deactivated (snd (first_login None))))"
    "by_asserted_unique_id (deactivated (snd (first_login None))) (sr_unique_id (ada None)) = None"
    "map_option ac_person (find_account (deactivated (snd (first_login None))) (ada None)) = Some ''u1''"
    by code_simp+
  then obtain x where x: "find_account (deactivated (snd (first_login None))) (ada None) = Some x" "ac_person x = ''u1''" by auto
  from inactive_person_resolves[OF facts(2,3) x(1), of "''c''" "''u2''" "''s''"] facts(1) x(2) show ?thesis by simp
qed

text \<open>The second holder of an ePPN without a scope loses the name: with no separator the part before it is
  empty, and the person is called by the suffix alone.\<close>

theorem unscoped_eppn_loses_its_name:
  assumes "CHR ''@'' \<notin> set (py_lower v)" and "identifier_taken db ID_EPPN (py_lower v)" and "\<not> identifier_taken db ID_EPPN ''2''"
  shows "claim_eppn db p v now = add_identifier (issued p ID_EPPN ''2'' None True now) db"
proof -
  have two: "show_nat 2 = ''2''" by code_simp
  have "[2..<Suc MAX_EPPN_SUFFIX] = 2 # [3..<Suc MAX_EPPN_SUFFIX]" by (simp add: MAX_EPPN_SUFFIX_def upt_conv_Cons)
  then show ?thesis
    using assms by (simp add: claim_eppn_def Let_def scope_of_def py_rpartition_def suffixed_def two)
qed

theorem unscoped_eppn_loses_its_name_witness:
  "claim_eppn (add_identifier (issued ''u1'' ID_EPPN ''jsmith'' None True 1) no_identities) ''u2'' ''JSmith'' 2 =
     add_identifier (issued ''u2'' ID_EPPN ''2'' None True 2) (add_identifier (issued ''u1'' ID_EPPN ''jsmith'' None True 1) no_identities)"
proof -
  let ?db = "add_identifier (issued ''u1'' ID_EPPN ''jsmith'' None True 1) no_identities"
  have "CHR ''@'' \<notin> set (py_lower ''JSmith'')" "identifier_taken ?db ID_EPPN (py_lower ''JSmith'')" "\<not> identifier_taken ?db ID_EPPN ''2''"
    by code_simp+
  then show ?thesis by (rule unscoped_eppn_loses_its_name)
qed

section \<open>An ePPN belongs to one person for ever\<close>

definition eppn_names :: "identity_db \<Rightarrow> (string \<times> string) list" where
  "eppn_names db = map (\<lambda>i. (if_value i, if_person i)) (filter (\<lambda>i. if_type i = ID_EPPN) (ib_identifiers db))"

definition eppns_grow :: "identity_db \<Rightarrow> identity_db \<Rightarrow> bool" where
  "eppns_grow db db' = (\<exists>new. eppn_names db' = eppn_names db @ new \<and>
     (distinct (map fst (eppn_names db)) \<longrightarrow> distinct (map fst (eppn_names db'))))"

lemma eppns_grow_refl [simp]: "eppn_names db' = eppn_names db \<Longrightarrow> eppns_grow db db'"
  by (simp add: eppns_grow_def)

lemma eppns_grow_trans: "eppns_grow a b \<Longrightarrow> eppns_grow b c \<Longrightarrow> eppns_grow a c"
  by (auto simp: eppns_grow_def)

lemma eppn_names_updates [simp]:
  "eppn_names (db\<lparr>ib_people := ps\<rparr>) = eppn_names db" "eppn_names (db\<lparr>ib_accounts := as\<rparr>) = eppn_names db"
  "eppn_names (db\<lparr>ib_affiliations := fs\<rparr>) = eppn_names db"
  by (simp_all add: eppn_names_def)

lemma identifier_taken_names: "identifier_taken db ID_EPPN v \<longleftrightarrow> v \<in> fst ` set (eppn_names db)"
  by (force simp: identifier_taken_def eppn_names_def)

lemma add_identifier_grow:
  "if_type i \<noteq> ID_EPPN \<or> \<not> identifier_taken db ID_EPPN (if_value i) \<Longrightarrow> eppns_grow db (add_identifier i db)"
proof -
  assume a: "if_type i \<noteq> ID_EPPN \<or> \<not> identifier_taken db ID_EPPN (if_value i)"
  have "eppn_names (add_identifier i db) = eppn_names db @ (if if_type i = ID_EPPN then [(if_value i, if_person i)] else [])"
    by (simp add: eppn_names_def add_identifier_def)
  with a show ?thesis by (auto simp: identifier_taken_names eppns_grow_def)
qed

lemma issued_simps [simp]: "if_type (issued p ty v sc pr now) = ty" "if_value (issued p ty v sc pr now) = v"
  by (simp_all add: issued_def)

lemma claim_eppn_grow: "eppns_grow db (claim_eppn db p v now)"
  by (auto simp: claim_eppn_def Let_def find_Some_iff intro!: add_identifier_grow split: option.split)

lemma create_person_grow: "eppns_grow db (create_person scope fresh token now a db)"
proof -
  define db1 where "db1 = db\<lparr>ib_people := ib_people db @ [\<lparr>pe_uuid = fresh, pe_unique_id = new_unique_id token scope,
    pe_display_name = sr_display_name a, pe_given_name = sr_given_name a, pe_surname = sr_surname a, pe_preferred_language = None,
    pe_ferpa_suppressed = False, pe_status = STATUS_ACTIVE, pe_source = ''jit'', pe_created_at = now\<rparr>]\<rparr>"
  define db2 where "db2 = (case given_text (sr_unique_id a) of
    None \<Rightarrow> db1 | Some u \<Rightarrow> add_identifier (issued fresh ID_UNIQUE u (scope_of u) False now) db1)"
  define db3 where "db3 = claim_eppn db2 fresh (case given_text (sr_eppn a) of Some e \<Rightarrow> e | None \<Rightarrow> new_unique_id token scope) now"
  have types: "ID_UNIQUE \<noteq> ID_EPPN" "ID_MAIL \<noteq> ID_EPPN" by (simp_all add: ID_UNIQUE_def ID_EPPN_def ID_MAIL_def)
  have "eppns_grow db db1" by (simp add: db1_def)
  moreover have "eppns_grow db1 db2" using types by (simp add: db2_def add_identifier_grow split: option.split)
  moreover have "eppns_grow db2 db3" by (simp add: db3_def claim_eppn_grow)
  moreover have "eppns_grow db3 (create_person scope fresh token now a db)"
    using types unfolding create_person_def Let_def db1_def[symmetric] db2_def[symmetric] db3_def[symmetric]
    by (cases "given_text (sr_mail a)") (simp_all add: add_identifier_grow)
  ultimately show ?thesis by (blast intro: eppns_grow_trans)
qed

lemma resolve_grow:
  assumes "resolve scope fresh token now a db = Ok (r, db')"
  shows "eppns_grow db db'"
proof -
  have touch: "eppns_grow db (touch_account p a basis now db)" for p basis by (simp add: touch_account_def)
  have made: "eppns_grow db (touch_account fresh a CREATED now (create_person scope fresh token now a db))"
    by (rule eppns_grow_trans[OF create_person_grow eppns_grow_refl]) (simp add: touch_account_def)
  have login: "eppns_grow db (logged_in a now db)" by (simp add: logged_in_def)
  show ?thesis
    using assms touch made login by (auto simp: resolve_def link_result_Ok split: option.splits if_splits)
qed

lemma update_first_map: "(\<And>x. g (f x) = g x) \<Longrightarrow> map g (update_first P f xs) = map g xs"
  by (induction xs) auto

lemma eppn_names_map: "map if_type is = map if_type js \<Longrightarrow> map (\<lambda>i. (if_value i, if_person i)) is = map (\<lambda>i. (if_value i, if_person i)) js \<Longrightarrow>
  map (\<lambda>i. (if_value i, if_person i)) (filter (\<lambda>i. if_type i = t) is) = map (\<lambda>i. (if_value i, if_person i)) (filter (\<lambda>i. if_type i = t) js)"
proof (induction "is" arbitrary: js)
  case (Cons i rest)
  then obtain j js' where "js = j # js'" by (cases js) auto
  then show ?case using Cons by simp
qed simp

lemma release_grow: "eppns_grow db (release_identifier p ty v now db)"
proof -
  have "map if_type (ib_identifiers (release_identifier p ty v now db)) = map if_type (ib_identifiers db)"
    "map (\<lambda>i. (if_value i, if_person i)) (ib_identifiers (release_identifier p ty v now db)) =
      map (\<lambda>i. (if_value i, if_person i)) (ib_identifiers db)"
    unfolding release_identifier_def by (simp_all add: update_first_map)
  from eppn_names_map[OF this] show ?thesis by (simp add: eppn_names_def)
qed

lemma allocate_grow: "allocate_eppn scope p local_part at db = Ok (v, db') \<Longrightarrow> eppns_grow db db'"
  by (auto simp: allocate_eppn_def Let_def find_Some_iff rbind_eq_Ok id_commit_Ok intro!: add_identifier_grow split: if_splits option.splits)

inductive id_step :: "identity_db \<Rightarrow> identity_db \<Rightarrow> bool" where
  step_resolve: "resolve scope fresh token now a db = Ok (r, db') \<Longrightarrow> id_step db db'"
| step_allocate: "allocate_eppn scope p local_part at db = Ok (v, db') \<Longrightarrow> id_step db db'"
| step_release: "id_step db (release_identifier p ty v now db)"
| step_status: "set_status p status db = Ok db' \<Longrightarrow> id_step db db'"
| step_add: "add_affiliation p affiliation since org_unit primary source db = Ok db' \<Longrightarrow> id_step db db'"
| step_end: "id_step db (end_affiliation p affiliation on db)"

lemma id_step_grow: "id_step db db' \<Longrightarrow> eppns_grow db db'"
proof (induction rule: id_step.induct)
  case (step_status p status db db')
  then show ?case by (auto simp: set_status_def id_commit_Ok split: if_splits)
next
  case (step_add p affiliation since org_unit primary source db db')
  then show ?case by (auto simp: add_affiliation_def id_commit_Ok split: if_splits)
next
  case (step_end db p affiliation on)
  then show ?case by (simp add: end_affiliation_def)
qed (auto intro: resolve_grow allocate_grow release_grow)

lemma id_run_grow: "id_step\<^sup>*\<^sup>* db db' \<Longrightarrow> eppns_grow db db'"
  by (induction rule: rtranclp_induct) (auto intro: id_step_grow eppns_grow_trans)



end
