(* ===== verification/LdapEscaping.thy ===== *)
theory LdapEscaping
  imports Prelude
begin

text \<open>
  Escaping values for LDAP filters and distinguished names (\<open>campusid/directory/escaping.py\<close>).

  \<open>str.replace\<close> with a single character replaces every occurrence in one pass, and the code chains one
  such pass per table entry, the backslash first.  The readers that undo the escapes are the grammars of
  RFC 4515 and RFC 4514 for a value.
\<close>

definition replace_char :: "char \<Rightarrow> string \<Rightarrow> string \<Rightarrow> string" where
  "replace_char c r s = concat (map (\<lambda>x. if x = c then r else [x]) s)"

definition FILTER_ESCAPES :: "(char \<times> string) list" where
  "FILTER_ESCAPES = [(CHR 0x5C, [CHR 0x5C, CHR ''5'', CHR ''c'']), (CHR ''*'', [CHR 0x5C, CHR ''2'', CHR ''a'']),
     (CHR ''('', [CHR 0x5C, CHR ''2'', CHR ''8'']), (CHR '')'', [CHR 0x5C, CHR ''2'', CHR ''9'']),
     (CHR 0x00, [CHR 0x5C, CHR ''0'', CHR ''0''])]"

definition DN_ESCAPES :: "(char \<times> string) list" where
  "DN_ESCAPES = map (\<lambda>c. (c, [CHR 0x5C, c]))
     [CHR 0x5C, CHR '','', CHR ''+'', CHR 0x22, CHR ''<'', CHR ''>'', CHR '';'', CHR ''='']"

text \<open>The loop: the backslash through its own entry, then every other entry of the table in order.\<close>

definition escape_table :: "(char \<times> string) list \<Rightarrow> string \<Rightarrow> string" where
  "escape_table table value = fold (\<lambda>(c, r) s. if c = CHR 0x5C then s else replace_char c r s) table
     (replace_char (CHR 0x5C) (the (map_of table (CHR 0x5C))) value)"

definition escape_filter :: "string \<Rightarrow> string" where
  "escape_filter value = escape_table FILTER_ESCAPES value"

definition escape_lead :: "char \<Rightarrow> string \<Rightarrow> string" where
  "escape_lead c s = (case s of x # _ \<Rightarrow> if x = c then CHR 0x5C # s else s | [] \<Rightarrow> s)"

definition escape_trail :: "string \<Rightarrow> string" where
  "escape_trail s = (if ends_with s '' '' \<and> \<not> ends_with s [CHR 0x5C, CHR '' ''] then butlast s @ [CHR 0x5C, CHR '' ''] else s)"

definition escape_dn :: "string \<Rightarrow> string" where
  "escape_dn value = escape_trail (escape_lead (CHR '' '') (escape_lead (CHR ''#'') (escape_table DN_ESCAPES value)))"

definition equality :: "string \<Rightarrow> string \<Rightarrow> string" where
  "equality attribute value = ''('' @ attribute @ ''='' @ escape_filter value @ '')''"

datatype ldap_filter_error = FilterValueError

definition any_of :: "string list \<Rightarrow> string \<Rightarrow> (ldap_filter_error, string) result" where
  "any_of attributes value = (case attributes of
       [] \<Rightarrow> Err FilterValueError
     | [a] \<Rightarrow> Ok (equality a value)
     | _ \<Rightarrow> Ok (''(|'' @ concat (map (\<lambda>a. equality a value) attributes) @ '')''))"

definition all_of :: "string list \<Rightarrow> (ldap_filter_error, string) result" where
  "all_of clauses = (case filter (\<lambda>c. c \<noteq> []) clauses of
       [] \<Rightarrow> Err FilterValueError
     | [c] \<Rightarrow> Ok c
     | present \<Rightarrow> Ok (''(&'' @ concat present @ '')''))"

section \<open>One pass\<close>

definition filter_char :: "char \<Rightarrow> string" where
  "filter_char c = (case map_of FILTER_ESCAPES c of None \<Rightarrow> [c] | Some r \<Rightarrow> r)"

definition dn_char :: "char \<Rightarrow> string" where
  "dn_char c = (case map_of DN_ESCAPES c of None \<Rightarrow> [c] | Some r \<Rightarrow> r)"

lemma replace_char_append [simp]: "replace_char c r (s @ t) = replace_char c r s @ replace_char c r t"
  by (simp add: replace_char_def)

lemma replace_char_Nil [simp]: "replace_char c r [] = []"
  by (simp add: replace_char_def)

lemma replace_char_Cons: "replace_char c r (x # s) = (if x = c then r else [x]) @ replace_char c r s"
  by (simp add: replace_char_def)

lemma escape_table_append: "escape_table table (s @ t) = escape_table table s @ escape_table table t"
proof -
  have "fold (\<lambda>(c, r) s. if c = CHR 0x5C then s else replace_char c r s) tbl (a @ b) =
      fold (\<lambda>(c, r) s. if c = CHR 0x5C then s else replace_char c r s) tbl a @
      fold (\<lambda>(c, r) s. if c = CHR 0x5C then s else replace_char c r s) tbl b" for tbl :: "(char \<times> string) list" and a b
    by (induction tbl arbitrary: a b) auto
  then show ?thesis by (simp add: escape_table_def)
qed

lemma escape_table_chars:
  assumes "\<And>c. escape_table table [c] = f c"
  shows "escape_table table s = concat (map f s)"
proof (induction s)
  case Nil
  have "fold (\<lambda>(c, r) s. if c = CHR 0x5C then s else replace_char c r s) table [] = []"
    by (induction table) auto
  then show ?case by (simp add: escape_table_def)
next
  case (Cons c s)
  then show ?case using escape_table_append[of table "[c]" s] by (simp add: assms)
qed

lemma escape_filter_chars: "escape_filter s = concat (map filter_char s)"
  unfolding escape_filter_def
  by (rule escape_table_chars) (simp add: escape_table_def filter_char_def FILTER_ESCAPES_def replace_char_Cons)

lemma escape_dn_chars: "escape_table DN_ESCAPES s = concat (map dn_char s)"
  by (rule escape_table_chars) (simp add: escape_table_def dn_char_def DN_ESCAPES_def replace_char_Cons)

section \<open>Reading a filter\<close>

text \<open>RFC 4515: a value, and filters built from equality matches, conjunctions and disjunctions.  The fuel bounds
  the nesting; one more than the length of the text is always enough.\<close>

definition hex_digit_value :: "char \<Rightarrow> nat option" where
  "hex_digit_value c = (let n = of_char c in
     if 48 \<le> n \<and> n \<le> 57 then Some (n - 48) else if 97 \<le> n \<and> n \<le> 102 then Some (n - 87)
     else if 65 \<le> n \<and> n \<le> 70 then Some (n - 55) else None)"

definition hex_pair :: "char \<Rightarrow> char \<Rightarrow> char option" where
  "hex_pair a b = (case (hex_digit_value a, hex_digit_value b) of
       (Some x, Some y) \<Rightarrow> Some (char_of (16 * x + y)) | _ \<Rightarrow> None)"

fun filter_value :: "string \<Rightarrow> string option" where
  "filter_value [] = Some []"
| "filter_value (c # s) =
     (if c = CHR 0x5C then (case s of a # b # t \<Rightarrow> (case hex_pair a b of
           Some x \<Rightarrow> map_option (Cons x) (filter_value t) | None \<Rightarrow> None) | _ \<Rightarrow> None)
      else if c \<in> {CHR ''('', CHR '')'', CHR ''*'', CHR 0x00} then None
      else map_option (Cons c) (filter_value s))"

datatype ldap_filter = LAnd "ldap_filter list" | LOr "ldap_filter list" | LEq string string

definition read_item :: "string \<Rightarrow> (ldap_filter \<times> string) option" where
  "read_item t = (case dropWhile (\<lambda>c. c \<noteq> CHR ''='') t of
       [] \<Rightarrow> None
     | _ # v \<Rightarrow> (case dropWhile (\<lambda>c. c \<noteq> CHR '')'') v of
         [] \<Rightarrow> None
       | _ # rest \<Rightarrow> map_option (\<lambda>x. (LEq (takeWhile (\<lambda>c. c \<noteq> CHR ''='') t) x, rest))
           (filter_value (takeWhile (\<lambda>c. c \<noteq> CHR '')'') v))))"

fun read_filter :: "nat \<Rightarrow> string \<Rightarrow> (ldap_filter \<times> string) option"
  and read_filters :: "nat \<Rightarrow> string \<Rightarrow> (ldap_filter list \<times> string) option" where
  "read_filter 0 s = None"
| "read_filter (Suc n) s = (case s of
       [] \<Rightarrow> None
     | c # t \<Rightarrow> if c \<noteq> CHR ''('' then None else (case t of
           [] \<Rightarrow> None
         | k # u \<Rightarrow> if k = CHR ''&'' then map_option (\<lambda>(fs, r). (LAnd fs, r)) (read_filters n u)
             else if k = CHR ''|'' then map_option (\<lambda>(fs, r). (LOr fs, r)) (read_filters n u)
             else read_item t))"
| "read_filters 0 s = None"
| "read_filters (Suc n) s = (case s of
       [] \<Rightarrow> None
     | c # t \<Rightarrow> if c = CHR '')'' then Some ([], t)
         else (case read_filter n s of None \<Rightarrow> None
           | Some (f, r) \<Rightarrow> map_option (\<lambda>(fs, r'). (f # fs, r')) (read_filters n r)))"

definition parse_ldap_filter :: "string \<Rightarrow> ldap_filter option" where
  "parse_ldap_filter s = (case read_filter (Suc (length s)) s of Some (f, []) \<Rightarrow> Some f | _ \<Rightarrow> None)"

lemma filter_char_cases:
  "filter_char c = (if c = CHR 0x5C then [CHR 0x5C, CHR ''5'', CHR ''c''] else if c = CHR ''*'' then [CHR 0x5C, CHR ''2'', CHR ''a'']
     else if c = CHR ''('' then [CHR 0x5C, CHR ''2'', CHR ''8''] else if c = CHR '')'' then [CHR 0x5C, CHR ''2'', CHR ''9'']
     else if c = CHR 0x00 then [CHR 0x5C, CHR ''0'', CHR ''0''] else [c])"
  by (simp add: filter_char_def FILTER_ESCAPES_def)

lemma hex_pairs:
  "hex_pair (CHR ''5'') (CHR ''c'') = Some (CHR 0x5C)" "hex_pair (CHR ''2'') (CHR ''a'') = Some (CHR ''*'')"
  "hex_pair (CHR ''2'') (CHR ''8'') = Some (CHR ''('')" "hex_pair (CHR ''2'') (CHR ''9'') = Some (CHR '')'')"
  "hex_pair (CHR ''0'') (CHR ''0'') = Some (CHR 0x00)"
  by code_simp+

lemma filter_value_escape: "filter_value (escape_filter v) = Some v"
  unfolding escape_filter_chars
  by (induction v) (simp_all add: filter_char_cases hex_pairs)

lemma escape_filter_clean: "c \<in> set (escape_filter v) \<Longrightarrow> c \<notin> {CHR ''('', CHR '')'', CHR ''*'', CHR 0x00}"
  unfolding escape_filter_chars by (auto simp: filter_char_cases split: if_splits)

text \<open>A name an attribute may have in a filter the code builds.\<close>

definition plain_attribute :: "string \<Rightarrow> bool" where
  "plain_attribute a = (a \<noteq> [] \<and> hd a \<notin> {CHR ''&'', CHR ''|''} \<and> CHR ''='' \<notin> set a)"

lemma read_item_equality:
  assumes "CHR ''='' \<notin> set a"
  shows "read_item (a @ CHR ''='' # escape_filter v @ CHR '')'' # rest) = Some (LEq a v, rest)"
proof -
  have a: "takeWhile (\<lambda>c. c \<noteq> CHR ''='') (a @ CHR ''='' # s) = a" "dropWhile (\<lambda>c. c \<noteq> CHR ''='') (a @ CHR ''='' # s) = CHR ''='' # s" for s
    using assms by (simp_all add: takeWhile_append dropWhile_append dropWhile_eq_Nil_conv takeWhile_eq_all_conv)
  have "\<forall>c\<in>set (escape_filter v). c \<noteq> CHR '')''" using escape_filter_clean by blast
  then have v: "takeWhile (\<lambda>c. c \<noteq> CHR '')'') (escape_filter v @ CHR '')'' # rest) = escape_filter v"
      "dropWhile (\<lambda>c. c \<noteq> CHR '')'') (escape_filter v @ CHR '')'' # rest) = CHR '')'' # rest"
    by (simp_all add: takeWhile_append dropWhile_append dropWhile_eq_Nil_conv takeWhile_eq_all_conv)
  show ?thesis by (simp add: read_item_def a v filter_value_escape)
qed

lemma read_equality:
  assumes "plain_attribute a"
  shows "read_filter (Suc n) (equality a v @ rest) = Some (LEq a v, rest)"
proof -
  obtain k u where a: "a = k # u" using assms by (cases a) (auto simp: plain_attribute_def)
  have "CHR ''='' \<notin> set a" using assms by (simp add: plain_attribute_def)
  from read_item_equality[OF this] show ?thesis
    using assms by (simp add: equality_def a plain_attribute_def)
qed

lemma equality_hd: "\<exists>s. equality a v @ rest = CHR ''('' # s"
  by (simp add: equality_def)

lemma read_equalities:
  assumes "list_all plain_attribute as" and "length as + 2 \<le> n"
  shows "read_filters n (concat (map (\<lambda>a. equality a v) as) @ CHR '')'' # rest) = Some (map (\<lambda>a. LEq a v) as, rest)"
  using assms
proof (induction as arbitrary: n)
  case Nil
  then obtain m where "n = Suc m" by (cases n) auto
  then show ?case by simp
next
  case (Cons a as)
  then obtain m where n: "n = Suc (Suc m)" "length as + 1 \<le> m" by (cases n; cases "n - 1") auto
  let ?r = "concat (map (\<lambda>a. equality a v) as) @ CHR '')'' # rest"
  obtain s where s: "equality a v @ ?r = CHR ''('' # s" using equality_hd by blast
  have e: "read_filter (Suc m) (CHR ''('' # s) = Some (LEq a v, ?r)"
    using read_equality[of a m v ?r] Cons.prems(1) s by simp
  have "read_filters (Suc m) ?r = Some (map (\<lambda>a. LEq a v) as, rest)" using Cons.IH[of "Suc m"] Cons.prems(1) n(2)
    by (simp del: read_filters.simps)
  then show ?case using e by (simp add: n(1) s[symmetric] del: read_filter.simps) (simp add: s del: read_filter.simps)
qed

definition any_tree :: "string list \<Rightarrow> string \<Rightarrow> ldap_filter" where
  "any_tree as v = (case as of [a] \<Rightarrow> LEq a v | _ \<Rightarrow> LOr (map (\<lambda>a. LEq a v) as))"

lemma read_any_of:
  assumes "any_of as v = Ok t" and "list_all plain_attribute as" and "length as + 3 \<le> n"
  shows "read_filter n (t @ rest) = Some (any_tree as v, rest)" and "\<exists>s. t = CHR ''('' # s"
proof -
  obtain m where n: "n = Suc m" "length as + 2 \<le> m" using assms(3) by (cases n) auto
  consider a where "as = [a]" "t = equality a v" |
      "t = ''(|'' @ concat (map (\<lambda>a. equality a v) as) @ '')''" "any_tree as v = LOr (map (\<lambda>a. LEq a v) as)"
    using assms(1) by (auto simp: any_of_def any_tree_def split: list.splits)
  then show "read_filter n (t @ rest) = Some (any_tree as v, rest)"
  proof cases
    case 1
    then show ?thesis using read_equality[of a m v rest] assms(2) n by (simp add: any_tree_def del: read_filter.simps)
  next
    case 2
    then show ?thesis using read_equalities[OF assms(2) n(2), of v rest] by (simp add: n(1))
  qed
  show "\<exists>s. t = CHR ''('' # s"
    using assms(1) by (auto simp: any_of_def equality_def split: list.splits)
qed

lemma filter_tree:
  assumes "list_all plain_attribute (cls # as)" and "any_of as v = Ok clause" and "all_of [equality cls c, clause] = Ok whole"
  shows "parse_ldap_filter whole = Some (LAnd [LEq cls c, any_tree as v])"
proof -
  have as: "as \<noteq> []" using assms(2) by (auto simp: any_of_def)
  obtain s where s: "clause = CHR ''('' # s" using read_any_of(2)[OF assms(2)] assms(1) by auto
  have whole: "whole = ''(&'' @ equality cls c @ clause @ '')''"
    using assms(3) s by (simp add: all_of_def equality_def)
  have len: "length as \<le> length clause"
  proof -
    have "length as \<le> length (concat (map (\<lambda>a. equality a v) as))"
      by (induction as) (auto simp: equality_def)
    then show ?thesis using assms(2) by (auto simp: any_of_def equality_def split: list.splits)
  qed
  have eq: "length (equality cls c) \<ge> 3" by (simp add: equality_def)
  obtain m where m: "length whole = Suc (Suc (Suc (Suc m)))" "length as + 3 \<le> Suc m"
    using len eq by (cases "length whole"; cases "length whole - 1"; cases "length whole - 2"; cases "length whole - 3") (auto simp: whole)
  obtain u where u: "equality cls c @ clause @ '')'' = CHR ''('' # u" using equality_hd by blast
  have e: "read_filter (Suc (Suc (Suc m))) (equality cls c @ clause @ '')'') = Some (LEq cls c, clause @ '')'')"
    using read_equality assms(1) by simp
  have a: "read_filter (Suc (Suc m)) (clause @ '')'') = Some (any_tree as v, '')'')"
    using read_any_of(1)[OF assms(2), of "Suc (Suc m)" "'')''"] assms(1) m(2) by simp
  have l: "read_filters (Suc (Suc (Suc m))) (clause @ '')'') = Some ([any_tree as v], [])"
    using a s by (simp del: read_filter.simps)
  have "read_filters (Suc (Suc (Suc (Suc m)))) (equality cls c @ clause @ '')'') = Some ([LEq cls c, any_tree as v], [])"
    using e l unfolding u by (simp del: read_filter.simps)
  then have "read_filter (Suc (length whole)) whole = Some (LAnd [LEq cls c, any_tree as v], [])"
    unfolding m(1) by (subst whole) simp
  then show ?thesis by (simp add: parse_ldap_filter_def)
qed

text \<open>C25. No login can change a search: the filter the code builds for an object class and a value reads back,
  by the grammar of RFC 4515, as the conjunction of that class and of the value against each of the
  attributes, whatever characters the value contains.\<close>

theorem filter_injection_free:
  assumes "list_all plain_attribute (cls # as)" and "any_of as v = Ok clause" and "all_of [equality cls c, clause] = Ok whole"
  shows "parse_ldap_filter whole = Some (LAnd [LEq cls c, any_tree as v])"
  by (rule filter_tree[OF assms])

theorem filter_injection_free_witness:
  "\<exists>clause whole. any_of [''uid''] ''*)(uid=*'' = Ok clause \<and> all_of [equality ''objectClass'' ''user'', clause] = Ok whole \<and>
     parse_ldap_filter whole = Some (LAnd [LEq ''objectClass'' ''user'', LEq ''uid'' ''*)(uid=*''])"
proof -
  let ?c = "equality ''uid'' ''*)(uid=*''" and ?o = "equality ''objectClass'' ''user''"
  have t: "all_of [?o, ?c] = Ok (''(&'' @ ?o @ ?c @ '')'')" by (simp add: all_of_def equality_def)
  have "any_of [''uid''] ''*)(uid=*'' = Ok ?c" by (simp add: any_of_def)
  moreover have "list_all plain_attribute [''objectClass'', ''uid'']" by (simp add: plain_attribute_def)
  ultimately show ?thesis
    using t filter_injection_free[of "''objectClass''" "[''uid'']" "''*)(uid=*''" ?c "''user''"] by (auto simp: any_tree_def)
qed

section \<open>Reading a distinguished name\<close>

text \<open>RFC 4514: the value of the first component, as characters marked when they were escaped, up to the comma
  that ends it.  Unescaped spaces around a value are not part of it, and an unescaped number sign at its
  start announces another syntax.\<close>

definition DN_PAIR :: "char set" where
  "DN_PAIR = {CHR 0x5C, CHR '','', CHR ''+'', CHR 0x22, CHR ''<'', CHR ''>'', CHR '';'', CHR ''='', CHR '' '', CHR ''#''}"

fun dn_tokens :: "string \<Rightarrow> ((char \<times> bool) list \<times> string) option" where
  "dn_tokens [] = Some ([], [])"
| "dn_tokens (c # s) =
     (if c = CHR 0x5C then (case s of
          [] \<Rightarrow> None
        | x # t \<Rightarrow> if x \<in> DN_PAIR then map_option (\<lambda>(ts, r). ((x, True) # ts, r)) (dn_tokens t)
            else (case t of [] \<Rightarrow> None
              | y # u \<Rightarrow> (case hex_pair x y of None \<Rightarrow> None
                  | Some z \<Rightarrow> map_option (\<lambda>(ts, r). ((z, True) # ts, r)) (dn_tokens u))))
      else if c = CHR '','' then Some ([], s)
      else if c \<in> {CHR ''+'', CHR 0x22, CHR ''<'', CHR ''>'', CHR '';''} then None
      else map_option (\<lambda>(ts, r). ((c, False) # ts, r)) (dn_tokens s))"

definition blank :: "char \<times> bool \<Rightarrow> bool" where
  "blank t = (t = (CHR '' '', False))"

definition strip_blanks :: "(char \<times> bool) list \<Rightarrow> (char \<times> bool) list" where
  "strip_blanks ts = rev (dropWhile blank (rev (dropWhile blank ts)))"

definition dn_value :: "string \<Rightarrow> (string \<times> string) option" where
  "dn_value s = (case dn_tokens s of None \<Rightarrow> None
     | Some (ts, r) \<Rightarrow> let v = strip_blanks ts in
         if v \<noteq> [] \<and> hd v = (CHR ''#'', False) then None else Some (map fst v, r))"

lemma dn_char_cases:
  "dn_char c = (if c \<in> {CHR 0x5C, CHR '','', CHR ''+'', CHR 0x22, CHR ''<'', CHR ''>'', CHR '';'', CHR ''=''} then [CHR 0x5C, c] else [c])"
  by (simp add: dn_char_def DN_ESCAPES_def)

definition dn_token :: "char \<Rightarrow> char \<times> bool" where
  "dn_token c = (c, c \<in> {CHR 0x5C, CHR '','', CHR ''+'', CHR 0x22, CHR ''<'', CHR ''>'', CHR '';'', CHR ''=''})"

lemma dn_tokens_char:
  "dn_tokens (dn_char c @ s) = map_option (\<lambda>(ts, r). (dn_token c # ts, r)) (dn_tokens s)"
  by (simp add: dn_char_cases dn_token_def DN_PAIR_def)

lemma dn_tokens_chars:
  "dn_tokens (concat (map dn_char w) @ s) = map_option (\<lambda>(ts, r). (map dn_token w @ ts, r)) (dn_tokens s)"
proof (induction w)
  case (Cons c w)
  have "dn_tokens (dn_char c @ concat (map dn_char w) @ s) =
      map_option (\<lambda>(ts, r). (dn_token c # ts, r)) (dn_tokens (concat (map dn_char w) @ s))" by (rule dn_tokens_char)
  then show ?case by (simp add: Cons option.map_comp comp_def case_prod_unfold)
qed (simp add: option.map_ident case_prod_unfold)

definition lead_char :: "char \<Rightarrow> string" where
  "lead_char c = (if c \<in> {CHR ''#'', CHR '' ''} then [CHR 0x5C, c] else dn_char c)"

lemma escape_leads:
  "escape_lead (CHR '' '') (escape_lead (CHR ''#'') (concat (map dn_char (c # w)))) = lead_char c @ concat (map dn_char w)"
  by (auto simp: escape_lead_def lead_char_def dn_char_cases)

definition lead_token :: "char \<Rightarrow> char \<times> bool" where
  "lead_token c = (if c \<in> {CHR ''#'', CHR '' ''} then (c, True) else dn_token c)"

lemma dn_tokens_lead:
  "dn_tokens (lead_char c @ s) = map_option (\<lambda>(ts, r). (lead_token c # ts, r)) (dn_tokens s)"
  using dn_tokens_char[of c s] by (simp add: lead_char_def lead_token_def DN_PAIR_def)

lemma last_dn_char [simp]: "last (dn_char c) = c" "dn_char c \<noteq> []"
  by (simp_all add: dn_char_cases)

lemma last_lead_char [simp]: "last (lead_char c) = c" "lead_char c \<noteq> []"
  by (simp_all add: lead_char_def)

lemma last_chars: "last (lead_char c @ concat (map dn_char w)) = last (c # w)"
  by (induction w rule: rev_induct) (simp_all add: last_append)

lemma ends_with_one: "ends_with s [c] \<longleftrightarrow> s \<noteq> [] \<and> last s = c"
  by (auto simp: ends_with_iff) (metis append_butlast_last_id)

lemma ends_with_two: "ends_with s [b, c] \<longleftrightarrow> s \<noteq> [] \<and> last s = c \<and> butlast s \<noteq> [] \<and> last (butlast s) = b"
proof
  assume "ends_with s [b, c]"
  then obtain r where "s = r @ [b, c]" by (auto simp: ends_with_iff)
  then show "s \<noteq> [] \<and> last s = c \<and> butlast s \<noteq> [] \<and> last (butlast s) = b" by (simp add: butlast_append)
next
  assume a: "s \<noteq> [] \<and> last s = c \<and> butlast s \<noteq> [] \<and> last (butlast s) = b"
  then have "s = butlast (butlast s) @ [b, c]" by (metis append_butlast_last_id append_eq_appendI append_Cons append_Nil)
  then show "ends_with s [b, c]" by (auto simp: ends_with_iff)
qed

text \<open>What the escaper produces, token by token.\<close>

definition dn_marks :: "string \<Rightarrow> (char \<times> bool) list" where
  "dn_marks v = (case v of [] \<Rightarrow> [] | c # w \<Rightarrow>
     if w \<noteq> [] \<and> last w = CHR '' '' then lead_token c # map dn_token (butlast w) @ [(CHR '' '', True)]
     else lead_token c # map dn_token w)"

lemma escape_dn_tokens:
  assumes "\<not> ends_with v [CHR 0x5C, CHR '' '']"
  shows "dn_tokens (escape_dn v @ CHR '','' # rest) = Some (dn_marks v, rest)"
proof (cases v)
  case Nil
  then show ?thesis by (simp add: escape_dn_def escape_dn_chars escape_lead_def escape_trail_def ends_with_one dn_marks_def)
next
  case (Cons c w)
  let ?e = "lead_char c @ concat (map dn_char w)"
  have e: "escape_dn v = escape_trail ?e" by (simp only: escape_dn_def escape_dn_chars Cons escape_leads)
  have stop: "dn_tokens (CHR '','' # rest) = Some ([], rest)" by simp
  have plain: "dn_tokens (?e @ CHR '','' # rest) = Some (lead_token c # map dn_token w, rest)"
    using dn_tokens_lead[of c "concat (map dn_char w) @ CHR '','' # rest"] by (simp add: dn_tokens_chars stop)
  show ?thesis
  proof (cases "w \<noteq> [] \<and> last w = CHR '' ''")
    case True
    then obtain u where w: "w = u @ [CHR '' '']" by (metis append_butlast_last_id)
    have split: "?e = (lead_char c @ concat (map dn_char u)) @ [CHR '' '']" by (simp add: w dn_char_cases)
    have "last (c # u) \<noteq> CHR 0x5C" using assms by (auto simp: Cons w ends_with_two butlast_append split: if_splits)
    then have "\<not> ends_with ?e [CHR 0x5C, CHR '' '']"
      unfolding split ends_with_two by (simp only: butlast_snoc last_snoc last_chars) auto
    then have "escape_dn v = lead_char c @ concat (map dn_char u) @ [CHR 0x5C, CHR '' '']"
      unfolding e escape_trail_def split ends_with_one by (simp add: butlast_append)
    then show ?thesis
      using dn_tokens_lead[of c "concat (map dn_char u) @ [CHR 0x5C, CHR '' ''] @ CHR '','' # rest"]
      by (simp add: dn_tokens_chars DN_PAIR_def Cons dn_marks_def w)
  next
    case False
    have "escape_dn v = ?e"
    proof (cases "w = []")
      case True
      then show ?thesis
        by (auto simp: e escape_trail_def ends_with_one ends_with_two lead_char_def dn_char_cases)
    next
      case w: False
      have "last ?e = last w" using last_chars[of c w] w by simp
      then show ?thesis using False w by (simp add: e escape_trail_def ends_with_one)
    qed
    then show ?thesis using plain False by (auto simp: dn_marks_def Cons)
  qed
qed

lemma strip_no_blanks: "ts = [] \<or> (\<not> blank (hd ts) \<and> \<not> blank (last ts)) \<Longrightarrow> strip_blanks ts = ts"
  by (auto simp: strip_blanks_def dropWhile_eq_self_iff[THEN iffD2] hd_rev)

lemma dn_token_fst [simp]: "fst (dn_token c) = c" "fst (lead_token c) = c"
  by (simp_all add: dn_token_def lead_token_def)

lemma dn_marks_text: "map fst (dn_marks v) = v"
proof (cases v)
  case (Cons c w)
  have "map (fst \<circ> dn_token) u = u" for u by (induction u) simp_all
  moreover have "w \<noteq> [] \<Longrightarrow> last w = CHR '' '' \<Longrightarrow> butlast w @ '' '' = w" by (metis append_butlast_last_id)
  ultimately show ?thesis by (simp add: dn_marks_def Cons)
qed (simp add: dn_marks_def)

lemma dn_marks_ends:
  "v \<noteq> [] \<Longrightarrow> \<not> blank (hd (dn_marks v)) \<and> \<not> blank (last (dn_marks v)) \<and> hd (dn_marks v) \<noteq> (CHR ''#'', False)"
  by (cases v) (auto simp: dn_marks_def blank_def lead_token_def dn_token_def last_map)

text \<open>A name is the name it was given: unless it ends in a backslash and a space, the escaped form of a value
  followed by the rest of a distinguished name reads back, by the grammar of RFC 4514, as exactly that
  value and that rest.  A comma in a name splits nothing, and distinct names give distinct entries.\<close>

theorem escape_dn_roundtrip:
  assumes "\<not> ends_with v [CHR 0x5C, CHR '' '']"
  shows "dn_value (escape_dn v @ CHR '','' # rest) = Some (v, rest)"
proof (cases "v = []")
  case True
  then show ?thesis using escape_dn_tokens[OF assms] by (simp add: dn_value_def dn_marks_def strip_blanks_def)
next
  case False
  have "dn_marks v \<noteq> []" using False dn_marks_text[of v] by auto
  with dn_marks_ends[OF False] have "strip_blanks (dn_marks v) = dn_marks v" by (intro strip_no_blanks) simp
  then show ?thesis using escape_dn_tokens[OF assms] dn_marks_ends[OF False] dn_marks_text[of v] by (simp add: dn_value_def)
qed

theorem escape_dn_roundtrip_witness:
  "dn_value (escape_dn '' a,ou=x '' @ '',ou=people'') = Some ('' a,ou=x '', ''ou=people'')"
  using escape_dn_roundtrip[of "'' a,ou=x ''" "''ou=people''"] by (simp add: ends_with_def)

text \<open>A trailing space after a backslash is left bare, because the escape of the backslash is taken for an
  escape of the space: such a name reads back without the space, as another person's name.\<close>

theorem escape_dn_drops_space:
  "dn_value (escape_dn (v @ [CHR 0x5C, CHR '' '']) @ CHR '','' # rest) = dn_value (escape_dn (v @ [CHR 0x5C]) @ CHR '','' # rest)"
proof -
  have strip: "strip_blanks (ts @ [(CHR '' '', False)]) = strip_blanks ts" if "\<exists>t\<in>set ts. \<not> blank t" for ts
    using that by (auto simp: strip_blanks_def blank_def dropWhile_append)
  obtain c w where cw: "v @ [CHR 0x5C] = c # w" by (cases "v @ [CHR 0x5C]") auto
  define e where "e = lead_char c @ concat (map dn_char w)"
  have "v @ [CHR 0x5C, CHR '' ''] = c # (w @ '' '')" using cw by (metis append.assoc append_Cons append_Nil)
  then have lead: "escape_lead (CHR '' '') (escape_lead (CHR ''#'') (concat (map dn_char (v @ [CHR 0x5C, CHR '' ''])))) = e @ '' ''"
    by (simp only: escape_leads e_def) (simp add: dn_char_cases)
  have lead1: "escape_lead (CHR '' '') (escape_lead (CHR ''#'') (concat (map dn_char (v @ [CHR 0x5C])))) = e"
    by (simp only: cw escape_leads e_def)
  have "last e = CHR 0x5C" unfolding e_def last_chars cw[symmetric] by simp
  moreover have "e \<noteq> []" by (simp add: e_def)
  ultimately obtain e' where e': "e = e' @ [CHR 0x5C]" by (metis append_butlast_last_id)
  have one: "escape_dn (v @ [CHR 0x5C]) = e" unfolding escape_dn_def escape_dn_chars lead1
    by (simp add: escape_trail_def ends_with_one e')
  have two: "escape_dn (v @ [CHR 0x5C, CHR '' '']) = e @ '' ''" unfolding escape_dn_def escape_dn_chars lead
    by (simp add: escape_trail_def ends_with_two e' butlast_append)
  have "\<not> ends_with (v @ [CHR 0x5C]) [CHR 0x5C, CHR '' '']" by (simp add: ends_with_two)
  from escape_dn_tokens[OF this] have t1: "dn_tokens (e @ CHR '','' # rest) = Some (dn_marks (v @ [CHR 0x5C]), rest)" for rest
    by (simp add: one)
  have m: "dn_marks (v @ [CHR 0x5C]) = lead_token c # map dn_token w"
  proof -
    have "last (c # w) = CHR 0x5C" unfolding cw[symmetric] by simp
    then have "w = [] \<or> last w \<noteq> CHR '' ''" by (auto split: if_splits)
    then show ?thesis by (auto simp: cw dn_marks_def)
  qed
  have "dn_tokens (e @ '' '' @ CHR '','' # rest) = Some ((lead_token c # map dn_token w) @ [(CHR '' '', False)], rest)"
    using dn_tokens_lead[of c "concat (map dn_char w) @ '' '' @ CHR '','' # rest"] by (simp add: e_def dn_tokens_chars)
  moreover have "\<exists>t\<in>set (lead_token c # map dn_token w). \<not> blank t"
    using dn_marks_ends[of "v @ [CHR 0x5C]"] unfolding m by simp
  then have "strip_blanks ((lead_token c # map dn_token w) @ [(CHR '' '', False)]) = strip_blanks (lead_token c # map dn_token w)"
    by (rule strip)
  ultimately show ?thesis by (simp add: dn_value_def two one t1 m)
qed

end
