(* ===== verification/DirectoryGroups.thy ===== *)
theory DirectoryGroups
  imports Prelude
begin

text \<open>
  Group membership with nesting (\<open>campusid/directory/groups.py\<close>).

  The lookup of a group's parents is a parameter that may fail; the error is whatever it raised.  The
  loop runs while there is a frontier and depth is left, so it is a recursion on the depth that is left.
\<close>

definition GROUP_MAX_DEPTH :: nat where "GROUP_MAX_DEPTH = 5"
definition MAX_GROUPS :: nat where "MAX_GROUPS = 1000"

record expansion =
  ex_groups :: "string set"
  ex_direct :: "string set"
  ex_truncated :: bool
  ex_depth_reached :: nat

definition unique_list :: "string list \<Rightarrow> string list" where
  "unique_list values = fold (\<lambda>v acc. if v \<in> set acc then acc else acc @ [v]) values []"

definition add_parents :: "string set \<Rightarrow> string list \<Rightarrow> string list \<Rightarrow> string list" where
  "add_parents seen ps acc = fold (\<lambda>p acc. if p \<notin> seen \<and> p \<notin> set acc then acc @ [p] else acc) ps acc"

fun next_frontier ::
  "(string \<Rightarrow> ('e, string list) result) \<Rightarrow> string set \<Rightarrow> string list \<Rightarrow> string list \<Rightarrow> ('e, string list) result" where
  "next_frontier parents_of seen [] acc = Ok acc"
| "next_frontier parents_of seen (g # gs) acc =
     rbind (parents_of g) (\<lambda>ps. next_frontier parents_of seen gs (add_parents seen ps acc))"

text \<open>What the loop leaves: the groups seen, the frontier, whether the ceiling stopped it, and the depth left.\<close>

fun expand_loop ::
  "(string \<Rightarrow> ('e, string list) result) \<Rightarrow> nat \<Rightarrow> nat \<Rightarrow> string set \<Rightarrow> string list \<Rightarrow>
     ('e, string set \<times> string list \<times> bool \<times> nat) result" where
  "expand_loop parents_of max_groups 0 seen frontier = Ok (seen, frontier, False, 0)"
| "expand_loop parents_of max_groups (Suc n) seen frontier =
     (if frontier = [] then Ok (seen, [], False, Suc n)
      else let seen' = seen \<union> set frontier in
        if max_groups \<le> card seen' then Ok (seen', frontier, True, Suc n)
        else rbind (next_frontier parents_of seen' frontier []) (\<lambda>next.
          if next = [] then Ok (seen', [], False, Suc n) else expand_loop parents_of max_groups n seen' next))"

definition expand_groups ::
  "string list \<Rightarrow> (string \<Rightarrow> ('e, string list) result) \<Rightarrow> nat \<Rightarrow> nat \<Rightarrow> ('e, expansion) result" where
  "expand_groups direct parents_of max_depth max_groups =
     rbind (expand_loop parents_of max_groups max_depth {} (unique_list direct)) (\<lambda>(seen, frontier, truncated, left).
       let cut = (frontier \<noteq> [] \<and> left = 0) in
       Ok \<lparr>ex_groups = (if cut then seen \<union> set frontier else seen), ex_direct = set direct,
         ex_truncated = (truncated \<or> cut), ex_depth_reached = max_depth - left\<rparr>)"

section \<open>Exactness\<close>

fun within_steps :: "(string \<Rightarrow> string list) \<Rightarrow> nat \<Rightarrow> string set \<Rightarrow> string set" where
  "within_steps P 0 D = D"
| "within_steps P (Suc n) D = within_steps P n D \<union> (\<Union>g\<in>within_steps P n D. set (P g))"

definition inherited :: "(string \<Rightarrow> string list) \<Rightarrow> string set \<Rightarrow> string set" where
  "inherited P D = (\<Union>n. within_steps P n D)"

lemma unique_list_set [simp]: "set (unique_list vs) = set vs"
proof -
  have "set (fold (\<lambda>v acc. if v \<in> set acc then acc else acc @ [v]) vs acc) = set acc \<union> set vs" for acc
    by (induction vs arbitrary: acc) auto
  then show ?thesis by (simp add: unique_list_def)
qed

lemma add_parents_set: "set (add_parents seen ps acc) = set acc \<union> (set ps - seen)"
  unfolding add_parents_def by (induction ps arbitrary: acc) auto

lemma next_frontier_total:
  assumes "\<And>g. parents_of g = Ok (P g)"
  shows "\<exists>next. next_frontier parents_of seen gs acc = Ok next \<and> set next = set acc \<union> ((\<Union>g\<in>set gs. set (P g)) - seen)"
proof (induction gs arbitrary: acc)
  case (Cons g gs)
  from Cons[of "add_parents seen (P g) acc"] show ?case by (auto simp: assms add_parents_set Un_Diff)
qed simp

lemma steps_mono: "m \<le> n \<Longrightarrow> within_steps P m D \<subseteq> within_steps P n D"
  by (induction rule: dec_induct) auto

lemma steps_closed:
  assumes "D \<subseteq> S" and "\<And>g. g \<in> S \<Longrightarrow> set (P g) \<subseteq> S"
  shows "within_steps P n D \<subseteq> S"
proof (induction n)
  case (Suc n)
  then show ?case using assms(2) by fastforce
qed (simp add: assms(1))

lemma inherited_closed:
  assumes "D \<subseteq> S" and "\<And>g. g \<in> S \<Longrightarrow> set (P g) \<subseteq> S" and "S \<subseteq> inherited P D"
  shows "S = inherited P D"
  using steps_closed[where P = P, OF assms(1,2)] assms(3) by (auto simp: inherited_def)

text \<open>The loop explores ring by ring: what is seen and on the frontier is everything within the steps made,
  and nothing seen has a parent elsewhere.\<close>

lemma expand_loop_rings:
  assumes "\<And>g. parents_of g = Ok (P g)"
    and "seen \<union> set frontier = within_steps P k D" and "\<And>g. g \<in> seen \<Longrightarrow> set (P g) \<subseteq> seen \<union> set frontier"
  shows "\<exists>seen' frontier' truncated left. expand_loop parents_of mg n seen frontier = Ok (seen', frontier', truncated, left) \<and>
     D \<subseteq> seen' \<union> set frontier' \<and> seen' \<union> set frontier' \<subseteq> inherited P D \<and> left \<le> n \<and>
     (if truncated then mg \<le> card seen' \<and> 0 < left \<and> set frontier' \<subseteq> seen'
      else if frontier' = [] then seen' = inherited P D
      else left = 0 \<and> seen' \<union> set frontier' = within_steps P (k + n) D)"
  using assms(2,3)
proof (induction n arbitrary: seen frontier k)
  case 0
  have D: "D \<subseteq> seen \<union> set frontier" "seen \<union> set frontier \<subseteq> inherited P D"
    using steps_mono[of 0 k P D] by (auto simp: "0.prems"(1) inherited_def)
  moreover have "seen = inherited P D" if "frontier = []"
    using that D "0.prems" by (intro inherited_closed) auto
  ultimately show ?case
    using "0.prems"(1) by (intro exI[of _ seen] exI[of _ frontier] exI[of _ False] exI[of _ 0]) (simp add: Un_commute)
next
  case (Suc n)
  have D: "D \<subseteq> seen \<union> set frontier" "seen \<union> set frontier \<subseteq> inherited P D"
    using steps_mono[of 0 k P D] by (auto simp: Suc.prems(1) inherited_def)
  show ?case
  proof (cases "frontier = []")
    case True
    then have "seen = inherited P D" using D Suc.prems by (intro inherited_closed) auto
    then show ?thesis using True D by (intro exI[of _ seen] exI[of _ "[]"] exI[of _ False] exI[of _ "Suc n"]) simp
  next
    case False
    let ?seen = "seen \<union> set frontier"
    obtain next' where nx: "next_frontier parents_of ?seen frontier [] = Ok next'"
        "set next' = (\<Union>g\<in>set frontier. set (P g)) - ?seen"
      using next_frontier_total[of parents_of P ?seen frontier "[]"] assms(1) by auto
    have ring: "?seen \<union> set next' = within_steps P (Suc k) D"
      using Suc.prems(2) nx(2) by (auto simp: Suc.prems(1)[symmetric])
    have step: "set (P g) \<subseteq> ?seen \<union> set next'" if "g \<in> ?seen" for g
      using that Suc.prems(2)[of g] nx(2) by auto
    show ?thesis
    proof (cases "mg \<le> card ?seen")
      case True
      then show ?thesis using D False
        by (intro exI[of _ ?seen] exI[of _ frontier] exI[of _ True] exI[of _ "Suc n"]) (simp add: Let_def)
    next
      case small: False
      show ?thesis
      proof (cases "next' = []")
        case True
        then have "?seen = inherited P D" using D step by (intro inherited_closed) auto
        then show ?thesis using True False small nx(1) D
          by (intro exI[of _ ?seen] exI[of _ "[]"] exI[of _ False] exI[of _ "Suc n"]) (simp add: Let_def)
      next
        case more: False
        from Suc.IH[OF ring step] obtain s' f' t' l' where
          ih: "expand_loop parents_of mg n ?seen next' = Ok (s', f', t', l')" "D \<subseteq> s' \<union> set f'" "s' \<union> set f' \<subseteq> inherited P D" "l' \<le> n"
            "if t' then mg \<le> card s' \<and> 0 < l' \<and> set f' \<subseteq> s' else if f' = [] then s' = inherited P D
             else l' = 0 \<and> s' \<union> set f' = within_steps P (Suc k + n) D" by blast
        have "expand_loop parents_of mg (Suc n) seen frontier = Ok (s', f', t', l')"
          using False small more nx(1) ih(1) by (simp add: Let_def)
        then show ?thesis using ih(2-5) by (intro exI[of _ s'] exI[of _ f'] exI[of _ t'] exI[of _ l']) auto
      qed
    qed
  qed
qed


text \<open>Two groups that contain each other.\<close>

definition cyclic :: "string \<Rightarrow> string list" where
  "cyclic g = (if g = ''a'' then [''b''] else if g = ''b'' then [''a''] else [])"


text \<open>A tree that ends exactly at the depth limit is complete and is marked truncated all the same, so its
  answer is never cached.\<close>

theorem complete_expansion_marked_truncated:
  assumes "within_steps P max_depth (set direct) = inherited P (set direct)" and "expand_loop (\<lambda>g. Ok (P g)) mg max_depth {} (unique_list direct) =
      (Ok (seen, g # gs, False, 0) :: (unit, string set \<times> string list \<times> bool \<times> nat) result)"
  shows "\<exists>e. expand_groups direct (\<lambda>g. Ok (P g)) max_depth mg = (Ok e :: (unit, expansion) result) \<and>
     ex_groups e = inherited P (set direct) \<and> ex_truncated e"
  using expand_loop_rings[of "\<lambda>g. Ok (P g) :: (unit, string list) result" P "{}" "unique_list direct" 0 "set direct" mg max_depth] assms
  by (auto simp: expand_groups_def Let_def)


theorem complete_expansion_marked_truncated_witness:
  "\<exists>e. expand_groups [''a''] (\<lambda>g. Ok (if g = ''a'' then [''b''] else [])) 1 1000 = (Ok e :: (unit, expansion) result) \<and>
     ex_groups e = {''a'', ''b''} \<and> ex_truncated e"
proof -
  let ?P = "\<lambda>g. if g = ''a'' then [''b''] else []"
  have "within_steps ?P n {''a''} = (if n = 0 then {''a''} else {''a'', ''b''})" for n
    by (induction n) (auto split: if_splits)
  then have inh: "within_steps ?P 1 {''a''} = {''a'', ''b''}" "inherited ?P {''a''} = {''a'', ''b''}"
    by (auto simp: inherited_def split: if_splits)
  have "expand_loop (\<lambda>g. Ok (?P g)) 1000 1 {} (unique_list [''a'']) = (Ok ({''a''}, [''b''], False, 0) :: (unit, _) result)"
    by (simp add: unique_list_def add_parents_def Let_def)
  with complete_expansion_marked_truncated[of ?P 1 "[''a'']" 1000 "{''a''}" "''b''" "[]"] inh show ?thesis by simp
qed

end
