(* ===== verification/Directory.thy ===== *)
theory Directory
  imports LdapEscaping DirectoryGroups Redis ScimFilterRoundtrip "HOL-Library.AList" "HOL-Library.List_Lexorder" "HOL-Library.Char_ord"
begin

text \<open>
  The campus directory: profiles (\<open>campusid/directory/profiles.py\<close>), reading (\<open>directory/client.py\<close>),
  writing (\<open>directory/writes.py\<close>), the plaintext refusal of \<open>directory/connection.py\<close> and the
  provisioning target built on them (\<open>campusid/lifecycle/targets.py\<close>).

  \<open>ldap3\<close> is the record \<open>ldap\<close> of the calls the code makes, over a server state; an error is the text of
  the exception.  An attribute arrives as a bare value or a list of values, each a text, bytes, a number
  or another object with its \<open>str\<close>; \<open>l_decode\<close> decodes bytes with replacement.  What the server promises
  is the locale \<open>ldap_directory\<close>.
\<close>

unbundle bit_operations_syntax

section \<open>Profiles\<close>

definition ACCOUNT_DISABLED_BIT :: int where "ACCOUNT_DISABLED_BIT = 2"
definition DEFAULT_ACCOUNT_CONTROL :: int where "DEFAULT_ACCOUNT_CONTROL = 512"

record directory_profile =
  dp_name :: string
  dp_login_attributes :: "string list"
  dp_immutable_id :: string
  dp_member_of :: string
  dp_member :: string
  dp_group_name :: string
  dp_user_object_class :: string
  dp_group_object_class :: string
  dp_create_object_classes :: "string list"
  dp_mail :: string
  dp_display_name :: string
  dp_given_name :: string
  dp_surname :: string
  dp_disabled_flag :: "string option"
  dp_lock_attribute :: string

datatype directory_error = DirectoryUnavailable string | ProfileError

definition user_filter :: "directory_profile \<Rightarrow> string \<Rightarrow> (directory_error, string) result" where
  "user_filter p login = rmap_err (\<lambda>_. ProfileError) (rbind (any_of (dp_login_attributes p) login)
     (\<lambda>clause. all_of [equality ''objectClass'' (dp_user_object_class p), clause]))"

definition user_by_id_filter :: "directory_profile \<Rightarrow> string \<Rightarrow> (directory_error, string) result" where
  "user_by_id_filter p i = rmap_err (\<lambda>_. ProfileError)
     (all_of [equality ''objectClass'' (dp_user_object_class p), equality (dp_immutable_id p) i])"

definition group_members_filter :: "directory_profile \<Rightarrow> string \<Rightarrow> (directory_error, string) result" where
  "group_members_filter p dn = rmap_err (\<lambda>_. ProfileError)
     (all_of [equality ''objectClass'' (dp_group_object_class p), equality (dp_member p) dn])"

definition truthy_flag :: "directory_profile \<Rightarrow> string option" where
  "truthy_flag p = (case dp_disabled_flag p of Some f \<Rightarrow> if f = [] then None else Some f | None \<Rightarrow> None)"

definition flag_attribute :: "directory_profile \<Rightarrow> string" where
  "flag_attribute p = (case truthy_flag p of Some f \<Rightarrow> f | None \<Rightarrow> dp_lock_attribute p)"

definition profile_attributes :: "directory_profile \<Rightarrow> string list" where
  "profile_attributes p = unique_list ([dp_immutable_id p, dp_member_of p, dp_mail p, dp_display_name p, dp_given_name p,
     dp_surname p] @ dp_login_attributes p @ [flag_attribute p])"

definition ACTIVE_DIRECTORY :: directory_profile where
  "ACTIVE_DIRECTORY = \<lparr>dp_name = ''active-directory'', dp_login_attributes = [''userPrincipalName'', ''sAMAccountName''],
     dp_immutable_id = ''objectGUID'', dp_member_of = ''memberOf'', dp_member = ''member'', dp_group_name = ''cn'',
     dp_user_object_class = ''user'', dp_group_object_class = ''group'',
     dp_create_object_classes = [''user'', ''organizationalPerson'', ''person'', ''top''], dp_mail = ''mail'',
     dp_display_name = ''displayName'', dp_given_name = ''givenName'', dp_surname = ''sn'',
     dp_disabled_flag = Some ''userAccountControl'', dp_lock_attribute = ''pwdAccountLockedTime''\<rparr>"

definition OPENLDAP :: directory_profile where
  "OPENLDAP = \<lparr>dp_name = ''openldap'', dp_login_attributes = [''eduPersonPrincipalName'', ''uid''],
     dp_immutable_id = ''entryUUID'', dp_member_of = ''memberOf'', dp_member = ''member'', dp_group_name = ''cn'',
     dp_user_object_class = ''inetOrgPerson'', dp_group_object_class = ''groupOfNames'',
     dp_create_object_classes = [''inetOrgPerson'', ''organizationalPerson'', ''person'', ''eduPerson'', ''top''],
     dp_mail = ''mail'', dp_display_name = ''displayName'', dp_given_name = ''givenName'', dp_surname = ''sn'',
     dp_disabled_flag = None, dp_lock_attribute = ''pwdAccountLockedTime''\<rparr>"

definition PROFILES :: "(string \<times> directory_profile) list" where
  "PROFILES = [(dp_name ACTIVE_DIRECTORY, ACTIVE_DIRECTORY), (dp_name OPENLDAP, OPENLDAP)]"

definition profile :: "string \<Rightarrow> (directory_error, directory_profile) result" where
  "profile name = (case map_of PROFILES name of Some p \<Rightarrow> Ok p | None \<Rightarrow> Err ProfileError)"

section \<open>The connection\<close>

definition LOCKED_FOREVER :: string where "LOCKED_FOREVER = ''000001010000Z''"

record connector =
  co_url :: string
  co_start_tls :: bool
  co_allow_plaintext :: bool

datatype transport = Ldaps | StartTls | Plain

definition connect_transport :: "connector \<Rightarrow> (directory_error, transport) result" where
  "connect_transport c =
     (if \<not> starts_with (co_url c) ''ldaps://'' \<and> \<not> co_start_tls c \<and> \<not> co_allow_plaintext c
      then Err (DirectoryUnavailable ''refusing a plaintext bind; set ldap_start_tls or ldap_allow_plaintext'')
      else Ok (if starts_with (co_url c) ''ldaps://'' then Ldaps else if co_start_tls c then StartTls else Plain))"

datatype latom = ANone | AText string | ABytes string | ANumber int | AOther string

datatype lvalue = LOne latom | LMany "latom list"

type_synonym lattributes = "(string \<times> lvalue) list"

record lentry =
  le_dn :: string
  le_is_entry :: bool
  le_attributes :: lattributes

datatype added = Added | EntryAlreadyExists | AddFailed string

record 'd ldap =
  l_search :: "string \<Rightarrow> string \<Rightarrow> string list \<Rightarrow> 'd \<Rightarrow> (string, lentry list) result"
  l_read :: "string \<Rightarrow> string list \<Rightarrow> 'd \<Rightarrow> (string, lattributes option) result"
  l_add :: "string \<Rightarrow> string list \<Rightarrow> (string \<times> string) list \<Rightarrow> 'd \<Rightarrow> added \<times> 'd"
  l_modify :: "string \<Rightarrow> (string \<times> string list) list \<Rightarrow> 'd \<Rightarrow> (string, unit) result \<times> 'd"
  l_decode :: "string \<Rightarrow> string"

definition atom_text :: "'d ldap \<Rightarrow> latom \<Rightarrow> string" where
  "atom_text D a = (case a of ANone \<Rightarrow> ''None'' | AText s \<Rightarrow> s | ABytes b \<Rightarrow> l_decode D b | ANumber i \<Rightarrow> show_int i | AOther s \<Rightarrow> s)"

text \<open>\<open>_one\<close>, \<open>_many\<close> and \<open>_strings\<close>.\<close>

definition first_atom :: "lvalue \<Rightarrow> latom" where
  "first_atom v = (case v of LOne a \<Rightarrow> a | LMany [] \<Rightarrow> ANone | LMany (a # _) \<Rightarrow> a)"

definition decoded :: "'d ldap \<Rightarrow> latom \<Rightarrow> latom" where
  "decoded D a = (case a of ABytes b \<Rightarrow> AText (l_decode D b) | _ \<Rightarrow> a)"

fun one_value :: "'d ldap \<Rightarrow> lattributes \<Rightarrow> string list \<Rightarrow> string option" where
  "one_value D attributes [] = None"
| "one_value D attributes (n # ns) = (case map_of attributes n of
       None \<Rightarrow> one_value D attributes ns
     | Some v \<Rightarrow> let a = decoded D (first_atom v) in
         if a = ANone \<or> a = AText [] then one_value D attributes ns else Some (atom_text D a))"

definition atoms :: "lvalue \<Rightarrow> latom list" where
  "atoms v = (case v of LOne a \<Rightarrow> [a] | LMany as \<Rightarrow> as)"

definition many_values :: "'d ldap \<Rightarrow> lattributes \<Rightarrow> string \<Rightarrow> string list" where
  "many_values D attributes n = (case map_of attributes n of
       None \<Rightarrow> [] | Some (LOne ANone) \<Rightarrow> [] | Some v \<Rightarrow> map (atom_text D) (atoms v))"

definition value_strings :: "'d ldap \<Rightarrow> lvalue option \<Rightarrow> string list" where
  "value_strings D v = (case v of
       None \<Rightarrow> [] | Some v \<Rightarrow> map (atom_text D) (filter (\<lambda>a. a \<noteq> ANone \<and> a \<noteq> AText []) (atoms v)))"

section \<open>Reading\<close>

record directory_user =
  du_dn :: string
  du_immutable_id :: string
  du_login :: string
  du_mail :: "string option"
  du_display_name :: "string option"
  du_given_name :: "string option"
  du_surname :: "string option"
  du_member_of :: "string list"
  du_disabled :: bool

text \<open>\<open>int(text)\<close>: surrounding space is ignored, single underscores may separate digits.\<close>

fun int_digits :: "string \<Rightarrow> bool" where
  "int_digits [] = False"
| "int_digits [c] = is_ascii_digit c"
| "int_digits (c # d # r) = (is_ascii_digit c \<and> (if d = CHR ''_'' then int_digits r else int_digits (d # r)))"

definition py_int :: "string \<Rightarrow> int option" where
  "py_int s = (let t = py_strip s;
      ds = (case t of c # r \<Rightarrow> if c = CHR ''-'' \<or> c = CHR ''+'' then r else t | [] \<Rightarrow> []) in
      if int_digits ds then Some (int_value (filter (\<lambda>c. c \<noteq> CHR ''_'') t)) else None)"

definition user_disabled :: "'d ldap \<Rightarrow> directory_profile \<Rightarrow> lattributes \<Rightarrow> bool" where
  "user_disabled D p attributes = (case truthy_flag p of
       Some f \<Rightarrow> (case py_int (case one_value D attributes [f] of Some raw \<Rightarrow> raw | None \<Rightarrow> ''0'') of
           Some i \<Rightarrow> i AND ACCOUNT_DISABLED_BIT \<noteq> 0 | None \<Rightarrow> False)
     | None \<Rightarrow> one_value D attributes [dp_lock_attribute p] \<noteq> None)"

definition to_user :: "'d ldap \<Rightarrow> directory_profile \<Rightarrow> lentry \<Rightarrow> directory_user" where
  "to_user D p e = (let as = le_attributes e; one = (\<lambda>n. one_value D as [n]) in
     \<lparr>du_dn = le_dn e,
      du_immutable_id = (case one (dp_immutable_id p) of Some v \<Rightarrow> v | None \<Rightarrow> le_dn e),
      du_login = (case one_value D as (dp_login_attributes p) of Some v \<Rightarrow> v | None \<Rightarrow> []),
      du_mail = one (dp_mail p), du_display_name = one (dp_display_name p), du_given_name = one (dp_given_name p),
      du_surname = one (dp_surname p), du_member_of = many_values D as (dp_member_of p),
      du_disabled = user_disabled D p as\<rparr>)"

definition dir_search ::
  "'d ldap \<Rightarrow> string \<Rightarrow> string \<Rightarrow> string list \<Rightarrow> nat \<Rightarrow> 'd \<Rightarrow> (directory_error, lentry list) result" where
  "dir_search D base filt attributes limit s = (case l_search D base filt attributes s of
       Inl e \<Rightarrow> Err (DirectoryUnavailable e)
     | Inr entries \<Rightarrow> let found = filter le_is_entry entries in Ok (if limit = 0 then found else take limit found))"

definition find_user :: "'d ldap \<Rightarrow> directory_profile \<Rightarrow> string \<Rightarrow> string \<Rightarrow> 'd \<Rightarrow> (directory_error, directory_user option) result" where
  "find_user D p base login s =
     rbind (user_filter p login) (\<lambda>filt.
     rbind (dir_search D base filt (profile_attributes p) 0 s) (\<lambda>entries.
       Ok (case entries of [e] \<Rightarrow> Some (to_user D p e) | _ \<Rightarrow> None)))"

definition healthy :: "'d ldap \<Rightarrow> string \<Rightarrow> 'd \<Rightarrow> bool" where
  "healthy D base s = (case dir_search D base ''(objectClass=*)'' [''1.1''] 1 s of Inl e \<Rightarrow> False | Inr es \<Rightarrow> True)"

section \<open>Membership and its cache\<close>

definition GROUP_CACHE_TTL :: nat where "GROUP_CACHE_TTL = 15 * 60"
definition GROUP_CACHE_PREFIX :: string where "GROUP_CACHE_PREFIX = ''directory:groups:''"

record group_result =
  gr_groups :: "string set"
  gr_direct :: "string set"
  gr_degraded :: bool
  gr_truncated :: bool

definition groups_naming :: "'d ldap \<Rightarrow> directory_profile \<Rightarrow> string \<Rightarrow> 'd \<Rightarrow> string \<Rightarrow> (directory_error, string list) result" where
  "groups_naming D p base s dn =
     rbind (group_members_filter p dn) (\<lambda>filt.
     rbind (dir_search D base filt [''1.1''] 0 s) (\<lambda>entries. Ok (map le_dn entries)))"

definition direct_groups :: "'d ldap \<Rightarrow> directory_profile \<Rightarrow> string \<Rightarrow> directory_user \<Rightarrow> 'd \<Rightarrow> (directory_error, string list) result" where
  "direct_groups D p base u s = (if du_member_of u \<noteq> [] then Ok (du_member_of u) else groups_naming D p base s (du_dn u))"

text \<open>A cache entry is the JSON document the client wrote; one that is not a list of texts cannot be read.\<close>

definition cached_groups :: "('s redis \<times> time) option \<Rightarrow> string \<Rightarrow> 's \<Rightarrow> string set option" where
  "cached_groups cache k c = (case cache of None \<Rightarrow> None | Some (R, t) \<Rightarrow>
     (case r_get R t (GROUP_CACHE_PREFIX @ k) c of None \<Rightarrow> None
      | Some (PList vs) \<Rightarrow> if list_all is_str vs then Some (set (List.map_filter (\<lambda>v. case v of PStr x \<Rightarrow> Some x | _ \<Rightarrow> None) vs)) else None
      | Some _ \<Rightarrow> None))"

definition remember_groups :: "('s redis \<times> time) option \<Rightarrow> string \<Rightarrow> expansion \<Rightarrow> 's \<Rightarrow> 's" where
  "remember_groups cache k e c = (case cache of None \<Rightarrow> c | Some (R, t) \<Rightarrow>
     if ex_truncated e then c
     else r_set R t (GROUP_CACHE_PREFIX @ k) (PList (map PStr (sorted_list_of_set (ex_groups e)))) GROUP_CACHE_TTL c)"

definition groups_for ::
  "'d ldap \<Rightarrow> directory_profile \<Rightarrow> string \<Rightarrow> ('s redis \<times> time) option \<Rightarrow> directory_user \<Rightarrow> 'd \<Rightarrow> 's \<Rightarrow>
     (directory_error, group_result) result \<times> 's" where
  "groups_for D p base cache u s c =
     (case rbind (direct_groups D p base u s) (\<lambda>direct.
        expand_groups direct (groups_naming D p base s) GROUP_MAX_DEPTH MAX_GROUPS) of
        Inr e \<Rightarrow> (Ok \<lparr>gr_groups = ex_groups e, gr_direct = ex_direct e, gr_degraded = False, gr_truncated = ex_truncated e\<rparr>,
            remember_groups cache (du_immutable_id u) e c)
      | Inl (DirectoryUnavailable m) \<Rightarrow> (case cached_groups cache (du_immutable_id u) c of
            None \<Rightarrow> (Err (DirectoryUnavailable m), c)
          | Some g \<Rightarrow> (Ok \<lparr>gr_groups = g, gr_direct = g, gr_degraded = True, gr_truncated = False\<rparr>, c))
      | Inl e \<Rightarrow> (Err e, c))"

section \<open>Writing\<close>

record write_result =
  wr_dn :: string
  wr_changed :: bool
  wr_detail :: string

record person_spec =
  ps_uid :: string
  ps_given_name :: string
  ps_surname :: string
  ps_mail :: "string option"
  ps_display_name :: "string option"
  ps_principal_name :: "string option"

definition written :: "string \<Rightarrow> bool \<Rightarrow> string \<Rightarrow> write_result" where
  "written dn changed detail = \<lparr>wr_dn = dn, wr_changed = changed, wr_detail = detail\<rparr>"

definition people_dn :: "string \<Rightarrow> string \<Rightarrow> string" where
  "people_dn people_ou base = people_ou @ '','' @ base"

definition dn_for :: "string \<Rightarrow> string \<Rightarrow> string" where
  "dn_for people uid = ''uid='' @ escape_dn uid @ '','' @ people"

definition dir_read :: "'d ldap \<Rightarrow> string \<Rightarrow> string list \<Rightarrow> 'd \<Rightarrow> (directory_error, lattributes option) result" where
  "dir_read D dn attributes s = rmap_err DirectoryUnavailable (l_read D dn attributes s)"

definition set_attr :: "string \<Rightarrow> string \<Rightarrow> (string \<times> string) list \<Rightarrow> (string \<times> string) list" where
  "set_attr k v m = AList.update k v m"

definition set_opt :: "string \<Rightarrow> string option \<Rightarrow> (string \<times> string) list \<Rightarrow> (string \<times> string) list" where
  "set_opt k v m = (case v of Some x \<Rightarrow> if x = [] then m else set_attr k x m | None \<Rightarrow> m)"

text \<open>\<open>login_attributes[0]\<close> raises when the profile has none.\<close>

definition entry_attributes :: "directory_profile \<Rightarrow> person_spec \<Rightarrow> (string \<times> string) list option" where
  "entry_attributes p spec =
     (let base = set_attr (dp_given_name p) (ps_given_name spec) (set_attr (dp_surname p) (ps_surname spec)
        [(''cn'', py_strip (ps_given_name spec @ '' '' @ ps_surname spec))]);
        named = (if ''uid'' \<in> set (dp_login_attributes p) \<or> dp_name p = ''openldap'' then set_attr ''uid'' (ps_uid spec) base else base);
        full = set_opt (dp_display_name p) (ps_display_name spec) (set_opt (dp_mail p) (ps_mail spec) named) in
      case dp_login_attributes p of
        a # _ \<Rightarrow> Some (set_opt a (ps_principal_name spec) full)
      | [] \<Rightarrow> if ps_principal_name spec \<in> {None, Some []} then Some full else None)"

definition ensure_person ::
  "'d ldap \<Rightarrow> directory_profile \<Rightarrow> string \<Rightarrow> person_spec \<Rightarrow> 'd \<Rightarrow> (directory_error, write_result) result \<times> 'd" where
  "ensure_person D p people spec s =
     (let dn = dn_for people (ps_uid spec) in
      case dir_read D dn [''1.1''] s of
        Inl e \<Rightarrow> (Err e, s)
      | Inr (Some _) \<Rightarrow> (Ok (written dn False ''already present''), s)
      | Inr None \<Rightarrow> (case entry_attributes p spec of
          None \<Rightarrow> (Err (DirectoryUnavailable ''tuple index out of range''), s)
        | Some as \<Rightarrow> (case l_add D dn (dp_create_object_classes p) as s of
            (Added, s') \<Rightarrow> (Ok (written dn True ''created''), s')
          | (EntryAlreadyExists, s') \<Rightarrow> (Ok (written dn False ''created concurrently''), s')
          | (AddFailed e, s') \<Rightarrow> (Err (DirectoryUnavailable e), s'))))"

definition do_modify ::
  "'d ldap \<Rightarrow> string \<Rightarrow> (string \<times> string list) list \<Rightarrow> string \<Rightarrow> 'd \<Rightarrow> (directory_error, write_result) result \<times> 'd" where
  "do_modify D dn changes detail s = (case l_modify D dn changes s of
       (Inl e, s') \<Rightarrow> (Err (DirectoryUnavailable e), s') | (Inr _, s') \<Rightarrow> (Ok (written dn True detail), s'))"

fun join_commas :: "string list \<Rightarrow> string" where
  "join_commas [] = []"
| "join_commas [x] = x"
| "join_commas (x # xs) = x @ '','' @ join_commas xs"

definition modify_entry ::
  "'d ldap \<Rightarrow> string \<Rightarrow> (string \<times> string list) list \<Rightarrow> 'd \<Rightarrow> (directory_error, write_result) result \<times> 'd" where
  "modify_entry D dn changes s = (case dir_read D dn (map fst changes) s of
       Inl e \<Rightarrow> (Err e, s)
     | Inr None \<Rightarrow> (Err (DirectoryUnavailable (dn @ '' is not in the directory'')), s)
     | Inr (Some current) \<Rightarrow>
         let differing = filter (\<lambda>(n, vs). sort (value_strings D (map_of current n)) \<noteq> sort vs) changes in
         if differing = [] then (Ok (written dn False ''already correct''), s)
         else do_modify D dn differing (join_commas (sort (map fst differing))) s)"

definition disabled_account_control :: "'d ldap \<Rightarrow> lvalue option \<Rightarrow> int option" where
  "disabled_account_control D current =
     (let existing = (case value_strings D current of
          v # _ \<Rightarrow> (case py_int v of Some i \<Rightarrow> i | None \<Rightarrow> DEFAULT_ACCOUNT_CONTROL) | [] \<Rightarrow> DEFAULT_ACCOUNT_CONTROL) in
      if existing AND ACCOUNT_DISABLED_BIT \<noteq> 0 then None else Some (existing OR ACCOUNT_DISABLED_BIT))"

definition disable_entry :: "'d ldap \<Rightarrow> directory_profile \<Rightarrow> string \<Rightarrow> 'd \<Rightarrow> (directory_error, write_result) result \<times> 'd" where
  "disable_entry D p dn s = (case dir_read D dn [flag_attribute p] s of
       Inl e \<Rightarrow> (Err e, s)
     | Inr None \<Rightarrow> (Err (DirectoryUnavailable (dn @ '' is not in the directory'')), s)
     | Inr (Some current) \<Rightarrow> (case truthy_flag p of
           Some f \<Rightarrow> (case disabled_account_control D (map_of current f) of
               None \<Rightarrow> (Ok (written dn False ''already disabled''), s)
             | Some v \<Rightarrow> do_modify D dn [(f, [show_int v])] ''disabled'' s)
         | None \<Rightarrow> if value_strings D (map_of current (dp_lock_attribute p)) \<noteq> [] then (Ok (written dn False ''already locked''), s)
             else do_modify D dn [(dp_lock_attribute p, [LOCKED_FOREVER])] ''disabled'' s))"

section \<open>The provisioning target\<close>

definition target_provision ::
  "'d ldap \<Rightarrow> directory_profile \<Rightarrow> string \<Rightarrow> person_spec \<Rightarrow> 'd \<Rightarrow> (directory_error, unit) result \<times> 'd" where
  "target_provision D p people spec s =
     (case ensure_person D p people spec s of (r, s') \<Rightarrow> (rbind r (\<lambda>_. Ok ()), s'))"

definition target_disable ::
  "'d ldap \<Rightarrow> directory_profile \<Rightarrow> string \<Rightarrow> string \<Rightarrow> 'd \<Rightarrow> (directory_error, unit) result \<times> 'd" where
  "target_disable D p base login s = (case find_user D p base login s of
       Inl e \<Rightarrow> (Err e, s)
     | Inr None \<Rightarrow> (Ok (), s)
     | Inr (Some u) \<Rightarrow> (case disable_entry D p (du_dn u) s of (r, s') \<Rightarrow> (rbind r (\<lambda>_. Ok ()), s')))"

section \<open>What a directory server promises\<close>

type_synonym entry_view = "string \<Rightarrow> string list"

definition shows_values :: "'d ldap \<Rightarrow> lvalue option \<Rightarrow> string list \<Rightarrow> bool" where
  "shows_values D v vs = (case v of None \<Rightarrow> vs = []
     | Some v \<Rightarrow> list_all (\<lambda>a. a \<noteq> ANone \<and> atom_text D a \<noteq> []) (atoms v) \<and> map (atom_text D) (atoms v) = vs)"

definition override :: "entry_view \<Rightarrow> (string \<times> string list) list \<Rightarrow> entry_view" where
  "override e changes = (\<lambda>a. case map_of changes a of Some vs \<Rightarrow> vs | None \<Rightarrow> e a)"

fun matches :: "(string \<Rightarrow> string \<Rightarrow> string \<Rightarrow> bool) \<Rightarrow> ldap_filter \<Rightarrow> entry_view \<Rightarrow> bool" where
  "matches eqv (LEq a v) e = list_ex (eqv a v) (e a)"
| "matches eqv (LAnd fs) e = (\<forall>f\<in>set fs. matches eqv f e)"
| "matches eqv (LOr fs) e = (\<exists>f\<in>set fs. matches eqv f e)"

definition search_hits :: "(string \<Rightarrow> string \<Rightarrow> string \<Rightarrow> bool) \<Rightarrow> (string \<Rightarrow> string \<Rightarrow> bool) \<Rightarrow> (string \<rightharpoonup> entry_view) \<Rightarrow> string \<Rightarrow> ldap_filter \<Rightarrow> string set" where
  "search_hits eqv below v base f = {dn. below base dn \<and> (\<exists>e. v dn = Some e \<and> matches eqv f e)}"

locale ldap_directory =
  fixes D :: "'d ldap" and view :: "'d \<Rightarrow> string \<rightharpoonup> entry_view" and below :: "string \<Rightarrow> string \<Rightarrow> bool"
    and eqv :: "string \<Rightarrow> string \<Rightarrow> string \<Rightarrow> bool"
  assumes read: "l_read D dn as s = Ok r \<Longrightarrow> (case view s dn of None \<Rightarrow> r = None
      | Some e \<Rightarrow> \<exists>m. r = Some m \<and> (\<forall>a\<in>set as. shows_values D (map_of m a) (e a)))"
    and modify: "l_modify D dn changes s = (Ok u, s') \<Longrightarrow> \<exists>e. view s dn = Some e \<and> view s' = (view s)(dn \<mapsto> override e changes)"
    and modify_fails: "l_modify D dn changes s = (Err m, s') \<Longrightarrow>
      view s' = view s \<or> (\<exists>e. view s dn = Some e \<and> view s' = (view s)(dn \<mapsto> override e changes))"
    and add: "l_add D dn classes attrs s = (Added, s') \<Longrightarrow> view s dn = None \<and> (\<exists>e. view s' = (view s)(dn \<mapsto> e))"
    and add_exists: "l_add D dn classes attrs s = (EntryAlreadyExists, s') \<Longrightarrow> view s' = view s \<and> view s dn \<noteq> None"
    and search: "l_search D base filt as s = Ok es \<Longrightarrow> parse_ldap_filter filt = Some f \<Longrightarrow>
      distinct (map le_dn (filter le_is_entry es)) \<and> le_dn ` set (filter le_is_entry es) = search_hits eqv below (view s) base f \<and>
      (\<forall>x\<in>set (filter le_is_entry es). \<exists>e. view s (le_dn x) = Some e \<and>
         (\<forall>a\<in>set as. shows_values D (map_of (le_attributes x) a) (e a)))"

definition account_off :: "directory_profile \<Rightarrow> entry_view \<Rightarrow> bool" where
  "account_off p e = (case truthy_flag p of
       Some f \<Rightarrow> (case e f of v # _ \<Rightarrow> (case py_int v of Some i \<Rightarrow> i AND ACCOUNT_DISABLED_BIT \<noteq> 0 | None \<Rightarrow> False) | [] \<Rightarrow> False)
     | None \<Rightarrow> e (dp_lock_attribute p) \<noteq> [])"

definition control_of :: "directory_profile \<Rightarrow> entry_view \<Rightarrow> int" where
  "control_of p e = (case e (flag_attribute p) of
       v # _ \<Rightarrow> (case py_int v of Some i \<Rightarrow> i | None \<Rightarrow> DEFAULT_ACCOUNT_CONTROL) | [] \<Rightarrow> DEFAULT_ACCOUNT_CONTROL)"

lemma shows_value_strings: "shows_values D v vs \<Longrightarrow> value_strings D v = vs"
proof (cases v)
  case (Some x)
  assume a: "shows_values D v vs"
  have "filter (\<lambda>a. a \<noteq> ANone \<and> a \<noteq> AText []) (atoms x) = atoms x"
    using a by (auto simp: Some shows_values_def list_all_iff atom_text_def filter_id_conv)
  then show ?thesis using a by (simp add: Some shows_values_def value_strings_def)
qed (simp add: shows_values_def value_strings_def)

lemma shows_one_value:
  assumes "shows_values D (map_of as n) vs"
  shows "one_value D as [n] = (case vs of [] \<Rightarrow> None | x # _ \<Rightarrow> Some x)"
proof (cases "map_of as n")
  case (Some v)
  show ?thesis
  proof (cases "atoms v")
    case Nil
    then show ?thesis using assms Some by (auto simp: shows_values_def atoms_def first_atom_def decoded_def split: lvalue.splits)
  next
    case (Cons a rest)
    then have f: "first_atom v = a" by (auto simp: atoms_def first_atom_def split: lvalue.splits)
    have "a \<noteq> ANone" "atom_text D a \<noteq> []" "vs = atom_text D a # map (atom_text D) rest"
      using assms Some Cons by (auto simp: shows_values_def)
    moreover have "decoded D a \<noteq> ANone \<and> decoded D a \<noteq> AText [] \<and> atom_text D (decoded D a) = atom_text D a"
      using calculation by (cases a) (auto simp: decoded_def atom_text_def)
    ultimately show ?thesis by (simp add: Some f Let_def)
  qed
qed (use assms in \<open>simp add: shows_values_def\<close>)

lemma py_int_show: "py_int (show_int i) = Some i"
proof -
  have score: "\<not> is_ascii_digit (CHR ''_'')" by (simp add: is_ascii_digit_def)
  have ok: "int_digits ds" if "ds \<noteq> []" "\<forall>c\<in>set ds. is_ascii_digit c" for ds
    using that
  proof (induction ds rule: int_digits.induct)
    case (3 c d r)
    then have "d \<noteq> CHR ''_''" using score by force
    with 3 show ?case by simp
  qed simp_all
  have digits: "\<not> py_is_space c \<and> c \<noteq> CHR ''_'' \<and> c \<noteq> CHR ''-'' \<and> c \<noteq> CHR ''+''" if "is_ascii_digit c" for c
  proof -
    have "c \<noteq> CHR ''_''" using that score by metis
    then show ?thesis using digit_not[OF that] by simp
  qed
  have minus: "\<not> py_is_space (CHR ''-'')" by (simp add: py_is_space_def)
  let ?s = "show_int i"
  obtain n where s: "?s = show_nat n \<or> ?s = CHR ''-'' # show_nat n"
    by (cases "i < 0") (simp_all add: show_int_def, blast+)
  have all: "\<forall>c\<in>set ?s. \<not> py_is_space c \<and> c \<noteq> CHR ''_''" 
  proof
    fix c
    assume "c \<in> set ?s"
    then have "c = CHR ''-'' \<or> is_ascii_digit c" using s show_nat_digits[of n] by auto
    then show "\<not> py_is_space c \<and> c \<noteq> CHR ''_''" using digits[of c] minus by auto
  qed
  have strip: "py_strip ?s = ?s"
  proof -
    have ne: "?s \<noteq> []" using s show_nat_ne by auto
    then have "dropWhile py_is_space ?s = ?s" "dropWhile py_is_space (rev ?s) = rev ?s"
      using all hd_in_set[OF ne] last_in_set[OF ne] by (simp_all add: dropWhile_eq_self_iff hd_rev)
    then show ?thesis by (simp add: py_strip_def)
  qed
  have scores: "filter (\<lambda>c. c \<noteq> CHR ''_'') ?s = ?s" using all by (simp add: filter_id_conv)
  obtain c r where cr: "show_nat n = c # r" "is_ascii_digit c" by (rule show_nat_Cons)
  have ds: "int_digits (show_nat n)" using ok show_nat_ne show_nat_digits by blast
  have "int_digits (case ?s of c # r \<Rightarrow> if c = CHR ''-'' \<or> c = CHR ''+'' then r else ?s | [] \<Rightarrow> [])"
    using s ds cr digits[OF cr(2)] by auto
  then show ?thesis by (simp add: py_int_def strip scores int_value_show_int)
qed

lemma disabled_bit: "(i OR ACCOUNT_DISABLED_BIT) AND ACCOUNT_DISABLED_BIT \<noteq> 0"
proof -
  have "bit ((i OR 2) AND (2 :: int)) 1" by (simp add: bit_or_iff bit_and_iff bit_2_iff)
  then show ?thesis unfolding ACCOUNT_DISABLED_BIT_def by (intro notI) simp
qed

lemma other_bits: "n \<noteq> 1 \<Longrightarrow> bit (i OR ACCOUNT_DISABLED_BIT) n = bit i n"
  by (simp add: ACCOUNT_DISABLED_BIT_def bit_or_iff bit_2_iff)

lemma do_modify_Ok:
  "do_modify D dn changes detail s = (Ok r, s') \<longleftrightarrow> (\<exists>u. l_modify D dn changes s = (Ok u, s')) \<and> r = written dn True detail"
  by (auto simp: do_modify_def split: prod.splits sum.splits)

definition login_tree :: "directory_profile \<Rightarrow> string \<Rightarrow> ldap_filter" where
  "login_tree p login = LAnd [LEq ''objectClass'' (dp_user_object_class p), any_tree (dp_login_attributes p) login]"

definition plain_profile :: "directory_profile \<Rightarrow> bool" where
  "plain_profile p = (dp_login_attributes p \<noteq> [] \<and> list_all plain_attribute (dp_login_attributes p))"

lemma user_filter_parses:
  assumes "plain_profile p"
  shows "\<exists>t. user_filter p login = Ok t \<and> parse_ldap_filter t = Some (login_tree p login)"
proof -
  obtain clause where c: "any_of (dp_login_attributes p) login = Ok clause"
    using assms unfolding any_of_def plain_profile_def by (cases "dp_login_attributes p"; cases "tl (dp_login_attributes p)") auto
  then obtain x where "clause = CHR ''('' # x" using read_any_of(2)[OF c] assms by (auto simp: plain_profile_def)
  then obtain t where t: "all_of [equality ''objectClass'' (dp_user_object_class p), clause] = Ok t"
    by (simp add: all_of_def equality_def)
  have "list_all plain_attribute (''objectClass'' # dp_login_attributes p)"
    using assms by (simp add: plain_profile_def plain_attribute_def)
  from filter_tree[OF this c t] show ?thesis by (simp add: user_filter_def c t login_tree_def)
qed

context ldap_directory
begin

lemma disable_exact:
  assumes "disable_entry D p dn s = (Ok r, s')"
  shows "\<exists>e e'. view s dn = Some e \<and> view s' = (view s)(dn \<mapsto> e') \<and> account_off p e' \<and>
     (\<forall>a. a \<noteq> flag_attribute p \<longrightarrow> e' a = e a) \<and> wr_changed r = (\<not> account_off p e) \<and>
     (\<not> wr_changed r \<longrightarrow> s' = s) \<and>
     (truthy_flag p \<noteq> None \<longrightarrow> (\<forall>n. n \<noteq> 1 \<longrightarrow> bit (control_of p e') n = bit (control_of p e) n))"
proof -
  obtain current where c: "l_read D dn [flag_attribute p] s = Ok (Some current)"
    using assms by (auto simp: disable_entry_def dir_read_def rmap_err_def split: sum.splits option.splits)
  obtain e where e: "view s dn = Some e" "shows_values D (map_of current (flag_attribute p)) (e (flag_attribute p))"
    using read[OF c] by (cases "view s dn") auto
  note vs = shows_value_strings[OF e(2)]
  show ?thesis
  proof (cases "truthy_flag p")
    case None
    then have fa: "flag_attribute p = dp_lock_attribute p" by (simp add: flag_attribute_def)
    show ?thesis
    proof (cases "e (dp_lock_attribute p) = []")
      case True
      then have "do_modify D dn [(dp_lock_attribute p, [LOCKED_FOREVER])] ''disabled'' s = (Ok r, s')"
        using assms None vs by (simp add: disable_entry_def dir_read_def rmap_err_def c[unfolded fa] fa)
      then have "view s' = (view s)(dn \<mapsto> override e [(dp_lock_attribute p, [LOCKED_FOREVER])])" "wr_changed r"
        using modify e(1) by (fastforce simp: do_modify_Ok written_def)+
      then show ?thesis using e(1) None True
        by (intro exI[of _ e] exI[of _ "override e [(dp_lock_attribute p, [LOCKED_FOREVER])]"])
          (simp add: account_off_def override_def fa)
    next
      case False
      then have "s' = s \<and> r = written dn False ''already locked''"
        using assms None vs by (auto simp: disable_entry_def dir_read_def rmap_err_def c[unfolded fa] fa)
      then show ?thesis using e(1) None False
        by (intro exI[of _ e]) (simp add: account_off_def written_def map_upd_triv)
    qed
  next
    case (Some f)
    then have fa: "flag_attribute p = f" by (simp add: flag_attribute_def)
    have off: "account_off p e \<longleftrightarrow> control_of p e AND ACCOUNT_DISABLED_BIT \<noteq> 0"
      by (simp add: account_off_def Some control_of_def fa DEFAULT_ACCOUNT_CONTROL_def ACCOUNT_DISABLED_BIT_def
          split: list.split option.split)
    have dac: "disabled_account_control D (map_of current f) =
        (if account_off p e then None else Some (control_of p e OR ACCOUNT_DISABLED_BIT))"
      using vs by (simp add: disabled_account_control_def Let_def off fa) (simp add: control_of_def fa)
    show ?thesis
    proof (cases "account_off p e")
      case True
      then have "s' = s \<and> r = written dn False ''already disabled''"
        using assms Some dac by (auto simp: disable_entry_def dir_read_def rmap_err_def c[unfolded fa] fa)
      then show ?thesis using e(1) True by (intro exI[of _ e]) (simp add: written_def map_upd_triv)
    next
      case False
      let ?v = "control_of p e OR ACCOUNT_DISABLED_BIT" and ?e = "override e [(f, [show_int (control_of p e OR ACCOUNT_DISABLED_BIT)])]"
      have "do_modify D dn [(f, [show_int ?v])] ''disabled'' s = (Ok r, s')"
        using assms Some dac False by (simp add: disable_entry_def dir_read_def rmap_err_def c[unfolded fa] fa)
      then have "view s' = (view s)(dn \<mapsto> ?e)" "wr_changed r"
        using modify e(1) by (fastforce simp: do_modify_Ok written_def)+
      moreover have "control_of p ?e = ?v" by (simp add: control_of_def fa override_def py_int_show)
      moreover have "account_off p ?e"
        using disabled_bit by (simp add: account_off_def Some override_def py_int_show)
      ultimately show ?thesis using e(1) False other_bits
        by (intro exI[of _ e] exI[of _ ?e]) (simp add: override_def fa)
    qed
  qed
qed

text \<open>Whatever the outcome, also an error after the write went through.\<close>

lemma disable_confined:
  assumes "disable_entry D p dn s = (r, s')"
  shows "view s' = view s \<or> (\<exists>e e'. view s dn = Some e \<and> view s' = (view s)(dn \<mapsto> e') \<and> account_off p e' \<and>
     (\<forall>a. a \<noteq> flag_attribute p \<longrightarrow> e' a = e a))"
proof (cases r)
  case (Inr w)
  then show ?thesis using disable_exact assms by blast
next
  case (Inl x)
  show ?thesis
  proof (cases "s' = s")
    case False
    then obtain v m where m: "l_modify D dn [(flag_attribute p, [v])] s = (Err m, s')"
        "if truthy_flag p = None then v = LOCKED_FOREVER else \<exists>i. v = show_int (i OR ACCOUNT_DISABLED_BIT)"
      using assms Inl by (auto simp: disable_entry_def do_modify_def dir_read_def rmap_err_def flag_attribute_def disabled_account_control_def
          Let_def split: sum.splits option.splits prod.splits if_splits)
    have off: "account_off p (override e [(flag_attribute p, [v])])" for e
      using m(2) disabled_bit by (cases "truthy_flag p") (auto simp: account_off_def flag_attribute_def override_def py_int_show)
    have rest: "a \<noteq> flag_attribute p \<Longrightarrow> override e [(flag_attribute p, [v])] a = e a" for a e by (simp add: override_def)
    show ?thesis using modify_fails[OF m(1)] off rest by blast
  qed simp
qed

lemma find_user_exact:
  assumes "plain_profile p" and "find_user D p base login s = Ok r"
  shows "case r of
      None \<Rightarrow> \<nexists>dn. search_hits eqv below (view s) base (login_tree p login) = {dn}
    | Some u \<Rightarrow> search_hits eqv below (view s) base (login_tree p login) = {du_dn u} \<and>
        (\<exists>e. view s (du_dn u) = Some e \<and> du_disabled u = account_off p e)"
proof -
  let ?T = "search_hits eqv below (view s) base (login_tree p login)"
  obtain t where t: "user_filter p login = Ok t" "parse_ldap_filter t = Some (login_tree p login)"
    using user_filter_parses[OF assms(1)] by blast
  obtain es where es: "l_search D base t (profile_attributes p) s = Ok es"
      "r = (case filter le_is_entry es of [e] \<Rightarrow> Some (to_user D p e) | _ \<Rightarrow> None)"
    using assms(2) by (auto simp: find_user_def t(1) dir_search_def split: sum.splits)
  let ?es = "filter le_is_entry es"
  note laws = search[OF es(1) t(2)]
  have card: "(\<exists>dn. ?T = {dn}) \<longleftrightarrow> length ?es = 1"
  proof -
    have "card ?T = length ?es" using laws distinct_card[of "map le_dn ?es"] by simp
    then show ?thesis by (auto simp: card_1_singleton_iff[symmetric] dest: card_1_singletonE)
  qed
  show ?thesis
  proof (cases "length ?es = 1")
    case True
    then obtain x where x: "?es = [x]" by (auto simp: length_Suc_conv)
    then have T: "?T = {le_dn x}" using laws by simp
    obtain e where e: "view s (le_dn x) = Some e"
        "\<forall>a\<in>set (profile_attributes p). shows_values D (map_of (le_attributes x) a) (e a)"
      using laws x by auto
    have "flag_attribute p \<in> set (profile_attributes p)" by (simp add: profile_attributes_def)
    then have o: "one_value D (le_attributes x) [flag_attribute p] = (case e (flag_attribute p) of [] \<Rightarrow> None | v # _ \<Rightarrow> Some v)"
      using e(2) by (intro shows_one_value) blast
    have "show_int 0 = ''0''" by code_simp
    then have "py_int ''0'' = Some 0" using py_int_show[of 0] by simp
    then have "user_disabled D p (le_attributes x) = account_off p e"
      using o by (cases "truthy_flag p"; cases "e (flag_attribute p)")
        (simp_all add: user_disabled_def account_off_def flag_attribute_def del: one_value.simps)
    then show ?thesis using x T e(1) es(2) by (simp add: to_user_def Let_def)
  next
    case False
    then have "r = None" using es(2) by (auto split: list.splits)
    then show ?thesis using card False by simp
  qed
qed

end

section \<open>A directory in memory\<close>

type_synonym mem_directory = "(string \<times> (string \<times> string list) list) list"

definition mem_entry :: "(string \<times> string list) list \<Rightarrow> entry_view" where
  "mem_entry as = (\<lambda>a. filter (\<lambda>v. v \<noteq> []) (case map_of as a of Some vs \<Rightarrow> vs | None \<Rightarrow> []))"

definition mem_view :: "mem_directory \<Rightarrow> string \<rightharpoonup> entry_view" where
  "mem_view s dn = map_option mem_entry (map_of s dn)"

definition shown :: "entry_view \<Rightarrow> string list \<Rightarrow> lattributes" where
  "shown e attributes = map (\<lambda>a. (a, LMany (map AText (e a)))) attributes"

definition same_text :: "string \<Rightarrow> string \<Rightarrow> string \<Rightarrow> bool" where
  "same_text a v x = (v = x)"

definition in_subtree :: "string \<Rightarrow> string \<Rightarrow> bool" where
  "in_subtree base dn = ends_with dn base"

definition mem_ldap :: "mem_directory ldap" where
  "mem_ldap = \<lparr>
     l_search = (\<lambda>base filt as s. case parse_ldap_filter filt of
         None \<Rightarrow> Err ''bad filter''
       | Some f \<Rightarrow> Ok (map (\<lambda>dn. \<lparr>le_dn = dn, le_is_entry = True, le_attributes = shown (the (mem_view s dn)) as\<rparr>)
           (filter (\<lambda>dn. in_subtree base dn \<and> matches same_text f (the (mem_view s dn))) (remdups (map fst s))))),
     l_read = (\<lambda>dn as s. Ok (map_option (\<lambda>e. shown e as) (mem_view s dn))),
     l_add = (\<lambda>dn classes as s. if map_of s dn \<noteq> None then (EntryAlreadyExists, s)
        else (Added, (dn, (''objectClass'', classes) # map (\<lambda>(a, v). (a, [v])) as) # s)),
     l_modify = (\<lambda>dn changes s. case map_of s dn of
         None \<Rightarrow> (Err ''noSuchObject'', s)
       | Some as \<Rightarrow> if \<exists>c\<in>set changes. [] \<in> set (snd c) then (Err ''invalidAttributeSyntax'', s) else (Ok (), (dn, changes @ as) # s)),
     l_decode = id\<rparr>"

lemma mem_entry_nonblank: "v \<in> set (mem_entry as a) \<Longrightarrow> v \<noteq> []"
  by (simp add: mem_entry_def)

lemma shown_shows:
  assumes "\<And>v. v \<in> set (e a) \<Longrightarrow> v \<noteq> []" and "a \<in> set as"
  shows "shows_values D (map_of (shown e as) a) (e a)"
proof -
  have "map_of (shown e as) a = Some (LMany (map AText (e a)))"
    using assms(2) unfolding shown_def by (induction as) auto
  then show ?thesis using assms(1) by (simp add: shows_values_def atoms_def list_all_iff atom_text_def comp_def)
qed

lemma mem_view_nonblank: "mem_view s dn = Some e \<Longrightarrow> v \<in> set (e a) \<Longrightarrow> v \<noteq> []"
  by (auto simp: mem_view_def dest: mem_entry_nonblank)

lemma mem_entry_override:
  assumes "\<not> (\<exists>c\<in>set changes. [] \<in> set (snd c))"
  shows "mem_entry (changes @ as) = override (mem_entry as) changes"
proof
  fix a
  have "filter (\<lambda>v. v \<noteq> []) vs = vs" if "map_of changes a = Some vs" for vs
    using assms map_of_SomeD[OF that] by (force simp: filter_id_conv)
  then show "mem_entry (changes @ as) a = override (mem_entry as) changes a"
    by (simp add: mem_entry_def override_def map_add_def split: option.split)
qed

interpretation mem_dir: ldap_directory mem_ldap mem_view in_subtree same_text
proof (unfold_locales, goal_cases)
  case (1 dn as s r)
  then show ?case by (auto simp: mem_ldap_def shown_shows mem_view_nonblank split: option.split)
next
  case (2 dn changes s u s')
  then obtain as where as: "map_of s dn = Some as" "\<not> (\<exists>c\<in>set changes. [] \<in> set (snd c))" "s' = (dn, changes @ as) # s"
    by (auto simp: mem_ldap_def split: option.splits if_splits)
  then show ?case by (auto simp: mem_view_def mem_entry_override fun_eq_iff)
next
  case (3 dn changes s m s')
  then show ?case by (auto simp: mem_ldap_def split: option.splits if_splits)
next
  case (4 dn classes attrs s s')
  then show ?case by (auto simp: mem_ldap_def mem_view_def fun_eq_iff split: if_splits)
next
  case (5 dn classes attrs s s')
  then show ?case by (auto simp: mem_ldap_def mem_view_def split: if_splits)
next
  case (6 base filt as s es f)
  let ?dns = "filter (\<lambda>dn. in_subtree base dn \<and> matches same_text f (the (mem_view s dn))) (remdups (map fst s))"
  have es: "es = map (\<lambda>dn. \<lparr>le_dn = dn, le_is_entry = True, le_attributes = shown (the (mem_view s dn)) as\<rparr>) ?dns"
    using 6 by (simp add: mem_ldap_def)
  then have entries: "filter le_is_entry es = es" by (simp add: filter_id_conv)
  have iff: "dn \<in> fst ` set s \<longleftrightarrow> mem_view s dn \<noteq> None" for dn
    by (simp add: mem_view_def map_of_eq_None_iff)
  then have known: "\<exists>e. mem_view s dn = Some e" if "dn \<in> fst ` set s" for dn using that by blast
  have "le_dn ` set es = set ?dns" unfolding es set_map image_image by simp
  also have "\<dots> = {dn. dn \<in> fst ` set s \<and> in_subtree base dn \<and> matches same_text f (the (mem_view s dn))}"
    by auto
  also have "\<dots> = search_hits same_text in_subtree (mem_view s) base f"
    unfolding iff search_hits_def by auto
  finally have "le_dn ` set es = search_hits same_text in_subtree (mem_view s) base f" .
  moreover have "\<exists>e. mem_view s (le_dn x) = Some e \<and> (\<forall>a\<in>set as. shows_values mem_ldap (map_of (le_attributes x) a) (e a))"
    if mem: "x \<in> set es" for x
  proof -
    obtain dn where dn: "x = \<lparr>le_dn = dn, le_is_entry = True, le_attributes = shown (the (mem_view s dn)) as\<rparr>" "dn \<in> fst ` set s"
      using mem es by auto
    obtain e where x: "x = \<lparr>le_dn = dn, le_is_entry = True, le_attributes = shown (the (mem_view s dn)) as\<rparr>" "mem_view s dn = Some e"
      using dn known by blast
    have "\<forall>a\<in>set as. shows_values mem_ldap (map_of (shown e as) a) (e a)"
      using mem_view_nonblank[OF x(2)] by (intro ballI shown_shows)
    then show ?thesis using x by simp
  qed
  moreover have "distinct (map le_dn es)" by (simp add: es comp_def)
  ultimately show ?case unfolding entries by blast
qed

section \<open>Properties\<close>

text \<open>C24. Disabling a person in the directory disables that person and nothing else.  When exactly one entry
  answers to the login, its account is off afterwards, its other attributes and the other bits of its
  account control are as they were, and every other entry is untouched; when none or several do, nothing
  changes.\<close>

theorem target_disable_exact:
  assumes "ldap_directory D view below eqv" and "plain_profile p" and "target_disable D p base login s = (Ok (), s')"
  shows "let T = search_hits eqv below (view s) base (login_tree p login) in
     if \<exists>dn. T = {dn} then \<exists>dn e e'. T = {dn} \<and> view s dn = Some e \<and> view s' = (view s)(dn \<mapsto> e') \<and> account_off p e' \<and>
         (\<forall>a. a \<noteq> flag_attribute p \<longrightarrow> e' a = e a) \<and>
         (truthy_flag p \<noteq> None \<longrightarrow> (\<forall>n. n \<noteq> 1 \<longrightarrow> bit (control_of p e') n = bit (control_of p e) n))
     else s' = s"
proof -
  obtain r where r: "find_user D p base login s = Ok r"
    using assms(3) by (auto simp: target_disable_def split: sum.splits)
  note u = ldap_directory.find_user_exact[OF assms(1,2) r]
  show ?thesis
  proof (cases r)
    case None
    then show ?thesis using u assms(3) r by (auto simp: target_disable_def Let_def)
  next
    case (Some x)
    obtain w where w: "disable_entry D p (du_dn x) s = (Ok w, s')"
      using assms(3) r Some by (auto simp: target_disable_def rbind_def split: prod.splits sum.splits)
    from ldap_directory.disable_exact[OF assms(1) w] obtain e e' where
      "view s (du_dn x) = Some e" "view s' = (view s)(du_dn x \<mapsto> e')" "account_off p e'"
      "\<forall>a. a \<noteq> flag_attribute p \<longrightarrow> e' a = e a"
      "truthy_flag p \<noteq> None \<longrightarrow> (\<forall>n. n \<noteq> 1 \<longrightarrow> bit (control_of p e') n = bit (control_of p e) n)"
      by blast
    moreover have T: "search_hits eqv below (view s) base (login_tree p login) = {du_dn x}" using u Some by simp
    ultimately have "\<exists>dn e e'. search_hits eqv below (view s) base (login_tree p login) = {dn} \<and> view s dn = Some e \<and>
        view s' = (view s)(dn \<mapsto> e') \<and> account_off p e' \<and> (\<forall>a. a \<noteq> flag_attribute p \<longrightarrow> e' a = e a) \<and>
        (truthy_flag p \<noteq> None \<longrightarrow> (\<forall>n. n \<noteq> 1 \<longrightarrow> bit (control_of p e') n = bit (control_of p e) n))" by blast
    then show ?thesis unfolding Let_def using T by (subst if_P) blast+
  qed
qed

definition sample_directory :: "string \<Rightarrow> mem_directory" where
  "sample_directory control = [(''uid=ada,ou=people,dc=x'', [(''objectClass'', [''user'']), (''sAMAccountName'', [''ada'']),
     (''userAccountControl'', [control])])]"

lemmas directory_eval = search_hits_def login_tree_def any_tree_def ACTIVE_DIRECTORY_def mem_view_def mem_entry_def
  sample_directory_def same_text_def in_subtree_def ends_with_def

lemma AD_plain: "plain_profile ACTIVE_DIRECTORY"
  by (simp add: plain_profile_def ACTIVE_DIRECTORY_def plain_attribute_def)

lemma sample_hits:
  "search_hits same_text in_subtree (mem_view (sample_directory c)) ''dc=x'' (login_tree ACTIVE_DIRECTORY ''ada'') = {''uid=ada,ou=people,dc=x''}"
  by (auto simp: directory_eval split: if_splits)

lemma mem_find_user:
  assumes "plain_profile p"
  obtains r where "find_user mem_ldap p base login s = Ok r"
proof -
  obtain t where "user_filter p login = Ok t" "parse_ldap_filter t = Some (login_tree p login)"
    using user_filter_parses[OF assms] by blast
  then show thesis using that by (simp add: find_user_def dir_search_def mem_ldap_def)
qed

lemma mem_disable:
  assumes "mem_view s dn = Some e"
  shows "\<exists>w s'. disable_entry mem_ldap p dn s = (Ok w, s')"
proof -
  obtain as where as: "map_of s dn = Some as" using assms by (auto simp: mem_view_def)
  have read: "dir_read mem_ldap dn ns s = Ok (Some (shown e ns))" for ns
    by (simp add: dir_read_def rmap_err_def mem_ldap_def assms)
  have stored: "\<exists>w s'. do_modify mem_ldap dn [(a, [v])] m s = (Ok w, s')" if "v \<noteq> []" for a v m
    using that by (simp add: do_modify_def mem_ldap_def as)
  have "show_int v \<noteq> []" for v using show_nat_ne by (simp add: show_int_def)
  then show ?thesis
    using stored by (simp add: disable_entry_def read LOCKED_FOREVER_def split: option.split)
qed

lemma sample_disable:
  obtains s' where "target_disable mem_ldap ACTIVE_DIRECTORY ''dc=x'' ''ada'' (sample_directory c) = (Ok (), s')"
proof -
  obtain r where r: "find_user mem_ldap ACTIVE_DIRECTORY ''dc=x'' ''ada'' (sample_directory c) = Ok r"
    using mem_find_user[OF AD_plain] by blast
  from mem_dir.find_user_exact[OF AD_plain r] sample_hits obtain u e where u: "r = Some u" "mem_view (sample_directory c) (du_dn u) = Some e"
    by (cases r) auto
  from mem_disable[OF u(2)] obtain w s' where "disable_entry mem_ldap ACTIVE_DIRECTORY (du_dn u) (sample_directory c) = (Ok w, s')"
    by blast
  then show thesis using that r u by (simp add: target_disable_def)
qed

theorem target_disable_exact_witness:
  "\<exists>s' e. target_disable mem_ldap ACTIVE_DIRECTORY ''dc=x'' ''ada'' (sample_directory ''512'') = (Ok (), s') \<and>
     mem_view s' ''uid=ada,ou=people,dc=x'' = Some e \<and> account_off ACTIVE_DIRECTORY e \<and> e ''sAMAccountName'' = [''ada'']"
proof -
  obtain s' where s': "target_disable mem_ldap ACTIVE_DIRECTORY ''dc=x'' ''ada'' (sample_directory ''512'') = (Ok (), s')"
    by (rule sample_disable)
  have fa: "''sAMAccountName'' \<noteq> flag_attribute ACTIVE_DIRECTORY"
    by (simp add: flag_attribute_def truthy_flag_def ACTIVE_DIRECTORY_def)
  have v: "mem_view (sample_directory ''512'') ''uid=ada,ou=people,dc=x'' = Some e \<Longrightarrow> e ''sAMAccountName'' = [''ada'']" for e
    by (auto simp: mem_view_def sample_directory_def mem_entry_def)
  from target_disable_exact[OF mem_dir.ldap_directory_axioms AD_plain s', unfolded sample_hits Let_def] fa v s'
  show ?thesis by auto
qed

text \<open>When two entries answer to a person's login, disabling that login is reported as done and disables
  neither.\<close>

theorem ambiguous_login_left_enabled:
  assumes "ldap_directory D view below eqv" and "plain_profile p" and "find_user D p base login s = Ok r"
    and "{a, b} \<subseteq> search_hits eqv below (view s) base (login_tree p login)" and "a \<noteq> b"
  shows "target_disable D p base login s = (Ok (), s)"
proof -
  have "r = None"
    using ldap_directory.find_user_exact[OF assms(1-3)] assms(4,5) by (cases r) auto
  then show ?thesis using assms(3) by (simp add: target_disable_def)
qed

definition twin_directory :: mem_directory where
  "twin_directory = sample_directory ''512'' @ [(''uid=ada2,ou=people,dc=x'', [(''objectClass'', [''user'']), (''userPrincipalName'', [''ada''])])]"

theorem ambiguous_login_left_enabled_witness:
  "target_disable mem_ldap ACTIVE_DIRECTORY ''dc=x'' ''ada'' twin_directory = (Ok (), twin_directory)"
proof -
  obtain r where r: "find_user mem_ldap ACTIVE_DIRECTORY ''dc=x'' ''ada'' twin_directory = Ok r" using mem_find_user[OF AD_plain] by blast
  have "{''uid=ada,ou=people,dc=x'', ''uid=ada2,ou=people,dc=x''} \<subseteq>
      search_hits same_text in_subtree (mem_view twin_directory) ''dc=x'' (login_tree ACTIVE_DIRECTORY ''ada'')"
    by (simp add: directory_eval twin_directory_def)
  from ambiguous_login_left_enabled[OF mem_dir.ldap_directory_axioms AD_plain r this] show ?thesis by simp
qed

lemma cached_after_remember:
  assumes "redis_server R visible" and "finite (ex_groups e)" and "\<not> ex_truncated e" and "t \<le> t'" and "t' < t + 900000"
  shows "cached_groups (Some (R, t')) k (remember_groups (Some (R, t)) k e c) = Some (ex_groups e)"
proof -
  let ?doc = "PList (map PStr (sorted_list_of_set (ex_groups e)))"
  let ?c = "remember_groups (Some (R, t)) k e c"
  have "visible t ?c = (visible t c)(GROUP_CACHE_PREFIX @ k \<mapsto> (RVal ?doc, deadline t GROUP_CACHE_TTL))"
    using assms(3) by (simp add: remember_groups_def GROUP_CACHE_TTL_def redis_server.set[OF assms(1)])
  then have "r_get R t' (GROUP_CACHE_PREFIX @ k) ?c = Some ?doc"
    using assms(5) by (simp add: redis_server.get[OF assms(1)] redis_server.later[OF assms(1,4)] unexpired_def alive_def text_of_def
        deadline_def GROUP_CACHE_TTL_def)
  moreover have "List.map_filter (\<lambda>v. case v of PStr x \<Rightarrow> Some x | _ \<Rightarrow> None) (map PStr xs) = xs" for xs
    by (induction xs) (simp_all add: map_filter_simps)
  moreover have "list_all is_str (map PStr xs)" for xs by (simp add: list_all_iff)
  ultimately show ?thesis using assms(2) by (simp add: cached_groups_def)
qed

text \<open>An outage keeps the groups people have: after a complete answer, a lookup within the quarter of an hour
  that finds the directory unreachable is answered with the same groups and marked degraded; with nothing
  remembered it fails, and never answers that somebody is in no group.\<close>

theorem outage_serves_last_groups:
  assumes "redis_server R visible" and "groups_for D p base (Some (R, t)) u s c = (Ok g, c')" and "\<not> gr_degraded g"
    and "\<not> gr_truncated g" and "finite (gr_groups g)" and "t \<le> t'" and "t' < t + 900000"
    and down: "direct_groups D' p' base' u' s' = Err (DirectoryUnavailable m)" and "du_immutable_id u' = du_immutable_id u"
  shows "groups_for D' p' base' (Some (R, t')) u' s' c' =
      (Ok \<lparr>gr_groups = gr_groups g, gr_direct = gr_groups g, gr_degraded = True, gr_truncated = False\<rparr>, c') \<and>
    groups_for D' p' base' None u' s' c'' = (Err (DirectoryUnavailable m), c'')"
proof -
  obtain e where e: "c' = remember_groups (Some (R, t)) (du_immutable_id u) e c" "gr_groups g = ex_groups e" "gr_truncated g = ex_truncated e"
    using assms(2,3) by (auto simp: groups_for_def split: sum.splits directory_error.splits option.splits)
  have "cached_groups (Some (R, t')) (du_immutable_id u') c' = Some (gr_groups g)"
    using cached_after_remember[OF assms(1), of e t t' "du_immutable_id u" c] assms(4-7,9) e by simp
  then show ?thesis using down by (simp add: groups_for_def cached_groups_def[of None])
qed

text \<open>What a search depends on.\<close>

fun filter_attributes :: "ldap_filter \<Rightarrow> string set" where
  "filter_attributes (LEq a v) = {a}"
| "filter_attributes (LAnd fs) = (\<Union>f\<in>set fs. filter_attributes f)"
| "filter_attributes (LOr fs) = (\<Union>f\<in>set fs. filter_attributes f)"

lemma matches_cong: "(\<And>a. a \<in> filter_attributes f \<Longrightarrow> e a = e' a) \<Longrightarrow> matches eqv f e = matches eqv f e'"
proof (induction f)
  case (LAnd fs)
  then have "\<And>f. f \<in> set fs \<Longrightarrow> matches eqv f e = matches eqv f e'" by fastforce
  then show ?case by simp
next
  case (LOr fs)
  then have "\<And>f. f \<in> set fs \<Longrightarrow> matches eqv f e = matches eqv f e'" by fastforce
  then show ?case by simp
qed simp

definition member_user :: directory_user where
  "member_user = \<lparr>du_dn = ''uid=ada'', du_immutable_id = ''i'', du_login = ''ada'', du_mail = None, du_display_name = None,
     du_given_name = None, du_surname = None, du_member_of = [''cn=a''], du_disabled = False\<rparr>"

definition bare_user :: directory_user where
  "bare_user = member_user\<lparr>du_member_of := []\<rparr>"

text \<open>A server that has no groups, and one that does not answer.\<close>

definition quiet_ldap :: "(string, lentry list) result \<Rightarrow> unit ldap" where
  "quiet_ldap answer = \<lparr>l_search = (\<lambda>_ _ _ _. answer), l_read = (\<lambda>_ _ _. Ok None), l_add = (\<lambda>_ _ _ s. (Added, s)),
     l_modify = (\<lambda>_ _ s. (Ok (), s)), l_decode = id\<rparr>"

theorem outage_serves_last_groups_witness:
  "\<exists>g c'. groups_for (quiet_ldap (Ok [])) OPENLDAP ''dc=x'' (Some (mem_redis, 0)) member_user () (\<lambda>k. None) = (Ok g, c') \<and>
     gr_groups g = {''cn=a''} \<and>
     groups_for (quiet_ldap (Err ''down'')) OPENLDAP ''dc=x'' (Some (mem_redis, 5)) bare_user () c' =
       (Ok \<lparr>gr_groups = gr_groups g, gr_direct = gr_groups g, gr_degraded = True, gr_truncated = False\<rparr>, c')"
proof -
  have filt: "group_members_filter OPENLDAP dn = Ok (''(&'' @ equality ''objectClass'' ''groupOfNames'' @ equality ''member'' dn @ '')'')" for dn
    by (simp add: group_members_filter_def OPENLDAP_def all_of_def equality_def)
  have none: "groups_naming (quiet_ldap (Ok [])) OPENLDAP ''dc=x'' () = (\<lambda>dn. Ok [])"
    by (simp add: groups_naming_def filt dir_search_def quiet_ldap_def fun_eq_iff)
  have ex: "expand_groups [''cn=a''] (\<lambda>dn. Ok [] :: (directory_error, string list) result) 5 1000 =
      Ok \<lparr>ex_groups = {''cn=a''}, ex_direct = {''cn=a''}, ex_truncated = False, ex_depth_reached = 0\<rparr>"
    by (simp add: expand_groups_def unique_list_def eval_nat_numeral add_parents_def Let_def)
  define g where "g = \<lparr>gr_groups = {''cn=a''}, gr_direct = {''cn=a''}, gr_degraded = False, gr_truncated = False\<rparr>"
  define c' where "c' = remember_groups (Some (mem_redis, 0)) ''i''
    \<lparr>ex_groups = {''cn=a''}, ex_direct = {''cn=a''}, ex_truncated = False, ex_depth_reached = 0\<rparr> (\<lambda>k. None)"
  have "direct_groups (quiet_ldap (Ok [])) OPENLDAP ''dc=x'' member_user () = Ok [''cn=a'']" "du_immutable_id member_user = ''i''"
    by (simp_all add: direct_groups_def member_user_def)
  then have "groups_for (quiet_ldap (Ok [])) OPENLDAP ''dc=x'' (Some (mem_redis, 0)) member_user () (\<lambda>k. None) = (Ok g, c')"
    by (simp add: groups_for_def none ex GROUP_MAX_DEPTH_def MAX_GROUPS_def g_def c'_def)
  moreover have "gr_groups g = {''cn=a''}" "\<not> gr_degraded g" "\<not> gr_truncated g" by (simp_all add: g_def)
  ultimately have g: "groups_for (quiet_ldap (Ok [])) OPENLDAP ''dc=x'' (Some (mem_redis, 0)) member_user () (\<lambda>k. None) = (Ok g, c')"
      "gr_groups g = {''cn=a''}" "\<not> gr_degraded g" "\<not> gr_truncated g" by blast+
  have down: "direct_groups (quiet_ldap (Err ''down'')) OPENLDAP ''dc=x'' bare_user () = Err (DirectoryUnavailable ''down'')"
    by (simp add: direct_groups_def bare_user_def member_user_def groups_naming_def filt dir_search_def quiet_ldap_def)
  have "du_immutable_id bare_user = du_immutable_id member_user" by (simp add: bare_user_def)
  note outage_serves_last_groups[OF mem.redis_server_axioms g(1,3,4) _ _ _ down this, where t' = 5 and c'' = c']
  moreover have "finite (gr_groups g)" by (simp add: g(2))
  ultimately have "groups_for (quiet_ldap (Err ''down'')) OPENLDAP ''dc=x'' (Some (mem_redis, 5)) bare_user () c' =
      (Ok \<lparr>gr_groups = gr_groups g, gr_direct = gr_groups g, gr_degraded = True, gr_truncated = False\<rparr>, c')" by simp
  with g(1,2) show ?thesis by blast
qed

end
