(* ===== verification/Orchestrator.thy ===== *)
theory Orchestrator
  imports LifecycleStore DeadLetters Sessions Grants Identity AuditLog Directory
begin

text \<open>
  Joiner, mover and leaver (\<open>campusid/lifecycle/orchestrator.py\<close>): the order in which a change of
  affiliation takes effect on the stores modelled elsewhere.

  A target is its name and what it answers to each attempt of a write.  The state a transition works on
  is the lifecycle tables, the Redis the sessions, grants and decisions share, the dead letters and the
  audit trail, here the events as the orchestrator records them.  An error leaves the state reached so
  far.  The clocks, the correlation id and the identifiers of new dead letters are the \<open>moment\<close>.
\<close>

definition PROVISION_ACCOUNTS :: string where "PROVISION_ACCOUNTS = ''provision_accounts''"
definition DISABLE_ACCOUNTS :: string where "DISABLE_ACCOUNTS = ''disable_accounts''"
definition TERMINATE_SESSIONS :: string where "TERMINATE_SESSIONS = ''terminate_sessions''"
definition REVOKE_TOKENS :: string where "REVOKE_TOKENS = ''revoke_tokens''"
definition REVOKE_ENTITLEMENTS :: string where "REVOKE_ENTITLEMENTS = ''revoke_entitlements''"

definition DEPROVISION_ORDER :: "string list" where
  "DEPROVISION_ORDER = [DISABLE_ACCOUNTS, TERMINATE_SESSIONS, REVOKE_TOKENS, REVOKE_ENTITLEMENTS]"

definition event_for :: "string \<Rightarrow> event_type" where
  "event_for kind = (if kind = JOINER then LIFECYCLE_JOINER else if kind = LEAVER then LIFECYCLE_LEAVER else LIFECYCLE_MOVER)"

record target =
  tg_name :: string
  tg_provision :: "person_spec \<Rightarrow> nat \<Rightarrow> unit Retry.outcome"
  tg_disable :: "string \<Rightarrow> nat \<Rightarrow> unit Retry.outcome"

record trail_entry =
  te_event :: event_type
  te_outcome :: audit_outcome
  te_subject :: string
  te_target :: "string option"
  te_detail :: dict

record 's orchestrator =
  or_rules :: lifecycle_rules
  or_persons :: "string set"
  or_sessions :: "'s session_store"
  or_grants :: "'s grant_store"
  or_decisions :: "('s cache \<times> bool) option"
  or_targets :: "target list"
  or_identity :: "identity_db option"
  or_dead_letters :: bool
  or_uniform :: "nat \<Rightarrow> nat \<Rightarrow> nat"

record moment =
  mo_time :: time
  mo_today :: int
  mo_now :: int
  mo_at :: int
  mo_correlation :: string
  mo_fresh :: "string \<Rightarrow> string"

record 's world =
  wo_lifecycle :: lifecycle_db
  wo_redis :: 's
  wo_dead :: "dead_letter list"
  wo_trail :: "trail_entry list"

datatype orchestrator_error = TargetRetries "attempt list" | TargetRaised string | TargetIndex | SessionsFailed session_error | LifecycleFailed

definition audit_append :: "trail_entry \<Rightarrow> 's world \<Rightarrow> 's world" where
  "audit_append e w = w\<lparr>wo_trail := wo_trail w @ [e]\<rparr>"

definition step_entry :: "string \<Rightarrow> string \<Rightarrow> dict \<Rightarrow> trail_entry" where
  "step_entry p step detail = \<lparr>te_event = DEPROVISION_STEP, te_outcome = SUCCESS, te_subject = p, te_target = None,
     te_detail = (''step'', PStr step) # detail\<rparr>"

definition record_step :: "string \<Rightarrow> string \<Rightarrow> dict \<Rightarrow> 's world \<Rightarrow> 's world" where
  "record_step p step detail = audit_append (step_entry p step detail)"

definition retry_failed :: "retry_error \<Rightarrow> orchestrator_error" where
  "retry_failed e = (case e of RetriesExhausted h \<Rightarrow> TargetRetries h | Raised m \<Rightarrow> TargetRaised m | IndexError \<Rightarrow> TargetIndex)"

definition count_pair :: "string \<Rightarrow> nat \<Rightarrow> string \<times> pyval" where
  "count_pair k n = (k, PInt (int n))"

definition outcome_detail :: "string list \<Rightarrow> string list \<Rightarrow> dict" where
  "outcome_detail done failed = (''targets'', strs done) # (if failed = [] then [] else [(''dead_lettered'', strs failed)])"

section \<open>Downstream accounts\<close>

definition login_for :: "identity_db option \<Rightarrow> string \<Rightarrow> string option" where
  "login_for identity p = (case identity of None \<Rightarrow> None | Some db \<Rightarrow>
     (let eppns = filter (\<lambda>i. if_type i = ''eppn'') (identifiers db p True); live = filter (\<lambda>i. if_released_at i = None) eppns in
      case live of i # _ \<Rightarrow> Some (if_value i) | [] \<Rightarrow> (case eppns of i # _ \<Rightarrow> Some (if_value i) | [] \<Rightarrow> None)))"

definition local_part :: "string \<Rightarrow> string" where
  "local_part login = fst (py_partition (CHR ''@'') login)"

definition or_text :: "string option \<Rightarrow> string \<Rightarrow> string" where
  "or_text v d = (case v of Some s \<Rightarrow> if s = [] then d else s | None \<Rightarrow> d)"

definition spec_for :: "identity_db option \<Rightarrow> string \<Rightarrow> person_spec option" where
  "spec_for identity p = (case identity of None \<Rightarrow> None | Some db \<Rightarrow>
     (let rows = identifiers db p False; eppns = filter (\<lambda>i. if_type i = ''eppn'') rows;
          login = (case filter if_primary eppns of i # _ \<Rightarrow> Some (if_value i)
            | [] \<Rightarrow> (case eppns of i # _ \<Rightarrow> Some (if_value i) | [] \<Rightarrow> None));
          person = find_person db p in
      case login of None \<Rightarrow> None
      | Some l \<Rightarrow> Some \<lparr>ps_uid = local_part l, ps_given_name = or_text (Option.bind person pe_given_name) [],
          ps_surname = or_text (Option.bind person pe_surname) (local_part l),
          ps_mail = (case filter (\<lambda>i. if_type i = ''mail'') rows of i # _ \<Rightarrow> Some (if_value i) | [] \<Rightarrow> None),
          ps_display_name = Option.bind person pe_display_name, ps_principal_name = Some l\<rparr>))"

definition file_failure :: "moment \<Rightarrow> string \<Rightarrow> string \<Rightarrow> string \<Rightarrow> string \<Rightarrow> attempt list \<Rightarrow> 's world \<Rightarrow> 's world" where
  "file_failure mo p tgt operation login attempts w = w\<lparr>wo_dead := snd (record_dead (mo_fresh mo (operation @ tgt)) (mo_correlation mo)
     (mo_at mo) (p, tgt, operation) (PDict [(''login'', PStr login)]) attempts (wo_dead w))\<rparr>"

definition disable_one ::
  "'s orchestrator \<Rightarrow> moment \<Rightarrow> target \<Rightarrow> string \<Rightarrow> string \<Rightarrow> 's world \<Rightarrow> (orchestrator_error, bool) result \<times> 's world" where
  "disable_one orc mo t p login w = (case fst (with_retries (or_uniform orc) (tg_disable t login) MAX_ATTEMPTS) of
       Inr _ \<Rightarrow> (Ok True, w)
     | Inl (RetriesExhausted attempts) \<Rightarrow>
         if \<not> or_dead_letters orc then (Err (TargetRetries attempts), w)
         else (Ok False, audit_append \<lparr>te_event = DEPROVISION_STEP, te_outcome = FAILURE, te_subject = p, te_target = None,
             te_detail = [(''step'', PStr DISABLE_ACCOUNTS), (''target'', PStr (tg_name t)), count_pair ''attempts'' (length attempts)]\<rparr>
           (file_failure mo p (tg_name t) ''disable'' login attempts w))
     | Inl e \<Rightarrow> (Err (retry_failed e), w))"

fun disable_each ::
  "'s orchestrator \<Rightarrow> moment \<Rightarrow> string \<Rightarrow> string \<Rightarrow> target list \<Rightarrow> 's world \<Rightarrow>
     (orchestrator_error, string list \<times> string list) result \<times> 's world" where
  "disable_each orc mo p login [] w = (Ok ([], []), w)"
| "disable_each orc mo p login (t # ts) w = (case disable_one orc mo t p login w of
       (Inl e, w1) \<Rightarrow> (Err e, w1)
     | (Inr ok, w1) \<Rightarrow> (case disable_each orc mo p login ts w1 of
         (Inl e, w2) \<Rightarrow> (Err e, w2)
       | (Inr (off, failed), w2) \<Rightarrow> (Ok (if ok then tg_name t # off else off, if ok then failed else tg_name t # failed), w2)))"

definition disable_accounts ::
  "'s orchestrator \<Rightarrow> moment \<Rightarrow> string \<Rightarrow> 's world \<Rightarrow> (orchestrator_error, string list) result \<times> 's world" where
  "disable_accounts orc mo p w =
     (if or_targets orc = [] then (Ok [], record_step p DISABLE_ACCOUNTS [(''targets'', strs [])] w)
      else case login_for (or_identity orc) p of
        None \<Rightarrow> (Ok [], record_step p DISABLE_ACCOUNTS [(''targets'', strs []), (''reason'', PStr ''no login'')] w)
      | Some login \<Rightarrow> (case disable_each orc mo p login (or_targets orc) w of
          (Inl e, w') \<Rightarrow> (Err e, w')
        | (Inr (off, failed), w') \<Rightarrow> (Ok off, record_step p DISABLE_ACCOUNTS (outcome_detail off failed) w')))"

fun provision_each ::
  "'s orchestrator \<Rightarrow> moment \<Rightarrow> string \<Rightarrow> person_spec \<Rightarrow> target list \<Rightarrow> 's world \<Rightarrow>
     (orchestrator_error, string list \<times> string list) result \<times> 's world" where
  "provision_each orc mo p spec [] w = (Ok ([], []), w)"
| "provision_each orc mo p spec (t # ts) w = (case fst (with_retries (or_uniform orc) (tg_provision t spec) MAX_ATTEMPTS) of
       Inr _ \<Rightarrow> (case provision_each orc mo p spec ts w of
           (Inl e, w') \<Rightarrow> (Err e, w') | (Inr (done, failed), w') \<Rightarrow> (Ok (tg_name t # done, failed), w'))
     | Inl (RetriesExhausted attempts) \<Rightarrow>
         if \<not> or_dead_letters orc then (Err (TargetRetries attempts), w)
         else (case provision_each orc mo p spec ts (file_failure mo p (tg_name t) ''provision'' (ps_uid spec) attempts w) of
           (Inl e, w') \<Rightarrow> (Err e, w') | (Inr (done, failed), w') \<Rightarrow> (Ok (done, tg_name t # failed), w'))
     | Inl e \<Rightarrow> (Err (retry_failed e), w))"

definition provision_accounts ::
  "'s orchestrator \<Rightarrow> moment \<Rightarrow> string \<Rightarrow> 's world \<Rightarrow> (orchestrator_error, unit) result \<times> 's world" where
  "provision_accounts orc mo p w =
     (if or_targets orc = [] then (Ok (), record_step p PROVISION_ACCOUNTS [(''targets'', strs [])] w)
      else case spec_for (or_identity orc) p of
        None \<Rightarrow> (Ok (), record_step p PROVISION_ACCOUNTS [(''targets'', strs []), (''reason'', PStr ''no login'')] w)
      | Some spec \<Rightarrow> (case provision_each orc mo p spec (or_targets orc) w of
          (Inl e, w') \<Rightarrow> (Err e, w')
        | (Inr (done, failed), w') \<Rightarrow> (Ok (), record_step p PROVISION_ACCOUNTS (outcome_detail done failed) w')))"

section \<open>Transitions\<close>

definition invalidate_decisions :: "'s orchestrator \<Rightarrow> moment \<Rightarrow> string \<Rightarrow> 's world \<Rightarrow> 's world" where
  "invalidate_decisions orc mo p w = (case or_decisions orc of None \<Rightarrow> w
     | Some (C, up) \<Rightarrow> w\<lparr>wo_redis := invalidate C up (mo_time mo) p (wo_redis w)\<rparr>)"

definition apply_lifecycle ::
  "'s orchestrator \<Rightarrow> moment \<Rightarrow> string \<Rightarrow> delta \<Rightarrow> string list \<Rightarrow> string list \<Rightarrow> string \<Rightarrow> 's world \<Rightarrow>
     (orchestrator_error, unit) result \<times> 's world" where
  "apply_lifecycle orc mo p \<delta> before after source w =
     (case apply_delta (or_persons orc) (mo_now mo) (mo_at mo) (mo_correlation mo) p \<delta> before after source (wo_lifecycle w) of
        Inl e \<Rightarrow> (Err LifecycleFailed, w) | Inr db \<Rightarrow> (Ok (), w\<lparr>wo_lifecycle := db\<rparr>))"

fun revoke_families_of :: "'s grant_store \<Rightarrow> time \<Rightarrow> string list \<Rightarrow> 's \<Rightarrow> nat \<times> 's" where
  "revoke_families_of G t [] s = (0, s)"
| "revoke_families_of G t (sid # sids) s =
     (let (fs, s1) = revoke_session_families G t sid s; (n, s2) = revoke_families_of G t sids s1 in (length fs + n, s2))"

definition leaver_entry :: "string \<Rightarrow> string list \<Rightarrow> nat \<Rightarrow> nat \<Rightarrow> string list \<Rightarrow> trail_entry" where
  "leaver_entry p before sids families off = \<lparr>te_event = LIFECYCLE_LEAVER, te_outcome = SUCCESS, te_subject = p, te_target = None,
     te_detail = [(''affiliations_ended'', strs (sorted_set before)), count_pair ''sessions_terminated'' sids,
       count_pair ''families_revoked'' families, (''targets_disabled'', strs off)]\<rparr>"

definition deprovision ::
  "'s orchestrator \<Rightarrow> moment \<Rightarrow> string \<Rightarrow> string list \<Rightarrow> string \<Rightarrow> 's world \<Rightarrow> (orchestrator_error, delta) result \<times> 's world" where
  "deprovision orc mo p before source w =
     (let \<delta> = transition (or_rules orc) before [] (mo_today mo) in
      case disable_accounts orc mo p w of
        (Inl e, w1) \<Rightarrow> (Err e, w1)
      | (Inr off, w1) \<Rightarrow> (case terminate_subject (or_sessions orc) (mo_time mo) p (wo_redis w1) of
          (Inl e, s) \<Rightarrow> (Err (SessionsFailed e), w1\<lparr>wo_redis := s\<rparr>)
        | (Inr sids, s) \<Rightarrow>
            (let w2 = record_step p TERMINATE_SESSIONS [count_pair ''sessions'' (length sids)] (w1\<lparr>wo_redis := s\<rparr>);
                 (families, s') = revoke_families_of (or_grants orc) (mo_time mo) sids (wo_redis w2);
                 w3 = record_step p REVOKE_TOKENS [count_pair ''families'' families] (w2\<lparr>wo_redis := s'\<rparr>) in
             case apply_lifecycle orc mo p \<delta> before [] source w3 of
               (Inl e, w4) \<Rightarrow> (Err e, w4)
             | (Inr _, w4) \<Rightarrow>
                 (let w5 = record_step p REVOKE_ENTITLEMENTS [count_pair ''immediate'' (length (delta_immediate \<delta>)),
                        count_pair ''deferred'' (length (delta_deferred \<delta>))] w4;
                      w6 = invalidate_decisions orc mo p w5 in
                  (Ok \<delta>, audit_append (leaver_entry p before (length sids) families off) w6)))))"

definition date_isoformat :: "int \<Rightarrow> string" where
  "date_isoformat day = (let (y, m, d) = civil (day + 719162) in padded 4 y @ ''-'' @ padded 2 m @ ''-'' @ padded 2 d)"

definition delta_entries :: "string \<Rightarrow> string list \<Rightarrow> string list \<Rightarrow> delta \<Rightarrow> string \<Rightarrow> trail_entry list" where
  "delta_entries p before after \<delta> source =
     map (\<lambda>g. \<lparr>te_event = ENTITLEMENT_GRANTED, te_outcome = SUCCESS, te_subject = p, te_target = Some (g_urn g),
       te_detail = [(''rule'', PStr (g_rule_id g)), (''affiliation'', PStr (g_affiliation g))]\<rparr>) (dl_granted \<delta>) @
     map (\<lambda>r. \<lparr>te_event = ENTITLEMENT_REVOKED, te_outcome = SUCCESS, te_subject = p, te_target = Some (rv_urn r),
       te_detail = [(''effective'', PStr (date_isoformat (rv_effective r))), (''grace_days'', PInt (rv_grace_days r))]\<rparr>) (dl_revoked \<delta>) @
     [\<lparr>te_event = event_for (event_type_of before after), te_outcome = SUCCESS, te_subject = p, te_target = None,
       te_detail = [(''source'', PStr source), (''before'', strs (sorted_set before)), (''after'', strs (sorted_set after)),
         (''granted'', strs (map g_urn (dl_granted \<delta>))), (''revoked'', strs (map rv_urn (dl_revoked \<delta>)))]\<rparr>]"

definition record_delta :: "string \<Rightarrow> string list \<Rightarrow> string list \<Rightarrow> delta \<Rightarrow> string \<Rightarrow> 's world \<Rightarrow> 's world" where
  "record_delta p before after \<delta> source w = fold audit_append (delta_entries p before after \<delta> source) w"

definition transitioned ::
  "'s orchestrator \<Rightarrow> moment \<Rightarrow> string \<Rightarrow> string list \<Rightarrow> string list \<Rightarrow> string \<Rightarrow> 's world \<Rightarrow>
     (orchestrator_error, delta) result \<times> 's world" where
  "transitioned orc mo p before after source w =
     (if after = [] \<and> before \<noteq> [] then deprovision orc mo p before source w
      else let \<delta> = transition (or_rules orc) before after (mo_today mo) in
        case apply_lifecycle orc mo p \<delta> before after source w of
          (Inl e, w1) \<Rightarrow> (Err e, w1)
        | (Inr _, w1) \<Rightarrow> (case provision_accounts orc mo p w1 of
            (Inl e, w2) \<Rightarrow> (Err e, w2)
          | (Inr _, w2) \<Rightarrow> (Ok \<delta>, record_delta p before after \<delta> source (invalidate_decisions orc mo p w2))))"

section \<open>What a run leaves behind\<close>

text \<open>Disabling and provisioning touch the trail and the dead letters only, and every entry added for a target is a
  failure.\<close>

definition unharmed :: "'s world \<Rightarrow> 's world \<Rightarrow> bool" where
  "unharmed w w' \<longleftrightarrow> wo_redis w' = wo_redis w \<and> wo_lifecycle w' = wo_lifecycle w"

definition only_failures :: "'s world \<Rightarrow> 's world \<Rightarrow> bool" where
  "only_failures w w' \<longleftrightarrow> (\<exists>es. wo_trail w' = wo_trail w @ es \<and> list_all (\<lambda>e. te_outcome e = FAILURE) es)"

lemma unharmed_trans: "unharmed u v \<Longrightarrow> unharmed v w \<Longrightarrow> unharmed u w"
  by (simp add: unharmed_def)

lemma only_failures_trans: "only_failures u v \<Longrightarrow> only_failures v w \<Longrightarrow> only_failures u w"
  by (auto simp: only_failures_def)

lemma only_failures_refl [simp]: "only_failures w w"
  by (simp add: only_failures_def)

lemma audit_append_sel [simp]:
  "wo_redis (audit_append e w) = wo_redis w" "wo_lifecycle (audit_append e w) = wo_lifecycle w"
  "wo_dead (audit_append e w) = wo_dead w" "wo_trail (audit_append e w) = wo_trail w @ [e]"
  by (simp_all add: audit_append_def)

lemma record_step_sel [simp]:
  "wo_redis (record_step p step d w) = wo_redis w" "wo_lifecycle (record_step p step d w) = wo_lifecycle w"
  "wo_trail (record_step p step d w) = wo_trail w @ [step_entry p step d]"
  by (simp_all add: record_step_def)

lemma disable_one_confined: "disable_one orc mo t p login w = (r, w') \<Longrightarrow> unharmed w w' \<and> only_failures w w'"
  by (auto simp: disable_one_def unharmed_def only_failures_def file_failure_def split: sum.splits retry_error.splits if_splits)

lemma disable_each_confined: "disable_each orc mo p login ts w = (r, w') \<Longrightarrow> unharmed w w' \<and> only_failures w w'"
proof (induction ts arbitrary: w w' r)
  case Nil
  then show ?case by (simp add: unharmed_def)
next
  case (Cons t ts)
  obtain r1 w1 where one: "disable_one orc mo t p login w = (r1, w1)" by fastforce
  obtain r2 w2 where rest: "disable_each orc mo p login ts w1 = (r2, w2)" by fastforce
  have "w' = w1 \<or> w' = w2" using Cons.prems one rest by (auto split: sum.splits)
  then show ?case
    using disable_one_confined[OF one] Cons.IH[OF rest] by (metis only_failures_trans unharmed_trans)
qed

text \<open>A write that never fails for good either succeeds or is filed, and the next target is tried.\<close>

definition retriable :: "(nat \<Rightarrow> 'a Retry.outcome) \<Rightarrow> bool" where
  "retriable f \<longleftrightarrow> (\<forall>n e. f n \<noteq> Fatal e)"

lemma retriable_retries:
  assumes "retriable f"
  shows "(\<exists>a. fst (with_retries u f MAX_ATTEMPTS) = Inr a) \<or> (\<exists>h. fst (with_retries u f MAX_ATTEMPTS) = Inl (RetriesExhausted h))"
proof (cases "find (\<lambda>n. \<not> transient (f n)) [1..<Suc MAX_ATTEMPTS]")
  case None
  then have "fst (with_retries u f MAX_ATTEMPTS) = all_failed (tried f [1..<Suc MAX_ATTEMPTS])"
    by (simp add: with_retries_def retry_loop_result del: upt_Suc)
  moreover have "tried f [1..<Suc MAX_ATTEMPTS] \<noteq> []" by (simp add: tried_def MAX_ATTEMPTS_def)
  ultimately show ?thesis by (auto simp: all_failed_def)
next
  case (Some n)
  then have "\<not> transient (f n)" by (auto simp: find_Some_iff)
  then show ?thesis
    using Some assms by (cases "f n") (simp_all add: with_retries_def retry_loop_result retriable_def del: upt_Suc)
qed

lemma disable_each_returns:
  assumes "or_dead_letters orc" and "\<forall>t\<in>set ts. retriable (tg_disable t login)"
  shows "\<exists>off failed w'. disable_each orc mo p login ts w = (Ok (off, failed), w')"
  using assms(2)
proof (induction ts arbitrary: w)
  case (Cons t ts)
  have "\<exists>ok w1. disable_one orc mo t p login w = (Ok ok, w1)"
    using retriable_retries[of "tg_disable t login" "or_uniform orc"] Cons.prems assms(1) by (auto simp: disable_one_def)
  then obtain ok w1 where one: "disable_one orc mo t p login w = (Ok ok, w1)" by blast
  obtain off failed w2 where "disable_each orc mo p login ts w1 = (Ok (off, failed), w2)"
    using Cons.IH[of w1] Cons.prems by auto
  then show ?case using one by simp
qed simp

lemma disable_accounts_returns:
  assumes "or_dead_letters orc" and "\<forall>t\<in>set (or_targets orc). \<forall>login. retriable (tg_disable t login)"
  shows "\<exists>off w'. disable_accounts orc mo p w = (Ok off, w')"
proof (cases "login_for (or_identity orc) p")
  case (Some login)
  obtain off failed w' where "disable_each orc mo p login (or_targets orc) w = (Ok (off, failed), w')"
    using disable_each_returns[OF assms(1), of "or_targets orc"] assms(2) by blast
  then show ?thesis using Some by (simp add: disable_accounts_def)
qed (simp add: disable_accounts_def)

lemma disable_accounts_confined:
  assumes "disable_accounts orc mo p w = (Ok off, w')"
  shows "unharmed w w' \<and> (\<exists>es d. wo_trail w' = wo_trail w @ es @ [step_entry p DISABLE_ACCOUNTS d] \<and> list_all (\<lambda>e. te_outcome e = FAILURE) es)"
proof (cases "or_targets orc = [] \<or> login_for (or_identity orc) p = None")
  case True
  then obtain d where "w' = record_step p DISABLE_ACCOUNTS d w"
    using assms by (auto simp: disable_accounts_def split: if_splits)
  then show ?thesis by (auto simp: unharmed_def intro: exI[of _ "[]"])
next
  case False
  then obtain login where l: "login_for (or_identity orc) p = Some login" by auto
  obtain r w1 where e: "disable_each orc mo p login (or_targets orc) w = (r, w1)" by fastforce
  then obtain failed where "w' = record_step p DISABLE_ACCOUNTS (outcome_detail off failed) w1"
    using assms False l by (auto simp: disable_accounts_def split: sum.splits)
  then show ?thesis using disable_each_confined[OF e] by (auto simp: unharmed_def only_failures_def)
qed

section \<open>Keys of one component are left alone by the others\<close>

context sessions_on_redis
begin

lemma session_keys:
  "starts_with (store_key S sid) ''session:''" "starts_with (index_key S sub) ''session:''"
  by (simp_all add: store_key_def index_key_def prefix SESSION_KEY_PREFIX_def SUBJECT_INDEX_PREFIX_def starts_with_def)

lemma destroy_frame: "\<not> starts_with k ''session:'' \<Longrightarrow> visible t (snd (session_destroy S t sid s)) k = visible t s k"
  using session_keys by (auto simp: session_destroy_def delete srem split: option.splits)

lemma destroy_all_frame: "\<not> starts_with k ''session:'' \<Longrightarrow> visible t (snd (destroy_all S t sids s)) k = visible t s k"
proof (induction sids arbitrary: s)
  case (Cons sid sids)
  then show ?case using destroy_frame[OF Cons.prems, of t sid s] by (auto split: prod.splits sum.splits)
qed simp

lemma terminate_frame:
  assumes "terminate_subject S t sub s = (r, s')" and "\<not> starts_with k ''session:''"
  shows "visible t s' k = visible t s k"
proof -
  obtain r1 s1 where d: "destroy_all S t (sids_for S t sub s) s = (r1, s1)" by fastforce
  have "k \<noteq> index_key S sub" using session_keys(2)[of sub] assms(2) by metis
  then have "visible t s' k = visible t s1 k" using assms(1) d by (auto simp: terminate_subject_def delete split: sum.splits)
  then show ?thesis using destroy_all_frame[OF assms(2), of t "sids_for S t sub s" s] d by simp
qed

text \<open>What a load finds depends on the keys of sessions alone.\<close>

lemma load_read_frame:
  assumes "\<And>k. starts_with k ''session:'' \<Longrightarrow> visible t s' k = visible t s k" and "t \<le> t'"
  shows "load_read S t' sid s' = load_read S t' sid s"
proof -
  have "visible t s' (store_key S sid) = visible t s (store_key S sid)" by (rule assms(1)) (rule session_keys)
  then have "visible t' s' (store_key S sid) = visible t' s (store_key S sid)"
    by (simp add: later[OF assms(2)] unexpired_def)
  then show ?thesis by (simp add: load_read_def get)
qed

end

context grants_on_redis
begin

lemma family_key_apart: "family_key f \<noteq> session_key sid" "session_key sid \<noteq> family_key f"
  by (simp_all add: FAMILY_REVOKED_PREFIX_def SESSION_FAMILY_PREFIX_def)

lemma families_frame:
  assumes "revoke_families_of G t sids s = (n, s')" and "\<not> starts_with k ''oidc:''"
  shows "visible t s' k = visible t s k"
  using assms(1)
proof (induction sids arbitrary: s n)
  case (Cons sid sids)
  obtain fs s1 where one: "revoke_session_families G t sid s = (fs, s1)" by fastforce
  obtain m s2 where rest: "revoke_families_of G t sids s1 = (m, s2)" by fastforce
  have k: "k \<noteq> session_key x" "k \<noteq> family_key x" for x
    using assms(2) by (auto simp: starts_with_def FAMILY_REVOKED_PREFIX_def SESSION_FAMILY_PREFIX_def)
  have "visible t s1 k = visible t s k" using revoke_session_families_view[OF one k(1)] k(2) by auto
  then show ?case using Cons one rest by simp
qed simp

lemma families_kept:
  assumes "revoke_families_of G t sids s = (n, s')" and "visible t s (family_key f) \<noteq> None"
  shows "visible t s' (family_key f) \<noteq> None"
  using assms
proof (induction sids arbitrary: s n)
  case (Cons sid sids)
  obtain fs s1 where one: "revoke_session_families G t sid s = (fs, s1)" by fastforce
  have "visible t s1 (family_key f) \<noteq> None"
    using revoke_session_families_view[OF one, of "family_key f"] Cons.prems(2) family_key_apart by auto
  then show ?case using Cons one by (simp split: prod.splits)
qed simp

text \<open>Every family of every session named is revoked.\<close>

lemma families_revoked:
  assumes "revoke_families_of G t sids s = (n, s')" and "sid \<in> set sids" and "f |\<in>| members_of (visible t s (session_key sid))"
  shows "is_family_revoked G t f s'"
  using assms
proof (induction sids arbitrary: s n)
  case (Cons a sids)
  obtain fs s1 where one: "revoke_session_families G t a s = (fs, s1)" by fastforce
  obtain m s2 where rest: "revoke_families_of G t sids s1 = (m, s2)" by fastforce
  have s2: "s' = s2" using Cons.prems(1) one rest by simp
  have fs: "set fs = fset (members_of (visible t s (session_key a)))"
    using one by (auto simp: revoke_session_families_def Let_def smembers)
  show ?case
  proof (cases "sid = a")
    case True
    then have "f \<in> set fs" using fs Cons.prems(3) by simp
    then have "visible t s1 (family_key f) \<noteq> None"
      using revoke_session_families_view[OF one, of "family_key f"] family_key_apart by auto
    then show ?thesis using families_kept[OF rest] s2 by (simp add: is_family_revoked_def exists)
  next
    case False
    then have "visible t s1 (session_key sid) = visible t s (session_key sid)"
      using revoke_session_families_view[OF one, of "session_key sid"] family_key_apart by auto
    then show ?thesis using Cons.IH[OF rest[folded s2]] Cons.prems(2,3) False by simp
  qed
qed simp

end

section \<open>The leaver sequence\<close>

definition step_of :: "trail_entry \<Rightarrow> pyval option" where
  "step_of e = map_of (te_detail e) ''step''"

definition completed :: "'s world \<Rightarrow> 's world \<Rightarrow> trail_entry list" where
  "completed w w' = filter (\<lambda>e. te_outcome e = SUCCESS) (drop (length (wo_trail w)) (wo_trail w'))"

locale deprovisioning = sess: sessions_on_redis "or_sessions orc" visible + gra: grants_on_redis "or_grants orc" visible
  for orc :: "'s orchestrator" and visible :: "time \<Rightarrow> 's \<Rightarrow> keyspace" +
  assumes decisions: "or_decisions orc = Some (C, up) \<Longrightarrow> redis_server (dc_redis C) visible"
begin

lemma invalidate_sel [simp]:
  "wo_lifecycle (invalidate_decisions orc mo p w) = wo_lifecycle w" "wo_trail (invalidate_decisions orc mo p w) = wo_trail w"
  by (simp_all add: invalidate_decisions_def split: option.splits)

lemma invalidate_frame:
  assumes "\<not> starts_with k ''authz:''"
  shows "visible (mo_time mo) (wo_redis (invalidate_decisions orc mo p w)) k = visible (mo_time mo) (wo_redis w) k"
proof (cases "or_decisions orc")
  case (Some cu)
  obtain C up where cu: "cu = (C, up)" by fastforce
  have "k \<noteq> epoch_key p" using assms by (auto simp: epoch_key_def EPOCH_PREFIX_def starts_with_def)
  then show ?thesis
    using redis_server.incr(2)[OF decisions[OF Some[unfolded cu]]] Some cu by (simp add: invalidate_decisions_def invalidate_def)
qed (simp add: invalidate_decisions_def)

text \<open>The keys after the four steps: only those of authorization decisions have changed since the tokens went.\<close>

lemma sequence:
  assumes "disable_accounts orc mo p w = (Ok off, w1)" and "sess.store_ok (wo_redis w) (mo_time mo)"
    and "deprovision orc mo p before source w = (res, w')"
  shows "\<exists>s1 n s2. terminate_subject (or_sessions orc) (mo_time mo) p (wo_redis w) =
       (Ok (sids_for (or_sessions orc) (mo_time mo) p (wo_redis w)), s1) \<and>
     revoke_families_of (or_grants orc) (mo_time mo) (sids_for (or_sessions orc) (mo_time mo) p (wo_redis w)) s1 = (n, s2) \<and>
     (\<forall>k. \<not> starts_with k ''authz:'' \<longrightarrow> visible (mo_time mo) (wo_redis w') k = visible (mo_time mo) s2 k) \<and>
     (case apply_delta (or_persons orc) (mo_now mo) (mo_at mo) (mo_correlation mo) p (transition (or_rules orc) before [] (mo_today mo))
         before [] source (wo_lifecycle w) of
        Inl _ \<Rightarrow> res = Err LifecycleFailed \<and> wo_lifecycle w' = wo_lifecycle w
      | Inr db \<Rightarrow> res = Ok (transition (or_rules orc) before [] (mo_today mo)) \<and> wo_lifecycle w' = db \<and>
          map step_of (completed w w') = map (\<lambda>x. Some (PStr x)) DEPROVISION_ORDER @ [None] \<and>
          te_event (last (wo_trail w')) = LIFECYCLE_LEAVER)"
proof -
  let ?t = "mo_time mo" let ?sids = "sids_for (or_sessions orc) ?t p (wo_redis w)"
  obtain es d where w1: "wo_redis w1 = wo_redis w" "wo_lifecycle w1 = wo_lifecycle w"
      "wo_trail w1 = wo_trail w @ es @ [step_entry p DISABLE_ACCOUNTS d]" "list_all (\<lambda>e. te_outcome e = FAILURE) es"
    using disable_accounts_confined[OF assms(1)] by (auto simp: unharmed_def)
  have es: "filter (\<lambda>e. te_outcome e = SUCCESS) es = []" using w1(4) by (induction es) auto
  obtain s1 where t: "terminate_subject (or_sessions orc) ?t p (wo_redis w) = (Ok ?sids, s1)"
    using sess.terminate_ok[OF assms(2), of p] by blast
  obtain n s2 where r: "revoke_families_of (or_grants orc) ?t ?sids s1 = (n, s2)" by fastforce
  let ?\<delta> = "transition (or_rules orc) before [] (mo_today mo)"
  define w3 where "w3 = record_step p REVOKE_TOKENS [count_pair ''families'' n]
    ((record_step p TERMINATE_SESSIONS [count_pair ''sessions'' (length ?sids)] (w1\<lparr>wo_redis := s1\<rparr>))\<lparr>wo_redis := s2\<rparr>)"
  have w3: "wo_redis w3 = s2" "wo_lifecycle w3 = wo_lifecycle w"
    "wo_trail w3 = wo_trail w1 @ [step_entry p TERMINATE_SESSIONS [count_pair ''sessions'' (length ?sids)],
       step_entry p REVOKE_TOKENS [count_pair ''families'' n]]"
    by (simp_all add: w3_def w1(2))
  have t1: "terminate_subject (or_sessions orc) ?t p (wo_redis w1) = (Ok ?sids, s1)" using t w1(1) by simp
  have "deprovision orc mo p before source w = (case apply_lifecycle orc mo p ?\<delta> before [] source w3 of
      (Inl e, w4) \<Rightarrow> (Err e, w4)
    | (Inr _, w4) \<Rightarrow> (Ok ?\<delta>, audit_append (leaver_entry p before (length ?sids) n off) (invalidate_decisions orc mo p
        (record_step p REVOKE_ENTITLEMENTS [count_pair ''immediate'' (length (delta_immediate ?\<delta>)),
          count_pair ''deferred'' (length (delta_deferred ?\<delta>))] w4))))"
    unfolding deprovision_def Let_def by (simp add: assms(1) t1 r w3_def)
  note run = assms(3)[unfolded this]
  show ?thesis
  proof (cases "apply_delta (or_persons orc) (mo_now mo) (mo_at mo) (mo_correlation mo) p
      (transition (or_rules orc) before [] (mo_today mo)) before [] source (wo_lifecycle w)")
    case (Inl e)
    then have "res = Err LifecycleFailed" "w' = w3" using run by (simp_all add: apply_lifecycle_def w3)
    then show ?thesis using t r w3 Inl by simp
  next
    case (Inr db)
    have "res = Ok (transition (or_rules orc) before [] (mo_today mo))" "wo_lifecycle w' = db"
      "\<forall>k. \<not> starts_with k ''authz:'' \<longrightarrow> visible ?t (wo_redis w') k = visible ?t s2 k"
      using run Inr by (auto simp: apply_lifecycle_def w3 invalidate_frame)
    moreover have "map step_of (completed w w') = map (\<lambda>x. Some (PStr x)) DEPROVISION_ORDER @ [None]"
        "te_event (last (wo_trail w')) = LIFECYCLE_LEAVER"
      using run Inr by (auto simp: apply_lifecycle_def w1 w3 completed_def es step_of_def step_entry_def leaver_entry_def count_pair_def DEPROVISION_ORDER_def)
    ultimately show ?thesis using t r Inr by simp
  qed
qed

end

section \<open>Properties\<close>

text \<open>C4. With a dead-letter queue, a leaver is cut off whatever the downstream systems do, as long as they fail only in
  ways worth retrying.  When the sequence ends, no session of the person is found any more, every token family those
  sessions had produced is revoked, and either the entitlements could not be written, which is reported, or they are written
  as the rules say and the trail holds the four steps completed in their fixed order and then the departure itself.\<close>

theorem leaver_cut_off:
  assumes "deprovisioning orc visible" and "sessions_reachable (or_sessions orc) visible \<rho>"
    and "sr_clock \<rho> = mo_time mo" and "st_redis (sr_state \<rho>) = wo_redis w"
    and "or_dead_letters orc" and "\<forall>t\<in>set (or_targets orc). \<forall>login. retriable (tg_disable t login)"
    and "deprovision orc mo p before source w = (res, w')"
  shows "(\<forall>t sid x. mo_time mo \<le> t \<longrightarrow> CHR '':'' \<notin> set sid \<longrightarrow>
       load_read (or_sessions orc) t sid (wo_redis w') = Ok (Some x) \<longrightarrow> subject_key x \<noteq> p) \<and>
     (\<forall>sid\<in>set (sids_for (or_sessions orc) (mo_time mo) p (wo_redis w)).
       \<forall>f. f |\<in>| members_of (visible (mo_time mo) (wo_redis w) (session_key sid)) \<longrightarrow>
         is_family_revoked (or_grants orc) (mo_time mo) f (wo_redis w')) \<and>
     (case apply_delta (or_persons orc) (mo_now mo) (mo_at mo) (mo_correlation mo) p (transition (or_rules orc) before [] (mo_today mo))
         before [] source (wo_lifecycle w) of
        Inl _ \<Rightarrow> res = Err LifecycleFailed \<and> wo_lifecycle w' = wo_lifecycle w
      | Inr db \<Rightarrow> res = Ok (transition (or_rules orc) before [] (mo_today mo)) \<and> wo_lifecycle w' = db \<and>
          map step_of (completed w w') = map (\<lambda>x. Some (PStr x)) DEPROVISION_ORDER @ [None] \<and>
          te_event (last (wo_trail w')) = LIFECYCLE_LEAVER)"
proof -
  note d = assms(1)
  have sess: "sessions_on_redis (or_sessions orc) visible" and gra: "grants_on_redis (or_grants orc) visible"
    using d by (simp_all add: deprovisioning_def)
  have ok: "sessions_on_redis.store_ok (or_sessions orc) visible (wo_redis w) (mo_time mo)"
    using sessions_on_redis.sessions_reachable_ok[OF sess assms(2)] assms(3,4) by simp
  obtain off w1 where off: "disable_accounts orc mo p w = (Ok off, w1)" using disable_accounts_returns[OF assms(5,6)] by blast
  let ?t = "mo_time mo" let ?sids = "sids_for (or_sessions orc) ?t p (wo_redis w)"
  obtain s1 n s2 where t: "terminate_subject (or_sessions orc) ?t p (wo_redis w) = (Ok ?sids, s1)"
      and r: "revoke_families_of (or_grants orc) ?t ?sids s1 = (n, s2)"
      and k: "\<And>k. \<not> starts_with k ''authz:'' \<Longrightarrow> visible ?t (wo_redis w') k = visible ?t s2 k"
      and rest: "case apply_delta (or_persons orc) (mo_now mo) (mo_at mo) (mo_correlation mo) p
          (transition (or_rules orc) before [] (mo_today mo)) before [] source (wo_lifecycle w) of
         Inl _ \<Rightarrow> res = Err LifecycleFailed \<and> wo_lifecycle w' = wo_lifecycle w
       | Inr db \<Rightarrow> res = Ok (transition (or_rules orc) before [] (mo_today mo)) \<and> wo_lifecycle w' = db \<and>
           map step_of (completed w w') = map (\<lambda>x. Some (PStr x)) DEPROVISION_ORDER @ [None] \<and>
           te_event (last (wo_trail w')) = LIFECYCLE_LEAVER"
    using deprovisioning.sequence[OF d off ok assms(7)] by blast
  have s1: "visible ?t (wo_redis w') k = visible ?t s1 k" if "starts_with k ''session:''" for k
  proof -
    have "\<not> starts_with k ''authz:''" "\<not> starts_with k ''oidc:''" using that by (auto simp: starts_with_iff)
    then show ?thesis using k grants_on_redis.families_frame[OF gra r] by simp
  qed
  have "subject_key x \<noteq> p" if "?t \<le> t'" "CHR '':'' \<notin> set sid" "load_read (or_sessions orc) t' sid (wo_redis w') = Ok (Some x)" for t' sid x
  proof -
    have "load_read (or_sessions orc) t' sid s1 = Ok (Some x)"
      using sessions_on_redis.load_read_frame[OF sess s1 that(1)] that(3) by simp
    then show ?thesis using sessions_on_redis.terminated_gone[OF sess assms(2), of p _ s1 t' sid x] assms(3,4) t that(1,2) by simp
  qed
  moreover have "is_family_revoked (or_grants orc) ?t f (wo_redis w')"
    if "sid \<in> set ?sids" "f |\<in>| members_of (visible ?t (wo_redis w) (session_key sid))" for sid f
  proof -
    have "\<not> starts_with (session_key sid) ''session:''" "\<not> starts_with (family_key f) ''authz:''"
      by (simp_all add: starts_with_def SESSION_FAMILY_PREFIX_def FAMILY_REVOKED_PREFIX_def)
    then have "visible ?t s1 (session_key sid) = visible ?t (wo_redis w) (session_key sid)"
        "visible ?t (wo_redis w') (family_key f) = visible ?t s2 (family_key f)"
      using sessions_on_redis.terminate_frame[OF sess t] k by simp_all
    moreover have "redis_server (g_redis (or_grants orc)) visible" using gra by (simp add: grants_on_redis_def)
    ultimately show ?thesis
      using grants_on_redis.families_revoked[OF gra r that(1), of f] that(2) by (simp add: is_family_revoked_def redis_server.exists)
  qed
  ultimately show ?thesis using rest by blast
qed

definition sample_moment :: moment where
  "sample_moment = \<lparr>mo_time = 0, mo_today = 200, mo_now = 9, mo_at = 9, mo_correlation = ''c'', mo_fresh = id\<rparr>"

definition sample_identity :: identity_db where
  "sample_identity = \<lparr>ib_people = [], ib_identifiers = [\<lparr>if_person = ''p1'', if_type = ''eppn'', if_value = ''ada@c'',
     if_scope = None, if_primary = True, if_issued_at = 1, if_released_at = None\<rparr>], ib_accounts = [], ib_affiliations = []\<rparr>"

definition answering :: "unit Retry.outcome \<Rightarrow> target" where
  "answering a = \<lparr>tg_name = ''ldap'', tg_provision = (\<lambda>s n. a), tg_disable = (\<lambda>l n. a)\<rparr>"

definition sample_orchestrator :: "target list \<Rightarrow> keyspace orchestrator" where
  "sample_orchestrator ts = \<lparr>or_rules = sample_rules, or_persons = {''p1''}, or_sessions = sample_sessions, or_grants = sample_grants,
     or_decisions = Some (sample_cache, True), or_targets = ts, or_identity = Some sample_identity, or_dead_letters = True,
     or_uniform = (\<lambda>n d. d)\<rparr>"

definition sample_world :: "keyspace world" where
  "sample_world = \<lparr>wo_lifecycle = no_lifecycle, wo_redis = two_sessions(session_key ''s1'' \<mapsto> (RSet {|''f1''|}, None)), wo_dead = [],
     wo_trail = []\<rparr>"

lemma sample_orchestrator_sel [simp]:
  "or_sessions (sample_orchestrator ts) = sample_sessions" "or_grants (sample_orchestrator ts) = sample_grants"
  "or_targets (sample_orchestrator ts) = ts" "or_dead_letters (sample_orchestrator ts)" "or_rules (sample_orchestrator ts) = sample_rules"
  "or_persons (sample_orchestrator ts) = {''p1''}" "or_identity (sample_orchestrator ts) = Some sample_identity"
  "or_decisions (sample_orchestrator ts) = Some (sample_cache, True)"
  "mo_time sample_moment = 0" "mo_today sample_moment = 200" "mo_now sample_moment = 9" "mo_at sample_moment = 9"
  "mo_correlation sample_moment = ''c''" "wo_lifecycle sample_world = no_lifecycle"
  by (simp_all add: sample_orchestrator_def sample_moment_def sample_world_def)

interpretation sample_run: deprovisioning "sample_orchestrator [answering (Transient ''down'')]" unexpired
proof -
  let ?orc = "sample_orchestrator [answering (Transient ''down'')]"
  have "deprovisioning_axioms ?orc unexpired"
    by (rule deprovisioning_axioms.intro) (auto simp: sample_cache_def mem.redis_server_axioms)
  then show "deprovisioning ?orc unexpired"
    using mem_sessions.sessions_on_redis_axioms mem_grants.grants_on_redis_axioms by (simp add: deprovisioning_def)
qed

lemma sample_world_reachable:
  "sessions_reachable sample_sessions unexpired \<lparr>sr_clock = 0, sr_state = sample_session_start\<lparr>st_redis := wo_redis sample_world\<rparr>\<rparr>"
proof -
  let ?\<rho> = "\<lparr>sr_clock = 0, sr_state = sample_session_start\<lparr>st_redis := two_sessions\<rparr>\<rparr>"
  have "session_step sample_sessions unexpired ?\<rho> (?\<rho>\<lparr>sr_state := sample_session_start\<lparr>st_redis := wo_redis sample_world\<rparr>\<rparr>)"
    by (rule session_step.elsewhere)
       (auto simp: sample_world_def unexpired_def starts_with_def SESSION_FAMILY_PREFIX_def)
  then show ?thesis using sessions_reachable.step[OF two_sessions_reachable] by simp
qed

theorem leaver_cut_off_witness:
  "\<exists>w'. deprovision (sample_orchestrator [answering (Transient ''down'')]) sample_moment ''p1'' [''student''] ''scim'' sample_world =
       (Ok (transition sample_rules [''student''] [] 200), w') \<and>
     is_family_revoked sample_grants 0 ''f1'' (wo_redis w') \<and>
     map step_of (completed sample_world w') = map (\<lambda>x. Some (PStr x)) DEPROVISION_ORDER @ [None]"
proof -
  let ?orc = "sample_orchestrator [answering (Transient ''down'')]"
  obtain res w' where run: "deprovision ?orc sample_moment ''p1'' [''student''] ''scim'' sample_world = (res, w')" by fastforce
  have r: "\<forall>t\<in>set (or_targets ?orc). \<forall>login. retriable (tg_disable t login)" by (simp add: answering_def retriable_def)
  have "sids_for sample_sessions 0 ''p1'' (wo_redis sample_world) = [''s1'']"
    by (simp add: sids_for_def sample_world_def two_sessions_def sample_session_keys_def session_eval mem_redis_def
        SESSION_FAMILY_PREFIX_def sorted_list_of_fset.rep_eq)
  moreover have "''f1'' |\<in>| members_of (unexpired 0 (wo_redis sample_world) (session_key ''s1''))"
    by (simp add: sample_world_def unexpired_def members_of_def)
  moreover obtain db where "apply_delta {''p1''} 9 9 ''c'' ''p1'' (transition sample_rules [''student''] [] 200) [''student''] [] ''scim''
      no_lifecycle = Ok db" by (simp add: held_eval no_lifecycle_def)
  ultimately show ?thesis
    using leaver_cut_off[OF sample_run.deprovisioning_axioms _ _ _ _ r run,
      of "\<lparr>sr_clock = 0, sr_state = sample_session_start\<lparr>st_redis := wo_redis sample_world\<rparr>\<rparr>"] sample_world_reachable run by simp
qed

text \<open>A downstream error that is not worth retrying stops the sequence before it starts.  The first target to answer
  with one ends the run with every session, token and entitlement of the person as it was, and nothing in the trail or
  among the dead letters.\<close>

theorem fatal_disable_keeps_access:
  assumes "or_targets orc = t # ts" and "login_for (or_identity orc) p = Some login" and "tg_disable t login 1 = Fatal e"
  shows "deprovision orc mo p before source w = (Err (TargetRaised e), w)"
proof -
  have "[1..<Suc MAX_ATTEMPTS] = 1 # [2..<Suc MAX_ATTEMPTS]" by (simp add: MAX_ATTEMPTS_def upt_rec)
  then have "fst (with_retries (or_uniform orc) (tg_disable t login) MAX_ATTEMPTS) = Inl (Raised e)"
    using assms(3) by (simp add: with_retries_def Let_def del: upt_Suc)
  then have "disable_accounts orc mo p w = (Err (TargetRaised e), w)"
    using assms(1,2) by (simp add: disable_accounts_def disable_one_def retry_failed_def)
  then show ?thesis by (simp add: deprovision_def Let_def)
qed

theorem fatal_disable_keeps_access_witness:
  "deprovision (sample_orchestrator [answering (Fatal ''denied'')]) sample_moment ''p1'' [''student''] ''scim'' sample_world =
     (Err (TargetRaised ''denied''), sample_world)"
proof -
  have "login_for (Some sample_identity) ''p1'' = Some ''ada@c''" by (simp add: login_for_def sample_identity_def identifiers_def)
  then show ?thesis
    using fatal_disable_keeps_access[of "sample_orchestrator [answering (Fatal ''denied'')]" "answering (Fatal ''denied'')" "[]" "''p1''"
        "''ada@c''" "''denied''"] by (simp add: answering_def)
qed

text \<open>A mover or joiner whose downstream account cannot be written is changed all the same: the entitlements are
  recorded, the error is returned, the decisions cached about the person stand and the trail does not mention the change.\<close>

theorem provision_failure_unaudited:
  assumes "after \<noteq> []" and "or_targets orc = t # ts" and "spec_for (or_identity orc) p = Some spec" and "tg_provision t spec 1 = Fatal e"
    and "apply_delta (or_persons orc) (mo_now mo) (mo_at mo) (mo_correlation mo) p (transition (or_rules orc) before after (mo_today mo))
      before after source (wo_lifecycle w) = Ok db"
  shows "transitioned orc mo p before after source w = (Err (TargetRaised e), w\<lparr>wo_lifecycle := db\<rparr>)"
proof -
  have "[1..<Suc MAX_ATTEMPTS] = 1 # [2..<Suc MAX_ATTEMPTS]" by (simp add: MAX_ATTEMPTS_def upt_rec)
  then have "fst (with_retries (or_uniform orc) (tg_provision t spec) MAX_ATTEMPTS) = Inl (Raised e)"
    using assms(4) by (simp add: with_retries_def Let_def del: upt_Suc)
  then have "provision_accounts orc mo p v = (Err (TargetRaised e), v)" for v
    using assms(2,3) by (simp add: provision_accounts_def retry_failed_def)
  then show ?thesis using assms(1,5) by (simp add: transitioned_def Let_def apply_lifecycle_def)
qed

theorem provision_failure_unaudited_witness:
  "\<exists>db. transitioned (sample_orchestrator [answering (Fatal ''denied'')]) sample_moment ''p1'' [] [''student''] ''scim'' sample_world =
       (Err (TargetRaised ''denied''), sample_world\<lparr>wo_lifecycle := db\<rparr>) \<and> ''urn:mail'' \<in> lifecycle_held db ''p1'' 200"
proof -
  have "spec_for (Some sample_identity) ''p1'' \<noteq> None" by (simp add: spec_for_def sample_identity_def identifiers_def Let_def)
  then obtain spec where s: "spec_for (Some sample_identity) ''p1'' = Some spec" by blast
  obtain db where db: "apply_delta {''p1''} 9 9 ''c'' ''p1'' (transition sample_rules [] [''student''] 200) [] [''student''] ''scim''
      no_lifecycle = Ok db" by (simp add: held_eval no_lifecycle_def)
  then have "''urn:mail'' \<in> lifecycle_held db ''p1'' 200" by (force simp: held_eval no_lifecycle_def)
  with db show ?thesis
    using provision_failure_unaudited[of "[''student'']" "sample_orchestrator [answering (Fatal ''denied'')]" "answering (Fatal ''denied'')"
        "[]" "''p1''" spec "''denied''" sample_moment "[]" "''scim''" sample_world db] s by (auto simp: answering_def)
qed

end
