(* ===== verification/Reconciliation.thy ===== *)
theory Reconciliation
  imports Directory Identity
begin

text \<open>
  Comparing the registry with the directory (\<open>campusid/lifecycle/reconciliation.py\<close>).

  The client and the target are the directory's own, over one directory.  A comparison reads the
  directory only; a remediation threads its state through the writes.
\<close>

datatype drift_kind = SHOULD_BE_DISABLED | MISSING_DOWNSTREAM | ORPHANED | UNREACHABLE

record drift =
  dr_kind :: drift_kind
  dr_person :: "string option"
  dr_login :: "string option"
  dr_detail :: string

definition remediable :: "drift \<Rightarrow> bool" where
  "remediable d = (dr_kind d = SHOULD_BE_DISABLED)"

record report =
  rp_drifts :: "drift list"
  rp_remediated :: "drift list"
  rp_failed :: "drift list"
  rp_applied :: bool
  rp_scanned :: nat

definition of_kind :: "report \<Rightarrow> drift_kind \<Rightarrow> drift list" where
  "of_kind r k = filter (\<lambda>d. dr_kind d = k) (rp_drifts r)"

definition report_clean :: "report \<Rightarrow> bool" where
  "report_clean r = (rp_drifts r = [])"

definition classify :: "string \<Rightarrow> string \<Rightarrow> string \<Rightarrow> directory_user option \<Rightarrow> drift option" where
  "classify p login status entry = (let active = (status = STATUS_ACTIVE) in case entry of
       None \<Rightarrow> if \<not> active then None
         else Some \<lparr>dr_kind = MISSING_DOWNSTREAM, dr_person = Some p, dr_login = Some login, dr_detail = ''active here, no directory account''\<rparr>
     | Some e \<Rightarrow> if \<not> active \<and> \<not> du_disabled e
         then Some \<lparr>dr_kind = SHOULD_BE_DISABLED, dr_person = Some p, dr_login = Some login,
           dr_detail = ''status '' @ status @ '' here, enabled in the directory''\<rparr>
         else None)"

section \<open>Comparing\<close>

definition better_login :: "identifier_row \<Rightarrow> (string \<rightharpoonup> identifier_row) \<Rightarrow> (string \<rightharpoonup> identifier_row)" where
  "better_login row best = (case best (if_person row) of
       None \<Rightarrow> best(if_person row \<mapsto> row)
     | Some current \<Rightarrow> if if_released_at current \<noteq> None \<and> if_released_at row = None then best(if_person row \<mapsto> row) else best)"

definition logins :: "identity_db \<Rightarrow> string list \<Rightarrow> string \<rightharpoonup> string" where
  "logins db people = (let rows = filter (\<lambda>i. if_person i \<in> set people \<and> if_type i = ID_EPPN) (ib_identifiers db) in
     (\<lambda>p. map_option if_value (fold better_login rows Map.empty p)))"

record 'd reconciler =
  rn_ldap :: "'d ldap"
  rn_profile :: directory_profile
  rn_base :: string

definition compare_person :: "'d reconciler \<Rightarrow> 'd \<Rightarrow> person \<Rightarrow> string \<Rightarrow> (directory_error, drift option) result" where
  "compare_person R s p login = (case find_user (rn_ldap R) (rn_profile R) (rn_base R) login s of
       Inl (DirectoryUnavailable m) \<Rightarrow> Ok (Some \<lparr>dr_kind = UNREACHABLE, dr_person = Some (pe_uuid p), dr_login = Some login, dr_detail = m\<rparr>)
     | Inl e \<Rightarrow> Err e
     | Inr entry \<Rightarrow> Ok (classify (pe_uuid p) login (pe_status p) entry))"

fun scan_people :: "'d reconciler \<Rightarrow> 'd \<Rightarrow> (string \<rightharpoonup> string) \<Rightarrow> person list \<Rightarrow> (directory_error, drift list) result" where
  "scan_people R s known [] = Ok []"
| "scan_people R s known (p # ps) = (case known (pe_uuid p) of
       None \<Rightarrow> scan_people R s known ps
     | Some login \<Rightarrow> rbind (compare_person R s p login) (\<lambda>found.
         rbind (scan_people R s known ps) (\<lambda>rest. Ok (case found of Some d \<Rightarrow> d # rest | None \<Rightarrow> rest))))"

definition scanned_people :: "identity_db \<Rightarrow> nat \<Rightarrow> person list" where
  "scanned_people db limit = take limit (sort_key pe_created_at (ib_people db))"

definition compare_report :: "'d reconciler \<Rightarrow> identity_db \<Rightarrow> nat \<Rightarrow> 'd \<Rightarrow> (directory_error, report) result" where
  "compare_report R db limit s =
     (let people = scanned_people db limit in
      rbind (scan_people R s (logins db (map pe_uuid people)) people) (\<lambda>drifts.
        Ok \<lparr>rp_drifts = drifts, rp_remediated = [], rp_failed = [], rp_applied = False, rp_scanned = length people\<rparr>))"

section \<open>Remediating\<close>

definition remediate_one :: "'d reconciler \<Rightarrow> drift \<Rightarrow> 'd \<Rightarrow> bool \<times> 'd" where
  "remediate_one R d s = (case target_disable (rn_ldap R) (rn_profile R) (rn_base R) (the (dr_login d)) s of
       (Inr _, s') \<Rightarrow> (True, s') | (Inl _, s') \<Rightarrow> (False, s'))"

fun remediate_all :: "'d reconciler \<Rightarrow> drift list \<Rightarrow> 'd \<Rightarrow> (drift list \<times> drift list) \<times> 'd" where
  "remediate_all R [] s = (([], []), s)"
| "remediate_all R (d # ds) s =
     (if \<not> remediable d then remediate_all R ds s
      else let (ok, s1) = remediate_one R d s; ((fixed, failed), s2) = remediate_all R ds s1 in
        ((if ok then d # fixed else fixed, if ok then failed else d # failed), s2))"

definition remediate :: "'d reconciler \<Rightarrow> report \<Rightarrow> 'd \<Rightarrow> report \<times> 'd" where
  "remediate R r s = (case remediate_all R (rp_drifts r) s of ((fixed, failed), s') \<Rightarrow>
     (\<lparr>rp_drifts = rp_drifts r, rp_remediated = fixed, rp_failed = failed, rp_applied = True, rp_scanned = rp_scanned r\<rparr>, s'))"

definition reconcile :: "'d reconciler \<Rightarrow> identity_db \<Rightarrow> bool \<Rightarrow> nat \<Rightarrow> 'd \<Rightarrow> (directory_error, report) result \<times> 'd" where
  "reconcile R db apply_it limit s = (case compare_report R db limit s of
       Inl e \<Rightarrow> (Err e, s)
     | Inr r \<Rightarrow> if \<not> apply_it then (Ok r, s) else let (r', s') = remediate R r s in (Ok r', s'))"

section \<open>What a report says\<close>

lemma classify_Some:
  "classify p login status entry = Some d \<Longrightarrow> dr_login d = Some login \<and> dr_person d = Some p \<and> dr_kind d \<noteq> ORPHANED \<and>
     (if dr_kind d = SHOULD_BE_DISABLED then status \<noteq> STATUS_ACTIVE \<and> (\<exists>e. entry = Some e \<and> \<not> du_disabled e)
      else dr_kind d = MISSING_DOWNSTREAM \<and> status = STATUS_ACTIVE \<and> entry = None)"
  by (auto simp: classify_def Let_def split: option.splits if_splits)

lemma compare_person_Some:
  assumes "compare_person R s p login = Ok (Some d)"
  shows "dr_login d = Some login \<and> dr_person d = Some (pe_uuid p) \<and> dr_kind d \<noteq> ORPHANED \<and>
     (dr_kind d = SHOULD_BE_DISABLED \<longrightarrow> pe_status p \<noteq> STATUS_ACTIVE)"
proof (cases "find_user (rn_ldap R) (rn_profile R) (rn_base R) login s")
  case (Inl e)
  then show ?thesis using assms by (cases e) (auto simp: compare_person_def)
next
  case (Inr entry)
  then have "classify (pe_uuid p) login (pe_status p) entry = Some d" using assms by (simp add: compare_person_def)
  from classify_Some[OF this] show ?thesis by (auto split: if_splits)
qed

lemma scan_people_drifts:
  assumes "scan_people R s known ps = Ok ds" and "d \<in> set ds"
  shows "\<exists>p login. p \<in> set ps \<and> known (pe_uuid p) = Some login \<and> compare_person R s p login = Ok (Some d)"
  using assms
proof (induction ps arbitrary: ds)
  case (Cons p ps)
  show ?case
  proof (cases "known (pe_uuid p)")
    case None
    then show ?thesis using Cons by fastforce
  next
    case (Some login)
    then obtain found rest where f: "compare_person R s p login = Ok found" "scan_people R s known ps = Ok rest"
        "ds = (case found of Some d \<Rightarrow> d # rest | None \<Rightarrow> rest)"
      using Cons.prems(1) by (auto simp: rbind_eq_Ok)
    then consider "found = Some d" | "d \<in> set rest" using Cons.prems(2) by (cases found) auto
    then show ?thesis
    proof cases
      case 1
      then show ?thesis using f(1) Some by auto
    next
      case 2
      from Cons.IH[OF f(2) this] show ?thesis by auto
    qed
  qed
qed simp

text \<open>No run ever reports an orphaned account: the kind exists and nothing produces it.\<close>

theorem orphans_never_reported:
  "fst (reconcile R db apply_it limit s) = Ok r \<Longrightarrow> of_kind r ORPHANED = []"
proof -
  assume "fst (reconcile R db apply_it limit s) = Ok r"
  then obtain c where c: "compare_report R db limit s = Ok c" "rp_drifts r = rp_drifts c"
    by (auto simp: reconcile_def remediate_def Let_def split: sum.splits if_splits prod.splits)
  then have "\<forall>d\<in>set (rp_drifts r). dr_kind d \<noteq> ORPHANED"
    by (auto simp: compare_report_def Let_def rbind_eq_Ok dest!: scan_people_drifts compare_person_Some)
  then show ?thesis by (simp add: of_kind_def filter_empty_conv)
qed

section \<open>What a remediation may touch\<close>

definition switched_off :: "directory_profile \<Rightarrow> entry_view option \<Rightarrow> entry_view option \<Rightarrow> bool" where
  "switched_off p old new = (\<exists>e e'. old = Some e \<and> new = Some e' \<and> account_off p e' \<and> (\<forall>a. a \<noteq> flag_attribute p \<longrightarrow> e' a = e a))"

definition only_switched_off :: "directory_profile \<Rightarrow> string set \<Rightarrow> (string \<rightharpoonup> entry_view) \<Rightarrow> (string \<rightharpoonup> entry_view) \<Rightarrow> bool" where
  "only_switched_off p S v v' = (\<forall>dn. v' dn = v dn \<or> (dn \<in> S \<and> switched_off p (v dn) (v' dn)))"

lemma only_switched_off_refl [simp]: "only_switched_off p S v v"
  by (simp add: only_switched_off_def)

lemma switched_off_trans: "switched_off p a b \<Longrightarrow> switched_off p b c \<Longrightarrow> switched_off p a c"
  by (auto simp: switched_off_def)

lemma only_switched_off_trans:
  assumes "only_switched_off p S u v" and "only_switched_off p S v w"
  shows "only_switched_off p S u w"
  using assms unfolding only_switched_off_def by (metis switched_off_trans)

lemma only_switched_off_mono: "only_switched_off p S v v' \<Longrightarrow> S \<subseteq> T \<Longrightarrow> only_switched_off p T v v'"
  unfolding only_switched_off_def by blast

lemma hits_stable:
  assumes "only_switched_off p S v v'" and "flag_attribute p \<notin> filter_attributes f"
  shows "search_hits eqv below v' base f = search_hits eqv below v base f"
proof -
  have "(\<exists>e. v' dn = Some e \<and> matches eqv f e) \<longleftrightarrow> (\<exists>e. v dn = Some e \<and> matches eqv f e)" for dn
  proof (cases "v' dn = v dn")
    case False
    then obtain e e' where e: "v dn = Some e" "v' dn = Some e'" "\<forall>a. a \<noteq> flag_attribute p \<longrightarrow> e' a = e a"
      using assms(1) unfolding only_switched_off_def switched_off_def by blast
    then have "matches eqv f e' = matches eqv f e" using assms(2) by (intro matches_cong) metis
    with e show ?thesis by simp
  qed simp
  then show ?thesis by (simp add: search_hits_def)
qed

lemma login_tree_attributes:
  "filter_attributes (login_tree p login) \<subseteq> insert ''objectClass'' (set (dp_login_attributes p))"
  by (auto simp: login_tree_def any_tree_def split: list.splits)

context ldap_directory
begin

lemma target_disable_switches:
  assumes "plain_profile p" and "target_disable D p base login s = (r, s')"
  shows "only_switched_off p {dn. search_hits eqv below (view s) base (login_tree p login) = {dn}} (view s) (view s')"
proof (cases "find_user D p base login s")
  case (Inr found)
  show ?thesis
  proof (cases found)
    case (Some u)
    then have "search_hits eqv below (view s) base (login_tree p login) = {du_dn u}"
      using find_user_exact[OF assms(1)] Inr by fastforce
    moreover obtain w where "disable_entry D p (du_dn u) s = (w, s')"
      using assms(2) Inr Some by (auto simp: target_disable_def split: prod.splits)
    note conf = disable_confined[OF this]
    have "view s' dn = view s dn \<or> (dn = du_dn u \<and> switched_off p (view s dn) (view s' dn))" for dn
      using conf by (cases "dn = du_dn u") (auto simp: switched_off_def)
    ultimately show ?thesis unfolding only_switched_off_def by auto
  qed (use assms(2) Inr in \<open>simp add: target_disable_def\<close>)
qed (use assms(2) in \<open>simp add: target_disable_def\<close>)

end

definition remediation_targets ::
  "'d reconciler \<Rightarrow> (string \<Rightarrow> string set) \<Rightarrow> drift list \<Rightarrow> string set" where
  "remediation_targets R hits ds = {dn. \<exists>d\<in>set ds. remediable d \<and> hits (the (dr_login d)) = {dn}}"

lemma remediate_all_switches:
  assumes "ldap_directory (rn_ldap R) view below eqv" and "plain_profile (rn_profile R)"
    and "flag_attribute (rn_profile R) \<notin> insert ''objectClass'' (set (dp_login_attributes (rn_profile R)))"
    and "remediate_all R ds s = (x, s')"
  shows "only_switched_off (rn_profile R)
     (remediation_targets R (\<lambda>l. search_hits eqv below (view s) (rn_base R) (login_tree (rn_profile R) l)) ds) (view s) (view s') \<and>
     set (fst x) \<union> set (snd x) \<subseteq> {d \<in> set ds. remediable d}"
  using assms(4)
proof (induction ds arbitrary: s x)
  case (Cons d ds)
  let ?hits = "\<lambda>s l. search_hits eqv below (view s) (rn_base R) (login_tree (rn_profile R) l)"
  show ?case
  proof (cases "remediable d")
    case False
    then have "remediate_all R ds s = (x, s')" using Cons.prems by simp
    from Cons.IH[OF this] show ?thesis
      by (auto intro: only_switched_off_mono simp: remediation_targets_def elim!: only_switched_off_mono)
  next
    case True
    obtain ok s1 where one: "remediate_one R d s = (ok, s1)" by (cases "remediate_one R d s")
    obtain y where rest: "remediate_all R ds s1 = (y, s')"
      using Cons.prems True one by (auto split: prod.splits)
    have x: "set (fst x) \<union> set (snd x) \<subseteq> insert d (set (fst y) \<union> set (snd y))"
      using Cons.prems True one rest by (auto split: prod.splits if_splits)
    obtain r where "target_disable (rn_ldap R) (rn_profile R) (rn_base R) (the (dr_login d)) s = (r, s1)"
      using one by (auto simp: remediate_one_def split: prod.splits sum.splits)
    from ldap_directory.target_disable_switches[OF assms(1,2) this]
    have sw: "only_switched_off (rn_profile R) {dn. ?hits s (the (dr_login d)) = {dn}} (view s) (view s1)" .
    have same: "?hits s1 l = ?hits s l" for l
      using assms(3) login_tree_attributes by (intro hits_stable[OF sw]) blast
    have "remediation_targets R (?hits s1) ds \<subseteq> remediation_targets R (?hits s) (d # ds)"
      unfolding same remediation_targets_def by auto
    moreover have "{dn. ?hits s (the (dr_login d)) = {dn}} \<subseteq> remediation_targets R (?hits s) (d # ds)"
      using True by (auto simp: remediation_targets_def)
    ultimately show ?thesis
      using Cons.IH[OF rest] sw x True by (auto intro: only_switched_off_trans only_switched_off_mono)
  qed
qed simp

text \<open>C31. A reconciliation touches only what it may.  A dry run leaves the directory as it was; an applied run
  switches off accounts and changes nothing else about them, and only accounts that are the one entry
  answering to the login of a scanned person who is not active.  Only such drifts are attempted.\<close>

theorem reconcile_confined:
  assumes "ldap_directory (rn_ldap R) view below eqv" and "plain_profile (rn_profile R)"
    and "flag_attribute (rn_profile R) \<notin> insert ''objectClass'' (set (dp_login_attributes (rn_profile R)))"
    and "reconcile R db apply_it limit s = (Ok r, s')"
  shows "let people = scanned_people db limit;
             mine = {dn. \<exists>p\<in>set people. pe_status p \<noteq> STATUS_ACTIVE \<and> (\<exists>login. logins db (map pe_uuid people) (pe_uuid p) = Some login \<and>
               search_hits eqv below (view s) (rn_base R) (login_tree (rn_profile R) login) = {dn})} in
     only_switched_off (rn_profile R) mine (view s) (view s') \<and> (\<not> apply_it \<longrightarrow> s' = s) \<and> rp_applied r = apply_it \<and>
     set (rp_remediated r) \<union> set (rp_failed r) \<subseteq> set (of_kind r SHOULD_BE_DISABLED)"
proof (cases apply_it)
  case False
  then show ?thesis using assms(4)
    by (auto simp: reconcile_def Let_def compare_report_def rbind_eq_Ok split: sum.splits)
next
  case True
  then obtain c x where c: "compare_report R db limit s = Ok c" "remediate_all R (rp_drifts c) s = (x, s')"
      "r = \<lparr>rp_drifts = rp_drifts c, rp_remediated = fst x, rp_failed = snd x, rp_applied = True, rp_scanned = rp_scanned c\<rparr>"
    using assms(4) by (auto simp: reconcile_def remediate_def Let_def split: sum.splits prod.splits)
  let ?people = "scanned_people db limit"
  let ?hits = "\<lambda>l. search_hits eqv below (view s) (rn_base R) (login_tree (rn_profile R) l)"
  note sw = remediate_all_switches[OF assms(1-3) c(2)]
  have "remediation_targets R ?hits (rp_drifts c) \<subseteq> {dn. \<exists>p\<in>set ?people. pe_status p \<noteq> STATUS_ACTIVE \<and>
      (\<exists>login. logins db (map pe_uuid ?people) (pe_uuid p) = Some login \<and> ?hits login = {dn})}"
  proof
    fix dn
    assume "dn \<in> remediation_targets R ?hits (rp_drifts c)"
    then obtain d where d: "d \<in> set (rp_drifts c)" "remediable d" "?hits (the (dr_login d)) = {dn}"
      by (auto simp: remediation_targets_def)
    obtain ds where "scan_people R s (logins db (map pe_uuid ?people)) ?people = Ok ds" "rp_drifts c = ds"
      using c(1) by (auto simp: compare_report_def Let_def rbind_eq_Ok)
    with d(1) obtain p login where p: "p \<in> set ?people" "logins db (map pe_uuid ?people) (pe_uuid p) = Some login"
        "compare_person R s p login = Ok (Some d)"
      using scan_people_drifts by metis
    with compare_person_Some[OF p(3)] d(2,3)
    show "dn \<in> {dn. \<exists>p\<in>set ?people. pe_status p \<noteq> STATUS_ACTIVE \<and>
        (\<exists>login. logins db (map pe_uuid ?people) (pe_uuid p) = Some login \<and> ?hits login = {dn})}"
      by (auto simp: remediable_def)
  qed
  with sw have "only_switched_off (rn_profile R) {dn. \<exists>p\<in>set ?people. pe_status p \<noteq> STATUS_ACTIVE \<and>
      (\<exists>login. logins db (map pe_uuid ?people) (pe_uuid p) = Some login \<and> ?hits login = {dn})} (view s) (view s')"
    by (auto intro: only_switched_off_mono)
  then show ?thesis
    using sw True c(3) unfolding Let_def by (auto simp: of_kind_def remediable_def)
qed

definition sample_reconciler :: "mem_directory reconciler" where
  "sample_reconciler = \<lparr>rn_ldap = mem_ldap, rn_profile = ACTIVE_DIRECTORY, rn_base = ''dc=x''\<rparr>"

definition departed :: identity_db where
  "departed = \<lparr>ib_people = [\<lparr>pe_uuid = ''u1'', pe_unique_id = ''t@c'', pe_display_name = None, pe_given_name = None, pe_surname = None,
      pe_preferred_language = None, pe_ferpa_suppressed = False, pe_status = ''deactivated'', pe_source = ''jit'', pe_created_at = 1\<rparr>],
    ib_identifiers = [(issued ''u1'' ID_EPPN ''ada'' None True 1)\<lparr>if_released_at := Some 9\<rparr>], ib_accounts = [], ib_affiliations = []\<rparr>"

lemma sample_reconcile:
  "case reconcile sample_reconciler departed True 10 (sample_directory ''512'') of (Inr r, s') \<Rightarrow> length (rp_remediated r) = 1 | _ \<Rightarrow> False"
  by code_simp

theorem reconcile_confined_witness:
  "\<exists>r s'. reconcile sample_reconciler departed True 10 (sample_directory ''512'') = (Ok r, s') \<and> length (rp_remediated r) = 1 \<and>
     (\<exists>S. only_switched_off ACTIVE_DIRECTORY S (mem_view (sample_directory ''512'')) (mem_view s'))"
proof -
  obtain r s' where r: "reconcile sample_reconciler departed True 10 (sample_directory ''512'') = (Ok r, s')" "length (rp_remediated r) = 1"
    using sample_reconcile by (auto split: prod.splits sum.splits)
  have p: "rn_ldap sample_reconciler = mem_ldap" "rn_profile sample_reconciler = ACTIVE_DIRECTORY"
    by (simp_all add: sample_reconciler_def)
  have fa: "flag_attribute ACTIVE_DIRECTORY \<notin> insert ''objectClass'' (set (dp_login_attributes ACTIVE_DIRECTORY))"
    by (simp add: flag_attribute_def truthy_flag_def ACTIVE_DIRECTORY_def)
  from reconcile_confined[of sample_reconciler mem_view in_subtree same_text, unfolded p, OF mem_dir.ldap_directory_axioms AD_plain fa r(1)]
  show ?thesis using r unfolding Let_def by blast
qed

text \<open>When two entries answer to a leaver's login, the comparison finds nothing wrong, enabled though they are.\<close>

theorem ambiguous_leaver_unreported:
  assumes "ldap_directory (rn_ldap R) view below eqv" and "plain_profile (rn_profile R)"
    and "find_user (rn_ldap R) (rn_profile R) (rn_base R) login s = Ok found" and "pe_status p \<noteq> STATUS_ACTIVE"
    and "{a, b} \<subseteq> search_hits eqv below (view s) (rn_base R) (login_tree (rn_profile R) login)" and "a \<noteq> b"
  shows "compare_person R s p login = Ok None"
proof -
  have "found = None"
    using ldap_directory.find_user_exact[OF assms(1-3)] assms(5,6) by (cases found) auto
  then show ?thesis using assms(3,4) by (simp add: compare_person_def classify_def)
qed

end
