(* ===== verification/IdentityRelease.thy ===== *)
theory IdentityRelease
  imports Identity LifecycleStore "HOL-Library.AList" "HOL-Library.Product_Lexorder"
begin

text \<open>
  What the registry says about a person and how it is merged with what an upstream asserted
  (\<open>campusid/identity/release.py\<close>).  A dictionary is a list of pairs with distinct names, in insertion order.
\<close>

definition BROKER_OWNED :: "string list" where
  "BROKER_OWNED = [EPPN, UNIQUE_ID, ReleasePolicy.ENTITLEMENT]"

definition SCOPE_OWNED :: "string list" where
  "SCOPE_OWNED = [ReleasePolicy.SCOPED_AFFILIATION]"

type_synonym attribute_map = "(string \<times> string list) list"

definition in_scope :: "string \<Rightarrow> string \<Rightarrow> bool" where
  "in_scope v scope = (case py_rpartition (CHR ''@'') v of (_, found, asserted) \<Rightarrow>
     if \<not> found then True else py_lower asserted = py_lower scope)"

text \<open>\<open>_live\<close>: the values of one type, the primary ones first, each group by value.\<close>

definition live_values :: "identifier_row list \<Rightarrow> string \<Rightarrow> string list" where
  "live_values rows ty = map if_value (sort_key (\<lambda>i. (\<not> if_primary i, if_value i))
     (filter (\<lambda>i. if_type i = ty \<and> if_released_at i = None) rows))"

definition nonempty_attribute :: "string \<Rightarrow> string list \<Rightarrow> attribute_map" where
  "nonempty_attribute n vs = (if vs = [] then [] else [(n, vs)])"

definition registry_attributes :: "identity_db \<Rightarrow> lifecycle_db \<Rightarrow> string \<Rightarrow> string \<Rightarrow> int \<Rightarrow> attribute_map" where
  "registry_attributes db grants scope p today = (case find_person db p of
       None \<Rightarrow> []
     | Some x \<Rightarrow> (let ids = identifiers db p False in
         [(UNIQUE_ID, [pe_unique_id x])] @ nonempty_attribute EPPN (live_values ids ''eppn'') @
         nonempty_attribute MAIL (live_values ids ''mail'') @
         nonempty_attribute ReleasePolicy.SCOPED_AFFILIATION (map (\<lambda>a. a @ ''@'' @ scope) (affiliations_on db p today)) @
         nonempty_attribute ReleasePolicy.ENTITLEMENT (sorted_list_of_set (lifecycle_held grants p today))))"

definition keep_asserted :: "string \<Rightarrow> string \<times> string list \<Rightarrow> (string \<times> string list) option" where
  "keep_asserted scope e = (case e of (n, vs) \<Rightarrow>
     if n \<in> set BROKER_OWNED then None
     else if n \<in> set SCOPE_OWNED
       then let kept = filter (\<lambda>v. \<not> in_scope v scope) vs in if kept = [] then None else Some (n, kept)
     else Some (n, vs))"

definition put_ours :: "string \<times> string list \<Rightarrow> attribute_map \<Rightarrow> attribute_map" where
  "put_ours e merged = (case e of (n, vs) \<Rightarrow>
     AList.update n (if n \<in> set SCOPE_OWNED then (case map_of merged n of
         Some theirs \<Rightarrow> sorted_set (theirs @ vs) | None \<Rightarrow> vs) else vs) merged)"

definition merge_attributes :: "attribute_map \<Rightarrow> attribute_map \<Rightarrow> string \<Rightarrow> attribute_map" where
  "merge_attributes asserted ours scope = fold put_ours ours (List.map_filter (keep_asserted scope) asserted)"

section \<open>Authority\<close>

lemma put_ours_lookup:
  "map_of (put_ours (n, vs) merged) m = (if m = n then Some (if n \<in> set SCOPE_OWNED then (case map_of merged n of
     Some theirs \<Rightarrow> sorted_set (theirs @ vs) | None \<Rightarrow> vs) else vs) else map_of merged m)"
  by (simp add: put_ours_def update_conv')

lemma put_all_absent: "m \<notin> fst ` set ours \<Longrightarrow> map_of (fold put_ours ours merged) m = map_of merged m"
proof (induction ours arbitrary: merged)
  case (Cons e ours)
  then have "map_of (fold put_ours ours (put_ours e merged)) m = map_of (put_ours e merged) m" "m \<noteq> fst e" by auto
  then show ?case by (cases e) (simp add: put_ours_lookup)
qed simp

lemma put_all_lookup:
  assumes "distinct (map fst ours)" and "(n, vs) \<in> set ours"
  shows "map_of (fold put_ours ours merged) n = Some (if n \<in> set SCOPE_OWNED then (case map_of merged n of
     Some theirs \<Rightarrow> sorted_set (theirs @ vs) | None \<Rightarrow> vs) else vs)"
  using assms
proof (induction ours arbitrary: merged)
  case (Cons e ours)
  obtain m ws where e: "e = (m, ws)" by (cases e)
  show ?case
  proof (cases "n = m")
    case True
    then have "vs = ws" "n \<notin> fst ` set ours" using Cons.prems e by (auto simp: rev_image_eqI)
    then show ?thesis using True e by (auto simp: put_all_absent put_ours_lookup split: option.split)
  next
    case False
    then have "map_of (fold put_ours ours (put_ours e merged)) n = Some (if n \<in> set SCOPE_OWNED then
        (case map_of (put_ours e merged) n of Some theirs \<Rightarrow> sorted_set (theirs @ vs) | None \<Rightarrow> vs) else vs)"
      using Cons e by auto
    then show ?thesis using False e by (simp add: put_ours_lookup)
  qed
qed simp

lemma kept_lookup:
  "map_of (List.map_filter (keep_asserted scope) asserted) n = Some vs \<Longrightarrow>
     n \<notin> set BROKER_OWNED \<and> (n \<in> set SCOPE_OWNED \<longrightarrow> (\<forall>v\<in>set vs. \<not> in_scope v scope))"
  by (induction asserted)
    (auto simp: map_filter_simps keep_asserted_def Let_def split: option.splits if_splits prod.splits)

text \<open>An upstream has no say in what is ours.  Of the names the broker owns, principal name, unique id and
  entitlements, a session carries exactly what the registry says, nothing included; and every scoped
  affiliation in our own scope, or without a scope, comes from the registry.\<close>

theorem merge_authority:
  assumes "distinct (map fst ours)" and "n \<in> set BROKER_OWNED \<union> set SCOPE_OWNED"
  shows "if n \<in> set BROKER_OWNED then map_of (merge_attributes asserted ours scope) n = map_of ours n
     else list_all (\<lambda>v. in_scope v scope \<longrightarrow> (\<exists>vs. map_of ours n = Some vs \<and> v \<in> set vs))
       (case map_of (merge_attributes asserted ours scope) n of Some vs \<Rightarrow> vs | None \<Rightarrow> [])"
proof -
  let ?kept = "List.map_filter (keep_asserted scope) asserted"
  have apart: "n \<in> set BROKER_OWNED \<Longrightarrow> n \<notin> set SCOPE_OWNED"
    by (auto simp: BROKER_OWNED_def SCOPE_OWNED_def EPPN_def UNIQUE_ID_def ReleasePolicy.ENTITLEMENT_def ReleasePolicy.SCOPED_AFFILIATION_def)
  have theirs: "map_of ?kept n = None" if "n \<in> set BROKER_OWNED"
    using that kept_lookup[of scope asserted n] by (cases "map_of ?kept n") auto
  show ?thesis
  proof (cases "map_of ours n")
    case None
    then have m: "map_of (merge_attributes asserted ours scope) n = map_of ?kept n"
      by (simp add: merge_attributes_def put_all_absent map_of_eq_None_iff)
    show ?thesis
    proof (cases "map_of ?kept n")
      case kept: (Some vs)
      show ?thesis using None m kept kept_lookup[OF kept] assms(2) by (auto simp: list_all_iff)
    qed (use None m in simp)
  next
    case (Some vs)
    then have m: "map_of (merge_attributes asserted ours scope) n = Some (if n \<in> set SCOPE_OWNED then (case map_of ?kept n of
        Some theirs \<Rightarrow> sorted_set (theirs @ vs) | None \<Rightarrow> vs) else vs)"
      unfolding merge_attributes_def by (intro put_all_lookup[OF assms(1)] map_of_SomeD)
    show ?thesis
      using Some m apart kept_lookup[of scope asserted n] assms(2) by (auto simp: list_all_iff split: option.split)
  qed
qed

theorem merge_authority_witness:
  "map_of (merge_attributes [(EPPN, [''sam@campus'']), (ReleasePolicy.SCOPED_AFFILIATION, [''faculty@partner'', ''staff@Campus''])]
     [(UNIQUE_ID, [''u'']), (ReleasePolicy.SCOPED_AFFILIATION, [''student@campus''])] ''campus'') EPPN = None \<and>
   map_of (merge_attributes [(EPPN, [''sam@campus'']), (ReleasePolicy.SCOPED_AFFILIATION, [''faculty@partner'', ''staff@Campus''])]
     [(UNIQUE_ID, [''u'']), (ReleasePolicy.SCOPED_AFFILIATION, [''student@campus''])] ''campus'') ReleasePolicy.SCOPED_AFFILIATION =
     Some [''faculty@partner'', ''student@campus'']"
proof -
  have names: "EPPN \<in> set BROKER_OWNED" "distinct (map fst [(UNIQUE_ID, [''u'']), (ReleasePolicy.SCOPED_AFFILIATION, [''student@campus''])])"
    "map_of [(UNIQUE_ID, [''u'']), (ReleasePolicy.SCOPED_AFFILIATION, [''student@campus''])] EPPN = None"
    by (simp_all add: BROKER_OWNED_def EPPN_def UNIQUE_ID_def ReleasePolicy.SCOPED_AFFILIATION_def)
  have "map_of (merge_attributes [(EPPN, [''sam@campus'']), (ReleasePolicy.SCOPED_AFFILIATION, [''faculty@partner'', ''staff@Campus''])]
     [(UNIQUE_ID, [''u'']), (ReleasePolicy.SCOPED_AFFILIATION, [''student@campus''])] ''campus'') ReleasePolicy.SCOPED_AFFILIATION =
     Some [''faculty@partner'', ''student@campus'']" by code_simp
  then show ?thesis
    using merge_authority[OF names(2), of EPPN "[(EPPN, [''sam@campus'']), (ReleasePolicy.SCOPED_AFFILIATION, [''faculty@partner'', ''staff@Campus''])]" "''campus''"]
      names(1,3) by simp
qed

end
