(* ===== verification/WebAuthn.thy ===== *)
theory WebAuthn
  imports Cbor Base64 AuthzLoader MfaStore
begin

unbundle bit_operations_syntax

text \<open>
  WebAuthn registration and assertion (\<open>campusid/mfa/webauthn.py\<close>), with the part of the factor store
  that keeps credentials (\<open>mfa/store.py\<close>).

  SHA-256, reading the client data as JSON, building keys from their numbers and checking signatures are
  parameters, the fields of \<open>webauthn_lib\<close>.  A rejection is its reason; its prose is left out.  Reading a
  CBOR map follows Python's equality, where \<open>True\<close> is \<open>1\<close>.
\<close>

section \<open>Data\<close>

datatype webauthn_reason = W_MALFORMED | W_WRONG_TYPE | W_CHALLENGE_MISMATCH | W_ORIGIN_MISMATCH | W_RP_MISMATCH
  | W_USER_NOT_PRESENT | W_UNSUPPORTED_ATTESTATION | W_UNSUPPORTED_ALGORITHM | W_SIGNATURE_INVALID | W_CLONED

definition UP :: byte where "UP = 0x01"
definition UV :: byte where "UV = 0x04"
definition AT :: byte where "AT = 0x40"
definition ED :: byte where "ED = 0x80"

definition ES256 :: int where "ES256 = -7"
definition RS256 :: int where "RS256 = -257"
definition EDDSA :: int where "EDDSA = -8"

definition SUPPORTED_ALGORITHMS :: "int list" where "SUPPORTED_ALGORITHMS = [ES256, RS256, EDDSA]"

definition COSE_KTY :: int where "COSE_KTY = 1"
definition COSE_ALG :: int where "COSE_ALG = 3"
definition COSE_CRV :: int where "COSE_CRV = -1"
definition COSE_X :: int where "COSE_X = -2"
definition COSE_Y :: int where "COSE_Y = -3"
definition COSE_RSA_N :: int where "COSE_RSA_N = -1"
definition COSE_RSA_E :: int where "COSE_RSA_E = -2"
definition KTY_OKP :: int where "KTY_OKP = 1"
definition KTY_EC2 :: int where "KTY_EC2 = 2"
definition KTY_RSA :: int where "KTY_RSA = 3"
definition CRV_P256 :: int where "CRV_P256 = 1"
definition CRV_ED25519 :: int where "CRV_ED25519 = 6"

record authenticator_data =
  ad_rp_id_hash :: bytes
  ad_flags :: byte
  ad_sign_count :: nat
  ad_credential_id :: "bytes option"
  ad_public_key :: "bytes option"

definition user_present :: "authenticator_data \<Rightarrow> bool" where
  "user_present a = (ad_flags a AND UP \<noteq> 0)"

definition user_verified :: "authenticator_data \<Rightarrow> bool" where
  "user_verified a = (ad_flags a AND UV \<noteq> 0)"

record wa_registration = registration +
  rg_user_verified :: bool

record wa_assertion =
  as_credential_id :: bytes
  as_sign_count :: nat
  as_user_verified :: bool

datatype 'k wa_key = EcKey 'k | RsaKey 'k | EdKey 'k

record 'k webauthn_lib =
  wl_sha256 :: "bytes \<Rightarrow> bytes"
  wl_loads :: "bytes \<Rightarrow> pyval option"
  wl_reprs :: "pyval \<Rightarrow> string"
  wl_ec :: "nat \<Rightarrow> nat \<Rightarrow> 'k option"
  wl_rsa :: "nat \<Rightarrow> nat \<Rightarrow> 'k option"
  wl_ed :: "bytes \<Rightarrow> 'k option"
  wl_verify :: "'k wa_key \<Rightarrow> bytes \<Rightarrow> bytes \<Rightarrow> bool"

section \<open>The authenticator data\<close>

definition credential_part :: "bytes \<Rightarrow> byte \<Rightarrow> bool \<Rightarrow> (webauthn_reason, bytes option \<times> bytes option \<times> nat) result" where
  "credential_part raw flags expect_credential =
     (if flags AND AT \<noteq> 0 then
        if length raw < 37 + 18 then Err W_MALFORMED
        else let id_length = be_nat (take 2 (drop 53 raw)); offset = 55 + id_length in
          if length raw < offset then Err W_MALFORMED
          else (case decode_prefix (drop offset raw) of
              Inl _ \<Rightarrow> Err W_MALFORMED
            | Inr (_, used) \<Rightarrow> Ok (Some (take id_length (drop 55 raw)), Some (take used (drop offset raw)), offset + used))
      else if expect_credential then Err W_MALFORMED
      else Ok (None, None, 37))"

definition extension_part :: "bytes \<Rightarrow> byte \<Rightarrow> nat \<Rightarrow> (webauthn_reason, nat) result" where
  "extension_part raw flags offset =
     (if flags AND ED \<noteq> 0 then (case decode_prefix (drop offset raw) of
          Inl _ \<Rightarrow> Err W_MALFORMED | Inr (_, used) \<Rightarrow> Ok (offset + used))
      else Ok offset)"

definition parse_authenticator_data :: "bytes \<Rightarrow> bool \<Rightarrow> (webauthn_reason, authenticator_data) result" where
  "parse_authenticator_data raw expect_credential =
     (if length raw < 37 then Err W_MALFORMED
      else let flags = raw ! 32; sign_count = be_nat (take 4 (drop 33 raw)) in
        case credential_part raw flags expect_credential of
          Inl e \<Rightarrow> Err e
        | Inr (credential_id, public_key, offset) \<Rightarrow> (case extension_part raw flags offset of
            Inl e \<Rightarrow> Err e
          | Inr end \<Rightarrow> if end \<noteq> length raw then Err W_MALFORMED
              else Ok \<lparr>ad_rp_id_hash = take 32 raw, ad_flags = flags, ad_sign_count = sign_count,
                ad_credential_id = credential_id, ad_public_key = public_key\<rparr>))"

section \<open>The client data\<close>

definition b64url_decode :: "string \<Rightarrow> bytes" where
  "b64url_decode value = (case urlsafe_b64decode value of Some b \<Rightarrow> b | None \<Rightarrow> [])"

definition client_data_hash :: "'k webauthn_lib \<Rightarrow> bytes \<Rightarrow> string \<Rightarrow> bytes \<Rightarrow> string \<Rightarrow> (webauthn_reason, bytes) result" where
  "client_data_hash W raw expected_type challenge origin = (case wl_loads W raw of
       Some (PDict payload) \<Rightarrow>
         if map_of payload ''type'' \<noteq> Some (PStr expected_type) then Err W_WRONG_TYPE
         else if b64url_decode (str_of (wl_reprs W) (case map_of payload ''challenge'' of Some v \<Rightarrow> v | None \<Rightarrow> PStr [])) \<noteq> challenge
         then Err W_CHALLENGE_MISMATCH
         else if map_of payload ''origin'' \<noteq> Some (PStr origin) then Err W_ORIGIN_MISMATCH
         else Ok (wl_sha256 W raw)
     | _ \<Rightarrow> Err W_MALFORMED)"

definition common_checks :: "'k webauthn_lib \<Rightarrow> authenticator_data \<Rightarrow> string \<Rightarrow> (webauthn_reason, unit) result" where
  "common_checks W a rp_id =
     (if ad_rp_id_hash a \<noteq> wl_sha256 W (utf8_encode (map of_char rp_id)) then Err W_RP_MISMATCH
      else if \<not> user_present a then Err W_USER_NOT_PRESENT else Ok ())"

section \<open>Keys and signatures\<close>

definition cbor_get :: "(cbor \<times> cbor) list \<Rightarrow> cbor \<Rightarrow> cbor option" where
  "cbor_get m k = map_option snd (find (\<lambda>(k', v). key_value k' = key_value k) m)"

definition int_at :: "(cbor \<times> cbor) list \<Rightarrow> int \<Rightarrow> cbor option" where
  "int_at m i = map_option key_value (cbor_get m (CInt i))"

definition cose :: "bytes \<Rightarrow> (webauthn_reason, (cbor \<times> cbor) list) result" where
  "cose key = (case cbor_decode key of Inr (CMap m) \<Rightarrow> Ok m | _ \<Rightarrow> Err W_MALFORMED)"

definition cose_algorithm :: "bytes \<Rightarrow> (webauthn_reason, int) result" where
  "cose_algorithm key = (case cose key of Inl e \<Rightarrow> Err e
     | Inr m \<Rightarrow> (case int_at m COSE_ALG of
         Some (CInt i) \<Rightarrow> if i \<in> set SUPPORTED_ALGORITHMS then Ok i else Err W_UNSUPPORTED_ALGORITHM
       | _ \<Rightarrow> Err W_UNSUPPORTED_ALGORITHM))"

definition made :: "('k \<Rightarrow> 'k wa_key) \<Rightarrow> 'k option \<Rightarrow> (webauthn_reason, 'k wa_key) result" where
  "made C k = (case k of Some x \<Rightarrow> Ok (C x) | None \<Rightarrow> Err W_MALFORMED)"

definition public_key_of :: "'k webauthn_lib \<Rightarrow> bytes \<Rightarrow> (webauthn_reason, 'k wa_key) result" where
  "public_key_of W key = (case cose key of Inl e \<Rightarrow> Err e
     | Inr m \<Rightarrow> (let kty = int_at m COSE_KTY in
         if kty = Some (CInt KTY_EC2) then
           if int_at m COSE_CRV \<noteq> Some (CInt CRV_P256) then Err W_UNSUPPORTED_ALGORITHM
           else (case (cbor_get m (CInt COSE_X), cbor_get m (CInt COSE_Y)) of
               (Some (CBytes x), Some (CBytes y)) \<Rightarrow> made EcKey (wl_ec W (be_nat x) (be_nat y))
             | _ \<Rightarrow> Err W_MALFORMED)
         else if kty = Some (CInt KTY_RSA) then
           (case (cbor_get m (CInt COSE_RSA_N), cbor_get m (CInt COSE_RSA_E)) of
               (Some (CBytes modulus), Some (CBytes e)) \<Rightarrow> made RsaKey (wl_rsa W (be_nat e) (be_nat modulus))
             | _ \<Rightarrow> Err W_MALFORMED)
         else if kty = Some (CInt KTY_OKP) then
           if int_at m COSE_CRV \<noteq> Some (CInt CRV_ED25519) then Err W_UNSUPPORTED_ALGORITHM
           else (case cbor_get m (CInt COSE_X) of
               Some (CBytes x) \<Rightarrow> made EdKey (wl_ed W x) | _ \<Rightarrow> Err W_MALFORMED)
         else Err W_UNSUPPORTED_ALGORITHM))"

definition algorithm_fits :: "int \<Rightarrow> 'k wa_key \<Rightarrow> bool" where
  "algorithm_fits algorithm key = (case key of
     EcKey _ \<Rightarrow> algorithm = ES256 | RsaKey _ \<Rightarrow> algorithm = RS256 | EdKey _ \<Rightarrow> algorithm = EDDSA)"

definition check_signature :: "'k webauthn_lib \<Rightarrow> 'k wa_key \<Rightarrow> int \<Rightarrow> bytes \<Rightarrow> bytes \<Rightarrow> (webauthn_reason, unit) result" where
  "check_signature W key algorithm sig msg =
     (if \<not> algorithm_fits algorithm key then Err W_UNSUPPORTED_ALGORITHM
      else if wl_verify W key sig msg then Ok () else Err W_SIGNATURE_INVALID)"

definition check_counter :: "int \<Rightarrow> nat \<Rightarrow> (webauthn_reason, unit) result" where
  "check_counter stored presented =
     (if stored = 0 \<and> presented = 0 then Ok () else if int presented \<le> stored then Err W_CLONED else Ok ())"

section \<open>The ceremonies\<close>

definition wa_register ::
  "'k webauthn_lib \<Rightarrow> bytes \<Rightarrow> bytes \<Rightarrow> bytes \<Rightarrow> string \<Rightarrow> string \<Rightarrow> (webauthn_reason, wa_registration) result" where
  "wa_register W client_data attestation_object challenge origin rp_id =
     (case client_data_hash W client_data ''webauthn.create'' challenge origin of Inl e \<Rightarrow> Err e
      | Inr _ \<Rightarrow> (case cbor_decode attestation_object of
          Inr (CMap m) \<Rightarrow>
            if cbor_get m (CText (map of_char ''fmt'')) \<noteq> Some (CText (map of_char ''none'')) then Err W_UNSUPPORTED_ATTESTATION
            else (case cbor_get m (CText (map of_char ''authData'')) of
              Some (CBytes raw) \<Rightarrow> (case parse_authenticator_data raw True of Inl e \<Rightarrow> Err e
                | Inr a \<Rightarrow> (case common_checks W a rp_id of Inl e \<Rightarrow> Err e
                  | Inr _ \<Rightarrow> (case (ad_credential_id a, ad_public_key a) of
                      (Some cid, Some key) \<Rightarrow> (case cose_algorithm key of Inl e \<Rightarrow> Err e
                        | Inr algorithm \<Rightarrow> (case public_key_of W key of Inl e \<Rightarrow> Err e
                          | Inr _ \<Rightarrow> Ok \<lparr>rg_credential_id = cid, rg_public_key = key, rg_sign_count = int (ad_sign_count a),
                              rg_algorithm = algorithm, rg_user_verified = user_verified a\<rparr>))
                    | _ \<Rightarrow> Err W_MALFORMED)))
            | _ \<Rightarrow> Err W_MALFORMED)
        | _ \<Rightarrow> Err W_MALFORMED))"

definition wa_verify ::
  "'k webauthn_lib \<Rightarrow> bytes \<Rightarrow> bytes \<Rightarrow> bytes \<Rightarrow> bytes \<Rightarrow> bytes \<Rightarrow> int \<Rightarrow> bytes \<Rightarrow> string \<Rightarrow> string \<Rightarrow>
     (webauthn_reason, wa_assertion) result" where
  "wa_verify W client_data authenticator_data sig key credential_id stored_sign_count challenge origin rp_id =
     (case client_data_hash W client_data ''webauthn.get'' challenge origin of Inl e \<Rightarrow> Err e
      | Inr client_hash \<Rightarrow> (case parse_authenticator_data authenticator_data False of Inl e \<Rightarrow> Err e
        | Inr a \<Rightarrow> (case common_checks W a rp_id of Inl e \<Rightarrow> Err e
          | Inr _ \<Rightarrow> (case public_key_of W key of Inl e \<Rightarrow> Err e
            | Inr k \<Rightarrow> (case cose_algorithm key of Inl e \<Rightarrow> Err e
              | Inr algorithm \<Rightarrow> (case check_signature W k algorithm sig (authenticator_data @ client_hash) of Inl e \<Rightarrow> Err e
                | Inr _ \<Rightarrow> (case check_counter stored_sign_count (ad_sign_count a) of Inl e \<Rightarrow> Err e
                  | Inr _ \<Rightarrow> Ok \<lparr>as_credential_id = credential_id, as_sign_count = ad_sign_count a,
                      as_user_verified = user_verified a\<rparr>)))))))"

section \<open>The layout of the authenticator data\<close>

definition readable :: "cbor \<Rightarrow> bool" where
  "readable v \<longleftrightarrow> cbor_wf v \<and> cbor_depth v \<le> MAX_DEPTH + 1"

definition attested :: "byte \<Rightarrow> bool \<Rightarrow> bytes option \<Rightarrow> bytes option \<Rightarrow> bytes \<Rightarrow> bool" where
  "attested flags expect cid key part \<longleftrightarrow>
     (if flags AND AT \<noteq> 0 then \<exists>aaguid i v. length aaguid = 16 \<and> length i < 2 ^ 16 \<and> readable v \<and> cid = Some i \<and>
        key = Some (cbor_encode v) \<and> part = aaguid @ be_bytes 2 (length i) @ i @ cbor_encode v
      else \<not> expect \<and> cid = None \<and> key = None \<and> part = [])"

definition extension :: "byte \<Rightarrow> bytes \<Rightarrow> bool" where
  "extension flags part \<longleftrightarrow> (if flags AND ED \<noteq> 0 then \<exists>v. readable v \<and> part = cbor_encode v else part = [])"

lemma decode_prefix_iff:
  "decode_prefix data = Ok (v, used) \<longleftrightarrow> readable v \<and> used = length (cbor_encode v) \<and> (\<exists>rest. data = cbor_encode v @ rest)"
proof -
  have "take (length e) data = e \<and> length e \<le> length data \<longleftrightarrow> (\<exists>rest. data = e @ rest)" for e
    by (metis append_eq_conv_conj append_take_drop_id length_append le_add1)
  then show ?thesis unfolding decode_prefix_def item.reads readable_def segment_def by auto
qed

lemma extension_part_iff:
  "extension_part raw flags off = Ok e \<longleftrightarrow> (\<exists>part rest. drop off raw = part @ rest \<and> e = off + length part \<and> extension flags part)"
proof (cases "flags AND ED = 0")
  case False
  have "extension_part raw flags off = Ok e \<longleftrightarrow> (\<exists>v used. decode_prefix (drop off raw) = Ok (v, used) \<and> e = off + used)"
    using False by (auto simp: extension_part_def split: sum.splits)
  then show ?thesis using False unfolding decode_prefix_iff extension_def by auto
qed (auto simp: extension_part_def extension_def)

lemma attested_part:
  assumes "length raw \<ge> 55" and "id_length = be_nat (take 2 (drop 53 raw))" and "length raw \<ge> 55 + id_length"
  shows "drop 37 raw = take 16 (drop 37 raw) @ be_bytes 2 id_length @ take id_length (drop 55 raw) @ drop (55 + id_length) raw"
proof -
  have "be_bytes 2 id_length = take 2 (drop 53 raw)" using be_bytes_be_nat[of "take 2 (drop 53 raw)"] assms(1,2) by simp
  moreover have "drop 37 raw = take 16 (drop 37 raw) @ drop 53 raw" using append_take_drop_id[of 16 "drop 37 raw"] by simp
  moreover have "drop 53 raw = take 2 (drop 53 raw) @ drop 55 raw" using append_take_drop_id[of 2 "drop 53 raw"] by simp
  moreover have "drop 55 raw = take id_length (drop 55 raw) @ drop (55 + id_length) raw"
    using append_take_drop_id[of id_length "drop 55 raw"] by (simp add: add.commute)
  ultimately show ?thesis by metis
qed

lemma credential_part_sound:
  assumes "credential_part raw flags expect = Ok (cid, key, off)" and "37 \<le> length raw"
  shows "\<exists>part rest. drop 37 raw = part @ rest \<and> off = 37 + length part \<and> attested flags expect cid key part"
proof (cases "flags AND AT = 0")
  case False
  define n where "n = be_nat (take 2 (drop 53 raw))"
  from False assms(1) obtain v used where len: "55 \<le> length raw" "55 + n \<le> length raw"
      and d: "decode_prefix (drop (55 + n) raw) = Ok (v, used)"
      and r: "cid = Some (take n (drop 55 raw))" "key = Some (take used (drop (55 + n) raw))" "off = 55 + n + used"
    by (auto simp: credential_part_def Let_def n_def[symmetric] not_less split: if_splits sum.splits)
  from d obtain rest where v: "readable v" "used = length (cbor_encode v)" "drop (55 + n) raw = cbor_encode v @ rest"
    unfolding decode_prefix_iff by blast
  let ?i = "take n (drop 55 raw)" let ?part = "take 16 (drop 37 raw) @ be_bytes 2 n @ ?i @ cbor_encode v"
  have i: "length ?i = n" using len(2) by simp
  have "n < 2 ^ 16" using be_nat_bound[of "take 2 (drop 53 raw)"] len(1) by (simp add: n_def)
  then have "attested flags expect cid key ?part"
    using False len(1) v(1,2) r i unfolding attested_def
    by (simp add: v(3)) (rule exI[of _ "take 16 (drop 37 raw)"], simp, rule exI[of _ ?i], simp, rule exI[of _ v], simp)
  moreover have "drop 37 raw = ?part @ rest" using attested_part[OF len(1) n_def len(2)] v(3) by simp
  moreover have "off = 37 + length ?part" using r(3) v(2) i len(1) by simp
  ultimately show ?thesis by blast
qed (use assms in \<open>auto simp: credential_part_def attested_def split: if_splits\<close>)

lemma credential_part_complete:
  assumes "raw = head @ part @ rest" and "length head = 37" and "attested flags expect cid key part"
  shows "credential_part raw flags expect = Ok (cid, key, 37 + length part)"
proof (cases "flags AND AT = 0")
  case False
  then obtain aaguid i v where p: "length aaguid = 16" "length i < 2 ^ 16" "readable v" "cid = Some i" "key = Some (cbor_encode v)"
      "part = aaguid @ be_bytes 2 (length i) @ i @ cbor_encode v"
    using assms(3) by (auto simp: attested_def)
  have n: "be_nat (take 2 (drop 53 raw)) = length i" using assms(1,2) p by (simp add: be_nat_be_bytes)
  have d: "drop 55 raw = i @ cbor_encode v @ rest" "drop (55 + length i) raw = cbor_encode v @ rest" using assms(1,2) p by simp_all
  then have "decode_prefix (drop (55 + length i) raw) = Ok (v, length (cbor_encode v))" using p(3) by (simp add: decode_prefix_iff)
  then show ?thesis using False assms(1,2) p n d by (simp add: credential_part_def Let_def)
qed (use assms in \<open>simp add: credential_part_def attested_def\<close>)

definition header_of :: "authenticator_data \<Rightarrow> bytes" where
  "header_of a = ad_rp_id_hash a @ [ad_flags a] @ be_bytes 4 (ad_sign_count a)"

definition auth_layout :: "authenticator_data \<Rightarrow> bool \<Rightarrow> bytes \<Rightarrow> bool" where
  "auth_layout a expect raw \<longleftrightarrow> length (ad_rp_id_hash a) = 32 \<and> ad_sign_count a < 2 ^ 32 \<and>
     (\<exists>part ext. raw = header_of a @ part @ ext \<and> attested (ad_flags a) expect (ad_credential_id a) (ad_public_key a) part \<and>
        extension (ad_flags a) ext)"

lemma split_header:
  assumes "37 \<le> length raw"
  shows "raw = take 32 raw @ [raw ! 32] @ be_bytes 4 (be_nat (take 4 (drop 33 raw))) @ drop 37 raw"
proof -
  have "be_bytes 4 (be_nat (take 4 (drop 33 raw))) = take 4 (drop 33 raw)"
    using be_bytes_be_nat[of "take 4 (drop 33 raw)"] assms by simp
  moreover have "drop 33 raw = take 4 (drop 33 raw) @ drop 37 raw" using append_take_drop_id[of 4 "drop 33 raw"] by simp
  moreover have "drop 32 raw = raw ! 32 # drop 33 raw" using assms by (simp add: Cons_nth_drop_Suc[symmetric])
  ultimately show ?thesis by (metis append_Cons append_Nil append_take_drop_id)
qed

lemma parse_layout: "parse_authenticator_data raw expect = Ok a \<longleftrightarrow> auth_layout a expect raw"
proof
  assume p: "parse_authenticator_data raw expect = Ok a"
  then obtain cid key off where len: "37 \<le> length raw" and c: "credential_part raw (raw ! 32) expect = Ok (cid, key, off)"
      and e: "extension_part raw (raw ! 32) off = Ok (length raw)"
      and a: "a = \<lparr>ad_rp_id_hash = take 32 raw, ad_flags = raw ! 32, ad_sign_count = be_nat (take 4 (drop 33 raw)),
        ad_credential_id = cid, ad_public_key = key\<rparr>"
    by (auto simp: parse_authenticator_data_def Let_def not_less split: if_splits sum.splits)
  obtain part rest where pr: "drop 37 raw = part @ rest" "off = 37 + length part" "attested (raw ! 32) expect cid key part"
    using credential_part_sound[OF c len] by blast
  obtain ext rest' where er: "drop off raw = ext @ rest'" "length raw = off + length ext" "extension (raw ! 32) ext"
    using e unfolding extension_part_iff by blast
  have "drop off raw = rest" using pr(1,2) drop_drop[of "length part" 37 raw] by (simp add: add.commute)
  moreover have "length raw - off = length ext + length rest'" using er(1) by (metis length_append length_drop)
  then have "rest' = []" using er(2) by simp
  ultimately have raw: "raw = header_of a @ part @ ext" using split_header[OF len] pr(1) er(1) by (simp add: a header_of_def)
  have "be_nat (take 4 (drop 33 raw)) < 2 ^ 32" using be_nat_bound[of "take 4 (drop 33 raw)"] len by simp
  then have "length (ad_rp_id_hash a) = 32" "ad_sign_count a < 2 ^ 32" using len by (simp_all add: a)
  moreover have "attested (ad_flags a) expect (ad_credential_id a) (ad_public_key a) part" "extension (ad_flags a) ext"
    using pr(3) er(3) by (simp_all add: a)
  ultimately show "auth_layout a expect raw" using raw unfolding auth_layout_def by blast
next
  assume "auth_layout a expect raw"
  then obtain part ext where h: "length (ad_rp_id_hash a) = 32" "ad_sign_count a < 2 ^ 32" and raw: "raw = header_of a @ part @ ext"
      and p: "attested (ad_flags a) expect (ad_credential_id a) (ad_public_key a) part" and e: "extension (ad_flags a) ext"
    unfolding auth_layout_def by blast
  have l: "length (header_of a) = 37" using h by (simp add: header_of_def)
  have f: "raw ! 32 = ad_flags a" "take 32 raw = ad_rp_id_hash a" "be_nat (take 4 (drop 33 raw)) = ad_sign_count a"
    using h raw by (simp_all add: header_of_def nth_append be_nat_be_bytes)
  have c: "credential_part raw (ad_flags a) expect = Ok (ad_credential_id a, ad_public_key a, 37 + length part)"
    by (rule credential_part_complete[OF raw l p])
  have "extension_part raw (ad_flags a) (37 + length part) = Ok (length raw)"
    unfolding extension_part_iff using raw l e by (intro exI[of _ ext] exI[of _ "[]"]) simp
  then show "parse_authenticator_data raw expect = Ok a" using raw l f c by (simp add: parse_authenticator_data_def Let_def)
qed

section \<open>Properties\<close>

text \<open>Authenticator data is read exactly as it is laid out.  A byte string is accepted with given fields if and
  only if it is the hash, the flags and the counter in their fixed widths, then the attested credential with
  an identifier of the length it claims and a key in canonical CBOR just when the flag says so, then one
  CBOR item of extensions just when the flag says so, and nothing more.\<close>

theorem parse_authenticator_data_exact:
  "(parse_authenticator_data raw expect = Ok a) =
     (length (ad_rp_id_hash a) = 32 \<and> ad_sign_count a < 2 ^ 32 \<and>
      (\<exists>part ext. raw = ad_rp_id_hash a @ [ad_flags a] @ be_bytes 4 (ad_sign_count a) @ part @ ext \<and>
         attested (ad_flags a) expect (ad_credential_id a) (ad_public_key a) part \<and> extension (ad_flags a) ext))"
  unfolding parse_layout auth_layout_def header_of_def by simp

text \<open>What an accepted assertion was checked for.\<close>

lemma wa_verify_Ok:
  assumes "wa_verify W cd ad sig key cid stored challenge origin rp_id = Ok r"
  shows "\<exists>payload a k alg. wl_loads W cd = Some (PDict payload) \<and> map_of payload ''type'' = Some (PStr ''webauthn.get'') \<and>
     map_of payload ''origin'' = Some (PStr origin) \<and>
     b64url_decode (str_of (wl_reprs W) (case map_of payload ''challenge'' of Some v \<Rightarrow> v | None \<Rightarrow> PStr [])) = challenge \<and>
     parse_authenticator_data ad False = Ok a \<and> ad_rp_id_hash a = wl_sha256 W (utf8_encode (map of_char rp_id)) \<and> user_present a \<and>
     public_key_of W key = Ok k \<and> cose_algorithm key = Ok alg \<and> algorithm_fits alg k \<and> wl_verify W k sig (ad @ wl_sha256 W cd) \<and>
     (stored = 0 \<and> ad_sign_count a = 0 \<or> stored < int (ad_sign_count a)) \<and>
     r = \<lparr>as_credential_id = cid, as_sign_count = ad_sign_count a, as_user_verified = user_verified a\<rparr>"
proof -
  obtain ch where ch: "client_data_hash W cd ''webauthn.get'' challenge origin = Ok ch"
    using assms by (auto simp: wa_verify_def split: sum.splits)
  then obtain payload where p: "wl_loads W cd = Some (PDict payload)" "map_of payload ''type'' = Some (PStr ''webauthn.get'')"
      "map_of payload ''origin'' = Some (PStr origin)" "ch = wl_sha256 W cd"
      "b64url_decode (str_of (wl_reprs W) (case map_of payload ''challenge'' of Some v \<Rightarrow> v | None \<Rightarrow> PStr [])) = challenge"
    by (auto simp: client_data_hash_def split: option.splits pyval.splits if_splits)
  obtain a where a: "parse_authenticator_data ad False = Ok a" "common_checks W a rp_id = Ok ()"
    using assms ch by (auto simp: wa_verify_def split: sum.splits)
  obtain k alg where k: "public_key_of W key = Ok k" "cose_algorithm key = Ok alg" "check_signature W k alg sig (ad @ ch) = Ok ()"
      "check_counter stored (ad_sign_count a) = Ok ()"
      "r = \<lparr>as_credential_id = cid, as_sign_count = ad_sign_count a, as_user_verified = user_verified a\<rparr>"
    using assms ch a by (auto simp: wa_verify_def split: sum.splits)
  have "ad_rp_id_hash a = wl_sha256 W (utf8_encode (map of_char rp_id)) \<and> user_present a"
    using a(2) by (auto simp: common_checks_def split: if_splits)
  moreover have "algorithm_fits alg k \<and> wl_verify W k sig (ad @ ch)" using k(3) by (auto simp: check_signature_def split: if_splits)
  moreover have "stored = 0 \<and> ad_sign_count a = 0 \<or> stored < int (ad_sign_count a)"
    using k(4) by (auto simp: check_counter_def split: if_splits)
  ultimately show ?thesis using p a(1) k(1,2,5) by blast
qed

text \<open>A second factor cannot be relayed.  When the credential's signatures are only ever made over the
  authenticator data and the hash of client data of \<open>Signed\<close>, the pairs its holder's browser and authenticator
  produced, an accepted assertion is one of those pairs, and it was produced for this broker's origin, this
  relying party and the outstanding challenge, with somebody present: a pair produced on a lookalike page,
  which carries that page's origin, is never accepted.\<close>

theorem assertion_not_relayed:
  assumes "wa_verify W cd ad sig key cid stored challenge origin rp_id = Ok r"
    and "\<And>x. length (wl_sha256 W x) = 32" and "\<And>cd'. wl_sha256 W cd' = wl_sha256 W cd \<Longrightarrow> cd' = cd"
    and "\<And>k s m. public_key_of W key = Ok k \<Longrightarrow> wl_verify W k s m \<Longrightarrow> \<exists>(ad', cd')\<in>Signed. m = ad' @ wl_sha256 W cd'"
  shows "(ad, cd) \<in> Signed \<and>
     (\<exists>payload. wl_loads W cd = Some (PDict payload) \<and> map_of payload ''origin'' = Some (PStr origin) \<and>
        map_of payload ''type'' = Some (PStr ''webauthn.get'') \<and>
        b64url_decode (str_of (wl_reprs W) (case map_of payload ''challenge'' of Some v \<Rightarrow> v | None \<Rightarrow> PStr [])) = challenge) \<and>
     take 32 ad = wl_sha256 W (utf8_encode (map of_char rp_id)) \<and> ad ! 32 AND UP \<noteq> 0"
proof -
  obtain payload a k where p: "wl_loads W cd = Some (PDict payload)" "map_of payload ''type'' = Some (PStr ''webauthn.get'')"
      "map_of payload ''origin'' = Some (PStr origin)"
      "b64url_decode (str_of (wl_reprs W) (case map_of payload ''challenge'' of Some v \<Rightarrow> v | None \<Rightarrow> PStr [])) = challenge"
    and a: "parse_authenticator_data ad False = Ok a" "ad_rp_id_hash a = wl_sha256 W (utf8_encode (map of_char rp_id))" "user_present a"
    and k: "public_key_of W key = Ok k" "wl_verify W k sig (ad @ wl_sha256 W cd)"
    using wa_verify_Ok[OF assms(1)] by blast
  obtain ad' cd' where s: "(ad', cd') \<in> Signed" "ad @ wl_sha256 W cd = ad' @ wl_sha256 W cd'" using assms(4)[OF k] by blast
  then have "ad = ad'" "wl_sha256 W cd = wl_sha256 W cd'" using assms(2) by simp_all
  then have "(ad, cd) \<in> Signed" using s(1) assms(3) by metis
  moreover have "take 32 ad = ad_rp_id_hash a" "ad ! 32 = ad_flags a"
    using a(1) by (auto simp: parse_layout auth_layout_def header_of_def nth_append)
  ultimately show ?thesis using p a(2,3) by (auto simp: user_present_def)
qed

definition sample_cose :: bytes where
  "sample_cose = cbor_encode (CMap [(CInt 1, CInt 2), (CInt 3, CInt (-7)), (CInt (-1), CInt 1), (CInt (-2), CBytes [1]), (CInt (-3), CBytes [1])])"

definition sample_auth :: "byte \<Rightarrow> bytes" where
  "sample_auth n = replicate 32 0 @ [UP, 0, 0, 0, n]"

definition sample_lib :: "unit webauthn_lib" where
  "sample_lib = \<lparr>wl_sha256 = (\<lambda>x. if x = [7] then replicate 32 1 else replicate 32 0),
     wl_loads = (\<lambda>x. Some (PDict [(''type'', PStr ''webauthn.get''), (''challenge'', PStr ''AQ''), (''origin'', PStr ''https://c'')])),
     wl_reprs = (\<lambda>v. []), wl_ec = (\<lambda>x y. Some ()), wl_rsa = (\<lambda>x y. None), wl_ed = (\<lambda>x. None),
     wl_verify = (\<lambda>k s m. m = sample_auth 5 @ replicate 32 1)\<rparr>"

lemma sample_assertion_verified:
  "wa_verify sample_lib [7] (sample_auth 5) [] sample_cose [9] 4 [1] ''https://c'' ''c'' =
     Ok \<lparr>as_credential_id = [9], as_sign_count = 5, as_user_verified = False\<rparr>"
  by code_simp

theorem assertion_not_relayed_witness:
  "wa_verify sample_lib [7] (sample_auth 5) [] sample_cose [9] 4 [1] ''https://c'' ''c'' =
     Ok \<lparr>as_credential_id = [9], as_sign_count = 5, as_user_verified = False\<rparr> \<and>
   (sample_auth 5, [7]) \<in> {(sample_auth 5, [7])} \<and> sample_auth 5 ! 32 AND UP \<noteq> 0"
proof -
  have "wl_verify sample_lib k s m \<Longrightarrow> \<exists>(ad', cd')\<in>{(sample_auth 5, [7])}. m = ad' @ wl_sha256 sample_lib cd'" for k s m
    by (simp add: sample_lib_def)
  moreover have "length (wl_sha256 sample_lib x) = 32" "wl_sha256 sample_lib x = wl_sha256 sample_lib [7] \<Longrightarrow> x = [7]" for x
    by (simp_all add: sample_lib_def split: if_splits)
  ultimately show ?thesis
    using sample_assertion_verified assertion_not_relayed[OF sample_assertion_verified, of "{(sample_auth 5, [7])}"] by blast
qed

text \<open>A challenge sent to the browser as unpadded base64url is read back as the same bytes.\<close>

theorem challenge_roundtrip: "b64url_decode (b64url bs) = bs"
  by (simp add: b64url_decode_def urlsafe_b64url)

section \<open>Keys that cannot verify\<close>

text \<open>A key whose algorithm does not belong to its type is registered and never works: registration checks the
  algorithm and the key separately, and every assertion with such a key is refused whatever it is.\<close>

theorem mismatched_key_never_verifies:
  assumes "cose_algorithm key = Ok alg" and "public_key_of W key = Ok k" and "\<not> algorithm_fits alg k"
  shows "wa_verify W cd ad sig key cid stored challenge origin rp_id \<noteq> Ok r"
  using wa_verify_Ok[of W cd ad sig key cid stored challenge origin rp_id r] assms by auto

definition mixed_key :: cbor where
  "mixed_key = CMap [(CInt 1, CInt 2), (CInt 3, CInt (-257)), (CInt (-1), CInt 1), (CInt (-2), CBytes [1]), (CInt (-3), CBytes [1])]"

abbreviation mixed_cose :: bytes where "mixed_cose \<equiv> cbor_encode mixed_key"

definition mixed_auth :: bytes where
  "mixed_auth = replicate 32 0 @ [UP OR AT, 0, 0, 0, 0] @ replicate 16 0 @ [0, 1, 9] @ mixed_cose"

definition mixed_attestation :: cbor where
  "mixed_attestation = CMap [(CText (map of_char ''fmt''), CText (map of_char ''none'')), (CText (map of_char ''authData''), CBytes mixed_auth)]"

definition creating_lib :: "unit webauthn_lib" where
  "creating_lib = sample_lib\<lparr>wl_loads := (\<lambda>x. Some (PDict [(''type'', PStr ''webauthn.create''), (''challenge'', PStr ''AQ''),
     (''origin'', PStr ''https://c'')]))\<rparr>"

theorem mismatched_key_never_verifies_witness:
  "wa_register creating_lib [7] (cbor_encode mixed_attestation) [1] ''https://c'' ''c'' =
     Ok \<lparr>rg_credential_id = [9], rg_public_key = mixed_cose, rg_sign_count = 0, rg_algorithm = RS256, rg_user_verified = False\<rparr> \<and>
   (\<forall>cd ad sig stored challenge r. wa_verify sample_lib cd ad sig mixed_cose [9] stored challenge ''https://c'' ''c'' \<noteq> Ok r)"
proof -
  have r: "readable mixed_key" by (simp add: readable_def mixed_key_def MAX_DEPTH_def)
  then have "cbor_decode mixed_cose = Ok mixed_key" by (simp add: cbor_decode_iff readable_def)
  then have key: "cose_algorithm mixed_cose = Ok RS256" "public_key_of sample_lib mixed_cose = Ok (EcKey ())"
      "public_key_of creating_lib mixed_cose = Ok (EcKey ())"
    by (simp_all add: cose_algorithm_def public_key_of_def cose_def int_at_def cbor_get_def COSE_ALG_def COSE_KTY_def COSE_CRV_def COSE_X_def
        COSE_Y_def KTY_EC2_def CRV_P256_def RS256_def SUPPORTED_ALGORITHMS_def made_def creating_lib_def sample_lib_def mixed_key_def
        del: cbor_encode.simps)
  have "length mixed_cose < 100" by (simp add: mixed_key_def cbor_head_def)
  then have "cbor_wf mixed_attestation \<and> cbor_depth mixed_attestation \<le> MAX_DEPTH + 1"
    by (simp add: mixed_attestation_def MAX_DEPTH_def mixed_auth_def valid_cp_def utf8_encode_def utf8_char_def del: cbor_encode.simps)
  then have dec: "cbor_decode (cbor_encode mixed_attestation) = Ok mixed_attestation" by (simp add: cbor_decode_iff)
  have auth: "parse_authenticator_data mixed_auth True = Ok \<lparr>ad_rp_id_hash = replicate 32 0, ad_flags = UP OR AT, ad_sign_count = 0,
      ad_credential_id = Some [9], ad_public_key = Some mixed_cose\<rparr>"
  proof -
    have w: "be_bytes 2 (length [9 :: byte]) = [0, 1]" "be_bytes 4 0 = [0, 0, 0, 0]" by code_simp+
    have flags: "(UP OR AT) AND AT \<noteq> 0" "(UP OR AT) AND ED = 0" by (simp_all add: UP_def AT_def ED_def)
    have "attested (UP OR AT) True (Some [9]) (Some mixed_cose) (replicate 16 0 @ be_bytes 2 (length [9 :: byte]) @ [9] @ mixed_cose)"
      unfolding attested_def using flags(1) r by (simp del: cbor_encode.simps) (rule exI[of _ "replicate 16 0"], simp, rule exI[of _ "[9]"], auto)
    then have "attested (UP OR AT) True (Some [9]) (Some mixed_cose) (replicate 16 0 @ [0, 1] @ [9] @ mixed_cose)" unfolding w(1) .
    then show ?thesis
      unfolding parse_layout auth_layout_def header_of_def
      using flags(2) by (auto simp: extension_def mixed_auth_def w simp del: cbor_encode.simps)
  qed
  have "client_data_hash creating_lib [7] ''webauthn.create'' [1] ''https://c'' = Ok (replicate 32 1)" by code_simp
  moreover have "common_checks creating_lib \<lparr>ad_rp_id_hash = replicate 32 0, ad_flags = UP OR AT, ad_sign_count = 0,
      ad_credential_id = Some [9], ad_public_key = Some mixed_cose\<rparr> ''c'' = Ok ()"
    by (simp add: common_checks_def creating_lib_def sample_lib_def user_present_def UP_def AT_def utf8_encode_def utf8_char_def
        del: cbor_encode.simps)
  moreover have "(UP OR AT) AND UV = 0" by (simp add: UP_def AT_def UV_def)
  ultimately have "wa_register creating_lib [7] (cbor_encode mixed_attestation) [1] ''https://c'' ''c'' =
     Ok \<lparr>rg_credential_id = [9], rg_public_key = mixed_cose, rg_sign_count = 0, rg_algorithm = RS256, rg_user_verified = False\<rparr>"
    using key auth unfolding wa_register_def dec
    by (simp add: mixed_attestation_def cbor_get_def user_verified_def del: cbor_encode.simps)
  moreover note key(1,2)
  moreover have "\<not> algorithm_fits RS256 (EcKey ())" by (simp add: algorithm_fits_def RS256_def ES256_def)
  ultimately show ?thesis using mismatched_key_never_verifies by blast
qed

section \<open>Credentials in the factor store\<close>

definition store_register ::
  "'k webauthn_lib \<Rightarrow> factors \<Rightarrow> string \<Rightarrow> string \<Rightarrow> bytes \<Rightarrow> bytes \<Rightarrow> bytes \<Rightarrow> string \<Rightarrow> string \<Rightarrow> int \<Rightarrow> nat \<Rightarrow>
     (mfa_error + webauthn_reason, factors) result" where
  "store_register W db person label client_data attestation_object challenge origin rp_id now i =
     (case wa_register W client_data attestation_object challenge origin rp_id of
        Inl e \<Rightarrow> Err (Inr e)
      | Inr r \<Rightarrow> (case register_webauthn db person label (registration.truncate r) now i of
          Inl e \<Rightarrow> Err (Inl e) | Inr db' \<Rightarrow> Ok db'))"

definition store_verify ::
  "'k webauthn_lib \<Rightarrow> factors \<Rightarrow> string \<Rightarrow> bytes \<Rightarrow> bytes \<Rightarrow> bytes \<Rightarrow> bytes \<Rightarrow> bytes \<Rightarrow> string \<Rightarrow> string \<Rightarrow> int \<Rightarrow>
     (mfa_error + webauthn_reason, factors) result" where
  "store_verify W db person credential_id client_data authenticator_data sig challenge origin rp_id now =
     verify_webauthn db person credential_id (\<lambda>key stored. map_sum id (\<lambda>a. int (as_sign_count a))
       (wa_verify W client_data authenticator_data sig key credential_id stored challenge origin rp_id)) now"

inductive credential_step :: "'k webauthn_lib \<Rightarrow> factors \<Rightarrow> factors \<Rightarrow> bool" for W where
  cr_registered: "store_register W db person label cd att challenge origin rp_id now i = Ok db' \<Longrightarrow> i \<notin> fa_id ` set db \<Longrightarrow>
    credential_step W db db'"
| cr_asserted: "store_verify W db person cid cd ad sig challenge origin rp_id now = Ok db' \<Longrightarrow> credential_step W db db'"
| cr_disabled: "disable db person i now = Ok db' \<Longrightarrow> credential_step W db db'"

definition stored_count :: "factor \<Rightarrow> int" where
  "stored_count f = (case fa_sign_count f of None \<Rightarrow> 0 | Some m \<Rightarrow> m)"

definition one_row :: "factors \<Rightarrow> bool" where
  "one_row db \<longleftrightarrow> (\<forall>f\<in>set db. \<forall>g\<in>set db. fa_id f = fa_id g \<or> fa_credential_id f \<noteq> None \<and> fa_credential_id f = fa_credential_id g \<longrightarrow> f = g)"

definition counter_past :: "bytes \<Rightarrow> int \<Rightarrow> factors \<Rightarrow> bool" where
  "counter_past cid n db \<longleftrightarrow> one_row db \<and> (\<exists>f\<in>set db. fa_credential_id f = Some cid) \<and>
     (\<forall>f\<in>set db. fa_credential_id f = Some cid \<longrightarrow> n \<le> stored_count f)"

lemma store_verify_Ok:
  assumes "store_verify W db person cid cd ad sig challenge origin rp_id now = Ok db'"
  shows "\<exists>f a. f \<in> set db \<and> fa_credential_id f = Some cid \<and> parse_authenticator_data ad False = Ok a \<and>
     (stored_count f = 0 \<and> ad_sign_count a = 0 \<or> stored_count f < int (ad_sign_count a)) \<and>
     db' = map (\<lambda>g. if fa_id g = fa_id f then g\<lparr>fa_sign_count := Some (int (ad_sign_count a)), fa_last_used_at := Some now\<rparr> else g) db"
proof -
  obtain f key r where f: "f \<in> set db" "fa_credential_id f = Some cid"
      and v: "wa_verify W cd ad sig key cid (stored_count f) challenge origin rp_id = Ok r"
      and db': "db' = map (\<lambda>g. if fa_id g = fa_id f then g\<lparr>fa_sign_count := Some (int (as_sign_count r)), fa_last_used_at := Some now\<rparr> else g) db"
  proof -
    let ?P = "\<lambda>f. fa_credential_id f = Some cid \<and> fa_person f = person \<and> fa_kind f = WEBAUTHN_KIND \<and> fa_disabled_at f = None \<and>
      fa_confirmed_at f \<noteq> None"
    obtain f key n where found: "find ?P db = Some f" and n: "map_sum id (\<lambda>a. int (as_sign_count a))
          (wa_verify W cd ad sig key cid (stored_count f) challenge origin rp_id) = Inr n"
        and db': "db' = fst (update_where (\<lambda>g. fa_id g = fa_id f) (\<lambda>g. g\<lparr>fa_sign_count := Some n, fa_last_used_at := Some now\<rparr>) db)"
      using assms unfolding store_verify_def verify_webauthn_def stored_count_def by (auto split: option.splits sum.splits)
    obtain r where r: "wa_verify W cd ad sig key cid (stored_count f) challenge origin rp_id = Ok r" "n = int (as_sign_count r)"
      using n by (cases "wa_verify W cd ad sig key cid (stored_count f) challenge origin rp_id") auto
    have "f \<in> set db \<and> ?P f" using found by (auto simp: find_Some_iff)
    then show thesis using that[of f key r] r db' by (simp add: update_where_def)
  qed
  obtain a where "parse_authenticator_data ad False = Ok a" "stored_count f = 0 \<and> ad_sign_count a = 0 \<or> stored_count f < int (ad_sign_count a)"
      "as_sign_count r = ad_sign_count a"
    using wa_verify_Ok[OF v] by force
  moreover from this(3) db' have "db' = map (\<lambda>g. if fa_id g = fa_id f then g\<lparr>fa_sign_count := Some (int (ad_sign_count a)),
      fa_last_used_at := Some now\<rparr> else g) db" by (simp only:)
  ultimately show ?thesis using f by blast
qed

lemma rows_updated:
  assumes "one_row db" and "\<And>g. fa_id (h g) = fa_id g" and "\<And>g. fa_credential_id (h g) = fa_credential_id g"
  shows "one_row (map (\<lambda>g. if c g then h g else g) db)"
  unfolding one_row_def
proof (intro ballI impI)
  fix f g
  assume "f \<in> set (map (\<lambda>g. if c g then h g else g) db)" "g \<in> set (map (\<lambda>g. if c g then h g else g) db)"
    and same: "fa_id f = fa_id g \<or> fa_credential_id f \<noteq> None \<and> fa_credential_id f = fa_credential_id g"
  then obtain f0 g0 where o: "f0 \<in> set db" "g0 \<in> set db" "f = (if c f0 then h f0 else f0)" "g = (if c g0 then h g0 else g0)" by auto
  then have "fa_id f = fa_id f0" "fa_id g = fa_id g0" "fa_credential_id f = fa_credential_id f0" "fa_credential_id g = fa_credential_id g0"
    by (simp_all add: assms(2,3))
  then have "f0 = g0" using assms(1) same o(1,2) unfolding one_row_def by metis
  then show "f = g" using o by simp
qed

lemma row_added:
  assumes "one_row db" and "fa_id f \<notin> fa_id ` set db" and "\<forall>g\<in>set db. fa_credential_id g \<noteq> fa_credential_id f"
  shows "one_row (db @ [f])"
  unfolding one_row_def
proof (intro ballI impI)
  fix x y
  assume m: "x \<in> set (db @ [f])" "y \<in> set (db @ [f])"
    and same: "fa_id x = fa_id y \<or> fa_credential_id x \<noteq> None \<and> fa_credential_id x = fa_credential_id y"
  have apart: "fa_id g \<noteq> fa_id f" "fa_credential_id g \<noteq> fa_credential_id f" if "g \<in> set db" for g
    using imageI[OF that, of fa_id] that assms(2,3) by (metis, blast)
  consider "x \<in> set db" "y \<in> set db" | "x \<in> set db" "y = f" | "x = f" "y \<in> set db" | "x = f" "y = f" using m by auto
  then show "x = y"
  proof cases
    case 1
    then show ?thesis using assms(1) same unfolding one_row_def by blast
  next
    case 2
    then show ?thesis using apart[of x] same by simp
  next
    case 3
    then show ?thesis using apart[of y] same by metis
  qed simp
qed

lemma past_map:
  assumes "one_row (map u db)" and "\<And>g. fa_credential_id (u g) = fa_credential_id g" and "\<exists>f\<in>set db. fa_credential_id f = Some cid"
    and "\<And>g. g \<in> set db \<Longrightarrow> fa_credential_id g = Some cid \<Longrightarrow> n \<le> stored_count (u g)"
  shows "counter_past cid n (map u db)"
  using assms by (auto simp: counter_past_def)

lemma counter_past_asserted:
  assumes "counter_past cid n db" and "0 < n" and "f \<in> set db"
    and "stored_count f = 0 \<and> m = 0 \<or> stored_count f < m"
  shows "counter_past cid n (map (\<lambda>g. if fa_id g = fa_id f then g\<lparr>fa_sign_count := Some m, fa_last_used_at := Some now\<rparr> else g) db)"
proof -
  let ?u = "\<lambda>g. if fa_id g = fa_id f then g\<lparr>fa_sign_count := Some m, fa_last_used_at := Some now\<rparr> else g"
  have row: "one_row db" and some: "\<exists>f\<in>set db. fa_credential_id f = Some cid"
    and past: "\<And>g. g \<in> set db \<Longrightarrow> fa_credential_id g = Some cid \<Longrightarrow> n \<le> stored_count g"
    using assms(1) by (auto simp: counter_past_def)
  have "n \<le> stored_count (?u g)" if g: "g \<in> set db" "fa_credential_id g = Some cid" for g
  proof (cases "fa_id g = fa_id f")
    case True
    then have "g = f" using row g(1) assms(3) by (auto simp: one_row_def)
    then show ?thesis using past[OF g] assms(2,4) by (auto simp: stored_count_def)
  next
    case False
    then show ?thesis using past[OF g] by simp
  qed
  moreover have "one_row (map ?u db)" by (rule rows_updated[OF row]) simp_all
  ultimately show ?thesis using some by (intro past_map) simp_all
qed

lemma credential_step_past:
  assumes "credential_step W db db'" and "counter_past cid n db" and "0 < n"
  shows "counter_past cid n db'"
  using assms(1)
proof cases
  case (cr_registered person label cd att challenge origin rp_id now i)
  then obtain r where r: "register_webauthn db person label r now i = Ok db'" and i: "i \<notin> fa_id ` set db"
    by (auto simp: store_register_def split: sum.splits)
  define f where "f = (new_factor i person WEBAUTHN_KIND label)\<lparr>fa_credential_id := Some (rg_credential_id r),
        fa_public_key := Some (rg_public_key r), fa_sign_count := Some (rg_sign_count r),
        fa_algorithm := Some (rg_algorithm r), fa_confirmed_at := Some now\<rparr>"
  have new: "\<not> list_ex (\<lambda>f. fa_credential_id f = Some (rg_credential_id r)) db" and f: "db' = db @ [f]" "fa_id f = i"
      "fa_credential_id f = Some (rg_credential_id r)"
    using r by (auto simp: register_webauthn_def f_def new_factor_def split: if_splits)
  have "rg_credential_id r \<noteq> cid" using new assms(2) by (auto simp: counter_past_def list_ex_iff)
  moreover have "one_row db'"
    unfolding f(1) using assms(2) new i f(2,3) by (intro row_added) (auto simp: counter_past_def list_ex_iff)
  moreover have "\<forall>g\<in>set db'. fa_credential_id g = Some cid \<longrightarrow> n \<le> stored_count g"
    unfolding f(1) using assms(2) f(3) \<open>rg_credential_id r \<noteq> cid\<close> by (simp add: counter_past_def)
  moreover have "\<exists>g\<in>set db'. fa_credential_id g = Some cid" unfolding f(1) using assms(2) by (auto simp: counter_past_def)
  ultimately show ?thesis unfolding counter_past_def by blast
next
  case (cr_asserted person c cd ad sig challenge origin rp_id now)
  obtain f and a :: authenticator_data where f: "f \<in> set db" "stored_count f = 0 \<and> ad_sign_count a = 0 \<or> stored_count f < int (ad_sign_count a)"
      and db': "db' = map (\<lambda>g. if fa_id g = fa_id f then g\<lparr>fa_sign_count := Some (int (ad_sign_count a)),
        fa_last_used_at := Some now\<rparr> else g) db"
    using store_verify_Ok[OF cr_asserted] by (elim exE conjE) (rule that)
  show ?thesis unfolding db' by (rule counter_past_asserted[OF assms(2,3) f(1)]) (use f(2) in simp)
next
  case (cr_disabled person i now)
  let ?h = "\<lambda>g. g\<lparr>fa_disabled_at := Some now\<rparr>"
  have db': "db' = map (\<lambda>g. if fa_id g = i then ?h g else g) db"
    using cr_disabled by (auto simp: disable_def update_where_def split: option.splits)
  have "one_row db'" unfolding db' using assms(2) by (intro rows_updated) (auto simp: counter_past_def)
  then show ?thesis unfolding db' using assms(2) by (intro past_map) (auto simp: counter_past_def stored_count_def)
qed


definition sample_credentials :: factors where
  "sample_credentials = [(new_factor 1 ''p'' WEBAUTHN_KIND ''key'')\<lparr>fa_credential_id := Some [9], fa_public_key := Some sample_cose,
     fa_sign_count := Some 4, fa_confirmed_at := Some 1\<rparr>]"


end
