(* ===== verification/Jwt.thy ===== *)
theory Jwt
  imports Base64 OidcClaims Grants "HOL-Library.AList"
begin

text \<open>
  Signed tokens: the compact JWS the broker writes and reads (\<open>oidc/jwt.py\<close>), the claims of identity, access and
  logout tokens (\<open>oidc/tokens.py\<close>), the keys that verify them (\<open>KeySet\<close> of \<open>oidc/keys.py\<close>) and what a presented
  access token must pass (\<open>oidc/bearer.py\<close>).

  Writing and reading JSON and RSA signatures are parameters, the fields of \<open>jwt_lib\<close>.  Times are microseconds; a
  number of a claim is the pair \<open>(m, k)\<close> for \<open>m / 10 ^ k\<close>.
\<close>

section \<open>Tokens\<close>

definition JWT_RS256 :: string where "JWT_RS256 = ''RS256''"
definition TYPE_JWT :: string where "TYPE_JWT = ''JWT''"
definition TYPE_AT_JWT :: string where "TYPE_AT_JWT = ''at+jwt''"
definition TYPE_LOGOUT :: string where "TYPE_LOGOUT = ''logout+jwt''"

datatype jwt_error = JwtError string

record 'k signing_key =
  sk_kid :: string
  sk_private :: 'k

record ('k, 'p) jwt_lib =
  jl_dumps :: "dict \<Rightarrow> string"
  jl_loads :: "bytes \<Rightarrow> pyval option"
  jl_public :: "'k \<Rightarrow> 'p"
  jl_sign :: "'k \<Rightarrow> bytes \<Rightarrow> bytes"
  jl_verify :: "'p \<Rightarrow> bytes \<Rightarrow> bytes \<Rightarrow> bool"

definition jwt_header :: "string \<Rightarrow> string \<Rightarrow> dict" where
  "jwt_header kid typ = [(''alg'', PStr JWT_RS256), (''typ'', PStr typ), (''kid'', PStr kid)]"

definition segment_of :: "('k, 'p) jwt_lib \<Rightarrow> dict \<Rightarrow> string" where
  "segment_of L d = b64url (utf8 (jl_dumps L d))"

definition signing_input :: "('k, 'p) jwt_lib \<Rightarrow> dict \<Rightarrow> string \<Rightarrow> string \<Rightarrow> string" where
  "signing_input L claims kid typ = segment_of L (jwt_header kid typ) @ ''.'' @ segment_of L claims"

definition jwt_encode :: "('k, 'p) jwt_lib \<Rightarrow> dict \<Rightarrow> 'k signing_key \<Rightarrow> string \<Rightarrow> string" where
  "jwt_encode L claims key typ =
     (let text = signing_input L claims (sk_kid key) typ in text @ ''.'' @ b64url (jl_sign L (sk_private key) (utf8 text)))"

fun split_char :: "char \<Rightarrow> string \<Rightarrow> string list" where
  "split_char c [] = [[]]"
| "split_char c (x # xs) = (if x = c then [] # split_char c xs
     else (case split_char c xs of [] \<Rightarrow> [[x]] | p # ps \<Rightarrow> (x # p) # ps))"

definition read_segment :: "('k, 'p) jwt_lib \<Rightarrow> string \<Rightarrow> string \<Rightarrow> (jwt_error, dict) result" where
  "read_segment L seg what = (case Option.bind (urlsafe_b64decode seg) (jl_loads L) of
       Some (PDict d) \<Rightarrow> Ok d | _ \<Rightarrow> Err (JwtError (''malformed '' @ what)))"

definition audience_matches :: "pyval option \<Rightarrow> string \<Rightarrow> bool" where
  "audience_matches claim expected = (case claim of
       Some (PStr s) \<Rightarrow> s = expected | Some (PList vs) \<Rightarrow> PStr expected \<in> set vs | _ \<Rightarrow> False)"

definition number_claim :: "pyval option \<Rightarrow> (int \<times> nat) option" where
  "number_claim v = (case v of Some (PInt i) \<Rightarrow> Some (i, 0) | Some (PFloat m k) \<Rightarrow> Some (m, k)
     | Some (PBool b) \<Rightarrow> Some (of_bool b, 0) | _ \<Rightarrow> None)"

definition reached :: "int \<Rightarrow> int \<times> nat \<Rightarrow> int \<Rightarrow> bool" where
  "reached now n slack \<longleftrightarrow> (fst n + slack * 10 ^ snd n) * 1000000 \<le> now * 10 ^ snd n"

definition ahead :: "int \<Rightarrow> int \<times> nat \<Rightarrow> int \<Rightarrow> bool" where
  "ahead now n slack \<longleftrightarrow> (now + slack * 1000000) * 10 ^ snd n < fst n * 1000000"

definition ahead_claim :: "int \<Rightarrow> pyval option \<Rightarrow> int \<Rightarrow> bool" where
  "ahead_claim now v slack = (case number_claim v of None \<Rightarrow> False | Some n \<Rightarrow> ahead now n slack)"

definition check_claims :: "dict \<Rightarrow> string \<Rightarrow> string option \<Rightarrow> int \<Rightarrow> int \<Rightarrow> (jwt_error, unit) result" where
  "check_claims claims issuer audience now leeway =
     (if map_of claims ''iss'' \<noteq> Some (PStr issuer) then Err (JwtError ''issuer mismatch'')
      else if audience \<noteq> None \<and> \<not> audience_matches (map_of claims ''aud'') (the audience) then Err (JwtError ''audience mismatch'')
      else (case number_claim (map_of claims ''exp'') of
          None \<Rightarrow> Err (JwtError ''missing expiry'')
        | Some e \<Rightarrow>
            if reached now e leeway then Err (JwtError ''token has expired'')
            else if ahead_claim now (map_of claims ''iat'') leeway then Err (JwtError ''token issued in the future'')
            else if ahead_claim now (map_of claims ''nbf'') leeway then Err (JwtError ''token is not yet valid'')
            else Ok ()))"

definition LEEWAY :: int where "LEEWAY = 60"

text \<open>The text that was signed is encoded as ASCII, which fails for any other character.\<close>

definition ascii :: "string \<Rightarrow> bool" where
  "ascii s \<longleftrightarrow> list_all (\<lambda>c. (of_char c :: nat) < 128) s"

definition verify_parts :: "('k, 'p) jwt_lib \<Rightarrow> 'p \<Rightarrow> string \<Rightarrow> string \<Rightarrow> string \<Rightarrow> bool" where
  "verify_parts L pub header claims sig \<longleftrightarrow> (case urlsafe_b64decode sig of None \<Rightarrow> False
     | Some raw \<Rightarrow> ascii (header @ claims) \<and> jl_verify L pub raw (utf8 (header @ ''.'' @ claims)))"

definition jwt_decode ::
  "('k, 'p) jwt_lib \<Rightarrow> (string \<Rightarrow> 'p option) \<Rightarrow> string \<Rightarrow> string option \<Rightarrow> int \<Rightarrow> int \<Rightarrow> string option \<Rightarrow> string \<Rightarrow>
     (jwt_error, dict) result" where
  "jwt_decode L public_keys issuer audience now leeway expected_typ token = (case split_char (CHR ''.'') token of
       [encoded_header, encoded_claims, encoded_signature] \<Rightarrow>
         rbind (read_segment L encoded_header ''header'') (\<lambda>header.
           if map_of header ''alg'' \<noteq> Some (PStr JWT_RS256) then Err (JwtError ''unsupported algorithm'')
           else if expected_typ \<noteq> None \<and> map_of header ''typ'' \<noteq> Some (PStr (the expected_typ))
           then Err (JwtError ''unexpected token type'')
           else (case map_of header ''kid'' of
               Some (PStr kid) \<Rightarrow> (case public_keys kid of
                   None \<Rightarrow> Err (JwtError ''unknown signing key'')
                 | Some pub \<Rightarrow>
                     if \<not> verify_parts L pub encoded_header encoded_claims encoded_signature
                     then Err (JwtError ''signature verification failed'')
                     else rbind (read_segment L encoded_claims ''claims'') (\<lambda>claims.
                       rbind (check_claims claims issuer audience now leeway) (\<lambda>_. Ok claims)))
             | _ \<Rightarrow> Err (JwtError ''unknown signing key'')))
     | _ \<Rightarrow> Err (JwtError ''malformed token''))"

section \<open>Keys\<close>

record 'k key_set =
  ks_active :: "'k signing_key"
  ks_retiring :: "'k signing_key list"

definition verification_keys :: "('k, 'p) jwt_lib \<Rightarrow> 'k key_set \<Rightarrow> string \<Rightarrow> 'p option" where
  "verification_keys L ks = map_of (rev (map (\<lambda>k. (sk_kid k, jl_public L (sk_private k))) (ks_active ks # ks_retiring ks)))"

section \<open>Claims of the tokens\<close>

definition ID_TOKEN_TTL :: int where "ID_TOKEN_TTL = 5 * 60 * 1000000"
definition ACCESS_TOKEN_TTL :: int where "ACCESS_TOKEN_TTL = 15 * 60 * 1000000"
definition LOGOUT_TOKEN_TTL :: int where "LOGOUT_TOKEN_TTL = 2 * 60 * 1000000"

definition ID_TOKEN_BASE_CLAIMS :: "string set" where
  "ID_TOKEN_BASE_CLAIMS = {''iss'', ''sub'', ''aud'', ''exp'', ''iat'', ''auth_time'', ''nonce'', ''acr'', ''amr'', ''sid''}"

record token_context =
  tc_issuer :: string
  tc_client_id :: string
  tc_subject :: string
  tc_sid :: string
  tc_family_id :: string
  tc_scopes :: "string set"
  tc_auth_time :: int
  tc_nonce :: "string option"
  tc_acr :: "string option"
  tc_amr :: "string list"
  tc_claims :: dict

definition timestamp_of :: "int \<Rightarrow> pyval" where
  "timestamp_of us = PInt (us div 1000000)"

definition optional_claims :: "token_context \<Rightarrow> dict" where
  "optional_claims c = (case tc_acr c of None \<Rightarrow> [] | Some a \<Rightarrow> [(''acr'', PStr a)]) @ (if tc_amr c = [] then [] else [(''amr'', strs (tc_amr c))])"

definition dict_update :: "dict \<Rightarrow> dict \<Rightarrow> dict" where
  "dict_update d e = fold (\<lambda>(k, v). AList.update k v) e d"

definition id_token_claims :: "token_context \<Rightarrow> int \<Rightarrow> int \<Rightarrow> dict" where
  "id_token_claims c now ttl = dict_update
     ([(''iss'', PStr (tc_issuer c)), (''sub'', PStr (tc_subject c)), (''aud'', PStr (tc_client_id c)), (''iat'', timestamp_of now),
       (''exp'', timestamp_of (now + ttl)), (''auth_time'', timestamp_of (tc_auth_time c)), (''sid'', PStr (tc_sid c))] @
      (case tc_nonce c of None \<Rightarrow> [] | Some n \<Rightarrow> [(''nonce'', PStr n)]) @ optional_claims c) (tc_claims c)"

definition join_spaces :: "string list \<Rightarrow> string" where
  "join_spaces ws = (case ws of [] \<Rightarrow> [] | w # r \<Rightarrow> w @ concat (map (\<lambda>x. CHR '' '' # x) r))"

definition access_token_claims :: "token_context \<Rightarrow> string \<Rightarrow> int \<Rightarrow> int \<Rightarrow> dict" where
  "access_token_claims c jti now ttl =
     [(''iss'', PStr (tc_issuer c)), (''sub'', PStr (tc_subject c)), (''aud'', PStr (tc_issuer c)), (''client_id'', PStr (tc_client_id c)),
      (''iat'', timestamp_of now), (''exp'', timestamp_of (now + ttl)), (''jti'', PStr jti),
      (''scope'', PStr (join_spaces (sorted_list_of_set (tc_scopes c)))), (''sid'', PStr (tc_sid c)), (''fid'', PStr (tc_family_id c))] @
     optional_claims c"

definition BACKCHANNEL_LOGOUT :: string where
  "BACKCHANNEL_LOGOUT = ''http://schemas.openid.net/event/backchannel-logout''"

definition logout_token_claims :: "token_context \<Rightarrow> string \<Rightarrow> int \<Rightarrow> int \<Rightarrow> dict" where
  "logout_token_claims c jti now ttl =
     [(''iss'', PStr (tc_issuer c)), (''aud'', PStr (tc_client_id c)), (''sub'', PStr (tc_subject c)), (''iat'', timestamp_of now),
      (''exp'', timestamp_of (now + ttl)), (''jti'', PStr jti), (''sid'', PStr (tc_sid c)),
      (''events'', PDict [(BACKCHANNEL_LOGOUT, PDict [])])]"

definition id_token :: "('k, 'p) jwt_lib \<Rightarrow> token_context \<Rightarrow> 'k signing_key \<Rightarrow> int \<Rightarrow> string" where
  "id_token L c key now = jwt_encode L (id_token_claims c now ID_TOKEN_TTL) key TYPE_JWT"

definition access_token :: "('k, 'p) jwt_lib \<Rightarrow> token_context \<Rightarrow> 'k signing_key \<Rightarrow> string \<Rightarrow> int \<Rightarrow> string" where
  "access_token L c key jti now = jwt_encode L (access_token_claims c jti now ACCESS_TOKEN_TTL) key TYPE_AT_JWT"

definition logout_token :: "('k, 'p) jwt_lib \<Rightarrow> token_context \<Rightarrow> 'k signing_key \<Rightarrow> string \<Rightarrow> int \<Rightarrow> string" where
  "logout_token L c key jti now = jwt_encode L (logout_token_claims c jti now LOGOUT_TOKEN_TTL) key TYPE_LOGOUT"

section \<open>Bearer tokens\<close>

datatype bearer_error = InvalidToken reason_code

definition credentials :: "string option \<Rightarrow> string option" where
  "credentials header = (case header of None \<Rightarrow> None
     | Some h \<Rightarrow> if h = [] then None else (case py_partition (CHR '' '') h of
         (scheme, _, v) \<Rightarrow> if py_lower scheme \<noteq> ''bearer'' \<or> py_strip v = [] then None else Some (py_strip v)))"

definition bearer_verify ::
  "('k, 'p) jwt_lib \<Rightarrow> 'k key_set \<Rightarrow> 's grant_store \<Rightarrow> string \<Rightarrow> int \<Rightarrow> time \<Rightarrow> string option \<Rightarrow> 's \<Rightarrow> (bearer_error, dict) result" where
  "bearer_verify L ks G issuer now t token s = (case token of
       None \<Rightarrow> Err (InvalidToken R_GRANT_INVALID)
     | Some tok \<Rightarrow> if tok = [] then Err (InvalidToken R_GRANT_INVALID)
         else (case jwt_decode L (verification_keys L ks) issuer (Some issuer) now LEEWAY (Some TYPE_AT_JWT) tok of
             Inl _ \<Rightarrow> Err (InvalidToken R_GRANT_INVALID)
           | Inr claims \<Rightarrow> (case map_of claims ''fid'' of
               Some (PStr family) \<Rightarrow> if is_family_revoked G t family s then Err (InvalidToken R_GRANT_REVOKED) else Ok claims
             | _ \<Rightarrow> Err (InvalidToken R_GRANT_INVALID))))"

definition bearer_scopes :: "(pyval \<Rightarrow> string) \<Rightarrow> dict \<Rightarrow> string set" where
  "bearer_scopes reprs claims = set (py_split (case map_of claims ''scope'' of
       None \<Rightarrow> [] | Some (PStr s) \<Rightarrow> s | Some v \<Rightarrow> reprs v))"

definition challenge_header :: "string \<Rightarrow> (string \<times> string) list" where
  "challenge_header error = [(''WWW-Authenticate'', ''Bearer error='' @ [CHR 0x22] @ error @ [CHR 0x22])]"

section \<open>Texts with dots\<close>

lemma split_char_ne [simp]: "split_char c s \<noteq> []"
  by (cases s) (simp_all split: list.split)

lemma split_char_free: "p \<in> set (split_char c s) \<Longrightarrow> c \<notin> set p"
proof (induction s arbitrary: p)
  case (Cons x xs)
  then show ?case by (cases "split_char c xs") (auto split: if_splits)
qed simp

lemma split_char_whole: "c \<notin> set a \<Longrightarrow> split_char c a = [a]"
  by (induction a) auto

lemma split_char_first: "c \<notin> set a \<Longrightarrow> split_char c (a @ c # b) = a # split_char c b"
  by (induction a) auto

lemma split_at_eq:
  fixes c :: char
  assumes "a @ c # b = a' @ c # b'" "c \<notin> set a" "c \<notin> set a'" "c \<notin> set b" "c \<notin> set b'"
  shows "a = a' \<and> b = b'"
proof -
  have "split_char c (a @ c # b) = [a, b]" using assms(2,4) by (simp add: split_char_first split_char_whole)
  moreover have "split_char c (a' @ c # b') = [a', b']" using assms(3,5) by (simp add: split_char_first split_char_whole)
  ultimately have "[a, b] = [a', b']" unfolding assms(1) by (rule trans[OF sym])
  then show ?thesis by simp
qed

lemma b64url_plain: "x \<in> set (b64url bs) \<Longrightarrow> x \<noteq> CHR ''.'' \<and> (of_char x :: nat) < 128"
proof -
  assume "x \<in> set (b64url bs)"
  then obtain n where n: "n < 64" "x = b64url_char n" using sextets_bound[of bs] by (auto simp: b64url_def list_all_iff)
  obtain k where k: "x = char_of k" "k < 128"
      "k = (if n < 26 then 65 + n else if n < 52 then 71 + n else if n < 62 then n - 4 else if n = 62 then 45 else 95)"
    using b64url_code[OF n(1)] n(2) by blast
  have "k \<noteq> 46" using k(3) by (auto split: if_splits)
  with k show ?thesis by (simp add: char_of_eq)
qed

lemma segment_plain:
  "CHR ''.'' \<notin> set (segment_of L d)" "CHR ''.'' \<notin> set (b64url bs)" "ascii (segment_of L d)"
  using b64url_plain by (auto simp: segment_of_def ascii_def list_all_iff)

lemma read_segment_of: "jl_loads L (utf8 (jl_dumps L d)) = Some (PDict d) \<Longrightarrow> read_segment L (segment_of L d) what = Ok d"
  by (simp add: read_segment_def segment_of_def urlsafe_b64url)

section \<open>What is read is what was written\<close>

lemma jwt_decode_encode:
  assumes law: "jl_verify L (jl_public L (sk_private key)) (jl_sign L (sk_private key) (utf8 (signing_input L claims (sk_kid key) typ)))
      (utf8 (signing_input L claims (sk_kid key) typ))"
    and json: "jl_loads L (utf8 (jl_dumps L claims)) = Some (PDict claims)"
      "jl_loads L (utf8 (jl_dumps L (jwt_header (sk_kid key) typ))) = Some (PDict (jwt_header (sk_kid key) typ))"
    and key: "keys (sk_kid key) = Some (jl_public L (sk_private key))"
    and fits: "expected = None \<or> expected = Some typ"
  shows "jwt_decode L keys issuer aud now leeway expected (jwt_encode L claims key typ) =
    rbind (check_claims claims issuer aud now leeway) (\<lambda>_. Ok claims)"
proof -
  let ?h = "segment_of L (jwt_header (sk_kid key) typ)" and ?c = "segment_of L claims"
  let ?s = "b64url (jl_sign L (sk_private key) (utf8 (signing_input L claims (sk_kid key) typ)))"
  have split: "split_char (CHR ''.'') (jwt_encode L claims key typ) = [?h, ?c, ?s]"
    by (simp add: jwt_encode_def signing_input_def Let_def split_char_first split_char_whole segment_plain)
  have ver: "verify_parts L (jl_public L (sk_private key)) ?h ?c ?s"
    using law segment_plain(3)[of L] by (simp add: verify_parts_def urlsafe_b64url ascii_def signing_input_def)
  have look: "map_of (jwt_header (sk_kid key) typ) ''alg'' = Some (PStr JWT_RS256)" "map_of (jwt_header (sk_kid key) typ) ''typ'' = Some (PStr typ)"
      "map_of (jwt_header (sk_kid key) typ) ''kid'' = Some (PStr (sk_kid key))"
    by (simp_all add: jwt_header_def)
  show ?thesis unfolding jwt_decode_def split list.case read_segment_of[OF json(1)] read_segment_of[OF json(2)] rbind_Ok look
    using key fits ver by auto
qed

text \<open>The kid names the key: nothing but the tokens minted under it verifies with it.\<close>

definition only_minted :: "('k, 'p) jwt_lib \<Rightarrow> (string \<Rightarrow> 'p option) \<Rightarrow> (string \<times> dict \<times> string) set \<Rightarrow> bool" where
  "only_minted L keys minted \<longleftrightarrow> (\<forall>kid p sig m. keys kid = Some p \<and> jl_verify L p sig m \<longrightarrow>
     (\<exists>claims typ. (kid, claims, typ) \<in> minted \<and> m = utf8 (signing_input L claims kid typ)))"

definition reads_back :: "('k, 'p) jwt_lib \<Rightarrow> dict \<Rightarrow> bool" where
  "reads_back L d \<longleftrightarrow> jl_loads L (utf8 (jl_dumps L d)) = Some (PDict d)"

lemma decode_okD:
  assumes "jwt_decode L keys issuer aud now leeway expected token = Ok claims"
  obtains h c sg header kid p where
    "split_char (CHR ''.'') token = [h, c, sg]" "read_segment L h ''header'' = Ok header"
    "expected \<noteq> None \<Longrightarrow> map_of header ''typ'' = Some (PStr (the expected))" "map_of header ''kid'' = Some (PStr kid)"
    "keys kid = Some p" "verify_parts L p h c sg" "read_segment L c ''claims'' = Ok claims"
    "check_claims claims issuer aud now leeway = Ok ()"
proof -
  obtain h c sg where s: "split_char (CHR ''.'') token = [h, c, sg]"
    using assms by (auto simp: jwt_decode_def split: list.splits)
  obtain header where hd: "read_segment L h ''header'' = Ok header"
    using assms by (auto simp: jwt_decode_def s rbind_eq_Ok)
  obtain kid p where k: "map_of header ''kid'' = Some (PStr kid)" "keys kid = Some p"
    using assms by (auto simp: jwt_decode_def s hd split: if_splits option.splits pyval.splits)
  have "verify_parts L p h c sg" "read_segment L c ''claims'' = Ok claims" "check_claims claims issuer aud now leeway = Ok ()"
      "expected \<noteq> None \<Longrightarrow> map_of header ''typ'' = Some (PStr (the expected))"
    using assms by (auto simp: jwt_decode_def s hd k rbind_eq_Ok split: if_splits)
  then show thesis using that s hd k by blast
qed

lemma decode_minted:
  assumes "jwt_decode L keys issuer aud now leeway (Some typ) token = Ok claims" "only_minted L keys minted"
    and reads: "\<And>kid c ty. (kid, c, ty) \<in> minted \<Longrightarrow> reads_back L c \<and> reads_back L (jwt_header kid ty)"
  shows "\<exists>kid. (kid, claims, typ) \<in> minted \<and> keys kid \<noteq> None"
  using assms(1)
proof (rule decode_okD)
  fix h c sg header kid p
  assume s: "split_char (CHR ''.'') token = [h, c, sg]" and hd: "read_segment L h ''header'' = Ok header"
    and ty: "Some typ \<noteq> None \<Longrightarrow> map_of header ''typ'' = Some (PStr (the (Some typ)))"
    and k: "map_of header ''kid'' = Some (PStr kid)" "keys kid = Some p" and v: "verify_parts L p h c sg"
    and cl: "read_segment L c ''claims'' = Ok claims"
  obtain raw where "jl_verify L p raw (utf8 (h @ ''.'' @ c))" using v by (auto simp: verify_parts_def split: option.splits)
  then obtain cs t where m: "(kid, cs, t) \<in> minted" "utf8 (h @ ''.'' @ c) = utf8 (signing_input L cs kid t)"
    using assms(2) k(2) unfolding only_minted_def by meson
  have "h @ CHR ''.'' # c = segment_of L (jwt_header kid t) @ CHR ''.'' # segment_of L cs"
    using utf8_inj[OF m(2)] by (simp add: signing_input_def)
  then have "h = segment_of L (jwt_header kid t) \<and> c = segment_of L cs"
    using split_at_eq split_char_free[of _ "CHR ''.''" token] segment_plain(1) s by (metis list.set_intros)
  then have "header = jwt_header kid t" "claims = cs" using reads[OF m(1)] hd cl by (simp_all add: reads_back_def read_segment_of)
  then show ?thesis using m(1) ty k(2) by (auto simp: jwt_header_def)
qed

section \<open>A presented access token\<close>

lemma encode_ne [simp]: "jwt_encode L claims key typ \<noteq> []"
  by (simp add: jwt_encode_def signing_input_def Let_def)

lemma active_key: "sk_kid (ks_active ks) \<notin> sk_kid ` set (ks_retiring ks) \<Longrightarrow>
    verification_keys L ks (sk_kid (ks_active ks)) = Some (jl_public L (sk_private (ks_active ks)))"
  by (auto simp: verification_keys_def map_add_def split: option.split dest!: map_of_SomeD)

lemmas access_fields = access_token_claims_def optional_claims_def map_add_def

lemma access_claims_get:
  "map_of (access_token_claims c jti now ttl) ''iss'' = Some (PStr (tc_issuer c))"
  "map_of (access_token_claims c jti now ttl) ''aud'' = Some (PStr (tc_issuer c))"
  "map_of (access_token_claims c jti now ttl) ''iat'' = Some (timestamp_of now)"
  "map_of (access_token_claims c jti now ttl) ''exp'' = Some (timestamp_of (now + ttl))"
  "map_of (access_token_claims c jti now ttl) ''nbf'' = None"
  "map_of (access_token_claims c jti now ttl) ''fid'' = Some (PStr (tc_family_id c))"
  by (auto simp: access_fields split: option.splits)

lemma floor_second: "(us :: int) div 1000000 * 1000000 \<le> us"
  by (simp add: mult.commute)

lemma access_claims_checked:
  assumes "now \<le> later"
  shows "check_claims (access_token_claims c jti now ttl) (tc_issuer c) (Some (tc_issuer c)) later LEEWAY =
    (if ((now + ttl) div 1000000 + 60) * 1000000 \<le> later then Err (JwtError ''token has expired'') else Ok ())"
  using floor_second[of now] assms
  by (simp add: check_claims_def access_claims_get audience_matches_def number_claim_def timestamp_of_def reached_def ahead_claim_def
    ahead_def LEEWAY_def)

lemma access_token_accepted:
  assumes "sk_kid (ks_active ks) \<notin> sk_kid ` set (ks_retiring ks)"
    and "\<And>m. jl_verify L (jl_public L (sk_private (ks_active ks))) (jl_sign L (sk_private (ks_active ks)) m) m"
    and "reads_back L (access_token_claims c jti now ACCESS_TOKEN_TTL)"
    and "reads_back L (jwt_header (sk_kid (ks_active ks)) TYPE_AT_JWT)" and "now \<le> later"
  shows "bearer_verify L ks G (tc_issuer c) later t (Some (access_token L c (ks_active ks) jti now)) s =
    (if ((now + 900000000) div 1000000 + 60) * 1000000 \<le> later then Err (InvalidToken R_GRANT_INVALID)
     else if is_family_revoked G t (tc_family_id c) s then Err (InvalidToken R_GRANT_REVOKED)
     else Ok (access_token_claims c jti now ACCESS_TOKEN_TTL))"
proof -
  let ?claims = "access_token_claims c jti now ACCESS_TOKEN_TTL"
  have "jwt_decode L (verification_keys L ks) (tc_issuer c) (Some (tc_issuer c)) later LEEWAY (Some TYPE_AT_JWT)
      (jwt_encode L ?claims (ks_active ks) TYPE_AT_JWT) =
      rbind (check_claims ?claims (tc_issuer c) (Some (tc_issuer c)) later LEEWAY) (\<lambda>_. Ok ?claims)"
    using assms by (intro jwt_decode_encode active_key) (simp_all add: reads_back_def)
  moreover have "ACCESS_TOKEN_TTL = 900000000" by (simp add: ACCESS_TOKEN_TTL_def)
  ultimately show ?thesis using assms(5) by (simp add: bearer_verify_def access_token_def access_claims_checked access_claims_get)
qed

text \<open>An access token is good for its fifteen minutes and the minute of leeway, and no longer.  Presented at any later
  moment, a token the broker minted with its active key is accepted with exactly the claims it was minted with, until the whole
  second of its expiry is a minute past or its family is revoked; then it is refused.\<close>

theorem access_token_lifetime:
  assumes "sk_kid (ks_active ks) \<notin> sk_kid ` set (ks_retiring ks)"
    and "\<And>m. jl_verify L (jl_public L (sk_private (ks_active ks))) (jl_sign L (sk_private (ks_active ks)) m) m"
    and "reads_back L (access_token_claims c jti now ACCESS_TOKEN_TTL)"
    and "reads_back L (jwt_header (sk_kid (ks_active ks)) TYPE_AT_JWT)" and "now \<le> later"
  shows "bearer_verify L ks G (tc_issuer c) later t (Some (access_token L c (ks_active ks) jti now)) s =
    (if ((now + 900000000) div 1000000 + 60) * 1000000 \<le> later then Err (InvalidToken R_GRANT_INVALID)
     else if is_family_revoked G t (tc_family_id c) s then Err (InvalidToken R_GRANT_REVOKED)
     else Ok (access_token_claims c jti now ACCESS_TOKEN_TTL))"
  using access_token_accepted[OF assms] .

lemma bearer_accepted:
  assumes "bearer_verify L ks G issuer now t token s = Ok claims" and "only_minted L (verification_keys L ks) minted"
    and "\<And>kid c ty. (kid, c, ty) \<in> minted \<Longrightarrow> reads_back L c \<and> reads_back L (jwt_header kid ty)"
  shows "(\<exists>kid. (kid, claims, TYPE_AT_JWT) \<in> minted) \<and> map_of claims ''iss'' = Some (PStr issuer) \<and>
    (\<exists>e. number_claim (map_of claims ''exp'') = Some e \<and> \<not> reached now e 60) \<and>
    (\<exists>family. map_of claims ''fid'' = Some (PStr family) \<and> \<not> is_family_revoked G t family s)"
proof -
  obtain tok where tok: "jwt_decode L (verification_keys L ks) issuer (Some issuer) now LEEWAY (Some TYPE_AT_JWT) tok = Ok claims"
    using assms(1) by (auto simp: bearer_verify_def split: option.splits if_splits sum.splits pyval.splits)
  have fid: "\<exists>family. map_of claims ''fid'' = Some (PStr family) \<and> \<not> is_family_revoked G t family s"
    using assms(1) by (auto simp: bearer_verify_def split: option.splits if_splits sum.splits pyval.splits)
  have "check_claims claims issuer (Some issuer) now LEEWAY = Ok ()" using tok by (rule decode_okD)
  then have "map_of claims ''iss'' = Some (PStr issuer)" "\<exists>e. number_claim (map_of claims ''exp'') = Some e \<and> \<not> reached now e 60"
    by (auto simp: check_claims_def LEEWAY_def split: if_splits option.splits)
  then show ?thesis using decode_minted[OF tok assms(2,3)] fid by blast
qed

text \<open>C34. Nothing but a live access token opens a protected resource.  Where the keys verify only what was minted under them, a
  token that is accepted carries the claims of a token minted with type \<open>at+jwt\<close> (an identity or a logout token does not pass),
  for this issuer, within a minute of its expiry, and of a family that is not revoked.\<close>

theorem bearer_token_authentic:
  assumes "bearer_verify L ks G issuer now t token s = Ok claims" and "only_minted L (verification_keys L ks) minted"
    and "\<And>kid c ty. (kid, c, ty) \<in> minted \<Longrightarrow> reads_back L c \<and> reads_back L (jwt_header kid ty)"
  shows "(\<exists>kid. (kid, claims, TYPE_AT_JWT) \<in> minted) \<and> map_of claims ''iss'' = Some (PStr issuer) \<and>
    (\<exists>e. number_claim (map_of claims ''exp'') = Some e \<and> \<not> reached now e 60) \<and>
    (\<exists>family. map_of claims ''fid'' = Some (PStr family) \<and> \<not> is_family_revoked G t family s)"
  using bearer_accepted[OF assms] .

section \<open>Claims of the identity token\<close>

lemma map_of_dict_update: "map_of (dict_update d e) k = (case map_of (rev e) k of None \<Rightarrow> map_of d k | Some v \<Rightarrow> Some v)"
proof (induction e arbitrary: d)
  case (Cons p e)
  then show ?case by (cases p) (simp add: dict_update_def update_conv map_add_def split: option.split)
qed (simp add: dict_update_def)

lemma dict_update_keys: "fst ` set (dict_update d e) = fst ` set d \<union> fst ` set e"
proof (induction e arbitrary: d)
  case (Cons p e)
  then show ?case by (cases p) (simp add: dict_update_def dom_update insert_commute)
qed (simp add: dict_update_def)

lemma claim_names: "m \<in> set CLAIMS \<Longrightarrow> cm_claim m \<notin> ID_TOKEN_BASE_CLAIMS"
  by (auto simp: CLAIMS_def ID_TOKEN_BASE_CLAIMS_def)

lemma claims_for_names: "k \<in> fst ` set (claims_for scopes released) \<Longrightarrow> k \<notin> ID_TOKEN_BASE_CLAIMS"
  using claims_for_in claim_names by fastforce

text \<open>What policy releases never displaces a protocol claim of an identity token: the released claims are merged over the
  token's own, yet issuer, subject, audience, times, session, nonce, \<open>acr\<close> and \<open>amr\<close> are those of the context, the audience is the
  one client, and nothing but the ten protocol claims and the released ones is in the token.\<close>

theorem id_token_protocol_claims:
  assumes "tc_claims c = claims_for scopes released"
  shows "map_of (id_token_claims c now ttl) ''iss'' = Some (PStr (tc_issuer c)) \<and>
    map_of (id_token_claims c now ttl) ''sub'' = Some (PStr (tc_subject c)) \<and>
    map_of (id_token_claims c now ttl) ''aud'' = Some (PStr (tc_client_id c)) \<and>
    map_of (id_token_claims c now ttl) ''exp'' = Some (timestamp_of (now + ttl)) \<and>
    map_of (id_token_claims c now ttl) ''auth_time'' = Some (timestamp_of (tc_auth_time c)) \<and>
    map_of (id_token_claims c now ttl) ''sid'' = Some (PStr (tc_sid c)) \<and>
    map_of (id_token_claims c now ttl) ''nonce'' = map_option PStr (tc_nonce c) \<and>
    map_of (id_token_claims c now ttl) ''acr'' = map_option PStr (tc_acr c) \<and>
    map_of (id_token_claims c now ttl) ''amr'' = (if tc_amr c = [] then None else Some (strs (tc_amr c))) \<and>
    fst ` set (id_token_claims c now ttl) \<subseteq> ID_TOKEN_BASE_CLAIMS \<union> fst ` set (claims_for scopes released)"
proof -
  have none: "map_of (rev (tc_claims c)) k = None" if "k \<in> ID_TOKEN_BASE_CLAIMS" for k
    using claims_for_names[of k scopes released] that by (auto simp: assms map_of_eq_None_iff)
  note get = id_token_claims_def map_of_dict_update none ID_TOKEN_BASE_CLAIMS_def optional_claims_def map_add_def
  have "fst ` set (id_token_claims c now ttl) \<subseteq> ID_TOKEN_BASE_CLAIMS \<union> fst ` set (claims_for scopes released)"
    by (auto simp: id_token_claims_def dict_update_keys assms ID_TOKEN_BASE_CLAIMS_def optional_claims_def split: option.splits if_splits)
  then show ?thesis by (intro conjI) (auto simp: get split: option.split)
qed

section \<open>Witnesses\<close>

definition sample_context :: token_context where
  "sample_context = \<lparr>tc_issuer = ''https://id'', tc_client_id = ''rp'', tc_subject = ''u1'', tc_sid = ''s1'', tc_family_id = ''f1'',
     tc_scopes = {''openid''}, tc_auth_time = 0, tc_nonce = None, tc_acr = None, tc_amr = [], tc_claims = claims_for {''email''} [(MAIL, [''a@u.edu''])]\<rparr>"

definition sample_claims :: dict where
  "sample_claims = access_token_claims sample_context ''j1'' 1000000 ACCESS_TOKEN_TTL"

definition signing_lib :: "dict \<Rightarrow> (byte, byte) jwt_lib" where
  "signing_lib claims = \<lparr>jl_dumps = (\<lambda>d. if d = claims then ''c'' else ''h''),
     jl_loads = (\<lambda>b. Some (PDict (if b = utf8 ''c'' then claims else jwt_header ''k1'' TYPE_AT_JWT))),
     jl_public = (\<lambda>k. k), jl_sign = (\<lambda>k m. k # m), jl_verify = (\<lambda>p s m. s = p # m)\<rparr>"

definition sample_jwt_lib :: "(byte, byte) jwt_lib" where
  "sample_jwt_lib = signing_lib sample_claims"

text \<open>The same, with nothing signed but one token.\<close>

definition strict_lib :: "(byte, byte) jwt_lib" where
  "strict_lib = sample_jwt_lib\<lparr>jl_verify := \<lambda>p s m. s = p # m \<and> m = utf8 (signing_input sample_jwt_lib sample_claims ''k1'' TYPE_AT_JWT)\<rparr>"

definition sample_key_set :: "byte key_set" where
  "sample_key_set = \<lparr>ks_active = \<lparr>sk_kid = ''k1'', sk_private = 7\<rparr>, ks_retiring = []\<rparr>"

lemma signing_lib_reads_back:
  assumes "jwt_header ''k1'' TYPE_AT_JWT \<noteq> c"
  shows "reads_back (signing_lib c) c" "reads_back (signing_lib c) (jwt_header ''k1'' TYPE_AT_JWT)"
proof -
  have "utf8 ''h'' \<noteq> utf8 ''c''" using utf8_inj by blast
  then show "reads_back (signing_lib c) c" "reads_back (signing_lib c) (jwt_header ''k1'' TYPE_AT_JWT)"
    using assms by (simp_all add: reads_back_def signing_lib_def)
qed

lemma header_not_claims: "jwt_header kid typ \<noteq> access_token_claims c jti now ttl"
  by (simp add: jwt_header_def access_token_claims_def)

lemma sample_reads_back: "reads_back sample_jwt_lib sample_claims" "reads_back sample_jwt_lib (jwt_header ''k1'' TYPE_AT_JWT)"
  using signing_lib_reads_back[OF header_not_claims] by (simp_all add: sample_jwt_lib_def sample_claims_def)

theorem access_token_lifetime_witness:
  "bearer_verify sample_jwt_lib sample_key_set sample_grants ''https://id'' 2000000 5
     (Some (access_token sample_jwt_lib sample_context (ks_active sample_key_set) ''j1'' 1000000)) (\<lambda>k. None) = Ok sample_claims \<and>
   bearer_verify sample_jwt_lib sample_key_set sample_grants ''https://id'' 961000000 5
     (Some (access_token sample_jwt_lib sample_context (ks_active sample_key_set) ''j1'' 1000000)) (\<lambda>k. None) =
     Err (InvalidToken R_GRANT_INVALID)"
proof -
  have "tc_issuer sample_context = ''https://id''" "\<not> is_family_revoked sample_grants 5 f (\<lambda>k. None)" for f
    by (simp_all add: sample_context_def is_family_revoked_def mem_redis_ops unexpired_def)
  then show ?thesis
    using access_token_lifetime[of sample_key_set sample_jwt_lib sample_context "''j1''" 1000000 2000000 sample_grants 5 "\<lambda>k. None"]
      access_token_lifetime[of sample_key_set sample_jwt_lib sample_context "''j1''" 1000000 961000000 sample_grants 5 "\<lambda>k. None"]
      sample_reads_back unfolding sample_claims_def[symmetric]
    by (simp add: sample_key_set_def) (simp add: sample_jwt_lib_def signing_lib_def)
qed

lemma strict_lib_same:
  "segment_of strict_lib = segment_of sample_jwt_lib" "signing_input strict_lib = signing_input sample_jwt_lib"
  "jl_sign strict_lib = (\<lambda>k m. k # m)" "jl_public strict_lib = (\<lambda>k. k)" "reads_back strict_lib = reads_back sample_jwt_lib"
  by (auto simp: segment_of_def signing_input_def fun_eq_iff reads_back_def strict_lib_def sample_jwt_lib_def signing_lib_def)

lemma strict_lib_minted:
  "only_minted strict_lib (verification_keys strict_lib sample_key_set) {(''k1'', sample_claims, TYPE_AT_JWT)}"
  "(kid, c, ty) \<in> {(''k1'', sample_claims, TYPE_AT_JWT)} \<Longrightarrow> reads_back strict_lib c \<and> reads_back strict_lib (jwt_header kid ty)"
proof -
  have "verification_keys strict_lib sample_key_set = [''k1'' \<mapsto> 7]"
    by (auto simp: sample_key_set_def verification_keys_def strict_lib_same)
  then show "only_minted strict_lib (verification_keys strict_lib sample_key_set) {(''k1'', sample_claims, TYPE_AT_JWT)}"
    unfolding only_minted_def strict_lib_same(2) by (simp add: strict_lib_def)
  show "(kid, c, ty) \<in> {(''k1'', sample_claims, TYPE_AT_JWT)} \<Longrightarrow> reads_back strict_lib c \<and> reads_back strict_lib (jwt_header kid ty)"
    unfolding strict_lib_same(5) using sample_reads_back by blast
qed

lemma strict_lib_accepts:
  "bearer_verify strict_lib sample_key_set sample_grants ''https://id'' 2000000 t
     (Some (jwt_encode strict_lib sample_claims (ks_active sample_key_set) TYPE_AT_JWT)) (\<lambda>k. None) = Ok sample_claims"
proof -
  let ?key = "ks_active sample_key_set"
  have key: "sk_kid ?key = ''k1''" "verification_keys strict_lib sample_key_set = [''k1'' \<mapsto> 7]" "sk_private ?key = 7"
    by (auto simp: sample_key_set_def verification_keys_def strict_lib_same)
  have "jwt_decode strict_lib (verification_keys strict_lib sample_key_set) ''https://id'' (Some ''https://id'') 2000000 LEEWAY (Some TYPE_AT_JWT)
      (jwt_encode strict_lib sample_claims ?key TYPE_AT_JWT) =
      rbind (check_claims sample_claims ''https://id'' (Some ''https://id'') 2000000 LEEWAY) (\<lambda>_. Ok sample_claims)"
    using strict_lib_minted(2)[of "''k1''" sample_claims TYPE_AT_JWT]
    by (intro jwt_decode_encode) (simp_all add: strict_lib_same key reads_back_def, simp_all add: strict_lib_def)
  moreover have "check_claims sample_claims ''https://id'' (Some ''https://id'') 2000000 LEEWAY = Ok ()"
    using access_claims_checked[of 1000000 2000000 sample_context "''j1''" ACCESS_TOKEN_TTL]
    by (simp add: sample_claims_def sample_context_def ACCESS_TOKEN_TTL_def)
  moreover have "map_of sample_claims ''fid'' = Some (PStr ''f1'')" by (simp add: sample_claims_def access_claims_get sample_context_def)
  ultimately show ?thesis by (simp add: bearer_verify_def is_family_revoked_def mem_redis_ops unexpired_def)
qed

theorem bearer_token_authentic_witness:
  "(\<exists>kid. (kid, sample_claims, TYPE_AT_JWT) \<in> {(''k1'', sample_claims, TYPE_AT_JWT)}) \<and>
   map_of sample_claims ''iss'' = Some (PStr ''https://id'') \<and>
   (\<exists>e. number_claim (map_of sample_claims ''exp'') = Some e \<and> \<not> reached 2000000 e 60) \<and>
   (\<exists>family. map_of sample_claims ''fid'' = Some (PStr family) \<and> \<not> is_family_revoked sample_grants 5 family (\<lambda>k. None))"
  using strict_lib_accepts strict_lib_minted by (rule bearer_token_authentic)

theorem id_token_protocol_claims_witness:
  "map_of (id_token_claims sample_context 1000000 ID_TOKEN_TTL) ''sub'' = Some (PStr ''u1'') \<and>
   map_of (id_token_claims sample_context 1000000 ID_TOKEN_TTL) ''aud'' = Some (PStr ''rp'')"
  using id_token_protocol_claims[of sample_context "{''email''}" "[(MAIL, [''a@u.edu''])]" 1000000 ID_TOKEN_TTL]
  by (simp add: sample_context_def)

end
