(* ===== verification/ClientRegistry.thy ===== *)
theory ClientRegistry
  imports OidcClients
begin

text \<open>
  The registry of OIDC clients (\<open>oidc/registry.py\<close>) over its table (\<open>oidc/models.py\<close>): registration, look-up and
  switching a client off.  The hash of a secret is a parameter, a generated secret an argument.  Every look-up builds the
  client anew, so that its checks (\<open>post_init\<close>) run on each read.
\<close>

section \<open>Rows\<close>

definition SUPPORTED_SCOPES :: "string list" where
  "SUPPORTED_SCOPES = [SCOPE_OPENID, SCOPE_PROFILE, SCOPE_EMAIL, SCOPE_AFFILIATION, SCOPE_ENTITLEMENT, SCOPE_SCIM_READ, SCOPE_SCIM_WRITE]"

definition MIN_SECRET_LENGTH :: nat where "MIN_SECRET_LENGTH = 32"

fun client_type_value :: "client_type \<Rightarrow> string" where
  "client_type_value CONFIDENTIAL = ''confidential''"
| "client_type_value PUBLIC_CLIENT = ''public''"
| "client_type_value NATIVE = ''native''"

definition client_type_of :: "string \<Rightarrow> client_type option" where
  "client_type_of v = find (\<lambda>t. client_type_value t = v) [CONFIDENTIAL, PUBLIC_CLIENT, NATIVE]"

record client_row =
  cr_client_id :: string
  cr_client_type :: string
  cr_display_name :: "string option"
  cr_redirect_uris :: "string list"
  cr_allowed_scopes :: "string list"
  cr_post_logout_redirect_uris :: "string list"
  cr_secret_hash :: "string option"
  cr_require_par :: bool
  cr_backchannel_logout_uri :: "string option"
  cr_enabled :: bool

datatype registry_error =
    UnknownScopes | ShortSecret | SecretNotHeld | InvalidClient registration_error | UnknownType
  | ValueTooLong | ClientIdTaken | NoSuchClient oauth_error

definition to_client_row :: "oidc_client \<Rightarrow> client_row" where
  "to_client_row c = \<lparr>cr_client_id = oc_client_id c, cr_client_type = client_type_value (oc_client_type c),
     cr_display_name = oc_display_name c, cr_redirect_uris = oc_redirect_uris c,
     cr_allowed_scopes = sorted_list_of_set (oc_allowed_scopes c), cr_post_logout_redirect_uris = oc_post_logout_redirect_uris c,
     cr_secret_hash = oc_secret_hash c, cr_require_par = oc_require_par c, cr_backchannel_logout_uri = oc_backchannel_logout_uri c,
     cr_enabled = True\<rparr>"

definition update_client_row :: "client_row \<Rightarrow> oidc_client \<Rightarrow> client_row" where
  "update_client_row r c = r\<lparr>cr_client_type := client_type_value (oc_client_type c), cr_display_name := oc_display_name c,
     cr_redirect_uris := oc_redirect_uris c, cr_allowed_scopes := sorted_list_of_set (oc_allowed_scopes c),
     cr_post_logout_redirect_uris := oc_post_logout_redirect_uris c, cr_require_par := oc_require_par c,
     cr_backchannel_logout_uri := oc_backchannel_logout_uri c,
     cr_secret_hash := (case oc_secret_hash c of None \<Rightarrow> cr_secret_hash r | Some h \<Rightarrow> Some h)\<rparr>"

definition from_client_row :: "(string \<Rightarrow> bool) \<Rightarrow> client_row \<Rightarrow> (registry_error, oidc_client) result" where
  "from_client_row ip r = (case client_type_of (cr_client_type r) of
       None \<Rightarrow> Err UnknownType
     | Some t \<Rightarrow> rmap_err InvalidClient (post_init ip
         \<lparr>oc_client_id = cr_client_id r, oc_client_type = t, oc_redirect_uris = cr_redirect_uris r,
          oc_allowed_scopes = set (cr_allowed_scopes r), oc_secret_hash = cr_secret_hash r, oc_display_name = cr_display_name r,
          oc_require_par = cr_require_par r, oc_backchannel_logout_uri = cr_backchannel_logout_uri r,
          oc_post_logout_redirect_uris = cr_post_logout_redirect_uris r\<rparr>))"

section \<open>Operations\<close>

definition truthy_text :: "string option \<Rightarrow> bool" where
  "truthy_text s = (case s of None \<Rightarrow> False | Some v \<Rightarrow> v \<noteq> [])"

definition registered_secret :: "client_type \<Rightarrow> string option \<Rightarrow> string \<Rightarrow> (registry_error, string option) result" where
  "registered_secret t secret generated =
     (if t = CONFIDENTIAL
      then (let s = (if truthy_text secret then the secret else generated) in
            if length s < MIN_SECRET_LENGTH then Err ShortSecret else Ok (Some s))
      else if secret \<noteq> None then Err SecretNotHeld else Ok None)"

text \<open>\<open>register\<close> up to the transaction: the client and its secret; \<open>c\<close> holds the arguments, its hash is not one of them.\<close>

definition client_registration ::
  "(string \<Rightarrow> bool) \<Rightarrow> (string \<Rightarrow> string) \<Rightarrow> string \<Rightarrow> oidc_client \<Rightarrow> string option \<Rightarrow> (registry_error, oidc_client \<times> string option) result" where
  "client_registration ip hash_secret generated c secret =
     (if \<not> oc_allowed_scopes c \<subseteq> set SUPPORTED_SCOPES then Err UnknownScopes
      else rbind (registered_secret (oc_client_type c) secret generated) (\<lambda>s.
        rbind (rmap_err InvalidClient (post_init ip (c\<lparr>oc_secret_hash := (if truthy_text s then Some (hash_secret (the s)) else None)\<rparr>)))
          (\<lambda>client. Ok (client, s))))"

definition row_lengths_ok :: "client_row \<Rightarrow> bool" where
  "row_lengths_ok r \<longleftrightarrow> length (cr_client_id r) \<le> 255 \<and> (\<forall>d\<in>set_option (cr_display_name r). length d \<le> 255) \<and>
     (\<forall>h\<in>set_option (cr_secret_hash r). length h \<le> 64) \<and> (\<forall>u\<in>set_option (cr_backchannel_logout_uri r). length u \<le> 2048)"

definition find_client :: "string \<Rightarrow> client_row list \<Rightarrow> client_row option" where
  "find_client cid rows = find (\<lambda>r. cr_client_id r = cid) rows"

text \<open>The transaction: what was found decides between a new row and a changed one; the commit checks the columns.\<close>

definition register_write :: "client_row option \<Rightarrow> oidc_client \<Rightarrow> client_row list \<Rightarrow> (registry_error, client_row list) result" where
  "register_write existing client rows = (case existing of
       None \<Rightarrow> if \<not> row_lengths_ok (to_client_row client) then Err ValueTooLong
         else if oc_client_id client \<in> cr_client_id ` set rows then Err ClientIdTaken
         else Ok (rows @ [to_client_row client])
     | Some r \<Rightarrow> if \<not> row_lengths_ok (update_client_row r client) then Err ValueTooLong
         else Ok (map (\<lambda>x. if cr_client_id x = cr_client_id r then update_client_row x client else x) rows))"

definition register_client ::
  "(string \<Rightarrow> bool) \<Rightarrow> (string \<Rightarrow> string) \<Rightarrow> string \<Rightarrow> oidc_client \<Rightarrow> string option \<Rightarrow> client_row list \<Rightarrow>
     (registry_error, (oidc_client \<times> string option) \<times> client_row list) result" where
  "register_client ip hash_secret generated c secret rows =
     rbind (client_registration ip hash_secret generated c secret) (\<lambda>(client, s).
       rbind (register_write (find_client (oc_client_id client) rows) client rows) (\<lambda>rows'. Ok ((client, s), rows')))"

definition get_client :: "(string \<Rightarrow> bool) \<Rightarrow> string \<Rightarrow> client_row list \<Rightarrow> (registry_error, oidc_client option) result" where
  "get_client ip cid rows = (case find (\<lambda>r. cr_client_id r = cid \<and> cr_enabled r) rows of
       None \<Rightarrow> Ok None | Some r \<Rightarrow> rbind (from_client_row ip r) (\<lambda>c. Ok (Some c)))"

definition require_client :: "(string \<Rightarrow> bool) \<Rightarrow> string option \<Rightarrow> client_row list \<Rightarrow> (registry_error, oidc_client) result" where
  "require_client ip cid rows =
     (let missing = Err (NoSuchClient (OAuthError INVALID_CLIENT R_UNKNOWN_CLIENT)) in
      if \<not> truthy_text cid then missing
      else rbind (get_client ip (the cid) rows) (\<lambda>found. case found of None \<Rightarrow> missing | Some c \<Rightarrow> Ok c))"

definition list_clients :: "(string \<Rightarrow> bool) \<Rightarrow> client_row list \<Rightarrow> (registry_error, oidc_client list) result" where
  "list_clients ip rows = rmap (from_client_row ip) (sort_key cr_client_id rows)"

definition set_enabled :: "string \<Rightarrow> bool \<Rightarrow> client_row list \<Rightarrow> (registry_error, client_row list) result" where
  "set_enabled cid enabled rows = (case find_client cid rows of
       None \<Rightarrow> Err (NoSuchClient (OAuthError INVALID_CLIENT R_UNKNOWN_CLIENT))
     | Some _ \<Rightarrow> Ok (map (\<lambda>r. if cr_client_id r = cid then r\<lparr>cr_enabled := enabled\<rparr> else r) rows))"

section \<open>Properties\<close>

lemma client_type_of_value [simp]: "client_type_of (client_type_value t) = Some t"
  by (cases t) (simp_all add: client_type_of_def)

lemma find_client_Some: "find_client cid rows = Some r \<Longrightarrow> r \<in> set rows \<and> cr_client_id r = cid"
  by (auto simp: find_client_def find_Some_iff in_set_conv_nth)

lemma find_client_None: "find_client cid rows = None \<longleftrightarrow> cid \<notin> cr_client_id ` set rows"
  by (auto simp: find_client_def find_None_iff)

lemma find_distinct:
  "distinct (map cr_client_id rows) \<Longrightarrow> r \<in> set rows \<Longrightarrow> cr_client_id r = cid \<Longrightarrow> find (\<lambda>r. cr_client_id r = cid \<and> P r) rows = (if P r then Some r else None)"
proof (induction rows)
  case (Cons x rows)
  have "find (\<lambda>r. cr_client_id r = cid \<and> P r) rows = None" if "x = r"
    using Cons.prems that by (force simp: find_None_iff image_iff)
  then show ?case using Cons by (cases "x = r") auto
qed simp

lemma client_registration_Ok:
  assumes "client_registration ip hash_secret generated c secret = Ok (client, s)"
  shows "client = c\<lparr>oc_secret_hash := (if truthy_text s then Some (hash_secret (the s)) else None)\<rparr>" "post_init ip client = Ok client"
    "oc_allowed_scopes c \<subseteq> set SUPPORTED_SCOPES" "truthy_text s \<longleftrightarrow> oc_client_type c = CONFIDENTIAL"
    "oc_client_type c \<noteq> CONFIDENTIAL \<Longrightarrow> s = None"
proof -
  have p: "post_init ip x = Ok y \<Longrightarrow> y = x" for x y
    by (auto simp: post_init_def Let_def rbind_eq_Ok split: if_splits)
  have s: "registered_secret (oc_client_type c) secret generated = Ok s" and sub: "oc_allowed_scopes c \<subseteq> set SUPPORTED_SCOPES"
    and i: "post_init ip (c\<lparr>oc_secret_hash := (if truthy_text s then Some (hash_secret (the s)) else None)\<rparr>) = Ok client"
    using assms by (auto simp: client_registration_def rbind_eq_Ok split: if_splits)
  show "client = c\<lparr>oc_secret_hash := (if truthy_text s then Some (hash_secret (the s)) else None)\<rparr>" using p[OF i] .
  then show "post_init ip client = Ok client" using i by simp
  show "oc_allowed_scopes c \<subseteq> set SUPPORTED_SCOPES" by (fact sub)
  show "truthy_text s \<longleftrightarrow> oc_client_type c = CONFIDENTIAL" "oc_client_type c \<noteq> CONFIDENTIAL \<Longrightarrow> s = None"
    using s by (auto simp: registered_secret_def truthy_text_def MIN_SECRET_LENGTH_def Let_def split: if_splits)
qed

lemma supported_finite: "oc_allowed_scopes c \<subseteq> set SUPPORTED_SCOPES \<Longrightarrow> set (sorted_list_of_set (oc_allowed_scopes c)) = oc_allowed_scopes c"
  using finite_subset[of "oc_allowed_scopes c" "set SUPPORTED_SCOPES"] by simp

lemma from_row_new:
  "post_init ip client = Ok client \<Longrightarrow> oc_allowed_scopes client \<subseteq> set SUPPORTED_SCOPES \<Longrightarrow> from_client_row ip (to_client_row client) = Ok client"
  using supported_finite[of client] by (cases client) (simp add: from_client_row_def to_client_row_def)

lemma post_init_hash:
  "post_init ip c = Ok c \<Longrightarrow> oc_client_type c \<noteq> CONFIDENTIAL \<Longrightarrow> h \<noteq> [] \<Longrightarrow> post_init ip (c\<lparr>oc_secret_hash := Some h\<rparr>) = Err CannotHoldSecret"
  by (auto simp: post_init_def Let_def rbind_def split: if_splits sum.splits)

lemma from_row_updated:
  assumes "post_init ip client = Ok client" "oc_allowed_scopes client \<subseteq> set SUPPORTED_SCOPES" "cr_client_id r = oc_client_id client"
    "oc_client_type client = CONFIDENTIAL \<Longrightarrow> oc_secret_hash client \<noteq> None" "oc_client_type client \<noteq> CONFIDENTIAL \<Longrightarrow> oc_secret_hash client = None"
    "cr_secret_hash r \<noteq> Some []"
  shows "from_client_row ip (update_client_row r client) =
    (if oc_client_type client \<noteq> CONFIDENTIAL \<and> cr_secret_hash r \<noteq> None then Err (InvalidClient CannotHoldSecret) else Ok client)"
proof -
  have "from_client_row ip (update_client_row r client) = rmap_err InvalidClient (post_init ip
      (client\<lparr>oc_secret_hash := (case oc_secret_hash client of None \<Rightarrow> cr_secret_hash r | Some h \<Rightarrow> Some h)\<rparr>))"
    using assms(3) supported_finite[OF assms(2)] by (cases client) (simp add: from_client_row_def update_client_row_def)
  moreover have "client\<lparr>oc_secret_hash := h\<rparr> = client" if "oc_secret_hash client = h" for h using that by auto
  ultimately show ?thesis using assms(1,4,5,6) post_init_hash[OF assms(1)]
    by (cases "cr_secret_hash r"; cases "oc_secret_hash client") (auto simp: rmap_err_def)
qed


text \<open>A client that is looked up has passed every check of a registration, bears the name it was asked by, and its row is
  switched on; a name that is not found and one that is switched off are refused alike.\<close>

theorem required_client_checked:
  "(require_client ip cid rows = Ok c \<longrightarrow> post_init ip c = Ok c \<and> cid = Some (oc_client_id c) \<and> (\<exists>r\<in>set rows. cr_client_id r = oc_client_id c \<and> cr_enabled r)) \<and>
   ((\<forall>r\<in>set rows. Some (cr_client_id r) = cid \<longrightarrow> \<not> cr_enabled r) \<longrightarrow>
      require_client ip cid rows = Err (NoSuchClient (OAuthError INVALID_CLIENT R_UNKNOWN_CLIENT)))"
proof -
  have init: "post_init ip x = Ok y \<Longrightarrow> y = x" for x y by (auto simp: post_init_def Let_def rbind_eq_Ok split: if_splits)
  have "post_init ip c = Ok c \<and> cid = Some (oc_client_id c) \<and> (\<exists>r\<in>set rows. cr_client_id r = oc_client_id c \<and> cr_enabled r)"
    if req: "require_client ip cid rows = Ok c"
  proof -
    obtain i where i: "cid = Some i" "get_client ip i rows = Ok (Some c)"
      using req by (auto simp: require_client_def truthy_text_def Let_def rbind_eq_Ok split: if_splits option.splits)
    then obtain r where r: "find (\<lambda>r. cr_client_id r = i \<and> cr_enabled r) rows = Some r" "from_client_row ip r = Ok c"
      by (auto simp: get_client_def rbind_eq_Ok split: option.splits)
    then have "post_init ip c = Ok c \<and> oc_client_id c = cr_client_id r"
      by (auto simp: from_client_row_def split: option.splits dest: init)
    then show ?thesis using r(1) i(1) by (auto simp: find_Some_iff)
  qed
  moreover have "require_client ip cid rows = Err (NoSuchClient (OAuthError INVALID_CLIENT R_UNKNOWN_CLIENT))"
    if "\<forall>r\<in>set rows. Some (cr_client_id r) = cid \<longrightarrow> \<not> cr_enabled r"
  proof (cases cid)
    case (Some i)
    then have "find (\<lambda>r. cr_client_id r = i \<and> cr_enabled r) rows = None" using that by (auto simp: find_None_iff)
    then show ?thesis by (simp add: require_client_def Some get_client_def Let_def)
  qed (simp add: require_client_def truthy_text_def)
  ultimately show ?thesis by blast
qed

lemma sample_public_registration:
  "register_client (\<lambda>h. True) hash g (sample_client NATIVE [''http://127.0.0.1/cb'']) None
     [(to_client_row (sample_client CONFIDENTIAL [''https://rp/cb'']))] =
   Ok ((sample_client NATIVE [''http://127.0.0.1/cb''], None),
     [update_client_row (to_client_row (sample_client CONFIDENTIAL [''https://rp/cb''])) (sample_client NATIVE [''http://127.0.0.1/cb''])])"
proof -
  have "client_registration (\<lambda>h. True) hash g (sample_client NATIVE [''http://127.0.0.1/cb'']) None = Ok (sample_client NATIVE [''http://127.0.0.1/cb''], None)"
    using sample_registered[of "\<lambda>h. True"]
    by (simp add: client_registration_def registered_secret_def truthy_text_def sample_client_def SUPPORTED_SCOPES_def scope_names rmap_err_def)
  then show ?thesis
    by (simp add: register_client_def find_client_def to_client_row_def update_client_row_def register_write_def row_lengths_ok_def sample_client_def)
qed


theorem required_client_checked_witness:
  "require_client (\<lambda>h. True) (Some ''rp'') [(to_client_row (sample_client NATIVE [''http://127.0.0.1/cb'']))\<lparr>cr_enabled := False\<rparr>] =
     Err (NoSuchClient (OAuthError INVALID_CLIENT R_UNKNOWN_CLIENT))"
  using required_client_checked[of "\<lambda>h. True" "Some ''rp''"
    "[(to_client_row (sample_client NATIVE [''http://127.0.0.1/cb'']))\<lparr>cr_enabled := False\<rparr>]" "sample_client NATIVE []"]
  by (simp add: to_client_row_def)

end
