(* ===== verification/PolicyLoader.thy ===== *)
theory PolicyLoader
  imports ReleasePolicy LifecycleRules
begin

text \<open>
  Loading the release policies (\<open>policy/loader.py\<close>): the validation of a policy file, of a directory of them, and the store
  that reloads it when the files change.  A file is what reading it gave: no access, bytes that are not UTF-8, text that
  is not YAML, or a document.  The keys of a mapping are texts.  \<open>reprs\<close> is Python's \<open>str\<close> on a value that is not text, and
  \<open>compiles\<close> says whether the regular-expression engine accepts a pattern.
\<close>

section \<open>Files\<close>

datatype file_content = NoAccess | NotUtf8 | NotYaml | Document pyval

record 'm policy_file =
  pf_name :: string
  pf_mtime :: 'm
  pf_content :: file_content

text \<open>\<open>PolicyError\<close> and \<open>OSError\<close>, and the two errors the store does not expect.\<close>

datatype load_error = BadPolicy | FileError | UnicodeError | UnhashableError

definition expected_error :: "load_error \<Rightarrow> bool" where
  "expected_error e \<longleftrightarrow> e = BadPolicy \<or> e = FileError"

definition POLICY_SUFFIXES :: "string list" where "POLICY_SUFFIXES = [''.yaml'', ''.yml'']"

definition has_policy_suffix :: "string \<Rightarrow> bool" where
  "has_policy_suffix name \<longleftrightarrow> list_ex (\<lambda>x. ends_with name x \<and> length x < length name) POLICY_SUFFIXES"

section \<open>Rules\<close>

definition string_list :: "pyval \<Rightarrow> (load_error, string list) result" where
  "string_list v = (case v of PList vs \<Rightarrow> if list_all is_str vs then Ok (strings_of vs) else Err BadPolicy | _ \<Rightarrow> Err BadPolicy)"

definition bool_of :: "pyval \<Rightarrow> (load_error, bool) result" where
  "bool_of v = (case v of PBool b \<Rightarrow> Ok b | _ \<Rightarrow> Err BadPolicy)"

definition get_or :: "dict \<Rightarrow> string \<Rightarrow> pyval \<Rightarrow> pyval" where
  "get_or d k v = (case map_of d k of None \<Rightarrow> v | Some w \<Rightarrow> w)"

text \<open>Membership in a frozen set of texts: a list or a mapping has no hash.\<close>

definition in_frozenset :: "pyval \<Rightarrow> string set \<Rightarrow> (load_error, bool) result" where
  "in_frozenset v S = (case v of PList _ \<Rightarrow> Err UnhashableError | PDict _ \<Rightarrow> Err UnhashableError | PStr s \<Rightarrow> Ok (s \<in> S) | _ \<Rightarrow> Ok False)"

definition only_keys :: "dict \<Rightarrow> string set \<Rightarrow> bool" where
  "only_keys d S \<longleftrightarrow> list_all (\<lambda>e. fst e \<in> S) d"

definition effect_of_text :: "string \<Rightarrow> release_effect" where
  "effect_of_text s = (if s = ''allow'' then AllowE else if s = ''allow-value'' then AllowValue else if s = ''deny'' then DenyE else RequireConsent)"

definition VALID_EFFECTS :: "string set" where
  "VALID_EFFECTS = {''allow'', ''allow-value'', ''deny'', ''require-consent''}"

definition rule_filter :: "(string \<Rightarrow> bool) \<Rightarrow> pyval \<Rightarrow> bool \<Rightarrow> (load_error, string option) result" where
  "rule_filter compiles v valued = (case v of
       PNone \<Rightarrow> if valued then Err BadPolicy else Ok None
     | PStr p \<Rightarrow> if \<not> valued then Err BadPolicy else if compiles p then Ok (Some p) else Err BadPolicy
     | _ \<Rightarrow> Err BadPolicy)"

definition nonempty_text :: "pyval \<Rightarrow> (load_error, string) result" where
  "nonempty_text v = (case v of PStr s \<Rightarrow> if s = [] then Err BadPolicy else Ok s | _ \<Rightarrow> Err BadPolicy)"

definition rule_attribute :: "pyval \<Rightarrow> (load_error, string) result" where
  "rule_attribute v = (case v of
       PStr a \<Rightarrow> (case attribute_of a of None \<Rightarrow> Err BadPolicy
         | Some known \<Rightarrow> if ad_classification known = RESTRICTED then Err BadPolicy else Ok a)
     | _ \<Rightarrow> Err BadPolicy)"

definition parse_release_rule :: "(string \<Rightarrow> bool) \<Rightarrow> dict \<Rightarrow> (load_error, release_rule) result" where
  "parse_release_rule compiles d =
     (if \<not> only_keys d {''id'', ''effect'', ''attribute'', ''value_filter'', ''precedence''} then Err BadPolicy
      else rbind (nonempty_text (dict_get d ''id'')) (\<lambda>rid.
        rbind (in_frozenset (dict_get d ''effect'') VALID_EFFECTS) (\<lambda>valid.
          if \<not> valid then Err BadPolicy
          else (let effect = (case dict_get d ''effect'' of PStr s \<Rightarrow> effect_of_text s | _ \<Rightarrow> RequireConsent) in
            rbind (rule_attribute (dict_get d ''attribute'')) (\<lambda>a.
              rbind (rule_filter compiles (dict_get d ''value_filter'') (effect = AllowValue)) (\<lambda>f.
                case get_or d ''precedence'' (PInt 100) of
                  PInt n \<Rightarrow> Ok \<lparr>rr_id = rid, rr_effect = effect, rr_attribute = a, rr_value_filter = f, rr_precedence = n\<rparr>
                | _ \<Rightarrow> Err BadPolicy))))))"

fun parse_release_rules :: "(string \<Rightarrow> bool) \<Rightarrow> string list \<Rightarrow> pyval list \<Rightarrow> (load_error, release_rule list) result" where
  "parse_release_rules compiles seen [] = Ok []"
| "parse_release_rules compiles seen (v # vs) = (case v of
     PDict d \<Rightarrow> rbind (parse_release_rule compiles d) (\<lambda>r.
       if rr_id r \<in> set seen then Err BadPolicy
       else rbind (parse_release_rules compiles (rr_id r # seen) vs) (\<lambda>rs. Ok (r # rs)))
   | _ \<Rightarrow> Err BadPolicy)"

section \<open>Policies\<close>

definition KNOWN_CATEGORIES :: "string set" where "KNOWN_CATEGORIES = {RESEARCH_AND_SCHOLARSHIP}"
definition VALID_SUBJECT_ID_MODES :: "string set" where "VALID_SUBJECT_ID_MODES = {''pairwise'', ''shared''}"

definition POLICY_KEYS :: "string set" where
  "POLICY_KEYS = {''sp_entity_id'', ''aliases'', ''display_name'', ''entity_categories'', ''subject_id_mode'',
     ''internal_school_official'', ''require_encrypted_assertion'', ''rules''}"

text \<open>\<open>str(document.get("display_name") or "")\<close>.\<close>

definition display_text :: "(pyval \<Rightarrow> string) \<Rightarrow> pyval \<Rightarrow> string" where
  "display_text reprs v = (if v \<in> {PNone, PBool False, PInt 0, PList [], PDict []} then []
     else (case v of PStr s \<Rightarrow> s | PFloat m k \<Rightarrow> if m = 0 then [] else reprs v | _ \<Rightarrow> reprs v))"

definition policy_rules :: "(string \<Rightarrow> bool) \<Rightarrow> pyval \<Rightarrow> (load_error, release_rule list) result" where
  "policy_rules compiles v = (case v of PList vs \<Rightarrow> parse_release_rules compiles [] vs | _ \<Rightarrow> Err BadPolicy)"

definition parse_policy :: "(pyval \<Rightarrow> string) \<Rightarrow> (string \<Rightarrow> bool) \<Rightarrow> dict \<Rightarrow> (load_error, release_policy) result" where
  "parse_policy reprs compiles d =
     rbind (nonempty_text (dict_get d ''sp_entity_id'')) (\<lambda>entity.
       if \<not> only_keys d POLICY_KEYS then Err BadPolicy
       else rbind (string_list (get_or d ''entity_categories'' (PList []))) (\<lambda>categories.
         if \<not> set categories \<subseteq> KNOWN_CATEGORIES then Err BadPolicy
         else rbind (in_frozenset (get_or d ''subject_id_mode'' (PStr ''pairwise'')) VALID_SUBJECT_ID_MODES) (\<lambda>valid.
           if \<not> valid then Err BadPolicy
           else rbind (bool_of (get_or d ''internal_school_official'' (PBool False))) (\<lambda>official.
             rbind (bool_of (get_or d ''require_encrypted_assertion'' (PBool False))) (\<lambda>encrypted.
               rbind (policy_rules compiles (get_or d ''rules'' (PList []))) (\<lambda>rules.
                 Ok \<lparr>rp_sp_entity_id = entity, rp_display_name = display_text reprs (dict_get d ''display_name''),
                   rp_entity_categories = set categories,
                   rp_shared_subject_id = (get_or d ''subject_id_mode'' (PStr ''pairwise'') = PStr ''shared''),
                   rp_school_official = official, rp_require_encrypted = encrypted, rp_rules = rules\<rparr>))))))"

definition load_file :: "(pyval \<Rightarrow> string) \<Rightarrow> (string \<Rightarrow> bool) \<Rightarrow> file_content \<Rightarrow> (load_error, release_policy \<times> string list) result" where
  "load_file reprs compiles content = (case content of
       NoAccess \<Rightarrow> Err FileError | NotUtf8 \<Rightarrow> Err UnicodeError | NotYaml \<Rightarrow> Err BadPolicy
     | Document (PDict d) \<Rightarrow> rbind (parse_policy reprs compiles d) (\<lambda>p.
         rbind (string_list (get_or d ''aliases'' (PList []))) (\<lambda>aliases. Ok (p, aliases)))
     | Document _ \<Rightarrow> Err BadPolicy)"

type_synonym policy_set = "(string \<times> release_policy) list"

fun add_names :: "release_policy \<Rightarrow> string list \<Rightarrow> policy_set \<Rightarrow> (load_error, policy_set) result" where
  "add_names p [] ps = Ok ps"
| "add_names p (n # ns) ps = (if n \<in> fst ` set ps then Err BadPolicy else add_names p ns (ps @ [(n, p)]))"

fun load_files :: "(pyval \<Rightarrow> string) \<Rightarrow> (string \<Rightarrow> bool) \<Rightarrow> 'm policy_file list \<Rightarrow> policy_set \<Rightarrow> (load_error, policy_set) result" where
  "load_files reprs compiles [] ps = Ok ps"
| "load_files reprs compiles (f # fs) ps =
     (if \<not> has_policy_suffix (pf_name f) then load_files reprs compiles fs ps
      else rbind (load_file reprs compiles (pf_content f)) (\<lambda>(p, aliases).
        rbind (add_names p (rp_sp_entity_id p # aliases) ps) (load_files reprs compiles fs)))"

text \<open>A directory that is not there is \<open>None\<close>.\<close>

definition load_directory :: "(pyval \<Rightarrow> string) \<Rightarrow> (string \<Rightarrow> bool) \<Rightarrow> 'm policy_file list option \<Rightarrow> (load_error, policy_set) result" where
  "load_directory reprs compiles dir = (case dir of None \<Rightarrow> Err BadPolicy
     | Some fs \<Rightarrow> load_files reprs compiles (sort_key pf_name fs) [])"

definition blank_policy :: "string \<Rightarrow> release_policy" where
  "blank_policy sp = \<lparr>rp_sp_entity_id = sp, rp_display_name = [], rp_entity_categories = {}, rp_shared_subject_id = False,
     rp_school_official = False, rp_require_encrypted = False, rp_rules = []\<rparr>"

definition policy_for :: "policy_set \<Rightarrow> string \<Rightarrow> release_policy" where
  "policy_for ps sp = (case map_of ps sp of None \<Rightarrow> blank_policy sp | Some p \<Rightarrow> p)"

section \<open>The store\<close>

record 'm policy_store =
  po_fingerprint :: "(string \<times> 'm) list"
  po_current :: policy_set

definition fingerprint_now :: "'m :: linorder policy_file list option \<Rightarrow> (string \<times> 'm) list" where
  "fingerprint_now dir = (case dir of None \<Rightarrow> []
     | Some fs \<Rightarrow> map (\<lambda>f. (pf_name f, pf_mtime f)) (sort_key pf_name (filter (\<lambda>f. has_policy_suffix (pf_name f)) fs)))"

text \<open>The directory is read twice, first for the fingerprint and then for the files.\<close>

definition policy_reload ::
  "(pyval \<Rightarrow> string) \<Rightarrow> (string \<Rightarrow> bool) \<Rightarrow> 'm :: linorder policy_file list option \<Rightarrow> 'm policy_file list option \<Rightarrow> 'm policy_store \<Rightarrow>
     (load_error, 'm policy_store) result" where
  "policy_reload reprs compiles dir1 dir2 st = (case load_directory reprs compiles dir2 of
       Inl e \<Rightarrow> if expected_error e then Ok (st\<lparr>po_fingerprint := fingerprint_now dir1\<rparr>) else Err e
     | Inr ps \<Rightarrow> Ok \<lparr>po_fingerprint = fingerprint_now dir1, po_current = ps\<rparr>)"

definition policy_get ::
  "(pyval \<Rightarrow> string) \<Rightarrow> (string \<Rightarrow> bool) \<Rightarrow> 'm :: linorder policy_file list option \<Rightarrow> 'm policy_file list option \<Rightarrow> 'm policy_file list option \<Rightarrow>
     string \<Rightarrow> 'm policy_store \<Rightarrow> (load_error, release_policy) result \<times> 'm policy_store" where
  "policy_get reprs compiles dir0 dir1 dir2 sp st =
     (if fingerprint_now dir0 \<noteq> po_fingerprint st
      then (case policy_reload reprs compiles dir1 dir2 st of
          Inl e \<Rightarrow> (Err e, st) | Inr st' \<Rightarrow> (Ok (policy_for (po_current st') sp), st'))
      else (Ok (policy_for (po_current st) sp), st))"

definition policy_store_init ::
  "(pyval \<Rightarrow> string) \<Rightarrow> (string \<Rightarrow> bool) \<Rightarrow> 'm :: linorder policy_file list option \<Rightarrow> 'm policy_file list option \<Rightarrow> (load_error, 'm policy_store) result" where
  "policy_store_init reprs compiles dir1 dir2 = policy_reload reprs compiles dir1 dir2 \<lparr>po_fingerprint = [], po_current = []\<rparr>"

section \<open>Properties\<close>

definition rule_valid :: "(string \<Rightarrow> bool) \<Rightarrow> release_rule \<Rightarrow> bool" where
  "rule_valid compiles r \<longleftrightarrow> rr_id r \<noteq> [] \<and> (\<exists>a. attribute_of (rr_attribute r) = Some a \<and> ad_classification a \<noteq> RESTRICTED) \<and>
     (rr_value_filter r \<noteq> None \<longleftrightarrow> rr_effect r = AllowValue) \<and> (\<forall>p\<in>set_option (rr_value_filter r). compiles p)"

definition policy_valid :: "(string \<Rightarrow> bool) \<Rightarrow> release_policy \<Rightarrow> bool" where
  "policy_valid compiles p \<longleftrightarrow> rp_sp_entity_id p \<noteq> [] \<and> rp_entity_categories p \<subseteq> KNOWN_CATEGORIES \<and>
     distinct (map rr_id (rp_rules p)) \<and> list_all (rule_valid compiles) (rp_rules p)"

definition policies_valid :: "(string \<Rightarrow> bool) \<Rightarrow> policy_set \<Rightarrow> bool" where
  "policies_valid compiles ps \<longleftrightarrow> distinct (map fst ps) \<and>
     (\<forall>e\<in>set ps. policy_valid compiles (snd e) \<and> (rp_sp_entity_id (snd e), snd e) \<in> set ps)"

lemma parse_release_rule_Ok: "parse_release_rule compiles d = Ok r \<Longrightarrow> rule_valid compiles r"
  by (auto simp: parse_release_rule_def rbind_eq_Ok Let_def nonempty_text_def rule_attribute_def rule_filter_def rule_valid_def
    split: if_splits pyval.splits option.splits)

lemma parse_release_rules_Ok:
  "parse_release_rules compiles seen vs = Ok rs \<Longrightarrow> list_all (rule_valid compiles) rs \<and> distinct (map rr_id rs) \<and> rr_id ` set rs \<inter> set seen = {}"
proof (induction compiles seen vs arbitrary: rs rule: parse_release_rules.induct)
  case (2 compiles seen v vs)
  then obtain d r rs' where *: "v = PDict d" "parse_release_rule compiles d = Ok r" "rr_id r \<notin> set seen"
      "parse_release_rules compiles (rr_id r # seen) vs = Ok rs'" "rs = r # rs'"
    by (auto simp: rbind_eq_Ok split: pyval.splits if_splits)
  have "list_all (rule_valid compiles) rs' \<and> distinct (map rr_id rs') \<and> rr_id ` set rs' \<inter> set (rr_id r # seen) = {}"
    using "2.IH"[OF *(1,3,4)] .
  then show ?case using * parse_release_rule_Ok[OF *(2)] by auto
qed simp

lemma parse_policy_Ok: "parse_policy reprs compiles d = Ok p \<Longrightarrow> policy_valid compiles p"
  by (auto simp: parse_policy_def rbind_eq_Ok nonempty_text_def policy_valid_def policy_rules_def
    dest!: parse_release_rules_Ok split: if_splits pyval.splits)

lemma load_file_Ok: "load_file reprs compiles content = Ok (p, aliases) \<Longrightarrow> policy_valid compiles p"
  by (auto simp: load_file_def rbind_eq_Ok dest: parse_policy_Ok split: file_content.splits pyval.splits)

lemma add_names_Ok: "add_names p ns ps = Ok ps' \<Longrightarrow> ps' = ps @ map (\<lambda>n. (n, p)) ns \<and> (distinct (map fst ps) \<longrightarrow> distinct (map fst ps'))"
proof (induction p ns ps arbitrary: ps' rule: add_names.induct)
  case (2 p n ns ps)
  then have n: "n \<notin> fst ` set ps" "add_names p ns (ps @ [(n, p)]) = Ok ps'" by (auto split: if_splits)
  note ih = "2.IH"[OF n]
  show ?case
  proof (rule conjI)
    show "ps' = ps @ map (\<lambda>n. (n, p)) (n # ns)" using ih by simp
    have "distinct (map fst (ps @ [(n, p)])) \<longrightarrow> distinct (map fst ps')" using ih by (rule conjunct2)
    then show "distinct (map fst ps) \<longrightarrow> distinct (map fst ps')" using n(1) by simp
  qed
qed simp

lemma load_files_Ok: "load_files reprs compiles fs ps = Ok ps' \<Longrightarrow> policies_valid compiles ps \<Longrightarrow> policies_valid compiles ps'"
proof (induction fs arbitrary: ps)
  case (Cons f fs)
  show ?case
  proof (cases "has_policy_suffix (pf_name f)")
    case True
    then obtain p aliases qs where *: "load_file reprs compiles (pf_content f) = Ok (p, aliases)"
        "add_names p (rp_sp_entity_id p # aliases) ps = Ok qs" "load_files reprs compiles fs qs = Ok ps'"
      using Cons.prems(1) by (auto simp: rbind_eq_Ok)
    have "distinct (map fst ps)" using Cons.prems(2) by (simp add: policies_valid_def)
    then have qs: "qs = ps @ map (\<lambda>n. (n, p)) (rp_sp_entity_id p # aliases)" "distinct (map fst qs)"
      using add_names_Ok[OF *(2)] by blast+
    have "policies_valid compiles qs" unfolding policies_valid_def
    proof (intro conjI ballI)
      fix e assume "e \<in> set qs"
      then show "policy_valid compiles (snd e)" "(rp_sp_entity_id (snd e), snd e) \<in> set qs"
        using load_file_Ok[OF *(1)] Cons.prems(2) by (auto simp: qs(1) policies_valid_def)
    qed (fact qs(2))
    then show ?thesis using Cons.IH[OF *(3)] by simp
  qed (use Cons in simp)
qed simp

lemma load_directory_Ok: "load_directory reprs compiles dir = Ok ps \<Longrightarrow> policies_valid compiles ps"
  using load_files_Ok by (fastforce simp: load_directory_def policies_valid_def split: option.splits)

text \<open>A loader of the policy directory meets the contract the other stores of configuration rest on.\<close>

interpretation release_policies: validated_loader "load_directory reprs compiles" "policies_valid compiles" "[]"
  by unfold_locales (simp_all add: load_directory_Ok, simp add: policies_valid_def)

text \<open>Any sequence of requests, each with what it saw of the directory at its three reads.\<close>

fun policy_requests ::
  "(pyval \<Rightarrow> string) \<Rightarrow> (string \<Rightarrow> bool) \<Rightarrow>
     ('m :: linorder policy_file list option \<times> 'm policy_file list option \<times> 'm policy_file list option \<times> string) list \<Rightarrow> 'm policy_store \<Rightarrow> 'm policy_store" where
  "policy_requests reprs compiles [] st = st"
| "policy_requests reprs compiles ((d0, d1, d2, sp) # rest) st =
     policy_requests reprs compiles rest (snd (policy_get reprs compiles d0 d1 d2 sp st))"

lemma policy_get_current:
  "po_current (snd (policy_get reprs compiles d0 d1 d2 sp st)) = po_current st \<or>
   load_directory reprs compiles d2 = Ok (po_current (snd (policy_get reprs compiles d0 d1 d2 sp st)))"
  by (auto simp: policy_get_def policy_reload_def split: sum.splits)

lemma policy_requests_current:
  "po_current (policy_requests reprs compiles events st) = po_current st \<or>
   (\<exists>e\<in>set events. load_directory reprs compiles (fst (snd (snd e))) = Ok (po_current (policy_requests reprs compiles events st)))"
proof (induction reprs compiles events st rule: policy_requests.induct)
  case (2 reprs compiles d0 d1 d2 sp rest st)
  then show ?case using policy_get_current[of reprs compiles d0 d1 d2 sp st] by auto
qed simp

text \<open>C28. The store serves the last policies that loaded.  Whatever the directory holds at each request, the policies in force are
  those of a directory that passed every check, or none: every rule of theirs names an attribute of the catalogue that is
  releasable, carries a filter exactly if its effect asks for one, has an identifier of its own, and no name stands for two policies.\<close>

theorem policy_store_sound:
  assumes "policy_store_init reprs compiles a1 a2 = Ok st"
  shows "policies_valid compiles (po_current (policy_requests reprs compiles events st)) \<and>
    (po_current (policy_requests reprs compiles events st) = [] \<or>
     (\<exists>dir. dir \<in> insert a2 ((\<lambda>e. fst (snd (snd e))) ` set events) \<and> load_directory reprs compiles dir = Ok (po_current (policy_requests reprs compiles events st))))"
proof -
  have init: "po_current st = [] \<or> load_directory reprs compiles a2 = Ok (po_current st)"
    using assms by (auto simp: policy_store_init_def policy_reload_def split: sum.splits if_splits)
  have src: "po_current (policy_requests reprs compiles events st) = [] \<or>
     (\<exists>dir. dir \<in> insert a2 ((\<lambda>e. fst (snd (snd e))) ` set events) \<and> load_directory reprs compiles dir = Ok (po_current (policy_requests reprs compiles events st)))"
  proof (cases "po_current (policy_requests reprs compiles events st) = po_current st")
    case True
    then show ?thesis using init by auto
  next
    case False
    then obtain e where "e \<in> set events" "load_directory reprs compiles (fst (snd (snd e))) = Ok (po_current (policy_requests reprs compiles events st))"
      using policy_requests_current[of reprs compiles events st] by blast
    then show ?thesis by blast
  qed
  then have "policies_valid compiles (po_current (policy_requests reprs compiles events st))"
    using release_policies.load_ok release_policies.blank_ok by metis
  with src show ?thesis by blast
qed

text \<open>A service provider nobody configured learns nothing: with no file under its name the engine releases no attribute of
  anybody to it, whatever was consented to.\<close>

theorem unconfigured_provider_learns_nothing:
  assumes "sp \<notin> fst ` set ps"
  shows "fst (evaluate_release fullmatch (policy_for ps sp) s available consented) = []"
proof -
  have "map_of ps sp = None" using assms by (simp add: map_of_eq_None_iff)
  then have "\<not> rd_released (decide_release fullmatch (policy_for ps sp) s n vs consented)" for n vs
    by (auto simp: policy_for_def blank_policy_def decide_release_def in_category_bundle_def split: option.split)
  then show ?thesis by (simp add: evaluate_release_def Let_def)
qed

text \<open>One file can take the broker down.  A file that is not UTF-8, or whose \<open>subject_id_mode\<close> is a list, raises an error the store
  does not expect: every request that asks for a policy fails, and goes on failing, because nothing is remembered of it.\<close>

theorem unexpected_file_raises:
  assumes "fingerprint_now dir \<noteq> po_fingerprint st"
    and "dir = Some [\<lparr>pf_name = ''a.yaml'', pf_mtime = m, pf_content = NotUtf8\<rparr>] \<and> e = UnicodeError \<or>
      dir = Some [\<lparr>pf_name = ''a.yaml'', pf_mtime = m, pf_content = Document (PDict [(''sp_entity_id'', PStr ''rp''), (''subject_id_mode'', PList [])])\<rparr>] \<and> e = UnhashableError"
  shows "policy_get reprs compiles dir dir dir sp st = (Err e, st)"
proof -
  have "load_directory reprs compiles dir = Err e"
    using assms(2) by (auto simp: load_directory_def has_policy_suffix_def POLICY_SUFFIXES_def ends_with_def load_file_def parse_policy_def
      nonempty_text_def dict_get_def only_keys_def POLICY_KEYS_def get_or_def string_list_def strings_of_def map_filter_simps in_frozenset_def)
  then show ?thesis using assms by (auto simp: policy_get_def policy_reload_def expected_error_def)
qed

section \<open>Witnesses\<close>

definition sample_policy_file :: "nat policy_file" where
  "sample_policy_file = \<lparr>pf_name = ''a.yaml'', pf_mtime = 1, pf_content = Document (PDict [(''sp_entity_id'', PStr ''rp''),
     (''rules'', PList [PDict [(''id'', PStr ''r1''), (''effect'', PStr ''allow''), (''attribute'', PStr MAIL)]])])\<rparr>"

lemma sample_policies_load: "\<exists>ps. load_directory (\<lambda>v. []) (\<lambda>p. True) (Some [sample_policy_file]) = Ok ps \<and> ps \<noteq> []"
  by (simp add: sample_policy_file_def load_directory_def has_policy_suffix_def POLICY_SUFFIXES_def ends_with_def load_file_def parse_policy_def
    nonempty_text_def dict_get_def only_keys_def POLICY_KEYS_def get_or_def string_list_def strings_of_def map_filter_simps in_frozenset_def
    VALID_SUBJECT_ID_MODES_def bool_of_def policy_rules_def parse_release_rule_def VALID_EFFECTS_def effect_of_text_def rule_attribute_def
    attribute_of_def CATALOGUE_def attribute_names rule_filter_def)

theorem policy_store_sound_witness:
  "\<exists>st. policy_store_init (\<lambda>v. []) (\<lambda>p. True) (Some [sample_policy_file]) (Some [sample_policy_file]) = Ok st \<and> po_current st \<noteq> [] \<and>
     policies_valid (\<lambda>p. True) (po_current (policy_requests (\<lambda>v. []) (\<lambda>p. True) [(None, None, None, ''rp'')] st))"
proof -
  obtain ps where ps: "load_directory (\<lambda>v. []) (\<lambda>p. True) (Some [sample_policy_file]) = Ok ps" "ps \<noteq> []"
    using sample_policies_load by blast
  then have init: "policy_store_init (\<lambda>v. []) (\<lambda>p. True) (Some [sample_policy_file]) (Some [sample_policy_file]) =
      Ok \<lparr>po_fingerprint = fingerprint_now (Some [sample_policy_file]), po_current = ps\<rparr>"
    by (simp add: policy_store_init_def policy_reload_def)
  then show ?thesis using policy_store_sound[OF init, of "[(None, None, None, ''rp'')]"] ps(2) by auto
qed

theorem unconfigured_provider_learns_nothing_witness:
  "fst (evaluate_release (\<lambda>p v. True) (policy_for [] ''rp'') \<lparr>rs_person_key = ''u'', rs_suppressed = False\<rparr> [(MAIL, [''a@u.edu''])] {MAIL}) = []"
  using unconfigured_provider_learns_nothing[of "''rp''" "[]"] by simp

theorem unexpected_file_raises_witness:
  "policy_get (\<lambda>v. []) (\<lambda>p. True) (Some [\<lparr>pf_name = ''a.yaml'', pf_mtime = 2, pf_content = NotUtf8\<rparr>])
     (Some [\<lparr>pf_name = ''a.yaml'', pf_mtime = 2, pf_content = NotUtf8\<rparr>]) (Some [\<lparr>pf_name = ''a.yaml'', pf_mtime = 2, pf_content = NotUtf8\<rparr>]) ''rp''
     \<lparr>po_fingerprint = [(''a.yaml'', 1 :: nat)], po_current = [(''rp'', blank_policy ''rp'')]\<rparr> =
   (Err UnicodeError, \<lparr>po_fingerprint = [(''a.yaml'', 1)], po_current = [(''rp'', blank_policy ''rp'')]\<rparr>)"
  by (rule unexpected_file_raises) (simp_all add: fingerprint_now_def has_policy_suffix_def POLICY_SUFFIXES_def ends_with_def)

end
