(* ===== verification/OAuth2.thy ===== *)
theory OAuth2
  imports Jwt ClientRegistry PolicyLoader OneTime RateLimits AuditLog
begin

text \<open>
  The OAuth endpoints (\<open>routes/oauth2.py\<close>) and the index of the clients a session reached (\<open>ClientSessionIndex\<close> of
  \<open>oidc/logout.py\<close>): authorization, pushed requests, tokens, introspection and revocation, composed of the client
  registry, the grants, the sessions, the release policies and the signed tokens.

  A request brings the instants of its exchanges with Redis (\<open>rq_at\<close>, by number), its readings of the clock (\<open>rq_clock\<close>) and
  the random texts it draws (\<open>rq_random\<close>).  Basic credentials come decoded, a response is data (a redirect is a target
  and a query), the audit trail is the events recorded; metrics, log lines and the provenance of an event are left out.  An
  exception no handler catches is the response \<open>ServerError\<close>.
\<close>

section \<open>The application\<close>

record ('k, 'p, 's) oauth_app =
  oa_grants :: "'s grant_store"
  oa_sessions :: "'s session_store"
  oa_redis :: "'s redis"
  oa_throttle :: "'s throttle"
  oa_keys :: "'k key_set"
  oa_lib :: "('k, 'p) jwt_lib"
  oa_issuer :: string
  oa_salt :: bytes
  oa_scope :: string
  oa_hash_secret :: "string \<Rightarrow> string"
  oa_sha :: "bytes \<Rightarrow> bytes"
  oa_hmac :: "bytes \<Rightarrow> bytes \<Rightarrow> bytes"
  oa_fullmatch :: "string \<Rightarrow> string \<Rightarrow> bool"
  oa_ip :: "string \<Rightarrow> bool"
  oa_reprs :: "pyval \<Rightarrow> string"
  oa_clients :: "client_row list"
  oa_policies :: policy_set

record oauth_request =
  rq_at :: "nat \<Rightarrow> time"
  rq_clock :: "nat \<Rightarrow> micros"
  rq_random :: "nat \<Rightarrow> string"
  rq_basic :: "(string \<times> string) option"
  rq_cookie :: "string option"
  rq_address :: "string option"
  rq_throttle_up :: "bucket \<Rightarrow> bool"
  rq_moment :: rat
  rq_correlation :: string

record oauth_event =
  ov_type :: event_type
  ov_outcome :: audit_outcome
  ov_actor :: "string option"
  ov_subject :: "string option"
  ov_target :: "string option"
  ov_session :: "string option"
  ov_reason :: "reason_code option"
  ov_correlation :: string
  ov_detail :: dict

record 's oauth_state =
  os_redis :: 's
  os_impersonator :: "string option"
  os_trail :: "oauth_event list"

datatype flow_error = Refused oauth_error | Reused oauth_error | Crashed

datatype oauth_response =
    RejectPage reason_code
  | RedirectTo string "(string \<times> string) list"
  | LoginRedirect string
  | JsonReply nat dict
  | EmptyReply nat
  | SlowDown int
  | ServerError

definition of_registry :: "registry_error \<Rightarrow> flow_error" where
  "of_registry e = (case e of NoSuchClient x \<Rightarrow> Refused x | _ \<Rightarrow> Crashed)"

definition of_client :: "client_error \<Rightarrow> flow_error" where
  "of_client e = (case e of ClientRefused x \<Rightarrow> Refused x | ClientValueError \<Rightarrow> Crashed)"

definition of_grant :: "grant_error \<Rightarrow> flow_error" where
  "of_grant e = (case e of GrantError x \<Rightarrow> Refused x | GrantReuse x \<Rightarrow> Reused x | GrantCorrupt \<Rightarrow> Crashed)"

definition trail :: "oauth_event \<Rightarrow> 's oauth_state \<Rightarrow> 's oauth_state" where
  "trail e s = s\<lparr>os_trail := os_trail s @ [e]\<rparr>"

text \<open>A session is read with the state a load changes: the server and the marker of impersonation.\<close>

definition load_session ::
  "('k, 'p, 's) oauth_app \<Rightarrow> time \<Rightarrow> micros \<Rightarrow> string \<Rightarrow> 's oauth_state \<Rightarrow> (flow_error, session option) result \<times> 's oauth_state" where
  "load_session app t now sid s =
     (case session_load (oa_sessions app) t now sid \<lparr>st_redis = os_redis s, st_impersonator = os_impersonator s\<rparr> of
        (res, st) \<Rightarrow> (rmap_err (\<lambda>_. Crashed) res, s\<lparr>os_redis := st_redis st, os_impersonator := st_impersonator st\<rparr>))"

section \<open>Clients at the endpoints\<close>

definition presented :: "oauth_request \<Rightarrow> string option \<Rightarrow> string option \<Rightarrow> string option \<times> string option" where
  "presented rq client_id client_secret = (case rq_basic rq of
       Some (i, secret) \<Rightarrow> if i \<noteq> [] then (Some i, Some secret) else (client_id, client_secret)
     | None \<Rightarrow> (client_id, client_secret))"

definition authenticated_client ::
  "('k, 'p, 's) oauth_app \<Rightarrow> oauth_request \<Rightarrow> string option \<Rightarrow> string option \<Rightarrow> (flow_error, oidc_client) result" where
  "authenticated_client app rq client_id client_secret =
     (let (pid, secret) = presented rq client_id client_secret in
      rbind (rmap_err of_registry (require_client (oa_ip app) pid (oa_clients app))) (\<lambda>client.
        if oc_client_type client = CONFIDENTIAL
        then rbind (rmap_err of_client (authenticate (oa_hash_secret app) client secret)) (\<lambda>_. Ok client)
        else if truthy_text secret then Err (Refused (OAuthError INVALID_CLIENT R_CLIENT_AUTHENTICATION_FAILED))
        else Ok client))"

fun oauth_code_value :: "oauth_code \<Rightarrow> string" where
  "oauth_code_value INVALID_REQUEST = ''invalid_request''"
| "oauth_code_value INVALID_CLIENT = ''invalid_client''"
| "oauth_code_value INVALID_GRANT = ''invalid_grant''"
| "oauth_code_value UNAUTHORIZED_CLIENT = ''unauthorized_client''"
| "oauth_code_value UNSUPPORTED_GRANT_TYPE = ''unsupported_grant_type''"
| "oauth_code_value UNSUPPORTED_RESPONSE_TYPE = ''unsupported_response_type''"
| "oauth_code_value INVALID_SCOPE = ''invalid_scope''"
| "oauth_code_value ACCESS_DENIED = ''access_denied''"
| "oauth_code_value SERVER_ERROR = ''server_error''"

definition token_error :: "oauth_error \<Rightarrow> oauth_response" where
  "token_error e = JsonReply (if oe_error e = INVALID_CLIENT then 401 else 400) [(''error'', PStr (oauth_code_value (oe_error e)))]"

section \<open>The index of clients\<close>

definition CLIENT_SESSION_PREFIX :: string where "CLIENT_SESSION_PREFIX = ''oidc:session-clients:''"
definition CLIENT_SESSION_TTL :: int where "CLIENT_SESSION_TTL = 12 * 3600"

definition client_session_record :: "'s redis \<Rightarrow> time \<Rightarrow> time \<Rightarrow> string \<Rightarrow> string \<Rightarrow> 's \<Rightarrow> 's" where
  "client_session_record R t t' sid client_id s =
     r_expire R t' (CLIENT_SESSION_PREFIX @ sid) (at_least_one CLIENT_SESSION_TTL) (r_sadd R t (CLIENT_SESSION_PREFIX @ sid) client_id s)"

definition client_session_clients :: "'s redis \<Rightarrow> time \<Rightarrow> string \<Rightarrow> 's \<Rightarrow> string list" where
  "client_session_clients R t sid s = sort (r_smembers R t (CLIENT_SESSION_PREFIX @ sid) s)"

definition client_session_forget :: "'s redis \<Rightarrow> time \<Rightarrow> string \<Rightarrow> 's \<Rightarrow> 's" where
  "client_session_forget R t sid s = r_delete R t (CLIENT_SESSION_PREFIX @ sid) s"

section \<open>The authorization endpoint\<close>

definition PENDING_KEY_PREFIX :: string where "PENDING_KEY_PREFIX = ''oidc:pending:''"
definition PENDING_TTL :: nat where "PENDING_TTL = 600"

definition param :: "dict \<Rightarrow> string \<Rightarrow> string option" where
  "param d k = (case map_of d k of Some (PStr v) \<Rightarrow> Some v | _ \<Rightarrow> None)"

definition check_authorization_request :: "oidc_client \<Rightarrow> dict \<Rightarrow> (flow_error, unit) result" where
  "check_authorization_request client ps =
     (if param ps ''response_type'' \<noteq> Some ''code'' then Err (Refused (OAuthError UNSUPPORTED_RESPONSE_TYPE R_GRANT_INVALID))
      else if \<not> truthy_text (param ps ''state'') then Err (Refused (OAuthError INVALID_REQUEST R_GRANT_INVALID))
      else if \<not> truthy_text (param ps ''nonce'') then Err (Refused (OAuthError INVALID_REQUEST R_GRANT_INVALID))
      else rbind (rmap_err Refused (assert_supported_method (param ps ''code_challenge_method''))) (\<lambda>_.
        rbind (rmap_err Refused (assert_valid_challenge (param ps ''code_challenge''))) (\<lambda>_.
          rbind (rmap_err of_client (granted_scopes client (param ps ''scope''))) (\<lambda>_.
            if oc_require_par client \<and> map_of ps ''pushed'' \<noteq> Some (PBool True)
            then Err (Refused (OAuthError INVALID_REQUEST R_GRANT_INVALID)) else Ok ()))))"

fun basis_value :: "basis \<Rightarrow> string" where
  "basis_value RestrictedB = ''restricted''"
| "basis_value FerpaSuppressed = ''ferpa_suppressed''"
| "basis_value UnknownAttribute = ''unknown_attribute''"
| "basis_value ExplicitDeny = ''explicit_deny''"
| "basis_value ExplicitAllow = ''explicit_allow''"
| "basis_value ValueFilter = ''value_filter''"
| "basis_value EntityCategory = ''entity_category''"
| "basis_value ConsentGiven = ''consent_given''"
| "basis_value ConsentRequired = ''consent_required''"
| "basis_value DefaultDeny = ''default_deny''"

definition release_detail :: "released_identity \<Rightarrow> dict" where
  "release_detail i = [(''protocol'', PStr ''oidc''), (''released'', strs (sort (map fst (ri_claims i)))),
     (''decisions'', PList (map (\<lambda>d. PDict [(''attribute'', PStr (rd_attribute d)), (''released'', PBool (rd_released d)),
        (''basis'', PStr (basis_value (rd_basis d))), (''rule_id'', opt_str (rd_rule_id d))]) (ri_decisions i)))]"

definition session_event :: "event_type \<Rightarrow> session \<Rightarrow> oidc_client \<Rightarrow> string \<Rightarrow> dict \<Rightarrow> oauth_event" where
  "session_event ty x client correlation detail = \<lparr>ov_type = ty, ov_outcome = SUCCESS, ov_actor = Some (subject_key x),
     ov_subject = Some (subject_key x), ov_target = Some (oc_client_id client), ov_session = Some (se_sid x), ov_reason = None,
     ov_correlation = correlation, ov_detail = detail\<rparr>"

definition release_of :: "('k, 'p, 's) oauth_app \<Rightarrow> oidc_client \<Rightarrow> session \<Rightarrow> string set \<Rightarrow> released_identity option" where
  "release_of app client x scopes = release_to (oa_hmac app) (oa_fullmatch app) x (policy_for (oa_policies app) (oc_client_id client)) scopes
     (oa_salt app) (oa_scope app) False {}"

text \<open>\<open>_issue_code\<close>: \<open>rq_random 0\<close> is the code, \<open>rq_random 1\<close> the family.\<close>

definition code_grant :: "oauth_request \<Rightarrow> oidc_client \<Rightarrow> dict \<Rightarrow> session \<Rightarrow> string set \<Rightarrow> string \<Rightarrow> authorization_code" where
  "code_grant rq client ps x scopes subject = \<lparr>ac_client_id = oc_client_id client, ac_redirect_uri = the (param ps ''redirect_uri''),
     ac_code_challenge = the (param ps ''code_challenge''), ac_scopes = sorted_list_of_set scopes, ac_subject = subject, ac_sid = se_sid x,
     ac_family_id = rq_random rq 1, ac_nonce = param ps ''nonce'', ac_auth_time = Some (se_auth_time x), ac_acr = se_acr x, ac_amr = se_amr x\<rparr>"

definition issue_code_for ::
  "('k, 'p, 's) oauth_app \<Rightarrow> oauth_request \<Rightarrow> string \<Rightarrow> oidc_client \<Rightarrow> dict \<Rightarrow> session \<Rightarrow> 's oauth_state \<Rightarrow> (flow_error, string) result \<times> 's oauth_state" where
  "issue_code_for app rq correlation client ps x s = (case granted_scopes client (param ps ''scope'') of
       Inl e \<Rightarrow> (Err (of_client e), s)
     | Inr scopes \<Rightarrow> (case release_of app client x scopes of
         None \<Rightarrow> (Err Crashed, s)
       | Some i \<Rightarrow>
           (let (code, r1) = issue_code (oa_grants app) (rq_at rq 2) (rq_random rq 0) (code_grant rq client ps x scopes (ri_subject i)) (os_redis s);
                r2 = client_session_record (oa_redis app) (rq_at rq 3) (rq_at rq 4) (se_sid x) (oc_client_id client) r1 in
            (Ok code, trail (session_event AUTHZ_CODE_ISSUED x client correlation [(''scopes'', strs (sorted_list_of_set scopes))])
              (trail (session_event ATTRIBUTE_RELEASE x client correlation (release_detail i)) (s\<lparr>os_redis := r2\<rparr>))))))"

definition rejoin_chain :: "dict \<Rightarrow> string \<Rightarrow> string" where
  "rejoin_chain ps fallback = (case param ps ''correlation_id'' of None \<Rightarrow> fallback | Some c \<Rightarrow> if c = [] then fallback else c)"

definition start_login :: "('k, 'p, 's) oauth_app \<Rightarrow> oauth_request \<Rightarrow> string \<Rightarrow> dict \<Rightarrow> 's oauth_state \<Rightarrow> oauth_response \<times> 's oauth_state" where
  "start_login app rq correlation ps s =
     (LoginRedirect (rq_random rq 0),
      s\<lparr>os_redis := r_set (oa_redis app) (rq_at rq 2) (PENDING_KEY_PREFIX @ rq_random rq 0)
          (PDict (dict_update ps [(''correlation_id'', PStr correlation)])) PENDING_TTL (os_redis s)\<rparr>)"

definition error_redirect :: "string \<Rightarrow> oauth_error \<Rightarrow> string option \<Rightarrow> oauth_response" where
  "error_redirect destination e state =
     (if \<not> may_be_redirected e then ServerError
      else RedirectTo destination ((''error'', oauth_code_value (oe_error e)) # (if truthy_text state then [(''state'', the state)] else [])))"

text \<open>The parameters a request arrives with: pushed, resumed after a login, or in the query.\<close>

record authorize_query =
  aq_client_id :: "string option"
  aq_redirect_uri :: "string option"
  aq_response_type :: "string option"
  aq_scope :: "string option"
  aq_state :: "string option"
  aq_nonce :: "string option"
  aq_code_challenge :: "string option"
  aq_code_challenge_method :: "string option"
  aq_request_uri :: "string option"
  aq_pending :: "string option"

definition query_parameters :: "authorize_query \<Rightarrow> dict" where
  "query_parameters q = [(''client_id'', opt_str (aq_client_id q)), (''redirect_uri'', opt_str (aq_redirect_uri q)),
     (''response_type'', opt_str (aq_response_type q)), (''scope'', opt_str (aq_scope q)), (''state'', opt_str (aq_state q)),
     (''nonce'', opt_str (aq_nonce q)), (''code_challenge'', opt_str (aq_code_challenge q)),
     (''code_challenge_method'', opt_str (aq_code_challenge_method q)), (''pushed'', PBool False)]"

definition take_pending :: "'s redis \<Rightarrow> time \<Rightarrow> string \<Rightarrow> 's \<Rightarrow> dict option taken \<times> 's" where
  "take_pending R t pending s = (let (raw, s') = r_getdel R t (PENDING_KEY_PREFIX @ pending) s in
     (case raw of None \<Rightarrow> Taken None | Some (PDict d) \<Rightarrow> Taken (Some d) | Some _ \<Rightarrow> Unreadable, s'))"

definition authorize_parameters ::
  "('k, 'p, 's) oauth_app \<Rightarrow> oauth_request \<Rightarrow> authorize_query \<Rightarrow> 's oauth_state \<Rightarrow> dict option taken \<times> 's oauth_state" where
  "authorize_parameters app rq q s = (case aq_pending q of
       Some pending \<Rightarrow> (case take_pending (oa_redis app) (rq_at rq 0) pending (os_redis s) of (x, r) \<Rightarrow> (x, s\<lparr>os_redis := r\<rparr>))
     | None \<Rightarrow> (case aq_request_uri q of
         Some uri \<Rightarrow> (case par_consume (oa_redis app) (rq_at rq 0) uri (case aq_client_id q of None \<Rightarrow> [] | Some c \<Rightarrow> c) (os_redis s) of
             (Taken (Some d), r) \<Rightarrow> (Taken (Some (dict_update d [(''client_id'', opt_str (aq_client_id q)), (''pushed'', PBool True)])), s\<lparr>os_redis := r\<rparr>)
           | (x, r) \<Rightarrow> (x, s\<lparr>os_redis := r\<rparr>))
       | None \<Rightarrow> (Taken (Some (query_parameters q)), s)))"

definition current_session ::
  "('k, 'p, 's) oauth_app \<Rightarrow> oauth_request \<Rightarrow> 's oauth_state \<Rightarrow> (flow_error, session option) result \<times> 's oauth_state" where
  "current_session app rq s = (if truthy_text (rq_cookie rq) then load_session app (rq_at rq 1) (rq_clock rq 0) (the (rq_cookie rq)) s else (Ok None, s))"

definition authorize_client :: "('k, 'p, 's) oauth_app \<Rightarrow> dict \<Rightarrow> (flow_error, oidc_client \<times> string) result" where
  "authorize_client app ps =
     rbind (rmap_err of_registry (require_client (oa_ip app) (param ps ''client_id'') (oa_clients app))) (\<lambda>client.
       rbind (rmap_err of_client (validated_redirect_uri (oa_ip app) client (param ps ''redirect_uri''))) (\<lambda>destination. Ok (client, destination)))"

definition authorize_with ::
  "('k, 'p, 's) oauth_app \<Rightarrow> oauth_request \<Rightarrow> string \<Rightarrow> dict \<Rightarrow> 's oauth_state \<Rightarrow> oauth_response \<times> 's oauth_state" where
  "authorize_with app rq correlation ps s = (case authorize_client app ps of
       Inl (Refused e) \<Rightarrow> (RejectPage (oe_reason e), s)
     | Inl _ \<Rightarrow> (ServerError, s)
     | Inr (client, destination) \<Rightarrow> (case check_authorization_request client ps of
         Inl (Refused e) \<Rightarrow> (error_redirect destination e (param ps ''state''), s)
       | Inl _ \<Rightarrow> (ServerError, s)
       | Inr _ \<Rightarrow> (case current_session app rq s of
           (Inl _, s1) \<Rightarrow> (ServerError, s1)
         | (Inr None, s1) \<Rightarrow> start_login app rq correlation ps s1
         | (Inr (Some x), s1) \<Rightarrow> (case issue_code_for app rq correlation client ps x s1 of
             (Inl _, s2) \<Rightarrow> (ServerError, s2)
           | (Inr code, s2) \<Rightarrow> (RedirectTo destination [(''code'', code), (''state'', the (param ps ''state'')), (''iss'', oa_issuer app)], s2)))))"

definition authorize ::
  "('k, 'p, 's) oauth_app \<Rightarrow> oauth_request \<Rightarrow> authorize_query \<Rightarrow> 's oauth_state \<Rightarrow> oauth_response \<times> 's oauth_state" where
  "authorize app rq q s = (case authorize_parameters app rq q s of
       (Taken (Some ps), s1) \<Rightarrow> authorize_with app rq
           (if aq_pending q = None \<and> aq_request_uri q = None then rq_correlation rq else rejoin_chain ps (rq_correlation rq)) ps s1
     | (Taken None, s1) \<Rightarrow> (RejectPage R_GRANT_INVALID, s1)
     | (_, s1) \<Rightarrow> (ServerError, s1))"

section \<open>Pushed requests\<close>

definition denied_event :: "event_type \<Rightarrow> audit_outcome \<Rightarrow> oauth_request \<Rightarrow> string option \<Rightarrow> oauth_error \<Rightarrow> dict \<Rightarrow> oauth_event" where
  "denied_event ty out rq target e detail = \<lparr>ov_type = ty, ov_outcome = out, ov_actor = None, ov_subject = None, ov_target = target,
     ov_session = None, ov_reason = Some (oe_reason e), ov_correlation = rq_correlation rq, ov_detail = detail\<rparr>"

definition client_event :: "event_type \<Rightarrow> oauth_request \<Rightarrow> oidc_client \<Rightarrow> string option \<Rightarrow> string option \<Rightarrow> dict \<Rightarrow> oauth_event" where
  "client_event ty rq client subject sid detail = \<lparr>ov_type = ty, ov_outcome = SUCCESS, ov_actor = Some (oc_client_id client), ov_subject = subject,
     ov_target = Some (oc_client_id client), ov_session = sid, ov_reason = None, ov_correlation = rq_correlation rq, ov_detail = detail\<rparr>"

definition pushed_parameters :: "oauth_request \<Rightarrow> oidc_client \<Rightarrow> authorize_query \<Rightarrow> dict" where
  "pushed_parameters rq client q = dict_update (query_parameters q)
     [(''client_id'', PStr (oc_client_id client)), (''pushed'', PBool True), (''correlation_id'', PStr (rq_correlation rq))]"

definition par_request ::
  "('k, 'p, 's) oauth_app \<Rightarrow> oauth_request \<Rightarrow> authorize_query \<Rightarrow> string option \<Rightarrow> (flow_error, oidc_client) result" where
  "par_request app rq q secret =
     rbind (authenticated_client app rq (aq_client_id q) secret) (\<lambda>client.
       if aq_request_uri q \<noteq> None then Err (Refused (OAuthError INVALID_REQUEST R_GRANT_INVALID))
       else rbind (rmap_err of_client (validated_redirect_uri (oa_ip app) client (aq_redirect_uri q))) (\<lambda>_.
         rbind (check_authorization_request client (pushed_parameters rq client q)) (\<lambda>_. Ok client)))"

definition pushed_authorization_request ::
  "('k, 'p, 's) oauth_app \<Rightarrow> oauth_request \<Rightarrow> authorize_query \<Rightarrow> string option \<Rightarrow> 's oauth_state \<Rightarrow> oauth_response \<times> 's oauth_state" where
  "pushed_authorization_request app rq q secret s = (case par_request app rq q secret of
       Inl (Refused e) \<Rightarrow> (token_error e, trail (denied_event AUTHZ_DENIED DENIED rq (aq_client_id q) e []) s)
     | Inl _ \<Rightarrow> (ServerError, s)
     | Inr client \<Rightarrow> (case par_push (oa_redis app) (rq_at rq 0) PAR_TTL (rq_random rq 0) (oc_client_id client) (pushed_parameters rq client q) (os_redis s) of
         ((reference, expires), r) \<Rightarrow> (JsonReply 201 [(''request_uri'', PStr reference), (''expires_in'', PInt (int expires))],
           trail (client_event AUTHZ_CODE_ISSUED rq client None None [(''pushed'', PBool True), (''expires_in'', PInt (int expires))])
             (s\<lparr>os_redis := r\<rparr>))))"

section \<open>The token endpoint\<close>

definition token_response ::
  "('k, 'p, 's) oauth_app \<Rightarrow> oauth_request \<Rightarrow> token_context \<Rightarrow> micros \<Rightarrow> string \<Rightarrow> bool \<Rightarrow> dict" where
  "token_response app rq c now refresh with_id_token =
     [(''access_token'', PStr (access_token (oa_lib app) c (ks_active (oa_keys app)) (rq_random rq 2) now)), (''token_type'', PStr ''Bearer''),
      (''expires_in'', PInt (ACCESS_TOKEN_TTL div 1000000)), (''refresh_token'', PStr refresh),
      (''scope'', PStr (join_spaces (sorted_list_of_set (tc_scopes c))))] @
     (if with_id_token then [(''id_token'', PStr (id_token (oa_lib app) c (ks_active (oa_keys app)) now))] else [])"

definition claims_of_grant ::
  "('k, 'p, 's) oauth_app \<Rightarrow> oauth_request \<Rightarrow> oidc_client \<Rightarrow> authorization_code \<Rightarrow> 's oauth_state \<Rightarrow> (flow_error, dict) result \<times> 's oauth_state" where
  "claims_of_grant app rq client g s = (case load_session app (rq_at rq 3) (rq_clock rq 1) (ac_sid g) s of
       (Inl e, s1) \<Rightarrow> (Err e, s1)
     | (Inr None, s1) \<Rightarrow> (Ok [], s1)
     | (Inr (Some x), s1) \<Rightarrow> (case release_of app client x (set (ac_scopes g)) of
         None \<Rightarrow> (Err Crashed, s1) | Some i \<Rightarrow> (Ok (ri_claims i), s1)))"

definition grant_context :: "('k, 'p, 's) oauth_app \<Rightarrow> oidc_client \<Rightarrow> authorization_code \<Rightarrow> micros \<Rightarrow> dict \<Rightarrow> token_context" where
  "grant_context app client g now claims = \<lparr>tc_issuer = oa_issuer app, tc_client_id = oc_client_id client, tc_subject = ac_subject g,
     tc_sid = ac_sid g, tc_family_id = ac_family_id g, tc_scopes = set (ac_scopes g),
     tc_auth_time = (case ac_auth_time g of None \<Rightarrow> now | Some a \<Rightarrow> a), tc_nonce = ac_nonce g, tc_acr = ac_acr g, tc_amr = ac_amr g, tc_claims = claims\<rparr>"

definition first_refresh :: "oidc_client \<Rightarrow> authorization_code \<Rightarrow> micros \<Rightarrow> refresh_token" where
  "first_refresh client g now = \<lparr>rt_client_id = oc_client_id client, rt_scopes = ac_scopes g, rt_subject = ac_subject g, rt_sid = ac_sid g,
     rt_family_id = ac_family_id g, rt_generation = 0, rt_issued_at = now\<rparr>"

text \<open>\<open>_exchange_code\<close>: \<open>rq_random 0\<close> is the refresh token.\<close>

definition exchange_code ::
  "('k, 'p, 's) oauth_app \<Rightarrow> oauth_request \<Rightarrow> oidc_client \<Rightarrow> string option \<Rightarrow> string option \<Rightarrow> string option \<Rightarrow> 's oauth_state \<Rightarrow>
     (flow_error, dict) result \<times> 's oauth_state" where
  "exchange_code app rq client code redirect_uri verifier s =
     (if \<not> truthy_text code then (Err (Refused (OAuthError INVALID_REQUEST R_GRANT_INVALID)), s)
      else (case redeem_code (oa_grants app) (rq_at rq 1) (rq_at rq 2) (the code) (oc_client_id client) (case redirect_uri of None \<Rightarrow> [] | Some u \<Rightarrow> u) (os_redis s) of
          (Inl e, r) \<Rightarrow> (Err (of_grant e), s\<lparr>os_redis := r\<rparr>)
        | (Inr g, r) \<Rightarrow> (case pkce_verify (oa_sha app) verifier (ac_code_challenge g) of
            Inl e \<Rightarrow> (Err (Refused e), s\<lparr>os_redis := r\<rparr>)
          | Inr _ \<Rightarrow> (case claims_of_grant app rq client g (s\<lparr>os_redis := r\<rparr>) of
              (Inl e, s1) \<Rightarrow> (Err e, s1)
            | (Inr claims, s1) \<Rightarrow>
                (let now = rq_clock rq 0;
                     (refresh, r2) = issue_refresh_token (oa_grants app) (rq_at rq 4) (rq_random rq 0) (first_refresh client g now) (os_redis s1) in
                 (Ok (token_response app rq (grant_context app client g now claims) now refresh True),
                  trail (client_event TOKEN_ISSUED rq client (Some (ac_subject g)) (Some (ac_sid g))
                    [(''scopes'', strs (sort (ac_scopes g))), (''family'', PStr (ac_family_id g))]) (s1\<lparr>os_redis := r2\<rparr>)))))))"

definition refresh_context :: "('k, 'p, 's) oauth_app \<Rightarrow> oidc_client \<Rightarrow> refresh_token \<Rightarrow> micros \<Rightarrow> token_context" where
  "refresh_context app client r now = \<lparr>tc_issuer = oa_issuer app, tc_client_id = oc_client_id client, tc_subject = rt_subject r,
     tc_sid = rt_sid r, tc_family_id = rt_family_id r, tc_scopes = set (rt_scopes r), tc_auth_time = now, tc_nonce = None, tc_acr = None,
     tc_amr = [], tc_claims = []\<rparr>"

definition exchange_refresh_token ::
  "('k, 'p, 's) oauth_app \<Rightarrow> oauth_request \<Rightarrow> oidc_client \<Rightarrow> string option \<Rightarrow> 's oauth_state \<Rightarrow> (flow_error, dict) result \<times> 's oauth_state" where
  "exchange_refresh_token app rq client token s =
     (if \<not> truthy_text token then (Err (Refused (OAuthError INVALID_REQUEST R_GRANT_INVALID)), s)
      else (case rotate_refresh_token (oa_grants app) (rq_at rq 1) (rq_at rq 2) (rq_at rq 3) (the token) (rq_random rq 0) (oc_client_id client) (rq_clock rq 0) (os_redis s) of
          (Inl e, r) \<Rightarrow> (Err (of_grant e), s\<lparr>os_redis := r\<rparr>)
        | (Inr (rotated, record), r) \<Rightarrow>
            (Ok (token_response app rq (refresh_context app client record (rq_clock rq 0)) (rq_clock rq 0) rotated False),
             trail (client_event TOKEN_REFRESHED rq client (Some (rt_subject record)) (Some (rt_sid record))
               [(''generation'', PInt (rt_generation record)), (''family'', PStr (rt_family_id record))]) (s\<lparr>os_redis := r\<rparr>))))"

definition machine_context :: "('k, 'p, 's) oauth_app \<Rightarrow> oidc_client \<Rightarrow> string set \<Rightarrow> micros \<Rightarrow> token_context" where
  "machine_context app client granted now = \<lparr>tc_issuer = oa_issuer app, tc_client_id = oc_client_id client, tc_subject = oc_client_id client,
     tc_sid = [], tc_family_id = [], tc_scopes = granted, tc_auth_time = now, tc_nonce = None, tc_acr = None, tc_amr = [], tc_claims = []\<rparr>"

definition client_credentials ::
  "('k, 'p, 's) oauth_app \<Rightarrow> oauth_request \<Rightarrow> oidc_client \<Rightarrow> string option \<Rightarrow> 's oauth_state \<Rightarrow> (flow_error, dict) result \<times> 's oauth_state" where
  "client_credentials app rq client requested s =
     (if oc_client_type client \<noteq> CONFIDENTIAL then (Err (Refused (OAuthError UNAUTHORIZED_CLIENT R_CLIENT_AUTHENTICATION_FAILED)), s)
      else (case machine_scopes client requested of
          Inl e \<Rightarrow> (Err (of_client e), s)
        | Inr granted \<Rightarrow>
            (Ok [(''access_token'', PStr (access_token (oa_lib app) (machine_context app client granted (rq_clock rq 0)) (ks_active (oa_keys app)) (rq_random rq 2) (rq_clock rq 0))),
               (''token_type'', PStr ''Bearer''), (''expires_in'', PInt (ACCESS_TOKEN_TTL div 1000000)),
               (''scope'', PStr (join_spaces (sorted_list_of_set granted)))],
             trail (client_event TOKEN_ISSUED rq client (Some (oc_client_id client)) None
               [(''grant'', PStr ''client_credentials''), (''scopes'', strs (sorted_list_of_set granted))]) s)))"

record token_form =
  tf_grant_type :: string
  tf_code :: "string option"
  tf_redirect_uri :: "string option"
  tf_code_verifier :: "string option"
  tf_refresh_token :: "string option"
  tf_scope :: "string option"
  tf_client_id :: "string option"
  tf_client_secret :: "string option"

definition token_grant ::
  "('k, 'p, 's) oauth_app \<Rightarrow> oauth_request \<Rightarrow> token_form \<Rightarrow> 's oauth_state \<Rightarrow> (flow_error, dict) result \<times> 's oauth_state" where
  "token_grant app rq f s = (case authenticated_client app rq (tf_client_id f) (tf_client_secret f) of
       Inl e \<Rightarrow> (Err e, s)
     | Inr client \<Rightarrow>
         if tf_grant_type f = ''authorization_code'' then exchange_code app rq client (tf_code f) (tf_redirect_uri f) (tf_code_verifier f) s
         else if tf_grant_type f = ''refresh_token'' then exchange_refresh_token app rq client (tf_refresh_token f) s
         else if tf_grant_type f = ''client_credentials'' then client_credentials app rq client (tf_scope f) s
         else (Err (Refused (OAuthError UNSUPPORTED_GRANT_TYPE R_GRANT_INVALID)), s))"

definition token_endpoint ::
  "('k, 'p, 's) oauth_app \<Rightarrow> oauth_request \<Rightarrow> token_form \<Rightarrow> 's oauth_state \<Rightarrow> oauth_response \<times> 's oauth_state" where
  "token_endpoint app rq f s =
     (case throttle_check (oa_throttle app) (rq_throttle_up rq) (rq_at rq 0) (rq_moment rq) (rq_address rq) None (os_redis s) of
        (Inl (Throttled reason b after), r) \<Rightarrow> (SlowDown after, s\<lparr>os_redis := r\<rparr>)
      | (Inr _, r) \<Rightarrow> (case token_grant app rq f (s\<lparr>os_redis := r\<rparr>) of
          (Inr body, s1) \<Rightarrow> (JsonReply 200 body, s1)
        | (Inl (Reused e), s1) \<Rightarrow> (token_error e, trail (denied_event GRANT_REUSE_DETECTED FAILURE rq (tf_client_id f) e []) s1)
        | (Inl (Refused e), s1) \<Rightarrow> (token_error e, trail (denied_event AUTHZ_DENIED DENIED rq (tf_client_id f) e [(''grant_type'', PStr (tf_grant_type f))]) s1)
        | (Inl Crashed, s1) \<Rightarrow> (ServerError, s1)))"

section \<open>Introspection and revocation\<close>

definition bearer_of :: "('k, 'p, 's) oauth_app \<Rightarrow> oauth_request \<Rightarrow> string \<Rightarrow> 's \<Rightarrow> (bearer_error, dict) result" where
  "bearer_of app rq token r = bearer_verify (oa_lib app) (oa_keys app) (oa_grants app) (oa_issuer app) (rq_clock rq 0) (rq_at rq 0) (Some token) r"

text \<open>\<open>str(claims[name])\<close>, which raises where the claim is missing.\<close>

definition claim_text :: "(pyval \<Rightarrow> string) \<Rightarrow> dict \<Rightarrow> string \<Rightarrow> string option" where
  "claim_text reprs claims name = (case map_of claims name of None \<Rightarrow> None | Some (PStr v) \<Rightarrow> Some v | Some v \<Rightarrow> Some (reprs v))"

definition INTROSPECTED :: "string list" where
  "INTROSPECTED = [''sub'', ''client_id'', ''exp'', ''iat'', ''iss'', ''aud'', ''jti'', ''sid'']"

definition introspection_body :: "dict \<Rightarrow> dict option" where
  "introspection_body claims = (if list_ex (\<lambda>n. map_of claims n = None) INTROSPECTED then None
     else Some ([(''active'', PBool True), (''sub'', dict_get claims ''sub''), (''client_id'', dict_get claims ''client_id''),
       (''scope'', case map_of claims ''scope'' of None \<Rightarrow> PStr [] | Some v \<Rightarrow> v), (''token_type'', PStr ''Bearer''),
       (''exp'', dict_get claims ''exp''), (''iat'', dict_get claims ''iat''), (''iss'', dict_get claims ''iss''),
       (''aud'', dict_get claims ''aud''), (''jti'', dict_get claims ''jti''), (''sid'', dict_get claims ''sid'')]))"

definition inactive :: oauth_response where
  "inactive = JsonReply 200 [(''active'', PBool False)]"

definition introspect ::
  "('k, 'p, 's) oauth_app \<Rightarrow> oauth_request \<Rightarrow> string \<Rightarrow> string option \<Rightarrow> string option \<Rightarrow> 's oauth_state \<Rightarrow> oauth_response" where
  "introspect app rq token client_id secret s = (case authenticated_client app rq client_id secret of
       Inl (Refused e) \<Rightarrow> token_error e
     | Inl _ \<Rightarrow> ServerError
     | Inr client \<Rightarrow> (case bearer_of app rq token (os_redis s) of
         Inl _ \<Rightarrow> inactive
       | Inr claims \<Rightarrow> (case claim_text (oa_reprs app) claims ''client_id'' of
           None \<Rightarrow> ServerError
         | Some owner \<Rightarrow> if owner \<noteq> oc_client_id client then inactive
             else (case introspection_body claims of None \<Rightarrow> ServerError | Some body \<Rightarrow> JsonReply 200 body))))"

definition family_of ::
  "('k, 'p, 's) oauth_app \<Rightarrow> oauth_request \<Rightarrow> string \<Rightarrow> oidc_client \<Rightarrow> 's \<Rightarrow> (flow_error, string option) result" where
  "family_of app rq token client r = (case bearer_of app rq token r of
       Inr claims \<Rightarrow> (case claim_text (oa_reprs app) claims ''client_id'' of
           None \<Rightarrow> Err Crashed
         | Some owner \<Rightarrow> Ok (if owner = oc_client_id client then claim_text (oa_reprs app) claims ''fid'' else None))
     | Inl _ \<Rightarrow> (case describe_refresh_token (oa_grants app) (rq_at rq 1) token r of
           Inl e \<Rightarrow> Err (of_grant e)
         | Inr None \<Rightarrow> Ok None
         | Inr (Some record) \<Rightarrow> Ok (if rt_client_id record \<noteq> oc_client_id client then None else Some (rt_family_id record))))"

definition revoke_token ::
  "('k, 'p, 's) oauth_app \<Rightarrow> oauth_request \<Rightarrow> string \<Rightarrow> string option \<Rightarrow> string option \<Rightarrow> string option \<Rightarrow> 's oauth_state \<Rightarrow> oauth_response \<times> 's oauth_state" where
  "revoke_token app rq token hint client_id secret s = (case authenticated_client app rq client_id secret of
       Inl (Refused e) \<Rightarrow> (token_error e, s)
     | Inl _ \<Rightarrow> (ServerError, s)
     | Inr client \<Rightarrow> (case family_of app rq token client (os_redis s) of
         Inl _ \<Rightarrow> (ServerError, s)
       | Inr None \<Rightarrow> (EmptyReply 200, s)
       | Inr (Some family) \<Rightarrow> (EmptyReply 200,
           trail (client_event TOKEN_REVOKED rq client None None [(''family'', PStr family), (''hint'', opt_str hint)])
             (s\<lparr>os_redis := revoke_family (oa_grants app) (rq_at rq 2) family (os_redis s)\<rparr>))))"

section \<open>Lemmas\<close>

lemma trail_sel [simp]: "os_redis (trail e s) = os_redis s" "os_impersonator (trail e s) = os_impersonator s" "os_trail (trail e s) = os_trail s @ [e]"
  by (simp_all add: trail_def)

lemma rmap_err_Err_iff: "rmap_err f r = Err e \<longleftrightarrow> (\<exists>x. r = Err x \<and> e = f x)"
  by (cases r) (auto simp: rmap_err_def)

lemma check_request_Ok:
  assumes "check_authorization_request client ps = Ok ()"
  shows "param ps ''response_type'' = Some ''code''" "truthy_text (param ps ''state'')" "truthy_text (param ps ''nonce'')"
    "assert_supported_method (param ps ''code_challenge_method'') = Ok ()" "assert_valid_challenge (param ps ''code_challenge'') = Ok ()"
    "\<exists>scopes. granted_scopes client (param ps ''scope'') = Ok scopes" "oc_require_par client \<Longrightarrow> map_of ps ''pushed'' = Some (PBool True)"
  using assms by (auto simp: check_authorization_request_def rbind_eq_Ok split: if_splits)

lemma granted_scopes_refusal: "granted_scopes client x = Err e \<Longrightarrow> e = ClientRefused (OAuthError INVALID_SCOPE R_SCOPE_NOT_PERMITTED)"
  by (auto simp: granted_scopes_def Let_def split: if_splits)

lemma assert_valid_challenge_refusal: "assert_valid_challenge c = Err e \<Longrightarrow> e = OAuthError INVALID_REQUEST R_PKCE_REQUIRED"
  by (auto simp: assert_valid_challenge_def split: option.splits if_splits)

lemma check_request_refusal:
  assumes "check_authorization_request client ps = Err e"
  shows "\<exists>x. e = Refused x \<and> may_be_redirected x"
  using assms
  by (auto simp: check_authorization_request_def rbind_eq_Err rmap_err_Err_iff assert_supported_method_def may_be_redirected_def
    NEVER_REDIRECTED_def of_client_def dest!: granted_scopes_refusal assert_valid_challenge_refusal split: if_splits)

lemma authorize_client_Ok:
  assumes "authorize_client app ps = Ok (client, destination)"
  shows "require_client (oa_ip app) (param ps ''client_id'') (oa_clients app) = Ok client"
    "validated_redirect_uri (oa_ip app) client (param ps ''redirect_uri'') = Ok destination"
  using assms by (auto simp: authorize_client_def rbind_eq_Ok)

lemma authorize_with_RedirectTo:
  assumes "authorize_with app rq correlation ps s = (RedirectTo d query, s')"
  obtains client where "authorize_client app ps = Ok (client, d)"
    "\<And>code. map_of query ''code'' = Some code \<Longrightarrow> check_authorization_request client ps = Ok () \<and>
       (\<exists>x s1. current_session app rq s = (Ok (Some x), s1) \<and> issue_code_for app rq correlation client ps x s1 = (Ok code, s'))"
proof -
  obtain client d' where c: "authorize_client app ps = Ok (client, d')"
    using assms by (auto simp: authorize_with_def split: sum.splits flow_error.splits)
  show thesis
  proof (cases "check_authorization_request client ps")
    case (Inl e)
    then show ?thesis using assms c check_request_refusal[OF Inl] that[of client]
      by (auto simp: authorize_with_def error_redirect_def split: if_splits)
  next
    case (Inr u)
    then obtain x s1 code where x: "current_session app rq s = (Ok (Some x), s1)" "issue_code_for app rq correlation client ps x s1 = (Ok code, s')"
        "d = d'" "query = [(''code'', code), (''state'', the (param ps ''state'')), (''iss'', oa_issuer app)]"
      using assms c by (auto simp: authorize_with_def start_login_def split: prod.splits sum.splits option.splits)
    then show ?thesis using that[of client] c Inr by auto
  qed
qed

section \<open>Properties of the flows\<close>

lemma issue_code_for_Ok:
  assumes "issue_code_for app rq correlation client ps x s = (Ok code, s')"
  obtains scopes i where "granted_scopes client (param ps ''scope'') = Ok scopes" "release_of app client x scopes = Some i" "code = rq_random rq 0"
    "os_redis s' = client_session_record (oa_redis app) (rq_at rq 3) (rq_at rq 4) (se_sid x) (oc_client_id client)
       (snd (issue_code (oa_grants app) (rq_at rq 2) code (code_grant rq client ps x scopes (ri_subject i)) (os_redis s)))"
  using assms by (auto simp: issue_code_for_def issue_code_def Let_def split: sum.splits option.splits)


lemma redeem_code_Ok:
  assumes "redeem_code G t t' code client_id uri s = (Ok g, s')"
  shows "redeem_lookup G t code s = Ok g" "ac_client_id g = client_id" "ac_redirect_uri g = uri"
    "fst (r_set_nx (g_redis G) t' (code_spent_key (g_digest G code)) (PStr ''1'') (seconds (g_code_ttl G)) s)"
    "s' = snd (r_set_nx (g_redis G) t' (code_spent_key (g_digest G code)) (PStr ''1'') (seconds (g_code_ttl G)) s)"
  using assms by (auto simp: redeem_code_def redeem_spend_def split: sum.splits if_splits prod.splits)

lemma pkce_verify_Ok: "pkce_verify sha v challenge = Ok () \<Longrightarrow> \<exists>w. v = Some w \<and> compute_challenge sha w = challenge"
  by (cases v) (auto simp: pkce_verify_def Let_def split: if_splits)

text \<open>C3. A code turns into tokens only in the hands it was issued to.  A success of the token endpoint for the code grant means: the
  client authenticated itself, the code was stored, for that client and for exactly the redirect URI presented, its spent marker was
  set just now for the first time, and the verifier hashes to the challenge of the authorization request; and the tokens say what was
  stored with the code.\<close>

theorem code_exchange_sound:
  assumes "token_grant app rq f s = (Ok body, s')" and "tf_grant_type f = ''authorization_code''"
  shows "\<exists>client g code v claims. authenticated_client app rq (tf_client_id f) (tf_client_secret f) = Ok client \<and>
    tf_code f = Some code \<and> redeem_lookup (oa_grants app) (rq_at rq 1) code (os_redis s) = Ok g \<and>
    ac_client_id g = oc_client_id client \<and> ac_redirect_uri g = (case tf_redirect_uri f of None \<Rightarrow> [] | Some u \<Rightarrow> u) \<and>
    fst (r_set_nx (g_redis (oa_grants app)) (rq_at rq 2) (code_spent_key (g_digest (oa_grants app) code)) (PStr ''1'')
      (seconds (g_code_ttl (oa_grants app))) (os_redis s)) \<and>
    tf_code_verifier f = Some v \<and> compute_challenge (oa_sha app) v = ac_code_challenge g \<and>
    body = token_response app rq (grant_context app client g (rq_clock rq 0) claims) (rq_clock rq 0) (rq_random rq 0) True"
proof -
  obtain client where c: "authenticated_client app rq (tf_client_id f) (tf_client_secret f) = Ok client"
      "exchange_code app rq client (tf_code f) (tf_redirect_uri f) (tf_code_verifier f) s = (Ok body, s')"
    using assms by (auto simp: token_grant_def split: sum.splits)
  obtain code where code: "tf_code f = Some code" using c(2) by (cases "tf_code f") (auto simp: exchange_code_def truthy_text_def)
  let ?uri = "case tf_redirect_uri f of None \<Rightarrow> [] | Some u \<Rightarrow> u"
  obtain g r where g: "redeem_code (oa_grants app) (rq_at rq 1) (rq_at rq 2) code (oc_client_id client) ?uri (os_redis s) = (Ok g, r)"
    using c(2) code by (auto simp: exchange_code_def split: if_splits prod.splits sum.splits)
  have p: "pkce_verify (oa_sha app) (tf_code_verifier f) (ac_code_challenge g) = Ok ()"
    using c(2) code g by (auto simp: exchange_code_def split: if_splits sum.splits)
  obtain claims s1 where cl: "claims_of_grant app rq client g (s\<lparr>os_redis := r\<rparr>) = (Ok claims, s1)"
    using c(2) code g p by (auto simp: exchange_code_def split: if_splits prod.splits sum.splits)
  have "body = token_response app rq (grant_context app client g (rq_clock rq 0) claims) (rq_clock rq 0) (rq_random rq 0) True"
    using c(2) code g p cl by (auto simp: exchange_code_def issue_refresh_token_def Let_def split: if_splits)
  then show ?thesis using c(1) code redeem_code_Ok[OF g] pkce_verify_Ok[OF p] by blast
qed

lemma bearer_of_Ok: "bearer_of app rq token r = Ok claims \<Longrightarrow>
    \<exists>family. map_of claims ''fid'' = Some (PStr family) \<and> \<not> is_family_revoked (oa_grants app) (rq_at rq 0) family r"
  by (auto simp: bearer_of_def bearer_verify_def split: option.splits if_splits sum.splits pyval.splits)

lemma revoke_token_own:
  assumes "authenticated_client app rq client_id secret = Ok client" "bearer_of app rq token (os_redis s) = Ok claims"
    "claim_text (oa_reprs app) claims ''client_id'' = Some (oc_client_id client)" "map_of claims ''fid'' = Some (PStr family)"
  shows "fst (revoke_token app rq token hint client_id secret s) = EmptyReply 200"
    "os_redis (snd (revoke_token app rq token hint client_id secret s)) = revoke_family (oa_grants app) (rq_at rq 2) family (os_redis s)"
  using assms by (simp_all add: revoke_token_def family_of_def claim_text_def)

context grants_on_redis
begin

lemma revoked_for_its_lifetime:
  "t \<le> t' \<Longrightarrow> t' < t + 1000 * seconds (g_refresh_ttl G) \<Longrightarrow> is_family_revoked G t' f (revoke_family G t f s)"
  by (simp add: is_family_revoked_def exists later[of t t'] revoke_family_view unexpired_def alive_def deadline_def)

end

text \<open>C39. Revocation takes effect at once.  A client that revokes an access token of its own is told so, and from then on, for as long as
  a refresh token can live, no access token of that family is accepted, the revoked one and those minted beside it alike.\<close>

theorem revocation_takes_effect:
  assumes "grants_on_redis (oa_grants app) visible" and "authenticated_client app rq client_id secret = Ok client"
    and "bearer_of app rq token (os_redis s) = Ok claims" and "claim_text (oa_reprs app) claims ''client_id'' = Some (oc_client_id client)"
    and "revoke_token app rq token hint client_id secret s = (response, s')"
    and "rq_at rq 2 \<le> rq_at rq' 0" and "rq_at rq' 0 < rq_at rq 2 + 1000 * seconds (g_refresh_ttl (oa_grants app))"
  shows "response = EmptyReply 200 \<and> (bearer_of app rq' other (os_redis s') = Ok claims' \<longrightarrow> map_of claims' ''fid'' \<noteq> map_of claims ''fid'')"
proof -
  obtain f where f: "map_of claims ''fid'' = Some (PStr f)" using bearer_of_Ok[OF assms(3)] by blast
  note own = revoke_token_own[OF assms(2,3,4) f, of hint]
  have "is_family_revoked (oa_grants app) (rq_at rq' 0) f (os_redis s')"
    using grants_on_redis.revoked_for_its_lifetime[OF assms(1) assms(6,7)] own(2) assms(5) by simp
  then show ?thesis using own(1) assms(5) f bearer_of_Ok[of app rq' other "os_redis s'" claims'] by auto
qed

text \<open>C37. One machine's revocation is every machine's.  Tokens of the client-credentials grant all carry the empty family, so when a
  client revokes its own such token, the token of any other client is refused as revoked, for the fourteen days of a refresh
  token; and every token the grant hands out in that time is refused too.\<close>

theorem machine_revocation_spreads:
  assumes "grants_on_redis (oa_grants app) visible" and "authenticated_client app rq client_id secret = Ok a"
    and "bearer_of app rq ta (os_redis s) = Ok (access_token_claims (machine_context app a ga na) ja na ACCESS_TOKEN_TTL)"
    and "rq_at rq 2 \<le> rq_at rq' 0" and "rq_at rq' 0 < rq_at rq 2 + 1000 * seconds (g_refresh_ttl (oa_grants app))"
  shows "bearer_of app rq' tb (os_redis (snd (revoke_token app rq ta hint client_id secret s))) \<noteq>
    Ok (access_token_claims (machine_context app b gb nb) jb nb ACCESS_TOKEN_TTL)"
proof -
  let ?claims = "access_token_claims (machine_context app a ga na) ja na ACCESS_TOKEN_TTL"
  have "claim_text (oa_reprs app) ?claims ''client_id'' = Some (oc_client_id a)" "map_of ?claims ''fid'' = Some (PStr [])"
    by (simp_all add: claim_text_def access_token_claims_def machine_context_def optional_claims_def)
  note own = revoke_token_own[OF assms(2,3) this, of hint]
  have "is_family_revoked (oa_grants app) (rq_at rq' 0) [] (os_redis (snd (revoke_token app rq ta hint client_id secret s)))"
    using grants_on_redis.revoked_for_its_lifetime[OF assms(1) assms(4,5)] own(2) by simp
  moreover have "map_of (access_token_claims (machine_context app b gb nb) jb nb ACCESS_TOKEN_TTL) ''fid'' = Some (PStr [])"
    by (simp add: access_claims_get machine_context_def)
  ultimately show ?thesis using bearer_of_Ok by fastforce
qed

text \<open>Introspection tells a client about its own live tokens and nothing else.  An active answer means: the client authenticated
  itself, the token was minted as an access token by a key that verifies, for that client, it is within a minute of its expiry
  and its family is not revoked, and the subject reported is the one it was minted for.\<close>

theorem introspection_sound:
  assumes "introspect app rq token client_id secret s = JsonReply 200 body" and "map_of body ''active'' = Some (PBool True)"
    and "only_minted (oa_lib app) (verification_keys (oa_lib app) (oa_keys app)) minted"
    and "\<And>kid c ty. (kid, c, ty) \<in> minted \<Longrightarrow> reads_back (oa_lib app) c \<and> reads_back (oa_lib app) (jwt_header kid ty)"
  shows "\<exists>client kid claims family e. authenticated_client app rq client_id secret = Ok client \<and> (kid, claims, TYPE_AT_JWT) \<in> minted \<and>
    claim_text (oa_reprs app) claims ''client_id'' = Some (oc_client_id client) \<and> map_of body ''sub'' = map_of claims ''sub'' \<and>
    number_claim (map_of claims ''exp'') = Some e \<and> \<not> reached (rq_clock rq 0) e 60 \<and>
    map_of claims ''fid'' = Some (PStr family) \<and> \<not> is_family_revoked (oa_grants app) (rq_at rq 0) family (os_redis s)"
proof -
  obtain client where c: "authenticated_client app rq client_id secret = Ok client"
    using assms(1,2) by (auto simp: introspect_def token_error_def split: sum.splits flow_error.splits)
  obtain claims where cl: "bearer_of app rq token (os_redis s) = Ok claims"
    using assms(1,2) c by (auto simp: introspect_def inactive_def split: sum.splits)
  have own: "claim_text (oa_reprs app) claims ''client_id'' = Some (oc_client_id client)" "introspection_body claims = Some body"
    using assms(1,2) c cl by (auto simp: introspect_def inactive_def split: option.splits if_splits)
  have "map_of body ''sub'' = map_of claims ''sub''"
    using own(2) by (auto simp: introspection_body_def INTROSPECTED_def dict_get_def split: if_splits)
  then show ?thesis using c own(1) bearer_accepted[OF cl[unfolded bearer_of_def] assms(3,4)] by blast
qed

context redis_server
begin

lemma client_session_record_other:
  assumes "k \<noteq> CLIENT_SESSION_PREFIX @ sid" "t3 \<le> t4"
  shows "visible t4 (client_session_record R t3 t4 sid c s) k = unexpired t4 (visible t3 s) k"
proof -
  have "0 < at_least_one CLIENT_SESSION_TTL" by simp
  then show ?thesis using assms by (simp add: client_session_record_def expire later[of t3 t4] sadd unexpired_def)
qed

end

lemma unexpired_at_iff: "unexpired t m k = Some e \<longleftrightarrow> m k = Some e \<and> alive t e"
  by (auto simp: unexpired_def split: option.splits)

lemma code_keys_apart:
  "code_record_key d \<noteq> session_key sid" "code_spent_key d \<noteq> session_key sid" "code_record_key d \<noteq> CLIENT_SESSION_PREFIX @ sid"
  "code_spent_key d \<noteq> CLIENT_SESSION_PREFIX @ sid"
  by (simp_all add: grant_prefixes CLIENT_SESSION_PREFIX_def)

context grants_on_redis
begin

lemma spent_not_record: "code_spent_key (g_digest G code) \<noteq> code_record_key (g_digest G code')"
  using digest_length[of code] digest_length[of code'] by (auto simp: grant_prefixes dest!: arg_cong[where f = length])

text \<open>A code that was issued is redeemed by the client it was issued to, at the URI it was issued for, while it lives.\<close>

lemma issued_code_found:
  assumes "t2 \<le> t3" "t3 \<le> t4" "t4 \<le> u1" "u1 \<le> u2" "u2 < t2 + 1000 * seconds (g_code_ttl G)"
    and "visible t2 s (code_spent_key (g_digest G code)) = None"
    and s': "s' = client_session_record (g_redis G) t3 t4 sid c (snd (issue_code G t2 code g s))"
  shows "fst (redeem_code G u1 u2 code (ac_client_id g) (ac_redirect_uri g) s') = Ok g"
proof -
  let ?i = "snd (issue_code G t2 code g s)"
  have v: "visible u s' k = unexpired u (unexpired t4 (unexpired t3 (visible t2 ?i))) k" if "k \<noteq> CLIENT_SESSION_PREFIX @ sid" "t4 \<le> u" for u k
    using client_session_record_other[OF that(1) assms(2), of c ?i] later[OF that(2), of s'] later[OF assms(1), of ?i]
    by (simp add: s' unexpired_def)
  have rec: "visible u1 s' (code_record_key (g_digest G code)) = Some (RVal (code_to_json g), deadline t2 (seconds (g_code_ttl G)))"
    using v[OF code_keys_apart(3) assms(3)] issue_code_view[OF code_keys_apart(1)] assms(1-5)
    by (simp add: unexpired_at_iff alive_def deadline_def)
  have "visible u2 s' (code_spent_key (g_digest G code)) = None"
    using v[OF code_keys_apart(4)] issue_code_view[OF code_keys_apart(2)] spent_not_record assms(3,4,6) by (simp add: unexpired_def)
  then have "fst (r_set_nx (g_redis G) u2 (code_spent_key (g_digest G code)) (PStr ''1'') (seconds (g_code_ttl G)) s')"
    by (simp add: set_nx)
  then show ?thesis by (auto simp: redeem_code_def redeem_lookup_def get rec text_of_def redeem_spend_def split: prod.split)
qed

end

lemma release_of_total: "oa_salt app \<noteq> [] \<Longrightarrow> \<exists>i. release_of app client x scopes = Some i"
  by (auto simp: release_of_def release_to_def Let_def subject_identifier_def pairwise_id_def split: prod.split)

text \<open>C33. A client that keeps to the protocol gets its tokens.  A code the authorization endpoint issued, presented within its minute by the
  client it was issued to, with the redirect URI of the request and a verifier that passes, is exchanged: the answer holds tokens for
  the subject, session, scopes and family stored with the code.\<close>

theorem issued_code_redeemable:
  assumes "grants_on_redis (oa_grants app) visible" and "oa_redis app = g_redis (oa_grants app)" and "oa_salt app \<noteq> []"
    and issued: "issue_code_for app rq corr client ps x s = (Ok code, s')"
    and times: "rq_at rq 2 \<le> rq_at rq 3" "rq_at rq 3 \<le> rq_at rq 4" "rq_at rq 4 \<le> rq_at rq' 1" "rq_at rq' 1 \<le> rq_at rq' 2"
      "rq_at rq' 2 < rq_at rq 2 + 1000 * seconds (g_code_ttl (oa_grants app))"
    and fresh: "visible (rq_at rq 2) (os_redis s) (code_spent_key (g_digest (oa_grants app) code)) = None"
    and form: "tf_grant_type f = ''authorization_code''" "tf_code f = Some code" "code \<noteq> []" "tf_redirect_uri f = Some u" "param ps ''redirect_uri'' = Some u"
    and auth: "authenticated_client app rq' (tf_client_id f) (tf_client_secret f) = Ok client"
    and verifier: "pkce_verify (oa_sha app) (tf_code_verifier f) (the (param ps ''code_challenge'')) = Ok ()"
    and readable: "fst (load_session app (rq_at rq' 3) (rq_clock rq' 1) (se_sid x)
      (s'\<lparr>os_redis := snd (redeem_code (oa_grants app) (rq_at rq' 1) (rq_at rq' 2) code (oc_client_id client) u (os_redis s'))\<rparr>)) = Ok y"
  shows "\<exists>scopes i claims. granted_scopes client (param ps ''scope'') = Ok scopes \<and> release_of app client x scopes = Some i \<and>
    fst (token_grant app rq' f s') = Ok (token_response app rq'
      (grant_context app client (code_grant rq client ps x scopes (ri_subject i)) (rq_clock rq' 0) claims) (rq_clock rq' 0) (rq_random rq' 0) True)"
proof -
  obtain scopes i where sc: "granted_scopes client (param ps ''scope'') = Ok scopes" "release_of app client x scopes = Some i"
    and r: "os_redis s' = client_session_record (oa_redis app) (rq_at rq 3) (rq_at rq 4) (se_sid x) (oc_client_id client)
       (snd (issue_code (oa_grants app) (rq_at rq 2) code (code_grant rq client ps x scopes (ri_subject i)) (os_redis s)))"
    using issue_code_for_Ok[OF issued] by metis
  let ?g = "code_grant rq client ps x scopes (ri_subject i)"
  have g: "ac_client_id ?g = oc_client_id client" "ac_redirect_uri ?g = u" "ac_sid ?g = se_sid x" "ac_code_challenge ?g = the (param ps ''code_challenge'')"
    using form(5) by (simp_all add: code_grant_def)
  obtain r1 where redeem: "redeem_code (oa_grants app) (rq_at rq' 1) (rq_at rq' 2) code (oc_client_id client) u (os_redis s') = (Ok ?g, r1)"
    using grants_on_redis.issued_code_found[OF assms(1) times fresh r[unfolded assms(2)]] g by (metis prod.collapse)
  obtain s1 where load: "load_session app (rq_at rq' 3) (rq_clock rq' 1) (se_sid x) (s'\<lparr>os_redis := r1\<rparr>) = (Ok y, s1)"
    using readable redeem by (metis prod.collapse snd_conv)
  obtain claims s2 where cl: "claims_of_grant app rq' client ?g (s'\<lparr>os_redis := r1\<rparr>) = (Ok claims, s2)"
  proof (cases y)
    case None
    then show ?thesis using that load by (simp add: claims_of_grant_def g(3))
  next
    case (Some z)
    obtain j where "release_of app client z (set (ac_scopes ?g)) = Some j" using release_of_total[OF assms(3)] by blast
    then show ?thesis using that load Some by (simp add: claims_of_grant_def g(3))
  qed
  have "fst (token_grant app rq' f s') = Ok (token_response app rq' (grant_context app client ?g (rq_clock rq' 0) claims) (rq_clock rq' 0) (rq_random rq' 0) True)"
    using form auth redeem verifier cl g(4) by (simp add: token_grant_def exchange_code_def truthy_text_def issue_refresh_token_def Let_def)
  then show ?thesis using sc by blast
qed

section \<open>Witnesses\<close>

definition sample_native :: oidc_client where
  "sample_native = sample_client NATIVE [''http://127.0.0.1/cb'']"

definition sample_app :: "(byte, byte, keyspace) oauth_app" where
  "sample_app = \<lparr>oa_grants = sample_grants, oa_sessions = sample_sessions, oa_redis = mem_redis, oa_throttle = sample_throttle,
     oa_keys = sample_key_set, oa_lib = sample_jwt_lib, oa_issuer = ''https://id'', oa_salt = [1], oa_scope = ''u.edu'',
     oa_hash_secret = id, oa_sha = (\<lambda>_. replicate 32 0), oa_hmac = (\<lambda>_ _. replicate 32 0), oa_fullmatch = (\<lambda>_ _. True), oa_ip = (\<lambda>_. True),
     oa_reprs = (\<lambda>_. []), oa_clients = [to_client_row sample_native], oa_policies = []\<rparr>"

definition sample_oauth_request :: "nat \<Rightarrow> oauth_request" where
  "sample_oauth_request t = \<lparr>rq_at = (\<lambda>n. t + n), rq_clock = (\<lambda>_. 2000000), rq_random = (\<lambda>_. ''x''), rq_basic = None, rq_cookie = Some ''s1'',
     rq_address = None, rq_throttle_up = (\<lambda>_. True), rq_moment = 0, rq_correlation = ''c''\<rparr>"

definition sample_query :: authorize_query where
  "sample_query = \<lparr>aq_client_id = Some ''rp'', aq_redirect_uri = Some ''http://127.0.0.1/cb'', aq_response_type = Some ''code'',
     aq_scope = Some ''openid'', aq_state = Some ''st'', aq_nonce = Some ''n'', aq_code_challenge = Some (replicate 43 (CHR ''A'')),
     aq_code_challenge_method = Some ''S256'', aq_request_uri = None, aq_pending = None\<rparr>"

definition sample_form :: token_form where
  "sample_form = \<lparr>tf_grant_type = ''authorization_code'', tf_code = Some ''x'', tf_redirect_uri = Some ''http://127.0.0.1/cb'',
     tf_code_verifier = Some (replicate 43 (CHR ''a'')), tf_refresh_token = None, tf_scope = None, tf_client_id = Some ''rp'', tf_client_secret = None\<rparr>"

lemma sample_app_fields [simp]:
  "oa_grants sample_app = sample_grants" "oa_sessions sample_app = sample_sessions" "oa_redis sample_app = mem_redis" "oa_keys sample_app = sample_key_set"
  "oa_lib sample_app = sample_jwt_lib" "oa_issuer sample_app = ''https://id''" "oa_salt sample_app = [1]" "oa_sha sample_app = (\<lambda>_. replicate 32 0)"
  "oa_ip sample_app = (\<lambda>_. True)" "oa_reprs sample_app = (\<lambda>_. [])" "oa_clients sample_app = [to_client_row sample_native]"
  by (simp_all add: sample_app_def)

lemma sample_oauth_request_fields [simp]:
  "rq_at (sample_oauth_request t) = (\<lambda>n. t + n)" "rq_clock (sample_oauth_request t) = (\<lambda>_. 2000000)" "rq_random (sample_oauth_request t) = (\<lambda>_. ''x'')" "rq_basic (sample_oauth_request t) = None"
  "rq_cookie (sample_oauth_request t) = Some ''s1''"
  by (simp_all add: sample_oauth_request_def)

lemma sample_native_fields [simp]: "oc_client_id sample_native = ''rp''" "oc_client_type sample_native = NATIVE" "oc_require_par sample_native = False"
  by (simp_all add: sample_native_def sample_client_def)

lemma sample_require: "require_client (\<lambda>_. True) (Some ''rp'') [to_client_row sample_native] = Ok sample_native"
proof -
  have "from_client_row (\<lambda>_. True) (to_client_row sample_native) = Ok sample_native"
    using sample_registered[of "\<lambda>_. True"] by (intro from_row_new) (simp_all add: sample_native_def sample_client_def SUPPORTED_SCOPES_def scope_names)
  moreover have "cr_client_id (to_client_row sample_native) = ''rp''" "cr_enabled (to_client_row sample_native)" by (simp_all add: to_client_row_def)
  ultimately show ?thesis by (simp add: require_client_def get_client_def truthy_text_def Let_def)
qed

lemma sample_authenticated_by:
  "oa_ip app = (\<lambda>_. True) \<Longrightarrow> oa_clients app = [to_client_row sample_native] \<Longrightarrow>
     authenticated_client app (sample_oauth_request t) (Some ''rp'') None = Ok sample_native"
  using sample_require by (simp add: authenticated_client_def presented_def truthy_text_def rmap_err_def)

lemma sample_authenticated: "authenticated_client sample_app (sample_oauth_request t) (Some ''rp'') None = Ok sample_native"
  by (rule sample_authenticated_by) simp_all

lemma sample_params [simp]:
  "param (query_parameters sample_query) ''client_id'' = Some ''rp''" "param (query_parameters sample_query) ''redirect_uri'' = Some ''http://127.0.0.1/cb''"
  "param (query_parameters sample_query) ''response_type'' = Some ''code''" "param (query_parameters sample_query) ''scope'' = Some ''openid''"
  "param (query_parameters sample_query) ''state'' = Some ''st''" "param (query_parameters sample_query) ''nonce'' = Some ''n''"
  "param (query_parameters sample_query) ''code_challenge'' = Some (replicate 43 (CHR ''A''))"
  "param (query_parameters sample_query) ''code_challenge_method'' = Some ''S256''"
  by (simp_all add: query_parameters_def sample_query_def param_def opt_str_def)

lemma sample_scopes: "granted_scopes sample_native (Some ''openid'') = Ok {''openid''}"
  by (auto simp: granted_scopes_def asked_scopes_def py_split_def Let_def scope_names MACHINE_SCOPES_def sample_native_def sample_client_def py_is_space_def)

lemma sample_check: "check_authorization_request sample_native (query_parameters sample_query) = Ok ()"
  using sample_scopes
  by (simp add: check_authorization_request_def truthy_text_def assert_supported_method_def S256_def assert_valid_challenge_def MIN_VERIFIER_LENGTH_def
    verifier_charset_def last_replicate list_all_iff unreserved_def is_ascii_alpha_def rmap_err_def)

lemma sample_authorize_client: "authorize_client sample_app (query_parameters sample_query) = Ok (sample_native, ''http://127.0.0.1/cb'')"
  using sample_require by (simp add: authorize_client_def validated_redirect_uri_def rmap_err_def sample_native_def sample_client_def Let_def)

lemma sample_code_issue: "\<exists>s'. issue_code_for sample_app (sample_oauth_request t) corr sample_native (query_parameters sample_query) x s = (Ok ''x'', s')"
  using sample_scopes release_of_total[of sample_app sample_native x "{''openid''}"] by (auto simp: issue_code_for_def issue_code_def Let_def)

definition sample_state :: "keyspace oauth_state" where
  "sample_state = \<lparr>os_redis = sample_session_keys, os_impersonator = None, os_trail = []\<rparr>"

lemma sample_current: "\<exists>x s1. current_session sample_app (sample_oauth_request 0) sample_state = (Ok (Some x), s1)"
proof -
  have "load_read sample_sessions 1 ''s1'' sample_session_keys = Ok (Some sample_session)"
    by (simp add: load_read_def session_eval sample_session_keys_def unexpired_def alive_def)
  then show ?thesis
    by (simp add: current_session_def truthy_text_def load_session_def session_load_def sample_state_def timed_out_def load_touch_def Let_def
      IDLE_TIMEOUT_def rmap_err_def)
qed

lemma sample_authorize: "\<exists>s'. authorize sample_app (sample_oauth_request 0) sample_query sample_state =
    (RedirectTo ''http://127.0.0.1/cb'' [(''code'', ''x''), (''state'', ''st''), (''iss'', ''https://id'')], s')"
proof -
  obtain x s1 where x: "current_session sample_app (sample_oauth_request 0) sample_state = (Ok (Some x), s1)" using sample_current by blast
  obtain s' where s': "issue_code_for sample_app (sample_oauth_request 0) (rq_correlation (sample_oauth_request 0)) sample_native (query_parameters sample_query) x s1 = (Ok ''x'', s')"
    using sample_code_issue by blast
  have "authorize_parameters sample_app (sample_oauth_request 0) sample_query sample_state = (Taken (Some (query_parameters sample_query)), sample_state)"
    by (simp add: authorize_parameters_def sample_query_def)
  moreover have "aq_pending sample_query = None" "aq_request_uri sample_query = None" by (simp_all add: sample_query_def)
  ultimately show ?thesis using x s' sample_check sample_authorize_client by (simp add: authorize_def authorize_with_def)
qed


text \<open>A code issued on an empty server at time 0 and exchanged a tenth of a second later.\<close>

definition sample_empty :: "keyspace oauth_state" where
  "sample_empty = \<lparr>os_redis = (\<lambda>k. None), os_impersonator = None, os_trail = []\<rparr>"

lemma sample_unread:
  assumes "os_redis s' = client_session_record mem_redis 3 4 ''s1'' ''rp'' (snd (issue_code sample_grants 2 ''x'' g (\<lambda>k. None)))"
  shows "fst (load_session sample_app 103 2000000 ''s1'' (s'\<lparr>os_redis := snd (redeem_code sample_grants 101 102 ''x'' c u (os_redis s'))\<rparr>)) = Ok None"
proof -
  let ?k = "''session:s1''"
  note apart = grant_prefixes CLIENT_SESSION_PREFIX_def
  have "os_redis s' ?k = None"
    by (simp add: assms client_session_record_def issue_code_def mem_redis_ops Let_def apart)
  then have "snd (redeem_code sample_grants 101 102 ''x'' c u (os_redis s')) ?k = None"
    by (auto simp: redeem_code_def redeem_spend_def revoke_family_def mem_redis_ops Let_def apart split: sum.split)
  then show ?thesis
    by (simp add: load_session_def session_load_def load_read_def mem_redis_ops store_key_def SESSION_KEY_PREFIX_def unexpired_def text_of_def rmap_err_def)
qed

lemma sample_pkce: "pkce_verify (oa_sha sample_app) (Some (replicate 43 (CHR ''a''))) (replicate 43 (CHR ''A'')) = Ok ()"
proof -
  have "b64url (replicate 32 0) = replicate 43 (CHR ''A'')" by code_simp
  then show ?thesis
    by (simp add: pkce_verify_def MIN_VERIFIER_LENGTH_def MAX_VERIFIER_LENGTH_def compute_challenge_def verifier_charset_def last_replicate list_all_iff
      unreserved_def is_ascii_alpha_def)
qed

lemma sample_issued:
  obtains s' g where "issue_code_for sample_app (sample_oauth_request 0) ''c'' sample_native (query_parameters sample_query) sample_session sample_empty = (Ok ''x'', s')"
    "os_redis s' = client_session_record mem_redis 3 4 ''s1'' ''rp'' (snd (issue_code sample_grants 2 ''x'' g (\<lambda>k. None)))"
proof -
  obtain s' where i: "issue_code_for sample_app (sample_oauth_request 0) ''c'' sample_native (query_parameters sample_query) sample_session sample_empty = (Ok ''x'', s')"
    using sample_code_issue by blast
  then show ?thesis using that by (rule issue_code_for_Ok) (use i in \<open>auto simp: sample_empty_def\<close>)
qed

theorem issued_code_redeemable_witness:
  "\<exists>s' body. issue_code_for sample_app (sample_oauth_request 0) ''c'' sample_native (query_parameters sample_query) sample_session sample_empty = (Ok ''x'', s') \<and>
     fst (token_grant sample_app (sample_oauth_request 100) sample_form s') = Ok body"
proof -
  obtain s' g where i: "issue_code_for sample_app (sample_oauth_request 0) ''c'' sample_native (query_parameters sample_query) sample_session sample_empty = (Ok ''x'', s')"
    and r: "os_redis s' = client_session_record mem_redis 3 4 ''s1'' ''rp'' (snd (issue_code sample_grants 2 ''x'' g (\<lambda>k. None)))"
    by (rule sample_issued)
  have laws: "grants_on_redis (oa_grants sample_app) unexpired" using mem_grants.grants_on_redis_axioms by simp
  have "\<exists>scopes i claims. granted_scopes sample_native (param (query_parameters sample_query) ''scope'') = Ok scopes \<and> release_of sample_app sample_native sample_session scopes = Some i \<and>
    fst (token_grant sample_app (sample_oauth_request 100) sample_form s') = Ok (token_response sample_app (sample_oauth_request 100)
      (grant_context sample_app sample_native (code_grant (sample_oauth_request 0) sample_native (query_parameters sample_query) sample_session scopes (ri_subject i)) (rq_clock (sample_oauth_request 100) 0) claims)
      (rq_clock (sample_oauth_request 100) 0) (rq_random (sample_oauth_request 100) 0) True)"
    using sample_authenticated[of 100] sample_pkce sample_unread[OF r] unfolding sample_form_def
    by (intro issued_code_redeemable[OF laws _ _ i, where u = "''http://127.0.0.1/cb''" and y = None])
      (simp_all add: sample_empty_def unexpired_def)
  then show ?thesis using i by blast
qed

definition sample_stored :: authorization_code where
  "sample_stored = sample_code\<lparr>ac_redirect_uri := ''http://127.0.0.1/cb'', ac_code_challenge := replicate 43 (CHR ''A'')\<rparr>"

lemma sample_exchange:
  "\<exists>body s'. token_grant sample_app (sample_oauth_request 0) sample_form
     \<lparr>os_redis = [code_record_key (sample_digest ''x'') \<mapsto> (RVal (code_to_json sample_stored), Some 60000)], os_impersonator = None, os_trail = []\<rparr> = (Ok body, s')"
proof -
  let ?m = "[code_record_key (sample_digest ''x'') \<mapsto> (RVal (code_to_json sample_stored), Some 60000)]"
  let ?m1 = "?m(code_spent_key (sample_digest ''x'') \<mapsto> (RVal (PStr ''1''), Some 60002))"
  have apart: "code_record_key (sample_digest ''x'') \<noteq> code_spent_key (sample_digest ''x'')" using mem_grants.spent_not_record[of "''x''" "''x''"] by simp
  have g: "ac_client_id sample_stored = ''rp''" "ac_redirect_uri sample_stored = ''http://127.0.0.1/cb''" "ac_sid sample_stored = ''s1''"
      "ac_code_challenge sample_stored = replicate 43 (CHR ''A'')"
    by (simp_all add: sample_stored_def)
  have redeem: "redeem_code sample_grants 1 2 ''x'' ''rp'' ''http://127.0.0.1/cb'' ?m = (Ok sample_stored, ?m1)"
    using apart by (simp add: redeem_code_def redeem_lookup_def redeem_spend_def mem_redis_ops unexpired_def alive_def text_of_def deadline_def g Let_def)
  let ?s = "\<lambda>m. \<lparr>os_redis = m, os_impersonator = None, os_trail = []\<rparr> :: keyspace oauth_state"
  have load: "load_session sample_app 3 2000000 ''s1'' (?s ?m1) = (Ok None, ?s ?m1)"
    by (simp add: load_session_def session_load_def load_read_def mem_redis_ops store_key_def SESSION_KEY_PREFIX_def unexpired_def text_of_def
      rmap_err_def grant_prefixes)
  then have "claims_of_grant sample_app (sample_oauth_request 0) sample_native sample_stored (?s ?m1) = (Ok [], ?s ?m1)"
    by (simp add: claims_of_grant_def g)
  then show ?thesis using sample_authenticated[of 0] sample_pkce redeem
    by (simp add: token_grant_def sample_form_def exchange_code_def truthy_text_def g Let_def issue_refresh_token_def)
qed

theorem code_exchange_sound_witness:
  "\<exists>client code v (g :: authorization_code). authenticated_client sample_app (sample_oauth_request 0) (tf_client_id sample_form) (tf_client_secret sample_form) = Ok client \<and>
     tf_code sample_form = Some code \<and> tf_code_verifier sample_form = Some v \<and> compute_challenge (oa_sha sample_app) v = ac_code_challenge g"
proof -
  obtain body s' where "token_grant sample_app (sample_oauth_request 0) sample_form
     \<lparr>os_redis = [code_record_key (sample_digest ''x'') \<mapsto> (RVal (code_to_json sample_stored), Some 60000)], os_impersonator = None, os_trail = []\<rparr> = (Ok body, s')"
    using sample_exchange by blast
  moreover have "tf_grant_type sample_form = ''authorization_code''" by (simp add: sample_form_def)
  note code_exchange_sound[OF calculation this]
  then show ?thesis by blast
qed

definition sample_access :: string where
  "sample_access = jwt_encode strict_lib sample_claims (ks_active sample_key_set) TYPE_AT_JWT"

definition strict_app :: "(byte, byte, keyspace) oauth_app" where
  "strict_app = sample_app\<lparr>oa_lib := strict_lib\<rparr>"

lemma strict_app_sel [simp]:
  "oa_grants strict_app = sample_grants" "oa_lib strict_app = strict_lib" "oa_keys strict_app = sample_key_set" "oa_issuer strict_app = ''https://id''"
  "oa_reprs strict_app = (\<lambda>_. [])"
  by (simp_all add: strict_app_def)

lemma strict_authenticated: "authenticated_client strict_app (sample_oauth_request t) (Some ''rp'') None = Ok sample_native"
  by (rule sample_authenticated_by) (simp_all add: strict_app_def)

lemma strict_bearer: "bearer_of strict_app (sample_oauth_request t) sample_access (\<lambda>k. None) = Ok sample_claims"
  using strict_lib_accepts by (simp add: bearer_of_def sample_access_def)

lemma sample_claims_client: "claim_text r sample_claims ''client_id'' = Some ''rp''"
  by (simp add: claim_text_def sample_claims_def access_token_claims_def sample_context_def)

theorem revocation_takes_effect_witness:
  "bearer_of strict_app (sample_oauth_request 100) sample_access
     (os_redis (snd (revoke_token strict_app (sample_oauth_request 0) sample_access None (Some ''rp'') None sample_empty))) \<noteq> Ok sample_claims"
proof -
  let ?r = "revoke_token strict_app (sample_oauth_request 0) sample_access None (Some ''rp'') None sample_empty"
  have laws: "grants_on_redis (oa_grants strict_app) unexpired" using mem_grants.grants_on_redis_axioms by simp
  have b: "bearer_of strict_app (sample_oauth_request 0) sample_access (os_redis sample_empty) = Ok sample_claims" using strict_bearer by (simp add: sample_empty_def)
  have own: "claim_text (oa_reprs strict_app) sample_claims ''client_id'' = Some (oc_client_id sample_native)" using sample_claims_client by simp
  show ?thesis
    using revocation_takes_effect[OF laws strict_authenticated b own, of None "fst ?r" "snd ?r" "sample_oauth_request 100" sample_access sample_claims] by simp
qed

theorem introspection_sound_witness:
  "\<exists>client. authenticated_client strict_app (sample_oauth_request 0) (Some ''rp'') None = Ok client \<and>
     claim_text (oa_reprs strict_app) sample_claims ''client_id'' = Some (oc_client_id client)"
proof -
  obtain body where body: "introspection_body sample_claims = Some body" "map_of body ''active'' = Some (PBool True)"
    by (auto simp: introspection_body_def INTROSPECTED_def sample_claims_def access_token_claims_def)
  have i: "introspect strict_app (sample_oauth_request 0) sample_access (Some ''rp'') None sample_empty = JsonReply 200 body"
    using strict_authenticated strict_bearer sample_claims_client body by (simp add: introspect_def sample_empty_def)
  have minted: "only_minted (oa_lib strict_app) (verification_keys (oa_lib strict_app) (oa_keys strict_app)) {(''k1'', sample_claims, TYPE_AT_JWT)}"
    "\<And>kid c ty. (kid, c, ty) \<in> {(''k1'', sample_claims, TYPE_AT_JWT)} \<Longrightarrow> reads_back (oa_lib strict_app) c \<and> reads_back (oa_lib strict_app) (jwt_header kid ty)"
    using strict_lib_minted by (simp, simp only: strict_app_sel)
  show ?thesis using introspection_sound[OF i body(2) minted] by blast
qed

definition machine_claims :: dict where
  "machine_claims = access_token_claims (machine_context sample_app sample_native {''scim:read''} 1000000) ''j1'' 1000000 ACCESS_TOKEN_TTL"

definition machine_app :: "(byte, byte, keyspace) oauth_app" where
  "machine_app = sample_app\<lparr>oa_lib := signing_lib machine_claims\<rparr>"

theorem machine_revocation_spreads_witness:
  "\<exists>ta. bearer_of machine_app (sample_oauth_request 0) ta (\<lambda>k. None) = Ok machine_claims \<and>
     (\<forall>tb b. bearer_of machine_app (sample_oauth_request 100) tb (os_redis (snd (revoke_token machine_app (sample_oauth_request 0) ta None (Some ''rp'') None sample_empty))) \<noteq>
       Ok (access_token_claims (machine_context machine_app b {''scim:write''} 1500000) ''j2'' 1500000 ACCESS_TOKEN_TTL))"
proof -
  let ?c = "machine_context machine_app sample_native {''scim:read''} 1000000"
  let ?ta = "access_token (signing_lib machine_claims) ?c (ks_active sample_key_set) ''j1'' 1000000"
  have claims: "machine_claims = access_token_claims ?c ''j1'' 1000000 ACCESS_TOKEN_TTL" by (simp add: machine_claims_def machine_context_def machine_app_def)
  have reads: "reads_back (signing_lib machine_claims) machine_claims" "reads_back (signing_lib machine_claims) (jwt_header ''k1'' TYPE_AT_JWT)"
    using signing_lib_reads_back[OF header_not_claims] by (simp_all add: machine_claims_def)
  have app: "oa_lib machine_app = signing_lib machine_claims" "oa_keys machine_app = sample_key_set" "oa_grants machine_app = sample_grants"
      "oa_issuer machine_app = ''https://id''" "tc_issuer ?c = ''https://id''"
    by (simp_all add: machine_app_def machine_context_def)
  have live: "\<not> is_family_revoked sample_grants 0 f (\<lambda>k. None)" for f by (simp add: is_family_revoked_def mem_redis_ops unexpired_def)
  have "bearer_verify (signing_lib machine_claims) sample_key_set sample_grants (tc_issuer ?c) 2000000 0 (Some ?ta) (\<lambda>k. None) = Ok machine_claims"
    using reads live unfolding claims[symmetric]
    by (subst access_token_accepted) (simp_all add: claims[symmetric] sample_key_set_def, simp add: signing_lib_def)
  then have b: "bearer_of machine_app (sample_oauth_request 0) ?ta (os_redis sample_empty) = Ok (access_token_claims ?c ''j1'' 1000000 ACCESS_TOKEN_TTL)"
    using app claims by (simp add: bearer_of_def sample_empty_def)
  have laws: "grants_on_redis (oa_grants machine_app) unexpired" using mem_grants.grants_on_redis_axioms by (simp add: app)
  have auth: "authenticated_client machine_app (sample_oauth_request 0) (Some ''rp'') None = Ok sample_native"
    by (rule sample_authenticated_by) (simp_all add: machine_app_def)
  show ?thesis
  proof (intro exI[of _ ?ta] conjI allI)
    show "bearer_of machine_app (sample_oauth_request 0) ?ta (\<lambda>k. None) = Ok machine_claims" using b claims by (simp add: sample_empty_def)
    show "bearer_of machine_app (sample_oauth_request 100) tb (os_redis (snd (revoke_token machine_app (sample_oauth_request 0) ?ta None (Some ''rp'') None sample_empty))) \<noteq>
        Ok (access_token_claims (machine_context machine_app b {''scim:write''} 1500000) ''j2'' 1500000 ACCESS_TOKEN_TTL)" for tb b
      by (rule machine_revocation_spreads[OF laws auth b]) (simp_all add: app)
  qed
qed

end
