(* ===== verification/Logout.thy ===== *)
theory Logout
  imports OAuth2
begin

text \<open>
  Ending sessions: delivery of logout tokens (\<open>LogoutNotifier\<close> of \<open>oidc/logout.py\<close>), logout and administrative termination
  (\<open>routes/logout.py\<close>), and what a client is told about the bearer of a token (\<open>/userinfo\<close> of \<open>routes/oidc.py\<close>).

  What an HTTP post to a client comes back with is an argument, by client and attempt; the posts made are part of the result.
\<close>

section \<open>Delivery\<close>

datatype http_answer = HttpStatus nat | HttpError string

record delivery =
  dl_client_id :: string
  dl_delivered :: bool
  dl_attempts :: nat
  dl_detail :: "string option"

definition RETRY_DELAYS :: nat where "RETRY_DELAYS = 2"

definition http_detail :: "http_answer \<Rightarrow> string" where
  "http_detail a = (case a of HttpStatus n \<Rightarrow> ''HTTP '' @ show_nat n | HttpError name \<Rightarrow> name)"

text \<open>The loop of \<open>_deliver\<close>, with the attempts that are left after this one.\<close>

fun deliver_from :: "string \<Rightarrow> (nat \<Rightarrow> http_answer) \<Rightarrow> nat \<Rightarrow> nat \<Rightarrow> delivery" where
  "deliver_from cid post attempt left = (case post attempt of
     HttpStatus n \<Rightarrow> if n < 400 then \<lparr>dl_client_id = cid, dl_delivered = True, dl_attempts = attempt, dl_detail = None\<rparr>
       else (case left of 0 \<Rightarrow> \<lparr>dl_client_id = cid, dl_delivered = False, dl_attempts = attempt, dl_detail = Some (http_detail (HttpStatus n))\<rparr>
         | Suc m \<Rightarrow> deliver_from cid post (Suc attempt) m)
   | HttpError name \<Rightarrow> (case left of 0 \<Rightarrow> \<lparr>dl_client_id = cid, dl_delivered = False, dl_attempts = attempt, dl_detail = Some name\<rparr>
         | Suc m \<Rightarrow> deliver_from cid post (Suc attempt) m))"

declare deliver_from.simps [simp del]

definition logout_context :: "string \<Rightarrow> oidc_client \<Rightarrow> string \<Rightarrow> string \<Rightarrow> micros \<Rightarrow> token_context" where
  "logout_context issuer client subject sid now = \<lparr>tc_issuer = issuer, tc_client_id = oc_client_id client, tc_subject = subject, tc_sid = sid,
     tc_family_id = [], tc_scopes = {}, tc_auth_time = now, tc_nonce = None, tc_acr = None, tc_amr = [], tc_claims = []\<rparr>"

record logout_post =
  lp_client_id :: string
  lp_uri :: string
  lp_claims :: dict
  lp_token :: string

definition deliver ::
  "('k, 'p) jwt_lib \<Rightarrow> string \<Rightarrow> 'k signing_key \<Rightarrow> (string \<Rightarrow> nat \<Rightarrow> http_answer) \<Rightarrow> string \<Rightarrow> string \<Rightarrow> string \<Rightarrow> micros \<Rightarrow> oidc_client \<Rightarrow> delivery \<times> logout_post" where
  "deliver L issuer key post jti subject sid now client =
     (let c = logout_context issuer client subject sid now in
      (deliver_from (oc_client_id client) (post (oc_client_id client)) 1 RETRY_DELAYS,
       \<lparr>lp_client_id = oc_client_id client, lp_uri = the (oc_backchannel_logout_uri client),
        lp_claims = logout_token_claims c jti now LOGOUT_TOKEN_TTL, lp_token = logout_token L c key jti now\<rparr>))"

definition notify ::
  "('k, 'p) jwt_lib \<Rightarrow> string \<Rightarrow> 'k signing_key \<Rightarrow> (string \<Rightarrow> nat \<Rightarrow> http_answer) \<Rightarrow> string \<Rightarrow> string \<Rightarrow> string \<Rightarrow> micros \<Rightarrow> oidc_client list \<Rightarrow>
     (delivery \<times> logout_post) list" where
  "notify L issuer key post jti subject sid now clients =
     map (deliver L issuer key post jti subject sid now) (filter (\<lambda>c. truthy_text (oc_backchannel_logout_uri c)) clients)"

section \<open>Ending one session\<close>

definition logout_event :: "event_type \<Rightarrow> audit_outcome \<Rightarrow> oauth_request \<Rightarrow> session \<Rightarrow> string option \<Rightarrow> dict \<Rightarrow> oauth_event" where
  "logout_event ty out rq x target detail = \<lparr>ov_type = ty, ov_outcome = out, ov_actor = None, ov_subject = Some (subject_key x), ov_target = target,
     ov_session = Some (se_sid x), ov_reason = None, ov_correlation = rq_correlation rq, ov_detail = detail\<rparr>"

definition reached_detail :: "delivery list \<Rightarrow> dict" where
  "reached_detail ds = [(''notified'', strs (map dl_client_id (filter dl_delivered ds))),
     (''unreachable'', strs (map dl_client_id (filter (\<lambda>d. \<not> dl_delivered d) ds)))]"

definition failure_event :: "oauth_request \<Rightarrow> session \<Rightarrow> delivery \<Rightarrow> oauth_event" where
  "failure_event rq x d = logout_event LOGOUT_DELIVERY_FAILED FAILURE rq x (Some (dl_client_id d))
     [(''attempts'', PInt (int (dl_attempts d))), (''detail'', opt_str (dl_detail d))]"

text \<open>The clients of the index that are registered and enabled; a row that cannot be read raises.\<close>

definition registered_clients :: "('k, 'p, 's) oauth_app \<Rightarrow> string list \<Rightarrow> (registry_error, oidc_client list) result" where
  "registered_clients app cids = rbind (rmap (\<lambda>c. get_client (oa_ip app) c (oa_clients app)) cids)
     (\<lambda>found. Ok (List.map_filter (\<lambda>c. c) found))"

definition end_one ::
  "('k, 'p, 's) oauth_app \<Rightarrow> oauth_request \<Rightarrow> (string \<Rightarrow> nat \<Rightarrow> http_answer) \<Rightarrow> event_type \<Rightarrow> session \<Rightarrow> 's oauth_state \<Rightarrow>
     (flow_error, (delivery \<times> logout_post) list) result \<times> 's oauth_state" where
  "end_one app rq post ty x s =
     (let cids = client_session_clients (oa_redis app) (rq_at rq 1) (se_sid x) (os_redis s) in
      case session_destroy (oa_sessions app) (rq_at rq 2) (se_sid x) (os_redis s) of
        (Inl e, r) \<Rightarrow> (Err Crashed, s\<lparr>os_redis := r\<rparr>)
      | (Inr _, r) \<Rightarrow>
          (let r1 = client_session_forget (oa_redis app) (rq_at rq 3) (se_sid x) r;
               r2 = snd (revoke_session_families (oa_grants app) (rq_at rq 4) (se_sid x) r1);
               s1 = s\<lparr>os_redis := r2\<rparr> in
           case registered_clients app cids of
             Inl e \<Rightarrow> (Err Crashed, s1)
           | Inr clients \<Rightarrow>
               (let sent = notify (oa_lib app) (oa_issuer app) (ks_active (oa_keys app)) post (rq_random rq 3) (subject_key x) (se_sid x) (rq_clock rq 1) clients;
                    ds = map fst sent in
                (Ok sent, fold (\<lambda>d. trail (failure_event rq x d)) (filter (\<lambda>d. \<not> dl_delivered d) ds)
                   (trail (logout_event ty SUCCESS rq x None (reached_detail ds)) s1)))))"

section \<open>Logout\<close>

definition HINT_LEEWAY :: int where "HINT_LEEWAY = 3650 * 86400"
definition DEFAULT_LANDING :: string where "DEFAULT_LANDING = ''/''"

definition client_from_hint :: "('k, 'p, 's) oauth_app \<Rightarrow> oauth_request \<Rightarrow> string option \<Rightarrow> string option" where
  "client_from_hint app rq hint =
     (if \<not> truthy_text hint then None
      else (case jwt_decode (oa_lib app) (verification_keys (oa_lib app) (oa_keys app)) (oa_issuer app) None (rq_clock rq 2) HINT_LEEWAY None (the hint) of
          Inl _ \<Rightarrow> None
        | Inr claims \<Rightarrow> (case map_of claims ''aud'' of
            Some (PStr a) \<Rightarrow> Some a
          | Some (PList [v]) \<Rightarrow> Some (case v of PStr a \<Rightarrow> a | _ \<Rightarrow> oa_reprs app v)
          | _ \<Rightarrow> None)))"

definition post_logout_destination ::
  "('k, 'p, 's) oauth_app \<Rightarrow> oauth_request \<Rightarrow> string option \<Rightarrow> string option \<Rightarrow> string option \<Rightarrow> string option \<Rightarrow> (flow_error, string \<times> (string \<times> string) list) result" where
  "post_logout_destination app rq hint uri client_id state =
     (let landing = Ok (DEFAULT_LANDING, []) in
      if \<not> truthy_text uri then landing
      else (let named = (if truthy_text client_id then client_id else client_from_hint app rq hint) in
        rbind (if truthy_text named then rmap_err of_registry (get_client (oa_ip app) (the named) (oa_clients app)) else Ok None) (\<lambda>found.
          case found of None \<Rightarrow> landing
          | Some client \<Rightarrow> if the uri \<notin> set (oc_post_logout_redirect_uris client) then landing
              else Ok (the uri, if truthy_text state then [(''state'', the state)] else []))))"

text \<open>\<open>/oauth2/logout\<close>.\<close>

definition end_session ::
  "('k, 'p, 's) oauth_app \<Rightarrow> oauth_request \<Rightarrow> (string \<Rightarrow> nat \<Rightarrow> http_answer) \<Rightarrow> string option \<Rightarrow> string option \<Rightarrow> string option \<Rightarrow> string option \<Rightarrow>
     's oauth_state \<Rightarrow> oauth_response \<times> (delivery \<times> logout_post) list \<times> 's oauth_state" where
  "end_session app rq post hint uri client_id state s =
     (case (if truthy_text (rq_cookie rq) then load_session app (rq_at rq 0) (rq_clock rq 0) (the (rq_cookie rq)) s else (Ok None, s)) of
        (Inl _, s1) \<Rightarrow> (ServerError, [], s1)
      | (Inr found, s1) \<Rightarrow>
          (case (case found of None \<Rightarrow> (Ok [], s1) | Some x \<Rightarrow> end_one app rq post SESSION_ENDED x s1) of
             (Inl _, s2) \<Rightarrow> (ServerError, [], s2)
           | (Inr sent, s2) \<Rightarrow> (case post_logout_destination app rq hint uri client_id state of
               Inl _ \<Rightarrow> (ServerError, sent, s2)
             | Inr (target, query) \<Rightarrow> (RedirectTo target query, sent, s2))))"

text \<open>\<open>/admin/sessions/terminate\<close>; request \<open>n\<close> of the sequence serves the \<open>n\<close>-th session.\<close>

fun terminate_each ::
  "('k, 'p, 's) oauth_app \<Rightarrow> (nat \<Rightarrow> oauth_request) \<Rightarrow> (string \<Rightarrow> nat \<Rightarrow> http_answer) \<Rightarrow> nat \<Rightarrow> string list \<Rightarrow> 's oauth_state \<Rightarrow>
     (flow_error, (delivery \<times> logout_post) list) result \<times> 's oauth_state" where
  "terminate_each app rqs post n [] s = (Ok [], s)"
| "terminate_each app rqs post n (sid # sids) s = (case load_session app (rq_at (rqs n) 0) (rq_clock (rqs n) 0) sid s of
     (Inl e, s1) \<Rightarrow> (Err e, s1)
   | (Inr found, s1) \<Rightarrow> (case (case found of None \<Rightarrow> (Ok [], s1) | Some x \<Rightarrow> end_one app (rqs n) post SESSION_TERMINATED x s1) of
       (Inl e, s2) \<Rightarrow> (Err e, s2)
     | (Inr sent, s2) \<Rightarrow> (case terminate_each app rqs post (Suc n) sids s2 of
         (Inl e, s3) \<Rightarrow> (Err e, s3) | (Inr others, s3) \<Rightarrow> (Ok (sent @ others), s3))))"

definition terminated_event :: "oauth_request \<Rightarrow> string \<Rightarrow> nat \<Rightarrow> oauth_event" where
  "terminated_event rq subject n = \<lparr>ov_type = ADMIN_ACTION, ov_outcome = SUCCESS, ov_actor = Some ''administrator'', ov_subject = Some subject,
     ov_target = None, ov_session = None, ov_reason = None, ov_correlation = rq_correlation rq,
     ov_detail = [(''action'', PStr ''terminate_sessions''), (''sessions'', PInt (int n))]\<rparr>"

definition terminate_sessions ::
  "('k, 'p, 's) oauth_app \<Rightarrow> bool \<Rightarrow> oauth_request \<Rightarrow> (nat \<Rightarrow> oauth_request) \<Rightarrow> (string \<Rightarrow> nat \<Rightarrow> http_answer) \<Rightarrow> string \<Rightarrow> 's oauth_state \<Rightarrow>
     oauth_response \<times> 's oauth_state" where
  "terminate_sessions app is_production rq rqs post subject s =
     (if is_production then (RejectPage R_CLIENT_AUTHENTICATION_FAILED, s)
      else (let sids = sids_for (oa_sessions app) (rq_at rq 0) subject (os_redis s) in
        case terminate_each app rqs post 0 sids s of
          (Inl _, s1) \<Rightarrow> (ServerError, s1)
        | (Inr sent, s1) \<Rightarrow> (case terminate_subject (oa_sessions app) (rq_at rq 1) subject (os_redis s1) of
            (Inl _, r) \<Rightarrow> (ServerError, s1\<lparr>os_redis := r\<rparr>)
          | (Inr _, r) \<Rightarrow> (JsonReply 200 ((''terminated'', PInt (int (length sids))) # reached_detail (map fst sent)),
              trail (terminated_event rq subject (length sids)) (s1\<lparr>os_redis := r\<rparr>)))))"

section \<open>Userinfo\<close>

definition invalid_token :: "oauth_response" where
  "invalid_token = JsonReply 401 [(''error'', PStr ''invalid_token'')]"

definition userinfo ::
  "('k, 'p, 's) oauth_app \<Rightarrow> oauth_request \<Rightarrow> string option \<Rightarrow> 's oauth_state \<Rightarrow> oauth_response \<times> 's oauth_state" where
  "userinfo app rq header s =
     (case bearer_verify (oa_lib app) (oa_keys app) (oa_grants app) (oa_issuer app) (rq_clock rq 0) (rq_at rq 0) (credentials header) (os_redis s) of
        Inl _ \<Rightarrow> (invalid_token, s)
      | Inr claims \<Rightarrow> (case claim_text (oa_reprs app) claims ''sid'' of
          None \<Rightarrow> (ServerError, s)
        | Some sid \<Rightarrow> (case load_session app (rq_at rq 1) (rq_clock rq 1) sid s of
            (Inl _, s1) \<Rightarrow> (ServerError, s1)
          | (Inr None, s1) \<Rightarrow> (invalid_token, s1)
          | (Inr (Some x), s1) \<Rightarrow> (case (claim_text (oa_reprs app) claims ''client_id'', claim_text (oa_reprs app) claims ''sub'') of
              (Some client, Some sub) \<Rightarrow>
                (case release_to (oa_hmac app) (oa_fullmatch app) x (policy_for (oa_policies app) client) (bearer_scopes (oa_reprs app) claims)
                    (oa_salt app) (oa_scope app) False {} of
                   None \<Rightarrow> (ServerError, s1)
                 | Some i \<Rightarrow> if ri_subject i \<noteq> sub then (invalid_token, s1)
                     else (JsonReply 200 (dict_update [(''sub'', PStr (ri_subject i))] (ri_claims i)), s1))
            | _ \<Rightarrow> (ServerError, s1)))))"

section \<open>Properties\<close>

lemma deliver_from_attempts:
  "attempt \<le> dl_attempts (deliver_from cid post attempt left) \<and> dl_attempts (deliver_from cid post attempt left) \<le> attempt + left"
proof (induction cid post attempt left rule: deliver_from.induct)
  case (1 cid post attempt left)
  then show ?case by (subst (1 2) deliver_from.simps) (fastforce split: http_answer.splits nat.splits if_splits)
qed

lemma deliver_from_delivered:
  "dl_delivered (deliver_from cid post attempt left) \<longleftrightarrow> (\<exists>k\<ge>attempt. k \<le> attempt + left \<and> (\<exists>n<400. post k = HttpStatus n))"
proof (induction left arbitrary: attempt)
  case 0
  then show ?case by (subst deliver_from.simps) (auto split: http_answer.splits simp: le_antisym)
next
  case (Suc left)
  have step: "(\<exists>k\<ge>attempt. k \<le> attempt + Suc left \<and> P k) \<longleftrightarrow> P attempt \<or> (\<exists>k\<ge>Suc attempt. k \<le> Suc attempt + left \<and> P k)" for P
    by (metis add_Suc add_Suc_right le_add1 le_antisym not_less_eq_eq Suc_leD)
  show ?case unfolding step by (subst deliver_from.simps) (auto simp: Suc split: http_answer.split)
qed

text \<open>A logout token is tried at least once and at most three times, and counts as delivered exactly if one of the three attempts was
  answered with a status below 400.\<close>

theorem delivery_bounded:
  "1 \<le> dl_attempts (fst (deliver L issuer key post jti subject sid now client)) \<and>
   dl_attempts (fst (deliver L issuer key post jti subject sid now client)) \<le> 3 \<and>
   (dl_delivered (fst (deliver L issuer key post jti subject sid now client)) \<longleftrightarrow>
      (\<exists>k\<in>{1, 2, 3}. \<exists>n<400. post (oc_client_id client) k = HttpStatus n))"
proof -
  have "(\<exists>k\<ge>1. k \<le> 1 + 2 \<and> P k) \<longleftrightarrow> (\<exists>k\<in>{1, 2, 3 :: nat}. P k)" for P
    by (auto simp: le_Suc_eq numeral_eq_Suc)
  then show ?thesis
    using deliver_from_attempts[of 1 "oc_client_id client" "post (oc_client_id client)" 2] deliver_from_delivered[of "oc_client_id client" "post (oc_client_id client)" 1 2]
    by (simp add: deliver_def Let_def RETRY_DELAYS_def)
qed

lemma notify_claims:
  assumes "(d, p) \<in> set (notify L issuer key post jti subject sid now clients)"
  shows "map_of (lp_claims p) ''sub'' = Some (PStr subject)" "map_of (lp_claims p) ''sid'' = Some (PStr sid)" "map_of (lp_claims p) ''nonce'' = None"
    "map_of (lp_claims p) ''aud'' = Some (PStr (lp_client_id p))"
  using assms by (auto simp: notify_def deliver_def Let_def logout_token_claims_def logout_context_def)

text \<open>Every client is told the person.  A logout token is made out to the internal key of the person and not to the identifier the
  client knows them by, so all clients of a session receive the same subject, whatever their policies say of pairwise identifiers.\<close>

theorem logout_tokens_name_the_person:
  assumes "end_one app rq post ty x s = (Ok sent, s')" and "(d, p) \<in> set sent"
  shows "map_of (lp_claims p) ''sub'' = Some (PStr (subject_key x))"
  using assms by (auto simp: end_one_def Let_def notify_claims split: prod.splits sum.splits)

text \<open>A logout redirect goes to the landing page or to a URI the named client, enabled, has registered for it.\<close>

theorem post_logout_redirect_registered:
  assumes "post_logout_destination app rq hint uri client_id state = Ok (target, query)"
  shows "target = DEFAULT_LANDING \<and> query = [] \<or>
    uri = Some target \<and> (\<exists>named client. get_client (oa_ip app) named (oa_clients app) = Ok (Some client) \<and> target \<in> set (oc_post_logout_redirect_uris client) \<and>
      (client_id = Some named \<or> client_from_hint app rq hint = Some named))"
proof (cases "truthy_text uri")
  case True
  then obtain u where u: "uri = Some u" by (cases uri) (auto simp: truthy_text_def)
  let ?named = "if truthy_text client_id then client_id else client_from_hint app rq hint"
  have "target = DEFAULT_LANDING \<and> query = [] \<or>
      (\<exists>client. truthy_text ?named \<and> get_client (oa_ip app) (the ?named) (oa_clients app) = Ok (Some client) \<and> u \<in> set (oc_post_logout_redirect_uris client) \<and> target = u)"
    using assms True u by (auto simp: post_logout_destination_def Let_def rbind_eq_Ok split: if_splits option.splits)
  then show ?thesis using u by (auto simp: truthy_text_def split: option.splits if_splits)
qed (use assms in \<open>simp add: post_logout_destination_def\<close>)

text \<open>Userinfo answers only for a live token of a live session.  A success means: the token verifies, its family is not revoked, the
  session it names loads, and the subject answered is both the one of the token and the one this client's policy derives for the
  session now.\<close>

theorem userinfo_sound:
  assumes "userinfo app rq header s = (JsonReply 200 body, s')"
  shows "\<exists>claims sid x client i. bearer_verify (oa_lib app) (oa_keys app) (oa_grants app) (oa_issuer app) (rq_clock rq 0) (rq_at rq 0) (credentials header) (os_redis s) = Ok claims \<and>
    claim_text (oa_reprs app) claims ''sid'' = Some sid \<and> load_session app (rq_at rq 1) (rq_clock rq 1) sid s = (Ok (Some x), s') \<and>
    claim_text (oa_reprs app) claims ''client_id'' = Some client \<and> claim_text (oa_reprs app) claims ''sub'' = Some (ri_subject i) \<and>
    release_to (oa_hmac app) (oa_fullmatch app) x (policy_for (oa_policies app) client) (bearer_scopes (oa_reprs app) claims) (oa_salt app) (oa_scope app) False {} = Some i \<and>
    body = dict_update [(''sub'', PStr (ri_subject i))] (ri_claims i)"
  using assms by (auto simp: userinfo_def invalid_token_def split: sum.splits option.splits prod.splits if_splits)

lemma fold_trail_redis [simp]: "os_redis (fold (\<lambda>d. trail (f d)) ds s) = os_redis s"
  by (induction ds arbitrary: s) simp_all

lemma end_one_redis:
  assumes "session_destroy (oa_sessions app) (rq_at rq 2) (se_sid x) (os_redis s) = (Ok (), r)"
  shows "os_redis (snd (end_one app rq post ty x s)) =
    snd (revoke_session_families (oa_grants app) (rq_at rq 4) (se_sid x) (client_session_forget (oa_redis app) (rq_at rq 3) (se_sid x) r))"
  using assms by (simp add: end_one_def Let_def split: sum.split)

lemma session_destroy_other:
  assumes "redis_server (ss_redis S) visible" "session_destroy S t sid s = (Ok (), r)"
  shows "visible t r (store_key S sid) = None"
    "k \<noteq> store_key S sid \<Longrightarrow> (\<And>subject. k \<noteq> index_key S subject) \<Longrightarrow> visible t r k = visible t s k"
  using assms(2) redis_server.delete[OF assms(1)] redis_server.srem[OF assms(1)]
  by (auto simp: session_destroy_def split: option.splits)

lemma unexpired_cong: "m k = m' k \<Longrightarrow> unexpired t m k = unexpired t m' k"
  by (simp add: unexpired_def)

lemma broker_keys_apart:
  "SESSION_KEY_PREFIX @ a \<noteq> CLIENT_SESSION_PREFIX @ b" "SESSION_KEY_PREFIX @ a \<noteq> session_key b" "SESSION_KEY_PREFIX @ a \<noteq> family_key b"
  "session_key a \<noteq> CLIENT_SESSION_PREFIX @ b" "session_key a \<noteq> index_key S b" "family_key a \<noteq> session_key b"
  "CLIENT_SESSION_PREFIX @ a \<noteq> family_key b" "CLIENT_SESSION_PREFIX @ a \<noteq> session_key b"
  by (simp_all add: grant_prefixes CLIENT_SESSION_PREFIX_def SESSION_KEY_PREFIX_def SUBJECT_INDEX_PREFIX_def index_key_def)

text \<open>C30. Logout ends the session everywhere the broker can end it.  Once the session is destroyed, and whether or not its clients can be
  looked up and reached, from the moment the request's last write is made the session does not load, the index of its clients is
  empty, and every token family it had is revoked for as long as a refresh token can live.\<close>

theorem logout_ends_session:
  assumes "sessions_on_redis (oa_sessions app) visible" and "grants_on_redis (oa_grants app) visible"
    and "oa_redis app = ss_redis (oa_sessions app)" and "g_redis (oa_grants app) = ss_redis (oa_sessions app)"
    and "session_destroy (oa_sessions app) (rq_at rq 2) (se_sid x) (os_redis s) = (Ok (), r)"
    and times: "rq_at rq 2 \<le> rq_at rq 3" "rq_at rq 3 \<le> rq_at rq 4" "rq_at rq 4 \<le> t"
    and "end_one app rq post ty x s = (res, s')"
  shows "load_read (oa_sessions app) t (se_sid x) (os_redis s') = Ok None \<and>
    set (client_session_clients (oa_redis app) t (se_sid x) (os_redis s')) = {} \<and>
    (\<forall>f. f |\<in>| members_of (visible (rq_at rq 4) (os_redis s) (session_key (se_sid x))) \<longrightarrow>
       t < rq_at rq 4 + 1000 * seconds (g_refresh_ttl (oa_grants app)) \<longrightarrow> is_family_revoked (oa_grants app) t f (os_redis s'))"
proof -
  let ?S = "oa_sessions app" and ?G = "oa_grants app" and ?R = "ss_redis (oa_sessions app)" and ?sid = "se_sid x" and ?V = visible
  have R: "redis_server ?R visible" using assms(1) by (simp add: sessions_on_redis_def)
  note later = redis_server.later[OF R]
  let ?r1 = "client_session_forget ?R (rq_at rq 3) ?sid r"
  obtain fs where fs: "revoke_session_families ?G (rq_at rq 4) ?sid ?r1 = (fs, os_redis s')"
    using end_one_redis[OF assms(5), of post ty] assms(3,9) by (metis prod.collapse snd_conv)
  have key: "store_key ?S ?sid = SESSION_KEY_PREFIX @ ?sid" using sessions_on_redis.prefix[OF assms(1)] by (simp add: store_key_def)
  have r1: "?V (rq_at rq 3) ?r1 = (?V (rq_at rq 3) r)(CLIENT_SESSION_PREFIX @ ?sid := None)"
    by (simp add: client_session_forget_def redis_server.delete[OF R])
  note after = grants_on_redis.revoke_session_families_view[OF assms(2) fs]
  have store: "?V (rq_at rq 4) (os_redis s') (store_key ?S ?sid) = None"
  proof -
    have "?V (rq_at rq 3) ?r1 (store_key ?S ?sid) = None"
      unfolding r1 using session_destroy_other(1)[OF R assms(5)] later[OF times(1), of r] by (simp add: unexpired_def)
    then have "?V (rq_at rq 4) ?r1 (store_key ?S ?sid) = None" by (simp add: later[OF times(2), of ?r1] unexpired_def)
    moreover have "store_key ?S ?sid \<noteq> session_key ?sid" "store_key ?S ?sid \<notin> family_key ` set fs" unfolding key using broker_keys_apart(2,3) by blast+
    ultimately show ?thesis using after by simp
  qed
  have index: "?V (rq_at rq 4) (os_redis s') (CLIENT_SESSION_PREFIX @ ?sid) = None"
  proof -
    have "?V (rq_at rq 4) ?r1 (CLIENT_SESSION_PREFIX @ ?sid) = None" by (simp add: later[OF times(2), of ?r1] r1 unexpired_def)
    moreover have "CLIENT_SESSION_PREFIX @ ?sid \<noteq> session_key ?sid" "CLIENT_SESSION_PREFIX @ ?sid \<notin> family_key ` set fs"
      using broker_keys_apart(7,8) by blast+
    ultimately show ?thesis using after by simp
  qed
  have members: "?V (rq_at rq 4) ?r1 (session_key ?sid) = ?V (rq_at rq 4) (os_redis s) (session_key ?sid)"
  proof -
    have "?V (rq_at rq 2) r (session_key ?sid) = ?V (rq_at rq 2) (os_redis s) (session_key ?sid)"
      using session_destroy_other(2)[OF R assms(5)] key by (metis broker_keys_apart(2,5))
    moreover have "?V (rq_at rq 3) ?r1 (session_key ?sid) = ?V (rq_at rq 3) r (session_key ?sid)"
      unfolding r1 using broker_keys_apart(4)[of ?sid ?sid] by (rule fun_upd_other)
    ultimately show ?thesis
      unfolding later[OF times(2), of ?r1] later[OF order_trans[OF times(1,2)], of "os_redis s"]
      by (metis later[OF times(2), of r] later[OF order_trans[OF times(1,2)], of r] unexpired_cong)
  qed
  have fams: "set fs = fset (members_of (?V (rq_at rq 4) (os_redis s) (session_key ?sid)))"
  proof -
    have "fs = sort (r_smembers (g_redis ?G) (rq_at rq 4) (session_key ?sid) ?r1)" using fs by (simp add: revoke_session_families_def Let_def)
    then have "set fs = fset (members_of (?V (rq_at rq 4) ?r1 (session_key ?sid)))" by (simp only: assms(4) set_sort redis_server.smembers[OF R])
    then show ?thesis unfolding members .
  qed
  have "load_read ?S t ?sid (os_redis s') = Ok None"
    using store by (simp add: load_read_def redis_server.get[OF R] later[OF times(3)] unexpired_def text_of_def)
  moreover have "set (client_session_clients (oa_redis app) t ?sid (os_redis s')) = {}"
    using index by (simp add: client_session_clients_def assms(3) redis_server.smembers[OF R] later[OF times(3)] unexpired_def members_of_def)
  moreover have "is_family_revoked ?G t f (os_redis s')"
    if "f |\<in>| members_of (?V (rq_at rq 4) (os_redis s) (session_key ?sid))" "t < rq_at rq 4 + 1000 * seconds (g_refresh_ttl ?G)" for f
  proof -
    have "?V (rq_at rq 4) (os_redis s') (family_key f) = Some (RVal (PStr ''1''), deadline (rq_at rq 4) (seconds (g_refresh_ttl ?G)))"
      using after[OF broker_keys_apart(6)] that(1) fams by simp
    then show ?thesis using that(2)
      by (simp add: is_family_revoked_def assms(4) redis_server.exists[OF R] later[OF times(3)] unexpired_def alive_def deadline_def)
  qed
  ultimately show ?thesis by blast
qed

text \<open>One unreadable row silences a logout.  If the registration of any client the session reached cannot be read, the session is gone and
  its tokens are revoked, but no client is told and nothing of it is in the audit trail.\<close>

theorem unreadable_client_silences_logout:
  assumes "session_destroy (oa_sessions app) (rq_at rq 2) (se_sid x) (os_redis s) = (Ok (), r)"
    and "cid \<in> set (client_session_clients (oa_redis app) (rq_at rq 1) (se_sid x) (os_redis s))"
    and "get_client (oa_ip app) cid (oa_clients app) = Err e"
  shows "\<exists>s'. end_one app rq post ty x s = (Err Crashed, s') \<and> os_trail s' = os_trail s"
proof -
  have "\<exists>e. rmap (\<lambda>c. get_client (oa_ip app) c (oa_clients app)) cids = Err e" if "cid \<in> set cids" for cids
    using rmap_Ok_setD[of "\<lambda>c. get_client (oa_ip app) c (oa_clients app)" cids] that assms(3)
    by (cases "rmap (\<lambda>c. get_client (oa_ip app) c (oa_clients app)) cids") (auto dest: rmap_unit)
  then obtain e' where "registered_clients app (client_session_clients (oa_redis app) (rq_at rq 1) (se_sid x) (os_redis s)) = Err e'"
    using assms(2) by (fastforce simp: registered_clients_def rbind_def)
  then show ?thesis using assms(1) by (simp add: end_one_def Let_def)
qed

section \<open>Witnesses\<close>

definition sample_logged_in :: "keyspace oauth_state" where
  "sample_logged_in = \<lparr>os_redis = sample_session_keys(session_key ''s1'' \<mapsto> (RSet {|''f1''|}, None), CLIENT_SESSION_PREFIX @ ''s1'' \<mapsto> (RSet {|''rp''|}, None)),
     os_impersonator = None, os_trail = []\<rparr>"

lemma sample_destroyed: "\<exists>r. session_destroy sample_sessions 2 ''s1'' (os_redis sample_logged_in) = (Ok (), r)"
proof -
  have "unexpired 2 (os_redis sample_logged_in) ''session:s1'' = Some (RVal (session_to_json sample_session), Some 1800000)"
    by (simp add: sample_logged_in_def sample_session_keys_def unexpired_def alive_def grant_prefixes CLIENT_SESSION_PREFIX_def)
  then show ?thesis by (simp add: session_destroy_def mem_redis_ops store_key_def SESSION_KEY_PREFIX_def text_of_def)
qed

theorem logout_ends_session_witness:
  "load_read sample_sessions 10 ''s1'' (os_redis (snd (end_one sample_app (sample_oauth_request 0) (\<lambda>_ _. HttpStatus 200) SESSION_ENDED sample_session sample_logged_in))) = Ok None \<and>
   is_family_revoked sample_grants 10 ''f1'' (os_redis (snd (end_one sample_app (sample_oauth_request 0) (\<lambda>_ _. HttpStatus 200) SESSION_ENDED sample_session sample_logged_in)))"
proof -
  let ?e = "end_one sample_app (sample_oauth_request 0) (\<lambda>_ _. HttpStatus 200) SESSION_ENDED sample_session sample_logged_in"
  obtain r where r: "session_destroy (oa_sessions sample_app) (rq_at (sample_oauth_request 0) 2) (se_sid sample_session) (os_redis sample_logged_in) = (Ok (), r)"
    using sample_destroyed by auto
  have laws: "sessions_on_redis (oa_sessions sample_app) unexpired" "grants_on_redis (oa_grants sample_app) unexpired"
      "oa_redis sample_app = ss_redis (oa_sessions sample_app)" "g_redis (oa_grants sample_app) = ss_redis (oa_sessions sample_app)"
    using mem_sessions.sessions_on_redis_axioms mem_grants.grants_on_redis_axioms by simp_all
  have "unexpired 4 (os_redis sample_logged_in) (session_key ''s1'') = Some (RSet {|''f1''|}, None)"
    by (simp add: sample_logged_in_def unexpired_def alive_def grant_prefixes CLIENT_SESSION_PREFIX_def)
  then have f: "''f1'' |\<in>| members_of (unexpired (rq_at (sample_oauth_request 0) 4) (os_redis sample_logged_in) (session_key (se_sid sample_session)))"
    by (simp add: members_of_def)
  have "?e = (fst ?e, snd ?e)" by simp
  note ended = logout_ends_session[OF laws r _ _ _ this, of 10]
  show ?thesis using ended f by simp
qed

lemma sample_registered_clients: "get_client (\<lambda>_. True) ''rp'' [to_client_row sample_native] = Ok (Some sample_native)"
  using sample_require by (auto simp: require_client_def truthy_text_def Let_def rbind_eq_Ok split: option.splits)

theorem post_logout_redirect_registered_witness:
  "post_logout_destination sample_app (sample_oauth_request 0) None (Some ''https://evil/'') (Some ''rp'') None = Ok (DEFAULT_LANDING, []) \<and>
   (DEFAULT_LANDING = DEFAULT_LANDING \<and> [] = ([] :: (string \<times> string) list) \<or> Some ''https://evil/'' = Some DEFAULT_LANDING)"
proof -
  have d: "post_logout_destination sample_app (sample_oauth_request 0) None (Some ''https://evil/'') (Some ''rp'') None = Ok (DEFAULT_LANDING, [])"
    using sample_registered_clients by (simp add: post_logout_destination_def truthy_text_def Let_def rmap_err_def sample_native_def sample_client_def)
  then show ?thesis using post_logout_redirect_registered[OF d] by blast
qed

text \<open>The client of the session was registered as confidential and then as native: its row cannot be read.\<close>

definition broken_app :: "(byte, byte, keyspace) oauth_app" where
  "broken_app = sample_app\<lparr>oa_clients := [update_client_row (to_client_row (sample_client CONFIDENTIAL [''https://rp/cb''])) sample_native]\<rparr>"

lemma broken_row: "\<exists>e. get_client (\<lambda>_. True) ''rp'' [update_client_row (to_client_row (sample_client CONFIDENTIAL [''https://rp/cb''])) sample_native] = Err e"
proof -
  let ?r = "to_client_row (sample_client CONFIDENTIAL [''https://rp/cb''])"
  have r: "cr_client_id ?r = ''rp''" "cr_secret_hash ?r = Some ''aa''" "cr_enabled ?r" by (simp_all add: to_client_row_def sample_client_def)
  have "from_client_row (\<lambda>_. True) (update_client_row ?r sample_native) = Err (InvalidClient CannotHoldSecret)"
    using from_row_updated[of "\<lambda>_. True" sample_native ?r] sample_registered[of "\<lambda>_. True"] r
    by (simp add: sample_native_def sample_client_def SUPPORTED_SCOPES_def scope_names)
  then show ?thesis using r by (simp add: get_client_def update_client_row_def)
qed

theorem unreadable_client_silences_logout_witness:
  "\<exists>s'. end_one broken_app (sample_oauth_request 0) (\<lambda>_ _. HttpStatus 200) SESSION_ENDED sample_session sample_logged_in = (Err Crashed, s') \<and> os_trail s' = []"
proof -
  obtain r where r: "session_destroy (oa_sessions broken_app) (rq_at (sample_oauth_request 0) 2) (se_sid sample_session) (os_redis sample_logged_in) = (Ok (), r)"
    using sample_destroyed by (auto simp: broken_app_def)
  obtain e where e: "get_client (oa_ip broken_app) ''rp'' (oa_clients broken_app) = Err e" using broken_row by (auto simp: broken_app_def)
  have "unexpired 1 (os_redis sample_logged_in) (CLIENT_SESSION_PREFIX @ ''s1'') = Some (RSet {|''rp''|}, None)"
    by (simp add: sample_logged_in_def unexpired_def alive_def)
  then have "set (r_smembers mem_redis 1 (CLIENT_SESSION_PREFIX @ ''s1'') (os_redis sample_logged_in)) = {''rp''}"
    using mem.smembers[of 1 "CLIENT_SESSION_PREFIX @ ''s1''" "os_redis sample_logged_in"] by (simp add: members_of_def)
  then have "''rp'' \<in> set (client_session_clients (oa_redis broken_app) (rq_at (sample_oauth_request 0) 1) (se_sid sample_session) (os_redis sample_logged_in))"
    by (simp add: client_session_clients_def broken_app_def)
  from unreadable_client_silences_logout[OF r this e, of "\<lambda>_ _. HttpStatus 200" SESSION_ENDED] show ?thesis by (simp add: sample_logged_in_def)
qed

definition listening_client :: oidc_client where
  "listening_client = sample_native\<lparr>oc_backchannel_logout_uri := Some ''https://rp/bc''\<rparr>"

definition listening_app :: "(byte, byte, keyspace) oauth_app" where
  "listening_app = sample_app\<lparr>oa_clients := [to_client_row listening_client]\<rparr>"

theorem logout_tokens_name_the_person_witness:
  "\<exists>d p s'. end_one listening_app (sample_oauth_request 0) (\<lambda>_ _. HttpStatus 200) SESSION_ENDED sample_session sample_logged_in = (Ok [(d, p)], s') \<and>
     map_of (lp_claims p) ''sub'' = Some (PStr ''p1'')"
proof -
  have init: "post_init (\<lambda>_. True) listening_client = Ok listening_client"
    using sample_registered[of "\<lambda>_. True"] by (simp add: listening_client_def sample_native_def post_init_def sample_client_def rbind_eq_Ok split: if_splits)
  have "from_client_row (\<lambda>_. True) (to_client_row listening_client) = Ok listening_client"
    using init by (rule from_row_new) (simp add: listening_client_def sample_native_def sample_client_def SUPPORTED_SCOPES_def scope_names)
  moreover have "cr_client_id (to_client_row listening_client) = ''rp''" "cr_enabled (to_client_row listening_client)"
    by (simp_all add: to_client_row_def listening_client_def)
  ultimately have get: "get_client (\<lambda>_. True) ''rp'' [to_client_row listening_client] = Ok (Some listening_client)" by (simp add: get_client_def)
  have "unexpired 1 (os_redis sample_logged_in) (CLIENT_SESSION_PREFIX @ ''s1'') = Some (RSet {|''rp''|}, None)"
    by (simp add: sample_logged_in_def unexpired_def alive_def)
  then have "client_session_clients mem_redis 1 ''s1'' (os_redis sample_logged_in) = [''rp'']"
    by (simp add: client_session_clients_def mem_redis_ops members_of_def sorted_list_of_fset.rep_eq)
  then have "registered_clients listening_app (client_session_clients mem_redis 1 ''s1'' (os_redis sample_logged_in)) = Ok [listening_client]"
    using get by (simp add: registered_clients_def listening_app_def map_filter_simps)
  moreover obtain r where "session_destroy sample_sessions 2 ''s1'' (os_redis sample_logged_in) = (Ok (), r)" using sample_destroyed by blast
  ultimately obtain d p s' where e: "end_one listening_app (sample_oauth_request 0) (\<lambda>_ _. HttpStatus 200) SESSION_ENDED sample_session sample_logged_in = (Ok [(d, p)], s')"
    by (simp add: end_one_def Let_def notify_def listening_client_def truthy_text_def deliver_def listening_app_def)
  then show ?thesis using logout_tokens_name_the_person[OF e, of d p] by simp
qed

end
