(* ===== verification/Spec2Isabelle.thy ===== *)
theory Spec2Isabelle
  imports Authz Assurance Cbor ScimFilterRoundtrip ScimPatch ScimBulkRunner Totp Recovery MfaStore
    ReleasePolicy LifecycleRules Retry AuditLog Grants Sessions OneTime RateLimits OidcClaims Roles DecisionCache AuthzLoader Enrolment SamlGate Orchestrator Reconciliation IdentityRelease WebAuthn Jwt Logout
begin

text \<open>
  A verification library for CampusID, an identity broker for a university: it takes logins from SAML identity providers,
  keeps its own registry of people, gives OIDC clients tokens and claims, provisions accounts over SCIM and LDAP, asks for
  second factors, decides authorization requests and keeps a tamper-evident trail.  Paths below are relative to
  \<open>src/campusid\<close>.

  \<^bold>\<open>The program and how its parts meet.\<close>  A login is a SAML response that passes the assertion gate (\<open>saml/gate.py\<close>); the
  facts it yields are linked to a person of the registry (\<open>identity/registry.py\<close>) and become a session in Redis
  (\<open>session/store.py\<close>).  A second factor (\<open>mfa/\<close>) raises what the session may claim.  An OIDC client gets an authorization
  code and then refresh tokens tied to that session (\<open>oidc/grants.py\<close>), and claims the release policy allows
  (\<open>policy/release.py\<close>, \<open>oidc/claims.py\<close>).  The student system writes people over SCIM (\<open>scim/\<close>); a change of affiliation runs
  through the lifecycle rules, the entitlement tables, the directory and, for a leaver, the sessions and tokens
  (\<open>lifecycle/orchestrator.py\<close>).  Decisions about resources come from \<open>authz/\<close> and are cached in Redis; every event is
  chained into the audit log (\<open>audit/\<close>).

  \<^bold>\<open>How the model is built.\<close>  Python's \<open>str\<close> is \<open>string\<close>, \<open>int\<close> is \<open>int\<close> or \<open>nat\<close>, JSON and YAML values are \<open>pyval\<close>, a dict is
  an association list where its order matters.  A class with state is a record, an operation a function from the state to a
  result and the next state; a raise is the left side of a sum.  Reading and writing that the code does in separate
  transactions or commands are separate functions, and races are stated over them.  Two kinds of storage recur: a table is a
  list of rows whose constraints are checked by a commit, and Redis is a record of commands.  Time is an argument.

  \<^bold>\<open>Theories.\<close>
  \<^item> \<open>Prelude\<close>, \<open>Bytes\<close>, \<open>Base32\<close>, \<open>Base64\<close>, \<open>JsonText\<close>, \<open>Documents\<close>, \<open>Url\<close>: strings, byte strings, base32 and base64, the text of a JSON document,
    reading of JSON documents, URLs, with the lemmas the components share.
  \<^item> \<open>Redis\<close>: the commands the broker uses, their laws (locale \<open>redis_server\<close>), and a server in memory that satisfies them.
  \<^item> \<open>ReloadingStore\<close>: a configuration file that is reloaded when it changes and kept when the new one does not validate
    (locale \<open>validated_loader\<close>); interpreted for the lifecycle rules, the roles and the policies.
  \<^item> \<open>Xml\<close>, \<open>SamlSignature\<close>, \<open>SamlGate\<close>: \<open>saml/namespaces.py\<close>, \<open>parser.py\<close>, \<open>xsw.py\<close>, \<open>algorithms.py\<close>, \<open>signature.py\<close>,
    \<open>encryption.py\<close>, \<open>gate.py\<close>.  An accepted response is verified, addressed to the broker, current, expected and new; what is
    read is what was verified; an issuer that verifies nothing leaves no trace.
  \<^item> \<open>OneTime\<close>: \<open>saml/stores.py\<close>, \<open>mfa/challenges.py\<close>, \<open>oidc/par.py\<close>, \<open>mfa/push.py\<close>.  An entry is spent once.
  \<^item> \<open>Sessions\<close>, \<open>Grants\<close>: \<open>session/store.py\<close>, \<open>oidc/grants.py\<close>, as step relations over Redis; a subject's sessions end together,
    a code and a token are redeemed once, a revoked family stays dead.  The theorems on overlapping requests say where that
    stops being so.
  \<^item> \<open>Identity\<close>, \<open>IdentityRelease\<close>: \<open>identity/models.py\<close>, \<open>registry.py\<close>, \<open>assertions.py\<close>, \<open>release.py\<close>.  On which evidence a login
    is attached to a person; an ePPN is never given to another; what the registry says wins over what is asserted.
  \<^item> \<open>LifecycleRules\<close>, \<open>LifecycleStore\<close>, \<open>Retry\<close>, \<open>DeadLetters\<close>, \<open>Orchestrator\<close>, \<open>Reconciliation\<close>: \<open>lifecycle/\<close>.  What a
    transition grants and revokes, what a person holds afterwards, sweeps that never expire a grant twice, a queue that
    implements a map from writes to attempts, a leaver who is cut off, a reconciliation that only switches accounts off.
  \<^item> \<open>LdapEscaping\<close>, \<open>DirectoryGroups\<close>, \<open>Directory\<close>: \<open>directory/\<close> and \<open>lifecycle/targets.py\<close>, over an LDAP server given by its
    commands and their laws (locale \<open>ldap_directory\<close>) and a server in memory.
  \<^item> \<open>ReleasePolicy\<close>, \<open>OidcClients\<close>, \<open>OidcClaims\<close>, \<open>BrokerErrors\<close>: \<open>policy/attributes.py\<close>, \<open>normalize.py\<close>, \<open>release.py\<close>,
    \<open>pairwise.py\<close>; \<open>oidc/clients.py\<close>, \<open>pkce.py\<close>, \<open>claims.py\<close>, \<open>identity.py\<close>; \<open>errors.py\<close> and \<open>oidc/errors.py\<close>.
  \<^item> \<open>PolicyLoader\<close>, \<open>ClientRegistry\<close>: \<open>policy/loader.py\<close>, \<open>oidc/registry.py\<close> and \<open>models.py\<close>.  The policies in force come from a
    directory that passed every check; a registered client is read back as it was registered.
  \<^item> \<open>Jwt\<close>, \<open>OAuth2\<close>, \<open>Logout\<close>: \<open>oidc/jwt.py\<close>, \<open>tokens.py\<close>, \<open>bearer.py\<close>, \<open>keys.py\<close> (the key set), \<open>logout.py\<close>, \<open>routes/oauth2.py\<close>,
    \<open>routes/logout.py\<close> and \<open>/userinfo\<close>.  A token that is accepted was signed by the broker as an access token, is unexpired and
    unrevoked; a code goes to a validated redirect URI and is exchanged only by its client with the verifier; a revocation and a
    logout take effect on every token they cover.
  \<^item> \<open>Totp\<close>, \<open>Recovery\<close>, \<open>Cbor\<close>, \<open>WebAuthn\<close>, \<open>MfaStore\<close>, \<open>Assurance\<close>, \<open>Enrolment\<close>, \<open>RateLimits\<close>: \<open>mfa/\<close> and \<open>security/throttle.py\<close>.
    \<open>Cbor\<close> shows that the decoder accepts exactly the shortest encodings, in bounded depth; \<open>WebAuthn\<close> (\<open>mfa/webauthn.py\<close>) that an accepted ceremony answers the
    broker's challenge, from its origin, with a counter that moved.
  \<^item> \<open>Authz\<close>, \<open>AuthzLoader\<close>, \<open>Roles\<close>, \<open>DecisionCache\<close>: \<open>authz/\<close>.  Deny overrides, the loader's policies are well formed, the
    role tables implement the abstract assignment, an invalidation hides every earlier decision.
  \<^item> \<open>AuditChain\<close>, \<open>AuditLog\<close>: \<open>audit/chain.py\<close>, \<open>events.py\<close>, \<open>log.py\<close>, \<open>models.py\<close>, \<open>retention.py\<close>.
  \<^item> \<open>ScimFilter\<close>, \<open>ScimFilterRoundtrip\<close>, \<open>ScimPatch\<close>, \<open>ScimBulk\<close>, \<open>ScimBulkRunner\<close>: \<open>scim/filters.py\<close>, \<open>patch.py\<close>, \<open>bulk.py\<close>,
    \<open>bulk_runner.py\<close>.  Printing and parsing a filter agree, a patch leaves the immutable attributes, a bulk request runs in an
    order that respects its references.

  \<^bold>\<open>Interfaces.\<close>  \<open>redis_server\<close> is extended by \<open>sessions_on_redis\<close>, \<open>grants_on_redis\<close>, \<open>cache_on_redis\<close>, \<open>limiter_on_redis\<close> and
  \<open>throttle_on_redis\<close>, each the client's laws for one component and each interpreted for the component on the server in memory;
  \<open>deprovisioning\<close> joins three of them for the leaver sequence.  \<open>cbor_reader\<close>, \<open>consuming\<close> and \<open>local_edit\<close> are the contracts of
  mutually recursive readers and of the edits a patch makes.

  \<^bold>\<open>Bounds and fuel.\<close>  The decoders and parsers recurse on a nesting limit taken from the source (CBOR depth, filter depth,
  group depth); loops over data recurse on the data.  The unbounded tasks (the sweeper, the reloads) are lists of passes.
  Nothing runs out of a bound the source does not have.

  \<^bold>\<open>Parameters.\<close>  Code outside the repository is an argument: SHA-256 and HMAC (a digest of 64 characters, injective on what was
  hashed where a theorem says so), Argon2, Redis, LDAP, PostgreSQL's constraints, the YAML reader, lxml, signxml, RSA and AES,
  ISO 8601, IPv6 texts, the push service, random identifiers.  Ratios are rationals where the code uses floats.

  \<^bold>\<open>Not modelled.\<close>  The rest of the HTTP layer (\<open>routes/\<close> other than the OAuth, logout and userinfo endpoints, \<open>app.py\<close>,
  middleware, cookies), which translates requests into the calls modelled here; configuration, logging, health and
  observability, which decide nothing; key files and their rotation, discovery documents, the metadata writers and the schema
  check of SAML, which are reading and writing of files and XML; the federation registry and the SCIM rows, which are parameters of
  the gate and of the bulk runner; the sample relying party; the dashboards, metrics and exports of the audit trail, which are SQL;
  migrations, scripts and tests.
\<close>

end
